(* ===== verification/Ohwes_Prelude.thy ===== *)
theory Ohwes_Prelude
  imports Main "HOL-Library.Word" "HOL-Library.Monad_Syntax"
begin

unbundle bit_operations_syntax

text \<open>
  Shared vocabulary of the OH-WES development.

  The kernel is compiled for the i386: \<open>size_t\<close>, \<open>uintptr_t\<close>, \<open>unsigned int\<close> and
  pointers are 32 bits wide, \<open>char\<close> is a signed byte. Unsigned quantities are words of
  their width, so that wrap-around is the one of the machine. A C \<open>int\<close> that is only
  compared and returned (return codes, file descriptors) is an \<open>int\<close>.

  Functions that can fail to return a value to their caller have an \<open>option\<close> type:
  \<open>None\<close> stands for a call of \<open>panic\<close> (which never returns), for a failed
  \<open>assert\<close> (which panics in the default \<open>DEBUG\<close> build) and for an access
  outside of the accessed array. So a theorem that a call equals \<open>Some r\<close> also states
  that the call neither panics nor leaves its buffers. Error codes are negative return
  values, as in the source.
\<close>

type_synonym u8 = "8 word"
type_synonym u16 = "16 word"
type_synonym u32 = "32 word"
type_synonym u64 = "64 word"

named_theorems errno_defs "numeric values of the error codes"

subsection \<open>Error numbers (include/errno.h)\<close>

definition ENOMEM :: int where [errno_defs]: "ENOMEM = 1"
definition ENFILE :: int where [errno_defs]: "ENFILE = 2"
definition EBADF :: int where [errno_defs]: "EBADF = 3"
definition ENOSYS :: int where [errno_defs]: "ENOSYS = 4"
definition EMFILE :: int where [errno_defs]: "EMFILE = 5"
definition ERANGE :: int where [errno_defs]: "ERANGE = 6"
definition ENODEV :: int where [errno_defs]: "ENODEV = 7"
definition EPERM :: int where [errno_defs]: "EPERM = 8"
definition EFAULT :: int where [errno_defs]: "EFAULT = 9"
definition EINVAL :: int where [errno_defs]: "EINVAL = 10"
definition ENXIO :: int where [errno_defs]: "ENXIO = 11"
definition ENOTTY :: int where [errno_defs]: "ENOTTY = 12"
definition EAGAIN :: int where [errno_defs]: "EAGAIN = 13"
definition ENOENT :: int where [errno_defs]: "ENOENT = 14"
definition EBUSY :: int where [errno_defs]: "EBUSY = 15"
definition EBADRQC :: int where [errno_defs]: "EBADRQC = 16"
definition EIO :: int where [errno_defs]: "EIO = 17"

subsection \<open>Array accesses\<close>

text \<open>A read or write outside of the array is undefined behaviour in C: \<open>None\<close>.\<close>

definition arr_get :: "'a list \<Rightarrow> nat \<Rightarrow> 'a option" where
  "arr_get xs i = (if i < length xs then Some (xs ! i) else None)"

definition arr_set :: "'a list \<Rightarrow> nat \<Rightarrow> 'a \<Rightarrow> 'a list option" where
  "arr_set xs i v = (if i < length xs then Some (xs[i := v]) else None)"

lemma arr_get_Some [simp]: "i < length xs \<Longrightarrow> arr_get xs i = Some (xs ! i)"
  by (simp add: arr_get_def)

lemma arr_set_Some [simp]: "i < length xs \<Longrightarrow> arr_set xs i v = Some (xs[i := v])"
  by (simp add: arr_set_def)

lemma arr_get_eq_Some [simp]: "arr_get xs i = Some v \<longleftrightarrow> i < length xs \<and> v = xs ! i"
  by (auto simp: arr_get_def)

lemma arr_set_eq_Some [simp]: "arr_set xs i v = Some ys \<longleftrightarrow> i < length xs \<and> ys = xs[i := v]"
  by (auto simp: arr_set_def)

lemma map_nth_update_outside:
  "i \<notin> set is \<Longrightarrow> map ((!) (xs[i := v])) is = map ((!) xs) is"
  by (induction "is") (auto intro: nth_list_update_neq)

definition assert_opt :: "bool \<Rightarrow> unit option" where
  "assert_opt b = (if b then Some () else None)"

lemma assert_opt_True [simp]: "assert_opt True = Some ()"
  by (simp add: assert_opt_def)

lemma assert_opt_eq_Some [simp]: "assert_opt b = Some u \<longleftrightarrow> b"
  by (auto simp: assert_opt_def)

lemma assert_opt_eq_None [simp]: "assert_opt b = None \<longleftrightarrow> \<not> b"
  by (auto simp: assert_opt_def)

text \<open>A signed 32-bit result; an overflow has no result.\<close>

definition int32 :: "int \<Rightarrow> int option" where
  "int32 x = (if - (2 ^ 31) \<le> x \<and> x < 2 ^ 31 then Some x else None)"

lemma int32_Some: "- (2 ^ 31) \<le> x \<Longrightarrow> x < 2 ^ 31 \<Longrightarrow> int32 x = Some x"
  by (simp add: int32_def)

subsection \<open>Ranges of words\<close>

lemma unat8_bound: "unat (x :: u8) < 256"
  using unsigned_less [of x] by simp

lemma unat16_bound: "unat (x :: u16) < 65536"
  using unsigned_less [of x] by simp

lemma unat32_bound: "unat (x :: u32) < 4294967296"
  using unsigned_less [of x] by simp

lemma of_nat_unat_id: "of_nat (unat w) = (w :: 'a :: len word)"
  by simp

text \<open>Equality of words bit by bit, with the bits written out.\<close>

lemma u8_eqI:
  assumes "\<And>n. n \<in> set [0, 1, 2, 3, 4, 5, 6, 7] \<Longrightarrow> bit x n \<longleftrightarrow> bit y n"
  shows "x = (y :: 8 word)"
proof (rule bit_word_eqI)
  have e: "[0, 1, 2, 3, 4, 5, 6, 7] = [0..<8]" by (simp add: upt_rec)
  fix n assume "n < LENGTH(8)"
  then have "n \<in> set [0, 1, 2, 3, 4, 5, 6, 7]" unfolding e by simp
  then show "bit x n \<longleftrightarrow> bit y n" by (rule assms)
qed

lemma u16_eqI:
  assumes "\<And>n. n \<in> set [0, 1, 2, 3, 4, 5, 6, 7, 8, 9, 10, 11, 12, 13, 14, 15] \<Longrightarrow> bit x n \<longleftrightarrow> bit y n"
  shows "x = (y :: 16 word)"
proof (rule bit_word_eqI)
  have e: "[0, 1, 2, 3, 4, 5, 6, 7, 8, 9, 10, 11, 12, 13, 14, 15] = [0..<16]" by (simp add: upt_rec)
  fix n assume "n < LENGTH(16)"
  then have "n \<in> set [0, 1, 2, 3, 4, 5, 6, 7, 8, 9, 10, 11, 12, 13, 14, 15]" unfolding e by simp
  then show "bit x n \<longleftrightarrow> bit y n" by (rule assms)
qed

subsection \<open>Positions of a ring of \<open>n\<close> cells\<close>

text \<open>The \<open>k\<close> cells of a ring of \<open>n\<close> cells that start at cell \<open>h\<close>, in order.\<close>

definition ring_cells :: "nat \<Rightarrow> nat \<Rightarrow> nat \<Rightarrow> nat list" where
  "ring_cells n h k = map (\<lambda>i. (h + i) mod n) [0..<k]"

lemma length_ring_cells [simp]: "length (ring_cells n h k) = k"
  by (simp add: ring_cells_def)

lemma ring_cells_0 [simp]: "ring_cells n h 0 = []"
  by (simp add: ring_cells_def)

lemma ring_cells_snoc: "ring_cells n h (Suc k) = ring_cells n h k @ [(h + k) mod n]"
  by (simp add: ring_cells_def)

lemma ring_cells_Cons:
  "ring_cells n h (Suc k) = (h mod n) # ring_cells n (Suc h mod n) k"
proof -
  have "map (\<lambda>i. (h + i) mod n) [0..<Suc k] = (h mod n) # map (\<lambda>i. (h + Suc i) mod n) [0..<k]"
    by (simp add: upt_conv_Cons map_Suc_upt [symmetric] del: upt_Suc)
  moreover have "(h + Suc i) mod n = (Suc h mod n + i) mod n" for i
    by (simp add: mod_simps)
  ultimately show ?thesis
    by (simp add: ring_cells_def)
qed

lemma set_ring_cells: "0 < n \<Longrightarrow> x \<in> set (ring_cells n h k) \<Longrightarrow> x < n"
  by (auto simp: ring_cells_def)

text \<open>The cell after the last one in use is not in use while the ring is not full.\<close>

lemma ring_cells_fresh:
  assumes "k < n"
  shows "(h + k) mod n \<notin> set (ring_cells n h k)"
proof
  assume "(h + k) mod n \<in> set (ring_cells n h k)"
  then obtain i where i: "i < k" "(h + k) mod n = (h + i) mod n"
    by (auto simp: ring_cells_def)
  then have "n dvd (h + k) - (h + i)"
    by (metis mod_eq_dvd_iff_nat add_le_cancel_left less_imp_le)
  then have "n dvd k - i"
    by simp
  with i assms show False
    by (auto dest: dvd_imp_le)
qed

end
