(* ===== verification/Ring.thy ===== *)
theory Ring
  imports Ohwes_Prelude
begin

text \<open>
  The character queue of \<^verbatim>\<open>src/kernel/ring.c\<close> (interface
  \<^verbatim>\<open>src/include/kernel/queue.h\<close>): a double-ended queue of bytes in a caller-supplied
  array. The record holds the fields of \<open>struct ring\<close>; the array the pointer
  \<open>ring\<close> refers to is the list \<open>r_ring\<close>. The abstraction \<open>ring_list\<close>
  reads the queued characters from front to back; the invariant \<open>ring_ok\<close> relates
  head, tail and count. The locale \<open>bounded_deque\<close> is the contract the clients of the
  ring (line discipline, serial driver) rely on.
\<close>

record ring =
  r_ring :: "u8 list"
  r_length :: u32
  r_count :: u32
  r_head :: u32
  r_tail :: u32

definition ring_init :: "u8 list \<Rightarrow> u32 \<Rightarrow> ring" where
  "ring_init buf len = \<lparr>r_ring = buf, r_length = len, r_count = 0, r_head = 0, r_tail = 0\<rparr>"

definition ring_empty :: "ring \<Rightarrow> bool" where
  "ring_empty q \<longleftrightarrow> r_count q = 0"

definition ring_full :: "ring \<Rightarrow> bool" where
  "ring_full q \<longleftrightarrow> r_count q = r_length q"

definition ring_get :: "ring \<Rightarrow> (u8 \<times> ring) option" where
  "ring_get q =
    (if ring_empty q then Some (0, q)
     else do {
       c \<leftarrow> arr_get (r_ring q) (unat (r_head q));
       let head = r_head q + 1;
       let head = (if r_length q \<le> head then 0 else head);
       Some (c, q\<lparr>r_head := head, r_count := r_count q - 1\<rparr>)
     })"

definition ring_put :: "ring \<Rightarrow> u8 \<Rightarrow> (bool \<times> ring) option" where
  "ring_put q c =
    (if ring_full q then Some (False, q)
     else do {
       buf \<leftarrow> arr_set (r_ring q) (unat (r_tail q)) c;
       let tail = r_tail q + 1;
       let tail = (if r_length q \<le> tail then 0 else tail);
       Some (True, q\<lparr>r_ring := buf, r_tail := tail, r_count := r_count q + 1\<rparr>)
     })"

definition ring_erase :: "ring \<Rightarrow> (u8 \<times> ring) option" where
  "ring_erase q =
    (if ring_empty q then Some (0, q)
     else do {
       let tail = (if r_tail q = 0 then r_length q else r_tail q);
       let tail = tail - 1;
       c \<leftarrow> arr_get (r_ring q) (unat tail);
       Some (c, q\<lparr>r_tail := tail, r_count := r_count q - 1\<rparr>)
     })"

definition ring_insert :: "ring \<Rightarrow> u8 \<Rightarrow> (bool \<times> ring) option" where
  "ring_insert q c =
    (if ring_full q then Some (False, q)
     else do {
       let head = (if r_head q = 0 then r_length q else r_head q);
       let head = head - 1;
       buf \<leftarrow> arr_set (r_ring q) (unat head) c;
       Some (True, q\<lparr>r_ring := buf, r_head := head, r_count := r_count q + 1\<rparr>)
     })"

definition ring_length :: "ring \<Rightarrow> u32" where
  "ring_length q = r_length q"

definition ring_count :: "ring \<Rightarrow> u32" where
  "ring_count q = r_count q"

definition ring_clear :: "ring \<Rightarrow> ring" where
  "ring_clear q = q\<lparr>r_head := 0, r_tail := 0, r_count := 0\<rparr>"

subsection \<open>Invariant and abstraction\<close>

definition ring_ok :: "ring \<Rightarrow> bool" where
  "ring_ok q \<longleftrightarrow>
     length (r_ring q) = unat (r_length q) \<and>
     r_count q \<le> r_length q \<and>
     (r_length q \<noteq> 0 \<longrightarrow>
        r_head q < r_length q \<and> r_tail q < r_length q \<and>
        unat (r_tail q) = (unat (r_head q) + unat (r_count q)) mod unat (r_length q))"

definition ring_list :: "ring \<Rightarrow> u8 list" where
  "ring_list q =
     map ((!) (r_ring q)) (ring_cells (unat (r_length q)) (unat (r_head q)) (unat (r_count q)))"

definition ring_capacity :: "ring \<Rightarrow> nat" where
  "ring_capacity q = unat (r_length q)"

lemmas ring_op_defs =
  ring_get_def ring_put_def ring_erase_def ring_insert_def ring_empty_def ring_full_def

lemma length_ring_list [simp]: "length (ring_list q) = unat (r_count q)"
  by (simp add: ring_list_def)

lemma ring_count_le: "ring_ok q \<Longrightarrow> unat (r_count q) \<le> unat (r_length q)"
  by (simp add: ring_ok_def word_le_nat_alt)

lemma ring_empty_iff: "ring_empty q \<longleftrightarrow> ring_list q = []"
  by (simp add: ring_empty_def ring_list_def unat_eq_zero flip: length_0_conv)

lemma ring_full_iff: "ring_full q \<longleftrightarrow> length (ring_list q) = ring_capacity q"
  by (simp add: ring_full_def ring_capacity_def unat_arith_simps)

lemma ring_blocked:
  "ring_empty q \<Longrightarrow> ring_get q = Some (0, q)" "ring_empty q \<Longrightarrow> ring_erase q = Some (0, q)"
  "ring_full q \<Longrightarrow> ring_put q c = Some (False, q)" "ring_full q \<Longrightarrow> ring_insert q c = Some (False, q)"
  by (simp_all add: ring_get_def ring_erase_def ring_put_def ring_insert_def)

subsection \<open>Stepping an index around the ring\<close>

lemma unat_inc_wrap:
  fixes i n :: u32
  assumes "i < n"
  shows "unat (if n \<le> i + 1 then 0 else i + 1) = Suc (unat i) mod unat n"
proof -
  have lt: "unat i < unat n" using assms by (simp add: word_less_nat_alt)
  have "unat (i + 1) = Suc (unat i)"
    using lt unat32_bound [of n] by (simp add: unat_word_ariths)
  with lt show ?thesis
    by (cases "Suc (unat i) = unat n") (auto simp: word_le_nat_alt)
qed

lemma unat_dec_wrap:
  fixes i n :: u32
  assumes "i < n"
  shows "unat ((if i = 0 then n else i) - 1) = (unat i + (unat n - 1)) mod unat n"
proof -
  have n: "0 < unat n" "unat i < unat n"
    using assms by (auto simp: word_less_nat_alt)
  have dec: "unat (j - 1) = unat j - 1" if "j \<noteq> 0" for j :: u32
    using that by (simp add: unat_minus_one)
  show ?thesis
  proof (cases "i = 0")
    case True
    moreover have "n \<noteq> 0" using n by auto
    ultimately show ?thesis using n by (simp add: dec)
  next
    case False
    then have "0 < unat i" by (simp add: unat_gt_0)
    then have "(unat i + (unat n - 1)) mod unat n = ((unat i - 1) + unat n) mod unat n"
      using n by simp
    also have "\<dots> = unat i - 1" using n by simp
    finally show ?thesis using False by (simp add: dec)
  qed
qed

lemma unat_count_inc:
  fixes c n :: u32
  assumes "c \<le> n" "c \<noteq> n"
  shows "unat (c + 1) = Suc (unat c)" "c + 1 \<le> n"
proof -
  have lt: "unat c < unat n"
    using assms by (simp add: word_le_nat_alt word_unat_eq_iff)
  show s: "unat (c + 1) = Suc (unat c)"
    using lt unat32_bound [of n] by (simp add: unat_word_ariths)
  show "c + 1 \<le> n" using lt s by (simp add: word_le_nat_alt)
qed

lemma unat_count_dec:
  fixes c n :: u32
  assumes "c \<le> n" "c \<noteq> 0"
  shows "unat c = Suc (unat (c - 1))" "c - 1 \<le> n"
proof -
  have s: "unat (c - 1) = unat c - 1" and p: "0 < unat c"
    using assms by (simp_all add: unat_minus_one unat_gt_0)
  from s p show "unat c = Suc (unat (c - 1))" by simp
  from s assms show "c - 1 \<le> n" by (simp add: word_le_nat_alt)
qed


lemmas unat_wrap_simps [simp] = unat_inc_wrap unat_dec_wrap

lemma ring_okD:
  assumes "ring_ok q" "r_length q \<noteq> 0"
  shows "length (r_ring q) = unat (r_length q)" "r_count q \<le> r_length q"
    "r_head q < r_length q" "r_tail q < r_length q" "0 < unat (r_length q)"
    "unat (r_head q) < unat (r_length q)" "unat (r_tail q) < unat (r_length q)"
    "unat (r_tail q) = (unat (r_head q) + unat (r_count q)) mod unat (r_length q)"
  using assms by (auto simp: ring_ok_def word_less_nat_alt unat_gt_0)

subsection \<open>The operations on the abstraction\<close>

lemma ring_init_ok:
  "length buf = unat len \<Longrightarrow> ring_ok (ring_init buf len) \<and> ring_list (ring_init buf len) = []"
  by (auto simp: ring_ok_def ring_init_def ring_list_def word_neq_0_conv)

lemma ring_clear_ok: "ring_ok q \<Longrightarrow> ring_ok (ring_clear q) \<and> ring_list (ring_clear q) = []"
  by (auto simp: ring_ok_def ring_clear_def ring_list_def word_neq_0_conv)

lemma ring_put_not_full:
  assumes ok: "ring_ok q" and nf: "\<not> ring_full q"
  shows "\<exists>q'. ring_put q c = Some (True, q') \<and> ring_ok q' \<and>
    ring_list q' = ring_list q @ [c] \<and> r_length q' = r_length q"
proof -
  let ?n = "unat (r_length q)" and ?h = "unat (r_head q)" and ?k = "unat (r_count q)"
  have nz: "r_length q \<noteq> 0"
    using ok nf by (auto simp: ring_ok_def ring_full_def)
  note d = ring_okD [OF ok nz]
  have cnt: "unat (r_count q + 1) = Suc ?k" "r_count q + 1 \<le> r_length q"
    using unat_count_inc [of "r_count q" "r_length q"] d(2) nf by (auto simp: ring_full_def)
  have kn: "?k < ?n" using cnt by (simp add: word_le_nat_alt)
  define tail' where "tail' = (if r_length q \<le> r_tail q + 1 then 0 else r_tail q + 1)"
  define q' where "q' = q\<lparr>r_ring := (r_ring q)[unat (r_tail q) := c], r_tail := tail', r_count := r_count q + 1\<rparr>"
  have t': "unat tail' = Suc (unat (r_tail q)) mod ?n"
    using d(4) by (simp add: tail'_def)
  have put: "ring_put q c = Some (True, q')"
    using nf d by (simp add: ring_put_def Let_def q'_def tail'_def)
  have "tail' < r_length q"
    using t' d(5) by (simp add: word_less_nat_alt)
  moreover have "unat tail' = (?h + unat (r_count q + 1)) mod ?n"
    by (simp add: t' d(8) cnt mod_simps)
  ultimately have ok': "ring_ok q'"
    using d cnt by (simp add: ring_ok_def q'_def)
  have "map ((!) ((r_ring q)[unat (r_tail q) := c])) (ring_cells ?n ?h ?k) = ring_list q"
    using ring_cells_fresh [OF kn, of ?h] by (simp add: ring_list_def map_nth_update_outside d(8))
  moreover have "ring_list q' = map ((!) ((r_ring q)[unat (r_tail q) := c])) (ring_cells ?n ?h (Suc ?k))"
    by (simp add: ring_list_def q'_def cnt)
  ultimately have "ring_list q' = ring_list q @ [c]"
    using d(1,5) by (simp add: ring_cells_snoc d(8))
  with put ok' show ?thesis by (auto simp: q'_def)
qed

lemma ring_get_not_empty:
  assumes ok: "ring_ok q" and ne: "\<not> ring_empty q"
  shows "\<exists>q'. ring_get q = Some (hd (ring_list q), q') \<and> ring_ok q' \<and>
    ring_list q' = tl (ring_list q) \<and> r_length q' = r_length q"
proof -
  let ?n = "unat (r_length q)" and ?h = "unat (r_head q)"
  have nz: "r_length q \<noteq> 0"
    using ok ne by (auto simp: ring_ok_def ring_empty_def)
  note d = ring_okD [OF ok nz]
  have cnt: "unat (r_count q) = Suc (unat (r_count q - 1))" "r_count q - 1 \<le> r_length q"
    using unat_count_dec [of "r_count q" "r_length q"] d(2) ne by (auto simp: ring_empty_def)
  define head' where "head' = (if r_length q \<le> r_head q + 1 then 0 else r_head q + 1)"
  define q' where "q' = q\<lparr>r_head := head', r_count := r_count q - 1\<rparr>"
  have h': "unat head' = Suc ?h mod ?n"
    using d(3) by (simp add: head'_def)
  have "head' < r_length q"
    using h' d(5) by (simp add: word_less_nat_alt)
  moreover have "unat (r_tail q) = (unat head' + unat (r_count q - 1)) mod ?n"
    by (simp add: d(8) h' cnt(1) mod_simps)
  ultimately have ok': "ring_ok q'"
    using d cnt by (simp add: ring_ok_def q'_def)
  have lst: "ring_list q = (r_ring q ! ?h) # ring_list q'"
    using d by (simp add: ring_list_def q'_def cnt(1) ring_cells_Cons h')
  have "ring_get q = Some (r_ring q ! ?h, q')"
    using ne d by (simp add: ring_get_def Let_def q'_def head'_def)
  with lst ok' show ?thesis by (auto simp: q'_def)
qed

lemma ring_erase_not_empty:
  assumes ok: "ring_ok q" and ne: "\<not> ring_empty q"
  shows "\<exists>q'. ring_erase q = Some (last (ring_list q), q') \<and> ring_ok q' \<and>
    ring_list q' = butlast (ring_list q) \<and> r_length q' = r_length q"
proof -
  let ?n = "unat (r_length q)" and ?h = "unat (r_head q)"
  have nz: "r_length q \<noteq> 0"
    using ok ne by (auto simp: ring_ok_def ring_empty_def)
  note d = ring_okD [OF ok nz]
  have cnt: "unat (r_count q) = Suc (unat (r_count q - 1))" "r_count q - 1 \<le> r_length q"
    using unat_count_dec [of "r_count q" "r_length q"] d(2) ne by (auto simp: ring_empty_def)
  define tail' where "tail' = (if r_tail q = 0 then r_length q else r_tail q) - 1"
  define q' where "q' = q\<lparr>r_tail := tail', r_count := r_count q - 1\<rparr>"
  have "unat tail' = (unat (r_tail q) + (?n - 1)) mod ?n"
    using d(4) by (simp add: tail'_def)
  also have "\<dots> = ((?h + Suc (unat (r_count q - 1))) + (?n - 1)) mod ?n"
    by (simp only: d(8) cnt(1) mod_add_left_eq)
  also have "\<dots> = (?h + unat (r_count q - 1) + ?n) mod ?n"
    using d(5) by simp
  finally have t': "unat tail' = (?h + unat (r_count q - 1)) mod ?n" by simp
  have tl: "tail' < r_length q"
    using t' d(5) by (simp add: word_less_nat_alt)
  with t' have ok': "ring_ok q'"
    using d cnt by (simp add: ring_ok_def q'_def)
  have lst: "ring_list q = ring_list q' @ [r_ring q ! unat tail']"
    by (simp add: ring_list_def q'_def cnt(1) ring_cells_snoc t')
  have "ring_erase q = Some (r_ring q ! unat tail', q')"
    using ne d tl by (simp add: ring_erase_def Let_def q'_def tail'_def word_less_nat_alt)
  with lst ok' show ?thesis by (auto simp: q'_def)
qed

lemma ring_insert_not_full:
  assumes ok: "ring_ok q" and nf: "\<not> ring_full q"
  shows "\<exists>q'. ring_insert q c = Some (True, q') \<and> ring_ok q' \<and>
    ring_list q' = c # ring_list q \<and> r_length q' = r_length q"
proof -
  let ?n = "unat (r_length q)" and ?h = "unat (r_head q)" and ?k = "unat (r_count q)"
  have nz: "r_length q \<noteq> 0"
    using ok nf by (auto simp: ring_ok_def ring_full_def)
  note d = ring_okD [OF ok nz]
  have cnt: "unat (r_count q + 1) = Suc ?k" "r_count q + 1 \<le> r_length q"
    using unat_count_inc [of "r_count q" "r_length q"] d(2) nf by (auto simp: ring_full_def)
  have kn: "?k < ?n" using cnt by (simp add: word_le_nat_alt)
  define head' where "head' = (if r_head q = 0 then r_length q else r_head q) - 1"
  define q' where "q' = q\<lparr>r_ring := (r_ring q)[unat head' := c], r_head := head', r_count := r_count q + 1\<rparr>"
  have h': "unat head' = (?h + (?n - 1)) mod ?n"
    using d(3) by (simp add: head'_def)
  have "Suc (unat head') mod ?n = (?h + ?n) mod ?n"
    using d(5) by (simp add: h' mod_Suc_eq flip: add_Suc_right)
  then have h: "Suc (unat head') mod ?n = ?h" using d by simp
  have hl: "unat head' < ?n" using h' d(5) by simp
  have "(unat head' + Suc ?k) mod ?n = (Suc (unat head') mod ?n + ?k) mod ?n"
    by (simp add: mod_simps)
  then have "unat (r_tail q) = (unat head' + unat (r_count q + 1)) mod ?n"
    by (simp add: h d(8) cnt)
  then have ok': "ring_ok q'"
    using d cnt hl by (simp add: ring_ok_def q'_def word_less_nat_alt)
  have "unat head' \<notin> set (ring_cells ?n ?h ?k)"
  proof
    assume "unat head' \<in> set (ring_cells ?n ?h ?k)"
    then obtain i where i: "i < ?k" "unat head' = (?h + i) mod ?n"
      by (auto simp: ring_cells_def)
    have "?h = (?h + i + 1) mod ?n" using h i(2) by (simp add: mod_Suc_eq)
    then have "?n dvd (?h + i + 1) - ?h"
      by (metis d(6) le_add1 mod_eq_dvd_iff_nat mod_less add.assoc)
    with i kn show False by (auto dest: dvd_imp_le)
  qed
  then have "map ((!) ((r_ring q)[unat head' := c])) (ring_cells ?n ?h ?k) = ring_list q"
    by (simp add: ring_list_def map_nth_update_outside)
  moreover have "ring_list q' = map ((!) ((r_ring q)[unat head' := c])) (ring_cells ?n (unat head') (Suc ?k))"
    by (simp add: ring_list_def q'_def cnt)
  ultimately have "ring_list q' = c # ring_list q"
    using d(1) hl by (simp add: ring_cells_Cons h)
  moreover have "ring_insert q c = Some (True, q')"
    using nf d hl by (simp add: ring_insert_def Let_def q'_def head'_def)
  ultimately show ?thesis using ok' by (auto simp: q'_def)
qed


subsection \<open>The contract of the queue and its clients' view\<close>

locale bounded_deque =
  fixes inv :: "'q \<Rightarrow> bool"
    and contents :: "'q \<Rightarrow> 'c list"
    and capacity :: "'q \<Rightarrow> nat"
    and put :: "'q \<Rightarrow> 'c \<Rightarrow> (bool \<times> 'q) option"
    and get :: "'q \<Rightarrow> ('c \<times> 'q) option"
  assumes contents_le: "inv q \<Longrightarrow> length (contents q) \<le> capacity q"
    and put_room: "inv q \<Longrightarrow> length (contents q) < capacity q \<Longrightarrow>
      \<exists>q'. put q c = Some (True, q') \<and> inv q' \<and> contents q' = contents q @ [c] \<and> capacity q' = capacity q"
    and put_full: "inv q \<Longrightarrow> length (contents q) = capacity q \<Longrightarrow> put q c = Some (False, q)"
    and get_some: "inv q \<Longrightarrow> contents q \<noteq> [] \<Longrightarrow>
      \<exists>q'. get q = Some (hd (contents q), q') \<and> inv q' \<and> contents q' = tl (contents q) \<and> capacity q' = capacity q"
begin

text \<open>A put never panics, and the invariant survives it.\<close>

lemma put_total:
  "inv q \<Longrightarrow> \<exists>b q'. put q c = Some (b, q') \<and> inv q' \<and> capacity q' = capacity q \<and>
     b = (length (contents q) < capacity q) \<and> contents q' = (if b then contents q @ [c] else contents q)"
  using contents_le [of q] put_room [of q c] put_full [of q c]
  by (cases "length (contents q) < capacity q") auto

fun put_list :: "'q \<Rightarrow> 'c list \<Rightarrow> 'q option" where
  "put_list q [] = Some q"
| "put_list q (c # cs) = (case put q c of None \<Rightarrow> None | Some (_, q') \<Rightarrow> put_list q' cs)"

fun get_list :: "nat \<Rightarrow> 'q \<Rightarrow> ('c list \<times> 'q) option" where
  "get_list 0 q = Some ([], q)"
| "get_list (Suc n) q =
     (case get q of None \<Rightarrow> None
      | Some (c, q') \<Rightarrow> map_option (\<lambda>(cs, q''). (c # cs, q'')) (get_list n q'))"

text \<open>A sequence of puts appends what fits and drops the rest.\<close>

lemma put_list_contents:
  "inv q \<Longrightarrow> \<exists>q'. put_list q cs = Some q' \<and> inv q' \<and> capacity q' = capacity q \<and>
     contents q' = contents q @ take (capacity q - length (contents q)) cs"
proof (induction cs arbitrary: q)
  case Nil
  then show ?case by simp
next
  case (Cons c cs)
  obtain b q1 where q1: "put q c = Some (b, q1)" "inv q1" "capacity q1 = capacity q"
    "b = (length (contents q) < capacity q)" "contents q1 = (if b then contents q @ [c] else contents q)"
    using put_total [OF Cons.prems, of c] by blast
  obtain q2 where "put_list q1 cs = Some q2" "inv q2" "capacity q2 = capacity q1"
    "contents q2 = contents q1 @ take (capacity q1 - length (contents q1)) cs"
    using Cons.IH [OF q1(2)] by blast
  with q1 show ?case
    by (auto simp: take_Cons' not_less Suc_diff_le diff_Suc split: nat.splits)
qed

lemma get_list_contents:
  "inv q \<Longrightarrow> n \<le> length (contents q) \<Longrightarrow>
     \<exists>q'. get_list n q = Some (take n (contents q), q') \<and> inv q' \<and> capacity q' = capacity q \<and>
       contents q' = drop n (contents q)"
proof (induction n arbitrary: q)
  case 0
  then show ?case by simp
next
  case (Suc n)
  then have ne: "contents q \<noteq> []" by auto
  obtain q1 where q1: "get q = Some (hd (contents q), q1)" "inv q1"
    "contents q1 = tl (contents q)" "capacity q1 = capacity q"
    using get_some [OF Suc.prems(1) ne] by blast
  with Suc.prems have "n \<le> length (contents q1)" by simp
  from Suc.IH [OF q1(2) this] q1 ne show ?case
    by (auto simp: take_Suc drop_Suc)
qed

end

interpretation ring_dq: bounded_deque ring_ok ring_list ring_capacity ring_put ring_get
proof unfold_locales
  fix q c
  assume ok: "ring_ok q"
  then show "length (ring_list q) \<le> ring_capacity q"
    by (simp add: ring_count_le ring_capacity_def)
  show "\<exists>q'. ring_put q c = Some (True, q') \<and> ring_ok q' \<and> ring_list q' = ring_list q @ [c] \<and>
      ring_capacity q' = ring_capacity q" if "length (ring_list q) < ring_capacity q"
    using ring_put_not_full [OF ok, of c] that by (auto simp: ring_full_iff ring_capacity_def)
  show "ring_put q c = Some (False, q)" if "length (ring_list q) = ring_capacity q"
    using that by (simp add: ring_put_def ring_full_iff)
  show "\<exists>q'. ring_get q = Some (hd (ring_list q), q') \<and> ring_ok q' \<and> ring_list q' = tl (ring_list q) \<and>
      ring_capacity q' = ring_capacity q" if "ring_list q \<noteq> []"
    using ring_get_not_empty [OF ok] that by (auto simp: ring_empty_iff ring_capacity_def)
qed


text \<open>
  C3: Every operation of the ring refines the corresponding operation of a bounded
  double-ended list: from a well-formed ring it neither panics nor leaves its buffer, keeps the
  ring well-formed and of the same capacity, a put or insert adds the character at the back or
  front exactly when there is room (and reports it), a get or erase removes and returns the
  character at the front or back, and returns NUL and changes nothing on an empty ring.
\<close>

theorem ring_ops_refine_deque:
  assumes "ring_ok q"
  shows "(\<exists>b q'. ring_put q c = Some (b, q') \<and> ring_ok q' \<and> r_length q' = r_length q \<and>
        b = (length (ring_list q) < ring_capacity q) \<and>
        ring_list q' = (if b then ring_list q @ [c] else ring_list q))
    \<and> (\<exists>b q'. ring_insert q c = Some (b, q') \<and> ring_ok q' \<and> r_length q' = r_length q \<and>
        b = (length (ring_list q) < ring_capacity q) \<and>
        ring_list q' = (if b then c # ring_list q else ring_list q))
    \<and> (\<exists>x q'. ring_get q = Some (x, q') \<and> ring_ok q' \<and> r_length q' = r_length q \<and>
        ring_list q' = tl (ring_list q) \<and>
        x = (if ring_list q = [] then 0 else hd (ring_list q)))
    \<and> (\<exists>x q'. ring_erase q = Some (x, q') \<and> ring_ok q' \<and> r_length q' = r_length q \<and>
        ring_list q' = butlast (ring_list q) \<and>
        x = (if ring_list q = [] then 0 else last (ring_list q)))"
proof (intro conjI)
  have lt: "length (ring_list q) < ring_capacity q \<longleftrightarrow> \<not> ring_full q"
    using ring_count_le [OF assms] by (auto simp: ring_full_iff ring_capacity_def)
  show "\<exists>b q'. ring_put q c = Some (b, q') \<and> ring_ok q' \<and> r_length q' = r_length q \<and>
      b = (length (ring_list q) < ring_capacity q) \<and>
      ring_list q' = (if b then ring_list q @ [c] else ring_list q)"
    unfolding lt using ring_put_not_full [OF assms, of c] assms
    by (cases "ring_full q") (auto simp: ring_blocked)
  show "\<exists>b q'. ring_insert q c = Some (b, q') \<and> ring_ok q' \<and> r_length q' = r_length q \<and>
      b = (length (ring_list q) < ring_capacity q) \<and>
      ring_list q' = (if b then c # ring_list q else ring_list q)"
    unfolding lt using ring_insert_not_full [OF assms, of c] assms
    by (cases "ring_full q") (auto simp: ring_blocked)
  show "\<exists>x q'. ring_get q = Some (x, q') \<and> ring_ok q' \<and> r_length q' = r_length q \<and>
      ring_list q' = tl (ring_list q) \<and> x = (if ring_list q = [] then 0 else hd (ring_list q))"
    using ring_get_not_empty [OF assms] assms ring_blocked(1) [of q]
    by (cases "ring_list q = []") (auto simp: ring_empty_iff)
  show "\<exists>x q'. ring_erase q = Some (x, q') \<and> ring_ok q' \<and> r_length q' = r_length q \<and>
      ring_list q' = butlast (ring_list q) \<and> x = (if ring_list q = [] then 0 else last (ring_list q))"
    using ring_erase_not_empty [OF assms] assms ring_blocked(2) [of q]
    by (cases "ring_list q = []") (auto simp: ring_empty_iff)
qed

theorem ring_ops_refine_deque_witness:
  "ring_ok (ring_init [0, 0] 2) \<and>
   (\<exists>q'. ring_put (ring_init [0, 0] 2) 65 = Some (True, q') \<and> ring_ok q' \<and> ring_list q' = [65])"
proof -
  have ok: "ring_ok (ring_init [0, 0] 2)"
    by (simp add: ring_ok_def ring_init_def)
  have "ring_list (ring_init [0, 0] 2) = []" "ring_capacity (ring_init [0, 0] 2) = 2"
    by (simp_all add: ring_list_def ring_capacity_def ring_init_def)
  then show ?thesis
    using ok ring_ops_refine_deque [OF ok, of 65] by auto
qed

end
