(* ===== verification/Klist.thy ===== *)
theory Klist
  imports Ohwes_Prelude
begin

text \<open>
  The circular doubly linked lists of \<^verbatim>\<open>src/kernel/list.c\<close> and
  \<^verbatim>\<open>src/include/kernel/list.h\<close>. The \<open>prev\<close> and \<open>next\<close> fields of all
  \<open>struct list_node\<close>s are two functions over node addresses, so that aliasing between
  nodes is the one of the source. \<open>dlist h head xs\<close> says that the list with head node
  \<open>head\<close> holds the nodes \<open>xs\<close> in the order of \<open>list_iterator\<close>.
\<close>

record 'n links =
  l_prev :: "'n \<Rightarrow> 'n"
  l_next :: "'n \<Rightarrow> 'n"

definition set_prev :: "'n \<Rightarrow> 'n \<Rightarrow> 'n links \<Rightarrow> 'n links" where
  "set_prev n v h = h\<lparr>l_prev := (l_prev h)(n := v)\<rparr>"

definition set_next :: "'n \<Rightarrow> 'n \<Rightarrow> 'n links \<Rightarrow> 'n links" where
  "set_next n v h = h\<lparr>l_next := (l_next h)(n := v)\<rparr>"

definition insert_into_list :: "'n \<Rightarrow> 'n \<Rightarrow> 'n \<Rightarrow> 'n links \<Rightarrow> 'n links" where
  "insert_into_list prev nxt item h =
     (let h = set_prev nxt item h;
          h = set_next prev item h;
          h = set_prev item prev h
      in set_next item nxt h)"

definition remove_from_list :: "'n \<Rightarrow> 'n \<Rightarrow> 'n \<Rightarrow> 'n links \<Rightarrow> 'n links" where
  "remove_from_list prev nxt item h =
     (let h = set_prev nxt prev h;
          h = set_next prev nxt h;
          h = set_prev item item h
      in set_next item item h)"

definition list_init :: "'n \<Rightarrow> 'n links \<Rightarrow> 'n links" where
  "list_init head h = set_next head head (set_prev head head h)"

definition list_empty :: "'n \<Rightarrow> 'n links \<Rightarrow> bool" where
  "list_empty head h \<longleftrightarrow> l_next h head = head"

definition list_add :: "'n \<Rightarrow> 'n \<Rightarrow> 'n links \<Rightarrow> 'n links" where
  "list_add head item h = insert_into_list (l_prev h head) head item h"

definition list_add_tail :: "'n \<Rightarrow> 'n \<Rightarrow> 'n links \<Rightarrow> 'n links" where
  "list_add_tail head item h = insert_into_list head (l_next h head) item h"

definition list_remove :: "'n \<Rightarrow> 'n links \<Rightarrow> 'n links" where
  "list_remove item h = remove_from_list (l_prev h item) (l_next h item) item h"

text \<open>The nodes a \<open>for (list_iterator(head, pos))\<close> loop visits from \<open>pos\<close> on.\<close>

partial_function (option) list_iterate :: "'n links \<Rightarrow> 'n \<Rightarrow> 'n \<Rightarrow> 'n list option" where
  "list_iterate h head pos =
     (if pos = head then Some []
      else do { ns \<leftarrow> list_iterate h head (l_next h pos); Some (pos # ns) })"

subsection \<open>Chains of links\<close>

primrec chain :: "('n \<Rightarrow> 'n) \<Rightarrow> 'n \<Rightarrow> 'n list \<Rightarrow> 'n \<Rightarrow> bool" where
  "chain f a [] b \<longleftrightarrow> f a = b"
| "chain f a (x # xs) b \<longleftrightarrow> f a = x \<and> chain f x xs b"

definition dlist :: "'n links \<Rightarrow> 'n \<Rightarrow> 'n list \<Rightarrow> bool" where
  "dlist h head xs \<longleftrightarrow>
     distinct (head # xs) \<and> chain (l_next h) head xs head \<and> chain (l_prev h) head (rev xs) head"

lemma chain_append [simp]:
  "chain f a (xs @ x # ys) b \<longleftrightarrow> chain f a xs x \<and> chain f x ys b"
  by (induction xs arbitrary: a) auto

lemma chain_upd_other [simp]:
  "u \<noteq> a \<Longrightarrow> u \<notin> set xs \<Longrightarrow> chain (f(u := v)) a xs b = chain f a xs b"
  by (induction xs arbitrary: a) auto

lemma chain_last: "chain f a xs b \<Longrightarrow> f (last (a # xs)) = b"
  by (induction xs arbitrary: a) auto

lemma last_rev_Cons: "last (head # rev xs) = hd (xs @ [head])"
  by (cases xs) auto

lemma last_Cons_snoc: "last (a # xs @ [x]) = x"
  by simp

lemma last_Cons_in: "last (a # xs) \<in> set (a # xs)"
  by (rule last_in_set) simp

text \<open>In the following, the last node of a chain is kept as one term.\<close>

declare last.simps [simp del]

lemmas last_node = last_Cons_snoc last_ConsL

text \<open>Redirecting the last link of a chain with distinct nodes changes where it ends.\<close>

lemma chain_upd_last:
  "distinct (a # xs) \<Longrightarrow> chain f a xs b \<Longrightarrow> chain (f(last (a # xs) := v)) a xs v"
proof (induction xs arbitrary: a)
  case Nil
  then show ?case by (simp add: last_node)
next
  case (Cons x xs)
  have "chain (f(last (x # xs) := v)) x xs v"
    using Cons.prems by (intro Cons.IH) auto
  moreover have "last (x # xs) \<noteq> a" "last (a # x # xs) = last (x # xs)"
    using Cons.prems(1) last_Cons_in [of x xs] by (auto simp: last_ConsR)
  ultimately show ?case using Cons.prems by (simp add: fun_upd_def)
qed

lemma dlist_next_head: "dlist h head xs \<Longrightarrow> l_next h head = hd (xs @ [head])"
  by (cases xs) (auto simp: dlist_def)

lemma dlist_prev_head: "dlist h head xs \<Longrightarrow> l_prev h head = last (head # xs)"
  by (cases xs rule: rev_cases) (auto simp: dlist_def last_node)

lemma dlist_empty_iff: "dlist h head xs \<Longrightarrow> list_empty head h \<longleftrightarrow> xs = []"
  by (cases xs) (auto simp: dlist_def list_empty_def)

lemma list_init_dlist: "dlist (list_init head h) head []"
  by (simp add: dlist_def list_init_def set_prev_def set_next_def)

text \<open>Iteration visits the nodes of a list in order, and stops.\<close>

lemma list_iterate_chain:
  "chain (l_next h) a xs head \<Longrightarrow> head \<notin> set xs \<Longrightarrow>
     list_iterate h head (l_next h a) = Some xs"
  by (induction xs arbitrary: a) (auto simp: list_iterate.simps)

lemma list_iterate_dlist: "dlist h head xs \<Longrightarrow> list_iterate h head (l_next h head) = Some xs"
  by (auto simp: dlist_def intro: list_iterate_chain)

subsection \<open>Effect of the operations\<close>

lemma insert_links [simp]:
  "l_next (insert_into_list p n i h) = (l_next h)(p := i, i := n)"
  "l_prev (insert_into_list p n i h) = (l_prev h)(n := i, i := p)"
  by (simp_all add: insert_into_list_def set_prev_def set_next_def Let_def)

lemma remove_links [simp]:
  "l_next (remove_from_list p n i h) = (l_next h)(p := n, i := i)"
  "l_prev (remove_from_list p n i h) = (l_prev h)(n := p, i := i)"
  by (simp_all add: remove_from_list_def set_prev_def set_next_def Let_def)

lemma dlist_add:
  assumes d: "dlist h head xs" and new: "item \<noteq> head" "item \<notin> set xs"
  shows "dlist (list_add head item h) head (xs @ [item])"
proof -
  let ?l = "last (head # xs)"
  have "chain ((l_next h)(?l := item)) head xs item"
    using d by (intro chain_upd_last) (auto simp: dlist_def)
  then have "chain ((l_next h)(?l := item, item := head)) head xs item"
    using new by simp
  moreover have "chain ((l_prev h)(head := item, item := ?l)) item (rev xs) head"
  proof (cases xs rule: rev_cases)
    case Nil
    then show ?thesis by (simp add: last_node)
  next
    case (snoc ys y)
    then have "chain (l_prev h) y (rev ys) head" "head \<notin> set ys" "y \<noteq> head"
      using d by (auto simp: dlist_def)
    with snoc new show ?thesis by (auto simp: last_node)
  qed
  ultimately show ?thesis
    using d new by (simp add: dlist_def list_add_def dlist_prev_head [OF d])
qed

lemma dlist_add_tail:
  assumes d: "dlist h head xs" and new: "item \<noteq> head" "item \<notin> set xs"
  shows "dlist (list_add_tail head item h) head (item # xs)"
proof -
  let ?n = "hd (xs @ [head])"
  have "chain ((l_prev h)(last (head # rev xs) := item)) head (rev xs) item"
    using d by (intro chain_upd_last) (auto simp: dlist_def)
  then have "chain ((l_prev h)(?n := item, item := head)) head (rev xs) item"
    using new by (simp add: last_rev_Cons)
  moreover have "chain ((l_next h)(head := item, item := ?n)) item xs head"
  proof (cases xs)
    case Nil
    then show ?thesis by simp
  next
    case (Cons y ys)
    then have "chain (l_next h) y ys head" "head \<notin> set ys" "y \<noteq> head"
      using d by (auto simp: dlist_def)
    with Cons new show ?thesis by auto
  qed
  ultimately show ?thesis
    using d new by (simp add: dlist_def list_add_tail_def dlist_next_head [OF d])
qed

text \<open>Unlinking a node from a chain: the node before it is redirected to the one after it.\<close>

lemma chain_unlink:
  assumes "chain f a (xs @ i # ys) b" "distinct (a # xs @ i # ys)" "i \<noteq> b"
  shows "chain (f(last (a # xs) := f i, i := i)) a (xs @ ys) b"
proof -
  let ?p = "last (a # xs)"
  have c: "chain f a xs i" "chain f i ys b" using assms(1) by auto
  note p = last_Cons_in [of a xs]
  have fi: "f i = hd (ys @ [b])" using c(2) by (cases ys) auto
  have 1: "chain (f(?p := f i)) a xs (f i)"
    using c(1) assms(2) by (intro chain_upd_last) auto
  have 2: "chain (f(?p := f i)) a (xs @ ys) b"
  proof (cases ys)
    case Nil
    with 1 fi show ?thesis by simp
  next
    case (Cons y zs)
    with c have "chain f y zs b" by simp
    moreover have "?p \<noteq> y" "?p \<notin> set zs" using p assms(2) Cons by auto
    ultimately have "chain (f(?p := f i)) y zs b" by simp
    with 1 fi Cons show ?thesis by simp
  qed
  with p show ?thesis using assms(2) by auto
qed

lemma dlist_remove:
  assumes d: "dlist h head (xs @ item # ys)"
  shows "dlist (list_remove item h) head (xs @ ys)" "dlist (list_remove item h) item []"
proof -
  have dist: "distinct (head # xs @ item # ys)" "item \<noteq> head"
    and nx: "chain (l_next h) head (xs @ item # ys) head"
    and pv: "chain (l_prev h) head (rev ys @ item # rev xs) head"
    using d by (auto simp: dlist_def)
  have p: "l_prev h item = last (head # xs)"
    using pv by (cases xs rule: rev_cases) (auto simp: last_node)
  have n: "l_next h item = last (head # rev ys)"
    using nx by (cases ys) (auto simp: last_node)
  have "chain ((l_next h)(last (head # xs) := l_next h item, item := item)) head (xs @ ys) head"
    using nx dist by (intro chain_unlink) auto
  moreover have "chain ((l_prev h)(last (head # rev ys) := l_prev h item, item := item)) head
      (rev ys @ rev xs) head"
    using pv dist by (intro chain_unlink) auto
  ultimately show "dlist (list_remove item h) head (xs @ ys)"
    using dist by (simp add: dlist_def list_remove_def flip: p n)
  show "dlist (list_remove item h) item []"
    by (simp add: dlist_def list_remove_def)
qed

text \<open>The list is circular: every node of it is a head, so that items can be inserted anywhere.\<close>

lemma dlist_rotate: "dlist h head (xs @ b # ys) \<longleftrightarrow> dlist h b (ys @ head # xs)"
  by (auto simp: dlist_def)

lemma dlist_insert_before:
  assumes "dlist h head (xs @ b # ys)" "item \<notin> set (head # xs @ b # ys)"
  shows "dlist (list_add b item h) head (xs @ item # b # ys)"
proof -
  have "dlist (list_add b item h) b ((ys @ head # xs) @ [item])"
    using assms by (intro dlist_add) (auto simp: dlist_rotate)
  then show ?thesis using dlist_rotate [of "list_add b item h" head "xs @ [item]" b ys] by simp
qed

subsection \<open>Lists with disjoint nodes do not interfere\<close>

lemma chain_cong: "(\<And>n. n \<in> set (a # xs) \<Longrightarrow> f n = g n) \<Longrightarrow> chain f a xs b = chain g a xs b"
  by (induction xs arbitrary: a) auto

lemma dlist_cong:
  "(\<And>n. n \<in> set (head # xs) \<Longrightarrow> l_next h n = l_next h' n \<and> l_prev h n = l_prev h' n) \<Longrightarrow>
     dlist h head xs = dlist h' head xs"
  unfolding dlist_def
  by (intro conj_cong refl chain_cong) auto

lemma dlist_frame:
  assumes d: "dlist h head xs" and e: "dlist h head2 ys"
    and disj: "set (head # xs) \<inter> set (head2 # ys) = {}"
  shows "item \<notin> set (head2 # ys) \<Longrightarrow> dlist (list_add head item h) head2 ys"
    and "item \<notin> set (head2 # ys) \<Longrightarrow> dlist (list_add_tail head item h) head2 ys"
    and "item \<in> set xs \<Longrightarrow> dlist (list_remove item h) head2 ys"
proof -
  have "hd (xs @ [head]) \<in> set (head # xs)" by (cases xs) auto
  with last_Cons_in [of head xs] have out: "last (head # xs) \<notin> set (head2 # ys)" "hd (xs @ [head]) \<notin> set (head2 # ys)"
    "head \<notin> set (head2 # ys)" using disj by auto
  show "item \<notin> set (head2 # ys) \<Longrightarrow> dlist (list_add head item h) head2 ys"
    using out by (subst dlist_cong [where h' = h])
      (auto simp: list_add_def dlist_prev_head [OF d] e)
  show "item \<notin> set (head2 # ys) \<Longrightarrow> dlist (list_add_tail head item h) head2 ys"
    using out by (subst dlist_cong [where h' = h])
      (auto simp: list_add_tail_def dlist_next_head [OF d] e)
  assume "item \<in> set xs"
  then obtain as bs where xs: "xs = as @ item # bs" by (auto simp: in_set_conv_decomp)
  have "l_prev h item = last (head # as)"
    using d unfolding xs by (cases as rule: rev_cases) (auto simp: dlist_def last_node)
  moreover have "l_next h item = last (head # rev bs)"
    using d unfolding xs by (cases bs) (auto simp: dlist_def last_node)
  ultimately have "l_prev h item \<in> set (head # xs)" "l_next h item \<in> set (head # xs)"
    unfolding xs using last_Cons_in [of head as] last_Cons_in [of head "rev bs"] by auto
  then have "l_prev h item \<notin> set (head2 # ys)" "l_next h item \<notin> set (head2 # ys)" "item \<notin> set (head2 # ys)"
    using disj \<open>item \<in> set xs\<close> by auto
  then show "dlist (list_remove item h) head2 ys"
    by (subst dlist_cong [where h' = h]) (auto simp: list_remove_def e)
qed

declare last.simps [simp]

subsection \<open>The contract of the lists\<close>

text \<open>
  What a client of the lists relies on: an empty list after initialisation, the effect of each
  operation on the sequence of nodes, and that other lists are left alone.
\<close>

locale node_lists =
  fixes rep :: "'h \<Rightarrow> 'n \<Rightarrow> 'n list \<Rightarrow> bool"
    and empty :: "'n \<Rightarrow> 'h \<Rightarrow> bool"
    and push_front :: "'n \<Rightarrow> 'n \<Rightarrow> 'h \<Rightarrow> 'h"
    and push_back :: "'n \<Rightarrow> 'n \<Rightarrow> 'h \<Rightarrow> 'h"
    and unlink :: "'n \<Rightarrow> 'h \<Rightarrow> 'h"
  assumes rep_distinct: "rep h hn xs \<Longrightarrow> distinct (hn # xs)"
    and empty_iff: "rep h hn xs \<Longrightarrow> empty hn h \<longleftrightarrow> xs = []"
    and push_front_rep: "rep h hn xs \<Longrightarrow> n \<notin> set (hn # xs) \<Longrightarrow> rep (push_front hn n h) hn (n # xs)"
    and push_back_rep: "rep h hn xs \<Longrightarrow> n \<notin> set (hn # xs) \<Longrightarrow> rep (push_back hn n h) hn (xs @ [n])"
    and unlink_rep: "rep h hn (xs @ n # ys) \<Longrightarrow> rep (unlink n h) hn (xs @ ys)"
begin

text \<open>Removing a node that was just added restores the sequence.\<close>

lemma unlink_push:
  assumes "rep h hn xs" "n \<notin> set (hn # xs)"
  shows "rep (unlink n (push_front hn n h)) hn xs" "rep (unlink n (push_back hn n h)) hn xs"
  using unlink_rep [of _ hn "[]" n xs] unlink_rep [of _ hn xs n "[]"]
    push_front_rep [OF assms] push_back_rep [OF assms] by simp_all

text \<open>Unlinking any member leaves the others, in their order.\<close>

lemma unlink_remove1:
  assumes "rep h hn xs" "n \<in> set xs"
  shows "rep (unlink n h) hn (remove1 n xs)"
proof -
  obtain as bs where xs: "xs = as @ n # bs" using assms(2) by (auto simp: in_set_conv_decomp)
  then have "n \<notin> set as" using rep_distinct [OF assms(1)] by auto
  then have "remove1 n xs = as @ bs" by (simp add: xs remove1_append)
  with assms(1) xs show ?thesis by (simp add: unlink_rep)
qed

end

interpretation klist: node_lists dlist list_empty list_add_tail list_add list_remove
  by unfold_locales
    (auto simp: dlist_empty_iff dlist_add dlist_add_tail dlist_remove dest: dlist_def [THEN iffD1])



end
