(* ===== verification/Bitops.thy ===== *)
theory Bitops
  imports Ohwes_Prelude
begin

text \<open>
  The bit string primitives of \<^verbatim>\<open>src/include/i386/bitops.h\<close>. A bit string is the list
  of the double words the \<open>BTS\<close>, \<open>BTR\<close>, \<open>BTC\<close>, \<open>BT\<close> and
  \<open>BSF\<close> instructions access; \<open>SBB r, r\<close> turns the carry flag into 0 or -1. The
  abstraction \<open>bits\<close> is the set of the indices of the bits that are set.
\<close>

definition update_bit :: "(u32 \<Rightarrow> nat \<Rightarrow> u32) \<Rightarrow> u32 list \<Rightarrow> nat \<Rightarrow> u32 list option" where
  "update_bit f bs i =
     do { w \<leftarrow> arr_get bs (i div 32); arr_set bs (i div 32) (f w (i mod 32)) }"

definition set_bit :: "u32 list \<Rightarrow> nat \<Rightarrow> u32 list option" where
  "set_bit = update_bit (\<lambda>w n. Bit_Operations.set_bit n w)"

definition clear_bit :: "u32 list \<Rightarrow> nat \<Rightarrow> u32 list option" where
  "clear_bit = update_bit (\<lambda>w n. unset_bit n w)"

definition flip_bit :: "u32 list \<Rightarrow> nat \<Rightarrow> u32 list option" where
  "flip_bit = update_bit (\<lambda>w n. Bit_Operations.flip_bit n w)"

text \<open>The value of \<open>SBB r, r\<close> after an instruction that copied a bit to the carry flag.\<close>

definition sbb :: "bool \<Rightarrow> int" where
  "sbb carry = (if carry then -1 else 0)"

definition test_bit :: "u32 list \<Rightarrow> nat \<Rightarrow> int option" where
  "test_bit bs i = do { w \<leftarrow> arr_get bs (i div 32); Some (sbb (bit w (i mod 32))) }"

definition test_and_set_bit :: "u32 list \<Rightarrow> nat \<Rightarrow> (int \<times> u32 list) option" where
  "test_and_set_bit bs i = do { old \<leftarrow> test_bit bs i; bs' \<leftarrow> set_bit bs i; Some (old, bs') }"

definition test_and_clear_bit :: "u32 list \<Rightarrow> nat \<Rightarrow> (int \<times> u32 list) option" where
  "test_and_clear_bit bs i = do { old \<leftarrow> test_bit bs i; bs' \<leftarrow> clear_bit bs i; Some (old, bs') }"

definition test_and_flip_bit :: "u32 list \<Rightarrow> nat \<Rightarrow> (int \<times> u32 list) option" where
  "test_and_flip_bit bs i = do { old \<leftarrow> test_bit bs i; bs' \<leftarrow> flip_bit bs i; Some (old, bs') }"

text \<open>\<open>BSF\<close>: the least set bit; \<open>None\<close> is the zero flag, set for a zero operand.\<close>

definition bsf :: "u32 \<Rightarrow> nat option" where
  "bsf w = List.find (bit w) [0..<32]"

text \<open>The scan loop: \<open>i\<close> is \<open>ecx\<close> after the increment, \<open>n\<close> is \<open>edx\<close> before the decrement.\<close>

fun bsf_loop :: "u32 list \<Rightarrow> nat \<Rightarrow> nat \<Rightarrow> int option" where
  "bsf_loop bs i 0 = Some (-1)"
| "bsf_loop bs i (Suc n) =
     do { w \<leftarrow> arr_get bs i;
          case bsf w of None \<Rightarrow> bsf_loop bs (Suc i) n | Some b \<Rightarrow> Some (int (32 * i + b)) }"

definition bit_scan_forward :: "u32 list \<Rightarrow> nat \<Rightarrow> int option" where
  "bit_scan_forward bs sz = bsf_loop bs 0 (sz div 4)"

text \<open>\<open>__builtin_popcount\<close>.\<close>

definition popcount :: "u32 \<Rightarrow> nat" where
  "popcount w = length (filter (bit w) [0..<32])"

subsection \<open>The set of set bits\<close>

definition bits :: "u32 list \<Rightarrow> nat set" where
  "bits bs = {i. i < 32 * length bs \<and> bit (bs ! (i div 32)) (i mod 32)}"

lemma bits_bound: "i \<in> bits bs \<Longrightarrow> i < 32 * length bs"
  by (simp add: bits_def)

lemma finite_bits [simp]: "finite (bits bs)"
  by (rule finite_subset [of _ "{..<32 * length bs}"]) (auto dest: bits_bound)

lemma bits_Cons: "bits (w # bs) = {i. i < 32 \<and> bit w i} \<union> (+) 32 ` bits bs"
proof (intro set_eqI iffI)
  fix i assume i: "i \<in> bits (w # bs)"
  show "i \<in> {i. i < 32 \<and> bit w i} \<union> (+) 32 ` bits bs"
  proof (cases "i < 32")
    case False
    then have "i = 32 + (i - 32)" "i div 32 = Suc ((i - 32) div 32)" "i mod 32 = (i - 32) mod 32"
      by (auto simp: le_div_geq le_mod_geq not_less)
    with i False have "i - 32 \<in> bits bs" by (auto simp: bits_def)
    with \<open>i = 32 + (i - 32)\<close> show ?thesis by blast
  qed (use i in \<open>simp add: bits_def\<close>)
next
  fix i assume "i \<in> {i. i < 32 \<and> bit w i} \<union> (+) 32 ` bits bs"
  then show "i \<in> bits (w # bs)" by (auto simp: bits_def div_add_self1)
qed

lemma bits_update:
  assumes "i < 32 * length bs"
    and "\<And>w n. n < 32 \<Longrightarrow> bit (f w (i mod 32)) n \<longleftrightarrow> (if n = i mod 32 then P w else bit w n)"
    and "S = {j. if j = i then P (bs ! (i div 32)) else j \<in> bits bs}"
  shows "\<exists>bs'. update_bit f bs i = Some bs' \<and> length bs' = length bs \<and> bits bs' = S"
proof -
  have i: "i div 32 < length bs" using assms(1) by auto
  have eq: "j = i \<longleftrightarrow> j div 32 = i div 32 \<and> j mod 32 = i mod 32" for j
    by (metis div_mult_mod_eq)
  have "j \<in> bits (bs[i div 32 := f (bs ! (i div 32)) (i mod 32)]) \<longleftrightarrow> j \<in> S" for j
    using i assms by (cases "j div 32 = i div 32") (auto simp: bits_def eq)
  with i show ?thesis by (auto simp: update_bit_def)
qed

lemma set_bit_bits:
  "i < 32 * length bs \<Longrightarrow>
     \<exists>bs'. set_bit bs i = Some bs' \<and> length bs' = length bs \<and> bits bs' = insert i (bits bs)"
  unfolding set_bit_def by (rule bits_update [where P = "\<lambda>_. True"]) (auto simp: bit_simps)

lemma clear_bit_bits:
  "i < 32 * length bs \<Longrightarrow>
     \<exists>bs'. clear_bit bs i = Some bs' \<and> length bs' = length bs \<and> bits bs' = bits bs - {i}"
  unfolding clear_bit_def by (rule bits_update [where P = "\<lambda>_. False"]) (auto simp: bit_simps)

lemma flip_bit_bits:
  "i < 32 * length bs \<Longrightarrow>
     \<exists>bs'. flip_bit bs i = Some bs' \<and> length bs' = length bs \<and>
       bits bs' = (if i \<in> bits bs then bits bs - {i} else insert i (bits bs))"
  unfolding flip_bit_def
  by (rule bits_update [where P = "\<lambda>w. \<not> bit w (i mod 32)"]) (auto simp: bit_simps bits_def)

lemma test_bit_bits: "i < 32 * length bs \<Longrightarrow> test_bit bs i = Some (if i \<in> bits bs then -1 else 0)"
  by (auto simp: test_bit_def bits_def sbb_def)

subsection \<open>Scanning\<close>

lemma bsf_None: "bsf w = None \<longleftrightarrow> (\<forall>i < 32. \<not> bit w i)"
  by (auto simp: bsf_def find_None_iff)

lemma bsf_Some: "bsf w = Some b \<longleftrightarrow> b < 32 \<and> bit w b \<and> (\<forall>i < b. \<not> bit w i)"
proof -
  have "(\<exists>i<32. bit w ([0..<32] ! i) \<and> b = [0..<32] ! i \<and> (\<forall>j<i. \<not> bit w ([0..<32] ! j)))
    \<longleftrightarrow> b < 32 \<and> bit w b \<and> (\<forall>i < b. \<not> bit w i)"
    by (auto simp: nth_upt simp del: upt_Suc)
  then show ?thesis by (simp add: bsf_def find_Some_iff del: upt_Suc)
qed

lemma bsf_loop_bits:
  "bsf_loop bs i (length bs - i) =
     Some (let S = {j \<in> bits bs. 32 * i \<le> j} in if S = {} then -1 else int (Min S))"
  if "i \<le> length bs"
  using that
proof (induction "length bs - i" arbitrary: i)
  case 0
  then have "{j \<in> bits bs. 32 * i \<le> j} = {}" by (auto dest: bits_bound)
  with 0 show ?case by simp
next
  case (Suc n)
  let ?S = "{j \<in> bits bs. 32 * i \<le> j}" and ?w = "bs ! i"
  have i: "i < length bs" "n = length bs - Suc i" using Suc.hyps(2) by auto
  have row: "j \<in> bits bs \<longleftrightarrow> bit ?w (j - 32 * i)" if "32 * i \<le> j" "j < 32 * Suc i" for j
  proof -
    have "j div 32 = i" "j mod 32 = j - 32 * i"
      using that by (auto simp: div_nat_eqI modulo_nat_def)
    with i(1) that show ?thesis by (auto simp: bits_def)
  qed
  show ?case
  proof (cases "bsf ?w")
    case None
    have "?S = {j \<in> bits bs. 32 * Suc i \<le> j}"
    proof (intro Collect_cong conj_cong refl iffI)
      fix j assume j: "j \<in> bits bs" "32 * i \<le> j"
      show "32 * Suc i \<le> j"
      proof (rule ccontr)
        assume "\<not> 32 * Suc i \<le> j"
        then have "bit ?w (j - 32 * i)" "j - 32 * i < 32" using row [of j] j by auto
        with None show False by (simp add: bsf_None)
      qed
    qed simp
    with Suc.hyps(1) [OF i(2)] i None show ?thesis
      by (simp flip: Suc.hyps(2))
  next
    case (Some b)
    then have b: "b < 32" "bit ?w b" "\<forall>k < b. \<not> bit ?w k" by (auto simp: bsf_Some)
    have mem: "32 * i + b \<in> ?S" using row [of "32 * i + b"] b by simp
    have "Min ?S = 32 * i + b"
    proof (rule Min_eqI)
      fix j assume "j \<in> ?S"
      then have "32 * i \<le> j" "bit ?w (j - 32 * i) \<or> 32 * Suc i \<le> j" using row [of j] by auto
      moreover have "32 * i + b \<le> j" if "32 * Suc i \<le> j" using b that by simp
      moreover have "32 * i + b \<le> j" if "bit ?w (j - 32 * i)"
      proof -
        have "b \<le> j - 32 * i" using b that not_less by blast
        with \<open>32 * i \<le> j\<close> show ?thesis by simp
      qed
      ultimately show "32 * i + b \<le> j" by blast
    qed (use mem in auto)
    with Some i mem show ?thesis
      by (simp flip: Suc.hyps(2)) (use le_add1 in blast)
  qed
qed

lemma bit_scan_forward_bits:
  assumes "4 * length bs = sz"
  shows "bit_scan_forward bs sz = Some (if bits bs = {} then -1 else int (Min (bits bs)))"
  using bsf_loop_bits [of 0 bs] assms by (simp add: bit_scan_forward_def Let_def flip: assms)

lemma popcount_card: "popcount w = card {i. i < 32 \<and> bit w i}"
proof -
  have "popcount w = card (set (filter (bit w) [0..<32]))"
    unfolding popcount_def by (rule distinct_card [symmetric]) simp
  moreover have "set (filter (bit w) [0..<32]) = {i. i < 32 \<and> bit w i}"
    by (auto simp del: upt_Suc)
  ultimately show ?thesis by (simp del: upt_Suc)
qed

lemma sum_popcount: "sum_list (map popcount bs) = card (bits bs)"
proof (induction bs)
  case Nil
  show ?case by (simp add: bits_def)
next
  case (Cons w bs)
  have "card (bits (w # bs)) = card {i. i < 32 \<and> bit w i} + card ((+) 32 ` bits bs)"
    unfolding bits_Cons by (rule card_Un_disjoint) auto
  then show ?case using Cons by (simp add: popcount_card card_image)
qed

subsection \<open>Properties\<close>

text \<open>
  On a bit string that holds the index, setting, clearing and flipping a bit change that
  bit only, and the testing variants return the bit's previous value (as 0 or -1).
\<close>

theorem bitops_change_one_bit:
  assumes "i < 32 * length bs"
  shows "(\<exists>bs'. test_and_set_bit bs i = Some (if i \<in> bits bs then -1 else 0, bs') \<and>
        set_bit bs i = Some bs' \<and> bits bs' = insert i (bits bs))
    \<and> (\<exists>bs'. test_and_clear_bit bs i = Some (if i \<in> bits bs then -1 else 0, bs') \<and>
        clear_bit bs i = Some bs' \<and> bits bs' = bits bs - {i})
    \<and> (\<exists>bs'. test_and_flip_bit bs i = Some (if i \<in> bits bs then -1 else 0, bs') \<and>
        flip_bit bs i = Some bs' \<and>
        bits bs' = (if i \<in> bits bs then bits bs - {i} else insert i (bits bs)))"
  using set_bit_bits [OF assms] clear_bit_bits [OF assms] flip_bit_bits [OF assms]
    test_bit_bits [OF assms]
  by (auto simp: test_and_set_bit_def test_and_clear_bit_def test_and_flip_bit_def)

theorem bitops_change_one_bit_witness:
  "\<exists>bs'. test_and_set_bit [0, 4] 33 = Some (0, bs') \<and> bits bs' = insert 33 (bits [0, 4])"
proof -
  have "33 \<notin> bits [0, 4]" by (simp add: bits_def bit_iff_odd)
  then show ?thesis using bitops_change_one_bit [of 33 "[0, 4]"] by auto
qed

text \<open>
  \<open>bit_scan_forward\<close> over a whole bit string returns the least index of a set bit,
  and -1 exactly when no bit is set; it always terminates and stays inside the bit string.
\<close>

theorem bit_scan_forward_least:
  assumes "4 * length bs = sz"
  shows "(bits bs = {} \<longrightarrow> bit_scan_forward bs sz = Some (-1)) \<and>
    (bits bs \<noteq> {} \<longrightarrow> (\<exists>i. bit_scan_forward bs sz = Some (int i) \<and> i \<in> bits bs \<and>
       (\<forall>j \<in> bits bs. i \<le> j)))"
  using bit_scan_forward_bits [OF assms] by auto

theorem bit_scan_forward_least_witness:
  "bits [0, 4] \<noteq> {} \<and> (\<exists>i. bit_scan_forward [0, 4] 8 = Some (int i) \<and> i \<in> bits [0, 4])"
proof -
  have "34 \<in> bits [0, 4]" by (simp add: bits_def bit_iff_odd)
  then have "bits [0, 4] \<noteq> {}" by auto
  then show ?thesis using bit_scan_forward_least [of "[0, 4]" 8] by auto
qed

end
