(* ===== verification/Pool.thy ===== *)
theory Pool
  imports Bitops Klist
begin

text \<open>
  The fixed-size object pools of \<^verbatim>\<open>src/kernel/pool.c\<close>. All pools share the table of
  pool descriptors, the table of chunks and their bit masks (a set bit is a free slot), which make
  up the record \<open>pool_state\<close>. A \<open>pool_t\<close> is the index of a descriptor (or
  \<open>None\<close>, for NULL and every other address outside of the table). The list links embedded
  in descriptors and chunks are the nodes \<open>PoolHead\<close> and \<open>ChunkLink\<close>; a
  pointer to a chunk is the node of its link, so that \<open>list_item\<close> on a list head is
  \<open>PoolHead\<close>, which is not a chunk. \<open>ps_mem\<close> is the memory the pools hand out.

  \<open>pool_rep i cb base isz n s fs\<close> states that descriptor \<open>i\<close> is a pool of
  \<open>n\<close> items of \<open>isz\<close> bytes at \<open>base\<close>, with the chunks from \<open>cb\<close> on, and
  that \<open>fs\<close> are the free slots in the order in which they will be handed out.
\<close>

definition MAX_NR_POOLS :: nat where "MAX_NR_POOLS = 32"
definition MAX_NR_POOL_ITEMS :: nat where "MAX_NR_POOL_ITEMS = 256"
definition POOL_NAME_LENGTH :: nat where "POOL_NAME_LENGTH = 32"
definition POOL_MAGIC :: u32 where "POOL_MAGIC = 0x6C776570"
definition CHUNK_MAGIC :: u32 where "CHUNK_MAGIC = 0x6E756863"

lemmas pool_consts = MAX_NR_POOLS_def MAX_NR_POOL_ITEMS_def POOL_NAME_LENGTH_def

type_synonym pool_t = "nat option"

datatype node = NullNode | PoolHead nat | ChunkLink nat

record chunk =
  ck_magic :: u32
  ck_index :: u32
  ck_pool :: "nat option"
  ck_data :: u32

record pool =
  pl_magic :: u32
  pl_name :: "u8 list"
  pl_index :: nat
  pl_base :: u32
  pl_item_size :: u32
  pl_capacity :: u32
  pl_chunk_base :: node
  pl_alloc :: node

record pool_state =
  ps_pools :: "pool list"
  ps_chunks :: "chunk list"
  ps_links :: "node links"
  ps_pool_mask :: "u32 list"
  ps_chunk_mask :: "u32 list"
  ps_initialized :: bool
  ps_mem :: "u32 \<Rightarrow> u8"

text \<open>\<open>zeromem\<close> on the memory, and on a chunk and a descriptor of the tables.\<close>

definition zeromem :: "u32 \<Rightarrow> u32 \<Rightarrow> (u32 \<Rightarrow> u8) \<Rightarrow> (u32 \<Rightarrow> u8)" where
  "zeromem a n m = (\<lambda>x. if x - a < n then 0 else m x)"

definition zero_chunk :: chunk where
  "zero_chunk = \<lparr>ck_magic = 0, ck_index = 0, ck_pool = None, ck_data = 0\<rparr>"

definition zero_pool :: pool where
  "zero_pool = \<lparr>pl_magic = 0, pl_name = [], pl_index = 0, pl_base = 0, pl_item_size = 0,
     pl_capacity = 0, pl_chunk_base = NullNode, pl_alloc = NullNode\<rparr>"

definition zero_link :: "node \<Rightarrow> node links \<Rightarrow> node links" where
  "zero_link n h = set_next n NullNode (set_prev n NullNode h)"

text \<open>The state at boot: static data is zero.\<close>

definition pool_state0 :: "(u32 \<Rightarrow> u8) \<Rightarrow> pool_state" where
  "pool_state0 m = \<lparr>ps_pools = replicate MAX_NR_POOLS zero_pool,
     ps_chunks = replicate MAX_NR_POOL_ITEMS zero_chunk,
     ps_links = \<lparr>l_prev = (\<lambda>_. NullNode), l_next = (\<lambda>_. NullNode)\<rparr>,
     ps_pool_mask = [0], ps_chunk_mask = replicate 8 0, ps_initialized = False, ps_mem = m\<rparr>"

definition init_pool :: "pool_state \<Rightarrow> pool_state" where
  "init_pool s = s\<lparr>ps_pool_mask := map (\<lambda>_. 0xFFFFFFFF) (ps_pool_mask s),
     ps_chunk_mask := map (\<lambda>_. 0xFFFFFFFF) (ps_chunk_mask s), ps_initialized := True\<rparr>"

definition ensure_capacity :: "u32 \<Rightarrow> pool_state \<Rightarrow> bool" where
  "ensure_capacity capacity s \<longleftrightarrow> unat capacity \<le> sum_list (map popcount (ps_chunk_mask s))"

subsection \<open>Accessors\<close>

definition get_base :: "pool \<Rightarrow> u32" where "get_base p = pl_base p"

definition get_limit :: "pool \<Rightarrow> u32" where
  "get_limit p = get_base p + pl_item_size p * pl_capacity p - 1"

definition pool_valid :: "pool_t \<Rightarrow> pool_state \<Rightarrow> bool" where
  "pool_valid d s = (case d of None \<Rightarrow> False | Some i \<Rightarrow>
     i < MAX_NR_POOLS \<and>
     (case arr_get (ps_pools s) i of None \<Rightarrow> False | Some p \<Rightarrow>
        pl_index p = i \<and> pl_magic p = POOL_MAGIC \<and> pl_base p \<noteq> 0))"

definition addr_valid :: "pool \<Rightarrow> u32 \<Rightarrow> bool" where
  "addr_valid p ptr \<longleftrightarrow> get_base p \<le> ptr \<and> ptr \<le> get_limit p"

subsection \<open>Creating pools\<close>

text \<open>The body of the loop that builds the free list, for chunk \<open>i\<close> of pool \<open>d\<close>.\<close>

definition add_chunk :: "nat \<Rightarrow> nat \<Rightarrow> pool_state \<Rightarrow> pool_state option" where
  "add_chunk d i s = do {
     idx \<leftarrow> bit_scan_forward (ps_chunk_mask s) (MAX_NR_POOL_ITEMS div 8);
     assert_opt (0 \<le> idx);
     let c = nat idx;
     mask \<leftarrow> clear_bit (ps_chunk_mask s) c;
     chunks \<leftarrow> arr_set (ps_chunks s) c
       \<lparr>ck_magic = CHUNK_MAGIC, ck_index = of_nat i, ck_pool = Some d, ck_data = 0\<rparr>;
     p \<leftarrow> arr_get (ps_pools s) d;
     let p = (if i = 0 then p\<lparr>pl_chunk_base := ChunkLink c, pl_alloc := ChunkLink c\<rparr> else p);
     Some (s\<lparr>ps_chunk_mask := mask, ps_chunks := chunks, ps_pools := (ps_pools s)[d := p],
       ps_links := list_add (PoolHead d) (ChunkLink c) (ps_links s)\<rparr>)
   }"

fun add_chunks :: "nat \<Rightarrow> nat \<Rightarrow> nat \<Rightarrow> pool_state \<Rightarrow> pool_state option" where
  "add_chunks d i 0 s = Some s"
| "add_chunks d i (Suc n) s = do { s \<leftarrow> add_chunk d i s; add_chunks d (Suc i) n s }"

definition pool_create ::
  "u32 \<Rightarrow> u8 list option \<Rightarrow> u32 \<Rightarrow> u32 \<Rightarrow> pool_state \<Rightarrow> (pool_t \<times> pool_state) option"
where
  "pool_create addr name item_size capacity s =
    (if \<not> ps_initialized s then None
     else case name of None \<Rightarrow> Some (None, s) | Some nm \<Rightarrow>
       if addr = 0 then Some (None, s)
       else if \<not> ensure_capacity capacity s then None
       else do {
         idx \<leftarrow> bit_scan_forward (ps_pool_mask s) (MAX_NR_POOLS div 8);
         assert_opt (idx \<noteq> -1);
         let i = nat idx;
         mask \<leftarrow> clear_bit (ps_pool_mask s) i;
         p \<leftarrow> arr_get (ps_pools s) i;
         let p = p\<lparr>pl_magic := POOL_MAGIC, pl_index := i, pl_base := addr,
           pl_item_size := item_size, pl_capacity := capacity, pl_name := take POOL_NAME_LENGTH nm\<rparr>;
         let s = s\<lparr>ps_pool_mask := mask, ps_pools := (ps_pools s)[i := p],
           ps_links := list_init (PoolHead i) (ps_links s)\<rparr>;
         s \<leftarrow> add_chunks i 0 (unat capacity) s;
         Some (Some i, s)
       })"

subsection \<open>Destroying and finding pools\<close>

text \<open>The loop of \<open>pool_destroy\<close>; note that it clears the first chunk in every round.\<close>

fun release_chunks :: "nat \<Rightarrow> nat \<Rightarrow> nat \<Rightarrow> pool_state \<Rightarrow> pool_state option" where
  "release_chunks d i 0 s = Some s"
| "release_chunks d i (Suc n) s = do {
     p \<leftarrow> arr_get (ps_pools s) d;
     c \<leftarrow> (case pl_chunk_base p of ChunkLink c \<Rightarrow> Some c | _ \<Rightarrow> None);
     mask \<leftarrow> set_bit (ps_chunk_mask s) (c + i);
     chunks \<leftarrow> arr_set (ps_chunks s) c zero_chunk;
     release_chunks d (Suc i) n (s\<lparr>ps_chunk_mask := mask, ps_chunks := chunks,
       ps_links := zero_link (ChunkLink c) (ps_links s)\<rparr>)
   }"

definition pool_destroy :: "pool_t \<Rightarrow> pool_state \<Rightarrow> pool_state option" where
  "pool_destroy d s =
    (if \<not> pool_valid d s then Some s
     else do {
       i \<leftarrow> d;
       p \<leftarrow> arr_get (ps_pools s) i;
       s \<leftarrow> release_chunks i 0 (unat (pl_capacity p)) s;
       mask \<leftarrow> set_bit (ps_pool_mask s) (pl_index p);
       Some (s\<lparr>ps_pool_mask := mask, ps_pools := (ps_pools s)[i := zero_pool],
         ps_links := zero_link (PoolHead i) (ps_links s)\<rparr>)
     })"

text \<open>The loop of \<open>find_pool\<close>: \<open>p\<close> is the last descriptor in use that was looked at.\<close>

fun find_pool_loop :: "u8 list \<Rightarrow> nat \<Rightarrow> nat \<Rightarrow> pool_t \<Rightarrow> pool_state \<Rightarrow> pool_t option" where
  "find_pool_loop name i 0 p s = Some p"
| "find_pool_loop name i (Suc n) p s = do {
     t \<leftarrow> test_bit (ps_pool_mask s) i;
     if t \<noteq> 0 then find_pool_loop name (Suc i) n p s
     else do {
       q \<leftarrow> arr_get (ps_pools s) i;
       if name = pl_name q then Some (Some i)
       else find_pool_loop name (Suc i) n (Some i) s
     }
   }"

definition find_pool :: "u8 list \<Rightarrow> pool_state \<Rightarrow> pool_t option" where
  "find_pool name s = find_pool_loop name 0 MAX_NR_POOLS None s"

subsection \<open>Allocating and freeing items\<close>

definition pool_alloc :: "pool_t \<Rightarrow> pool_state \<Rightarrow> (u32 \<times> pool_state) option" where
  "pool_alloc d s =
    (if \<not> pool_valid d s then Some (0, s)
     else do {
       i \<leftarrow> d;
       p \<leftarrow> arr_get (ps_pools s) i;
       if list_empty (PoolHead i) (ps_links s) then Some (0, s)
       else do {
         c \<leftarrow> (case pl_alloc p of ChunkLink c \<Rightarrow> Some c | _ \<Rightarrow> None);
         ck \<leftarrow> arr_get (ps_chunks s) c;
         assert_opt (ck_data ck = 0);
         let p = p\<lparr>pl_alloc := l_next (ps_links s) (ChunkLink c)\<rparr>;
         let a = pl_base p + pl_item_size p * ck_index ck;
         Some (a, s\<lparr>ps_pools := (ps_pools s)[i := p],
           ps_links := list_remove (ChunkLink c) (ps_links s),
           ps_chunks := (ps_chunks s)[c := ck\<lparr>ck_data := a\<rparr>],
           ps_mem := zeromem a (pl_item_size p) (ps_mem s)\<rparr>)
       }
     })"

definition pool_free :: "pool_t \<Rightarrow> u32 \<Rightarrow> pool_state \<Rightarrow> (int \<times> pool_state) option" where
  "pool_free d item s =
    (if \<not> pool_valid d s \<or> item = 0 then Some (- EINVAL, s)
     else do {
       i \<leftarrow> d;
       p \<leftarrow> arr_get (ps_pools s) i;
       if \<not> addr_valid p item then Some (- EPERM, s)
       else do {
         assert_opt (pl_item_size p \<noteq> 0);
         let index = (item - pl_base p) div pl_item_size p;
         assert_opt (0 \<le> sint index \<and> index < pl_capacity p);
         cb \<leftarrow> (case pl_chunk_base p of ChunkLink c \<Rightarrow> Some c | _ \<Rightarrow> None);
         let c = cb + unat index;
         ck \<leftarrow> arr_get (ps_chunks s) c;
         assert_opt (ck_index ck = index);
         assert_opt (ck_data ck \<noteq> 0);
         Some (0, s\<lparr>ps_chunks := (ps_chunks s)[c := ck\<lparr>ck_data := 0\<rparr>],
           ps_links := list_add_tail (PoolHead i) (ChunkLink c) (ps_links s),
           ps_pools := (ps_pools s)[i := p\<lparr>pl_alloc := ChunkLink c\<rparr>]\<rparr>)
       }
     })"

subsection \<open>Representation\<close>

definition item_addr :: "u32 \<Rightarrow> u32 \<Rightarrow> nat \<Rightarrow> u32" where
  "item_addr base isz k = base + isz * of_nat k"

text \<open>The region of a pool does not wrap around the address space and its items are not empty.\<close>

definition region_ok :: "u32 \<Rightarrow> u32 \<Rightarrow> nat \<Rightarrow> bool" where
  "region_ok base isz n \<longleftrightarrow> base \<noteq> 0 \<and> isz \<noteq> 0 \<and> n \<le> MAX_NR_POOL_ITEMS \<and>
     unat base + unat isz * n \<le> 2 ^ 32"

definition chunk_ok :: "u32 \<Rightarrow> u32 \<Rightarrow> nat list \<Rightarrow> nat \<Rightarrow> chunk \<Rightarrow> bool" where
  "chunk_ok base isz fs k c \<longleftrightarrow>
     ck_index c = of_nat k \<and> ck_data c = (if k \<in> set fs then 0 else item_addr base isz k)"

definition desc_ok :: "nat \<Rightarrow> nat \<Rightarrow> u32 \<Rightarrow> u32 \<Rightarrow> nat \<Rightarrow> nat list \<Rightarrow> pool \<Rightarrow> bool" where
  "desc_ok i cb base isz n fs p \<longleftrightarrow>
     pl_magic p = POOL_MAGIC \<and> pl_index p = i \<and> pl_base p = base \<and> pl_item_size p = isz \<and>
     unat (pl_capacity p) = n \<and> (n \<noteq> 0 \<longrightarrow> pl_chunk_base p = ChunkLink cb) \<and>
     (fs \<noteq> [] \<longrightarrow> pl_alloc p = ChunkLink (cb + hd fs))"

definition pool_rep ::
  "nat \<Rightarrow> nat \<Rightarrow> u32 \<Rightarrow> u32 \<Rightarrow> nat \<Rightarrow> pool_state \<Rightarrow> nat list \<Rightarrow> bool"
where
  "pool_rep i cb base isz n s fs \<longleftrightarrow>
     region_ok base isz n \<and> i < MAX_NR_POOLS \<and> length (ps_pools s) = MAX_NR_POOLS \<and>
     length (ps_chunks s) = MAX_NR_POOL_ITEMS \<and> cb + n \<le> MAX_NR_POOL_ITEMS \<and>
     set fs \<subseteq> {..<n} \<and> desc_ok i cb base isz n fs (ps_pools s ! i) \<and>
     dlist (ps_links s) (PoolHead i) (map (\<lambda>k. ChunkLink (cb + k)) fs) \<and>
     (\<forall>k < n. chunk_ok base isz fs k (ps_chunks s ! (cb + k)))"

subsection \<open>Addresses of items\<close>

lemma unat_of_nat_u32: "k < 4294967296 \<Longrightarrow> unat (of_nat k :: u32) = k"
  by (simp add: unat_of_nat take_bit_nat_eq_self)

lemma unat_item_addr:
  assumes "region_ok base isz n" "k < n"
  shows "unat (item_addr base isz k) = unat base + unat isz * k"
    and "unat (isz * of_nat k) = unat isz * k"
proof -
  have isz: "0 < unat isz" using assms(1) by (simp add: region_ok_def unat_gt_0)
  have "unat isz * k + unat isz \<le> unat isz * n"
    using mult_le_mono2 [of "Suc k" n "unat isz"] assms(2) by simp
  moreover have "unat base + unat isz * n \<le> 4294967296"
    using assms(1) by (simp add: region_ok_def)
  ultimately have lim: "unat base + unat isz * k < 4294967296" using isz by linarith
  have "k < 4294967296" using assms by (auto simp: region_ok_def pool_consts)
  then have k: "unat (of_nat k :: u32) = k" by (rule unat_of_nat_u32)
  show m: "unat (isz * of_nat k) = unat isz * k"
    using lim by (simp add: unat_word_ariths k)
  then show "unat (item_addr base isz k) = unat base + unat isz * k"
    using lim by (simp add: item_addr_def unat_word_ariths)
qed

lemma item_addr_nonzero: "region_ok base isz n \<Longrightarrow> k < n \<Longrightarrow> item_addr base isz k \<noteq> 0"
  using unat_item_addr(1) [of base isz n k]
  by (metis add_is_0 region_ok_def unat_0 unat_eq_zero)

lemma item_end:
  assumes "region_ok base isz n" "k < n"
  shows "unat (item_addr base isz k) + unat isz \<le> unat base + unat isz * n"
  using unat_item_addr(1) [OF assms] mult_le_mono2 [of "Suc k" n "unat isz"] assms(2) by simp

text \<open>The bytes of an item, as the condition \<open>x - a < isz\<close> of \<open>zeromem\<close>.\<close>

lemma in_block:
  fixes a x sz :: u32
  assumes "unat a + unat sz \<le> 4294967296"
  shows "x - a < sz \<longleftrightarrow> unat a \<le> unat x \<and> unat x < unat a + unat sz"
proof (cases "a \<le> x")
  case True
  then show ?thesis by (auto simp: word_less_nat_alt unat_sub word_le_nat_alt)
next
  case False
  then have "unat (x - a) = 4294967296 + unat x - unat a"
    by (simp add: unat_sub_if' word_le_nat_alt not_le)
  with False assms show ?thesis by (simp add: word_less_nat_alt word_le_nat_alt)
qed

lemma region_end: "region_ok base isz n \<Longrightarrow> unat base + unat isz * n \<le> 4294967296"
  by (simp add: region_ok_def)

lemma in_item:
  assumes "region_ok base isz n" "k < n"
  shows "x - item_addr base isz k < isz \<longleftrightarrow>
    unat base + unat isz * k \<le> unat x \<and> unat x < unat base + unat isz * Suc k"
  using in_block [of "item_addr base isz k" isz x] item_end [OF assms] region_end [OF assms(1)]
    unat_item_addr(1) [OF assms] by auto

text \<open>Different items do not share a byte.\<close>

lemma items_disjoint:
  assumes "region_ok base isz n" "k < n" "l < n" "k \<noteq> l"
    and "x - item_addr base isz k < isz"
  shows "\<not> x - item_addr base isz l < isz"
proof
  assume "x - item_addr base isz l < isz"
  with assms have "unat isz * k < unat isz * Suc l" "unat isz * l < unat isz * Suc k"
    using in_item [of base isz n k x] in_item [of base isz n l x] by auto
  then have "k < Suc l" "l < Suc k" by (auto simp del: mult_Suc_right)
  with assms(4) show False by simp
qed

text \<open>The last byte of the region.\<close>

lemma unat_limit:
  assumes r: "region_ok base isz n" and "n \<noteq> 0"
  shows "unat (base + isz * of_nat n - 1) + 1 = unat base + unat isz * n"
proof -
  have isz: "0 < unat isz" using r by (simp add: region_ok_def unat_gt_0)
  have n: "n = Suc (n - 1)" "n - 1 < n" using assms(2) by auto
  have e: "base + isz * of_nat n - 1 = item_addr base isz (n - 1) + (isz - 1)"
    by (subst n(1)) (simp add: item_addr_def algebra_simps)
  have "unat (isz - 1) = unat isz - 1"
    using r by (simp add: region_ok_def unat_minus_one)
  moreover have "unat (item_addr base isz (n - 1)) + (unat isz - 1) < 4294967296"
    using item_end [OF r n(2)] region_end [OF r] isz by linarith
  ultimately have "unat (base + isz * of_nat n - 1) = unat base + unat isz * (n - 1) + (unat isz - 1)"
    unfolding e by (subst unat_plus_simple [THEN iffD1])
      (simp_all add: unat_item_addr(1) [OF r n(2), simplified] word_le_nat_alt unat_word_ariths)
  moreover have "unat isz * n = unat isz * (n - 1) + unat isz" by (subst n(1)) simp
  ultimately show ?thesis using isz by simp
qed

text \<open>The slot an address of the pool belongs to.\<close>

lemma slot_of_addr:
  assumes r: "region_ok base isz n" and k: "k < n" and x: "x - item_addr base isz k < isz"
  shows "unat ((x - base) div isz) = k" and "base \<le> x" and "x \<le> base + isz * of_nat n - 1" and "x \<noteq> 0"
proof -
  have isz: "0 < unat isz" using r by (simp add: region_ok_def unat_gt_0)
  have ux: "unat base + unat isz * k \<le> unat x" "unat x < unat base + unat isz * Suc k"
    using in_item [OF r k] x by auto
  then show "base \<le> x" by (simp add: word_le_nat_alt)
  then have "unat (x - base) = unat x - unat base" by (simp add: unat_sub)
  moreover have "(unat x - unat base) div unat isz = k"
    using ux isz by (intro div_nat_eqI) (auto simp: mult.commute)
  ultimately show "unat ((x - base) div isz) = k" by (simp add: unat_div)
  show "x \<noteq> 0" using ux r unat_gt_0 [of base] by (auto simp: region_ok_def)
  have "unat isz * Suc k \<le> unat isz * n" using k by (intro mult_le_mono2) simp
  then show "x \<le> base + isz * of_nat n - 1"
    using unat_limit [OF r] k ux(2) unfolding word_le_nat_alt by fastforce
qed

subsection \<open>Allocating\<close>

lemma pool_rep_valid: "pool_rep i cb base isz n s fs \<Longrightarrow> pool_valid (Some i) s"
  by (auto simp: pool_rep_def pool_valid_def desc_ok_def region_ok_def)

lemma inj_chunk_link [simp]: "inj_on (\<lambda>k. ChunkLink (cb + k)) A"
  by (auto intro: inj_onI)

lemma pool_rep_distinct: "pool_rep i cb base isz n s fs \<Longrightarrow> distinct fs"
  by (auto simp: pool_rep_def dlist_def distinct_map)

lemma pool_rep_empty:
  "pool_rep i cb base isz n s fs \<Longrightarrow> list_empty (PoolHead i) (ps_links s) \<longleftrightarrow> fs = []"
  using dlist_empty_iff [of "ps_links s" "PoolHead i" "map (\<lambda>k. ChunkLink (cb + k)) fs"]
  by (simp add: pool_rep_def)

lemma pool_alloc_empty: "pool_rep i cb base isz n s [] \<Longrightarrow> pool_alloc (Some i) s = Some (0, s)"
  using pool_rep_empty [of i cb base isz n s "[]"] pool_rep_valid [of i cb base isz n s "[]"]
  by (simp add: pool_alloc_def pool_rep_def)

text \<open>The state after the first free slot has been handed out.\<close>

definition alloc_result :: "nat \<Rightarrow> nat \<Rightarrow> u32 \<Rightarrow> u32 \<Rightarrow> nat \<Rightarrow> pool_state \<Rightarrow> pool_state" where
  "alloc_result i cb base isz k s = s
    \<lparr>ps_pools := (ps_pools s)[i := (ps_pools s ! i)\<lparr>pl_alloc := l_next (ps_links s) (ChunkLink (cb + k))\<rparr>],
     ps_links := list_remove (ChunkLink (cb + k)) (ps_links s),
     ps_chunks := (ps_chunks s)[cb + k := (ps_chunks s ! (cb + k))\<lparr>ck_data := item_addr base isz k\<rparr>],
     ps_mem := zeromem (item_addr base isz k) isz (ps_mem s)\<rparr>"

lemma pool_alloc_eq:
  assumes rep: "pool_rep i cb base isz n s (k # fs)"
  shows "pool_alloc (Some i) s = Some (item_addr base isz k, alloc_result i cb base isz k s)"
proof -
  have "k < n" using rep by (simp add: pool_rep_def)
  moreover have "chunk_ok base isz (k # fs) k (ps_chunks s ! (cb + k))"
    using rep \<open>k < n\<close> by (simp add: pool_rep_def)
  ultimately show ?thesis
    using rep pool_rep_valid [OF rep] pool_rep_empty [OF rep]
    by (auto simp: pool_alloc_def pool_rep_def desc_ok_def chunk_ok_def item_addr_def
      alloc_result_def Let_def)
qed

lemma alloc_next:
  assumes "dlist h head (x # xs)"
  shows "l_next h x = hd (xs @ [head])"
  using assms by (cases xs) (auto simp: dlist_def)

lemma alloc_result_rep:
  assumes rep: "pool_rep i cb base isz n s (k # fs)"
  shows "pool_rep i cb base isz n (alloc_result i cb base isz k s) fs"
proof -
  have d: "dlist (ps_links s) (PoolHead i) (ChunkLink (cb + k) # map (\<lambda>k. ChunkLink (cb + k)) fs)"
    using rep by (simp add: pool_rep_def)
  have "dlist (list_remove (ChunkLink (cb + k)) (ps_links s)) (PoolHead i) (map (\<lambda>k. ChunkLink (cb + k)) fs)"
    using dlist_remove(1) [of "ps_links s" "PoolHead i" "[]"] d by simp
  moreover have "l_next (ps_links s) (ChunkLink (cb + k)) = ChunkLink (cb + hd fs)" if "fs \<noteq> []"
    using alloc_next [OF d] that by (simp add: hd_append hd_map)
  moreover have "k \<notin> set fs" using pool_rep_distinct [OF rep] by simp
  moreover have "chunk_ok base isz fs l ((ps_chunks (alloc_result i cb base isz k s)) ! (cb + l))"
    if "l < n" for l
  proof -
    have "chunk_ok base isz (k # fs) l (ps_chunks s ! (cb + l))" using rep that by (simp add: pool_rep_def)
    then show ?thesis
      using rep that \<open>k \<notin> set fs\<close> by (auto simp: alloc_result_def chunk_ok_def pool_rep_def nth_list_update)
  qed
  ultimately show ?thesis
    using rep by (auto simp: pool_rep_def alloc_result_def desc_ok_def)
qed

subsection \<open>Freeing\<close>

definition free_result :: "nat \<Rightarrow> nat \<Rightarrow> nat \<Rightarrow> pool_state \<Rightarrow> pool_state" where
  "free_result i cb k s = s
    \<lparr>ps_chunks := (ps_chunks s)[cb + k := (ps_chunks s ! (cb + k))\<lparr>ck_data := 0\<rparr>],
     ps_links := list_add_tail (PoolHead i) (ChunkLink (cb + k)) (ps_links s),
     ps_pools := (ps_pools s)[i := (ps_pools s ! i)\<lparr>pl_alloc := ChunkLink (cb + k)\<rparr>]\<rparr>"

lemma sint_small: "unat (w :: u32) < 2147483648 \<Longrightarrow> 0 \<le> sint w"
proof -
  assume "unat w < 2147483648"
  then have u: "uint w < 2147483648" using of_nat_less_iff [of "unat w" 2147483648, where ?'a = int] by simp
  have "signed_take_bit 31 (uint w) = uint w"
    using u by (intro signed_take_bit_int_eq_self order_trans [OF _ uint_ge_0]) auto
  then have "sint w = uint w" by (simp only: sint_uint) simp
  then show ?thesis by simp
qed

lemma pool_free_eq:
  assumes rep: "pool_rep i cb base isz n s fs" and k: "k < n" and x: "x - item_addr base isz k < isz"
  shows "pool_free (Some i) x s =
    (if k \<in> set fs then None else Some (0, free_result i cb k s))"
proof -
  let ?p = "ps_pools s ! i" and ?c = "ps_chunks s ! (cb + k)"
  have r: "region_ok base isz n" and d: "desc_ok i cb base isz n fs ?p"
    and len: "length (ps_pools s) = MAX_NR_POOLS" "i < MAX_NR_POOLS" "cb + k < length (ps_chunks s)"
    and c: "chunk_ok base isz fs k ?c"
    using rep k by (auto simp: pool_rep_def)
  note sl = slot_of_addr [OF r k x]
  have cap: "pl_capacity ?p = of_nat n" using d of_nat_unat_id [of "pl_capacity ?p"] by (simp add: desc_ok_def)
  have nb: "n < 4294967296" using r by (simp add: region_ok_def pool_consts)
  have "addr_valid ?p x"
    using sl d by (simp add: addr_valid_def get_base_def get_limit_def desc_ok_def cap)
  moreover have "0 \<le> sint ((x - base) div isz)" using sl(1) k r
    by (intro sint_small) (auto simp: region_ok_def pool_consts)
  moreover have "(x - base) div isz < pl_capacity ?p"
    using sl(1) k d by (simp add: word_less_nat_alt desc_ok_def)
  moreover have "ck_index ?c = (x - base) div isz"
    using c sl(1) of_nat_unat_id [of "(x - base) div isz"] by (simp add: chunk_ok_def)
  moreover have "ck_data ?c = 0 \<longleftrightarrow> k \<in> set fs"
    using c item_addr_nonzero [OF r k] by (simp add: chunk_ok_def)
  moreover have "pl_chunk_base ?p = ChunkLink cb" using d k by (auto simp: desc_ok_def)
  ultimately show ?thesis
    using d len sl pool_rep_valid [OF rep] r
    by (auto simp: pool_free_def desc_ok_def Let_def free_result_def region_ok_def assert_opt_def)
qed

lemma free_result_rep:
  assumes rep: "pool_rep i cb base isz n s fs" and k: "k < n" "k \<notin> set fs"
  shows "pool_rep i cb base isz n (free_result i cb k s) (k # fs)"
proof -
  have "dlist (list_add_tail (PoolHead i) (ChunkLink (cb + k)) (ps_links s)) (PoolHead i)
      (ChunkLink (cb + k) # map (\<lambda>k. ChunkLink (cb + k)) fs)"
    using rep k by (intro dlist_add_tail) (auto simp: pool_rep_def)
  moreover have "chunk_ok base isz (k # fs) l ((ps_chunks (free_result i cb k s)) ! (cb + l))"
    if "l < n" for l
  proof -
    have "chunk_ok base isz fs l (ps_chunks s ! (cb + l))" using rep that by (simp add: pool_rep_def)
    then show ?thesis
      using rep that k by (auto simp: free_result_def chunk_ok_def pool_rep_def nth_list_update)
  qed
  ultimately show ?thesis
    using rep k by (auto simp: pool_rep_def free_result_def desc_ok_def)
qed

subsection \<open>What an operation on one pool leaves alone\<close>

definition pool_frame :: "nat \<Rightarrow> nat set \<Rightarrow> pool_state \<Rightarrow> pool_state \<Rightarrow> bool" where
  "pool_frame d C s s' \<longleftrightarrow>
     length (ps_pools s') = length (ps_pools s) \<and> length (ps_chunks s') = length (ps_chunks s) \<and>
     (\<forall>j. j \<noteq> d \<longrightarrow> ps_pools s' ! j = ps_pools s ! j) \<and>
     (\<forall>c. c \<notin> C \<longrightarrow> ps_chunks s' ! c = ps_chunks s ! c) \<and>
     (\<forall>j gs. j \<noteq> d \<longrightarrow> set gs \<inter> C = {} \<longrightarrow>
        dlist (ps_links s) (PoolHead j) (map ChunkLink gs) \<longrightarrow>
        dlist (ps_links s') (PoolHead j) (map ChunkLink gs))"

lemma pool_frame_refl [simp]: "pool_frame d C s s"
  by (simp add: pool_frame_def)

lemma pool_frame_trans: "pool_frame d C s t \<Longrightarrow> pool_frame d C t u \<Longrightarrow> pool_frame d C s u"
  by (auto simp: pool_frame_def)

lemma pool_frame_rep:
  assumes f: "pool_frame d C s s'" and rep: "pool_rep j cb base isz n s gs" "j \<noteq> d"
    and disj: "{cb..<cb + n} \<inter> C = {}"
  shows "pool_rep j cb base isz n s' gs"
proof -
  have gs: "set gs \<subseteq> {..<n}"
    and "dlist (ps_links s) (PoolHead j) (map ChunkLink (map ((+) cb) gs))"
    using rep(1) by (simp_all add: pool_rep_def comp_def)
  moreover have "set (map ((+) cb) gs) \<subseteq> {cb..<cb + n}" using gs by auto
  then have "set (map ((+) cb) gs) \<inter> C = {}" using disj by blast
  ultimately have "dlist (ps_links s') (PoolHead j) (map ChunkLink (map ((+) cb) gs))"
    using f rep(2) unfolding pool_frame_def by blast
  then have "dlist (ps_links s') (PoolHead j) (map (\<lambda>k. ChunkLink (cb + k)) gs)"
    by (simp add: comp_def)
  moreover have "ps_chunks s' ! (cb + k) = ps_chunks s ! (cb + k)" if "k < n" for k
  proof -
    have "cb + k \<in> {cb..<cb + n}" using that by simp
    then have "cb + k \<notin> C" using disj by blast
    with f show ?thesis by (simp add: pool_frame_def)
  qed
  ultimately show ?thesis
    using f rep by (simp add: pool_frame_def pool_rep_def)
qed

lemma links_frame:
  assumes "dlist h (PoolHead d) (map ChunkLink xs)" "j \<noteq> d" "set xs \<subseteq> C" "set gs \<inter> C = {}"
    and "dlist h (PoolHead j) (map ChunkLink gs)" and "c \<in> C"
  shows "dlist (list_add (PoolHead d) (ChunkLink c) h) (PoolHead j) (map ChunkLink gs)"
    "dlist (list_add_tail (PoolHead d) (ChunkLink c) h) (PoolHead j) (map ChunkLink gs)"
    "c \<in> set xs \<Longrightarrow> dlist (list_remove (ChunkLink c) h) (PoolHead j) (map ChunkLink gs)"
proof -
  have d: "set (PoolHead d # map ChunkLink xs) \<inter> set (PoolHead j # map ChunkLink gs) = {}"
    using assms by auto
  have c: "ChunkLink c \<notin> set (PoolHead j # map ChunkLink gs)" using assms by auto
  note fr = dlist_frame [OF assms(1,5) d, of "ChunkLink c"]
  show "dlist (list_add (PoolHead d) (ChunkLink c) h) (PoolHead j) (map ChunkLink gs)"
    "dlist (list_add_tail (PoolHead d) (ChunkLink c) h) (PoolHead j) (map ChunkLink gs)"
    "c \<in> set xs \<Longrightarrow> dlist (list_remove (ChunkLink c) h) (PoolHead j) (map ChunkLink gs)"
    using fr c by auto
qed

lemma alloc_result_frame:
  assumes rep: "pool_rep i cb base isz n s (k # fs)"
  shows "pool_frame i {cb..<cb + n} s (alloc_result i cb base isz k s)"
proof -
  have d: "dlist (ps_links s) (PoolHead i) (map ChunkLink (map ((+) cb) (k # fs)))"
    using rep by (simp add: pool_rep_def comp_def)
  have "set (map ((+) cb) (k # fs)) \<subseteq> {cb..<cb + n}" "cb + k \<in> {cb..<cb + n}"
    using rep by (auto simp: pool_rep_def)
  then show ?thesis
    using links_frame(3) [OF d, of _ "{cb..<cb + n}" _ "cb + k"] by (auto simp: pool_frame_def alloc_result_def)
qed

lemma free_result_frame:
  assumes rep: "pool_rep i cb base isz n s fs" and k: "k < n"
  shows "pool_frame i {cb..<cb + n} s (free_result i cb k s)"
proof -
  have d: "dlist (ps_links s) (PoolHead i) (map ChunkLink (map ((+) cb) fs))"
    using rep by (simp add: pool_rep_def comp_def)
  moreover have "set (map ((+) cb) fs) \<subseteq> {cb..<cb + n}" "cb + k \<in> {cb..<cb + n}"
    using rep k by (auto simp: pool_rep_def)
  ultimately show ?thesis
    using links_frame(2) [OF d] by (auto simp: pool_frame_def free_result_def)
qed

subsection \<open>Creating a pool\<close>

definition same_desc :: "pool \<Rightarrow> pool \<Rightarrow> bool" where
  "same_desc p q \<longleftrightarrow> pl_magic p = pl_magic q \<and> pl_name p = pl_name q \<and> pl_index p = pl_index q \<and>
     pl_base p = pl_base q \<and> pl_item_size p = pl_item_size q \<and> pl_capacity p = pl_capacity q"

lemma same_desc_trans: "same_desc p q \<Longrightarrow> same_desc q r \<Longrightarrow> same_desc p r"
  by (simp add: same_desc_def)

text \<open>
  The state when the free list of pool \<open>d\<close> has \<open>i\<close> of its \<open>n\<close> chunks. The free
  chunks start with \<open>n\<close> adjacent ones, from \<open>m\<close> on.
\<close>

definition chunks_added :: "nat \<Rightarrow> nat \<Rightarrow> nat \<Rightarrow> nat \<Rightarrow> pool_state \<Rightarrow> bool" where
  "chunks_added d m n i s \<longleftrightarrow>
     length (ps_pools s) = MAX_NR_POOLS \<and> d < MAX_NR_POOLS \<and>
     length (ps_chunks s) = MAX_NR_POOL_ITEMS \<and> length (ps_chunk_mask s) = 8 \<and>
     {m + i..<m + n} \<subseteq> bits (ps_chunk_mask s) \<and> (\<forall>j \<in> bits (ps_chunk_mask s). m + i \<le> j) \<and>
     dlist (ps_links s) (PoolHead d) (map (\<lambda>k. ChunkLink (m + k)) [0..<i]) \<and>
     (0 < i \<longrightarrow> pl_chunk_base (ps_pools s ! d) = ChunkLink m \<and> pl_alloc (ps_pools s ! d) = ChunkLink m) \<and>
     (\<forall>k < i. ck_index (ps_chunks s ! (m + k)) = of_nat k \<and> ck_data (ps_chunks s ! (m + k)) = 0)"

lemma add_chunk_step:
  assumes added: "chunks_added d m n i s" and i: "i < n"
  shows "\<exists>s'. add_chunk d i s = Some s' \<and> chunks_added d m n (Suc i) s' \<and>
    bits (ps_chunk_mask s') = bits (ps_chunk_mask s) - {m + i} \<and>
    pool_frame d {m..<m + n} s s' \<and> same_desc (ps_pools s' ! d) (ps_pools s ! d) \<and>
    ps_mem s' = ps_mem s \<and> ps_pool_mask s' = ps_pool_mask s \<and> ps_initialized s' = ps_initialized s"
proof -
  let ?B = "bits (ps_chunk_mask s)" and ?c = "m + i"
  have B: "?c \<in> ?B" "\<And>j. j \<in> ?B \<Longrightarrow> ?c \<le> j" and len: "length (ps_chunk_mask s) = 8"
    using added i by (auto simp: chunks_added_def)
  have "Min ?B = ?c" using B by (intro Min_eqI) auto
  then have scan: "bit_scan_forward (ps_chunk_mask s) (MAX_NR_POOL_ITEMS div 8) = Some (int ?c)"
    using bit_scan_forward_bits [of "ps_chunk_mask s" 32] B(1) len by (auto simp: pool_consts)
  have c: "?c < 32 * length (ps_chunk_mask s)" using B(1) bits_bound by blast
  then obtain mask where mask: "clear_bit (ps_chunk_mask s) ?c = Some mask" "length mask = 8"
    "bits mask = ?B - {?c}" using clear_bit_bits [OF c] len by auto
  let ?ck = "\<lparr>ck_magic = CHUNK_MAGIC, ck_index = of_nat i, ck_pool = Some d, ck_data = 0\<rparr>"
  let ?p = "ps_pools s ! d"
  define p' where "p' = (if i = 0 then ?p\<lparr>pl_chunk_base := ChunkLink ?c, pl_alloc := ChunkLink ?c\<rparr> else ?p)"
  define s' where "s' = s\<lparr>ps_chunk_mask := mask, ps_chunks := (ps_chunks s)[?c := ?ck],
    ps_pools := (ps_pools s)[d := p'], ps_links := list_add (PoolHead d) (ChunkLink ?c) (ps_links s)\<rparr>"
  have c': "?c < length (ps_chunks s)" using c added by (simp add: chunks_added_def pool_consts)
  have d: "d < length (ps_pools s)" using added by (simp add: chunks_added_def)
  have eq: "add_chunk d i s = Some s'"
    using scan mask c' d
    by (simp add: add_chunk_def s'_def p'_def Let_def del: of_nat_add split del: if_split cong: if_cong)
  have dl: "dlist (ps_links s) (PoolHead d) (map ChunkLink (map ((+) m) [0..<i]))"
    using added by (simp add: chunks_added_def comp_def)
  have "dlist (ps_links s') (PoolHead d) (map ChunkLink (map ((+) m) [0..<i]) @ [ChunkLink ?c])"
    using dl unfolding s'_def by (simp, intro dlist_add) auto
  then have links: "dlist (ps_links s') (PoolHead d) (map (\<lambda>k. ChunkLink (m + k)) [0..<Suc i])"
    by (simp add: comp_def)
  have "Suc ?c \<le> j" if "j \<in> bits mask" for j
    using B(2) [of j] that by (auto simp: mask(3))
  moreover have "{m + Suc i..<m + n} \<subseteq> bits mask"
    using added by (auto simp: mask(3) chunks_added_def)
  ultimately have "chunks_added d m n (Suc i) s'"
    using links added c' d mask(2)
    unfolding chunks_added_def by (simp add: s'_def p'_def nth_list_update less_Suc_eq)
  moreover have "pool_frame d {m..<m + n} s s'"
    using links_frame(1) [OF dl, of _ "{m..<m + n}"] i
    by (auto simp: pool_frame_def s'_def)
  moreover have "same_desc (ps_pools s' ! d) ?p"
    using d by (simp add: s'_def p'_def same_desc_def)
  ultimately show ?thesis using eq mask by (simp add: s'_def)
qed

lemma add_chunks_all:
  assumes "chunks_added d m n i s" "i \<le> n"
  shows "\<exists>s'. add_chunks d i (n - i) s = Some s' \<and> chunks_added d m n n s' \<and>
    bits (ps_chunk_mask s') = bits (ps_chunk_mask s) - {m + i..<m + n} \<and>
    pool_frame d {m..<m + n} s s' \<and> same_desc (ps_pools s' ! d) (ps_pools s ! d) \<and>
    ps_mem s' = ps_mem s \<and> ps_pool_mask s' = ps_pool_mask s \<and> ps_initialized s' = ps_initialized s"
  using assms
proof (induction "n - i" arbitrary: i s)
  case 0
  then show ?case by (simp add: same_desc_def)
next
  case (Suc k)
  then have i: "i < n" "k = n - Suc i" by auto
  obtain t where t: "add_chunk d i s = Some t" "chunks_added d m n (Suc i) t"
    "bits (ps_chunk_mask t) = bits (ps_chunk_mask s) - {m + i}" "pool_frame d {m..<m + n} s t"
    "same_desc (ps_pools t ! d) (ps_pools s ! d)" "ps_mem t = ps_mem s"
    "ps_pool_mask t = ps_pool_mask s" "ps_initialized t = ps_initialized s"
    using add_chunk_step [OF Suc.prems(1) i(1)] by blast
  obtain u where u: "add_chunks d (Suc i) (n - Suc i) t = Some u" "chunks_added d m n n u"
    "bits (ps_chunk_mask u) = bits (ps_chunk_mask t) - {m + Suc i..<m + n}" "pool_frame d {m..<m + n} t u"
    "same_desc (ps_pools u ! d) (ps_pools t ! d)" "ps_mem u = ps_mem t"
    "ps_pool_mask u = ps_pool_mask t" "ps_initialized u = ps_initialized t"
    using Suc.hyps(1) [OF i(2) t(2)] i by auto
  have "{m + i..<m + n} = insert (m + i) {m + Suc i..<m + n}" using i by auto
  then have "bits (ps_chunk_mask u) = bits (ps_chunk_mask s) - {m + i..<m + n}"
    unfolding t(3) u(3) by blast
  moreover have "add_chunks d i (n - i) s = Some u"
    using t(1) u(1) by (simp add: i(2) flip: Suc.hyps(2))
  ultimately show ?case
    using t u pool_frame_trans [OF t(4) u(4)] same_desc_trans [OF u(5) t(5)] by simp
qed

text \<open>\<open>n\<close> free chunks in a row, and no free chunk before them.\<close>

definition first_free :: "nat \<Rightarrow> nat \<Rightarrow> pool_state \<Rightarrow> bool" where
  "first_free m n s \<longleftrightarrow> {m..<m + n} \<subseteq> bits (ps_chunk_mask s) \<and> (\<forall>j \<in> bits (ps_chunk_mask s). m \<le> j)"

definition tables_ok :: "pool_state \<Rightarrow> bool" where
  "tables_ok s \<longleftrightarrow> ps_initialized s \<and> length (ps_pools s) = MAX_NR_POOLS \<and>
     length (ps_chunks s) = MAX_NR_POOL_ITEMS \<and> length (ps_pool_mask s) = 1 \<and> length (ps_chunk_mask s) = 8"

lemma ensure_capacity_bits: "ensure_capacity c s \<longleftrightarrow> unat c \<le> card (bits (ps_chunk_mask s))"
  by (simp add: ensure_capacity_def sum_popcount)

lemma pool_create_rep:
  assumes t: "tables_ok s" and r: "region_ok addr isz (unat cap)" and ff: "first_free m (unat cap) s"
    and i: "i \<in> bits (ps_pool_mask s)" "\<forall>j \<in> bits (ps_pool_mask s). i \<le> j" and m: "m \<le> MAX_NR_POOL_ITEMS"
  shows "\<exists>s'. pool_create addr (Some nm) isz cap s = Some (Some i, s') \<and> tables_ok s' \<and>
    pool_rep i m addr isz (unat cap) s' [0..<unat cap] \<and>
    pl_name (ps_pools s' ! i) = take POOL_NAME_LENGTH nm \<and>
    bits (ps_chunk_mask s') = bits (ps_chunk_mask s) - {m..<m + unat cap} \<and>
    bits (ps_pool_mask s') = bits (ps_pool_mask s) - {i} \<and> ps_mem s' = ps_mem s \<and>
    pool_frame i {m..<m + unat cap} s s'"
proof -
  let ?n = "unat cap" and ?p = "ps_pools s ! i"
  have "card {m..<m + ?n} \<le> card (bits (ps_chunk_mask s))"
    using ff by (intro card_mono) (auto simp: first_free_def)
  then have cap: "ensure_capacity cap s" by (simp add: ensure_capacity_bits)
  have "Min (bits (ps_pool_mask s)) = i" using i by (intro Min_eqI) auto
  then have scan: "bit_scan_forward (ps_pool_mask s) (MAX_NR_POOLS div 8) = Some (int i)"
    using bit_scan_forward_bits [of "ps_pool_mask s" 4] i(1) t by (auto simp: tables_ok_def pool_consts)
  have ib: "i < 32 * length (ps_pool_mask s)" using i(1) bits_bound by blast
  then have i32: "i < MAX_NR_POOLS" using t by (simp add: tables_ok_def pool_consts)
  obtain mask where mask: "clear_bit (ps_pool_mask s) i = Some mask" "length mask = 1"
    "bits mask = bits (ps_pool_mask s) - {i}" using clear_bit_bits [OF ib] t by (auto simp: tables_ok_def)
  define p where "p = ?p\<lparr>pl_magic := POOL_MAGIC, pl_index := i, pl_base := addr, pl_item_size := isz,
    pl_capacity := cap, pl_name := take POOL_NAME_LENGTH nm\<rparr>"
  define u where "u = s\<lparr>ps_pool_mask := mask, ps_pools := (ps_pools s)[i := p],
    ps_links := list_init (PoolHead i) (ps_links s)\<rparr>"
  have up: "ps_pools u ! i = p" using t i32 by (simp add: u_def tables_ok_def)
  have "chunks_added i m ?n 0 u"
    using t ff i32 by (simp add: chunks_added_def tables_ok_def first_free_def u_def list_init_dlist)
  from add_chunks_all [OF this] obtain s' where s': "add_chunks i 0 ?n u = Some s'" "chunks_added i m ?n ?n s'"
    "bits (ps_chunk_mask s') = bits (ps_chunk_mask u) - {m..<m + ?n}" "pool_frame i {m..<m + ?n} u s'"
    "same_desc (ps_pools s' ! i) p" "ps_mem s' = ps_mem u" "ps_pool_mask s' = ps_pool_mask u"
    "ps_initialized s' = ps_initialized u" unfolding up by auto
  have create: "pool_create addr (Some nm) isz cap s = Some (Some i, s')"
    using t r cap scan mask i32 s'(1) by (simp add: pool_create_def tables_ok_def region_ok_def p_def u_def Let_def)
  have "pool_frame i {m..<m + ?n} s u"
    unfolding pool_frame_def
  proof (intro conjI allI impI)
    fix j gs assume "j \<noteq> i" "dlist (ps_links s) (PoolHead j) (map ChunkLink gs)"
    then show "dlist (ps_links u) (PoolHead j) (map ChunkLink gs)"
      by (subst dlist_cong [where h' = "ps_links s"]) (auto simp: u_def list_init_def set_next_def set_prev_def)
  qed (simp_all add: u_def)
  then have "pool_frame i {m..<m + ?n} s s'" by (rule pool_frame_trans) (rule s'(4))
  moreover have m': "m + ?n \<le> MAX_NR_POOL_ITEMS"
  proof (cases "?n = 0")
    case False
    then have "m + ?n - 1 \<in> bits (ps_chunk_mask s)" using ff by (auto simp: first_free_def)
    with bits_bound [OF this] t show ?thesis by (simp add: tables_ok_def pool_consts)
  qed (use m in simp)
  have "pl_name (ps_pools s' ! i) = take POOL_NAME_LENGTH nm \<and> desc_ok i m addr isz ?n [0..<?n] (ps_pools s' ! i)"
    using s'(2,5) by (auto simp: same_desc_def desc_ok_def p_def chunks_added_def hd_upt)
  moreover from this have "pool_rep i m addr isz ?n s' [0..<?n]"
    using s'(2) r m' by (auto simp: pool_rep_def chunks_added_def chunk_ok_def)
  moreover have "tables_ok s'" using s'(2,7,8) t mask by (simp add: tables_ok_def chunks_added_def u_def)
  ultimately show ?thesis using create s' mask by (simp add: u_def)
qed

subsection \<open>Destroying a pool\<close>

lemma release_chunks_all:
  assumes "c + i + n \<le> MAX_NR_POOL_ITEMS" "length (ps_chunk_mask s) = 8"
    "length (ps_chunks s) = MAX_NR_POOL_ITEMS" "d < length (ps_pools s)"
    "n \<noteq> 0 \<longrightarrow> pl_chunk_base (ps_pools s ! d) = ChunkLink c"
  shows "\<exists>s'. release_chunks d i n s = Some s' \<and> length (ps_chunk_mask s') = 8 \<and>
    bits (ps_chunk_mask s') = bits (ps_chunk_mask s) \<union> {c + i..<c + i + n} \<and>
    ps_pools s' = ps_pools s \<and> ps_pool_mask s' = ps_pool_mask s \<and> ps_mem s' = ps_mem s \<and>
    ps_initialized s' = ps_initialized s \<and> pool_frame d {c..<c + i + n} s s'"
  using assms
proof (induction n arbitrary: i s)
  case 0
  then show ?case by simp
next
  case (Suc n)
  have b: "c + i < 32 * length (ps_chunk_mask s)" and c: "c < length (ps_chunks s)"
    using Suc.prems by (auto simp: pool_consts)
  obtain mask where mask: "set_bit (ps_chunk_mask s) (c + i) = Some mask" "length mask = 8"
    "bits mask = insert (c + i) (bits (ps_chunk_mask s))"
    using set_bit_bits [OF b] Suc.prems by auto
  define t where "t = s\<lparr>ps_chunk_mask := mask, ps_chunks := (ps_chunks s)[c := zero_chunk],
    ps_links := zero_link (ChunkLink c) (ps_links s)\<rparr>"
  have eq: "release_chunks d i (Suc n) s = release_chunks d (Suc i) n t"
    using mask c Suc.prems by (simp add: t_def)
  have "\<exists>s'. release_chunks d (Suc i) n t = Some s' \<and> length (ps_chunk_mask s') = 8 \<and>
    bits (ps_chunk_mask s') = bits (ps_chunk_mask t) \<union> {c + Suc i..<c + Suc i + n} \<and>
    ps_pools s' = ps_pools t \<and> ps_pool_mask s' = ps_pool_mask t \<and> ps_mem s' = ps_mem t \<and>
    ps_initialized s' = ps_initialized t \<and> pool_frame d {c..<c + Suc i + n} t s'"
    by (rule Suc.IH) (use Suc.prems mask in \<open>simp_all add: t_def\<close>)
  then obtain u where u: "release_chunks d (Suc i) n t = Some u" "length (ps_chunk_mask u) = 8"
    "bits (ps_chunk_mask u) = bits mask \<union> {c + Suc i..<c + Suc i + n}"
    "ps_pools u = ps_pools s" "ps_pool_mask u = ps_pool_mask s" "ps_mem u = ps_mem s"
    "ps_initialized u = ps_initialized s" "pool_frame d {c..<c + Suc i + n} t u"
    by (auto simp: t_def)
  have "pool_frame d {c..<c + Suc i + n} s t"
    unfolding pool_frame_def
  proof (intro conjI allI impI)
    fix j gs assume "set gs \<inter> {c..<c + Suc i + n} = {}" "dlist (ps_links s) (PoolHead j) (map ChunkLink gs)"
    then show "dlist (ps_links t) (PoolHead j) (map ChunkLink gs)"
      by (subst dlist_cong [where h' = "ps_links s"]) (auto simp: t_def zero_link_def set_next_def set_prev_def)
  qed (auto simp: t_def)
  with u(8) have "pool_frame d {c..<c + i + Suc n} s u"
    using pool_frame_trans by (metis add_Suc_right add_Suc_shift)
  moreover have "bits (ps_chunk_mask u) = bits (ps_chunk_mask s) \<union> {c + i..<c + i + Suc n}"
    unfolding u(3) mask(3) by auto
  ultimately show ?case using eq u by auto
qed

lemma pool_destroy_rep:
  assumes rep: "pool_rep i cb base isz n s fs" and t: "tables_ok s"
  shows "\<exists>s'. pool_destroy (Some i) s = Some s' \<and> tables_ok s' \<and> \<not> pool_valid (Some i) s' \<and>
    bits (ps_chunk_mask s') = bits (ps_chunk_mask s) \<union> {cb..<cb + n} \<and>
    bits (ps_pool_mask s') = insert i (bits (ps_pool_mask s)) \<and> ps_mem s' = ps_mem s \<and>
    pool_frame i {cb..<cb + n} s s'"
proof -
  let ?p = "ps_pools s ! i"
  have p: "pl_index ?p = i" "unat (pl_capacity ?p) = n" "n \<noteq> 0 \<longrightarrow> pl_chunk_base ?p = ChunkLink cb"
    and len: "i < length (ps_pools s)" "i < 32 * length (ps_pool_mask s)"
    using rep t by (auto simp: pool_rep_def desc_ok_def tables_ok_def pool_consts)
  obtain u where u: "release_chunks i 0 n s = Some u" "length (ps_chunk_mask u) = 8"
    "bits (ps_chunk_mask u) = bits (ps_chunk_mask s) \<union> {cb..<cb + n}"
    "ps_pools u = ps_pools s" "ps_pool_mask u = ps_pool_mask s" "ps_mem u = ps_mem s"
    "ps_initialized u = ps_initialized s" "pool_frame i {cb..<cb + n} s u"
    using release_chunks_all [of cb 0 n s i] rep t p by (auto simp: pool_rep_def tables_ok_def)
  obtain mask where mask: "set_bit (ps_pool_mask u) i = Some mask" "length mask = length (ps_pool_mask s)"
    "bits mask = insert i (bits (ps_pool_mask s))" using set_bit_bits [OF len(2)] u(5) by auto
  define v where "v = u\<lparr>ps_pool_mask := mask, ps_pools := (ps_pools u)[i := zero_pool],
    ps_links := zero_link (PoolHead i) (ps_links u)\<rparr>"
  have "pool_frame i {cb..<cb + n} u v"
    unfolding pool_frame_def
  proof (intro conjI allI impI)
    fix j gs assume "j \<noteq> i" "dlist (ps_links u) (PoolHead j) (map ChunkLink gs)"
    then show "dlist (ps_links v) (PoolHead j) (map ChunkLink gs)"
      by (subst dlist_cong [where h' = "ps_links u"]) (auto simp: v_def zero_link_def set_next_def set_prev_def)
  qed (auto simp: v_def)
  then have "pool_frame i {cb..<cb + n} s v" by (rule pool_frame_trans [OF u(8)])
  moreover have "pool_destroy (Some i) s = Some v"
    using pool_rep_valid [OF rep] u mask p len by (simp add: pool_destroy_def v_def)
  moreover have "\<not> pool_valid (Some i) v"
    using len u by (simp add: v_def pool_valid_def zero_pool_def)
  moreover have "length (ps_chunks v) = length (ps_chunks s)" using u(8) by (simp add: v_def pool_frame_def)
  ultimately show ?thesis using u mask t by (simp add: v_def tables_ok_def)
qed

subsection \<open>The contract of a slot allocator\<close>

text \<open>Repeated allocation, with the addresses returned.\<close>

fun alloc_n :: "('s \<Rightarrow> ('a \<times> 's) option) \<Rightarrow> nat \<Rightarrow> 's \<Rightarrow> ('a list \<times> 's) option" where
  "alloc_n alloc 0 s = Some ([], s)"
| "alloc_n alloc (Suc n) s = do { (a, s) \<leftarrow> alloc s; (as, s) \<leftarrow> alloc_n alloc n s; Some (a # as, s) }"

locale slot_allocator =
  fixes rep :: "'s \<Rightarrow> nat list \<Rightarrow> bool"
    and slots :: nat
    and addr :: "nat \<Rightarrow> 'a"
    and null :: 'a
    and alloc :: "'s \<Rightarrow> ('a \<times> 's) option"
    and free :: "'a \<Rightarrow> 's \<Rightarrow> (int \<times> 's) option"
  assumes rep_slots: "rep s fs \<Longrightarrow> distinct fs \<and> set fs \<subseteq> {..<slots}"
    and addr_inj: "rep s fs \<Longrightarrow> k < slots \<Longrightarrow> l < slots \<Longrightarrow> addr k = addr l \<longleftrightarrow> k = l"
    and addr_not_null: "rep s fs \<Longrightarrow> k < slots \<Longrightarrow> addr k \<noteq> null"
    and alloc_exhausted: "rep s [] \<Longrightarrow> alloc s = Some (null, s)"
    and alloc_slot: "rep s (k # fs) \<Longrightarrow> \<exists>s'. alloc s = Some (addr k, s') \<and> rep s' fs"
    and free_slot: "rep s fs \<Longrightarrow> k < slots \<Longrightarrow> k \<notin> set fs \<Longrightarrow>
      \<exists>s'. free (addr k) s = Some (0, s') \<and> rep s' (k # fs)"
begin

lemma alloc_n_slots:
  "rep s fs \<Longrightarrow> n \<le> length fs \<Longrightarrow>
     \<exists>s'. alloc_n alloc n s = Some (map addr (take n fs), s') \<and> rep s' (drop n fs)"
proof (induction n arbitrary: s fs)
  case 0
  then show ?case by simp
next
  case (Suc n)
  then obtain k gs where fs: "fs = k # gs" by (cases fs) auto
  then obtain t where "alloc s = Some (addr k, t)" "rep t gs"
    using alloc_slot Suc.prems by blast
  with Suc.IH [of t gs] Suc.prems fs show ?case by auto
qed

text \<open>All slots can be allocated, at different addresses, and then the allocator is exhausted.\<close>

lemma alloc_all:
  assumes "rep s fs"
  shows "\<exists>s'. alloc_n alloc (length fs) s = Some (map addr fs, s') \<and> distinct (map addr fs) \<and>
    null \<notin> set (map addr fs) \<and> alloc s' = Some (null, s')"
proof -
  obtain s' where s': "alloc_n alloc (length fs) s = Some (map addr fs, s')" "rep s' []"
    using alloc_n_slots [OF assms, of "length fs"] by auto
  moreover have "distinct fs" "set fs \<subseteq> {..<slots}" using rep_slots [OF assms] by auto
  then have "distinct (map addr fs)"
    using addr_inj [OF assms] by (auto simp: distinct_map inj_on_def subset_iff)
  moreover have "null \<notin> set (map addr fs)"
    using addr_not_null [OF assms] \<open>set fs \<subseteq> {..<slots}\<close> by force
  ultimately show ?thesis using alloc_exhausted by blast
qed

text \<open>A freed slot is the next one handed out; an allocation that is freed leaves no trace.\<close>

lemma free_then_alloc:
  assumes "rep s fs" "k < slots" "k \<notin> set fs"
  shows "\<exists>s' s''. free (addr k) s = Some (0, s') \<and> alloc s' = Some (addr k, s'') \<and> rep s'' fs"
  using free_slot [OF assms] alloc_slot by blast

lemma alloc_then_free:
  assumes "rep s (k # fs)"
  shows "\<exists>s' s''. alloc s = Some (addr k, s') \<and> free (addr k) s' = Some (0, s'') \<and> rep s'' (k # fs)"
  using alloc_slot [OF assms] free_slot rep_slots [OF assms] by fastforce

end

lemma item_addr_inj:
  assumes "region_ok base isz n" "k < n" "l < n"
  shows "item_addr base isz k = item_addr base isz l \<longleftrightarrow> k = l"
proof
  assume "item_addr base isz k = item_addr base isz l"
  then have "unat isz * k = unat isz * l"
    using unat_item_addr(1) [OF assms(1,2)] unat_item_addr(1) [OF assms(1,3)] by (metis add_left_cancel)
  moreover have "unat isz \<noteq> 0" using assms(1) by (simp add: region_ok_def unat_eq_zero)
  ultimately show "k = l" by simp
qed simp

lemma in_own_item: "region_ok base isz n \<Longrightarrow> item_addr base isz k - item_addr base isz k < isz"
  by (simp add: region_ok_def word_neq_0_conv)

interpretation pool_slots: slot_allocator "pool_rep i cb base isz n" n "item_addr base isz" 0
    "pool_alloc (Some i)" "pool_free (Some i)" for i cb base isz n
proof unfold_locales
  fix s fs k l
  assume rep: "pool_rep i cb base isz n s fs"
  then have r: "region_ok base isz n" by (simp add: pool_rep_def)
  show "distinct fs \<and> set fs \<subseteq> {..<n}" using rep pool_rep_distinct by (auto simp: pool_rep_def)
  assume k: "k < n"
  then show "item_addr base isz k \<noteq> 0" using r by (rule item_addr_nonzero [rotated])
  show "(item_addr base isz k = item_addr base isz l) = (k = l)" if "l < n"
    using item_addr_inj [OF r k that] .
  show "\<exists>s'. pool_free (Some i) (item_addr base isz k) s = Some (0, s') \<and> pool_rep i cb base isz n s' (k # fs)"
    if "k \<notin> set fs"
    using pool_free_eq [OF rep k in_own_item [OF r]] free_result_rep [OF rep k] that by simp
next
  fix s assume "pool_rep i cb base isz n s []"
  then show "pool_alloc (Some i) s = Some (0, s)" by (rule pool_alloc_empty)
next
  fix s k fs assume "pool_rep i cb base isz n s (k # fs)"
  then show "\<exists>s'. pool_alloc (Some i) s = Some (item_addr base isz k, s') \<and> pool_rep i cb base isz n s' fs"
    using pool_alloc_eq alloc_result_rep by blast
qed

subsection \<open>Properties\<close>

lemma addr_valid_iff:
  assumes rep: "pool_rep i cb base isz n s fs"
  shows "addr_valid (ps_pools s ! i) x \<longleftrightarrow> (\<exists>k < n. x - item_addr base isz k < isz)"
proof
  have r: "region_ok base isz n" and d: "desc_ok i cb base isz n fs (ps_pools s ! i)"
    using rep by (auto simp: pool_rep_def)
  have cap: "pl_capacity (ps_pools s ! i) = of_nat n"
    using d of_nat_unat_id [of "pl_capacity (ps_pools s ! i)"] by (simp add: desc_ok_def)
  have isz: "0 < unat isz" using r by (simp add: region_ok_def unat_gt_0)
  have valid: "addr_valid (ps_pools s ! i) x \<longleftrightarrow> base \<le> x \<and> x \<le> base + isz * of_nat n - 1" for x
    using d by (simp add: addr_valid_def get_base_def get_limit_def desc_ok_def cap)
  show "addr_valid (ps_pools s ! i) x" if "\<exists>k < n. x - item_addr base isz k < isz"
    using that slot_of_addr [OF r] valid by blast
  assume "addr_valid (ps_pools s ! i) x"
  then have x: "base \<le> x" "x \<le> base + isz * of_nat n - 1" using valid by auto
  have "n \<noteq> 0"
  proof
    assume "n = 0"
    then have "base \<le> base - 1" using x by simp
    moreover have "0 < unat base" using r by (simp add: region_ok_def unat_gt_0)
    ultimately show False using r by (simp add: region_ok_def word_le_nat_alt unat_minus_one)
  qed
  then have "unat x < unat base + unat isz * n"
    using x(2) unat_limit [OF r] unfolding word_le_nat_alt by fastforce
  then have lt: "(unat x - unat base) div unat isz < n"
    using x(1) isz by (simp add: word_le_nat_alt div_less_iff_less_mult mult.commute)
  let ?k = "(unat x - unat base) div unat isz"
  have "unat isz * ?k \<le> unat x - unat base" "unat x - unat base < unat isz * Suc ?k"
    using isz by (simp_all add: dividend_less_times_div)
  then have "unat base + unat isz * ?k \<le> unat x" "unat x < unat base + unat isz * Suc ?k"
    using x(1) unfolding word_le_nat_alt by linarith+
  then have "x - item_addr base isz ?k < isz" using in_item [OF r lt] by blast
  with lt show "\<exists>k < n. x - item_addr base isz k < isz" by blast
qed

lemma bits_ones: "bits (replicate n 0xFFFFFFFF) = {..<32 * n}"
proof -
  have ones: "(0xFFFFFFFF :: u32) = - 1" by simp
  show ?thesis unfolding ones by (auto simp: bits_def bit_simps)
qed

lemma init_pool_tables:
  "tables_ok (init_pool (pool_state0 m))"
  "bits (ps_pool_mask (init_pool (pool_state0 m))) = {..<32}"
  "bits (ps_chunk_mask (init_pool (pool_state0 m))) = {..<256}"
  using bits_ones [of 1] bits_ones [of 8]
  by (simp_all add: init_pool_def pool_state0_def tables_ok_def)

text \<open>A pool of four 16-byte items at address 0x1000, the first one created after boot.\<close>

lemma pool_example:
  "\<exists>s. pool_create 0x1000 (Some nm) 16 4 (init_pool (pool_state0 m)) = Some (Some 0, s) \<and>
     tables_ok s \<and> pool_rep 0 0 0x1000 16 4 s [0, 1, 2, 3]"
proof -
  let ?s = "init_pool (pool_state0 m)"
  have "region_ok 0x1000 16 (unat (4 :: u32))" "first_free 0 (unat (4 :: u32)) ?s"
    "0 \<in> bits (ps_pool_mask ?s)" "\<forall>j \<in> bits (ps_pool_mask ?s). 0 \<le> j"
    by (auto simp: init_pool_tables first_free_def region_ok_def pool_consts)
  from pool_create_rep [OF init_pool_tables(1) this]
  have "\<exists>s. pool_create 0x1000 (Some nm) 16 4 ?s = Some (Some 0, s) \<and> tables_ok s \<and>
      pool_rep 0 0 0x1000 16 (unat (4 :: u32)) s [0..<unat (4 :: u32)]"
    by blast
  moreover have "unat (4 :: u32) = 4" "[0..<4] = [0, 1, 2, 3]" by (simp_all add: upt_rec)
  ultimately show ?thesis by simp
qed

text \<open>
  C1: Allocating from a pool with a free slot hands out the slot at the front of its free list:
  the returned block is not NULL, lies inside the region of the pool, shares no byte with any
  block in use, and is zeroed; every byte outside of the block is left alone, and every other
  pool with other chunks stays as it was. From a pool without a free slot NULL is returned and
  nothing changes.
\<close>

theorem pool_alloc_spec:
  assumes "pool_rep i cb base isz n s fs"
  shows "(fs = [] \<longrightarrow> pool_alloc (Some i) s = Some (0, s)) \<and>
    (\<forall>k gs. fs = k # gs \<longrightarrow> (\<exists>s'. let a = item_addr base isz k in
       pool_alloc (Some i) s = Some (a, s') \<and> pool_rep i cb base isz n s' gs \<and>
       a \<noteq> 0 \<and> unat base \<le> unat a \<and> unat a + unat isz \<le> unat base + unat isz * n \<and>
       (\<forall>x. x - a < isz \<longrightarrow> ps_mem s' x = 0 \<and>
          (\<forall>l < n. l \<notin> set fs \<longrightarrow> \<not> x - item_addr base isz l < isz)) \<and>
       (\<forall>x. \<not> x - a < isz \<longrightarrow> ps_mem s' x = ps_mem s x) \<and>
       (\<forall>j cb' base' isz' n' hs. pool_rep j cb' base' isz' n' s hs \<and> j \<noteq> i \<and>
          {cb'..<cb' + n'} \<inter> {cb..<cb + n} = {} \<longrightarrow> pool_rep j cb' base' isz' n' s' hs)))"
proof (intro conjI impI allI)
  show "pool_alloc (Some i) s = Some (0, s)" if "fs = []"
    using assms that pool_alloc_empty by blast
  fix k gs assume fs: "fs = k # gs"
  with assms have rep: "pool_rep i cb base isz n s (k # gs)" by simp
  then have r: "region_ok base isz n" "k < n" by (auto simp: pool_rep_def)
  let ?s = "alloc_result i cb base isz k s"
  have "\<not> x - item_addr base isz l < isz" if "x - item_addr base isz k < isz" "l < n" "l \<notin> set fs" for x l
    using items_disjoint [OF r that(2)] that fs by auto
  moreover have "ps_mem ?s = zeromem (item_addr base isz k) isz (ps_mem s)"
    by (simp add: alloc_result_def)
  ultimately show "\<exists>s'. let a = item_addr base isz k in
       pool_alloc (Some i) s = Some (a, s') \<and> pool_rep i cb base isz n s' gs \<and>
       a \<noteq> 0 \<and> unat base \<le> unat a \<and> unat a + unat isz \<le> unat base + unat isz * n \<and>
       (\<forall>x. x - a < isz \<longrightarrow> ps_mem s' x = 0 \<and>
          (\<forall>l < n. l \<notin> set fs \<longrightarrow> \<not> x - item_addr base isz l < isz)) \<and>
       (\<forall>x. \<not> x - a < isz \<longrightarrow> ps_mem s' x = ps_mem s x) \<and>
       (\<forall>j cb' base' isz' n' hs. pool_rep j cb' base' isz' n' s hs \<and> j \<noteq> i \<and>
          {cb'..<cb' + n'} \<inter> {cb..<cb + n} = {} \<longrightarrow> pool_rep j cb' base' isz' n' s' hs)"
    using pool_alloc_eq [OF rep] alloc_result_rep [OF rep] item_addr_nonzero [OF r] item_end [OF r]
      unat_item_addr(1) [OF r] pool_frame_rep [OF alloc_result_frame [OF rep]]
    by (intro exI [of _ ?s]) (simp add: zeromem_def Let_def)
qed

theorem pool_alloc_spec_witness:
  "\<exists>s s'. pool_rep 0 0 0x1000 16 4 s [0, 1, 2, 3] \<and> pool_alloc (Some 0) s = Some (0x1000, s') \<and>
     pool_rep 0 0 0x1000 16 4 s' [1, 2, 3]"
proof -
  obtain s where s: "pool_rep 0 0 0x1000 16 4 s [0, 1, 2, 3]" using pool_example by blast
  have "item_addr 0x1000 16 0 = 0x1000" by (simp add: item_addr_def)
  with pool_alloc_spec [OF s] s show ?thesis by (auto simp: Let_def)
qed

text \<open>
  C26: Freeing: an invalid descriptor or a NULL item is refused with \<open>-EINVAL\<close> and an address
  outside of the region of the pool with \<open>-EPERM\<close>, in both cases without any change. An
  address inside an item in use frees the item: its slot becomes the next one to be handed out,
  and every other pool with other chunks stays as it was. Freeing an item that is free already
  panics.
\<close>

theorem pool_free_spec:
  assumes "pool_rep i cb base isz n s fs"
  shows "(\<not> pool_valid d t \<or> x = 0 \<longrightarrow> pool_free d x t = Some (- EINVAL, t)) \<and>
    (x \<noteq> 0 \<and> (\<forall>k < n. \<not> x - item_addr base isz k < isz) \<longrightarrow> pool_free (Some i) x s = Some (- EPERM, s)) \<and>
    (\<forall>k < n. x - item_addr base isz k < isz \<longrightarrow>
      (k \<in> set fs \<longrightarrow> pool_free (Some i) x s = None) \<and>
      (k \<notin> set fs \<longrightarrow> (\<exists>s'. pool_free (Some i) x s = Some (0, s') \<and> ps_mem s' = ps_mem s \<and>
         pool_rep i cb base isz n s' (k # fs) \<and>
         (\<forall>j cb' base' isz' n' hs. pool_rep j cb' base' isz' n' s hs \<and> j \<noteq> i \<and>
            {cb'..<cb' + n'} \<inter> {cb..<cb + n} = {} \<longrightarrow> pool_rep j cb' base' isz' n' s' hs))))"
proof (intro conjI impI allI)
  show "pool_free d x t = Some (- EINVAL, t)" if "\<not> pool_valid d t \<or> x = 0"
    using that by (auto simp: pool_free_def)
  show "pool_free (Some i) x s = Some (- EPERM, s)"
    if "x \<noteq> 0 \<and> (\<forall>k < n. \<not> x - item_addr base isz k < isz)"
    using that addr_valid_iff [OF assms, of x] pool_rep_valid [OF assms] assms
    by (simp add: pool_free_def pool_rep_def)
  fix k assume k: "k < n" "x - item_addr base isz k < isz"
  show "pool_free (Some i) x s = None" if "k \<in> set fs"
    using pool_free_eq [OF assms k] that by simp
  assume "k \<notin> set fs"
  moreover have "ps_mem (free_result i cb k s) = ps_mem s" by (simp add: free_result_def)
  ultimately show "\<exists>s'. pool_free (Some i) x s = Some (0, s') \<and> ps_mem s' = ps_mem s \<and>
         pool_rep i cb base isz n s' (k # fs) \<and>
         (\<forall>j cb' base' isz' n' hs. pool_rep j cb' base' isz' n' s hs \<and> j \<noteq> i \<and>
            {cb'..<cb' + n'} \<inter> {cb..<cb + n} = {} \<longrightarrow> pool_rep j cb' base' isz' n' s' hs)"
    using pool_free_eq [OF assms k] free_result_rep [OF assms k(1)]
      pool_frame_rep [OF free_result_frame [OF assms k(1)]]
    by (intro exI [of _ "free_result i cb k s"]) simp
qed

theorem pool_free_spec_witness:
  "\<exists>s s'. pool_rep 0 0 0x1000 16 4 s [1, 2, 3] \<and> pool_free (Some 0) 0x1004 s = Some (0, s') \<and>
     pool_rep 0 0 0x1000 16 4 s' [0, 1, 2, 3] \<and> pool_free (Some 0) 0x1010 s = None \<and>
     pool_free (Some 0) 0x0FFF s = Some (- EPERM, s) \<and> pool_free None 0x1000 s = Some (- EINVAL, s)"
proof -
  obtain s0 where "pool_rep 0 0 0x1000 16 4 s0 [0, 1, 2, 3]" using pool_example by blast
  then obtain s where s: "pool_rep 0 0 0x1000 16 4 s [1, 2, 3]" using alloc_result_rep by blast
  note err = pool_free_spec [OF s, THEN conjunct1] pool_free_spec [OF s, THEN conjunct2, THEN conjunct1]
  note item = pool_free_spec [OF s, THEN conjunct2, THEN conjunct2, THEN spec]
  have 4: "k < 4 \<longleftrightarrow> k = 0 \<or> k = 1 \<or> k = 2 \<or> k = 3" for k :: nat by auto
  have a: "item_addr 0x1000 16 0 = 0x1000" "item_addr 0x1000 16 1 = 0x1010"
    "item_addr 0x1000 16 2 = 0x1020" "item_addr 0x1000 16 3 = 0x1030" by (simp_all add: item_addr_def)
  obtain s' where "pool_free (Some 0) 0x1004 s = Some (0, s')" "pool_rep 0 0 0x1000 16 4 s' [0, 1, 2, 3]"
    using item [of 0 "0x1004"] a(1) by auto
  moreover have "pool_free (Some 0) 0x1010 s = None"
    using item [of 1 "0x1010"] a(2) by simp
  moreover have "pool_free (Some 0) 0x0FFF s = Some (- EPERM, s)"
    using err(2) [of "0x0FFF"] a by (simp add: 4)
  moreover have "pool_free None 0x1000 s = Some (- EINVAL, s)"
    using err(1) by (simp add: pool_valid_def)
  ultimately show ?thesis using s by blast
qed

text \<open>
  Creating a pool takes the first free descriptor and the first free chunks. When these are
  adjacent, the result is a pool of the given name, base, item size and capacity with all slots
  free, handed out in ascending order; exactly the descriptor and the chunks taken are marked in
  use, and every other pool with other chunks stays as it was. A NULL name or address gives
  \<open>INVALID_POOL\<close> and changes nothing; before \<open>init_pool\<close>, and when there are
  fewer free chunks than the capacity, the call panics.
\<close>

theorem pool_create_spec:
  assumes "tables_ok s" and "region_ok addr isz (unat cap)" and "first_free m (unat cap) s"
    and "m \<le> MAX_NR_POOL_ITEMS"
    and "i \<in> bits (ps_pool_mask s)" and "\<forall>j \<in> bits (ps_pool_mask s). i \<le> j"
  shows "(\<exists>s'. pool_create addr (Some nm) isz cap s = Some (Some i, s') \<and> tables_ok s' \<and>
      pool_rep i m addr isz (unat cap) s' [0..<unat cap] \<and>
      pl_name (ps_pools s' ! i) = take POOL_NAME_LENGTH nm \<and>
      bits (ps_chunk_mask s') = bits (ps_chunk_mask s) - {m..<m + unat cap} \<and>
      bits (ps_pool_mask s') = bits (ps_pool_mask s) - {i} \<and> ps_mem s' = ps_mem s \<and>
      (\<forall>j cb base' isz' n hs. pool_rep j cb base' isz' n s hs \<and> j \<noteq> i \<and>
         {cb..<cb + n} \<inter> {m..<m + unat cap} = {} \<longrightarrow> pool_rep j cb base' isz' n s' hs)) \<and>
    pool_create 0 (Some nm) isz cap s = Some (None, s) \<and>
    pool_create addr None isz cap s = Some (None, s) \<and>
    (card (bits (ps_chunk_mask s)) < unat c \<longrightarrow> pool_create addr (Some nm) isz c s = None) \<and>
    pool_create addr (Some nm) isz cap (s\<lparr>ps_initialized := False\<rparr>) = None"
proof -
  have "addr \<noteq> 0" "ps_initialized s" using assms by (auto simp: region_ok_def tables_ok_def)
  then have err: "pool_create 0 (Some nm) isz cap s = Some (None, s)" "pool_create addr None isz cap s = Some (None, s)"
    "card (bits (ps_chunk_mask s)) < unat c \<longrightarrow> pool_create addr (Some nm) isz c s = None"
    "pool_create addr (Some nm) isz cap (s\<lparr>ps_initialized := False\<rparr>) = None"
    by (simp_all add: pool_create_def ensure_capacity_bits)
  obtain s' where s': "pool_create addr (Some nm) isz cap s = Some (Some i, s')" "tables_ok s'"
      "pool_rep i m addr isz (unat cap) s' [0..<unat cap]"
      "pl_name (ps_pools s' ! i) = take POOL_NAME_LENGTH nm"
      "bits (ps_chunk_mask s') = bits (ps_chunk_mask s) - {m..<m + unat cap}"
      "bits (ps_pool_mask s') = bits (ps_pool_mask s) - {i}" "ps_mem s' = ps_mem s"
    and fr: "pool_frame i {m..<m + unat cap} s s'"
    using pool_create_rep [OF assms(1,2,3,5,6,4), of nm] by blast
  have "\<forall>j cb base' isz' n hs. pool_rep j cb base' isz' n s hs \<and> j \<noteq> i \<and>
      {cb..<cb + n} \<inter> {m..<m + unat cap} = {} \<longrightarrow> pool_rep j cb base' isz' n s' hs"
    using pool_frame_rep [OF fr] by blast
  with s' err show ?thesis by (intro conjI exI [of _ s']) simp_all
qed

theorem pool_create_spec_witness:
  "\<exists>s'. pool_create 0x2000 (Some [65]) 8 3 (init_pool (pool_state0 (\<lambda>_. 7))) = Some (Some 0, s') \<and>
     pool_rep 0 0 0x2000 8 3 s' [0..<3]"
proof -
  let ?s = "init_pool (pool_state0 (\<lambda>_. 7))"
  have "region_ok 0x2000 8 (unat (3 :: u32))" "first_free 0 (unat (3 :: u32)) ?s" "0 \<le> MAX_NR_POOL_ITEMS"
    "0 \<in> bits (ps_pool_mask ?s)" "\<forall>j \<in> bits (ps_pool_mask ?s). 0 \<le> j"
    by (auto simp: init_pool_tables first_free_def region_ok_def pool_consts)
  from pool_create_spec [OF init_pool_tables(1) this, of "[65]", THEN conjunct1]
  have "\<exists>s'. pool_create 0x2000 (Some [65]) 8 3 ?s = Some (Some 0, s') \<and>
      pool_rep 0 0 0x2000 8 (unat (3 :: u32)) s' [0..<unat (3 :: u32)]" by blast
  moreover have "unat (3 :: u32) = 3" by simp
  ultimately show ?thesis by simp
qed

text \<open>
  Destroying a pool gives its descriptor and all of its chunks back: they are marked free,
  nothing else is, the descriptor is no longer valid, and every other pool with other chunks
  stays as it was. Destroying an invalid descriptor does nothing.
\<close>

theorem pool_destroy_spec:
  assumes "pool_rep i cb base isz n s fs" and "tables_ok s"
  shows "(\<exists>s'. pool_destroy (Some i) s = Some s' \<and> tables_ok s' \<and> \<not> pool_valid (Some i) s' \<and>
      bits (ps_chunk_mask s') = bits (ps_chunk_mask s) \<union> {cb..<cb + n} \<and>
      bits (ps_pool_mask s') = insert i (bits (ps_pool_mask s)) \<and> ps_mem s' = ps_mem s \<and>
      pool_destroy (Some i) s' = Some s' \<and>
      (\<forall>j cb' base' isz' n' hs. pool_rep j cb' base' isz' n' s hs \<and> j \<noteq> i \<and>
         {cb'..<cb' + n'} \<inter> {cb..<cb + n} = {} \<longrightarrow> pool_rep j cb' base' isz' n' s' hs)) \<and>
    pool_destroy None s = Some s"
proof -
  obtain s' where s': "pool_destroy (Some i) s = Some s'" "tables_ok s'" "\<not> pool_valid (Some i) s'"
      "bits (ps_chunk_mask s') = bits (ps_chunk_mask s) \<union> {cb..<cb + n}"
      "bits (ps_pool_mask s') = insert i (bits (ps_pool_mask s))" "ps_mem s' = ps_mem s"
    and fr: "pool_frame i {cb..<cb + n} s s'"
    using pool_destroy_rep [OF assms] by blast
  have "\<forall>j cb' base' isz' n' hs. pool_rep j cb' base' isz' n' s hs \<and> j \<noteq> i \<and>
      {cb'..<cb' + n'} \<inter> {cb..<cb + n} = {} \<longrightarrow> pool_rep j cb' base' isz' n' s' hs"
    using pool_frame_rep [OF fr] by blast
  moreover have "pool_destroy (Some i) s' = Some s'" "pool_destroy None s = Some s"
    using s'(3) by (simp_all add: pool_destroy_def pool_valid_def)
  ultimately show ?thesis using s' by (intro conjI exI [of _ s']) simp_all
qed

theorem pool_destroy_spec_witness:
  "\<exists>s s'. pool_rep 0 0 0x1000 16 4 s [0, 1, 2, 3] \<and> pool_destroy (Some 0) s = Some s' \<and>
     \<not> pool_valid (Some 0) s' \<and> {0..<4} \<subseteq> bits (ps_chunk_mask s')"
proof -
  obtain s where s: "pool_rep 0 0 0x1000 16 4 s [0, 1, 2, 3]" "tables_ok s" using pool_example by blast
  then show ?thesis using pool_destroy_spec [OF s, THEN conjunct1] by force
qed

text \<open>
  From any state of a pool, all of its free slots can be allocated one after the other, at
  pairwise different addresses, and then the pool is exhausted; a slot that is freed is the next
  one handed out, and freeing the slot just allocated restores the free list.
\<close>

theorem pool_alloc_until_exhausted:
  assumes "pool_rep i cb base isz n s fs"
  shows "(\<exists>s'. alloc_n (pool_alloc (Some i)) (length fs) s = Some (map (item_addr base isz) fs, s') \<and>
      distinct (map (item_addr base isz) fs) \<and> 0 \<notin> set (map (item_addr base isz) fs) \<and>
      pool_alloc (Some i) s' = Some (0, s')) \<and>
    (\<forall>k < n. k \<notin> set fs \<longrightarrow> (\<exists>s' s''. pool_free (Some i) (item_addr base isz k) s = Some (0, s') \<and>
      pool_alloc (Some i) s' = Some (item_addr base isz k, s'') \<and> pool_rep i cb base isz n s'' fs)) \<and>
    (fs \<noteq> [] \<longrightarrow> (\<exists>a s' s''. pool_alloc (Some i) s = Some (a, s') \<and> pool_free (Some i) a s' = Some (0, s'') \<and>
      pool_rep i cb base isz n s'' fs))"
proof (intro conjI impI allI)
  show "\<exists>s'. alloc_n (pool_alloc (Some i)) (length fs) s = Some (map (item_addr base isz) fs, s') \<and>
      distinct (map (item_addr base isz) fs) \<and> 0 \<notin> set (map (item_addr base isz) fs) \<and>
      pool_alloc (Some i) s' = Some (0, s')"
    by (rule pool_slots.alloc_all [OF assms])
  show "\<exists>s' s''. pool_free (Some i) (item_addr base isz k) s = Some (0, s') \<and>
      pool_alloc (Some i) s' = Some (item_addr base isz k, s'') \<and> pool_rep i cb base isz n s'' fs"
    if "k < n" "k \<notin> set fs" for k
    by (rule pool_slots.free_then_alloc [OF assms that])
  show "\<exists>a s' s''. pool_alloc (Some i) s = Some (a, s') \<and> pool_free (Some i) a s' = Some (0, s'') \<and>
      pool_rep i cb base isz n s'' fs" if "fs \<noteq> []"
    using that assms pool_slots.alloc_then_free by (cases fs) blast+
qed

theorem pool_alloc_until_exhausted_witness:
  "\<exists>s s'. pool_rep 0 0 0x1000 16 4 s [0, 1, 2, 3] \<and>
     alloc_n (pool_alloc (Some 0)) 4 s = Some ([0x1000, 0x1010, 0x1020, 0x1030], s') \<and>
     pool_alloc (Some 0) s' = Some (0, s')"
proof -
  obtain s where s: "pool_rep 0 0 0x1000 16 4 s [0, 1, 2, 3]" using pool_example by blast
  have "length [0 :: nat, 1, 2, 3] = 4"
    "map (item_addr 0x1000 16) [0, 1, 2, 3] = [0x1000, 0x1010, 0x1020, 0x1030]"
    by (simp_all add: item_addr_def)
  with pool_alloc_until_exhausted [OF s, THEN conjunct1] s show ?thesis by metis
qed

text \<open>
  Two pools are created, the first is destroyed, and a third one of three items is created and
  all of its items are allocated.
\<close>

definition fragmented :: "(pool_t \<times> u32 list \<times> pool_state) option" where
  "fragmented = do {
     (a, s) \<leftarrow> pool_create 0x1000 (Some [65]) 4 2 (init_pool (pool_state0 (\<lambda>_. 0)));
     (b, s) \<leftarrow> pool_create 0x2000 (Some [66]) 4 1 s;
     s \<leftarrow> pool_destroy a s;
     (c, s) \<leftarrow> pool_create 0x3000 (Some [67]) 4 3 s;
     (xs, s) \<leftarrow> alloc_n (pool_alloc c) 3 s;
     Some (c, xs, s)
   }"

text \<open>
  The adjacency of a pool's chunks, which \<open>pool_free\<close> relies on, is not established
  by \<open>pool_create\<close> once a pool has been destroyed: in the third pool of
  \<open>fragmented\<close> all three items are handed out, but freeing the last of them, a valid
  item in use, fails the assertion on its chunk and panics, while the first one can be freed.
\<close>

theorem pool_free_fragmented_panics:
  "case fragmented of None \<Rightarrow> False | Some (c, xs, s) \<Rightarrow>
     xs = [0x3000, 0x3004, 0x3008] \<and>
     Option.is_none (pool_free c 0x3008 s) \<and> map_option fst (pool_free c 0x3000 s) = Some 0"
  by code_simp

end
