(* ===== verification/Ctype.thy ===== *)
theory Ctype
  imports Ohwes_Prelude
begin

text \<open>
  Character classification, \<^verbatim>\<open>src/libc/ctype.c\<close>. The argument is an \<open>int\<close>, as in
  the source; a \<open>char\<close> is sign-extended by \<open>cchar\<close> when it is passed.
\<close>

definition cchar :: "u8 \<Rightarrow> int" where
  "cchar c = sint c"

definition isdigit :: "int \<Rightarrow> bool" where "isdigit c \<longleftrightarrow> c \<ge> 48 \<and> c \<le> 57"
definition isupper :: "int \<Rightarrow> bool" where "isupper c \<longleftrightarrow> c \<ge> 65 \<and> c \<le> 90"
definition islower :: "int \<Rightarrow> bool" where "islower c \<longleftrightarrow> c \<ge> 97 \<and> c \<le> 122"
definition isalpha :: "int \<Rightarrow> bool" where "isalpha c \<longleftrightarrow> isupper c \<or> islower c"
definition isalnum :: "int \<Rightarrow> bool" where "isalnum c \<longleftrightarrow> isalpha c \<or> isdigit c"
definition isblank :: "int \<Rightarrow> bool" where "isblank c \<longleftrightarrow> c = 9 \<or> c = 32"
definition iscntrl :: "int \<Rightarrow> bool" where "iscntrl c \<longleftrightarrow> (c \<ge> 0 \<and> c \<le> 31) \<or> c = 127"
definition isgraph :: "int \<Rightarrow> bool" where "isgraph c \<longleftrightarrow> c \<ge> 33 \<and> c \<le> 126"
definition isprint :: "int \<Rightarrow> bool" where "isprint c \<longleftrightarrow> c \<ge> 32 \<and> c \<le> 126"

definition ispunct :: "int \<Rightarrow> bool" where
  "ispunct c \<longleftrightarrow> (c \<ge> 33 \<and> c \<le> 47) \<or> (c \<ge> 58 \<and> c \<le> 64) \<or> (c \<ge> 91 \<and> c \<le> 96) \<or> (c \<ge> 123 \<and> c \<le> 126)"

definition isspace :: "int \<Rightarrow> bool" where
  "isspace c \<longleftrightarrow> c = 9 \<or> c = 12 \<or> c = 11 \<or> c = 10 \<or> c = 13 \<or> c = 32"

definition isxdigit :: "int \<Rightarrow> bool" where
  "isxdigit c \<longleftrightarrow> isdigit c \<or> (c \<ge> 65 \<and> c \<le> 70) \<or> (c \<ge> 97 \<and> c \<le> 102)"

definition toxdigit :: "int \<Rightarrow> int" where
  "toxdigit c = (let c = c AND 15 in if c > 9 then (c - 10) + 97 else c + 48)"

definition tolower :: "int \<Rightarrow> int" where
  "tolower c = (if isupper c then c OR 32 else c)"

definition toupper :: "int \<Rightarrow> int" where
  "toupper c = (if islower c then c AND (NOT 32) else c)"

lemmas ctype_defs = isdigit_def isupper_def islower_def isalpha_def isalnum_def isblank_def
  iscntrl_def isgraph_def isprint_def ispunct_def isspace_def isxdigit_def

lemma cchar_ascii: "uint c < 128 \<Longrightarrow> cchar c = uint c"
proof -
  assume "uint c < 128"
  moreover have "- 128 \<le> uint c" using uint_ge_0 [of c] by linarith
  ultimately show ?thesis unfolding cchar_def sint_uint by (intro signed_take_bit_int_eq_self) simp_all
qed

text \<open>The letters, one by one, where the case bit is set or cleared.\<close>

lemma upper_OR: "65 \<le> c \<Longrightarrow> c \<le> 90 \<Longrightarrow> c OR 32 = c + (32 :: int)"
proof -
  assume "65 \<le> c" "c \<le> 90"
  then have "c \<in> set [65..90]" unfolding set_upto by simp
  moreover have "\<forall>c \<in> set [65..90]. c OR 32 = c + (32 :: int)" by code_simp
  ultimately show ?thesis by blast
qed

lemma lower_AND: "97 \<le> c \<Longrightarrow> c \<le> 122 \<Longrightarrow> c AND (NOT 32) = c - (32 :: int)"
proof -
  assume "97 \<le> c" "c \<le> 122"
  then have "c \<in> set [97..122]" unfolding set_upto by simp
  moreover have "\<forall>c \<in> set [97..122]. c AND (NOT 32) = c - (32 :: int)" by code_simp
  ultimately show ?thesis by blast
qed

lemma tolower_eq: "tolower c = (if isupper c then c + 32 else c)"
  by (auto simp: tolower_def isupper_def upper_OR)

lemma toupper_eq: "toupper c = (if islower c then c - 32 else c)"
  unfolding toupper_def islower_def using lower_AND by simp

lemma toxdigit_eq: "toxdigit c = (if c mod 16 > 9 then c mod 16 + 87 else c mod 16 + 48)"
proof -
  have "c AND 15 = c mod 16"
    using take_bit_eq_mask [of 4 c] by (simp add: take_bit_eq_mod mask_eq_exp_minus_1)
  then show ?thesis by (simp add: toxdigit_def Let_def)
qed

text \<open>
  The classes fit together on every character: the graphic characters are the disjoint union
  of the alphanumeric and the punctuation ones, the printing ones add the space, the ASCII
  characters are either control or printing characters; the case conversions exchange the upper
  and lower case letters, are inverse there and leave every other character alone; and
  \<open>toxdigit\<close> gives the hexadecimal digit of the low four bits.
\<close>

theorem ctype_classes:
  "(isgraph c \<longleftrightarrow> isalnum c \<or> ispunct c) \<and> \<not> (isalnum c \<and> ispunct c) \<and>
   (isprint c \<longleftrightarrow> isgraph c \<or> c = 32) \<and>
   (0 \<le> c \<and> c \<le> 127 \<longrightarrow> (iscntrl c \<longleftrightarrow> \<not> isprint c)) \<and>
   (isblank c \<longrightarrow> isspace c) \<and> (isspace c \<longrightarrow> iscntrl c \<or> c = 32) \<and>
   (isupper c \<longrightarrow> islower (tolower c) \<and> toupper (tolower c) = c) \<and>
   (islower c \<longrightarrow> isupper (toupper c) \<and> tolower (toupper c) = c) \<and>
   (\<not> isalpha c \<longrightarrow> tolower c = c \<and> toupper c = c) \<and>
   isxdigit (toxdigit c) \<and> toxdigit c = (if c mod 16 < 10 then 48 + c mod 16 else 87 + c mod 16)"
proof (intro conjI)
  have "0 \<le> c mod 16" "c mod 16 \<le> 15" using pos_mod_bound [of 16 c] by simp_all
  then show "isxdigit (toxdigit c)" by (simp add: ctype_defs toxdigit_eq)
  show "toxdigit c = (if c mod 16 < 10 then 48 + c mod 16 else 87 + c mod 16)"
    by (simp add: toxdigit_eq)
  show "isgraph c \<longleftrightarrow> isalnum c \<or> ispunct c" "\<not> (isalnum c \<and> ispunct c)"
    "isprint c \<longleftrightarrow> isgraph c \<or> c = 32"
    unfolding ctype_defs by linarith+
  show "0 \<le> c \<and> c \<le> 127 \<longrightarrow> (iscntrl c \<longleftrightarrow> \<not> isprint c)"
    unfolding ctype_defs by linarith
  show "isblank c \<longrightarrow> isspace c" "isspace c \<longrightarrow> iscntrl c \<or> c = 32"
    unfolding ctype_defs by linarith+
qed (simp_all add: ctype_defs tolower_eq toupper_eq)

theorem ctype_classes_witness:
  "islower (tolower 65) \<and> toupper (tolower 65) = 65 \<and> toxdigit 171 = 98"
  using ctype_classes [of 65] ctype_classes [of 171] by (simp add: ctype_defs)

end
