(* ===== verification/Vga.thy ===== *)
theory Vga
  imports Ohwes_Prelude
begin

text \<open>
  The text mode VGA driver of \<^verbatim>\<open>src/kernel/char/vga.c\<close>. The adapter is the state behind
  the I/O ports the driver uses: three groups of registers with an address (index) port and a data
  port, and the attribute controller, whose single write port alternates between address and data
  and is reset to address by a read of the input status port. Interrupt masking
  (\<open>cli_save\<close>, \<open>restore_flags\<close>) around a sequence of port accesses has no
  effect on this state; each function is atomic.
\<close>

record vga =
  crtc_index :: u8
  crtc_regs :: "u8 \<Rightarrow> u8"
  grfx_index :: u8
  grfx_regs :: "u8 \<Rightarrow> u8"
  seqr_index :: u8
  seqr_regs :: "u8 \<Rightarrow> u8"
  attr_index :: u8
  attr_regs :: "u8 \<Rightarrow> u8"
  attr_data_next :: bool

subsection \<open>The ports\<close>

definition vga_outb :: "u16 \<Rightarrow> u8 \<Rightarrow> vga \<Rightarrow> vga" where
  "vga_outb port v d =
    (if port = 0x3D4 then d\<lparr>crtc_index := v\<rparr>
     else if port = 0x3D5 then d\<lparr>crtc_regs := (crtc_regs d)(crtc_index d := v)\<rparr>
     else if port = 0x3CE then d\<lparr>grfx_index := v\<rparr>
     else if port = 0x3CF then d\<lparr>grfx_regs := (grfx_regs d)(grfx_index d := v)\<rparr>
     else if port = 0x3C4 then d\<lparr>seqr_index := v\<rparr>
     else if port = 0x3C5 then d\<lparr>seqr_regs := (seqr_regs d)(seqr_index d := v)\<rparr>
     else if port = 0x3C0 then
       (if attr_data_next d
        then d\<lparr>attr_regs := (attr_regs d)(attr_index d AND 0x1F := v), attr_data_next := False\<rparr>
        else d\<lparr>attr_index := v, attr_data_next := True\<rparr>)
     else d)"

definition vga_inb :: "u16 \<Rightarrow> vga \<Rightarrow> u8 \<times> vga" where
  "vga_inb port d =
    (if port = 0x3D5 then (crtc_regs d (crtc_index d), d)
     else if port = 0x3CF then (grfx_regs d (grfx_index d), d)
     else if port = 0x3C5 then (seqr_regs d (seqr_index d), d)
     else if port = 0x3C1 then (attr_regs d (attr_index d AND 0x1F), d)
     else if port = 0x3DA then (0, d\<lparr>attr_data_next := False\<rparr>)
     else (0, d))"

subsection \<open>Register access\<close>

definition vga_crtc_read :: "u8 \<Rightarrow> vga \<Rightarrow> u8 \<times> vga" where
  "vga_crtc_read reg d = vga_inb 0x3D5 (vga_outb 0x3D4 reg d)"

definition vga_crtc_write :: "u8 \<Rightarrow> u8 \<Rightarrow> vga \<Rightarrow> vga" where
  "vga_crtc_write reg v d = vga_outb 0x3D5 v (vga_outb 0x3D4 reg d)"

definition vga_grfx_read :: "u8 \<Rightarrow> vga \<Rightarrow> u8 \<times> vga" where
  "vga_grfx_read reg d = vga_inb 0x3CF (vga_outb 0x3CE reg d)"

definition vga_grfx_write :: "u8 \<Rightarrow> u8 \<Rightarrow> vga \<Rightarrow> vga" where
  "vga_grfx_write reg v d = vga_outb 0x3CF v (vga_outb 0x3CE reg d)"

definition vga_seqr_read :: "u8 \<Rightarrow> vga \<Rightarrow> u8 \<times> vga" where
  "vga_seqr_read reg d = vga_inb 0x3C5 (vga_outb 0x3C4 reg d)"

definition vga_seqr_write :: "u8 \<Rightarrow> u8 \<Rightarrow> vga \<Rightarrow> vga" where
  "vga_seqr_write reg v d = vga_outb 0x3C5 v (vga_outb 0x3C4 reg d)"

definition vga_attr_read :: "u8 \<Rightarrow> vga \<Rightarrow> u8 \<times> vga" where
  "vga_attr_read reg d =
     (let addr = reg AND 0x1F;
          (_, d) = vga_inb 0x3DA d;
          d = vga_outb 0x3C0 (0x20 OR addr) d
      in vga_inb 0x3C1 d)"

definition vga_attr_write :: "u8 \<Rightarrow> u8 \<Rightarrow> vga \<Rightarrow> vga" where
  "vga_attr_write reg v d =
     (let addr = reg AND 0x1F;
          (_, d) = vga_inb 0x3DA d;
          d = vga_outb 0x3C0 (0x20 OR addr) d
      in vga_outb 0x3C0 v d)"

subsection \<open>Geometry and frame buffer\<close>

definition vga_get_rows :: "vga \<Rightarrow> u8 \<times> vga" where
  "vga_get_rows d =
     (let (ovf, d) = vga_crtc_read 0x07 d;
          (vde8, d) = vga_crtc_read 0x12 d;
          vde = (ucast vde8 :: u16);
          vde = vde OR push_bit 8 (ucast (drop_bit 1 (ovf AND 0x02)));
          vde = vde OR push_bit 9 (ucast (drop_bit 6 (ovf AND 0x40)));
          (msl, d) = vga_crtc_read 0x09 d;
          msl = msl AND 0x1F
      in (of_nat ((unat vde + 1) div (unat msl + 1)), d))"

definition vga_get_cols :: "vga \<Rightarrow> u8 \<times> vga" where
  "vga_get_cols d = (let (hde, d) = vga_crtc_read 0x01 d in (hde + 1, d))"

record vga_fb_info =
  framebuf :: u32
  size_pages :: u32

definition vga_get_fb_info :: "vga \<Rightarrow> vga_fb_info \<times> vga" where
  "vga_get_fb_info d =
     (let (grfx_misc, d) = vga_grfx_read 0x06 d;
          fb_select = drop_bit 2 (grfx_misc AND 0x0C)
      in (if fb_select = 0 then \<lparr>framebuf = 0xA0000, size_pages = 32\<rparr>
          else if fb_select = 1 then \<lparr>framebuf = 0xA0000, size_pages = 16\<rparr>
          else if fb_select = 2 then \<lparr>framebuf = 0xB0000, size_pages = 8\<rparr>
          else \<lparr>framebuf = 0xB8000, size_pages = 8\<rparr>, d))"

definition vga_set_fb :: "u8 \<Rightarrow> vga \<Rightarrow> vga option" where
  "vga_set_fb fb_select d =
     (let (grfx_misc, d) = vga_grfx_read 0x06 d;
          grfx_misc = (grfx_misc AND 0xF3) OR push_bit 2 (fb_select AND 3);
          d = vga_grfx_write 0x06 grfx_misc d;
          (grfx_misc, d) = vga_grfx_read 0x06 d
      in do { assert_opt (drop_bit 2 (grfx_misc AND 0x0C) = fb_select); Some d })"

definition init_vga :: "bool \<Rightarrow> vga \<Rightarrow> (bool \<times> vga) option" where
  "init_vga vga_initialized d =
    (if vga_initialized then Some (True, d)
     else do {
       let (_, d) = vga_get_fb_info d;
       d \<leftarrow> vga_set_fb 0 d;
       let (_, d) = vga_get_fb_info d;
       Some (True, d)
     })"

subsection \<open>Blink and cursor\<close>

definition vga_enable_blink :: "bool \<Rightarrow> vga \<Rightarrow> vga" where
  "vga_enable_blink enable d =
     (let (modectl, d) = vga_attr_read 0x10 d;
          modectl = (if enable then modectl OR 0x08 else modectl AND NOT 0x08)
      in vga_attr_write 0x10 modectl d)"

definition vga_enable_cursor :: "bool \<Rightarrow> vga \<Rightarrow> vga" where
  "vga_enable_cursor enable d =
     (let (css, d) = vga_crtc_read 0x0A d;
          css = (if \<not> enable then css OR 0x20 else css AND NOT 0x20)
      in vga_crtc_write 0x0A css d)"

definition vga_get_cursor_pos :: "vga \<Rightarrow> u16 \<times> vga" where
  "vga_get_cursor_pos d =
     (let (cl_hi, d) = vga_crtc_read 0x0E d;
          (cl_lo, d) = vga_crtc_read 0x0F d
      in (push_bit 8 (ucast cl_hi) OR ucast cl_lo, d))"

definition vga_set_cursor_pos :: "u16 \<Rightarrow> vga \<Rightarrow> vga" where
  "vga_set_cursor_pos pos d =
     (let d = vga_crtc_write 0x0E (ucast (drop_bit 8 pos)) d
      in vga_crtc_write 0x0F (ucast (pos AND 0xFF)) d)"

definition vga_get_cursor_shape :: "vga \<Rightarrow> u16 \<times> vga" where
  "vga_get_cursor_shape d =
     (let (css, d) = vga_crtc_read 0x0A d;
          start = css AND 0x1F;
          (cse, d) = vga_crtc_read 0x0B d;
          end = cse AND 0x1F
      in (push_bit 8 (ucast end) OR ucast start, d))"

definition vga_set_cursor_shape :: "u16 \<Rightarrow> vga \<Rightarrow> vga" where
  "vga_set_cursor_shape shape d =
     (let start = (ucast (shape AND 0xFF) :: u8);
          end = (ucast (drop_bit 8 shape) :: u8);
          (css, d) = vga_crtc_read 0x0A d;
          css = css AND NOT 0x1F;
          (cse, d) = vga_crtc_read 0x0B d;
          cse = cse AND NOT 0x1F;
          css = css OR (start AND 0x1F);
          cse = cse OR (end AND 0x1F);
          d = vga_crtc_write 0x0A css d
      in vga_crtc_write 0x0B cse d)"

lemmas vga_access_defs = vga_crtc_read_def vga_crtc_write_def vga_grfx_read_def vga_grfx_write_def
  vga_attr_read_def vga_attr_write_def vga_outb_def vga_inb_def

lemma crtc_read [simp]: "vga_crtc_read r d = (crtc_regs d r, d\<lparr>crtc_index := r\<rparr>)"
  by (simp add: vga_access_defs)

lemma crtc_write [simp]:
  "vga_crtc_write r v d = d\<lparr>crtc_index := r, crtc_regs := (crtc_regs d)(r := v)\<rparr>"
  by (simp add: vga_access_defs)

lemma grfx_read [simp]: "vga_grfx_read r d = (grfx_regs d r, d\<lparr>grfx_index := r\<rparr>)"
  by (simp add: vga_access_defs)

lemma grfx_write [simp]:
  "vga_grfx_write r v d = d\<lparr>grfx_index := r, grfx_regs := (grfx_regs d)(r := v)\<rparr>"
  by (simp add: vga_access_defs)

lemma PAS_mask: "((0x20 OR (r AND 0x1F)) AND 0x1F :: u8) = r AND 0x1F"
  by (rule u8_eqI) (auto simp: bit_simps)

lemma attr_read [simp]:
  "fst (vga_attr_read r d) = attr_regs d (r AND 0x1F)"
  "attr_regs (snd (vga_attr_read r d)) = attr_regs d"
  "crtc_regs (snd (vga_attr_read r d)) = crtc_regs d"
  by (simp_all add: vga_access_defs Let_def PAS_mask)

lemma attr_write [simp]:
  "attr_regs (vga_attr_write r v d) = (attr_regs d)(r AND 0x1F := v)"
  "crtc_regs (vga_attr_write r v d) = crtc_regs d"
  by (simp_all add: vga_access_defs Let_def PAS_mask)

lemma seqr_rw: "fst (vga_seqr_read r (vga_seqr_write r v d)) = v"
  by (simp add: vga_seqr_read_def vga_seqr_write_def vga_outb_def vga_inb_def)

lemma byte_pair: "push_bit 8 (ucast (ucast (drop_bit 8 p) :: u8)) OR ucast (ucast (p AND 0xFF) :: u8) = (p :: u16)"
  by (rule u16_eqI) (auto simp: bit_simps)

text \<open>The registers the cursor functions read and write.\<close>

lemma cursor_pos_regs:
  "fst (vga_get_cursor_pos d) = push_bit 8 (ucast (crtc_regs d 0x0E)) OR ucast (crtc_regs d 0x0F)"
  "crtc_regs (vga_set_cursor_pos pos d) =
     (crtc_regs d)(0x0E := ucast (drop_bit 8 pos), 0x0F := ucast (pos AND 0xFF))"
  by (simp_all add: vga_get_cursor_pos_def vga_set_cursor_pos_def Let_def)

lemma cursor_shape_regs:
  "fst (vga_get_cursor_shape d) =
     push_bit 8 (ucast (crtc_regs d 0x0B AND 0x1F)) OR ucast (crtc_regs d 0x0A AND 0x1F)"
  "crtc_regs (vga_set_cursor_shape shape d) = (crtc_regs d)
     (0x0A := (crtc_regs d 0x0A AND NOT 0x1F) OR (ucast (shape AND 0xFF) AND 0x1F),
      0x0B := (crtc_regs d 0x0B AND NOT 0x1F) OR (ucast (drop_bit 8 shape) AND 0x1F))"
  by (simp_all add: vga_get_cursor_shape_def vga_set_cursor_shape_def Let_def)

lemma enable_cursor_regs:
  "crtc_regs (vga_enable_cursor e d) = (crtc_regs d)
     (0x0A := if e then crtc_regs d 0x0A AND NOT 0x20 else crtc_regs d 0x0A OR 0x20)"
  by (simp add: vga_enable_cursor_def Let_def)

lemma enable_blink_regs:
  "attr_regs (vga_enable_blink e d) =
     (attr_regs d)(0x10 := if e then attr_regs d 0x10 OR 8 else attr_regs d 0x10 AND NOT 8)"
  "crtc_regs (vga_enable_blink e d) = crtc_regs d"
  by (simp_all add: vga_enable_blink_def Let_def split_beta)

lemma shape_low: "(((r AND NOT 0x1F) OR (x AND 0x1F)) AND 0x1F :: u8) = x AND 0x1F"
  by (rule u8_eqI) (auto simp: bit_simps)

lemma shape_pair:
  "push_bit 8 (ucast (ucast (drop_bit 8 s) AND 0x1F :: u8)) OR ucast (ucast (s AND 0xFF) AND 0x1F :: u8)
     = (s AND 0x1F1F :: u16)"
  by (rule u16_eqI) (auto simp: bit_simps)

lemma cursor_bit_low: "((r OR 0x20) AND 0x1F :: u8) = r AND 0x1F" "((r AND NOT 0x20) AND 0x1F :: u8) = r AND 0x1F"
  by ((rule u8_eqI, auto simp: bit_simps)[1])+

text \<open>
  The cursor position and shape round trip through the adapter: the position read back is the
  one last set, whatever its value, the shape read back has the scan lines of the shape last set
  (five bits each), setting one leaves the other and the cursor enable bit alone, and hiding or
  showing the cursor and enabling blink change just their bit.
\<close>

theorem vga_cursor_round_trip:
  "fst (vga_get_cursor_pos (vga_set_cursor_pos pos d)) = pos \<and>
   fst (vga_get_cursor_shape (vga_set_cursor_shape shape d)) = shape AND 0x1F1F \<and>
   fst (vga_get_cursor_shape (vga_set_cursor_pos pos d)) = fst (vga_get_cursor_shape d) \<and>
   fst (vga_get_cursor_pos (vga_set_cursor_shape shape d)) = fst (vga_get_cursor_pos d) \<and>
   fst (vga_get_cursor_shape (vga_enable_cursor e d)) = fst (vga_get_cursor_shape d) \<and>
   bit (crtc_regs (vga_enable_cursor e d) 0x0A) 5 = (\<not> e) \<and>
   bit (crtc_regs (vga_set_cursor_shape shape d) 0x0A) 5 = bit (crtc_regs d 0x0A) 5 \<and>
   attr_regs (vga_enable_blink e d) =
     (attr_regs d)(0x10 := if e then attr_regs d 0x10 OR 8 else attr_regs d 0x10 AND NOT 8)"
  by (simp add: cursor_pos_regs cursor_shape_regs enable_cursor_regs enable_blink_regs byte_pair
      shape_low [simplified] shape_pair cursor_bit_low(1) cursor_bit_low(2) [simplified] bit_simps)

end
