(* ===== verification/Terminal.thy ===== *)
theory Terminal
  imports Ctype Vga Bitops
begin

text \<open>
  The virtual terminals of \<^verbatim>\<open>src/kernel/char/terminal.c\<close> and
  \<^verbatim>\<open>src/include/kernel/terminal.h\<close>: a terminal is the record \<open>terminal\<close>, its
  control state the machine \<open>S_NORM\<close>, \<open>S_ESC\<close>, \<open>S_CSI\<close> driven by
  \<open>terminal_putchar\<close>. The frame buffer is the list of the character cells of the two pages
  it occupies; the bit fields of the cursor (12 bits for a coordinate) and of the attributes keep
  their widths. What is outside of a terminal, the VGA adapter, the number of the current terminal
  and the bell, is the record \<open>vt\<close>. \<open>None\<close> stands for a panic, an access outside of
  an array (the tab stops, the parameters, the frame buffer) or the overflow of a signed
  \<open>int\<close>.
\<close>

definition NR_TERMINAL :: int where "NR_TERMINAL = 7"
definition MAX_CSIPARAM :: nat where "MAX_CSIPARAM = 16"
definition MAX_TABSTOP :: nat where "MAX_TABSTOP = 80"
definition TABSTOP_WIDTH :: nat where "TABSTOP_WIDTH = 8"
definition BELL_FREQ :: nat where "BELL_FREQ = 750"
definition BELL_TIME :: nat where "BELL_TIME = 50"
definition FB_SIZE_PAGES :: nat where "FB_SIZE_PAGES = 2"
definition FB_CELLS :: nat where "FB_CELLS = 4096 * FB_SIZE_PAGES div 2"

lemmas term_consts = NR_TERMINAL_def MAX_CSIPARAM_def MAX_TABSTOP_def TABSTOP_WIDTH_def
  FB_SIZE_PAGES_def FB_CELLS_def

type_synonym u12 = "12 word"
type_synonym u3 = "3 word"

datatype terminal_state = S_NORM | S_ESC | S_CSI

text \<open>\<open>struct vga_attr\<close> with the fields of its first view; \<open>fg\<close> and \<open>bg\<close> overlay them.\<close>

record vga_attr =
  color_fg :: u3
  va_bright :: bool
  color_bg :: u3
  va_blink :: bool

record vga_cell =
  ce_ch :: u8
  ce_attr :: vga_attr

record char_attr =
  ca_fg :: u8
  ca_bg :: u8
  ca_bright :: bool
  ca_faint :: bool
  ca_italic :: bool
  ca_underline :: bool
  ca_blink :: bool
  ca_invert :: bool

record cursor =
  cu_shape :: u16
  cu_x :: u12
  cu_y :: u12
  cu_hidden :: bool

record save_state =
  sv_blink_on :: bool
  sv_tabstops :: "u8 list"
  sv_attr :: char_attr
  sv_cursor :: cursor

record terminal =
  te_number :: int
  te_state :: terminal_state
  te_initialized :: bool
  te_printing :: bool
  te_cols :: u16
  te_rows :: u16
  te_fb :: "vga_cell list"
  te_tabstops :: "u8 list"
  te_csiparam :: "int list"
  te_paramidx :: nat
  te_blink_on :: bool
  te_need_wrap :: bool
  te_attr :: char_attr
  te_cursor :: cursor
  te_def_attr :: char_attr
  te_def_cursor :: cursor
  te_saved :: save_state

record vt =
  vt_vga :: vga
  vt_curr :: int
  vt_beeps :: "(nat \<times> nat) list"

abbreviation tx :: "terminal \<Rightarrow> u12" where "tx t \<equiv> cu_x (te_cursor t)"
abbreviation ty :: "terminal \<Rightarrow> u12" where "ty t \<equiv> cu_y (te_cursor t)"

definition set_x :: "u12 \<Rightarrow> terminal \<Rightarrow> terminal" where
  "set_x x t = t\<lparr>te_cursor := (te_cursor t)\<lparr>cu_x := x\<rparr>\<rparr>"

definition set_y :: "u12 \<Rightarrow> terminal \<Rightarrow> terminal" where
  "set_y y t = t\<lparr>te_cursor := (te_cursor t)\<lparr>cu_y := y\<rparr>\<rparr>"

subsection \<open>Positions and the frame buffer\<close>

definition xy2pos :: "terminal \<Rightarrow> u12 \<Rightarrow> u12 \<Rightarrow> u16" where
  "xy2pos t x y = of_nat (unat y * unat (te_cols t) + unat x)"

definition pos2xy :: "terminal \<Rightarrow> u16 \<Rightarrow> terminal option" where
  "pos2xy t pos = do {
     assert_opt (te_cols t \<noteq> 0);
     Some (set_y (of_nat (unat pos div unat (te_cols t)))
       (set_x (of_nat (unat pos mod unat (te_cols t))) t))
   }"

definition set_fb_char :: "terminal \<Rightarrow> u16 \<Rightarrow> u8 \<Rightarrow> terminal option" where
  "set_fb_char t pos c = do {
     cell \<leftarrow> arr_get (te_fb t) (unat pos);
     Some (t\<lparr>te_fb := (te_fb t)[unat pos := cell\<lparr>ce_ch := c\<rparr>]\<rparr>)
   }"

text \<open>The attribute of a cell for the attributes of a character, \<open>set_fb_attr\<close>.\<close>

definition cell_attr :: "char_attr \<Rightarrow> vga_attr" where
  "cell_attr a =
    (let v = \<lparr>color_fg = ucast (ca_fg a), va_bright = bit (ca_fg a) 3,
              color_bg = ucast (ca_bg a), va_blink = bit (ca_bg a) 3\<rparr>;
         v = (if ca_bright a then v\<lparr>va_bright := True\<rparr> else v);
         v = (if ca_faint a then v\<lparr>color_fg := 0, va_bright := True\<rparr> else v);
         v = (if ca_underline a then v\<lparr>color_fg := 3, va_bright := ca_bright a\<rparr> else v);
         v = (if ca_italic a then v\<lparr>color_fg := 2, va_bright := ca_bright a\<rparr> else v);
         v = (if ca_blink a then v\<lparr>va_blink := True\<rparr> else v)
     in if ca_invert a then v\<lparr>color_bg := color_fg v, color_fg := color_bg v\<rparr> else v)"

definition set_fb_attr :: "terminal \<Rightarrow> u16 \<Rightarrow> char_attr \<Rightarrow> terminal option" where
  "set_fb_attr t pos a = do {
     cell \<leftarrow> arr_get (te_fb t) (unat pos);
     Some (t\<lparr>te_fb := (te_fb t)[unat pos := cell\<lparr>ce_attr := cell_attr a\<rparr>]\<rparr>)
   }"

text \<open>The loops that blank \<open>n\<close> cells from \<open>pos\<close> on with the current attributes.\<close>

fun blank_cells :: "terminal \<Rightarrow> nat \<Rightarrow> nat \<Rightarrow> terminal option" where
  "blank_cells t pos 0 = Some t"
| "blank_cells t pos (Suc n) = do {
     t \<leftarrow> set_fb_char t (of_nat pos) 32;
     t \<leftarrow> set_fb_attr t (of_nat pos) (te_attr t);
     blank_cells t (Suc pos) n
   }"

text \<open>\<open>memmove\<close> of \<open>n\<close> cells inside the frame buffer.\<close>

definition move_cells :: "nat \<Rightarrow> nat \<Rightarrow> nat \<Rightarrow> 'c list \<Rightarrow> 'c list option" where
  "move_cells dst src n fb =
    (if dst + n \<le> length fb \<and> src + n \<le> length fb
     then Some (take dst fb @ take n (drop src fb) @ drop (dst + n) fb) else None)"

definition scroll :: "terminal \<Rightarrow> int \<Rightarrow> terminal option" where
  "scroll t n =
    (let reverse = (n < 0);
         n = (if reverse then - n else n);
         n = (if n > int (unat (te_rows t)) then int (unat (te_rows t)) else n)
     in if n = 0 then Some t
        else do {
          let n_blank = nat n * unat (te_cols t);
          let n_cells = unat (te_rows t) * unat (te_cols t) - n_blank;
          let src = (if reverse then 0 else n_blank);
          let dst = (if reverse then n_blank else 0);
          fb \<leftarrow> move_cells dst src n_cells (te_fb t);
          blank_cells (t\<lparr>te_fb := fb\<rparr>) (if reverse then 0 else n_cells) n_blank
        })"

definition erase :: "terminal \<Rightarrow> int \<Rightarrow> terminal option" where
  "erase t mode =
    (let pos = unat (xy2pos t (tx t) (ty t));
         area = unat (te_rows t) * unat (te_cols t)
     in if mode = 0 then blank_cells t pos (area - pos)
        else if mode = 1 then blank_cells t 0 (pos + 1)
        else blank_cells t 0 area)"

definition erase_line :: "terminal \<Rightarrow> int \<Rightarrow> terminal option" where
  "erase_line t mode = do {
     let pos = unat (xy2pos t (tx t) (ty t));
     let cols = unat (te_cols t);
     let bol = unat (xy2pos t 0 (ty t));
     assert_opt (cols \<noteq> 0);
     if mode = 0 then blank_cells t pos (cols - pos mod cols)
     else if mode = 1 then blank_cells t bol (pos mod cols + 1)
     else blank_cells t bol cols
   }"

subsection \<open>Cursor movement\<close>

definition cursor_up :: "terminal \<Rightarrow> int \<Rightarrow> terminal option" where
  "cursor_up t n = do {
     d \<leftarrow> int32 (int (unat (ty t)) - n);
     Some (if d > 0 then set_y (of_int d) t else set_y 0 t)
   }"

definition cursor_down :: "terminal \<Rightarrow> int \<Rightarrow> terminal option" where
  "cursor_down t n = do {
     d \<leftarrow> int32 (int (unat (ty t)) + n);
     Some (if d < int (unat (te_rows t)) - 1 then set_y (of_int d) t
           else set_y (of_int (int (unat (te_rows t)) - 1)) t)
   }"

definition cursor_left :: "terminal \<Rightarrow> int \<Rightarrow> terminal option" where
  "cursor_left t n = do {
     d \<leftarrow> int32 (int (unat (tx t)) - n);
     Some (if d > 0 then set_x (of_int d) t else set_x 0 t)
   }"

definition cursor_right :: "terminal \<Rightarrow> int \<Rightarrow> terminal option" where
  "cursor_right t n = do {
     d \<leftarrow> int32 (int (unat (tx t)) + n);
     Some (if d < int (unat (te_cols t)) - 1 then set_x (of_int d) t
           else set_x (of_int (int (unat (te_cols t)) - 1)) t)
   }"

definition backspace :: "terminal \<Rightarrow> terminal option" where
  "backspace t = do { t \<leftarrow> cursor_left t 1; Some (t\<lparr>te_need_wrap := False\<rparr>) }"

definition carriage_return :: "terminal \<Rightarrow> terminal" where
  "carriage_return t = (set_x 0 t)\<lparr>te_need_wrap := False\<rparr>"

definition line_feed :: "terminal \<Rightarrow> terminal option" where
  "line_feed t = do {
     let t = set_y (ty t + 1) t;
     t \<leftarrow> (if unat (te_rows t) \<le> unat (ty t)
          then do { t \<leftarrow> scroll t 1; Some (set_y (ty t - 1) t) }
          else Some t);
     Some (t\<lparr>te_need_wrap := False\<rparr>)
   }"

text \<open>The test of \<open>--cursor.y < 0\<close> is on the value of the 12-bit field.\<close>

definition reverse_linefeed :: "terminal \<Rightarrow> terminal option" where
  "reverse_linefeed t = do {
     let t = set_y (ty t - 1) t;
     t \<leftarrow> (if int (unat (ty t)) < 0
          then do { t \<leftarrow> scroll t (-1); Some (set_y (ty t + 1) t) }
          else Some t);
     Some (t\<lparr>te_need_wrap := False\<rparr>)
   }"

text \<open>The loop of \<open>tab\<close>; \<open>n\<close> bounds the number of rounds, one per column.\<close>

fun tab_loop :: "nat \<Rightarrow> terminal \<Rightarrow> terminal option" where
  "tab_loop 0 t = None"
| "tab_loop (Suc n) t =
    (if unat (tx t) < unat (te_cols t)
     then do {
       let t = set_x (tx t + 1) t;
       stop \<leftarrow> arr_get (te_tabstops t) (unat (tx t));
       if stop \<noteq> 0 then Some t else tab_loop n t
     }
     else Some t)"

definition tab :: "terminal \<Rightarrow> terminal option" where
  "tab t = do {
     t \<leftarrow> tab_loop (MAX_TABSTOP + 1) t;
     Some (if unat (te_cols t) \<le> unat (tx t) then set_x (ucast (te_cols t - 1)) t else t)
   }"

subsection \<open>Terminals and the display\<close>

definition current_terminal :: "vt \<Rightarrow> int option" where
  "current_terminal v = (if vt_curr v \<le> 0 \<or> vt_curr v > NR_TERMINAL then None else Some (vt_curr v))"

definition is_current :: "vt \<Rightarrow> terminal \<Rightarrow> bool option" where
  "is_current v t = do { c \<leftarrow> current_terminal v; Some (te_number t = c) }"

definition enable_blink :: "terminal \<Rightarrow> vt \<Rightarrow> vt" where
  "enable_blink t v = v\<lparr>vt_vga := vga_enable_blink (te_blink_on t) (vt_vga v)\<rparr>"

definition enable_cursor :: "terminal \<Rightarrow> vt \<Rightarrow> vt" where
  "enable_cursor t v = v\<lparr>vt_vga := vga_enable_cursor (\<not> cu_hidden (te_cursor t)) (vt_vga v)\<rparr>"

definition set_cursor_pos :: "terminal \<Rightarrow> vt \<Rightarrow> vt" where
  "set_cursor_pos t v = v\<lparr>vt_vga := vga_set_cursor_pos (xy2pos t (tx t) (ty t)) (vt_vga v)\<rparr>"

definition set_cursor_shape :: "terminal \<Rightarrow> vt \<Rightarrow> vt" where
  "set_cursor_shape t v = v\<lparr>vt_vga := vga_set_cursor_shape (cu_shape (te_cursor t)) (vt_vga v)\<rparr>"

definition update_vga_state :: "terminal \<Rightarrow> vt \<Rightarrow> vt" where
  "update_vga_state t v = set_cursor_pos t (set_cursor_shape t (enable_cursor t (enable_blink t v)))"

text \<open>\<open>if (is_current(term)) f(term);\<close>\<close>

definition when_current :: "(terminal \<Rightarrow> vt \<Rightarrow> vt) \<Rightarrow> terminal \<Rightarrow> vt \<Rightarrow> (terminal \<times> vt) option" where
  "when_current f t v = do { b \<leftarrow> is_current v t; Some (t, if b then f t v else v) }"

definition terminal_save :: "terminal \<Rightarrow> save_state" where
  "terminal_save t = \<lparr>sv_blink_on = te_blink_on t, sv_tabstops = te_tabstops t,
     sv_attr = te_attr t, sv_cursor = te_cursor t\<rparr>"

definition terminal_restore :: "terminal \<Rightarrow> save_state \<Rightarrow> vt \<Rightarrow> (terminal \<times> vt) option" where
  "terminal_restore t sv v =
     when_current update_vga_state
       (t\<lparr>te_tabstops := sv_tabstops sv, te_blink_on := sv_blink_on sv, te_attr := sv_attr sv,
         te_cursor := sv_cursor sv\<rparr>) v"

definition save_terminal :: "terminal \<Rightarrow> terminal" where
  "save_terminal t = t\<lparr>te_saved := terminal_save t\<rparr>"

definition restore_terminal :: "terminal \<Rightarrow> vt \<Rightarrow> (terminal \<times> vt) option" where
  "restore_terminal t v = terminal_restore t (te_saved t) v"

definition save_cursor :: "terminal \<Rightarrow> terminal" where
  "save_cursor t = t\<lparr>te_saved := (te_saved t)\<lparr>sv_cursor := te_cursor t\<rparr>\<rparr>"

definition restore_cursor :: "terminal \<Rightarrow> vt \<Rightarrow> (terminal \<times> vt) option" where
  "restore_cursor t v = when_current update_vga_state (t\<lparr>te_cursor := sv_cursor (te_saved t)\<rparr>) v"

definition default_attr :: char_attr where
  "default_attr = \<lparr>ca_fg = 7, ca_bg = 0, ca_bright = False, ca_faint = False, ca_italic = False,
     ca_underline = False, ca_blink = False, ca_invert = False\<rparr>"

definition terminal_defaults :: "terminal \<Rightarrow> vt \<Rightarrow> terminal \<times> vt" where
  "terminal_defaults t v =
    (let (cols, d) = vga_get_cols (vt_vga v);
         (rows, d) = vga_get_rows d;
         (shape, d) = vga_get_cursor_shape d;
         cur = \<lparr>cu_shape = shape, cu_x = 0, cu_y = 0, cu_hidden = False\<rparr>
     in (save_terminal (t\<lparr>te_state := S_NORM, te_cols := ucast cols, te_rows := ucast rows,
           te_tabstops := map (\<lambda>i. if (i + 1) mod TABSTOP_WIDTH = 0 then 1 else 0) [0..<MAX_TABSTOP],
           te_csiparam := replicate MAX_CSIPARAM (-1), te_paramidx := 0, te_blink_on := False,
           te_need_wrap := False, te_attr := default_attr, te_cursor := cur,
           te_def_attr := default_attr, te_def_cursor := cur\<rparr>), v\<lparr>vt_vga := d\<rparr>))"

definition reset_terminal :: "terminal \<Rightarrow> vt \<Rightarrow> (terminal \<times> vt) option" where
  "reset_terminal t v = do {
     let (t, v) = terminal_defaults t v;
     t \<leftarrow> erase t 2;
     when_current update_vga_state t v
   }"

subsection \<open>Escape sequences\<close>

definition esc_done :: "terminal \<Rightarrow> terminal" where
  "esc_done t = t\<lparr>te_need_wrap := False, te_state := S_NORM\<rparr>"

definition esc :: "terminal \<Rightarrow> u8 \<Rightarrow> vt \<Rightarrow> (terminal \<times> vt) option" where
  "esc t c v =
    (if c = 91 then
       Some (t\<lparr>te_csiparam := map (\<lambda>_. -1) (te_csiparam t), te_paramidx := 0, te_state := S_CSI\<rparr>, v)
     else do {
       (t, v) \<leftarrow>
         (if c = 68 then do { t \<leftarrow> line_feed t; Some (t, v) }
          else if c = 69 then do { t \<leftarrow> line_feed (carriage_return t); Some (t, v) }
          else if c = 72 then do { ts \<leftarrow> arr_set (te_tabstops t) (unat (tx t)) 1; Some (t\<lparr>te_tabstops := ts\<rparr>, v) }
          else if c = 77 then do { t \<leftarrow> reverse_linefeed t; Some (t, v) }
          else if c = 51 then when_current enable_blink (t\<lparr>te_blink_on := False\<rparr>) v
          else if c = 52 then when_current enable_blink (t\<lparr>te_blink_on := True\<rparr>) v
          else if c = 53 then when_current enable_cursor (t\<lparr>te_cursor := (te_cursor t)\<lparr>cu_hidden := True\<rparr>\<rparr>) v
          else if c = 54 then when_current enable_cursor (t\<lparr>te_cursor := (te_cursor t)\<lparr>cu_hidden := False\<rparr>\<rparr>) v
          else if c = 55 then Some (save_terminal t, v)
          else if c = 56 then restore_terminal t v
          else if c = 99 then reset_terminal t v
          else if c = 104 then do { ts \<leftarrow> arr_set (te_tabstops t) (unat (tx t)) 0; Some (t\<lparr>te_tabstops := ts\<rparr>, v) }
          else Some (t, v));
       Some (esc_done t, v)
     })"

definition CSI_COLORS :: "u8 list" where
  "CSI_COLORS = [0, 4, 2, 6, 1, 5, 3, 7]"

text \<open>The parameter is passed as a \<open>char\<close>: \<open>p\<close> is its sign-extended low byte.\<close>

definition csi_m :: "terminal \<Rightarrow> int \<Rightarrow> terminal" where
  "csi_m t n =
    (let p = sint (of_int n :: u8); a = te_attr t in
     t\<lparr>te_attr :=
       (if p = 0 then te_def_attr t
        else if p = 1 then a\<lparr>ca_bright := True\<rparr>
        else if p = 2 then a\<lparr>ca_faint := True\<rparr>
        else if p = 3 then a\<lparr>ca_italic := True\<rparr>
        else if p = 4 then a\<lparr>ca_underline := True\<rparr>
        else if p = 5 then a\<lparr>ca_blink := True\<rparr>
        else if p = 7 then a\<lparr>ca_invert := True\<rparr>
        else if p = 22 then a\<lparr>ca_bright := False, ca_faint := False\<rparr>
        else if p = 23 then a\<lparr>ca_italic := False\<rparr>
        else if p = 24 then a\<lparr>ca_underline := False\<rparr>
        else if p = 25 then a\<lparr>ca_blink := False\<rparr>
        else if p = 27 then a\<lparr>ca_invert := False\<rparr>
        else if 30 \<le> p \<and> p \<le> 37 then a\<lparr>ca_fg := CSI_COLORS ! nat (p - 30)\<rparr>
        else if 40 \<le> p \<and> p \<le> 47 then a\<lparr>ca_bg := CSI_COLORS ! nat (p - 40)\<rparr>
        else if p = 39 then a\<lparr>ca_fg := ca_fg (te_def_attr t)\<rparr>
        else if p = 49 then a\<lparr>ca_bg := ca_bg (te_def_attr t)\<rparr>
        else if 90 \<le> p \<and> p \<le> 97 then a\<lparr>ca_fg := CSI_COLORS ! nat (p - 90), ca_bright := True\<rparr>
        else if 100 \<le> p \<and> p \<le> 107 then
          a\<lparr>ca_bg := CSI_COLORS ! nat (p - 100), ca_bright := \<not> ca_blink a\<rparr>
        else a)\<rparr>)"

definition param_minimum :: "nat \<Rightarrow> int \<Rightarrow> terminal \<Rightarrow> terminal option" where
  "param_minimum i v t = do {
     p \<leftarrow> arr_get (te_csiparam t) i;
     Some (if p < v then t\<lparr>te_csiparam := (te_csiparam t)[i := v]\<rparr> else t)
   }"

definition param_maximum :: "nat \<Rightarrow> int \<Rightarrow> terminal \<Rightarrow> terminal option" where
  "param_maximum i v t = do {
     p \<leftarrow> arr_get (te_csiparam t) i;
     Some (if p > v then t\<lparr>te_csiparam := (te_csiparam t)[i := v]\<rparr> else t)
   }"

text \<open>The loop of \<open>CSI m\<close> over the parameters \<open>i\<close>, \<open>i + 1\<close>, ...\<close>

fun csi_m_loop :: "nat \<Rightarrow> nat \<Rightarrow> terminal \<Rightarrow> terminal option" where
  "csi_m_loop i 0 t = Some t"
| "csi_m_loop i (Suc n) t = do {
     t \<leftarrow> param_minimum i 0 t;
     p \<leftarrow> arr_get (te_csiparam t) i;
     csi_m_loop (Suc i) n (csi_m t p)
   }"

text \<open>A sequence with one parameter of at least \<open>low\<close>, which \<open>f\<close> carries out.\<close>

definition csi_param1 :: "int \<Rightarrow> (terminal \<Rightarrow> int \<Rightarrow> terminal option) \<Rightarrow> terminal \<Rightarrow> terminal option" where
  "csi_param1 low f t = do {
     t \<leftarrow> param_minimum 0 low t;
     p \<leftarrow> arr_get (te_csiparam t) 0;
     f t p
   }"

definition csi_cup :: "terminal \<Rightarrow> terminal option" where
  "csi_cup t = do {
     t \<leftarrow> param_minimum 0 1 t;
     t \<leftarrow> param_minimum 1 1 t;
     t \<leftarrow> param_maximum 0 (int (unat (te_rows t))) t;
     t \<leftarrow> param_maximum 1 (int (unat (te_cols t))) t;
     p \<leftarrow> arr_get (te_csiparam t) 0;
     q \<leftarrow> arr_get (te_csiparam t) 1;
     Some (set_x (of_int (q - 1)) (set_y (of_int (p - 1)) t))
   }"

definition csi_cha :: "terminal \<Rightarrow> terminal option" where
  "csi_cha t = do {
     t \<leftarrow> param_minimum 0 1 t;
     t \<leftarrow> param_maximum 0 (int (unat (te_cols t))) t;
     p \<leftarrow> arr_get (te_csiparam t) 0;
     Some (set_x (of_int (p - 1)) t)
   }"

definition csi_digit :: "terminal \<Rightarrow> u8 \<Rightarrow> terminal option" where
  "csi_digit t c = do {
     p \<leftarrow> arr_get (te_csiparam t) (te_paramidx t);
     let p = (if p = -1 then 0 else p);
     p \<leftarrow> int32 (p * 10);
     p \<leftarrow> int32 (p + (cchar c - 48));
     Some (t\<lparr>te_csiparam := (te_csiparam t)[te_paramidx t := p]\<rparr>)
   }"

text \<open>The characters that end a control sequence, and those that are invalid in it.\<close>

definition csi_final :: "terminal \<Rightarrow> u8 \<Rightarrow> vt \<Rightarrow> (terminal \<times> vt) option" where
  "csi_final t c v =
    (if c = 65 then map_option (\<lambda>t. (t, v)) (csi_param1 1 cursor_up t)
     else if c = 66 then map_option (\<lambda>t. (t, v)) (csi_param1 1 cursor_down t)
     else if c = 67 then map_option (\<lambda>t. (t, v)) (csi_param1 1 cursor_right t)
     else if c = 68 then map_option (\<lambda>t. (t, v)) (csi_param1 1 cursor_left t)
     else if c = 69 then map_option (\<lambda>t. (t, v)) (csi_param1 1 (\<lambda>t. cursor_down (set_x 0 t)) t)
     else if c = 70 then map_option (\<lambda>t. (t, v)) (csi_param1 1 (\<lambda>t. cursor_up (set_x 0 t)) t)
     else if c = 71 then map_option (\<lambda>t. (t, v)) (csi_cha t)
     else if c = 72 then map_option (\<lambda>t. (t, v)) (csi_cup t)
     else if c = 74 then map_option (\<lambda>t. (t, v)) (csi_param1 0 erase t)
     else if c = 75 then map_option (\<lambda>t. (t, v)) (csi_param1 0 erase_line t)
     else if c = 83 then map_option (\<lambda>t. (t, v)) (csi_param1 1 scroll t)
     else if c = 84 then map_option (\<lambda>t. (t, v)) (csi_param1 1 (\<lambda>t n. scroll t (- n)) t)
     else if c = 109 then map_option (\<lambda>t. (t, v)) (csi_m_loop 0 (te_paramidx t + 1) t)
     else if c = 115 then Some (save_cursor t, v)
     else if c = 117 then restore_cursor t v
     else Some (t, v))"

definition csi :: "terminal \<Rightarrow> u8 \<Rightarrow> vt \<Rightarrow> (terminal \<times> vt) option" where
  "csi t c v =
    (if c = 59 then
       (let t = t\<lparr>te_paramidx := te_paramidx t + 1\<rparr>
        in Some (if MAX_CSIPARAM \<le> te_paramidx t then esc_done t else t, v))
     else if isdigit (cchar c) then do { t \<leftarrow> csi_digit t c; Some (t, v) }
     else do { (t, v) \<leftarrow> csi_final t c v; Some (esc_done t, v) })"

subsection \<open>Writing characters\<close>

text \<open>A character that is neither a control character nor part of an escape sequence.\<close>

definition put_graphic :: "terminal \<Rightarrow> u8 \<Rightarrow> vt \<Rightarrow> (terminal \<times> vt) option" where
  "put_graphic t c v = do {
     t \<leftarrow> (if te_need_wrap t then line_feed (carriage_return t) else Some t);
     let pos = xy2pos t (tx t) (ty t);
     let t = set_x (tx t + 1) t;
     let (t, update_cursor_pos) =
       (if unat (te_cols t) \<le> unat (tx t)
        then ((set_x (tx t - 1) t)\<lparr>te_need_wrap := True\<rparr>, False)
        else (t, True));
     t \<leftarrow> set_fb_char t pos c;
     let t = (if ca_bright (te_attr t) \<and> ca_faint (te_attr t)
              then t\<lparr>te_attr := (te_attr t)\<lparr>ca_bright := False\<rparr>\<rparr> else t);
     t \<leftarrow> set_fb_attr t pos (te_attr t);
     if update_cursor_pos then when_current set_cursor_pos t v else Some (t, v)
   }"

definition write_vga :: "(terminal \<times> vt) option \<Rightarrow> (terminal \<times> vt) option" where
  "write_vga r = do { (t, v) \<leftarrow> r; when_current set_cursor_pos t v }"

text \<open>The body of \<open>terminal_putchar\<close> between taking and releasing the \<open>printing\<close> flag.\<close>

definition putchar_body :: "terminal \<Rightarrow> u8 \<Rightarrow> vt \<Rightarrow> (terminal \<times> vt) option" where
  "putchar_body t c v =
    (if \<not> iscntrl (cchar c) \<and> te_state t = S_ESC then write_vga (esc t c v)
     else if \<not> iscntrl (cchar c) \<and> te_state t = S_CSI then write_vga (csi t c v)
     else if c = 7 then write_vga (Some (t, v\<lparr>vt_beeps := vt_beeps v @ [(BELL_FREQ, BELL_TIME)]\<rparr>))
     else if c = 8 then write_vga (do { t \<leftarrow> backspace t; Some (t, v) })
     else if c = 9 then write_vga (do { t \<leftarrow> tab t; Some (t, v) })
     else if c = 10 \<or> c = 11 \<or> c = 12 then write_vga (do { t \<leftarrow> line_feed t; Some (t, v) })
     else if c = 13 then write_vga (Some (carriage_return t, v))
     else if c = 24 then Some (t\<lparr>te_state := S_NORM\<rparr>, v)
     else if c = 27 then Some (t\<lparr>te_state := S_ESC\<rparr>, v)
     else if iscntrl (cchar c) then Some (t, v)
     else put_graphic t c v)"

definition terminal_putchar :: "terminal \<Rightarrow> u8 \<Rightarrow> vt \<Rightarrow> (int \<times> terminal \<times> vt) option" where
  "terminal_putchar t c v =
    (if te_printing t then Some (0, t, v)
     else do {
       (t, v) \<leftarrow> putchar_body (t\<lparr>te_printing := True\<rparr>) c v;
       Some (1, t\<lparr>te_printing := False\<rparr>, v)
     })"

text \<open>The loop of \<open>terminal_write\<close> from byte \<open>p\<close> on; it may not end, then it has no result.\<close>

partial_function (option) write_loop ::
  "u8 list \<Rightarrow> nat \<Rightarrow> terminal \<Rightarrow> vt \<Rightarrow> (terminal \<times> vt) option"
where
  "write_loop buf p t v =
    (if p < length buf
     then do {
       (n, t, v) \<leftarrow> terminal_putchar t (buf ! p) v;
       write_loop buf (p + nat n) t v
     }
     else Some (t, v))"

definition terminal_write :: "terminal \<Rightarrow> u8 list option \<Rightarrow> vt \<Rightarrow> (int \<times> terminal \<times> vt) option" where
  "terminal_write t buf v =
    (case buf of None \<Rightarrow> Some (- EINVAL, t, v)
     | Some bs \<Rightarrow> do { (t, v) \<leftarrow> write_loop bs 0 t v; Some (int (length bs), t, v) })"

text \<open>A string for \<open>terminal_print\<close> is the list of its characters before the NUL.\<close>

definition MAX_PRINTBUF :: nat where "MAX_PRINTBUF = 4096"

definition terminal_print :: "terminal \<Rightarrow> u8 list option \<Rightarrow> vt \<Rightarrow> (int \<times> terminal \<times> vt) option" where
  "terminal_print t buf v =
    (case buf of None \<Rightarrow> Some (- EINVAL, t, v)
     | Some str \<Rightarrow> do {
         let bs = take MAX_PRINTBUF str;
         (t, v) \<leftarrow> write_loop bs 0 t v;
         Some (int (length bs), t, v)
       })"

text \<open>The index of a terminal in the table; 0 asks for the current one.\<close>

definition get_terminal :: "int \<Rightarrow> terminal list \<Rightarrow> vt \<Rightarrow> nat option" where
  "get_terminal num ts v =
    (if num < 0 \<or> num > NR_TERMINAL then None
     else do {
       num \<leftarrow> (if num = 0 then current_terminal v else Some num);
       assert_opt (num > 0);
       t \<leftarrow> arr_get ts (nat (num - 1));
       assert_opt (te_initialized t \<longrightarrow> te_number t = num);
       Some (nat (num - 1))
     })"

text \<open>
  The loop of \<open>vt_console_write\<close>, which stops at a NUL character and drops the result of
  \<open>terminal_putchar\<close>. It returns the number of characters it consumed.
\<close>

fun vt_console_write :: "terminal \<Rightarrow> u8 list \<Rightarrow> vt \<Rightarrow> (int \<times> terminal \<times> vt) option" where
  "vt_console_write t [] v = Some (0, t, v)"
| "vt_console_write t (c # cs) v =
    (if c = 0 then Some (0, t, v)
     else do {
       (t, v) \<leftarrow> (if c = 10 then map_option snd (terminal_putchar t 13 v) else Some (t, v));
       (_, t, v) \<leftarrow> terminal_putchar t c v;
       (n, t, v) \<leftarrow> vt_console_write t cs v;
       Some (n + 1, t, v)
     })"

subsection \<open>Effect on the frame buffer\<close>

text \<open>The coordinates are used as natural numbers throughout.\<close>

declare of_nat_unat [simp del]

definition area :: "terminal \<Rightarrow> nat" where
  "area t = unat (te_rows t) * unat (te_cols t)"

definition blank :: "terminal \<Rightarrow> vga_cell" where
  "blank t = \<lparr>ce_ch = 32, ce_attr = cell_attr (te_attr t)\<rparr>"

text \<open>The frame buffer \<open>fb\<close> with the \<open>n\<close> cells from \<open>pos\<close> on replaced.\<close>

definition splice :: "nat \<Rightarrow> 'c list \<Rightarrow> 'c list \<Rightarrow> 'c list" where
  "splice pos cs fb = take pos fb @ cs @ drop (pos + length cs) fb"

lemma length_splice [simp]: "pos + length cs \<le> length fb \<Longrightarrow> length (splice pos cs fb) = length fb"
  by (simp add: splice_def)

lemma nth_splice:
  assumes "pos + length cs \<le> length fb" "i < length fb"
  shows "splice pos cs fb ! i =
    (if i < pos then fb ! i else if i < pos + length cs then cs ! (i - pos) else fb ! i)"
  using assms by (auto simp: splice_def nth_append not_less min_def)

lemma splice_Cons:
  assumes "pos < length fb"
  shows "splice (Suc pos) cs (fb[pos := c]) = splice pos (c # cs) fb"
  using assms by (simp add: splice_def take_Suc_conv_app_nth)

lemma unat_of_nat_u16: "k < 65536 \<Longrightarrow> unat (of_nat k :: u16) = k"
  by (simp add: unat_of_nat take_bit_nat_eq_self)

lemma vga_cell_update: "c\<lparr>ce_ch := x, ce_attr := a\<rparr> = \<lparr>ce_ch = x, ce_attr = a\<rparr>"
  by (cases c) simp

lemma blank_cells_eq:
  "pos + n \<le> length (te_fb t) \<Longrightarrow> length (te_fb t) \<le> 65536 \<Longrightarrow>
     blank_cells t pos n = Some (t\<lparr>te_fb := splice pos (replicate n (blank t)) (te_fb t)\<rparr>)"
proof (induction n arbitrary: t pos)
  case 0
  then show ?case by (simp add: splice_def)
next
  case (Suc n)
  let ?t = "t\<lparr>te_fb := (te_fb t)[pos := blank t]\<rparr>"
  have pos: "pos < length (te_fb t)" "unat (of_nat pos :: u16) = pos"
    using Suc.prems by (auto intro: unat_of_nat_u16)
  have "blank_cells t pos (Suc n) = blank_cells ?t (Suc pos) n"
    using pos by (simp add: set_fb_char_def set_fb_attr_def blank_def vga_cell_update)
  also have "\<dots> = Some (?t\<lparr>te_fb := splice (Suc pos) (replicate n (blank ?t)) (te_fb ?t)\<rparr>)"
    by (rule Suc.IH) (use Suc.prems in simp_all)
  also have "blank ?t = blank t" by (simp add: blank_def)
  finally show ?case using pos by (simp add: splice_Cons)
qed

declare blank_cells.simps [simp del]

subsection \<open>Well-formed terminals\<close>

definition cursor_in :: "terminal \<Rightarrow> cursor \<Rightarrow> bool" where
  "cursor_in t c \<longleftrightarrow> unat (cu_x c) < unat (te_cols t) \<and> unat (cu_y c) < unat (te_rows t)"

definition term_ok :: "terminal \<Rightarrow> bool" where
  "term_ok t \<longleftrightarrow>
     unat (te_cols t) \<le> MAX_TABSTOP \<and> area t \<le> FB_CELLS \<and> unat (te_rows t) < 4096 \<and>
     length (te_fb t) = FB_CELLS \<and> length (te_tabstops t) = MAX_TABSTOP \<and>
     length (te_csiparam t) = MAX_CSIPARAM \<and> (te_state t = S_CSI \<longrightarrow> te_paramidx t < MAX_CSIPARAM) \<and>
     (\<forall>p \<in> set (te_csiparam t). -1 \<le> p \<and> p < 2 ^ 31) \<and>
     length (sv_tabstops (te_saved t)) = MAX_TABSTOP \<and>
     cursor_in t (te_cursor t) \<and> cursor_in t (sv_cursor (te_saved t))"

lemma term_okD:
  assumes "term_ok t"
  shows "unat (te_cols t) \<le> 80" "area t \<le> 4096" "unat (te_rows t) < 4096" "length (te_fb t) = 4096"
    "length (te_tabstops t) = 80" "length (te_csiparam t) = 16"
    "unat (tx t) < unat (te_cols t)" "unat (ty t) < unat (te_rows t)"
    "0 < unat (te_cols t)" "0 < unat (te_rows t)"
  using assms by (auto simp: term_ok_def term_consts cursor_in_def)

text \<open>Position of the cursor in the frame buffer.\<close>

lemma cell_index:
  assumes "y < rows" "x < (cols :: nat)"
  shows "y * cols + x < rows * cols"
proof -
  have "y * cols + x < Suc y * cols" using assms(2) by simp
  also have "\<dots> \<le> rows * cols" using assms(1) by (intro mult_le_mono1) simp
  finally show ?thesis .
qed

lemma xy2pos_unat:
  assumes "term_ok t" "unat x < unat (te_cols t)" "unat y < unat (te_rows t)"
  shows "unat (xy2pos t x y) = unat y * unat (te_cols t) + unat x"
    "unat (xy2pos t x y) < area t"
proof -
  have "unat y * unat (te_cols t) + unat x < area t"
    unfolding area_def by (rule cell_index) (use assms in auto)
  moreover from this have "unat y * unat (te_cols t) + unat x < 65536"
    using term_okD(2) [OF assms(1)] by linarith
  then show "unat (xy2pos t x y) = unat y * unat (te_cols t) + unat x"
    unfolding xy2pos_def by (rule unat_of_nat_u16)
  ultimately show "unat (xy2pos t x y) < area t" by simp
qed

lemma u12_bound: "unat (x :: u12) < 4096"
  using unsigned_less [of x] by simp

lemma unat_inc_u12: "unat x < 4095 \<Longrightarrow> unat ((x :: u12) + 1) = unat x + 1"
  by (simp add: unat_word_ariths)

lemma unat_of_int_u12: "0 \<le> d \<Longrightarrow> d < 4096 \<Longrightarrow> unat (of_int d :: u12) = nat d"
  by (simp add: unsigned_of_int take_bit_int_eq_self)

subsection \<open>Scrolling\<close>

definition fb_ok :: "terminal \<Rightarrow> bool" where
  "fb_ok t \<longleftrightarrow> length (te_fb t) = FB_CELLS \<and> area t \<le> FB_CELLS \<and> 0 < unat (te_rows t)"

lemma term_ok_fb_ok: "term_ok t \<Longrightarrow> fb_ok t"
  by (auto simp: term_ok_def fb_ok_def cursor_in_def)

text \<open>The frame buffer scrolled by \<open>k\<close> rows, forward and in reverse.\<close>

definition scrolled :: "nat \<Rightarrow> terminal \<Rightarrow> vga_cell list" where
  "scrolled k t = splice 0 (drop (k * unat (te_cols t)) (take (area t) (te_fb t)) @
     replicate (k * unat (te_cols t)) (blank t)) (te_fb t)"

definition rscrolled :: "nat \<Rightarrow> terminal \<Rightarrow> vga_cell list" where
  "rscrolled k t = splice 0 (replicate (k * unat (te_cols t)) (blank t) @
     take (area t - k * unat (te_cols t)) (te_fb t)) (te_fb t)"

lemma blank_fb [simp]: "blank (t\<lparr>te_fb := fb\<rparr>) = blank t"
  by (simp add: blank_def)

lemma splice_scroll:
  assumes "m \<le> a" "a \<le> length fb"
  shows "splice (a - m) (replicate m b) (take (a - m) (drop m fb) @ drop (a - m) fb) =
      splice 0 (drop m (take a fb) @ replicate m b) fb"
    and "splice 0 (replicate m b) (take m fb @ take (a - m) fb @ drop a fb) =
      splice 0 (replicate m b @ take (a - m) fb) fb"
  using assms by (simp_all add: splice_def drop_take)

lemma scroll_eq:
  assumes ok: "fb_ok t" and "n \<noteq> 0"
  shows "scroll t n = Some (t\<lparr>te_fb := if n < 0 then rscrolled (min (nat (- n)) (unat (te_rows t))) t
    else scrolled (min (nat n) (unat (te_rows t))) t\<rparr>)"
proof -
  let ?k = "min (nat (if n < 0 then - n else n)) (unat (te_rows t))"
  let ?nb = "?k * unat (te_cols t)" and ?fb = "te_fb t"
  have clamp: "(if int (unat (te_rows t)) < (if n < 0 then - n else n) then int (unat (te_rows t))
      else if n < 0 then - n else n) = int ?k"
    by auto
  have k0: "0 < ?k" using ok assms(2) by (auto simp: fb_ok_def)
  have nb: "?nb \<le> area t" unfolding area_def by (intro mult_le_mono1) simp
  have len: "area t \<le> length ?fb" "length ?fb \<le> 65536" using ok by (auto simp: fb_ok_def term_consts)
  have body: "scroll t n = (do {
      fb \<leftarrow> move_cells (if n < 0 then ?nb else 0) (if n < 0 then 0 else ?nb) (area t - ?nb) (te_fb t);
      blank_cells (t\<lparr>te_fb := fb\<rparr>) (if n < 0 then 0 else area t - ?nb) ?nb })"
  proof -
    have "int ?k \<noteq> 0" using k0 by simp
    then show ?thesis
      unfolding scroll_def Let_def clamp area_def [symmetric] nat_int by (simp only: if_False)
  qed
  show ?thesis
  proof (cases "n < 0")
    case True
    define X where "X = take ?nb ?fb @ take (area t - ?nb) ?fb @ drop (area t) ?fb"
    have "scroll t n = blank_cells (t\<lparr>te_fb := X\<rparr>) 0 ?nb"
      unfolding body using True nb len le_trans [OF diff_le_self len(1)] by (simp add: move_cells_def X_def)
    also have "\<dots> = Some (t\<lparr>te_fb := splice 0 (replicate ?nb (blank t)) (X)\<rparr>)"
      using nb len by (subst blank_cells_eq) (simp_all add: X_def)
    also have "splice 0 (replicate ?nb (blank t)) (X) = rscrolled ?k t"
      unfolding rscrolled_def X_def by (rule splice_scroll(2) [OF nb len(1)])
    finally show ?thesis using True by simp
  next
    case False
    define X where "X = take (area t - ?nb) (drop ?nb ?fb) @ drop (area t - ?nb) ?fb"
    have "scroll t n = blank_cells (t\<lparr>te_fb := X\<rparr>) (area t - ?nb) ?nb"
      unfolding body using False nb len le_trans [OF diff_le_self len(1)] by (simp add: move_cells_def X_def)
    also have "\<dots> = Some (t\<lparr>te_fb := splice (area t - ?nb) (replicate ?nb (blank t)) X\<rparr>)"
      using nb len by (subst blank_cells_eq) (simp_all add: X_def)
    also have "splice (area t - ?nb) (replicate ?nb (blank t)) X = scrolled ?k t"
      unfolding scrolled_def X_def by (rule splice_scroll(1) [OF nb len(1)])
    finally show ?thesis using False by simp
  qed
qed

lemma length_scrolled [simp]:
  "fb_ok t \<Longrightarrow> k \<le> unat (te_rows t) \<Longrightarrow> length (scrolled k t) = FB_CELLS"
  "fb_ok t \<Longrightarrow> k \<le> unat (te_rows t) \<Longrightarrow> length (rscrolled k t) = FB_CELLS"
proof -
  assume "fb_ok t" "k \<le> unat (te_rows t)"
  then have "k * unat (te_cols t) \<le> area t" "area t \<le> length (te_fb t)" "length (te_fb t) = FB_CELLS"
    by (auto simp: area_def fb_ok_def)
  then show "length (scrolled k t) = FB_CELLS" "length (rscrolled k t) = FB_CELLS"
    unfolding scrolled_def rscrolled_def by (subst length_splice; simp)+
qed

subsection \<open>The operations on well-formed terminals\<close>

lemmas cursor_upd = set_x_def set_y_def

lemma area_simps [simp]:
  "area (set_x x t) = area t" "area (set_y y t) = area t" "area (t\<lparr>te_fb := fb\<rparr>) = area t"
  "area (t\<lparr>te_need_wrap := b\<rparr>) = area t"
  by (simp_all add: area_def cursor_upd)

lemma term_ok_update [simp]:
  assumes "term_ok t"
  shows "unat x < unat (te_cols t) \<Longrightarrow> term_ok (set_x x t)"
    "unat y < unat (te_rows t) \<Longrightarrow> term_ok (set_y y t)"
    "term_ok (t\<lparr>te_need_wrap := b\<rparr>)" "term_ok (t\<lparr>te_attr := a\<rparr>)" "term_ok (t\<lparr>te_printing := b\<rparr>)"
    "term_ok (t\<lparr>te_blink_on := b\<rparr>)" "term_ok (t\<lparr>te_state := S_NORM\<rparr>)" "term_ok (t\<lparr>te_state := S_ESC\<rparr>)"
    "length fb = FB_CELLS \<Longrightarrow> term_ok (t\<lparr>te_fb := fb\<rparr>)"
    "length ts = MAX_TABSTOP \<Longrightarrow> term_ok (t\<lparr>te_tabstops := ts\<rparr>)"
    "length ps = MAX_CSIPARAM \<Longrightarrow> \<forall>p \<in> set ps. -1 \<le> p \<and> p < 2 ^ 31 \<Longrightarrow> term_ok (t\<lparr>te_csiparam := ps\<rparr>)"
    "term_ok (t\<lparr>te_cursor := (te_cursor t)\<lparr>cu_hidden := b\<rparr>\<rparr>)"
  using assms by (auto simp: term_ok_def cursor_in_def cursor_upd area_def)

lemma carriage_return_ok: "term_ok t \<Longrightarrow> term_ok (carriage_return t)"
  unfolding carriage_return_def using term_okD(9) [of t] by simp

lemma line_feed_eq:
  assumes ok: "term_ok t"
  shows "line_feed t = Some ((if unat (ty t) + 1 < unat (te_rows t) then set_y (ty t + 1) t
    else t\<lparr>te_fb := scrolled 1 t\<rparr>)\<lparr>te_need_wrap := False\<rparr>)"
proof -
  note d = term_okD [OF ok]
  have y: "unat (ty t + 1) = unat (ty t) + 1" using d(3,8) by (intro unat_inc_u12) linarith
  have ty: "ty (set_y (ty t + 1) t) = ty t + 1" "te_rows (set_y (ty t + 1) t) = te_rows t"
    by (simp_all add: cursor_upd)
  show ?thesis
  proof (cases "unat (ty t) + 1 < unat (te_rows t)")
    case True
    then show ?thesis using y ty by (simp add: line_feed_def Let_def)
  next
    case False
    let ?t = "set_y (ty t + 1) t"
    have "fb_ok ?t" using term_ok_fb_ok [OF ok] by (simp add: fb_ok_def cursor_upd area_def)
    moreover have "scrolled 1 ?t = scrolled 1 t"
      by (simp add: scrolled_def cursor_upd area_def blank_def)
    moreover have "min 1 (unat (te_rows t)) = 1" using d(10) by simp
    ultimately have "scroll ?t 1 = Some (?t\<lparr>te_fb := scrolled 1 t\<rparr>)"
      by (subst scroll_eq) (simp_all add: ty)
    then show ?thesis using False y ty by (simp add: line_feed_def Let_def) (simp add: cursor_upd)
  qed
qed

text \<open>A step that returns a well-formed terminal of the same size.\<close>

definition op_ok :: "terminal \<Rightarrow> terminal option \<Rightarrow> bool" where
  "op_ok t r \<longleftrightarrow> (\<exists>t'. r = Some t' \<and> term_ok t' \<and> te_cols t' = te_cols t \<and> te_rows t' = te_rows t)"

lemma op_okI: "term_ok t' \<Longrightarrow> te_cols t' = te_cols t \<Longrightarrow> te_rows t' = te_rows t \<Longrightarrow> op_ok t (Some t')"
  by (simp add: op_ok_def)

lemma op_ok_bind:
  assumes "op_ok t r" "\<And>t'. term_ok t' \<Longrightarrow> te_cols t' = te_cols t \<Longrightarrow> te_rows t' = te_rows t \<Longrightarrow> op_ok t' (f t')"
  shows "op_ok t (r \<bind> f)"
  using assms by (fastforce simp: op_ok_def)

lemma op_ok_resize: "op_ok t' r \<Longrightarrow> te_cols t' = te_cols t \<Longrightarrow> te_rows t' = te_rows t \<Longrightarrow> op_ok t r"
  by (simp add: op_ok_def)

lemma size_simps [simp]:
  "te_cols (set_x x t) = te_cols t" "te_rows (set_x x t) = te_rows t"
  "te_cols (set_y y t) = te_cols t" "te_rows (set_y y t) = te_rows t"
  "tx (set_x x t) = x" "ty (set_x x t) = ty t" "tx (set_y y t) = tx t" "ty (set_y y t) = y"
  "te_fb (set_x x t) = te_fb t" "te_fb (set_y y t) = te_fb t"
  "te_tabstops (set_x x t) = te_tabstops t" "te_csiparam (set_x x t) = te_csiparam t"
  "te_attr (set_x x t) = te_attr t" "te_attr (set_y y t) = te_attr t"
  "te_need_wrap (set_x x t) = te_need_wrap t" "te_need_wrap (set_y y t) = te_need_wrap t"
  by (simp_all add: cursor_upd)

lemma line_feed_ok: "term_ok t \<Longrightarrow> op_ok t (line_feed t)"
proof -
  assume ok: "term_ok t"
  note d = term_okD [OF ok]
  have "unat (ty t + 1) = unat (ty t) + 1" using d(3,8) by (intro unat_inc_u12) linarith
  then show ?thesis
    using ok term_ok_fb_ok [OF ok] d(10) by (simp add: line_feed_eq op_ok_def)
qed

lemma newline_ok: "term_ok t \<Longrightarrow> op_ok t (line_feed (carriage_return t))"
  by (rule op_ok_resize [OF line_feed_ok [OF carriage_return_ok]]) (simp_all add: carriage_return_def)

lemma of_int_nat_u12: "0 \<le> d \<Longrightarrow> (of_int d :: u12) = of_nat (nat d)"
  by (metis of_int_of_nat_eq nat_0_le)

lemma nat_int_minus: "0 \<le> n \<Longrightarrow> nat (int a - n) = a - nat n"
  by (simp add: nat_diff_distrib')

lemma nat_int_plus: "0 \<le> n \<Longrightarrow> nat (int a + n) = a + nat n"
  by (simp add: nat_add_distrib)

text \<open>The cursor moves by \<open>n\<close> and stops at the border of the screen.\<close>

lemma cursor_up_eq:
  assumes "0 \<le> n" "n < 2 ^ 31"
  shows "cursor_up t n = Some (set_y (of_nat (unat (ty t) - nat n)) t)"
proof -
  have "int32 (int (unat (ty t)) - n) = Some (int (unat (ty t)) - n)"
    using assms u12_bound [of "ty t"] by (intro int32_Some) simp_all
  moreover have "(of_int (int (unat (ty t)) - n) :: u12) = of_nat (unat (ty t) - nat n)" if "0 < int (unat (ty t)) - n"
    using that by (simp only: of_int_nat_u12 nat_int_minus [OF assms(1)])
  moreover have "unat (ty t) - nat n = 0" if "\<not> 0 < int (unat (ty t)) - n"
    using that assms(1) by linarith
  ultimately show ?thesis by (cases "0 < int (unat (ty t)) - n") (simp_all add: cursor_up_def)
qed

lemma cursor_left_eq:
  assumes "0 \<le> n" "n < 2 ^ 31"
  shows "cursor_left t n = Some (set_x (of_nat (unat (tx t) - nat n)) t)"
proof -
  have "int32 (int (unat (tx t)) - n) = Some (int (unat (tx t)) - n)"
    using assms u12_bound [of "tx t"] by (intro int32_Some) simp_all
  moreover have "(of_int (int (unat (tx t)) - n) :: u12) = of_nat (unat (tx t) - nat n)" if "0 < int (unat (tx t)) - n"
    using that by (simp only: of_int_nat_u12 nat_int_minus [OF assms(1)])
  moreover have "unat (tx t) - nat n = 0" if "\<not> 0 < int (unat (tx t)) - n"
    using that assms(1) by linarith
  ultimately show ?thesis by (cases "0 < int (unat (tx t)) - n") (simp_all add: cursor_left_def)
qed

lemma cursor_down_eq:
  assumes "0 \<le> n" "n + 4095 < 2 ^ 31" "0 < unat (te_rows t)"
  shows "cursor_down t n = Some (set_y (of_nat (min (unat (ty t) + nat n) (unat (te_rows t) - 1))) t)"
proof -
  have "int32 (int (unat (ty t)) + n) = Some (int (unat (ty t)) + n)"
    using assms u12_bound [of "ty t"] by (intro int32_Some) simp_all
  moreover have "0 \<le> int (unat (ty t)) + n" using assms(1) by simp
  then have "(of_int (int (unat (ty t)) + n) :: u12) = of_nat (unat (ty t) + nat n)"
    by (simp only: of_int_nat_u12 nat_int_plus [OF assms(1)])
  moreover have "0 \<le> int (unat (te_rows t)) - 1" using assms(3) by simp
  then have "(of_int (int (unat (te_rows t)) - 1) :: u12) = of_nat (unat (te_rows t) - 1)"
    by (simp only: of_int_nat_u12 nat_int_minus nat_one_as_int [symmetric])
  moreover have "min (unat (ty t) + nat n) (unat (te_rows t) - 1) =
      (if int (unat (ty t)) + n < int (unat (te_rows t)) - 1 then unat (ty t) + nat n else unat (te_rows t) - 1)"
    using assms(1,3) by auto
  ultimately show ?thesis by (simp add: cursor_down_def)
qed

lemma cursor_right_eq:
  assumes "0 \<le> n" "n + 4095 < 2 ^ 31" "0 < unat (te_cols t)"
  shows "cursor_right t n = Some (set_x (of_nat (min (unat (tx t) + nat n) (unat (te_cols t) - 1))) t)"
proof -
  have "int32 (int (unat (tx t)) + n) = Some (int (unat (tx t)) + n)"
    using assms u12_bound [of "tx t"] by (intro int32_Some) simp_all
  moreover have "0 \<le> int (unat (tx t)) + n" using assms(1) by simp
  then have "(of_int (int (unat (tx t)) + n) :: u12) = of_nat (unat (tx t) + nat n)"
    by (simp only: of_int_nat_u12 nat_int_plus [OF assms(1)])
  moreover have "0 \<le> int (unat (te_cols t)) - 1" using assms(3) by simp
  then have "(of_int (int (unat (te_cols t)) - 1) :: u12) = of_nat (unat (te_cols t) - 1)"
    by (simp only: of_int_nat_u12 nat_int_minus nat_one_as_int [symmetric])
  moreover have "min (unat (tx t) + nat n) (unat (te_cols t) - 1) =
      (if int (unat (tx t)) + n < int (unat (te_cols t)) - 1 then unat (tx t) + nat n else unat (te_cols t) - 1)"
    using assms(1,3) by auto
  ultimately show ?thesis by (simp add: cursor_right_def)
qed

lemma unat_of_nat_u12: "k < 4096 \<Longrightarrow> unat (of_nat k :: u12) = k"
  by (simp add: unat_of_nat take_bit_nat_eq_self)

lemma cursor_ops_ok:
  assumes ok: "term_ok t" and n: "0 \<le> n" "n < 2 ^ 31"
  shows "op_ok t (cursor_up t n)" "op_ok t (cursor_left t n)"
    "n + 4095 < 2 ^ 31 \<Longrightarrow> op_ok t (cursor_down t n)" "n + 4095 < 2 ^ 31 \<Longrightarrow> op_ok t (cursor_right t n)"
proof -
  note d = term_okD [OF ok]
  have lt: "unat (of_nat k :: u12) < m" if "k < m" "m < 4096" for k m
    using that unat_of_nat_u12 [of k] by simp
  show "op_ok t (cursor_up t n)"
    unfolding cursor_up_eq [OF n] using d ok by (intro op_okI term_ok_update lt) auto
  show "op_ok t (cursor_left t n)"
    unfolding cursor_left_eq [OF n] using d ok by (intro op_okI term_ok_update lt) auto
  show "op_ok t (cursor_down t n)" if "n + 4095 < 2 ^ 31"
    unfolding cursor_down_eq [OF n(1) that d(10)] using d ok by (intro op_okI term_ok_update lt) auto
  show "op_ok t (cursor_right t n)" if "n + 4095 < 2 ^ 31"
    unfolding cursor_right_eq [OF n(1) that d(9)] using d ok by (intro op_okI term_ok_update lt) auto
qed

lemma blank_cells_ok: "term_ok t \<Longrightarrow> pos + n \<le> FB_CELLS \<Longrightarrow> op_ok t (blank_cells t pos n)"
  by (auto simp: blank_cells_eq term_okD term_consts intro!: op_okI)

lemma erase_ok: "term_ok t \<Longrightarrow> op_ok t (erase t m)"
proof -
  assume ok: "term_ok t"
  note d = term_okD [OF ok]
  have pos: "unat (xy2pos t (tx t) (ty t)) < area t" by (rule xy2pos_unat(2) [OF ok d(7,8)])
  then show ?thesis
    using d(2) unfolding erase_def Let_def area_def [symmetric]
    by (auto intro!: blank_cells_ok [OF ok] simp: term_consts)
qed

lemma erase_line_ok: "term_ok t \<Longrightarrow> op_ok t (erase_line t m)"
proof -
  assume ok: "term_ok t"
  note d = term_okD [OF ok]
  let ?c = "unat (te_cols t)" and ?y = "unat (ty t)"
  have p: "unat (xy2pos t (tx t) (ty t)) = ?y * ?c + unat (tx t)" "unat (xy2pos t 0 (ty t)) = ?y * ?c"
    using xy2pos_unat(1) [OF ok d(7,8)] xy2pos_unat(1) [OF ok _ d(8), of 0] d(9) by auto
  have m: "(?y * ?c + unat (tx t)) mod ?c = unat (tx t)" using d(7) by simp
  have "?y * ?c + ?c \<le> area t"
    using d(8) mult_le_mono1 [of "Suc ?y" "unat (te_rows t)" ?c] by (simp add: area_def add.commute)
  then show ?thesis
    using d unfolding erase_line_def Let_def p m
    by (auto intro!: blank_cells_ok [OF ok] simp: term_consts)
qed

lemma scroll_ok: "term_ok t \<Longrightarrow> op_ok t (scroll t n)"
proof (cases "n = 0")
  case True
  assume "term_ok t"
  with True show ?thesis by (simp add: scroll_def op_okI)
next
  case False
  assume ok: "term_ok t"
  show ?thesis
    unfolding scroll_eq [OF term_ok_fb_ok [OF ok] False]
    using ok term_ok_fb_ok [OF ok] by (auto intro!: op_okI)
qed

lemma backspace_ok: "term_ok t \<Longrightarrow> op_ok t (backspace t)"
  unfolding backspace_def by (rule op_ok_bind [OF cursor_ops_ok(2)]) (auto intro: op_okI)

text \<open>Moving to the next tab stop stays inside the table when there is one to the right.\<close>

definition tab_safe :: "terminal \<Rightarrow> bool" where
  "tab_safe t \<longleftrightarrow> unat (te_cols t) < MAX_TABSTOP \<or>
     (\<exists>i < MAX_TABSTOP. unat (tx t) < i \<and> te_tabstops t ! i \<noteq> 0)"

lemma tab_loop_ok:
  assumes "unat (te_cols t) \<le> 80" "length (te_tabstops t) = 80" "unat (tx t) \<le> unat (te_cols t)"
    "unat (te_cols t) < 80 \<or> (\<exists>i < 80. unat (tx t) < i \<and> te_tabstops t ! i \<noteq> 0)"
    "80 - unat (tx t) < n"
  shows "\<exists>x. tab_loop n t = Some (set_x x t) \<and> unat (tx t) \<le> unat x \<and> unat x \<le> unat (te_cols t)"
  using assms
proof (induction n arbitrary: t)
  case 0
  then show ?case by simp
next
  case (Suc n)
  show ?case
  proof (cases "unat (tx t) < unat (te_cols t)")
    case False
    have "set_x (tx t) t = t" by (simp add: cursor_upd)
    with False show ?thesis using Suc.prems(3) by (intro exI [of _ "tx t"]) simp
  next
    case True
    let ?t = "set_x (tx t + 1) t"
    have x: "unat (tx t + 1) = unat (tx t) + 1" using True Suc.prems(1) by (intro unat_inc_u12) linarith
    have lt: "unat (tx t) + 1 < 80" using Suc.prems(1,4) True by auto
    have twice: "set_x x ?t = set_x x t" for x by (simp add: cursor_upd)
    show ?thesis
    proof (cases "te_tabstops t ! (unat (tx t) + 1) = 0")
      case False
      then show ?thesis using True x lt Suc.prems(2) by (auto intro!: exI [of _ "tx t + 1"])
    next
      case stop: True
      have "unat (te_cols t) < 80 \<or> (\<exists>i < 80. unat (tx ?t) < i \<and> te_tabstops ?t ! i \<noteq> 0)"
      proof (cases "unat (te_cols t) < 80")
        case False
        then obtain i where i: "i < 80" "unat (tx t) < i" "te_tabstops t ! i \<noteq> 0" using Suc.prems(4) by blast
        with stop have "i \<noteq> unat (tx t) + 1" by auto
        with i x have "\<exists>i < 80. unat (tx ?t) < i \<and> te_tabstops ?t ! i \<noteq> 0" by (intro exI [of _ i]) simp
        then show ?thesis by blast
      qed simp
      then have "\<exists>x. tab_loop n ?t = Some (set_x x ?t) \<and> unat (tx ?t) \<le> unat x \<and> unat x \<le> unat (te_cols ?t)"
        using Suc.prems True x by (intro Suc.IH) simp_all
      then show ?thesis using True x lt stop Suc.prems(2) twice by auto
    qed
  qed
qed

lemma tab_ok:
  assumes ok: "term_ok t" and "tab_safe t"
  shows "op_ok t (tab t)"
proof -
  note d = term_okD [OF ok]
  have "80 - unat (tx t) < 81" by arith
  then obtain x where x: "tab_loop (MAX_TABSTOP + 1) t = Some (set_x x t)" "unat x \<le> unat (te_cols t)"
    using tab_loop_ok [of t "MAX_TABSTOP + 1"] d assms(2) by (auto simp: tab_safe_def term_consts)
  have c: "unat (ucast (te_cols t - 1) :: u12) < unat (te_cols t)"
  proof -
    have "unat (te_cols t - 1) = unat (te_cols t) - 1"
      using d(9) by (intro unat_minus_one) (auto simp: unat_eq_zero)
    moreover from this have "unat (ucast (te_cols t - 1) :: u12) = unat (te_cols t) - 1"
      using d(1) by (simp add: unsigned_ucast_eq take_bit_nat_eq_self)
    ultimately show ?thesis using d(9) by simp
  qed
  have "set_x y (set_x x t) = set_x y t" for y by (simp add: cursor_upd)
  then show ?thesis using x c ok by (auto simp: tab_def intro!: op_okI)
qed

subsection \<open>The display\<close>

definition vt_ok :: "terminal \<Rightarrow> vt \<Rightarrow> bool" where
  "vt_ok t v \<longleftrightarrow> 0 < vt_curr v \<and> vt_curr v \<le> NR_TERMINAL \<and>
     te_cols t = ucast (fst (vga_get_cols (vt_vga v))) \<and> te_rows t = ucast (fst (vga_get_rows (vt_vga v)))"

text \<open>A change of the display that touches only the registers of the cursor and of the attributes.\<close>

definition cursor_only :: "vt \<Rightarrow> vt \<Rightarrow> bool" where
  "cursor_only v v' \<longleftrightarrow> vt_curr v' = vt_curr v \<and>
     (\<forall>r. r \<notin> {0x0A, 0x0B, 0x0E, 0x0F} \<longrightarrow> crtc_regs (vt_vga v') r = crtc_regs (vt_vga v) r)"

lemma cursor_only_ok: "vt_ok t v \<Longrightarrow> cursor_only v v' \<Longrightarrow> vt_ok t v'"
  by (simp add: vt_ok_def cursor_only_def vga_get_cols_def vga_get_rows_def Let_def)

lemma cursor_only_refl [simp]: "cursor_only v v"
  by (simp add: cursor_only_def)

lemma cursor_only_trans: "cursor_only u v \<Longrightarrow> cursor_only v w \<Longrightarrow> cursor_only u w"
  by (simp add: cursor_only_def)

lemma display_ops_only:
  "cursor_only v (enable_blink t v)" "cursor_only v (enable_cursor t v)"
  "cursor_only v (set_cursor_pos t v)" "cursor_only v (set_cursor_shape t v)"
  by (simp_all add: cursor_only_def enable_blink_def enable_cursor_def set_cursor_pos_def
      set_cursor_shape_def enable_blink_regs enable_cursor_regs cursor_pos_regs cursor_shape_regs)

lemma update_vga_only: "cursor_only v (update_vga_state t v)"
  unfolding update_vga_state_def using display_ops_only cursor_only_trans by meson

text \<open>A step of terminal and display.\<close>

definition vt_op_ok :: "(terminal \<times> vt) option \<Rightarrow> bool" where
  "vt_op_ok r \<longleftrightarrow> (\<exists>t v. r = Some (t, v) \<and> term_ok t \<and> vt_ok t v)"

lemma vt_op_okI: "term_ok t \<Longrightarrow> vt_ok t v \<Longrightarrow> vt_op_ok (Some (t, v))"
  by (simp add: vt_op_ok_def)

lemma vt_op_ok_bind:
  assumes "vt_op_ok r" "\<And>t v. term_ok t \<Longrightarrow> vt_ok t v \<Longrightarrow> vt_op_ok (f t v)"
  shows "vt_op_ok (r \<bind> (\<lambda>(t, v). f t v))"
  using assms by (fastforce simp: vt_op_ok_def)

lemma vt_op_ok_lift: "op_ok t r \<Longrightarrow> vt_ok t v \<Longrightarrow> vt_op_ok (r \<bind> (\<lambda>t. Some (t, v)))"
  by (fastforce simp: vt_op_ok_def op_ok_def vt_ok_def)

lemma vt_op_ok_map: "op_ok t r \<Longrightarrow> vt_ok t v \<Longrightarrow> vt_op_ok (map_option (\<lambda>t. (t, v)) r)"
  by (fastforce simp: vt_op_ok_def op_ok_def vt_ok_def)

lemma when_current_ok:
  assumes "term_ok t" "vt_ok t v" "\<And>v. cursor_only v (f t v)"
  shows "vt_op_ok (when_current f t v)"
proof -
  have "current_terminal v = Some (vt_curr v)" using assms(2) by (simp add: vt_ok_def current_terminal_def)
  then show ?thesis
    using assms cursor_only_ok [OF assms(2)] by (auto simp: when_current_def is_current_def intro!: vt_op_okI)
qed

lemmas when_current_oks = when_current_ok [OF _ _ display_ops_only(1)]
  when_current_ok [OF _ _ display_ops_only(2)] when_current_ok [OF _ _ display_ops_only(3)]
  when_current_ok [OF _ _ update_vga_only]

lemma vt_ok_resize: "vt_ok t v \<Longrightarrow> te_cols t' = te_cols t \<Longrightarrow> te_rows t' = te_rows t \<Longrightarrow> vt_ok t' v"
  by (simp add: vt_ok_def)

subsection \<open>Escape sequences on well-formed terminals\<close>

lemma esc_done_ok: "term_ok t \<Longrightarrow> term_ok (esc_done t)"
  by (simp add: esc_done_def)

lemma esc_done_size [simp]: "te_cols (esc_done t) = te_cols t" "te_rows (esc_done t) = te_rows t"
  by (simp_all add: esc_done_def)

lemma save_terminal_ok: "term_ok t \<Longrightarrow> term_ok (save_terminal t)"
  by (auto simp: term_ok_def save_terminal_def terminal_save_def cursor_in_def area_def)

lemma restore_terminal_ok: "term_ok t \<Longrightarrow> vt_ok t v \<Longrightarrow> vt_op_ok (restore_terminal t v)"
  unfolding restore_terminal_def terminal_restore_def
  by (rule when_current_ok [OF _ _ update_vga_only])
    (auto simp: term_ok_def cursor_in_def area_def vt_ok_def)

lemma save_cursor_ok: "term_ok t \<Longrightarrow> term_ok (save_cursor t)"
  by (auto simp: term_ok_def save_cursor_def cursor_in_def area_def)

lemma restore_cursor_ok: "term_ok t \<Longrightarrow> vt_ok t v \<Longrightarrow> vt_op_ok (restore_cursor t v)"
  unfolding restore_cursor_def
  by (rule when_current_ok [OF _ _ update_vga_only])
    (auto simp: term_ok_def cursor_in_def area_def vt_ok_def)

lemma terminal_defaults_ok:
  assumes "term_ok t" "vt_ok t v" "terminal_defaults t v = (t', v')"
  shows "term_ok t'" "vt_ok t' v'"
proof -
  have c: "fst (vga_get_cols d) = crtc_regs d 1 + 1" "snd (vga_get_cols d) = d\<lparr>crtc_index := 1\<rparr>"
    "crtc_regs (snd (vga_get_rows d)) = crtc_regs d" "crtc_regs (snd (vga_get_cursor_shape d)) = crtc_regs d"
    "fst (vga_get_rows (d\<lparr>crtc_index := i\<rparr>)) = fst (vga_get_rows d)" for d i
    by (simp_all add: vga_get_cols_def vga_get_rows_def vga_get_cursor_shape_def Let_def)
  have geo: "te_cols t' = te_cols t" "te_rows t' = te_rows t" "vt_curr v' = vt_curr v"
    "crtc_regs (vt_vga v') = crtc_regs (vt_vga v)"
    using assms(2,3) by (auto simp: terminal_defaults_def Let_def split_beta save_terminal_def vt_ok_def c)
  then show "vt_ok t' v'" using assms(2) by (simp add: vt_ok_def vga_get_cols_def vga_get_rows_def Let_def)
  note d = term_okD [OF assms(1)]
  show "term_ok t'"
  proof -
    have f: "te_fb t' = te_fb t" "te_state t' = S_NORM" "length (te_tabstops t') = MAX_TABSTOP"
      "te_csiparam t' = replicate MAX_CSIPARAM (-1)" "te_saved t' = terminal_save t'"
      "tx t' = 0" "ty t' = 0"
      using assms(3) by (auto simp: terminal_defaults_def Let_def split_beta save_terminal_def terminal_save_def)
    then show ?thesis
      using assms(1) d(9,10) unfolding term_ok_def
      by (simp add: geo terminal_save_def cursor_in_def area_def)
  qed
qed

lemma reset_terminal_ok:
  assumes "term_ok t" "vt_ok t v"
  shows "vt_op_ok (reset_terminal t v)"
proof -
  obtain t' v' where d: "terminal_defaults t v = (t', v')" by (cases "terminal_defaults t v")
  note ok = terminal_defaults_ok [OF assms d]
  obtain u where u: "erase t' 2 = Some u" "term_ok u" "te_cols u = te_cols t'" "te_rows u = te_rows t'"
    using erase_ok [OF ok(1), of 2] unfolding op_ok_def by blast
  then have "vt_op_ok (when_current update_vga_state u v')"
    by (intro when_current_oks(4) vt_ok_resize [OF ok(2)])
  then show ?thesis using d u(1) by (simp add: reset_terminal_def)
qed

definition esc_safe :: "terminal \<Rightarrow> u8 \<Rightarrow> bool" where
  "esc_safe t c \<longleftrightarrow> (c = 77 \<longrightarrow> ty t \<noteq> 0)"

lemma reverse_linefeed_ok:
  assumes ok: "term_ok t" and "ty t \<noteq> 0"
  shows "op_ok t (reverse_linefeed t)"
proof -
  have "unat (ty t - 1) = unat (ty t) - 1" using assms(2) by (rule unat_minus_one)
  then have "unat (ty t - 1) < unat (te_rows t)" using term_okD(8) [OF ok] by linarith
  then show ?thesis using ok by (simp add: reverse_linefeed_def Let_def op_ok_def)
qed

lemma esc_ok:
  assumes ok: "term_ok t" "vt_ok t v" and safe: "esc_safe t c"
  shows "vt_op_ok (esc t c v)"
proof (cases "c = 91")
  case True
  have "term_ok (t\<lparr>te_csiparam := map (\<lambda>_. -1) (te_csiparam t), te_paramidx := 0, te_state := S_CSI\<rparr>)"
    using ok(1) by (auto simp: term_ok_def cursor_in_def area_def term_consts)
  with True show ?thesis using ok(2) by (simp add: esc_def vt_op_okI vt_ok_def)
next
  case False
  let ?set = "\<lambda>x. do { ts \<leftarrow> arr_set (te_tabstops t) (unat (tx t)) x; Some (t\<lparr>te_tabstops := ts\<rparr>, v) }"
  note d = term_okD [OF ok(1)]
  have setx: "vt_op_ok (?set x)" for x
    using ok d(1,5,7) by (auto simp: term_consts vt_ok_def intro!: vt_op_okI term_ok_update)
  have upd: "vt_ok (t\<lparr>te_blink_on := b\<rparr>) v" "vt_ok (t\<lparr>te_cursor := (te_cursor t)\<lparr>cu_hidden := b\<rparr>\<rparr>) v" for b
    using ok(2) by (simp_all add: vt_ok_def)
  have "vt_ok (save_terminal t) v" using ok(2) by (simp add: vt_ok_def save_terminal_def)
  have fin: "vt_op_ok (r \<bind> (\<lambda>(t, v). Some (esc_done t, v)))" if "vt_op_ok r" for r
    by (rule vt_op_ok_bind [OF that]) (auto intro!: vt_op_okI esc_done_ok simp: vt_ok_def)
  show ?thesis
    unfolding esc_def if_not_P [OF False] using safe
    by (intro fin) (auto simp: esc_safe_def split del: if_split
      intro!: setx when_current_oks(1,2) upd vt_op_ok_lift line_feed_ok newline_ok reverse_linefeed_ok
        save_terminal_ok restore_terminal_ok reset_terminal_ok vt_op_okI \<open>vt_ok (save_terminal t) v\<close> ok
      split: if_split, simp_all add: ok)
qed

text \<open>
  The characters of a control sequence for which no \<open>int\<close> overflows: a digit that keeps
  the parameter in range, and movements down and right by less than \<open>2 ^ 31 - 4095\<close>.
\<close>

definition csi_safe :: "terminal \<Rightarrow> u8 \<Rightarrow> bool" where
  "csi_safe t c \<longleftrightarrow>
     (isdigit (cchar c) \<longrightarrow> max 0 (te_csiparam t ! te_paramidx t) * 10 + (cchar c - 48) < 2 ^ 31) \<and>
     (c = 66 \<or> c = 67 \<or> c = 69 \<longrightarrow> te_csiparam t ! 0 + 4095 < 2 ^ 31)"

lemma param_range:
  assumes "term_ok t" "i < 16"
  shows "-1 \<le> te_csiparam t ! i \<and> te_csiparam t ! i < 2 ^ 31"
  using assms nth_mem [of i "te_csiparam t"] by (auto simp: term_ok_def term_consts)

lemma set_param_ok:
  assumes "term_ok t" "-1 \<le> p" "p < 2 ^ 31"
  shows "term_ok (t\<lparr>te_csiparam := (te_csiparam t)[i := p]\<rparr>)"
proof (rule term_ok_update(11) [OF assms(1)])
  show "length ((te_csiparam t)[i := p]) = MAX_CSIPARAM"
    using term_okD(6) [OF assms(1)] by (simp add: term_consts)
  show "\<forall>x \<in> set ((te_csiparam t)[i := p]). -1 \<le> x \<and> x < 2 ^ 31"
    using assms set_update_subset_insert [of "te_csiparam t" i p] unfolding term_ok_def by blast
qed

lemma param_minimum_eq:
  "i < length (te_csiparam t) \<Longrightarrow>
     param_minimum i m t = Some (t\<lparr>te_csiparam := (te_csiparam t)[i := max m (te_csiparam t ! i)]\<rparr>)"
  by (auto simp: param_minimum_def max_def)

lemma param_maximum_eq:
  "i < length (te_csiparam t) \<Longrightarrow>
     param_maximum i m t = Some (t\<lparr>te_csiparam := (te_csiparam t)[i := min m (te_csiparam t ! i)]\<rparr>)"
  by (auto simp: param_maximum_def min_def)

text \<open>The terminal that a sequence with one parameter hands to its operation.\<close>

lemma csi_param1_eq:
  assumes ok: "term_ok t"
  shows "csi_param1 m f t = f (t\<lparr>te_csiparam := (te_csiparam t)[0 := max m (te_csiparam t ! 0)]\<rparr>)
    (max m (te_csiparam t ! 0))"
  using term_okD(6) [OF ok] by (simp add: csi_param1_def param_minimum_eq)

lemma csi_param1_ok:
  assumes ok: "term_ok t" and m: "0 \<le> m" "m < 2 ^ 31"
    and f: "\<And>u. term_ok u \<Longrightarrow> te_csiparam u = (te_csiparam t)[0 := max m (te_csiparam t ! 0)] \<Longrightarrow>
      op_ok u (f u (max m (te_csiparam t ! 0)))"
  shows "op_ok t (csi_param1 m f t)"
proof -
  let ?u = "t\<lparr>te_csiparam := (te_csiparam t)[0 := max m (te_csiparam t ! 0)]\<rparr>"
  have "term_ok ?u" using param_range [OF ok, of 0] m by (intro set_param_ok [OF ok]) auto
  then have "op_ok ?u (f ?u (max m (te_csiparam t ! 0)))" by (rule f) simp
  then show ?thesis unfolding csi_param1_eq [OF ok] by (rule op_ok_resize) simp_all
qed

lemma of_int_pred_u12:
  assumes "1 \<le> k"
  shows "(of_int (k - 1) :: u12) = of_nat (nat k - 1)"
proof -
  have "nat (k - 1) = nat k - 1" using assms by simp
  moreover have "(of_int (k - 1) :: u12) = of_nat (nat (k - 1))"
    by (rule of_int_nat_u12) (use assms in simp)
  ultimately show ?thesis by (simp only:)
qed

lemma csi_cup_eq:
  assumes ok: "term_ok t"
  shows "\<exists>ps. csi_cup t = Some (set_x (of_nat (nat (min (int (unat (te_cols t))) (max 1 (te_csiparam t ! 1))) - 1))
     (set_y (of_nat (nat (min (int (unat (te_rows t))) (max 1 (te_csiparam t ! 0))) - 1)) (t\<lparr>te_csiparam := ps\<rparr>))) \<and>
     length ps = MAX_CSIPARAM \<and> (\<forall>p \<in> set ps. -1 \<le> p \<and> p < 2 ^ 31)"
proof -
  let ?r = "int (unat (te_rows t))" and ?c = "int (unat (te_cols t))"
  let ?p = "max 1 (te_csiparam t ! 0)" and ?q = "max 1 (te_csiparam t ! 1)"
  let ?ps = "(te_csiparam t)[0 := ?p, 1 := ?q, 0 := min ?r ?p, 1 := min ?c ?q]"
  note d = term_okD [OF ok]
  have rng: "-1 \<le> te_csiparam t ! i" "te_csiparam t ! i < 2 ^ 31" if "i < 16" for i
    using param_range [OF ok that] by auto
  have "csi_cup t = Some (set_x (of_int (min ?c ?q - 1)) (set_y (of_int (min ?r ?p - 1)) (t\<lparr>te_csiparam := ?ps\<rparr>)))"
    using d(6) by (simp add: csi_cup_def param_minimum_eq param_maximum_eq)
  moreover have "(of_int (min ?c ?q - 1) :: u12) = of_nat (nat (min ?c ?q) - 1)"
    "(of_int (min ?r ?p - 1) :: u12) = of_nat (nat (min ?r ?p) - 1)"
    using d(9,10) by (intro of_int_pred_u12; simp)+
  moreover have "\<forall>x \<in> set ?ps. -1 \<le> x \<and> x < 2 ^ 31"
  proof -
    have "term_ok (t\<lparr>te_csiparam := ?ps\<rparr>)"
      using set_param_ok [OF set_param_ok [OF set_param_ok [OF set_param_ok [OF ok, of ?p 0], of ?q 1],
          of "min ?r ?p" 0], of "min ?c ?q" 1] rng [of 0] rng [of 1] d(1,3) by simp
    then show ?thesis by (simp add: term_ok_def)
  qed
  ultimately show ?thesis using d(6) by (intro exI [of _ ?ps]) (simp add: term_consts)
qed

lemma csiparam_size:
  "te_cols (t\<lparr>te_csiparam := ps\<rparr>) = te_cols t" "te_rows (t\<lparr>te_csiparam := ps\<rparr>) = te_rows t"
  by simp_all

lemma set_xy_nat_ok:
  "term_ok t \<Longrightarrow> k < unat (te_cols t) \<Longrightarrow> term_ok (set_x (of_nat k) t)"
  "term_ok t \<Longrightarrow> k < unat (te_rows t) \<Longrightarrow> term_ok (set_y (of_nat k) t)"
  using term_okD(1,3) [of t] unat_of_nat_u12 [of k] by auto

lemma clamp_lt: "0 < k \<Longrightarrow> nat (min (int k) (max 1 p)) - 1 < k"
  by auto

lemma csi_cup_ok: "term_ok t \<Longrightarrow> op_ok t (csi_cup t)"
proof -
  assume ok: "term_ok t"
  note d = term_okD [OF ok]
  obtain ps where ps: "csi_cup t =
      Some (set_x (of_nat (nat (min (int (unat (te_cols t))) (max 1 (te_csiparam t ! 1))) - 1))
        (set_y (of_nat (nat (min (int (unat (te_rows t))) (max 1 (te_csiparam t ! 0))) - 1)) (t\<lparr>te_csiparam := ps\<rparr>)))"
    "length ps = MAX_CSIPARAM" "\<forall>p \<in> set ps. -1 \<le> p \<and> p < 2 ^ 31"
    using csi_cup_eq [OF ok] by blast
  have "term_ok (t\<lparr>te_csiparam := ps\<rparr>)" using ok ps(2,3) by (rule term_ok_update(11))
  then show ?thesis
    unfolding ps(1) by (intro op_okI set_xy_nat_ok) (simp_all only: size_simps csiparam_size clamp_lt d(9,10))
qed

lemma csi_cha_ok: "term_ok t \<Longrightarrow> op_ok t (csi_cha t)"
proof -
  assume ok: "term_ok t"
  note d = term_okD [OF ok]
  let ?p = "max 1 (te_csiparam t ! 0)" and ?c = "int (unat (te_cols t))"
  let ?ps = "(te_csiparam t)[0 := ?p, 0 := min ?c ?p]"
  have "csi_cha t = Some (set_x (of_int (min ?c ?p - 1)) (t\<lparr>te_csiparam := ?ps\<rparr>))"
    using d(6) by (simp add: csi_cha_def param_minimum_eq param_maximum_eq)
  also have "(of_int (min ?c ?p - 1) :: u12) = of_nat (nat (min ?c ?p) - 1)"
    using d(9) by (intro of_int_pred_u12) simp
  finally have eq: "csi_cha t = Some (set_x (of_nat (nat (min ?c ?p) - 1)) (t\<lparr>te_csiparam := ?ps\<rparr>))" .
  have "term_ok (t\<lparr>te_csiparam := ?ps\<rparr>)"
    using set_param_ok [OF set_param_ok [OF ok, of ?p 0], of "min ?c ?p" 0] param_range [OF ok, of 0] d(1) by simp
  then show ?thesis
    unfolding eq by (intro op_okI set_xy_nat_ok) (simp_all only: size_simps csiparam_size clamp_lt d(9))
qed

lemma csi_m_loop_ok: "term_ok t \<Longrightarrow> i + n \<le> 16 \<Longrightarrow> op_ok t (csi_m_loop i n t)"
proof (induction n arbitrary: i t)
  case 0
  then show ?case by (simp add: op_okI)
next
  case (Suc n)
  let ?p = "max 0 (te_csiparam t ! i)"
  let ?t = "t\<lparr>te_csiparam := (te_csiparam t)[i := ?p]\<rparr>"
  have "term_ok ?t" using param_range [OF Suc.prems(1), of i] Suc.prems by (intro set_param_ok) auto
  then have "term_ok (csi_m ?t ?p)" unfolding csi_m_def Let_def by (rule term_ok_update(4))
  then have "op_ok (csi_m ?t ?p) (csi_m_loop (Suc i) n (csi_m ?t ?p))"
    using Suc.prems(2) by (intro Suc.IH) simp_all
  then have "op_ok t (csi_m_loop (Suc i) n (csi_m ?t ?p))"
    by (rule op_ok_resize) (simp_all add: csi_m_def Let_def)
  then show ?case
    using Suc.prems term_okD(6) [OF Suc.prems(1)] by (simp add: param_minimum_eq)
qed

lemma csi_digit_ok:
  assumes ok: "term_ok t" and "te_state t = S_CSI" "isdigit (cchar c)" "csi_safe t c"
  shows "op_ok t (csi_digit t c)"
proof -
  let ?i = "te_paramidx t"
  have i: "?i < 16" using assms(1,2) by (simp add: term_ok_def term_consts)
  note p = param_range [OF ok i]
  have dig: "0 \<le> cchar c - 48" "cchar c - 48 \<le> 9" using assms(3) by (auto simp: isdigit_def)
  let ?p = "if te_csiparam t ! ?i = -1 then 0 else te_csiparam t ! ?i"
  have m: "?p = max 0 (te_csiparam t ! ?i)" using p by auto
  have b: "?p * 10 + (cchar c - 48) < 2 ^ 31" "0 \<le> ?p"
    using assms(3,4) unfolding m csi_safe_def by auto
  then have "int32 (?p * 10) = Some (?p * 10)" "int32 (?p * 10 + (cchar c - 48)) = Some (?p * 10 + (cchar c - 48))"
    using dig by (intro int32_Some; linarith)+
  then have "csi_digit t c = Some (t\<lparr>te_csiparam := (te_csiparam t)[?i := ?p * 10 + (cchar c - 48)]\<rparr>)"
    using i term_okD(6) [OF ok] by (simp add: csi_digit_def Let_def)
  moreover have "term_ok (t\<lparr>te_csiparam := (te_csiparam t)[?i := ?p * 10 + (cchar c - 48)]\<rparr>)"
    using b dig by (intro set_param_ok [OF ok]) linarith+
  ultimately show ?thesis by (auto intro: op_okI)
qed

lemma csi_final_ok:
  assumes ok: "term_ok t" "vt_ok t v" and st: "te_state t = S_CSI" and safe: "csi_safe t c"
  shows "vt_op_ok (csi_final t c v)"
proof -
  have p: "max 1 (te_csiparam t ! 0) < 2 ^ 31" "0 \<le> max 1 (te_csiparam t ! 0)"
    using param_range [OF ok(1), of 0] by auto
  have i: "te_paramidx t + 1 \<le> 16" using ok(1) st by (simp add: term_ok_def term_consts)
  have sx: "op_ok u r" if "op_ok (set_x 0 u) r" for u r using that by (simp add: op_ok_def)
  have x0: "term_ok u \<Longrightarrow> term_ok (set_x 0 u)" for u using term_okD(9) [of u] by simp
  have up: "op_ok t (csi_param1 1 cursor_up t)" "op_ok t (csi_param1 1 cursor_left t)"
    "op_ok t (csi_param1 1 (\<lambda>t. cursor_up (set_x 0 t)) t)"
    using p by (intro csi_param1_ok ok cursor_ops_ok sx x0; simp)+
  have down: "op_ok t (csi_param1 1 cursor_down t)" "op_ok t (csi_param1 1 cursor_right t)"
    "op_ok t (csi_param1 1 (\<lambda>t. cursor_down (set_x 0 t)) t)" if "c = 66 \<or> c = 67 \<or> c = 69"
  proof -
    have q: "max 1 (te_csiparam t ! 0) + 4095 < 2 ^ 31" using safe that by (auto simp: csi_safe_def)
    show "op_ok t (csi_param1 1 cursor_down t)" "op_ok t (csi_param1 1 cursor_right t)"
      "op_ok t (csi_param1 1 (\<lambda>t. cursor_down (set_x 0 t)) t)"
      using p q by (intro csi_param1_ok ok cursor_ops_ok sx x0; simp)+
  qed
  have scr: "op_ok t (csi_param1 1 scroll t)" "op_ok t (csi_param1 1 (\<lambda>t n. scroll t (- n)) t)"
    "op_ok t (csi_param1 0 erase t)" "op_ok t (csi_param1 0 erase_line t)"
    by (intro csi_param1_ok ok scroll_ok erase_ok erase_line_ok; simp)+
  have "vt_ok (save_cursor t) v" using ok(2) by (simp add: vt_ok_def save_cursor_def)
  then show ?thesis
    unfolding csi_final_def
    using up down scr csi_cup_ok [OF ok(1)] csi_cha_ok [OF ok(1)] csi_m_loop_ok [OF ok(1), of 0 "te_paramidx t + 1"] i
      save_cursor_ok [OF ok(1)] restore_cursor_ok [OF ok] ok
    by (simp add: vt_op_ok_map vt_op_okI) (blast intro: vt_op_ok_map)
qed

lemma csi_ok:
  assumes ok: "term_ok t" "vt_ok t v" and st: "te_state t = S_CSI" and safe: "csi_safe t c"
  shows "vt_op_ok (csi t c v)"
proof -
  have fin: "vt_op_ok (csi_final t c v \<bind> (\<lambda>(t, v). Some (esc_done t, v)))"
    by (rule vt_op_ok_bind [OF csi_final_ok [OF assms]]) (auto intro!: vt_op_okI esc_done_ok simp: vt_ok_def)
  let ?t = "t\<lparr>te_paramidx := te_paramidx t + 1\<rparr>"
  have "term_ok (esc_done ?t)" "te_paramidx t + 1 < MAX_CSIPARAM \<Longrightarrow> term_ok ?t"
    using ok(1) by (auto simp: term_ok_def esc_done_def cursor_in_def area_def)
  then have "vt_op_ok (Some (if MAX_CSIPARAM \<le> te_paramidx ?t then esc_done ?t else ?t, v))"
    using ok(2) by (auto intro!: vt_op_okI simp: vt_ok_def)
  then show ?thesis
    using fin vt_op_ok_lift [OF csi_digit_ok [OF ok(1) st _ safe] ok(2)]
    unfolding csi_def Let_def by simp
qed

subsection \<open>Writing a character\<close>

lemma set_cell_eq:
  assumes "unat pos < length (te_fb t)"
  shows "set_fb_char t pos c = Some (t\<lparr>te_fb := (te_fb t)[unat pos := (te_fb t ! unat pos)\<lparr>ce_ch := c\<rparr>]\<rparr>)"
    "set_fb_attr t pos a = Some (t\<lparr>te_fb := (te_fb t)[unat pos := (te_fb t ! unat pos)\<lparr>ce_attr := cell_attr a\<rparr>]\<rparr>)"
  using assms by (simp_all add: set_fb_char_def set_fb_attr_def)

definition fix_bright :: "terminal \<Rightarrow> terminal" where
  "fix_bright t = (if ca_bright (te_attr t) \<and> ca_faint (te_attr t)
     then t\<lparr>te_attr := (te_attr t)\<lparr>ca_bright := False\<rparr>\<rparr> else t)"

text \<open>Where a graphic character goes: after the deferred wrap, if there is one.\<close>

definition after_wrap :: "terminal \<Rightarrow> terminal option" where
  "after_wrap t = (if te_need_wrap t then line_feed (carriage_return t) else Some t)"

text \<open>The terminal after \<open>c\<close> was put at the cursor, at column \<open>x\<close> of a line that is not to be wrapped.\<close>

definition put_at :: "terminal \<Rightarrow> u8 \<Rightarrow> terminal" where
  "put_at t c = (let t' = (if unat (tx t) + 1 < unat (te_cols t) then set_x (tx t + 1) t
      else t\<lparr>te_need_wrap := True\<rparr>);
      t' = fix_bright t'
    in t'\<lparr>te_fb := (te_fb t)[unat (xy2pos t (tx t) (ty t)) := \<lparr>ce_ch = c, ce_attr = cell_attr (te_attr t')\<rparr>]\<rparr>)"

lemma put_graphic_eq:
  assumes w: "after_wrap t = Some u" and ok: "term_ok u"
  shows "put_graphic t c v =
    (if unat (tx u) + 1 < unat (te_cols u) then when_current set_cursor_pos (put_at u c) v
     else Some (put_at u c, v))"
proof -
  note d = term_okD [OF ok]
  let ?pos = "xy2pos u (tx u) (ty u)"
  have pos: "unat ?pos < length (te_fb u)" using xy2pos_unat(2) [OF ok d(7,8)] d(2,4) by simp
  have x: "unat (tx u + 1) = unat (tx u) + 1" using d(1,7) by (intro unat_inc_u12) linarith
  have undo: "set_x (tx u) (set_x (tx u + 1) u) = u" by (simp add: cursor_upd)
  have put: "do { t \<leftarrow> set_fb_char u' ?pos c; let t = fix_bright t; t \<leftarrow> set_fb_attr t ?pos (te_attr t); k t } =
      k ((fix_bright u')\<lparr>te_fb := (te_fb u)[unat ?pos := \<lparr>ce_ch = c, ce_attr = cell_attr (te_attr (fix_bright u'))\<rparr>]\<rparr>)"
    if "te_fb u' = te_fb u" for u' and k :: "terminal \<Rightarrow> (terminal \<times> vt) option"
    using pos that by (simp add: set_cell_eq fix_bright_def vga_cell_update Let_def)
  show ?thesis
  proof (cases "unat (tx u) + 1 < unat (te_cols u)")
    case True
    then show ?thesis
      using w put [of "set_x (tx u + 1) u" "\<lambda>t. when_current set_cursor_pos t v"] x
      by (simp add: put_graphic_def after_wrap_def fix_bright_def [symmetric] put_at_def Let_def)
  next
    case False
    then show ?thesis
      using w put [of "u\<lparr>te_need_wrap := True\<rparr>" "\<lambda>t. Some (t, v)"] x undo
      by (simp add: put_graphic_def after_wrap_def fix_bright_def [symmetric] put_at_def Let_def)
  qed
qed

lemma fix_bright_size [simp]: "te_cols (fix_bright t) = te_cols t" "te_rows (fix_bright t) = te_rows t"
  by (simp_all add: fix_bright_def)

lemma put_at_ok:
  assumes ok: "term_ok t"
  shows "term_ok (put_at t c)" "te_cols (put_at t c) = te_cols t" "te_rows (put_at t c) = te_rows t"
proof -
  note d = term_okD [OF ok]
  have "unat (tx t + 1) = unat (tx t) + 1" using d(1,7) by (intro unat_inc_u12) linarith
  then have "term_ok (if unat (tx t) + 1 < unat (te_cols t) then set_x (tx t + 1) t else t\<lparr>te_need_wrap := True\<rparr>)"
    using ok by simp
  moreover have "term_ok u \<Longrightarrow> term_ok (fix_bright u)" for u by (simp add: fix_bright_def)
  ultimately show "term_ok (put_at t c)"
    unfolding put_at_def Let_def using d(4) by (intro term_ok_update(9)) (simp_all add: term_consts)
qed (simp_all add: put_at_def Let_def)

lemma after_wrap_ok: "term_ok t \<Longrightarrow> op_ok t (after_wrap t)"
  by (auto simp: after_wrap_def newline_ok intro: op_okI)

lemma put_graphic_ok:
  assumes "term_ok t" "vt_ok t v"
  shows "vt_op_ok (put_graphic t c v)"
proof -
  obtain u where u: "after_wrap t = Some u" "term_ok u" "te_cols u = te_cols t" "te_rows u = te_rows t"
    using after_wrap_ok [OF assms(1)] unfolding op_ok_def by blast
  have "vt_ok (put_at u c) v" using assms(2) put_at_ok(2,3) [OF u(2)] u(3,4) by (simp add: vt_ok_def)
  then show ?thesis
    unfolding put_graphic_eq [OF u(1,2)]
    using put_at_ok(1) [OF u(2)] when_current_oks(3) by (auto intro: vt_op_okI)
qed

end
