(* ===== verification/Terminal_Props.thy ===== *)
theory Terminal_Props
  imports Terminal
begin

text \<open>
  Properties of the virtual terminals: safety of \<open>terminal_putchar\<close> (every character of
  a stream leaves a well-formed terminal, with the cursor on the screen and every access inside of
  its array, the exceptions being named), the effect of printing, scrolling, erasing, tabbing and
  cursor positioning on the cells and the cursor, and the cases in which the source leaves the
  frame buffer or does not return.
\<close>

subsection \<open>Safety\<close>

definition safe_char :: "terminal \<Rightarrow> u8 \<Rightarrow> bool" where
  "safe_char t c \<longleftrightarrow> (c = 9 \<longrightarrow> tab_safe t) \<and> (te_state t = S_ESC \<longrightarrow> esc_safe t c) \<and>
     (te_state t = S_CSI \<longrightarrow> csi_safe t c)"

lemma write_vga_ok: "vt_op_ok r \<Longrightarrow> vt_op_ok (write_vga r)"
  unfolding write_vga_def by (rule vt_op_ok_bind) (auto intro: when_current_oks(3))

lemma putchar_body_ok:
  assumes ok: "term_ok t" "vt_ok t v" and safe: "safe_char t c"
  shows "vt_op_ok (putchar_body t c v)"
proof -
  have s: "vt_ok (t\<lparr>te_state := S_NORM\<rparr>) v" "vt_ok (t\<lparr>te_state := S_ESC\<rparr>) v" "vt_ok (carriage_return t) v"
    "vt_ok t (v\<lparr>vt_beeps := b\<rparr>)" for b
    using ok(2) by (simp_all add: vt_ok_def carriage_return_def)
  have "c = 9 \<Longrightarrow> tab_safe t" "te_state t = S_ESC \<Longrightarrow> esc_safe t c" "te_state t = S_CSI \<Longrightarrow> csi_safe t c"
    using safe by (auto simp: safe_char_def)
  note step = esc_ok [OF ok this(2)] csi_ok [OF ok _ this(3)] vt_op_ok_lift [OF tab_ok [OF ok(1) this(1)] ok(2)]
    vt_op_ok_lift [OF line_feed_ok [OF ok(1)] ok(2)] vt_op_ok_lift [OF backspace_ok [OF ok(1)] ok(2)]
    put_graphic_ok [OF ok] vt_op_okI [OF ok(1) s(4)] vt_op_okI [OF carriage_return_ok [OF ok(1)] s(3)]
  show ?thesis
    unfolding putchar_body_def
    using s(1,2) ok by (simp add: write_vga_ok step vt_op_okI)
qed

lemma vt_ok_printing [simp]: "vt_ok (t\<lparr>te_printing := b\<rparr>) v = vt_ok t v"
  by (simp add: vt_ok_def)

lemma safe_char_printing [simp]: "safe_char (t\<lparr>te_printing := b\<rparr>) c = safe_char t c"
  by (simp add: safe_char_def tab_safe_def esc_safe_def csi_safe_def)

text \<open>A terminal of 80 by 25 cells as \<open>terminal_defaults\<close> sets it up, and its display.\<close>

definition example_vga :: vga where
  "example_vga = \<lparr>crtc_index = 0,
     crtc_regs = (\<lambda>_. 0)(0x01 := 79, 0x07 := 0x1F, 0x12 := 0x8F, 0x09 := 0x4F, 0x0A := 0x0D, 0x0B := 0x0E),
     grfx_index = 0, grfx_regs = (\<lambda>_. 0), seqr_index = 0, seqr_regs = (\<lambda>_. 0),
     attr_index = 0, attr_regs = (\<lambda>_. 0), attr_data_next = False\<rparr>"

definition example_vt :: vt where
  "example_vt = \<lparr>vt_vga = example_vga, vt_curr = 1, vt_beeps = []\<rparr>"

definition example_term :: terminal where
  "example_term = (let c = \<lparr>cu_shape = 0, cu_x = 0, cu_y = 0, cu_hidden = False\<rparr>;
     s = \<lparr>sv_blink_on = False, sv_tabstops = [], sv_attr = default_attr, sv_cursor = c\<rparr>
   in fst (terminal_defaults \<lparr>te_number = 1, te_state = S_NORM, te_initialized = True, te_printing = False,
     te_cols = 0, te_rows = 0, te_fb = replicate FB_CELLS \<lparr>ce_ch = 0, ce_attr = cell_attr default_attr\<rparr>,
     te_tabstops = [], te_csiparam = [], te_paramidx = 0, te_blink_on = False, te_need_wrap = False,
     te_attr = default_attr, te_cursor = c, te_def_attr = default_attr, te_def_cursor = c, te_saved = s\<rparr>
     example_vt))"

lemma example_geometry:
  "fst (vga_get_cols example_vga) = 80" "fst (vga_get_rows example_vga) = 25"
  by (simp_all add: vga_get_cols_def vga_get_rows_def example_vga_def Let_def)

lemma example_fields:
  "te_cols example_term = 80" "te_rows example_term = 25" "te_number example_term = 1"
  "te_state example_term = S_NORM" "\<not> te_printing example_term" "\<not> te_need_wrap example_term"
  "te_fb example_term = replicate FB_CELLS \<lparr>ce_ch = 0, ce_attr = cell_attr default_attr\<rparr>"
  "length (te_tabstops example_term) = MAX_TABSTOP" "te_csiparam example_term = replicate MAX_CSIPARAM (-1)"
  "tx example_term = 0" "ty example_term = 0" "te_attr example_term = default_attr"
  "te_saved example_term = terminal_save example_term"
  "te_tabstops example_term = map (\<lambda>i. if (i + 1) mod TABSTOP_WIDTH = 0 then 1 else 0) [0..<MAX_TABSTOP]"
proof -
  have c: "fst (vga_get_cols d) = crtc_regs d 1 + 1" "crtc_regs (snd (vga_get_cols d)) = crtc_regs d"
    "fst (vga_get_rows (snd (vga_get_cols d))) = fst (vga_get_rows d)" for d
    by (simp_all add: vga_get_cols_def vga_get_rows_def Let_def)
  note defs = example_term_def example_vt_def terminal_defaults_def save_terminal_def terminal_save_def
  show "te_cols example_term = 80" "te_rows example_term = 25" "te_number example_term = 1"
    "te_state example_term = S_NORM" "\<not> te_printing example_term" "\<not> te_need_wrap example_term"
    "te_fb example_term = replicate FB_CELLS \<lparr>ce_ch = 0, ce_attr = cell_attr default_attr\<rparr>"
    "length (te_tabstops example_term) = MAX_TABSTOP" "te_csiparam example_term = replicate MAX_CSIPARAM (-1)"
    "tx example_term = 0" "ty example_term = 0" "te_attr example_term = default_attr"
    "te_saved example_term = terminal_save example_term"
    "te_tabstops example_term = map (\<lambda>i. if (i + 1) mod TABSTOP_WIDTH = 0 then 1 else 0) [0..<MAX_TABSTOP]"
    by (simp_all add: defs Let_def split_beta c(3) example_geometry)
qed

lemma example_ok: "term_ok example_term" "vt_ok example_term example_vt"
  by (simp_all add: term_ok_def vt_ok_def example_fields cursor_in_def area_def term_consts terminal_save_def
      example_vt_def example_geometry)

text \<open>
  C4: Writing a character to a well-formed terminal, in any of its control states, succeeds and
  leaves a well-formed terminal (cursor on the screen, frame buffer, tab stops and parameters of
  their sizes, control state in range), and never reads or writes outside of an array. The
  characters excluded by \<open>safe_char\<close> are a tab with no tab stop to the right on an
  80-column screen, a reverse line feed on the first row, and parameters that overflow an
  \<open>int\<close>.
\<close>

theorem terminal_putchar_safe:
  assumes "term_ok t" and "vt_ok t v" and "\<not> te_printing t" and "safe_char t c"
  shows "\<exists>t' v'. terminal_putchar t c v = Some (1, t', v') \<and> term_ok t' \<and> vt_ok t' v' \<and> \<not> te_printing t'"
proof -
  have "vt_op_ok (putchar_body (t\<lparr>te_printing := True\<rparr>) c v)"
    using assms by (intro putchar_body_ok) simp_all
  then show ?thesis using assms(3) by (auto simp: vt_op_ok_def terminal_putchar_def)
qed

theorem terminal_putchar_safe_witness:
  "\<exists>t' v'. terminal_putchar example_term 65 example_vt = Some (1, t', v') \<and> term_ok t' \<and> vt_ok t' v'"
proof -
  have "safe_char example_term 65" by (simp add: safe_char_def example_fields)
  then show ?thesis using terminal_putchar_safe [OF example_ok] example_fields(5) by blast
qed

subsection \<open>Printing\<close>

lemma printing_simps [simp]:
  "after_wrap (t\<lparr>te_printing := b\<rparr>) = map_option (te_printing_update (\<lambda>_. b)) (after_wrap t)"
  if "term_ok t" for t
proof -
  have s: "scrolled k (u\<lparr>te_printing := b\<rparr>) = scrolled k u" for k u
    by (simp add: scrolled_def area_def blank_def)
  have c: "carriage_return (t\<lparr>te_printing := b\<rparr>) = (carriage_return t)\<lparr>te_printing := b\<rparr>"
    by (simp add: carriage_return_def cursor_upd)
  show ?thesis
    using carriage_return_ok [OF that] by (simp add: after_wrap_def c line_feed_eq s cursor_upd)
qed

lemma when_current_eq:
  "vt_ok t v \<Longrightarrow> when_current f t v = Some (t, if te_number t = vt_curr v then f t v else v)"
  by (simp add: when_current_def is_current_def current_terminal_def vt_ok_def)

lemma xy2pos_printing [simp]: "xy2pos (t\<lparr>te_printing := b\<rparr>) = xy2pos t"
  by (simp add: xy2pos_def fun_eq_iff)

lemma put_at_printing [simp]: "put_at (t\<lparr>te_printing := b\<rparr>) c = (put_at t c)\<lparr>te_printing := b\<rparr>"
  by (simp add: put_at_def fix_bright_def cursor_upd Let_def)

lemma putchar_graphic:
  assumes ok: "term_ok t" "vt_ok t v" and p: "\<not> te_printing t" and st: "te_state t = S_NORM"
    and c: "\<not> iscntrl (cchar c)" and u: "after_wrap t = Some u" "term_ok u" "te_cols u = te_cols t" "te_rows u = te_rows t"
  shows "\<exists>v'. terminal_putchar t c v = Some (1, (put_at u c)\<lparr>te_printing := False\<rparr>, v') \<and>
    vt_ok (put_at u c) v'"
proof -
  have "\<not> iscntrl (cchar c) \<Longrightarrow> c \<notin> {7, 8, 9, 10, 11, 12, 13, 24, 27}"
    by (auto simp: iscntrl_def cchar_def)
  with c st have body: "putchar_body (t\<lparr>te_printing := True\<rparr>) c v = put_graphic (t\<lparr>te_printing := True\<rparr>) c v"
    by (simp add: putchar_body_def)
  let ?w = "(put_at u c)\<lparr>te_printing := True\<rparr>"
  have vw: "vt_ok ?w v" using ok(2) put_at_ok(2,3) [OF u(2)] u(3,4) by (simp add: vt_ok_def)
  have "put_graphic (t\<lparr>te_printing := True\<rparr>) c v =
      (if unat (tx u) + 1 < unat (te_cols u) then when_current set_cursor_pos ?w v else Some (?w, v))"
    using put_graphic_eq [of "t\<lparr>te_printing := True\<rparr>" "u\<lparr>te_printing := True\<rparr>" c v] u(1,2) ok(1) by simp
  then obtain v' where v': "put_graphic (t\<lparr>te_printing := True\<rparr>) c v = Some (?w, v')" "vt_ok ?w v'"
    using vw when_current_eq [OF vw] cursor_only_ok [OF vw display_ops_only(3)] by (auto split: if_splits)
  then show ?thesis using p body by (simp add: terminal_putchar_def)
qed

text \<open>
  A graphic character written in the normal control state goes to the cell under the cursor
  with the current attributes, and no other cell changes; the cursor moves one column to the
  right, or stays in the last column with the wrap deferred. With a wrap deferred, the character
  goes to the first column of the next row instead, and the screen scrolls by one row when there
  is none.
\<close>

theorem terminal_graphic_char:
  assumes "term_ok t" and "vt_ok t v" and "\<not> te_printing t" and "te_state t = S_NORM"
    and "\<not> iscntrl (cchar c)"
  shows "\<exists>t' v' x y fb. terminal_putchar t c v = Some (1, t', v') \<and>
    (\<not> te_need_wrap t \<longrightarrow> x = unat (tx t) \<and> y = unat (ty t) \<and> fb = te_fb t) \<and>
    (te_need_wrap t \<and> unat (ty t) + 1 < unat (te_rows t) \<longrightarrow>
       x = 0 \<and> y = unat (ty t) + 1 \<and> fb = te_fb t) \<and>
    (te_need_wrap t \<and> unat (ty t) + 1 = unat (te_rows t) \<longrightarrow>
       x = 0 \<and> y = unat (ty t) \<and> fb = scrolled 1 t) \<and>
    te_fb t' = fb[y * unat (te_cols t) + x := \<lparr>ce_ch = c, ce_attr = cell_attr (te_attr t')\<rparr>] \<and>
    unat (ty t') = y \<and> te_state t' = S_NORM \<and>
    (if x + 1 < unat (te_cols t) then unat (tx t') = x + 1 \<and> \<not> te_need_wrap t'
     else unat (tx t') = x \<and> te_need_wrap t')"
proof -
  obtain u where u: "after_wrap t = Some u" "term_ok u" "te_cols u = te_cols t" "te_rows u = te_rows t"
    using after_wrap_ok [OF assms(1)] unfolding op_ok_def by blast
  obtain v' where v': "terminal_putchar t c v = Some (1, (put_at u c)\<lparr>te_printing := False\<rparr>, v')"
    using putchar_graphic [OF assms u] by blast
  note d = term_okD [OF u(2)] and dt = term_okD [OF assms(1)]
  have x: "unat (tx u + 1) = unat (tx u) + 1" using d(1,7) by (intro unat_inc_u12) linarith
  have y: "unat (ty t + 1) = unat (ty t) + 1" using dt(3,8) by (intro unat_inc_u12) linarith
  have cr: "carriage_return t = (set_x 0 t)\<lparr>te_need_wrap := False\<rparr>" by (simp add: carriage_return_def)
  have scr: "scrolled (Suc 0) ((set_x 0 t)\<lparr>te_need_wrap := False\<rparr>) = scrolled (Suc 0) t"
    by (simp add: scrolled_def area_def blank_def cursor_upd)
  have uu: "u = (if te_need_wrap t then (if unat (ty t) + 1 < unat (te_rows t) then set_y (ty t + 1) (carriage_return t)
      else (carriage_return t)\<lparr>te_fb := scrolled 1 t\<rparr>)\<lparr>te_need_wrap := False\<rparr> else t)"
    using u(1) carriage_return_ok [OF assms(1)]
    by (auto simp: after_wrap_def line_feed_eq cr scr split: if_splits)
  have nw: "\<not> te_need_wrap u" by (auto simp: uu)
  have st: "te_state u = S_NORM" using assms(4) by (auto simp: uu carriage_return_def cursor_upd)
  have pos: "unat (xy2pos u (tx u) (ty u)) = unat (ty u) * unat (te_cols t) + unat (tx u)"
    using xy2pos_unat(1) [OF u(2) d(7,8)] u(3) by simp
  let ?t = "(put_at u c)\<lparr>te_printing := False\<rparr>"
  have "te_fb ?t = (te_fb u)[unat (ty u) * unat (te_cols t) + unat (tx u) := \<lparr>ce_ch = c, ce_attr = cell_attr (te_attr ?t)\<rparr>]"
    "unat (ty ?t) = unat (ty u)" "te_state ?t = S_NORM"
    "if unat (tx u) + 1 < unat (te_cols t) then unat (tx ?t) = unat (tx u) + 1 \<and> \<not> te_need_wrap ?t
     else unat (tx ?t) = unat (tx u) \<and> te_need_wrap ?t"
    using x nw st u(3) by (simp_all add: put_at_def Let_def fix_bright_def pos) (simp add: cursor_upd)
  moreover have "\<not> te_need_wrap t \<longrightarrow> unat (tx u) = unat (tx t) \<and> unat (ty u) = unat (ty t) \<and> te_fb u = te_fb t"
    "te_need_wrap t \<and> unat (ty t) + 1 < unat (te_rows t) \<longrightarrow>
       unat (tx u) = 0 \<and> unat (ty u) = unat (ty t) + 1 \<and> te_fb u = te_fb t"
    "te_need_wrap t \<and> unat (ty t) + 1 = unat (te_rows t) \<longrightarrow>
       unat (tx u) = 0 \<and> unat (ty u) = unat (ty t) \<and> te_fb u = scrolled 1 t"
    using y by (simp_all add: uu cr)
  ultimately show ?thesis using v' by blast
qed

theorem terminal_graphic_char_witness:
  "\<exists>t' v'. terminal_putchar example_term 65 example_vt = Some (1, t', v') \<and> unat (tx t') = 1 \<and> unat (ty t') = 0"
proof -
  have "\<not> iscntrl (cchar 65)" by (simp add: iscntrl_def cchar_def)
  from terminal_graphic_char [OF example_ok example_fields(5,4) this] show ?thesis
    by (auto simp: example_fields)
qed

subsection \<open>Scrolling and erasing\<close>

text \<open>A cell of row \<open>r\<close> that scrolls by \<open>k\<close> rows stays on the screen iff \<open>r + k\<close> is a row.\<close>

lemma scrolled_nth:
  assumes ok: "fb_ok t" and k: "k \<le> unat (te_rows t)" and rc: "r < unat (te_rows t)" "c < unat (te_cols t)"
  shows "scrolled k t ! (r * unat (te_cols t) + c) =
      (if r + k < unat (te_rows t) then te_fb t ! ((r + k) * unat (te_cols t) + c) else blank t)"
    and "rscrolled k t ! (r * unat (te_cols t) + c) =
      (if k \<le> r then te_fb t ! ((r - k) * unat (te_cols t) + c) else blank t)"
proof -
  let ?w = "unat (te_cols t)" and ?h = "unat (te_rows t)" and ?n = "k * unat (te_cols t)" and ?i = "r * unat (te_cols t) + c"
  have len: "area t \<le> length (te_fb t)" using ok by (simp add: fb_ok_def)
  have n: "?n \<le> area t" using k by (simp add: area_def)
  have i: "?i < area t" unfolding area_def by (rule cell_index [OF rc])
  have fwd: "?i < area t - ?n \<longleftrightarrow> r + k < ?h"
  proof
    assume "r + k < ?h"
    then have "(r + k) * ?w + c < ?h * ?w" by (rule cell_index [OF _ rc(2)])
    then show "?i < area t - ?n" by (simp add: area_def algebra_simps)
  next
    assume "?i < area t - ?n"
    then have "(r + k) * ?w < ?h * ?w" by (simp add: area_def algebra_simps)
    then show "r + k < ?h" by simp
  qed
  have rev: "?i < ?n \<longleftrightarrow> r < k"
  proof
    assume "r < k"
    then show "?i < ?n" by (rule cell_index [OF _ rc(2)])
  next
    assume "?i < ?n"
    then have "r * ?w < k * ?w" by linarith
    then show "r < k" by simp
  qed
  show "scrolled k t ! ?i = (if r + k < ?h then te_fb t ! ((r + k) * ?w + c) else blank t)"
    unfolding scrolled_def using i n len fwd
    by (subst nth_splice) (auto simp: nth_append algebra_simps)
  show "rscrolled k t ! ?i = (if k \<le> r then te_fb t ! ((r - k) * ?w + c) else blank t)"
    unfolding rscrolled_def using i n len rev
    by (subst nth_splice) (auto simp: nth_append algebra_simps diff_mult_distrib)
qed

lemma scrolled_below:
  assumes "fb_ok t" "k \<le> unat (te_rows t)" "area t \<le> i" "i < FB_CELLS"
  shows "scrolled k t ! i = te_fb t ! i" "rscrolled k t ! i = te_fb t ! i"
proof -
  have "k * unat (te_cols t) \<le> area t" using assms(2) by (simp add: area_def)
  then show "scrolled k t ! i = te_fb t ! i" "rscrolled k t ! i = te_fb t ! i"
    using assms by (auto simp: scrolled_def rscrolled_def nth_splice fb_ok_def)
qed

text \<open>
  Scrolling by \<open>n\<close> rows moves the contents of every row up by \<open>n\<close> rows (down, for a
  negative \<open>n\<close>), fills the rows that become free with blanks of the current attributes, clears
  the screen when \<open>n\<close> is the number of rows or more, and changes neither the cells behind the
  screen nor anything else of the terminal.
\<close>

theorem scroll_moves_rows:
  assumes "term_ok t" and "n \<noteq> 0"
  shows "\<exists>fb. scroll t n = Some (t\<lparr>te_fb := fb\<rparr>) \<and> length fb = length (te_fb t) \<and>
    (\<forall>i. area t \<le> i \<and> i < length fb \<longrightarrow> fb ! i = te_fb t ! i) \<and>
    (\<forall>r < unat (te_rows t). \<forall>c < unat (te_cols t).
       fb ! (r * unat (te_cols t) + c) =
         (if 0 \<le> int r + n \<and> int r + n < int (unat (te_rows t))
          then te_fb t ! (nat (int r + n) * unat (te_cols t) + c) else blank t))"
proof -
  let ?h = "unat (te_rows t)"
  have ok: "fb_ok t" using assms(1) by (rule term_ok_fb_ok)
  have len: "length (te_fb t) = FB_CELLS" using ok by (simp add: fb_ok_def)
  define k where "k = min (nat \<bar>n\<bar>) ?h"
  have k: "k \<le> ?h" by (simp add: k_def)
  let ?fb = "if n < 0 then rscrolled k t else scrolled k t"
  have "scroll t n = Some (t\<lparr>te_fb := ?fb\<rparr>)"
    using scroll_eq [OF ok assms(2)] by (auto simp: k_def)
  moreover have "?fb ! (r * unat (te_cols t) + c) =
       (if 0 \<le> int r + n \<and> int r + n < int ?h
        then te_fb t ! (nat (int r + n) * unat (te_cols t) + c) else blank t)"
    if rc: "r < ?h" "c < unat (te_cols t)" for r c
  proof (cases "n < 0")
    case True
    then have "k \<le> r \<longleftrightarrow> 0 \<le> int r + n \<and> int r + n < int ?h" "k \<le> r \<Longrightarrow> r - k = nat (int r + n)"
      using rc by (auto simp: k_def min_def)
    then show ?thesis using True scrolled_nth(2) [OF ok k rc] by simp
  next
    case False
    then have "r + k < ?h \<longleftrightarrow> 0 \<le> int r + n \<and> int r + n < int ?h" "r + k < ?h \<Longrightarrow> r + k = nat (int r + n)"
      using rc by (auto simp: k_def min_def)
    then show ?thesis using False scrolled_nth(1) [OF ok k rc] by simp
  qed
  moreover have "length ?fb = length (te_fb t)" using ok k len by simp
  moreover have "?fb ! i = te_fb t ! i" if "area t \<le> i" "i < length ?fb" for i
    using scrolled_below [OF ok k that(1)] that(2) len ok k by (simp split: if_splits)
  ultimately show ?thesis by (intro exI [of _ ?fb]) blast
qed

theorem scroll_moves_rows_witness:
  "\<exists>fb. scroll example_term (-3) = Some (example_term\<lparr>te_fb := fb\<rparr>) \<and> fb ! 0 = blank example_term"
proof -
  obtain fb where "scroll example_term (-3) = Some (example_term\<lparr>te_fb := fb\<rparr>)"
    "\<forall>r < unat (te_rows example_term). \<forall>c < unat (te_cols example_term).
       fb ! (r * unat (te_cols example_term) + c) =
         (if 0 \<le> int r + -3 \<and> int r + -3 < int (unat (te_rows example_term))
          then te_fb example_term ! (nat (int r + -3) * unat (te_cols example_term) + c) else blank example_term)"
    using scroll_moves_rows [OF example_ok(1), of "-3"] by auto
  then show ?thesis by (auto simp: example_fields dest!: spec [of _ 0])
qed

text \<open>
  Erasing in the display blanks, with the current attributes, exactly the cells from the
  cursor to the end of the screen (mode 0), from its start to the cursor (mode 1), or all of them
  (any other mode); erasing in the line does the same inside the row of the cursor. Nothing else
  changes.
\<close>

theorem erase_blanks_range:
  assumes "term_ok t"
  shows "let w = unat (te_cols t); p = unat (ty t) * w + unat (tx t);
      blanked = (\<lambda>lo hi fb. length fb = length (te_fb t) \<and>
        (\<forall>i < length fb. fb ! i = (if lo \<le> i \<and> i < hi then blank t else te_fb t ! i))) in
    (\<exists>fb. erase t 0 = Some (t\<lparr>te_fb := fb\<rparr>) \<and> blanked p (area t) fb) \<and>
    (\<exists>fb. erase t 1 = Some (t\<lparr>te_fb := fb\<rparr>) \<and> blanked 0 (p + 1) fb) \<and>
    (\<exists>fb. erase t 2 = Some (t\<lparr>te_fb := fb\<rparr>) \<and> blanked 0 (area t) fb) \<and>
    (\<exists>fb. erase_line t 0 = Some (t\<lparr>te_fb := fb\<rparr>) \<and> blanked p (unat (ty t) * w + w) fb) \<and>
    (\<exists>fb. erase_line t 1 = Some (t\<lparr>te_fb := fb\<rparr>) \<and> blanked (unat (ty t) * w) (p + 1) fb) \<and>
    (\<exists>fb. erase_line t 2 = Some (t\<lparr>te_fb := fb\<rparr>) \<and> blanked (unat (ty t) * w) (unat (ty t) * w + w) fb)"
proof -
  note d = term_okD [OF assms]
  let ?w = "unat (te_cols t)" and ?y = "unat (ty t)"
  let ?p = "?y * ?w + unat (tx t)"
  have p: "unat (xy2pos t (tx t) (ty t)) = ?p" "unat (xy2pos t 0 (ty t)) = ?y * ?w" "?p < area t"
    using xy2pos_unat [OF assms d(7,8)] xy2pos_unat(1) [OF assms _ d(8), of 0] d(9) by auto
  have m: "?p mod ?w = unat (tx t)" using d(7) by simp
  have row: "?y * ?w + ?w \<le> area t"
    using d(8) mult_le_mono1 [of "Suc ?y" "unat (te_rows t)" ?w] by (simp add: area_def add.commute)
  have bl: "\<exists>fb. blank_cells t lo n = Some (t\<lparr>te_fb := fb\<rparr>) \<and> length fb = length (te_fb t) \<and>
      (\<forall>i < length fb. fb ! i = (if lo \<le> i \<and> i < lo + n then blank t else te_fb t ! i))"
    if "lo + n \<le> area t" for lo n
    using that d(2,4) by (subst blank_cells_eq) (auto simp: nth_splice)
  have "?p + (area t - ?p) = area t" "?p + (?w - unat (tx t)) = ?y * ?w + ?w" using p(3) d(7) by auto
  then show ?thesis
    using bl [of ?p "area t - ?p"] bl [of 0 "?p + 1"] bl [of 0 "area t"] bl [of ?p "?w - unat (tx t)"]
      bl [of "?y * ?w" "unat (tx t) + 1"] bl [of "?y * ?w" ?w] p row d(7,9)
    unfolding erase_def erase_line_def Let_def p(1,2) m area_def [symmetric]
    by (simp add: add.assoc)
qed

theorem erase_blanks_range_witness:
  "\<exists>fb. erase example_term 2 = Some (example_term\<lparr>te_fb := fb\<rparr>) \<and> fb ! 0 = blank example_term"
  using erase_blanks_range [OF example_ok(1)] by (auto simp: Let_def example_fields area_def term_consts)

subsection \<open>Sequences of characters\<close>

text \<open>The characters of a buffer, one after the other.\<close>

fun put_all :: "u8 list \<Rightarrow> terminal \<Rightarrow> vt \<Rightarrow> (terminal \<times> vt) option" where
  "put_all [] t v = Some (t, v)"
| "put_all (c # cs) t v = do { (_, t, v) \<leftarrow> terminal_putchar t c v; put_all cs t v }"

lemma put_all_append: "put_all (cs @ ds) t v = do { (t, v) \<leftarrow> put_all cs t v; put_all ds t v }"
  by (induction cs arbitrary: t v) (auto split: Option.bind_splits)

text \<open>Unless the terminal is printing already, \<open>terminal_write\<close> writes the whole buffer.\<close>

lemma write_loop_put_all:
  "\<not> te_printing t \<Longrightarrow> write_loop bs p t v = put_all (drop p bs) t v"
proof (induction "length bs - p" arbitrary: p t v)
  case 0
  then show ?case by (simp add: write_loop.simps)
next
  case (Suc n)
  then have p: "p < length bs" by simp
  have drop: "drop p bs = bs ! p # drop (Suc p) bs" using p by (rule Cons_nth_drop_Suc [symmetric])
  show ?case
  proof (cases "terminal_putchar t (bs ! p) v")
    case None
    then show ?thesis using p by (simp add: write_loop.simps drop)
  next
    case (Some r)
    then obtain t' v' where r: "r = (1, t', v')" "\<not> te_printing t'"
      using Suc.prems by (auto simp: terminal_putchar_def split: Option.bind_splits)
    have "write_loop bs (Suc p) t' v' = put_all (drop (Suc p) bs) t' v'"
      using Suc.hyps(2) r(2) by (intro Suc.hyps(1)) simp_all
    then show ?thesis using p Some r by (subst write_loop.simps) (simp add: drop)
  qed
qed

lemma terminal_write_put_all:
  "\<not> te_printing t \<Longrightarrow> terminal_write t (Some bs) v =
     map_option (\<lambda>(t, v). (int (length bs), t, v)) (put_all bs t v)"
  by (cases "put_all bs t v") (auto simp: terminal_write_def write_loop_put_all)

text \<open>Characters of plain text: no escape and no tab.\<close>

definition text_char :: "u8 \<Rightarrow> bool" where
  "text_char c \<longleftrightarrow> c \<noteq> 9 \<and> c \<noteq> 27"

lemma line_feed_state: "line_feed t = Some t' \<Longrightarrow> term_ok t \<Longrightarrow> te_state t' = te_state t"
  by (auto simp: line_feed_eq cursor_upd split: if_splits)

lemma when_current_state: "when_current f t v = Some (t', v') \<Longrightarrow> te_state t' = te_state t"
  by (auto simp: when_current_def split: Option.bind_splits)

lemma putchar_text_state:
  assumes ok: "term_ok t" "vt_ok t v" and "\<not> te_printing t" "te_state t = S_NORM" "text_char c"
    and r: "terminal_putchar t c v = Some (n, t', v')"
  shows "te_state t' = S_NORM"
proof (cases "iscntrl (cchar c)")
  case False
  obtain u where u: "after_wrap t = Some u" "term_ok u" "te_cols u = te_cols t" "te_rows u = te_rows t"
    using after_wrap_ok [OF ok(1)] unfolding op_ok_def by blast
  then have "te_state u = S_NORM"
    using assms(4) line_feed_state [OF _ carriage_return_ok [OF ok(1)]]
    by (auto simp: after_wrap_def carriage_return_def cursor_upd split: if_splits)
  then have "te_state (put_at u c) = S_NORM"
    by (simp add: put_at_def fix_bright_def Let_def cursor_upd)
  then show ?thesis using putchar_graphic [OF assms(1-4) False u] r by auto
next
  case True
  let ?t = "t\<lparr>te_printing := True\<rparr>"
  have "cursor_left ?t 1 = Some u \<Longrightarrow> te_state u = S_NORM" for u
    using assms(4) by (auto simp: cursor_left_eq cursor_upd)
  moreover have "line_feed ?t = Some u \<Longrightarrow> te_state u = S_NORM" for u
    using line_feed_state [of ?t u] ok(1) assms(4) by simp
  ultimately show ?thesis
    using True r assms(3-5)
    by (auto simp: terminal_putchar_def putchar_body_def write_vga_def backspace_def carriage_return_def
        text_char_def cursor_upd when_current_def split: Option.bind_splits if_splits)
qed

lemma put_all_text:
  assumes "term_ok t" "vt_ok t v" "\<not> te_printing t" "te_state t = S_NORM" "\<forall>c \<in> set bs. text_char c"
  shows "\<exists>t' v'. put_all bs t v = Some (t', v') \<and> term_ok t' \<and> vt_ok t' v' \<and> \<not> te_printing t' \<and> te_state t' = S_NORM"
  using assms
proof (induction bs arbitrary: t v)
  case Nil
  then show ?case by simp
next
  case (Cons c bs)
  let ?t = "t\<lparr>te_printing := True\<rparr>"
  have "safe_char t c" using Cons.prems(4,5) by (simp add: safe_char_def text_char_def)
  then have "vt_op_ok (putchar_body ?t c v)"
    using Cons.prems by (intro putchar_body_ok) simp_all
  then obtain u w where u: "terminal_putchar t c v = Some (1, u, w)" "term_ok u" "vt_ok u w" "\<not> te_printing u"
    using Cons.prems(3) by (auto simp: vt_op_ok_def terminal_putchar_def)
  moreover have "te_state u = S_NORM"
    using putchar_text_state [OF Cons.prems(1-4) _ u(1)] Cons.prems(5) by simp
  ultimately show ?case using Cons.IH [of u w] Cons.prems(5) by auto
qed

text \<open>
  A buffer without escape and tab characters, written in the normal control state, is
  consumed completely: \<open>terminal_write\<close> returns its length and leaves a well-formed
  terminal in the normal state, ready for more. A NULL buffer is refused with \<open>-EINVAL\<close>.
\<close>

theorem terminal_write_text:
  assumes "term_ok t" and "vt_ok t v" and "\<not> te_printing t" and "te_state t = S_NORM"
    and "\<forall>c \<in> set bs. text_char c"
  shows "(\<exists>t' v'. terminal_write t (Some bs) v = Some (int (length bs), t', v') \<and> term_ok t' \<and>
      vt_ok t' v' \<and> \<not> te_printing t' \<and> te_state t' = S_NORM) \<and>
    terminal_write t None v = Some (- EINVAL, t, v)"
  using put_all_text [OF assms] assms(3)
  by (auto simp: terminal_write_put_all) (simp add: terminal_write_def)

theorem terminal_write_text_witness:
  "\<exists>t' v'. terminal_write example_term (Some [72, 105, 13, 10]) example_vt = Some (4, t', v') \<and> term_ok t'"
  using terminal_write_text [OF example_ok example_fields(5,4), of "[72, 105, 13, 10]"]
  by (auto simp: text_char_def)

subsection \<open>Cursor positioning\<close>

text \<open>A decimal number as the characters of its digits.\<close>

definition digit_char :: "nat \<Rightarrow> u8" where
  "digit_char d = of_nat (48 + d)"

definition dec_value :: "nat list \<Rightarrow> nat" where
  "dec_value ds = foldl (\<lambda>n d. n * 10 + d) 0 ds"

lemma digit_char_facts:
  assumes "d < 10"
  shows "cchar (digit_char d) = int d + 48" "isdigit (cchar (digit_char d))" "\<not> iscntrl (cchar (digit_char d))"
    "digit_char d \<noteq> 59"
proof -
  have "d \<in> {0, 1, 2, 3, 4, 5, 6, 7, 8, 9}" using assms by auto
  then have "cchar (digit_char d) = int d + 48 \<and> digit_char d \<noteq> 59"
    by (auto simp: cchar_def digit_char_def)
  then show "cchar (digit_char d) = int d + 48" "digit_char d \<noteq> 59" by auto
  then show "isdigit (cchar (digit_char d))" "\<not> iscntrl (cchar (digit_char d))"
    using assms by (simp_all add: isdigit_def iscntrl_def)
qed

lemma foldl_dec_mono: "n \<le> foldl (\<lambda>n d. n * 10 + d) (n :: nat) ds"
proof (induction ds arbitrary: n)
  case (Cons d ds)
  have "n \<le> n * 10 + (d :: nat)" by simp
  also have "\<dots> \<le> foldl (\<lambda>n d. n * 10 + d) n (d # ds)" using Cons [of "n * 10 + d"] by simp
  finally show ?case .
qed simp

lemma putchar_csi_digit:
  assumes ok: "vt_ok t v" "\<not> te_printing t" "te_state t = S_CSI" and i: "te_paramidx t < length (te_csiparam t)"
    and p: "te_csiparam t ! te_paramidx t = (if fresh then -1 else int n)" "fresh \<Longrightarrow> n = 0"
    and d: "d < 10" and lim: "int n * 10 + int d < 2 ^ 31"
  shows "\<exists>v'. terminal_putchar t (digit_char d) v =
      Some (1, t\<lparr>te_csiparam := (te_csiparam t)[te_paramidx t := int (n * 10 + d)]\<rparr>, v') \<and> vt_ok t v'"
proof -
  note dc = digit_char_facts [OF d]
  let ?t = "t\<lparr>te_printing := True\<rparr>" and ?ps = "(te_csiparam t)[te_paramidx t := int (n * 10 + d)]"
  have "int32 (int n * 10) = Some (int n * 10)" "int32 (int n * 10 + int d) = Some (int n * 10 + int d)"
    using lim by (intro int32_Some; simp)+
  then have "csi_digit ?t (digit_char d) = Some (?t\<lparr>te_csiparam := ?ps\<rparr>)"
    using i p dc(1) by (cases fresh) (simp_all add: csi_digit_def Let_def)
  then have csi: "csi ?t (digit_char d) v = Some (?t\<lparr>te_csiparam := ?ps\<rparr>, v)"
    using dc by (simp add: csi_def)
  let ?u = "?t\<lparr>te_csiparam := ?ps\<rparr>"
  have vu: "vt_ok ?u v" using ok(1) by (simp add: vt_ok_def)
  obtain v' where v': "when_current set_cursor_pos ?u v = Some (?u, v')" "vt_ok ?u v'"
    using when_current_eq [OF vu] cursor_only_ok [OF vu display_ops_only(3)] vu by auto
  then show ?thesis
    using csi dc ok by (auto simp: terminal_putchar_def putchar_body_def write_vga_def vt_ok_def)
qed

lemma put_all_digits:
  assumes "vt_ok t v" "\<not> te_printing t" "te_state t = S_CSI" "te_paramidx t < length (te_csiparam t)"
    "te_csiparam t ! te_paramidx t = (if fresh then -1 else int n)" "fresh \<Longrightarrow> n = 0"
    "\<forall>d \<in> set ds. d < 10" "int (foldl (\<lambda>n d. n * 10 + d) n ds) < 2 ^ 31" "ds \<noteq> []"
  shows "\<exists>v'. put_all (map digit_char ds) t v =
      Some (t\<lparr>te_csiparam := (te_csiparam t)[te_paramidx t := int (foldl (\<lambda>n d. n * 10 + d) n ds)]\<rparr>, v') \<and> vt_ok t v'"
  using assms
proof (induction ds arbitrary: t v n fresh)
  case (Cons d ds)
  have "n * 10 + d \<le> foldl (\<lambda>n d. n * 10 + d) n (d # ds)" using foldl_dec_mono [of "n * 10 + d" ds] by simp
  then have lim: "int n * 10 + int d < 2 ^ 31" using Cons.prems(8) by linarith
  let ?u = "t\<lparr>te_csiparam := (te_csiparam t)[te_paramidx t := int (n * 10 + d)]\<rparr>"
  obtain w where w: "terminal_putchar t (digit_char d) v = Some (1, ?u, w)" "vt_ok t w"
    using putchar_csi_digit [OF Cons.prems(1-6) _ lim] Cons.prems(7) by auto
  show ?case
  proof (cases "ds = []")
    case True
    then show ?thesis using w by simp
  next
    case False
    have "\<exists>v'. put_all (map digit_char ds) ?u w =
      Some (?u\<lparr>te_csiparam := (te_csiparam ?u)[te_paramidx ?u := int (foldl (\<lambda>n d. n * 10 + d) (n * 10 + d) ds)]\<rparr>, v') \<and> vt_ok ?u v'"
      using Cons.prems w(2) False by (intro Cons.IH [where fresh = False]) (simp_all add: vt_ok_def)
    then show ?thesis using w by (auto simp: vt_ok_def)
  qed
qed simp

lemma printing_False [simp]: "\<not> te_printing t \<Longrightarrow> t\<lparr>te_printing := False\<rparr> = t"
  by (cases t) simp

lemma putchar_ESC:
  "\<not> te_printing t \<Longrightarrow> terminal_putchar t 27 v = Some (1, t\<lparr>te_state := S_ESC\<rparr>, v)"
proof -
  assume p: "\<not> te_printing t"
  have "t\<lparr>te_printing := True, te_state := S_ESC, te_printing := False\<rparr> = (t\<lparr>te_printing := False\<rparr>)\<lparr>te_state := S_ESC\<rparr>"
    by simp
  also have "\<dots> = t\<lparr>te_state := S_ESC\<rparr>" 
    using arg_cong [OF printing_False [OF p], of "\<lambda>t. t\<lparr>te_state := S_ESC\<rparr>"] .
  finally show ?thesis using p by (simp add: terminal_putchar_def putchar_body_def iscntrl_def cchar_def)
qed

text \<open>A character that an escape or control sequence handles by \<open>u\<close>, leaving the display.\<close>

lemma putchar_seq:
  assumes ok: "vt_ok t v" and p: "\<not> te_printing t" and c: "\<not> iscntrl (cchar c)"
    and u: "te_state t = S_ESC \<and> esc (t\<lparr>te_printing := True\<rparr>) c v = Some (u\<lparr>te_printing := True\<rparr>, v) \<or>
      te_state t = S_CSI \<and> csi (t\<lparr>te_printing := True\<rparr>) c v = Some (u\<lparr>te_printing := True\<rparr>, v)"
    and size: "te_cols u = te_cols t" "te_rows u = te_rows t" "\<not> te_printing u"
  shows "\<exists>v'. terminal_putchar t c v = Some (1, u, v') \<and> vt_ok u v'"
proof -
  let ?u = "u\<lparr>te_printing := True\<rparr>"
  have vu: "vt_ok ?u v" using ok size by (simp add: vt_ok_def)
  obtain v' where v': "when_current set_cursor_pos ?u v = Some (?u, v')" "vt_ok ?u v'"
    using when_current_eq [OF vu] cursor_only_ok [OF vu display_ops_only(3)] vu by auto
  have "putchar_body (t\<lparr>te_printing := True\<rparr>) c v = Some (?u, v')"
    using u c v'(1) by (auto simp: putchar_body_def write_vga_def)
  then show ?thesis using p size(3) v'(2) by (simp add: terminal_putchar_def)
qed



subsection \<open>Tabs, saving and restoring\<close>

lemma tab_loop_next:
  assumes "length (te_tabstops t) = 80" "unat (te_cols t) \<le> 80" "unat (tx t) < i" "i < unat (te_cols t)"
    "te_tabstops t ! i \<noteq> 0" "\<forall>j. unat (tx t) < j \<and> j < i \<longrightarrow> te_tabstops t ! j = 0" "80 - unat (tx t) < n"
  shows "tab_loop n t = Some (set_x (of_nat i) t)"
  using assms
proof (induction n arbitrary: t)
  case 0
  then show ?case by simp
next
  case (Suc n)
  let ?t = "set_x (tx t + 1) t"
  have x: "unat (tx t + 1) = unat (tx t) + 1" using Suc.prems by (intro unat_inc_u12) linarith
  have b: "unat (tx t) < unat (te_cols t)" "unat (tx t) + 1 < 80" using Suc.prems by linarith+
  have twice: "set_x z ?t = set_x z t" for z by (simp add: cursor_upd)
  show ?case
  proof (cases "unat (tx t) + 1 = i")
    case True
    have "tx t + 1 = of_nat i" using x True of_nat_unat_id [of "tx t + 1"] by simp
    then show ?thesis using b x True Suc.prems(1,5) by simp
  next
    case False
    then have lt: "unat (tx t) + 1 < i" using Suc.prems(3) by simp
    then have zero: "te_tabstops t ! (unat (tx t) + 1) = 0" using Suc.prems(6) by simp
    have "tab_loop n ?t = Some (set_x (of_nat i) ?t)"
      using Suc.prems lt x by (intro Suc.IH) auto
    then show ?thesis using b x zero Suc.prems(1) twice by simp
  qed
qed

text \<open>
  A tab moves the cursor to the next tab stop of its row and changes nothing else.
\<close>

theorem tab_next_stop:
  assumes "term_ok t" and "unat (tx t) < i" and "i < unat (te_cols t)" and "te_tabstops t ! i \<noteq> 0"
    and "\<forall>j. unat (tx t) < j \<and> j < i \<longrightarrow> te_tabstops t ! j = 0"
  shows "\<exists>x. tab t = Some (set_x x t) \<and> unat x = i"
proof -
  note d = term_okD [OF assms(1)]
  have x: "unat (of_nat i :: u12) = i" using assms(3) d(1) by (intro unat_of_nat_u12) linarith
  have "80 - unat (tx t) < MAX_TABSTOP + 1" by (simp add: term_consts less_Suc_eq_le)
  then have "tab_loop (MAX_TABSTOP + 1) t = Some (set_x (of_nat i) t)"
    using assms d by (intro tab_loop_next) auto
  then show ?thesis using x assms(3) by (auto simp: tab_def)
qed

theorem tab_next_stop_witness:
  "\<exists>x. tab example_term = Some (set_x x example_term) \<and> unat x = 7"
proof -
  have "\<forall>j. unat (tx example_term) < j \<and> j < 7 \<longrightarrow> te_tabstops example_term ! j = 0"
    by (auto simp: example_fields term_consts)
  then show ?thesis
    using tab_next_stop [OF example_ok(1), of 7] by (simp add: example_fields term_consts)
qed

text \<open>
  \<open>ESC 8\<close> restores what \<open>ESC 7\<close> saved: whatever happened to the cursor, the
  attributes, the tab stops and the blink setting in between, they are the saved ones afterwards,
  and on the current terminal the display shows the restored cursor position and shape.
\<close>

theorem terminal_restore_saved:
  assumes "vt_ok t v" and "te_saved u = te_saved (save_terminal t)" and "te_cols u = te_cols t" and "te_rows u = te_rows t"
  shows "\<exists>u' v'. restore_terminal u v = Some (u', v') \<and> te_cursor u' = te_cursor t \<and> te_attr u' = te_attr t \<and>
    te_tabstops u' = te_tabstops t \<and> te_blink_on u' = te_blink_on t \<and> te_fb u' = te_fb u \<and>
    (te_number u = vt_curr v \<longrightarrow>
       fst (vga_get_cursor_pos (vt_vga v')) = xy2pos t (tx t) (ty t) \<and>
       fst (vga_get_cursor_shape (vt_vga v')) = cu_shape (te_cursor t) AND 0x1F1F)"
proof -
  let ?u = "u\<lparr>te_tabstops := te_tabstops t, te_blink_on := te_blink_on t, te_attr := te_attr t, te_cursor := te_cursor t\<rparr>"
  have "vt_ok ?u v" using assms by (simp add: vt_ok_def)
  then have eq: "restore_terminal u v = Some (?u, if te_number u = vt_curr v then update_vga_state ?u v else v)"
    using assms(2) when_current_eq [of ?u v update_vga_state]
    by (simp add: restore_terminal_def terminal_restore_def save_terminal_def terminal_save_def)
  have pos: "xy2pos ?u (tx t) (ty t) = xy2pos t (tx t) (ty t)" using assms(3) by (simp add: xy2pos_def)
  have rt: "fst (vga_get_cursor_pos (vga_set_cursor_pos p d)) = p"
    "fst (vga_get_cursor_shape (vga_set_cursor_pos p d)) = fst (vga_get_cursor_shape d)"
    "fst (vga_get_cursor_shape (vga_set_cursor_shape s d)) = s AND 0x1F1F" for p s d
    by (simp_all add: cursor_pos_regs cursor_shape_regs byte_pair shape_low [simplified] shape_pair)
  show ?thesis
    unfolding eq using pos
    by (auto simp: update_vga_state_def set_cursor_pos_def set_cursor_shape_def rt)
qed

theorem terminal_restore_saved_witness:
  "\<exists>u' v'. restore_terminal ((save_terminal example_term)\<lparr>te_blink_on := True\<rparr>) example_vt = Some (u', v') \<and>
     te_blink_on u' = te_blink_on example_term"
  using terminal_restore_saved [OF example_ok(2), of "(save_terminal example_term)\<lparr>te_blink_on := True\<rparr>"]
  by (auto simp: save_terminal_def)

subsection \<open>Where the source leaves its arrays or does not return\<close>

text \<open>
  A reverse line feed on the first row does not scroll: the 12-bit row wraps around to 4095,
  and the next graphic character is written outside of the frame buffer.
\<close>

theorem reverse_linefeed_wraps:
  assumes "term_ok t" and "ty t = 0" and "\<not> te_need_wrap t" and "te_cols t = 80"
  shows "\<exists>u. reverse_linefeed t = Some u \<and> unat (ty u) = 4095 \<and> te_fb u = te_fb t \<and> put_graphic u c v = None"
proof -
  let ?u = "(set_y (-1) t)\<lparr>te_need_wrap := False\<rparr>"
  have y: "unat (-1 :: u12) = 4095" by (simp add: unsigned_minus_1_eq_mask mask_eq_exp_minus_1)
  have u: "reverse_linefeed t = Some ?u" using assms(2) by (simp add: reverse_linefeed_def Let_def)
  note d = term_okD [OF assms(1)]
  have x: "unat (tx t) < 80" using d(7) assms(4) by simp
  have "xy2pos ?u (tx t) (-1) = of_nat (65456 + unat (tx t))"
  proof -
    have "(of_nat (4095 * 80 + unat (tx t)) :: u16) = of_nat (262144 + (65456 + unat (tx t)))" by simp
    also have "\<dots> = of_nat (65456 + unat (tx t))" by simp
    finally show ?thesis using assms(4) y by (simp add: xy2pos_def)
  qed
  moreover have "unat (of_nat (65456 + unat (tx t)) :: u16) = 65456 + unat (tx t)"
    using x by (intro unat_of_nat_u16) simp
  ultimately have pos: "\<not> unat (xy2pos ?u (tx t) (-1)) < length (te_fb t)" using d(4) by simp
  then have "put_graphic ?u c v = None"
    using assms(3) by (simp add: put_graphic_def set_fb_char_def arr_get_def Let_def)
  then show ?thesis using u y by (intro exI [of _ ?u]) simp
qed

theorem reverse_linefeed_wraps_witness:
  "\<exists>u. reverse_linefeed example_term = Some u \<and> unat (ty u) = 4095 \<and> put_graphic u 65 example_vt = None"
  using reverse_linefeed_wraps [OF example_ok(1) example_fields(11,6,1), of 65 example_vt] by auto

text \<open>
  A tab in the last column of an 80-column screen reads the tab stop at index 80, outside of
  the table.
\<close>

theorem tab_last_column_out_of_bounds:
  assumes "term_ok t" and "te_cols t = 80" and "unat (tx t) = 79"
  shows "tab t = None"
proof -
  have "unat (tx t + 1) = 80" using assms(3) unat_inc_u12 [of "tx t"] by simp
  then have "tab_loop (Suc n) t = None" for n
    using assms(2,3) term_okD(5) [OF assms(1)] by (simp add: arr_get_def)
  then show ?thesis by (simp add: tab_def del: tab_loop.simps)
qed

theorem tab_last_column_out_of_bounds_witness:
  "term_ok (set_x 79 example_term) \<and> tab (set_x 79 example_term) = None"
proof -
  have ok: "term_ok (set_x 79 example_term)" using example_ok(1) by (simp add: example_fields)
  then show ?thesis using tab_last_column_out_of_bounds [OF ok] by (simp add: example_fields)
qed

text \<open>
  While a terminal is printing, \<open>terminal_putchar\<close> drops the character and returns 0,
  and \<open>terminal_write\<close> of a non-empty buffer never returns.
\<close>

theorem terminal_write_reentered:
  assumes "te_printing t" and "bs \<noteq> []"
  shows "terminal_putchar t c v = Some (0, t, v) \<and> terminal_write t (Some bs) v = None"
proof -
  have "te_printing t \<longrightarrow> p < length bs \<longrightarrow> write_loop bs p t v \<noteq> Some r" for p t v r
  proof -
    have "te_printing t \<longrightarrow> p < length bs \<longrightarrow> False" if "write_loop bs p t v = Some r"
      by (rule write_loop.raw_induct [OF _ that, of "\<lambda>bs p t v r. te_printing t \<longrightarrow> p < length bs \<longrightarrow> False"])
        (auto simp: terminal_putchar_def split: if_splits Option.bind_splits)
    then show ?thesis by blast
  qed
  then have "write_loop bs 0 t v = None" using assms by (cases "write_loop bs 0 t v") auto
  then show ?thesis using assms(1) by (simp add: terminal_putchar_def terminal_write_def)
qed

theorem terminal_write_reentered_witness:
  "terminal_write (example_term\<lparr>te_printing := True\<rparr>) (Some [65]) example_vt = None"
  using terminal_write_reentered [of "example_term\<lparr>te_printing := True\<rparr>" "[65]"] by simp

end
