(* ===== verification/Strings.thy ===== *)
theory Strings
  imports Ctype
begin

text \<open>
  The memory and string functions of \<^verbatim>\<open>src/libc/string.c\<close>. Memory is a function from
  32-bit addresses to bytes; pointers wrap around as the machine's do, and two pointers into the
  same array are compared as addresses. A loop that looks for the end of a string is a partial
  function: on memory without a NUL it has no result.
\<close>

type_synonym mem = "u32 \<Rightarrow> u8"

subsection \<open>Memory\<close>

fun copy_up :: "nat \<Rightarrow> u32 \<Rightarrow> u32 \<Rightarrow> mem \<Rightarrow> mem" where
  "copy_up 0 d s m = m"
| "copy_up (Suc n) d s m = copy_up n (d + 1) (s + 1) (m(d := m s))"

fun copy_down :: "nat \<Rightarrow> u32 \<Rightarrow> u32 \<Rightarrow> mem \<Rightarrow> mem" where
  "copy_down 0 d s m = m"
| "copy_down (Suc n) d s m = copy_down n (d - 1) (s - 1) (m(d - 1 := m (s - 1)))"

definition memcpy :: "u32 \<Rightarrow> u32 \<Rightarrow> u32 \<Rightarrow> mem \<Rightarrow> u32 \<times> mem" where
  "memcpy dst src count m = (dst, copy_up (unat count) dst src m)"

definition mempcpy :: "u32 \<Rightarrow> u32 \<Rightarrow> u32 \<Rightarrow> mem \<Rightarrow> u32 \<times> mem" where
  "mempcpy dst src count m = (dst + count, snd (memcpy dst src count m))"

definition memmove :: "u32 \<Rightarrow> u32 \<Rightarrow> u32 \<Rightarrow> mem \<Rightarrow> u32 \<times> mem" where
  "memmove dst src count m =
    (if src = dst then (dst, m)
     else if dst < src \<and> dst + count > src then (dst, copy_up (unat count) dst src m)
     else if src < dst \<and> src + count > dst
     then (dst, copy_down (unat count) (dst + count) (src + count) m)
     else memcpy dst src count m)"

fun fill_up :: "nat \<Rightarrow> u32 \<Rightarrow> u8 \<Rightarrow> mem \<Rightarrow> mem" where
  "fill_up 0 d c m = m"
| "fill_up (Suc n) d c m = fill_up n (d + 1) c (m(d := c))"

definition memset :: "u32 \<Rightarrow> int \<Rightarrow> u32 \<Rightarrow> mem \<Rightarrow> u32 \<times> mem" where
  "memset dst c count m = (dst, fill_up (unat count) dst (of_int c) m)"

text \<open>The loop of \<open>memcmp\<close> with \<open>n > 0\<close> bytes left, and the difference of the two bytes it stops at.\<close>

fun memcmp_loop :: "nat \<Rightarrow> u32 \<Rightarrow> u32 \<Rightarrow> mem \<Rightarrow> int" where
  "memcmp_loop 0 l r m = 0"
| "memcmp_loop (Suc n) l r m =
    (if m l = m r \<and> n \<noteq> 0 then memcmp_loop n (l + 1) (r + 1) m else cchar (m l) - cchar (m r))"

definition memcmp :: "u32 \<Rightarrow> u32 \<Rightarrow> u32 \<Rightarrow> mem \<Rightarrow> int" where
  "memcmp lhs rhs count m = (if count = 0 then 0 else memcmp_loop (unat count) lhs rhs m)"

subsection \<open>Strings\<close>

partial_function (option) strlen_loop :: "u32 \<Rightarrow> u32 \<Rightarrow> mem \<Rightarrow> u32 option" where
  "strlen_loop str len m = (if m str \<noteq> 0 then strlen_loop (str + 1) (len + 1) m else Some len)"

definition strlen :: "u32 \<Rightarrow> mem \<Rightarrow> u32 option" where
  "strlen str m = strlen_loop str 0 m"

fun strnlen_loop :: "nat \<Rightarrow> u32 \<Rightarrow> u32 \<Rightarrow> mem \<Rightarrow> u32" where
  "strnlen_loop 0 str len m = len"
| "strnlen_loop (Suc n) str len m = (if m str \<noteq> 0 then strnlen_loop n (str + 1) (len + 1) m else len)"

definition strnlen :: "u32 \<Rightarrow> u32 \<Rightarrow> mem \<Rightarrow> u32" where
  "strnlen str maxlen m = strnlen_loop (unat maxlen) str 0 m"

definition stpcpy :: "u32 \<Rightarrow> u32 \<Rightarrow> mem \<Rightarrow> (u32 \<times> mem) option" where
  "stpcpy dst src m = do {
     len \<leftarrow> strlen src m;
     let (p, m) = mempcpy dst src len m;
     Some (p, m(p := 0))
   }"

definition strcpy :: "u32 \<Rightarrow> u32 \<Rightarrow> mem \<Rightarrow> (u32 \<times> mem) option" where
  "strcpy dst src m = do { (_, m) \<leftarrow> stpcpy dst src m; Some (dst, m) }"

definition stpncpy :: "u32 \<Rightarrow> u32 \<Rightarrow> u32 \<Rightarrow> mem \<Rightarrow> u32 \<times> mem" where
  "stpncpy dst src count m =
    (let len = strnlen src count m; (p, m) = mempcpy dst src len m in memset p 0 (count - len) m)"

definition strncpy :: "u32 \<Rightarrow> u32 \<Rightarrow> u32 \<Rightarrow> mem \<Rightarrow> u32 \<times> mem" where
  "strncpy dst src count m = (dst, snd (stpncpy dst src count m))"

partial_function (option) strcmp :: "u32 \<Rightarrow> u32 \<Rightarrow> mem \<Rightarrow> int option" where
  "strcmp lhs rhs m =
    (if m lhs \<noteq> 0 \<and> m lhs = m rhs then strcmp (lhs + 1) (rhs + 1) m
     else Some (cchar (m lhs) - cchar (m rhs)))"

fun strncmp_loop :: "nat \<Rightarrow> u32 \<Rightarrow> u32 \<Rightarrow> int \<Rightarrow> mem \<Rightarrow> int" where
  "strncmp_loop 0 lhs rhs diff m = diff"
| "strncmp_loop (Suc n) lhs rhs diff m =
    (let diff = cchar (m lhs) - cchar (m rhs)
     in if diff \<noteq> 0 \<or> m lhs = 0 \<or> m rhs = 0 then diff
        else strncmp_loop n (lhs + 1) (rhs + 1) diff m)"

definition strncmp :: "u32 \<Rightarrow> u32 \<Rightarrow> u32 \<Rightarrow> mem \<Rightarrow> int" where
  "strncmp lhs rhs count m = (if count = 0 then 0 else strncmp_loop (unat count) lhs rhs 0 m)"

definition strcat :: "u32 \<Rightarrow> u32 \<Rightarrow> mem \<Rightarrow> (u32 \<times> mem) option" where
  "strcat dst src m = do {
     len \<leftarrow> strlen dst m;
     (_, m) \<leftarrow> stpcpy (dst + len) src m;
     Some (dst, m)
   }"

text \<open>\<open>stpcpy(p, "")\<close> stores a NUL at \<open>p\<close>.\<close>

definition strncat :: "u32 \<Rightarrow> u32 \<Rightarrow> u32 \<Rightarrow> mem \<Rightarrow> (u32 \<times> mem) option" where
  "strncat dst src count m = do {
     len \<leftarrow> strlen dst m;
     let (p, m) = mempcpy (dst + len) src (strnlen src count m) m;
     Some (dst, m(p := 0))
   }"

subsection \<open>Blocks of memory\<close>

text \<open>The byte at offset \<open>x - d\<close> of a block at \<open>d\<close>; the block does not wrap around.\<close>

definition fits :: "u32 \<Rightarrow> nat \<Rightarrow> bool" where
  "fits d n \<longleftrightarrow> unat d + n \<le> 2 ^ 32"

definition in_blk :: "u32 \<Rightarrow> nat \<Rightarrow> u32 \<Rightarrow> bool" where
  "in_blk d n x \<longleftrightarrow> unat d \<le> unat x \<and> unat x < unat d + n"

lemma unat_add_nat:
  assumes "fits d n" "i < n"
  shows "unat (d + of_nat i) = unat d + i"
proof -
  have lt: "unat d + i < 4294967296" using assms by (simp add: fits_def)
  then have "unat (of_nat i :: u32) = i" by (simp add: unat_of_nat take_bit_nat_eq_self)
  with lt show ?thesis by (simp add: unat_word_ariths)
qed

lemma in_blkE:
  assumes "in_blk d n x"
  obtains i where "i < n" "x = d + of_nat i"
proof
  let ?i = "unat x - unat d"
  show "?i < n" using assms by (auto simp: in_blk_def)
  have "d \<le> x" using assms by (simp add: in_blk_def word_le_nat_alt)
  then have "unat (x - d) = ?i" by (simp add: unat_sub)
  then have "of_nat ?i = x - d" using of_nat_unat_id [of "x - d"] by simp
  then show "x = d + of_nat ?i" by simp
qed

lemma in_blkI: "fits d n \<Longrightarrow> i < n \<Longrightarrow> in_blk d n (d + of_nat i)"
  using unat_add_nat [of d n i] by (simp add: in_blk_def)

lemma fits_Suc:
  assumes "fits d (Suc n)" "n \<noteq> 0"
  shows "fits (d + 1) n" "unat (d + 1) = unat d + 1"
  using assms unat_add_nat [OF assms(1), of 1] by (auto simp: fits_def)

lemma copy_up_spec:
  assumes "fits d n" "fits s n" "unat d \<le> unat s \<or> unat s + n \<le> unat d"
  shows "copy_up n d s m x = (if in_blk d n x then m (s + (x - d)) else m x)"
  using assms
proof (induction n arbitrary: d s m)
  case 0
  then show ?case by (auto simp: in_blk_def)
next
  case (Suc n)
  show ?case
  proof (cases "n = 0")
    case True
    then have "in_blk d (Suc n) x \<longleftrightarrow> x = d" by (auto simp: in_blk_def word_unat_eq_iff)
    with True show ?thesis by simp
  next
    case False
    note fd = fits_Suc [OF Suc.prems(1) False] and fs = fits_Suc [OF Suc.prems(2) False]
    let ?m = "m(d := m s)"
    have IH: "copy_up n (d + 1) (s + 1) ?m x = (if in_blk (d + 1) n x then ?m (s + 1 + (x - (d + 1))) else ?m x)"
      using Suc.prems(3) fd fs by (intro Suc.IH) auto
    have blk: "in_blk d (Suc n) x \<longleftrightarrow> x = d \<or> in_blk (d + 1) n x"
      using fd(2) by (auto simp: in_blk_def word_unat_eq_iff)
    have other: "\<not> in_blk (d + 1) n d" using fd(2) by (simp add: in_blk_def)
    have "s + (x - d) \<noteq> d" if x: "in_blk (d + 1) n x"
    proof
      assume eq: "s + (x - d) = d"
      obtain i where i: "i < n" "x = d + 1 + of_nat i" using x by (rule in_blkE)
      have "unat (s + of_nat (Suc i)) = unat s + Suc i"
        using unat_add_nat [OF Suc.prems(2), of "Suc i"] i(1) by simp
      moreover have "s + of_nat (Suc i) = d" using eq i(2) by simp
      ultimately have "unat d = unat s + Suc i" by simp
      then show False using Suc.prems(3) i(1) by linarith
    qed
    then show ?thesis using IH blk other by (auto simp: algebra_simps)
  qed
qed

lemma copy_down_spec:
  assumes "fits d n" "fits s n" "unat s \<le> unat d"
  shows "copy_down n (d + of_nat n) (s + of_nat n) m x = (if in_blk d n x then m (s + (x - d)) else m x)"
  using assms
proof (induction n arbitrary: m)
  case 0
  then show ?case by (auto simp: in_blk_def)
next
  case (Suc n)
  have f: "fits d n" "fits s n" using Suc.prems by (auto simp: fits_def)
  let ?m = "m(d + of_nat n := m (s + of_nat n))"
  have un: "unat (d + of_nat n) = unat d + n" by (rule unat_add_nat [OF Suc.prems(1)]) simp
  have "copy_down (Suc n) (d + of_nat (Suc n)) (s + of_nat (Suc n)) m x =
      copy_down n (d + of_nat n) (s + of_nat n) ?m x" by simp
  also have "\<dots> = (if in_blk d n x then ?m (s + (x - d)) else ?m x)"
    by (rule Suc.IH [OF f Suc.prems(3)])
  also have "\<dots> = (if in_blk d (Suc n) x then m (s + (x - d)) else m x)"
  proof -
    have blk: "in_blk d (Suc n) x \<longleftrightarrow> x = d + of_nat n \<or> in_blk d n x"
      using un by (auto simp: in_blk_def word_unat_eq_iff)
    have other: "\<not> in_blk d n (d + of_nat n)" using un by (simp add: in_blk_def)
    have "s + (x - d) \<noteq> d + of_nat n" if x: "in_blk d n x"
    proof
      assume eq: "s + (x - d) = d + of_nat n"
      obtain i where i: "i < n" "x = d + of_nat i" using x by (rule in_blkE)
      then have "unat (s + of_nat i) = unat s + i" using unat_add_nat [OF f(2)] by simp
      moreover have "s + of_nat i = d + of_nat n" using eq i(2) by simp
      ultimately show False using un i(1) Suc.prems(3) by simp
    qed
    then show ?thesis using blk other by auto
  qed
  finally show ?case .
qed

lemma fill_up_spec:
  assumes "fits d n"
  shows "fill_up n d c m x = (if in_blk d n x then c else m x)"
  using assms
proof (induction n arbitrary: d m)
  case 0
  then show ?case by (auto simp: in_blk_def)
next
  case (Suc n)
  show ?case
  proof (cases "n = 0")
    case True
    then show ?thesis by (auto simp: in_blk_def word_unat_eq_iff)
  next
    case False
    note fd = fits_Suc [OF Suc.prems False]
    have "in_blk d (Suc n) x \<longleftrightarrow> x = d \<or> in_blk (d + 1) n x"
      using fd(2) by (auto simp: in_blk_def word_unat_eq_iff)
    then show ?thesis using Suc.IH [OF fd(1)] by auto
  qed
qed



subsection \<open>Strings in memory\<close>

definition cstr :: "mem \<Rightarrow> u32 \<Rightarrow> u8 list \<Rightarrow> bool" where
  "cstr m p s \<longleftrightarrow> 0 \<notin> set s \<and> fits p (Suc (length s)) \<and>
     (\<forall>i < length s. m (p + of_nat i) = s ! i) \<and> m (p + of_nat (length s)) = 0"

lemma cstr_Nil: "cstr m p [] \<Longrightarrow> m p = 0"
  by (simp add: cstr_def)

lemma cstr_Cons:
  assumes "cstr m p (c # s)"
  shows "m p = c" "c \<noteq> 0" "cstr m (p + 1) s"
proof -
  show "m p = c" "c \<noteq> 0" using assms by (force simp: cstr_def)+
  have "m (p + 1 + of_nat i) = s ! i" if "i < length s" for i
    using assms that by (auto simp: cstr_def add.assoc dest!: spec [of _ "Suc i"])
  moreover have "fits (p + 1) (Suc (length s))" using assms fits_Suc(1) [of p "Suc (length s)"] by (simp add: cstr_def)
  ultimately show "cstr m (p + 1) s" using assms by (simp add: cstr_def add.assoc)
qed

lemma strlen_loop_cstr: "cstr m p s \<Longrightarrow> strlen_loop p len m = Some (len + of_nat (length s))"
proof (induction s arbitrary: p len)
  case Nil
  then show ?case by (subst strlen_loop.simps) (simp add: cstr_Nil)
next
  case (Cons c s)
  note c = cstr_Cons [OF Cons.prems]
  show ?case using c Cons.IH [OF c(3)] by (subst strlen_loop.simps) (simp add: add.assoc)
qed

lemma strlen_cstr: "cstr m p s \<Longrightarrow> strlen p m = Some (of_nat (length s))"
  by (simp add: strlen_def strlen_loop_cstr)

text \<open>The difference of the first characters that differ, which are compared as signed bytes.\<close>

fun str_diff :: "u8 list \<Rightarrow> u8 list \<Rightarrow> int" where
  "str_diff [] [] = 0"
| "str_diff [] (d # _) = - cchar d"
| "str_diff (c # _) [] = cchar c"
| "str_diff (c # s) (d # t) = (if c = d then str_diff s t else cchar c - cchar d)"

lemma cchar_0_iff [simp]: "cchar c = 0 \<longleftrightarrow> c = 0" "cchar c = cchar d \<longleftrightarrow> c = d" "cchar 0 = 0"
  by (auto simp: cchar_def signed_eq_0_iff intro: signed_word_eqI)

lemma str_diff_0: "0 \<notin> set s \<Longrightarrow> 0 \<notin> set t \<Longrightarrow> str_diff s t = 0 \<longleftrightarrow> s = t"
  by (induction s t rule: str_diff.induct) auto

lemma strcmp_cstr: "cstr m p s \<Longrightarrow> cstr m q t \<Longrightarrow> strcmp p q m = Some (str_diff s t)"
proof (induction s t arbitrary: p q rule: str_diff.induct)
  case 1
  then show ?case by (subst strcmp.simps) (simp add: cstr_Nil)
next
  case (2 d t)
  then show ?case using cstr_Cons [OF 2(2)] by (subst strcmp.simps) (simp add: cstr_Nil)
next
  case (3 c s)
  then show ?case using cstr_Cons [OF 3(1)] by (subst strcmp.simps) (simp add: cstr_Nil)
next
  case (4 c s d t)
  note c = cstr_Cons [OF 4(2)] and d = cstr_Cons [OF 4(3)]
  show ?case using c d 4(1) [OF _ c(3) d(3)] by (subst strcmp.simps) simp
qed

definition disjoint_blk :: "u32 \<Rightarrow> nat \<Rightarrow> u32 \<Rightarrow> nat \<Rightarrow> bool" where
  "disjoint_blk p n q k \<longleftrightarrow> unat p + n \<le> unat q \<or> unat q + k \<le> unat p"

lemma disjoint_blkD: "disjoint_blk p n q k \<Longrightarrow> in_blk q k x \<Longrightarrow> \<not> in_blk p n x"
  by (auto simp: disjoint_blk_def in_blk_def)

lemma cstr_length: "cstr m p s \<Longrightarrow> unat (of_nat (length s) :: u32) = length s"
  by (auto simp: cstr_def fits_def unat_of_nat take_bit_nat_eq_self)

lemma offset_simp: "p + of_nat i - p = (of_nat i :: u32)"
  by simp

text \<open>The string copy, with what it changes.\<close>

lemma stpcpy_cstr:
  assumes s: "cstr m src s" and dst: "fits dst (Suc (length s))"
    and disj: "disjoint_blk dst (Suc (length s)) src (Suc (length s))"
  shows "\<exists>m'. stpcpy dst src m = Some (dst + of_nat (length s), m') \<and> cstr m' dst s \<and>
    (\<forall>x. \<not> in_blk dst (Suc (length s)) x \<longrightarrow> m' x = m x)"
proof -
  let ?n = "length s" and ?e = "dst + of_nat (length s)"
  define m1 where "m1 = copy_up ?n dst src m"
  have f: "fits dst ?n" "fits src ?n" using s dst by (auto simp: cstr_def fits_def)
  have m1: "m1 x = (if in_blk dst ?n x then m (src + (x - dst)) else m x)" for x
    unfolding m1_def using disj by (intro copy_up_spec [OF f]) (auto simp: disjoint_blk_def)
  have eq: "stpcpy dst src m = Some (?e, m1(?e := 0))"
    using strlen_cstr [OF s] cstr_length [OF s] by (simp add: stpcpy_def mempcpy_def memcpy_def m1_def)
  have e: "unat ?e = unat dst + ?n" by (rule unat_add_nat [OF dst]) simp
  have "(m1(?e := 0)) (dst + of_nat i) = s ! i" if i: "i < ?n" for i
  proof -
    have "unat (dst + of_nat i) = unat dst + i" using unat_add_nat [OF f(1) i] .
    then have "dst + of_nat i \<noteq> ?e" using e i by auto
    then show ?thesis using m1 in_blkI [OF f(1) i] s i by (simp add: cstr_def)
  qed
  then have "cstr (m1(?e := 0)) dst s" using s dst by (simp add: cstr_def)
  moreover have "(m1(?e := 0)) x = m x" if "\<not> in_blk dst (Suc ?n) x" for x
    using that m1 [of x] e by (auto simp: in_blk_def)
  ultimately show ?thesis using eq by blast
qed

lemma cstr_cong:
  assumes "cstr m p s" "\<And>x. in_blk p (Suc (length s)) x \<Longrightarrow> m' x = m x"
  shows "cstr m' p s"
proof -
  have f: "fits p (Suc (length s))" using assms(1) by (simp add: cstr_def)
  have "m' (p + of_nat i) = m (p + of_nat i)" if "i < Suc (length s)" for i
    using in_blkI [OF f that] by (rule assms(2))
  then show ?thesis using assms(1) by (simp add: cstr_def)
qed

lemma strcat_cstr:
  assumes s: "cstr m dst s" and t: "cstr m src t" and dst: "fits dst (Suc (length s + length t))"
    and disj: "disjoint_blk dst (Suc (length s + length t)) src (Suc (length t))"
  shows "\<exists>m'. strcat dst src m = Some (dst, m') \<and> cstr m' dst (s @ t) \<and>
    (\<forall>x. \<not> in_blk dst (Suc (length s + length t)) x \<longrightarrow> m' x = m x)"
proof -
  let ?e = "dst + of_nat (length s)"
  have e: "unat ?e = unat dst + length s" using dst by (intro unat_add_nat [of _ "Suc (length s)"]) (auto simp: fits_def)
  have fe: "fits ?e (Suc (length t))" using dst e by (simp add: fits_def)
  have "disjoint_blk ?e (Suc (length t)) src (Suc (length t))"
    using disj e by (auto simp: disjoint_blk_def)
  then obtain m' where m': "stpcpy ?e src m = Some (?e + of_nat (length t), m')" "cstr m' ?e t"
    "\<forall>x. \<not> in_blk ?e (Suc (length t)) x \<longrightarrow> m' x = m x"
    using stpcpy_cstr [OF t fe] by blast
  have "m' (dst + of_nat i) = (s @ t) ! i" if i: "i < length s + length t" for i
  proof (cases "i < length s")
    case True
    have "unat (dst + of_nat i) = unat dst + i" by (rule unat_add_nat [OF dst]) (use i in simp)
    then have "\<not> in_blk ?e (Suc (length t)) (dst + of_nat i)" using True e by (simp add: in_blk_def)
    then show ?thesis using m'(3) s True by (simp add: cstr_def nth_append)
  next
    case False
    then obtain k where k: "i = length s + k" by (auto simp: not_less le_iff_add)
    then have "m' (?e + of_nat k) = t ! k" using m'(2) i by (simp add: cstr_def)
    then show ?thesis using k by (simp add: nth_append add.assoc)
  qed
  moreover have "m' (dst + of_nat (length s + length t)) = 0" using m'(2) by (simp add: cstr_def add.assoc)
  ultimately have "cstr m' dst (s @ t)" using s t dst by (simp add: cstr_def)
  moreover have "m' x = m x" if "\<not> in_blk dst (Suc (length s + length t)) x" for x
    using that m'(3) e by (auto simp: in_blk_def)
  ultimately show ?thesis using strlen_cstr [OF s] m'(1) by (auto simp: strcat_def)
qed



end
