(* ===== verification/Strtoull.thy ===== *)
theory Strtoull
  imports Ctype
begin

text \<open>
  The number parser of \<^verbatim>\<open>src/libc/string.c\<close>: \<open>_strtoull\<close> and the functions
  built on it. The string is the list of its bytes, the terminating NUL included; the state of the
  parser is the record \<open>parse\<close>, with the position in the string for the pointer
  \<open>p\<close>, and \<open>value\<close> wraps around at 64 bits as it does in the source.
\<close>

datatype parse_state = S_SPACE | S_SIGN | S_PREFIX | S_NUMBER

record parse =
  pa_state :: parse_state
  pa_base :: int
  pa_sign :: int
  pa_length :: nat
  pa_value :: u64
  pa_valid :: bool
  pa_sign_seen :: bool
  pa_zero_seen :: bool
  pa_pos :: nat

text \<open>The value of an alphanumeric character as a digit.\<close>

definition digit_of :: "u8 \<Rightarrow> int" where
  "digit_of c = (if isdigit (cchar c) then cchar c - 48 else 10 + (tolower (cchar c) - 97))"

text \<open>Each state's part of the loop body; \<open>True\<close> is a \<open>break\<close>, \<open>False\<close> goes to the loop condition.\<close>

definition in_number :: "u8 \<Rightarrow> parse \<Rightarrow> bool \<times> parse" where
  "in_number c s =
    (if \<not> isalnum (cchar c) \<or> digit_of c \<ge> pa_base s then (True, s\<lparr>pa_pos := pa_pos s + 1\<rparr>)
     else (False, s\<lparr>pa_value := pa_value s * of_int (pa_base s) + of_int (digit_of c),
       pa_valid := True, pa_length := pa_length s + 1\<rparr>))"

definition in_prefix :: "u8 \<Rightarrow> parse \<Rightarrow> bool \<times> parse" where
  "in_prefix c s =
    (if pa_base s = 0 \<or> pa_base s = 8 \<or> pa_base s = 16 then
       if \<not> pa_zero_seen s \<and> c = 48 then (False, s\<lparr>pa_zero_seen := True, pa_base := 8, pa_valid := True\<rparr>)
       else if pa_zero_seen s \<and> tolower (cchar c) = 120 then (False, s\<lparr>pa_base := 16\<rparr>)
       else in_number c (s\<lparr>pa_base := (if pa_base s = 0 then 10 else pa_base s), pa_state := S_NUMBER\<rparr>)
     else in_number c (s\<lparr>pa_state := S_NUMBER\<rparr>))"

definition in_sign :: "u8 \<Rightarrow> parse \<Rightarrow> bool \<times> parse" where
  "in_sign c s =
    (if \<not> pa_sign_seen s \<and> c = 43 then (False, s\<lparr>pa_sign_seen := True, pa_sign := 1\<rparr>)
     else if \<not> pa_sign_seen s \<and> c = 45 then (False, s\<lparr>pa_sign_seen := True, pa_sign := -1\<rparr>)
     else in_prefix c (s\<lparr>pa_state := S_PREFIX\<rparr>))"

definition in_space :: "u8 \<Rightarrow> parse \<Rightarrow> bool \<times> parse" where
  "in_space c s = (if isspace (cchar c) then (False, s) else in_sign c (s\<lparr>pa_state := S_SIGN\<rparr>))"

definition parse_step :: "u8 \<Rightarrow> parse \<Rightarrow> bool \<times> parse" where
  "parse_step c s = (case pa_state s of S_SPACE \<Rightarrow> in_space c s | S_SIGN \<Rightarrow> in_sign c s
     | S_PREFIX \<Rightarrow> in_prefix c s | S_NUMBER \<Rightarrow> in_number c s)"

text \<open>The loop; reading past the end of the list has no result.\<close>

fun parse_loop :: "u8 list \<Rightarrow> parse \<Rightarrow> parse option" where
  "parse_loop [] s = None"
| "parse_loop (c # cs) s =
    (case parse_step c s of (brk, s) \<Rightarrow>
       if brk then Some s
       else (let s = s\<lparr>pa_pos := pa_pos s + 1\<rparr> in if c = 0 then Some s else parse_loop cs s))"

text \<open>
  The result: \<open>Inl\<close> the \<open>errno\<close> of an invalid base, or the value and the position that
  \<open>str_end\<close> is set to.
\<close>

definition parse_start :: "int \<Rightarrow> parse" where
  "parse_start base = \<lparr>pa_state = S_SPACE, pa_base = base, pa_sign = 1, pa_length = 0, pa_value = 0,
     pa_valid = False, pa_sign_seen = False, pa_zero_seen = False, pa_pos = 0\<rparr>"

definition strtoull :: "u8 list \<Rightarrow> int \<Rightarrow> (int + u64 \<times> nat) option" where
  "strtoull str base =
    (if (base < 2 \<or> base > 36) \<and> base \<noteq> 0 then Some (Inl EINVAL)
     else do {
       s \<leftarrow> parse_loop str (parse_start base);
       let v = pa_value s * of_int (pa_sign s);
       let p = (if pa_length s = 0 \<and> pa_base s = 16 \<and> pa_zero_seen s then pa_pos s - 1 else pa_pos s);
       Some (Inr (v, if pa_valid s then p - 1 else 0))
     })"

definition strtoul :: "u8 list \<Rightarrow> int \<Rightarrow> (int + u32 \<times> nat) option" where
  "strtoul str base = map_option (map_sum id (\<lambda>(v, e). (ucast v, e))) (strtoull str base)"

definition strtol :: "u8 list \<Rightarrow> int \<Rightarrow> (int + int \<times> nat) option" where
  "strtol str base = map_option (map_sum id (\<lambda>(v, e). (sint (ucast v :: u32), e))) (strtoull str base)"

definition strtoll :: "u8 list \<Rightarrow> int \<Rightarrow> (int + int \<times> nat) option" where
  "strtoll str base = map_option (map_sum id (\<lambda>(v, e). (sint v, e))) (strtoull str base)"

subsection \<open>Parsing digits\<close>

definition is_digit_in :: "int \<Rightarrow> u8 \<Rightarrow> bool" where
  "is_digit_in b c \<longleftrightarrow> isalnum (cchar c) \<and> digit_of c < b"

definition digits_value :: "int \<Rightarrow> u64 \<Rightarrow> u8 list \<Rightarrow> u64" where
  "digits_value b v ds = foldl (\<lambda>v c. v * of_int b + of_int (digit_of c)) v ds"

lemma digit_not_NUL: "is_digit_in b c \<Longrightarrow> c \<noteq> 0"
  by (auto simp: is_digit_in_def isalnum_def isalpha_def isupper_def islower_def isdigit_def cchar_def)

lemma parse_digits:
  assumes "pa_state s = S_NUMBER" "\<forall>c \<in> set ds. is_digit_in (pa_base s) c" "\<not> is_digit_in (pa_base s) e"
  shows "parse_loop (ds @ e # rest) s =
    Some (s\<lparr>pa_value := digits_value (pa_base s) (pa_value s) ds, pa_valid := pa_valid s \<or> ds \<noteq> [],
      pa_length := pa_length s + length ds, pa_pos := pa_pos s + length ds + 1\<rparr>)"
  using assms
proof (induction ds arbitrary: s)
  case Nil
  then show ?case
    by (auto simp: parse_step_def in_number_def is_digit_in_def digits_value_def)
next
  case (Cons c ds)
  have c: "is_digit_in (pa_base s) c" "c \<noteq> 0" using Cons.prems(2) digit_not_NUL by auto
  let ?s = "s\<lparr>pa_value := pa_value s * of_int (pa_base s) + of_int (digit_of c), pa_valid := True,
    pa_length := pa_length s + 1, pa_pos := pa_pos s + 1\<rparr>"
  have "parse_loop ((c # ds) @ e # rest) s = parse_loop (ds @ e # rest) ?s"
    using c Cons.prems(1) by (auto simp: parse_step_def in_number_def is_digit_in_def Let_def)
  also have "\<dots> = Some (?s\<lparr>pa_value := digits_value (pa_base ?s) (pa_value ?s) ds, pa_valid := pa_valid ?s \<or> ds \<noteq> [],
      pa_length := pa_length ?s + length ds, pa_pos := pa_pos ?s + length ds + 1\<rparr>)"
    using Cons.prems by (intro Cons.IH) auto
  finally show ?case by (simp add: digits_value_def)
qed

text \<open>The first digit ends the states before \<open>S_NUMBER\<close>.\<close>

lemma digit_not_sign:
  assumes "is_digit_in b c"
  shows "\<not> isspace (cchar c)" "c \<noteq> 43" "c \<noteq> 45"
  using assms by (auto simp: is_digit_in_def isalnum_def isalpha_def isupper_def islower_def isdigit_def
      isspace_def cchar_def)

lemma parse_spaces:
  assumes "pa_state s = S_SPACE" "\<forall>c \<in> set sp. isspace (cchar c)"
  shows "parse_loop (sp @ cs) s = parse_loop cs (s\<lparr>pa_pos := pa_pos s + length sp\<rparr>)"
  using assms
proof (induction sp arbitrary: s)
  case Nil
  then show ?case by simp
next
  case (Cons c sp)
  then have "c \<noteq> 0" by (auto simp: isspace_def cchar_def)
  with Cons show ?case by (simp add: parse_step_def in_space_def Let_def)
qed

lemma parse_first_digit:
  assumes "pa_state s = S_SPACE \<or> pa_state s = S_SIGN" "\<not> pa_zero_seen s"
    and d: "is_digit_in (if pa_base s = 0 then 10 else pa_base s) d"
    and z: "pa_base s \<in> {0, 8, 16} \<longrightarrow> d \<noteq> 48"
  shows "parse_loop (d # cs) s =
    parse_loop (d # cs) (s\<lparr>pa_base := (if pa_base s = 0 then 10 else pa_base s), pa_state := S_NUMBER\<rparr>)"
proof -
  have [simp]: "s\<lparr>pa_base := b, pa_state := S_NUMBER\<rparr> = s\<lparr>pa_state := S_NUMBER\<rparr>" if "pa_base s = b" for b
    using that by auto
  have "parse_step d s = in_number d (s\<lparr>pa_base := (if pa_base s = 0 then 10 else pa_base s), pa_state := S_NUMBER\<rparr>)"
    using assms digit_not_sign [OF d]
    by (cases "pa_base s = 0") (auto simp: parse_step_def in_space_def in_sign_def in_prefix_def)
  then show ?thesis by (simp add: parse_step_def)
qed

lemma parse_after_prefix:
  assumes "pa_state s = S_PREFIX" "pa_zero_seen s" "pa_base s = 16" "tolower (cchar d) \<noteq> 120"
  shows "parse_loop (d # cs) s = parse_loop (d # cs) (s\<lparr>pa_state := S_NUMBER\<rparr>)"
proof -
  have "s\<lparr>pa_base := 16, pa_state := S_NUMBER\<rparr> = s\<lparr>pa_state := S_NUMBER\<rparr>" using assms(3) by auto
  moreover have "parse_step d s = in_number d (s\<lparr>pa_base := 16, pa_state := S_NUMBER\<rparr>)"
    using assms by (simp add: parse_step_def in_prefix_def)
  ultimately have "parse_step d s = in_number d (s\<lparr>pa_state := S_NUMBER\<rparr>)"
    by (simp only:)
  then show ?thesis by (simp add: parse_step_def)
qed

text \<open>The state after the white space and an optional sign.\<close>

definition sign_of :: "u8 list \<Rightarrow> int" where
  "sign_of sg = (if sg = [45] then -1 else 1)"

lemma parse_sign:
  assumes "sg \<in> {[], [43], [45]}" "\<forall>c \<in> set sp. isspace (cchar c)"
  shows "\<exists>s. parse_loop (sp @ sg @ cs) (parse_start b) = parse_loop cs s \<and>
    (pa_state s = S_SPACE \<or> pa_state s = S_SIGN) \<and> \<not> pa_zero_seen s \<and> \<not> pa_valid s \<and> pa_base s = b \<and>
    pa_sign s = sign_of sg \<and> pa_value s = 0 \<and> pa_length s = 0 \<and> pa_pos s = length sp + length sg"
proof -
  let ?s = "(parse_start b)\<lparr>pa_pos := length sp\<rparr>"
  have sp: "parse_loop (sp @ sg @ cs) (parse_start b) = parse_loop (sg @ cs) ?s"
    using parse_spaces [OF _ assms(2), of "parse_start b" "sg @ cs"] by (simp add: parse_start_def)
  have sg: "parse_loop (c # cs) ?s =
      parse_loop cs (?s\<lparr>pa_state := S_SIGN, pa_sign_seen := True, pa_sign := sign_of [c], pa_pos := length sp + 1\<rparr>)"
    if "c \<in> {43, 45}" for c
    using that by (auto simp: parse_step_def in_space_def in_sign_def parse_start_def isspace_def cchar_def
        sign_of_def Let_def)
  from assms(1) consider "sg = []" | c where "sg = [c]" "c \<in> {43, 45}" by auto
  then show ?thesis
  proof cases
    case 1
    then show ?thesis using sp by (intro exI [of _ ?s]) (simp add: parse_start_def sign_of_def)
  next
    case 2
    then show ?thesis
      using sp sg [OF 2(2)]
      by (intro exI [of _ "?s\<lparr>pa_state := S_SIGN, pa_sign_seen := True, pa_sign := sign_of sg, pa_pos := length sp + 1\<rparr>"])
        (simp add: parse_start_def)
  qed
qed

lemma base_ok: "base = 0 \<or> 2 \<le> base \<and> base \<le> 36 \<Longrightarrow> \<not> ((base < 2 \<or> base > 36) \<and> base \<noteq> (0 :: int))"
  by auto

lemma strtoull_digits:
  assumes "\<forall>c \<in> set sp. isspace (cchar c)" "sg \<in> {[], [43], [45]}" "ds \<noteq> []" "base = 0 \<or> 2 \<le> base \<and> base \<le> 36"
    and b: "b = (if base = 0 then 10 else base)"
    and dg: "\<forall>c \<in> set ds. is_digit_in b c" "\<not> is_digit_in b e" "base \<in> {0, 8, 16} \<longrightarrow> hd ds \<noteq> 48"
  shows "strtoull (sp @ sg @ ds @ e # rest) base =
    Some (Inr (digits_value b 0 ds * of_int (sign_of sg), length sp + length sg + length ds))"
proof -
  obtain d cs where ds: "ds = d # cs" using assms(3) by (cases ds) auto
  obtain s where s: "parse_loop (sp @ sg @ ds @ e # rest) (parse_start base) = parse_loop (ds @ e # rest) s"
    "pa_state s = S_SPACE \<or> pa_state s = S_SIGN" "\<not> pa_zero_seen s" "\<not> pa_valid s" "pa_base s = base"
    "pa_sign s = sign_of sg" "pa_value s = 0" "pa_length s = 0" "pa_pos s = length sp + length sg"
    using parse_sign [OF assms(2,1), of "ds @ e # rest" base] by blast
  let ?s = "s\<lparr>pa_base := b, pa_state := S_NUMBER\<rparr>"
  have "parse_loop (ds @ e # rest) s = parse_loop (ds @ e # rest) ?s"
    using parse_first_digit [OF s(2,3), of d "cs @ e # rest"] dg
    unfolding ds s(5) b by (simp del: parse_loop.simps)
  then show ?thesis
    using s parse_digits [of ?s ds e rest] dg assms(3) base_ok [OF assms(4)] by (simp add: strtoull_def Let_def)
qed

lemma strtoull_hex:
  assumes "\<forall>c \<in> set sp. isspace (cchar c)" "sg \<in> {[], [43], [45]}" "ds \<noteq> []"
    and h: "\<forall>c \<in> set ds. is_digit_in 16 c" "\<not> is_digit_in 16 e" "base \<in> {0, 16}" "x \<in> {120, 88}"
  shows "strtoull (sp @ sg @ 48 # x # ds @ e # rest) base =
    Some (Inr (digits_value 16 0 ds * of_int (sign_of sg), length sp + length sg + 2 + length ds))"
proof -
  obtain d cs where ds: "ds = d # cs" using assms(3) by (cases ds) auto
  obtain s where s: "parse_loop (sp @ sg @ 48 # x # ds @ e # rest) (parse_start base) = parse_loop (48 # x # ds @ e # rest) s"
    "pa_state s = S_SPACE \<or> pa_state s = S_SIGN" "\<not> pa_zero_seen s" "\<not> pa_valid s" "pa_base s = base"
    "pa_sign s = sign_of sg" "pa_value s = 0" "pa_length s = 0" "pa_pos s = length sp + length sg"
    using parse_sign [OF assms(2,1), of "48 # x # ds @ e # rest" base] by blast
  let ?s = "s\<lparr>pa_state := S_PREFIX, pa_zero_seen := True, pa_valid := True, pa_base := 16, pa_pos := pa_pos s + 2\<rparr>"
  have "parse_loop (48 # x # ds @ e # rest) s = parse_loop (ds @ e # rest) ?s"
    using s(2,3,5) h
    by (auto simp: parse_step_def in_space_def in_sign_def in_prefix_def isspace_def cchar_def tolower_def
        isupper_def Let_def)
  also have "tolower (cchar d) \<noteq> 120"
    using h by (auto simp: ds is_digit_in_def digit_of_def isdigit_def tolower_def isupper_def split: if_splits)
  then have "parse_loop (ds @ e # rest) ?s = parse_loop (ds @ e # rest) (?s\<lparr>pa_state := S_NUMBER\<rparr>)"
    using parse_after_prefix [of ?s d "cs @ e # rest"] by (simp add: ds del: parse_loop.simps)
  finally show ?thesis
    using s parse_digits [of "?s\<lparr>pa_state := S_NUMBER\<rparr>" ds e rest] h assms(3) by (auto simp: strtoull_def Let_def)
qed

text \<open>A leading zero that is not followed by an \<open>x\<close> selects octal.\<close>

lemma strtoull_octal:
  assumes "\<forall>c \<in> set ds. is_digit_in 8 c" "base \<in> {0, 8, 16}"
  shows "strtoull (48 # ds @ 0 # rest) base = Some (Inr (digits_value 8 0 ds, 1 + length ds))"
proof -
  let ?t = "parse_start base"
  let ?s = "?t\<lparr>pa_state := S_PREFIX, pa_zero_seen := True, pa_valid := True, pa_base := 8, pa_pos := 1\<rparr>"
  have e: "\<not> is_digit_in 8 0" by (simp add: is_digit_in_def isalnum_def isalpha_def isupper_def islower_def isdigit_def cchar_def)
  have "parse_loop (48 # ds @ 0 # rest) ?t = parse_loop (ds @ 0 # rest) ?s"
  proof -
    have "parse_step 48 ?t = (False, ?t\<lparr>pa_state := S_PREFIX, pa_zero_seen := True, pa_base := 8, pa_valid := True\<rparr>)"
      using assms(2) by (auto simp: parse_start_def parse_step_def in_space_def in_sign_def in_prefix_def isspace_def cchar_def)
    then show ?thesis by (simp add: parse_start_def)
  qed
  also have "\<dots> = parse_loop (ds @ 0 # rest) (?s\<lparr>pa_state := S_NUMBER\<rparr>)"
  proof -
    obtain d cs where d: "ds @ 0 # rest = d # cs" "d = 0 \<or> is_digit_in 8 d"
      using assms(1) by (cases ds) auto
    then have "tolower (cchar d) \<noteq> 120"
      by (auto simp: is_digit_in_def digit_of_def isdigit_def tolower_def isupper_def cchar_def split: if_splits)
    then have "parse_step d ?s = in_number d (?s\<lparr>pa_base := 8, pa_state := S_NUMBER\<rparr>)"
      by (simp add: parse_step_def in_prefix_def)
    then show ?thesis unfolding d(1) by (simp add: parse_step_def parse_start_def)
  qed
  finally show ?thesis
    using parse_digits [of "?s\<lparr>pa_state := S_NUMBER\<rparr>" ds 0 rest] assms e
    by (auto simp: strtoull_def Let_def parse_start_def)
qed

text \<open>
  \<open>strtoull\<close> on white space, an optional sign and digits of the base returns the value
  of the digits in that base, modulo 2^64 and negated for a minus sign, and the position of the
  first character that is not a digit; base 0 stands for base 10. A prefix \<open>0x\<close> or
  \<open>0X\<close> selects base 16, for base 0 and 16. A base outside of 2 to 36 is refused with
  \<open>EINVAL\<close>. The statement is for digits that do not start with \<open>0\<close> when the base
  is 0, 8 or 16.
\<close>

theorem strtoull_parses:
  assumes "\<forall>c \<in> set sp. isspace (cchar c)" and "sg \<in> {[], [43], [45]}" and "ds \<noteq> []"
    and "base = 0 \<or> 2 \<le> base \<and> base \<le> 36"
  shows "(let b = (if base = 0 then 10 else base) in
      (\<forall>c \<in> set ds. is_digit_in b c) \<and> \<not> is_digit_in b e \<and> (base \<in> {0, 8, 16} \<longrightarrow> hd ds \<noteq> 48) \<longrightarrow>
      strtoull (sp @ sg @ ds @ e # rest) base =
        Some (Inr (digits_value b 0 ds * of_int (sign_of sg), length sp + length sg + length ds))) \<and>
    ((\<forall>c \<in> set ds. is_digit_in 16 c) \<and> \<not> is_digit_in 16 e \<and> base \<in> {0, 16} \<and> x \<in> {120, 88} \<longrightarrow>
      strtoull (sp @ sg @ 48 # x # ds @ e # rest) base =
        Some (Inr (digits_value 16 0 ds * of_int (sign_of sg), length sp + length sg + 2 + length ds))) \<and>
    (b' < 2 \<and> b' \<noteq> 0 \<or> b' > 36 \<longrightarrow> strtoull rest b' = Some (Inl EINVAL))"
proof (intro conjI)
  show "let b = (if base = 0 then 10 else base) in
      (\<forall>c \<in> set ds. is_digit_in b c) \<and> \<not> is_digit_in b e \<and> (base \<in> {0, 8, 16} \<longrightarrow> hd ds \<noteq> 48) \<longrightarrow>
      strtoull (sp @ sg @ ds @ e # rest) base =
        Some (Inr (digits_value b 0 ds * of_int (sign_of sg), length sp + length sg + length ds))"
    unfolding Let_def using strtoull_digits [OF assms refl] by blast
  show "(\<forall>c \<in> set ds. is_digit_in 16 c) \<and> \<not> is_digit_in 16 e \<and> base \<in> {0, 16} \<and> x \<in> {120, 88} \<longrightarrow>
      strtoull (sp @ sg @ 48 # x # ds @ e # rest) base =
        Some (Inr (digits_value 16 0 ds * of_int (sign_of sg), length sp + length sg + 2 + length ds))"
    using strtoull_hex [OF assms(1-3)] by blast
  show "b' < 2 \<and> b' \<noteq> 0 \<or> b' > 36 \<longrightarrow> strtoull rest b' = Some (Inl EINVAL)" by (auto simp: strtoull_def)
qed

theorem strtoull_parses_witness:
  "strtoull ([32] @ [45] @ [52, 50] @ 0 # []) 10 = Some (Inr (- 42, 4))"
proof -
  have "is_digit_in 10 52" "is_digit_in 10 50" "\<not> is_digit_in 10 0"
    by (simp_all add: is_digit_in_def isalnum_def isalpha_def isupper_def islower_def isdigit_def cchar_def digit_of_def)
  moreover have "isspace (cchar 32)" by (simp add: isspace_def cchar_def)
  ultimately show ?thesis
    using strtoull_parses [of "[32]" "[45]" "[52, 50]" 10 0 "[]" 120 0]
    by (simp add: Let_def digits_value_def digit_of_def cchar_def isdigit_def sign_of_def)
qed

text \<open>
  A leading \<open>0\<close> selects base 8 even when base 16 was asked for: the hexadecimal string
  \<open>010\<close> is parsed as 8, and \<open>0A\<close> as 0; further characters \<open>x\<close> of a prefix
  are skipped.
\<close>

theorem strtoull_hex_leading_zero:
  "strtoull [48, 49, 48, 0] 16 = Some (Inr (8, 3)) \<and> strtoull [48, 65, 0] 16 = Some (Inr (0, 1)) \<and>
   strtoull [48, 120, 120, 49, 0] 16 = Some (Inr (1, 4))"
  by code_simp

end
