(* ===== verification/Fat_Table.thy ===== *)
theory Fat_Table
  imports Ohwes_Prelude
begin

text \<open>
  The file allocation table of \<^verbatim>\<open>src/tools/fatfs/fat.c\<close>. A table is the list of its
  bytes; entries of 12 bits share a byte with their neighbour, entries of 16 bits are two bytes.
  The unaligned 16-bit accesses of the source are \<open>get16\<close> and \<open>set16\<close>, little-endian,
  without a result outside of the table. The contract of a table of entries, whatever their
  width, is the locale \<open>cluster_table\<close>; both widths are instances.
\<close>

definition get16 :: "u8 list \<Rightarrow> nat \<Rightarrow> u16 option" where
  "get16 m i = (if i + 1 < length m then Some (ucast (m ! i) OR push_bit 8 (ucast (m ! (i + 1)))) else None)"

definition set16 :: "u8 list \<Rightarrow> nat \<Rightarrow> u16 \<Rightarrow> u8 list option" where
  "set16 m i v = (if i + 1 < length m then Some (m[i := ucast v, i + 1 := ucast (drop_bit 8 v)]) else None)"

definition CLUSTER_EOC_12_LO :: u32 where "CLUSTER_EOC_12_LO = 0xFF8"
definition CLUSTER_EOC_12_HI :: u32 where "CLUSTER_EOC_12_HI = 0xFFF"
definition CLUSTER_EOC_16_LO :: u32 where "CLUSTER_EOC_16_LO = 0xFFF8"
definition CLUSTER_EOC_16_HI :: u32 where "CLUSTER_EOC_16_HI = 0xFFFF"

definition GetCluster12 :: "u8 list \<Rightarrow> u32 \<Rightarrow> u32 option" where
  "GetCluster12 fat index = do {
     pair \<leftarrow> get16 fat (unat (index + index div 2));
     Some (if bit index 0 then ucast (drop_bit 4 pair) else ucast (pair AND 0x0FFF))
   }"

definition GetCluster16 :: "u8 list \<Rightarrow> u32 \<Rightarrow> u32 option" where
  "GetCluster16 fat index = map_option ucast (get16 fat (unat (index * 2)))"

definition SetCluster12 :: "u8 list \<Rightarrow> u32 \<Rightarrow> u32 \<Rightarrow> (u8 list \<times> u32) option" where
  "SetCluster12 fat index v = do {
     oldValue \<leftarrow> GetCluster12 fat index;
     let i = unat (index + index div 2);
     pair \<leftarrow> get16 fat i;
     let (v, pair) = (if bit index 0 then (push_bit 4 v, pair AND 0x000F) else (v AND 0x0FFF, pair AND 0xF000));
     fat \<leftarrow> set16 fat i (ucast (ucast pair OR v));
     Some (fat, oldValue)
   }"

definition SetCluster16 :: "u8 list \<Rightarrow> u32 \<Rightarrow> u32 \<Rightarrow> (u8 list \<times> u32) option" where
  "SetCluster16 fat index v = do {
     oldValue \<leftarrow> GetCluster16 fat index;
     fat \<leftarrow> set16 fat (unat (index * 2)) (ucast v);
     Some (fat, oldValue)
   }"

text \<open>\<open>fat\<close> points to a buffer of at least \<open>sizeBytes\<close> bytes.\<close>

definition InitFat12 :: "u8 list \<Rightarrow> nat \<Rightarrow> u8 \<Rightarrow> u32 \<Rightarrow> u8 list option" where
  "InitFat12 fat sizeBytes mediaType eoc = do {
     assert_opt (sizeBytes \<le> length fat);
     let fat = replicate sizeBytes 0 @ drop sizeBytes fat;
     assert_opt ((eoc AND 0xFFF) \<ge> CLUSTER_EOC_12_LO);
     assert_opt ((eoc AND 0xFFF) \<le> CLUSTER_EOC_12_HI);
     (fat, _) \<leftarrow> SetCluster12 fat 0 (0x0F00 OR ucast mediaType);
     (fat, _) \<leftarrow> SetCluster12 fat 1 eoc;
     Some fat
   }"

definition InitFat16 :: "u8 list \<Rightarrow> nat \<Rightarrow> u8 \<Rightarrow> u32 \<Rightarrow> u8 list option" where
  "InitFat16 fat sizeBytes mediaType eoc = do {
     assert_opt (sizeBytes \<le> length fat);
     let fat = replicate sizeBytes 0 @ drop sizeBytes fat;
     assert_opt ((eoc AND 0xFFFF) \<ge> CLUSTER_EOC_16_LO);
     assert_opt ((eoc AND 0xFFFF) \<le> CLUSTER_EOC_16_HI);
     (fat, _) \<leftarrow> SetCluster16 fat 0 (0xFF00 OR ucast mediaType);
     (fat, _) \<leftarrow> SetCluster16 fat 1 eoc;
     Some fat
   }"

subsection \<open>Chains of clusters\<close>

text \<open>
  The clusters of a file are linked through the table: each entry holds the next cluster, the
  last one an end-of-chain mark. \<open>link_chain\<close> links a sequence of clusters with a table's
  operation to set an entry, and \<open>follow\<close> walks a chain, at most \<open>n\<close> steps.
\<close>

fun link_chain :: "(u8 list \<Rightarrow> u32 \<Rightarrow> u32 \<Rightarrow> (u8 list \<times> u32) option) \<Rightarrow> u8 list \<Rightarrow> u32 list \<Rightarrow> u32 \<Rightarrow> u8 list option" where
  "link_chain put fat [] eoc = Some fat"
| "link_chain put fat [c] eoc = map_option fst (put fat c eoc)"
| "link_chain put fat (c # d # cs) eoc = do { (fat, _) \<leftarrow> put fat c d; link_chain put fat (d # cs) eoc }"

fun follow :: "(u8 list \<Rightarrow> u32 \<Rightarrow> u32 option) \<Rightarrow> u8 list \<Rightarrow> u32 \<Rightarrow> u32 \<Rightarrow> nat \<Rightarrow> u32 list option" where
  "follow get fat eoc c 0 = None"
| "follow get fat eoc c (Suc n) =
    (case get fat c of None \<Rightarrow> None
     | Some d \<Rightarrow> if d = eoc then Some [c] else map_option ((#) c) (follow get fat eoc d n))"

subsection \<open>The contract of a table\<close>

text \<open>
  \<open>slots fat\<close> is the number of entries a buffer has room for, \<open>trunc\<close> what an entry
  keeps of a value. Reading and writing an entry in range succeeds; a write returns the old value
  and changes the one entry.
\<close>

locale cluster_table =
  fixes get :: "u8 list \<Rightarrow> u32 \<Rightarrow> u32 option"
    and put :: "u8 list \<Rightarrow> u32 \<Rightarrow> u32 \<Rightarrow> (u8 list \<times> u32) option"
    and slots :: "u8 list \<Rightarrow> nat"
    and trunc :: "u32 \<Rightarrow> u32"
  assumes get_ok: "unat i < slots fat \<Longrightarrow> \<exists>v. get fat i = Some v"
    and put_ok: "unat i < slots fat \<Longrightarrow>
      \<exists>fat'. put fat i v = Some (fat', the (get fat i)) \<and> length fat' = length fat \<and> slots fat' = slots fat \<and>
        get fat' i = Some (trunc v) \<and> (\<forall>j. unat j < slots fat \<longrightarrow> j \<noteq> i \<longrightarrow> get fat' j = get fat j)"
begin

lemma link_chain_ok:
  assumes "\<forall>c \<in> set cs. unat c < slots fat"
  shows "\<exists>fat'. link_chain put fat cs eoc = Some fat' \<and> slots fat' = slots fat \<and>
    (\<forall>j. unat j < slots fat \<longrightarrow> j \<notin> set cs \<longrightarrow> get fat' j = get fat j)"
  using assms
proof (induction cs arbitrary: fat rule: induct_list012)
  case (3 c d cs)
  obtain fat1 where f: "put fat c d = Some (fat1, the (get fat c))" "slots fat1 = slots fat"
    "\<forall>j. unat j < slots fat \<longrightarrow> j \<noteq> c \<longrightarrow> get fat1 j = get fat j"
    using put_ok [of c fat d] "3.prems" by auto
  have "\<forall>c \<in> set (d # cs). unat c < slots fat1" using "3.prems" f(2) by simp
  from "3.IH"(2) [OF this] show ?case using f by auto
next
  case (2 c)
  then show ?case using put_ok [of c fat eoc] by auto
qed auto

lemma follow_link_chain:
  assumes "\<forall>c \<in> set cs. unat c < slots fat" "distinct cs" "cs \<noteq> []"
    "\<forall>c \<in> set cs. trunc c = c \<and> c \<noteq> eoc" "trunc eoc = eoc"
    "link_chain put fat cs eoc = Some fat'" "length cs \<le> n"
  shows "follow get fat' eoc (hd cs) n = Some cs"
  using assms
proof (induction cs arbitrary: fat n rule: induct_list012)
  case (2 c)
  then obtain fat1 where "put fat c eoc = Some (fat1, the (get fat c))" "get fat1 c = Some eoc"
    using put_ok [of c fat eoc] by auto
  moreover obtain m where "n = Suc m" using 2 by (cases n) auto
  ultimately show ?case using 2 by simp
next
  case (3 c d cs)
  obtain m where n: "n = Suc m" using 3 by (cases n) auto
  obtain fat1 where f: "put fat c d = Some (fat1, the (get fat c))" "slots fat1 = slots fat" "get fat1 c = Some d"
    using put_ok [of c fat d] "3.prems" by auto
  have link: "link_chain put fat1 (d # cs) eoc = Some fat'" using "3.prems"(6) f by simp
  have "get fat' c = get fat1 c"
    using link_chain_ok [of "d # cs" fat1 eoc] link f(2) "3.prems"(1,2) by auto
  moreover have "follow get fat' eoc (hd (d # cs)) m = Some (d # cs)"
    using "3.prems" link f(2) n by (intro "3.IH"(2)) auto
  ultimately show ?case using f "3.prems"(4) n by simp
qed simp

text \<open>Setting the first two entries.\<close>

lemma put_two:
  assumes "1 < slots fat"
  shows "\<exists>f1 v0 f2 v1. put fat 0 a = Some (f1, v0) \<and> put f1 1 b = Some (f2, v1) \<and> length f2 = length fat \<and>
    get f2 0 = Some (trunc a) \<and> get f2 1 = Some (trunc b) \<and>
    (\<forall>j. unat j < slots fat \<longrightarrow> j \<noteq> 0 \<longrightarrow> j \<noteq> 1 \<longrightarrow> get f2 j = get fat j)"
proof -
  obtain f1 where f1: "put fat 0 a = Some (f1, the (get fat 0))" "length f1 = length fat" "slots f1 = slots fat"
    "get f1 0 = Some (trunc a)" "\<forall>j. unat j < slots fat \<longrightarrow> j \<noteq> 0 \<longrightarrow> get f1 j = get fat j"
    using put_ok [of 0 fat a] assms by auto
  moreover obtain f2 where "put f1 1 b = Some (f2, the (get f1 1))" "length f2 = length f1"
    "get f2 1 = Some (trunc b)" "\<forall>j. unat j < slots f1 \<longrightarrow> j \<noteq> 1 \<longrightarrow> get f2 j = get f1 j"
    using put_ok [of 1 f1 b] assms f1(3) by auto
  moreover from this have "get f2 0 = get f1 0" using assms f1(3) by simp
  ultimately show ?thesis by auto
qed

end

subsection \<open>Tables of 12 and of 16 bits\<close>

definition slots12 :: "u8 list \<Rightarrow> nat" where "slots12 fat = min (2 * length fat div 3) (2 ^ 31)"
definition slots16 :: "u8 list \<Rightarrow> nat" where "slots16 fat = min (length fat div 2) (2 ^ 31)"

text \<open>The position of an entry, without wrap-around for an entry in range.\<close>

lemma unat_half: "unat (i div 2 :: u32) = unat i div 2"
  by (simp add: unat_div)

lemma pos12: "unat i < 2 ^ 31 \<Longrightarrow> unat (i + i div 2 :: u32) = unat i + unat i div 2"
  by (simp add: unat_word_ariths unat_half)

lemma pos16: "unat i < 2 ^ 31 \<Longrightarrow> unat (i * 2 :: u32) = 2 * unat i"
  by (simp add: unat_word_ariths)

lemma bit0_odd: "bit (i :: u32) 0 \<longleftrightarrow> odd (unat i)"
proof -
  have "bit (unat i) 0 \<longleftrightarrow> bit i 0" by (simp only: bit_unsigned_iff possible_bit_def)  simp
  then show ?thesis by (simp only: bit_0)
qed

lemma u8_bit_high: "\<not> bit (w :: u8) (8 + k)"
  using bit_imp_le_length [of w "8 + k"] by auto

lemma slots12_pos: "unat i < slots12 fat \<Longrightarrow> unat i < 2 ^ 31 \<and> unat i + unat i div 2 + 1 < length fat"
  by (auto simp: slots12_def)

lemma slots16_pos: "unat i < slots16 fat \<Longrightarrow> unat i < 2 ^ 31 \<and> 2 * unat i + 1 < length fat"
  by (auto simp: slots16_def)

text \<open>
  A table as a string of bits: entry \<open>i\<close> of width \<open>w\<close> is the bits from \<open>w * i\<close> on.
\<close>

definition tbit :: "u8 list \<Rightarrow> nat \<Rightarrow> bool" where
  "tbit m k = bit (m ! (k div 8)) (k mod 8)"

lemma get16_tbit:
  assumes "get16 m i = Some w"
  shows "bit w n \<longleftrightarrow> n < 16 \<and> tbit m (8 * i + n)"
proof (cases "n < 8")
  case True
  then show ?thesis using assms by (auto simp: get16_def tbit_def bit_simps split: if_splits)
next
  case False
  then obtain k where k: "n = 8 + k" using le_Suc_ex not_less by blast
  then have "n < 16 \<Longrightarrow> (8 * i + n) div 8 = Suc i \<and> (8 * i + n) mod 8 = k" by auto
  then show ?thesis
    using assms k by (auto simp: get16_def tbit_def bit_simps u8_bit_high split: if_splits)
qed

lemma set16_tbit:
  assumes "set16 m i v = Some m'" "k < 8 * length m"
  shows "tbit m' k \<longleftrightarrow> (if 8 * i \<le> k \<and> k < 8 * i + 16 then bit v (k - 8 * i) else tbit m k)"
proof -
  have m': "m' = m[i := ucast v, i + 1 := ucast (drop_bit 8 v)]" "i + 1 < length m"
    using assms(1) by (auto simp: set16_def split: if_splits)
  consider "k div 8 = i" | "k div 8 = i + 1" | "k div 8 \<noteq> i" "k div 8 \<noteq> i + 1" by blast
  then show ?thesis
  proof cases
    case 1
    then have "8 * i \<le> k" "k - 8 * i < 8" "k mod 8 = k - 8 * i" by (auto simp: minus_div_mult_eq_mod [symmetric])
    then show ?thesis using 1 m' by (auto simp: tbit_def bit_simps)
  next
    case 2
    then have "8 * i + 8 \<le> k" "k < 8 * i + 16" "k - 8 * i = 8 + k mod 8"
      by (auto simp: minus_div_mult_eq_mod [symmetric])
    then show ?thesis using 2 m' by (simp add: tbit_def bit_simps)
  next
    case 3
    then have "\<not> (8 * i \<le> k \<and> k < 8 * i + 16)" by auto
    then show ?thesis using 3 m' by (auto simp: tbit_def)
  qed
qed

lemma set16_ok: "i + 1 < length m \<Longrightarrow> \<exists>m'. set16 m i v = Some m' \<and> length m' = length m"
  by (simp add: set16_def)

lemma get16_ok: "i + 1 < length m \<Longrightarrow> \<exists>w. get16 m i = Some w"
  by (simp add: get16_def)

lemma get16_NoneD: "get16 m i = Some w \<Longrightarrow> i + 1 < length m"
  by (auto simp: get16_def split: if_splits)

subsubsection \<open>12 bits\<close>

lemma pos12_bits: "unat i < 2 ^ 31 \<Longrightarrow>
  12 * unat i = 8 * unat (i + i div 2 :: u32) + (if bit i 0 then 4 else 0)"
  by (auto simp: pos12 bit0_odd elim!: oddE evenE)

lemma and_FFF: "w AND 0x0FFF = take_bit 12 (w :: 'a :: len word)"
  by (simp add: take_bit_eq_mask mask_eq_exp_minus_1)

lemma and_FFFF: "w AND 0xFFFF = take_bit 16 (w :: 'a :: len word)"
  by (simp add: take_bit_eq_mask mask_eq_exp_minus_1)

lemma and_F: "w AND 0x000F = take_bit 4 (w :: 'a :: len word)"
  by (simp add: take_bit_eq_mask mask_eq_exp_minus_1)

lemma and_F000: "(w :: u16) AND 0xF000 = push_bit 12 (drop_bit 12 w)"
proof -
  have e: "(0xF000 :: u16) = NOT (mask 12)" by (simp add: mask_eq_exp_minus_1)
  show ?thesis unfolding e by (rule bit_word_eqI) (auto simp: bit_simps)
qed

lemma GetCluster12_bits:
  assumes "unat i < slots12 fat"
  shows "\<exists>v. GetCluster12 fat i = Some v \<and> (\<forall>n. bit v n \<longleftrightarrow> n < 12 \<and> tbit fat (12 * unat i + n))"
proof -
  note p = slots12_pos [OF assms]
  obtain w where w: "get16 fat (unat (i + i div 2)) = Some w"
    using get16_ok p pos12 by metis
  have q: "12 * unat i = 8 * unat (i + i div 2) + (if bit i 0 then 4 else 0)"
    using pos12_bits p by blast
  have "bit (ucast (drop_bit 4 w) :: u32) n \<longleftrightarrow> n < 12 \<and> tbit fat (8 * unat (i + i div 2) + 4 + n)" for n
    using get16_tbit [OF w, of "4 + n"] by (auto simp: bit_simps add.assoc)
  moreover have "bit (ucast (w AND 0x0FFF) :: u32) n \<longleftrightarrow> n < 12 \<and> tbit fat (8 * unat (i + i div 2) + n)" for n
    using get16_tbit [OF w, of n] by (auto simp: and_FFF bit_simps)
  ultimately show ?thesis unfolding q by (simp add: GetCluster12_def w)
qed

text \<open>The pair of bytes that is written back.\<close>

lemma pair_odd:
  "bit (ucast ((ucast (p AND 0x000F) :: u32) OR push_bit 4 v) :: u16) n \<longleftrightarrow>
    n < 16 \<and> (if n < 4 then bit p n else bit v (n - 4))"
  by (auto simp: and_F bit_simps)

lemma pair_even:
  "bit (ucast ((ucast ((p :: u16) AND 0xF000) :: u32) OR (v AND 0x0FFF)) :: u16) n \<longleftrightarrow>
    n < 16 \<and> (if n < 12 then bit v n else bit p n)"
  by (auto simp: and_F000 and_FFF bit_simps)

lemma SetCluster12_bits:
  assumes "unat i < slots12 fat"
  shows "\<exists>fat'. SetCluster12 fat i v = Some (fat', the (GetCluster12 fat i)) \<and> length fat' = length fat \<and>
    (\<forall>k < 8 * length fat. tbit fat' k \<longleftrightarrow>
      (if 12 * unat i \<le> k \<and> k < 12 * unat i + 12 then bit v (k - 12 * unat i) else tbit fat k))"
proof -
  note p = slots12_pos [OF assms]
  let ?i = "unat (i + i div 2)"
  obtain w where w: "get16 fat ?i = Some w"
    using get16_ok p pos12 by metis
  obtain u where u: "GetCluster12 fat i = Some u" using GetCluster12_bits [OF assms] by auto
  define w' where "w' = (if bit i 0 then ucast ((ucast (w AND 0x000F) :: u32) OR push_bit 4 v)
    else (ucast ((ucast (w AND 0xF000) :: u32) OR (v AND 0x0FFF)) :: u16))"
  obtain fat' where f: "set16 fat ?i w' = Some fat'" "length fat' = length fat"
    using set16_ok p pos12 by metis
  have s: "SetCluster12 fat i v = Some (fat', u)"
    using f(1) by (simp add: SetCluster12_def u w w'_def split: if_splits)
  have "tbit fat' k \<longleftrightarrow>
      (if 12 * unat i \<le> k \<and> k < 12 * unat i + 12 then bit v (k - 12 * unat i) else tbit fat k)"
    if k: "k < 8 * length fat" for k
  proof (cases "8 * ?i \<le> k \<and> k < 8 * ?i + 16")
    case True
    then obtain n where n: "k = 8 * ?i + n" "n < 16" using le_Suc_ex by auto
    have "tbit fat' k \<longleftrightarrow> bit w' n" using set16_tbit [OF f(1) k] n by simp
    also have "\<dots> \<longleftrightarrow> (if bit i 0 then if n < 4 then tbit fat k else bit v (n - 4)
        else if n < 12 then bit v n else tbit fat k)"
      using n get16_tbit [OF w, of n] by (simp add: w'_def pair_odd pair_even)
    finally show ?thesis using n pos12_bits [of i] p by auto
  next
    case False
    moreover have "\<not> (12 * unat i \<le> k \<and> k < 12 * unat i + 12)"
      using False pos12_bits [of i] p by (auto split: if_splits)
    ultimately show ?thesis using set16_tbit [OF f(1) k] by (simp only: if_False)
  qed
  then show ?thesis using s u f(2) by simp
qed

text \<open>An entry of the table of bits after another one was written.\<close>

lemma entry_bits_same:
  assumes "\<forall>k < l. tbit f' k \<longleftrightarrow> (if w * i \<le> k \<and> k < w * i + w then bit v (k - w * i) else tbit f k)"
    and "w * i + w \<le> l" "n < w"
  shows "tbit f' (w * i + n) = bit v n"
proof -
  have "tbit f' (w * i + n) = (if w * i \<le> w * i + n \<and> w * i + n < w * i + w then bit v (w * i + n - w * i) else tbit f (w * i + n))"
    using assms(1) [rule_format, of "w * i + n"] assms(2,3) by linarith
  then show ?thesis using assms(3) by simp
qed

lemma entry_bits_other:
  assumes "\<forall>k < l. tbit f' k \<longleftrightarrow> (if w * i \<le> k \<and> k < w * i + w then bit v (k - w * i) else tbit f k)"
    and "w * j + w \<le> l" "n < w" "i \<noteq> j"
  shows "tbit f' (w * j + n) = tbit f (w * j + n)"
proof -
  have "i < j \<or> j < i" using assms(4) by auto
  then have "w * i + w \<le> w * j \<or> w * j + w \<le> w * i"
    using mult_le_mono2 [of "Suc i" j w] mult_le_mono2 [of "Suc j" i w] by auto
  then have "\<not> (w * i \<le> w * j + n \<and> w * j + n < w * i + w)" using assms(3) by linarith
  moreover have "w * j + n < l" using assms(2,3) by linarith
  ultimately show ?thesis using assms(1) by (simp only: if_False)
qed

text \<open>A table whose operations act on the bits of one entry keeps the contract.\<close>

lemma table_by_bits:
  assumes get: "\<And>fat i. unat i < slots fat \<Longrightarrow>
      \<exists>v. get fat i = Some v \<and> (\<forall>n. bit v n \<longleftrightarrow> n < w \<and> tbit fat (w * unat i + n))"
    and put: "\<And>fat i v. unat i < slots fat \<Longrightarrow>
      \<exists>fat'. put fat i v = Some (fat', the (get fat i)) \<and> length fat' = length fat \<and>
        (\<forall>k < 8 * length fat. tbit fat' k \<longleftrightarrow>
          (if w * unat i \<le> k \<and> k < w * unat i + w then bit v (k - w * unat i) else tbit fat k))"
    and len: "\<And>fat fat'. length fat = length fat' \<Longrightarrow> slots fat = slots fat'"
    and room: "\<And>fat i. i < slots fat \<Longrightarrow> w * i + w \<le> 8 * length fat"
  shows "cluster_table get put slots (take_bit w)"
proof
  fix i :: u32 and fat v
  assume i: "unat i < slots fat"
  then show "\<exists>v. get fat i = Some v" using get by blast
  obtain f where f: "put fat i v = Some (f, the (get fat i))" "length f = length fat"
    and b: "\<forall>k < 8 * length fat. tbit f k \<longleftrightarrow>
      (if w * unat i \<le> k \<and> k < w * unat i + w then bit v (k - w * unat i) else tbit fat k)"
    using put [OF i] by blast
  have s: "slots f = slots fat" using f(2) by (rule len)
  obtain x where x: "get f i = Some x" "\<forall>n. bit x n \<longleftrightarrow> n < w \<and> tbit f (w * unat i + n)"
    using get [of i f] i s by auto
  have same: "tbit f (w * unat i + n) = bit v n" if "n < w" for n
    using that by (rule entry_bits_same [OF b room [OF i]])
  have "x = take_bit w v"
    by (rule bit_word_eqI) (use x(2) same in \<open>auto simp: bit_take_bit_iff\<close>)
  moreover have "get f j = get fat j" if j: "unat j < slots fat" "j \<noteq> i" for j
  proof -
    have ne: "unat i \<noteq> unat j" using j(2) by (metis word_unat_eq_iff)
    have other: "tbit f (w * unat j + n) = tbit fat (w * unat j + n)" if "n < w" for n
      using that ne by (rule entry_bits_other [OF b room [OF j(1)]])
    obtain y where y: "get f j = Some y" "\<forall>n. bit y n \<longleftrightarrow> n < w \<and> tbit f (w * unat j + n)"
      using get [of j f] j s by auto
    obtain z where z: "get fat j = Some z" "\<forall>n. bit z n \<longleftrightarrow> n < w \<and> tbit fat (w * unat j + n)"
      using get [of j fat] j by auto
    have "y = z" by (rule bit_word_eqI) (use y(2) z(2) other in auto)
    then show ?thesis using y z by simp
  qed
  ultimately show "\<exists>fat'. put fat i v = Some (fat', the (get fat i)) \<and> length fat' = length fat \<and>
      slots fat' = slots fat \<and> get fat' i = Some (take_bit w v) \<and>
      (\<forall>j. unat j < slots fat \<longrightarrow> j \<noteq> i \<longrightarrow> get fat' j = get fat j)"
    using f s x by auto
qed

interpretation f12: cluster_table GetCluster12 SetCluster12 slots12 "take_bit 12"
  by (rule table_by_bits [OF GetCluster12_bits SetCluster12_bits]) (auto simp: slots12_def)

subsubsection \<open>16 bits\<close>

lemma GetCluster16_bits:
  assumes "unat i < slots16 fat"
  shows "\<exists>v. GetCluster16 fat i = Some v \<and> (\<forall>n. bit v n \<longleftrightarrow> n < 16 \<and> tbit fat (16 * unat i + n))"
proof -
  note p = slots16_pos [OF assms]
  obtain w where w: "get16 fat (unat (i * 2)) = Some w"
    using get16_ok p pos16 by metis
  have "bit (ucast w :: u32) n \<longleftrightarrow> n < 16 \<and> tbit fat (16 * unat i + n)" for n
    using get16_tbit [OF w, of n] p by (auto simp: bit_simps pos16)
  then show ?thesis by (simp add: GetCluster16_def w)
qed

lemma SetCluster16_bits:
  assumes "unat i < slots16 fat"
  shows "\<exists>fat'. SetCluster16 fat i v = Some (fat', the (GetCluster16 fat i)) \<and> length fat' = length fat \<and>
    (\<forall>k < 8 * length fat. tbit fat' k \<longleftrightarrow>
      (if 16 * unat i \<le> k \<and> k < 16 * unat i + 16 then bit v (k - 16 * unat i) else tbit fat k))"
proof -
  note p = slots16_pos [OF assms]
  obtain u where u: "GetCluster16 fat i = Some u" using GetCluster16_bits [OF assms] by auto
  obtain fat' where f: "set16 fat (unat (i * 2)) (ucast v) = Some fat'" "length fat' = length fat"
    using set16_ok p pos16 by metis
  have "tbit fat' k \<longleftrightarrow> (if 16 * unat i \<le> k \<and> k < 16 * unat i + 16 then bit v (k - 16 * unat i) else tbit fat k)"
    if "k < 8 * length fat" for k
    using set16_tbit [OF f(1) that] p by (auto simp: pos16 bit_simps)
  then show ?thesis using u f by (simp add: SetCluster16_def)
qed

interpretation f16: cluster_table GetCluster16 SetCluster16 slots16 "take_bit 16"
  by (rule table_by_bits [OF GetCluster16_bits SetCluster16_bits]) (auto simp: slots16_def)

subsection \<open>Properties\<close>

text \<open>
  C13: Entries of a FAT12 and of a FAT16 table are independent, although two entries of 12 bits
  share a byte: for every entry that the buffer has room for, a read has a result, a write
  returns the old value, keeps the low 12 (16) bits of the new one and leaves every other entry
  as it was.
\<close>

theorem fat_entries_independent:
  "(unat i < slots12 fat \<longrightarrow>
     (\<exists>fat' old. GetCluster12 fat i = Some old \<and> SetCluster12 fat i v = Some (fat', old) \<and> length fat' = length fat \<and>
       GetCluster12 fat' i = Some (v AND 0x0FFF) \<and>
       (\<forall>j. unat j < slots12 fat \<longrightarrow> j \<noteq> i \<longrightarrow> GetCluster12 fat' j = GetCluster12 fat j))) \<and>
   (unat i < slots16 fat \<longrightarrow>
     (\<exists>fat' old. GetCluster16 fat i = Some old \<and> SetCluster16 fat i v = Some (fat', old) \<and> length fat' = length fat \<and>
       GetCluster16 fat' i = Some (v AND 0xFFFF) \<and>
       (\<forall>j. unat j < slots16 fat \<longrightarrow> j \<noteq> i \<longrightarrow> GetCluster16 fat' j = GetCluster16 fat j)))"
proof (intro conjI impI)
  assume i: "unat i < slots12 fat"
  show "\<exists>fat' old. GetCluster12 fat i = Some old \<and> SetCluster12 fat i v = Some (fat', old) \<and> length fat' = length fat \<and>
       GetCluster12 fat' i = Some (v AND 0x0FFF) \<and>
       (\<forall>j. unat j < slots12 fat \<longrightarrow> j \<noteq> i \<longrightarrow> GetCluster12 fat' j = GetCluster12 fat j)"
    using f12.get_ok [OF i] f12.put_ok [OF i, of v] unfolding and_FFF by auto
next
  assume i: "unat i < slots16 fat"
  show "\<exists>fat' old. GetCluster16 fat i = Some old \<and> SetCluster16 fat i v = Some (fat', old) \<and> length fat' = length fat \<and>
       GetCluster16 fat' i = Some (v AND 0xFFFF) \<and>
       (\<forall>j. unat j < slots16 fat \<longrightarrow> j \<noteq> i \<longrightarrow> GetCluster16 fat' j = GetCluster16 fat j)"
    using f16.get_ok [OF i] f16.put_ok [OF i, of v] unfolding and_FFFF by auto
qed

theorem fat_entries_independent_witness:
  "\<exists>f. SetCluster12 [0xF0, 0xFF, 0xFF] 1 0xABC = Some (f, 0xFFF) \<and> GetCluster12 f 0 = Some 0xFF0"
proof -
  have "GetCluster12 [0xF0, 0xFF, 0xFF] 1 = Some 0xFFF" "GetCluster12 [0xF0, 0xFF, 0xFF] 0 = Some 0xFF0"
    by code_simp+
  then show ?thesis
    using fat_entries_independent [where i = 1 and fat = "[0xF0, 0xFF, 0xFF]" and v = "0xABC"] by (auto simp: slots12_def)
qed



text \<open>A zeroed table has only free entries.\<close>

lemma zero_tbit: "k < 8 * n \<Longrightarrow> \<not> tbit (replicate n 0) k"
  by (simp add: tbit_def less_mult_imp_div_less mult.commute)

lemma zero12: "unat i < slots12 (replicate n 0) \<Longrightarrow> GetCluster12 (replicate n 0) i = Some 0"
  using GetCluster12_bits [of i "replicate n 0"] zero_tbit [of _ n]
  by (fastforce intro!: bit_word_eqI simp: slots12_def)

lemma zero16: "unat i < slots16 (replicate n 0) \<Longrightarrow> GetCluster16 (replicate n 0) i = Some 0"
  using GetCluster16_bits [of i "replicate n 0"] zero_tbit [of _ n]
  by (fastforce intro!: bit_word_eqI simp: slots16_def)

text \<open>
  \<open>InitFat12\<close> and \<open>InitFat16\<close> on a buffer with room for at least the two reserved
  entries give a table in which entry 0 holds the media type below set bits, entry 1 the
  end-of-chain mark, and every other entry is free; an end-of-chain mark outside of the range of
  the format fails the assertion.
\<close>

theorem fat_init_tables:
  "(1 < slots12 fat \<longrightarrow> (if 0xFF8 \<le> (eoc AND 0xFFF) then
     (\<exists>f. InitFat12 fat (length fat) media eoc = Some f \<and> length f = length fat \<and>
       GetCluster12 f 0 = Some (0xF00 OR ucast media) \<and> GetCluster12 f 1 = Some (eoc AND 0xFFF) \<and>
       (\<forall>j. unat j < slots12 fat \<longrightarrow> j \<noteq> 0 \<longrightarrow> j \<noteq> 1 \<longrightarrow> GetCluster12 f j = Some 0))
     else InitFat12 fat (length fat) media eoc = None)) \<and>
   (1 < slots16 fat \<longrightarrow> (if 0xFFF8 \<le> (eoc AND 0xFFFF) then
     (\<exists>f. InitFat16 fat (length fat) media eoc = Some f \<and> length f = length fat \<and>
       GetCluster16 f 0 = Some (0xFF00 OR ucast media) \<and> GetCluster16 f 1 = Some (eoc AND 0xFFFF) \<and>
       (\<forall>j. unat j < slots16 fat \<longrightarrow> j \<noteq> 0 \<longrightarrow> j \<noteq> 1 \<longrightarrow> GetCluster16 f j = Some 0))
     else InitFat16 fat (length fat) media eoc = None))"
proof (intro conjI impI)
  let ?z = "replicate (length fat) 0 :: u8 list"
  assume "1 < slots12 fat"
  then have s: "slots12 ?z = slots12 fat" "1 < slots12 ?z" by (simp_all add: slots12_def)
  have "take_bit 12 (0xF00 OR ucast media :: u32) = 0xF00 OR ucast media"
    by (rule bit_word_eqI) (auto simp: bit_simps dest: bit_imp_le_length)
  moreover have "(eoc AND 0xFFF) \<le> 0xFFF" by (rule word_and_le1)
  ultimately show "if 0xFF8 \<le> (eoc AND 0xFFF) then
     (\<exists>f. InitFat12 fat (length fat) media eoc = Some f \<and> length f = length fat \<and>
       GetCluster12 f 0 = Some (0xF00 OR ucast media) \<and> GetCluster12 f 1 = Some (eoc AND 0xFFF) \<and>
       (\<forall>j. unat j < slots12 fat \<longrightarrow> j \<noteq> 0 \<longrightarrow> j \<noteq> 1 \<longrightarrow> GetCluster12 f j = Some 0))
     else InitFat12 fat (length fat) media eoc = None"
    using f12.put_two [OF s(2), of "0xF00 OR ucast media" eoc] zero12 s(1)
    unfolding InitFat12_def CLUSTER_EOC_12_LO_def CLUSTER_EOC_12_HI_def and_FFF [symmetric]
    by (auto simp: assert_opt_def and_FFF Let_def)
next
  let ?z = "replicate (length fat) 0 :: u8 list"
  assume "1 < slots16 fat"
  then have s: "slots16 ?z = slots16 fat" "1 < slots16 ?z" by (simp_all add: slots16_def)
  have "take_bit 16 (0xFF00 OR ucast media :: u32) = 0xFF00 OR ucast media"
    by (rule bit_word_eqI) (auto simp: bit_simps dest: bit_imp_le_length)
  moreover have "(eoc AND 0xFFFF) \<le> 0xFFFF" by (rule word_and_le1)
  ultimately show "if 0xFFF8 \<le> (eoc AND 0xFFFF) then
     (\<exists>f. InitFat16 fat (length fat) media eoc = Some f \<and> length f = length fat \<and>
       GetCluster16 f 0 = Some (0xFF00 OR ucast media) \<and> GetCluster16 f 1 = Some (eoc AND 0xFFFF) \<and>
       (\<forall>j. unat j < slots16 fat \<longrightarrow> j \<noteq> 0 \<longrightarrow> j \<noteq> 1 \<longrightarrow> GetCluster16 f j = Some 0))
     else InitFat16 fat (length fat) media eoc = None"
    using f16.put_two [OF s(2), of "0xFF00 OR ucast media" eoc] zero16 s(1)
    by (auto simp: assert_opt_def and_FFFF InitFat16_def CLUSTER_EOC_16_LO_def CLUSTER_EOC_16_HI_def Let_def)
qed

theorem fat_init_tables_witness:
  "\<exists>f. InitFat12 (replicate 6 7) 6 0xF0 0xFFF = Some f \<and> GetCluster12 f 0 = Some 0xFF0 \<and> GetCluster12 f 2 = Some 0"
proof -
  have "1 < slots12 (replicate 6 7)" "unat (2 :: u32) < slots12 (replicate 6 7)" by (simp_all add: slots12_def)
  moreover have "(0xF00 OR ucast (0xF0 :: u8) :: u32) = 0xFF0" by code_simp
  ultimately show ?thesis
    using fat_init_tables [where fat = "replicate 6 7" and media = "0xF0" and eoc = "0xFFF"] by auto
qed

end
