(* ===== verification/Fat_Dir.thy ===== *)
theory Fat_Dir
  imports Fat_Table Ctype
begin

text \<open>
  Strings, dates, directory entries and short names of \<^verbatim>\<open>src/tools/fatfs/fat.c\<close> and
  \<^verbatim>\<open>fat.h\<close>. A C string is a list of bytes up to and including its NUL. The bit fields
  of dates and times are words of their width. The calls of the host's C library with a result that
  depends on the host are arguments: the current local time, and \<open>mktime\<close> on the broken-down
  time. The character classes are those of the "C" locale.
\<close>

definition NAME_LENGTH :: nat where "NAME_LENGTH = 8"
definition EXTENSION_LENGTH :: nat where "EXTENSION_LENGTH = 3"
definition LABEL_LENGTH :: nat where "LABEL_LENGTH = 11"
definition SHORTNAME_LENGTH :: nat where "SHORTNAME_LENGTH = NAME_LENGTH + 1 + EXTENSION_LENGTH"
definition MAX_SHORTNAME :: nat where "MAX_SHORTNAME = SHORTNAME_LENGTH + 1"
definition BPBSIG_DOS41 :: u8 where "BPBSIG_DOS41 = 0x29"
definition BOOTSIG :: u16 where "BOOTSIG = 0xAA55"

lemmas fat_lengths = NAME_LENGTH_def EXTENSION_LENGTH_def LABEL_LENGTH_def SHORTNAME_LENGTH_def MAX_SHORTNAME_def

subsection \<open>Strings\<close>

fun trim_lead :: "u8 list \<Rightarrow> nat \<Rightarrow> nat" where
  "trim_lead [] i = 0"
| "trim_lead (c # cs) i = (if c \<noteq> 32 then i else trim_lead cs (i + 1))"

fun trim_trail :: "u8 list \<Rightarrow> nat \<Rightarrow> nat" where
  "trim_trail src 0 = 0"
| "trim_trail src (Suc i) = (if src ! i \<noteq> 32 then Suc i else trim_trail src i)"

definition ReadFatString :: "u8 list \<Rightarrow> u8 list \<Rightarrow> nat \<Rightarrow> (u8 list \<times> nat) option" where
  "ReadFatString dst src n = do {
     assert_opt (n \<le> length src);
     let beg = trim_lead (take n src) 0;
     let end = trim_trail src n;
     let i = end - beg;
     assert_opt (i \<le> n);
     assert_opt (i < length dst);
     Some (take i (drop beg src) @ 0 # drop (i + 1) dst, i)
   }"

definition c_strnlen :: "u8 list \<Rightarrow> nat \<Rightarrow> nat" where
  "c_strnlen src n = length (takeWhile (\<lambda>c. c \<noteq> 0) (take n src))"

definition c_strncpy :: "u8 list \<Rightarrow> u8 list \<Rightarrow> nat \<Rightarrow> u8 list option" where
  "c_strncpy dst src n = do {
     assert_opt (n \<le> length dst \<and> (n \<le> length src \<or> 0 \<in> set src));
     let k = c_strnlen src n;
     Some (take k src @ replicate (n - k) 0 @ drop n dst)
   }"

function pad_spaces :: "u8 list \<Rightarrow> nat \<Rightarrow> nat \<Rightarrow> u8 list \<times> nat" where
  "pad_spaces dst len n = (if n \<ge> len \<and> n - len > 0 then pad_spaces (dst[len := 32]) (len + 1) n else (dst, len))"
  by pat_completeness auto

termination pad_spaces
  by (relation "measure (\<lambda>(dst, len, n). n - len)") auto

declare pad_spaces.simps [simp del]

definition WriteFatString :: "u8 list \<Rightarrow> u8 list \<Rightarrow> nat \<Rightarrow> (u8 list \<times> nat) option" where
  "WriteFatString dst src n = do {
     let len = c_strnlen src n;
     dst \<leftarrow> c_strncpy dst src n;
     Some (pad_spaces dst len n)
   }"

subsection \<open>BIOS parameter block and boot sector\<close>

record BiosParamBlock =
  SectorSize :: u16
  SectorsPerCluster :: u8
  ReservedSectorCount :: u16
  TableCount :: u8
  RootDirCapacity :: u16
  SectorCount :: u16
  MediaType :: u8
  SectorsPerTable :: u16
  SectorsPerTrack :: u16
  HeadCount :: u16
  HiddenSectorCount :: u32
  SectorCountLarge :: u32
  DriveNumber :: u8
  bpb_Reserved :: u8
  Signature :: u8
  VolumeId :: u32
  bpb_Label :: "u8 list"
  FsType :: "u8 list"

definition InitBiosParamBlock :: "BiosParamBlock option" where
  "InitBiosParamBlock = do {
     (label, _) \<leftarrow> WriteFatString (replicate LABEL_LENGTH 0) [0] LABEL_LENGTH;
     (fs, _) \<leftarrow> WriteFatString (replicate NAME_LENGTH 0) [0] NAME_LENGTH;
     Some \<lparr>SectorSize = 0, SectorsPerCluster = 0, ReservedSectorCount = 0, TableCount = 0, RootDirCapacity = 0,
       SectorCount = 0, MediaType = 0, SectorsPerTable = 0, SectorsPerTrack = 0, HeadCount = 0,
       HiddenSectorCount = 0, SectorCountLarge = 0, DriveNumber = 0, bpb_Reserved = 0,
       Signature = BPBSIG_DOS41, VolumeId = 0, bpb_Label = label, FsType = fs\<rparr>
   }"

record BootSector =
  JumpCode :: "u8 list"
  OemName :: "u8 list"
  BiosParams :: BiosParamBlock
  BootCode :: "u8 list"
  BootSignature :: u16

definition JumpCode_bytes :: "u8 list" where "JumpCode_bytes = [0xEB, 0x3C, 0x90]"

definition BootCode_bytes :: "u8 list" where
  "BootCode_bytes = [0xFC, 0x31, 0xC0, 0x8E, 0xD8, 0x8D, 0x36, 0x5D, 0x7C, 0xB4, 0x0E, 0xBB, 0x07, 0x00,
     0xAC, 0x20, 0xC0, 0x74, 0x04, 0xCD, 0x10, 0xEB, 0xF2, 0x30, 0xE4, 0xCD, 0x16, 0xCD, 0x19, 0xEB, 0xFE] @
     [13, 10] @ map of_char ''This disk is not bootable!'' @
     [13, 10] @ map of_char ''Please insert a bootable disk, '' @
     map of_char ''then press any key to try again...'' @ [13, 10, 0]"

definition InitBootSector :: "BiosParamBlock \<Rightarrow> u8 list \<Rightarrow> BootSector option" where
  "InitBootSector bpb oemName = do {
     assert_opt (length BootCode_bytes \<le> 448);
     (oem, _) \<leftarrow> WriteFatString (replicate NAME_LENGTH 0) oemName NAME_LENGTH;
     Some \<lparr>JumpCode = JumpCode_bytes, OemName = oem, BiosParams = bpb,
       BootCode = BootCode_bytes @ replicate (448 - length BootCode_bytes) 0, BootSignature = BOOTSIG\<rparr>
   }"

subsection \<open>Dates and times\<close>

record tm =
  tm_sec :: int
  tm_min :: int
  tm_hour :: int
  tm_mday :: int
  tm_mon :: int
  tm_year :: int

record FatDate =
  Day :: "5 word"
  Month :: "4 word"
  Year :: "7 word"

record FatTime =
  Seconds :: "5 word"
  Minutes :: "6 word"
  Hours :: "5 word"

definition GetDate :: "tm \<Rightarrow> FatDate \<Rightarrow> tm" where
  "GetDate dst src = dst\<lparr>tm_year := uint (Year src) + 80, tm_mon := uint (Month src) - 1, tm_mday := uint (Day src)\<rparr>"

definition GetTime :: "tm \<Rightarrow> FatTime \<Rightarrow> tm" where
  "GetTime dst src = dst\<lparr>tm_hour := uint (Hours src), tm_min := uint (Minutes src), tm_sec := push_bit 1 (uint (Seconds src))\<rparr>"

definition SetDate :: "tm \<Rightarrow> FatDate" where
  "SetDate src = \<lparr>Day = of_int (tm_mday src), Month = of_int (tm_mon src + 1), Year = of_int (tm_year src - 80)\<rparr>"

definition SetTime :: "tm \<Rightarrow> FatTime" where
  "SetTime src = \<lparr>Seconds = of_int (drop_bit 1 (tm_sec src)), Minutes = of_int (tm_min src), Hours = of_int (tm_hour src)\<rparr>"

subsection \<open>Directory entries\<close>

record DirEntry =
  Label :: "u8 list"
  Attributes :: u8
  de_Reserved1 :: u8
  de_Reserved2 :: u8
  CreationTime :: FatTime
  CreationDate :: FatDate
  AccessedDate :: FatDate
  de_Reserved3 :: u16
  ModifiedTime :: FatTime
  ModifiedDate :: FatDate
  FirstCluster :: u16
  FileSize :: u32

definition SetCreationTime :: "DirEntry \<Rightarrow> tm \<Rightarrow> DirEntry" where
  "SetCreationTime dst src = dst\<lparr>CreationDate := SetDate src, CreationTime := SetTime src\<rparr>"

definition SetModifiedTime :: "DirEntry \<Rightarrow> tm \<Rightarrow> DirEntry" where
  "SetModifiedTime dst src = dst\<lparr>ModifiedDate := SetDate src, ModifiedTime := SetTime src\<rparr>"

definition SetAccessedTime :: "DirEntry \<Rightarrow> tm \<Rightarrow> DirEntry" where
  "SetAccessedTime dst src = dst\<lparr>AccessedDate := SetDate src\<rparr>"

definition GetCreationTime :: "(tm \<Rightarrow> tm \<times> int) \<Rightarrow> tm \<Rightarrow> DirEntry \<Rightarrow> tm \<times> int" where
  "GetCreationTime mktime dst src = mktime (GetTime (GetDate dst (CreationDate src)) (CreationTime src))"

definition GetModifiedTime :: "(tm \<Rightarrow> tm \<times> int) \<Rightarrow> tm \<Rightarrow> DirEntry \<Rightarrow> tm \<times> int" where
  "GetModifiedTime mktime dst src = mktime (GetTime (GetDate dst (ModifiedDate src)) (ModifiedTime src))"

definition GetAccessedTime :: "(tm \<Rightarrow> tm \<times> int) \<Rightarrow> tm \<Rightarrow> DirEntry \<Rightarrow> tm \<times> int" where
  "GetAccessedTime mktime dst src = mktime (GetDate dst (AccessedDate src))"

definition zero_date :: FatDate where "zero_date = \<lparr>Day = 0, Month = 0, Year = 0\<rparr>"
definition zero_time :: FatTime where "zero_time = \<lparr>Seconds = 0, Minutes = 0, Hours = 0\<rparr>"

definition zero_entry :: DirEntry where
  "zero_entry = \<lparr>Label = replicate LABEL_LENGTH 0, Attributes = 0, de_Reserved1 = 0, de_Reserved2 = 0,
     CreationTime = zero_time, CreationDate = zero_date, AccessedDate = zero_date, de_Reserved3 = 0,
     ModifiedTime = zero_time, ModifiedDate = zero_date, FirstCluster = 0, FileSize = 0\<rparr>"

text \<open>\<open>now\<close> is the result of \<open>localtime\<close>.\<close>

definition InitDirEntry :: "tm \<Rightarrow> DirEntry" where
  "InitDirEntry now = SetAccessedTime (SetModifiedTime (SetCreationTime zero_entry now) now) now"

definition GetLabel :: "u8 list \<Rightarrow> DirEntry \<Rightarrow> u8 list option" where
  "GetLabel dst src = map_option fst (ReadFatString dst (Label src) LABEL_LENGTH)"

definition SetLabel :: "DirEntry \<Rightarrow> u8 list \<Rightarrow> DirEntry option" where
  "SetLabel dst src = do {
     (label, _) \<leftarrow> WriteFatString (Label dst) src LABEL_LENGTH;
     Some (dst\<lparr>Label := label\<rparr>)
   }"

definition ATTR_READONLY :: u8 where "ATTR_READONLY = 1"
definition ATTR_HIDDEN :: u8 where "ATTR_HIDDEN = 2"
definition ATTR_SYSTEM :: u8 where "ATTR_SYSTEM = 4"
definition ATTR_LABEL :: u8 where "ATTR_LABEL = 8"
definition ATTR_DIRECTORY :: u8 where "ATTR_DIRECTORY = 16"
definition ATTR_ARCHIVE :: u8 where "ATTR_ARCHIVE = 32"
definition ATTR_DEVICE :: u8 where "ATTR_DEVICE = 64"
definition ATTR_LFN :: u8 where "ATTR_LFN = ATTR_LABEL OR ATTR_SYSTEM OR ATTR_HIDDEN OR ATTR_READONLY"

lemmas attr_defs = ATTR_READONLY_def ATTR_HIDDEN_def ATTR_SYSTEM_def ATTR_LABEL_def ATTR_DIRECTORY_def
  ATTR_ARCHIVE_def ATTR_DEVICE_def ATTR_LFN_def

definition HasAttribute :: "DirEntry \<Rightarrow> u8 \<Rightarrow> bool" where
  "HasAttribute src attr \<longleftrightarrow> (Attributes src AND attr) = attr"

definition ClearAttribute :: "DirEntry \<Rightarrow> u8 \<Rightarrow> DirEntry" where
  "ClearAttribute dst attr = dst\<lparr>Attributes := Attributes dst AND NOT attr\<rparr>"

definition SetAttribute :: "DirEntry \<Rightarrow> u8 \<Rightarrow> DirEntry" where
  "SetAttribute dst attr = dst\<lparr>Attributes := Attributes dst OR attr\<rparr>"

definition IsReadOnly :: "DirEntry \<Rightarrow> bool" where
  "IsReadOnly src \<longleftrightarrow> HasAttribute src ATTR_READONLY \<and> \<not> HasAttribute src ATTR_LFN"

definition IsHidden :: "DirEntry \<Rightarrow> bool" where
  "IsHidden src \<longleftrightarrow> HasAttribute src ATTR_HIDDEN \<and> \<not> HasAttribute src ATTR_LFN"

definition IsSystemFile :: "DirEntry \<Rightarrow> bool" where
  "IsSystemFile src \<longleftrightarrow> HasAttribute src ATTR_SYSTEM \<and> \<not> HasAttribute src ATTR_LFN"

definition IsLabel :: "DirEntry \<Rightarrow> bool" where
  "IsLabel src \<longleftrightarrow> HasAttribute src ATTR_LABEL \<and> \<not> HasAttribute src ATTR_LFN"

definition IsDirectory :: "DirEntry \<Rightarrow> bool" where
  "IsDirectory src \<longleftrightarrow> HasAttribute src ATTR_DIRECTORY"

definition IsDeviceFile :: "DirEntry \<Rightarrow> bool" where
  "IsDeviceFile src \<longleftrightarrow> HasAttribute src ATTR_DEVICE"

definition IsArchive :: "DirEntry \<Rightarrow> bool" where
  "IsArchive src \<longleftrightarrow> HasAttribute src ATTR_ARCHIVE"

definition IsLongFileName :: "DirEntry \<Rightarrow> bool" where
  "IsLongFileName src \<longleftrightarrow> HasAttribute src ATTR_LFN \<and> FirstCluster src = 0"

definition IsDeleted :: "DirEntry \<Rightarrow> bool" where
  "IsDeleted src \<longleftrightarrow> Label src ! 0 = 0xE5"

definition IsFree :: "DirEntry \<Rightarrow> bool" where
  "IsFree src \<longleftrightarrow> IsDeleted src \<or> Label src ! 0 = 0"

definition IsValidFile :: "DirEntry \<Rightarrow> bool" where
  "IsValidFile src \<longleftrightarrow> \<not> IsFree src \<and> \<not> IsLongFileName src \<and> \<not> IsDeviceFile src \<and> \<not> IsLabel src"

definition IsRoot :: "DirEntry \<Rightarrow> bool" where
  "IsRoot src \<longleftrightarrow> IsDirectory src \<and> FirstCluster src = 0"

subsection \<open>Short names\<close>

definition str_of :: "u8 list \<Rightarrow> u8 list" where
  "str_of s = takeWhile (\<lambda>c. c \<noteq> 0) s"

text \<open>
  The buffers \<open>name\<close> and \<open>ext\<close> start with any contents; the result is the string
  that \<open>snprintf\<close> stores in \<open>dst\<close>, without its NUL.
\<close>

definition GetShortName :: "DirEntry \<Rightarrow> u8 list option" where
  "GetShortName src = do {
     (nm, _) \<leftarrow> ReadFatString (replicate (NAME_LENGTH + 1) 0) (Label src) NAME_LENGTH;
     (ext, _) \<leftarrow> ReadFatString (replicate (EXTENSION_LENGTH + 1) 0) (drop NAME_LENGTH (Label src)) EXTENSION_LENGTH;
     let nm = (if nm ! 0 = 0x05 then nm[0 := 0xE5] else nm);
     Some (take (MAX_SHORTNAME - 1) (if ext ! 0 \<noteq> 0 then str_of nm @ [46] @ str_of ext else str_of nm))
   }"

definition IsCurrentDirectory :: "DirEntry \<Rightarrow> bool option" where
  "IsCurrentDirectory src = map_option (\<lambda>s. s = [46]) (GetShortName src)"

definition IsParentDirectory :: "DirEntry \<Rightarrow> bool option" where
  "IsParentDirectory src = map_option (\<lambda>s. s = [46, 46]) (GetShortName src)"

text \<open>The position after the last character that is not a space, but at least one.\<close>

fun trim_end :: "u8 list \<Rightarrow> nat \<Rightarrow> nat" where
  "trim_end s 0 = 0"
| "trim_end s (Suc 0) = Suc 0"
| "trim_end s (Suc (Suc k)) = (if isspace (cchar (s ! Suc k)) then trim_end s (Suc k) else Suc (Suc k))"

record shortname =
  srcCopy :: "u8 list"
  ext_pos :: "nat option"
  dotSeen :: bool
  nameLen :: nat
  extLen :: nat

definition short_valid :: "nat \<Rightarrow> bool \<Rightarrow> u8 \<Rightarrow> bool" where
  "short_valid i dot c \<longleftrightarrow> isalnum (uint c) \<or> c > 0x7F \<or>
     c \<in> {36, 37, 39, 45, 95, 64, 126, 96, 33, 40, 41, 123, 125, 94, 35, 38} \<or>
     c = 46 \<and> \<not> dot \<or> c = 32 \<and> i \<noteq> 0"

text \<open>The loop over the characters; \<open>None\<close> is the \<open>return false\<close> for an invalid one.\<close>

fun short_loop :: "nat \<Rightarrow> u8 list \<Rightarrow> shortname \<Rightarrow> shortname option" where
  "short_loop i [] s = Some s"
| "short_loop i (c # cs) s =
    (if c = 0 then Some s
     else if \<not> short_valid i (dotSeen s) c then None
     else if c = 46 then
       short_loop (i + 1) cs (s\<lparr>dotSeen := True, srcCopy := (srcCopy s)[i := 0], ext_pos := Some (i + 1)\<rparr>)
     else
       let s = s\<lparr>srcCopy := (srcCopy s)[i := of_int (toupper (uint c))]\<rparr> in
       short_loop (i + 1) cs
         (if \<not> dotSeen s then s\<lparr>nameLen := nameLen s + 1\<rparr> else s\<lparr>extLen := extLen s + 1\<rparr>))"

definition SetShortName :: "DirEntry \<Rightarrow> u8 list \<Rightarrow> (bool \<times> DirEntry) option" where
  "SetShortName dst src = do {
     let src = dropWhile (\<lambda>c. isspace (cchar c)) src;
     let len = trim_end src (length (str_of src));
     if len = 0 \<or> len > SHORTNAME_LENGTH then Some (False, dst)
     else case short_loop 0 (take len src)
         \<lparr>srcCopy = replicate MAX_SHORTNAME 0, ext_pos = None, dotSeen = False, nameLen = 0, extLen = 0\<rparr> of
       None \<Rightarrow> Some (False, dst)
     | Some s \<Rightarrow>
         if nameLen s = 0 \<or> nameLen s > NAME_LENGTH \<or> extLen s > EXTENSION_LENGTH then Some (False, dst)
         else do {
           let nm = srcCopy s;
           let ext = (case ext_pos s of None \<Rightarrow> [0] | Some i \<Rightarrow> drop i (srcCopy s));
           assert_opt (length (str_of nm) = nameLen s);
           assert_opt (length (str_of ext) = extLen s);
           let nm = (if nm ! 0 = 0xE5 then nm[0 := 0x05] else nm);
           (label, _) \<leftarrow> WriteFatString (Label dst) nm NAME_LENGTH;
           (tail, _) \<leftarrow> WriteFatString (drop NAME_LENGTH label) ext EXTENSION_LENGTH;
           Some (True, dst\<lparr>Label := take NAME_LENGTH label @ tail\<rparr>)
         }
   }"

definition GetShortNameChecksum :: "DirEntry \<Rightarrow> u8" where
  "GetShortNameChecksum src =
    foldl (\<lambda>sum c. (if bit sum 0 then 0x80 else 0) + drop_bit 1 sum + c) 0 (take LABEL_LENGTH (Label src))"

end
