(* ===== verification/Fat_Short.thy ===== *)
theory Fat_Short
  imports Fat_Dir
begin

text \<open>
  Properties of the FAT strings, short names, dates and attributes.
\<close>

subsection \<open>Strings padded with spaces\<close>

lemma pad_spaces_eq:
  "len \<le> n \<Longrightarrow> n \<le> length dst \<Longrightarrow>
    pad_spaces dst len n = (take len dst @ replicate (n - len) 32 @ drop n dst, n)"
proof (induction dst len n rule: pad_spaces.induct)
  case (1 dst len n)
  show ?case
  proof (cases "len = n")
    case True
    then show ?thesis by (simp add: pad_spaces.simps)
  next
    case False
    then have lt: "len < n" using 1(2) by simp
    have "pad_spaces dst len n = pad_spaces (dst[len := 32]) (len + 1) n"
      using lt by (subst pad_spaces.simps) simp
    also have "\<dots> = (take (len + 1) (dst[len := 32]) @ replicate (n - (len + 1)) 32 @ drop n (dst[len := 32]), n)"
      using 1 lt by (intro "1.IH") auto
    also have "take (len + 1) (dst[len := 32]) = take len dst @ [32]"
      using lt 1(3) by (simp add: take_Suc_conv_app_nth)
    finally have "pad_spaces dst len n = (take len dst @ 32 # replicate (n - (len + 1)) 32 @ drop n dst, n)"
      using lt by simp
    moreover have "replicate (n - len) (32 :: u8) = 32 # replicate (n - (len + 1)) 32"
      using lt by (simp flip: replicate_Suc add: Suc_diff_Suc)
    ultimately show ?thesis by simp
  qed
qed

lemma WriteFatString_eq:
  assumes "n \<le> length dst" "n \<le> length src \<or> 0 \<in> set src"
  shows "WriteFatString dst src n =
    (let s = takeWhile (\<lambda>c. c \<noteq> 0) (take n src) in Some (s @ replicate (n - length s) 32 @ drop n dst, n))"
proof -
  let ?s = "takeWhile (\<lambda>c. c \<noteq> 0) (take n src)"
  have "length ?s \<le> length (take n src)" by (rule length_takeWhile_le)
  then have l: "length ?s \<le> n" "length ?s \<le> length src" by simp_all
  have "take (length ?s) (take n src) = ?s" by (rule takeWhile_eq_take [symmetric])
  then have t: "take (length ?s) src = ?s" using l by (simp add: min_absorb1)
  show ?thesis
    using assms l t
    by (simp add: WriteFatString_def c_strncpy_def c_strnlen_def Let_def pad_spaces_eq)
qed

definition trimmed :: "u8 list \<Rightarrow> bool" where
  "trimmed s \<longleftrightarrow> s = [] \<or> hd s \<noteq> 32 \<and> last s \<noteq> 32"

lemma trim_lead_spaces: "trim_lead (replicate a 32 @ c # cs) i = (if c \<noteq> 32 then i + a else trim_lead cs (i + a + 1))"
  by (induction a arbitrary: i) auto

lemma trim_lead_all: "trim_lead (replicate a 32) i = 0"
  by (induction a arbitrary: i) auto

lemma trim_trail_spaces:
  "m + b \<le> length src \<Longrightarrow> (\<forall>j < b. src ! (m + j) = 32) \<Longrightarrow> trim_trail src (m + b) = trim_trail src m"
  by (induction b) auto

lemma ReadFatString_eq:
  assumes "length dst > length s" "n \<le> length src" "take n src = s @ replicate b 32" "trimmed s"
  shows "ReadFatString dst src n = Some (s @ 0 # drop (length s + 1) dst, length s)"
proof -
  have n: "n = length s + b" using assms(2,3) by (metis length_append length_replicate length_take min_absorb2)
  have nth: "src ! j = (s @ replicate b 32) ! j" if "j < n" for j
    using assms(3) that by (metis nth_take)
  have tr: "trim_trail src n = trim_trail src (length s)"
    unfolding n by (rule trim_trail_spaces) (use assms(2) n nth in \<open>auto simp: nth_append\<close>)
  have end': "trim_trail src (length s) = length s"
  proof (cases s rule: rev_cases)
    case (snoc t c)
    then have "src ! length t = c" using nth [of "length t"] n by (simp add: nth_append)
    then show ?thesis using assms(4) snoc by (simp add: trimmed_def)
  qed simp
  have beg: "trim_lead (take n src) 0 = 0"
    unfolding assms(3) using assms(4) by (cases s) (auto simp: trim_lead_all trimmed_def)
  have "take (length s) src = s" using assms(3) n by (metis append_eq_conv_conj min.absorb1 take_take le_add1)
  then show ?thesis
    using assms(1,2) le_add1 [of "length s" b]
    by (simp add: ReadFatString_def Let_def tr end' beg flip: n)
qed

subsection \<open>Characters of a short name\<close>

definition up :: "u8 \<Rightarrow> u8" where "up c = of_int (toupper (uint c))"

lemma up_valid:
  assumes "short_valid 1 True c"
  shows "c \<noteq> 0" "c \<noteq> 46" "up c \<noteq> 0" "up c \<noteq> 5" "up c = 32 \<longleftrightarrow> c = 32" "isspace (cchar c) \<longleftrightarrow> c = 32"
proof -
  show "c \<noteq> 0" "c \<noteq> 46" using assms by (auto simp: short_valid_def ctype_defs)
  have c5: "c \<noteq> 5" using assms by (auto simp: short_valid_def ctype_defs)
  have u: "up c = (if islower (uint c) then c - 32 else c)" by (simp add: up_def toupper_eq)
  have low: "\<not> islower (uint c)" if "c = 32 \<or> c = 37 \<or> c = 64" using that by (auto simp: islower_def)
  have lo: "c - 32 \<noteq> 0" "c - 32 \<noteq> 5" "c - 32 \<noteq> 32" if "islower (uint c)"
    using low that unfolding diff_eq_eq by auto
  show "up c \<noteq> 0" using lo(1) \<open>c \<noteq> 0\<close> u by metis
  show "up c \<noteq> 5" using lo(2) c5 u by metis
  show "up c = 32 \<longleftrightarrow> c = 32" using lo(3) low u by metis
  show "isspace (cchar c) \<longleftrightarrow> c = 32"
  proof
    assume "isspace (cchar c)"
    then have "sint c \<in> {9, 12, 11, 10, 13, 32}" by (auto simp: isspace_def cchar_def)
    then have "c \<in> of_int ` {9, 12, 11, 10, 13, 32}" by (intro image_eqI [of _ _ "sint c"]) simp_all
    then show "c = 32" using assms by (auto simp: short_valid_def ctype_defs)
  qed (simp add: isspace_def cchar_def)
qed

lemma short_valid_pos: "short_valid i d c \<longleftrightarrow> (if i = 0 then c \<noteq> 32 else True) \<and> (c = 46 \<and> \<not> d \<or> short_valid 1 True c)"
  by (auto simp: short_valid_def ctype_defs)

text \<open>The loop over characters other than the dot.\<close>

lemma short_loop_chars:
  assumes "\<forall>c \<in> set cs. short_valid 1 True c" "i = 0 \<longrightarrow> cs \<noteq> [] \<longrightarrow> hd cs \<noteq> 32"
    "i + length cs \<le> length (srcCopy s)"
  shows "short_loop i (cs @ rest) s = short_loop (i + length cs) rest
    (s\<lparr>srcCopy := take i (srcCopy s) @ map up cs @ drop (i + length cs) (srcCopy s),
       nameLen := nameLen s + (if dotSeen s then 0 else length cs),
       extLen := extLen s + (if dotSeen s then length cs else 0)\<rparr>)"
  using assms
proof (induction cs arbitrary: i s)
  case (Cons c cs)
  let ?s = "s\<lparr>srcCopy := (srcCopy s)[i := up c], nameLen := nameLen s + (if dotSeen s then 0 else 1),
    extLen := extLen s + (if dotSeen s then 1 else 0)\<rparr>"
  have v: "short_valid i (dotSeen s) c" "c \<noteq> 0" "c \<noteq> 46"
    using Cons.prems up_valid(1,2) [of c] by (auto simp: short_valid_pos [of i])
  have "short_loop i ((c # cs) @ rest) s = short_loop (Suc i) (cs @ rest) ?s"
    using v by (simp add: Let_def up_def)
  also have "\<dots> = short_loop (Suc i + length cs) rest
    (?s\<lparr>srcCopy := take (Suc i) (srcCopy ?s) @ map up cs @ drop (Suc i + length cs) (srcCopy ?s),
       nameLen := nameLen ?s + (if dotSeen ?s then 0 else length cs),
       extLen := extLen ?s + (if dotSeen ?s then length cs else 0)\<rparr>)"
    using Cons.prems by (intro Cons.IH) auto
  also have "take (Suc i) (srcCopy ?s) = take i (srcCopy s) @ [up c]"
    using Cons.prems(3) by (simp add: take_Suc_conv_app_nth)
  finally show ?case using Cons.prems(3) by (simp add: ac_simps)
qed simp

subsection \<open>Writing and reading a short name\<close>

definition name_ok :: "u8 list \<Rightarrow> u8 list \<Rightarrow> bool" where
  "name_ok nm ext \<longleftrightarrow> nm \<noteq> [] \<and> length nm \<le> 8 \<and> length ext \<le> 3 \<and>
     (\<forall>c \<in> set nm \<union> set ext. short_valid 1 True c) \<and> trimmed nm \<and> trimmed ext"

definition dotted :: "u8 list \<Rightarrow> u8 list \<Rightarrow> u8 list" where
  "dotted nm ext = nm @ (if ext = [] then [] else 46 # ext)"

definition kanji :: "u8 list \<Rightarrow> u8 list" where
  "kanji nm = (if nm ! 0 = 0xE5 then nm[0 := 0x05] else nm)"

definition padded :: "nat \<Rightarrow> u8 list \<Rightarrow> u8 list" where
  "padded n s = s @ replicate (n - length s) 32"

lemma str_of_append: "0 \<notin> set s \<Longrightarrow> str_of (s @ 0 # t) = s"
  by (auto simp: str_of_def takeWhile_append2 takeWhile_tail)

lemma take_trim_end:
  assumes "s \<noteq> []" "\<not> isspace (cchar (last s))"
  shows "trim_end (s @ t) (length s) = length s"
proof (cases "length s" rule: nat.exhaust)
  case (Suc k)
  then show ?thesis
  proof (cases k)
    case (Suc j)
    then have "(s @ t) ! Suc j = last s" using \<open>length s = Suc k\<close> assms(1) by (simp add: nth_append last_conv_nth)
    then show ?thesis using Suc \<open>length s = Suc k\<close> assms(2) by simp
  qed simp
qed (use assms in simp)

lemma short_loop_name:
  assumes "name_ok nm ext"
  shows "\<exists>s. short_loop 0 (dotted nm ext)
      \<lparr>srcCopy = replicate 13 0, ext_pos = None, dotSeen = False, nameLen = 0, extLen = 0\<rparr> = Some s \<and>
    nameLen s = length nm \<and> extLen s = length ext \<and> length (srcCopy s) = 13 \<and> (\<exists>t. srcCopy s = map up nm @ 0 # t) \<and>
    (\<exists>t. (case ext_pos s of None \<Rightarrow> [0] | Some i \<Rightarrow> drop i (srcCopy s)) = map up ext @ 0 # t)"
proof -
  let ?s0 = "\<lparr>srcCopy = replicate 13 0, ext_pos = None, dotSeen = False, nameLen = 0, extLen = 0\<rparr>"
  let ?s1 = "?s0\<lparr>srcCopy := map up nm @ replicate (13 - length nm) 0, nameLen := length nm\<rparr>"
  have ok: "nm \<noteq> []" "length nm \<le> 8" "length ext \<le> 3" "\<forall>c \<in> set nm. short_valid 1 True c"
    "\<forall>c \<in> set ext. short_valid 1 True c" "hd nm \<noteq> 32"
    using assms by (auto simp: name_ok_def trimmed_def)
  have 1: "short_loop 0 (nm @ rest) ?s0 = short_loop (length nm) rest ?s1" for rest
    using ok by (subst short_loop_chars) auto
  show ?thesis
  proof (cases "ext = []")
    case True
    have "replicate (13 - length nm) (0 :: u8) = 0 # replicate (12 - length nm) 0"
      using ok(2) by (simp flip: replicate_Suc add: Suc_diff_le)
    then show ?thesis using True 1 [of "[]"] ok(2) by (auto simp: dotted_def)
  next
    case False
    let ?s2 = "?s1\<lparr>dotSeen := True, srcCopy := (srcCopy ?s1)[length nm := 0], ext_pos := Some (length nm + 1)\<rparr>"
    have z: "replicate (13 - length nm) (0 :: u8) = 0 # replicate (12 - length nm) 0"
      using ok(2) by (simp flip: replicate_Suc add: Suc_diff_le)
    have upd: "(map up nm @ 0 # r)[length nm := x] = map up nm @ x # r" for r x
      by (metis length_map list_update_length)
    have "short_loop (length nm) (46 # ext) ?s1 = short_loop (length nm + 1) (ext @ []) ?s2"
      using ok(1) by (simp add: short_valid_def)
    also have "\<dots> = Some (?s2\<lparr>srcCopy := (map up nm @ [0]) @ map up ext @ replicate (12 - length nm - length ext) 0,
        extLen := length ext\<rparr>)"
      using ok by (subst short_loop_chars) (auto simp: z upd)
    finally have 2: "short_loop (length nm) (46 # ext) ?s1 = Some (?s2\<lparr>srcCopy := (map up nm @ [0]) @ map up ext @
        replicate (12 - length nm - length ext) 0, extLen := length ext\<rparr>)" .
    have "replicate (12 - length nm - length ext) (0 :: u8) = 0 # replicate (11 - length nm - length ext) 0"
      using ok(2,3) by (simp flip: replicate_Suc add: Suc_diff_le)
    then show ?thesis using False 1 [of "46 # ext"] 2 ok(2,3) by (simp add: dotted_def)
  qed
qed

lemma SetShortName_label:
  assumes "name_ok nm ext" "length (Label e) = 11"
  shows "SetShortName e (dotted nm ext @ [0]) =
    Some (True, e\<lparr>Label := padded 8 (kanji (map up nm)) @ padded 3 (map up ext)\<rparr>)"
proof -
  let ?d = "dotted nm ext" and ?src = "dotted nm ext @ [0]"
  have ok: "nm \<noteq> []" "length nm \<le> 8" "length ext \<le> 3" "\<forall>c \<in> set nm \<union> set ext. short_valid 1 True c"
    "hd nm \<noteq> 32" "last nm \<noteq> 32" "ext \<noteq> [] \<longrightarrow> last ext \<noteq> 32"
    using assms(1) by (auto simp: name_ok_def trimmed_def)
  have d: "?d \<noteq> []" "0 \<notin> set ?d" "length ?d \<le> 12" "hd ?src = hd nm" "last ?d = (if ext = [] then last nm else last ext)"
    using ok up_valid(1) by (auto simp: dotted_def)
  have sp: "\<not> isspace (cchar (hd nm))" "\<not> isspace (cchar (last ?d))"
    using ok up_valid(6) hd_in_set [of nm] last_in_set [of nm] last_in_set [of ext] by (auto simp: d(5))
  have src: "dropWhile (\<lambda>c. isspace (cchar c)) ?src = ?src"
    using sp(1) ok(1) by (cases nm) (simp_all add: dotted_def)
  have len: "trim_end ?src (length (str_of ?src)) = length ?d" "take (length ?d) ?src = ?d"
    using d sp(2) by (simp_all add: str_of_append take_trim_end)
  obtain s t u where s: "short_loop 0 ?d
      \<lparr>srcCopy = replicate 13 0, ext_pos = None, dotSeen = False, nameLen = 0, extLen = 0\<rparr> = Some s"
    "nameLen s = length nm" "extLen s = length ext" "length (srcCopy s) = 13" "srcCopy s = map up nm @ 0 # t"
    "(case ext_pos s of None \<Rightarrow> [0] | Some i \<Rightarrow> drop i (srcCopy s)) = map up ext @ 0 # u"
    using short_loop_name [OF assms(1)] by blast
  have up0: "0 \<notin> set (map up nm)" "0 \<notin> set (map up ext)"
    using ok(4) up_valid(3) by (auto simp: image_iff)
  have k: "(if srcCopy s ! 0 = 0xE5 then (srcCopy s)[0 := 0x05] else srcCopy s) = kanji (map up nm) @ 0 # t"
    using ok(1) by (cases nm) (simp_all add: s(5) kanji_def)
  have k0: "0 \<notin> set (kanji (map up nm))" "length (kanji (map up nm)) = length nm"
    using up0(1) set_update_subset_insert [of "map up nm" 0 5] by (auto simp: kanji_def)
  have lt: "length nm + length t = 12" using s(4,5) by simp
  have tk: "takeWhile (\<lambda>c. c \<noteq> 0) (v @ take n (0 # w)) = v" if "0 \<notin> set v" for v w :: "u8 list" and n
    using that by (cases n) (auto simp: takeWhile_append2 takeWhile_tail)
  have w1: "WriteFatString (Label e) (kanji (map up nm) @ 0 # t) 8 =
      Some (padded 8 (kanji (map up nm)) @ drop 8 (Label e), 8)"
    using assms(2) ok(2) k0 by (subst WriteFatString_eq) (simp_all add: tk Let_def padded_def)
  have w2: "WriteFatString (drop 8 (Label e)) (map up ext @ 0 # u) 3 = Some (padded 3 (map up ext), 3)"
    using assms(2) ok(3) up0(2) by (subst WriteFatString_eq) (simp_all add: tk Let_def padded_def)
  have c: "str_of (srcCopy s) = map up nm" "str_of (map up ext @ 0 # u) = map up ext"
    using up0 unfolding s(5) by (simp_all add: str_of_append)
  have "length (padded 8 (kanji (map up nm))) = 8" using k0 ok(2) by (simp add: padded_def)
  then show ?thesis
    using ok d(1,3) s(1-3)
    by (simp add: SetShortName_def fat_lengths src len s(6) k w1 w2 c Let_def)
qed

lemma kanji_chars:
  assumes "name_ok nm ext"
  shows "trimmed (kanji (map up nm))" "trimmed (map up ext)" "0 \<notin> set (map up nm)" "0 \<notin> set (map up ext)"
    "0 \<notin> set (kanji (map up nm))" "length (kanji (map up nm)) = length nm"
    "(if (kanji (map up nm) @ t) ! 0 = 0x05 then (kanji (map up nm) @ t)[0 := 0xE5] else kanji (map up nm) @ t) =
      map up nm @ t"
proof -
  have ok: "\<forall>c \<in> set nm \<union> set ext. short_valid 1 True c" "trimmed nm" "trimmed ext" "nm \<noteq> []"
    using assms by (auto simp: name_ok_def)
  have sp: "up c = 32 \<longleftrightarrow> c = 32" "up c \<noteq> 0" "up c \<noteq> 5" if "c \<in> set nm \<union> set ext" for c
    using up_valid [of c] ok(1) that by auto
  show 0: "0 \<notin> set (map up nm)" "0 \<notin> set (map up ext)" using sp(2) by (auto simp: image_iff)
  show "trimmed (map up ext)"
    using ok(3) sp(1) hd_in_set [of ext] last_in_set [of ext] by (auto simp: trimmed_def hd_map last_map)
  obtain c cs where nm: "nm = c # cs" using ok(4) by (cases nm) auto
  have "up (last nm) \<noteq> 32" "up c \<noteq> 32" "up c \<noteq> 5"
    using ok(2) sp(1,3) [of "last nm"] sp(1,3) [of c] last_in_set [of nm] by (auto simp: trimmed_def nm)
  then show "trimmed (kanji (map up nm))"
    by (auto simp: trimmed_def kanji_def nm last_map)
  show "0 \<notin> set (kanji (map up nm))" "length (kanji (map up nm)) = length nm"
    using 0(1) by (auto simp: kanji_def nm)
  show "(if (kanji (map up nm) @ t) ! 0 = 0x05 then (kanji (map up nm) @ t)[0 := 0xE5] else kanji (map up nm) @ t) =
      map up nm @ t"
    using \<open>up c \<noteq> 5\<close> by (simp add: kanji_def nm)
qed

lemma GetShortName_label:
  assumes "name_ok nm ext" "Label e = padded 8 (kanji (map up nm)) @ padded 3 (map up ext)"
  shows "GetShortName e = Some (dotted (map up nm) (map up ext))"
proof -
  note k = kanji_chars [OF assms(1)]
  have l: "length nm \<le> 8" "length ext \<le> 3" "nm \<noteq> []" using assms(1) by (auto simp: name_ok_def)
  have 1: "ReadFatString (replicate 9 0) (Label e) 8 =
      Some (kanji (map up nm) @ 0 # drop (length nm + 1) (replicate 9 0), length nm)"
    using l k(6) ReadFatString_eq [OF _ _ _ k(1), of "replicate 9 0" 8 "Label e" "8 - length nm"]
    by (simp add: assms(2) padded_def)
  have 2: "ReadFatString (replicate 4 0) (drop 8 (Label e)) 3 =
      Some (map up ext @ 0 # drop (length ext + 1) (replicate 4 0), length ext)"
    using l k(6) ReadFatString_eq [OF _ _ _ k(2), of "replicate 4 0" 3 "drop 8 (Label e)" "3 - length ext"]
    by (simp add: assms(2) padded_def)
  have "(map up ext @ 0 # t) ! 0 \<noteq> 0 \<longleftrightarrow> ext \<noteq> []" for t
    using k(4) by (cases ext) auto
  then show ?thesis
    using l k(3,4) 1 2 unfolding GetShortName_def fat_lengths
    by (simp add: k(7) str_of_append dotted_def Let_def)
qed

text \<open>
  C34: A valid short name (a trimmed name of one to eight characters and a trimmed extension of up
  to three, of letters, digits, spaces, characters above 127 and the allowed symbols) is accepted
  by \<open>SetShortName\<close>, which changes only the label; \<open>GetShortName\<close> then returns the
  name in upper case, and the entry is neither free nor deleted, also for a name that starts with
  the character 0xE5, the mark of deleted entries.
\<close>

theorem short_name_round_trip:
  assumes "name_ok nm ext" "length (Label e) = 11"
  shows "\<exists>e'. SetShortName e (dotted nm ext @ [0]) = Some (True, e') \<and> e' = e\<lparr>Label := Label e'\<rparr> \<and>
    length (Label e') = 11 \<and> GetShortName e' = Some (dotted (map up nm) (map up ext)) \<and> \<not> IsFree e'"
proof -
  let ?e = "e\<lparr>Label := padded 8 (kanji (map up nm)) @ padded 3 (map up ext)\<rparr>"
  note k = kanji_chars [OF assms(1)]
  obtain c cs where nm: "nm = c # cs" using assms(1) by (cases nm) (auto simp: name_ok_def)
  have "length nm \<le> 8" "length ext \<le> 3" using assms(1) by (auto simp: name_ok_def)
  then have "length (Label ?e) = 11" using k(6) by (simp add: padded_def)
  moreover have "\<not> IsFree ?e"
    using k(3) by (auto simp: IsFree_def IsDeleted_def padded_def kanji_def nm)
  ultimately show ?thesis
    using SetShortName_label [OF assms] GetShortName_label [OF assms(1), of ?e] by auto
qed

theorem short_name_round_trip_witness:
  "\<exists>e. SetShortName zero_entry (map of_char ''boot sys.bin'' @ [0]) = Some (True, e) \<and>
     GetShortName e = Some (map of_char ''BOOT SYS.BIN'')"
proof -
  have "name_ok (map of_char ''boot sys'') (map of_char ''bin'')" by code_simp
  moreover have "length (Label zero_entry) = 11" by code_simp
  moreover have "dotted (map of_char ''boot sys'') (map of_char ''bin'') = map of_char ''boot sys.bin''"
    "dotted (map up (map of_char ''boot sys'')) (map up (map of_char ''bin'')) = map of_char ''BOOT SYS.BIN''"
    by code_simp+
  ultimately show ?thesis
    using short_name_round_trip [of "map of_char ''boot sys''" "map of_char ''bin''" zero_entry] by auto
qed

subsection \<open>Dates and times\<close>

lemma uint_of_int_small: "0 \<le> i \<Longrightarrow> i < 2 ^ LENGTH('a) \<Longrightarrow> uint (of_int i :: 'a :: len word) = i"
  by (simp add: unsigned_of_int take_bit_int_eq_self)

text \<open>
  Dates and times survive the packing into bit fields: any stored date or time is written
  back as it was read, a calendar date from 1980 to 2107 is read back unchanged, and a time of day
  loses at most its odd second; a year outside of that range is stored modulo 128.
\<close>

theorem fat_date_time_round_trip:
  "SetDate (GetDate t d) = d \<and> SetTime (GetTime t c) = c \<and>
   (80 \<le> tm_year u \<and> tm_year u \<le> 207 \<and> 0 \<le> tm_mon u \<and> tm_mon u \<le> 11 \<and> 1 \<le> tm_mday u \<and> tm_mday u \<le> 31 \<longrightarrow>
     GetDate t (SetDate u) = t\<lparr>tm_year := tm_year u, tm_mon := tm_mon u, tm_mday := tm_mday u\<rparr>) \<and>
   (0 \<le> tm_hour u \<and> tm_hour u \<le> 23 \<and> 0 \<le> tm_min u \<and> tm_min u \<le> 59 \<and> 0 \<le> tm_sec u \<and> tm_sec u \<le> 60 \<longrightarrow>
     GetTime t (SetTime u) = t\<lparr>tm_hour := tm_hour u, tm_min := tm_min u, tm_sec := tm_sec u - tm_sec u mod 2\<rparr>) \<and>
   tm_year (GetDate t (SetDate u)) = 80 + (tm_year u - 80) mod 128"
proof (intro conjI impI)
  show "SetDate (GetDate t d) = d" by (simp add: SetDate_def GetDate_def)
  show "SetTime (GetTime t c) = c" by (simp add: SetTime_def GetTime_def drop_bit_eq_div push_bit_eq_mult)
  show "tm_year (GetDate t (SetDate u)) = 80 + (tm_year u - 80) mod 128"
    by (simp add: SetDate_def GetDate_def uint_word_of_int del: of_int_diff)
next
  assume "80 \<le> tm_year u \<and> tm_year u \<le> 207 \<and> 0 \<le> tm_mon u \<and> tm_mon u \<le> 11 \<and> 1 \<le> tm_mday u \<and> tm_mday u \<le> 31"
  then show "GetDate t (SetDate u) = t\<lparr>tm_year := tm_year u, tm_mon := tm_mon u, tm_mday := tm_mday u\<rparr>"
    unfolding SetDate_def GetDate_def by (simp only: FatDate.simps) (simp add: uint_of_int_small del: of_int_diff of_int_add)
next
  assume "0 \<le> tm_hour u \<and> tm_hour u \<le> 23 \<and> 0 \<le> tm_min u \<and> tm_min u \<le> 59 \<and> 0 \<le> tm_sec u \<and> tm_sec u \<le> 60"
  moreover from this have "drop_bit 1 (tm_sec u) \<le> 30" "0 \<le> drop_bit 1 (tm_sec u)"
    unfolding drop_bit_eq_div power_one_right by presburger+
  ultimately show "GetTime t (SetTime u) = t\<lparr>tm_hour := tm_hour u, tm_min := tm_min u, tm_sec := tm_sec u - tm_sec u mod 2\<rparr>"
    unfolding SetTime_def GetTime_def
    by (simp add: uint_of_int_small minus_mod_eq_mult_div push_bit_eq_mult drop_bit_eq_div)
qed

theorem fat_date_time_round_trip_witness:
  "\<exists>u. tm_year u = 126 \<and> tm_sec u = 59 \<and> tm_year (GetDate u (SetDate u)) = 126 \<and> tm_sec (GetTime u (SetTime u)) = 58"
proof -
  let ?u = "\<lparr>tm_sec = 59, tm_min = 30, tm_hour = 12, tm_mday = 31, tm_mon = 11, tm_year = 126\<rparr>"
  show ?thesis
    using fat_date_time_round_trip [of ?u zero_date zero_time ?u] by (intro exI [of _ ?u]) simp
qed

end
