(* ===== verification/Fat_Long.thy ===== *)
theory Fat_Long
  imports Fat_Short
begin

text \<open>
  Long file names of \<^verbatim>\<open>src/tools/fatfs/fat.c\<close>. A directory table is a list of entries
  of 32 bytes, because the source looks at the same bytes as a \<open>DirEntry\<close> and as a
  \<open>LongFileName\<close>; \<open>dirent_bytes\<close> and \<open>dirent_of_bytes\<close> are the layout of the
  former, the functions \<open>lfn_\<close> the fields of the latter. \<open>wchar_t\<close> is a 32-bit
  signed integer. The host's \<open>iswspace\<close> and the key taken from \<open>time\<close> are arguments.
  A write outside of the name buffer or of the table has no result.
\<close>

subsection \<open>Layout of an entry\<close>

definition le16 :: "u16 \<Rightarrow> u8 list" where "le16 w = [ucast w, ucast (drop_bit 8 w)]"

definition le32 :: "u32 \<Rightarrow> u8 list" where
  "le32 w = [ucast w, ucast (drop_bit 8 w), ucast (drop_bit 16 w), ucast (drop_bit 24 w)]"

definition date_word :: "FatDate \<Rightarrow> u16" where
  "date_word d = ucast (Day d) OR push_bit 5 (ucast (Month d)) OR push_bit 9 (ucast (Year d))"

definition time_word :: "FatTime \<Rightarrow> u16" where
  "time_word t = ucast (Seconds t) OR push_bit 5 (ucast (Minutes t)) OR push_bit 11 (ucast (Hours t))"

definition word_date :: "u16 \<Rightarrow> FatDate" where
  "word_date w = \<lparr>Day = ucast w, Month = ucast (drop_bit 5 w), Year = ucast (drop_bit 9 w)\<rparr>"

definition word_time :: "u16 \<Rightarrow> FatTime" where
  "word_time w = \<lparr>Seconds = ucast w, Minutes = ucast (drop_bit 5 w), Hours = ucast (drop_bit 11 w)\<rparr>"

definition dirent_bytes :: "DirEntry \<Rightarrow> u8 list" where
  "dirent_bytes e = Label e @ [Attributes e, de_Reserved1 e, de_Reserved2 e] @
     le16 (time_word (CreationTime e)) @ le16 (date_word (CreationDate e)) @ le16 (date_word (AccessedDate e)) @
     le16 (de_Reserved3 e) @ le16 (time_word (ModifiedTime e)) @ le16 (date_word (ModifiedDate e)) @
     le16 (FirstCluster e) @ le32 (FileSize e)"

definition word_at :: "u8 list \<Rightarrow> nat \<Rightarrow> u16" where
  "word_at b i = ucast (b ! i) OR push_bit 8 (ucast (b ! (i + 1)))"

definition dirent_of_bytes :: "u8 list \<Rightarrow> DirEntry" where
  "dirent_of_bytes b = \<lparr>Label = take 11 b, Attributes = b ! 11, de_Reserved1 = b ! 12, de_Reserved2 = b ! 13,
     CreationTime = word_time (word_at b 14), CreationDate = word_date (word_at b 16),
     AccessedDate = word_date (word_at b 18), de_Reserved3 = word_at b 20,
     ModifiedTime = word_time (word_at b 22), ModifiedDate = word_date (word_at b 24),
     FirstCluster = word_at b 26, FileSize = ucast (word_at b 28) OR push_bit 16 (ucast (word_at b 30))\<rparr>"

definition lfn_SequenceNumber :: "u8 list \<Rightarrow> u8" where "lfn_SequenceNumber b = b ! 0 AND 0x3F"
definition lfn_FirstInChain :: "u8 list \<Rightarrow> bool" where "lfn_FirstInChain b = bit (b ! 0) 6"
definition lfn_Checksum :: "u8 list \<Rightarrow> u8" where "lfn_Checksum b = b ! 13"
definition lfn_Name1 :: "u8 list \<Rightarrow> u16 list" where "lfn_Name1 b = map (\<lambda>i. word_at b (1 + 2 * i)) [0..<5]"
definition lfn_Name2 :: "u8 list \<Rightarrow> u16 list" where "lfn_Name2 b = map (\<lambda>i. word_at b (14 + 2 * i)) [0..<6]"
definition lfn_Name3 :: "u8 list \<Rightarrow> u16 list" where "lfn_Name3 b = map (\<lambda>i. word_at b (28 + 2 * i)) [0..<2]"

subsection \<open>Reading a chain\<close>

definition ChunkLength :: nat where "ChunkLength = 13"
definition MaxChainLength :: nat where "MaxChainLength = 20"
definition LONGNAME_LENGTH :: nat where "LONGNAME_LENGTH = 255"
definition MAX_LONGNAME :: nat where "MAX_LONGNAME = LONGNAME_LENGTH + 1"

record yank =
  y_dst :: "u32 list"
  y_pos :: nat
  y_len :: nat
  y_nul :: bool

fun YankChars :: "u16 list \<Rightarrow> yank \<Rightarrow> yank option" where
  "YankChars [] y = Some y"
| "YankChars (c # cs) y =
    (if y_nul y then Some y
     else do {
       d \<leftarrow> arr_set (y_dst y) (y_pos y) (ucast c);
       let y = y\<lparr>y_dst := d\<rparr>;
       if c = 0 then Some (y\<lparr>y_nul := True\<rparr>)
       else YankChars cs (y\<lparr>y_pos := y_pos y + 1, y_len := y_len y + 1\<rparr>)
     })"

record longname =
  ln_dst :: "u32 list"
  ln_len :: nat
  ln_count :: nat
  ln_cksum :: u8
  ln_lastsum :: u8

text \<open>The body of the loop; sequence number 0 would start in front of the buffer.\<close>

definition long_link :: "u8 list \<Rightarrow> longname \<Rightarrow> longname option" where
  "long_link lfn s = do {
     let seq = unat (lfn_SequenceNumber lfn);
     assert_opt (seq \<le> MaxChainLength);
     assert_opt (seq \<noteq> 0);
     let y = \<lparr>y_dst = ln_dst s, y_pos = (seq - 1) * ChunkLength, y_len = ln_len s, y_nul = False\<rparr>;
     y \<leftarrow> YankChars (lfn_Name1 lfn) y;
     y \<leftarrow> YankChars (lfn_Name2 lfn) y;
     y \<leftarrow> YankChars (lfn_Name3 lfn) y;
     Some (s\<lparr>ln_dst := y_dst y, ln_len := y_len y, ln_cksum := ln_cksum s XOR lfn_Checksum lfn,
       ln_lastsum := lfn_Checksum lfn, ln_count := ln_count s + 1\<rparr>)
   }"

fun long_loop :: "u8 list list \<Rightarrow> longname \<Rightarrow> (longname \<times> u8 list list) option" where
  "long_loop [] s = None"
| "long_loop (lfn # es) s = do {
     s \<leftarrow> long_link lfn s;
     if lfn_SequenceNumber lfn > 1 then long_loop es s else Some (s, es)
   }"

text \<open>The result is the name buffer and the table from the entry on that the returned pointer has.\<close>

definition GetLongName :: "u8 \<Rightarrow> u32 list \<Rightarrow> u8 list list \<Rightarrow> (u32 list \<times> u8 list list) option" where
  "GetLongName key dst srcTable = do {
     first \<leftarrow> arr_get srcTable 0;
     if IsDeleted (dirent_of_bytes first) \<or> \<not> IsLongFileName (dirent_of_bytes first) \<or> \<not> lfn_FirstInChain first
     then Some (dst, srcTable)
     else do {
       (s, es) \<leftarrow> long_loop srcTable
         \<lparr>ln_dst = dst, ln_len = 0, ln_count = 0, ln_cksum = key, ln_lastsum = 0\<rparr>;
       let cksum = (if odd (ln_count s) then ln_cksum s XOR ln_lastsum s else ln_cksum s);
       e \<leftarrow> arr_get es 0;
       let compsum = GetShortNameChecksum (dirent_of_bytes e);
       let len = (if cksum \<noteq> key \<or> ln_lastsum s \<noteq> compsum then 0 else ln_len s);
       d \<leftarrow> arr_set (ln_dst s) len 0;
       Some (d, es)
     }
   }"

subsection \<open>Writing a chain\<close>

definition memset_at :: "u8 list \<Rightarrow> nat \<Rightarrow> u8 \<Rightarrow> nat \<Rightarrow> u8 list" where
  "memset_at b off v n = take off b @ replicate n v @ drop (off + n) b"

text \<open>The sizes of \<open>Name1\<close>, \<open>Name2\<close> and \<open>Name3\<close> are 10, 12 and 4 bytes.\<close>

definition InitLongFileNameLink :: "nat \<Rightarrow> u8 list" where
  "InitLongFileNameLink seq =
    (let b = replicate 32 0;
         b = memset_at b 1 0xFF 10;
         b = memset_at b 1 0xFF 12;
         b = memset_at b 1 0xFF 4;
         b = b[11 := ATTR_LFN]
     in b[0 := (b ! 0 AND 0xC0) OR (of_nat seq AND 0x3F)])"

fun PutChars :: "u8 list \<Rightarrow> nat \<Rightarrow> nat \<Rightarrow> u32 list \<Rightarrow> nat \<Rightarrow> (u8 list \<times> nat) option" where
  "PutChars b off 0 src p = Some (b, p)"
| "PutChars b off (Suc n) src p = do {
     c \<leftarrow> arr_get src p;
     b \<leftarrow> set16 b off (ucast c);
     if c = 0 then Some (b, p) else PutChars b (off + 2) n src (p + 1)
   }"

definition set_link :: "u32 list \<Rightarrow> nat \<Rightarrow> u8 \<Rightarrow> nat \<Rightarrow> u8 list option" where
  "set_link src linkCount cksum seq = do {
     let b = InitLongFileNameLink seq;
     let b = (if seq = linkCount then b[0 := b ! 0 OR 0x40] else b);
     let b = b[13 := cksum];
     (b, p) \<leftarrow> PutChars b 1 5 src ((seq - 1) * ChunkLength);
     (b, p) \<leftarrow> PutChars b 14 6 src p;
     (b, p) \<leftarrow> PutChars b 28 2 src p;
     Some b
   }"

fun set_links :: "u32 list \<Rightarrow> nat \<Rightarrow> u8 \<Rightarrow> nat \<Rightarrow> u8 list list option" where
  "set_links src linkCount cksum 0 = Some []"
| "set_links src linkCount cksum (Suc k) = do {
     b \<leftarrow> set_link src linkCount cksum (Suc k);
     bs \<leftarrow> set_links src linkCount cksum k;
     Some (b # bs)
   }"

definition long_valid :: "u32 \<Rightarrow> bool" where
  "long_valid c \<longleftrightarrow> isalnum (sint c) \<or> c = 32 \<or> sint c > 0x7F \<or> c \<notin> {34, 42, 47, 58, 60, 62, 63, 96, 124}"

fun long_copy :: "nat \<Rightarrow> u32 list \<Rightarrow> u32 list \<Rightarrow> u32 list option" where
  "long_copy i [] buf = Some buf"
| "long_copy i (c # cs) buf =
    (if c = 0 then Some buf
     else if \<not> long_valid c then None
     else long_copy (i + 1) cs (buf[i := c]))"

fun wtrim_end :: "(u32 \<Rightarrow> bool) \<Rightarrow> u32 list \<Rightarrow> nat \<Rightarrow> nat" where
  "wtrim_end iswspace s 0 = 0"
| "wtrim_end iswspace s (Suc 0) = Suc 0"
| "wtrim_end iswspace s (Suc (Suc k)) =
    (if iswspace (s ! Suc k) \<or> s ! Suc k = 46 then wtrim_end iswspace s (Suc k) else Suc (Suc k))"

text \<open>The result: whether the name is valid, the table and how far the table pointer advanced.\<close>

definition SetLongName :: "(u32 \<Rightarrow> bool) \<Rightarrow> u8 list list \<Rightarrow> u32 list \<Rightarrow> DirEntry \<Rightarrow> (bool \<times> u8 list list \<times> nat) option" where
  "SetLongName iswspace table src sfnEntry = (
     let src = dropWhile iswspace src;
         len = wtrim_end iswspace src (length (takeWhile (\<lambda>c. c \<noteq> 0) src)) in
     if len = 0 \<or> len > LONGNAME_LENGTH then Some (False, table, 0)
     else case long_copy 0 (take len src) (replicate MAX_LONGNAME 0) of
       None \<Rightarrow> Some (False, table, 0)
     | Some buf \<Rightarrow> do {
         let cksum = GetShortNameChecksum sfnEntry;
         let linkCount = (len + ChunkLength - 1) div ChunkLength;
         assert_opt (linkCount \<le> MaxChainLength);
         links \<leftarrow> set_links buf linkCount cksum linkCount;
         assert_opt (linkCount < length table);
         Some (True, links @ dirent_bytes sfnEntry # drop (linkCount + 1) table, linkCount)
       })"

subsection \<open>Words in an entry\<close>

lemma word_at_set16_same:
  assumes "set16 b i v = Some b'"
  shows "word_at b' i = v"
proof -
  have "b' = b[i := ucast v, i + 1 := ucast (drop_bit 8 v)]" "i + 1 < length b"
    using assms by (auto simp: set16_def split: if_splits)
  moreover have "ucast (ucast v :: u8) OR push_bit 8 (ucast (ucast (drop_bit 8 v) :: u8)) = v"
    by (rule bit_word_eqI) (auto simp: bit_simps)
  ultimately show ?thesis by (simp add: word_at_def)
qed

lemma set16_frame:
  assumes "set16 b i v = Some b'"
  shows "length b' = length b" "j \<noteq> i \<Longrightarrow> j \<noteq> i + 1 \<Longrightarrow> b' ! j = b ! j"
  using assms by (auto simp: set16_def split: if_splits)

definition words :: "u8 list \<Rightarrow> nat \<Rightarrow> nat \<Rightarrow> u16 list" where
  "words b off n = map (\<lambda>i. word_at b (off + 2 * i)) [0..<n]"

lemma words_0 [simp]: "words b off 0 = []"
  by (simp add: words_def)

lemma words_Suc: "words b off (Suc n) = word_at b off # words b (off + 2) n"
  by (simp add: words_def upt_conv_Cons map_Suc_upt [symmetric] del: upt_Suc)

lemma length_words [simp]: "length (words b off n) = n"
  by (simp add: words_def)

lemma words_cong: "(\<And>i. off \<le> i \<Longrightarrow> i < off + 2 * n \<Longrightarrow> b' ! i = b ! i) \<Longrightarrow> words b' off n = words b off n"
  by (auto simp: words_def word_at_def)

lemma lfn_names: "lfn_Name1 b = words b 1 5" "lfn_Name2 b = words b 14 6" "lfn_Name3 b = words b 28 2"
  by (simp_all add: lfn_Name1_def lfn_Name2_def lfn_Name3_def words_def)

subsection \<open>Writing a link\<close>

abbreviation upto_nul :: "'a :: zero list \<Rightarrow> 'a list" where
  "upto_nul xs \<equiv> takeWhile (\<lambda>c. c \<noteq> 0) xs"

lemma ucast16_zero: "c < 0x10000 \<Longrightarrow> (ucast (c :: u32) :: u16) = 0 \<longleftrightarrow> c = 0"
  "c < 0x10000 \<Longrightarrow> ucast (ucast c :: u16) = c"
proof -
  assume "c < 0x10000"
  then have "unat c < 2 ^ 16" by (simp add: word_less_nat_alt)
  then have t: "take_bit 16 c = c" by (simp add: word_unat_eq_iff unsigned_take_bit_eq take_bit_nat_eq_self)
  have "ucast (ucast c :: u16) = take_bit 16 c" by (rule bit_word_eqI) (auto simp: bit_simps)
  then show "ucast (ucast c :: u16) = c" by (simp only: t)
  then show "(ucast c :: u16) = 0 \<longleftrightarrow> c = 0" by (metis unsigned_0)
qed

lemma PutChars_ok:
  assumes "off + 2 * n \<le> length b" "0 \<in> set (drop p src)" "\<forall>c \<in> set src. c < 0x10000"
  shows "\<exists>b'. PutChars b off n src p = Some (b', p + min n (length (upto_nul (drop p src)))) \<and> length b' = length b \<and>
    (\<forall>i. i < off \<or> off + 2 * n \<le> i \<longrightarrow> b' ! i = b ! i) \<and>
    upto_nul (words b' off n) = map ucast (take n (upto_nul (drop p src)))"
  using assms
proof (induction n arbitrary: b off p)
  case (Suc n)
  have p: "p < length src" using Suc.prems(2) by (cases "p < length src") auto
  then have dp: "drop p src = src ! p # drop (Suc p) src" by (rule Cons_nth_drop_Suc [symmetric])
  obtain b1 where b1: "set16 b off (ucast (src ! p)) = Some b1"
    using Suc.prems(1) by (auto simp: set16_def)
  note fr = set16_frame [OF b1]
  have same: "word_at b1 off = ucast (src ! p)" using b1 by (rule word_at_set16_same)
  have small: "src ! p < 0x10000" using Suc.prems(3) p by simp
  show ?case
  proof (cases "src ! p = 0")
    case True
    have "word_at b1 off = 0" using same True by simp
    then show ?thesis using p b1 fr True by (auto simp: words_Suc dp)
  next
    case False
    have "0 \<in> set (drop (Suc p) src)" using Suc.prems(2) False by (simp add: dp)
    then obtain b' where b': "PutChars b1 (off + 2) n src (Suc p) = Some (b', Suc p + min n (length (upto_nul (drop (Suc p) src))))"
      "length b' = length b1" "\<forall>i. i < off + 2 \<or> off + 2 + 2 * n \<le> i \<longrightarrow> b' ! i = b1 ! i"
      "upto_nul (words b' (off + 2) n) = map ucast (take n (upto_nul (drop (Suc p) src)))"
      using Suc.IH [of "off + 2" b1 "Suc p"] Suc.prems fr(1) by auto
    have "word_at b' off = ucast (src ! p)" using same b'(3) by (simp add: word_at_def)
    moreover have "(ucast (src ! p) :: u16) \<noteq> 0" using False ucast16_zero(1) [OF small] by simp
    ultimately show ?thesis
      using p b1 fr b' False by (auto simp: words_Suc dp)
  qed
qed simp

text \<open>Strings cut into pieces.\<close>

lemma takeWhile_pieces:
  assumes "length A = n" "takeWhile P A = map f (take n Z)" "takeWhile P B = map f (take m (drop n Z))"
  shows "takeWhile P (A @ B) = map f (take (n + m) Z)"
proof (cases "n \<le> length Z")
  case True
  then have "length (takeWhile P A) = length A" using assms(1,2) by simp
  then have all: "takeWhile P A = A" by (metis takeWhile_eq_take take_all order_refl)
  then have "\<forall>x \<in> set A. P x" by (simp add: takeWhile_eq_all_conv)
  then have "takeWhile P (A @ B) = A @ takeWhile P B" by (simp add: takeWhile_append2)
  then show ?thesis using all assms(2,3) by (simp add: take_add)
next
  case False
  then have "length (takeWhile P A) < length A" using assms(1,2) by simp
  then have "takeWhile P A \<noteq> A" by (metis less_irrefl)
  then obtain x where "x \<in> set A" "\<not> P x" by (auto simp: takeWhile_eq_all_conv)
  then have "takeWhile P (A @ B) = takeWhile P A" by (rule takeWhile_append1)
  then show ?thesis using assms(2) False by simp
qed

lemma upto_nul_drop: "k \<le> length (takeWhile P xs) \<Longrightarrow> takeWhile P (drop k xs) = drop k (takeWhile P xs)"
  by (induction xs arbitrary: k) (auto simp: drop_Cons split: nat.splits)

lemma upto_nul_step:
  "upto_nul (drop (p + min n (length (upto_nul (drop p src)))) src) = drop n (upto_nul (drop p src))"
proof -
  have "upto_nul (drop (min n (length (upto_nul (drop p src)))) (drop p src)) =
      drop (min n (length (upto_nul (drop p src)))) (upto_nul (drop p src))"
    by (rule upto_nul_drop) simp
  then show ?thesis by (auto simp: add.commute min_def)
qed

lemma nul_ahead: "0 \<in> set (drop p src) \<Longrightarrow> 0 \<in> set (drop (p + min n (length (upto_nul (drop p src)))) src)"
proof -
  assume z: "0 \<in> set (drop p src)"
  let ?k = "min n (length (upto_nul (drop p src)))"
  have "drop p src = take ?k (drop p src) @ drop ?k (drop p src)" by (rule append_take_drop_id [symmetric])
  moreover have "take ?k (drop p src) = take ?k (upto_nul (drop p src))"
    by (subst takeWhile_eq_take) (simp add: min_def)
  then have "0 \<notin> set (take ?k (drop p src))" by (auto dest!: in_set_takeD set_takeWhileD)
  ultimately have "0 \<in> set (drop ?k (drop p src))" using z by (metis Un_iff set_append)
  then show ?thesis by (simp add: add.commute)
qed

definition link_head :: "nat \<Rightarrow> nat \<Rightarrow> u8 \<Rightarrow> u8 list" where
  "link_head linkCount seq cksum =
    (let b = InitLongFileNameLink seq in (if seq = linkCount then b[0 := b ! 0 OR 0x40] else b)[13 := cksum])"

lemma link_head_bytes:
  "length (link_head lc seq ck) = 32"
  "link_head lc seq ck ! 0 = (of_nat seq AND 0x3F) OR (if seq = lc then 0x40 else 0)"
  "link_head lc seq ck ! 11 = 0x0F" "link_head lc seq ck ! 13 = ck"
  "link_head lc seq ck ! 26 = 0" "link_head lc seq ck ! 27 = 0"
proof -
  have a: "ATTR_LFN = 0x0F" by (simp add: attr_defs)
  have i: "InitLongFileNameLink seq = (of_nat seq AND 0x3F) # replicate 10 0xFF @ [0x0F, 0xFF] @ replicate 19 0"
    by (simp add: InitLongFileNameLink_def memset_at_def a numeral_eq_Suc)
  show "length (link_head lc seq ck) = 32" "link_head lc seq ck ! 11 = 0x0F" "link_head lc seq ck ! 13 = ck"
    "link_head lc seq ck ! 26 = 0" "link_head lc seq ck ! 27 = 0"
    by (simp_all add: link_head_def i Let_def nth_append)
  show "link_head lc seq ck ! 0 = (of_nat seq AND 0x3F) OR (if seq = lc then 0x40 else 0)"
    by (simp add: link_head_def i Let_def)
qed

lemma set_link_ok:
  assumes "0 \<in> set (drop ((seq - 1) * 13) src)" "\<forall>c \<in> set src. c < 0x10000"
  shows "\<exists>b. set_link src lc ck seq = Some b \<and> length b = 32 \<and>
    b ! 0 = (of_nat seq AND 0x3F) OR (if seq = lc then 0x40 else 0) \<and> b ! 11 = 0x0F \<and> lfn_Checksum b = ck \<and>
    word_at b 26 = 0 \<and>
    upto_nul (lfn_Name1 b @ lfn_Name2 b @ lfn_Name3 b) = map ucast (take 13 (upto_nul (drop ((seq - 1) * 13) src)))"
proof -
  let ?p = "(seq - 1) * 13" and ?b = "link_head lc seq ck"
  let ?Z = "upto_nul (drop ?p src)"
  note h = link_head_bytes [of lc seq ck]
  let ?p1 = "?p + min 5 (length ?Z)"
  obtain b1 where b1: "PutChars ?b 1 5 src ?p = Some (b1, ?p1)" "length b1 = 32"
    "\<forall>i. i < 1 \<or> 11 \<le> i \<longrightarrow> b1 ! i = ?b ! i" "upto_nul (words b1 1 5) = map ucast (take 5 ?Z)"
    using PutChars_ok [OF _ assms, of 1 5 ?b] h(1) by auto
  have Z1: "upto_nul (drop ?p1 src) = drop 5 ?Z" by (rule upto_nul_step)
  note n1 = nul_ahead [OF assms(1), of 5]
  let ?p2 = "?p1 + min 6 (length (drop 5 ?Z))"
  obtain b2 where b2: "PutChars b1 14 6 src ?p1 = Some (b2, ?p2)" "length b2 = 32"
    "\<forall>i. i < 14 \<or> 26 \<le> i \<longrightarrow> b2 ! i = b1 ! i" "upto_nul (words b2 14 6) = map ucast (take 6 (drop 5 ?Z))"
    using PutChars_ok [OF _ n1 assms(2), of 14 6 b1] b1(2) unfolding Z1 by auto
  have Z2: "upto_nul (drop ?p2 src) = drop 6 (drop 5 ?Z)" using upto_nul_step [of ?p1 6 src] unfolding Z1 .
  have n2: "0 \<in> set (drop ?p2 src)" using nul_ahead [OF n1, of 6] unfolding Z1 .
  obtain b3 where b3: "PutChars b2 28 2 src ?p2 = Some (b3, ?p2 + min 2 (length (drop 6 (drop 5 ?Z))))" "length b3 = 32"
    "\<forall>i. i < 28 \<or> 32 \<le> i \<longrightarrow> b3 ! i = b2 ! i" "upto_nul (words b3 28 2) = map ucast (take 2 (drop 6 (drop 5 ?Z)))"
    using PutChars_ok [OF _ n2 assms(2), of 28 2 b2] b2(2) unfolding Z2 by auto
  have "set_link src lc ck seq = Some b3"
    using b1(1) b2(1) b3(1) by (simp add: set_link_def link_head_def ChunkLength_def Let_def)
  moreover have "words b3 1 5 = words b1 1 5" "words b3 14 6 = words b2 14 6"
    using b2(3) b3(3) by (auto intro: words_cong)
  then have "upto_nul (words b3 1 5 @ words b3 14 6 @ words b3 28 2) = map ucast (take (5 + (6 + 2)) ?Z)"
    using b1(4) b2(4) b3(4) by (intro takeWhile_pieces) simp_all
  moreover have "b3 ! i = ?b ! i" if "i \<in> {0, 11, 13, 26, 27}" for i
    using that b1(3) b2(3) b3(3) by auto
  ultimately show ?thesis
    using b3(2) h by (simp add: lfn_names lfn_Checksum_def word_at_def)
qed

subsection \<open>Reading a link\<close>

lemma YankChars_nul: "y_nul y \<Longrightarrow> YankChars cs y = Some y"
  by (cases cs) auto

lemma YankChars_append: "YankChars (xs @ ys) y = YankChars xs y \<bind> YankChars ys"
proof (induction xs arbitrary: y)
  case (Cons c xs)
  then show ?case
    by (cases "y_pos y < length (y_dst y)") (auto simp: Let_def YankChars_nul arr_set_def)
qed simp

lemma YankChars_ok:
  assumes "\<not> y_nul y" "y_pos y + min (length cs) (length (upto_nul cs) + 1) \<le> length (y_dst y)"
  shows "\<exists>y'. YankChars cs y = Some y' \<and> y_len y' = y_len y + length (upto_nul cs) \<and>
    length (y_dst y') = length (y_dst y) \<and>
    (\<forall>j < length (upto_nul cs). y_dst y' ! (y_pos y + j) = ucast (upto_nul cs ! j)) \<and>
    (\<forall>j. j < y_pos y \<or> y_pos y + length cs \<le> j \<longrightarrow> y_dst y' ! j = y_dst y ! j)"
  using assms
proof (induction cs arbitrary: y)
  case (Cons c cs)
  have pos: "y_pos y < length (y_dst y)" using Cons.prems(2) by (auto split: if_splits)
  show ?case
  proof (cases "c = 0")
    case True
    then show ?thesis using Cons.prems(1) pos by (auto simp: Let_def)
  next
    case False
    let ?y = "y\<lparr>y_dst := (y_dst y)[y_pos y := ucast c], y_pos := y_pos y + 1, y_len := y_len y + 1\<rparr>"
    obtain y' where y': "YankChars cs ?y = Some y'" "y_len y' = y_len ?y + length (upto_nul cs)"
      "length (y_dst y') = length (y_dst ?y)"
      "\<forall>j < length (upto_nul cs). y_dst y' ! (y_pos ?y + j) = ucast (upto_nul cs ! j)"
      "\<forall>j. j < y_pos ?y \<or> y_pos ?y + length cs \<le> j \<longrightarrow> y_dst y' ! j = y_dst ?y ! j"
      using Cons.IH [of ?y] Cons.prems False by auto
    have "YankChars (c # cs) y = Some y'" using Cons.prems(1) pos False y'(1) by (simp add: Let_def)
    moreover have "y_dst y' ! (y_pos y + j) = ucast (upto_nul (c # cs) ! j)" if "j < length (upto_nul (c # cs))" for j
      using that False y'(4,5) pos by (cases j) auto
    ultimately show ?thesis using y'(2,3,5) False by auto
  qed
qed auto

text \<open>The name buffer of \<open>SetLongName\<close>: the name followed by zeros.\<close>

definition name_buf :: "u32 list \<Rightarrow> u32 list" where
  "name_buf nm = nm @ replicate (256 - length nm) 0"

definition long_name :: "u32 list \<Rightarrow> bool" where
  "long_name nm \<longleftrightarrow> nm \<noteq> [] \<and> length nm \<le> 255 \<and> (\<forall>c \<in> set nm. c \<noteq> 0 \<and> c < 0x10000)"

lemma name_buf_chunk:
  assumes "long_name nm" "k \<le> length nm"
  shows "upto_nul (drop k (name_buf nm)) = drop k nm" "0 \<in> set (drop k (name_buf nm))"
    "\<forall>c \<in> set (name_buf nm). c < 0x10000"
proof -
  have l: "length nm \<le> 255" using assms(1) by (simp add: long_name_def)
  then have e: "drop k (name_buf nm) = drop k nm @ 0 # replicate (255 - length nm) 0"
    using assms(2) by (simp add: name_buf_def Suc_diff_le flip: replicate_Suc)
  show "upto_nul (drop k (name_buf nm)) = drop k nm"
    unfolding e using assms(1) by (auto simp: long_name_def takeWhile_append2 takeWhile_tail dest!: in_set_dropD)
  show "0 \<in> set (drop k (name_buf nm))" by (simp add: e)
  show "\<forall>c \<in> set (name_buf nm). c < 0x10000" using assms(1) by (auto simp: name_buf_def long_name_def)
qed

lemma seq_number:
  assumes "Suc k \<le> 20" "b ! 0 = (of_nat (Suc k) AND 0x3F) OR (if Suc k = lc then 0x40 else 0)"
  shows "unat (lfn_SequenceNumber b) = Suc k" "lfn_SequenceNumber b > 1 \<longleftrightarrow> k \<noteq> 0"
    "Suc k = lc \<Longrightarrow> lfn_FirstInChain b \<and> b ! 0 \<noteq> 0xE5"
proof -
  have s: "lfn_SequenceNumber b = of_nat (Suc k) AND 0x3F"
    unfolding lfn_SequenceNumber_def assms(2)
    by (simp add: bit.conj_disj_distrib2 and.assoc)
  have "(of_nat (Suc k) :: u8) AND 0x3F = take_bit 6 (of_nat (Suc k))"
    by (simp add: take_bit_eq_mask mask_eq_exp_minus_1)
  also have "\<dots> = of_nat (Suc k)"
    using assms(1) take_bit_nat_eq_self [of "Suc k" 6] by (simp del: of_nat_Suc add: take_bit_of_nat)
  finally have "(of_nat (Suc k) :: u8) AND 0x3F = of_nat (Suc k)" .
  then have u: "lfn_SequenceNumber b = of_nat (Suc k)" using s by simp
  then show un: "unat (lfn_SequenceNumber b) = Suc k" using assms(1) by (simp add: unat_of_nat del: of_nat_Suc)
  show "lfn_SequenceNumber b > 1 \<longleftrightarrow> k \<noteq> 0" unfolding word_less_nat_alt un by auto
  assume "Suc k = lc"
  then have "bit (b ! 0) 6" "\<not> bit (b ! 0) 7" unfolding assms(2) by (simp_all add: bit_simps)
  moreover have "bit (0xE5 :: u8) 7" by simp
  ultimately show "lfn_FirstInChain b \<and> b ! 0 \<noteq> 0xE5" by (metis lfn_FirstInChain_def)
qed

text \<open>One link: the characters of the chunk reach their place in the name buffer.\<close>

lemma long_link_ok:
  assumes nm: "long_name nm" and k: "13 * k < length nm" "Suc k \<le> 20" and d: "length (ln_dst s) = 256"
    and b: "b ! 0 = (of_nat (Suc k) AND 0x3F) OR (if Suc k = lc then 0x40 else 0)" "lfn_Checksum b = ck"
      "upto_nul (lfn_Name1 b @ lfn_Name2 b @ lfn_Name3 b) = map ucast (take 13 (drop (13 * k) nm))"
  shows "\<exists>d'. long_link b s = Some (s\<lparr>ln_dst := d', ln_len := ln_len s + length (take 13 (drop (13 * k) nm)),
      ln_cksum := ln_cksum s XOR ck, ln_lastsum := ck, ln_count := ln_count s + 1\<rparr>) \<and> length d' = 256 \<and>
    (\<forall>j. 13 * k \<le> j \<and> j < min (13 * k + 13) (length nm) \<longrightarrow> d' ! j = nm ! j) \<and>
    (\<forall>j. j < 13 * k \<or> 13 * k + 13 \<le> j \<longrightarrow> d' ! j = ln_dst s ! j)"
proof -
  let ?cs = "lfn_Name1 b @ lfn_Name2 b @ lfn_Name3 b" and ?Z = "take 13 (drop (13 * k) nm)"
  let ?y = "\<lparr>y_dst = ln_dst s, y_pos = 13 * k, y_len = ln_len s, y_nul = False\<rparr>"
  have len: "length ?cs = 13" by (simp add: lfn_names)
  have Z: "length ?Z = min 13 (length nm - 13 * k)" by (simp add: min.commute)
  have "13 * k + min 13 (length ?Z + 1) \<le> 256" using nm k(1) by (auto simp: Z long_name_def)
  then obtain y' where y': "YankChars ?cs ?y = Some y'" "y_len y' = ln_len s + length ?Z" "length (y_dst y') = 256"
    "\<forall>j < length ?Z. y_dst y' ! (13 * k + j) = ucast (map (ucast :: u32 \<Rightarrow> u16) ?Z ! j)"
    "\<forall>j. j < 13 * k \<or> 13 * k + 13 \<le> j \<longrightarrow> y_dst y' ! j = ln_dst s ! j"
    using YankChars_ok [of ?y ?cs] d unfolding b(3) len by auto
  have "y_dst y' ! j = nm ! j" if "13 * k \<le> j \<and> j < min (13 * k + 13) (length nm)" for j
  proof -
    have "j = 13 * k + (j - 13 * k)" "j - 13 * k < length ?Z" using that unfolding Z by linarith+
    then obtain i where i: "j = 13 * k + i" "i < length ?Z" by blast
    then have "?Z ! i = nm ! j" using that by simp
    moreover have "nm ! j < 0x10000" using nm that by (simp add: long_name_def)
    ultimately show ?thesis using y'(4) i ucast16_zero(2) by auto
  qed
  moreover have "long_link b s = Some (s\<lparr>ln_dst := y_dst y', ln_len := ln_len s + length ?Z,
      ln_cksum := ln_cksum s XOR ck, ln_lastsum := ck, ln_count := ln_count s + 1\<rparr>)"
    using y'(1,2) k(2) seq_number(1) [OF k(2) b(1)]
    by (fastforce simp: long_link_def YankChars_append MaxChainLength_def ChunkLength_def b(2) Let_def mult.commute bind_eq_Some_conv)
  ultimately show ?thesis using y'(3,5) by blast
qed

text \<open>The links from number \<open>k\<close> down to 1.\<close>

lemma long_loop_links:
  assumes "long_name nm" "13 * (k - 1) < length nm" "1 \<le> k" "k \<le> 20" "length (ln_dst s) = 256"
  shows "\<exists>bs d'. set_links (name_buf nm) lc ck k = Some bs \<and> length bs = k \<and>
    long_loop (bs @ rest) s = Some (s\<lparr>ln_dst := d', ln_len := ln_len s + min (13 * k) (length nm),
      ln_cksum := (if odd k then ln_cksum s XOR ck else ln_cksum s), ln_lastsum := ck, ln_count := ln_count s + k\<rparr>, rest) \<and>
    length d' = 256 \<and> (\<forall>j < min (13 * k) (length nm). d' ! j = nm ! j) \<and>
    (\<forall>j. 13 * k \<le> j \<longrightarrow> d' ! j = ln_dst s ! j) \<and>
    (k = lc \<longrightarrow> (let b = hd bs in lfn_FirstInChain b \<and> length b = 32 \<and> b ! 0 \<noteq> 0xE5 \<and> b ! 11 = 0x0F \<and> word_at b 26 = 0))"
  using assms
proof (induction k arbitrary: s)
  case (Suc k)
  let ?Z = "take 13 (drop (13 * k) nm)"
  have kn: "13 * k < length nm" using Suc.prems(2) by simp
  note buf = name_buf_chunk [OF Suc.prems(1), of "13 * k"]
  obtain b where b: "set_link (name_buf nm) lc ck (Suc k) = Some b" "length b = 32"
    "b ! 0 = (of_nat (Suc k) AND 0x3F) OR (if Suc k = lc then 0x40 else 0)" "b ! 11 = 0x0F" "lfn_Checksum b = ck"
    "word_at b 26 = 0" "upto_nul (lfn_Name1 b @ lfn_Name2 b @ lfn_Name3 b) = map ucast ?Z"
    using set_link_ok [of "Suc k" "name_buf nm" lc ck] buf kn by (auto simp: mult.commute)
  obtain d1 where d1: "long_link b s = Some (s\<lparr>ln_dst := d1, ln_len := ln_len s + length ?Z,
      ln_cksum := ln_cksum s XOR ck, ln_lastsum := ck, ln_count := ln_count s + 1\<rparr>)" "length d1 = 256"
    "\<forall>j. 13 * k \<le> j \<and> j < min (13 * k + 13) (length nm) \<longrightarrow> d1 ! j = nm ! j"
    "\<forall>j. j < 13 * k \<or> 13 * k + 13 \<le> j \<longrightarrow> d1 ! j = ln_dst s ! j"
    using long_link_ok [OF Suc.prems(1) kn Suc.prems(4,5) b(3,5,7)] by blast
  let ?s = "s\<lparr>ln_dst := d1, ln_len := ln_len s + length ?Z, ln_cksum := ln_cksum s XOR ck, ln_lastsum := ck,
    ln_count := ln_count s + 1\<rparr>"
  note sq = seq_number [OF Suc.prems(4) b(3)]
  have Z: "length ?Z = min (13 * Suc k) (length nm) - 13 * k" using kn by simp
  have first: "Suc k = lc \<longrightarrow> lfn_FirstInChain b \<and> length b = 32 \<and> b ! 0 \<noteq> 0xE5 \<and> b ! 11 = 0x0F \<and> word_at b 26 = 0"
    using sq(3) b(2,4,6) by blast
  show ?case
  proof (cases "k = 0")
    case True
    have "long_loop ([b] @ rest) s = Some (?s, rest)" using d1(1) sq(2) True by simp
    then show ?thesis using True b(1) d1(2-4) Z first
      by (intro exI [of _ "[b]"] exI [of _ d1]) (auto simp: min.commute)
  next
    case False
    have pre: "13 * (k - 1) < length nm" "1 \<le> k" "k \<le> 20" "length (ln_dst ?s) = 256"
      using kn Suc.prems(4) False d1(2) by auto
    obtain bs d' where bs: "set_links (name_buf nm) lc ck k = Some bs" "length bs = k"
      "long_loop (bs @ rest) ?s = Some (?s\<lparr>ln_dst := d', ln_len := ln_len ?s + min (13 * k) (length nm),
        ln_cksum := (if odd k then ln_cksum ?s XOR ck else ln_cksum ?s), ln_lastsum := ck, ln_count := ln_count ?s + k\<rparr>, rest)"
      "length d' = 256" "\<forall>j < min (13 * k) (length nm). d' ! j = nm ! j" "\<forall>j. 13 * k \<le> j \<longrightarrow> d' ! j = ln_dst ?s ! j"
      using Suc.IH [OF Suc.prems(1) pre] by blast
    have x: "(ln_cksum s XOR ck) XOR ck = ln_cksum s" by (simp add: xor.assoc)
    let ?t = "s\<lparr>ln_dst := d', ln_len := ln_len s + min (13 * Suc k) (length nm),
        ln_cksum := (if odd (Suc k) then ln_cksum s XOR ck else ln_cksum s), ln_lastsum := ck,
        ln_count := ln_count s + Suc k\<rparr>"
    have t: "?s\<lparr>ln_dst := d', ln_len := ln_len ?s + min (13 * k) (length nm),
        ln_cksum := (if odd k then ln_cksum ?s XOR ck else ln_cksum ?s), ln_lastsum := ck, ln_count := ln_count ?s + k\<rparr> = ?t"
      using kn by (intro longname.equality) (auto simp: x min_def)
    have "long_loop ((b # bs) @ rest) s = Some (s\<lparr>ln_dst := d', ln_len := ln_len s + min (13 * Suc k) (length nm),
        ln_cksum := (if odd (Suc k) then ln_cksum s XOR ck else ln_cksum s), ln_lastsum := ck,
        ln_count := ln_count s + Suc k\<rparr>, rest)"
      using d1(1) sq(2) False bs(3) unfolding t by simp
    moreover have "d' ! j = nm ! j" if "j < min (13 * Suc k) (length nm)" for j
      using that bs(5,6) d1(3) by (cases "j < 13 * k") auto
    ultimately show ?thesis
      using b(1) bs(1,2,4,6) d1(4) first by (intro exI [of _ "b # bs"] exI [of _ d']) auto
  qed
qed simp

subsection \<open>Round trips\<close>

lemma long_copy_ok:
  "\<forall>c \<in> set cs. c \<noteq> 0 \<and> long_valid c \<Longrightarrow> i + length cs \<le> length b \<Longrightarrow>
    long_copy i cs b = Some (take i b @ cs @ drop (i + length cs) b)"
proof (induction cs arbitrary: i b)
  case (Cons c cs)
  then show ?case by (simp add: take_Suc_conv_app_nth)
qed simp

lemma wtrim_end_ok:
  assumes "nm \<noteq> []" "\<not> iswspace (last nm)" "last nm \<noteq> 46"
  shows "wtrim_end iswspace (nm @ t) (length nm) = length nm"
proof -
  consider "length nm = Suc 0" | k where "length nm = Suc (Suc k)"
    using assms(1) by (metis length_0_conv nat.exhaust)
  then show ?thesis
  proof cases
    case (2 k)
    then have "(nm @ t) ! Suc k = last nm" using assms(1) by (simp add: nth_append last_conv_nth)
    then show ?thesis using 2 assms by simp
  qed simp
qed

lemma word_at_le16 [simp]: "ucast (ucast (w :: u16) :: u8) OR push_bit 8 (ucast (ucast (drop_bit 8 w) :: u8)) = w"
  by (rule bit_word_eqI) (auto simp: bit_simps)

lemma word_date_word [simp]: "word_date (date_word d) = d"
proof -
  have "(ucast (date_word d) :: 5 word) = Day d" "(ucast (drop_bit 5 (date_word d)) :: 4 word) = Month d"
    "(ucast (drop_bit 9 (date_word d)) :: 7 word) = Year d"
    by (rule bit_word_eqI, auto simp: date_word_def bit_simps dest: bit_imp_le_length)+
  then show ?thesis by (simp add: word_date_def)
qed

lemma word_time_word [simp]: "word_time (time_word t) = t"
proof -
  have "(ucast (time_word t) :: 5 word) = Seconds t" "(ucast (drop_bit 5 (time_word t)) :: 6 word) = Minutes t"
    "(ucast (drop_bit 11 (time_word t)) :: 5 word) = Hours t"
    by (rule bit_word_eqI, auto simp: time_word_def bit_simps dest: bit_imp_le_length)+
  then show ?thesis by (simp add: word_time_def)
qed

text \<open>
  The 32 bytes of a directory entry hold all of it: an entry that is written to a table and read
  back is the same, dates, times, cluster and size included.
\<close>

theorem dirent_round_trip:
  assumes "length (Label e) = 11"
  shows "length (dirent_bytes e) = 32 \<and> dirent_of_bytes (dirent_bytes e) = e"
proof -
  obtain l where l: "Label e = l" "length l = 11" using assms by blast
  have w: "ucast (ucast (ucast (w :: u32) :: u8) OR push_bit 8 (ucast (ucast (drop_bit 8 w) :: u8)) :: u16) OR
      push_bit 16 (ucast (ucast (ucast (drop_bit 16 w) :: u8) OR push_bit 8 (ucast (ucast (drop_bit 24 w) :: u8)) :: u16)) = w" for w
  proof (rule bit_word_eqI)
    fix n :: nat
    assume "n < LENGTH(32)"
    then consider "n < 16" | k where "n = 16 + k" "k < 16" using le_Suc_ex [of 16 n] by fastforce
    then show "bit ((ucast (ucast (ucast (w :: u32) :: u8) OR push_bit 8 (ucast (ucast (drop_bit 8 w) :: u8)) :: u16) :: u32) OR
      push_bit 16 (ucast (ucast (ucast (drop_bit 16 w) :: u8) OR push_bit 8 (ucast (ucast (drop_bit 24 w) :: u8)) :: u16))) n = bit w n"
      by cases (auto simp: bit_simps not_less)
  qed
  show ?thesis
    using l w [of "FileSize e"]
    by (simp add: dirent_bytes_def dirent_of_bytes_def le16_def le32_def nth_append word_at_def del: unsigned_or_eq)
qed

theorem dirent_round_trip_witness:
  "dirent_of_bytes (dirent_bytes (zero_entry\<lparr>FileSize := 0x12345678\<rparr>)) = zero_entry\<lparr>FileSize := 0x12345678\<rparr>"
  using dirent_round_trip [of "zero_entry\<lparr>FileSize := 0x12345678\<rparr>"] by (simp add: zero_entry_def LABEL_LENGTH_def)

lemma GetShortNameChecksum_bytes:
  "length (Label e) = 11 \<Longrightarrow> GetShortNameChecksum (dirent_of_bytes (dirent_bytes e)) = GetShortNameChecksum e"
  by (simp add: GetShortNameChecksum_def dirent_of_bytes_def dirent_bytes_def LABEL_LENGTH_def)

lemma first_link_found:
  "lfn_FirstInChain b \<and> length b = 32 \<and> b ! 0 \<noteq> 0xE5 \<and> b ! 11 = 0x0F \<and> word_at b 26 = 0 \<Longrightarrow>
    \<not> IsDeleted (dirent_of_bytes b) \<and> IsLongFileName (dirent_of_bytes b) \<and> lfn_FirstInChain b"
  by (simp add: IsDeleted_def IsLongFileName_def HasAttribute_def dirent_of_bytes_def attr_defs)

text \<open>
  C35: A long name of up to 255 characters that \<open>SetLongName\<close> stores in a table with enough room is
  accepted, takes one link for every 13 characters in front of the short name entry and changes
  nothing behind it; \<open>GetLongName\<close> on the table then returns the same name, for every key
  of its checksum test, and the position of the short name entry, without leaving its buffer.
\<close>

theorem long_name_round_trip:
  assumes nm: "long_name nm" "\<forall>c \<in> set nm. long_valid c" "\<not> iswspace (hd nm)" "\<not> iswspace (last nm)" "last nm \<noteq> 46"
    and sfn: "length (Label sfn) = 11" and n: "n = (length nm + 12) div 13" "n < length table" and dst: "length dst = 256"
  shows "\<exists>table' dst'. SetLongName iswspace table (nm @ [0]) sfn = Some (True, table', n) \<and>
    length table' = length table \<and> drop (n + 1) table' = drop (n + 1) table \<and>
    GetLongName key dst table' = Some (dst', dirent_bytes sfn # drop (n + 1) table) \<and>
    take (length nm + 1) dst' = nm @ [0]"
proof -
  let ?ck = "GetShortNameChecksum sfn" and ?rest = "dirent_bytes sfn # drop (n + 1) table"
  let ?s = "\<lparr>ln_dst = dst, ln_len = 0, ln_count = 0, ln_cksum = key, ln_lastsum = 0\<rparr>"
  have l: "nm \<noteq> []" "length nm \<le> 255" "\<forall>c \<in> set nm. c \<noteq> 0" using nm(1) by (auto simp: long_name_def)
  have l0: "0 < length nm" using l(1) by simp
  have k: "13 * (n - 1) < length nm" "1 \<le> n" "n \<le> 20" "length nm \<le> 13 * n" using l0 l(2) n(1) by linarith+
  obtain bs d where bs: "set_links (name_buf nm) n ?ck n = Some bs" "length bs = n"
    "long_loop (bs @ ?rest) ?s = Some (?s\<lparr>ln_dst := d, ln_len := length nm, ln_cksum := (if odd n then key XOR ?ck else key),
      ln_lastsum := ?ck, ln_count := n\<rparr>, ?rest)"
    "length d = 256" "\<forall>j < length nm. d ! j = nm ! j"
    "let b = hd bs in lfn_FirstInChain b \<and> length b = 32 \<and> b ! 0 \<noteq> 0xE5 \<and> b ! 11 = 0x0F \<and> word_at b 26 = 0"
    using long_loop_links [OF nm(1) k(1-3), of ?s n ?ck ?rest] dst k(4) by (auto simp: min_absorb2 cong: if_cong)
  obtain b bs' where b: "bs = b # bs'" using bs(2) k(2) by (cases bs) auto
  have src: "dropWhile iswspace (nm @ [0]) = nm @ [0]" using nm(3) l(1) by (cases nm) auto
  have up: "upto_nul (nm @ [0]) = nm" using l(3) by (simp add: takeWhile_append2)
  have copy: "long_copy 0 nm (replicate 256 0) = Some (name_buf nm)"
    using long_copy_ok [of nm 0 "replicate 256 0"] nm(2) l(2,3) by (simp add: name_buf_def)
  have set: "SetLongName iswspace table (nm @ [0]) sfn = Some (True, bs @ ?rest, n)"
    using l n k(3) bs(1) copy wtrim_end_ok [of nm iswspace "[0]"] nm(4,5)
    by (simp add: SetLongName_def src up LONGNAME_LENGTH_def MAX_LONGNAME_def ChunkLength_def MaxChainLength_def Let_def add.commute [of 12])
  have x: "(key XOR ?ck) XOR ?ck = key" by (simp add: xor.assoc)
  have get: "GetLongName key dst (bs @ ?rest) = Some (d[length nm := 0], ?rest)"
    using bs(3,4,6) first_link_found [of b] l(2) x unfolding b
    by (simp add: GetLongName_def GetShortNameChecksum_bytes [OF sfn] del: long_loop.simps)
  have "take (length nm + 1) (d[length nm := 0]) = nm @ [0]"
    using bs(4,5) l(2) by (intro nth_equalityI) (auto simp: nth_append nth_list_update less_Suc_eq)
  moreover have "drop (n + 1) (bs @ ?rest) = drop (n + 1) table" using bs(2) by simp
  ultimately show ?thesis using set get bs(2) n(2) by auto
qed

theorem long_name_round_trip_witness:
  "\<exists>table' dst'. SetLongName (\<lambda>c. c = 32) (replicate 4 (replicate 32 0)) (map of_char ''boot loader.bin'' @ [0]) zero_entry =
      Some (True, table', 2) \<and>
    GetLongName 7 (replicate 256 1) table' = Some (dst', [dirent_bytes zero_entry, replicate 32 0]) \<and>
    take 16 dst' = map of_char ''boot loader.bin'' @ [0]"
proof -
  let ?nm = "map of_char ''boot loader.bin'' :: u32 list" and ?t = "replicate 4 (replicate 32 0) :: u8 list list"
  have h: "long_name ?nm" "\<forall>c \<in> set ?nm. long_valid c" "hd ?nm \<noteq> 32" "last ?nm \<noteq> 32" "last ?nm \<noteq> 46"
    "length (Label zero_entry) = 11" "2 = (length ?nm + 12) div 13" "2 < length ?t" "length (replicate 256 (1 :: u32)) = 256"
    by code_simp+
  have e: "drop (2 + 1) ?t = [replicate 32 0]" "length ?nm + 1 = 16" by code_simp+
  show ?thesis
    using long_name_round_trip [where iswspace = "\<lambda>c. c = 32", OF h, of 7] unfolding e by blast
qed

text \<open>Characters up to the end of the buffer.\<close>

lemma YankChars_overrun:
  assumes "\<not> y_nul y" "0 \<notin> set cs" "y_pos y \<le> length (y_dst y)" "length (y_dst y) < y_pos y + length cs"
  shows "YankChars cs y = None"
  using assms
proof (induction cs arbitrary: y)
  case (Cons c cs)
  then show ?case
    by (cases "y_pos y < length (y_dst y)") (auto simp: arr_set_def Let_def)
qed simp

text \<open>
  \<open>GetLongName\<close> trusts the sequence number of a chain's first link: number 0 would
  place the characters in front of the name buffer, and number 20, which the assertion allows,
  with 13 characters writes behind its 256 elements.
\<close>

theorem GetLongName_overrun:
  assumes "\<not> IsDeleted (dirent_of_bytes b)" "IsLongFileName (dirent_of_bytes b)" "lfn_FirstInChain b" "length dst = 256"
    and "lfn_SequenceNumber b = 0 \<or> lfn_SequenceNumber b = 20 \<and> 0 \<notin> set (lfn_Name1 b @ lfn_Name2 b @ lfn_Name3 b)"
  shows "GetLongName key dst (b # es) = None"
proof -
  have "long_link b \<lparr>ln_dst = dst, ln_len = 0, ln_count = 0, ln_cksum = key, ln_lastsum = 0\<rparr> = None"
  proof (cases "lfn_SequenceNumber b = 0")
    case False
    then have "YankChars (lfn_Name1 b @ lfn_Name2 b @ lfn_Name3 b)
        \<lparr>y_dst = dst, y_pos = 247, y_len = 0, y_nul = False\<rparr> = None"
      using assms(4,5) by (intro YankChars_overrun) (auto simp: lfn_names)
    then show ?thesis
      using False assms(5)
      by (auto simp: long_link_def YankChars_append ChunkLength_def Let_def bind_eq_None_conv split: bind_splits)
  qed (simp add: long_link_def Let_def assert_opt_def)
  then show ?thesis using assms(1-3) by (simp add: GetLongName_def)
qed

theorem GetLongName_overrun_witness:
  "GetLongName 0 (replicate 256 0) [(replicate 32 65)[0 := 0x54, 11 := 0x0F, 26 := 0, 27 := 0]] = None"
  by (rule GetLongName_overrun) code_simp+

end
