(* ===== verification/Ldisc.thy ===== *)
theory Ldisc
  imports Ring Ctype
begin

text \<open>
  The line discipline \<^verbatim>\<open>src/kernel/char/tty_ldisc.c\<close> (N_TTY) between a character
  device driver and the readers and writers of a tty, with the data of
  \<^verbatim>\<open>src/include/kernel/tty.h\<close>. The driver is the record \<open>tty_driver\<close> of its
  functions over a driver state of any type; a \<open>NULL\<close> function pointer is \<open>None\<close>.
  The functions that the driver gets called with may read the tty. Each tty has its own
  \<open>ldisc_data\<close>, the ring of received characters. A loop that waits for an interrupt or
  never ends has no result.
\<close>

record termios =
  c_line :: u32
  c_iflag :: u32
  c_oflag :: u32
  c_cflag :: u32
  c_lflag :: u32

text \<open>\<open>t_file\<close> is \<open>f_oflag\<close> of the connected file.\<close>

record tty =
  t_device :: u32
  t_open :: bool
  t_throttled :: bool
  t_stopped :: bool
  t_hw_stopped :: bool
  t_line :: int
  t_file :: "u32 option"
  t_termios :: termios
  t_data :: "ring option"

record 'd tty_driver =
  drv_write :: "(tty \<Rightarrow> u8 list \<Rightarrow> 'd \<Rightarrow> (int \<times> 'd) option) option"
  drv_write_room :: "tty \<Rightarrow> 'd \<Rightarrow> u32"
  drv_flush :: "(tty \<Rightarrow> 'd \<Rightarrow> 'd) option"
  drv_throttle :: "(tty \<Rightarrow> 'd \<Rightarrow> 'd) option"
  drv_unthrottle :: "(tty \<Rightarrow> 'd \<Rightarrow> 'd) option"
  drv_stop :: "(tty \<Rightarrow> 'd \<Rightarrow> 'd) option"
  drv_start :: "(tty \<Rightarrow> 'd \<Rightarrow> 'd) option"

definition TTY_BUFFER_SIZE :: u32 where "TTY_BUFFER_SIZE = 1024"
definition TTY_THROTTLE_THRESH :: u32 where "TTY_THROTTLE_THRESH = 128"
definition O_NONBLOCK :: u32 where "O_NONBLOCK = 4"

definition I_ICRNL :: "tty \<Rightarrow> bool" where "I_ICRNL tty = bit (c_iflag (t_termios tty)) 0"
definition I_INLCR :: "tty \<Rightarrow> bool" where "I_INLCR tty = bit (c_iflag (t_termios tty)) 1"
definition I_IGNCR :: "tty \<Rightarrow> bool" where "I_IGNCR tty = bit (c_iflag (t_termios tty)) 2"
definition I_IXON :: "tty \<Rightarrow> bool" where "I_IXON tty = bit (c_iflag (t_termios tty)) 3"
definition I_IXOFF :: "tty \<Rightarrow> bool" where "I_IXOFF tty = bit (c_iflag (t_termios tty)) 4"
definition O_OPOST :: "tty \<Rightarrow> bool" where "O_OPOST tty = bit (c_oflag (t_termios tty)) 0"
definition O_OCRNL :: "tty \<Rightarrow> bool" where "O_OCRNL tty = bit (c_oflag (t_termios tty)) 1"
definition O_ONLCR :: "tty \<Rightarrow> bool" where "O_ONLCR tty = bit (c_oflag (t_termios tty)) 2"
definition C_CRTSCTS :: "tty \<Rightarrow> bool" where "C_CRTSCTS tty = bit (c_cflag (t_termios tty)) 0"
definition L_ECHO :: "tty \<Rightarrow> bool" where "L_ECHO tty = bit (c_lflag (t_termios tty)) 0"
definition L_ECHOCTL :: "tty \<Rightarrow> bool" where "L_ECHOCTL tty = bit (c_lflag (t_termios tty)) 1"
definition STOP_CHAR :: u8 where "STOP_CHAR = 0x13"
definition START_CHAR :: u8 where "START_CHAR = 0x11"

lemmas tty_flag_defs = I_ICRNL_def I_INLCR_def I_IGNCR_def I_IXON_def I_IXOFF_def O_OPOST_def O_OCRNL_def
  O_ONLCR_def C_CRTSCTS_def L_ECHO_def L_ECHOCTL_def

subsection \<open>Driver calls\<close>

definition drv_call :: "(tty \<Rightarrow> 'd \<Rightarrow> 'd) option \<Rightarrow> tty \<Rightarrow> 'd \<Rightarrow> 'd" where
  "drv_call f tty d = (case f of None \<Rightarrow> d | Some g \<Rightarrow> g tty d)"

definition write_char :: "'d tty_driver \<Rightarrow> tty \<Rightarrow> 'd \<Rightarrow> u8 \<Rightarrow> 'd option" where
  "write_char drv tty d c = do {
     w \<leftarrow> drv_write drv;
     (_, d) \<leftarrow> w tty [c] d;
     Some d
   }"

definition unthrottle_tty :: "'d tty_driver \<Rightarrow> tty \<Rightarrow> 'd \<Rightarrow> tty \<times> 'd" where
  "unthrottle_tty drv tty d =
    (if \<not> t_throttled tty then (tty, d)
     else let tty = tty\<lparr>t_throttled := False\<rparr> in (tty, drv_call (drv_unthrottle drv) tty d))"

definition throttle_tty :: "'d tty_driver \<Rightarrow> tty \<Rightarrow> 'd \<Rightarrow> tty \<times> 'd" where
  "throttle_tty drv tty d =
    (if t_throttled tty then (tty, d)
     else let tty = tty\<lparr>t_throttled := True\<rparr> in (tty, drv_call (drv_throttle drv) tty d))"

definition start_tty :: "'d tty_driver \<Rightarrow> tty \<Rightarrow> 'd \<Rightarrow> tty \<times> 'd" where
  "start_tty drv tty d =
    (if \<not> t_stopped tty then (tty, d)
     else let tty = tty\<lparr>t_stopped := False\<rparr> in (tty, drv_call (drv_start drv) tty d))"

definition stop_tty :: "'d tty_driver \<Rightarrow> tty \<Rightarrow> 'd \<Rightarrow> tty \<times> 'd" where
  "stop_tty drv tty d =
    (if t_stopped tty then (tty, d)
     else let tty = tty\<lparr>t_stopped := True\<rparr> in (tty, drv_call (drv_stop drv) tty d))"

subsection \<open>Output\<close>

definition opost :: "'d tty_driver \<Rightarrow> tty \<Rightarrow> 'd \<Rightarrow> u8 \<Rightarrow> (int \<times> 'd) option" where
  "opost drv tty d c = (
     let room = drv_write_room drv tty d in
     if room < 1 then Some (-1, d)
     else if O_OPOST tty \<and> c = 10 \<and> O_ONLCR tty then
       if room < 2 then Some (-1, d)
       else do { d \<leftarrow> write_char drv tty d 13; d \<leftarrow> write_char drv tty d c; Some (0, d) }
     else do {
       let c = (if O_OPOST tty \<and> c = 13 \<and> O_OCRNL tty then 10 else c);
       d \<leftarrow> write_char drv tty d c;
       Some (0, d)
     })"

definition echo :: "'d tty_driver \<Rightarrow> tty \<Rightarrow> 'd \<Rightarrow> u8 \<Rightarrow> (int \<times> 'd) option" where
  "echo drv tty d c =
    (if L_ECHOCTL tty \<and> iscntrl (cchar c) \<and> c \<noteq> 9 \<and> c \<noteq> 10 then
       let room = drv_write_room drv tty d in
       if room < 2 then Some (-1, d)
       else do { d \<leftarrow> write_char drv tty d 94; d \<leftarrow> write_char drv tty d (c XOR 0x40); Some (0, d) }
     else opost drv tty d c)"

text \<open>The loop of \<open>n_tty_write\<close>; \<open>n\<close> is \<open>ptr - buf\<close>.\<close>

partial_function (option) n_write_loop :: "'d tty_driver \<Rightarrow> tty \<Rightarrow> 'd \<Rightarrow> u8 list \<Rightarrow> int \<Rightarrow> (int \<times> int \<times> 'd) option" where
  "n_write_loop drv tty d buf n =
    (if buf = [] then Some (0, n, d)
     else if O_OPOST tty then do {
       (ret, d) \<leftarrow> opost drv tty d (hd buf);
       if ret < 0 then Some (0, n, d) else n_write_loop drv tty d (tl buf) (n + 1)
     }
     else do {
       w \<leftarrow> drv_write drv;
       (ret, d) \<leftarrow> w tty buf d;
       if ret < 0 then Some (ret, n, d) else n_write_loop drv tty d (drop (nat ret) buf) (n + ret)
     })"

definition n_tty_write :: "'d tty_driver \<Rightarrow> tty \<Rightarrow> 'd \<Rightarrow> u8 list \<Rightarrow> (int \<times> 'd) option" where
  "n_tty_write drv tty d buf =
    (if drv_write drv = None then Some (- EIO, d)
     else do {
       (ret, n, d) \<leftarrow> n_write_loop drv tty d buf 0;
       let d = drv_call (drv_flush drv) tty d;
       Some (if ret \<ge> 0 then n else ret, d)
     })"

subsection \<open>Input\<close>

definition n_tty_open :: "tty \<Rightarrow> u8 list \<Rightarrow> tty" where
  "n_tty_open tty rxbuf = tty\<lparr>t_data := Some (ring_init rxbuf TTY_BUFFER_SIZE)\<rparr>"

definition n_tty_clear :: "tty \<Rightarrow> tty" where
  "n_tty_clear tty = tty\<lparr>t_data := map_option ring_clear (t_data tty)\<rparr>"

definition n_tty_ioctl :: int where "n_tty_ioctl = - ENOTTY"

definition n_tty_recv_room :: "tty \<Rightarrow> u32 option" where
  "n_tty_recv_room tty = do { q \<leftarrow> t_data tty; Some (ring_length q - ring_count q) }"

definition recv_translate :: "tty \<Rightarrow> u8 \<Rightarrow> u8" where
  "recv_translate tty c =
    (if c = 13 \<and> I_ICRNL tty then 10 else if c = 10 \<and> I_INLCR tty then 13 else c)"

definition recv_put :: "tty \<Rightarrow> u8 \<Rightarrow> tty option" where
  "recv_put tty c = do { q \<leftarrow> t_data tty; (_, q) \<leftarrow> ring_put q c; Some (tty\<lparr>t_data := Some q\<rparr>) }"

text \<open>
  The loop of \<open>n_tty_recv\<close>: \<open>True\<close> is a \<open>return\<close> from the middle of it. An ignored
  carriage return goes on with the same character.
\<close>

partial_function (option) recv_loop :: "'d tty_driver \<Rightarrow> tty \<Rightarrow> 'd \<Rightarrow> u8 list \<Rightarrow> (bool \<times> tty \<times> 'd) option" where
  "recv_loop drv tty d buf =
    (case buf of
       [] \<Rightarrow> Some (False, tty, d)
     | c # cs \<Rightarrow>
         if I_IXON tty \<and> c = START_CHAR then Some (True, start_tty drv tty d)
         else if I_IXON tty \<and> c = STOP_CHAR then Some (True, stop_tty drv tty d)
         else if c = 13 \<and> I_IGNCR tty then recv_loop drv tty d (c # cs)
         else do {
           let c = recv_translate tty c;
           room \<leftarrow> n_tty_recv_room tty;
           if L_ECHO tty \<and> room \<le> 1 then do { d \<leftarrow> write_char drv tty d 7; Some (True, tty, d) }
           else do {
             (_, d) \<leftarrow> (if L_ECHO tty then echo drv tty d c else Some (0, d));
             tty \<leftarrow> recv_put tty c;
             recv_loop drv tty d cs
           }
         })"

definition n_tty_recv :: "'d tty_driver \<Rightarrow> tty \<Rightarrow> 'd \<Rightarrow> u8 list \<Rightarrow> (tty \<times> 'd) option" where
  "n_tty_recv drv tty d buf =
    (if t_data tty = None then Some (tty, d)
     else do {
       (ret, tty, d) \<leftarrow> recv_loop drv tty d buf;
       if ret then Some (tty, d)
       else do {
         let d = drv_call (drv_flush drv) tty d;
         room \<leftarrow> n_tty_recv_room tty;
         Some (if room < TTY_THROTTLE_THRESH then throttle_tty drv tty d else (tty, d))
       }
     })"

text \<open>The loop of \<open>n_tty_read\<close>; without \<open>O_NONBLOCK\<close> it spins while the ring is empty.\<close>

partial_function (option) read_loop :: "'d tty_driver \<Rightarrow> tty \<Rightarrow> 'd \<Rightarrow> nat \<Rightarrow> u8 list \<Rightarrow> (int \<times> u8 list \<times> tty \<times> 'd) option" where
  "read_loop drv tty d count acc =
    (if count = 0 then Some (0, acc, tty, d)
     else do {
       q \<leftarrow> t_data tty;
       if ring_count q = 0 then do {
         oflag \<leftarrow> t_file tty;
         if (oflag AND O_NONBLOCK) \<noteq> 0 then Some (if acc = [] then - EAGAIN else 0, acc, tty, d)
         else read_loop drv tty d count acc
       }
       else do {
         (c, q) \<leftarrow> ring_get q;
         let tty = tty\<lparr>t_data := Some q\<rparr>;
         room \<leftarrow> n_tty_recv_room tty;
         let (tty, d) = (if room \<ge> TTY_THROTTLE_THRESH then unthrottle_tty drv tty d else (tty, d));
         read_loop drv tty d (count - 1) (acc @ [c])
       }
     })"

text \<open>A missing ring fails the assertion.\<close>

definition n_tty_read :: "'d tty_driver \<Rightarrow> tty \<Rightarrow> 'd \<Rightarrow> nat \<Rightarrow> (int \<times> u8 list \<times> tty \<times> 'd) option" where
  "n_tty_read drv tty d count = do {
     assert_opt (t_data tty \<noteq> None);
     (ret, acc, tty, d) \<leftarrow> read_loop drv tty d count [];
     Some (if ret < 0 then ret else int (length acc), acc, tty, d)
   }"

subsection \<open>Specification of the character translations\<close>

definition opost_chars :: "tty \<Rightarrow> u8 \<Rightarrow> u8 list" where
  "opost_chars tty c =
    (if O_OPOST tty \<and> c = 10 \<and> O_ONLCR tty then [13, 10]
     else if O_OPOST tty \<and> c = 13 \<and> O_OCRNL tty then [10] else [c])"

definition echo_chars :: "tty \<Rightarrow> u8 \<Rightarrow> u8 list" where
  "echo_chars tty c =
    (if L_ECHOCTL tty \<and> iscntrl (cchar c) \<and> c \<noteq> 9 \<and> c \<noteq> 10 then [94, c XOR 0x40] else opost_chars tty c)"

lemma opost_chars_length: "1 \<le> length (opost_chars tty c)" "length (opost_chars tty c) \<le> 2"
  by (auto simp: opost_chars_def)

lemma recv_room_unat:
  assumes "t_data tty = Some q" "ring_ok q"
  shows "\<exists>r. n_tty_recv_room tty = Some r \<and> unat r = ring_capacity q - length (ring_list q)"
proof -
  have "r_count q \<le> r_length q" using assms(2) by (simp add: ring_ok_def)
  then have "unat (r_length q - r_count q) = unat (r_length q) - unat (r_count q)" by (rule unat_sub)
  then show ?thesis
    using assms(1) by (simp add: n_tty_recv_room_def ring_length_def ring_count_def ring_capacity_def)
qed

text \<open>Characters without effect on the flow of the input loop.\<close>

definition plain :: "tty \<Rightarrow> u8 \<Rightarrow> bool" where
  "plain tty c \<longleftrightarrow> \<not> (I_IXON tty \<and> (c = START_CHAR \<or> c = STOP_CHAR)) \<and> \<not> (c = 13 \<and> I_IGNCR tty)"

lemma flags_data [simp]:
  "I_ICRNL (tty\<lparr>t_data := x\<rparr>) = I_ICRNL tty" "I_INLCR (tty\<lparr>t_data := x\<rparr>) = I_INLCR tty"
  "I_IGNCR (tty\<lparr>t_data := x\<rparr>) = I_IGNCR tty" "I_IXON (tty\<lparr>t_data := x\<rparr>) = I_IXON tty"
  "O_OPOST (tty\<lparr>t_data := x\<rparr>) = O_OPOST tty" "O_ONLCR (tty\<lparr>t_data := x\<rparr>) = O_ONLCR tty"
  "O_OCRNL (tty\<lparr>t_data := x\<rparr>) = O_OCRNL tty" "L_ECHO (tty\<lparr>t_data := x\<rparr>) = L_ECHO tty"
  "L_ECHOCTL (tty\<lparr>t_data := x\<rparr>) = L_ECHOCTL tty" "plain (tty\<lparr>t_data := x\<rparr>) = plain tty"
  "recv_translate (tty\<lparr>t_data := x\<rparr>) = recv_translate tty" "opost_chars (tty\<lparr>t_data := x\<rparr>) = opost_chars tty"
  "echo_chars (tty\<lparr>t_data := x\<rparr>) = echo_chars tty"
  by (auto simp: tty_flag_defs plain_def recv_translate_def opost_chars_def echo_chars_def fun_eq_iff)

subsection \<open>The contract of a driver\<close>

text \<open>
  What the line discipline relies on: a driver with an output queue. \<open>out\<close> are the
  characters accepted for the device and not transmitted yet, \<open>inv\<close> is the driver's
  invariant. A character that is written when there is room is appended to the queue and takes at
  most one place; the other calls keep the queue.
\<close>

locale tty_output =
  fixes drv :: "'d tty_driver"
    and inv :: "u32 \<Rightarrow> 'd \<Rightarrow> bool"
    and out :: "u32 \<Rightarrow> 'd \<Rightarrow> u8 list"
  assumes write_one: "inv (t_device tty) d \<Longrightarrow> 1 \<le> drv_write_room drv tty d \<Longrightarrow>
      \<exists>w d'. drv_write drv = Some w \<and> w tty [c] d = Some (1, d') \<and> inv (t_device tty) d' \<and>
        out (t_device tty) d' = out (t_device tty) d @ [c] \<and>
        unat (drv_write_room drv tty d) \<le> unat (drv_write_room drv tty d') + 1"
    and write_room: "inv (t_device tty) d \<Longrightarrow> inv (t_device tty) (drv_call (drv_flush drv) tty d) \<and>
        out (t_device tty) (drv_call (drv_flush drv) tty d) = out (t_device tty) d \<and>
        drv_write_room drv tty (drv_call (drv_flush drv) tty d) = drv_write_room drv tty d"
    and control: "f \<in> {drv_throttle drv, drv_unthrottle drv, drv_stop drv, drv_start drv} \<Longrightarrow>
      inv (t_device tty) d \<Longrightarrow> inv (t_device tty) (drv_call f tty d) \<and>
        out (t_device tty) (drv_call f tty d) = out (t_device tty) d"
    and room_device: "t_device tty = t_device tty' \<Longrightarrow> drv_write_room drv tty d = drv_write_room drv tty' d"
begin

abbreviation room :: "tty \<Rightarrow> 'd \<Rightarrow> nat" where
  "room tty d \<equiv> unat (drv_write_room drv tty d)"

lemma write_char_ok:
  assumes "inv (t_device tty) d" "1 \<le> room tty d"
  shows "\<exists>d'. write_char drv tty d c = Some d' \<and> inv (t_device tty) d' \<and>
    out (t_device tty) d' = out (t_device tty) d @ [c] \<and> room tty d \<le> room tty d' + 1"
proof -
  have "1 \<le> drv_write_room drv tty d" using assms(2) by (simp add: word_le_nat_alt)
  from write_one [OF assms(1) this, of c] show ?thesis by (auto simp: write_char_def)
qed

text \<open>Two characters, when there is room for both.\<close>

lemma write_two_ok:
  assumes "inv (t_device tty) d" "2 \<le> room tty d"
  shows "\<exists>d'. (do { d \<leftarrow> write_char drv tty d a; d \<leftarrow> write_char drv tty d b; Some (0 :: int, d) }) = Some (0, d') \<and>
    inv (t_device tty) d' \<and> out (t_device tty) d' = out (t_device tty) d @ [a, b] \<and> room tty d \<le> room tty d' + 2"
proof -
  obtain d1 where d1: "write_char drv tty d a = Some d1" "inv (t_device tty) d1"
    "out (t_device tty) d1 = out (t_device tty) d @ [a]" "room tty d \<le> room tty d1 + 1"
    using write_char_ok [OF assms(1), of a] assms(2) by auto
  moreover obtain d2 where "write_char drv tty d1 b = Some d2" "inv (t_device tty) d2"
    "out (t_device tty) d2 = out (t_device tty) d1 @ [b]" "room tty d1 \<le> room tty d2 + 1"
    using write_char_ok [OF d1(2), of b] d1(4) assms(2) by auto
  ultimately show ?thesis by auto
qed

lemma opost_ok:
  assumes "inv (t_device tty) d"
  shows "if length (opost_chars tty c) \<le> room tty d
    then \<exists>d'. opost drv tty d c = Some (0, d') \<and> inv (t_device tty) d' \<and>
      out (t_device tty) d' = out (t_device tty) d @ opost_chars tty c \<and>
      room tty d \<le> room tty d' + length (opost_chars tty c)
    else opost drv tty d c = Some (-1, d)"
proof -
  have w: "(drv_write_room drv tty d < 1) = (room tty d < 1)" "(drv_write_room drv tty d < 2) = (room tty d < 2)"
    by (simp_all add: word_less_nat_alt)
  show ?thesis
  proof (cases "O_OPOST tty \<and> c = 10 \<and> O_ONLCR tty")
    case True
    then show ?thesis
      using write_two_ok [OF assms, of 13 10] w by (auto simp: opost_def opost_chars_def Let_def)
  next
    case False
    then show ?thesis
      using write_char_ok [OF assms, of c] write_char_ok [OF assms, of 10] w
      by (auto simp: opost_def opost_chars_def Let_def not_less)
  qed
qed

lemma echo_ok:
  assumes "inv (t_device tty) d"
  shows "if length (echo_chars tty c) \<le> room tty d
    then \<exists>d'. echo drv tty d c = Some (0, d') \<and> inv (t_device tty) d' \<and>
      out (t_device tty) d' = out (t_device tty) d @ echo_chars tty c \<and>
      room tty d \<le> room tty d' + length (echo_chars tty c)
    else echo drv tty d c = Some (-1, d)"
proof (cases "L_ECHOCTL tty \<and> iscntrl (cchar c) \<and> c \<noteq> 9 \<and> c \<noteq> 10")
  case True
  moreover have "(drv_write_room drv tty d < 2) = (room tty d < 2)" by (simp add: word_less_nat_alt)
  ultimately show ?thesis
    using write_two_ok [OF assms, of 94 "c XOR 0x40"] by (auto simp: echo_def echo_chars_def Let_def)
next
  case False
  then show ?thesis using opost_ok [OF assms, of c] by (auto simp: echo_def echo_chars_def)
qed

text \<open>Post-processed output: as many characters as there is room for, each with its whole translation.\<close>

lemma n_write_loop_ok:
  assumes "O_OPOST tty" "inv (t_device tty) d"
  shows "\<exists>k d'. k \<le> length buf \<and> n_write_loop drv tty d buf n = Some (0, n + int k, d') \<and> inv (t_device tty) d' \<and>
    out (t_device tty) d' = out (t_device tty) d @ concat (map (opost_chars tty) (take k buf)) \<and>
    room tty d \<le> room tty d' + length (concat (map (opost_chars tty) (take k buf))) \<and>
    (k < length buf \<longrightarrow> room tty d' < length (opost_chars tty (buf ! k)))"
  using assms(2)
proof (induction buf arbitrary: d n)
  case Nil
  then show ?case by (subst n_write_loop.simps) simp
next
  case (Cons c buf)
  show ?case
  proof (cases "length (opost_chars tty c) \<le> room tty d")
    case True
    then obtain d1 where d1: "opost drv tty d c = Some (0, d1)" "inv (t_device tty) d1"
      "out (t_device tty) d1 = out (t_device tty) d @ opost_chars tty c"
      "room tty d \<le> room tty d1 + length (opost_chars tty c)"
      using opost_ok [OF Cons.prems, of c] by auto
    have "n_write_loop drv tty d (c # buf) n = n_write_loop drv tty d1 buf (n + 1)"
      using d1(1) assms(1) by (subst n_write_loop.simps) simp
    moreover obtain k d' where "k \<le> length buf" "n_write_loop drv tty d1 buf (n + 1) = Some (0, n + 1 + int k, d')"
      "inv (t_device tty) d'" "out (t_device tty) d' = out (t_device tty) d1 @ concat (map (opost_chars tty) (take k buf))"
      "room tty d1 \<le> room tty d' + length (concat (map (opost_chars tty) (take k buf)))"
      "k < length buf \<longrightarrow> room tty d' < length (opost_chars tty (buf ! k))"
      using Cons.IH [OF d1(2), of "n + 1"] by blast
    ultimately show ?thesis
      using d1(3,4) by (intro exI [of _ "Suc k"] exI [of _ d']) auto
  next
    case False
    then have "n_write_loop drv tty d (c # buf) n = Some (0, n, d)"
      using opost_ok [OF Cons.prems, of c] assms(1) by (subst n_write_loop.simps) simp
    then show ?thesis using Cons.prems False by (intro exI [of _ 0] exI [of _ d]) auto
  qed
qed

lemma n_tty_write_ok:
  assumes "O_OPOST tty" "inv (t_device tty) d" "drv_write drv \<noteq> None"
  shows "\<exists>k d'. k \<le> length buf \<and> n_tty_write drv tty d buf = Some (int k, d') \<and> inv (t_device tty) d' \<and>
    out (t_device tty) d' = out (t_device tty) d @ concat (map (opost_chars tty) (take k buf)) \<and>
    (k < length buf \<longrightarrow> room tty d' < length (opost_chars tty (buf ! k))) \<and>
    (length (concat (map (opost_chars tty) buf)) \<le> room tty d \<longrightarrow> k = length buf)"
proof -
  obtain k d' where k: "k \<le> length buf" "n_write_loop drv tty d buf 0 = Some (0, int k, d')" "inv (t_device tty) d'"
    "out (t_device tty) d' = out (t_device tty) d @ concat (map (opost_chars tty) (take k buf))"
    "room tty d \<le> room tty d' + length (concat (map (opost_chars tty) (take k buf)))"
    "k < length buf \<longrightarrow> room tty d' < length (opost_chars tty (buf ! k))"
    using n_write_loop_ok [OF assms(1,2), of buf 0] by auto
  have "k = length buf" if fits: "length (concat (map (opost_chars tty) buf)) \<le> room tty d"
  proof (rule ccontr)
    assume "k \<noteq> length buf"
    then have lt: "k < length buf" using k(1) by simp
    then have "buf = take k buf @ buf ! k # drop (Suc k) buf" by (rule id_take_nth_drop)
    then have "length (concat (map (opost_chars tty) buf)) =
        length (concat (map (opost_chars tty) (take k buf))) + length (opost_chars tty (buf ! k)) +
        length (concat (map (opost_chars tty) (drop (Suc k) buf)))"
      by (metis add.assoc concat.simps(2) concat_append length_append list.simps(9) map_append)
    then show False using fits k(5) k(6) lt by linarith
  qed
  then show ?thesis
    using k assms(3) write_room [OF k(3)] by (auto simp: n_tty_write_def Let_def)
qed

text \<open>Input: the translated characters are queued for the readers and echoed as far as there is room.\<close>

lemma recv_loop_ok:
  assumes "inv (t_device tty) d" "t_data tty = Some q" "ring_ok q" "\<forall>c \<in> set buf. plain tty c"
    "length (ring_list q) + length buf + (if L_ECHO tty then 1 else 0) \<le> ring_capacity q"
  shows "\<exists>q' d' es. recv_loop drv tty d buf = Some (False, tty\<lparr>t_data := Some q'\<rparr>, d') \<and> ring_ok q' \<and>
    ring_list q' = ring_list q @ map (recv_translate tty) buf \<and> ring_capacity q' = ring_capacity q \<and>
    inv (t_device tty) d' \<and> out (t_device tty) d' = out (t_device tty) d @ es \<and>
    (\<not> L_ECHO tty \<longrightarrow> es = []) \<and>
    (L_ECHO tty \<and> length (concat (map (echo_chars tty \<circ> recv_translate tty) buf)) \<le> room tty d \<longrightarrow>
      es = concat (map (echo_chars tty \<circ> recv_translate tty) buf))"
  using assms
proof (induction buf arbitrary: tty d q)
  case Nil
  then have "tty\<lparr>t_data := Some q\<rparr> = tty" by simp
  then show ?case using Nil by (subst recv_loop.simps) (intro exI [of _ q] exI [of _ d] exI [of _ "[]"], simp)
next
  case (Cons c buf)
  let ?c = "recv_translate tty c"
  have pc: "\<not> (I_IXON tty \<and> c = START_CHAR)" "\<not> (I_IXON tty \<and> c = STOP_CHAR)" "\<not> (c = 13 \<and> I_IGNCR tty)"
    using Cons.prems(4) by (auto simp: plain_def)
  obtain r where r: "n_tty_recv_room tty = Some r" "unat r = ring_capacity q - length (ring_list q)"
    using recv_room_unat [OF Cons.prems(2,3)] by blast
  have room1: "\<not> (L_ECHO tty \<and> r \<le> 1)" using r(2) Cons.prems(5) by (auto simp: word_le_nat_alt)
  obtain q1 where q1: "ring_put q ?c = Some (True, q1)" "ring_ok q1" "ring_list q1 = ring_list q @ [?c]"
    "ring_capacity q1 = ring_capacity q"
    using ring_dq.put_room [OF Cons.prems(3), of ?c] Cons.prems(5) by auto
  let ?tty = "tty\<lparr>t_data := Some q1\<rparr>"
  define ok where "ok = (L_ECHO tty \<and> length (echo_chars tty ?c) \<le> room tty d)"
  obtain ret d1 where d1: "(if L_ECHO tty then echo drv tty d ?c else Some (0, d)) = Some (ret, d1)" "inv (t_device tty) d1"
    "out (t_device tty) d1 = out (t_device tty) d @ (if ok then echo_chars tty ?c else [])"
    "ok \<longrightarrow> room tty d \<le> room tty d1 + length (echo_chars tty ?c)"
    using echo_ok [OF Cons.prems(1), of ?c] Cons.prems(1) unfolding ok_def by (cases "L_ECHO tty") (auto split: if_splits)
  have step: "recv_loop drv tty d (c # buf) = recv_loop drv ?tty d1 buf"
    using pc room1 r(1) q1(1) d1(1) Cons.prems(2) by (subst recv_loop.simps) (auto simp: recv_put_def Let_def)
  have rm: "room ?tty d1 = room tty d1" using room_device [of ?tty tty d1] by simp
  have pre: "inv (t_device ?tty) d1" "t_data ?tty = Some q1" "\<forall>c \<in> set buf. plain ?tty c"
    "length (ring_list q1) + length buf + (if L_ECHO ?tty then 1 else 0) \<le> ring_capacity q1"
    using d1(2) Cons.prems(4,5) q1(3,4) by auto
  obtain q' d' es where e0: "recv_loop drv ?tty d1 buf = Some (False, ?tty\<lparr>t_data := Some q'\<rparr>, d')" "ring_ok q'"
    "ring_list q' = ring_list q1 @ map (recv_translate ?tty) buf" "ring_capacity q' = ring_capacity q1"
    "inv (t_device ?tty) d'" "out (t_device ?tty) d' = out (t_device ?tty) d1 @ es" "\<not> L_ECHO ?tty \<longrightarrow> es = []"
    "L_ECHO ?tty \<and> length (concat (map (echo_chars ?tty \<circ> recv_translate ?tty) buf)) \<le> room ?tty d1 \<longrightarrow>
      es = concat (map (echo_chars ?tty \<circ> recv_translate ?tty) buf)"
    using Cons.IH [OF pre(1,2) q1(2) pre(3,4)] by blast
  have e: "recv_loop drv ?tty d1 buf = Some (False, tty\<lparr>t_data := Some q'\<rparr>, d')" "ring_ok q'"
    "ring_list q' = ring_list q1 @ map (recv_translate tty) buf" "ring_capacity q' = ring_capacity q1"
    "inv (t_device tty) d'" "out (t_device tty) d' = out (t_device tty) d1 @ es" "\<not> L_ECHO tty \<longrightarrow> es = []"
    "L_ECHO tty \<and> length (concat (map (echo_chars tty \<circ> recv_translate tty) buf)) \<le> room tty d1 \<longrightarrow>
      es = concat (map (echo_chars tty \<circ> recv_translate tty) buf)"
    using e0 unfolding rm by simp_all
  have "L_ECHO tty \<and> length (concat (map (echo_chars tty \<circ> recv_translate tty) (c # buf))) \<le> room tty d \<longrightarrow>
      (if ok then echo_chars tty ?c else []) @ es = concat (map (echo_chars tty \<circ> recv_translate tty) (c # buf))"
    using d1(4) e(8) by (auto simp: ok_def)
  moreover have "\<not> L_ECHO tty \<longrightarrow> (if ok then echo_chars tty ?c else []) @ es = []" using e(7) by (simp add: ok_def)
  moreover have "out (t_device tty) d' = out (t_device tty) d @ ((if ok then echo_chars tty ?c else []) @ es)"
    using e(6) d1(3) by simp
  moreover have "ring_list q' = ring_list q @ map (recv_translate tty) (c # buf)" "ring_capacity q' = ring_capacity q"
    using e(3,4) q1(3,4) by simp_all
  ultimately show ?case unfolding step using e(1,2,5) by blast
qed

lemma n_tty_recv_ok:
  assumes "inv (t_device tty) d" "t_data tty = Some q" "ring_ok q" "\<forall>c \<in> set buf. plain tty c"
    "length (ring_list q) + length buf + (if L_ECHO tty then 1 else 0) \<le> ring_capacity q"
  shows "\<exists>q' d' es. n_tty_recv drv tty d buf = Some (tty\<lparr>t_data := Some q', t_throttled := t_throttled tty \<or>
      ring_capacity q - (length (ring_list q) + length buf) < 128\<rparr>, d') \<and> ring_ok q' \<and>
    ring_list q' = ring_list q @ map (recv_translate tty) buf \<and> ring_capacity q' = ring_capacity q \<and>
    inv (t_device tty) d' \<and> out (t_device tty) d' = out (t_device tty) d @ es \<and>
    (\<not> L_ECHO tty \<longrightarrow> es = []) \<and>
    (L_ECHO tty \<and> length (concat (map (echo_chars tty \<circ> recv_translate tty) buf)) \<le> room tty d \<longrightarrow>
      es = concat (map (echo_chars tty \<circ> recv_translate tty) buf))"
proof -
  obtain q' d1 es where r: "recv_loop drv tty d buf = Some (False, tty\<lparr>t_data := Some q'\<rparr>, d1)" "ring_ok q'"
    "ring_list q' = ring_list q @ map (recv_translate tty) buf" "ring_capacity q' = ring_capacity q"
    "inv (t_device tty) d1" "out (t_device tty) d1 = out (t_device tty) d @ es" "\<not> L_ECHO tty \<longrightarrow> es = []"
    "L_ECHO tty \<and> length (concat (map (echo_chars tty \<circ> recv_translate tty) buf)) \<le> room tty d \<longrightarrow>
      es = concat (map (echo_chars tty \<circ> recv_translate tty) buf)"
    using recv_loop_ok [OF assms] by blast
  let ?tty = "tty\<lparr>t_data := Some q'\<rparr>" and ?low = "ring_capacity q - (length (ring_list q) + length buf) < 128"
  let ?d = "drv_call (drv_flush drv) ?tty d1"
  have d: "inv (t_device tty) ?d" "out (t_device tty) ?d = out (t_device tty) d1" using write_room [of ?tty d1] r(5) by auto
  obtain rm where rm: "n_tty_recv_room ?tty = Some rm" "unat rm = ring_capacity q' - length (ring_list q')"
    using recv_room_unat [of ?tty q'] r(2) by auto
  have low: "rm < TTY_THROTTLE_THRESH \<longleftrightarrow> ?low" using rm(2) r(3,4)
    by (simp add: word_less_nat_alt TTY_THROTTLE_THRESH_def flip: length_ring_list)
  have rec: "n_tty_recv drv tty d buf = Some (if ?low then throttle_tty drv ?tty ?d else (?tty, ?d))"
    using assms(2) r(1) rm(1) low by (simp add: n_tty_recv_def Let_def)
  obtain d' where d': "(if ?low then throttle_tty drv ?tty ?d else (?tty, ?d)) =
      (?tty\<lparr>t_throttled := t_throttled tty \<or> ?low\<rparr>, d')" "inv (t_device tty) d'" "out (t_device tty) d' = out (t_device tty) d1"
  proof (cases "?low \<and> \<not> t_throttled tty")
    case True
    then show ?thesis
      using control [of "drv_throttle drv" "?tty\<lparr>t_throttled := True\<rparr>" ?d] d that
      by (auto simp: throttle_tty_def Let_def)
  next
    case False
    then have "?tty\<lparr>t_throttled := t_throttled tty \<or> ?low\<rparr> = ?tty" by (cases "t_throttled tty") auto
    then show ?thesis using False d that [of ?d] by (auto simp: throttle_tty_def)
  qed
  show ?thesis using rec d' r(2-8) by auto
qed

text \<open>Reading without blocking.\<close>

lemma read_loop_ok:
  assumes "inv (t_device tty) d" "t_data tty = Some q" "ring_ok q" "t_file tty = Some f" "(f AND O_NONBLOCK) \<noteq> 0"
  shows "\<exists>q' d' b. read_loop drv tty d count acc =
      Some (if ring_list q = [] \<and> acc = [] \<and> count \<noteq> 0 then - EAGAIN else 0, acc @ take count (ring_list q),
        tty\<lparr>t_data := Some q', t_throttled := b\<rparr>, d') \<and> ring_ok q' \<and> ring_list q' = drop count (ring_list q) \<and>
    ring_capacity q' = ring_capacity q \<and> inv (t_device tty) d' \<and> out (t_device tty) d' = out (t_device tty) d \<and>
    b = (t_throttled tty \<and> \<not> (count \<noteq> 0 \<and> ring_list q \<noteq> [] \<and> 128 \<le> ring_capacity q - (length (ring_list q) - count)))"
  using assms
proof (induction count arbitrary: tty d q acc)
  case 0
  then show ?case
    by (subst read_loop.simps) (intro exI [of _ q] exI [of _ d] exI [of _ "t_throttled tty"], simp)
next
  case (Suc count)
  show ?case
  proof (cases "ring_list q = []")
    case True
    then have "ring_count q = 0" by (simp add: ring_count_def ring_empty_def flip: ring_empty_iff)
    then show ?thesis using Suc.prems True
      by (subst read_loop.simps) (intro exI [of _ q] exI [of _ d] exI [of _ "t_throttled tty"], simp)
  next
    case False
    then have ne: "ring_count q \<noteq> 0" by (simp add: ring_count_def ring_empty_def flip: ring_empty_iff)
    obtain q1 where q1: "ring_get q = Some (hd (ring_list q), q1)" "ring_ok q1" "ring_list q1 = tl (ring_list q)"
      "ring_capacity q1 = ring_capacity q"
      using ring_dq.get_some [OF Suc.prems(3) False] by blast
    let ?t = "tty\<lparr>t_data := Some q1\<rparr>" and ?big = "128 \<le> ring_capacity q - (length (ring_list q) - 1)"
    obtain rm where rm: "n_tty_recv_room ?t = Some rm" "unat rm = ring_capacity q1 - length (ring_list q1)"
      using recv_room_unat [of ?t q1] q1(2) by auto
    have big: "TTY_THROTTLE_THRESH \<le> rm \<longleftrightarrow> ?big" using rm(2) q1(3,4)
      by (simp add: word_le_nat_alt TTY_THROTTLE_THRESH_def flip: length_ring_list)
    obtain t1 d1 where t1: "(if TTY_THROTTLE_THRESH \<le> rm then unthrottle_tty drv ?t d else (?t, d)) = (t1, d1)"
      "t1 = ?t\<lparr>t_throttled := t_throttled tty \<and> \<not> ?big\<rparr>" "inv (t_device tty) d1" "out (t_device tty) d1 = out (t_device tty) d"
    proof (cases "?big \<and> t_throttled tty")
      case True
      then show ?thesis
        using control [of "drv_unthrottle drv" "?t\<lparr>t_throttled := False\<rparr>" d] Suc.prems(1) that big
        by (auto simp: unthrottle_tty_def Let_def)
    next
      case False
      then have "?t\<lparr>t_throttled := t_throttled tty \<and> \<not> ?big\<rparr> = ?t" by (cases "t_throttled tty") auto
      then show ?thesis using False Suc.prems(1) that [of ?t d] big by (auto simp: unthrottle_tty_def)
    qed
    have step: "read_loop drv tty d (Suc count) acc = read_loop drv t1 d1 count (acc @ [hd (ring_list q)])"
      using ne q1(1) rm(1) t1(1) Suc.prems(2) by (subst read_loop.simps) (simp add: Let_def)
    have pre: "inv (t_device t1) d1" "t_data t1 = Some q1" "t_file t1 = Some f" using t1(2,3) Suc.prems(4) by auto
    obtain q' d' b where r0: "read_loop drv t1 d1 count (acc @ [hd (ring_list q)]) =
        Some (if ring_list q1 = [] \<and> acc @ [hd (ring_list q)] = [] \<and> count \<noteq> 0 then - EAGAIN else 0,
          (acc @ [hd (ring_list q)]) @ take count (ring_list q1), t1\<lparr>t_data := Some q', t_throttled := b\<rparr>, d')"
      "ring_ok q'" "ring_list q' = drop count (ring_list q1)" "ring_capacity q' = ring_capacity q1"
      "inv (t_device t1) d'" "out (t_device t1) d' = out (t_device t1) d1"
      "b = (t_throttled t1 \<and> \<not> (count \<noteq> 0 \<and> ring_list q1 \<noteq> [] \<and> 128 \<le> ring_capacity q1 - (length (ring_list q1) - count)))"
      using Suc.IH [OF pre(1,2) q1(2) pre(3) Suc.prems(5), of "acc @ [hd (ring_list q)]"] by blast
    have r: "read_loop drv t1 d1 count (acc @ [hd (ring_list q)]) =
        Some (0, acc @ [hd (ring_list q)] @ take count (ring_list q1), tty\<lparr>t_data := Some q', t_throttled := b\<rparr>, d')"
      "inv (t_device tty) d'" "out (t_device tty) d' = out (t_device tty) d1"
      using r0(1,5,6) by (simp_all add: t1(2))
    obtain x xs where l: "ring_list q = x # xs" using False by (cases "ring_list q") auto
    have b: "b = (t_throttled tty \<and> \<not> 128 \<le> ring_capacity q - (length (ring_list q) - Suc count))"
      using r0(7) t1(2) q1(3,4) unfolding l by (cases count; cases xs) auto
    show ?thesis
      using step r r0(2-4) q1(3,4) t1(4) b unfolding l
      by (intro exI [of _ q'] exI [of _ d'] exI [of _ b]) auto
  qed
qed

end

end
