(* ===== verification/Ioctl.thy ===== *)
theory Ioctl
  imports Ohwes_Prelude
begin

text \<open>
  Requests to devices: the request numbers and the copies from and to user memory of \<^verbatim>\<open>src/include/kernel/ioctl.h\<close>,
  and the numbers of \<^verbatim>\<open>src/include/kernel/ioctls.h\<close>.

  The memory at the argument of a request is a list of bytes, and the null pointer is \<open>None\<close>; \<open>copy_to_user\<close> returns the new contents.
  A copy beyond the end of the list has no result. An \<open>int\<close> takes four bytes, the least significant byte first.
\<close>

definition IOCTL_SEQMASK :: u32 where "IOCTL_SEQMASK = 0xFF"
definition IOCTL_CODEMASK :: u32 where "IOCTL_CODEMASK = 0xFF00"
definition IOCTL_SIZEMASK :: u32 where "IOCTL_SIZEMASK = 0x3FFF0000"
definition IOCTL_DIRMASK :: u32 where "IOCTL_DIRMASK = 0xC0000000"

definition IOCTL :: "u32 \<Rightarrow> u32 \<Rightarrow> u32" where
  "IOCTL code sq = (push_bit 8 code AND IOCTL_CODEMASK) OR (sq AND IOCTL_SEQMASK)"

definition IOCTL_R :: "u32 \<Rightarrow> u32 \<Rightarrow> u32 \<Rightarrow> u32" where
  "IOCTL_R code sq sz = (push_bit 30 1 AND IOCTL_DIRMASK) OR (push_bit 16 sz AND IOCTL_SIZEMASK) OR IOCTL code sq"

definition IOCTL_W :: "u32 \<Rightarrow> u32 \<Rightarrow> u32 \<Rightarrow> u32" where
  "IOCTL_W code sq sz = (push_bit 30 2 AND IOCTL_DIRMASK) OR (push_bit 16 sz AND IOCTL_SIZEMASK) OR IOCTL code sq"

lemmas ioctl_masks = IOCTL_SEQMASK_def IOCTL_CODEMASK_def IOCTL_SIZEMASK_def IOCTL_DIRMASK_def

definition IOC_RTC :: u32 where "IOC_RTC = 0x52"
definition RTC_IRQP_ENABLE :: u32 where "RTC_IRQP_ENABLE = IOCTL IOC_RTC 0x01"
definition RTC_IRQP_DISABLE :: u32 where "RTC_IRQP_DISABLE = IOCTL IOC_RTC 0x02"
definition RTC_IRQP_GET :: u32 where "RTC_IRQP_GET = IOCTL_R IOC_RTC 0x03 1"
definition RTC_IRQP_SET :: u32 where "RTC_IRQP_SET = IOCTL_W IOC_RTC 0x04 1"
definition RTC_UPDATE_ENABLE :: u32 where "RTC_UPDATE_ENABLE = IOCTL IOC_RTC 0x05"
definition RTC_UPDATE_DISABLE :: u32 where "RTC_UPDATE_DISABLE = IOCTL IOC_RTC 0x06"
definition RTC_TIME_GET :: u32 where "RTC_TIME_GET = IOCTL_R IOC_RTC 0x07 36"
definition RTC_TIME_SET :: u32 where "RTC_TIME_SET = IOCTL_W IOC_RTC 0x08 36"
definition RTC_ALARM_ENABLE :: u32 where "RTC_ALARM_ENABLE = IOCTL IOC_RTC 0x09"
definition RTC_ALARM_DISABLE :: u32 where "RTC_ALARM_DISABLE = IOCTL IOC_RTC 0x0A"
definition RTC_ALARM_GET :: u32 where "RTC_ALARM_GET = IOCTL_R IOC_RTC 0x0B 36"
definition RTC_ALARM_SET :: u32 where "RTC_ALARM_SET = IOCTL_W IOC_RTC 0x0C 36"

lemmas rtc_requests = RTC_IRQP_ENABLE_def RTC_IRQP_DISABLE_def RTC_IRQP_GET_def RTC_IRQP_SET_def RTC_UPDATE_ENABLE_def RTC_UPDATE_DISABLE_def
  RTC_TIME_GET_def RTC_TIME_SET_def RTC_ALARM_ENABLE_def RTC_ALARM_DISABLE_def RTC_ALARM_GET_def RTC_ALARM_SET_def

lemmas ioctl_numbers = IOCTL_def IOCTL_R_def IOCTL_W_def ioctl_masks

definition IOC_TTY :: u32 where "IOC_TTY = 0x54"
definition TCGETS :: u32 where "TCGETS = IOCTL_R IOC_TTY 0x01 20"
definition TCSETS :: u32 where "TCSETS = IOCTL_W IOC_TTY 0x02 20"
definition TIOCMGET :: u32 where "TIOCMGET = IOCTL_R IOC_TTY 0x03 4"
definition TIOCMSET :: u32 where "TIOCMSET = IOCTL_W IOC_TTY 0x04 4"
definition TIOCGICOUNT :: u32 where "TIOCGICOUNT = IOCTL_W IOC_TTY 0x05 48"
definition TIOCSTI :: u32 where "TIOCSTI = IOCTL_R IOC_TTY 0x06 1"

lemmas tty_requests = TCGETS_def TCSETS_def TIOCMGET_def TIOCMSET_def TIOCGICOUNT_def TIOCSTI_def

subsection \<open>User memory\<close>

definition copy_to_user :: "u8 list option \<Rightarrow> u8 list \<Rightarrow> (bool \<times> u8 list option) option" where
  "copy_to_user u_dst k_src =
    (case u_dst of None \<Rightarrow> Some (False, None)
     | Some d \<Rightarrow> if length k_src \<le> length d then Some (True, Some (k_src @ drop (length k_src) d)) else None)"

definition copy_from_user :: "u8 list option \<Rightarrow> nat \<Rightarrow> u8 list option option" where
  "copy_from_user u_src nbytes =
    (case u_src of None \<Rightarrow> Some None
     | Some s \<Rightarrow> if nbytes \<le> length s then Some (Some (take nbytes s)) else None)"

definition int_bytes :: "int \<Rightarrow> u8 list" where
  "int_bytes n = [of_int n, of_int (drop_bit 8 n), of_int (drop_bit 16 n), of_int (drop_bit 24 n)]"

fun bytes_word :: "u8 list \<Rightarrow> u32" where
  "bytes_word [a, b, c, d] = ucast a OR push_bit 8 (ucast b) OR push_bit 16 (ucast c) OR push_bit 24 (ucast d)"
| "bytes_word _ = 0"

definition bytes_int :: "u8 list \<Rightarrow> int" where
  "bytes_int bs = sint (bytes_word bs)"

lemma length_int_bytes [simp]: "length (int_bytes n) = 4"
  by (simp add: int_bytes_def)

lemma bytes_word_int_bytes: "bytes_word (int_bytes n) = of_int n"
proof (rule bit_word_eqI)
  fix k assume "k < LENGTH(32)"
  then have "k < 8 \<or> 8 \<le> k \<and> k < 16 \<or> 16 \<le> k \<and> k < 24 \<or> 24 \<le> k \<and> k < 32" by auto
  then show "bit (bytes_word (int_bytes n)) k \<longleftrightarrow> bit (of_int n :: u32) k"
    by (auto simp: int_bytes_def bit_simps)
qed

lemma bytes_int_bytes: "bytes_int (int_bytes n) = n" if "- 2147483648 \<le> n" "n \<le> 2147483647"
proof -
  have "signed_take_bit 31 n = n" using that by (simp add: signed_take_bit_int_eq_self_iff)
  then show ?thesis by (simp add: bytes_int_def bytes_word_int_bytes sint_sbintrunc')
qed

text \<open>An unsigned word in memory.\<close>

definition word_bytes :: "u32 \<Rightarrow> u8 list" where
  "word_bytes w = [ucast w, ucast (drop_bit 8 w), ucast (drop_bit 16 w), ucast (drop_bit 24 w)]"

lemma length_word_bytes [simp]: "length (word_bytes w) = 4"
  by (simp add: word_bytes_def)

lemma bytes_word_bytes [simp]: "bytes_word (word_bytes w) = w"
proof (rule bit_word_eqI)
  fix k assume "k < LENGTH(32)"
  then have "k < 8 \<or> 8 \<le> k \<and> k < 16 \<or> 16 \<le> k \<and> k < 24 \<or> 24 \<le> k \<and> k < 32" by auto
  then show "bit (bytes_word (word_bytes w)) k \<longleftrightarrow> bit w k"
    by (auto simp: word_bytes_def bit_simps)
qed

end
