(* ===== verification/Serial.thy ===== *)
theory Serial
  imports Ldisc Ioctl
begin

text \<open>
  The 16550 driver \<^verbatim>\<open>src/kernel/char/serial.c\<close> with the data of
  \<^verbatim>\<open>src/include/kernel/serial.h\<close>. The state is the array \<open>g_com\<close>, a list of
  four ports. The UART itself is hardware: \<open>uart h r\<close> is the value that a read of register
  \<open>r\<close> returns after the accesses \<open>h\<close>, and every access of a port is recorded in its
  \<open>c_log\<close>. Interrupts are steps of their own, so that \<open>cli_save\<close> and
  \<open>restore_flags\<close> have no counterpart; messages are not modelled. The tty that
  \<open>com->tty\<close> points to is an argument of the interrupt functions.
  In the default build the serial console and the serial debugger are not compiled in.
\<close>

datatype uart_event = Uin nat u8 | Uout nat u8

type_synonym uart = "uart_event list \<Rightarrow> nat \<Rightarrow> u8"

record serial_stats =
  n_overrun :: u32
  n_parity :: u32
  n_framing :: u32
  n_timeout :: u32
  n_break :: u32
  n_tx :: u32
  n_rx :: u32
  n_xchar :: u32
  n_cts :: u32
  n_dsr :: u32
  n_ring :: u32
  n_dcd :: u32

record com =
  c_num :: int
  c_io_port :: u16
  c_tty :: bool
  c_valid :: bool
  c_open :: bool
  c_reserved :: bool
  c_tx_ring :: ring
  c_txbuf :: "u8 list"
  c_xchar :: u8
  c_iir :: u8
  c_ier :: u8
  c_lcr :: u8
  c_lsr :: u8
  c_mcr :: u8
  c_msr :: u8
  c_baud_divisor :: u16
  c_stats :: serial_stats
  c_log :: "uart_event list"

definition UART_RX :: nat where "UART_RX = 0"
definition UART_TX :: nat where "UART_TX = 0"
definition UART_DLL :: nat where "UART_DLL = 0"
definition UART_DLM :: nat where "UART_DLM = 1"
definition UART_IER :: nat where "UART_IER = 1"
definition UART_IIR :: nat where "UART_IIR = 2"
definition UART_FCR :: nat where "UART_FCR = 2"
definition UART_LCR :: nat where "UART_LCR = 3"
definition UART_MCR :: nat where "UART_MCR = 4"
definition UART_LSR :: nat where "UART_LSR = 5"
definition UART_MSR :: nat where "UART_MSR = 6"
definition UART_SCR :: nat where "UART_SCR = 7"

lemmas uart_regs = UART_RX_def UART_TX_def UART_DLL_def UART_DLM_def UART_IER_def UART_IIR_def UART_FCR_def
  UART_LCR_def UART_MCR_def UART_LSR_def UART_MSR_def UART_SCR_def

definition XMIT_MAX :: nat where "XMIT_MAX = 16"
definition RECV_MAX :: nat where "RECV_MAX = 128"
definition INTR_MAX :: nat where "INTR_MAX = 16"
definition BAUD_9600 :: u16 where "BAUD_9600 = 12"
definition NR_SERIAL :: nat where "NR_SERIAL = 4"
definition TTY_MAJOR :: u32 where "TTY_MAJOR = 1"
definition TTYS_MIN :: int where "TTYS_MIN = 8"
definition TTYS_MAX :: int where "TTYS_MAX = TTYS_MIN + int NR_SERIAL"

definition DEV_MAJ :: "u32 \<Rightarrow> u32" where "DEV_MAJ dev = dev AND 0xFFFF"
definition DEV_MIN :: "u32 \<Rightarrow> int" where "DEV_MIN dev = uint (drop_bit 16 dev AND 0xFFFF)"

subsection \<open>Registers\<close>

definition com_in :: "uart \<Rightarrow> nat \<Rightarrow> com \<Rightarrow> u8 \<times> com" where
  "com_in uart reg com =
    (let v = uart (c_log com) reg;
         com = (if reg = UART_RX then com\<lparr>c_stats := (c_stats com)\<lparr>n_rx := n_rx (c_stats com) + 1\<rparr>\<rparr> else com)
     in (v, com\<lparr>c_log := c_log com @ [Uin reg v]\<rparr>))"

definition com_out :: "nat \<Rightarrow> u8 \<Rightarrow> com \<Rightarrow> com" where
  "com_out reg v com =
    (let com = (if reg = UART_TX then com\<lparr>c_stats := (c_stats com)\<lparr>n_tx := n_tx (c_stats com) + 1\<rparr>\<rparr> else com)
     in com\<lparr>c_log := c_log com @ [Uout reg v]\<rparr>)"

text \<open>Bit 1 of the interrupt enable register is \<open>thre\<close>.\<close>

definition tx_enable :: "com \<Rightarrow> com" where
  "tx_enable com =
    (if \<not> bit (c_ier com) 1 then
       let com = com\<lparr>c_ier := c_ier com OR 0x02\<rparr> in com_out UART_IER (c_ier com) com
     else com)"

definition tx_disable :: "com \<Rightarrow> com" where
  "tx_disable com =
    (if bit (c_ier com) 1 then
       let com = com\<lparr>c_ier := c_ier com AND NOT 0x02\<rparr> in com_out UART_IER (c_ier com) com
     else com)"

definition shadow_regs :: "uart \<Rightarrow> com \<Rightarrow> com" where
  "shadow_regs uart com =
    (let (v, com) = com_in uart UART_IER com; com = com\<lparr>c_ier := v\<rparr>;
         (v, com) = com_in uart UART_IIR com; com = com\<lparr>c_iir := v\<rparr>;
         (v, com) = com_in uart UART_LCR com; com = com\<lparr>c_lcr := v\<rparr>;
         (v, com) = com_in uart UART_MCR com; com = com\<lparr>c_mcr := v\<rparr>;
         (v, com) = com_in uart UART_LSR com; com = com\<lparr>c_lsr := v\<rparr>;
         (v, com) = com_in uart UART_MSR com
     in com\<lparr>c_msr := v\<rparr>)"

definition ERR_CHK :: "'a :: len word \<Rightarrow> bool" where
  "ERR_CHK x \<longleftrightarrow> x = 0 \<or> x = 0xFF"

definition set_baud :: "uart \<Rightarrow> u16 \<Rightarrow> com \<Rightarrow> bool \<times> com" where
  "set_baud uart baud_divisor com =
    (let div_lo = ucast (baud_divisor AND 0xFF) :: u8;
         div_hi = ucast (drop_bit 8 baud_divisor AND 0xFF) :: u8;
         (lcr, com) = com_in uart UART_LCR com;
         com = com_out UART_LCR (lcr OR 0x80) com;
         com = com_out UART_DLL div_lo com;
         com = com_out UART_DLM div_hi com;
         (lo, com) = com_in uart UART_DLL com;
         (hi, com) = com_in uart UART_DLM com;
         com = com\<lparr>c_baud_divisor := ucast lo OR push_bit 8 (ucast hi)\<rparr>
     in if ERR_CHK (c_baud_divisor com) then (False, com)
        else (True, com_out UART_LCR (lcr AND NOT 0x80) com))"

text \<open>The line control register: word length in bits 0 and 1, stop bits in bit 2, parity in bits 3 to 5.\<close>

definition set_mode :: "uart \<Rightarrow> u8 \<Rightarrow> u8 \<Rightarrow> u8 \<Rightarrow> com \<Rightarrow> bool \<times> com" where
  "set_mode uart wls parity stb com =
    (let lcr = (wls AND 3) OR push_bit 3 (parity AND 7) OR push_bit 2 (stb AND 1);
         com = com_out UART_LCR lcr com;
         (rdbk, com) = com_in uart UART_LCR com
     in if ERR_CHK rdbk \<or> rdbk \<noteq> lcr then (False, com) else (True, com))"

definition set_fifo :: "bool \<Rightarrow> u8 \<Rightarrow> com \<Rightarrow> com" where
  "set_fifo enabled depth com =
    com_out UART_FCR (if enabled then 0x07 OR push_bit 6 (depth AND 3) else 0) com"

subsection \<open>Ports\<close>

text \<open>\<open>get_com\<close>: the index in \<open>g_com\<close>; an invalid number panics.\<close>

definition get_com :: "int \<Rightarrow> nat option" where
  "get_com num = (if num < 1 \<or> num > 4 then None else Some (nat (num - 1)))"

definition tty_get_com :: "tty \<Rightarrow> (int + nat) option" where
  "tty_get_com tty =
    (if DEV_MAJ (t_device tty) \<noteq> TTY_MAJOR then Some (Inl (- ENODEV))
     else let index = DEV_MIN (t_device tty) in
       if index < TTYS_MIN \<or> index > TTYS_MAX then Some (Inl (- ENXIO))
       else map_option Inr (get_com (index - TTYS_MIN + 1)))"

text \<open>
  A driver function that returns nothing does nothing when \<open>tty_get_com\<close> fails. The panic of
  \<open>get_com\<close> for minor number 12 does not happen here: \<open>get_tty\<close> hands out ttys with
  minor numbers up to 11 only.
\<close>

definition on_com :: "(tty \<Rightarrow> com \<Rightarrow> com) \<Rightarrow> tty \<Rightarrow> com list \<Rightarrow> com list" where
  "on_com f tty g = (case tty_get_com tty of Some (Inr i) \<Rightarrow> g[i := f tty (g ! i)] | _ \<Rightarrow> g)"

definition serial_flush :: "tty \<Rightarrow> com \<Rightarrow> com" where
  "serial_flush tty com =
    (if \<not> ring_empty (c_tx_ring com) \<and> \<not> t_stopped tty \<and> \<not> t_hw_stopped tty then tx_enable com else com)"

fun fill_tx :: "ring \<Rightarrow> u8 list \<Rightarrow> ring option" where
  "fill_tx q [] = Some q"
| "fill_tx q (c # cs) = do { (_, q) \<leftarrow> ring_put q c; fill_tx q cs }"

definition serial_write :: "tty \<Rightarrow> u8 list \<Rightarrow> com list \<Rightarrow> (int \<times> com list) option" where
  "serial_write tty buf g = do {
     r \<leftarrow> tty_get_com tty;
     case r of Inl ret \<Rightarrow> Some (ret, g)
     | Inr i \<Rightarrow> do {
         com \<leftarrow> arr_get g i;
         let room = ring_length (c_tx_ring com) - ring_count (c_tx_ring com);
         let buf = take (unat room) buf;
         q \<leftarrow> fill_tx (c_tx_ring com) buf;
         let com = com\<lparr>c_tx_ring := q\<rparr>;
         let com = (if \<not> ring_empty q \<and> \<not> t_stopped tty \<and> \<not> t_hw_stopped tty then tx_enable com else com);
         Some (int (length buf), g[i := com])
       }
   }"

definition serial_write_room :: "tty \<Rightarrow> com list \<Rightarrow> u32" where
  "serial_write_room tty g = (case tty_get_com tty of
     Some (Inr i) \<Rightarrow> ring_length (c_tx_ring (g ! i)) - ring_count (c_tx_ring (g ! i))
   | _ \<Rightarrow> 0)"

definition serial_unthrottle :: "tty \<Rightarrow> com \<Rightarrow> com" where
  "serial_unthrottle tty com =
    (let com = (if I_IXOFF tty then tx_enable (com\<lparr>c_xchar := START_CHAR\<rparr>) else com);
         com = (if C_CRTSCTS tty then com\<lparr>c_mcr := c_mcr com OR 0x02\<rparr> else com)
     in com_out UART_MCR (c_mcr com) com)"

definition serial_throttle :: "tty \<Rightarrow> com \<Rightarrow> com" where
  "serial_throttle tty com =
    (let com = (if I_IXOFF tty then tx_enable (com\<lparr>c_xchar := STOP_CHAR\<rparr>) else com);
         com = (if C_CRTSCTS tty then com\<lparr>c_mcr := c_mcr com AND NOT 0x02\<rparr> else com)
     in com_out UART_MCR (c_mcr com) com)"

definition serial_start :: "tty \<Rightarrow> com \<Rightarrow> com" where
  "serial_start tty com = (if \<not> ring_empty (c_tx_ring com) then tx_enable com else com)"

definition serial_stop :: "tty \<Rightarrow> com \<Rightarrow> com" where
  "serial_stop tty com = tx_disable com"

definition serial_driver :: "com list tty_driver" where
  "serial_driver = \<lparr>drv_write = Some serial_write, drv_write_room = serial_write_room,
     drv_flush = Some (on_com serial_flush), drv_throttle = Some (on_com serial_throttle),
     drv_unthrottle = Some (on_com serial_unthrottle), drv_stop = Some (on_com serial_stop),
     drv_start = Some (on_com serial_start)\<rparr>"

definition zero_stats :: serial_stats where
  "zero_stats = \<lparr>n_overrun = 0, n_parity = 0, n_framing = 0, n_timeout = 0, n_break = 0, n_tx = 0, n_rx = 0,
     n_xchar = 0, n_cts = 0, n_dsr = 0, n_ring = 0, n_dcd = 0\<rparr>"

text \<open>
  \<open>serial_open\<close> for a port that was found, from the initialization of the buffer on;
  the word length, parity and stop bits are \<open>WLS_8\<close>, \<open>PARITY_NONE\<close> and \<open>STB_1\<close>,
  the trigger level \<open>RCVR_TRIG_14\<close>.
\<close>

definition open_port :: "uart \<Rightarrow> com \<Rightarrow> int \<times> com" where
  "open_port uart com =
    (let com = com\<lparr>c_tx_ring := ring_init (c_txbuf com) TTY_BUFFER_SIZE, c_xchar := 0\<rparr>;
         com = com_out UART_IER 0 com;
         (ok, com) = set_baud uart BAUD_9600 com
     in if \<not> ok then (- EIO, com)
     else let (ok, com) = set_mode uart 3 0 0 com
     in if \<not> ok then (- EIO, com)
     else let com = set_fifo True 3 com;
         com = com\<lparr>c_mcr := 0x0B\<rparr>;
         com = com_out UART_MCR (c_mcr com) com;
         (_, com) = com_in uart UART_RX com;
         (_, com) = com_in uart UART_LSR com;
         (_, com) = com_in uart UART_MSR com;
         (_, com) = com_in uart UART_IIR com;
         com = com\<lparr>c_ier := 0x0D\<rparr>;
         com = com_out UART_IER (c_ier com) com;
         com = com\<lparr>c_stats := zero_stats\<rparr>;
         com = shadow_regs uart com
     in if ERR_CHK (c_ier com) \<or> ERR_CHK (c_mcr com) then (- EIO, com)
     else (0, com\<lparr>c_tty := True, c_open := True\<rparr>))"

definition serial_open :: "uart \<Rightarrow> tty \<Rightarrow> com list \<Rightarrow> (int \<times> com list) option" where
  "serial_open uart tty g = do {
     r \<leftarrow> tty_get_com tty;
     case r of Inl ret \<Rightarrow> Some (ret, g)
     | Inr i \<Rightarrow> do {
         com \<leftarrow> arr_get g i;
         if c_reserved com then Some (- EBUSY, g)
         else if c_open com then do { assert_opt (c_tty com); Some (- EBUSY, g) }
         else if \<not> c_valid com then Some (- EIO, g)
         else let (ret, com) = open_port uart com in Some (ret, g[i := com])
       }
   }"

definition serial_close :: "tty \<Rightarrow> com list \<Rightarrow> (int \<times> com list) option" where
  "serial_close tty g = do {
     r \<leftarrow> tty_get_com tty;
     case r of Inl ret \<Rightarrow> Some (ret, g)
     | Inr i \<Rightarrow> do {
         com \<leftarrow> arr_get g i;
         Some (0, g[i := (serial_flush tty com)\<lparr>c_tty := False, c_open := False\<rparr>])
       }
   }"

subsection \<open>Interrupts\<close>

definition check_line_status :: "uart \<Rightarrow> com \<Rightarrow> com" where
  "check_line_status uart com =
    (let (v, com) = com_in uart UART_LSR com; s = c_stats com
     in com\<lparr>c_lsr := v, c_stats := s\<lparr>n_overrun := n_overrun s + of_bool (bit v 1), n_parity := n_parity s + of_bool (bit v 2),
       n_framing := n_framing s + of_bool (bit v 3), n_break := n_break s + of_bool (bit v 4)\<rparr>\<rparr>)"

text \<open>Bits 4 to 7 of the modem status are CTS, DSR, RI and DCD; bit 2 is the trailing edge of RI.\<close>

definition check_modem_status :: "uart \<Rightarrow> tty \<Rightarrow> com \<Rightarrow> tty \<times> com" where
  "check_modem_status uart tty com =
    (let (v, com) = com_in uart UART_MSR com; s = c_stats com;
         com = com\<lparr>c_msr := v\<rparr>;
         com = (if (v AND 0x0F) \<noteq> 0 then
           com\<lparr>c_stats := s\<lparr>n_cts := n_cts s + of_bool (bit v 4), n_dsr := n_dsr s + of_bool (bit v 5),
             n_ring := n_ring s + of_bool (bit v 2), n_dcd := n_dcd s + of_bool (bit v 7)\<rparr>\<rparr> else com)
     in if C_CRTSCTS tty then
       if t_hw_stopped tty then
         if bit v 4 then (tty\<lparr>t_hw_stopped := False\<rparr>, tx_disable com) else (tty, com)
       else if \<not> bit v 4 then (tty\<lparr>t_hw_stopped := True\<rparr>, tx_enable com) else (tty, com)
     else (tty, com))"

text \<open>The loop of \<open>send_chars\<close>: at most \<open>n\<close> characters.\<close>

fun send_loop :: "nat \<Rightarrow> com \<Rightarrow> com option" where
  "send_loop 0 com = Some com"
| "send_loop (Suc n) com = do {
     (c, q) \<leftarrow> ring_get (c_tx_ring com);
     let com = com_out UART_TX c (com\<lparr>c_tx_ring := q\<rparr>);
     if ring_empty q then Some com else send_loop n com
   }"

definition send_chars :: "tty \<Rightarrow> com \<Rightarrow> com option" where
  "send_chars tty com = (
     let com = (if c_xchar com \<noteq> 0 then
         (let com = (com_out UART_TX (c_xchar com) com)\<lparr>c_xchar := 0\<rparr>; s = c_stats com
          in com\<lparr>c_stats := s\<lparr>n_xchar := n_xchar s + 1\<rparr>\<rparr>)
       else com) in
     if ring_empty (c_tx_ring com) \<or> t_stopped tty \<or> t_hw_stopped tty then Some (tx_disable com)
     else do {
       com \<leftarrow> send_loop XMIT_MAX com;
       Some (if ring_empty (c_tx_ring com) then tx_disable com else com)
     })"

fun recv_chars_loop :: "uart \<Rightarrow> nat \<Rightarrow> nat \<Rightarrow> tty \<Rightarrow> com list \<Rightarrow> (tty \<times> com list) option" where
  "recv_chars_loop uart i 0 tty g = Some (tty, g)"
| "recv_chars_loop uart i (Suc n) tty g = do {
     com \<leftarrow> arr_get g i;
     let (c, com) = com_in uart UART_RX com;
     (tty, g) \<leftarrow> n_tty_recv serial_driver tty (g[i := com]) [c];
     com \<leftarrow> arr_get g i;
     let com = check_line_status uart com;
     let g = g[i := com];
     if \<not> bit (c_lsr com) 0 then Some (tty, g) else recv_chars_loop uart i n tty g
   }"

definition recv_chars :: "uart \<Rightarrow> nat \<Rightarrow> tty \<Rightarrow> com list \<Rightarrow> (tty \<times> com list) option" where
  "recv_chars uart i tty g = do {
     com \<leftarrow> arr_get g i;
     let s = c_stats com;
     let com = (if bit (c_iir com) 3 then com\<lparr>c_stats := s\<lparr>n_timeout := n_timeout s + 1\<rparr>\<rparr> else com);
     recv_chars_loop uart i RECV_MAX tty (g[i := com])
   }"

text \<open>The interrupt identification: bits 1 and 2 of the register.\<close>

definition iir_id :: "com \<Rightarrow> u8" where "iir_id com = drop_bit 1 (c_iir com) AND 3"

text \<open>One pass of the loop of \<open>com_interrupt\<close>; 2 is \<open>ID_RDA\<close>, 1 is \<open>ID_THRE\<close>.\<close>

definition com_pass :: "uart \<Rightarrow> nat \<Rightarrow> tty \<Rightarrow> com list \<Rightarrow> (tty \<times> com list) option" where
  "com_pass uart i tty g = do {
     com \<leftarrow> arr_get g i;
     let com = check_line_status uart com;
     let g = g[i := com];
     (tty, g) \<leftarrow> (if iir_id com = 2 \<or> bit (c_iir com) 3 \<or> bit (c_lsr com) 0
       then recv_chars uart i tty g else Some (tty, g));
     com \<leftarrow> arr_get g i;
     let (tty, com) = check_modem_status uart tty com;
     com \<leftarrow> (if iir_id com = 1 \<or> bit (c_lsr com) 5 then send_chars tty com else Some com);
     Some (tty, g[i := com])
   }"

partial_function (option) com_loop :: "uart \<Rightarrow> nat \<Rightarrow> nat \<Rightarrow> tty \<Rightarrow> com list \<Rightarrow> (tty \<times> com list) option" where
  "com_loop uart i npass tty g = do {
     (tty, g) \<leftarrow> com_pass uart i tty g;
     let npass = npass + 1;
     if npass \<le> INTR_MAX then Some (tty, g)
     else do {
       com \<leftarrow> arr_get g i;
       let (v, com) = com_in uart UART_IIR com;
       let g = g[i := com\<lparr>c_iir := v\<rparr>];
       if bit v 0 then Some (tty, g) else com_loop uart i npass tty g
     }
   }"

definition com_interrupt :: "uart \<Rightarrow> nat \<Rightarrow> tty \<Rightarrow> com list \<Rightarrow> (tty \<times> com list) option" where
  "com_interrupt uart i tty g = do {
     com \<leftarrow> arr_get g i;
     let (v, com) = com_in uart UART_IIR com;
     let com = com\<lparr>c_iir := v\<rparr>;
     if bit v 0 then Some (tty, g[i := com])
     else do {
       let (v, com) = com_in uart UART_IER com;
       let com = com\<lparr>c_ier := v\<rparr>;
       let (v, com) = com_in uart UART_LCR com;
       let com = com\<lparr>c_lcr := v\<rparr>;
       let (v, com) = com_in uart UART_MCR com;
       let com = com\<lparr>c_mcr := v\<rparr>;
       com_loop uart i 0 tty (g[i := com])
     }
   }"

subsection \<open>Requests\<close>

definition TIOCM_DTR :: u32 where "TIOCM_DTR = 0x01"
definition TIOCM_RTS :: u32 where "TIOCM_RTS = 0x02"
definition TIOCM_OUT1 :: u32 where "TIOCM_OUT1 = 0x04"
definition TIOCM_OUT2 :: u32 where "TIOCM_OUT2 = 0x08"
definition TIOCM_CTS :: u32 where "TIOCM_CTS = 0x10"
definition TIOCM_CAR :: u32 where "TIOCM_CAR = 0x20"
definition TIOCM_RNG :: u32 where "TIOCM_RNG = 0x40"
definition TIOCM_DSR :: u32 where "TIOCM_DSR = 0x80"

lemmas modem_bits = TIOCM_DTR_def TIOCM_RTS_def TIOCM_OUT1_def TIOCM_OUT2_def TIOCM_CTS_def TIOCM_CAR_def TIOCM_RNG_def TIOCM_DSR_def

definition modem_info :: "u8 \<Rightarrow> u8 \<Rightarrow> u32" where
  "modem_info ctl sts =
    (if ctl AND 0x01 \<noteq> 0 then TIOCM_DTR else 0) OR (if ctl AND 0x02 \<noteq> 0 then TIOCM_RTS else 0) OR
    (if ctl AND 0x04 \<noteq> 0 then TIOCM_OUT1 else 0) OR (if ctl AND 0x08 \<noteq> 0 then TIOCM_OUT2 else 0) OR
    (if sts AND 0x10 \<noteq> 0 then TIOCM_CTS else 0) OR (if sts AND 0x80 \<noteq> 0 then TIOCM_CAR else 0) OR
    (if sts AND 0x40 \<noteq> 0 then TIOCM_RNG else 0) OR (if sts AND 0x20 \<noteq> 0 then TIOCM_DSR else 0)"

text \<open>
  The result is the one of \<open>copy_to_user\<close>, converted from \<open>bool\<close>. \<open>check_modem_status\<close> dereferences \<open>com->tty\<close>, which is
  NULL when the port is not open.
\<close>

definition get_modem_info :: "uart \<Rightarrow> tty \<Rightarrow> com \<Rightarrow> u8 list option \<Rightarrow> (int \<times> u8 list option \<times> tty \<times> com) option" where
  "get_modem_info uart tty com user_info = do {
     assert_opt (c_tty com);
     let (tty, com) = check_modem_status uart tty com;
     (ok, user_info) \<leftarrow> copy_to_user user_info (word_bytes (modem_info (c_mcr com) (c_msr com)));
     Some (of_bool ok, user_info, tty, com)
   }"

definition set_modem_info :: "com \<Rightarrow> u8 list option \<Rightarrow> (int \<times> com) option" where
  "set_modem_info com user_info = do {
     u \<leftarrow> copy_from_user user_info 4;
     case u of None \<Rightarrow> Some (- EFAULT, com)
     | Some bs \<Rightarrow> do {
         let info = bytes_word bs;
         let mcr = c_mcr com AND NOT 0x0F;
         let mcr = mcr OR (if info AND TIOCM_DTR \<noteq> 0 then 0x01 else 0) OR (if info AND TIOCM_RTS \<noteq> 0 then 0x02 else 0) OR
           (if info AND TIOCM_OUT1 \<noteq> 0 then 0x04 else 0) OR (if info AND TIOCM_OUT2 \<noteq> 0 then 0x08 else 0);
         let com = com\<lparr>c_mcr := mcr\<rparr>;
         Some (0, com_out UART_MCR (c_mcr com) com)
       }
   }"

definition stats_bytes :: "serial_stats \<Rightarrow> u8 list" where
  "stats_bytes s = concat (map word_bytes [n_overrun s, n_parity s, n_framing s, n_timeout s, n_break s, n_tx s, n_rx s, n_xchar s,
     n_cts s, n_dsr s, n_ring s, n_dcd s])"

definition get_modem_stats :: "com \<Rightarrow> u8 list option \<Rightarrow> (int \<times> u8 list option) option" where
  "get_modem_stats com user_stats = do {
     (ok, user_stats) \<leftarrow> copy_to_user user_stats (stats_bytes (c_stats com));
     Some (of_bool ok, user_stats)
   }"

definition serial_ioctl :: "uart \<Rightarrow> tty \<Rightarrow> u32 \<Rightarrow> u8 list option \<Rightarrow> com list \<Rightarrow> (int \<times> u8 list option \<times> tty \<times> com list) option" where
  "serial_ioctl uart tty op arg g = do {
     r \<leftarrow> tty_get_com tty;
     case r of Inl ret \<Rightarrow> Some (ret, arg, tty, g)
     | Inr i \<Rightarrow> do {
         com \<leftarrow> arr_get g i;
         if op = TIOCMGET then do {
           (ret, arg, tty, com) \<leftarrow> get_modem_info uart tty com arg;
           Some (ret, arg, tty, g[i := com])
         }
         else if op = TIOCMSET then do { (ret, com) \<leftarrow> set_modem_info com arg; Some (ret, arg, tty, g[i := com]) }
         else if op = TIOCGICOUNT then do { (ret, arg) \<leftarrow> get_modem_stats com arg; Some (ret, arg, tty, g) }
         else Some (- ENOTTY, arg, tty, g)
       }
   }"

subsection \<open>The driver keeps the contract of the line discipline\<close>

lemma tx_ring_simps [simp]:
  "c_tx_ring (com_out r v com) = c_tx_ring com" "c_tx_ring (snd (com_in uart r com)) = c_tx_ring com"
  "c_tx_ring (tx_enable com) = c_tx_ring com" "c_tx_ring (tx_disable com) = c_tx_ring com"
  "c_tx_ring (serial_flush tty com) = c_tx_ring com" "c_tx_ring (serial_throttle tty com) = c_tx_ring com"
  "c_tx_ring (serial_unthrottle tty com) = c_tx_ring com" "c_tx_ring (serial_start tty com) = c_tx_ring com"
  "c_tx_ring (serial_stop tty com) = c_tx_ring com"
  by (auto simp: com_out_def com_in_def tx_enable_def tx_disable_def serial_flush_def serial_throttle_def
      serial_unthrottle_def serial_start_def serial_stop_def Let_def)

definition port_of :: "u32 \<Rightarrow> nat" where "port_of dev = nat (DEV_MIN dev - 8)"

definition serial_inv :: "u32 \<Rightarrow> com list \<Rightarrow> bool" where
  "serial_inv dev g \<longleftrightarrow> DEV_MAJ dev = 1 \<and> 8 \<le> DEV_MIN dev \<and> DEV_MIN dev \<le> 11 \<and> length g = 4 \<and>
     ring_ok (c_tx_ring (g ! port_of dev))"

definition serial_out :: "u32 \<Rightarrow> com list \<Rightarrow> u8 list" where
  "serial_out dev g = ring_list (c_tx_ring (g ! port_of dev))"

lemma port_found:
  assumes "serial_inv (t_device tty) g"
  shows "tty_get_com tty = Some (Inr (port_of (t_device tty)))" "port_of (t_device tty) < length g"
  using assms by (auto simp: serial_inv_def tty_get_com_def get_com_def port_of_def TTY_MAJOR_def TTYS_MIN_def
      TTYS_MAX_def NR_SERIAL_def Let_def)

lemma on_com_keeps:
  assumes "serial_inv (t_device tty) g" "\<And>com. c_tx_ring (f tty com) = c_tx_ring com"
  shows "serial_inv (t_device tty) (on_com f tty g) \<and> serial_out (t_device tty) (on_com f tty g) = serial_out (t_device tty) g \<and>
    serial_write_room tty (on_com f tty g) = serial_write_room tty g"
  using assms port_found [OF assms(1)] by (auto simp: on_com_def serial_inv_def serial_out_def serial_write_room_def)

lemma serial_room:
  assumes "serial_inv (t_device tty) g"
  shows "unat (serial_write_room tty g) = ring_capacity (c_tx_ring (g ! port_of (t_device tty))) - length (serial_out (t_device tty) g)"
proof -
  let ?q = "c_tx_ring (g ! port_of (t_device tty))"
  have "r_count ?q \<le> r_length ?q" using assms by (simp add: serial_inv_def ring_ok_def)
  then have "unat (r_length ?q - r_count ?q) = unat (r_length ?q) - unat (r_count ?q)" by (rule unat_sub)
  then show ?thesis
    by (simp add: serial_write_room_def port_found [OF assms] ring_length_def ring_count_def ring_capacity_def serial_out_def)
qed

text \<open>What is written goes to the end of the queue, as far as there is room.\<close>

lemma fill_tx_ok:
  assumes "ring_ok q" "length (ring_list q) + length cs \<le> ring_capacity q"
  shows "\<exists>q'. fill_tx q cs = Some q' \<and> ring_ok q' \<and> ring_list q' = ring_list q @ cs \<and> ring_capacity q' = ring_capacity q"
  using assms
proof (induction cs arbitrary: q)
  case (Cons c cs)
  then obtain q1 where q1: "ring_put q c = Some (True, q1)" "ring_ok q1" "ring_list q1 = ring_list q @ [c]"
    "ring_capacity q1 = ring_capacity q"
    using ring_dq.put_room [of q c] by auto
  have "length (ring_list q1) + length cs \<le> ring_capacity q1" using Cons.prems(2) q1(3,4) by simp
  from Cons.IH [OF q1(2) this] q1 show ?case by auto
qed simp

lemma serial_write_ok:
  assumes "serial_inv (t_device tty) g"
  shows "\<exists>g' k. k = min (length buf) (unat (serial_write_room tty g)) \<and> serial_write tty buf g = Some (int k, g') \<and>
    serial_inv (t_device tty) g' \<and> serial_out (t_device tty) g' = serial_out (t_device tty) g @ take k buf \<and>
    unat (serial_write_room tty g') = unat (serial_write_room tty g) - k"
proof -
  let ?i = "port_of (t_device tty)"
  let ?com = "g ! ?i" and ?r = "unat (serial_write_room tty g)"
  note pf = port_found [OF assms]
  have ok: "ring_ok (c_tx_ring ?com)" using assms by (simp add: serial_inv_def)
  have le: "length (ring_list (c_tx_ring ?com)) \<le> ring_capacity (c_tx_ring ?com)" by (rule ring_dq.contents_le [OF ok])
  have room: "?r = ring_capacity (c_tx_ring ?com) - length (ring_list (c_tx_ring ?com))"
    using serial_room [OF assms] by (simp add: serial_out_def)
  have "length (ring_list (c_tx_ring ?com)) + length (take ?r buf) \<le> ring_capacity (c_tx_ring ?com)"
    using le room by simp
  from fill_tx_ok [OF ok this] obtain q where q: "fill_tx (c_tx_ring ?com) (take ?r buf) = Some q" "ring_ok q"
    "ring_list q = ring_list (c_tx_ring ?com) @ take ?r buf" "ring_capacity q = ring_capacity (c_tx_ring ?com)" by auto
  define com' where "com' = (let com = ?com\<lparr>c_tx_ring := q\<rparr> in
    if \<not> ring_empty q \<and> \<not> t_stopped tty \<and> \<not> t_hw_stopped tty then tx_enable com else com)"
  have c': "c_tx_ring com' = q" by (simp add: com'_def Let_def)
  have w: "serial_write tty buf g = Some (int (length (take ?r buf)), g[?i := com'])"
    using pf q(1) unfolding serial_write_room_def by (simp add: serial_write_def com'_def Let_def)
  have inv: "serial_inv (t_device tty) (g[?i := com'])" using assms q(2) pf(2) c' by (simp add: serial_inv_def)
  have out: "serial_out (t_device tty) (g[?i := com']) = serial_out (t_device tty) g @ take ?r buf"
    using q(3) pf(2) c' by (simp add: serial_out_def)
  have "unat (serial_write_room tty (g[?i := com'])) = ?r - length (take ?r buf)"
    using serial_room [OF inv] unfolding out serial_out_def using c' pf(2) room q(3,4)
    by (simp del: length_ring_list)
  then show ?thesis using w inv out by (intro exI [of _ "g[?i := com']"]) (auto simp: min_def)
qed

interpretation serial: tty_output serial_driver serial_inv serial_out
proof
  fix tty :: tty and d c
  assume inv: "serial_inv (t_device tty) d" and "1 \<le> drv_write_room serial_driver tty d"
  then have r: "1 \<le> unat (serial_write_room tty d)" by (simp add: serial_driver_def word_le_nat_alt)
  then show "\<exists>w d'. drv_write serial_driver = Some w \<and> w tty [c] d = Some (1, d') \<and> serial_inv (t_device tty) d' \<and>
      serial_out (t_device tty) d' = serial_out (t_device tty) d @ [c] \<and>
      unat (drv_write_room serial_driver tty d) \<le> unat (drv_write_room serial_driver tty d') + 1"
    using serial_write_ok [OF inv, of "[c]"] by (auto simp: serial_driver_def)
next
  fix tty :: tty and d
  assume inv: "serial_inv (t_device tty) d"
  show "serial_inv (t_device tty) (drv_call (drv_flush serial_driver) tty d) \<and>
      serial_out (t_device tty) (drv_call (drv_flush serial_driver) tty d) = serial_out (t_device tty) d \<and>
      drv_write_room serial_driver tty (drv_call (drv_flush serial_driver) tty d) = drv_write_room serial_driver tty d"
    using on_com_keeps [OF inv, of serial_flush] by (simp add: serial_driver_def drv_call_def)
  fix f
  assume "f \<in> {drv_throttle serial_driver, drv_unthrottle serial_driver, drv_stop serial_driver, drv_start serial_driver}"
  then show "serial_inv (t_device tty) (drv_call f tty d) \<and> serial_out (t_device tty) (drv_call f tty d) = serial_out (t_device tty) d"
    using on_com_keeps [OF inv, of serial_throttle] on_com_keeps [OF inv, of serial_unthrottle]
      on_com_keeps [OF inv, of serial_stop] on_com_keeps [OF inv, of serial_start]
    by (auto simp: serial_driver_def drv_call_def)
next
  fix tty tty' :: tty and d
  assume "t_device tty = t_device tty'"
  then show "drv_write_room serial_driver tty d = drv_write_room serial_driver tty' d"
    by (simp add: serial_driver_def serial_write_room_def tty_get_com_def)
qed

subsection \<open>Output and input through the line discipline\<close>

text \<open>A tty on the first serial port, with the default settings of \<^verbatim>\<open>src/kernel/char/tty.c\<close>.\<close>

definition default_termios :: termios where
  "default_termios = \<lparr>c_line = 0, c_iflag = 0x09, c_oflag = 0x05, c_cflag = 0, c_lflag = 0x03\<rparr>"

definition ex_com :: com where
  "ex_com = \<lparr>c_num = 1, c_io_port = 0x3F8, c_tty = True, c_valid = True, c_open = True, c_reserved = False,
     c_tx_ring = ring_init (replicate 4 0) 4, c_txbuf = replicate 4 0, c_xchar = 0, c_iir = 1, c_ier = 0x0D, c_lcr = 3,
     c_lsr = 0x60, c_mcr = 0x0B, c_msr = 0, c_baud_divisor = 12, c_stats = zero_stats, c_log = []\<rparr>"

definition ex_tty :: tty where
  "ex_tty = \<lparr>t_device = 0x00080001, t_open = True, t_throttled = False, t_stopped = False, t_hw_stopped = False,
     t_line = 0, t_file = Some O_NONBLOCK, t_termios = default_termios, t_data = Some (ring_init (replicate 200 0) 200)\<rparr>"

lemma ex_serial_inv: "serial_inv (t_device ex_tty) (replicate 4 ex_com)"
  by code_simp

lemma ex_ring: "ring_ok (ring_init (replicate 200 0) 200)" "ring_list (ring_init (replicate 200 0) 200) = []"
  "ring_capacity (ring_init (replicate 200 0) 200) = 200"
  by (simp_all add: ring_init_ok ring_capacity_def) (simp add: ring_init_def)

text \<open>
  C9: Writing to a serial tty with output processing returns how many characters were taken, at
  most all of them, and appends exactly their translations to the port's transmit queue, behind
  what is queued already: a new line becomes carriage return and new line and is never split. The
  write is short only when the next translation does not fit, and complete when everything fits.
\<close>

theorem serial_tty_write:
  assumes "serial_inv (t_device tty) g" "O_OPOST tty"
  shows "\<exists>k g'. k \<le> length buf \<and> n_tty_write serial_driver tty g buf = Some (int k, g') \<and>
    serial_inv (t_device tty) g' \<and>
    serial_out (t_device tty) g' = serial_out (t_device tty) g @ concat (map (opost_chars tty) (take k buf)) \<and>
    (k < length buf \<longrightarrow> unat (serial_write_room tty g') < length (opost_chars tty (buf ! k))) \<and>
    (length (concat (map (opost_chars tty) buf)) \<le> unat (serial_write_room tty g) \<longrightarrow> k = length buf)"
  using serial.n_tty_write_ok [OF assms(2,1), of buf] by (simp add: serial_driver_def)

theorem serial_tty_write_witness:
  "\<exists>g'. n_tty_write serial_driver ex_tty (replicate 4 ex_com) [72, 105, 10] = Some (3, g') \<and>
     serial_out (t_device ex_tty) g' = [72, 105, 13, 10]"
proof -
  have "O_OPOST ex_tty" "serial_out (t_device ex_tty) (replicate 4 ex_com) = []"
    "unat (serial_write_room ex_tty (replicate 4 ex_com)) = 4"
    "concat (map (opost_chars ex_tty) [72, 105, 10]) = [72, 105, 13, 10]" by code_simp+
  then show ?thesis
    using serial_tty_write [OF ex_serial_inv, of "[72, 105, 10]"] by fastforce
qed



text \<open>
  When carriage returns are ignored on input, a carriage return that is received is looked at
  again and again: \<open>n_tty_recv\<close> does not return.
\<close>

theorem recv_ignored_cr_hangs:
  assumes "I_IGNCR tty" "t_data tty \<noteq> None"
  shows "n_tty_recv serial_driver tty g (13 # cs) = None"
proof -
  have "I_IGNCR tty \<and> buf = 13 # cs \<longrightarrow> False" if "recv_loop serial_driver tty g buf = Some r" for tty g buf r
    by (rule recv_loop.raw_induct [OF _ that, of "\<lambda>drv tty g buf r. I_IGNCR tty \<and> buf = 13 # cs \<longrightarrow> False"])
      (auto simp: START_CHAR_def STOP_CHAR_def; blast)
  then have "recv_loop serial_driver tty g (13 # cs) \<noteq> Some r" for r using assms(1) by blast
  then have "recv_loop serial_driver tty g (13 # cs) = None" by (cases "recv_loop serial_driver tty g (13 # cs)") auto
  then show ?thesis using assms(2) by (auto simp: n_tty_recv_def)
qed

theorem recv_ignored_cr_hangs_witness:
  "n_tty_recv serial_driver (ex_tty\<lparr>t_termios := default_termios\<lparr>c_iflag := 4\<rparr>\<rparr>) (replicate 4 ex_com) [13] = None"
  by (rule recv_ignored_cr_hangs) (simp_all add: I_IGNCR_def ex_tty_def default_termios_def)

subsection \<open>Transmission\<close>

text \<open>The characters written to the transmit register.\<close>

definition tx_chars :: "uart_event list \<Rightarrow> u8 list" where
  "tx_chars log = concat (map (\<lambda>e. case e of Uout r v \<Rightarrow> if r = UART_TX then [v] else [] | Uin r v \<Rightarrow> []) log)"

lemma tx_chars_append [simp]: "tx_chars (a @ b) = tx_chars a @ tx_chars b"
  by (simp add: tx_chars_def)

lemma tx_chars_one [simp]: "tx_chars [Uout r v] = (if r = 0 then [v] else [])" "tx_chars [Uin r v] = []"
  by (simp_all add: tx_chars_def UART_TX_def)

lemma tx_disable_frame:
  "tx_chars (c_log (tx_disable com)) = tx_chars (c_log com)" "c_xchar (tx_disable com) = c_xchar com"
  "\<not> bit (c_ier (tx_disable com)) 1"
  by (auto simp: tx_disable_def com_out_def Let_def uart_regs bit_simps)

lemma tx_enable_frame:
  "tx_chars (c_log (tx_enable com)) = tx_chars (c_log com)" "c_xchar (tx_enable com) = c_xchar com"
  "bit (c_ier (tx_enable com)) 1"
  by (auto simp: tx_enable_def com_out_def Let_def uart_regs bit_simps)

lemma send_loop_ok:
  assumes "ring_ok (c_tx_ring com)" "ring_list (c_tx_ring com) \<noteq> []"
  shows "\<exists>com'. send_loop n com = Some com' \<and> ring_ok (c_tx_ring com') \<and>
    ring_list (c_tx_ring com') = drop n (ring_list (c_tx_ring com)) \<and>
    tx_chars (c_log com') = tx_chars (c_log com) @ take n (ring_list (c_tx_ring com)) \<and>
    c_xchar com' = c_xchar com \<and> c_ier com' = c_ier com"
  using assms
proof (induction n arbitrary: com)
  case (Suc n)
  obtain q where q: "ring_get (c_tx_ring com) = Some (hd (ring_list (c_tx_ring com)), q)" "ring_ok q"
    "ring_list q = tl (ring_list (c_tx_ring com))"
    using ring_dq.get_some [OF Suc.prems] by blast
  let ?com = "com_out UART_TX (hd (ring_list (c_tx_ring com))) (com\<lparr>c_tx_ring := q\<rparr>)"
  have fr: "tx_chars (c_log ?com) = tx_chars (c_log com) @ [hd (ring_list (c_tx_ring com))]"
    "c_xchar ?com = c_xchar com" "c_ier ?com = c_ier com" "c_tx_ring ?com = q"
    by (simp_all add: com_out_def Let_def uart_regs)
  obtain x xs where l: "ring_list (c_tx_ring com) = x # xs" using Suc.prems(2) by (cases "ring_list (c_tx_ring com)") auto
  show ?case
  proof (cases "ring_list q = []")
    case True
    then have "send_loop (Suc n) com = Some ?com" using q(1) by (simp add: ring_empty_iff Let_def)
    then show ?thesis using fr q(2,3) True l by auto
  next
    case False
    then have "send_loop (Suc n) com = send_loop n ?com" using q(1) by (simp add: ring_empty_iff Let_def)
    then show ?thesis using Suc.IH [of ?com] fr q(2,3) False l by auto
  qed
qed simp

definition send_xchar :: "com \<Rightarrow> com" where
  "send_xchar com = (if c_xchar com \<noteq> 0 then
     (let com = (com_out UART_TX (c_xchar com) com)\<lparr>c_xchar := 0\<rparr>; s = c_stats com
      in com\<lparr>c_stats := s\<lparr>n_xchar := n_xchar s + 1\<rparr>\<rparr>) else com)"

lemma send_xchar_frame:
  "tx_chars (c_log (send_xchar com)) = tx_chars (c_log com) @ (if c_xchar com \<noteq> 0 then [c_xchar com] else [])"
  "c_xchar (send_xchar com) = 0" "c_ier (send_xchar com) = c_ier com" "c_tx_ring (send_xchar com) = c_tx_ring com"
  by (simp_all add: send_xchar_def com_out_def Let_def uart_regs)

lemma send_chars_ok:
  assumes "ring_ok (c_tx_ring com)"
  shows "\<exists>com'. send_chars tty com = Some com' \<and> ring_ok (c_tx_ring com') \<and> c_xchar com' = 0 \<and>
    (let k = (if t_stopped tty \<or> t_hw_stopped tty then 0 else 16) in
      tx_chars (c_log com') = tx_chars (c_log com) @ (if c_xchar com \<noteq> 0 then [c_xchar com] else []) @
        take k (ring_list (c_tx_ring com)) \<and>
      ring_list (c_tx_ring com') = drop k (ring_list (c_tx_ring com)) \<and>
      (bit (c_ier com') 1 \<longleftrightarrow> bit (c_ier com) 1 \<and> k \<noteq> 0 \<and> drop k (ring_list (c_tx_ring com)) \<noteq> []))"
proof -
  note x = send_xchar_frame [of com]
  have s: "send_chars tty com = (if ring_empty (c_tx_ring (send_xchar com)) \<or> t_stopped tty \<or> t_hw_stopped tty
      then Some (tx_disable (send_xchar com))
      else do { com \<leftarrow> send_loop XMIT_MAX (send_xchar com);
        Some (if ring_empty (c_tx_ring com) then tx_disable com else com) })"
    by (simp add: send_chars_def send_xchar_def Let_def)
  show ?thesis
  proof (cases "ring_list (c_tx_ring com) = [] \<or> t_stopped tty \<or> t_hw_stopped tty")
    case True
    then have "send_chars tty com = Some (tx_disable (send_xchar com))" unfolding s by (auto simp: x(4) ring_empty_iff)
    then show ?thesis using True assms x tx_disable_frame [of "send_xchar com"]
      by (auto simp: Let_def simp del: length_ring_list)
  next
    case False
    then obtain com' where c: "send_loop 16 (send_xchar com) = Some com'" "ring_ok (c_tx_ring com')"
      "ring_list (c_tx_ring com') = drop 16 (ring_list (c_tx_ring com))"
      "tx_chars (c_log com') = tx_chars (c_log (send_xchar com)) @ take 16 (ring_list (c_tx_ring com))"
      "c_xchar com' = 0" "c_ier com' = c_ier com"
      using send_loop_ok [of "send_xchar com" 16] assms x by auto
    have "send_chars tty com = Some (if ring_empty (c_tx_ring com') then tx_disable com' else com')"
      unfolding s using False c(1) by (simp add: x(4) ring_empty_iff XMIT_MAX_def)
    then show ?thesis using False c(2-6) x(1) tx_disable_frame [of com']
      by (auto simp: Let_def ring_empty_iff simp del: length_ring_list)
  qed
qed

text \<open>Transmit interrupts one after the other.\<close>

fun send_times :: "nat \<Rightarrow> tty \<Rightarrow> com \<Rightarrow> com option" where
  "send_times 0 tty com = Some com"
| "send_times (Suc n) tty com = send_chars tty com \<bind> send_times n tty"

lemma send_times_ok:
  assumes "ring_ok (c_tx_ring com)" "c_xchar com = 0" "\<not> t_stopped tty" "\<not> t_hw_stopped tty"
  shows "\<exists>com'. send_times n tty com = Some com' \<and> ring_ok (c_tx_ring com') \<and>
    tx_chars (c_log com') = tx_chars (c_log com) @ take (16 * n) (ring_list (c_tx_ring com)) \<and>
    ring_list (c_tx_ring com') = drop (16 * n) (ring_list (c_tx_ring com))"
  using assms(1,2)
proof (induction n arbitrary: com)
  case (Suc n)
  obtain com1 where c: "send_chars tty com = Some com1" "ring_ok (c_tx_ring com1)" "c_xchar com1 = 0"
    "tx_chars (c_log com1) = tx_chars (c_log com) @ take 16 (ring_list (c_tx_ring com))"
    "ring_list (c_tx_ring com1) = drop 16 (ring_list (c_tx_ring com))"
    using send_chars_ok [OF Suc.prems(1), of tty] assms(3,4) Suc.prems(2) by (auto simp: Let_def)
  have "take (16 + 16 * n) l = take 16 l @ take (16 * n) (drop 16 l)" for l :: "u8 list"
    by (rule take_add)
  then show ?case using Suc.IH [OF c(2,3)] c by (auto simp: add.commute)
qed simp

text \<open>
  C11: A transmit interrupt sends a pending control character first, then the oldest queued
  characters, at most 16 and in order, and none while the output is stopped; the transmit
  interrupt stays enabled exactly when it was and more characters are left to send. So the
  characters of the queue reach the line in order and completely after enough interrupts.
\<close>

theorem serial_transmits_in_order:
  assumes "ring_ok (c_tx_ring com)"
  shows "(\<exists>com'. send_chars tty com = Some com' \<and> ring_ok (c_tx_ring com') \<and> c_xchar com' = 0 \<and>
    (let k = (if t_stopped tty \<or> t_hw_stopped tty then 0 else 16) in
      tx_chars (c_log com') = tx_chars (c_log com) @ (if c_xchar com \<noteq> 0 then [c_xchar com] else []) @
        take k (ring_list (c_tx_ring com)) \<and>
      ring_list (c_tx_ring com') = drop k (ring_list (c_tx_ring com)) \<and>
      (bit (c_ier com') 1 \<longleftrightarrow> bit (c_ier com) 1 \<and> k \<noteq> 0 \<and> drop k (ring_list (c_tx_ring com)) \<noteq> []))) \<and>
    (c_xchar com = 0 \<and> \<not> t_stopped tty \<and> \<not> t_hw_stopped tty \<and> length (ring_list (c_tx_ring com)) \<le> 16 * n \<longrightarrow>
      (\<exists>com'. send_times n tty com = Some com' \<and> ring_list (c_tx_ring com') = [] \<and>
        tx_chars (c_log com') = tx_chars (c_log com) @ ring_list (c_tx_ring com)))"
  using send_chars_ok [OF assms, of tty] send_times_ok [OF assms, of tty n]
  by (auto simp del: length_ring_list)

theorem serial_transmits_in_order_witness:
  "\<exists>com q. ring_put (c_tx_ring ex_com) 65 = Some (True, q) \<and> send_times 1 ex_tty (ex_com\<lparr>c_tx_ring := q\<rparr>) = Some com \<and>
     tx_chars (c_log com) = [65]"
proof -
  have r: "ring_ok (c_tx_ring ex_com)" "ring_list (c_tx_ring ex_com) = []" "ring_capacity (c_tx_ring ex_com) = 4"
    by code_simp+
  obtain q where q: "ring_put (c_tx_ring ex_com) 65 = Some (True, q)" "ring_ok q" "ring_list q = [65]"
    using ring_dq.put_room [OF r(1), of 65] r(2,3) by auto
  have "c_log ex_com = []" "c_xchar ex_com = 0" "\<not> t_stopped ex_tty" "\<not> t_hw_stopped ex_tty" by code_simp+
  then show ?thesis
    using q serial_transmits_in_order [of "ex_com\<lparr>c_tx_ring := q\<rparr>" ex_tty 1]
    by (auto simp: tx_chars_def simp del: length_ring_list)
qed

text \<open>
  Hardware flow control is inverted: when the other side withdraws CTS, the output is marked
  as stopped but the transmit interrupt is enabled, and when CTS comes back it is disabled, so
  that characters that are still queued wait for the next write.
\<close>

theorem serial_cts_inverted:
  assumes "C_CRTSCTS tty" and "v = uart (c_log com) UART_MSR"
  shows "(\<not> t_hw_stopped tty \<and> \<not> bit v 4 \<longrightarrow>
      (let (tty', com') = check_modem_status uart tty com in t_hw_stopped tty' \<and> bit (c_ier com') 1)) \<and>
    (t_hw_stopped tty \<and> bit v 4 \<longrightarrow>
      (let (tty', com') = check_modem_status uart tty com in \<not> t_hw_stopped tty' \<and> \<not> bit (c_ier com') 1 \<and>
        ring_list (c_tx_ring com') = ring_list (c_tx_ring com)))"
proof -
  obtain com1 where m: "com_in uart UART_MSR com = (v, com1)" "c_tx_ring com1 = c_tx_ring com"
    using assms(2) by (simp add: com_in_def Let_def uart_regs)
  show ?thesis
    using assms(1) m(2) tx_enable_frame(3) tx_disable_frame(3)
    by (auto simp: check_modem_status_def m(1) Let_def)
qed

theorem serial_cts_inverted_witness:
  "let (t, c) = check_modem_status (\<lambda>log r. 1) (ex_tty\<lparr>t_termios := default_termios\<lparr>c_cflag := 1\<rparr>\<rparr>) ex_com
   in t_hw_stopped t \<and> bit (c_ier c) 1"
proof -
  have "C_CRTSCTS (ex_tty\<lparr>t_termios := default_termios\<lparr>c_cflag := 1\<rparr>\<rparr>)"
    "\<not> t_hw_stopped (ex_tty\<lparr>t_termios := default_termios\<lparr>c_cflag := 1\<rparr>\<rparr>)" "\<not> bit (1 :: u8) 4"
    by (simp_all add: C_CRTSCTS_def ex_tty_def)
  then show ?thesis
    using serial_cts_inverted [where uart = "\<lambda>log r. 1" and com = ex_com, OF _ refl] by blast
qed

end
