(* ===== verification/Printf.thy ===== *)
theory Printf
  imports Ctype Strtoull
begin

text \<open>
  Formatted printing, \<^verbatim>\<open>src/libc/printf.c\<close>. The format is the list of its bytes with
  the terminating NUL; \<open>*format++\<close> takes the head of the list, and reading past the list
  has no result. The variable arguments are the list of the values that were passed: a word for
  \<open>int\<close>, \<open>long\<close>, \<open>size_t\<close> and \<open>ptrdiff_t\<close>, a double word for
  \<open>long long\<close> and \<open>intmax_t\<close>, or a string (its characters before the NUL, or
  \<open>None\<close> for NULL); \<open>va_arg\<close> of another type than the one passed, or past the last
  argument, has no result, and neither has an overflow of a width or precision; the negation of the
  smallest \<open>intmax_t\<close> wraps around, as the tests of the repository expect. Each conversion computes
  the characters that the source hands to \<open>putc\<close>, in this order; \<open>doprintf\<close> hands
  them over one by one.
\<close>

datatype va = VInt u32 | VLong u64 | VStr "u8 list option"

datatype len_mod = L_DEFAULT | L_HH | L_H | L_L | L_LL | L_J | L_Z | L_T

record flags =
  ljustify :: bool
  signflag :: bool
  signpad :: bool
  altflag :: bool
  zeropad :: bool

definition no_flags :: flags where
  "no_flags = \<lparr>ljustify = False, signflag = False, signpad = False, altflag = False, zeropad = False\<rparr>"

definition NUM2STR_BUFSIZ :: nat where "NUM2STR_BUFSIZ = 64"
definition PRINTF_BUFSIZ :: u32 where "PRINTF_BUFSIZ = 1024"

text \<open>The value of an expression of type \<open>int\<close>.\<close>

definition c_int :: "int \<Rightarrow> int option" where
  "c_int v = (if - 2147483648 \<le> v \<and> v \<le> 2147483647 then Some v else None)"

subsection \<open>Arguments\<close>

fun va_int :: "va list \<Rightarrow> (u32 \<times> va list) option" where
  "va_int (VInt w # args) = Some (w, args)"
| "va_int args = None"

fun va_long :: "va list \<Rightarrow> (u64 \<times> va list) option" where
  "va_long (VLong w # args) = Some (w, args)"
| "va_long args = None"

fun va_str :: "va list \<Rightarrow> (u8 list option \<times> va list) option" where
  "va_str (VStr s # args) = Some (s, args)"
| "va_str args = None"

definition get_signed :: "len_mod \<Rightarrow> va list \<Rightarrow> (int \<times> va list) option" where
  "get_signed l args = (case l of
      L_HH \<Rightarrow> map_option (apfst (\<lambda>w. sint (ucast w :: u8))) (va_int args)
    | L_H \<Rightarrow> map_option (apfst (\<lambda>w. sint (ucast w :: u16))) (va_int args)
    | L_LL \<Rightarrow> map_option (apfst sint) (va_long args)
    | L_J \<Rightarrow> map_option (apfst sint) (va_long args)
    | L_Z \<Rightarrow> map_option (apfst uint) (va_int args)
    | _ \<Rightarrow> map_option (apfst sint) (va_int args))"

definition get_unsigned :: "len_mod \<Rightarrow> va list \<Rightarrow> (u64 \<times> va list) option" where
  "get_unsigned l args = (case l of
      L_HH \<Rightarrow> map_option (apfst (\<lambda>w. ucast (ucast w :: u8))) (va_int args)
    | L_H \<Rightarrow> map_option (apfst (\<lambda>w. ucast (ucast w :: u16))) (va_int args)
    | L_LL \<Rightarrow> va_long args
    | L_J \<Rightarrow> va_long args
    | L_T \<Rightarrow> map_option (apfst (\<lambda>w. of_int (sint w))) (va_int args)
    | _ \<Rightarrow> map_option (apfst ucast) (va_int args))"

subsection \<open>The parts of a conversion specification\<close>

text \<open>The loop over the flags; \<open>c\<close> is the last character it has read.\<close>

fun parse_flags :: "u8 list \<Rightarrow> u8 \<Rightarrow> flags \<Rightarrow> (u8 \<times> flags \<times> u8 list) option" where
  "parse_flags [] c fl = None"
| "parse_flags (x # fmt) c fl =
    (if x = 0 then Some (c, fl, x # fmt)
     else if x = 45 then parse_flags fmt x (fl\<lparr>ljustify := True\<rparr>)
     else if x = 43 then parse_flags fmt x (fl\<lparr>signflag := True\<rparr>)
     else if x = 32 then parse_flags fmt x (fl\<lparr>signpad := True\<rparr>)
     else if x = 35 then parse_flags fmt x (fl\<lparr>altflag := True\<rparr>)
     else if x = 48 then parse_flags fmt x (fl\<lparr>zeropad := True\<rparr>)
     else Some (x, fl, fmt))"

definition fix_flags :: "flags \<Rightarrow> flags" where
  "fix_flags fl = (
     let fl = (if signflag fl \<and> signpad fl then fl\<lparr>signpad := False\<rparr> else fl)
     in if ljustify fl \<and> zeropad fl then fl\<lparr>zeropad := False\<rparr> else fl)"

text \<open>The digits of a width or precision, up to the first character \<open>c\<close> that is not a digit.\<close>

fun parse_digits_loop :: "u8 \<Rightarrow> u8 list \<Rightarrow> int \<Rightarrow> (int \<times> u8 \<times> u8 list) option" where
  "parse_digits_loop c [] n = (if isdigit (cchar c) then None else Some (n, c, []))"
| "parse_digits_loop c (x # fmt) n =
    (if isdigit (cchar c) then do {
       n \<leftarrow> c_int (n * 10);
       n \<leftarrow> c_int (n + (cchar c - 48));
       parse_digits_loop x fmt n
     }
     else Some (n, c, x # fmt))"

definition next_char :: "u8 list \<Rightarrow> (u8 \<times> u8 list) option" where
  "next_char fmt = (case fmt of [] \<Rightarrow> None | c # fmt \<Rightarrow> Some (c, fmt))"

definition parse_width :: "u8 \<Rightarrow> u8 list \<Rightarrow> flags \<Rightarrow> va list \<Rightarrow> (int \<times> flags \<times> u8 \<times> u8 list \<times> va list) option" where
  "parse_width c fmt fl args = do {
     (width, c, fmt) \<leftarrow> parse_digits_loop c fmt 0;
     if c = 42 then do {
       (w, args) \<leftarrow> va_int args;
       let width = sint w;
       let fl = (if width < 0 then fl\<lparr>ljustify := True\<rparr> else fl);
       width \<leftarrow> (if width < 0 then c_int (- width) else Some width);
       (c, fmt) \<leftarrow> next_char fmt;
       Some (width, fl, c, fmt, args)
     }
     else Some (width, fl, c, fmt, args)
   }"

text \<open>The precision and whether it is the default one.\<close>

definition parse_prec :: "u8 \<Rightarrow> u8 list \<Rightarrow> va list \<Rightarrow> (int \<times> bool \<times> u8 \<times> u8 list \<times> va list) option" where
  "parse_prec c fmt args =
    (if c = 46 then do {
       (c, fmt) \<leftarrow> next_char fmt;
       (prec, c, fmt) \<leftarrow> parse_digits_loop c fmt 0;
       if c = 42 then do {
         (w, args) \<leftarrow> va_int args;
         let prec = sint w;
         (c, fmt) \<leftarrow> next_char fmt;
         Some (if prec < 0 then 1 else prec, prec < 0, c, fmt, args)
       }
       else Some (prec, False, c, fmt, args)
     }
     else Some (1, True, c, fmt, args))"

text \<open>One turn of the loop over the length modifier: whether to go on, whether the character was one of a modifier, and the length.\<close>

definition length_step :: "u8 \<Rightarrow> len_mod \<Rightarrow> bool \<times> bool \<times> len_mod" where
  "length_step c l =
    (if c = 104 then
       if l = L_DEFAULT then (True, True, L_H) else if l = L_H then (False, True, L_HH) else (True, True, l)
     else if c = 108 then
       if l = L_DEFAULT then (True, True, L_L) else if l = L_L then (False, True, L_LL) else (True, True, l)
     else if c = 106 then if l = L_DEFAULT then (False, True, L_J) else (True, True, l)
     else if c = 122 then if l = L_DEFAULT then (False, True, L_Z) else (True, True, l)
     else if c = 116 then if l = L_DEFAULT then (False, True, L_T) else (True, True, l)
     else (False, False, l))"

fun parse_length :: "u8 \<Rightarrow> u8 list \<Rightarrow> len_mod \<Rightarrow> (len_mod \<times> u8 \<times> u8 list) option" where
  "parse_length c [] l = (if fst (snd (length_step c l)) then None else Some (l, c, []))"
| "parse_length c (x # fmt) l =
    (case length_step c l of (parse, mtch, l) \<Rightarrow>
       if \<not> mtch then Some (l, c, x # fmt)
       else if parse then parse_length x fmt l
       else Some (l, x, fmt))"

subsection \<open>Numbers\<close>

definition digits :: "u8 list" where
  "digits = map of_char ''0123456789abcdefghijklmnopqrstuvwxyz''"

definition digits_cap :: "u8 list" where
  "digits_cap = map of_char ''0123456789ABCDEFGHIJKLMNOPQRSTUVWXYZ''"

text \<open>The digits are stored from the end of \<open>num2str\<close> downwards; \<open>ds\<close> are the bytes stored so far.\<close>

partial_function (option) num2str :: "u64 \<Rightarrow> bool \<Rightarrow> u64 \<Rightarrow> u8 list \<Rightarrow> u8 list option" where
  "num2str radix capital num ds =
    (if num = 0 then Some ds
     else do {
       assert_opt (length ds < NUM2STR_BUFSIZ);
       d \<leftarrow> arr_get (if capital then digits_cap else digits) (unat (num mod radix));
       num2str radix capital (num div radix) (d # ds)
     })"

text \<open>\<open>while (limit > len) { zeros++; len++; }\<close>\<close>

function count_up :: "int \<Rightarrow> int \<Rightarrow> int \<Rightarrow> int \<times> int" where
  "count_up limit len zeros = (if limit > len then count_up limit (len + 1) (zeros + 1) else (len, zeros))"
  by auto
termination by (relation "measure (\<lambda>(limit, len, _). nat (limit - len))") auto

text \<open>The characters of a loop that pads with spaces while \<open>width > len\<close>, and of the one that writes zeros.\<close>

function spaces :: "int \<Rightarrow> int \<Rightarrow> u8 list" where
  "spaces width len = (if width > len then 32 # spaces (width - 1) len else [])"
  by auto
termination by (relation "measure (\<lambda>(width, len). nat (width - len))") auto

function zeros :: "int \<Rightarrow> u8 list" where
  "zeros n = (if n > 0 then 48 # zeros (n - 1) else [])"
  by auto
termination by (relation "measure nat") auto

declare count_up.simps [simp del] spaces.simps [simp del] zeros.simps [simp del]

definition sign_chars :: "flags \<Rightarrow> bool \<Rightarrow> bool \<Rightarrow> u8 list" where
  "sign_chars fl signd negative =
    (if signd then if negative then [45] else if signflag fl then [43] else if signpad fl then [32] else []
     else [])"

definition number_chars ::
  "flags \<Rightarrow> int \<Rightarrow> int \<Rightarrow> bool \<Rightarrow> u64 \<Rightarrow> bool \<Rightarrow> bool \<Rightarrow> bool \<Rightarrow> u64 \<Rightarrow> u8 list option"
where
  "number_chars fl width prec default_prec radix capital signd negative num = do {
     let zero = (num = 0);
     ds \<leftarrow> num2str radix capital num [];
     let len = int (length ds);
     let (len, num_zeros) = count_up prec len 0;
     let sign_char = sign_chars fl signd negative;
     let len = len + int (length sign_char);
     let (len, num_zeros) =
       (if altflag fl \<and> radix = 8 \<and> num_zeros = 0 then (len + 1, num_zeros + 1)
        else if altflag fl \<and> radix = 16 \<and> \<not> zero then (len + 2, num_zeros)
        else (len, num_zeros));
     let (len, num_zeros, pad) =
       (if \<not> ljustify fl then
          if zeropad fl \<and> default_prec then (let (len, num_zeros) = count_up width len num_zeros in (len, num_zeros, []))
          else (len, num_zeros, spaces width len)
        else (len, num_zeros, []));
     let prefix = (if altflag fl \<and> radix = 16 \<and> \<not> zero then [48, if capital then 88 else 120] else []);
     let trail = (if ljustify fl then spaces width len else []);
     Some (pad @ sign_char @ prefix @ zeros num_zeros @ ds @ trail)
   }"

subsection \<open>Strings\<close>

text \<open>\<open>while (len-- > 0 && *str != '\0') putc(*str++)\<close>\<close>

fun str_chars :: "int \<Rightarrow> u8 list \<Rightarrow> u8 list" where
  "str_chars len [] = []"
| "str_chars len (c # str) = (if len > 0 \<and> c \<noteq> 0 then c # str_chars (len - 1) str else [])"

definition null_str :: "u8 list" where "null_str = map of_char ''(null)''"

definition string_chars :: "flags \<Rightarrow> int \<Rightarrow> int \<Rightarrow> bool \<Rightarrow> u8 list option \<Rightarrow> u8 list" where
  "string_chars fl width prec default_prec str = (
     let str = (case str of None \<Rightarrow> null_str | Some s \<Rightarrow> s);
         len = int (length (takeWhile (\<lambda>c. c \<noteq> 0) str));
         (prec, len) = (if default_prec then (len, len) else (prec, prec));
         text = str_chars len str
     in if \<not> ljustify fl then spaces width prec @ text else text @ spaces width prec)"

subsection \<open>Conversions\<close>

text \<open>
  The switch over the conversion specifier: the characters to be written and the remaining
  arguments. \<open>spec\<close> is the text from after the percent sign up to where the format has been
  read.
\<close>

definition convert ::
  "flags \<Rightarrow> int \<Rightarrow> int \<Rightarrow> bool \<Rightarrow> len_mod \<Rightarrow> u8 \<Rightarrow> u8 list \<Rightarrow> va list \<Rightarrow> (u8 list \<times> va list) option"
where
  "convert fl width prec default_prec l c spec args =
    (if c = 37 then Some ([c], args)
     else if c = 99 then do { (w, args) \<leftarrow> va_int args; Some ([ucast w], args) }
     else if c = 115 then
       if l = L_DEFAULT then do {
         (str, args) \<leftarrow> va_str args;
         Some (string_chars fl width prec default_prec str, args)
       }
       else Some ([], args)
     else if c = 100 \<or> c = 105 then do {
       (n, args) \<leftarrow> get_signed l args;
       cs \<leftarrow> number_chars fl width prec default_prec 10 False True (n < 0) (of_int \<bar>n\<bar>);
       Some (cs, args)
     }
     else if c = 111 \<or> c = 88 \<or> c = 120 \<or> c = 117 then do {
       (num, args) \<leftarrow> get_unsigned l args;
       let radix = (if c = 111 then 8 else if c = 117 then 10 else 16);
       cs \<leftarrow> number_chars fl width prec default_prec radix (c = 88) False False num;
       Some (cs, args)
     }
     else Some (37 # spec, args))"

definition directive :: "u8 list \<Rightarrow> va list \<Rightarrow> (u8 list \<times> u8 list \<times> va list) option" where
  "directive format_start args = do {
     (c, fl, fmt) \<leftarrow> parse_flags format_start 37 no_flags;
     let fl = fix_flags fl;
     (width, fl, c, fmt, args) \<leftarrow> parse_width c fmt fl args;
     (prec, default_prec, c, fmt, args) \<leftarrow> parse_prec c fmt args;
     (l, c, fmt) \<leftarrow> parse_length c fmt L_DEFAULT;
     (cs, args) \<leftarrow> convert fl width prec default_prec l c
       (take (length format_start - length fmt) format_start) args;
     Some (cs, fmt, args)
   }"

subsection \<open>The main loop\<close>

text \<open>\<open>_putchar\<close>: \<open>Inl\<close> is the jump to \<open>done\<close> with the error of \<open>putc\<close>.\<close>

fun putchars :: "('s \<Rightarrow> u8 \<Rightarrow> (int \<times> 's) option) \<Rightarrow> u8 list \<Rightarrow> int \<Rightarrow> 's \<Rightarrow> ((int \<times> 's) + (int \<times> 's)) option" where
  "putchars putc [] nwritten s = Some (Inr (nwritten, s))"
| "putchars putc (c # cs) nwritten s = do {
     (retval, s) \<leftarrow> putc s c;
     if retval < 0 then Some (Inl (retval, s)) else putchars putc cs (nwritten + retval) s
   }"

partial_function (option) doprintf_loop ::
  "('s \<Rightarrow> u8 \<Rightarrow> (int \<times> 's) option) \<Rightarrow> u8 list \<Rightarrow> va list \<Rightarrow> int \<Rightarrow> 's \<Rightarrow> ((int \<times> 's) + (int \<times> 's)) option"
where
  "doprintf_loop putc format args nwritten s = do {
     (c, format) \<leftarrow> next_char format;
     if c = 0 then Some (Inr (nwritten, s))
     else do {
       (cs, format, args) \<leftarrow> (if c \<noteq> 37 then Some ([c], format, args) else directive format args);
       r \<leftarrow> putchars putc cs nwritten s;
       case r of Inl e \<Rightarrow> Some (Inl e) | Inr (nwritten, s) \<Rightarrow> doprintf_loop putc format args nwritten s
     }
   }"

definition doprintf ::
  "u8 list option \<Rightarrow> va list \<Rightarrow> ('s \<Rightarrow> u8 \<Rightarrow> (int \<times> 's) option) \<Rightarrow> 's \<Rightarrow> (int \<times> 's) option"
where
  "doprintf format args putc s = do {
     r \<leftarrow> (case format of None \<Rightarrow> Some (Inr (0, s)) | Some f \<Rightarrow> doprintf_loop putc f args 0 s);
     case r of Inl e \<Rightarrow> Some e
     | Inr (nwritten, s) \<Rightarrow> do {
         r \<leftarrow> putchars putc [0] nwritten s;
         case r of Inl e \<Rightarrow> Some e | Inr x \<Rightarrow> Some x
       }
   }"

subsection \<open>The functions of the family\<close>

text \<open>\<open>struct printf_state\<close> without the arguments: the buffer, the position of the pointer in it, and the space left.\<close>

record printf_state =
  pf_buffer :: "u8 list"
  pf_pos :: nat
  pf_avail :: u32

definition sprintf_putc :: "printf_state \<Rightarrow> u8 \<Rightarrow> (int \<times> printf_state) option" where
  "sprintf_putc st c = do {
     buf \<leftarrow> arr_set (pf_buffer st) (pf_pos st) c;
     buf \<leftarrow> arr_set buf (pf_pos st + 1) 0;
     Some (1, st\<lparr>pf_buffer := buf, pf_pos := pf_pos st + 1\<rparr>)
   }"

definition snprintf_putc :: "printf_state \<Rightarrow> u8 \<Rightarrow> (int \<times> printf_state) option" where
  "snprintf_putc st c =
    (if pf_avail st > 0 then do {
       (_, st) \<leftarrow> sprintf_putc (st\<lparr>pf_avail := pf_avail st - 1\<rparr>) c;
       Some (1, st)
     }
     else Some (1, st))"

text \<open>When its buffer is full, \<open>_printf_putc\<close> writes it and then loops forever.\<close>

definition printf_putc :: "printf_state \<Rightarrow> u8 \<Rightarrow> (int \<times> printf_state) option" where
  "printf_putc st c =
    (if pf_avail st = 0 then None else sprintf_putc (st\<lparr>pf_avail := pf_avail st - 1\<rparr>) c)"

definition vsprintf :: "u8 list \<Rightarrow> u8 list option \<Rightarrow> va list \<Rightarrow> (int \<times> u8 list) option" where
  "vsprintf buffer format args =
     map_option (apsnd pf_buffer) (doprintf format args sprintf_putc \<lparr>pf_buffer = buffer, pf_pos = 0, pf_avail = 0\<rparr>)"

definition vsnprintf :: "u8 list \<Rightarrow> u32 \<Rightarrow> u8 list option \<Rightarrow> va list \<Rightarrow> (int \<times> u8 list) option" where
  "vsnprintf buffer bufsz format args =
     map_option (apsnd pf_buffer) (doprintf format args snprintf_putc \<lparr>pf_buffer = buffer, pf_pos = 0, pf_avail = bufsz\<rparr>)"

text \<open>\<open>vprintf\<close> returns the bytes it writes to the standard output as well; \<open>buffer\<close> is the uninitialised array.\<close>

definition vprintf :: "u8 list \<Rightarrow> u8 list option \<Rightarrow> va list \<Rightarrow> (int \<times> u8 list) option" where
  "vprintf buffer format args =
    (if format = None then Some (- EINVAL, [])
     else do {
       (nwritten, st) \<leftarrow> doprintf format args printf_putc \<lparr>pf_buffer = buffer, pf_pos = 0, pf_avail = PRINTF_BUFSIZ\<rparr>;
       assert_opt (nat nwritten \<le> length (pf_buffer st));
       Some (nwritten, take (nat nwritten) (pf_buffer st))
     })"

declare num2str.simps [code] doprintf_loop.simps [code]

subsection \<open>Loops\<close>

lemma count_up_eq: "count_up limit len z = (max limit len, z + max 0 (limit - len))"
proof (induction limit len z rule: count_up.induct)
  case (1 limit len z)
  then show ?case by (subst count_up.simps) auto
qed

lemma spaces_eq: "spaces width len = replicate (nat (width - len)) 32"
proof (induction width len rule: spaces.induct)
  case (1 width len)
  then show ?case
    by (subst spaces.simps) (auto simp: replicate_Suc [symmetric] simp del: replicate_Suc)
qed

lemma zeros_eq: "zeros n = replicate (nat n) 48"
proof (induction n rule: zeros.induct)
  case (1 n)
  then show ?case
    by (subst zeros.simps) (auto simp: replicate_Suc [symmetric] simp del: replicate_Suc)
qed

lemma str_chars_eq: "str_chars len s = take (nat len) (takeWhile (\<lambda>c. c \<noteq> 0) s)"
proof (induction s arbitrary: len)
  case (Cons c s)
  then show ?case by (cases "nat len") (auto simp: nat_diff_distrib')
qed simp

subsection \<open>The digits of a number\<close>

fun digit_list :: "nat \<Rightarrow> nat \<Rightarrow> nat list" where
  "digit_list b n = (if n = 0 \<or> b < 2 then [] else digit_list b (n div b) @ [n mod b])"

declare digit_list.simps [simp del]

lemma digit_list_0 [simp]: "digit_list b 0 = []"
  by (simp add: digit_list.simps)

lemma digit_list_empty: "2 \<le> b \<Longrightarrow> digit_list b n = [] \<longleftrightarrow> n = 0"
  by (subst digit_list.simps) simp

lemma digit_list_less: "d \<in> set (digit_list b n) \<Longrightarrow> d < b"
proof (induction b n rule: digit_list.induct)
  case (1 b n)
  then show ?case by (subst (asm) digit_list.simps) (auto split: if_splits)
qed

lemma digit_list_value: "2 \<le> b \<Longrightarrow> foldl (\<lambda>v d. v * b + d) 0 (digit_list b n) = n"
proof (induction b n rule: digit_list.induct)
  case (1 b n)
  then show ?case by (subst digit_list.simps) auto
qed

lemma digit_list_hd: "2 \<le> b \<Longrightarrow> n \<noteq> 0 \<Longrightarrow> hd (digit_list b n) \<noteq> 0"
proof (induction b n rule: digit_list.induct)
  case (1 b n)
  show ?case
  proof (cases "n div b = 0")
    case True
    then have "n < b" using 1(2) by (simp add: div_eq_0_iff)
    with 1(2,3) show ?thesis by (subst digit_list.simps) simp
  next
    case False
    then have "digit_list b (n div b) \<noteq> []" using 1(2) by (simp add: digit_list_empty)
    with False 1 show ?thesis by (subst digit_list.simps) simp
  qed
qed

lemma digit_list_length: "2 \<le> b \<Longrightarrow> n < b ^ k \<Longrightarrow> length (digit_list b n) \<le> k"
proof (induction b n arbitrary: k rule: digit_list.induct)
  case (1 b n)
  show ?case
  proof (cases "n = 0")
    case False
    with 1(3) obtain j where k: "k = Suc j" by (cases k) auto
    then have "n div b < b ^ j" using 1(2,3) by (simp add: less_mult_imp_div_less mult.commute)
    with 1(1) [of j] 1(2) False k show ?thesis by (subst digit_list.simps) simp
  qed simp
qed

definition digit_char :: "bool \<Rightarrow> nat \<Rightarrow> u8" where
  "digit_char capital d = (if capital then digits_cap else digits) ! d"

lemma length_digits [simp]: "length digits = 36" "length digits_cap = 36"
  by (simp_all add: digits_def digits_cap_def)

lemma num2str_eq:
  assumes "2 \<le> radix" "radix \<le> 36" "length (digit_list (unat radix) (unat num)) + length ds \<le> NUM2STR_BUFSIZ"
  shows "num2str radix capital num ds =
    Some (map (digit_char capital) (digit_list (unat radix) (unat num)) @ ds)"
  using assms
proof (induction "unat num" arbitrary: num ds rule: less_induct)
  case less
  have r: "2 \<le> unat radix" "unat radix \<le> 36"
    using less.prems(1,2) unfolding word_le_nat_alt by simp_all
  show ?case
  proof (cases "num = 0")
    case True
    then show ?thesis by (simp add: num2str.simps)
  next
    case False
    then have n: "unat num \<noteq> 0" by (simp add: unat_eq_zero)
    let ?d = "digit_char capital (unat (num mod radix))"
    have dl: "digit_list (unat radix) (unat num) =
        digit_list (unat radix) (unat (num div radix)) @ [unat (num mod radix)]"
      using n r by (subst digit_list.simps) (simp add: unat_div unat_mod)
    have m: "unat (num mod radix) < 36" using r by (simp add: unat_mod less_le_trans [OF mod_less_divisor])
    have lt: "unat (num div radix) < unat num"
      unfolding unat_div using n r by (intro div_less_dividend) linarith+
    have len: "length (digit_list (unat radix) (unat (num div radix))) + length (?d # ds) \<le> NUM2STR_BUFSIZ"
      using less.prems(3) dl by simp
    have ih: "num2str radix capital (num div radix) (?d # ds) =
        Some (map (digit_char capital) (digit_list (unat radix) (unat (num div radix))) @ ?d # ds)"
      using less.hyps [OF lt less.prems(1,2) len] .
    have "length ds < NUM2STR_BUFSIZ" using less.prems(3) dl by simp
    moreover have "arr_get (if capital then digits_cap else digits) (unat (num mod radix)) = Some ?d"
      using m by (simp add: digit_char_def)
    ultimately show ?thesis using False ih by (subst num2str.simps) (simp add: dl)
  qed
qed

lemma digits_eq:
  "digits = [48, 49, 50, 51, 52, 53, 54, 55, 56, 57, 97, 98, 99, 100, 101, 102, 103, 104, 105, 106, 107, 108, 109,
     110, 111, 112, 113, 114, 115, 116, 117, 118, 119, 120, 121, 122]"
  "digits_cap = [48, 49, 50, 51, 52, 53, 54, 55, 56, 57, 65, 66, 67, 68, 69, 70, 71, 72, 73, 74, 75, 76, 77,
     78, 79, 80, 81, 82, 83, 84, 85, 86, 87, 88, 89, 90]"
  by (simp_all add: digits_def digits_cap_def)

lemma digit_char_ok:
  assumes "d < b" "b \<le> 36"
  shows "digit_of (digit_char capital d) = int d" "is_digit_in (int b) (digit_char capital d)"
    "digit_char capital d = 48 \<longleftrightarrow> d = 0"
proof -
  have "\<forall>d \<in> set [0..<36]. uint (digit_char capital d) = (if d < 10 then 48 else if capital then 55 else 87) + int d"
    by (simp add: upt_rec digit_char_def digits_eq)
  moreover have "d \<in> set [0..<36]" using assms by simp
  ultimately have u: "uint (digit_char capital d) = (if d < 10 then 48 else if capital then 55 else 87) + int d" by blast
  then have "uint (digit_char capital d) < 128" using assms by simp
  then have "cchar (digit_char capital d) = uint (digit_char capital d)" by (rule cchar_ascii)
  then have c: "cchar (digit_char capital d) = (if d < 10 then 48 else if capital then 55 else 87) + int d" using u by simp
  then show *: "digit_of (digit_char capital d) = int d"
    using assms by (auto simp: digit_of_def isdigit_def tolower_eq isupper_def)
  show "is_digit_in (int b) (digit_char capital d)"
    using * c assms by (auto simp: is_digit_in_def isalnum_def isalpha_def isupper_def islower_def isdigit_def)
  show "digit_char capital d = 48 \<longleftrightarrow> d = 0"
    using u by (auto simp: word_uint_eq_iff)
qed

lemma digits_value_map:
  assumes "\<forall>d \<in> set ds. d < b" "b \<le> 36"
  shows "digits_value (int b) (of_nat v) (map (digit_char capital) ds) = of_nat (foldl (\<lambda>v d. v * b + d) v ds)"
  using assms
proof (induction ds arbitrary: v)
  case Nil
  then show ?case by (simp add: digits_value_def)
next
  case (Cons d ds)
  have "digits_value (int b) (of_nat v) (map (digit_char capital) (d # ds)) =
      digits_value (int b) (of_nat (v * b + d)) (map (digit_char capital) ds)"
    using Cons.prems digit_char_ok(1) [of d b capital] by (simp add: digits_value_def)
  with Cons.IH [of "v * b + d"] Cons.prems show ?case by simp
qed

text \<open>The digits that \<open>num2str\<close> computes: of the radix, without a leading zero, with the value of the number.\<close>

definition num_digits :: "u64 \<Rightarrow> bool \<Rightarrow> u64 \<Rightarrow> u8 list" where
  "num_digits radix capital num = map (digit_char capital) (digit_list (unat radix) (unat num))"

lemma num2str_ok:
  assumes "8 \<le> radix" "radix \<le> 36"
  shows "num2str radix capital num [] = Some (num_digits radix capital num)" (is ?eq)
    and "length (num_digits radix capital num) \<le> 22" (is ?len)
    and "\<forall>c \<in> set (num_digits radix capital num). is_digit_in (uint radix) c" (is ?digits)
    and "digits_value (uint radix) 0 (num_digits radix capital num) = num" (is ?val)
    and "num_digits radix capital num = [] \<longleftrightarrow> num = 0" (is ?empty)
    and "num \<noteq> 0 \<Longrightarrow> hd (num_digits radix capital num) \<noteq> 48"
proof -
  have r: "8 \<le> unat radix" "unat radix \<le> 36" "2 \<le> radix"
    using assms unfolding word_le_nat_alt by simp_all
  have u: "uint radix = int (unat radix)" by simp
  have "unat num < 2 ^ 64" using unsigned_less [of num, where ?'a = nat] by simp
  then have "unat num < 8 ^ 22" by (rule less_trans) simp
  also have "(8 :: nat) ^ 22 \<le> unat radix ^ 22" using r by (intro power_mono) auto
  finally have l: "length (digit_list (unat radix) (unat num)) \<le> 22"
    using r by (intro digit_list_length) auto
  then show ?len by (simp add: num_digits_def)
  show ?eq using num2str_eq [OF r(3) assms(2), of num "[]" capital] l by (simp add: num_digits_def NUM2STR_BUFSIZ_def)
  show ?digits unfolding u num_digits_def set_map by (blast intro: digit_char_ok(2) digit_list_less r(2))
  show ?val
    unfolding u num_digits_def
    using digits_value_map [of "digit_list (unat radix) (unat num)" "unat radix" 0 capital] r
      digit_list_less [of _ "unat radix" "unat num"] digit_list_value [of "unat radix" "unat num"] by simp
  show ?empty using r by (simp add: num_digits_def digit_list_empty unat_eq_zero)
  show "hd (num_digits radix capital num) \<noteq> 48" if "num \<noteq> 0"
  proof -
    have ne: "digit_list (unat radix) (unat num) \<noteq> []" "unat num \<noteq> 0" using r that by (auto simp: digit_list_empty unat_eq_zero unat_gt_0)
    then have "hd (digit_list (unat radix) (unat num)) < unat radix"
      using digit_list_less [of _ "unat radix" "unat num"] hd_in_set by blast
    with ne show ?thesis
      using r digit_list_hd [of "unat radix" "unat num"] digit_char_ok(3) [of "hd (digit_list (unat radix) (unat num))" "unat radix" capital]
      by (simp add: num_digits_def hd_map)
  qed
qed

text \<open>The length of the zeros and of the whole text before it is padded to its width.\<close>

definition base_zeros :: "flags \<Rightarrow> int \<Rightarrow> u64 \<Rightarrow> bool \<Rightarrow> u64 \<Rightarrow> nat" where
  "base_zeros fl prec radix capital num = (
     let z = nat prec - length (num_digits radix capital num)
     in if altflag fl \<and> radix = 8 \<and> z = 0 then 1 else z)"

definition num_prefix :: "flags \<Rightarrow> u64 \<Rightarrow> bool \<Rightarrow> u64 \<Rightarrow> u8 list" where
  "num_prefix fl radix capital num =
     (if altflag fl \<and> radix = 16 \<and> num \<noteq> 0 then [48, if capital then 88 else 120] else [])"

lemma number_chars_eq:
  assumes "8 \<le> radix" "radix \<le> 36" "0 \<le> prec"
  shows "number_chars fl width prec dp radix capital signd negative num = Some (
    let ds = num_digits radix capital num; sg = sign_chars fl signd negative; px = num_prefix fl radix capital num;
        z = base_zeros fl prec radix capital num;
        pad = nat width - (length sg + length px + z + length ds)
    in (if ljustify fl \<or> zeropad fl \<and> dp then [] else replicate pad 32) @ sg @ px @
       replicate (z + (if \<not> ljustify fl \<and> zeropad fl \<and> dp then pad else 0)) 48 @ ds @
       (if ljustify fl then replicate pad 32 else []))"
proof -
  define ds where "ds = num_digits radix capital num"
  define z where "z = nat prec - length ds"
  define sg where "sg = sign_chars fl signd negative"
  have c: "count_up prec (int (length ds)) 0 = (int (z + length ds), int z)"
    using assms(3) by (auto simp: count_up_eq z_def)
  have cw: "count_up width (int n) (int k) = (int (nat width - n + n), int (k + (nat width - n)))" for n k
    by (auto simp: count_up_eq)
  have sp: "spaces width (int n) = replicate (nat width - n) 32" for n
    by (simp add: spaces_eq nat_diff_distrib' flip: nat_minus_as_int)
  have zs: "zeros (int n) = replicate n 48" for n by (simp add: zeros_eq)
  define bz where "bz = base_zeros fl prec radix capital num"
  define px where "px = num_prefix fl radix capital num"
  have len: "(if altflag fl \<and> radix = 8 \<and> int z = 0 then (int (z + length ds) + int (length sg) + 1, int z + 1)
      else if altflag fl \<and> radix = 16 \<and> \<not> num = 0 then (int (z + length ds) + int (length sg) + 2, int z)
      else (int (z + length ds) + int (length sg), int z)) =
      (int (length sg + length px + bz + length ds), int bz)"
    by (auto simp: bz_def px_def base_zeros_def num_prefix_def z_def ds_def Let_def)
  have px: "(if altflag fl \<and> radix = 16 \<and> \<not> num = 0 then [48, if capital then 88 else 120] else []) = px"
    by (simp add: px_def num_prefix_def)
  note n2s = num2str_ok(1) [OF assms(1,2), of capital num, folded ds_def]
  show ?thesis
    unfolding number_chars_def Let_def n2s bind.bind_lunit c prod.case sg_def [symmetric] ds_def [symmetric] len
      bz_def [symmetric] px_def [symmetric] px cw sp
    by (cases "ljustify fl"; cases "zeropad fl"; cases dp) (simp_all add: zs sp del: of_nat_add)
qed

subsection \<open>The text of a format\<close>

text \<open>All characters that a format writes, before the terminating NUL.\<close>

partial_function (option) format_chars :: "u8 list \<Rightarrow> va list \<Rightarrow> u8 list option" where
  "format_chars format args = do {
     (c, format) \<leftarrow> next_char format;
     if c = 0 then Some []
     else do {
       (cs, format, args) \<leftarrow> (if c \<noteq> 37 then Some ([c], format, args) else directive format args);
       text \<leftarrow> format_chars format args;
       Some (cs @ text)
     }
   }"

declare format_chars.simps [code]

text \<open>Every step of the loop reads at least one character of the format.\<close>

lemma parse_flags_shorter: "parse_flags fmt c fl = Some (c', fl', fmt') \<Longrightarrow> length fmt' \<le> length fmt"
proof (induction fmt arbitrary: c fl)
  case (Cons x fmt)
  then show ?case by (fastforce split: if_splits)
qed simp

lemma parse_digits_shorter: "parse_digits_loop c fmt n = Some (n', c', fmt') \<Longrightarrow> length fmt' \<le> length fmt"
proof (induction c fmt n rule: parse_digits_loop.induct)
  case (2 c x fmt n)
  then show ?case by (fastforce simp: c_int_def split: if_splits bind_splits)
qed (auto split: if_splits)

lemma parse_length_shorter: "parse_length c fmt l = Some (l', c', fmt') \<Longrightarrow> length fmt' \<le> length fmt"
proof (induction c fmt l rule: parse_length.induct)
  case (2 c x fmt l)
  then show ?case by (fastforce split: if_splits prod.splits)
qed (auto split: if_splits)

lemma next_char_shorter: "next_char fmt = Some (c, fmt') \<Longrightarrow> length fmt' < length fmt"
  by (auto simp: next_char_def split: list.splits)

lemma parse_width_shorter: "parse_width c fmt fl args = Some (w, fl', c', fmt', args') \<Longrightarrow> length fmt' \<le> length fmt"
  unfolding parse_width_def
  by (auto simp: bind_eq_Some_conv Let_def split: if_splits dest!: parse_digits_shorter next_char_shorter)

lemma parse_prec_shorter: "parse_prec c fmt args = Some (p, d, c', fmt', args') \<Longrightarrow> length fmt' \<le> length fmt"
  unfolding parse_prec_def
  by (auto simp: bind_eq_Some_conv Let_def split: if_splits dest!: parse_digits_shorter next_char_shorter)

lemma directive_shorter: "directive fmt args = Some (cs, fmt', args') \<Longrightarrow> length fmt' \<le> length fmt"
  unfolding directive_def
  by (auto simp: bind_eq_Some_conv Let_def dest!: parse_flags_shorter parse_width_shorter parse_prec_shorter parse_length_shorter)

lemma putchars_append:
  "putchars putc (cs @ cs') n s =
    do { r \<leftarrow> putchars putc cs n s; case r of Inl e \<Rightarrow> Some (Inl e) | Inr (n, s) \<Rightarrow> putchars putc cs' n s }"
  by (induction cs arbitrary: n s) (auto split: bind_splits)

lemma doprintf_loop_eq:
  "format_chars fmt args = Some cs \<Longrightarrow> doprintf_loop putc fmt args n s = putchars putc cs n s"
proof (induction "length fmt" arbitrary: fmt args cs n s rule: less_induct)
  case less
  obtain c fmt1 where c: "next_char fmt = Some (c, fmt1)"
    using less.prems by (subst (asm) format_chars.simps) (auto simp: bind_eq_Some_conv)
  then have shorter: "length fmt1 < length fmt" by (rule next_char_shorter)
  show ?case
  proof (cases "c = 0")
    case True
    with c less.prems have "cs = []" by (subst (asm) format_chars.simps) simp
    with True c show ?thesis by (subst doprintf_loop.simps) simp
  next
    case False
    let ?d = "if c \<noteq> 37 then Some ([c], fmt1, args) else directive fmt1 args"
    obtain cs1 fmt2 args2 cs2 where d: "?d = Some (cs1, fmt2, args2)" "format_chars fmt2 args2 = Some cs2" "cs = cs1 @ cs2"
      using less.prems c False by (subst (asm) format_chars.simps) (auto simp: bind_eq_Some_conv split: if_splits)
    have "length fmt2 < length fmt" using d(1) shorter by (auto split: if_splits dest: directive_shorter)
    then have "doprintf_loop putc fmt2 args2 = putchars putc cs2"
      using less.hyps d(2) by blast
    then show ?thesis
      using c False d(1,3) by (subst doprintf_loop.simps) (simp add: putchars_append)
  qed
qed

lemma doprintf_eq:
  assumes "format_chars fmt args = Some cs"
  shows "doprintf (Some fmt) args putc s = map_option (case_sum id id) (putchars putc (cs @ [0]) 0 s)"
proof -
  consider "putchars putc cs 0 s = None" | e where "putchars putc cs 0 s = Some (Inl e)" |
      n t where "putchars putc cs 0 s = Some (Inr (n, t))"
    by (metis not_None_eq sum.exhaust prod.exhaust)
  then show ?thesis
    by cases (auto simp: doprintf_def doprintf_loop_eq [OF assms] putchars_append split: bind_splits)
qed

subsection \<open>Where the characters go\<close>

text \<open>
  What \<open>doprintf\<close> relies on: a sink with room takes a character and counts it. \<open>out\<close> is
  the text the sink has taken.
\<close>

locale char_sink =
  fixes putc :: "'s \<Rightarrow> u8 \<Rightarrow> (int \<times> 's) option"
    and ok :: "'s \<Rightarrow> bool" and out :: "'s \<Rightarrow> u8 list" and room :: "'s \<Rightarrow> nat"
  assumes put: "ok s \<Longrightarrow> 0 < room s \<Longrightarrow>
    \<exists>s'. putc s c = Some (1, s') \<and> ok s' \<and> out s' = out s @ [c] \<and> room s' = room s - 1"
begin

lemma putchars_room:
  "ok s \<Longrightarrow> length cs \<le> room s \<Longrightarrow>
    \<exists>s'. putchars putc cs n s = Some (Inr (n + int (length cs), s')) \<and> ok s' \<and> out s' = out s @ cs \<and> room s' = room s - length cs"
proof (induction cs arbitrary: n s)
  case (Cons c cs)
  obtain s1 where s1: "putc s c = Some (1, s1)" "ok s1" "out s1 = out s @ [c]" "room s1 = room s - 1"
    using put [OF Cons.prems(1)] Cons.prems(2) by fastforce
  from Cons.IH [OF s1(2), of "n + 1"] s1 Cons.prems(2) show ?case by (auto simp: algebra_simps)
qed simp

lemma doprintf_room:
  assumes "format_chars fmt args = Some cs" "ok s" "length cs < room s"
  shows "\<exists>s'. doprintf (Some fmt) args putc s = Some (int (length cs) + 1, s') \<and> ok s' \<and> out s' = out s @ cs @ [0] \<and> room s' = room s - length cs - 1"
proof -
  obtain s' where "putchars putc (cs @ [0]) 0 s = Some (Inr (int (length cs) + 1, s'))" "ok s'" "out s' = out s @ cs @ [0]"
    "room s' = room s - length cs - 1"
    using putchars_room [OF assms(2), of "cs @ [0]" 0] assms(3) by auto
  then show ?thesis
    by (auto simp: doprintf_eq [OF assms(1)])
qed

end

text \<open>A sink that drops and counts the characters it has no room for.\<close>

locale counting_sink = char_sink +
  assumes put_full: "ok s \<Longrightarrow> room s = 0 \<Longrightarrow> putc s c = Some (1, s)"
begin

lemma putchars_all:
  "ok s \<Longrightarrow> \<exists>s'. putchars putc cs n s = Some (Inr (n + int (length cs), s')) \<and> ok s' \<and> out s' = out s @ take (room s) cs \<and>
     room s' = room s - length cs"
proof (induction cs arbitrary: n s)
  case (Cons c cs)
  show ?case
  proof (cases "room s")
    case 0
    with Cons.IH [OF Cons.prems, of "n + 1"] put_full [OF Cons.prems, of c] show ?thesis by (auto simp: algebra_simps)
  next
    case (Suc k)
    then obtain s1 where s1: "putc s c = Some (1, s1)" "ok s1" "out s1 = out s @ [c]" "room s1 = k"
      using put [OF Cons.prems] by fastforce
    from Cons.IH [OF s1(2), of "n + 1"] s1 Suc show ?thesis by (auto simp: algebra_simps)
  qed
qed simp

lemma doprintf_all:
  assumes "format_chars fmt args = Some cs" "ok s"
  shows "\<exists>s'. doprintf (Some fmt) args putc s = Some (int (length cs) + 1, s') \<and> ok s' \<and> out s' = out s @ take (room s) (cs @ [0]) \<and>
    room s' = room s - length cs - 1"
proof -
  obtain s' where "putchars putc (cs @ [0]) 0 s = Some (Inr (int (length cs) + 1, s'))" "ok s'"
    "out s' = out s @ take (room s) (cs @ [0])" "room s' = room s - length cs - 1"
    using putchars_all [OF assms(2), of "cs @ [0]" 0] by auto
  then show ?thesis
    by (auto simp: doprintf_eq [OF assms(1)])
qed

end

text \<open>
  The buffer of the \<open>printf\<close> family, \<open>B\<close> before the call: after the text stands a NUL, and
  the rest is as it was.
\<close>

definition buf_out :: "printf_state \<Rightarrow> u8 list" where
  "buf_out st = take (pf_pos st) (pf_buffer st)"

definition buf_room :: "printf_state \<Rightarrow> nat" where
  "buf_room st = length (pf_buffer st) - 1 - pf_pos st"

definition buf_ok :: "u8 list \<Rightarrow> printf_state \<Rightarrow> bool" where
  "buf_ok B st \<longleftrightarrow> length (pf_buffer st) = length B \<and>
     drop (pf_pos st + 1) (pf_buffer st) = drop (pf_pos st + 1) B \<and>
     (if pf_pos st = 0 then pf_buffer st = B else pf_pos st < length B \<and> pf_buffer st ! pf_pos st = 0)"

definition text_in :: "u8 list \<Rightarrow> u8 list \<Rightarrow> u8 list" where
  "text_in text B = (if text = [] then B else text @ 0 # drop (length text + 1) B)"

lemma buf_ok_start [simp]: "buf_ok B \<lparr>pf_buffer = B, pf_pos = 0, pf_avail = a\<rparr>"
  by (simp add: buf_ok_def)

lemma buf_out_start: "buf_out \<lparr>pf_buffer = B, pf_pos = 0, pf_avail = a\<rparr> = []"
  by (simp add: buf_out_def)

lemma buf_ok_avail [simp]: "buf_ok B (st\<lparr>pf_avail := a\<rparr>) = buf_ok B st"
  "buf_out (st\<lparr>pf_avail := a\<rparr>) = buf_out st" "buf_room (st\<lparr>pf_avail := a\<rparr>) = buf_room st"
  by (simp_all add: buf_ok_def buf_out_def buf_room_def)

lemma buf_ok_buffer:
  assumes "buf_ok B st"
  shows "pf_buffer st = text_in (buf_out st) B"
proof (cases "pf_pos st")
  case 0
  then show ?thesis using assms by (simp add: buf_ok_def buf_out_def text_in_def)
next
  case (Suc p)
  then have p: "pf_pos st < length (pf_buffer st)" "pf_buffer st ! pf_pos st = 0" using assms by (auto simp: buf_ok_def)
  then have "pf_buffer st = buf_out st @ 0 # drop (pf_pos st + 1) (pf_buffer st)"
    using id_take_nth_drop [OF p(1)] by (simp add: buf_out_def)
  moreover have "length (buf_out st) = pf_pos st" "buf_out st \<noteq> []" using p Suc by (auto simp: buf_out_def)
  ultimately show ?thesis using assms by (simp add: buf_ok_def text_in_def)
qed

lemma sprintf_put:
  assumes "buf_ok B st" "0 < buf_room st"
  shows "\<exists>st'. sprintf_putc st c = Some (1, st') \<and> buf_ok B st' \<and> buf_out st' = buf_out st @ [c] \<and>
    buf_room st' = buf_room st - 1 \<and> pf_avail st' = pf_avail st"
proof -
  let ?p = "pf_pos st"
  have p: "?p + 1 < length (pf_buffer st)" using assms(2) by (simp add: buf_room_def)
  have "drop (?p + 2) (pf_buffer st) = drop (?p + 2) B"
    using assms(1) drop_drop [of 1 "?p + 1" "pf_buffer st"] drop_drop [of 1 "?p + 1" B] by (simp add: buf_ok_def)
  with p assms(1) show ?thesis
    by (auto simp: sprintf_putc_def buf_ok_def buf_out_def buf_room_def take_Suc_conv_app_nth)
qed

interpretation sprintf_sink: char_sink sprintf_putc "buf_ok B" buf_out buf_room
  by unfold_locales (use sprintf_put in blast)

interpretation snprintf_sink: counting_sink snprintf_putc "\<lambda>st. buf_ok B st \<and> unat (pf_avail st) \<le> buf_room st"
  buf_out "\<lambda>st. unat (pf_avail st)"
proof unfold_locales
  fix st c
  assume a: "buf_ok B st \<and> unat (pf_avail st) \<le> buf_room st" "0 < unat (pf_avail st)"
  let ?st = "st\<lparr>pf_avail := pf_avail st - 1\<rparr>"
  have nz: "pf_avail st \<noteq> 0" using a(2) by auto
  then have u: "unat (pf_avail st - 1) = unat (pf_avail st) - 1" by (rule unat_minus_one)
  obtain st' where "sprintf_putc ?st c = Some (1, st')" "buf_ok B st'" "buf_out st' = buf_out ?st @ [c]"
    "buf_room st' = buf_room ?st - 1" "pf_avail st' = pf_avail ?st"
    using sprintf_put [of B ?st c] a by auto
  with a nz u show "\<exists>s'. snprintf_putc st c = Some (1, s') \<and> (buf_ok B s' \<and> unat (pf_avail s') \<le> buf_room s') \<and>
      buf_out s' = buf_out st @ [c] \<and> unat (pf_avail s') = unat (pf_avail st) - 1"
    by (auto simp: snprintf_putc_def word_neq_0_conv)
next
  fix st :: printf_state and c
  assume "unat (pf_avail st) = 0"
  then have "pf_avail st = 0" by (simp add: unat_eq_zero)
  then show "snprintf_putc st c = Some (1, st)" by (simp add: snprintf_putc_def)
qed

interpretation printf_sink: char_sink printf_putc "buf_ok B" buf_out "\<lambda>st. min (unat (pf_avail st)) (buf_room st)"
proof unfold_locales
  fix st c
  assume a: "buf_ok B st" "0 < min (unat (pf_avail st)) (buf_room st)"
  let ?st = "st\<lparr>pf_avail := pf_avail st - 1\<rparr>"
  have nz: "pf_avail st \<noteq> 0" using a(2) by auto
  then have u: "unat (pf_avail st - 1) = unat (pf_avail st) - 1" by (rule unat_minus_one)
  obtain st' where "sprintf_putc ?st c = Some (1, st')" "buf_ok B st'" "buf_out st' = buf_out ?st @ [c]"
    "buf_room st' = buf_room ?st - 1" "pf_avail st' = pf_avail ?st"
    using sprintf_put [of B ?st c] a by auto
  with nz u show "\<exists>s'. printf_putc st c = Some (1, s') \<and> buf_ok B s' \<and>
      buf_out s' = buf_out st @ [c] \<and> min (unat (pf_avail s')) (buf_room s') = min (unat (pf_avail st)) (buf_room st) - 1"
    by (auto simp: printf_putc_def)
qed

lemma vsnprintf_text:
  assumes "format_chars fmt args = Some cs" "unat bufsz < length buffer"
  shows "vsnprintf buffer bufsz (Some fmt) args =
    Some (int (length cs) + 1, text_in (take (unat bufsz) (cs @ [0])) buffer)"
proof -
  let ?st = "\<lparr>pf_buffer = buffer, pf_pos = 0, pf_avail = bufsz\<rparr>"
  have ok: "buf_ok buffer ?st \<and> unat (pf_avail ?st) \<le> buf_room ?st" using assms(2) by (simp add: buf_room_def)
  have "buf_out ?st = []" by (simp add: buf_out_def)
  with snprintf_sink.doprintf_all [OF assms(1) ok] show ?thesis
    by (auto simp: vsnprintf_def buf_ok_buffer)
qed

subsection \<open>What the functions store\<close>

text \<open>With a size that is the one of the buffer, a text of that length makes \<open>snprintf\<close> leave the buffer.\<close>

lemma snprintf_fill:
  "pf_avail st = of_nat (length cs) \<Longrightarrow> length cs < 4294967296 \<Longrightarrow> cs \<noteq> [] \<Longrightarrow>
    pf_pos st + length cs = length (pf_buffer st) \<Longrightarrow> putchars snprintf_putc cs n st = None"
proof (induction cs arbitrary: st n)
  case (Cons c cs)
  have nz: "pf_avail st > 0" using Cons.prems(1,2)
    by (simp add: word_less_nat_alt unat_of_nat take_bit_nat_eq_self del: of_nat_Suc)
  show ?case
  proof (cases "cs = []")
    case True
    then show ?thesis using nz Cons.prems(4) by (simp add: snprintf_putc_def sprintf_putc_def arr_set_def)
  next
    case False
    then have p: "pf_pos st + 1 < length (pf_buffer st)" using Cons.prems(4) by (cases cs) auto
    let ?st = "st\<lparr>pf_buffer := (pf_buffer st)[pf_pos st := c, pf_pos st + 1 := 0], pf_pos := pf_pos st + 1,
      pf_avail := pf_avail st - 1\<rparr>"
    have "putchars snprintf_putc cs (n + 1) ?st = None"
      using Cons.prems False by (intro Cons.IH) auto
    moreover have "snprintf_putc st c = Some (1, ?st)" using nz p by (simp add: snprintf_putc_def sprintf_putc_def)
    ultimately show ?thesis by simp
  qed
qed simp

text \<open>
  C16: What the functions of the family do with the text of a format (\<open>format_chars\<close>, all
  characters the conversions produce). Their result is the length of the text plus one: the
  terminating NUL is counted. \<open>sprintf\<close> stores the text and two NUL bytes and leaves the rest
  of the buffer alone. \<open>snprintf\<close> stores as much of the text and its NUL as fits in the given
  size, and one more NUL behind it: it needs a buffer that is one byte larger than the size it is
  told, and leaves the buffer when it is told the true size and the text fills it. \<open>printf\<close>
  writes the text and the NUL to the standard output, up to 1022 characters. A missing format
  counts as an empty one, and is an error for \<open>printf\<close>.
\<close>

theorem printf_family_text:
  assumes "format_chars fmt args = Some cs"
  shows "(length cs + 2 \<le> length buffer \<longrightarrow>
      vsprintf buffer (Some fmt) args = Some (int (length cs) + 1, cs @ [0, 0] @ drop (length cs + 2) buffer)) \<and>
    (unat bufsz < length buffer \<longrightarrow>
      vsnprintf buffer bufsz (Some fmt) args =
        Some (int (length cs) + 1,
          let text = take (unat bufsz) (cs @ [0])
          in if text = [] then buffer else text @ [0] @ drop (length text + 1) buffer)) \<and>
    (unat bufsz = length buffer \<and> buffer \<noteq> [] \<and> length buffer \<le> length cs + 1 \<longrightarrow>
      vsnprintf buffer bufsz (Some fmt) args = None) \<and>
    (length buffer = 1024 \<and> length cs \<le> 1022 \<longrightarrow>
      vprintf buffer (Some fmt) args = Some (int (length cs) + 1, cs @ [0])) \<and>
    vprintf buffer None args = Some (- EINVAL, [])"
proof (intro conjI impI)
  show "vsnprintf buffer bufsz (Some fmt) args =
        Some (int (length cs) + 1,
          let text = take (unat bufsz) (cs @ [0])
          in if text = [] then buffer else text @ [0] @ drop (length text + 1) buffer)"
    if "unat bufsz < length buffer"
    using vsnprintf_text [OF assms that] by (simp add: text_in_def Let_def)
  show "vsprintf buffer (Some fmt) args = Some (int (length cs) + 1, cs @ [0, 0] @ drop (length cs + 2) buffer)"
    if "length cs + 2 \<le> length buffer"
  proof -
    let ?st = "\<lparr>pf_buffer = buffer, pf_pos = 0, pf_avail = 0\<rparr>"
    have "length cs < buf_room ?st" using that by (simp add: buf_room_def)
    then obtain st' where st': "doprintf (Some fmt) args sprintf_putc ?st = Some (int (length cs) + 1, st')"
        "buf_ok buffer st'" "buf_out st' = buf_out ?st @ cs @ [0]"
      using sprintf_sink.doprintf_room [OF assms buf_ok_start] by blast
    have "pf_buffer st' = cs @ [0, 0] @ drop (length cs + 2) buffer"
      using buf_ok_buffer [OF st'(2)] st'(3) by (simp add: buf_out_start text_in_def)
    then show ?thesis using st'(1) by (simp add: vsprintf_def)
  qed
  show "vprintf buffer (Some fmt) args = Some (int (length cs) + 1, cs @ [0])"
    if "length buffer = 1024 \<and> length cs \<le> 1022"
  proof -
    let ?st = "\<lparr>pf_buffer = buffer, pf_pos = 0, pf_avail = PRINTF_BUFSIZ\<rparr>"
    have "length cs < min (unat (pf_avail ?st)) (buf_room ?st)" using that by (simp add: buf_room_def PRINTF_BUFSIZ_def)
    then obtain st' where st': "doprintf (Some fmt) args printf_putc ?st = Some (int (length cs) + 1, st')"
        "buf_ok buffer st'" "buf_out st' = buf_out ?st @ cs @ [0]"
      using printf_sink.doprintf_room [OF assms buf_ok_start] by blast
    have "pf_buffer st' = cs @ [0] @ 0 # drop (length cs + 2) buffer"
      using buf_ok_buffer [OF st'(2)] st'(3) by (simp add: buf_out_start text_in_def)
    moreover have "nat (int (length cs) + 1) = length cs + 1" by simp
    ultimately show ?thesis using st'(1) by (simp add: vprintf_def)
  qed
  show "vprintf buffer None args = Some (- EINVAL, [])" by (simp add: vprintf_def)
  assume h: "unat bufsz = length buffer \<and> buffer \<noteq> [] \<and> length buffer \<le> length cs + 1"
  let ?st = "\<lparr>pf_buffer = buffer, pf_pos = 0, pf_avail = bufsz\<rparr>" and ?t = "take (length buffer) (cs @ [0])"
  have len: "length ?t = length buffer" using h by (simp del: take_append)
  have "bufsz = of_nat (length ?t)" unfolding len using h of_nat_unat_id [of bufsz] by simp
  moreover have "length ?t < 4294967296" using h len unat32_bound [of bufsz] by simp
  ultimately have "putchars snprintf_putc ?t 0 ?st = None"
    using h len by (intro snprintf_fill) auto
  then have "putchars snprintf_putc (?t @ drop (length buffer) (cs @ [0])) 0 ?st = None"
    by (simp only: putchars_append) simp
  then show "vsnprintf buffer bufsz (Some fmt) args = None"
    by (simp add: vsnprintf_def doprintf_eq [OF assms] del: take_append drop_append)
qed

theorem printf_family_text_witness:
  "vsnprintf [1, 1, 1, 1] 2 (Some [65, 66, 67, 0]) [] = Some (4, [65, 66, 0, 1]) \<and>
   vsnprintf [1, 1] 2 (Some [65, 66, 67, 0]) [] = None"
proof -
  have "format_chars [65, 66, 67, 0] [] = Some [65, 66, 67]"
    by (simp add: format_chars.simps next_char_def)
  from printf_family_text [OF this, of "[1, 1, 1, 1]" 2] printf_family_text [OF this, of "[1, 1]" 2]
  show ?thesis by (simp add: Let_def)
qed

subsection \<open>The syntax of formats\<close>

text \<open>
  A format as a sequence of literal characters and conversion specifications, each with its flags,
  width and precision (digits or a star), length modifier and specifier.
\<close>

datatype param = Absent | Digits "u8 list" | Star

record spec =
  sp_flags :: "u8 list"
  sp_width :: param
  sp_prec :: "param option"
  sp_len :: len_mod
  sp_conv :: u8

datatype segment = Lit u8 | Conv spec

primrec param_text :: "param \<Rightarrow> u8 list" where
  "param_text Absent = []"
| "param_text (Digits ds) = ds"
| "param_text Star = [42]"

definition prec_text :: "param option \<Rightarrow> u8 list" where
  "prec_text p = (case p of None \<Rightarrow> [] | Some p \<Rightarrow> 46 # param_text p)"

definition len_text :: "len_mod \<Rightarrow> u8 list" where
  "len_text l = (case l of L_DEFAULT \<Rightarrow> [] | L_HH \<Rightarrow> [104, 104] | L_H \<Rightarrow> [104] | L_L \<Rightarrow> [108] | L_LL \<Rightarrow> [108, 108]
     | L_J \<Rightarrow> [106] | L_Z \<Rightarrow> [122] | L_T \<Rightarrow> [116])"

definition spec_text :: "spec \<Rightarrow> u8 list" where
  "spec_text sp = sp_flags sp @ param_text (sp_width sp) @ prec_text (sp_prec sp) @ len_text (sp_len sp) @ [sp_conv sp]"

primrec seg_text :: "segment \<Rightarrow> u8 list" where
  "seg_text (Lit c) = [c]"
| "seg_text (Conv sp) = 37 # spec_text sp"

definition dec_value :: "int \<Rightarrow> u8 list \<Rightarrow> int" where
  "dec_value n ds = foldl (\<lambda>n c. n * 10 + (cchar c - 48)) n ds"

definition digits_ok :: "u8 list \<Rightarrow> bool" where
  "digits_ok ds \<longleftrightarrow> (\<forall>c \<in> set ds. isdigit (cchar c)) \<and> dec_value 0 ds \<le> 2147483647"

definition conv_chars :: "u8 list" where "conv_chars = [37, 99, 115, 100, 105, 111, 88, 120, 117]"

definition spec_ok :: "spec \<Rightarrow> bool" where
  "spec_ok sp \<longleftrightarrow> set (sp_flags sp) \<subseteq> set [45, 43, 32, 35, 48] \<and> sp_conv sp \<in> set conv_chars \<and>
     (case sp_width sp of Digits ds \<Rightarrow> digits_ok ds \<and> ds \<noteq> [] \<and> hd ds \<noteq> 48 | _ \<Rightarrow> True) \<and>
     (case sp_prec sp of Some (Digits ds) \<Rightarrow> digits_ok ds | _ \<Rightarrow> True)"

primrec seg_ok :: "segment \<Rightarrow> bool" where
  "seg_ok (Lit c) \<longleftrightarrow> c \<noteq> 0 \<and> c \<noteq> 37"
| "seg_ok (Conv sp) \<longleftrightarrow> spec_ok sp"

text \<open>The meaning of a specification.\<close>

definition set_flag :: "flags \<Rightarrow> u8 \<Rightarrow> flags" where
  "set_flag fl c =
    (if c = 45 then fl\<lparr>ljustify := True\<rparr> else if c = 43 then fl\<lparr>signflag := True\<rparr>
     else if c = 32 then fl\<lparr>signpad := True\<rparr> else if c = 35 then fl\<lparr>altflag := True\<rparr>
     else fl\<lparr>zeropad := True\<rparr>)"

definition spec_flags :: "spec \<Rightarrow> flags" where
  "spec_flags sp = fix_flags (foldl set_flag no_flags (sp_flags sp))"

definition width_value :: "param \<Rightarrow> flags \<Rightarrow> va list \<Rightarrow> (int \<times> flags \<times> va list) option" where
  "width_value w fl args = (case w of
      Absent \<Rightarrow> Some (0, fl, args)
    | Digits ds \<Rightarrow> Some (dec_value 0 ds, fl, args)
    | Star \<Rightarrow> do {
        (v, args) \<leftarrow> va_int args;
        if sint v < 0 then if sint v = - 2147483648 then None else Some (- sint v, fl\<lparr>ljustify := True\<rparr>, args)
        else Some (sint v, fl, args)
      })"

definition prec_value :: "param option \<Rightarrow> va list \<Rightarrow> (int \<times> bool \<times> va list) option" where
  "prec_value p args = (case p of
      None \<Rightarrow> Some (1, True, args)
    | Some Absent \<Rightarrow> Some (0, False, args)
    | Some (Digits ds) \<Rightarrow> Some (dec_value 0 ds, False, args)
    | Some Star \<Rightarrow> do {
        (v, args) \<leftarrow> va_int args;
        Some (if sint v < 0 then (1, True, args) else (sint v, False, args))
      })"

definition spec_chars :: "spec \<Rightarrow> va list \<Rightarrow> (u8 list \<times> va list) option" where
  "spec_chars sp args = do {
     (width, fl, args) \<leftarrow> width_value (sp_width sp) (spec_flags sp) args;
     (prec, default_prec, args) \<leftarrow> prec_value (sp_prec sp) args;
     convert fl width prec default_prec (sp_len sp) (sp_conv sp) [] args
   }"

fun segments_chars :: "segment list \<Rightarrow> va list \<Rightarrow> u8 list option" where
  "segments_chars [] args = Some []"
| "segments_chars (Lit c # ss) args = map_option ((#) c) (segments_chars ss args)"
| "segments_chars (Conv sp # ss) args = do {
     (cs, args) \<leftarrow> spec_chars sp args;
     map_option ((@) cs) (segments_chars ss args)
   }"

subsection \<open>Parsing a specification\<close>

lemma parse_flags_text:
  "set fs \<subseteq> set [45, 43, 32, 35, 48] \<Longrightarrow> x \<notin> set [45, 43, 32, 35, 48, 0] \<Longrightarrow>
     parse_flags (fs @ x # fmt) c fl = Some (x, foldl set_flag fl fs, fmt)"
  by (induction fs arbitrary: c fl) (auto simp: set_flag_def)

lemma dec_value_mono:
  "\<forall>c \<in> set ds. isdigit (cchar c) \<Longrightarrow> 0 \<le> n \<Longrightarrow> n \<le> dec_value n ds"
proof (induction ds arbitrary: n)
  case (Cons c ds)
  then have "0 \<le> n * 10 + (cchar c - 48)" "n \<le> n * 10 + (cchar c - 48)" by (auto simp: isdigit_def)
  with Cons.IH [of "n * 10 + (cchar c - 48)"] Cons.prems(1) show ?case by (simp add: dec_value_def)
qed (simp add: dec_value_def)

lemma parse_digits_text:
  "c # fmt = ds @ y # r \<Longrightarrow> \<forall>c \<in> set ds. isdigit (cchar c) \<Longrightarrow> \<not> isdigit (cchar y) \<Longrightarrow> 0 \<le> n \<Longrightarrow>
    dec_value n ds \<le> 2147483647 \<Longrightarrow> parse_digits_loop c fmt n = Some (dec_value n ds, y, r)"
proof (induction ds arbitrary: c fmt n)
  case Nil
  then show ?case by (cases fmt) (auto simp: dec_value_def)
next
  case (Cons d ds)
  then have d: "c = d" "isdigit (cchar d)" and fmt: "fmt = ds @ y # r" by auto
  from fmt obtain x fmt' where x: "fmt = x # fmt'" by (metis append_is_Nil_conv list.distinct(1) neq_Nil_conv)
  let ?n = "n * 10 + (cchar d - 48)"
  have v: "dec_value n (d # ds) = dec_value ?n ds" by (simp add: dec_value_def)
  have n: "0 \<le> ?n" "n * 10 \<le> ?n" using d Cons.prems(4) by (auto simp: isdigit_def)
  have "?n \<le> 2147483647" using dec_value_mono [of ds ?n] Cons.prems n v by auto
  then have ci: "c_int (n * 10) = Some (n * 10)" "c_int ?n = Some ?n"
    using n Cons.prems(4) by (auto simp: c_int_def)
  have "parse_digits_loop x fmt' ?n = Some (dec_value ?n ds, y, r)"
    using Cons.prems n v x fmt by (intro Cons.IH) auto
  then show ?case unfolding v using d ci x by (simp add: isdigit_def)
qed

lemma parse_width_text:
  assumes "c # fmt = param_text w @ y # r" "\<not> isdigit (cchar y)" "y \<noteq> 42"
    and "case w of Digits ds \<Rightarrow> digits_ok ds | _ \<Rightarrow> True"
  shows "parse_width c fmt fl args = do { (width, fl, args) \<leftarrow> width_value w fl args; Some (width, fl, y, r, args) }"
proof (cases w)
  case Absent
  with assms parse_digits_text [of c fmt "[]" y r 0] show ?thesis
    by (simp add: parse_width_def width_value_def dec_value_def)
next
  case (Digits ds)
  with assms parse_digits_text [of c fmt ds y r 0] show ?thesis
    by (simp add: parse_width_def width_value_def digits_ok_def)
next
  case Star
  have ci: "c_int (- sint v) = (if sint v = - 2147483648 then None else Some (- sint v))" if "sint v < 0" for v :: u32
  proof -
    have "- 2147483648 \<le> sint v" using sint_ge [of v] by simp
    with that show ?thesis unfolding c_int_def by (cases "sint v = - 2147483648") auto
  qed
  have "parse_digits_loop c fmt 0 = Some (0, 42, y # r)"
    using Star assms parse_digits_text [of c fmt "[]" 42 "y # r" 0]
    by (simp add: dec_value_def isdigit_def cchar_def)
  then show ?thesis using Star ci
    by (auto simp: parse_width_def width_value_def next_char_def Let_def split: bind_splits)
qed

lemma parse_prec_text:
  assumes "c # fmt = prec_text p @ y # r" "\<not> isdigit (cchar y)" "y \<noteq> 42" "y \<noteq> 46"
    and "case p of Some (Digits ds) \<Rightarrow> digits_ok ds | _ \<Rightarrow> True"
  shows "parse_prec c fmt args = do { (prec, dp, args) \<leftarrow> prec_value p args; Some (prec, dp, y, r, args) }"
proof (cases p)
  case None
  with assms show ?thesis by (simp add: parse_prec_def prec_value_def prec_text_def)
next
  case (Some q)
  then have c: "c = 46" "fmt = param_text q @ y # r" using assms(1) by (auto simp: prec_text_def)
  then obtain x fmt' where x: "fmt = x # fmt'" by (metis append_is_Nil_conv list.distinct(1) neq_Nil_conv)
  show ?thesis
  proof (cases q)
    case Absent
    with Some assms c x parse_digits_text [of x fmt' "[]" y r 0] show ?thesis
      by (simp add: parse_prec_def prec_value_def next_char_def dec_value_def)
  next
    case (Digits ds)
    then have "parse_digits_loop x fmt' 0 = Some (dec_value 0 ds, y, r)"
      using Some assms c(2) x by (intro parse_digits_text) (auto simp: digits_ok_def)
    moreover have "next_char fmt = Some (x, fmt')" using x by (simp add: next_char_def)
    ultimately show ?thesis using Some Digits assms(3) c(1) by (simp add: parse_prec_def prec_value_def)
  next
    case Star
    then have "parse_digits_loop x fmt' 0 = Some (0, 42, y # r)"
      using c x parse_digits_text [of x fmt' "[]" 42 "y # r" 0] by (simp add: dec_value_def isdigit_def cchar_def)
    with Some Star c x show ?thesis
      by (auto simp: parse_prec_def prec_value_def next_char_def Let_def split: bind_splits)
  qed
qed

lemma parse_length_text:
  assumes "c # fmt = len_text l @ y # r" "y \<notin> set [104, 108, 106, 122, 116]"
  shows "parse_length c fmt L_DEFAULT = Some (l, y, r)"
proof -
  have "\<not> fst (snd (length_step y k))" "length_step y k = (False, False, k)" for k using assms(2) by (auto simp: length_step_def)
  then have stop: "parse_length y r k = Some (k, y, r)" for k by (cases r) auto
  show ?thesis
    using assms(1) stop by (cases l) (auto simp: len_text_def length_step_def)
qed

lemma convert_spec: "c \<in> set conv_chars \<Longrightarrow> convert fl w p dp l c spec args = convert fl w p dp l c [] args"
  by (auto simp: convert_def conv_chars_def)

text \<open>The characters that can follow: none of them is taken for a part of what stands before.\<close>

lemma next_part_distinct:
  assumes "spec_ok sp"
  shows "hd (len_text (sp_len sp) @ [sp_conv sp]) \<notin> set [45, 43, 32, 35, 48, 0, 42, 46]"
    "\<not> isdigit (cchar (hd (len_text (sp_len sp) @ [sp_conv sp])))"
    "hd (prec_text (sp_prec sp) @ len_text (sp_len sp) @ [sp_conv sp]) \<notin> set [45, 43, 32, 35, 48, 0, 42]"
    "\<not> isdigit (cchar (hd (prec_text (sp_prec sp) @ len_text (sp_len sp) @ [sp_conv sp])))"
    "hd (param_text (sp_width sp) @ prec_text (sp_prec sp) @ len_text (sp_len sp) @ [sp_conv sp]) \<notin> set [45, 43, 32, 35, 48, 0]"
proof -
  have "sp_conv sp \<in> set conv_chars" using assms by (simp add: spec_ok_def)
  then show 1: "hd (len_text (sp_len sp) @ [sp_conv sp]) \<notin> set [45, 43, 32, 35, 48, 0, 42, 46]"
    "\<not> isdigit (cchar (hd (len_text (sp_len sp) @ [sp_conv sp])))"
    by (auto simp: conv_chars_def len_text_def isdigit_def cchar_def split: len_mod.splits)
  show 2: "hd (prec_text (sp_prec sp) @ len_text (sp_len sp) @ [sp_conv sp]) \<notin> set [45, 43, 32, 35, 48, 0, 42]"
    "\<not> isdigit (cchar (hd (prec_text (sp_prec sp) @ len_text (sp_len sp) @ [sp_conv sp])))"
    using 1 by (auto simp: prec_text_def isdigit_def cchar_def split: option.splits)
  show "hd (param_text (sp_width sp) @ prec_text (sp_prec sp) @ len_text (sp_len sp) @ [sp_conv sp]) \<notin> set [45, 43, 32, 35, 48, 0]"
  proof (cases "sp_width sp")
    case (Digits ds)
    then have "ds \<noteq> []" "hd ds \<noteq> 48" "isdigit (cchar (hd ds))" using assms by (auto simp: spec_ok_def digits_ok_def)
    with Digits show ?thesis by (auto simp: isdigit_def cchar_def)
  qed (use 2 in auto)
qed

lemma directive_text:
  assumes "spec_ok sp"
  shows "directive (spec_text sp @ rest) args = do { (cs, args) \<leftarrow> spec_chars sp args; Some (cs, rest, args) }"
proof -
  let ?l = "len_text (sp_len sp) @ [sp_conv sp]"
  let ?p = "prec_text (sp_prec sp) @ ?l"
  let ?w = "param_text (sp_width sp) @ ?p"
  note part = next_part_distinct [OF assms]
  obtain xl rl where l: "?l @ rest = xl # rl" "xl = hd ?l" by (cases ?l) auto
  obtain xp rp where p: "?p @ rest = xp # rp" "xp = hd ?p" by (cases ?p) auto
  obtain xw rw where w: "?w @ rest = xw # rw" "xw = hd ?w" by (cases ?w) auto
  have 1: "parse_flags (spec_text sp @ rest) 37 no_flags = Some (xw, foldl set_flag no_flags (sp_flags sp), rw)"
    using parse_flags_text [of "sp_flags sp" xw rw 37 no_flags] assms part(5) w by (simp add: spec_text_def spec_ok_def)
  have 2: "parse_width xw rw fl args = do { (width, fl, args) \<leftarrow> width_value (sp_width sp) fl args; Some (width, fl, xp, rp, args) }"
    for fl args
    using w p part(3,4) assms by (intro parse_width_text) (auto simp: spec_ok_def split: param.splits)
  have 3: "parse_prec xp rp args = do { (prec, dp, args) \<leftarrow> prec_value (sp_prec sp) args; Some (prec, dp, xl, rl, args) }" for args
    using p l part(1,2) assms by (intro parse_prec_text) (auto simp: spec_ok_def)
  have c: "sp_conv sp \<in> set conv_chars" using assms by (simp add: spec_ok_def)
  then have 4: "parse_length xl rl L_DEFAULT = Some (sp_len sp, sp_conv sp, rest)"
    using l by (intro parse_length_text) (auto simp: conv_chars_def)
  have 5: "convert fl w p dp k (sp_conv sp) (spec_text sp) args = convert fl w p dp k (sp_conv sp) [] args" for fl w p dp k args
    by (rule convert_spec [OF c])
  show ?thesis
    unfolding directive_def 1 spec_chars_def spec_flags_def
    by (auto simp: 2 3 4 5 Let_def split: bind_splits)
qed

lemma format_chars_segments:
  "\<forall>s \<in> set ss. seg_ok s \<Longrightarrow> format_chars (concat (map seg_text ss) @ 0 # rest) args = segments_chars ss args"
proof (induction ss arbitrary: args)
  case Nil
  then show ?case by (subst format_chars.simps) (simp add: next_char_def)
next
  case (Cons s ss)
  show ?case
  proof (cases s)
    case (Lit c)
    with Cons show ?thesis
      by (subst format_chars.simps) (auto simp: next_char_def map_option_bind split: bind_splits)
  next
    case (Conv sp)
    let ?rest = "concat (map seg_text ss) @ 0 # rest"
    have "directive (spec_text sp @ ?rest) args = do { (cs, args) \<leftarrow> spec_chars sp args; Some (cs, ?rest, args) }"
      using Cons.prems Conv by (intro directive_text) simp
    with Cons Conv show ?thesis
      by (subst format_chars.simps) (auto simp: next_char_def map_option_case split: bind_splits option.splits)
  qed
qed

end
