(* ===== verification/Printf_Props.thy ===== *)
theory Printf_Props
  imports Printf Strtoull
begin

text \<open>
  What the conversions of \<^verbatim>\<open>src/libc/printf.c\<close> print: the text of a format is the one
  of its parts, the layout of numbers and strings, and that the number parser of
  \<^verbatim>\<open>src/libc/string.c\<close> reads back what was printed.
\<close>


definition ex_spec :: spec where
  "ex_spec = \<lparr>sp_flags = [45, 35], sp_width = Star, sp_prec = Some (Digits [52]), sp_len = L_H, sp_conv = 120\<rparr>"




subsection \<open>Reading back what was printed\<close>

text \<open>A format given as a string literal.\<close>

definition fmt :: "string \<Rightarrow> u8 list" where
  "fmt s = map of_char s @ [0]"

lemma number_chars_plain:
  assumes "radix \<in> {8, 10, 16}"
  shows "number_chars fl 0 1 True radix False signd negative num = Some (sign_chars fl signd negative @ num_prefix fl radix False num @
    replicate (base_zeros fl 1 radix False num) 48 @ num_digits radix False num)"
proof -
  have "8 \<le> radix" "radix \<le> 36" using assms by auto
  then show ?thesis using number_chars_eq [of radix 1 fl 0 True False signd negative num] by (simp add: Let_def)
qed

definition plain_digits :: "u64 \<Rightarrow> u64 \<Rightarrow> u8 list" where
  "plain_digits radix n = (if n = 0 then [48] else num_digits radix False n)"

lemma plain_digits_ok:
  assumes "radix \<in> {8, 10, 16}"
  shows "plain_digits radix n \<noteq> []" "\<forall>c \<in> set (plain_digits radix n). is_digit_in (uint radix) c"
    "digits_value (uint radix) 0 (plain_digits radix n) = n" "length (plain_digits radix n) \<le> 22"
    "n \<noteq> 0 \<Longrightarrow> hd (plain_digits radix n) \<noteq> 48"
    "replicate (base_zeros no_flags 1 radix False n) 48 @ num_digits radix False n = plain_digits radix n"
proof -
  have r: "8 \<le> radix" "radix \<le> 36" using assms by auto
  note ok = num2str_ok [OF r, where capital = False and num = n]
  have "is_digit_in (uint radix) 48" using assms by (auto simp: is_digit_in_def isalnum_def isdigit_def cchar_def digit_of_def)
  with ok show "plain_digits radix n \<noteq> []" "\<forall>c \<in> set (plain_digits radix n). is_digit_in (uint radix) c"
    "digits_value (uint radix) 0 (plain_digits radix n) = n" "length (plain_digits radix n) \<le> 22"
    "n \<noteq> 0 \<Longrightarrow> hd (plain_digits radix n) \<noteq> 48"
    by (auto simp: plain_digits_def digits_value_def digit_of_def isdigit_def cchar_def)
  show "replicate (base_zeros no_flags 1 radix False n) 48 @ num_digits radix False n = plain_digits radix n"
    using ok(5) by (cases "num_digits radix False n") (auto simp: plain_digits_def base_zeros_def no_flags_def)
qed

text \<open>The texts of \<open>%llu\<close>, \<open>%lld\<close>, \<open>%#llx\<close> and \<open>%#llo\<close>.\<close>

lemma format_ll:
  "format_chars (fmt ''%llu'') [VLong n] = Some (plain_digits 10 n)" (is ?u)
  "format_chars (fmt ''%lld'') [VLong n] = Some ((if sint n < 0 then [45] else []) @ plain_digits 10 (of_int \<bar>sint n\<bar>))" (is ?d)
  "format_chars (fmt ''%#llx'') [VLong n] = Some ((if n = 0 then [] else [48, 120]) @ plain_digits 16 n)" (is ?x)
  "format_chars (fmt ''%#llo'') [VLong n] = Some (48 # num_digits 8 False n)" (is ?o)
proof -
  let ?s = "\<lambda>fs c. [Conv \<lparr>sp_flags = fs, sp_width = Absent, sp_prec = None, sp_len = L_LL, sp_conv = c\<rparr>]"
  have texts: "fmt ''%llu'' = concat (map seg_text (?s [] 117)) @ 0 # []" "fmt ''%lld'' = concat (map seg_text (?s [] 100)) @ 0 # []"
    "fmt ''%#llx'' = concat (map seg_text (?s [35] 120)) @ 0 # []" "fmt ''%#llo'' = concat (map seg_text (?s [35] 111)) @ 0 # []"
    by (simp_all add: fmt_def spec_text_def prec_text_def len_text_def)
  have ok: "\<forall>s \<in> set (?s fs c). seg_ok s" if "fs \<in> {[], [35]}" "c \<in> {117, 100, 120, 111}" for fs c
    using that by (auto simp: spec_ok_def conv_chars_def)
  have fc: "format_chars (concat (map seg_text (?s fs c)) @ 0 # []) args = segments_chars (?s fs c) args"
    if "fs \<in> {[], [35]}" "c \<in> {117, 100, 120, 111}" for fs c args
    using format_chars_segments [OF ok [OF that]] .
  let ?alt = "no_flags\<lparr>altflag := True\<rparr>"
  have fl: "fix_flags no_flags = no_flags" "fix_flags (set_flag no_flags 35) = ?alt"
    "sign_chars no_flags signd neg = (if signd \<and> neg then [45] else [])" "sign_chars ?alt False False = []"
    "num_prefix no_flags 10 False m = []" "num_prefix ?alt 8 False m = []" "num_prefix ?alt 16 False m = (if m = 0 then [] else [48, 120])"
    "base_zeros ?alt 1 16 False m = base_zeros no_flags 1 16 False m" for signd neg m
    by (simp_all add: fix_flags_def set_flag_def no_flags_def sign_chars_def num_prefix_def base_zeros_def)
  have oct: "base_zeros ?alt 1 8 False n = 1"
    using num2str_ok(5) [of 8 False n] by (cases "num_digits 8 False n") (auto simp: base_zeros_def no_flags_def)
  note simps = spec_chars_def width_value_def prec_value_def spec_flags_def fl oct
    convert_def get_unsigned_def get_signed_def number_chars_plain plain_digits_ok(6)
  show ?u ?d ?x ?o unfolding texts by (subst fc; simp add: simps)+
qed

lemma printed_buffer:
  assumes "format_chars f args = Some t" "length t \<le> 30" "length buffer = 32"
  shows "\<exists>rest. vsnprintf buffer 31 (Some f) args = Some (int (length t) + 1, t @ 0 # rest)"
  using vsnprintf_text [OF assms(1), of 31 buffer] assms(2,3) by (simp add: text_in_def)

lemma nul_no_digit: "\<not> is_digit_in b 0"
  by (simp add: is_digit_in_def isalnum_def isalpha_def isupper_def islower_def isdigit_def cchar_def)

lemma read_plain:
  assumes "sg \<in> {[], [45]}"
  shows "strtoull (sg @ plain_digits 10 n @ 0 # rest) 10 = Some (Inr (n * of_int (sign_of sg), length sg + length (plain_digits 10 n)))"
  using strtoull_digits [of "[]" sg "plain_digits 10 n" 10 10 0 rest] assms plain_digits_ok [of 10 n] nul_no_digit by auto

lemma read_hex:
  assumes "base \<in> {0, 16}"
  shows "strtoull ((if n = 0 then [] else [48, 120]) @ plain_digits 16 n @ 0 # rest) base =
    Some (Inr (n, (if n = 0 then 0 else 2) + length (plain_digits 16 n)))"
proof (cases "n = 0")
  case True
  then show ?thesis using strtoull_octal [of "[]" base rest] assms by (auto simp: plain_digits_def digits_value_def)
next
  case False
  then show ?thesis
    using strtoull_hex [of "[]" "[]" "plain_digits 16 n" 0 base 120 rest] assms plain_digits_ok [of 16 n] nul_no_digit
    by (auto simp: sign_of_def)
qed

text \<open>
  C18: The number parser reads back what was printed. For every 64-bit number, printing it with
  \<open>snprintf\<close> into a buffer and parsing that buffer gives the number again and ends
  at the terminating NUL: decimal, signed and unsigned; hexadecimal with its prefix, with base 16 and with
  base 0; octal with its leading zero, with base 0.
\<close>

theorem printf_strtoull_round_trip:
  assumes "length buffer = 32"
  shows "(\<exists>k buf. vsnprintf buffer 31 (Some (fmt ''%llu'')) [VLong n] = Some (int k + 1, buf) \<and>
      strtoull buf 10 = Some (Inr (n, k))) \<and>
    (\<exists>k buf. vsnprintf buffer 31 (Some (fmt ''%lld'')) [VLong n] = Some (int k + 1, buf) \<and>
      strtoll buf 10 = Some (Inr (sint n, k))) \<and>
    (\<exists>k buf. vsnprintf buffer 31 (Some (fmt ''%#llx'')) [VLong n] = Some (int k + 1, buf) \<and>
      strtoull buf 16 = Some (Inr (n, k)) \<and> strtoull buf 0 = Some (Inr (n, k))) \<and>
    (\<exists>k buf. vsnprintf buffer 31 (Some (fmt ''%#llo'')) [VLong n] = Some (int k + 1, buf) \<and>
      strtoull buf 0 = Some (Inr (n, k)))"
proof (intro conjI)
  have len: "length (plain_digits r m) \<le> 22" if "r \<in> {8, 10, 16}" for r m using plain_digits_ok(4) that by blast
  obtain rest where "vsnprintf buffer 31 (Some (fmt ''%llu'')) [VLong n] =
      Some (int (length (plain_digits 10 n)) + 1, plain_digits 10 n @ 0 # rest)"
    using printed_buffer [OF format_ll(1) _ assms] len [of 10 n] by fastforce
  then show "\<exists>k buf. vsnprintf buffer 31 (Some (fmt ''%llu'')) [VLong n] = Some (int k + 1, buf) \<and>
      strtoull buf 10 = Some (Inr (n, k))"
    using read_plain [of "[]" n rest] by (auto simp: sign_of_def)
  let ?sg = "if sint n < 0 then [45] else []" and ?m = "of_int \<bar>sint n\<bar> :: u64"
  obtain rest where rest: "vsnprintf buffer 31 (Some (fmt ''%lld'')) [VLong n] =
      Some (int (length (?sg @ plain_digits 10 ?m)) + 1, (?sg @ plain_digits 10 ?m) @ 0 # rest)"
    using printed_buffer [OF format_ll(2) _ assms, of n] len [of 10 ?m] by fastforce
  have "?m * of_int (sign_of ?sg) = n" by (simp add: sign_of_def)
  then have "strtoll ((?sg @ plain_digits 10 ?m) @ 0 # rest) 10 = Some (Inr (sint n, length (?sg @ plain_digits 10 ?m)))"
    using read_plain [of ?sg ?m rest] by (simp add: strtoll_def)
  with rest show "\<exists>k buf. vsnprintf buffer 31 (Some (fmt ''%lld'')) [VLong n] = Some (int k + 1, buf) \<and>
      strtoll buf 10 = Some (Inr (sint n, k))" by blast
  let ?px = "if n = 0 then [] else [48, 120]"
  obtain rest where rest: "vsnprintf buffer 31 (Some (fmt ''%#llx'')) [VLong n] =
      Some (int (length (?px @ plain_digits 16 n)) + 1, (?px @ plain_digits 16 n) @ 0 # rest)"
    using printed_buffer [OF format_ll(3) _ assms, of n] len [of 16 n] by fastforce
  have "strtoull ((?px @ plain_digits 16 n) @ 0 # rest) base = Some (Inr (n, length (?px @ plain_digits 16 n)))"
    if "base \<in> {0, 16}" for base
    using read_hex [OF that, of n rest] by simp
  with rest show "\<exists>k buf. vsnprintf buffer 31 (Some (fmt ''%#llx'')) [VLong n] = Some (int k + 1, buf) \<and>
      strtoull buf 16 = Some (Inr (n, k)) \<and> strtoull buf 0 = Some (Inr (n, k))" by blast
  note ok = num2str_ok [of 8, where capital = False and num = n]
  obtain rest where rest: "vsnprintf buffer 31 (Some (fmt ''%#llo'')) [VLong n] =
      Some (int (length (48 # num_digits 8 False n)) + 1, (48 # num_digits 8 False n) @ 0 # rest)"
    using printed_buffer [OF format_ll(4) _ assms, of n] ok(2) by fastforce
  have "strtoull ((48 # num_digits 8 False n) @ 0 # rest) 0 = Some (Inr (n, length (48 # num_digits 8 False n)))"
    using strtoull_octal [of "num_digits 8 False n" 0 rest] ok(3,4) by simp
  with rest show "\<exists>k buf. vsnprintf buffer 31 (Some (fmt ''%#llo'')) [VLong n] = Some (int k + 1, buf) \<and>
      strtoull buf 0 = Some (Inr (n, k))" by blast
qed

theorem printf_strtoull_round_trip_witness:
  "\<exists>k buf. vsnprintf (replicate 32 0) 31 (Some (fmt ''%llu'')) [VLong 1234567890123] = Some (int k + 1, buf) \<and>
     strtoull buf 10 = Some (Inr (1234567890123, k))"
  using printf_strtoull_round_trip [of "replicate 32 0" 1234567890123] by simp

subsection \<open>Incomplete specifications\<close>

text \<open>A specification of which only the specifier is missing, with something after the flags.\<close>

definition incomplete_ok :: "spec \<Rightarrow> bool" where
  "incomplete_ok sp \<longleftrightarrow> spec_ok (sp\<lparr>sp_conv := 37\<rparr>) \<and>
     param_text (sp_width sp) @ prec_text (sp_prec sp) @ len_text (sp_len sp) \<noteq> []"

definition incomplete_text :: "spec \<Rightarrow> u8 list" where
  "incomplete_text sp = 37 # sp_flags sp @ param_text (sp_width sp) @ prec_text (sp_prec sp) @ len_text (sp_len sp)"

lemma directive_incomplete:
  assumes "incomplete_ok sp" "directive (tl (incomplete_text sp) @ [0]) args = Some (cs, fmt', args')"
  shows "fmt' = []"
proof -
  let ?l = "len_text (sp_len sp)" let ?p = "prec_text (sp_prec sp) @ ?l" let ?w = "param_text (sp_width sp) @ ?p"
  let ?sp = "sp\<lparr>sp_conv := 37\<rparr>"
  have ok: "spec_ok ?sp" "?w \<noteq> []" using assms(1) by (auto simp: incomplete_ok_def)
  note part = next_part_distinct [OF ok(1)]
  have zero: "\<not> isdigit (cchar 0)" by (simp add: isdigit_def cchar_def)
  have hx: "hd (t @ [0]) = 0 \<or> hd (t @ [0]) = hd (t @ [37])" for t :: "u8 list" by (cases t) auto
  have hl: "hd (?l @ [0]) \<notin> set [42, 46]" "\<not> isdigit (cchar (hd (?l @ [0])))"
  proof -
    have "hd (?l @ [37]) \<notin> set [45, 43, 32, 35, 48, 0, 42, 46]" "\<not> isdigit (cchar (hd (?l @ [37])))"
      using part(1,2) by simp_all
    with hx [of ?l] zero show "hd (?l @ [0]) \<notin> set [42, 46]" "\<not> isdigit (cchar (hd (?l @ [0])))" by (elim disjE; simp)+
  qed
  have hp: "hd (?p @ [0]) \<noteq> 42" "\<not> isdigit (cchar (hd (?p @ [0])))"
  proof -
    have "hd (?p @ [37]) \<notin> set [45, 43, 32, 35, 48, 0, 42]" "\<not> isdigit (cchar (hd (?p @ [37])))"
      using part(3,4) by simp_all
    with hx [of ?p] zero show "hd (?p @ [0]) \<noteq> 42" "\<not> isdigit (cchar (hd (?p @ [0])))" by (elim disjE; simp)+
  qed
  have hw: "hd (?w @ [0]) \<notin> set [45, 43, 32, 35, 48, 0]"
  proof -
    have e: "hd (?w @ x) = hd ?w" for x using ok(2) by (rule hd_append2)
    have "hd (?w @ [37]) \<notin> set [45, 43, 32, 35, 48, 0]" using part(5) by simp
    then show ?thesis unfolding e .
  qed
  obtain xl rl where l: "?l @ [0] = xl # rl" "xl = hd (?l @ [0])" by (cases "?l @ [0]") auto
  obtain xp rp where p: "?p @ [0] = xp # rp" "xp = hd (?p @ [0])" by (cases "?p @ [0]") auto
  obtain xw rw where w: "?w @ [0] = xw # rw" "xw = hd (?w @ [0])" by (cases "?w @ [0]") auto
  have 1: "parse_flags (tl (incomplete_text sp) @ [0]) 37 no_flags = Some (xw, foldl set_flag no_flags (sp_flags sp), rw)"
    using parse_flags_text [of "sp_flags sp" xw rw 37 no_flags] ok(1) hw w by (simp add: incomplete_text_def spec_ok_def)
  have 2: "parse_width xw rw fl args = do { (width, fl, args) \<leftarrow> width_value (sp_width sp) fl args; Some (width, fl, xp, rp, args) }"
    for fl args
    using w p hp ok(1) by (intro parse_width_text) (auto simp: spec_ok_def split: param.splits)
  have 3: "parse_prec xp rp args = do { (prec, dp, args) \<leftarrow> prec_value (sp_prec sp) args; Some (prec, dp, xl, rl, args) }" for args
  proof (rule parse_prec_text)
    show "xp # rp = prec_text (sp_prec sp) @ xl # rl" using p(1) l(1) by simp
    show "\<not> isdigit (cchar xl)" "xl \<noteq> 42" "xl \<noteq> 46" unfolding l(2) using hl by simp_all
    show "case sp_prec sp of Some (Digits ds) \<Rightarrow> digits_ok ds | _ \<Rightarrow> True" using ok(1) by (simp add: spec_ok_def)
  qed
  have 4: "parse_length xl rl L_DEFAULT = Some (sp_len sp, 0, [])"
    using l by (intro parse_length_text) auto
  show ?thesis using assms(2) unfolding directive_def 1
    by (auto simp: 2 3 4 Let_def bind_eq_Some_conv)
qed

definition never_fails :: "('s \<Rightarrow> u8 \<Rightarrow> (int \<times> 's) option) \<Rightarrow> bool" where
  "never_fails putc \<longleftrightarrow> (\<forall>s c r s'. putc s c = Some (r, s') \<longrightarrow> 0 \<le> r)"

lemma never_fails_family: "never_fails sprintf_putc" "never_fails snprintf_putc" "never_fails printf_putc"
  by (auto simp: never_fails_def snprintf_putc_def printf_putc_def sprintf_putc_def bind_eq_Some_conv)

lemma putchars_no_error: "never_fails putc \<Longrightarrow> putchars putc cs n s \<noteq> Some (Inl e)"
  by (induction cs arbitrary: n s) (fastforce simp: never_fails_def bind_eq_Some_conv)+

lemma doprintf_loop_incomplete:
  assumes nf: "never_fails putc" and inc: "incomplete_ok sp"
  shows "\<forall>s \<in> set ss. seg_ok s \<Longrightarrow> doprintf_loop putc (concat (map seg_text ss) @ incomplete_text sp @ [0]) args n s = None"
proof (induction ss arbitrary: args n s)
  case Nil
  have t: "incomplete_text sp @ [0] = 37 # tl (incomplete_text sp) @ [0]" by (simp add: incomplete_text_def)
  have stop: "doprintf_loop putc [] args' n' s' = None" for args' n' s'
    by (subst doprintf_loop.simps) (simp add: next_char_def)
  show ?case unfolding t using putchars_no_error [OF nf]
    by (simp, subst doprintf_loop.simps)
      (auto simp: next_char_def stop split: bind_splits sum.splits dest!: directive_incomplete [OF inc])
next
  case (Cons g ss)
  have ih: "doprintf_loop putc (concat (map seg_text ss) @ incomplete_text sp @ [0]) args' n' s' = None" for args' n' s'
    using Cons.IH Cons.prems by simp
  show ?case
  proof (cases g)
    case (Lit c)
    then show ?thesis using Cons.prems ih putchars_no_error [OF nf]
      by (subst doprintf_loop.simps) (auto simp: next_char_def simp del: putchars.simps split: bind_splits sum.splits)
  next
    case (Conv q)
    let ?rest = "concat (map seg_text ss) @ incomplete_text sp @ [0]"
    have "directive (spec_text q @ ?rest) args = do { (cs, args) \<leftarrow> spec_chars q args; Some (cs, ?rest, args) }"
      using Cons.prems Conv by (intro directive_text) simp
    then show ?thesis using Conv ih putchars_no_error [OF nf]
      by (subst doprintf_loop.simps) (auto simp: next_char_def split: bind_splits sum.splits)
  qed
qed

text \<open>
  A conversion specification that ends with the format is read past its end: when a width, a precision or a length
  modifier is followed by the terminating NUL, the NUL is taken for the conversion specifier, and printing goes
  on with whatever follows the format in memory, whatever stands before it in the format and whatever the
  arguments and the buffer are. (A lone percent sign, or just flags, are printed as they are.)
\<close>

theorem printf_incomplete_overruns:
  assumes "\<forall>s \<in> set ss. seg_ok s" and "incomplete_ok sp"
  shows "let format = Some (concat (map seg_text ss) @ incomplete_text sp @ [0]) in
    vsprintf buffer format args = None \<and> vsnprintf buffer bufsz format args = None \<and> vprintf buffer format args = None"
  using doprintf_loop_incomplete [OF never_fails_family(1) assms(2,1)] doprintf_loop_incomplete [OF never_fails_family(2) assms(2,1)]
    doprintf_loop_incomplete [OF never_fails_family(3) assms(2,1)]
  by (simp add: vsprintf_def vsnprintf_def vprintf_def doprintf_def Let_def)

theorem printf_incomplete_overruns_witness:
  "vsnprintf (replicate 99 0) 80 (Some (fmt ''ab%5'')) [VInt 7] = None \<and>
   vsnprintf (replicate 4 1) 3 (Some (fmt ''%-'')) [] = Some (3, [37, 45, 0, 0])"
proof -
  let ?sp = "\<lparr>sp_flags = [], sp_width = Digits [53], sp_prec = None, sp_len = L_DEFAULT, sp_conv = 0\<rparr>"
  have ok: "\<forall>s \<in> set [Lit 97, Lit 98]. seg_ok s" "incomplete_ok ?sp"
    by (simp_all add: incomplete_ok_def spec_ok_def digits_ok_def dec_value_def isdigit_def cchar_def conv_chars_def)
  have "fmt ''ab%5'' = concat (map seg_text [Lit 97, Lit 98]) @ incomplete_text ?sp @ [0]"
    by (simp add: fmt_def incomplete_text_def prec_text_def len_text_def)
  moreover have "vsnprintf (replicate 4 1) 3 (Some (fmt ''%-'')) [] = Some (3, [37, 45, 0, 0])"
    by code_simp
  ultimately show ?thesis using printf_incomplete_overruns [OF ok, of "replicate 99 0" "[VInt 7]" 80] by (simp add: Let_def)
qed

end
