(* ===== verification/Console.thy ===== *)
theory Console
  imports Printf
begin

text \<open>
  The kernel console, \<^verbatim>\<open>src/kernel/console.c\<close>: the list of registered consoles, the
  kernel log, and printing to both. A console is identified by a number, for the address of its
  \<open>struct console\<close>; the list is threaded through \<open>next\<close>. What the
  consoles' own functions do is outside of this component: the calls of \<open>setup\<close> and
  \<open>write\<close> are recorded in \<open>k_calls\<close>, in order, and the bytes sent to port E9 in
  \<open>k_e9\<close>. A walk along a list of consoles that never ends has no result.
\<close>

definition KPRINT_MAX :: u32 where "KPRINT_MAX = 1024"
definition KERNEL_LOG_SIZE :: nat where "KERNEL_LOG_SIZE = 8192"

datatype cons_call = Setup nat | Write nat "u8 list"

record console_state =
  k_consoles :: "nat option"
  k_next :: "nat \<Rightarrow> nat option"
  k_has_setup :: "nat \<Rightarrow> bool"
  k_has_write :: "nat \<Rightarrow> bool"
  k_log :: "u8 list"
  k_log_start :: nat
  k_log_size :: nat
  k_calls :: "cons_call list"
  k_e9 :: "u8 list"

definition has_console :: "console_state \<Rightarrow> bool" where
  "has_console st \<longleftrightarrow> k_consoles st \<noteq> None"

definition cons_write :: "nat \<Rightarrow> u8 list \<Rightarrow> console_state \<Rightarrow> console_state" where
  "cons_write cons buf st = (if k_has_write st cons then st\<lparr>k_calls := k_calls st @ [Write cons buf]\<rparr> else st)"

subsection \<open>Registering\<close>

text \<open>The walk to the last console; \<open>None\<close> inside of \<open>Some\<close> means that \<open>cons\<close> is on the list.\<close>

partial_function (option) last_console :: "(nat \<Rightarrow> nat option) \<Rightarrow> nat \<Rightarrow> nat \<Rightarrow> nat option option" where
  "last_console next cons currcons = (case next currcons of
      None \<Rightarrow> Some (Some currcons)
    | Some n \<Rightarrow> if n = cons then Some None else last_console next cons n)"

definition link_console :: "nat \<Rightarrow> console_state \<Rightarrow> (bool \<times> console_state) option" where
  "link_console cons st = (case k_consoles st of
      None \<Rightarrow> Some (True, st\<lparr>k_consoles := Some cons, k_next := (k_next st)(cons := None)\<rparr>)
    | Some currcons \<Rightarrow>
        if cons = currcons then Some (False, st)
        else do {
          r \<leftarrow> last_console (k_next st) cons currcons;
          case r of None \<Rightarrow> Some (False, st)
          | Some currcons \<Rightarrow> Some (True, st\<lparr>k_next := (k_next st)(currcons := Some cons, cons := None)\<rparr>)
        })"

definition slice :: "nat \<Rightarrow> nat \<Rightarrow> u8 list \<Rightarrow> u8 list" where
  "slice i n xs = take n (drop i xs)"

definition register_console :: "nat \<Rightarrow> console_state \<Rightarrow> console_state option" where
  "register_console cons st = do {
     (fresh, st) \<leftarrow> link_console cons st;
     if \<not> fresh then Some st
     else do {
       let st = (if k_has_setup st cons then st\<lparr>k_calls := k_calls st @ [Setup cons]\<rparr> else st);
       Some (if k_log_size st < KERNEL_LOG_SIZE then cons_write cons (slice (k_log_start st) (k_log_size st) (k_log st)) st
         else cons_write cons (slice 0 (k_log_start st) (k_log st))
           (cons_write cons (slice (k_log_start st) (KERNEL_LOG_SIZE - k_log_start st) (k_log st)) st))
     }
   }"

text \<open>The walk of \<open>unregister_console\<close>: the console whose \<open>next\<close> is \<open>cons\<close>, if any.\<close>

partial_function (option) prev_console :: "(nat \<Rightarrow> nat option) \<Rightarrow> nat \<Rightarrow> nat \<Rightarrow> nat option option" where
  "prev_console next cons currcons = (case next currcons of
      None \<Rightarrow> Some None
    | Some n \<Rightarrow> if n = cons then Some (Some currcons) else prev_console next cons n)"

definition unregister_console :: "nat \<Rightarrow> console_state \<Rightarrow> console_state option" where
  "unregister_console cons st = do {
     currcons \<leftarrow> k_consoles st;
     if currcons = cons then Some (st\<lparr>k_consoles := k_next st cons, k_next := (k_next st)(cons := None)\<rparr>)
     else do {
       r \<leftarrow> prev_console (k_next st) cons currcons;
       Some (case r of None \<Rightarrow> st
         | Some prevcons \<Rightarrow> st\<lparr>k_next := (k_next st)(prevcons := k_next st cons)\<rparr>)
     }
   }"

subsection \<open>Writing\<close>

text \<open>One character to port E9 and to the log.\<close>

definition log_char :: "u8 \<Rightarrow> console_state \<Rightarrow> console_state option" where
  "log_char c st = do {
     log \<leftarrow> arr_set (k_log st) ((k_log_start st + k_log_size st) mod KERNEL_LOG_SIZE) c;
     let st = st\<lparr>k_e9 := k_e9 st @ [c], k_log := log\<rparr>;
     Some (if k_log_size st < KERNEL_LOG_SIZE then st\<lparr>k_log_size := k_log_size st + 1\<rparr>
       else st\<lparr>k_log_start := (k_log_start st + 1) mod KERNEL_LOG_SIZE\<rparr>)
   }"

text \<open>
  The inner loop, with the characters left in the buffer and the number of characters left to be written;
  its result is the line, with its line feed, and whether it has one.
\<close>

fun log_line :: "u8 list \<Rightarrow> nat \<Rightarrow> console_state \<Rightarrow> (u8 list \<times> bool \<times> console_state) option" where
  "log_line p 0 st = Some ([], False, st)"
| "log_line [] (Suc n) st = None"
| "log_line (c # p) (Suc n) st =
    (if c = 0 then Some ([], False, st)
     else do {
       st \<leftarrow> log_char c st;
       if c = 10 then Some ([c], True, st)
       else do { (line, linefeed, st) \<leftarrow> log_line p n st; Some (c # line, linefeed, st) }
     })"

partial_function (option) write_all :: "u8 list \<Rightarrow> nat option \<Rightarrow> console_state \<Rightarrow> console_state option" where
  "write_all line cons st = (case cons of
      None \<Rightarrow> Some st
    | Some c \<Rightarrow> write_all line (k_next st c) (cons_write c line st))"

text \<open>The outer loop; \<open>k\<close> is \<open>p - buf\<close>.\<close>

partial_function (option) write_lines :: "u8 list \<Rightarrow> nat \<Rightarrow> nat \<Rightarrow> console_state \<Rightarrow> (nat \<times> console_state) option" where
  "write_lines p n k st =
    (if n = 0 then Some (k, st)
     else do {
       (c, _) \<leftarrow> next_char p;
       if c = 0 then Some (k, st)
       else do {
         (line, _, st) \<leftarrow> log_line p n st;
         st \<leftarrow> write_all line (k_consoles st) st;
         write_lines (drop (length line) p) (n - length line) (k + length line) st
       }
     })"

text \<open>\<open>vt\<close> is the default console, the one of the virtual terminals.\<close>

definition console_write :: "nat \<Rightarrow> u8 list \<Rightarrow> u32 \<Rightarrow> console_state \<Rightarrow> (int \<times> console_state) option" where
  "console_write vt buf count st = do {
     st \<leftarrow> (if \<not> has_console st then register_console vt st else Some st);
     let count = (if count > KPRINT_MAX then KPRINT_MAX else count);
     (k, st) \<leftarrow> write_lines buf (unat count) 0 st;
     Some (int k, st)
   }"

definition kprint :: "nat \<Rightarrow> u8 list \<Rightarrow> va list \<Rightarrow> console_state \<Rightarrow> (int \<times> console_state) option" where
  "kprint vt fmt args st = do {
     let buf = replicate (unat KPRINT_MAX + 1) 0;
     (count, buf) \<leftarrow> vsnprintf buf KPRINT_MAX (Some fmt) args;
     console_write vt buf (of_int count) st
   }"

declare last_console.simps [code] prev_console.simps [code] write_all.simps [code] write_lines.simps [code]

subsection \<open>The list of consoles\<close>

primrec clist :: "(nat \<Rightarrow> nat option) \<Rightarrow> nat option \<Rightarrow> nat list \<Rightarrow> bool" where
  "clist nxt p [] \<longleftrightarrow> p = None"
| "clist nxt p (x # xs) \<longleftrightarrow> p = Some x \<and> clist nxt (nxt x) xs"

lemma clist_upd [simp]: "c \<notin> set xs \<Longrightarrow> clist (nxt(c := v)) p xs = clist nxt p xs"
  by (induction xs arbitrary: p) auto

lemma clist_snoc:
  "clist nxt p (xs @ [x]) \<Longrightarrow> distinct (xs @ [x]) \<Longrightarrow> c \<notin> set (xs @ [x]) \<Longrightarrow> clist (nxt(x := Some c, c := None)) p (xs @ [x, c])"
  by (induction xs arbitrary: p) auto

lemma last_console_eq:
  "clist nxt (nxt x) xs \<Longrightarrow> distinct (x # xs) \<Longrightarrow>
    last_console nxt c x = Some (if c \<in> set xs then None else Some (last (x # xs)))"
proof (induction xs arbitrary: x)
  case Nil
  then show ?case by (subst last_console.simps) simp
next
  case (Cons y xs)
  then show ?case by (subst last_console.simps) auto
qed

lemma prev_console_eq:
  "clist nxt (nxt x) xs \<Longrightarrow> distinct (x # xs) \<Longrightarrow> c \<notin> set xs \<Longrightarrow> prev_console nxt c x = Some None"
  "clist nxt (nxt x) (as @ c # bs) \<Longrightarrow> distinct (x # as @ c # bs) \<Longrightarrow> prev_console nxt c x = Some (Some (last (x # as)))"
proof (induction xs arbitrary: x)
  case Nil
  { case 1 then show ?case by (subst prev_console.simps) simp }
  case 2
  then show ?case
  proof (induction as arbitrary: x)
    case Nil
    then show ?case by (subst prev_console.simps) simp
  next
    case (Cons a as)
    then show ?case by (subst prev_console.simps) auto
  qed
next
  case (Cons y xs)
  { case 1 with Cons(1) show ?case by (subst prev_console.simps) auto }
  case 2
  with Cons(2) show ?case .
qed

definition consoles :: "console_state \<Rightarrow> nat list \<Rightarrow> bool" where
  "consoles st xs \<longleftrightarrow> distinct xs \<and> clist (k_next st) (k_consoles st) xs"

lemma link_console_ok:
  assumes "consoles st xs"
  shows "c \<in> set xs \<Longrightarrow> link_console c st = Some (False, st)"
    and "c \<notin> set xs \<Longrightarrow> \<exists>nxt p. link_console c st = Some (True, st\<lparr>k_consoles := p, k_next := nxt\<rparr>) \<and>
      consoles (st\<lparr>k_consoles := p, k_next := nxt\<rparr>) (xs @ [c])"
proof -
  show "link_console c st = Some (False, st)" if "c \<in> set xs"
    using assms that last_console_eq [of "k_next st" "hd xs" "tl xs" c]
    by (cases xs) (auto simp: link_console_def consoles_def)
  show "\<exists>nxt p. link_console c st = Some (True, st\<lparr>k_consoles := p, k_next := nxt\<rparr>) \<and>
      consoles (st\<lparr>k_consoles := p, k_next := nxt\<rparr>) (xs @ [c])" if c: "c \<notin> set xs"
  proof (cases xs rule: rev_cases)
    case Nil
    with assms show ?thesis by (auto simp: link_console_def consoles_def)
  next
    case (snoc ys y)
    obtain x zs where x: "xs = x # zs" using snoc by (metis append_is_Nil_conv list.distinct(1) neq_Nil_conv)
    have y: "last (x # zs) = y" using snoc x by (metis last_snoc)
    have "link_console c st = Some (True, st\<lparr>k_next := (k_next st)(y := Some c, c := None)\<rparr>)"
      using assms c last_console_eq [of "k_next st" x zs c] y by (auto simp: link_console_def consoles_def x)
    moreover have "clist ((k_next st)(y := Some c, c := None)) (k_consoles st) (ys @ [y, c])"
      using assms c snoc by (intro clist_snoc) (auto simp: consoles_def)
    ultimately show ?thesis
      using assms c snoc by (intro exI [of _ "(k_next st)(y := Some c, c := None)"] exI [of _ "k_consoles st"]) (auto simp: consoles_def)
  qed
qed

subsection \<open>The log\<close>

definition log_ok :: "console_state \<Rightarrow> bool" where
  "log_ok st \<longleftrightarrow> length (k_log st) = KERNEL_LOG_SIZE \<and> k_log_size st \<le> KERNEL_LOG_SIZE \<and> k_log_start st < KERNEL_LOG_SIZE \<and>
     (k_log_size st < KERNEL_LOG_SIZE \<longrightarrow> k_log_start st = 0)"

text \<open>The characters of the log, from the oldest to the newest.\<close>

definition log_text :: "console_state \<Rightarrow> u8 list" where
  "log_text st = (if k_log_size st < KERNEL_LOG_SIZE then take (k_log_size st) (k_log st)
     else drop (k_log_start st) (k_log st) @ take (k_log_start st) (k_log st))"

definition last_n :: "nat \<Rightarrow> 'a list \<Rightarrow> 'a list" where
  "last_n n xs = drop (length xs - n) xs"

lemma last_n_append: "last_n n (last_n n xs @ ys) = last_n n (xs @ ys)"
  by (cases "length xs \<le> n") (auto simp: last_n_def add.commute)

lemma length_log_text: "log_ok st \<Longrightarrow> length (log_text st) = k_log_size st"
  by (auto simp: log_ok_def log_text_def)

lemma last_n_log [simp]: "log_ok st \<Longrightarrow> last_n KERNEL_LOG_SIZE (log_text st) = log_text st"
  using length_log_text [of st] by (simp add: last_n_def log_ok_def)

definition with_log :: "u8 list \<Rightarrow> nat \<Rightarrow> nat \<Rightarrow> u8 list \<Rightarrow> console_state \<Rightarrow> console_state" where
  "with_log l a z e st = st\<lparr>k_log := l, k_log_start := a, k_log_size := z, k_e9 := e\<rparr>"

lemma with_log_simps [simp]:
  "k_consoles (with_log l a z e st) = k_consoles st" "k_next (with_log l a z e st) = k_next st"
  "k_has_setup (with_log l a z e st) = k_has_setup st" "k_has_write (with_log l a z e st) = k_has_write st"
  "k_calls (with_log l a z e st) = k_calls st" "k_e9 (with_log l a z e st) = e"
  "consoles (with_log l a z e st) xs = consoles st xs" "with_log l a z e (with_log l' a' z' e' st) = with_log l a z e st"
  by (simp_all add: with_log_def consoles_def)

text \<open>What logging some characters does: they go to port E9 and to the end of the log, which keeps the newest ones.\<close>

definition logged :: "u8 list \<Rightarrow> console_state \<Rightarrow> console_state \<Rightarrow> bool" where
  "logged cs st st' \<longleftrightarrow> log_ok st' \<and> log_text st' = last_n KERNEL_LOG_SIZE (log_text st @ cs) \<and>
     (\<exists>l a z. st' = with_log l a z (k_e9 st @ cs) st)"

lemma logged_Nil [simp]: "log_ok st \<Longrightarrow> logged [] st st"
proof -
  assume "log_ok st"
  moreover have "st = with_log (k_log st) (k_log_start st) (k_log_size st) (k_e9 st) st" by (simp add: with_log_def)
  ultimately show ?thesis unfolding logged_def by auto
qed

lemma logged_trans: "logged cs st st' \<Longrightarrow> logged ds st' st'' \<Longrightarrow> logged (cs @ ds) st st''"
  unfolding logged_def by (elim conjE exE) (simp add: last_n_append, blast)

lemma log_char_ok:
  assumes "log_ok st"
  shows "\<exists>st'. log_char c st = Some st' \<and> logged [c] st st'"
proof (cases "k_log_size st < KERNEL_LOG_SIZE")
  case True
  let ?l = "(k_log st)[k_log_size st := c]"
  have s: "k_log_start st = 0" "length (k_log st) = KERNEL_LOG_SIZE" using True assms by (auto simp: log_ok_def)
  let ?st = "with_log ?l 0 (k_log_size st + 1) (k_e9 st @ [c]) st"
  have "log_char c st = Some ?st" using True s by (simp add: log_char_def with_log_def)
  moreover have "log_ok ?st" using True s by (auto simp: log_ok_def with_log_def KERNEL_LOG_SIZE_def)
  moreover have "log_text ?st = log_text st @ [c]"
  proof (cases "k_log_size st + 1 < KERNEL_LOG_SIZE")
    case True
    then show ?thesis using s by (simp add: log_text_def with_log_def take_Suc_conv_app_nth)
  next
    case False
    then have "?l = take (k_log_size st) (k_log st) @ [c]" using True s by (simp add: upd_conv_take_nth_drop)
    then show ?thesis using False True s by (simp add: log_text_def with_log_def)
  qed
  moreover have "length (log_text st @ [c]) \<le> KERNEL_LOG_SIZE" using True length_log_text [OF assms] by simp
  ultimately show ?thesis unfolding logged_def by (auto simp: last_n_def)
next
  case False
  let ?h = "k_log_start st"
  let ?l = "(k_log st)[?h := c]" and ?h' = "(?h + 1) mod KERNEL_LOG_SIZE"
  have s: "k_log_size st = KERNEL_LOG_SIZE" "?h < KERNEL_LOG_SIZE" "length (k_log st) = KERNEL_LOG_SIZE"
    using False assms by (auto simp: log_ok_def)
  let ?st = "with_log ?l ?h' (k_log_size st) (k_e9 st @ [c]) st"
  have "log_char c st = Some ?st" using s by (simp add: log_char_def with_log_def)
  moreover have "log_ok ?st" using s by (auto simp: log_ok_def with_log_def KERNEL_LOG_SIZE_def)
  moreover have "log_text ?st = tl (log_text st @ [c])"
  proof (cases "?h + 1 = KERNEL_LOG_SIZE")
    case True
    then have "?h' = 0" by simp
    moreover have "drop ?h (k_log st) = [k_log st ! ?h]" using True s by (simp flip: Cons_nth_drop_Suc)
    moreover have "?l = take ?h (k_log st) @ [c]" using True s by (simp add: upd_conv_take_nth_drop)
    ultimately show ?thesis using s by (simp add: log_text_def with_log_def)
  next
    case False
    then have "?h' = ?h + 1" using s(2) by simp
    moreover have "take (?h + 1) ?l = take ?h (k_log st) @ [c]" using s by (simp add: take_Suc_conv_app_nth)
    moreover have "drop ?h (k_log st) = k_log st ! ?h # drop (?h + 1) (k_log st)" using s by (simp add: Cons_nth_drop_Suc)
    ultimately show ?thesis using s by (simp add: log_text_def with_log_def)
  qed
  moreover have "tl (log_text st @ [c]) = last_n KERNEL_LOG_SIZE (log_text st @ [c])"
  proof -
    have "length (log_text st @ [c]) - KERNEL_LOG_SIZE = Suc 0" using length_log_text [OF assms] s(1) by simp
    then show ?thesis unfolding last_n_def by (simp only: drop_Suc drop_0)
  qed
  ultimately show ?thesis unfolding logged_def by auto
qed

subsection \<open>Lines\<close>

fun first_line :: "u8 list \<Rightarrow> u8 list" where
  "first_line [] = []"
| "first_line (c # cs) = c # (if c = 10 then [] else first_line cs)"

lemma first_line_prefix: "\<exists>r. cs = first_line cs @ r"
  by (induction cs) auto

text \<open>The text of a buffer: its first \<open>n\<close> characters, up to the NUL.\<close>

definition buf_text :: "u8 list \<Rightarrow> nat \<Rightarrow> u8 list" where
  "buf_text buf n = takeWhile (\<lambda>c. c \<noteq> 0) (take n buf)"

definition readable :: "u8 list \<Rightarrow> nat \<Rightarrow> bool" where
  "readable buf n \<longleftrightarrow> n \<le> length buf \<or> 0 \<in> set buf"

lemma buf_text_rest:
  "buf_text p n = a @ r \<Longrightarrow> readable p n \<Longrightarrow>
    buf_text (drop (length a) p) (n - length a) = r \<and> readable (drop (length a) p) (n - length a)"
proof (induction a arbitrary: p n)
  case (Cons x a)
  then obtain q m where p: "p = x # q" "x \<noteq> 0" "n = Suc m" "buf_text q m = a @ r"
    by (cases p; cases n) (auto simp: buf_text_def split: if_splits)
  with Cons.prems(2) have "readable q m" by (auto simp: readable_def)
  from Cons.IH [OF p(4) this] p show ?case by simp
qed simp

lemma log_line_ok:
  "log_ok st \<Longrightarrow> readable p n \<Longrightarrow>
    \<exists>st' lf. log_line p n st = Some (first_line (buf_text p n), lf, st') \<and> logged (first_line (buf_text p n)) st st'"
proof (induction p n st rule: log_line.induct)
  case (3 c p n st)
  show ?case
  proof (cases "c = 0")
    case True
    then show ?thesis using 3(2) by (auto simp: buf_text_def)
  next
    case False
    obtain st1 where st1: "log_char c st = Some st1" "logged [c] st st1" using log_char_ok [OF 3(2)] by blast
    show ?thesis
    proof (cases "c = 10")
      case True
      then show ?thesis using st1 by (auto simp: buf_text_def)
    next
      case nl: False
      have "log_ok st1" "readable p n" using st1(2) 3(3) False by (auto simp: logged_def readable_def)
      then obtain st' lf where "log_line p n st1 = Some (first_line (buf_text p n), lf, st')" "logged (first_line (buf_text p n)) st1 st'"
        using 3(1) [OF False st1(1) nl] by blast
      with st1 False nl logged_trans [OF st1(2)] show ?thesis by (fastforce simp: buf_text_def)
    qed
  qed
qed (auto simp: buf_text_def readable_def)

lemma write_all_ok:
  "clist (k_next st) p xs \<Longrightarrow>
    write_all line p st = Some (st\<lparr>k_calls := k_calls st @ map (\<lambda>c. Write c line) (filter (k_has_write st) xs)\<rparr>)"
proof (induction xs arbitrary: p st)
  case Nil
  then show ?case by (subst write_all.simps) simp
next
  case (Cons x xs)
  have "write_all line (k_next st x) (cons_write x line st) = Some ((cons_write x line st)\<lparr>k_calls :=
      k_calls (cons_write x line st) @ map (\<lambda>c. Write c line) (filter (k_has_write (cons_write x line st)) xs)\<rparr>)"
    using Cons.prems by (intro Cons.IH) (auto simp: cons_write_def)
  with Cons.prems show ?case by (subst write_all.simps) (auto simp: cons_write_def)
qed

text \<open>What a console has been given to write.\<close>

definition written :: "nat \<Rightarrow> cons_call list \<Rightarrow> u8 list" where
  "written c calls = concat (map (\<lambda>e. case e of Write d b \<Rightarrow> if d = c then b else [] | Setup _ \<Rightarrow> []) calls)"

lemma written_simps [simp]:
  "written c [] = []" "written c (a @ b) = written c a @ written c b"
  "written c [Write d x] = (if d = c then x else [])" "written c [Setup d] = []"
  by (auto simp: written_def)

lemma written_all: "distinct xs \<Longrightarrow> written c (map (\<lambda>d. Write d b) xs) = (if c \<in> set xs then b else [])"
  by (induction xs) (auto simp: written_def)

text \<open>
  What printing a text does: it is logged, the consoles \<open>xs\<close> that can write have been given it, and
  nothing else has changed.
\<close>

definition printed :: "nat list \<Rightarrow> u8 list \<Rightarrow> console_state \<Rightarrow> console_state \<Rightarrow> bool" where
  "printed xs text st st' \<longleftrightarrow> log_ok st' \<and> log_text st' = last_n KERNEL_LOG_SIZE (log_text st @ text) \<and>
     k_e9 st' = k_e9 st @ text \<and> k_consoles st' = k_consoles st \<and> k_next st' = k_next st \<and>
     k_has_write st' = k_has_write st \<and> k_has_setup st' = k_has_setup st \<and>
     (\<forall>c. written c (k_calls st') = written c (k_calls st) @ (if c \<in> set xs \<and> k_has_write st c then text else []))"

lemma printed_Nil: "log_ok st \<Longrightarrow> printed xs [] st st"
  by (simp add: printed_def)

lemma printed_trans: "printed xs a st st' \<Longrightarrow> printed xs b st' st'' \<Longrightarrow> printed xs (a @ b) st st''"
  by (simp add: printed_def last_n_append)

lemma line_printed:
  assumes "logged line st st1" "consoles st xs"
  shows "\<exists>st2. write_all line (k_consoles st1) st1 = Some st2 \<and> printed xs line st st2"
proof -
  obtain l a z where st1: "st1 = with_log l a z (k_e9 st @ line) st" "log_ok st1" "log_text st1 = last_n KERNEL_LOG_SIZE (log_text st @ line)"
    using assms(1) by (auto simp: logged_def)
  let ?st = "st1\<lparr>k_calls := k_calls st1 @ map (\<lambda>c. Write c line) (filter (k_has_write st1) xs)\<rparr>"
  have "write_all line (k_consoles st1) st1 = Some ?st"
    using assms(2) st1(1) by (intro write_all_ok) (simp add: consoles_def)
  moreover have "log_ok ?st" "log_text ?st = log_text st1" using st1(2) by (simp_all add: log_ok_def log_text_def)
  moreover have "distinct (filter (k_has_write st) xs)" using assms(2) by (simp add: consoles_def)
  ultimately show ?thesis using st1 by (auto simp: printed_def written_all)
qed

lemma first_line_empty [simp]: "first_line cs = [] \<longleftrightarrow> cs = []"
  by (cases cs) auto

lemma write_lines_ok:
  "log_ok st \<Longrightarrow> consoles st xs \<Longrightarrow> readable p n \<Longrightarrow>
    \<exists>st'. write_lines p n k st = Some (k + length (buf_text p n), st') \<and> printed xs (buf_text p n) st st'"
proof (induction n arbitrary: p k st rule: less_induct)
  case (less n)
  show ?case
  proof (cases "buf_text p n = []")
    case True
    then have "n = 0 \<or> (\<exists>q. p = 0 # q)" using less.prems(3)
      by (cases p; cases n) (auto simp: buf_text_def readable_def split: if_splits)
    then show ?thesis using True printed_Nil [OF less.prems(1)] by (subst write_lines.simps) (auto simp: next_char_def)
  next
    case False
    then obtain c q m where p: "p = c # q" "c \<noteq> 0" "n = Suc m"
      by (cases p; cases n) (auto simp: buf_text_def split: if_splits)
    let ?line = "first_line (buf_text p n)"
    obtain st1 lf where st1: "log_line p n st = Some (?line, lf, st1)" "logged ?line st st1"
      using log_line_ok [OF less.prems(1,3)] by blast
    obtain st2 where st2: "write_all ?line (k_consoles st1) st1 = Some st2" "printed xs ?line st st2"
      using line_printed [OF st1(2) less.prems(2)] by blast
    obtain r where r: "buf_text p n = ?line @ r" using first_line_prefix by blast
    let ?p = "drop (length ?line) p" and ?n = "n - length ?line"
    have rest: "buf_text ?p ?n = r" "readable ?p ?n" using buf_text_rest [OF r less.prems(3)] by simp_all
    have lt: "?n < n" using False p(3) by simp
    have "log_ok st2" "consoles st2 xs" using st2(2) less.prems(2) by (auto simp: printed_def consoles_def)
    from less.IH [OF lt this rest(2), of "k + length ?line"]
    obtain st3 where st3: "write_lines ?p ?n (k + length ?line) st2 = Some (k + length ?line + length r, st3)" "printed xs r st2 st3"
      unfolding rest(1) by blast
    have "write_lines p n k st = Some (k + length ?line + length r, st3)"
      using p st1(1) st2(1) st3(1) by (subst write_lines.simps) (simp add: next_char_def)
    moreover have "length (buf_text p n) = length ?line + length r" using arg_cong [OF r, of length] by simp
    moreover have "printed xs (buf_text p n) st st3" using printed_trans [OF st2(2) st3(2)] r by simp
    ultimately show ?thesis by (simp add: add.assoc)
  qed
qed

subsection \<open>Registering replays the log\<close>

lemma log_slices:
  assumes "log_ok st"
  shows "k_log_size st < KERNEL_LOG_SIZE \<Longrightarrow> slice (k_log_start st) (k_log_size st) (k_log st) = log_text st"
    and "\<not> k_log_size st < KERNEL_LOG_SIZE \<Longrightarrow>
      slice (k_log_start st) (KERNEL_LOG_SIZE - k_log_start st) (k_log st) @ slice 0 (k_log_start st) (k_log st) = log_text st"
  using assms by (auto simp: log_ok_def log_text_def slice_def)

lemma register_console_ok:
  assumes "consoles st xs" "log_ok st" "c \<notin> set xs"
  shows "\<exists>st'. register_console c st = Some st' \<and> consoles st' (xs @ [c]) \<and> log_ok st' \<and> log_text st' = log_text st \<and> k_e9 st' = k_e9 st \<and>
    k_has_write st' = k_has_write st \<and>
    (\<forall>d. written d (k_calls st') = written d (k_calls st) @ (if d = c \<and> k_has_write st c then log_text st else []))"
proof -
  obtain nxt p where st1: "link_console c st = Some (True, st\<lparr>k_consoles := p, k_next := nxt\<rparr>)"
      "consoles (st\<lparr>k_consoles := p, k_next := nxt\<rparr>) (xs @ [c])"
    using link_console_ok(2) [OF assms(1,3)] by blast
  let ?st1 = "st\<lparr>k_consoles := p, k_next := nxt\<rparr>"
  define st2 where "st2 = (if k_has_setup ?st1 c then ?st1\<lparr>k_calls := k_calls ?st1 @ [Setup c]\<rparr> else ?st1)"
  have log: "log_ok (s\<lparr>k_calls := x\<rparr>) = log_ok s" "log_text (s\<lparr>k_calls := x\<rparr>) = log_text s" for s x
    by (simp_all add: log_ok_def log_text_def)
  have log1: "log_ok ?st1" "log_text ?st1 = log_text st" using assms(2) by (simp_all add: log_ok_def log_text_def)
  have st2: "log_ok st2" "log_text st2 = log_text st" "consoles st2 (xs @ [c])" "k_e9 st2 = k_e9 st" "k_has_write st2 = k_has_write st"
    "written d (k_calls st2) = written d (k_calls st)" for d
    using log1 st1(2) log by (auto simp: consoles_def st2_def)
  have wr: "log_ok (cons_write c b s) = log_ok s" "log_text (cons_write c b s) = log_text s" "k_e9 (cons_write c b s) = k_e9 s"
    "consoles (cons_write c b s) ys = consoles s ys" "k_has_write (cons_write c b s) = k_has_write s"
    "written d (k_calls (cons_write c b s)) = written d (k_calls s) @ (if d = c \<and> k_has_write s c then b else [])" for b s ys d
    by (auto simp: cons_write_def consoles_def log)
  have "register_console c st = Some (if k_log_size st2 < KERNEL_LOG_SIZE then cons_write c (slice (k_log_start st2) (k_log_size st2) (k_log st2)) st2
      else cons_write c (slice 0 (k_log_start st2) (k_log st2)) (cons_write c (slice (k_log_start st2) (KERNEL_LOG_SIZE - k_log_start st2) (k_log st2)) st2))"
    unfolding register_console_def st1(1) st2_def
    by (simp only: bind.bind_lunit prod.case Let_def not_True_eq_False if_False)
  then show ?thesis
    using st2 log_slices [OF st2(1)] by (cases "k_log_size st2 < KERNEL_LOG_SIZE") (auto simp: wr)
qed

text \<open>
  Registering a console puts it at the end of the list of consoles and has it write the whole kernel
  log, from the oldest character to the newest, also after the log has wrapped around; the other consoles and the
  log are left alone. Registering a console that is on the list does nothing. Unregistering removes just the
  given console, and nothing when it is not on the list.
\<close>

theorem register_console_replays_log:
  assumes "consoles st xs" and "log_ok st"
  shows "(c \<in> set xs \<longrightarrow> register_console c st = Some st) \<and>
    (c \<notin> set xs \<longrightarrow> (\<exists>st'. register_console c st = Some st' \<and> consoles st' (xs @ [c]) \<and>
       log_ok st' \<and> log_text st' = log_text st \<and>
       (\<forall>d. written d (k_calls st') = written d (k_calls st) @ (if d = c \<and> k_has_write st c then log_text st else [])))) \<and>
    (xs \<noteq> [] \<longrightarrow> (\<exists>st'. unregister_console c st = Some st' \<and> consoles st' (remove1 c xs) \<and> k_calls st' = k_calls st))"
proof (intro conjI impI)
  show "register_console c st = Some st" if "c \<in> set xs"
    using link_console_ok(1) [OF assms(1) that] by (simp add: register_console_def)
  show "\<exists>st'. register_console c st = Some st' \<and> consoles st' (xs @ [c]) \<and> log_ok st' \<and> log_text st' = log_text st \<and>
       (\<forall>d. written d (k_calls st') = written d (k_calls st) @ (if d = c \<and> k_has_write st c then log_text st else []))"
    if "c \<notin> set xs"
    using register_console_ok [OF assms that] by blast
  assume "xs \<noteq> []"
  then obtain x zs where x: "xs = x # zs" by (cases xs) auto
  then have h: "k_consoles st = Some x" "clist (k_next st) (k_next st x) zs" "distinct (x # zs)"
    using assms(1) by (auto simp: consoles_def)
  consider "c = x" | "c \<noteq> x" "c \<notin> set zs" | as bs where "c \<noteq> x" "zs = as @ c # bs"
    by (metis in_set_conv_decomp)
  then show "\<exists>st'. unregister_console c st = Some st' \<and> consoles st' (remove1 c xs) \<and> k_calls st' = k_calls st"
  proof cases
    case 1
    then show ?thesis using h x by (simp add: unregister_console_def consoles_def)
  next
    case 2
    then show ?thesis using h x assms(1) prev_console_eq(1) [OF h(2,3) 2(2)]
      by (simp add: unregister_console_def remove1_idem)
  next
    case 3
    let ?p = "last (x # as)"
    have d: "distinct (x # as @ c # bs)" "clist (k_next st) (k_next st x) (as @ c # bs)" using h 3 by auto
    have "clist ((k_next st)(?p := k_next st c)) q ((x # as) @ bs)"
      if "clist (k_next st) q ((x # as) @ c # bs)" for q
      using that d(1)
    proof (induction as arbitrary: q x)
      case (Cons a as)
      then show ?case by auto
    qed auto
    moreover have "clist (k_next st) (Some x) ((x # as) @ c # bs)" using d by simp
    ultimately have "clist ((k_next st)(?p := k_next st c)) (Some x) ((x # as) @ bs)" by blast
    moreover have "remove1 c xs = (x # as) @ bs" using x 3 d(1) by (simp add: remove1_append)
    ultimately show ?thesis
      using h(1) d 3 prev_console_eq(2) [OF d(2,1)] by (simp add: unregister_console_def consoles_def)
  qed
qed

subsection \<open>Printing\<close>

lemma console_write_ok:
  assumes "consoles st xs" and "log_ok st" and "readable buf (min (unat count) 1024)"
  shows "\<exists>st'. let text = buf_text buf (min (unat count) 1024); ys = (if xs = [] then [vt] else xs);
      old = (\<lambda>d. written d (k_calls st) @ (if xs = [] \<and> d = vt \<and> k_has_write st vt then log_text st else [])) in
    console_write vt buf count st = Some (int (length text), st') \<and> consoles st' ys \<and> log_ok st' \<and>
    log_text st' = last_n KERNEL_LOG_SIZE (log_text st @ text) \<and> k_e9 st' = k_e9 st @ text \<and>
    (\<forall>d. written d (k_calls st') = old d @ (if d \<in> set ys \<and> k_has_write st d then text else []))"
proof -
  let ?n = "min (unat count) 1024" and ?ys = "if xs = [] then [vt] else xs"
  let ?old = "\<lambda>d. written d (k_calls st) @ (if xs = [] \<and> d = vt \<and> k_has_write st vt then log_text st else [])"
  have n: "unat (if count > KPRINT_MAX then KPRINT_MAX else count) = ?n"
    by (auto simp: KPRINT_MAX_def word_less_nat_alt min_def)
  have hc: "has_console st \<longleftrightarrow> xs \<noteq> []" using assms(1) by (cases xs) (auto simp: has_console_def consoles_def)
  obtain st1 where st1: "(if \<not> has_console st then register_console vt st else Some st) = Some st1" "consoles st1 ?ys" "log_ok st1"
      "log_text st1 = log_text st" "k_e9 st1 = k_e9 st" "k_has_write st1 = k_has_write st" "\<And>d. written d (k_calls st1) = ?old d"
  proof (cases "xs = []")
    case True
    with assms(1) have "consoles st []" by simp
    from register_console_ok [OF this assms(2), of vt] that True hc show thesis by auto
  next
    case False
    with assms hc that [of st] show thesis by auto
  qed
  obtain st' where "write_lines buf ?n 0 st1 = Some (length (buf_text buf ?n), st')" "printed ?ys (buf_text buf ?n) st1 st'"
    using write_lines_ok [OF st1(3,2) assms(3), of 0] by auto
  then show ?thesis
    using st1 n by (intro exI [of _ st']) (simp add: console_write_def printed_def consoles_def)
qed

text \<open>
  \<open>console_write\<close> prints the text of its buffer, up to a NUL and to 1024 characters: every registered
  console that can write is given exactly this text, line by line and in order, the log then ends with it
  and holds the newest 8192 characters of everything printed, and the number of characters is
  returned. Before any console has been registered, the default console is registered first.
\<close>

theorem console_write_prints:
  assumes "consoles st xs" and "log_ok st" and "readable buf (min (unat count) 1024)"
  shows "\<exists>st'. let text = buf_text buf (min (unat count) 1024); ys = (if xs = [] then [vt] else xs);
      old = (\<lambda>d. written d (k_calls st) @ (if xs = [] \<and> d = vt \<and> k_has_write st vt then log_text st else [])) in
    console_write vt buf count st = Some (int (length text), st') \<and> consoles st' ys \<and> log_ok st' \<and>
    log_text st' = last_n KERNEL_LOG_SIZE (log_text st @ text) \<and> k_e9 st' = k_e9 st @ text \<and>
    (\<forall>d. written d (k_calls st') = old d @ (if d \<in> set ys \<and> k_has_write st d then text else []))"
  using assms by (rule console_write_ok)

definition ex_console :: console_state where
  "ex_console = \<lparr>k_consoles = None, k_next = (\<lambda>_. None), k_has_setup = (\<lambda>_. False), k_has_write = (\<lambda>_. True),
     k_log = replicate KERNEL_LOG_SIZE 0, k_log_start = 0, k_log_size = 0, k_calls = [], k_e9 = []\<rparr>"

lemma ex_console_ok: "consoles ex_console []" "log_ok ex_console" "log_text ex_console = []"
  by (simp_all add: ex_console_def consoles_def log_ok_def log_text_def KERNEL_LOG_SIZE_def)

theorem console_write_prints_witness:
  "\<exists>st'. console_write 7 [65, 10, 66, 0, 67] 5 ex_console = Some (3, st') \<and> written 7 (k_calls st') = [65, 10, 66]"
proof -
  have "readable [65, 10, 66, 0, 67] (min (unat (5 :: u32)) 1024)" by (simp add: readable_def)
  from console_write_prints [OF ex_console_ok(1,2) this, of 7] show ?thesis
    by (auto simp: buf_text_def Let_def ex_console_def log_text_def KERNEL_LOG_SIZE_def)
qed

theorem register_console_replays_log_witness:
  "\<exists>st'. register_console 7 ex_console = Some st' \<and> consoles st' [7]"
  using register_console_replays_log [OF ex_console_ok(1,2), of 7] by auto

lemma kprint_buffer:
  assumes "format_chars fmt args = Some cs" "0 \<notin> set cs" "length cs < 2147483647"
  shows "\<exists>buf. vsnprintf (replicate 1025 0) KPRINT_MAX (Some fmt) args = Some (int (length cs) + 1, buf) \<and>
    unat (of_int (int (length cs) + 1) :: u32) = length cs + 1 \<and>
    readable buf (min (length cs + 1) 1024) \<and> buf_text buf (min (length cs + 1) 1024) = take 1024 cs"
proof -
  define t where "t = take 1024 (cs @ [0])"
  let ?buf = "text_in t (replicate 1025 0)"
  have t: "t \<noteq> []" "length t = min (length cs + 1) 1024" by (auto simp: t_def)
  have "vsnprintf (replicate 1025 0) KPRINT_MAX (Some fmt) args = Some (int (length cs) + 1, ?buf)"
    using vsnprintf_text [OF assms(1), of KPRINT_MAX "replicate 1025 0"] by (simp add: KPRINT_MAX_def t_def)
  moreover have "unat (of_int (int (length cs) + 1) :: u32) = length cs + 1"
  proof -
    have "of_int (int (length cs) + 1) = (of_nat (length cs + 1) :: u32)" by simp
    moreover have "length cs + 1 < 2 ^ LENGTH(32)" using assms(3) by simp
    ultimately show ?thesis by (simp only: unat_of_nat mod_less)
  qed
  moreover have b: "?buf = t @ 0 # drop (length t + 1) (replicate 1025 0)" using t(1) by (simp add: text_in_def)
  have "takeWhile (\<lambda>c. c \<noteq> 0) t = take 1024 cs"
  proof (cases "length cs < 1024")
    case True
    then have "t = cs @ [0]" by (simp add: t_def)
    then show ?thesis using True assms(2) by (auto simp: takeWhile_append takeWhile_eq_all_conv)
  next
    case False
    then have "t = take 1024 cs" by (simp add: t_def)
    then show ?thesis using assms(2) by (auto simp: takeWhile_eq_all_conv dest: in_set_takeD)
  qed
  then have "buf_text ?buf (length t) = take 1024 cs" "readable ?buf (length t)" unfolding b by (simp_all add: buf_text_def readable_def)
  ultimately show ?thesis unfolding t(2) [symmetric] by blast
qed

text \<open>
  C30: \<open>kprint\<close> prints the text of its format to all consoles and to the log, the first 1024
  characters of it, and returns how many these are. It stays inside of its buffer for every format and every
  length of the text: the buffer has the one byte more that \<open>vsnprintf\<close> needs.
\<close>

theorem kprint_prints:
  assumes "consoles st xs" and "xs \<noteq> []" and "log_ok st"
    and "format_chars fmt args = Some cs" and "0 \<notin> set cs" and "length cs < 2147483647"
  shows "\<exists>st'. kprint vt fmt args st = Some (int (min (length cs) 1024), st') \<and> consoles st' xs \<and> log_ok st' \<and>
    log_text st' = last_n KERNEL_LOG_SIZE (log_text st @ take 1024 cs) \<and>
    (\<forall>d. written d (k_calls st') = written d (k_calls st) @ (if d \<in> set xs \<and> k_has_write st d then take 1024 cs else []))"
proof -
  obtain buf where buf: "vsnprintf (replicate 1025 0) KPRINT_MAX (Some fmt) args = Some (int (length cs) + 1, buf)"
      "unat (of_int (int (length cs) + 1) :: u32) = length cs + 1" "readable buf (min (length cs + 1) 1024)"
      "buf_text buf (min (length cs + 1) 1024) = take 1024 cs"
    using kprint_buffer [OF assms(4-6)] by blast
  let ?c = "of_int (int (length cs) + 1) :: u32"
  have "unat KPRINT_MAX + 1 = 1025" by (simp add: KPRINT_MAX_def)
  then have "kprint vt fmt args st = console_write vt buf ?c st" using buf(1) by (simp only: kprint_def Let_def) simp
  moreover have rd: "readable buf (min (unat ?c) 1024)" using buf(2,3) by simp
  have bt: "buf_text buf (min (unat ?c) 1024) = take 1024 cs" using buf(2,4) by simp
  obtain st' where "console_write vt buf ?c st = Some (int (length (take 1024 cs)), st') \<and> consoles st' xs \<and> log_ok st' \<and>
    log_text st' = last_n KERNEL_LOG_SIZE (log_text st @ take 1024 cs) \<and>
    (\<forall>d. written d (k_calls st') = written d (k_calls st) @ (if d \<in> set xs \<and> k_has_write st d then take 1024 cs else []))"
    using console_write_ok [OF assms(1,3) rd, of vt] assms(2) unfolding Let_def bt by auto
  ultimately show ?thesis by auto
qed

theorem kprint_prints_witness:
  "\<exists>st st'. consoles st [7] \<and> kprint 7 [104, 105, 37, 100, 0] [VInt 42] st = Some (4, st') \<and>
     written 7 (k_calls st') = written 7 (k_calls st) @ [104, 105, 52, 50]"
proof -
  obtain st where st: "register_console 7 ex_console = Some st" "consoles st [7]" "log_ok st" "k_has_write st 7"
    using register_console_ok [OF ex_console_ok(1,2), of 7] by (auto simp: ex_console_def)
  have "format_chars [104, 105, 37, 100, 0] [VInt 42] = Some [104, 105, 52, 50]" by code_simp
  from kprint_prints [OF st(2) _ st(3) this, of 7] obtain st' where
    "kprint 7 [104, 105, 37, 100, 0] [VInt 42] st = Some (4, st')"
    "\<forall>d. written d (k_calls st') = written d (k_calls st) @ (if d = 7 \<and> k_has_write st d then [104, 105, 52, 50] else [])"
    by auto
  then show ?thesis using st by (intro exI [of _ st] exI [of _ st']) simp
qed

end
