(* ===== verification/Io.thy ===== *)
theory Io
  imports Pool
begin

text \<open>
  Reservations of I/O ports, \<^verbatim>\<open>src/kernel/io.c\<close>. The descriptors of the reserved ranges come from
  a pool and are linked into a list. A descriptor is identified by its address; the contents of
  the descriptors are kept as a map from addresses to records (the zeroing of a fresh item by
  \<open>pool_alloc\<close> does not matter here, all fields are set). The sums of a 16-bit base and an 8-bit count are
  computed as \<open>int\<close> in the source and do not wrap around.
\<close>

definition MAX_NR_IO_RANGES :: u32 where "MAX_NR_IO_RANGES = 32"
definition sizeof_io_range :: u32 where "sizeof_io_range = 16"

datatype io_node = IoHead | IoLink u32

record io_range =
  r_name :: "u8 list"
  r_base :: u16
  r_count :: u8

record io_state =
  io_pools :: pool_state
  io_ranges_pool :: pool_t
  io_links :: "io_node links"
  io_ranges :: "u32 \<Rightarrow> io_range"

text \<open>The item size and the capacity are given in the order of the call.\<close>

definition init_io :: "u32 \<Rightarrow> io_state \<Rightarrow> io_state option" where
  "init_io addr st = do {
     (p, s) \<leftarrow> pool_create addr (Some (map of_char ''io_ranges'')) MAX_NR_IO_RANGES sizeof_io_range (io_pools st);
     assert_opt (p \<noteq> None);
     Some (st\<lparr>io_pools := s, io_ranges_pool := p\<rparr>)
   }"

definition check_io_range :: "u16 \<Rightarrow> u8 \<Rightarrow> int" where
  "check_io_range base count = - EBUSY"

text \<open>The loop over the list: \<open>Inl\<close> an error, or the node in front of which the new range belongs.\<close>

partial_function (option) reserve_loop :: "io_state \<Rightarrow> u16 \<Rightarrow> u8 \<Rightarrow> io_node \<Rightarrow> (int + io_node) option" where
  "reserve_loop st base count e = (case e of
      IoHead \<Rightarrow> Some (Inr IoHead)
    | IoLink a \<Rightarrow>
        (let curr = io_ranges st a in
         if uint base < uint (r_base curr) \<and> uint base + uint count \<le> uint (r_base curr) then Some (Inr e)
         else if uint base \<ge> uint (r_base curr) \<and> uint base < uint (r_base curr) + uint (r_count curr) then Some (Inl (- EBUSY))
         else reserve_loop st base count (l_next (io_links st) e)))"

definition reserve_io_range :: "u16 \<Rightarrow> u8 \<Rightarrow> u8 list \<Rightarrow> io_state \<Rightarrow> (int \<times> io_state) option" where
  "reserve_io_range base count name st = do {
     assert_opt (io_ranges_pool st \<noteq> None);
     (a, s) \<leftarrow> pool_alloc (io_ranges_pool st) (io_pools st);
     if a = 0 then Some (- ENOMEM, st\<lparr>io_pools := s\<rparr>)
     else do {
       let st = st\<lparr>io_pools := s, io_ranges := (io_ranges st)(a := \<lparr>r_name = name, r_base = base, r_count = count\<rparr>)\<rparr>;
       if list_empty IoHead (io_links st) then Some (0, st\<lparr>io_links := list_add IoHead (IoLink a) (io_links st)\<rparr>)
       else do {
         r \<leftarrow> reserve_loop st base count (l_next (io_links st) IoHead);
         Some (case r of Inl err \<Rightarrow> (err, st) | Inr n \<Rightarrow> (0, st\<lparr>io_links := list_add n (IoLink a) (io_links st)\<rparr>))
       }
     }
   }"

partial_function (option) release_loop :: "io_state \<Rightarrow> u16 \<Rightarrow> u8 \<Rightarrow> io_node \<Rightarrow> io_state option" where
  "release_loop st base count e = (case e of
      IoHead \<Rightarrow> Some st
    | IoLink a \<Rightarrow>
        if r_base (io_ranges st a) = base \<and> r_count (io_ranges st a) = count
        then Some (st\<lparr>io_links := list_remove e (io_links st)\<rparr>)
        else release_loop st base count (l_next (io_links st) e))"

definition release_io_range :: "u16 \<Rightarrow> u8 \<Rightarrow> io_state \<Rightarrow> io_state option" where
  "release_io_range base count st = release_loop st base count (l_next (io_links st) IoHead)"

declare reserve_loop.simps [code] release_loop.simps [code]

subsection \<open>Representation\<close>

definition r_first :: "io_range \<Rightarrow> int" where "r_first r = uint (r_base r)"
definition r_end :: "io_range \<Rightarrow> int" where "r_end r = uint (r_base r) + uint (r_count r)"

text \<open>The ports of a range, and the order of the list: each range ends before the next one starts.\<close>

definition ports :: "io_range \<Rightarrow> int set" where "ports r = {r_first r..<r_end r}"

definition ordered :: "io_range list \<Rightarrow> bool" where
  "ordered rs \<longleftrightarrow> sorted_wrt (\<lambda>r q. r_end r \<le> r_first q \<and> r_first r \<le> r_first q) rs"

text \<open>
  \<open>io_rep i cb addr st fs as\<close>: the pool of the descriptors has index \<open>i\<close>, first chunk \<open>cb\<close>, items at
  \<open>addr\<close> and the free slots \<open>fs\<close>; \<open>as\<close> are the addresses of the descriptors on the list, which are in use.
\<close>

definition io_rep :: "nat \<Rightarrow> nat \<Rightarrow> u32 \<Rightarrow> io_state \<Rightarrow> nat list \<Rightarrow> u32 list \<Rightarrow> bool" where
  "io_rep i cb addr st fs as \<longleftrightarrow> io_ranges_pool st = Some i \<and> pool_rep i cb addr 32 16 (io_pools st) fs \<and>
     dlist (io_links st) IoHead (map IoLink as) \<and>
     (\<forall>a \<in> set as. \<exists>k < 16. k \<notin> set fs \<and> a = item_addr addr 32 k)"

definition reserved :: "io_state \<Rightarrow> u32 list \<Rightarrow> io_range list" where
  "reserved st as = map (io_ranges st) as"

lemma ordered_disjoint: "ordered rs \<Longrightarrow> i < j \<Longrightarrow> j < length rs \<Longrightarrow> ports (rs ! i) \<inter> ports (rs ! j) = {}"
  using sorted_wrt_nth_less [of "\<lambda>r q. r_end r \<le> r_first q \<and> r_first r \<le> r_first q" rs i j]
  by (auto simp: ordered_def ports_def)

text \<open>Where the loop stops: ranges that end before the new one are passed.\<close>

definition passes :: "u16 \<Rightarrow> u8 \<Rightarrow> io_range \<Rightarrow> bool" where
  "passes base count r \<longleftrightarrow> r_end r \<le> uint base \<and> r_first r \<le> uint base \<or> uint base < r_first r \<and> r_first r < uint base + uint count"

lemma reserve_loop_passes:
  assumes "chain (l_next (io_links st)) n (map IoLink as) e" "\<forall>a \<in> set as. passes base count (io_ranges st a)"
  shows "reserve_loop st base count (l_next (io_links st) n) = reserve_loop st base count e"
  using assms
proof (induction as arbitrary: n)
  case (Cons a as)
  then have n: "l_next (io_links st) n = IoLink a" by simp
  have "reserve_loop st base count (IoLink a) = reserve_loop st base count (l_next (io_links st) (IoLink a))"
    using Cons.prems(2) by (subst reserve_loop.simps) (auto simp: passes_def r_first_def r_end_def Let_def)
  also have "\<dots> = reserve_loop st base count e" using Cons by simp
  finally show ?case using n by simp
qed simp

text \<open>What the loop finds on an ordered list, when no reserved range starts inside of the new one.\<close>

definition straddles :: "u16 \<Rightarrow> u8 \<Rightarrow> io_range \<Rightarrow> bool" where
  "straddles base count r \<longleftrightarrow> uint base < r_first r \<and> r_first r < uint base + uint count"

lemma reserve_loop_ordered:
  assumes d: "dlist (io_links st) IoHead (map IoLink as)" and o: "ordered (reserved st as)"
    and s: "\<forall>r \<in> set (reserved st as). \<not> straddles base count r"
  shows "(\<exists>r \<in> set (reserved st as). uint base \<in> ports r) \<Longrightarrow>
      reserve_loop st base count (l_next (io_links st) IoHead) = Some (Inl (- EBUSY))"
    and "(\<forall>r \<in> set (reserved st as). uint base \<notin> ports r) \<Longrightarrow>
      \<exists>xs ys. as = xs @ ys \<and> (\<forall>a \<in> set xs. r_end (io_ranges st a) \<le> uint base \<and> r_first (io_ranges st a) \<le> uint base) \<and>
        (\<forall>a \<in> set ys. uint base + uint count \<le> r_first (io_ranges st a) \<and> uint base \<le> r_first (io_ranges st a)) \<and>
        reserve_loop st base count (l_next (io_links st) IoHead) = Some (Inr (case ys of [] \<Rightarrow> IoHead | b # _ \<Rightarrow> IoLink b))"
proof -
  have c: "chain (l_next (io_links st)) IoHead (map IoLink as) IoHead" using d by (simp add: dlist_def)
  have stop: "reserve_loop st base count (l_next (io_links st) IoHead) = reserve_loop st base count (IoLink b)"
    if "as = xs @ b # ys" "\<forall>a \<in> set xs. passes base count (io_ranges st a)" for xs b ys
    using that c by (intro reserve_loop_passes) auto
  show "reserve_loop st base count (l_next (io_links st) IoHead) = Some (Inl (- EBUSY))"
    if "\<exists>r \<in> set (reserved st as). uint base \<in> ports r"
  proof -
    from that obtain b where b: "b \<in> set as" "uint base \<in> ports (io_ranges st b)" by (auto simp: reserved_def)
    then obtain xs ys where as: "as = xs @ b # ys" by (metis in_set_conv_decomp)
    have "passes base count (io_ranges st a)" if "a \<in> set xs" for a
    proof -
      have "r_end (io_ranges st a) \<le> r_first (io_ranges st b) \<and> r_first (io_ranges st a) \<le> r_first (io_ranges st b)"
        using o that unfolding as ordered_def reserved_def by (auto simp: sorted_wrt_append)
      then show ?thesis using b(2) by (auto simp: passes_def ports_def)
    qed
    then have "reserve_loop st base count (l_next (io_links st) IoHead) = reserve_loop st base count (IoLink b)"
      using stop [OF as] by blast
    also have "\<dots> = Some (Inl (- EBUSY))"
      using b(2) by (subst reserve_loop.simps) (auto simp: ports_def r_first_def r_end_def Let_def)
    finally show ?thesis .
  qed
  assume f: "\<forall>r \<in> set (reserved st as). uint base \<notin> ports r"
  let ?P = "\<lambda>a. r_first (io_ranges st a) \<le> uint base"
  let ?xs = "takeWhile ?P as" and ?ys = "dropWhile ?P as"
  have as: "as = ?xs @ ?ys" by simp
  have x: "r_end (io_ranges st a) \<le> uint base \<and> r_first (io_ranges st a) \<le> uint base" if "a \<in> set ?xs" for a
    using that f set_takeWhileD [OF that] by (auto simp: reserved_def ports_def)
  have y: "uint base + uint count \<le> r_first (io_ranges st a) \<and> uint base \<le> r_first (io_ranges st a)" if "a \<in> set ?ys" for a
  proof -
    obtain b zs where yz: "?ys = b # zs" using \<open>a \<in> set ?ys\<close> by (cases ?ys) auto
    then have lt: "uint base < r_first (io_ranges st b)" by (metis dropWhile_eq_Cons_conv not_le)
    have "a = b \<or> r_first (io_ranges st b) \<le> r_first (io_ranges st a)"
    proof -
      have "ordered (map (io_ranges st) (?xs @ b # zs))" using o as yz by (simp add: reserved_def)
      then show ?thesis using that yz by (auto simp: ordered_def sorted_wrt_append)
    qed
    then have "uint base < r_first (io_ranges st a)" using lt by auto
    moreover have "\<not> straddles base count (io_ranges st a)" using s set_dropWhileD [OF that] by (simp add: reserved_def)
    ultimately show ?thesis by (auto simp: straddles_def)
  qed
  have px: "\<forall>a \<in> set ?xs. passes base count (io_ranges st a)" using x by (auto simp: passes_def)
  have "reserve_loop st base count (l_next (io_links st) IoHead) = Some (Inr (case ?ys of [] \<Rightarrow> IoHead | b # _ \<Rightarrow> IoLink b))"
  proof (cases ?ys)
    case Nil
    then have "?xs = as" using as by (metis append_Nil2)
    then have "chain (l_next (io_links st)) IoHead (map IoLink ?xs) IoHead" using c by (simp only:)
    from reserve_loop_passes [OF this px] show ?thesis unfolding Nil by (subst (asm) (2) reserve_loop.simps) simp
  next
    case (Cons b zs)
    then have "as = ?xs @ b # zs" using as by simp
    from stop [OF this px] have "reserve_loop st base count (l_next (io_links st) IoHead) = reserve_loop st base count (IoLink b)" .
    also have "\<dots> = Some (Inr (IoLink b))"
    proof -
      have "\<not> r_first (io_ranges st b) \<le> uint base" using Cons by (metis dropWhile_eq_Cons_conv)
      then show ?thesis using y [of b] Cons by (subst reserve_loop.simps) (auto simp: r_first_def Let_def)
    qed
    finally show ?thesis using Cons by simp
  qed
  with as x y show "\<exists>xs ys. as = xs @ ys \<and> (\<forall>a \<in> set xs. r_end (io_ranges st a) \<le> uint base \<and> r_first (io_ranges st a) \<le> uint base) \<and>
        (\<forall>a \<in> set ys. uint base + uint count \<le> r_first (io_ranges st a) \<and> uint base \<le> r_first (io_ranges st a)) \<and>
        reserve_loop st base count (l_next (io_links st) IoHead) = Some (Inr (case ys of [] \<Rightarrow> IoHead | b # _ \<Rightarrow> IoLink b))"
    by blast
qed

subsection \<open>Reserving\<close>

text \<open>The state after a descriptor has been taken from the pool and filled in.\<close>

definition taken :: "nat \<Rightarrow> nat \<Rightarrow> u32 \<Rightarrow> nat \<Rightarrow> io_range \<Rightarrow> io_state \<Rightarrow> io_state" where
  "taken i cb addr k r st = st\<lparr>io_pools := alloc_result i cb addr 32 k (io_pools st),
     io_ranges := (io_ranges st)(item_addr addr 32 k := r)\<rparr>"

lemma reserve_eq:
  assumes "io_rep i cb addr st (k # gs) as"
  shows "reserve_io_range base count name st = (
    let st1 = taken i cb addr k \<lparr>r_name = name, r_base = base, r_count = count\<rparr> st; a = IoLink (item_addr addr 32 k) in
    if as = [] then Some (0, st1\<lparr>io_links := list_add IoHead a (io_links st)\<rparr>)
    else map_option (case_sum (\<lambda>err. (err, st1)) (\<lambda>n. (0, st1\<lparr>io_links := list_add n a (io_links st)\<rparr>)))
      (reserve_loop st1 base count (l_next (io_links st) IoHead)))"
proof -
  have rep: "pool_rep i cb addr 32 16 (io_pools st) (k # gs)" "io_ranges_pool st = Some i"
    "dlist (io_links st) IoHead (map IoLink as)" using assms by (auto simp: io_rep_def)
  then have nz: "item_addr addr 32 k \<noteq> 0"
    using item_addr_nonzero [of addr 32 16 k] by (simp add: pool_rep_def)
  have e: "list_empty IoHead (io_links st) \<longleftrightarrow> as = []" using dlist_empty_iff [OF rep(3)] by simp
  show ?thesis
    unfolding reserve_io_range_def
    by (simp add: rep(2) pool_alloc_eq [OF rep(1)] nz e taken_def Let_def map_option_case split: bind_splits option.splits sum.splits)
qed

lemma taken_fresh:
  assumes "io_rep i cb addr st (k # gs) as"
  shows "item_addr addr 32 k \<notin> set as" "io_rep i cb addr (taken i cb addr k r st) gs as"
    "reserved (taken i cb addr k r st) as = reserved st as" "io_links (taken i cb addr k r st) = io_links st"
    "io_ranges (taken i cb addr k r st) (item_addr addr 32 k) = r"
    "io_rep i cb addr ((taken i cb addr k r st)\<lparr>io_links := h\<rparr>) gs bs \<longleftrightarrow> dlist h IoHead (map IoLink bs) \<and>
      (\<forall>a \<in> set bs. \<exists>l < 16. l \<notin> set gs \<and> a = item_addr addr 32 l)"
    "\<exists>l < 16. l \<notin> set gs \<and> item_addr addr 32 k = item_addr addr 32 l"
proof -
  have rep: "pool_rep i cb addr 32 16 (io_pools st) (k # gs)" and as: "\<forall>a \<in> set as. \<exists>l < 16. l \<notin> set (k # gs) \<and> a = item_addr addr 32 l"
    using assms by (auto simp: io_rep_def)
  have k: "k < 16" "k \<notin> set gs" "region_ok addr 32 16" using rep pool_rep_distinct [OF rep] by (auto simp: pool_rep_def)
  show fresh: "item_addr addr 32 k \<notin> set as"
  proof
    assume "item_addr addr 32 k \<in> set as"
    then obtain l where "l < 16" "l \<noteq> k" "item_addr addr 32 k = item_addr addr 32 l" using as by auto
    then show False using item_addr_inj [OF k(3), of k l] k(1) by simp
  qed
  have rep': "pool_rep i cb addr 32 16 (alloc_result i cb addr 32 k (io_pools st)) gs" by (rule alloc_result_rep [OF rep])
  show "io_rep i cb addr (taken i cb addr k r st) gs as" using assms rep' as by (auto simp: io_rep_def taken_def)
  show "reserved (taken i cb addr k r st) as = reserved st as" using fresh by (auto simp: reserved_def taken_def)
  show "io_links (taken i cb addr k r st) = io_links st" "io_ranges (taken i cb addr k r st) (item_addr addr 32 k) = r"
    by (simp_all add: taken_def)
  show "io_rep i cb addr ((taken i cb addr k r st)\<lparr>io_links := h\<rparr>) gs bs \<longleftrightarrow> dlist h IoHead (map IoLink bs) \<and>
      (\<forall>a \<in> set bs. \<exists>l < 16. l \<notin> set gs \<and> a = item_addr addr 32 l)"
    using assms rep' by (simp add: io_rep_def taken_def)
  show "\<exists>l < 16. l \<notin> set gs \<and> item_addr addr 32 k = item_addr addr 32 l" using k by blast
qed

lemma reserve_insert:
  assumes rep: "io_rep i cb addr st (k # gs) (xs @ ys)"
    and loop: "xs @ ys \<noteq> [] \<Longrightarrow> reserve_loop (taken i cb addr k \<lparr>r_name = name, r_base = base, r_count = count\<rparr> st) base count
      (l_next (io_links st) IoHead) = Some (Inr (case ys of [] \<Rightarrow> IoHead | b # _ \<Rightarrow> IoLink b))"
  shows "\<exists>st'. reserve_io_range base count name st = Some (0, st') \<and> io_rep i cb addr st' gs (xs @ item_addr addr 32 k # ys) \<and>
    reserved st' (xs @ item_addr addr 32 k # ys) = reserved st xs @ \<lparr>r_name = name, r_base = base, r_count = count\<rparr> # reserved st ys"
proof -
  let ?r = "\<lparr>r_name = name, r_base = base, r_count = count\<rparr>" and ?a = "item_addr addr 32 k"
  let ?st = "taken i cb addr k ?r st" and ?n = "case ys of [] \<Rightarrow> IoHead | b # _ \<Rightarrow> IoLink b"
  let ?h = "list_add ?n (IoLink ?a) (io_links st)"
  note tk = taken_fresh [OF rep]
  have d: "dlist (io_links st) IoHead (map IoLink (xs @ ys))" and as: "\<forall>a \<in> set (xs @ ys). \<exists>l < 16. l \<notin> set gs \<and> a = item_addr addr 32 l"
    using rep by (auto simp: io_rep_def)
  have "dlist ?h IoHead (map IoLink (xs @ ?a # ys))"
  proof (cases ys)
    case Nil
    with d tk(1) dlist_add [OF d, of "IoLink ?a"] show ?thesis by auto
  next
    case (Cons b zs)
    with d tk(1) dlist_insert_before [of "io_links st" IoHead "map IoLink xs" "IoLink b" "map IoLink zs" "IoLink ?a"] show ?thesis by auto
  qed
  then have "io_rep i cb addr (?st\<lparr>io_links := ?h\<rparr>) gs (xs @ ?a # ys)" unfolding tk(6) using as tk(7) by auto
  moreover have "reserve_io_range base count name st = Some (0, ?st\<lparr>io_links := ?h\<rparr>)"
    using loop by (cases "xs @ ys = []") (simp_all add: reserve_eq [OF rep] Let_def)
  moreover have "reserved (?st\<lparr>io_links := ?h\<rparr>) (xs @ ?a # ys) = reserved st xs @ ?r # reserved st ys"
    using tk(1) by (auto simp: reserved_def taken_def)
  ultimately show ?thesis by blast
qed

text \<open>
  Reserving a range of ports, on an ordered list of disjoint ranges of which none starts inside of the new one
  behind its first port. When the first port is reserved already, the
  result is \<open>-EBUSY\<close> and the list stays as it was (a descriptor has been taken from the pool and is lost).
  Otherwise the new range is put on the list at its place: the list is ordered again, so that all reserved
  ranges are disjoint. Without a free descriptor the result is \<open>-ENOMEM\<close> and nothing changes.
\<close>

theorem reserve_io_range_ordered:
  assumes "io_rep i cb addr st fs as" and "ordered (reserved st as)"
    and "\<forall>r \<in> set (reserved st as). \<not> straddles base count r"
  shows "(fs = [] \<longrightarrow> reserve_io_range base count name st = Some (- ENOMEM, st)) \<and>
    (\<forall>k gs. fs = k # gs \<longrightarrow>
      (if \<exists>r \<in> set (reserved st as). uint base \<in> ports r
       then \<exists>st'. reserve_io_range base count name st = Some (- EBUSY, st') \<and> io_rep i cb addr st' gs as \<and> reserved st' as = reserved st as
       else \<exists>st' xs ys. as = xs @ ys \<and> reserve_io_range base count name st = Some (0, st') \<and>
         io_rep i cb addr st' gs (xs @ item_addr addr 32 k # ys) \<and>
         reserved st' (xs @ item_addr addr 32 k # ys) = reserved st xs @ \<lparr>r_name = name, r_base = base, r_count = count\<rparr> # reserved st ys \<and>
         ordered (reserved st' (xs @ item_addr addr 32 k # ys))))"
proof (intro conjI impI allI)
  have rep: "pool_rep i cb addr 32 16 (io_pools st) fs" "io_ranges_pool st = Some i" using assms(1) by (auto simp: io_rep_def)
  show "reserve_io_range base count name st = Some (- ENOMEM, st)" if "fs = []"
    using rep that pool_alloc_empty [of i cb addr 32 16 "io_pools st"] by (simp add: reserve_io_range_def)
  fix k gs assume fs: "fs = k # gs"
  let ?r = "\<lparr>r_name = name, r_base = base, r_count = count\<rparr>"
  let ?st = "taken i cb addr k ?r st"
  have ar: "io_rep i cb addr st (k # gs) as" using assms(1) fs by simp
  note tk = taken_fresh [OF ar]
  have st: "dlist (io_links ?st) IoHead (map IoLink as)" "ordered (reserved ?st as)" "\<forall>r \<in> set (reserved ?st as). \<not> straddles base count r"
    using tk(2) assms(2,3) unfolding tk(3) by (simp_all add: io_rep_def)
  note loop = reserve_loop_ordered [OF st, unfolded tk(3,4)]
  show "if \<exists>r \<in> set (reserved st as). uint base \<in> ports r
       then \<exists>st'. reserve_io_range base count name st = Some (- EBUSY, st') \<and> io_rep i cb addr st' gs as \<and> reserved st' as = reserved st as
       else \<exists>st' xs ys. as = xs @ ys \<and> reserve_io_range base count name st = Some (0, st') \<and>
         io_rep i cb addr st' gs (xs @ item_addr addr 32 k # ys) \<and>
         reserved st' (xs @ item_addr addr 32 k # ys) = reserved st xs @ \<lparr>r_name = name, r_base = base, r_count = count\<rparr> # reserved st ys \<and>
         ordered (reserved st' (xs @ item_addr addr 32 k # ys))"
  proof (cases "\<exists>r \<in> set (reserved st as). uint base \<in> ports r")
    case True
    then have "as \<noteq> []" by (auto simp: reserved_def)
    with loop(1) [OF True] have "reserve_io_range base count name st = Some (- EBUSY, ?st)"
      by (simp add: reserve_eq [OF ar] Let_def)
    with True tk show ?thesis by auto
  next
    case False
    then obtain xs ys where xy: "as = xs @ ys" "\<forall>a \<in> set xs. r_end (io_ranges ?st a) \<le> uint base \<and> r_first (io_ranges ?st a) \<le> uint base"
        "\<forall>a \<in> set ys. uint base + uint count \<le> r_first (io_ranges ?st a) \<and> uint base \<le> r_first (io_ranges ?st a)"
        "reserve_loop ?st base count (l_next (io_links st) IoHead) = Some (Inr (case ys of [] \<Rightarrow> IoHead | b # _ \<Rightarrow> IoLink b))"
      using loop(2) by blast
    obtain st' where st': "reserve_io_range base count name st = Some (0, st')" "io_rep i cb addr st' gs (xs @ item_addr addr 32 k # ys)"
        "reserved st' (xs @ item_addr addr 32 k # ys) = reserved st xs @ ?r # reserved st ys"
      using reserve_insert [OF ar [unfolded xy(1)] xy(4)] by blast
    have same: "io_ranges ?st a = io_ranges st a" if "a \<in> set (xs @ ys)" for a using that tk(1) xy(1) by (auto simp: taken_def)
    have "ordered (reserved st xs @ ?r # reserved st ys)"
      using assms(2) xy(2,3) same unfolding xy(1) ordered_def reserved_def
      by (auto simp: sorted_wrt_append r_first_def r_end_def)
    then have "ordered (reserved st' (xs @ item_addr addr 32 k # ys))" unfolding st'(3) .
    then show ?thesis unfolding if_not_P [OF False] using xy(1) st' by blast
  qed
qed

text \<open>The state after \<open>init_io\<close>: with the arguments of \<open>pool_create\<close> in this order, there is room for 16 ranges.\<close>

definition io_state0 :: io_state where
  "io_state0 = \<lparr>io_pools = init_pool (pool_state0 (\<lambda>_. 0)), io_ranges_pool = None,
     io_links = list_init IoHead \<lparr>l_prev = (\<lambda>_. IoHead), l_next = (\<lambda>_. IoHead)\<rparr>,
     io_ranges = (\<lambda>_. \<lparr>r_name = [], r_base = 0, r_count = 0\<rparr>)\<rparr>"

lemma init_io_rep: "\<exists>st. init_io 0x1000 io_state0 = Some st \<and> io_rep 0 0 0x1000 st [0..<16] []"
proof -
  let ?s = "init_pool (pool_state0 (\<lambda>_. 0))"
  have "region_ok 0x1000 32 (unat (16 :: u32))" "first_free 0 (unat (16 :: u32)) ?s"
    "0 \<in> bits (ps_pool_mask ?s)" "\<forall>j \<in> bits (ps_pool_mask ?s). 0 \<le> j"
    by (auto simp: init_pool_tables first_free_def region_ok_def pool_consts)
  from pool_create_rep [OF init_pool_tables(1) this]
  obtain s where s: "pool_create 0x1000 (Some (map of_char ''io_ranges'')) 32 16 ?s = Some (Some 0, s)"
      "pool_rep 0 0 0x1000 32 (unat (16 :: u32)) s [0..<unat (16 :: u32)]"
    by blast
  let ?st = "io_state0\<lparr>io_pools := s, io_ranges_pool := Some 0\<rparr>"
  have "init_io 0x1000 io_state0 = Some ?st"
    using s(1) unfolding init_io_def MAX_NR_IO_RANGES_def sizeof_io_range_def io_state0_def by simp
  moreover have "io_rep 0 0 0x1000 ?st [0..<16] []"
    using s(2) list_init_dlist [of IoHead] by (simp add: io_rep_def io_state0_def)
  ultimately show ?thesis by blast
qed

lemma io_example:
  "\<exists>st. io_rep 0 0 0x1000 st [1..<16] [0x1000] \<and> io_ranges st 0x1000 = \<lparr>r_name = [], r_base = 0x3F8, r_count = 8\<rparr>"
proof -
  obtain st0 where st0: "io_rep 0 0 0x1000 st0 [0..<16] []" using init_io_rep by blast
  have "[0..<16] = 0 # [1..<16]" by (simp add: upt_rec)
  with st0 have "io_rep 0 0 0x1000 st0 (0 # [1..<16]) ([] @ [])" by simp
  from reserve_insert [OF this, where name = "[]" and base = "0x3F8" and count = 8]
  show ?thesis by (auto simp: reserved_def item_addr_def)
qed

theorem reserve_io_range_ordered_witness:
  "\<exists>st st' st''. init_io 0x1000 io_state0 = Some st \<and> reserve_io_range 0x3F8 8 [] st = Some (0, st') \<and>
     io_rep 0 0 0x1000 st' [1..<16] [0x1000] \<and> reserve_io_range 0x3FA 4 [] st' = Some (- EBUSY, st'')"
proof -
  obtain st where st: "init_io 0x1000 io_state0 = Some st" "io_rep 0 0 0x1000 st [0..<16] []" using init_io_rep by blast
  have l: "[0..<16] = 0 # [1..<16]" "[1..<16] = 1 # [2..<16]" by (simp_all add: upt_rec)
  have "ordered (reserved st [])" "\<forall>r \<in> set (reserved st []). \<not> straddles 0x3F8 8 r" by (simp_all add: reserved_def ordered_def)
  from reserve_io_range_ordered [OF st(2) this, of "[]"] l(1)
  obtain st' where st': "reserve_io_range 0x3F8 8 [] st = Some (0, st')" "io_rep 0 0 0x1000 st' [1..<16] [item_addr 0x1000 32 0]"
      "reserved st' [item_addr 0x1000 32 0] = [\<lparr>r_name = [], r_base = 0x3F8, r_count = 8\<rparr>]" "ordered (reserved st' [item_addr 0x1000 32 0])"
    by (auto simp: reserved_def)
  then have "\<forall>r \<in> set (reserved st' [item_addr 0x1000 32 0]). \<not> straddles 0x3FA 4 r" by (simp add: straddles_def r_first_def)
  from reserve_io_range_ordered [OF st'(2,4) this, of "[]"] l(2) st'(3)
  have "\<exists>st''. reserve_io_range 0x3FA 4 [] st' = Some (- EBUSY, st'')" by (auto simp: ports_def r_first_def r_end_def)
  with st(1) st'(1,2) show ?thesis by (auto simp: item_addr_def)
qed

text \<open>
  A new range that starts below a reserved one and reaches into it is not refused: when it is the only one on the
  list, the new range is reserved as well, behind the one it overlaps with.
\<close>

theorem reserve_io_range_overlap:
  assumes "io_rep i cb addr st (k # gs) [b]" and "straddles base count (io_ranges st b)" and "r_count (io_ranges st b) \<noteq> 0"
  shows "\<exists>st'. reserve_io_range base count name st = Some (0, st') \<and> io_rep i cb addr st' gs [b, item_addr addr 32 k] \<and>
    ports (io_ranges st' b) \<inter> ports (io_ranges st' (item_addr addr 32 k)) \<noteq> {}"
proof -
  let ?r = "\<lparr>r_name = name, r_base = base, r_count = count\<rparr>"
  let ?st = "taken i cb addr k ?r st"
  note tk = taken_fresh [OF assms(1)]
  have b: "io_ranges ?st b = io_ranges st b" using tk(1) by (auto simp: taken_def)
  have c: "chain (l_next (io_links ?st)) IoHead (map IoLink [b]) IoHead" using assms(1) unfolding tk(4) by (simp add: io_rep_def dlist_def)
  have "\<forall>a \<in> set [b]. passes base count (io_ranges ?st a)" using assms(2) b by (auto simp: passes_def straddles_def)
  from reserve_loop_passes [OF c this]
  have "reserve_loop ?st base count (l_next (io_links st) IoHead) = Some (Inr IoHead)"
    unfolding tk(4) by (subst (asm) (2) reserve_loop.simps) simp
  then have "[b] @ [] \<noteq> [] \<Longrightarrow> reserve_loop ?st base count (l_next (io_links st) IoHead) =
      Some (Inr (case [] of [] \<Rightarrow> IoHead | b # _ \<Rightarrow> IoLink b))" by simp
  moreover have "io_rep i cb addr st (k # gs) ([b] @ [])" using assms(1) by simp
  ultimately obtain st' where "reserve_io_range base count name st = Some (0, st')" "io_rep i cb addr st' gs ([b] @ item_addr addr 32 k # [])"
      "reserved st' ([b] @ item_addr addr 32 k # []) = reserved st [b] @ ?r # reserved st []"
    using reserve_insert by blast
  then have st': "reserve_io_range base count name st = Some (0, st')" "io_rep i cb addr st' gs [b, item_addr addr 32 k]"
      "io_ranges st' b = io_ranges st b" "io_ranges st' (item_addr addr 32 k) = ?r"
    by (simp_all add: reserved_def)
  have "uint (r_count (io_ranges st b)) > 0" using assms(3) uint_0_iff [of "r_count (io_ranges st b)"] uint_ge_0 [of "r_count (io_ranges st b)"] by linarith
  then have "r_first (io_ranges st b) \<in> ports (io_ranges st b) \<inter> ports ?r"
    using assms(2) by (simp add: ports_def straddles_def r_first_def r_end_def)
  then show ?thesis using st' by (intro exI [of _ st']) auto
qed

theorem reserve_io_range_overlap_witness:
  "\<exists>st st'. reserve_io_range 0x3F0 16 [] st = Some (0, st') \<and> io_ranges st 0x1000 = \<lparr>r_name = [], r_base = 0x3F8, r_count = 8\<rparr> \<and>
     ports (io_ranges st' 0x1000) \<inter> ports (io_ranges st' 0x1020) \<noteq> {}"
proof -
  obtain st where st: "io_rep 0 0 0x1000 st [1..<16] [0x1000]" "io_ranges st 0x1000 = \<lparr>r_name = [], r_base = 0x3F8, r_count = 8\<rparr>"
    using io_example by blast
  have l: "[1..<16] = 1 # [2..<16]" by (simp add: upt_rec)
  have "straddles 0x3F0 16 (io_ranges st 0x1000)" "r_count (io_ranges st 0x1000) \<noteq> 0" using st(2) by (simp_all add: straddles_def r_first_def)
  from reserve_io_range_overlap [OF st(1) [unfolded l] this, of "[]"] st(2) show ?thesis by (auto simp: item_addr_def)
qed

text \<open>
  Releasing a range takes the first descriptor with this base and count off the list, and nothing when there is none. The
  descriptor does not go back to the pool: its free slots are the same as before, and an ordered list stays ordered.
\<close>

theorem release_io_range_unlinks:
  assumes "io_rep i cb addr st fs (xs @ ys)" and "\<forall>a \<in> set xs. \<not> (r_base (io_ranges st a) = base \<and> r_count (io_ranges st a) = count)"
  shows "(ys = [] \<longrightarrow> release_io_range base count st = Some st) \<and>
    (\<forall>b zs. ys = b # zs \<and> r_base (io_ranges st b) = base \<and> r_count (io_ranges st b) = count \<longrightarrow>
      (\<exists>st'. release_io_range base count st = Some st' \<and> io_rep i cb addr st' fs (xs @ zs) \<and>
        (ordered (reserved st (xs @ ys)) \<longrightarrow> ordered (reserved st' (xs @ zs)))))"
proof -
  have d: "dlist (io_links st) IoHead (map IoLink xs @ map IoLink ys)" using assms(1) by (simp add: io_rep_def)
  have loop: "release_loop st base count (l_next (io_links st) n) = release_loop st base count e"
    if "chain (l_next (io_links st)) n (map IoLink xs) e" for n e
    using that assms(2)
  proof (induction xs arbitrary: n)
    case (Cons a xs)
    then show ?case by (simp, subst release_loop.simps) auto
  qed simp
  show ?thesis
  proof (intro conjI impI allI)
    assume "ys = []"
    with d have "chain (l_next (io_links st)) IoHead (map IoLink xs) IoHead" by (simp add: dlist_def)
    from loop [OF this] show "release_io_range base count st = Some st"
      unfolding release_io_range_def by (subst (asm) (2) release_loop.simps) simp
  next
    fix b zs assume b: "ys = b # zs \<and> r_base (io_ranges st b) = base \<and> r_count (io_ranges st b) = count"
    let ?st = "st\<lparr>io_links := list_remove (IoLink b) (io_links st)\<rparr>"
    have "chain (l_next (io_links st)) IoHead (map IoLink xs) (IoLink b)" using d b by (simp add: dlist_def)
    from loop [OF this] have "release_io_range base count st = Some ?st"
      using b unfolding release_io_range_def by (subst (asm) (2) release_loop.simps) simp
    moreover have "io_rep i cb addr ?st fs (xs @ zs)"
      using assms(1) b dlist_remove(1) [of "io_links st" IoHead "map IoLink xs" "IoLink b" "map IoLink zs"] by (auto simp: io_rep_def)
    moreover have "ordered (reserved st (xs @ ys)) \<longrightarrow> ordered (reserved ?st (xs @ zs))"
      using b by (auto simp: ordered_def reserved_def sorted_wrt_append)
    ultimately show "\<exists>st'. release_io_range base count st = Some st' \<and> io_rep i cb addr st' fs (xs @ zs) \<and>
        (ordered (reserved st (xs @ ys)) \<longrightarrow> ordered (reserved st' (xs @ zs)))" by blast
  qed
qed

theorem release_io_range_unlinks_witness:
  "\<exists>st st'. io_rep 0 0 0x1000 st [1..<16] [0x1000] \<and> release_io_range 0x3F8 8 st = Some st' \<and> io_rep 0 0 0x1000 st' [1..<16] []"
proof -
  obtain st where st: "io_rep 0 0 0x1000 st [1..<16] [0x1000]" "io_ranges st 0x1000 = \<lparr>r_name = [], r_base = 0x3F8, r_count = 8\<rparr>"
    using io_example by blast
  from release_io_range_unlinks [of 0 0 "0x1000" st "[1..<16]" "[]" "[0x1000]" "0x3F8" 8] st show ?thesis by auto
qed

end
