(* ===== verification/Files.thy ===== *)
theory Files
  imports Pool Printf Serial
begin

text \<open>
  Files and their devices: the device nodes and file structures of \<^verbatim>\<open>src/kernel/fs.c\<close>, the character devices
  of \<^verbatim>\<open>src/kernel/char/char.c\<close>, the tty layer \<^verbatim>\<open>src/kernel/char/tty.c\<close>, the tasks of
  \<^verbatim>\<open>src/kernel/task.c\<close> and the system calls of \<^verbatim>\<open>src/kernel/open.c\<close> and \<^verbatim>\<open>src/kernel/sys.c\<close>.

  Inodes, directory entries and file structures live in items of pools (theory \<open>Pool\<close>) and are identified by their
  address, 0 for NULL; their contents are maps from addresses to records, and a fresh item is a zero record, as
  \<open>pool_alloc\<close> clears it. A freed structure keeps its contents until it is allocated again, as it does in memory. The
  lists of inodes, entries and tty drivers are the sequences that theory \<open>Klist\<close> shows them to be, in the order of an
  iteration: \<open>list_add_tail\<close> puts an item to the front. A pointer to a \<open>struct file_ops\<close> is one of the two
  tables of the source. A tty that a file is connected to has a driver; without one there is no result. Dereferencing NULL or an uninitialised pointer has no result.
\<close>

datatype fops = Chdev_ops | Tty_fops

record inode =
  i_mode :: u32
  i_device :: u32
  i_fops :: "fops option"

record dentry =
  d_name :: "u8 list"
  d_inode :: u32

record kfile =
  f_oflag :: u32
  f_fops :: "fops option"
  f_inode :: u32
  f_private :: "nat option"

record task =
  tk_files :: "u32 list"

text \<open>A registered driver: the numbers it is for, and its functions.\<close>

record 'd kdriver =
  kd_major :: u32
  kd_minor_start :: int
  kd_count :: int
  kd_driver :: "'d tty_driver"
  kd_open :: "(tty \<Rightarrow> 'd \<Rightarrow> (int \<times> 'd) option) option"
  kd_close :: "(tty \<Rightarrow> 'd \<Rightarrow> (int \<times> 'd) option) option"
  kd_ioctl :: "(tty \<Rightarrow> u32 \<Rightarrow> u8 list option \<Rightarrow> 'd \<Rightarrow> (int \<times> u8 list option \<times> tty \<times> 'd) option) option"

text \<open>
  A tty of the table \<open>ttys\<close>: the part the line discipline works on, the connected file, the copy of its driver, and whether
  \<open>ldisc\<close> is set. \<open>ke_rxbuf\<close> is the memory of its receive ring.
\<close>

record 'd ktty =
  ke_tty :: tty
  ke_file :: u32
  ke_driver :: "'d kdriver option"
  ke_ldisc :: bool
  ke_rxbuf :: "u8 list"

record 'd kernel =
  kn_pools :: pool_state
  kn_inode_pool :: pool_t
  kn_dentry_pool :: pool_t
  kn_file_pool :: pool_t
  kn_inodes :: "u32 \<Rightarrow> inode"
  kn_dentries :: "u32 \<Rightarrow> dentry"
  kn_files :: "u32 \<Rightarrow> kfile"
  kn_inode_list :: "u32 list"
  kn_dentry_list :: "u32 list"
  kn_chdevs :: "(u8 list option \<times> fops option) list"
  kn_ttys :: "'d ktty list"
  kn_drivers :: "'d kdriver list"
  kn_dev :: 'd
  kn_tasks :: "task list"
  kn_pid :: int

definition MAX_NR_INODES :: u32 where "MAX_NR_INODES = 64"
definition MAX_NR_DENTRIES :: u32 where "MAX_NR_DENTRIES = 64"
definition MAX_NR_TOTAL_OPEN :: u32 where "MAX_NR_TOTAL_OPEN = 64"
definition MAX_CHDEV :: u16 where "MAX_CHDEV = 8"
definition MAX_OPEN :: int where "MAX_OPEN = 8"
definition MAX_TASK :: int where "MAX_TASK = 64"
definition DENTRY_NAME_LENGTH :: nat where "DENTRY_NAME_LENGTH = 32"
definition MODE_CHRDEV :: u32 where "MODE_CHRDEV = 1"
definition NR_TTY :: nat where "NR_TTY = 12"
definition TTY_MAX :: nat where "TTY_MAX = 7"

definition mkdev :: "u32 \<Rightarrow> u32 \<Rightarrow> u32" where
  "mkdev maj mn = push_bit 16 (mn AND 0xFFFF) OR (maj AND 0xFFFF)"

definition zero_file :: kfile where
  "zero_file = \<lparr>f_oflag = 0, f_fops = None, f_inode = 0, f_private = None\<rparr>"
definition zero_inode :: inode where
  "zero_inode = \<lparr>i_mode = 0, i_device = 0, i_fops = None\<rparr>"
definition zero_dentry :: dentry where
  "zero_dentry = \<lparr>d_name = [], d_inode = 0\<rparr>"

subsection \<open>Tasks\<close>

definition init_tasks :: "'d kernel \<Rightarrow> 'd kernel" where
  "init_tasks k = k\<lparr>kn_pid := 0, kn_tasks := replicate (nat MAX_TASK) \<lparr>tk_files = replicate (nat MAX_OPEN) 0\<rparr>\<rparr>"

definition get_pid :: "'d kernel \<Rightarrow> int" where "get_pid k = kn_pid k"

definition get_task :: "int \<Rightarrow> nat option" where
  "get_task pid = (if pid < 0 \<or> pid \<ge> MAX_TASK then None else Some (nat pid))"

text \<open>The files of the current task; there is no result when there is no such task.\<close>

definition current_files :: "'d kernel \<Rightarrow> u32 list option" where
  "current_files k = do { t \<leftarrow> get_task (get_pid k); t \<leftarrow> arr_get (kn_tasks k) t; Some (tk_files t) }"

definition set_file :: "int \<Rightarrow> u32 \<Rightarrow> 'd kernel \<Rightarrow> 'd kernel option" where
  "set_file fd f k = do {
     t \<leftarrow> get_task (get_pid k);
     task \<leftarrow> arr_get (kn_tasks k) t;
     fs \<leftarrow> arr_set (tk_files task) (nat fd) f;
     Some (k\<lparr>kn_tasks := (kn_tasks k)[t := task\<lparr>tk_files := fs\<rparr>]\<rparr>)
   }"

subsection \<open>File structures and device nodes\<close>

text \<open>\<open>alloc_fd\<close>: the result and the pointer, which is only set on success.\<close>

definition alloc_fd :: "'d kernel \<Rightarrow> (int \<times> u32 option \<times> 'd kernel) option" where
  "alloc_fd k = do {
     (f, s) \<leftarrow> pool_alloc (kn_file_pool k) (kn_pools k);
     let k = k\<lparr>kn_pools := s\<rparr>;
     Some (if f = 0 then (- ENOMEM, None, k) else (0, Some f, k\<lparr>kn_files := (kn_files k)(f := zero_file)\<rparr>))
   }"

definition free_fd :: "u32 \<Rightarrow> 'd kernel \<Rightarrow> 'd kernel option" where
  "free_fd f k = (if f = 0 then Some k
     else do { (_, s) \<leftarrow> pool_free (kn_file_pool k) f (kn_pools k); Some (k\<lparr>kn_pools := s\<rparr>) })"

text \<open>The name of the device node \<open>i\<close>.\<close>

definition tty_name :: "nat \<Rightarrow> u8 list option" where
  "tty_name i = do {
     (_, buf) \<leftarrow> (if i \<le> TTY_MAX
       then vsnprintf (replicate DENTRY_NAME_LENGTH 0) (of_nat DENTRY_NAME_LENGTH) (Some (map of_char ''/dev/tty%d'' @ [0])) [VInt (of_nat i)]
       else vsnprintf (replicate DENTRY_NAME_LENGTH 0) (of_nat DENTRY_NAME_LENGTH) (Some (map of_char ''/dev/ttyS%d'' @ [0]))
         [VInt (of_int (int i - TTYS_MIN + 1))]);
     Some (takeWhile (\<lambda>c. c \<noteq> 0) buf)
   }"

text \<open>The loop of \<open>init_fs\<close>, for the device nodes from \<open>i\<close> on.\<close>

fun make_nodes :: "nat \<Rightarrow> nat \<Rightarrow> 'd kernel \<Rightarrow> 'd kernel option" where
  "make_nodes i 0 k = Some k"
| "make_nodes i (Suc n) k = do {
     name \<leftarrow> tty_name i;
     (d, s) \<leftarrow> pool_alloc (kn_dentry_pool k) (kn_pools k);
     assert_opt (d \<noteq> 0);
     let k = k\<lparr>kn_pools := s, kn_dentries := (kn_dentries k)(d := \<lparr>d_name = take DENTRY_NAME_LENGTH name, d_inode = 0\<rparr>),
       kn_dentry_list := d # kn_dentry_list k\<rparr>;
     if i = 0 then make_nodes (Suc i) n k
     else do {
       (a, s) \<leftarrow> pool_alloc (kn_inode_pool k) (kn_pools k);
       assert_opt (a \<noteq> 0);
       let k = k\<lparr>kn_pools := s,
         kn_inodes := (kn_inodes k)(a := \<lparr>i_mode = MODE_CHRDEV, i_device = mkdev TTY_MAJOR (of_nat i), i_fops = Some Chdev_ops\<rparr>),
         kn_inode_list := a # kn_inode_list k,
         kn_dentries := (kn_dentries k)(d := (kn_dentries k d)\<lparr>d_inode := a\<rparr>)\<rparr>;
       make_nodes (Suc i) n k
     }
   }"

text \<open>
  The addresses of the three arrays are arguments; 20, 44 and 16 are the sizes of the structures. As in the source the sizes
  are passed for the capacities, and all three checks are on the pool of the inodes.
\<close>

definition init_fs :: "u32 \<Rightarrow> u32 \<Rightarrow> u32 \<Rightarrow> 'd kernel \<Rightarrow> 'd kernel option" where
  "init_fs inodes dentries files k = do {
     let k = k\<lparr>kn_inode_list := [], kn_dentry_list := []\<rparr>;
     (p, s) \<leftarrow> pool_create inodes (Some (map of_char ''inodes'')) MAX_NR_INODES 20 (kn_pools k);
     let k = k\<lparr>kn_pools := s, kn_inode_pool := p\<rparr>;
     assert_opt (kn_inode_pool k \<noteq> None);
     (p, s) \<leftarrow> pool_create dentries (Some (map of_char ''dentries'')) MAX_NR_DENTRIES 44 (kn_pools k);
     let k = k\<lparr>kn_pools := s, kn_dentry_pool := p\<rparr>;
     assert_opt (kn_inode_pool k \<noteq> None);
     (p, s) \<leftarrow> pool_create files (Some (map of_char ''files'')) MAX_NR_TOTAL_OPEN 16 (kn_pools k);
     let k = k\<lparr>kn_pools := s, kn_file_pool := p\<rparr>;
     assert_opt (kn_inode_pool k \<noteq> None);
     make_nodes 0 NR_TTY k
   }"

text \<open>The directory entry of a name: both names are compared up to 32 characters.\<close>

definition find_dentry :: "u8 list \<Rightarrow> 'd kernel \<Rightarrow> u32 option" where
  "find_dentry name k = find (\<lambda>d. take DENTRY_NAME_LENGTH name = take DENTRY_NAME_LENGTH (d_name (kn_dentries k d))) (kn_dentry_list k)"

text \<open>The inode (0 for NULL); an entry without an inode is dereferenced all the same.\<close>

definition find_inode :: "u32 \<Rightarrow> u8 list \<Rightarrow> 'd kernel \<Rightarrow> (u32 \<times> 'd kernel) option" where
  "find_inode f name k = (
     let k = k\<lparr>kn_files := (kn_files k)(f := (kn_files k f)\<lparr>f_fops := None\<rparr>)\<rparr>
     in case find_dentry name k of
          None \<Rightarrow> Some (0, k)
        | Some d \<Rightarrow> do {
            let inode = d_inode (kn_dentries k d);
            assert_opt (inode \<noteq> 0);
            Some (inode, k\<lparr>kn_files := (kn_files k)(f := (kn_files k f)\<lparr>f_fops := i_fops (kn_inodes k inode)\<rparr>)\<rparr>)
          })"

subsection \<open>Character devices\<close>

definition register_chdev :: "u16 \<Rightarrow> u8 list option \<Rightarrow> fops option \<Rightarrow> 'd kernel \<Rightarrow> (int \<times> 'd kernel) option" where
  "register_chdev major name fops k =
    (if major = 0 \<or> major \<ge> MAX_CHDEV \<or> name = None \<or> fops = None then Some (- EINVAL, k)
     else do {
       (nm, fo) \<leftarrow> arr_get (kn_chdevs k) (unat major);
       if fo \<noteq> None \<and> fo \<noteq> fops then Some (- EBUSY, k)
       else Some (0, k\<lparr>kn_chdevs := (kn_chdevs k)[unat major := (name, fops)]\<rparr>)
     })"

subsection \<open>The tty layer\<close>

definition tty_register_driver :: "'d kdriver option \<Rightarrow> u8 list option \<Rightarrow> 'd kernel \<Rightarrow> (int \<times> 'd kernel) option" where
  "tty_register_driver driver name k = (case driver of
      None \<Rightarrow> Some (- EINVAL, k)
    | Some d \<Rightarrow>
        if drv_write (kd_driver d) = None then Some (- EINVAL, k)
        else do {
          (err, k) \<leftarrow> register_chdev (ucast (kd_major d)) name (Some Tty_fops) k;
          if err < 0 then Some (err, k)
          else Some (0, k\<lparr>kn_drivers := d # kn_drivers k\<rparr>)
        })"

text \<open>\<open>Inl\<close> the error, or the index of the tty.\<close>

definition get_tty :: "u32 \<Rightarrow> int + nat" where
  "get_tty device =
    (if DEV_MAJ device \<noteq> TTY_MAJOR then Inl (- EINVAL)
     else let index = DEV_MIN device in
       if index < 1 \<or> index \<ge> int NR_TTY then Inl (- ENODEV) else Inr (nat index))"

definition drives :: "u32 \<Rightarrow> 'd kdriver \<Rightarrow> bool" where
  "drives device d \<longleftrightarrow> DEV_MAJ device = kd_major d \<and> DEV_MIN device \<ge> kd_minor_start d \<and>
     DEV_MIN device < kd_minor_start d + kd_count d"

definition upd_tty :: "nat \<Rightarrow> ('d ktty \<Rightarrow> 'd ktty) \<Rightarrow> 'd kernel \<Rightarrow> 'd kernel" where
  "upd_tty i f k = k\<lparr>kn_ttys := (kn_ttys k)[i := f (kn_ttys k ! i)]\<rparr>"

definition tty_open_internal :: "nat \<Rightarrow> 'd kernel \<Rightarrow> (int \<times> 'd kernel) option" where
  "tty_open_internal i k = do {
     e \<leftarrow> arr_get (kn_ttys k) i;
     if t_open (ke_tty e) then Some (0, k)
     else do {
       let e = e\<lparr>ke_tty := n_tty_open ((ke_tty e)\<lparr>t_termios := default_termios\<rparr>) (ke_rxbuf e), ke_ldisc := True\<rparr>;
       let k = k\<lparr>kn_ttys := (kn_ttys k)[i := e]\<rparr>;
       case find (drives (t_device (ke_tty e))) (kn_drivers k) of
         None \<Rightarrow> Some (- ENXIO, k)
       | Some d \<Rightarrow> do {
           let e = e\<lparr>ke_driver := Some d,
             ke_tty := (ke_tty e)\<lparr>t_line := DEV_MIN (t_device (ke_tty e)) - kd_minor_start d\<rparr>\<rparr>;
           let k = k\<lparr>kn_ttys := (kn_ttys k)[i := e]\<rparr>;
           open_fn \<leftarrow> kd_open d;
           (ret, dev) \<leftarrow> open_fn (ke_tty e) (kn_dev k);
           let k = k\<lparr>kn_dev := dev\<rparr>;
           if ret \<noteq> 0 then Some (ret, k)
           else Some (0, k\<lparr>kn_ttys := (kn_ttys k)[i := e\<lparr>ke_tty := (ke_tty e)\<lparr>t_open := True, t_throttled := False,
             t_stopped := False, t_hw_stopped := False\<rparr>\<rparr>]\<rparr>)
         }
     }
   }"

definition tty_open :: "u32 \<Rightarrow> u32 \<Rightarrow> 'd kernel \<Rightarrow> (int \<times> 'd kernel) option" where
  "tty_open inode f k =
    (if inode = 0 \<or> f = 0 then Some (- EINVAL, k)
     else case get_tty (i_device (kn_inodes k inode)) of
       Inl _ \<Rightarrow> Some (- ENODEV, k)
     | Inr i \<Rightarrow> do {
         (ret, k) \<leftarrow> tty_open_internal i k;
         if ret < 0 then Some (ret, k)
         else Some (0, upd_tty i (\<lambda>e. e\<lparr>ke_file := f\<rparr>) (k\<lparr>kn_files := (kn_files k)(f :=
           (kn_files k f)\<lparr>f_fops := Some Tty_fops, f_inode := inode, f_private := Some i\<rparr>)\<rparr>))
       })"

definition tty_close :: "u32 \<Rightarrow> 'd kernel \<Rightarrow> (int \<times> 'd kernel) option" where
  "tty_close f k =
    (if f = 0 \<or> f_inode (kn_files k f) = 0 then Some (- EINVAL, k)
     else case get_tty (i_device (kn_inodes k (f_inode (kn_files k f)))) of
       Inl _ \<Rightarrow> Some (- ENODEV, k)
     | Inr i \<Rightarrow> do {
         e \<leftarrow> arr_get (kn_ttys k) i;
         d \<leftarrow> ke_driver e;
         close_fn \<leftarrow> kd_close d;
         (ret, dev) \<leftarrow> close_fn (ke_tty e) (kn_dev k);
         Some (ret, k\<lparr>kn_dev := dev\<rparr>)
       })"

text \<open>The tty as the line discipline sees it: \<open>tty->file->f_oflag\<close> is read from the connected file structure.\<close>

definition ldisc_tty :: "'d ktty \<Rightarrow> 'd kernel \<Rightarrow> tty" where
  "ldisc_tty e k = (ke_tty e)\<lparr>t_file := (if ke_file e = 0 then None else Some (f_oflag (kn_files k (ke_file e))))\<rparr>"

definition tty_read :: "u32 \<Rightarrow> nat \<Rightarrow> 'd kernel \<Rightarrow> (int \<times> u8 list \<times> 'd kernel) option" where
  "tty_read f count k =
    (if f = 0 then Some (- EINVAL, [], k)
     else case f_private (kn_files k f) of
       None \<Rightarrow> Some (- ENXIO, [], k)
     | Some i \<Rightarrow> do {
         e \<leftarrow> arr_get (kn_ttys k) i;
         if \<not> ke_ldisc e then Some (- ENXIO, [], k)
         else do {
           d \<leftarrow> ke_driver e;
           (ret, buf, tty, dev) \<leftarrow> n_tty_read (kd_driver d) (ldisc_tty e k) (kn_dev k) count;
           Some (ret, buf, (upd_tty i (\<lambda>e. e\<lparr>ke_tty := tty\<lparr>t_file := t_file (ke_tty e)\<rparr>\<rparr>) k)\<lparr>kn_dev := dev\<rparr>)
         }
       })"

definition tty_write :: "u32 \<Rightarrow> u8 list \<Rightarrow> 'd kernel \<Rightarrow> (int \<times> 'd kernel) option" where
  "tty_write f buf k =
    (if f = 0 then Some (- EINVAL, k)
     else case f_private (kn_files k f) of
       None \<Rightarrow> Some (- ENXIO, k)
     | Some i \<Rightarrow> do {
         e \<leftarrow> arr_get (kn_ttys k) i;
         if \<not> ke_ldisc e then Some (- ENXIO, k)
         else do {
           d \<leftarrow> ke_driver e;
           (ret, dev) \<leftarrow> n_tty_write (kd_driver d) (ldisc_tty e k) (kn_dev k) buf;
           Some (ret, k\<lparr>kn_dev := dev\<rparr>)
         }
       })"

text \<open>Requests to a tty. The memory at the argument is the list \<open>arg\<close>, which the result has with the bytes copied to it.\<close>

definition termios_bytes :: "termios \<Rightarrow> u8 list" where
  "termios_bytes t = concat (map word_bytes [c_line t, c_iflag t, Ldisc.c_oflag t, c_cflag t, c_lflag t])"

definition bytes_termios :: "u8 list \<Rightarrow> termios" where
  "bytes_termios bs = (let w = (\<lambda>n. bytes_word (take 4 (drop (4 * n) bs))) in
     \<lparr>c_line = w 0, c_iflag = w 1, c_oflag = w 2, c_cflag = w 3, c_lflag = w 4\<rparr>)"

definition get_termios :: "tty \<Rightarrow> u8 list option \<Rightarrow> (int \<times> u8 list option) option" where
  "get_termios tty user_termios = do {
     (ok, user_termios) \<leftarrow> copy_to_user user_termios (termios_bytes (t_termios tty));
     Some (if ok then 0 else - EFAULT, user_termios)
   }"

definition set_termios :: "tty \<Rightarrow> u8 list option \<Rightarrow> (int \<times> tty) option" where
  "set_termios tty user_termios = do {
     u \<leftarrow> copy_from_user user_termios 20;
     Some (case u of None \<Rightarrow> (- EFAULT, tty) | Some bs \<Rightarrow> (0, tty\<lparr>t_termios := bytes_termios bs\<rparr>))
   }"

text \<open>The tty as it comes back from the line discipline or the driver.\<close>

definition put_tty :: "nat \<Rightarrow> tty \<Rightarrow> 'd \<Rightarrow> 'd kernel \<Rightarrow> 'd kernel" where
  "put_tty i tty dev k = (upd_tty i (\<lambda>e. e\<lparr>ke_tty := tty\<lparr>t_file := t_file (ke_tty e)\<rparr>\<rparr>) k)\<lparr>kn_dev := dev\<rparr>"

definition tiocsti :: "nat \<Rightarrow> 'd ktty \<Rightarrow> u8 list option \<Rightarrow> 'd kernel \<Rightarrow> (int \<times> 'd kernel) option" where
  "tiocsti i e user_char k = do {
     u \<leftarrow> copy_from_user user_char 1;
     case u of None \<Rightarrow> Some (- EFAULT, k)
     | Some bs \<Rightarrow> do {
         assert_opt (ke_ldisc e);
         d \<leftarrow> ke_driver e;
         (tty, dev) \<leftarrow> n_tty_recv (kd_driver d) (ldisc_tty e k) (kn_dev k) bs;
         Some (0, put_tty i tty dev k)
       }
   }"

text \<open>\<open>n_tty_ioctl\<close> answers whatever the driver does not know.\<close>

definition tty_ioctl :: "u32 \<Rightarrow> u32 \<Rightarrow> u8 list option \<Rightarrow> 'd kernel \<Rightarrow> (int \<times> u8 list option \<times> 'd kernel) option" where
  "tty_ioctl f op arg k =
    (if f = 0 then Some (- EINVAL, arg, k)
     else do {
       i \<leftarrow> f_private (kn_files k f);
       e \<leftarrow> arr_get (kn_ttys k) i;
       if op = TCGETS then do { (ret, arg) \<leftarrow> get_termios (ke_tty e) arg; Some (ret, arg, k) }
       else if op = TCSETS then do { (ret, tty) \<leftarrow> set_termios (ke_tty e) arg; Some (ret, arg, upd_tty i (\<lambda>e. e\<lparr>ke_tty := tty\<rparr>) k) }
       else if op = TIOCSTI then do { (ret, k) \<leftarrow> tiocsti i e arg k; Some (ret, arg, k) }
       else do {
         d \<leftarrow> ke_driver e;
         (ret, arg, k) \<leftarrow> (case kd_ioctl d of None \<Rightarrow> Some (- ENOTTY, arg, k)
           | Some ioctl \<Rightarrow> do { (ret, arg, tty, dev) \<leftarrow> ioctl (ldisc_tty e k) op arg (kn_dev k); Some (ret, arg, put_tty i tty dev k) });
         if ret \<noteq> - ENOTTY then Some (ret, arg, k)
         else do { assert_opt (ke_ldisc e); Some (n_tty_ioctl, arg, k) }
       }
     })"

definition chdev_open :: "u32 \<Rightarrow> u32 \<Rightarrow> 'd kernel \<Rightarrow> (int \<times> 'd kernel) option" where
  "chdev_open inode f k =
    (if inode = 0 then Some (- EINVAL, k)
     else do {
       let major = DEV_MAJ (i_device (kn_inodes k inode));
       if major = 0 \<or> major \<ge> ucast MAX_CHDEV then Some (- ENODEV, k)
       else do {
         (nm, fo) \<leftarrow> arr_get (kn_chdevs k) (unat major);
         case fo of Some Tty_fops \<Rightarrow> tty_open inode f k | Some Chdev_ops \<Rightarrow> None | None \<Rightarrow> Some (- ENXIO, k)
       }
     })"

subsection \<open>System calls\<close>

definition find_next_fd :: "u32 list \<Rightarrow> int" where
  "find_next_fd fs = (case find (\<lambda>i. fs ! i = 0) [0..<length fs] of None \<Rightarrow> -1 | Some i \<Rightarrow> int i)"

text \<open>The function pointers of the two tables.\<close>

definition fops_open :: "fops \<Rightarrow> u32 \<Rightarrow> u32 \<Rightarrow> 'd kernel \<Rightarrow> (int \<times> 'd kernel) option" where
  "fops_open fo = (case fo of Chdev_ops \<Rightarrow> chdev_open | Tty_fops \<Rightarrow> tty_open)"

definition has_ops :: "fops option \<Rightarrow> bool" where
  "has_ops fo \<longleftrightarrow> fo = Some Tty_fops"

definition sys_open :: "u8 list \<Rightarrow> u32 \<Rightarrow> 'd kernel \<Rightarrow> (int \<times> 'd kernel) option" where
  "sys_open name oflag k =
    (let req = oflag AND 3 in
     if req AND (req - 1) \<noteq> 0 then Some (- EINVAL, k)
     else do {
       fs \<leftarrow> current_files k;
       let fd = find_next_fd fs;
       if fd < 0 then Some (- ENFILE, k)
       else do {
         (ret, fp, k) \<leftarrow> alloc_fd k;
         if ret = ENOMEM then Some (- EMFILE, k)
         else do {
           f \<leftarrow> fp;
           let k = k\<lparr>kn_files := (kn_files k)(f := (kn_files k f)\<lparr>f_oflag := oflag\<rparr>)\<rparr>;
           (inode, k) \<leftarrow> find_inode f name k;
           if inode = 0 then Some (- ENOENT, k)
           else case f_fops (kn_files k f) of
             None \<Rightarrow> Some (- ENOENT, k)
           | Some fo \<Rightarrow> do {
               (ret, k) \<leftarrow> fops_open fo inode f k;
               if ret < 0 then Some (ret, k)
               else do { k \<leftarrow> set_file fd f k; Some (fd, k) }
             }
         }
       }
     })"

definition fd_file :: "int \<Rightarrow> 'd kernel \<Rightarrow> u32 option option" where
  "fd_file fd k = (if fd < 0 \<or> fd \<ge> MAX_OPEN then Some None
     else do { fs \<leftarrow> current_files k; f \<leftarrow> arr_get fs (nat fd); Some (if f = 0 then None else Some f) })"

definition sys_close :: "int \<Rightarrow> 'd kernel \<Rightarrow> (int \<times> 'd kernel) option" where
  "sys_close fd k = do {
     r \<leftarrow> fd_file fd k;
     case r of None \<Rightarrow> Some (- EBADF, k)
     | Some f \<Rightarrow>
         if \<not> has_ops (f_fops (kn_files k f)) then Some (- ENOSYS, k)
         else do {
           (ret, k) \<leftarrow> tty_close f k;
           if ret < 0 then Some (ret, k)
           else do { k \<leftarrow> free_fd f k; k \<leftarrow> set_file fd 0 k; Some (ret, k) }
         }
   }"

definition dupfd :: "int \<Rightarrow> int \<Rightarrow> 'd kernel \<Rightarrow> (int \<times> 'd kernel) option" where
  "dupfd fd newfd k =
    (if newfd < 0 \<or> newfd \<ge> MAX_OPEN then Some (- EBADF, k)
     else do {
       r \<leftarrow> fd_file fd k;
       case r of None \<Rightarrow> Some (- EBADF, k)
       | Some f \<Rightarrow> do {
           fs \<leftarrow> current_files k;
           (nfd, k) \<leftarrow> (if newfd \<noteq> 0 then do { (_, k) \<leftarrow> sys_close newfd k; Some (newfd, k) } else Some (find_next_fd fs, k));
           if nfd < 0 then Some (- EMFILE, k)
           else do {
             (ret, fp, k) \<leftarrow> alloc_fd k;
             if ret = ENOMEM then Some (- EMFILE, k)
             else do {
               nf \<leftarrow> fp;
               k \<leftarrow> set_file nfd nf (k\<lparr>kn_files := (kn_files k)(nf := kn_files k f)\<rparr>);
               Some (nfd, k)
             }
           }
         }
     })"

definition sys_dup :: "int \<Rightarrow> 'd kernel \<Rightarrow> (int \<times> 'd kernel) option" where
  "sys_dup fd k = dupfd fd 0 k"

definition sys_dup2 :: "int \<Rightarrow> int \<Rightarrow> 'd kernel \<Rightarrow> (int \<times> 'd kernel) option" where
  "sys_dup2 fd newfd k = dupfd fd newfd k"

definition sys_read :: "int \<Rightarrow> nat \<Rightarrow> 'd kernel \<Rightarrow> (int \<times> u8 list \<times> 'd kernel) option" where
  "sys_read fd count k = do {
     r \<leftarrow> fd_file fd k;
     case r of None \<Rightarrow> Some (- EBADF, [], k)
     | Some f \<Rightarrow> if \<not> has_ops (f_fops (kn_files k f)) then Some (- ENOSYS, [], k)
         else if count = 0 then Some (0, [], k)
         else tty_read f count k
   }"

definition sys_write :: "int \<Rightarrow> u8 list \<Rightarrow> 'd kernel \<Rightarrow> (int \<times> 'd kernel) option" where
  "sys_write fd buf k = do {
     r \<leftarrow> fd_file fd k;
     case r of None \<Rightarrow> Some (- EBADF, k)
     | Some f \<Rightarrow> if \<not> has_ops (f_fops (kn_files k f)) then Some (- ENOSYS, k)
         else if buf = [] then Some (0, k)
         else tty_write f buf k
   }"

definition sys_fcntl :: "int \<Rightarrow> int \<Rightarrow> u32 \<Rightarrow> 'd kernel \<Rightarrow> (int \<times> 'd kernel) option" where
  "sys_fcntl fd op arg k = do {
     r \<leftarrow> fd_file fd k;
     case r of None \<Rightarrow> Some (- EBADF, k)
     | Some f \<Rightarrow> if op = 1 then Some (sint (f_oflag (kn_files k f)), k)
         else if op = 2 then Some (0, k\<lparr>kn_files := (kn_files k)(f := (kn_files k f)\<lparr>f_oflag := arg\<rparr>)\<rparr>)
         else Some (- EINVAL, k)
   }"

text \<open>A request with a direction needs a size and an argument.\<close>

definition sys_ioctl :: "int \<Rightarrow> u32 \<Rightarrow> u8 list option \<Rightarrow> 'd kernel \<Rightarrow> (int \<times> u8 list option \<times> 'd kernel) option" where
  "sys_ioctl fd op arg k = do {
     r \<leftarrow> fd_file fd k;
     case r of None \<Rightarrow> Some (- EBADF, arg, k)
     | Some f \<Rightarrow> if \<not> has_ops (f_fops (kn_files k f)) then Some (- ENOSYS, arg, k)
         else let sz = drop_bit 16 (op AND IOCTL_SIZEMASK); dir = drop_bit 30 (op AND IOCTL_DIRMASK) in
           if dir \<noteq> 0 \<and> sz = 0 then Some (- EBADRQC, arg, k)
           else if dir \<noteq> 0 \<and> arg = None then Some (- EINVAL, arg, k)
           else tty_ioctl f op arg k
   }"

end
