(* ===== verification/Files_Props.thy ===== *)
theory Files_Props
  imports Files
begin

text \<open>
  Properties of the file descriptors: the invariant that ties the descriptor tables of the tasks to the pool of the file
  structures, its preservation by every system call, and what the calls do on their branches.
\<close>

subsection \<open>Descriptors and the pool of file structures\<close>

definition fd_slot :: "'d kernel \<Rightarrow> nat \<Rightarrow> nat \<Rightarrow> u32" where
  "fd_slot k t n = tk_files (kn_tasks k ! t) ! n"

abbreviation cur :: "'d kernel \<Rightarrow> nat" where "cur k \<equiv> nat (kn_pid k)"

text \<open>The structure in item \<open>j\<close> of the pool of the file structures: items of 64 bytes, at \<open>a\<close>.\<close>

abbreviation file_at :: "u32 \<Rightarrow> nat \<Rightarrow> u32" where "file_at a j \<equiv> item_addr a 64 j"

text \<open>
  The pool has index \<open>i\<close>, first chunk \<open>cb\<close>, items at \<open>a\<close> and the free items \<open>free\<close>, in the order of the free list. Every
  open descriptor of every task has a structure of its own, an item of the pool that is in use.
\<close>

definition files_ok :: "nat \<Rightarrow> nat \<Rightarrow> u32 \<Rightarrow> nat list \<Rightarrow> 'd kernel \<Rightarrow> bool" where
  "files_ok i cb a free k \<longleftrightarrow>
     kn_file_pool k = Some i \<and> pool_rep i cb a 64 16 (kn_pools k) free \<and>
     0 \<le> kn_pid k \<and> kn_pid k < 64 \<and> length (kn_tasks k) = 64 \<and>
     (\<forall>t < 64. length (tk_files (kn_tasks k ! t)) = 8) \<and>
     (\<forall>t < 64. \<forall>n < 8. fd_slot k t n \<noteq> 0 \<longrightarrow> (\<exists>j < 16. j \<notin> set free \<and> fd_slot k t n = file_at a j)) \<and>
     (\<forall>t < 64. \<forall>n < 8. \<forall>u < 64. \<forall>m < 8. fd_slot k t n \<noteq> 0 \<longrightarrow> fd_slot k t n = fd_slot k u m \<longrightarrow> t = u \<and> n = m)"

text \<open>What the devices below the descriptors leave alone.\<close>

definition same_fds :: "'d kernel \<Rightarrow> 'd kernel \<Rightarrow> bool" where
  "same_fds k k' \<longleftrightarrow> kn_pools k' = kn_pools k \<and> kn_file_pool k' = kn_file_pool k \<and>
     kn_tasks k' = kn_tasks k \<and> kn_pid k' = kn_pid k"

named_theorems same_fds_intros "operations that change no descriptor"

lemma same_fds_refl [simp, same_fds_intros]: "same_fds k k"
  by (simp add: same_fds_def)

lemma same_fds_trans: "same_fds k k' \<Longrightarrow> same_fds k' k'' \<Longrightarrow> same_fds k k''"
  by (simp add: same_fds_def)

lemma same_fds_upd [simp]:
  "same_fds k (k'\<lparr>kn_files := x\<rparr>) = same_fds k k'" "same_fds k (k'\<lparr>kn_dev := y\<rparr>) = same_fds k k'"
  "same_fds k (k'\<lparr>kn_ttys := z\<rparr>) = same_fds k k'" "same_fds k (upd_tty j f k') = same_fds k k'"
  "same_fds (k\<lparr>kn_files := x\<rparr>) k' = same_fds k k'"
  by (simp_all add: same_fds_def upd_tty_def)

lemma same_fds_slot: "same_fds k k' \<Longrightarrow> fd_slot k' = fd_slot k"
  by (auto simp: same_fds_def fd_slot_def fun_eq_iff)

lemma same_fds_ok: "same_fds k k' \<Longrightarrow> files_ok i cb a free k' = files_ok i cb a free k"
  unfolding files_ok_def by (simp only: same_fds_slot) (simp add: same_fds_def)

lemma tty_open_internal_fds: "tty_open_internal j k = Some (r, k') \<Longrightarrow> same_fds k k'"
  by (auto simp: tty_open_internal_def Let_def bind_eq_Some_conv split: if_splits option.splits)

lemma tty_open_fds: "tty_open inode f k = Some (r, k') \<Longrightarrow> same_fds k k'"
  by (auto simp: tty_open_def bind_eq_Some_conv split: if_splits sum.splits dest: tty_open_internal_fds)

lemma fops_open_fds: "fops_open fo inode f k = Some (r, k') \<Longrightarrow> same_fds k k'"
  by (auto simp: fops_open_def chdev_open_def Let_def bind_eq_Some_conv split: if_splits option.splits fops.splits prod.splits
      dest: tty_open_fds)

lemma tty_close_fds: "tty_close f k = Some (r, k') \<Longrightarrow> same_fds k k'"
  by (auto simp: tty_close_def bind_eq_Some_conv split: if_splits sum.splits)

lemma tty_read_fds: "tty_read f n k = Some (r, buf, k') \<Longrightarrow> same_fds k k'"
  by (auto simp: tty_read_def bind_eq_Some_conv split: if_splits option.splits)

lemma tty_write_fds: "tty_write f buf k = Some (r, k') \<Longrightarrow> same_fds k k'"
  by (auto simp: tty_write_def bind_eq_Some_conv split: if_splits option.splits)

lemma find_inode_fds: "find_inode f name k = Some (n, k') \<Longrightarrow> same_fds k k'"
  by (auto simp: find_inode_def Let_def bind_eq_Some_conv split: option.splits)


subsection \<open>Changing a descriptor\<close>

lemma files_okD:
  assumes "files_ok i cb a free k"
  shows "kn_file_pool k = Some i" "pool_rep i cb a 64 16 (kn_pools k) free" "0 \<le> kn_pid k" "kn_pid k < 64"
    "cur k < 64" "length (kn_tasks k) = 64" "t < 64 \<Longrightarrow> length (tk_files (kn_tasks k ! t)) = 8"
    "t < 64 \<Longrightarrow> n < 8 \<Longrightarrow> fd_slot k t n \<noteq> 0 \<Longrightarrow> \<exists>j < 16. j \<notin> set free \<and> fd_slot k t n = file_at a j"
    "t < 64 \<Longrightarrow> n < 8 \<Longrightarrow> u < 64 \<Longrightarrow> m < 8 \<Longrightarrow> fd_slot k t n \<noteq> 0 \<Longrightarrow> fd_slot k t n = fd_slot k u m \<Longrightarrow> t = u \<and> n = m"
  using assms by (auto simp: files_ok_def)

lemma current_files_ok:
  assumes "files_ok i cb a free k"
  shows "current_files k = Some (tk_files (kn_tasks k ! cur k))"
  using files_okD(3-6) [OF assms] by (simp add: current_files_def get_task_def get_pid_def MAX_TASK_def)

lemma fd_file_ok:
  assumes "files_ok i cb a free k"
  shows "fd_file fd k = Some (if 0 \<le> fd \<and> fd < 8 \<and> fd_slot k (cur k) (nat fd) \<noteq> 0 then Some (fd_slot k (cur k) (nat fd)) else None)"
  using files_okD(5,7) [OF assms] by (auto simp: fd_file_def current_files_ok [OF assms] MAX_OPEN_def fd_slot_def)

text \<open>The descriptor tables with one descriptor changed.\<close>

definition with_slot :: "'d kernel \<Rightarrow> nat \<Rightarrow> u32 \<Rightarrow> 'd kernel" where
  "with_slot k n f = k\<lparr>kn_tasks := (kn_tasks k)[cur k := (kn_tasks k ! cur k)\<lparr>tk_files := (tk_files (kn_tasks k ! cur k))[n := f]\<rparr>]\<rparr>"

lemma set_file_ok:
  assumes "files_ok i cb a free k0" "0 \<le> fd" "fd < 8" "kn_tasks k = kn_tasks k0" "kn_pid k = kn_pid k0"
  shows "set_file fd f k = Some (with_slot k (nat fd) f)"
  using files_okD(3-7) [OF assms(1)] assms(2-5)
  by (simp add: set_file_def get_task_def get_pid_def MAX_TASK_def with_slot_def)

lemma with_slot_fields [simp]:
  "kn_pools (with_slot k n f) = kn_pools k" "kn_file_pool (with_slot k n f) = kn_file_pool k"
  "kn_files (with_slot k n f) = kn_files k" "kn_pid (with_slot k n f) = kn_pid k" "kn_ttys (with_slot k n f) = kn_ttys k"
  "kn_dev (with_slot k n f) = kn_dev k" "kn_drivers (with_slot k n f) = kn_drivers k" "kn_inodes (with_slot k n f) = kn_inodes k"
  "length (kn_tasks (with_slot k n f)) = length (kn_tasks k)" "kn_chdevs (with_slot k n f) = kn_chdevs k"
  "kn_dentries (with_slot k n f) = kn_dentries k" "kn_dentry_list (with_slot k n f) = kn_dentry_list k"
  by (simp_all add: with_slot_def)

lemma with_slot_length:
  assumes "t < length (kn_tasks k)"
  shows "length (tk_files (kn_tasks (with_slot k n f) ! t)) = length (tk_files (kn_tasks k ! t))"
  using assms by (cases "t = cur k") (simp_all add: with_slot_def)

lemma with_slot_slot:
  assumes "cur k < length (kn_tasks k)" "n < length (tk_files (kn_tasks k ! cur k))"
  shows "fd_slot (with_slot k n f) t m = (if t = cur k \<and> m = n then f else fd_slot k t m)"
  using assms by (auto simp: with_slot_def fd_slot_def nth_list_update)

text \<open>A free item is put into an empty descriptor, and an item is taken out of one.\<close>

lemma files_ok_open:
  assumes ok: "files_ok i cb a free k" and n: "n < 8" and j: "j < 16" "j \<notin> set free"
    and f: "\<forall>t < 64. \<forall>m < 8. fd_slot k t m = file_at a j \<longrightarrow> t = cur k \<and> m = n"
  shows "files_ok i cb a free (with_slot k n (file_at a j))"
proof -
  note D = files_okD [OF ok]
  have s: "fd_slot (with_slot k n (file_at a j)) t m = (if t = cur k \<and> m = n then file_at a j else fd_slot k t m)" for t m
    using D(5-7) n by (simp add: with_slot_slot)
  have "t = u \<and> m = l"
    if "t < 64" "m < 8" "u < 64" "l < 8" "fd_slot (with_slot k n (file_at a j)) t m \<noteq> 0"
      "fd_slot (with_slot k n (file_at a j)) t m = fd_slot (with_slot k n (file_at a j)) u l" for t m u l
    using that D(9) [of t m u l] f unfolding s by (metis (full_types))
  moreover have "\<exists>j' < 16. j' \<notin> set free \<and> fd_slot (with_slot k n (file_at a j)) t m = file_at a j'"
    if "t < 64" "m < 8" "fd_slot (with_slot k n (file_at a j)) t m \<noteq> 0" for t m
    using that D(8) [of t m] j unfolding s by (auto split: if_splits)
  ultimately show ?thesis
    using D(1-7) unfolding files_ok_def by (simp add: with_slot_length)
qed

lemma files_ok_close:
  assumes ok: "files_ok i cb a free k" and n: "n < 8"
  shows "files_ok i cb a free (with_slot k n 0)"
proof -
  note D = files_okD [OF ok]
  have s: "fd_slot (with_slot k n 0) t m = (if t = cur k \<and> m = n then 0 else fd_slot k t m)" for t m
    using D(5-7) n by (simp add: with_slot_slot)
  have "t = u \<and> m = l"
    if "t < 64" "m < 8" "u < 64" "l < 8" "fd_slot (with_slot k n 0) t m \<noteq> 0"
      "fd_slot (with_slot k n 0) t m = fd_slot (with_slot k n 0) u l" for t m u l
    using that D(9) [of t m u l] unfolding s by (auto split: if_splits)
  moreover have "\<exists>j' < 16. j' \<notin> set free \<and> fd_slot (with_slot k n 0) t m = file_at a j'"
    if "t < 64" "m < 8" "fd_slot (with_slot k n 0) t m \<noteq> 0" for t m
    using that D(8) [of t m] unfolding s by (auto split: if_splits)
  ultimately show ?thesis
    using D(1-7) unfolding files_ok_def by (simp add: with_slot_length)
qed


subsection \<open>Allocating and freeing file structures\<close>

text \<open>The state after item \<open>j\<close> has been allocated, with a structure that holds \<open>fl\<close>.\<close>

definition with_file :: "nat \<Rightarrow> nat \<Rightarrow> u32 \<Rightarrow> nat \<Rightarrow> kfile \<Rightarrow> 'd kernel \<Rightarrow> 'd kernel" where
  "with_file i cb a j fl k = k\<lparr>kn_pools := alloc_result i cb a 64 j (kn_pools k), kn_files := (kn_files k)(file_at a j := fl)\<rparr>"

lemma free_item:
  assumes "files_ok i cb a (j # free) k"
  shows "j < 16" "j \<notin> set free" "file_at a j \<noteq> 0" "t < 64 \<Longrightarrow> n < 8 \<Longrightarrow> fd_slot k t n \<noteq> file_at a j"
proof -
  note D = files_okD [OF assms]
  have r: "region_ok a 64 16" and j: "j < 16" using D(2) by (auto simp: pool_rep_def)
  show "j < 16" by (rule j)
  show "j \<notin> set free" using pool_rep_distinct [OF D(2)] by simp
  show ne: "file_at a j \<noteq> 0" using r j by (rule item_addr_nonzero)
  show "fd_slot k t n \<noteq> file_at a j" if tn: "t < 64" "n < 8"
  proof
    assume e: "fd_slot k t n = file_at a j"
    then obtain j' where "j' < 16" "j' \<noteq> j" "file_at a j = file_at a j'" using D(8) [OF tn] ne by auto
    then show False using item_addr_inj [OF r j, of j'] by auto
  qed
qed

lemma alloc_fd_ok:
  assumes "files_ok i cb a (j # free) k"
  shows "alloc_fd k = Some (0, Some (file_at a j), with_file i cb a j zero_file k)"
  using files_okD(1,2) [OF assms] free_item(3) [OF assms]
  by (simp add: alloc_fd_def pool_alloc_eq with_file_def)

lemma alloc_fd_exhausted:
  assumes "files_ok i cb a [] k"
  shows "alloc_fd k = Some (- ENOMEM, None, k)"
  using files_okD(1,2) [OF assms] by (simp add: alloc_fd_def pool_alloc_empty)

lemma with_file_ok:
  assumes "files_ok i cb a (j # free) k"
  shows "files_ok i cb a free (with_file i cb a j fl k)"
proof -
  have s: "fd_slot (with_file i cb a j fl k) = fd_slot k" by (simp add: with_file_def fd_slot_def fun_eq_iff)
  have "pool_rep i cb a 64 16 (kn_pools (with_file i cb a j fl k)) free"
    using alloc_result_rep [OF files_okD(2) [OF assms]] by (simp add: with_file_def)
  moreover have "\<exists>j' < 16. j' \<notin> set free \<and> fd_slot k t m = file_at a j'"
    if "t < 64" "m < 8" "fd_slot k t m \<noteq> 0" for t m
    using files_okD(8) [OF assms that] by auto
  moreover have "kn_file_pool (with_file i cb a j fl k) = kn_file_pool k" "kn_pid (with_file i cb a j fl k) = kn_pid k"
    "kn_tasks (with_file i cb a j fl k) = kn_tasks k" by (simp_all add: with_file_def)
  ultimately show ?thesis using assms unfolding files_ok_def s by simp
qed

lemma free_fd_ok:
  assumes "files_ok i cb a free k" "j < 16" "j \<notin> set free"
  shows "free_fd (file_at a j) k = Some (k\<lparr>kn_pools := free_result i cb j (kn_pools k)\<rparr>)"
proof -
  have rep: "pool_rep i cb a 64 16 (kn_pools k) free" and p: "kn_file_pool k = Some i"
    using files_okD [OF assms(1)] by auto
  then have r: "region_ok a 64 16" by (simp add: pool_rep_def)
  show ?thesis
    using pool_free_eq [OF rep assms(2) in_own_item [OF r]] assms(3) p item_addr_nonzero [OF r assms(2)]
    by (simp add: free_fd_def)
qed

lemma files_ok_free:
  assumes ok: "files_ok i cb a free k" and j: "j < 16" "j \<notin> set free"
    and f: "\<forall>t < 64. \<forall>m < 8. fd_slot k t m \<noteq> file_at a j"
  shows "files_ok i cb a (j # free) (k\<lparr>kn_pools := free_result i cb j (kn_pools k)\<rparr>)" (is "files_ok i cb a (j # free) ?k")
proof -
  have s: "fd_slot ?k = fd_slot k" by (simp add: fd_slot_def fun_eq_iff)
  have "pool_rep i cb a 64 16 (kn_pools ?k) (j # free)"
    using free_result_rep [OF files_okD(2) [OF ok] j] by simp
  moreover have "\<exists>j' < 16. j' \<notin> set (j # free) \<and> fd_slot k t m = file_at a j'"
    if "t < 64" "m < 8" "fd_slot k t m \<noteq> 0" for t m
    using files_okD(8) [OF ok that] f that by fastforce
  ultimately show ?thesis using ok unfolding files_ok_def s by simp
qed

subsection \<open>The next descriptor\<close>

lemma find_next_fd_least:
  shows "find_next_fd fs = -1 \<longleftrightarrow> 0 \<notin> set fs"
    and "find_next_fd fs = int n \<longleftrightarrow> n < length fs \<and> fs ! n = 0 \<and> (\<forall>m < n. fs ! m \<noteq> 0)"
    and "find_next_fd fs < 0 \<longleftrightarrow> find_next_fd fs = -1"
proof -
  show "find_next_fd fs = -1 \<longleftrightarrow> 0 \<notin> set fs"
    by (auto simp: find_next_fd_def find_None_iff find_Some_iff in_set_conv_nth split: option.splits)
  show "find_next_fd fs < 0 \<longleftrightarrow> find_next_fd fs = -1"
    by (auto simp: find_next_fd_def split: option.splits)
  show "find_next_fd fs = int n \<longleftrightarrow> n < length fs \<and> fs ! n = 0 \<and> (\<forall>m < n. fs ! m \<noteq> 0)"
    by (auto simp: find_next_fd_def find_Some_iff find_None_iff split: option.splits) (metis linorder_neqE_nat)
qed

abbreviation next_fd :: "'d kernel \<Rightarrow> int" where "next_fd k \<equiv> find_next_fd (tk_files (kn_tasks k ! cur k))"

lemma next_fd_free:
  assumes "files_ok i cb a free k" "0 \<le> next_fd k"
  shows "next_fd k < 8" "fd_slot k (cur k) (nat (next_fd k)) = 0" "m < nat (next_fd k) \<Longrightarrow> fd_slot k (cur k) m \<noteq> 0"
proof -
  have "length (tk_files (kn_tasks k ! cur k)) = 8" using files_okD(5,7) [OF assms(1)] by blast
  moreover obtain n where n: "next_fd k = int n" using assms(2) nonneg_int_cases by blast
  ultimately have "n < 8" "tk_files (kn_tasks k ! cur k) ! n = 0" "\<forall>m < n. tk_files (kn_tasks k ! cur k) ! m \<noteq> 0"
    using find_next_fd_least(2) [of "tk_files (kn_tasks k ! cur k)" n] by auto
  then show "next_fd k < 8" "fd_slot k (cur k) (nat (next_fd k)) = 0"
    "m < nat (next_fd k) \<Longrightarrow> fd_slot k (cur k) m \<noteq> 0" using n by (auto simp: fd_slot_def)
qed


subsection \<open>Opening\<close>

text \<open>The access mode asks for reading, writing or both, but not for writing by two bits.\<close>

lemma oflag_mask: "(oflag AND 3) AND ((oflag AND 3) - 1) = (0 :: u32) \<longleftrightarrow> oflag AND 3 \<noteq> 3"
proof -
  define x where "x = oflag AND 3"
  have "x \<le> 3" unfolding x_def by (rule word_and_le1)
  then have "unat x \<le> 3" by (simp add: word_le_nat_alt)
  then have "unat x = 0 \<or> unat x = 1 \<or> unat x = 2 \<or> unat x = 3" by arith
  then have "x = of_nat 0 \<or> x = of_nat 1 \<or> x = of_nat 2 \<or> x = of_nat 3" using of_nat_unat_id [of x] by metis
  then show ?thesis unfolding x_def [symmetric] by (elim disjE) simp_all
qed

definition opened :: "nat \<Rightarrow> nat \<Rightarrow> u32 \<Rightarrow> nat \<Rightarrow> u32 \<Rightarrow> 'd kernel \<Rightarrow> 'd kernel" where
  "opened i cb a j oflag = with_file i cb a j (zero_file\<lparr>f_oflag := oflag\<rparr>)"

lemma sys_open_eq:
  assumes ok: "files_ok i cb a (j # free) k" and "oflag AND 3 \<noteq> 3" "0 \<le> next_fd k"
  shows "sys_open name oflag k = do {
    (inode, k2) \<leftarrow> find_inode (file_at a j) name (opened i cb a j oflag k);
    if inode = 0 then Some (- ENOENT, k2)
    else case f_fops (kn_files k2 (file_at a j)) of
      None \<Rightarrow> Some (- ENOENT, k2)
    | Some fo \<Rightarrow> do {
        (ret, k3) \<leftarrow> fops_open fo inode (file_at a j) k2;
        if ret < 0 then Some (ret, k3)
        else do { k4 \<leftarrow> set_file (next_fd k) (file_at a j) k3; Some (next_fd k, k4) }
      }
  }"
  using assms oflag_mask [of oflag] alloc_fd_ok [OF ok] current_files_ok [OF ok]
  by (simp add: sys_open_def with_file_def opened_def ENOMEM_def Let_def)

lemma sys_open_refused:
  assumes ok: "files_ok i cb a free k"
  shows "oflag AND 3 = 3 \<Longrightarrow> sys_open name oflag k = Some (- EINVAL, k)"
    and "oflag AND 3 \<noteq> 3 \<Longrightarrow> next_fd k < 0 \<Longrightarrow> sys_open name oflag k = Some (- ENFILE, k)"
    and "oflag AND 3 \<noteq> 3 \<Longrightarrow> 0 \<le> next_fd k \<Longrightarrow> free = [] \<Longrightarrow> sys_open name oflag k = None"
  using oflag_mask [of oflag] current_files_ok [OF ok] alloc_fd_exhausted [of i cb a k] ok
  by (auto simp: sys_open_def ENOMEM_def Let_def)

lemma opened_ok: "files_ok i cb a (j # free) k \<Longrightarrow> files_ok i cb a free (opened i cb a j oflag k)"
  unfolding opened_def by (rule with_file_ok)

lemma opened_fields [simp]:
  "kn_tasks (opened i cb a j oflag k) = kn_tasks k" "kn_pid (opened i cb a j oflag k) = kn_pid k"
  "kn_ttys (opened i cb a j oflag k) = kn_ttys k" "kn_dev (opened i cb a j oflag k) = kn_dev k"
  "kn_drivers (opened i cb a j oflag k) = kn_drivers k" "kn_inodes (opened i cb a j oflag k) = kn_inodes k"
  "kn_chdevs (opened i cb a j oflag k) = kn_chdevs k" "kn_dentries (opened i cb a j oflag k) = kn_dentries k"
  "kn_dentry_list (opened i cb a j oflag k) = kn_dentry_list k"
  "kn_files (opened i cb a j oflag k) = (kn_files k)(file_at a j := zero_file\<lparr>f_oflag := oflag\<rparr>)"
  "fd_slot (opened i cb a j oflag k) = fd_slot k"
  by (simp_all add: opened_def with_file_def fd_slot_def fun_eq_iff)

text \<open>Putting the fresh structure into the descriptor that was found, after the devices have done their work.\<close>

lemma install_fresh:
  assumes ok: "files_ok i cb a (j # free) k" and fd: "0 \<le> next_fd k"
    and k3: "same_fds (opened i cb a j oflag k) k3"
  shows "set_file (next_fd k) (file_at a j) k3 = Some (with_slot k3 (nat (next_fd k)) (file_at a j))"
    and "files_ok i cb a free (with_slot k3 (nat (next_fd k)) (file_at a j))"
proof -
  note item = free_item [OF ok] and nf = next_fd_free [OF ok fd]
  have ok3: "files_ok i cb a free k3" using same_fds_ok [OF k3] opened_ok [OF ok] by blast
  have same: "kn_tasks k3 = kn_tasks k" "kn_pid k3 = kn_pid k" "fd_slot k3 = fd_slot k"
    using k3 same_fds_slot [OF k3] by (simp_all add: same_fds_def)
  show "set_file (next_fd k) (file_at a j) k3 = Some (with_slot k3 (nat (next_fd k)) (file_at a j))"
    using set_file_ok [OF ok fd nf(1) same(1,2)] .
  show "files_ok i cb a free (with_slot k3 (nat (next_fd k)) (file_at a j))"
    using nf(1) fd item same by (intro files_ok_open [OF ok3]) auto
qed

lemma sys_open_keeps:
  assumes ok: "files_ok i cb a free k" and r: "sys_open name oflag k = Some (r, k')"
  shows "\<exists>free'. files_ok i cb a free' k'"
proof (cases "oflag AND 3 = 3 \<or> next_fd k < 0")
  case True
  then show ?thesis using sys_open_refused(1,2) [OF ok, of oflag name] r ok by auto
next
  case False
  then have fd: "oflag AND 3 \<noteq> 3" "0 \<le> next_fd k" by auto
  show ?thesis
  proof (cases free)
    case Nil
    then show ?thesis using sys_open_refused(3) [OF ok fd] r by simp
  next
    case (Cons j fs)
    with ok have ok: "files_ok i cb a (j # fs) k" by simp
    from r [unfolded sys_open_eq [OF ok fd]] obtain inode k2 where
      k2: "find_inode (file_at a j) name (opened i cb a j oflag k) = Some (inode, k2)"
      and rest: "k' = k2 \<or> (\<exists>fo ret k3. fops_open fo inode (file_at a j) k2 = Some (ret, k3) \<and>
        (k' = k3 \<or> set_file (next_fd k) (file_at a j) k3 = Some k'))"
      by (auto simp: bind_eq_Some_conv split: if_splits option.splits) blast+
    have s2: "same_fds (opened i cb a j oflag k) k2" by (rule find_inode_fds [OF k2])
    from rest obtain k3 where "same_fds k2 k3" "k' = k3 \<or> set_file (next_fd k) (file_at a j) k3 = Some k'"
      using fops_open_fds by (metis same_fds_refl)
    then have s3: "same_fds (opened i cb a j oflag k) k3" and
      k': "k' = k3 \<or> k' = with_slot k3 (nat (next_fd k)) (file_at a j)"
      using same_fds_trans [OF s2] install_fresh(1) [OF ok fd(2)] by fastforce+
    show ?thesis
      using k' install_fresh(2) [OF ok fd(2) s3] same_fds_ok [OF s3] opened_ok [OF ok] by blast
  qed
qed


subsection \<open>Closing\<close>

lemma sys_close_eq:
  assumes ok: "files_ok i cb a free k" and j: "j < 16" "j \<notin> set free"
    and fd: "0 \<le> fd" "fd < 8" "fd_slot k (cur k) (nat fd) = file_at a j"
    and ops: "f_fops (kn_files k (file_at a j)) = Some Tty_fops" and c: "tty_close (file_at a j) k = Some (ret, k1)"
  shows "sys_close fd k = Some (ret, if ret < 0 then k1
      else (with_slot k1 (nat fd) 0)\<lparr>kn_pools := free_result i cb j (kn_pools k)\<rparr>)"
    and "\<not> ret < 0 \<Longrightarrow> files_ok i cb a (j # free) ((with_slot k1 (nat fd) 0)\<lparr>kn_pools := free_result i cb j (kn_pools k)\<rparr>)"
proof -
  have s1: "same_fds k k1" by (rule tty_close_fds [OF c])
  have ok1: "files_ok i cb a free k1" using same_fds_ok [OF s1] ok by blast
  have same: "kn_tasks k1 = kn_tasks k" "kn_pid k1 = kn_pid k" "fd_slot k1 = fd_slot k" "kn_pools k1 = kn_pools k"
    using s1 same_fds_slot [OF s1] by (simp_all add: same_fds_def)
  have r: "region_ok a 64 16" using files_okD(2) [OF ok] by (simp add: pool_rep_def)
  have ne: "file_at a j \<noteq> 0" using r j(1) by (rule item_addr_nonzero)
  have n: "nat fd < 8" using fd by auto
  define k2 where "k2 = k1\<lparr>kn_pools := free_result i cb j (kn_pools k1)\<rparr>"
  have set: "set_file fd 0 k2 = Some (with_slot k2 (nat fd) 0)"
    by (rule set_file_ok [OF ok fd(1,2)]) (simp_all add: k2_def same)
  have w: "with_slot k2 (nat fd) 0 = (with_slot k1 (nat fd) 0)\<lparr>kn_pools := free_result i cb j (kn_pools k)\<rparr>"
    by (simp add: with_slot_def k2_def same)
  have "sys_close fd k = (if ret < 0 then Some (ret, k1)
      else do { k \<leftarrow> free_fd (file_at a j) k1; k \<leftarrow> set_file fd 0 k; Some (ret, k) })"
    using fd_file_ok [OF ok, of fd] fd ne ops c by (simp add: sys_close_def has_ops_def)
  also have "\<dots> = (if ret < 0 then Some (ret, k1) else Some (ret, with_slot k2 (nat fd) 0))"
    using free_fd_ok [OF ok1 j] set by (simp add: k2_def)
  finally show "sys_close fd k = Some (ret, if ret < 0 then k1
      else (with_slot k1 (nat fd) 0)\<lparr>kn_pools := free_result i cb j (kn_pools k)\<rparr>)" using w by simp
  have slot: "fd_slot (with_slot k1 (nat fd) 0) t m = (if t = cur k \<and> m = nat fd then 0 else fd_slot k t m)" for t m
    using with_slot_slot [of k1 "nat fd" 0 t m] files_okD(5-7) [OF ok1] n same by simp
  have gone: "\<forall>t < 64. \<forall>m < 8. fd_slot (with_slot k1 (nat fd) 0) t m \<noteq> file_at a j"
    unfolding slot using files_okD(9) [OF ok _ _ files_okD(5) [OF ok] n] fd(3) ne by auto
  show "files_ok i cb a (j # free) ((with_slot k1 (nat fd) 0)\<lparr>kn_pools := free_result i cb j (kn_pools k)\<rparr>)"
    using files_ok_free [OF files_ok_close [OF ok1 n] j gone] same by simp
qed

lemma sys_close_refused:
  assumes ok: "files_ok i cb a free k"
  shows "fd < 0 \<or> 8 \<le> fd \<or> fd_slot k (cur k) (nat fd) = 0 \<Longrightarrow> sys_close fd k = Some (- EBADF, k)"
    and "0 \<le> fd \<Longrightarrow> fd < 8 \<Longrightarrow> fd_slot k (cur k) (nat fd) = f \<Longrightarrow> f \<noteq> 0 \<Longrightarrow> f_fops (kn_files k f) \<noteq> Some Tty_fops \<Longrightarrow>
      sys_close fd k = Some (- ENOSYS, k)"
  using fd_file_ok [OF ok, of fd] by (auto simp: sys_close_def has_ops_def)

text \<open>The cases of a call that returns.\<close>

lemma sys_close_cases:
  assumes ok: "files_ok i cb a free k" and r: "sys_close fd k = Some (ret, k')"
  shows "k' = k \<or> (\<exists>j k1. j < 16 \<and> j \<notin> set free \<and> 0 \<le> fd \<and> fd < 8 \<and> fd_slot k (cur k) (nat fd) = file_at a j \<and>
    f_fops (kn_files k (file_at a j)) = Some Tty_fops \<and> tty_close (file_at a j) k = Some (ret, k1))"
proof (cases "fd < 0 \<or> 8 \<le> fd \<or> fd_slot k (cur k) (nat fd) = 0")
  case True
  then show ?thesis using sys_close_refused(1) [OF ok] r by auto
next
  case False
  then have fd: "0 \<le> fd" "fd < 8" "nat fd < 8" "fd_slot k (cur k) (nat fd) \<noteq> 0" by auto
  obtain j where j: "j < 16" "j \<notin> set free" "fd_slot k (cur k) (nat fd) = file_at a j"
    using files_okD(8) [OF ok files_okD(5) [OF ok] fd(3,4)] by blast
  show ?thesis
  proof (cases "f_fops (kn_files k (file_at a j)) = Some Tty_fops")
    case True
    then obtain k1 where "tty_close (file_at a j) k = Some (ret, k1)"
      using r fd_file_ok [OF ok, of fd] fd j(3)
      by (auto simp: sys_close_def has_ops_def bind_eq_Some_conv split: if_splits)
    then show ?thesis using fd j True by blast
  next
    case False
    then show ?thesis using sys_close_refused(2) [OF ok fd(1,2) j(3)] fd(4) j(3) r by auto
  qed
qed

lemma sys_close_keeps:
  assumes ok: "files_ok i cb a free k" and r: "sys_close fd k = Some (ret, k')"
  shows "\<exists>free'. files_ok i cb a free' k'"
  using sys_close_cases [OF ok r]
proof (elim disjE exE conjE)
  fix j k1
  assume j: "j < 16" "j \<notin> set free" "0 \<le> fd" "fd < 8" "fd_slot k (cur k) (nat fd) = file_at a j"
    "f_fops (kn_files k (file_at a j)) = Some Tty_fops" "tty_close (file_at a j) k = Some (ret, k1)"
  have ok1: "files_ok i cb a free k1" using same_fds_ok [OF tty_close_fds [OF j(7)]] ok by blast
  then show ?thesis using sys_close_eq [OF ok j] r by (cases "ret < 0") auto
qed (use ok in blast)


subsection \<open>Duplicating\<close>

text \<open>The last part of \<open>dupfd\<close>: a copy of the structure \<open>f\<close> is put into descriptor \<open>n\<close>.\<close>

definition dup_into :: "nat \<Rightarrow> nat \<Rightarrow> u32 \<Rightarrow> nat \<Rightarrow> u32 \<Rightarrow> nat \<Rightarrow> 'd kernel \<Rightarrow> 'd kernel" where
  "dup_into i cb a j f n k = with_slot (with_file i cb a j (if f = file_at a j then zero_file else kn_files k f) k) n (file_at a j)"

lemma dup_into_ok:
  assumes ok: "files_ok i cb a (j # free) k" and n: "n < 8"
  shows "files_ok i cb a free (dup_into i cb a j f n k)"
proof -
  define fl where "fl = (if f = file_at a j then zero_file else kn_files k f)"
  have "fd_slot (with_file i cb a j fl k) = fd_slot k" by (simp add: with_file_def fd_slot_def fun_eq_iff)
  then have "files_ok i cb a free (with_slot (with_file i cb a j fl k) n (file_at a j))"
    using free_item [OF ok] n by (intro files_ok_open [OF with_file_ok [OF ok]]) auto
  then show ?thesis by (simp add: dup_into_def fl_def)
qed

lemma dup_tail_eq:
  assumes ok: "files_ok i cb a (j # free) k" and fd: "0 \<le> nfd" "nfd < 8"
  shows "(do {
      (ret, fp, k) \<leftarrow> alloc_fd k;
      if ret = ENOMEM then Some (- EMFILE, k)
      else do {
        nf \<leftarrow> fp;
        k \<leftarrow> set_file nfd nf (k\<lparr>kn_files := (kn_files k)(nf := kn_files k f)\<rparr>);
        Some (nfd, k)
      }
    }) = Some (nfd, dup_into i cb a j f (nat nfd) k)"
proof -
  define k1 where "k1 = with_file i cb a j zero_file k"
  define k2 where "k2 = k1\<lparr>kn_files := (kn_files k1)(file_at a j := kn_files k1 f)\<rparr>"
  have "k2 = with_file i cb a j (if f = file_at a j then zero_file else kn_files k f) k"
    by (simp add: k2_def k1_def with_file_def)
  moreover have "set_file nfd (file_at a j) k2 = Some (with_slot k2 (nat nfd) (file_at a j))"
    by (rule set_file_ok [OF ok fd]) (simp_all add: k2_def k1_def with_file_def)
  ultimately show ?thesis
    using alloc_fd_ok [OF ok] by (simp add: ENOMEM_def dup_into_def k1_def [symmetric] k2_def [symmetric])
qed

lemma dup_tail_exhausted:
  assumes ok: "files_ok i cb a [] k"
  shows "(do {
      (ret, fp, k) \<leftarrow> alloc_fd k;
      if ret = ENOMEM then Some (- EMFILE, k)
      else do {
        nf \<leftarrow> fp;
        k \<leftarrow> set_file nfd nf (k\<lparr>kn_files := (kn_files k)(nf := kn_files k f)\<rparr>);
        Some (nfd, k)
      }
    }) = None"
  using alloc_fd_exhausted [OF ok] by (simp add: ENOMEM_def)

lemma dupfd_refused:
  assumes ok: "files_ok i cb a free k" and "newfd < 0 \<or> 8 \<le> newfd \<or> fd < 0 \<or> 8 \<le> fd \<or> fd_slot k (cur k) (nat fd) = 0"
  shows "dupfd fd newfd k = Some (- EBADF, k)"
  using assms(2) fd_file_ok [OF ok, of fd] by (auto simp: dupfd_def MAX_OPEN_def)

lemma sys_dup_full:
  assumes ok: "files_ok i cb a free k" and "0 \<le> fd" "fd < 8" "fd_slot k (cur k) (nat fd) \<noteq> 0" "next_fd k < 0"
  shows "sys_dup fd k = Some (- EMFILE, k)"
  using assms(2-) fd_file_ok [OF ok, of fd] current_files_ok [OF ok] by (simp add: sys_dup_def dupfd_def MAX_OPEN_def)

lemma sys_dup_eq:
  assumes ok: "files_ok i cb a (j # free) k" and fd: "0 \<le> fd" "fd < 8" "fd_slot k (cur k) (nat fd) \<noteq> 0" and n: "0 \<le> next_fd k"
  shows "sys_dup fd k = Some (next_fd k, dup_into i cb a j (fd_slot k (cur k) (nat fd)) (nat (next_fd k)) k)"
proof -
  note tail = dup_tail_eq [OF ok n next_fd_free(1) [OF ok n]]
  show ?thesis
    unfolding sys_dup_def dupfd_def fd_file_ok [OF ok] current_files_ok [OF ok] using fd n tail by (simp add: MAX_OPEN_def)
qed

lemma sys_dup_exhausted:
  assumes ok: "files_ok i cb a [] k" and fd: "0 \<le> fd" "fd < 8" "fd_slot k (cur k) (nat fd) \<noteq> 0" and n: "0 \<le> next_fd k"
  shows "sys_dup fd k = None"
  unfolding sys_dup_def dupfd_def fd_file_ok [OF ok] current_files_ok [OF ok]
  using fd n dup_tail_exhausted [OF ok] by (simp add: MAX_OPEN_def)

lemma sys_dup2_eq:
  assumes ok: "files_ok i cb a free k" and fd: "0 \<le> fd" "fd < 8" "fd_slot k (cur k) (nat fd) \<noteq> 0"
    and n: "0 < newfd" "newfd < 8" and c: "sys_close newfd k = Some (ret, k1)" and ok1: "files_ok i cb a (j # free1) k1"
  shows "sys_dup2 fd newfd k = Some (newfd, dup_into i cb a j (fd_slot k (cur k) (nat fd)) (nat newfd) k1)"
proof -
  note tail = dup_tail_eq [OF ok1 less_imp_le [OF n(1)] n(2)]
  show ?thesis
    unfolding sys_dup2_def dupfd_def fd_file_ok [OF ok] current_files_ok [OF ok] using fd n c tail by (simp add: MAX_OPEN_def)
qed

lemma dupfd_keeps:
  assumes ok: "files_ok i cb a free k" and r: "dupfd fd newfd k = Some (ret, k')"
  shows "\<exists>free'. files_ok i cb a free' k'"
proof (cases "newfd < 0 \<or> 8 \<le> newfd \<or> fd < 0 \<or> 8 \<le> fd \<or> fd_slot k (cur k) (nat fd) = 0")
  case True
  then show ?thesis using dupfd_refused [OF ok True] r ok by auto
next
  case False
  then have fd: "0 \<le> fd" "fd < 8" "fd_slot k (cur k) (nat fd) \<noteq> 0" "0 \<le> newfd" "newfd < 8" by auto
  show ?thesis
  proof (cases "newfd = 0")
    case True
    then have d: "sys_dup fd k = Some (ret, k')" using r by (simp add: sys_dup_def)
    show ?thesis
    proof (cases "next_fd k < 0")
      case True
      then show ?thesis using sys_dup_full [OF ok fd(1-3)] d ok by auto
    next
      case False
      then have n: "0 \<le> next_fd k" by simp
      then have n8: "nat (next_fd k) < 8" using next_fd_free(1) [OF ok n] by simp
      show ?thesis
      proof (cases free)
        case Nil
        then show ?thesis using d sys_dup_exhausted [of i cb a k, OF _ fd(1-3) n] ok by simp
      next
        case (Cons j fs)
        with ok have ok1: "files_ok i cb a (j # fs) k" by simp
        from d sys_dup_eq [OF ok1 fd(1-3) n] dup_into_ok [OF ok1 n8] show ?thesis by auto
      qed
    qed
  next
    case False
    then have n: "0 < newfd" "nat newfd < 8" using fd by auto
    have "\<exists>r1 k1. sys_close newfd k = Some (r1, k1)"
      using r fd False fd_file_ok [OF ok, of fd] current_files_ok [OF ok]
      by (auto simp: dupfd_def MAX_OPEN_def bind_eq_Some_conv split: if_splits)
    then obtain r1 k1 where c: "sys_close newfd k = Some (r1, k1)" by blast
    then obtain free1 where ok1: "files_ok i cb a free1 k1" using sys_close_keeps [OF ok] by blast
    show ?thesis
    proof (cases free1)
      case Nil
      then have "dupfd fd newfd k = None"
        unfolding dupfd_def fd_file_ok [OF ok] current_files_ok [OF ok]
        using fd False c dup_tail_exhausted [of i cb a k1] ok1 by (simp add: MAX_OPEN_def)
      then show ?thesis using r by simp
    next
      case (Cons j fs)
      then have okj: "files_ok i cb a (j # fs) k1" using ok1 by simp
      from sys_dup2_eq [OF ok fd(1-3) n(1) fd(5) c okj] dup_into_ok [OF okj n(2)] r show ?thesis by (auto simp: sys_dup2_def)
    qed
  qed
qed

subsection \<open>The other calls\<close>

lemma sys_read_fds: "sys_read fd count k = Some (r, buf, k') \<Longrightarrow> same_fds k k'"
  by (auto simp: sys_read_def bind_eq_Some_conv split: option.splits if_splits dest: tty_read_fds)

lemma sys_write_fds: "sys_write fd buf k = Some (r, k') \<Longrightarrow> same_fds k k'"
  by (auto simp: sys_write_def bind_eq_Some_conv split: option.splits if_splits dest: tty_write_fds)

lemma sys_fcntl_fds: "sys_fcntl fd op arg k = Some (r, k') \<Longrightarrow> same_fds k k'"
  by (auto simp: sys_fcntl_def bind_eq_Some_conv split: option.splits if_splits)

lemma tiocsti_fds: "tiocsti i e arg k = Some (r, k') \<Longrightarrow> same_fds k k'"
  by (auto simp: tiocsti_def put_tty_def bind_eq_Some_conv split: option.splits)

lemma tty_ioctl_fds: "tty_ioctl f op arg k = Some (r, arg', k') \<Longrightarrow> same_fds k k'"
  by (auto simp: tty_ioctl_def put_tty_def bind_eq_Some_conv split: option.splits if_splits dest: tiocsti_fds)

lemma sys_ioctl_fds: "sys_ioctl fd op arg k = Some (r, arg', k') \<Longrightarrow> same_fds k k'"
  by (auto simp: sys_ioctl_def Let_def bind_eq_Some_conv split: option.splits if_splits dest: tty_ioctl_fds)

text \<open>One system call of the current task.\<close>

inductive syscall :: "'d kernel \<Rightarrow> 'd kernel \<Rightarrow> bool" where
  call_open: "sys_open name oflag k = Some (r, k') \<Longrightarrow> syscall k k'"
| call_close: "sys_close fd k = Some (r, k') \<Longrightarrow> syscall k k'"
| call_dup: "sys_dup fd k = Some (r, k') \<Longrightarrow> syscall k k'"
| call_dup2: "sys_dup2 fd newfd k = Some (r, k') \<Longrightarrow> syscall k k'"
| call_read: "sys_read fd count k = Some (r, buf, k') \<Longrightarrow> syscall k k'"
| call_write: "sys_write fd buf k = Some (r, k') \<Longrightarrow> syscall k k'"
| call_fcntl: "sys_fcntl fd op arg k = Some (r, k') \<Longrightarrow> syscall k k'"
| call_ioctl: "sys_ioctl fd req uarg k = Some (r, uarg', k') \<Longrightarrow> syscall k k'"

lemma syscall_keeps:
  assumes "syscall k k'" "files_ok i cb a free k"
  shows "\<exists>free'. files_ok i cb a free' k'"
  using assms(1)
proof cases
  case (call_open name oflag r)
  then show ?thesis using sys_open_keeps [OF assms(2)] by blast
next
  case (call_close fd r)
  then show ?thesis using sys_close_keeps [OF assms(2)] by blast
next
  case (call_dup fd r)
  then show ?thesis using dupfd_keeps [OF assms(2)] unfolding sys_dup_def by blast
next
  case (call_dup2 fd newfd r)
  then show ?thesis using dupfd_keeps [OF assms(2)] unfolding sys_dup2_def by blast
next
  case (call_read fd count r buf)
  then show ?thesis using same_fds_ok [OF sys_read_fds] assms(2) by blast
next
  case (call_write fd buf r)
  then show ?thesis using same_fds_ok [OF sys_write_fds] assms(2) by blast
next
  case (call_fcntl fd op arg r)
  then show ?thesis using same_fds_ok [OF sys_fcntl_fds] assms(2) by blast
next
  case (call_ioctl fd req uarg r uarg')
  then show ?thesis using same_fds_ok [OF sys_ioctl_fds] assms(2) by blast
qed

lemma syscalls_keep:
  assumes "syscall\<^sup>*\<^sup>* k k'" "files_ok i cb a free k"
  shows "\<exists>free'. files_ok i cb a free' k'"
  using assms
proof (induction rule: rtranclp_induct)
  case (step k1 k2)
  then show ?case using syscall_keeps [OF step.hyps(2)] by blast
qed blast

end
