(* ===== verification/Files_Init.thy ===== *)
theory Files_Init
  imports Files_Props
begin

text \<open>
  The state \<open>init_fs\<close> leaves behind: the three pools, and for each of the twelve ttys a directory entry that is found by its
  name and, except for tty 0, leads to an inode with the device number.
\<close>

definition node_name :: "nat \<Rightarrow> u8 list" where
  "node_name m = (if m \<le> 7 then map of_char ''/dev/tty'' @ [48 + of_nat m] else map of_char ''/dev/ttyS'' @ [41 + of_nat m])"

lemma tty_name_nodes: "m < 12 \<Longrightarrow> tty_name m = Some (node_name m)"
proof -
  have "\<forall>m \<in> set [0..<12]. tty_name m = Some (node_name m)" by code_simp
  then show "m < 12 \<Longrightarrow> tty_name m = Some (node_name m)" by simp
qed

lemma node_names_distinct: "m < 12 \<Longrightarrow> l < 12 \<Longrightarrow> node_name m = node_name l \<longleftrightarrow> m = l"
proof -
  have "\<forall>m \<in> set [0..<12]. \<forall>l \<in> set [0..<12]. node_name m = node_name l \<longleftrightarrow> m = l" by code_simp
  then show "m < 12 \<Longrightarrow> l < 12 \<Longrightarrow> node_name m = node_name l \<longleftrightarrow> m = l" by simp
qed

lemma node_name_short [simp]: "take 32 (node_name m) = node_name m"
  by (simp add: node_name_def)


text \<open>
  The pools of inodes, entries and files have the indices \<open>p\<close>, \<open>p + 1\<close> and \<open>p + 2\<close> and the chunks from \<open>c\<close> on; the arrays are
  at \<open>ia\<close>, \<open>da\<close> and \<open>fa\<close>. The nodes below \<open>m\<close> have been made.
\<close>

abbreviation node_dentry :: "u32 \<Rightarrow> nat \<Rightarrow> u32" where "node_dentry da m \<equiv> item_addr da 64 m"
abbreviation node_inode :: "u32 \<Rightarrow> nat \<Rightarrow> u32" where "node_inode ia m \<equiv> item_addr ia 64 (m - 1)"

definition pools_ok :: "nat \<Rightarrow> nat \<Rightarrow> u32 \<Rightarrow> u32 \<Rightarrow> u32 \<Rightarrow> nat \<Rightarrow> pool_state \<Rightarrow> bool" where
  "pools_ok p c ia da fa m s \<longleftrightarrow> pool_rep p c ia 64 20 s [m - 1..<20] \<and> pool_rep (p + 1) (c + 20) da 64 44 s [m..<44] \<and>
     pool_rep (p + 2) (c + 64) fa 64 16 s [0..<16]"

definition nodes_ok :: "u32 \<Rightarrow> u32 \<Rightarrow> nat \<Rightarrow> 'd kernel \<Rightarrow> bool" where
  "nodes_ok ia da m k \<longleftrightarrow> kn_dentry_list k = rev (map (node_dentry da) [0..<m]) \<and>
     (\<forall>l < m. kn_dentries k (node_dentry da l) = \<lparr>d_name = node_name l, d_inode = (if l = 0 then 0 else node_inode ia l)\<rparr>) \<and>
     (\<forall>l < m. 0 < l \<longrightarrow> kn_inodes k (node_inode ia l) =
        \<lparr>i_mode = MODE_CHRDEV, i_device = mkdev TTY_MAJOR (of_nat l), i_fops = Some Chdev_ops\<rparr>)"

lemma upt_from: "m < n \<Longrightarrow> [m..<n] = m # [Suc m..<n]"
  by (rule upt_conv_Cons)

text \<open>Taking the next entry and the next inode.\<close>

lemma next_dentry:
  assumes "pools_ok p c ia da fa m s" "m < 44"
  shows "\<exists>s'. pool_alloc (Some (p + 1)) s = Some (node_dentry da m, s') \<and> node_dentry da m \<noteq> 0 \<and>
    pool_rep p c ia 64 20 s' [m - 1..<20] \<and> pool_rep (p + 1) (c + 20) da 64 44 s' [Suc m..<44] \<and>
    pool_rep (p + 2) (c + 64) fa 64 16 s' [0..<16]"
proof -
  have rep: "pool_rep (p + 1) (c + 20) da 64 44 s (m # [Suc m..<44])"
    using assms by (simp add: pools_ok_def upt_from [OF assms(2)])
  let ?s = "alloc_result (p + 1) (c + 20) da 64 m s"
  have "node_dentry da m \<noteq> 0" using item_addr_nonzero rep by (auto simp: pool_rep_def)
  then show ?thesis
    using pool_alloc_eq [OF rep] alloc_result_rep [OF rep] assms(1)
      pool_frame_rep [OF alloc_result_frame [OF rep], of p c ia 64 20 "[m - 1..<20]"]
      pool_frame_rep [OF alloc_result_frame [OF rep], of "p + 2" "c + 64" fa 64 16 "[0..<16]"]
    by (intro exI [of _ ?s]) (simp add: pools_ok_def)
qed

lemma next_inode:
  assumes "pool_rep p c ia 64 20 s [m - 1..<20]" "0 < m" "m \<le> 20" "pool_rep (p + 1) (c + 20) da 64 44 s fs"
    "pool_rep (p + 2) (c + 64) fa 64 16 s gs"
  shows "\<exists>s'. pool_alloc (Some p) s = Some (node_inode ia m, s') \<and> node_inode ia m \<noteq> 0 \<and>
    pool_rep p c ia 64 20 s' [m..<20] \<and> pool_rep (p + 1) (c + 20) da 64 44 s' fs \<and> pool_rep (p + 2) (c + 64) fa 64 16 s' gs"
proof -
  have m: "m - 1 < 20" "Suc (m - 1) = m" using assms(2,3) by auto
  have rep: "pool_rep p c ia 64 20 s ((m - 1) # [m..<20])"
    using assms(1) upt_from [OF m(1)] m(2) by simp
  let ?s = "alloc_result p c ia 64 (m - 1) s"
  have "node_inode ia m \<noteq> 0" using item_addr_nonzero rep by (auto simp: pool_rep_def)
  then show ?thesis
    using pool_alloc_eq [OF rep] alloc_result_rep [OF rep] assms(4,5)
      pool_frame_rep [OF alloc_result_frame [OF rep], of "p + 1" "c + 20" da 64 44 fs]
      pool_frame_rep [OF alloc_result_frame [OF rep], of "p + 2" "c + 64" fa 64 16 gs]
    by (intro exI [of _ ?s]) simp
qed


text \<open>What making a node leaves alone.\<close>

definition same_rest :: "'d kernel \<Rightarrow> 'd kernel \<Rightarrow> bool" where
  "same_rest k k' \<longleftrightarrow> kn_inode_pool k' = kn_inode_pool k \<and> kn_dentry_pool k' = kn_dentry_pool k \<and>
     kn_file_pool k' = kn_file_pool k \<and> kn_files k' = kn_files k \<and> kn_chdevs k' = kn_chdevs k \<and> kn_ttys k' = kn_ttys k \<and>
     kn_drivers k' = kn_drivers k \<and> kn_dev k' = kn_dev k \<and> kn_tasks k' = kn_tasks k \<and> kn_pid k' = kn_pid k"

lemma same_rest_trans: "same_rest k k1 \<Longrightarrow> same_rest k1 k2 \<Longrightarrow> same_rest k k2"
  by (simp add: same_rest_def)

lemma nodes_ok_Suc:
  assumes n: "nodes_ok ia da m k" and r: "region_ok da 64 44" "region_ok ia 64 20" and m: "m < 12"
    and d: "kn_dentry_list k' = node_dentry da m # kn_dentry_list k"
      "kn_dentries k' = (kn_dentries k)(node_dentry da m := \<lparr>d_name = node_name m, d_inode = (if m = 0 then 0 else node_inode ia m)\<rparr>)"
      "kn_inodes k' = (if m = 0 then kn_inodes k else (kn_inodes k)(node_inode ia m :=
        \<lparr>i_mode = MODE_CHRDEV, i_device = mkdev TTY_MAJOR (of_nat m), i_fops = Some Chdev_ops\<rparr>))"
  shows "nodes_ok ia da (Suc m) k'"
proof -
  have di: "node_dentry da l = node_dentry da m \<longleftrightarrow> l = m" if "l \<le> m" for l
    using item_addr_inj [OF r(1), of l m] that m by auto
  have ii: "node_inode ia l = node_inode ia m \<longleftrightarrow> l = m" if "0 < l" "l \<le> m" for l
  proof -
    have "node_inode ia l = node_inode ia m \<longleftrightarrow> l - 1 = m - 1"
      using item_addr_inj [OF r(2), of "l - 1" "m - 1"] that m by auto
    then show ?thesis using that by auto
  qed
  have "kn_dentries k' (node_dentry da l) = \<lparr>d_name = node_name l, d_inode = (if l = 0 then 0 else node_inode ia l)\<rparr>" if "l < Suc m" for l
  proof (cases "l = m")
    case False
    then show ?thesis using n that di [of l] d(2) unfolding nodes_ok_def by simp
  qed (simp add: d(2))
  moreover have "kn_inodes k' (node_inode ia l) =
      \<lparr>i_mode = MODE_CHRDEV, i_device = mkdev TTY_MAJOR (of_nat l), i_fops = Some Chdev_ops\<rparr>" if "l < Suc m" "0 < l" for l
  proof (cases "l = m")
    case False
    then show ?thesis using n that ii [of l] d(3) unfolding nodes_ok_def by simp
  qed (use that d(3) in simp)
  ultimately show ?thesis using n d(1) unfolding nodes_ok_def by simp
qed

lemma make_nodes_ok:
  assumes "pools_ok p c ia da fa m (kn_pools k)" "nodes_ok ia da m k" "kn_inode_pool k = Some p" "kn_dentry_pool k = Some (p + 1)"
    "m + n = 12"
  shows "\<exists>k'. make_nodes m n k = Some k' \<and> pools_ok p c ia da fa 12 (kn_pools k') \<and> nodes_ok ia da 12 k' \<and> same_rest k k'"
  using assms
proof (induction n arbitrary: m k)
  case 0
  then show ?case by (simp add: same_rest_def)
next
  case (Suc n)
  note P = Suc.prems
  have m: "m < 12" "m < 44" "m \<le> 20" using P(5) by auto
  have r: "region_ok da 64 44" "region_ok ia 64 20" using P(1) by (auto simp: pools_ok_def pool_rep_def)
  obtain s where s: "pool_alloc (Some (p + 1)) (kn_pools k) = Some (node_dentry da m, s)" "node_dentry da m \<noteq> 0"
    "pool_rep p c ia 64 20 s [m - 1..<20]" "pool_rep (p + 1) (c + 20) da 64 44 s [Suc m..<44]"
    "pool_rep (p + 2) (c + 64) fa 64 16 s [0..<16]"
    using next_dentry [OF P(1) m(2)] by blast
  have name: "take DENTRY_NAME_LENGTH (node_name m) = node_name m" by (simp add: DENTRY_NAME_LENGTH_def)
  show ?case
  proof (cases "m = 0")
    case True
    define k1 where "k1 = k\<lparr>kn_pools := s, kn_dentries := (kn_dentries k)(node_dentry da m := \<lparr>d_name = node_name m, d_inode = 0\<rparr>),
       kn_dentry_list := node_dentry da m # kn_dentry_list k\<rparr>"
    have "make_nodes m (Suc n) k = make_nodes (Suc m) n k1"
      using s(1,2) P(4) True tty_name_nodes [OF m(1)] name by (simp add: k1_def)
    moreover have "nodes_ok ia da (Suc m) k1"
      by (rule nodes_ok_Suc [OF P(2) r m(1)]) (simp_all add: k1_def True)
    moreover have "pools_ok p c ia da fa (Suc m) (kn_pools k1)" using s(3-5) True by (simp add: pools_ok_def k1_def)
    moreover have "same_rest k k1" by (simp add: same_rest_def k1_def)
    moreover have "kn_inode_pool k1 = Some p" "kn_dentry_pool k1 = Some (p + 1)" "Suc m + n = 12" using P(3-5) by (simp_all add: k1_def)
    ultimately show ?thesis using Suc.IH [of "Suc m" k1] same_rest_trans by metis
  next
    case False
    obtain t where t: "pool_alloc (Some p) s = Some (node_inode ia m, t)" "node_inode ia m \<noteq> 0"
      "pool_rep p c ia 64 20 t [m..<20]" "pool_rep (p + 1) (c + 20) da 64 44 t [Suc m..<44]"
      "pool_rep (p + 2) (c + 64) fa 64 16 t [0..<16]"
      using next_inode [OF s(3) _ m(3) s(4,5)] False by blast
    define k1 where "k1 = k\<lparr>kn_dentry_list := node_dentry da m # kn_dentry_list k, kn_pools := t,
       kn_inodes := (kn_inodes k)(node_inode ia m := \<lparr>i_mode = MODE_CHRDEV, i_device = mkdev TTY_MAJOR (of_nat m), i_fops = Some Chdev_ops\<rparr>),
       kn_inode_list := node_inode ia m # kn_inode_list k,
       kn_dentries := (kn_dentries k)(node_dentry da m := \<lparr>d_name = node_name m, d_inode = node_inode ia m\<rparr>)\<rparr>"
    have "make_nodes m (Suc n) k = make_nodes (Suc m) n k1"
      using s(1,2) t(1,2) P(3,4) False tty_name_nodes [OF m(1)] name by (simp add: k1_def)
    moreover have "nodes_ok ia da (Suc m) k1"
      by (rule nodes_ok_Suc [OF P(2) r m(1)]) (simp_all add: k1_def False)
    moreover have "pools_ok p c ia da fa (Suc m) (kn_pools k1)" using t(3-5) False by (simp add: pools_ok_def k1_def)
    moreover have "same_rest k k1" by (simp add: same_rest_def k1_def)
    moreover have "kn_inode_pool k1 = Some p" "kn_dentry_pool k1 = Some (p + 1)" "Suc m + n = 12" using P(3-5) by (simp_all add: k1_def)
    ultimately show ?thesis using Suc.IH [of "Suc m" k1] same_rest_trans by metis
  qed
qed

text \<open>Every name leads to its own entry.\<close>

lemma find_unique:
  assumes "x \<in> set xs" "P x" "\<And>y. y \<in> set xs \<Longrightarrow> P y \<Longrightarrow> y = x"
  shows "find P xs = Some x"
proof (cases "find P xs")
  case None
  then show ?thesis using assms(1,2) by (simp add: find_None_iff)
next
  case (Some y)
  then have "y \<in> set xs" "P y" by (auto simp: find_Some_iff)
  then show ?thesis using assms(3) Some by simp
qed

lemma find_node:
  assumes "nodes_ok ia da 12 k" "m < 12"
  shows "find_dentry (node_name m) k = Some (node_dentry da m)"
  unfolding find_dentry_def DENTRY_NAME_LENGTH_def
proof (rule find_unique)
  have l: "kn_dentry_list k = rev (map (node_dentry da) [0..<12])"
    and n: "\<And>l. l < 12 \<Longrightarrow> d_name (kn_dentries k (node_dentry da l)) = node_name l"
    using assms(1) by (auto simp: nodes_ok_def)
  show "node_dentry da m \<in> set (kn_dentry_list k)" using l assms(2) by auto
  show "take 32 (node_name m) = take 32 (d_name (kn_dentries k (node_dentry da m)))" using n [OF assms(2)] by simp
  fix y assume y: "y \<in> set (kn_dentry_list k)" "take 32 (node_name m) = take 32 (d_name (kn_dentries k y))"
  then obtain x where x: "x < 12" "y = node_dentry da x" using l by auto
  then have "node_name m = node_name x" using y(2) n [OF x(1)] by simp
  then show "y = node_dentry da m" using node_names_distinct [OF assms(2) x(1)] x(2) by blast
qed


text \<open>
  \<open>init_fs\<close> on tables with at least three free descriptors and 80 free chunks, from \<open>p\<close> and \<open>c\<close> on, as \<open>init_pool\<close> and
  the pools created before leave them.
\<close>

lemma pool_create_next:
  assumes t: "tables_ok s" "bits (ps_pool_mask s) = {p..<32}" "bits (ps_chunk_mask s) = {c..<256}"
    and n: "unat cap = n" and r: "region_ok addr isz n" "p < 32" "c + n \<le> 256" "0 < n"
  obtains s' where "pool_create addr (Some nm) isz cap s = Some (Some p, s')" "tables_ok s'"
    "bits (ps_pool_mask s') = {Suc p..<32}" "bits (ps_chunk_mask s') = {c + n..<256}"
    "pool_rep p c addr isz n s' [0..<n]" "pool_frame p {c..<c + n} s s'"
proof -
  have ff: "first_free c (unat cap) s" using t(3) r(3) n by (auto simp: first_free_def)
  have p: "p \<in> bits (ps_pool_mask s)" "\<forall>j \<in> bits (ps_pool_mask s). p \<le> j" "c \<le> MAX_NR_POOL_ITEMS"
    using t(2) r(2,3) by (auto simp: pool_consts)
  have "{p..<32} - {p} = {Suc p..<32}" "{c..<256} - {c..<c + n} = {c + n..<256}" using r by auto
  then show ?thesis
    using pool_create_rep [OF t(1) r(1) [folded n] ff p, of nm] t(2,3) that unfolding n by auto
qed

lemma init_fs_ok:
  assumes t: "tables_ok (kn_pools k)" "bits (ps_pool_mask (kn_pools k)) = {p..<32}" "bits (ps_chunk_mask (kn_pools k)) = {c..<256}"
    and pc: "p + 3 \<le> 32" "c + 80 \<le> 256" and r: "region_ok ia 64 20" "region_ok da 64 44" "region_ok fa 64 16"
  shows "\<exists>k'. init_fs ia da fa k = Some k' \<and> nodes_ok ia da 12 k' \<and> kn_file_pool k' = Some (p + 2) \<and>
    pool_rep (p + 2) (c + 64) fa 64 16 (kn_pools k') [0..<16] \<and> kn_chdevs k' = kn_chdevs k \<and> kn_ttys k' = kn_ttys k \<and>
    kn_drivers k' = kn_drivers k \<and> kn_dev k' = kn_dev k \<and> kn_tasks k' = kn_tasks k \<and> kn_pid k' = kn_pid k"
proof -
  obtain s1 where s1: "pool_create ia (Some (map of_char ''inodes'')) 64 20 (kn_pools k) = Some (Some p, s1)" "tables_ok s1"
    "bits (ps_pool_mask s1) = {Suc p..<32}" "bits (ps_chunk_mask s1) = {c + 20..<256}" "pool_rep p c ia 64 20 s1 [0..<20]"
    by (rule pool_create_next [OF t, of 20 20 ia 64]) (use r pc in auto)
  obtain s2 where s2: "pool_create da (Some (map of_char ''dentries'')) 64 44 s1 = Some (Some (Suc p), s2)" "tables_ok s2"
    "bits (ps_pool_mask s2) = {Suc (Suc p)..<32}" "bits (ps_chunk_mask s2) = {c + 20 + 44..<256}"
    "pool_rep (Suc p) (c + 20) da 64 44 s2 [0..<44]" "pool_frame (Suc p) {c + 20..<c + 20 + 44} s1 s2"
    by (rule pool_create_next [OF s1(2-4), of 44 44 da 64]) (use r pc in auto)
  obtain s3 where s3: "pool_create fa (Some (map of_char ''files'')) 64 16 s2 = Some (Some (Suc (Suc p)), s3)"
    "pool_rep (Suc (Suc p)) (c + 20 + 44) fa 64 16 s3 [0..<16]" "pool_frame (Suc (Suc p)) {c + 20 + 44..<c + 20 + 44 + 16} s2 s3"
    by (rule pool_create_next [OF s2(2-4), of 16 16 fa 64]) (use r pc in auto)
  have i2: "pool_rep p c ia 64 20 s2 [0..<20]" using pool_frame_rep [OF s2(6) s1(5)] by simp
  have i3: "pool_rep p c ia 64 20 s3 [0..<20]" using pool_frame_rep [OF s3(3) i2] by simp
  have d3: "pool_rep (Suc p) (c + 20) da 64 44 s3 [0..<44]" using pool_frame_rep [OF s3(3) s2(5)] by simp
  define k3 where "k3 = k\<lparr>kn_inode_list := [], kn_dentry_list := [], kn_inode_pool := Some p, kn_dentry_pool := Some (Suc p),
    kn_pools := s3, kn_file_pool := Some (Suc (Suc p))\<rparr>"
  have "init_fs ia da fa k = make_nodes 0 12 k3"
    using s1(1) s2(1) s3(1)
    by (simp add: init_fs_def MAX_NR_INODES_def MAX_NR_DENTRIES_def MAX_NR_TOTAL_OPEN_def NR_TTY_def k3_def)
  moreover have "pools_ok p c ia da fa 0 (kn_pools k3)" using i3 d3 s3(2) by (simp add: pools_ok_def k3_def add.assoc)
  moreover have "nodes_ok ia da 0 k3" by (simp add: nodes_ok_def k3_def)
  ultimately obtain k' where "init_fs ia da fa k = Some k'" "pools_ok p c ia da fa 12 (kn_pools k')" "nodes_ok ia da 12 k'" "same_rest k3 k'"
    using make_nodes_ok [of p c ia da fa 0 k3 12] by (auto simp: k3_def)
  then show ?thesis by (auto simp: same_rest_def k3_def pools_ok_def)
qed


text \<open>
  \<open>init_fs\<close> succeeds when three pool descriptors and 80 chunks are free. Afterwards each of the names \<open>/dev/tty0\<close> to
  \<open>/dev/tty7\<close> and \<open>/dev/ttyS1\<close> to \<open>/dev/ttyS4\<close> has a directory entry of its own; for all but \<open>/dev/tty0\<close>
  looking up the inode finds the character device with major number 1 and the number of the tty as minor number, and for
  \<open>/dev/tty0\<close>, which has no inode, looking it up dereferences NULL. The pool of file structures holds 16 free items of 64 bytes
  instead of 64 items of 16 bytes, and the descriptors of the tasks are left alone.
\<close>

theorem init_fs_nodes:
  assumes "tables_ok (kn_pools k)" "bits (ps_pool_mask (kn_pools k)) = {p..<32}" "bits (ps_chunk_mask (kn_pools k)) = {c..<256}"
    and "p + 3 \<le> 32" "c + 80 \<le> 256" and r: "region_ok ia 64 20" "region_ok da 64 44" "region_ok fa 64 16"
  shows "\<exists>k'. init_fs ia da fa k = Some k' \<and> inj_on (\<lambda>m. find_dentry (node_name m) k') {..<12} \<and>
    (\<forall>m f. 1 \<le> m \<longrightarrow> m < 12 \<longrightarrow> (\<exists>n k2. find_inode f (node_name m) k' = Some (n, k2) \<and> n \<noteq> 0 \<and>
       kn_inodes k' n = \<lparr>i_mode = MODE_CHRDEV, i_device = mkdev TTY_MAJOR (of_nat m), i_fops = Some Chdev_ops\<rparr> \<and>
       f_fops (kn_files k2 f) = Some Chdev_ops)) \<and>
    (\<forall>f. find_inode f (node_name 0) k' = None) \<and>
    kn_file_pool k' = Some (p + 2) \<and> pool_rep (p + 2) (c + 64) fa 64 16 (kn_pools k') [0..<16] \<and> kn_tasks k' = kn_tasks k"
proof -
  obtain k' where k': "init_fs ia da fa k = Some k'" "nodes_ok ia da 12 k'" "kn_file_pool k' = Some (p + 2)"
    "pool_rep (p + 2) (c + 64) fa 64 16 (kn_pools k') [0..<16]" "kn_tasks k' = kn_tasks k"
    using init_fs_ok [OF assms] by blast
  have find: "find_dentry (node_name m) (k'\<lparr>kn_files := g\<rparr>) = Some (node_dentry da m)" if "m < 12" for m g
    using find_node [OF k'(2) that] by (simp add: find_dentry_def)
  have entry: "kn_dentries k' (node_dentry da m) = \<lparr>d_name = node_name m, d_inode = (if m = 0 then 0 else node_inode ia m)\<rparr>" if "m < 12" for m
    using k'(2) that by (simp add: nodes_ok_def)
  have "inj_on (\<lambda>m. find_dentry (node_name m) k') {..<12}"
    using item_addr_inj [OF r(2)] by (auto simp: inj_on_def find_node [OF k'(2)])
  moreover have "\<exists>n k2. find_inode f (node_name m) k' = Some (n, k2) \<and> n \<noteq> 0 \<and>
      kn_inodes k' n = \<lparr>i_mode = MODE_CHRDEV, i_device = mkdev TTY_MAJOR (of_nat m), i_fops = Some Chdev_ops\<rparr> \<and>
      f_fops (kn_files k2 f) = Some Chdev_ops" if "1 \<le> m" "m < 12" for m f
  proof -
    have "kn_inodes k' (node_inode ia m) = \<lparr>i_mode = MODE_CHRDEV, i_device = mkdev TTY_MAJOR (of_nat m), i_fops = Some Chdev_ops\<rparr>"
      using k'(2) that by (simp add: nodes_ok_def)
    moreover have "node_inode ia m \<noteq> 0" using item_addr_nonzero [OF r(1), of "m - 1"] that by simp
    ultimately show ?thesis using find [OF that(2)] entry [OF that(2)] that(1) by (simp add: find_inode_def Let_def)
  qed
  moreover have "find_inode f (node_name 0) k' = None" for f
    using find [of 0] entry [of 0] by (simp add: find_inode_def Let_def assert_opt_def)
  ultimately show ?thesis using k' by blast
qed

text \<open>The tables of the kernel before anything was initialised, with the state \<open>d\<close> of the devices.\<close>

definition blank_tty :: "nat \<Rightarrow> 'd ktty" where
  "blank_tty m = \<lparr>ke_tty = \<lparr>t_device = (if m = 0 then 0 else mkdev TTY_MAJOR (of_nat m)), t_open = False, t_throttled = False, t_stopped = False,
     t_hw_stopped = False, t_line = 0, t_file = None, t_termios = \<lparr>c_line = 0, c_iflag = 0, c_oflag = 0, c_cflag = 0, c_lflag = 0\<rparr>,
     t_data = None\<rparr>, ke_file = 0, ke_driver = None, ke_ldisc = False, ke_rxbuf = replicate 1024 0\<rparr>"

definition blank_kernel :: "'d \<Rightarrow> 'd kernel" where
  "blank_kernel d = \<lparr>kn_pools = init_pool (pool_state0 (\<lambda>_. 0)), kn_inode_pool = None, kn_dentry_pool = None, kn_file_pool = None,
     kn_inodes = (\<lambda>_. zero_inode), kn_dentries = (\<lambda>_. zero_dentry), kn_files = (\<lambda>_. zero_file), kn_inode_list = [],
     kn_dentry_list = [], kn_chdevs = replicate 8 (None, None), kn_ttys = map blank_tty [0..<12], kn_drivers = [], kn_dev = d,
     kn_tasks = [], kn_pid = 0\<rparr>"

lemma blank_pools:
  "tables_ok (kn_pools (init_tasks (blank_kernel d)))" "bits (ps_pool_mask (kn_pools (init_tasks (blank_kernel d)))) = {0..<32}"
  "bits (ps_chunk_mask (kn_pools (init_tasks (blank_kernel d)))) = {0..<256}" "(0 :: nat) + 3 \<le> 32" "(0 :: nat) + 80 \<le> 256"
  "region_ok 0x1000 64 20" "region_ok 0x2000 64 44" "region_ok 0x3000 64 16"
  by (auto simp: init_tasks_def blank_kernel_def init_pool_tables region_ok_def pool_consts)

theorem init_fs_nodes_witness:
  "\<exists>k'. init_fs 0x1000 0x2000 0x3000 (init_tasks (blank_kernel ())) = Some k' \<and>
     (\<exists>n k2. find_inode 0x3000 (map of_char ''/dev/ttyS1'') k' = Some (n, k2) \<and> i_device (kn_inodes k' n) = 0x00080001) \<and>
     find_inode 0x3000 (map of_char ''/dev/tty0'') k' = None"
proof -
  have n: "map of_char ''/dev/ttyS1'' = node_name 8" "map of_char ''/dev/tty0'' = node_name 0" "mkdev TTY_MAJOR (of_nat 8) = 0x00080001"
    by code_simp+
  obtain k' where k': "init_fs 0x1000 0x2000 0x3000 (init_tasks (blank_kernel ())) = Some k'"
    "\<forall>m f. 1 \<le> m \<longrightarrow> m < 12 \<longrightarrow> (\<exists>n k2. find_inode f (node_name m) k' = Some (n, k2) \<and> n \<noteq> 0 \<and>
       kn_inodes k' n = \<lparr>i_mode = MODE_CHRDEV, i_device = mkdev TTY_MAJOR (of_nat m), i_fops = Some Chdev_ops\<rparr> \<and>
       f_fops (kn_files k2 f) = Some Chdev_ops)"
    "\<forall>f. find_inode f (node_name 0) k' = None"
    using init_fs_nodes [OF blank_pools(1-3) [of "()"] blank_pools(4-8)] by blast
  obtain n k2 where "find_inode 0x3000 (node_name 8) k' = Some (n, k2)" "i_device (kn_inodes k' n) = mkdev TTY_MAJOR (of_nat 8)"
    using k'(2) [rule_format, of 8 "0x3000"] by auto
  then show ?thesis using k'(1,3) unfolding n(1,2) n(3) [symmetric] by blast
qed

end
