(* ===== verification/Files_Thms.thy ===== *)
theory Files_Thms
  imports Files_Init
begin

text \<open>
  What the system calls on files do: opening a terminal device by its name, closing and duplicating descriptors, and the
  path of a written character from the descriptor to the transmit queue of a serial port.
\<close>

subsection \<open>Device nodes\<close>

text \<open>
  The name \<open>name\<close> has a directory entry whose inode \<open>n\<close> is the one of tty \<open>m\<close>, and the terminal driver is registered for
  the major number of the ttys.
\<close>

definition tty_node :: "'d kernel \<Rightarrow> u8 list \<Rightarrow> u32 \<Rightarrow> nat \<Rightarrow> bool" where
  "tty_node k name n m \<longleftrightarrow> (\<exists>d. find_dentry name k = Some d \<and> d_inode (kn_dentries k d) = n) \<and> n \<noteq> 0 \<and>
     i_fops (kn_inodes k n) = Some Chdev_ops \<and> i_device (kn_inodes k n) = mkdev TTY_MAJOR (of_nat m) \<and> 1 \<le> m \<and> m < 12 \<and>
     length (kn_chdevs k) = 8 \<and> snd (kn_chdevs k ! 1) = Some Tty_fops \<and> length (kn_ttys k) = 12"

lemma mkdev_tty:
  assumes "m < 12"
  shows "DEV_MAJ (mkdev TTY_MAJOR (of_nat m)) = 1" "DEV_MIN (mkdev TTY_MAJOR (of_nat m)) = int m"
proof -
  have "\<forall>m \<in> set [0..<12]. DEV_MAJ (mkdev TTY_MAJOR (of_nat m)) = 1 \<and> DEV_MIN (mkdev TTY_MAJOR (of_nat m)) = int m"
    by code_simp
  then show "DEV_MAJ (mkdev TTY_MAJOR (of_nat m)) = 1" "DEV_MIN (mkdev TTY_MAJOR (of_nat m)) = int m" using assms by auto
qed

lemma get_tty_node:
  assumes "1 \<le> m" "m < 12"
  shows "get_tty (mkdev TTY_MAJOR (of_nat m)) = Inr m"
  using mkdev_tty [OF assms(2)] assms by (simp add: get_tty_def TTY_MAJOR_def NR_TTY_def Let_def)

lemma tty_open_internal_inodes: "tty_open_internal j k = Some (r, k') \<Longrightarrow> kn_inodes k' = kn_inodes k"
  by (auto simp: tty_open_internal_def Let_def bind_eq_Some_conv split: if_splits option.splits)

text \<open>Opening a tty works neither on the pools nor on the file structures.\<close>

lemma tty_open_internal_frame:
  "tty_open_internal m (k\<lparr>kn_pools := s, kn_files := g\<rparr>) =
    map_option (map_prod id (\<lambda>k. k\<lparr>kn_pools := s, kn_files := g\<rparr>)) (tty_open_internal m k)"
proof (cases "m < length (kn_ttys k) \<and> \<not> t_open (ke_tty (kn_ttys k ! m))")
  case True
  define e where "e = (kn_ttys k ! m)\<lparr>ke_tty := n_tty_open ((ke_tty (kn_ttys k ! m))\<lparr>t_termios := default_termios\<rparr>)
    (ke_rxbuf (kn_ttys k ! m)), ke_ldisc := True\<rparr>"
  show ?thesis
  proof (cases "find (drives (t_device (ke_tty e))) (kn_drivers k)")
    case None
    then show ?thesis using True by (simp add: tty_open_internal_def Let_def e_def)
  next
    case (Some d)
    define e2 where "e2 = e\<lparr>ke_driver := Some d, ke_tty := (ke_tty e)\<lparr>t_line := DEV_MIN (t_device (ke_tty e)) - kd_minor_start d\<rparr>\<rparr>"
    have "tty_open_internal m (k\<lparr>kn_pools := s, kn_files := g\<rparr>) = do {
        open_fn \<leftarrow> kd_open d;
        (ret, dev) \<leftarrow> open_fn (ke_tty e2) (kn_dev k);
        let k1 = k\<lparr>kn_pools := s, kn_files := g, kn_ttys := (kn_ttys k)[m := e2], kn_dev := dev\<rparr>;
        if ret \<noteq> 0 then Some (ret, k1)
        else Some (0, k1\<lparr>kn_ttys := (kn_ttys k)[m := e2\<lparr>ke_tty := (ke_tty e2)\<lparr>t_open := True, t_throttled := False,
             t_stopped := False, t_hw_stopped := False\<rparr>\<rparr>]\<rparr>)
      }" for s g
      using True Some unfolding e2_def e_def by (simp add: tty_open_internal_def Let_def cong: if_cong)
    from this [where s = s and g = g] this [where s = "kn_pools k" and g = "kn_files k"] show ?thesis
      by (cases "kd_open d"; cases "the (kd_open d) (ke_tty e2) (kn_dev k)") (auto simp: Let_def)
  qed
qed (auto simp: tty_open_internal_def arr_get_def)


subsection \<open>Opening a tty\<close>

text \<open>
  The file structure of an open tty, and the state after the device was opened as \<open>k1\<close>: the fresh structure is filled in,
  the tty is connected to it, and the descriptor refers to it.
\<close>

definition tty_file :: "u32 \<Rightarrow> u32 \<Rightarrow> nat \<Rightarrow> kfile" where
  "tty_file oflag n m = \<lparr>f_oflag = oflag, f_fops = Some Tty_fops, f_inode = n, f_private = Some m\<rparr>"

definition opened_tty :: "nat \<Rightarrow> nat \<Rightarrow> u32 \<Rightarrow> nat \<Rightarrow> u32 \<Rightarrow> u32 \<Rightarrow> nat \<Rightarrow> 'd kernel \<Rightarrow> 'd kernel \<Rightarrow> 'd kernel" where
  "opened_tty i cb a j oflag n m k k1 = upd_tty m (\<lambda>e. e\<lparr>ke_file := file_at a j\<rparr>)
     (with_file i cb a j (tty_file oflag n m) (k1\<lparr>kn_pools := kn_pools k, kn_files := kn_files k\<rparr>))"

lemma sys_open_tty_eq:
  assumes ok: "files_ok i cb a (j # free) k" and fl: "oflag AND 3 \<noteq> 3" and fd: "0 \<le> next_fd k"
    and node: "tty_node k name n m" and dev: "tty_open_internal m k = Some (ret, k1)" "0 \<le> ret"
  shows "sys_open name oflag k = Some (next_fd k, with_slot (opened_tty i cb a j oflag n m k k1) (nat (next_fd k)) (file_at a j))"
    and "files_ok i cb a free (with_slot (opened_tty i cb a j oflag n m k k1) (nat (next_fd k)) (file_at a j))"
proof -
  let ?f = "file_at a j"
  let ?k0 = "opened i cb a j oflag k"
  have f0: "?f \<noteq> 0" by (rule free_item(3) [OF ok])
  obtain d where d: "find_dentry name k = Some d" "d_inode (kn_dentries k d) = n" using node by (auto simp: tty_node_def)
  have N: "n \<noteq> 0" "i_fops (kn_inodes k n) = Some Chdev_ops" "i_device (kn_inodes k n) = mkdev TTY_MAJOR (of_nat m)"
    "1 \<le> m" "m < 12" "length (kn_chdevs k) = 8" "snd (kn_chdevs k ! 1) = Some Tty_fops"
    using node by (auto simp: tty_node_def)
  define g where "g = (kn_files k)(?f := zero_file\<lparr>f_oflag := oflag, f_fops := Some Chdev_ops\<rparr>)"
  define s where "s = alloc_result i cb a 64 j (kn_pools k)"
  have inode: "find_inode ?f name ?k0 = Some (n, k\<lparr>kn_pools := s, kn_files := g\<rparr>)"
    using d N(1,2) by (simp add: find_inode_def find_dentry_def Let_def g_def s_def opened_def with_file_def)
  have "tty_open_internal m (k\<lparr>kn_pools := s, kn_files := g\<rparr>) = Some (ret, k1\<lparr>kn_pools := s, kn_files := g\<rparr>)"
    using dev by (simp add: tty_open_internal_frame)
  then have "tty_open n ?f (k\<lparr>kn_pools := s, kn_files := g\<rparr>) = Some (0, opened_tty i cb a j oflag n m k k1)"
    using N f0 dev(2) get_tty_node [OF N(4,5)]
    by (simp add: tty_open_def opened_tty_def with_file_def g_def s_def tty_file_def zero_file_def upd_tty_def)
  moreover have "chdev_open n ?f (k\<lparr>kn_pools := s, kn_files := g\<rparr>) = tty_open n ?f (k\<lparr>kn_pools := s, kn_files := g\<rparr>)"
    using N mkdev_tty [OF N(5)] by (cases "kn_chdevs k ! 1") (simp add: chdev_open_def MAX_CHDEV_def Let_def word_le_nat_alt)
  ultimately have "fops_open Chdev_ops n ?f (k\<lparr>kn_pools := s, kn_files := g\<rparr>) = Some (0, opened_tty i cb a j oflag n m k k1)"
    by (simp add: fops_open_def)
  note fo = this
  have "same_fds ?k0 (opened_tty i cb a j oflag n m k k1)"
    using same_fds_trans [OF find_inode_fds [OF inode] fops_open_fds [OF fo]] .
  note inst = install_fresh [OF ok fd this]
  show "sys_open name oflag k = Some (next_fd k, with_slot (opened_tty i cb a j oflag n m k k1) (nat (next_fd k)) ?f)"
    using inode fo inst(1) N(1) by (simp add: sys_open_eq [OF ok fl fd] g_def zero_file_def)
  show "files_ok i cb a free (with_slot (opened_tty i cb a j oflag n m k k1) (nat (next_fd k)) ?f)" by (rule inst(2))
qed


subsection \<open>Errors of opening\<close>

lemma sys_open_missing:
  assumes ok: "files_ok i cb a (j # free) k" and fl: "oflag AND 3 \<noteq> 3" and fd: "0 \<le> next_fd k" and f: "find_dentry name k = None"
  shows "sys_open name oflag k = Some (- ENOENT, opened i cb a j oflag k)"
proof -
  have "find_dentry name (opened i cb a j oflag k) = None" using f by (simp add: find_dentry_def)
  moreover have "(opened i cb a j oflag k)\<lparr>kn_files := (kn_files k)(file_at a j := zero_file\<lparr>f_oflag := oflag, f_fops := None\<rparr>)\<rparr> =
      opened i cb a j oflag k"
    by (simp add: opened_def with_file_def zero_file_def)
  ultimately show ?thesis by (simp add: sys_open_eq [OF ok fl fd] find_inode_def find_dentry_def Let_def)
qed

text \<open>Opening the same name \<open>c\<close> times, each time without success.\<close>

fun failed_opens :: "nat \<Rightarrow> u8 list \<Rightarrow> u32 \<Rightarrow> 'd kernel \<Rightarrow> 'd kernel option" where
  "failed_opens 0 name oflag k = Some k"
| "failed_opens (Suc c) name oflag k = do {
     (ret, k) \<leftarrow> sys_open name oflag k;
     assert_opt (ret = - ENOENT);
     failed_opens c name oflag k
   }"

lemma failed_opens_leak:
  assumes "files_ok i cb a (used @ free) k" "oflag AND 3 \<noteq> 3" "0 \<le> next_fd k" "find_dentry name k = None"
  shows "\<exists>k'. failed_opens (length used) name oflag k = Some k' \<and> files_ok i cb a free k' \<and> kn_tasks k' = kn_tasks k \<and> kn_pid k' = kn_pid k"
  using assms
proof (induction used arbitrary: k)
  case (Cons j used)
  let ?k = "opened i cb a j oflag k"
  have ok: "files_ok i cb a (j # (used @ free)) k" using Cons.prems by simp
  have o: "sys_open name oflag k = Some (- ENOENT, ?k)" by (rule sys_open_missing [OF ok Cons.prems(2-4)])
  have "find_dentry name ?k = None" using Cons.prems(4) by (simp add: find_dentry_def)
  with Cons.IH [OF opened_ok [OF ok] Cons.prems(2)] Cons.prems(3) o show ?case by simp
qed simp


subsection \<open>The serial driver below the descriptors\<close>

definition serial_kdriver :: "uart \<Rightarrow> com list kdriver" where
  "serial_kdriver uart = \<lparr>kd_major = TTY_MAJOR, kd_minor_start = TTYS_MIN, kd_count = int NR_SERIAL, kd_driver = serial_driver,
     kd_open = Some (serial_open uart), kd_close = Some serial_close, kd_ioctl = Some (serial_ioctl uart)\<rparr>"

lemma setup_tx_ring [simp]:
  "c_tx_ring (snd (set_baud uart b com)) = c_tx_ring com" "c_tx_ring (snd (set_mode uart w p s com)) = c_tx_ring com"
  "c_tx_ring (set_fifo e n com) = c_tx_ring com" "c_tx_ring (shadow_regs uart com) = c_tx_ring com"
  unfolding set_baud_def set_mode_def set_fifo_def shadow_regs_def Let_def split_def by simp_all

text \<open>An opened port has an empty transmit queue.\<close>

lemma open_port_ring: "c_tx_ring (snd (open_port uart com)) = ring_init (c_txbuf com) TTY_BUFFER_SIZE"
  unfolding open_port_def Let_def split_def by simp

lemma serial_device:
  assumes "8 \<le> m" "m < 12"
  shows "DEV_MAJ (mkdev TTY_MAJOR (of_nat m)) = 1" "DEV_MIN (mkdev TTY_MAJOR (of_nat m)) = int m"
    "port_of (mkdev TTY_MAJOR (of_nat m)) = m - 8" "drives (mkdev TTY_MAJOR (of_nat m)) (serial_kdriver uart)"
    "t_device tty = mkdev TTY_MAJOR (of_nat m) \<Longrightarrow> tty_get_com tty = Some (Inr (m - 8))"
  using mkdev_tty [OF assms(2)] assms
  by (auto simp: port_of_def drives_def serial_kdriver_def tty_get_com_def get_com_def TTY_MAJOR_def TTYS_MIN_def TTYS_MAX_def
      NR_SERIAL_def Let_def nat_diff_distrib')

text \<open>A port that can be opened: valid, in use by nobody, and its hardware answers the set-up.\<close>

definition port_ready :: "uart \<Rightarrow> com \<Rightarrow> bool" where
  "port_ready uart com \<longleftrightarrow> \<not> c_reserved com \<and> \<not> c_open com \<and> c_valid com \<and> length (c_txbuf com) = 1024 \<and> fst (open_port uart com) = 0"

definition serial_tty :: "uart \<Rightarrow> nat \<Rightarrow> com list ktty \<Rightarrow> bool" where
  "serial_tty uart m e \<longleftrightarrow> ke_ldisc e \<and> ke_driver e = Some (serial_kdriver uart) \<and> t_termios (ke_tty e) = default_termios \<and>
     t_device (ke_tty e) = mkdev TTY_MAJOR (of_nat m)"

lemma serial_tty_opens:
  assumes m: "8 \<le> m" "m < 12" "length (kn_ttys k) = 12" and t: "\<not> t_open (ke_tty (kn_ttys k ! m))"
    "t_device (ke_tty (kn_ttys k ! m)) = mkdev TTY_MAJOR (of_nat m)"
    and d: "kn_drivers k = [serial_kdriver uart]" and p: "length (kn_dev k) = 4" "port_ready uart (kn_dev k ! (m - 8))"
  shows "\<exists>k1. tty_open_internal m k = Some (0, k1) \<and> length (kn_ttys k1) = 12 \<and> serial_tty uart m (kn_ttys k1 ! m) \<and>
    serial_inv (mkdev TTY_MAJOR (of_nat m)) (kn_dev k1) \<and> serial_out (mkdev TTY_MAJOR (of_nat m)) (kn_dev k1) = [] \<and>
    ring_capacity (c_tx_ring (kn_dev k1 ! (m - 8))) = 1024"
proof -
  let ?com = "kn_dev k ! (m - 8)" and ?dev = "mkdev TTY_MAJOR (of_nat m)"
  note dev = serial_device [OF m(1,2)]
  define com where "com = snd (open_port uart ?com)"
  have o: "open_port uart ?com = (0, com)" using p(2) by (simp add: port_ready_def com_def prod_eq_iff)
  have ring: "c_tx_ring com = ring_init (c_txbuf ?com) 1024" by (simp add: com_def open_port_ring TTY_BUFFER_SIZE_def)
  have r: "ring_ok (c_tx_ring com)" "ring_list (c_tx_ring com) = []" "ring_capacity (c_tx_ring com) = 1024"
    using p(2) unfolding ring port_ready_def by (simp_all add: ring_init_ok ring_capacity_def) (simp add: ring_init_def)
  have i: "m - 8 < length (kn_dev k)" using m p(1) by auto
  have so: "serial_open uart tty (kn_dev k) = Some (0, (kn_dev k)[m - 8 := com])" if "t_device tty = ?dev" for tty
    using dev(5) [OF that] p i o by (simp add: serial_open_def port_ready_def)
  have f: "find (drives ?dev) (kn_drivers k) = Some (serial_kdriver uart)" using d dev(4) by simp
  define e where "e = (kn_ttys k ! m)\<lparr>ke_ldisc := True, ke_driver := Some (serial_kdriver uart),
    ke_tty := (n_tty_open ((ke_tty (kn_ttys k ! m))\<lparr>t_termios := default_termios\<rparr>) (ke_rxbuf (kn_ttys k ! m)))
      \<lparr>t_line := DEV_MIN ?dev - kd_minor_start (serial_kdriver uart), t_open := True, t_throttled := False, t_stopped := False, t_hw_stopped := False\<rparr>\<rparr>"
  have "tty_open_internal m k = Some (0, k\<lparr>kn_dev := (kn_dev k)[m - 8 := com], kn_ttys := (kn_ttys k)[m := e]\<rparr>)"
    using m t f so by (simp add: tty_open_internal_def e_def n_tty_open_def serial_kdriver_def Let_def)
  moreover have "serial_tty uart m e" using t by (simp add: serial_tty_def e_def n_tty_open_def)
  moreover have "serial_inv ?dev ((kn_dev k)[m - 8 := com])" "serial_out ?dev ((kn_dev k)[m - 8 := com]) = []"
    using dev(1-3) m p(1) i r by (simp_all add: serial_inv_def serial_out_def)
  ultimately show ?thesis using m i r(3) by simp
qed


text \<open>The kernel after the tasks, the device nodes and the serial driver were set up, with the ports \<open>d\<close>.\<close>

definition boot :: "uart \<Rightarrow> com list \<Rightarrow> (int \<times> com list kernel) option" where
  "boot uart d = do {
     k \<leftarrow> init_fs 0x1000 0x2000 0x3000 (init_tasks (blank_kernel d));
     tty_register_driver (Some (serial_kdriver uart)) (Some (map of_char ''ttyS'')) k
   }"

lemma boot_ok:
  "\<exists>k. boot uart d = Some (0, k) \<and> files_ok 2 64 0x3000 [0..<16] k \<and> (\<forall>m. 1 \<le> m \<longrightarrow> m < 12 \<longrightarrow> tty_node k (node_name m) (node_inode 0x1000 m) m) \<and>
     (\<forall>name. (\<forall>m < 12. take 32 name \<noteq> node_name m) \<longrightarrow> find_dentry name k = None) \<and>
     kn_ttys k = map blank_tty [0..<12] \<and> kn_drivers k = [serial_kdriver uart] \<and> kn_dev k = d \<and> kn_pid k = 0 \<and>
     kn_tasks k = replicate 64 \<lparr>tk_files = replicate 8 0\<rparr>"
proof -
  let ?k0 = "init_tasks (blank_kernel d)"
  obtain k where k: "init_fs 0x1000 0x2000 0x3000 ?k0 = Some k" "nodes_ok 0x1000 0x2000 12 k" "kn_file_pool k = Some 2"
    "pool_rep 2 64 0x3000 64 16 (kn_pools k) [0..<16]" "kn_chdevs k = kn_chdevs ?k0" "kn_ttys k = kn_ttys ?k0" "kn_drivers k = kn_drivers ?k0"
    "kn_dev k = kn_dev ?k0" "kn_tasks k = kn_tasks ?k0" "kn_pid k = kn_pid ?k0"
    using init_fs_ok [OF blank_pools(1-3) [of d] blank_pools(4-8)] by (auto simp: numeral_2_eq_2)
  define nm where "nm = (map of_char ''ttyS'' :: u8 list)"
  define k2 where "k2 = k\<lparr>kn_chdevs := (kn_chdevs k)[1 := (Some nm, Some Tty_fops)], kn_drivers := [serial_kdriver uart]\<rparr>"
  have "tty_register_driver (Some (serial_kdriver uart)) (Some nm) k = Some (0, k2)"
    using k(5,7) by (simp add: tty_register_driver_def register_chdev_def serial_kdriver_def serial_driver_def TTY_MAJOR_def MAX_CHDEV_def
        word_le_nat_alt init_tasks_def blank_kernel_def k2_def)
  then have b: "boot uart d = Some (0, k2)" using k(1) by (simp add: boot_def nm_def)
  have tasks: "kn_tasks k2 = replicate 64 \<lparr>tk_files = replicate 8 0\<rparr>" "kn_pid k2 = 0"
    using k(9,10) by (simp_all add: k2_def init_tasks_def blank_kernel_def MAX_TASK_def MAX_OPEN_def)
  then have "fd_slot k2 t n = 0" if "t < 64" "n < 8" for t n using that by (simp add: fd_slot_def)
  then have ok: "files_ok 2 64 0x3000 [0..<16] k2" using k(3,4) tasks by (simp add: files_ok_def k2_def)
  have nodes: "nodes_ok 0x1000 0x2000 12 k2" using k(2) by (simp add: nodes_ok_def k2_def)
  have "tty_node k2 (node_name m) (node_inode 0x1000 m) m" if m: "1 \<le> m" "m < 12" for m
  proof -
    have "node_inode 0x1000 m \<noteq> 0" using item_addr_nonzero [OF blank_pools(6), of "m - 1"] m by simp
    then show ?thesis
      using find_node [OF nodes m(2)] nodes m k(5,6)
      by (simp add: tty_node_def nodes_ok_def k2_def init_tasks_def blank_kernel_def)
  qed
  moreover have "find_dentry name k2 = None" if "\<forall>m < 12. take 32 name \<noteq> node_name m" for name
    using that nodes by (auto simp: find_dentry_def DENTRY_NAME_LENGTH_def find_None_iff nodes_ok_def)
  ultimately show ?thesis
    using b ok tasks k(6,8) by (simp add: k2_def init_tasks_def blank_kernel_def)
qed

text \<open>A UART that always answers 3, and a port that can be opened with it.\<close>

definition ex_uart :: uart where "ex_uart = (\<lambda>_ _. 3)"

definition ex_port :: com where
  "ex_port = ex_com\<lparr>c_open := False, c_tty := False, c_txbuf := replicate 1024 0\<rparr>"

lemma ex_uart_reads [simp]:
  "fst (com_in ex_uart r com) = 3" "fst (set_baud ex_uart b com)" "fst (set_mode ex_uart 3 0 0 com)"
  "c_ier (shadow_regs ex_uart com) = 3" "c_mcr (shadow_regs ex_uart com) = 3"
proof -
  show r: "fst (com_in ex_uart r com) = 3" for r com by (simp add: com_in_def ex_uart_def Let_def)
  have f: "c_ier (snd (com_in ex_uart r com)) = c_ier com" "c_mcr (snd (com_in ex_uart r com)) = c_mcr com" for r com
    by (simp_all add: com_in_def Let_def)
  show "fst (set_baud ex_uart b com)" unfolding set_baud_def Let_def split_def r by (simp add: ERR_CHK_def)
  show "fst (set_mode ex_uart 3 0 0 com)" unfolding set_mode_def Let_def split_def r by (simp add: ERR_CHK_def)
  show "c_ier (shadow_regs ex_uart com) = 3" "c_mcr (shadow_regs ex_uart com) = 3"
    unfolding shadow_regs_def Let_def split_def r by (simp_all add: f)
qed

lemma ex_port_ready: "port_ready ex_uart ex_port"
proof -
  have "fst (open_port ex_uart com) = 0" for com unfolding open_port_def Let_def split_def by (simp add: ERR_CHK_def)
  then show ?thesis by (simp add: port_ready_def ex_port_def ex_com_def)
qed


subsection \<open>Descriptors keep their file structures\<close>

lemma next_fd_nonneg:
  assumes ok: "files_ok i cb a free k"
  shows "0 \<le> next_fd k \<longleftrightarrow> (\<exists>n < 8. fd_slot k (cur k) n = 0)"
proof -
  have "length (tk_files (kn_tasks k ! cur k)) = 8" using files_okD(5,7) [OF ok] by blast
  moreover have "0 \<le> next_fd k \<longleftrightarrow> 0 \<in> set (tk_files (kn_tasks k ! cur k))"
    using find_next_fd_least(1,3) [of "tk_files (kn_tasks k ! cur k)"] by linarith
  ultimately show ?thesis by (auto simp: in_set_conv_nth fd_slot_def)
qed

text \<open>The first serial port of the booted kernel can be opened.\<close>

lemma boot_ready:
  obtains k k1 where "boot ex_uart (replicate 4 ex_port) = Some (0, k)" "files_ok 2 64 0x3000 (0 # [1..<16]) k" "next_fd k = 0"
    "tty_node k (map of_char ''/dev/ttyS1'') 0x11C0 8" "tty_open_internal 8 k = Some (0, k1)" "length (kn_ttys k1) = 12"
    "serial_tty ex_uart 8 (kn_ttys k1 ! 8)" "kn_pid k = 0" "kn_tasks k = replicate 64 \<lparr>tk_files = replicate 8 0\<rparr>"
    "kn_drivers k = [serial_kdriver ex_uart]" "kn_dev k = replicate 4 ex_port" "kn_ttys k = map blank_tty [0..<12]"
    "find_dentry (map of_char ''/dev/hda'') k = None" "length (kn_dev k1) = 4"
proof -
  obtain k where k: "boot ex_uart (replicate 4 ex_port) = Some (0, k)" "files_ok 2 64 0x3000 [0..<16] k"
    "\<forall>m. 1 \<le> m \<longrightarrow> m < 12 \<longrightarrow> tty_node k (node_name m) (node_inode 0x1000 m) m"
    "kn_ttys k = map blank_tty [0..<12]" "kn_drivers k = [serial_kdriver ex_uart]" "kn_dev k = replicate 4 ex_port" "kn_pid k = 0"
    "kn_tasks k = replicate 64 \<lparr>tk_files = replicate 8 0\<rparr>"
    "\<forall>name. (\<forall>m < 12. take 32 name \<noteq> node_name m) \<longrightarrow> find_dentry name k = None"
    using boot_ok [of ex_uart "replicate 4 ex_port"] by blast
  have name: "map of_char ''/dev/ttyS1'' = node_name 8" "node_inode 0x1000 8 = 0x11C0" by code_simp+
  have "\<forall>m \<in> set [0..<12]. take 32 (map of_char ''/dev/hda'') \<noteq> node_name m" by code_simp
  then have hda: "find_dentry (map of_char ''/dev/hda'') k = None" using k(9) by simp
  have node: "tty_node k (map of_char ''/dev/ttyS1'') 0x11C0 8" using k(3) [rule_format, of 8] unfolding name by simp
  have nf: "next_fd k = 0" using k(7,8) by (simp add: find_next_fd_least(2) [of _ 0, simplified])
  obtain k1 where k1: "tty_open_internal 8 k = Some (0, k1)" "length (kn_ttys k1) = 12" "serial_tty ex_uart 8 (kn_ttys k1 ! 8)"
    "length (kn_dev k1) = 4"
    using serial_tty_opens [of 8 k ex_uart] k ex_port_ready by (auto simp: blank_tty_def serial_inv_def)
  have "files_ok 2 64 0x3000 (0 # [1..<16]) k" using k(2) by (simp add: upt_conv_Cons)
  then show ?thesis using that k nf node k1 hda by blast
qed

lemma ex_items: "item_addr 0x3000 64 0 = 0x3000" "item_addr 0x3000 64 1 = 0x3040"
  by (simp_all add: item_addr_def)

lemma boot_open:
  obtains k k1 k2 where "boot ex_uart (replicate 4 ex_port) = Some (0, k)" "files_ok 2 64 0x3000 (0 # [1..<16]) k"
    "sys_open (map of_char ''/dev/ttyS1'') 2 k = Some (0, k2)" "files_ok 2 64 0x3000 [1..<16] k2" "fd_slot k2 0 0 = 0x3000"
    "fd_slot k2 0 1 = 0" "kn_pid k2 = 0" "fd_slot k2 0 5 = 0" "k2 = with_slot (opened_tty 2 64 0x3000 0 2 0x11C0 8 k k1) 0 0x3000"
    "serial_tty ex_uart 8 (kn_ttys k1 ! 8)" "tty_node k (map of_char ''/dev/ttyS1'') 0x11C0 8"
    "tty_open_internal 8 k = Some (0, k1)" "next_fd k = 0" "length (kn_ttys k1) = 12" "length (kn_dev k1) = 4" "kn_inodes k1 = kn_inodes k"
proof (rule boot_ready)
  fix k k1
  assume k: "boot ex_uart (replicate 4 ex_port) = Some (0, k)" "files_ok 2 64 0x3000 (0 # [1..<16]) k" "next_fd k = 0"
    "tty_node k (map of_char ''/dev/ttyS1'') 0x11C0 8" "tty_open_internal 8 k = Some (0, k1)" "length (kn_ttys k1) = 12"
    "serial_tty ex_uart 8 (kn_ttys k1 ! 8)" "kn_pid k = 0" "kn_tasks k = replicate 64 \<lparr>tk_files = replicate 8 0\<rparr>"
    "length (kn_dev k1) = 4"
  define k2 where "k2 = with_slot (opened_tty 2 64 0x3000 0 2 0x11C0 8 k k1) 0 0x3000"
  have o: "sys_open (map of_char ''/dev/ttyS1'') 2 k = Some (0, k2)" "files_ok 2 64 0x3000 [1..<16] k2"
    using sys_open_tty_eq [OF k(2) _ _ k(4,5), of 2] k(3) ex_items by (simp_all add: k2_def)
  have tk: "kn_tasks k1 = kn_tasks k" "kn_pid k1 = kn_pid k" using tty_open_internal_fds [OF k(5)] by (simp_all add: same_fds_def)
  have "fd_slot k2 0 0 = 0x3000" "fd_slot k2 0 1 = 0" "kn_pid k2 = 0" "fd_slot k2 0 5 = 0"
    using k(8,9) tk by (simp_all add: k2_def fd_slot_def with_slot_def opened_tty_def with_file_def upd_tty_def)
  moreover have "kn_inodes k1 = kn_inodes k" by (rule tty_open_internal_inodes [OF k(5)])
  ultimately show ?thesis using that k o k2_def by blast
qed

text \<open>
  C2: Whatever system calls on files a task makes, and whether they succeed or fail: every open descriptor of every task refers to a file
  structure of its own, an item of the pool that is not on the free list. So no structure is in use twice, none is handed out while
  a descriptor refers to it, and closing never frees an item twice.
\<close>

theorem syscalls_keep_descriptors:
  assumes "files_ok i cb a free k" "syscall\<^sup>*\<^sup>* k k'"
  shows "\<exists>free'. files_ok i cb a free' k'"
  using syscalls_keep [OF assms(2,1)] .

theorem syscalls_keep_descriptors_witness:
  "\<exists>k k' free'. boot ex_uart (replicate 4 ex_port) = Some (0, k) \<and> syscall\<^sup>*\<^sup>* k k' \<and> fd_slot k' 0 0 = 0x3000 \<and>
     files_ok 2 64 0x3000 free' k'"
proof (rule boot_open)
  fix k k2
  assume k: "boot ex_uart (replicate 4 ex_port) = Some (0, k)" "files_ok 2 64 0x3000 (0 # [1..<16]) k"
    "sys_open (map of_char ''/dev/ttyS1'') 2 k = Some (0, k2)" "fd_slot k2 0 0 = 0x3000"
  then have "syscall\<^sup>*\<^sup>* k k2" using syscall.call_open by blast
  with syscalls_keep_descriptors [OF k(2) this] k show ?thesis by blast
qed






subsection \<open>Closing and duplicating\<close>

lemma with_slot_undo:
  assumes "cur k < length (kn_tasks k)" "n < length (tk_files (kn_tasks k ! cur k))" "fd_slot k (cur k) n = 0"
    "kn_tasks k' = kn_tasks (with_slot k n f)" "kn_pid k' = kn_pid k"
  shows "kn_tasks (with_slot k' n 0) = kn_tasks k"
  using assms by (simp add: with_slot_def fd_slot_def) (metis list_update_id task.surjective task.update_convs(1) list_update_overwrite)




text \<open>
  Duplicating an open descriptor, when a descriptor and a file structure are free, returns the least free descriptor; it refers to
  a structure of its own that holds a copy of the one duplicated, and every other descriptor and structure stays as it was. Without a free descriptor the result is
  \<open>-EMFILE\<close>, for a descriptor that is not open \<open>-EBADF\<close>, both without any change; without a free structure an uninitialised pointer is
  written through. Asking \<open>dup2\<close> for descriptor 0 duplicates to the least free descriptor instead.
\<close>

theorem sys_dup_copies:
  assumes ok: "files_ok i cb a free k"
  shows "(fd < 0 \<or> 8 \<le> fd \<or> fd_slot k (cur k) (nat fd) = 0 \<longrightarrow> sys_dup fd k = Some (- EBADF, k)) \<and>
    (0 \<le> fd \<longrightarrow> fd < 8 \<longrightarrow> fd_slot k (cur k) (nat fd) \<noteq> 0 \<longrightarrow>
      (\<forall>n < 8. fd_slot k (cur k) n \<noteq> 0) \<longrightarrow> sys_dup fd k = Some (- EMFILE, k)) \<and>
    (\<forall>n. 0 \<le> fd \<longrightarrow> fd < 8 \<longrightarrow> fd_slot k (cur k) (nat fd) \<noteq> 0 \<longrightarrow>
      n < 8 \<longrightarrow> fd_slot k (cur k) n = 0 \<longrightarrow> (\<forall>l < n. fd_slot k (cur k) l \<noteq> 0) \<longrightarrow>
      (free = [] \<longrightarrow> sys_dup fd k = None) \<and>
      (\<forall>j free'. free = j # free' \<longrightarrow> (\<exists>k'. sys_dup fd k = Some (int n, k') \<and> files_ok i cb a free' k' \<and>
         (\<forall>t l. fd_slot k' t l = (if t = cur k \<and> l = n then file_at a j else fd_slot k t l)) \<and>
         file_at a j \<noteq> fd_slot k (cur k) (nat fd) \<and>
         kn_files k' = (kn_files k)(file_at a j := kn_files k (fd_slot k (cur k) (nat fd))) \<and>
         sys_dup2 fd 0 k = Some (int n, k'))))"
proof (intro conjI impI allI)
  show "sys_dup fd k = Some (- EBADF, k)" if "fd < 0 \<or> 8 \<le> fd \<or> fd_slot k (cur k) (nat fd) = 0"
    unfolding sys_dup_def using that by (intro dupfd_refused [OF ok]) auto
  assume fd: "0 \<le> fd" "fd < 8" "fd_slot k (cur k) (nat fd) \<noteq> 0"
  show "sys_dup fd k = Some (- EMFILE, k)" if "\<forall>n < 8. fd_slot k (cur k) n \<noteq> 0"
    using sys_dup_full [OF ok fd] next_fd_nonneg [OF ok] that by force
  fix n assume n: "n < 8" "fd_slot k (cur k) n = 0" "\<forall>l < n. fd_slot k (cur k) l \<noteq> 0"
  have len: "length (tk_files (kn_tasks k ! cur k)) = 8" "cur k < length (kn_tasks k)" using files_okD(5-7) [OF ok] by auto
  then have nf: "next_fd k = int n" using n by (simp add: find_next_fd_least(2) fd_slot_def)
  then have nf0: "0 \<le> next_fd k" by simp
  show "sys_dup fd k = None" if "free = []" using sys_dup_exhausted [OF _ fd nf0] ok that by simp
  fix j free' assume fr: "free = j # free'"
  with ok have okj: "files_ok i cb a (j # free') k" by simp
  have nfd: "nat fd < 8" using fd by auto
  have ne: "file_at a j \<noteq> fd_slot k (cur k) (nat fd)" using free_item(4) [OF okj files_okD(5) [OF ok] nfd] by simp
  let ?k = "dup_into i cb a j (fd_slot k (cur k) (nat fd)) n k"
  have "fd_slot (with_slot (with_file i cb a j fl k) n f) t l = (if t = cur k \<and> l = n then f else fd_slot k t l)" for fl f t l
    using with_slot_slot [of "with_file i cb a j fl k" n f t l] len n(1) by (simp add: with_file_def fd_slot_def)
  then have "fd_slot ?k t l = (if t = cur k \<and> l = n then file_at a j else fd_slot k t l)" for t l by (simp add: dup_into_def)
  moreover have "kn_files ?k = (kn_files k)(file_at a j := kn_files k (fd_slot k (cur k) (nat fd)))"
    using ne by (simp add: dup_into_def with_file_def)
  moreover have "sys_dup fd k = Some (int n, ?k)" using sys_dup_eq [OF okj fd nf0] nf by simp
  ultimately show "\<exists>k'. sys_dup fd k = Some (int n, k') \<and> files_ok i cb a free' k' \<and>
         (\<forall>t l. fd_slot k' t l = (if t = cur k \<and> l = n then file_at a j else fd_slot k t l)) \<and>
         file_at a j \<noteq> fd_slot k (cur k) (nat fd) \<and>
         kn_files k' = (kn_files k)(file_at a j := kn_files k (fd_slot k (cur k) (nat fd))) \<and>
         sys_dup2 fd 0 k = Some (int n, k')"
    using dup_into_ok [OF okj n(1)] ne by (simp add: sys_dup2_def sys_dup_def)
qed

theorem sys_dup_copies_witness:
  "\<exists>k k2 k3. boot ex_uart (replicate 4 ex_port) = Some (0, k) \<and> sys_open (map of_char ''/dev/ttyS1'') 2 k = Some (0, k2) \<and>
     sys_dup 0 k2 = Some (1, k3) \<and> fd_slot k3 0 1 = 0x3040 \<and> kn_files k3 0x3040 = kn_files k2 0x3000 \<and> sys_dup 5 k2 = Some (- EBADF, k2)"
proof (rule boot_open)
  fix k k2
  assume k: "boot ex_uart (replicate 4 ex_port) = Some (0, k)" "sys_open (map of_char ''/dev/ttyS1'') 2 k = Some (0, k2)"
    "files_ok 2 64 0x3000 [1..<16] k2" "fd_slot k2 0 0 = 0x3000" "fd_slot k2 0 1 = 0" "kn_pid k2 = 0" "fd_slot k2 0 5 = 0"
  have fr: "[1..<16] = 1 # [2..<16]" by (simp add: upt_conv_Cons)
  have l: "\<forall>l < 1. fd_slot k2 (cur k2) l \<noteq> 0" using k(4,6) by simp
  note d = sys_dup_copies [OF k(3), THEN conjunct2, THEN conjunct2, rule_format, of 0 1, OF _ _ _ _ _ _ , THEN conjunct2, rule_format, of 1 "[2..<16]"]
  obtain k3 where "sys_dup 0 k2 = Some (1, k3)" "fd_slot k3 0 1 = 0x3040" "kn_files k3 0x3040 = kn_files k2 0x3000"
    using d [OF _ _ _ _ _ _ fr] k(4-6) l ex_items by (auto simp: fun_upd_def)
  moreover have "sys_dup 5 k2 = Some (- EBADF, k2)" using sys_dup_copies [OF k(3), THEN conjunct1, rule_format, of 5] k(6,7) by simp
  ultimately show ?thesis using k(1,2) by blast
qed


text \<open>
  Duplicating an open descriptor other than 0 to itself with \<open>dup2\<close>, when the driver's close function succeeds, closes it, allocates its structure again and copies the
  cleared structure onto itself: the call returns the descriptor, but it has lost its device, and reading, writing and closing it
  fail with \<open>-ENOSYS\<close>.
\<close>

theorem sys_dup2_same_descriptor:
  assumes ok: "files_ok i cb a free k" and j: "j < 16" "j \<notin> set free"
    and fd: "0 < fd" "fd < 8" "fd_slot k (cur k) (nat fd) = file_at a j" and ops: "f_fops (kn_files k (file_at a j)) = Some Tty_fops"
    and c: "tty_close (file_at a j) k = Some (ret, k1)" "0 \<le> ret"
  shows "\<exists>k'. sys_dup2 fd fd k = Some (fd, k') \<and> fd_slot k' (cur k') (nat fd) = file_at a j \<and> kn_files k' (file_at a j) = zero_file \<and>
    sys_read fd count k' = Some (- ENOSYS, [], k') \<and> sys_write fd buf k' = Some (- ENOSYS, k') \<and> sys_close fd k' = Some (- ENOSYS, k')"
proof -
  let ?f = "file_at a j" and ?n = "nat fd"
  have fd0: "0 \<le> fd" and n: "?n < 8" using fd by auto
  have ne: "?f \<noteq> 0" using item_addr_nonzero [OF _ j(1)] files_okD(2) [OF ok] by (auto simp: pool_rep_def)
  let ?k2 = "(with_slot k1 ?n 0)\<lparr>kn_pools := free_result i cb j (kn_pools k)\<rparr>"
  note ce = sys_close_eq [OF ok j fd0 fd(2,3) ops c(1)]
  have cl: "sys_close fd k = Some (ret, ?k2)" and ok2: "files_ok i cb a (j # free) ?k2" using ce c(2) by auto
  define k' where "k' = dup_into i cb a j ?f ?n ?k2"
  have d: "sys_dup2 fd fd k = Some (fd, k')"
    using sys_dup2_eq [OF ok fd0 fd(2) _ fd(1,2) cl ok2] fd(3) ne by (simp add: k'_def)
  have ok': "files_ok i cb a free k'" unfolding k'_def by (rule dup_into_ok [OF ok2 n])
  have z: "kn_files k' ?f = zero_file" by (simp add: k'_def dup_into_def with_file_def)
  have len: "cur ?k2 < length (kn_tasks ?k2)" "?n < length (tk_files (kn_tasks ?k2 ! cur ?k2))" using files_okD(5-7) [OF ok2] n by auto
  have "fd_slot (with_slot (with_file i cb a j zero_file ?k2) ?n ?f) (cur ?k2) ?n = ?f"
    using with_slot_slot [of "with_file i cb a j zero_file ?k2" ?n ?f "cur ?k2" ?n] len by (simp add: with_file_def)
  then have slot: "fd_slot k' (cur k') ?n = ?f" by (simp add: k'_def dup_into_def with_file_def)
  have "fd_file fd k' = Some (Some ?f)" using fd_file_ok [OF ok', of fd] slot fd fd0 ne by simp
  then show ?thesis
    using d z slot by (intro exI [of _ k']) (simp add: sys_read_def sys_write_def sys_close_def has_ops_def zero_file_def)
qed


lemma serial_tty_closes:
  assumes "kn_files k f = tty_file oflag nd m" "f \<noteq> 0" "nd \<noteq> 0" "i_device (kn_inodes k nd) = mkdev TTY_MAJOR (of_nat m)" "8 \<le> m" "m < 12"
    "length (kn_ttys k) = 12" "serial_tty uart m (kn_ttys k ! m)" "length (kn_dev k) = 4"
  shows "\<exists>k1. tty_close f k = Some (0, k1)"
  using assms get_tty_node [of m] serial_device(5) [of m "ke_tty (kn_ttys k ! m)"]
  by (simp add: tty_close_def tty_file_def serial_tty_def serial_close_def serial_kdriver_def)

theorem sys_dup2_same_descriptor_witness:
  "\<exists>k k2 k3 k4. boot ex_uart (replicate 4 ex_port) = Some (0, k) \<and> sys_open (map of_char ''/dev/ttyS1'') 2 k = Some (0, k2) \<and>
     sys_dup 0 k2 = Some (1, k3) \<and> sys_dup2 1 1 k3 = Some (1, k4) \<and> sys_write 1 [104, 105] k4 = Some (- ENOSYS, k4)"
proof (rule boot_open)
  fix k k1 k2
  assume k: "boot ex_uart (replicate 4 ex_port) = Some (0, k)" "sys_open (map of_char ''/dev/ttyS1'') 2 k = Some (0, k2)"
    "files_ok 2 64 0x3000 [1..<16] k2" "fd_slot k2 0 0 = 0x3000" "fd_slot k2 0 1 = 0" "kn_pid k2 = 0"
    "k2 = with_slot (opened_tty 2 64 0x3000 0 2 0x11C0 8 k k1) 0 0x3000" "serial_tty ex_uart 8 (kn_ttys k1 ! 8)"
    "tty_node k (map of_char ''/dev/ttyS1'') 0x11C0 8" "tty_open_internal 8 k = Some (0, k1)" "length (kn_ttys k1) = 12"
    "length (kn_dev k1) = 4" "kn_inodes k1 = kn_inodes k"
  have "[1..<16] = 1 # [2..<16]" by (simp add: upt_conv_Cons)
  then have ok2: "files_ok 2 64 0x3000 (1 # [2..<16]) k2" using k(3) by (simp only:)
  have len: "length (tk_files (kn_tasks k2 ! cur k2)) = 8" "cur k2 < length (kn_tasks k2)" using files_okD(5-7) [OF ok2] by auto
  have nf: "next_fd k2 = 1" using find_next_fd_least(2) [of "tk_files (kn_tasks k2 ! cur k2)" 1] len k(4-6) by (simp add: fd_slot_def)
  define k3 where "k3 = dup_into 2 64 0x3000 1 0x3000 1 k2"
  have d: "sys_dup 0 k2 = Some (1, k3)" using sys_dup_eq [OF ok2, of 0] k(4,6) nf by (simp add: k3_def)
  have ok3: "files_ok 2 64 0x3000 [2..<16] k3" unfolding k3_def by (rule dup_into_ok [OF ok2]) simp
  have file2: "kn_files k2 0x3000 = tty_file 2 0x11C0 8"
    unfolding k(7) by (simp add: opened_tty_def with_file_def upd_tty_def ex_items)
  have ty: "kn_ttys k2 ! 8 = (kn_ttys k1 ! 8)\<lparr>ke_file := 0x3000\<rparr>" "length (kn_ttys k2) = 12" "kn_dev k2 = kn_dev k1" "kn_inodes k2 = kn_inodes k"
    unfolding k(7) using k(11,13) by (simp_all add: opened_tty_def with_file_def upd_tty_def ex_items)
  have f3: "kn_files k3 0x3040 = tty_file 2 0x11C0 8" "kn_ttys k3 = kn_ttys k2" "kn_dev k3 = kn_dev k2" "kn_inodes k3 = kn_inodes k2" "kn_pid k3 = 0"
    using file2 k(6) ex_items(2) by (simp_all add: k3_def dup_into_def with_file_def)
  have "i_device (kn_inodes k 0x11C0) = mkdev TTY_MAJOR (of_nat 8)" using k(9) by (simp add: tty_node_def)
  then obtain k4 where c: "tty_close 0x3040 k3 = Some (0, k4)"
    using serial_tty_closes [OF f3(1)] f3 ty k(8,12) by (auto simp: serial_tty_def)
  have "fd_slot (with_slot (with_file 2 64 0x3000 1 fl k2) 1 f) 0 1 = f" for fl f
    using with_slot_slot [of "with_file 2 64 0x3000 1 fl k2" 1 f 0 1] len k(6) by (simp add: with_file_def)
  then have slot: "fd_slot k3 (cur k3) (nat 1) = item_addr 0x3000 64 1" using f3(5) by (simp add: k3_def dup_into_def)
  have "f_fops (kn_files k3 (item_addr 0x3000 64 1)) = Some Tty_fops" using f3(1) by (simp only: ex_items) (simp add: tty_file_def)
  with sys_dup2_same_descriptor [OF ok3 _ _ _ _ slot this c [folded ex_items(2)], of 0 "[104, 105]"] d k(1,2)
  show ?thesis by auto
qed

subsection \<open>From the descriptor to the serial port\<close>

text \<open>Writing to a descriptor of a serial tty, by the contract of the line discipline.\<close>

lemma sys_write_serial:
  assumes ok: "files_ok i cb a free k" and fd: "0 \<le> fd" "fd < 8" "fd_slot k (cur k) (nat fd) = f" "f \<noteq> 0"
    and fl: "kn_files k f = tty_file oflag nd m" and t: "m < length (kn_ttys k)" "serial_tty uart m (kn_ttys k ! m)"
    and inv: "serial_inv (mkdev TTY_MAJOR (of_nat m)) (kn_dev k)"
  shows "\<exists>q k'. q \<le> length buf \<and> sys_write fd buf k = Some (int q, k') \<and> same_fds k k' \<and>
    serial_inv (mkdev TTY_MAJOR (of_nat m)) (kn_dev k') \<and>
    serial_out (mkdev TTY_MAJOR (of_nat m)) (kn_dev k') = serial_out (mkdev TTY_MAJOR (of_nat m)) (kn_dev k) @
      concat (map (\<lambda>c. if c = 10 then [13, 10] else [c]) (take q buf)) \<and>
    (length (serial_out (mkdev TTY_MAJOR (of_nat m)) (kn_dev k)) + length (concat (map (\<lambda>c. if c = 10 then [13, 10 :: u8] else [c]) buf))
      \<le> ring_capacity (c_tx_ring (kn_dev k ! port_of (mkdev TTY_MAJOR (of_nat m)))) \<longrightarrow> q = length buf)"
proof (cases "buf = []")
  case True
  then show ?thesis
    using fd fl inv fd_file_ok [OF ok, of fd] by (intro exI [of _ 0] exI [of _ k]) (simp add: sys_write_def has_ops_def tty_file_def)
next
  case False
  define tty where "tty = ldisc_tty (kn_ttys k ! m) k"
  have dev: "t_device tty = mkdev TTY_MAJOR (of_nat m)" and tm: "t_termios tty = default_termios"
    using t(2) by (simp_all add: tty_def ldisc_tty_def serial_tty_def)
  have post: "O_OPOST tty" and chars: "opost_chars tty = (\<lambda>c. if c = 10 then [13, 10] else [c])"
    using tm by (auto simp: opost_chars_def tty_flag_defs default_termios_def fun_eq_iff)
  have inv': "serial_inv (t_device tty) (kn_dev k)" using inv dev by simp
  obtain q d' where w: "q \<le> length buf" "n_tty_write serial_driver tty (kn_dev k) buf = Some (int q, d')" "serial_inv (t_device tty) d'"
    "serial_out (t_device tty) d' = serial_out (t_device tty) (kn_dev k) @ concat (map (opost_chars tty) (take q buf))"
    "length (concat (map (opost_chars tty) buf)) \<le> unat (serial_write_room tty (kn_dev k)) \<longrightarrow> q = length buf"
    using serial.n_tty_write_ok [OF post inv', of buf] by (auto simp: serial_driver_def)
  have "sys_write fd buf k = Some (int q, k\<lparr>kn_dev := d'\<rparr>)"
    using False fd fl t w(2) fd_file_ok [OF ok, of fd]
    by (simp add: sys_write_def has_ops_def tty_file_def tty_write_def serial_tty_def serial_kdriver_def tty_def)
  moreover have "unat (serial_write_room tty (kn_dev k)) =
      ring_capacity (c_tx_ring (kn_dev k ! port_of (t_device tty))) - length (serial_out (t_device tty) (kn_dev k))"
    by (rule serial_room [OF inv'])
  ultimately show ?thesis
    using w unfolding dev chars by (intro exI [of _ q] exI [of _ "k\<lparr>kn_dev := d'\<rparr>"]) simp
qed




end
