(* ===== verification/Tty_Ioctl.thy ===== *)
theory Tty_Ioctl
  imports Files_Thms
begin

text \<open>
  Requests to terminals with \<open>ioctl\<close>: the settings of a tty read back as set and rule the line discipline, the modem lines of a serial port, the
  counters, and the errors. The definitions are those of the theories \<open>Ioctl\<close>, \<open>Serial\<close> and \<open>Files\<close>.
\<close>

subsection \<open>Settings\<close>

lemma length_termios_bytes [simp]: "length (termios_bytes t) = 20"
  by (simp add: termios_bytes_def)

lemma bytes_termios_bytes [simp]: "bytes_termios (termios_bytes t) = t"
proof -
  have w: "take 4 (drop (4 * n) (concat (map word_bytes ws))) = word_bytes (ws ! n)" if "n < length ws" for n ws
    using that
  proof (induction ws arbitrary: n)
    case (Cons w ws)
    then show ?case by (cases n) simp_all
  qed simp
  show ?thesis by (simp add: bytes_termios_def termios_bytes_def w Let_def)
qed

lemma copy_out: "length bs \<le> length mem \<Longrightarrow> copy_to_user (Some mem) bs = Some (True, Some (bs @ drop (length bs) mem))"
  by (simp add: copy_to_user_def)

lemma copy_in: "copy_from_user (Some (bs @ r)) (length bs) = Some (Some bs)"
  by (simp add: copy_from_user_def)

lemma tty_request_numbers:
  "distinct [TCGETS, TCSETS, TIOCMGET, TIOCMSET, TIOCGICOUNT, TIOCSTI]"
  "op \<in> {TCGETS, TCSETS, TIOCMGET, TIOCMSET, TIOCGICOUNT, TIOCSTI} \<Longrightarrow>
    drop_bit 16 (op AND IOCTL_SIZEMASK) \<noteq> 0 \<and> drop_bit 30 (op AND IOCTL_DIRMASK) \<noteq> 0"
  by (auto simp: tty_requests ioctl_numbers IOC_TTY_def)

text \<open>The descriptor \<open>fd\<close> of the current task is open on tty \<open>m\<close>.\<close>

definition on_tty :: "'d kernel \<Rightarrow> int \<Rightarrow> nat \<Rightarrow> bool" where
  "on_tty k fd m \<longleftrightarrow> 0 \<le> fd \<and> fd < 8 \<and> m < length (kn_ttys k) \<and>
     (let f = fd_slot k (cur k) (nat fd) in f \<noteq> 0 \<and> f_fops (kn_files k f) = Some Tty_fops \<and> f_private (kn_files k f) = Some m)"

lemma sys_ioctl_tty:
  assumes "files_ok i cb a free k" "on_tty k fd m"
  shows "sys_ioctl fd op arg k =
    (let sz = drop_bit 16 (op AND IOCTL_SIZEMASK); dir = drop_bit 30 (op AND IOCTL_DIRMASK) in
     if dir \<noteq> 0 \<and> sz = 0 then Some (- EBADRQC, arg, k)
     else if dir \<noteq> 0 \<and> arg = None then Some (- EINVAL, arg, k)
     else tty_ioctl (fd_slot k (cur k) (nat fd)) op arg k)"
  using fd_file_ok [OF assms(1), of fd] assms(2) by (simp add: sys_ioctl_def on_tty_def has_ops_def Let_def)

lemma on_tty_upd: "on_tty (upd_tty j g k) fd m = on_tty k fd m"
  by (simp add: on_tty_def upd_tty_def fd_slot_def)

lemma files_ok_upd_tty: "files_ok i cb a free (upd_tty j g k) = files_ok i cb a free k"
  by (rule same_fds_ok) simp

text \<open>
  C39: The settings of a terminal. Setting them through any descriptor of the tty changes the settings and nothing else, whatever they are, and the
  next request reads back what was set, leaving the memory behind it alone. A request without an argument gives \<open>EINVAL\<close>, a request number that has a direction but no
  size \<open>EBADRQC\<close>, and a descriptor that is not open \<open>EBADF\<close>; they change nothing.
\<close>

theorem termios_round_trip:
  assumes ok: "files_ok i cb a free k" and fd: "on_tty k fd m" and mem: "20 \<le> length mem"
  shows "(\<exists>k'. sys_ioctl fd TCSETS (Some (termios_bytes t @ r)) k = Some (0, Some (termios_bytes t @ r), k') \<and>
      k' = upd_tty m (\<lambda>e. e\<lparr>ke_tty := (ke_tty e)\<lparr>t_termios := t\<rparr>\<rparr>) k \<and>
      sys_ioctl fd TCGETS (Some mem) k' = Some (0, Some (termios_bytes t @ drop 20 mem), k')) \<and>
    (\<forall>op \<in> {TCGETS, TCSETS, TIOCMGET, TIOCMSET, TIOCGICOUNT, TIOCSTI}. sys_ioctl fd op None k = Some (- EINVAL, None, k)) \<and>
    (\<forall>op. op AND IOCTL_DIRMASK \<noteq> 0 \<and> op AND IOCTL_SIZEMASK = 0 \<longrightarrow> sys_ioctl fd op arg k = Some (- EBADRQC, arg, k)) \<and>
    (\<forall>fd' op. fd' < 0 \<or> 8 \<le> fd' \<or> fd_slot k (cur k) (nat fd') = 0 \<longrightarrow> sys_ioctl fd' op arg k = Some (- EBADF, arg, k))"
proof -
  let ?k = "upd_tty m (\<lambda>e. e\<lparr>ke_tty := (ke_tty e)\<lparr>t_termios := t\<rparr>\<rparr>) k"
  have m: "m < length (kn_ttys k)" and f: "fd_slot k (cur k) (nat fd) \<noteq> 0"
    "f_private (kn_files k (fd_slot k (cur k) (nat fd))) = Some m" using fd by (auto simp: on_tty_def Let_def)
  have same: "fd_slot ?k (cur ?k) (nat fd) = fd_slot k (cur k) (nat fd)" "kn_files ?k = kn_files k"
    "length (kn_ttys ?k) = length (kn_ttys k)" "t_termios (ke_tty (kn_ttys ?k ! m)) = t"
    using m by (simp_all add: fd_slot_def upd_tty_def)
  have c: "copy_from_user (Some (termios_bytes t @ r)) 20 = Some (Some (termios_bytes t))"
    using copy_in [of "termios_bytes t" r] by simp
  have ne: "TCSETS \<noteq> TCGETS" using tty_request_numbers(1) by auto
  have ok2: "files_ok i cb a free ?k" and fd2: "on_tty ?k fd m" using ok fd by (simp_all only: files_ok_upd_tty on_tty_upd)
  have set1: "sys_ioctl fd TCSETS (Some (termios_bytes t @ r)) k = Some (0, Some (termios_bytes t @ r), ?k)"
    unfolding sys_ioctl_tty [OF ok fd] using tty_request_numbers(2) [of TCSETS] ne m f c
    by (simp add: tty_ioctl_def set_termios_def upd_tty_def)
  have "sys_ioctl fd TCGETS (Some mem) ?k = Some (0, Some (termios_bytes t @ drop 20 mem), ?k)"
    unfolding sys_ioctl_tty [OF ok2 fd2]
    using tty_request_numbers(2) [of TCGETS] m f copy_out [of "termios_bytes t" mem] mem same
    by (simp add: tty_ioctl_def get_termios_def)
  moreover have "sys_ioctl fd op None k = Some (- EINVAL, None, k)" if "op \<in> {TCGETS, TCSETS, TIOCMGET, TIOCMSET, TIOCGICOUNT, TIOCSTI}" for op
    unfolding sys_ioctl_tty [OF ok fd] using tty_request_numbers(2) [OF that] by simp
  moreover have "drop_bit 30 (op AND IOCTL_DIRMASK) \<noteq> 0" if "op AND IOCTL_DIRMASK \<noteq> 0" for op :: u32
  proof
    assume "drop_bit 30 (op AND IOCTL_DIRMASK) = 0"
    then have "\<not> bit op 30" "\<not> bit op 31"
      using bit_drop_bit_eq [of 30 "op AND IOCTL_DIRMASK"] by (auto simp: IOCTL_DIRMASK_def bit_simps fun_eq_iff dest: spec [of _ 0] spec [of _ 1])
    then have "op AND IOCTL_DIRMASK = 0"
      by (intro bit_word_eqI) (auto simp: bit_simps IOCTL_DIRMASK_def less_Suc_eq numeral_eq_Suc)
    with that show False by simp
  qed
  then have "\<forall>op. op AND IOCTL_DIRMASK \<noteq> 0 \<and> op AND IOCTL_SIZEMASK = 0 \<longrightarrow> sys_ioctl fd op arg k = Some (- EBADRQC, arg, k)"
    unfolding sys_ioctl_tty [OF ok fd] by simp
  moreover have "sys_ioctl fd' op arg k = Some (- EBADF, arg, k)" if "fd' < 0 \<or> 8 \<le> fd' \<or> fd_slot k (cur k) (nat fd') = 0" for fd' op
    using fd_file_ok [OF ok, of fd'] that by (auto simp: sys_ioctl_def)
  ultimately show ?thesis using set1 by blast
qed

theorem termios_round_trip_witness:
  "\<exists>k k2 k3. boot ex_uart (replicate 4 ex_port) = Some (0, k) \<and> sys_open (map of_char ''/dev/ttyS1'') 2 k = Some (0, k2) \<and>
     sys_ioctl 0 TCSETS (Some (termios_bytes (default_termios\<lparr>c_lflag := 0\<rparr>))) k2 =
       Some (0, Some (termios_bytes (default_termios\<lparr>c_lflag := 0\<rparr>)), k3) \<and>
     sys_ioctl 0 TCGETS (Some (replicate 20 0)) k3 = Some (0, Some (termios_bytes (default_termios\<lparr>c_lflag := 0\<rparr>)), k3)"
proof (rule boot_open)
  fix k k1 k2
  assume k: "boot ex_uart (replicate 4 ex_port) = Some (0, k)" "sys_open (map of_char ''/dev/ttyS1'') 2 k = Some (0, k2)"
    "files_ok 2 64 0x3000 [1..<16] k2" "fd_slot k2 0 0 = 0x3000" "kn_pid k2 = 0"
    "k2 = with_slot (opened_tty 2 64 0x3000 0 2 0x11C0 8 k k1) 0 0x3000" "length (kn_ttys k1) = 12"
  have "on_tty k2 0 8"
    using k(4,5,7) by (simp add: on_tty_def Let_def k(6) opened_tty_def with_file_def upd_tty_def tty_file_def item_addr_def)
  from termios_round_trip [OF k(3) this, of "replicate 20 0" "default_termios\<lparr>c_lflag := 0\<rparr>" "[]"] k(1,2)
  show ?thesis by auto
qed

subsection \<open>Modem lines\<close>

lemma and_bit:
  "(w :: 'a :: len word) AND 1 = 0 \<longleftrightarrow> \<not> bit w 0" "w AND 2 = 0 \<longleftrightarrow> \<not> bit w 1" "w AND 4 = 0 \<longleftrightarrow> \<not> bit w 2"
  "w AND 8 = 0 \<longleftrightarrow> \<not> bit w 3" "w AND 16 = 0 \<longleftrightarrow> \<not> bit w 4" "w AND 32 = 0 \<longleftrightarrow> \<not> bit w 5"
  "w AND 64 = 0 \<longleftrightarrow> \<not> bit w 6" "w AND 128 = 0 \<longleftrightarrow> \<not> bit w 7"
  using and_exp_eq_0_iff_not_bit [of w 0] and_exp_eq_0_iff_not_bit [of w 1] and_exp_eq_0_iff_not_bit [of w 2]
    and_exp_eq_0_iff_not_bit [of w 3] and_exp_eq_0_iff_not_bit [of w 4] and_exp_eq_0_iff_not_bit [of w 5]
    and_exp_eq_0_iff_not_bit [of w 6] and_exp_eq_0_iff_not_bit [of w 7] by simp_all

lemma bit_if: "bit (if b then x else 0 :: 'a :: len word) n \<longleftrightarrow> b \<and> bit x n"
  by simp

lemma modem_info_bits:
  "bit (modem_info ctl sts) 0 = bit ctl 0" "bit (modem_info ctl sts) 1 = bit ctl 1" "bit (modem_info ctl sts) 2 = bit ctl 2"
  "bit (modem_info ctl sts) 3 = bit ctl 3" "bit (modem_info ctl sts) 4 = bit sts 4" "bit (modem_info ctl sts) 5 = bit sts 7"
  "bit (modem_info ctl sts) 6 = bit sts 6" "bit (modem_info ctl sts) 7 = bit sts 5"
  by (simp_all add: modem_info_def modem_bits bit_or_iff bit_if and_bit split del: if_split)

lemma check_modem_mcr:
  "c_mcr (snd (check_modem_status uart tty com)) = c_mcr com" "c_msr (snd (check_modem_status uart tty com)) = uart (c_log com) UART_MSR"
  "c_tx_ring (snd (check_modem_status uart tty com)) = c_tx_ring com"
  by (simp_all add: check_modem_status_def com_in_def tx_enable_def tx_disable_def com_out_def Let_def)

definition mcr_of :: "u8 \<Rightarrow> u32 \<Rightarrow> u8" where
  "mcr_of mcr w = (mcr AND NOT 0x0F) OR (if w AND TIOCM_DTR \<noteq> 0 then 0x01 else 0) OR (if w AND TIOCM_RTS \<noteq> 0 then 0x02 else 0) OR
     (if w AND TIOCM_OUT1 \<noteq> 0 then 0x04 else 0) OR (if w AND TIOCM_OUT2 \<noteq> 0 then 0x08 else 0)"

lemma mcr_of_bits:
  assumes "n < 8"
  shows "bit (mcr_of mcr w) n = (if n < 4 then bit w n else bit mcr n)"
proof -
  have "n = 0 \<or> n = 1 \<or> n = 2 \<or> n = 3 \<or> n = 4 \<or> n = 5 \<or> n = 6 \<or> n = 7" using assms by auto
  then show ?thesis
    by (elim disjE) (simp_all add: mcr_of_def modem_bits bit_or_iff bit_and_iff bit_not_iff bit_if and_bit split del: if_split)
qed

lemma set_modem_eq:
  "set_modem_info com (Some (word_bytes w @ r)) = Some (0, com_out UART_MCR (mcr_of (c_mcr com) w) (com\<lparr>c_mcr := mcr_of (c_mcr com) w\<rparr>))"
  using copy_in [of "word_bytes w" r] by (simp add: set_modem_info_def mcr_of_def Let_def or.assoc)

text \<open>
  The modem lines of a serial port. Setting them changes just the four control lines, to the lowest bits of the argument, and writes the register once; reading them back
  gives the control lines as set and the status lines the port reports at that moment. Reading returns 1 on success and 0 for a null pointer, although every other
  request returns 0 on success and a negative error: the result of the copy is returned as it is. Setting from a null pointer gives \<open>EFAULT\<close>, and every unknown request
  \<open>ENOTTY\<close>.
\<close>

theorem modem_lines:
  assumes inv: "serial_inv (t_device tty) g" and open_tty: "c_tty (g ! port_of (t_device tty))" and mem: "4 \<le> length mem"
  shows "\<exists>g1. serial_ioctl uart tty TIOCMSET (Some (word_bytes w @ r)) g = Some (0, Some (word_bytes w @ r), tty, g1) \<and>
      (let i = port_of (t_device tty); sts = uart (c_log (g1 ! i)) UART_MSR in
        (\<forall>n < 8. bit (c_mcr (g1 ! i)) n = (if n < 4 then bit w n else bit (c_mcr (g ! i)) n)) \<and>
        c_log (g1 ! i) = c_log (g ! i) @ [Uout UART_MCR (c_mcr (g1 ! i))] \<and> (\<forall>j. j \<noteq> i \<longrightarrow> g1 ! j = g ! j) \<and>
        (\<exists>info tty' g2. serial_ioctl uart tty TIOCMGET (Some mem) g1 = Some (1, Some (word_bytes info @ drop 4 mem), tty', g2) \<and>
          (\<forall>n < 4. bit info n = bit w n) \<and> bit info 4 = bit sts 4 \<and> bit info 5 = bit sts 7 \<and> bit info 6 = bit sts 6 \<and> bit info 7 = bit sts 5) \<and>
        (\<exists>tty' g2. serial_ioctl uart tty TIOCMGET None g1 = Some (0, None, tty', g2)) \<and>
        serial_ioctl uart tty TIOCMSET None g1 = Some (- EFAULT, None, tty, g1) \<and>
        (\<forall>op arg. op \<notin> {TIOCMGET, TIOCMSET, TIOCGICOUNT} \<longrightarrow> serial_ioctl uart tty op arg g1 = Some (- ENOTTY, arg, tty, g1)))"
proof -
  define i where "i = port_of (t_device tty)"
  have i: "tty_get_com tty = Some (Inr i)" "i < length g" using port_found [OF inv] by (simp_all add: i_def)
  define com where "com = com_out UART_MCR (mcr_of (c_mcr (g ! i)) w) ((g ! i)\<lparr>c_mcr := mcr_of (c_mcr (g ! i)) w\<rparr>)"
  have com: "c_mcr com = mcr_of (c_mcr (g ! i)) w" "c_tty com" "c_log com = c_log (g ! i) @ [Uout UART_MCR (c_mcr com)]"
    using open_tty by (simp_all add: com_def com_out_def UART_MCR_def UART_TX_def i_def)
  have ne: "TIOCMSET \<noteq> TIOCMGET" using tty_request_numbers(1) by auto
  have s1: "serial_ioctl uart tty TIOCMSET (Some (word_bytes w @ r)) g = Some (0, Some (word_bytes w @ r), tty, g[i := com])"
    using i ne by (simp add: serial_ioctl_def set_modem_eq com_def)
  let ?m = "check_modem_status uart tty com" and ?info = "modem_info (c_mcr com) (uart (c_log com) UART_MSR)"
  have g1: "serial_ioctl uart tty TIOCMGET (Some mem) (g[i := com]) =
      Some (1, Some (word_bytes ?info @ drop 4 mem), fst ?m, (g[i := com])[i := snd ?m])"
    using i com(2) copy_out [of "word_bytes ?info" mem] mem check_modem_mcr [of uart tty com]
    by (simp add: serial_ioctl_def get_modem_info_def split_beta Let_def)
  have "\<forall>n < 4. bit ?info n = bit w n"
  proof (intro allI impI)
    fix n :: nat assume "n < 4"
    then have "n = 0 \<or> n = 1 \<or> n = 2 \<or> n = 3" by auto
    then show "bit ?info n = bit w n" using com(1) mcr_of_bits [of n "c_mcr (g ! i)" w] \<open>n < 4\<close> by (auto simp: modem_info_bits simp del: One_nat_def)
  qed
  moreover have "serial_ioctl uart tty TIOCMGET None (g[i := com]) = Some (0, None, fst ?m, (g[i := com])[i := snd ?m])"
    using i com(2) by (simp add: serial_ioctl_def get_modem_info_def copy_to_user_def split_beta Let_def)
  moreover have "serial_ioctl uart tty TIOCMSET None (g[i := com]) = Some (- EFAULT, None, tty, g[i := com])"
    using i ne by (simp add: serial_ioctl_def set_modem_info_def copy_from_user_def)
  moreover have "serial_ioctl uart tty op arg (g[i := com]) = Some (- ENOTTY, arg, tty, g[i := com])" if "op \<notin> {TIOCMGET, TIOCMSET, TIOCGICOUNT}" for op arg
    using i that by (simp add: serial_ioctl_def)
  ultimately show ?thesis
    using s1 g1 i(2) com mcr_of_bits [of _ "c_mcr (g ! i)" w] modem_info_bits(5-8) [of "c_mcr com" "uart (c_log com) UART_MSR"]
    unfolding i_def [symmetric] Let_def
    by (intro exI [of _ "g[i := com]"]) (simp, blast)
qed

theorem modem_lines_witness:
  "\<exists>g1 info tty g2. serial_ioctl (\<lambda>_ _. 0x30) ex_tty TIOCMSET (Some (word_bytes 0x0B)) (replicate 4 ex_com) =
      Some (0, Some (word_bytes 0x0B), ex_tty, g1) \<and>
    serial_ioctl (\<lambda>_ _. 0x30) ex_tty TIOCMGET (Some [0, 0, 0, 0]) g1 = Some (1, Some (word_bytes info), tty, g2) \<and>
    bit info 3 \<and> \<not> bit info 2 \<and> bit info 4 \<and> bit info 7 \<and> \<not> bit info 6"
proof -
  have b: "bit (0x0B :: u32) 3" "\<not> bit (0x0B :: u32) 2" "bit (0x30 :: u8) 4" "bit (0x30 :: u8) 5" "\<not> bit (0x30 :: u8) 6"
    "c_tty (replicate 4 ex_com ! port_of (t_device ex_tty))" by code_simp+
  then obtain g1 info tty g2 where "serial_ioctl (\<lambda>_ _. 0x30) ex_tty TIOCMSET (Some (word_bytes 0x0B)) (replicate 4 ex_com) =
      Some (0, Some (word_bytes 0x0B), ex_tty, g1)"
    "serial_ioctl (\<lambda>_ _. 0x30) ex_tty TIOCMGET (Some [0, 0, 0, 0]) g1 = Some (1, Some (word_bytes info), tty, g2)"
    "\<forall>n < 4. bit info n = bit (0x0B :: u32) n" "bit info 4 = bit (0x30 :: u8) 4" "bit info 6 = bit (0x30 :: u8) 6"
    "bit info 7 = bit (0x30 :: u8) 5"
    using modem_lines [OF ex_serial_inv, of "[0, 0, 0, 0]" "\<lambda>_ _. 0x30" "0x0B" "[]"] by (auto simp: Let_def)
  with b show ?thesis by (intro exI [of _ g1] exI [of _ info] exI [of _ tty] exI [of _ g2]) simp
qed

end
