(* ===== verification/Irq.thy ===== *)
theory Irq
  imports Ohwes_Prelude "HOL-Library.Multiset"
begin

text \<open>
  Device interrupts: the driver of the two 8259A controllers, \<^verbatim>\<open>src/i386/kernel/pic.c\<close>, and the
  interrupt handlers of \<^verbatim>\<open>src/kernel/irq.c\<close>.

  The controllers are modelled as far as the driver uses them: a command byte with bit 4 set starts
  the initialisation, which clears the mask, and the next three data bytes are taken for it; every other data byte is the
  mask, and reading the data port returns it. A command byte \<open>011\<close> in its upper three bits ends the interrupt named
  by the lower three. The interrupt flag saved and restored around the accesses has no effect on them. A
  handler is a value of the type \<open>'h\<close>; a call of it is recorded.
\<close>

record pic =
  pi_imr :: u8
  pi_isr :: u8
  pi_icw :: "u8 list"
  pi_left :: nat

record pics =
  pc_master :: pic
  pc_slave :: pic

definition SLAVE_IRQ :: nat where "SLAVE_IRQ = 2"
definition IRQ_BASE_VECTOR :: u8 where "IRQ_BASE_VECTOR = 0x20"
definition ICW1 :: u8 where "ICW1 = 0x11"
definition ICW2_M :: u8 where "ICW2_M = IRQ_BASE_VECTOR"
definition ICW2_S :: u8 where "ICW2_S = IRQ_BASE_VECTOR + 8"
definition SLAVE_MASK :: u8 where "SLAVE_MASK = push_bit SLAVE_IRQ 1"
definition ICW3_M :: u8 where "ICW3_M = SLAVE_MASK"
definition ICW3_S :: u8 where "ICW3_S = of_nat SLAVE_IRQ"
definition ICW4 :: u8 where "ICW4 = 0x01"
definition OCW1_MASK_ALL :: u8 where "OCW1_MASK_ALL = 0xFF"
definition OCW2_EOI :: u8 where "OCW2_EOI = 0x60"
definition PIC_MASK_ALL :: u16 where "PIC_MASK_ALL = 0xFFFF"

lemmas pic_consts = SLAVE_IRQ_def IRQ_BASE_VECTOR_def ICW1_def ICW2_M_def ICW2_S_def SLAVE_MASK_def ICW3_M_def ICW3_S_def ICW4_def
  OCW1_MASK_ALL_def OCW2_EOI_def PIC_MASK_ALL_def

text \<open>The command and the data port of one controller.\<close>

definition chip_cmd :: "u8 \<Rightarrow> pic \<Rightarrow> pic" where
  "chip_cmd v p =
    (if bit v 4 then p\<lparr>pi_imr := 0, pi_isr := 0, pi_icw := [v], pi_left := 3\<rparr>
     else if v AND 0xE0 = 0x60 then p\<lparr>pi_isr := pi_isr p AND NOT (push_bit (unat (v AND 7)) 1)\<rparr>
     else p)"

definition chip_data :: "u8 \<Rightarrow> pic \<Rightarrow> pic" where
  "chip_data v p =
    (if pi_left p > 0 then p\<lparr>pi_icw := pi_icw p @ [v], pi_left := pi_left p - 1\<rparr> else p\<lparr>pi_imr := v\<rparr>)"

text \<open>False selects the master, true the slave.\<close>

definition on_pic :: "bool \<Rightarrow> (pic \<Rightarrow> pic) \<Rightarrow> pics \<Rightarrow> pics" where
  "on_pic sl f p = (if sl then p\<lparr>pc_slave := f (pc_slave p)\<rparr> else p\<lparr>pc_master := f (pc_master p)\<rparr>)"

definition pic_write_cmd :: "bool \<Rightarrow> u8 \<Rightarrow> pics \<Rightarrow> pics" where
  "pic_write_cmd sl v = on_pic sl (chip_cmd v)"

definition pic_write_data :: "bool \<Rightarrow> u8 \<Rightarrow> pics \<Rightarrow> pics" where
  "pic_write_data sl v = on_pic sl (chip_data v)"

definition pic_read_data :: "bool \<Rightarrow> pics \<Rightarrow> u8" where
  "pic_read_data sl p = pi_imr (if sl then pc_slave p else pc_master p)"

text \<open>An IRQ number is a byte here, as the parameters of the driver's functions are.\<close>

definition pic_eoi :: "u8 \<Rightarrow> pics \<Rightarrow> pics" where
  "pic_eoi irq p =
    (if irq \<ge> 8 then pic_write_cmd False (OCW2_EOI OR of_nat SLAVE_IRQ) (pic_write_cmd True (OCW2_EOI OR (irq AND 7)) p)
     else pic_write_cmd False (OCW2_EOI OR (irq AND 7)) p)"

definition pic_mask :: "u8 \<Rightarrow> pics \<Rightarrow> pics option" where
  "pic_mask irq p = do {
     let sl = (irq \<ge> 8);
     let mask = push_bit (unat (irq AND 7)) 1;
     let ocw1 = pic_read_data sl p OR mask;
     let p = pic_write_data sl ocw1 p;
     assert_opt (ocw1 = pic_read_data sl p);
     Some p
   }"

definition pic_unmask :: "u8 \<Rightarrow> pics \<Rightarrow> pics option" where
  "pic_unmask irq p = do {
     let sl = (irq \<ge> 8);
     let mask = push_bit (unat (irq AND 7)) 1;
     let ocw1 = pic_read_data sl p AND NOT mask;
     let p = pic_write_data sl ocw1 p;
     assert_opt (ocw1 = pic_read_data sl p);
     Some p
   }"

definition pic_getmask :: "pics \<Rightarrow> u16" where
  "pic_getmask p = push_bit 8 (ucast (pic_read_data True p)) OR ucast (pic_read_data False p)"

definition pic_setmask :: "u16 \<Rightarrow> pics \<Rightarrow> pics option" where
  "pic_setmask m p = do {
     let mask_m = ucast (m AND 0xFF);
     let mask_s = ucast (drop_bit 8 m AND 0xFF);
     let p = pic_write_data True mask_s (pic_write_data False mask_m p);
     assert_opt (mask_m = pic_read_data False p);
     assert_opt (mask_s = pic_read_data True p);
     Some p
   }"

definition init_pic :: "pics \<Rightarrow> pics option" where
  "init_pic p = (
     let p = pic_write_cmd False ICW1 p; p = pic_write_data False ICW2_M p; p = pic_write_data False ICW3_M p; p = pic_write_data False ICW4 p;
         p = pic_write_cmd True ICW1 p; p = pic_write_data True ICW2_S p; p = pic_write_data True ICW3_S p; p = pic_write_data True ICW4 p;
         p = pic_write_data False (OCW1_MASK_ALL AND NOT SLAVE_MASK) p; p = pic_write_data True OCW1_MASK_ALL p
     in pic_setmask PIC_MASK_ALL p)"

subsection \<open>Handlers\<close>

definition MAX_ISR :: nat where "MAX_ISR = 8"
definition NR_IRQS :: int where "NR_IRQS = 16"
definition SPURIOUS_THRESH :: int where "SPURIOUS_THRESH = 10"

record 'h irq_state =
  iq_pics :: pics
  iq_isr_map :: "'h option list list"
  iq_spur0 :: int
  iq_spur1 :: int
  iq_calls :: "('h \<times> int) list"

definition irq_mask :: "int \<Rightarrow> 'h irq_state \<Rightarrow> 'h irq_state option" where
  "irq_mask irq s = do { p \<leftarrow> pic_mask (of_int irq) (iq_pics s); Some (s\<lparr>iq_pics := p\<rparr>) }"

definition irq_unmask :: "int \<Rightarrow> 'h irq_state \<Rightarrow> 'h irq_state option" where
  "irq_unmask irq s = do { p \<leftarrow> pic_unmask (of_int irq) (iq_pics s); Some (s\<lparr>iq_pics := p\<rparr>) }"

definition irq_getmask :: "'h irq_state \<Rightarrow> u16" where
  "irq_getmask s = pic_getmask (iq_pics s)"

definition irq_setmask :: "u16 \<Rightarrow> 'h irq_state \<Rightarrow> 'h irq_state option" where
  "irq_setmask m s = do { p \<leftarrow> pic_setmask m (iq_pics s); Some (s\<lparr>iq_pics := p\<rparr>) }"

definition IRQ_VALID :: "int \<Rightarrow> bool" where "IRQ_VALID n \<longleftrightarrow> n \<ge> 0 \<and> n < NR_IRQS"

definition IRQ_MASKED :: "int \<Rightarrow> 'h irq_state \<Rightarrow> bool" where
  "IRQ_MASKED n s \<longleftrightarrow> bit (irq_getmask s) (nat n)"

text \<open>The first entry of a row that is \<open>v\<close>, if there is one, becomes \<open>w\<close>.\<close>

fun replace_first :: "'a \<Rightarrow> 'a \<Rightarrow> 'a list \<Rightarrow> 'a list option" where
  "replace_first v w [] = None"
| "replace_first v w (x # xs) = (if x = v then Some (w # xs) else map_option ((#) x) (replace_first v w xs))"

definition irq_register :: "int \<Rightarrow> 'h \<Rightarrow> 'h irq_state \<Rightarrow> 'h irq_state option" where
  "irq_register irq func s = do {
     assert_opt (IRQ_VALID irq);
     row \<leftarrow> arr_get (iq_isr_map s) (nat irq);
     row \<leftarrow> replace_first None (Some func) row;
     Some (s\<lparr>iq_isr_map := (iq_isr_map s)[nat irq := row]\<rparr>)
   }"

definition irq_unregister :: "int \<Rightarrow> 'h \<Rightarrow> 'h irq_state \<Rightarrow> 'h irq_state option" where
  "irq_unregister irq func s = do {
     assert_opt (IRQ_VALID irq);
     row \<leftarrow> arr_get (iq_isr_map s) (nat irq);
     row \<leftarrow> replace_first (Some func) None row;
     Some (s\<lparr>iq_isr_map := (iq_isr_map s)[nat irq := row]\<rparr>)
   }"

text \<open>
  \<open>handle_irq\<close> for the vector of the interrupt frame; the messages printed for spurious and unhandled interrupts
  are left out.
\<close>

fun call_isrs :: "int \<Rightarrow> 'h option list \<Rightarrow> 'h irq_state \<Rightarrow> 'h irq_state" where
  "call_isrs irq [] s = s"
| "call_isrs irq (None # hs) s = call_isrs irq hs s"
| "call_isrs irq (Some h # hs) s = call_isrs irq hs (s\<lparr>iq_calls := iq_calls s @ [(h, irq)]\<rparr>)"

definition handle_irq :: "u32 \<Rightarrow> 'h irq_state \<Rightarrow> 'h irq_state option" where
  "handle_irq vec s = do {
     let irq = sint (NOT vec);
     let masked = IRQ_MASKED irq s;
     if irq = 7 \<and> masked \<or> irq = 15 \<and> masked then
       Some (if irq = 7 then s\<lparr>iq_spur0 := iq_spur0 s + 1\<rparr> else s\<lparr>iq_spur1 := iq_spur1 s + 1\<rparr>)
     else do {
       let s = s\<lparr>iq_pics := pic_eoi (of_int irq) (iq_pics s)\<rparr>;
       if masked then Some s
       else do {
         assert_opt (irq \<ge> 0);
         row \<leftarrow> arr_get (iq_isr_map s) (nat irq);
         Some (call_isrs irq row s)
       }
     }
   }"


subsection \<open>The masks\<close>

text \<open>Both controllers are initialised: their data ports are the masks.\<close>

definition pics_ready :: "pics \<Rightarrow> bool" where
  "pics_ready p \<longleftrightarrow> pi_left (pc_master p) = 0 \<and> pi_left (pc_slave p) = 0"

text \<open>The masked lines, and the interrupts the processor gets: those of the slave come through line 2 of the master.\<close>

definition masked_irqs :: "pics \<Rightarrow> nat set" where
  "masked_irqs p = {n. n < 16 \<and> bit (pic_getmask p) n}"

definition delivers :: "pics \<Rightarrow> nat \<Rightarrow> bool" where
  "delivers p n \<longleftrightarrow> (if n < 8 then \<not> bit (pi_imr (pc_master p)) n else n < 16 \<and> \<not> bit (pi_imr (pc_slave p)) (n - 8) \<and> \<not> bit (pi_imr (pc_master p)) 2)"

lemma bit_u8_bound: "bit (w :: u8) n \<Longrightarrow> n < 8"
  using bit_imp_le_length [of w n] by simp

lemma getmask_bit: "bit (pic_getmask p) n \<longleftrightarrow> (if n < 8 then bit (pi_imr (pc_master p)) n else n < 16 \<and> bit (pi_imr (pc_slave p)) (n - 8))"
  by (auto simp: pic_getmask_def pic_read_data_def bit_simps dest: bit_u8_bound)

lemma irq_low: "n < 16 \<Longrightarrow> (8 \<le> (of_nat n :: u8)) \<longleftrightarrow> 8 \<le> n" "n < 16 \<Longrightarrow> unat ((of_nat n :: u8) AND 7) = n mod 8"
proof -
  have "\<forall>n \<in> set [0..<16]. ((8 \<le> (of_nat n :: u8)) \<longleftrightarrow> 8 \<le> n) \<and> unat ((of_nat n :: u8) AND 7) = n mod 8" by code_simp
  then show "n < 16 \<Longrightarrow> (8 \<le> (of_nat n :: u8)) \<longleftrightarrow> 8 \<le> n" "n < 16 \<Longrightarrow> unat ((of_nat n :: u8) AND 7) = n mod 8" by auto
qed


lemma pic_rw:
  assumes "pics_ready p"
  shows "pic_read_data sl (pic_write_data sl' v p) = (if sl = sl' then v else pic_read_data sl p)" "pics_ready (pic_write_data sl' v p)"
    "pi_isr (pc_master (pic_write_data sl' v p)) = pi_isr (pc_master p)" "pi_isr (pc_slave (pic_write_data sl' v p)) = pi_isr (pc_slave p)"
  using assms by (auto simp: pics_ready_def pic_read_data_def pic_write_data_def on_pic_def chip_data_def)

lemma getmask_reads: "bit (pic_getmask p) n \<longleftrightarrow> n < 16 \<and> bit (pic_read_data (8 \<le> n) p) (n mod 8)"
  by (cases "n < 8"; cases "n < 16") (simp_all add: getmask_bit pic_read_data_def mod_if)

text \<open>One line is masked or unmasked, the others keep their state, and the readback never fails.\<close>

lemma set_line:
  assumes r: "pics_ready p" and n: "n < 16" and v: "\<And>l. l < 8 \<Longrightarrow> bit v l \<longleftrightarrow> (if l = n mod 8 then b else bit (pic_read_data (8 \<le> n) p) l)"
  shows "bit (pic_getmask (pic_write_data (8 \<le> n) v p)) l \<longleftrightarrow> (if l = n then b else bit (pic_getmask p) l)"
proof (cases "l < 16")
  case True
  have "l mod 8 = n mod 8 \<longleftrightarrow> l = n" if "(8 \<le> l) = (8 \<le> n)"
    using True n that by (cases "8 \<le> l") (auto simp: mod_if)
  then show ?thesis
    using True n v [of "l mod 8"] by (auto simp: getmask_reads pic_rw [OF r])
qed (use n in \<open>auto simp: getmask_reads\<close>)

lemma pic_mask_ok:
  assumes "pics_ready p" "n < 16"
  shows "\<exists>p'. pic_mask (of_nat n) p = Some p' \<and> pics_ready p' \<and> masked_irqs p' = insert n (masked_irqs p)"
proof -
  define v where "v = pic_read_data (8 \<le> n) p OR push_bit (n mod 8) 1"
  have "bit v l \<longleftrightarrow> (if l = n mod 8 then True else bit (pic_read_data (8 \<le> n) p) l)" if "l < 8" for l
    using that by (auto simp: v_def bit_simps)
  note b = set_line [OF assms this]
  have "pic_mask (of_nat n) p = Some (pic_write_data (8 \<le> n) v p)"
    using pic_rw(1) [OF assms(1)] irq_low [OF assms(2)] by (simp add: pic_mask_def v_def Let_def)
  moreover have "masked_irqs (pic_write_data (8 \<le> n) v p) = insert n (masked_irqs p)"
    using b assms(2) by (auto simp: masked_irqs_def)
  ultimately show ?thesis using pic_rw(2) [OF assms(1)] by auto
qed

lemma pic_unmask_ok:
  assumes "pics_ready p" "n < 16"
  shows "\<exists>p'. pic_unmask (of_nat n) p = Some p' \<and> pics_ready p' \<and> masked_irqs p' = masked_irqs p - {n}"
proof -
  define v where "v = pic_read_data (8 \<le> n) p AND NOT (push_bit (n mod 8) 1)"
  have "bit v l \<longleftrightarrow> (if l = n mod 8 then False else bit (pic_read_data (8 \<le> n) p) l)" if "l < 8" for l
    using that by (auto simp: v_def bit_simps)
  note b = set_line [OF assms this]
  have "pic_unmask (of_nat n) p = Some (pic_write_data (8 \<le> n) v p)"
    using pic_rw(1) [OF assms(1)] irq_low [OF assms(2)] by (simp add: pic_unmask_def v_def Let_def)
  moreover have "masked_irqs (pic_write_data (8 \<le> n) v p) = masked_irqs p - {n}"
    using b assms(2) by (auto simp: masked_irqs_def)
  ultimately show ?thesis using pic_rw(2) [OF assms(1)] by auto
qed

lemma pic_setmask_ok:
  assumes "pics_ready p"
  shows "\<exists>p'. pic_setmask m p = Some p' \<and> pics_ready p' \<and> pic_getmask p' = m"
proof -
  define a where "a = (ucast (m AND 0xFF) :: u8)"
  define b where "b = (ucast (drop_bit 8 m AND 0xFF) :: u8)"
  define p' where "p' = pic_write_data True b (pic_write_data False a p)"
  have r: "pic_read_data False p' = a" "pic_read_data True p' = b" "pics_ready p'"
    using pic_rw [OF assms] pic_rw [OF pic_rw(2) [OF assms]] by (simp_all add: p'_def)
  have "pic_setmask m p = Some p'" using r by (simp add: pic_setmask_def a_def b_def p'_def Let_def)
  moreover have "pic_getmask p' = m"
  proof (rule bit_word_eqI)
    have ff: "(0xFF :: u16) = mask 8" by (simp add: mask_eq_exp_minus_1)
    fix n assume "n < LENGTH(16)"
    then show "bit (pic_getmask p') n \<longleftrightarrow> bit m n"
      using r by (cases "n < 8") (auto simp: pic_getmask_def a_def b_def ff bit_simps)
  qed
  ultimately show ?thesis using r(3) by blast
qed

lemma pic_ports:
  "pic_write_cmd False v \<lparr>pc_master = a, pc_slave = b\<rparr> = \<lparr>pc_master = chip_cmd v a, pc_slave = b\<rparr>"
  "pic_write_cmd True v \<lparr>pc_master = a, pc_slave = b\<rparr> = \<lparr>pc_master = a, pc_slave = chip_cmd v b\<rparr>"
  "pic_write_data False v \<lparr>pc_master = a, pc_slave = b\<rparr> = \<lparr>pc_master = chip_data v a, pc_slave = b\<rparr>"
  "pic_write_data True v \<lparr>pc_master = a, pc_slave = b\<rparr> = \<lparr>pc_master = a, pc_slave = chip_data v b\<rparr>"
  by (simp_all add: pic_write_cmd_def pic_write_data_def on_pic_def)

lemma chip_init:
  "chip_data w (chip_data v (chip_data u (chip_cmd ICW1 c))) = \<lparr>pi_imr = 0, pi_isr = 0, pi_icw = [ICW1, u, v, w], pi_left = 0\<rparr>"
  by (simp add: chip_cmd_def chip_data_def ICW1_def)

lemma init_pic_ok:
  "\<exists>p'. init_pic p = Some p' \<and> pics_ready p' \<and> pic_getmask p' = 0xFFFF \<and> pi_isr (pc_master p') = 0 \<and> pi_isr (pc_slave p') = 0 \<and>
    pi_icw (pc_master p') = [0x11, 0x20, 0x04, 0x01] \<and> pi_icw (pc_slave p') = [0x11, 0x28, 0x02, 0x01]"
proof -
  obtain a b where p: "p = \<lparr>pc_master = a, pc_slave = b\<rparr>" by (cases p) auto
  define q where "q = \<lparr>pc_master = \<lparr>pi_imr = 0xFB, pi_isr = 0, pi_icw = [0x11, 0x20, 0x04, 0x01], pi_left = 0\<rparr>,
    pc_slave = \<lparr>pi_imr = 0xFF, pi_isr = 0, pi_icw = [0x11, 0x28, 0x02, 0x01], pi_left = 0\<rparr>\<rparr>"
  have data: "chip_data v \<lparr>pi_imr = x, pi_isr = y, pi_icw = z, pi_left = 0\<rparr> = \<lparr>pi_imr = v, pi_isr = y, pi_icw = z, pi_left = 0\<rparr>" for v x y z
    by (simp add: chip_data_def)
  have "init_pic p = pic_setmask 0xFFFF q"
    unfolding init_pic_def Let_def p pic_ports chip_init data by (simp add: q_def pic_consts)
  moreover have "pic_setmask 0xFFFF q = Some (q\<lparr>pc_master := (pc_master q)\<lparr>pi_imr := 0xFF\<rparr>\<rparr>)"
    by (simp add: q_def pic_setmask_def pic_ports data pic_read_data_def Let_def)
  ultimately show ?thesis by (simp add: q_def pics_ready_def pic_getmask_def pic_read_data_def)
qed


subsection \<open>The tables of handlers\<close>

definition irqs_ok :: "'h irq_state \<Rightarrow> bool" where
  "irqs_ok s \<longleftrightarrow> pics_ready (iq_pics s) \<and> length (iq_isr_map s) = 16 \<and> (\<forall>n < 16. length (iq_isr_map s ! n) = 8)"

text \<open>The handlers of a row, and of a line, in the order of the row.\<close>

definition row_handlers :: "'h option list \<Rightarrow> 'h list" where
  "row_handlers row = map the (filter (\<lambda>h. h \<noteq> None) row)"

definition handlers :: "'h irq_state \<Rightarrow> nat \<Rightarrow> 'h list" where
  "handlers s n = row_handlers (iq_isr_map s ! n)"

lemma replace_first_eq:
  "replace_first v w xs = (if v \<in> set xs then Some (takeWhile (\<lambda>x. x \<noteq> v) xs @ w # tl (dropWhile (\<lambda>x. x \<noteq> v) xs)) else None)"
  by (induction xs) auto

lemma split_first: "v \<in> set xs \<Longrightarrow> xs = takeWhile (\<lambda>x. x \<noteq> v) xs @ v # tl (dropWhile (\<lambda>x. x \<noteq> v) xs)"
  by (induction xs) auto

lemma row_handlers_simps [simp]:
  "row_handlers [] = []" "row_handlers (None # r) = row_handlers r" "row_handlers (Some h # r) = h # row_handlers r"
  "row_handlers (r @ q) = row_handlers r @ row_handlers q"
  by (simp_all add: row_handlers_def)

lemma row_count: "length (row_handlers row) = length row \<longleftrightarrow> None \<notin> set row" "Some h \<in> set row \<longleftrightarrow> h \<in> set (row_handlers row)"
  "length (row_handlers row) \<le> length row"
proof -
  show "length (row_handlers row) \<le> length row" by (simp add: row_handlers_def)
  show "length (row_handlers row) = length row \<longleftrightarrow> None \<notin> set row"
  proof
    assume l: "length (row_handlers row) = length row"
    show "None \<notin> set row"
    proof
      assume "None \<in> set row"
      then have "length (filter (\<lambda>h. h \<noteq> None) row) < length row" by (rule length_filter_less) simp
      then show False using l by (simp add: row_handlers_def)
    qed
  next
    assume "None \<notin> set row"
    then have "filter (\<lambda>h. h \<noteq> None) row = row" by (intro filter_True ballI) metis
    then show "length (row_handlers row) = length row" unfolding row_handlers_def by simp
  qed
  show "Some h \<in> set row \<longleftrightarrow> h \<in> set (row_handlers row)" by (force simp: row_handlers_def)
qed

lemma replace_first_handlers:
  assumes "v \<in> set row"
  obtains row' where "replace_first v w row = Some row'" "length row' = length row"
    "mset (row_handlers row') + mset (row_handlers [v]) = mset (row_handlers row) + mset (row_handlers [w])"
proof -
  define a where "a = takeWhile (\<lambda>x. x \<noteq> v) row"
  define b where "b = tl (dropWhile (\<lambda>x. x \<noteq> v) row)"
  have r: "row = a @ v # b" using split_first [OF assms] by (simp add: a_def b_def)
  have "replace_first v w row = Some (a @ w # b)" using assms by (simp add: replace_first_eq a_def b_def)
  moreover have "row_handlers (x # b) = row_handlers [x] @ row_handlers b" for x
    using row_handlers_simps(4) [of "[x]" b] by simp
  ultimately show ?thesis using that [of "a @ w # b"] r by (simp add: ac_simps)
qed

lemma call_isrs_eq: "call_isrs irq row s = s\<lparr>iq_calls := iq_calls s @ map (\<lambda>h. (h, irq)) (row_handlers row)\<rparr>"
  by (induction irq row s rule: call_isrs.induct) auto


lemma irq_register_ok:
  assumes "irqs_ok s" "n < 16" "length (handlers s n) < 8"
  shows "\<exists>s'. irq_register (int n) h s = Some s' \<and> irqs_ok s' \<and> mset (handlers s' n) = add_mset h (mset (handlers s n)) \<and>
    (\<forall>l. l \<noteq> n \<longrightarrow> handlers s' l = handlers s l) \<and> iq_pics s' = iq_pics s \<and> iq_calls s' = iq_calls s"
proof -
  let ?row = "iq_isr_map s ! n"
  have len: "length ?row = 8" "length (iq_isr_map s) = 16" using assms(1,2) by (auto simp: irqs_ok_def)
  then have "None \<in> set ?row" using row_count(1) [of ?row] assms(3) by (auto simp: handlers_def)
  then obtain row' where r: "replace_first None (Some h) ?row = Some row'" "length row' = length ?row"
    "mset (row_handlers row') = add_mset h (mset (row_handlers ?row))"
    by (rule replace_first_handlers [of None ?row "Some h"]) auto
  let ?s = "s\<lparr>iq_isr_map := (iq_isr_map s)[n := row']\<rparr>"
  have "irq_register (int n) h s = Some ?s" using r(1) len assms(2) by (simp add: irq_register_def IRQ_VALID_def NR_IRQS_def)
  moreover have "irqs_ok ?s" using assms(1,2) r(2) len by (simp add: irqs_ok_def nth_list_update)
  ultimately show ?thesis using r(3) len assms(2) by (intro exI [of _ ?s]) (simp add: handlers_def)
qed

lemma irq_unregister_ok:
  assumes "irqs_ok s" "n < 16" "h \<in> set (handlers s n)"
  shows "\<exists>s'. irq_unregister (int n) h s = Some s' \<and> irqs_ok s' \<and> add_mset h (mset (handlers s' n)) = mset (handlers s n) \<and>
    (\<forall>l. l \<noteq> n \<longrightarrow> handlers s' l = handlers s l) \<and> iq_pics s' = iq_pics s \<and> iq_calls s' = iq_calls s"
proof -
  let ?row = "iq_isr_map s ! n"
  have len: "length ?row = 8" "length (iq_isr_map s) = 16" using assms(1,2) by (auto simp: irqs_ok_def)
  have "Some h \<in> set ?row" using row_count(2) [of h ?row] assms(3) by (simp add: handlers_def)
  then obtain row' where r: "replace_first (Some h) None ?row = Some row'" "length row' = length ?row"
    "add_mset h (mset (row_handlers row')) = mset (row_handlers ?row)"
    by (rule replace_first_handlers [of "Some h" ?row None]) auto
  let ?s = "s\<lparr>iq_isr_map := (iq_isr_map s)[n := row']\<rparr>"
  have "irq_unregister (int n) h s = Some ?s" using r(1) len assms(2) by (simp add: irq_unregister_def IRQ_VALID_def NR_IRQS_def)
  moreover have "irqs_ok ?s" using assms(1,2) r(2) len by (simp add: irqs_ok_def nth_list_update)
  ultimately show ?thesis using r(3) len assms(2) by (intro exI [of _ ?s]) (simp add: handlers_def)
qed

lemma irq_tables_panic:
  assumes "irqs_ok s" "n < 16"
  shows "length (handlers s n) = 8 \<Longrightarrow> irq_register (int n) h s = None"
    and "h \<notin> set (handlers s n) \<Longrightarrow> irq_unregister (int n) h s = None"
proof -
  have len: "length (iq_isr_map s ! n) = 8" "length (iq_isr_map s) = 16" using assms by (auto simp: irqs_ok_def)
  show "length (handlers s n) = 8 \<Longrightarrow> irq_register (int n) h s = None"
    using row_count(1) [of "iq_isr_map s ! n"] len assms(2) by (auto simp: irq_register_def replace_first_eq handlers_def IRQ_VALID_def NR_IRQS_def)
  show "h \<notin> set (handlers s n) \<Longrightarrow> irq_unregister (int n) h s = None"
    using row_count(2) [of h "iq_isr_map s ! n"] len assms(2) by (auto simp: irq_unregister_def replace_first_eq handlers_def IRQ_VALID_def NR_IRQS_def)
qed

text \<open>The end of interrupt.\<close>

lemma eoi_cmd:
  assumes "n < 16"
  shows "bit (OCW2_EOI OR ((of_nat n :: u8) AND 7)) 4 = False" "(OCW2_EOI OR ((of_nat n :: u8) AND 7)) AND 0xE0 = 0x60"
    "unat ((OCW2_EOI OR ((of_nat n :: u8) AND 7)) AND 7) = n mod 8"
proof -
  have "\<forall>n \<in> set [0..<16]. \<not> bit (OCW2_EOI OR ((of_nat n :: u8) AND 7)) 4 \<and> (OCW2_EOI OR ((of_nat n :: u8) AND 7)) AND 0xE0 = 0x60 \<and>
    unat ((OCW2_EOI OR ((of_nat n :: u8) AND 7)) AND 7) = n mod 8" by code_simp
  then show "bit (OCW2_EOI OR ((of_nat n :: u8) AND 7)) 4 = False" "(OCW2_EOI OR ((of_nat n :: u8) AND 7)) AND 0xE0 = 0x60"
    "unat ((OCW2_EOI OR ((of_nat n :: u8) AND 7)) AND 7) = n mod 8" using assms by auto
qed

definition end_of_irq :: "nat \<Rightarrow> pic \<Rightarrow> pic" where
  "end_of_irq n p = p\<lparr>pi_isr := unset_bit n (pi_isr p)\<rparr>"

lemma pic_eoi_eq:
  assumes "n < 16"
  shows "pic_eoi (of_nat n) p = (if 8 \<le> n then p\<lparr>pc_master := end_of_irq 2 (pc_master p), pc_slave := end_of_irq (n - 8) (pc_slave p)\<rparr>
    else p\<lparr>pc_master := end_of_irq n (pc_master p)\<rparr>)"
proof -
  have c: "chip_cmd (OCW2_EOI OR ((of_nat l :: u8) AND 7)) q = end_of_irq (l mod 8) q" if "l < 16" for l q
    using eoi_cmd [OF that] by (simp add: chip_cmd_def end_of_irq_def unset_bit_eq_and_not)
  have two: "OCW2_EOI OR of_nat SLAVE_IRQ = OCW2_EOI OR ((of_nat 2 :: u8) AND 7)" by (simp add: SLAVE_IRQ_def)
  show ?thesis
    unfolding pic_eoi_def irq_low(1) [OF assms] two pic_write_cmd_def on_pic_def using assms c [of n] c [of 2] by (auto simp: mod_if)
qed


text \<open>The state after \<open>init_pic\<close> with empty tables.\<close>

definition fresh_irqs :: "pics \<Rightarrow> 'h irq_state" where
  "fresh_irqs p = \<lparr>iq_pics = p, iq_isr_map = replicate 16 (replicate 8 None), iq_spur0 = 0, iq_spur1 = 0, iq_calls = []\<rparr>"

definition power_on :: pics where
  "power_on = \<lparr>pc_master = \<lparr>pi_imr = 0, pi_isr = 0, pi_icw = [], pi_left = 0\<rparr>, pc_slave = \<lparr>pi_imr = 0, pi_isr = 0, pi_icw = [], pi_left = 0\<rparr>\<rparr>"

lemma fresh_irqs_ok: "pics_ready p \<Longrightarrow> irqs_ok (fresh_irqs p)" "handlers (fresh_irqs p) n = []" if "n < 16"
  using that by (simp_all add: irqs_ok_def fresh_irqs_def handlers_def row_handlers_def)

lemma handle_vec: "n < 16 \<Longrightarrow> sint (NOT (NOT (of_nat n) :: u32)) = int n"
proof -
  have "\<forall>n \<in> set [0..<16]. sint (of_nat n :: u32) = int n" by code_simp
  then show "n < 16 \<Longrightarrow> sint (NOT (NOT (of_nat n) :: u32)) = int n" by simp
qed

text \<open>
  Masking. After \<open>init_pic\<close> both controllers are initialised with the vectors from 0x20 on and all lines are masked. Masking or unmasking an interrupt changes the state
  of its line and of no other; the mask that was set is the one that is read; no readback check fails; and none of these calls touches the handlers.
\<close>

theorem irq_masks_lines:
  assumes s: "irqs_ok s" and n: "n < 16"
  shows "(\<exists>p'. init_pic p = Some p' \<and> pics_ready p' \<and> pic_getmask p' = 0xFFFF \<and>
       pi_icw (pc_master p') = [0x11, 0x20, 0x04, 0x01] \<and> pi_icw (pc_slave p') = [0x11, 0x28, 0x02, 0x01]) \<and>
    (\<exists>p'. irq_mask (int n) s = Some (s\<lparr>iq_pics := p'\<rparr>) \<and> irqs_ok (s\<lparr>iq_pics := p'\<rparr>) \<and> masked_irqs p' = insert n (masked_irqs (iq_pics s))) \<and>
    (\<exists>p'. irq_unmask (int n) s = Some (s\<lparr>iq_pics := p'\<rparr>) \<and> irqs_ok (s\<lparr>iq_pics := p'\<rparr>) \<and> masked_irqs p' = masked_irqs (iq_pics s) - {n}) \<and>
    (\<exists>p'. irq_setmask m s = Some (s\<lparr>iq_pics := p'\<rparr>) \<and> irqs_ok (s\<lparr>iq_pics := p'\<rparr>) \<and> irq_getmask (s\<lparr>iq_pics := p'\<rparr>) = m)"
proof (intro conjI)
  have r: "pics_ready (iq_pics s)" using s by (simp add: irqs_ok_def)
  have ok: "irqs_ok (s\<lparr>iq_pics := p'\<rparr>)" if "pics_ready p'" for p' using s that by (simp add: irqs_ok_def)
  show "\<exists>p'. init_pic p = Some p' \<and> pics_ready p' \<and> pic_getmask p' = 0xFFFF \<and>
       pi_icw (pc_master p') = [0x11, 0x20, 0x04, 0x01] \<and> pi_icw (pc_slave p') = [0x11, 0x28, 0x02, 0x01]"
    using init_pic_ok [of p] by blast
  show "\<exists>p'. irq_mask (int n) s = Some (s\<lparr>iq_pics := p'\<rparr>) \<and> irqs_ok (s\<lparr>iq_pics := p'\<rparr>) \<and> masked_irqs p' = insert n (masked_irqs (iq_pics s))"
    using pic_mask_ok [OF r n] ok by (auto simp: irq_mask_def)
  show "\<exists>p'. irq_unmask (int n) s = Some (s\<lparr>iq_pics := p'\<rparr>) \<and> irqs_ok (s\<lparr>iq_pics := p'\<rparr>) \<and> masked_irqs p' = masked_irqs (iq_pics s) - {n}"
    using pic_unmask_ok [OF r n] ok by (auto simp: irq_unmask_def)
  show "\<exists>p'. irq_setmask m s = Some (s\<lparr>iq_pics := p'\<rparr>) \<and> irqs_ok (s\<lparr>iq_pics := p'\<rparr>) \<and> irq_getmask (s\<lparr>iq_pics := p'\<rparr>) = m"
    using pic_setmask_ok [OF r, of m] ok by (auto simp: irq_setmask_def irq_getmask_def)
qed

theorem irq_masks_lines_witness:
  "\<exists>p s'. init_pic power_on = Some p \<and> irq_unmask 4 (fresh_irqs p :: nat irq_state) = Some s' \<and> masked_irqs (iq_pics s') = masked_irqs p - {4}"
proof -
  obtain p where p: "init_pic power_on = Some p" "pics_ready p" using init_pic_ok by blast
  have ok: "irqs_ok (fresh_irqs p :: nat irq_state)" using fresh_irqs_ok(1) [of 0] p(2) by simp
  have n: "(4 :: nat) < 16" by simp
  obtain q where "irq_unmask 4 (fresh_irqs p :: nat irq_state) = Some ((fresh_irqs p)\<lparr>iq_pics := q\<rparr>)"
    "masked_irqs q = masked_irqs (iq_pics (fresh_irqs p :: nat irq_state)) - {4}"
    using irq_masks_lines [OF ok n, of power_on 0] by auto
  then show ?thesis using p(1) by (simp add: fresh_irqs_def)
qed




subsection \<open>Interrupts of the slave\<close>

text \<open>
  The calls of the kernel after the initialisation: drivers register handlers and unmask their lines, none of which is line 2; the
  panic and crash screens set the mask to all lines, and back to a mask they read before.
\<close>

inductive irq_step :: "'h irq_state \<Rightarrow> 'h irq_state \<Rightarrow> bool" where
  step_mask: "n < 16 \<Longrightarrow> irq_mask (int n) s = Some s' \<Longrightarrow> irq_step s s'"
| step_unmask: "n < 16 \<Longrightarrow> n \<noteq> 2 \<Longrightarrow> irq_unmask (int n) s = Some s' \<Longrightarrow> irq_step s s'"
| step_setmask: "bit m 2 \<Longrightarrow> irq_setmask m s = Some s' \<Longrightarrow> irq_step s s'"
| step_register: "irq_register n h s = Some s' \<Longrightarrow> irq_step s s'"
| step_unregister: "irq_unregister n h s = Some s' \<Longrightarrow> irq_step s s'"
| step_irq: "n < 16 \<Longrightarrow> handle_irq (NOT (of_nat n)) s = Some s' \<Longrightarrow> irq_step s s'"

definition line2_masked :: "'h irq_state \<Rightarrow> bool" where
  "line2_masked s \<longleftrightarrow> pics_ready (iq_pics s) \<and> 2 \<in> masked_irqs (iq_pics s)"

lemma end_of_irq_masks [simp]: "pi_imr (end_of_irq n p) = pi_imr p" "pi_left (end_of_irq n p) = pi_left p"
  by (simp_all add: end_of_irq_def)

lemma irq_step_line2:
  assumes "irq_step s s'" "line2_masked s"
  shows "line2_masked s'"
  using assms(1)
proof cases
  case (step_mask n)
  then show ?thesis using pic_mask_ok [of "iq_pics s" n] assms(2) by (auto simp: irq_mask_def line2_masked_def)
next
  case (step_unmask n)
  obtain p where p: "pic_unmask (of_nat n) (iq_pics s) = Some p" "pics_ready p" "masked_irqs p = masked_irqs (iq_pics s) - {n}"
    using pic_unmask_ok [OF _ step_unmask(1), of "iq_pics s"] assms(2) unfolding line2_masked_def by blast
  have "iq_pics s' = p" using p(1) step_unmask(3) by (auto simp: irq_unmask_def)
  then show ?thesis using p(2,3) assms(2) step_unmask(2) unfolding line2_masked_def by simp
next
  case (step_setmask m)
  then show ?thesis using pic_setmask_ok [of "iq_pics s" m] assms(2) by (auto simp: irq_setmask_def line2_masked_def masked_irqs_def)
next
  case (step_register n h)
  then show ?thesis using assms(2) by (auto simp: irq_register_def line2_masked_def bind_eq_Some_conv)
next
  case (step_unregister n h)
  then show ?thesis using assms(2) by (auto simp: irq_unregister_def line2_masked_def bind_eq_Some_conv)
next
  case (step_irq n)
  have p: "iq_pics s' = iq_pics s \<or> iq_pics s' = pic_eoi (of_nat n) (iq_pics s)"
    using step_irq(2) unfolding handle_irq_def handle_vec [OF step_irq(1)] Let_def call_isrs_eq
    by (auto simp: bind_eq_Some_conv split: if_splits)
  moreover have "pic_getmask (pic_eoi (of_nat n) (iq_pics s)) = pic_getmask (iq_pics s)"
    "pics_ready (pic_eoi (of_nat n) (iq_pics s)) = pics_ready (iq_pics s)"
    unfolding pic_eoi_eq [OF step_irq(1)] by (auto simp: pic_getmask_def pic_read_data_def pics_ready_def)
  ultimately show ?thesis using assms(2) by (auto simp: line2_masked_def masked_irqs_def)
qed

text \<open>
  After \<open>init_pic\<close> no interrupt of the slave controller ever reaches the processor: it first leaves line 2 of the master, where the slave
  is connected, unmasked, but then masks it with all others, and no later call of the kernel unmasks it, even though the handlers of the real-time clock
  are registered and its line of the slave is unmasked.
\<close>

theorem slave_irqs_not_delivered:
  assumes "init_pic p = Some (iq_pics s)" "irq_step\<^sup>*\<^sup>* s s'" "8 \<le> n"
  shows "\<not> delivers (iq_pics s') n"
proof -
  obtain p' where "init_pic p = Some p'" "pics_ready p'" "pic_getmask p' = 0xFFFF" using init_pic_ok by blast
  then have "line2_masked s" using assms(1) by (simp add: line2_masked_def masked_irqs_def)
  with assms(2) have "line2_masked s'" by (induction rule: rtranclp_induct) (auto dest: irq_step_line2)
  then have "bit (pi_imr (pc_master (iq_pics s'))) 2" by (simp add: line2_masked_def masked_irqs_def getmask_bit)
  then show ?thesis using assms(3) by (simp add: delivers_def)
qed

theorem slave_irqs_not_delivered_witness:
  "\<exists>p s'. init_pic power_on = Some p \<and> irq_unmask 8 (fresh_irqs p :: nat irq_state) = Some s' \<and> 8 \<notin> masked_irqs (iq_pics s') \<and>
     \<not> delivers (iq_pics s') 8"
proof -
  obtain p where p: "init_pic power_on = Some p" "pics_ready p" using init_pic_ok by blast
  let ?s = "fresh_irqs p :: nat irq_state"
  have s: "iq_pics ?s = p" by (simp add: fresh_irqs_def)
  have r: "pics_ready (iq_pics ?s)" using p(2) s by simp
  obtain q where q: "pic_unmask (of_nat 8) (iq_pics ?s) = Some q" "masked_irqs q = masked_irqs (iq_pics ?s) - {8}"
    using pic_unmask_ok [OF r, of 8] by auto
  have u: "irq_unmask (int 8) ?s = Some (?s\<lparr>iq_pics := q\<rparr>)" using q(1) by (simp add: irq_unmask_def)
  have "irq_step ?s (?s\<lparr>iq_pics := q\<rparr>)" by (rule irq_step.step_unmask [OF _ _ u]) simp_all
  then have "irq_step\<^sup>*\<^sup>* ?s (?s\<lparr>iq_pics := q\<rparr>)" by blast
  from slave_irqs_not_delivered [OF _ this, of power_on 8] p(1) s u q(2) show ?thesis by auto
qed

end
