(* ===== verification/Timer.thy ===== *)
theory Timer
  imports Ohwes_Prelude
begin

text \<open>
  The interval timer and the speaker, \<^verbatim>\<open>src/i386/kernel/timer.c\<close>. The state holds the counters of the driver (\<open>sleep_ticks\<close> is never used), the bytes written to the timer's ports, and
  the control byte at port 0x61, whose two lower bits switch the speaker. A division by zero has no result, and neither has
  an overflow of a C \<open>int\<close>.
\<close>

record pit_state =
  pt_ticks :: u64
  pt_pcspk_ticks :: u64
  pt_out :: "(u16 \<times> u8) list"
  pt_port61 :: u8

definition PIT_PORT_CHAN0 :: u16 where "PIT_PORT_CHAN0 = 0x40"
definition PIT_PORT_CHAN2 :: u16 where "PIT_PORT_CHAN2 = 0x42"
definition PIT_PORT_CFG :: u16 where "PIT_PORT_CFG = 0x43"
definition PIT_REFCLK :: int where "PIT_REFCLK = 1193182"
definition QUANTUM_MS :: int where "QUANTUM_MS = 20"

text \<open>A C quotient rounds towards zero.\<close>

definition cdiv :: "int \<Rightarrow> int \<Rightarrow> int option" where
  "cdiv n d = (if d = 0 then None else Some (sgn n * sgn d * (\<bar>n\<bar> div \<bar>d\<bar>)))"

definition cint :: "int \<Rightarrow> int option" where
  "cint x = (if - 2147483648 \<le> x \<and> x \<le> 2147483647 then Some x else None)"

definition div_round :: "int \<Rightarrow> int \<Rightarrow> int option" where
  "div_round n d = do {
     h \<leftarrow> cdiv d 2;
     m \<leftarrow> (if (n < 0) = (d < 0) then cint (n + h) else cint (n - h));
     cdiv m d
   }"

definition calculate_divisor :: "int \<Rightarrow> u16 option" where
  "calculate_divisor freq = do {
     d \<leftarrow> div_round PIT_REFCLK freq;
     let d = (if d > 65535 then 65535 else d);
     let d = (if d < 1 then 1 else d);
     Some (of_int d)
   }"

definition outb :: "u16 \<Rightarrow> u8 \<Rightarrow> pit_state \<Rightarrow> pit_state" where
  "outb port v s = s\<lparr>pt_out := pt_out s @ [(port, v)]\<rparr>"

definition init_timer :: "pit_state \<Rightarrow> pit_state option" where
  "init_timer s = do {
     freq \<leftarrow> div_round 1000 QUANTUM_MS;
     d \<leftarrow> calculate_divisor freq;
     Some (outb PIT_PORT_CHAN0 (ucast (drop_bit 8 d AND 0xFF)) (outb PIT_PORT_CHAN0 (ucast (d AND 0xFF)) (outb PIT_PORT_CFG 0x34 s)))
   }"

definition pcspk_on :: "pit_state \<Rightarrow> pit_state" where
  "pcspk_on s = s\<lparr>pt_port61 := pt_port61 s OR 0x03\<rparr>"

definition pcspk_off :: "pit_state \<Rightarrow> pit_state" where
  "pcspk_off s = s\<lparr>pt_port61 := pt_port61 s AND NOT 0x03\<rparr>"

definition beep :: "int \<Rightarrow> int \<Rightarrow> pit_state \<Rightarrow> pit_state option" where
  "beep hz ms s = do {
     d \<leftarrow> calculate_divisor hz;
     let s = outb PIT_PORT_CHAN2 (ucast (drop_bit 8 d AND 0xFF)) (outb PIT_PORT_CHAN2 (ucast (d AND 0xFF)) (outb PIT_PORT_CFG 0xB6 s));
     t \<leftarrow> div_round ms QUANTUM_MS;
     Some (pcspk_on (s\<lparr>pt_pcspk_ticks := of_int t\<rparr>))
   }"

definition timer_interrupt :: "int \<Rightarrow> pit_state \<Rightarrow> pit_state option" where
  "timer_interrupt irq s = do {
     assert_opt (irq = 0);
     let s = s\<lparr>pt_ticks := pt_ticks s + 1\<rparr>;
     Some (if pt_pcspk_ticks s \<noteq> 0 then
         let s = s\<lparr>pt_pcspk_ticks := pt_pcspk_ticks s - 1\<rparr> in
         if pt_pcspk_ticks s = 0 then pcspk_off s else s
       else s)
   }"

subsection \<open>The divisor\<close>

lemma div_round_pos:
  assumes "0 \<le> n" "0 < d" "n + d div 2 \<le> 2147483647"
  shows "div_round n d = Some ((n + d div 2) div d)"
  using assms by (auto simp: div_round_def cdiv_def cint_def sgn_if pos_imp_zdiv_nonneg_iff)

text \<open>\<open>q\<close> is \<open>n / d\<close> rounded to the nearest integer.\<close>

lemma int_div_below:
  assumes "a < b * c" "0 < b"
  shows "a div b < (c :: int)"
proof (rule ccontr)
  assume "\<not> a div b < c"
  then have "b * c \<le> b * (a div b)" using assms(2) by simp
  moreover have "b * (a div b) + a mod b = a" "0 \<le> a mod b" using assms(2) by simp_all
  ultimately show False using assms(1) by linarith
qed

lemma rounded_quotient:
  assumes "0 < (d :: int)"
  shows "2 * \<bar>n - d * ((n + d div 2) div d)\<bar> \<le> d"
proof -
  define h p where "h = d div 2" and "p = d * ((n + h) div d)"
  have "d * ((n + h) div d) + (n + h) mod d = n + h" "0 \<le> (n + h) mod d" "(n + h) mod d < d" using assms by simp_all
  then have "p \<le> n + h" "n + h < p + d" unfolding p_def by linarith+
  moreover have "2 * h \<le> d" "d \<le> 2 * h + 1" unfolding h_def by presburger+
  ultimately have "2 * (n - p) \<le> d" "2 * (p - n) \<le> d" by presburger+
  then show ?thesis unfolding h_def [symmetric] p_def [symmetric] by (simp add: abs_if)
qed


lemma calculate_divisor_eq:
  assumes "0 < freq" "freq \<le> 2147483647"
  shows "calculate_divisor freq = Some (of_int (max 1 (min 65535 ((PIT_REFCLK + freq div 2) div freq))))"
proof -
  have "freq div 2 \<le> 1073741823" using assms(2) by presburger
  then have "div_round PIT_REFCLK freq = Some ((PIT_REFCLK + freq div 2) div freq)"
    using assms by (intro div_round_pos) (auto simp: PIT_REFCLK_def)
  then show ?thesis by (simp add: calculate_divisor_def Let_def max_def min_def)
qed

text \<open>
  The divisor of the timer's clock for a positive frequency is between 1 and 65535. From 19 Hz to 2386364 Hz it is the quotient of the clock's frequency and
  the wanted one, rounded to the nearest integer. For a frequency of 0 the division by zero traps. \<open>init_timer\<close> programs channel 0 with the divisor for 50 Hz, low byte first.
\<close>

theorem timer_divisor:
  assumes f: "0 < freq" "freq \<le> 2147483647"
  shows "\<exists>d. calculate_divisor freq = Some d \<and> 1 \<le> d \<and> unat d \<le> 65535 \<and>
    (19 \<le> freq \<longrightarrow> freq \<le> 2386364 \<longrightarrow> 2 * \<bar>PIT_REFCLK - freq * uint d\<bar> \<le> freq) \<and>
    calculate_divisor 0 = None \<and> map_option pt_out (init_timer s) = Some (pt_out s @ [(0x43, 0x34), (0x40, 0x38), (0x40, 0x5D)])"
proof -
  define q where "q = (PIT_REFCLK + freq div 2) div freq"
  define e where "e = max 1 (min 65535 q)"
  have e: "1 \<le> e" "e \<le> 65535" by (auto simp: e_def)
  have u: "uint (of_int e :: u16) = e" using e by (simp add: uint_word_of_int take_bit_int_eq_self)
  have d: "calculate_divisor freq = Some (of_int e)" using calculate_divisor_eq [OF f] by (simp add: e_def q_def)
  have le: "1 \<le> (of_int e :: u16)" using e u by (simp add: word_le_def)
  have ue: "unat (of_int e :: u16) \<le> 65535" using unat16_bound [of "of_int e"] by simp
  have near: "2 * \<bar>PIT_REFCLK - freq * uint (of_int e :: u16)\<bar> \<le> freq" if r: "19 \<le> freq" "freq \<le> 2386364"
  proof -
    have "freq \<le> PIT_REFCLK + freq div 2" using r by (simp add: PIT_REFCLK_def)
    then have "1 \<le> q" unfolding q_def using f(1) by (simp add: pos_imp_zdiv_pos_iff int_one_le_iff_zero_less)
    moreover have "PIT_REFCLK + freq div 2 < freq * 65536" using r by (simp add: PIT_REFCLK_def)
    then have "q < 65536" unfolding q_def using f(1) by (rule int_div_below)
    ultimately have "e = q" by (simp add: e_def)
    then show ?thesis using rounded_quotient [OF f(1), of PIT_REFCLK] u by (simp add: q_def)
  qed
  have z: "calculate_divisor 0 = None" by code_simp
  have "div_round 1000 QUANTUM_MS = Some 50" "calculate_divisor 50 = Some 0x5D38" by code_simp+
  then have "map_option pt_out (init_timer s) = Some (pt_out s @ [(0x43, 0x34), (0x40, 0x38), (0x40, 0x5D)])"
    by (simp add: init_timer_def outb_def PIT_PORT_CFG_def PIT_PORT_CHAN0_def)
  then show ?thesis using d le ue near z by blast
qed

definition ex_pit :: pit_state where
  "ex_pit = \<lparr>pt_ticks = 0, pt_pcspk_ticks = 0, pt_out = [], pt_port61 = 0x30\<rparr>"

theorem timer_divisor_witness: "\<exists>d. calculate_divisor 440 = Some d \<and> 2 * \<bar>PIT_REFCLK - 440 * uint d\<bar> \<le> 440"
  using timer_divisor [of 440 ex_pit] by auto

subsection \<open>The speaker\<close>

fun timer_ticks :: "nat \<Rightarrow> pit_state \<Rightarrow> pit_state option" where
  "timer_ticks 0 s = Some s"
| "timer_ticks (Suc n) s = do { s \<leftarrow> timer_ticks n s; timer_interrupt 0 s }"

definition speaker_on :: "pit_state \<Rightarrow> bool" where
  "speaker_on s \<longleftrightarrow> pt_port61 s AND 3 = 3"

lemma speaker_switch: "speaker_on (pcspk_on s)" "\<not> speaker_on (pcspk_off s)"
proof -
  have "(w OR 3) AND 3 = 3" "(w AND NOT 3) AND 3 = 0" for w :: u8
    by (rule bit_word_eqI; auto simp: bit_simps)+
  then show "speaker_on (pcspk_on s)" "\<not> speaker_on (pcspk_off s)" by (simp_all add: speaker_on_def pcspk_on_def pcspk_off_def)
qed

lemma timer_ticks_run:
  assumes "speaker_on s" "unat (pt_pcspk_ticks s) = t"
  shows "\<exists>s'. timer_ticks n s = Some s' \<and> pt_ticks s' = pt_ticks s + of_nat n \<and> unat (pt_pcspk_ticks s') = t - n \<and> (speaker_on s' \<longleftrightarrow> t = 0 \<or> n < t)"
proof (induction n)
  case (Suc n)
  then obtain s' where s': "timer_ticks n s = Some s'" "pt_ticks s' = pt_ticks s + of_nat n" "unat (pt_pcspk_ticks s') = t - n"
    "speaker_on s' \<longleftrightarrow> t = 0 \<or> n < t" by auto
  show ?case
  proof (cases "n < t")
    case True
    then have nz: "pt_pcspk_ticks s' \<noteq> 0" using s'(3) by auto
    then have u: "unat (pt_pcspk_ticks s' - 1) = t - Suc n" using s'(3) by (simp add: unat_minus_one)
    define s2 where "s2 = s'\<lparr>pt_ticks := pt_ticks s' + 1, pt_pcspk_ticks := pt_pcspk_ticks s' - 1\<rparr>"
    have i: "timer_interrupt 0 s' = Some (if t = Suc n then pcspk_off s2 else s2)"
      using nz u True by (auto simp: timer_interrupt_def Let_def s2_def unat_eq_zero)
    have "speaker_on s2" using s'(4) True by (simp add: speaker_on_def s2_def)
    then show ?thesis
      using i s' u True speaker_switch(2) [of s2] by (auto simp: s2_def pcspk_off_def)
  next
    case False
    then have "pt_pcspk_ticks s' = 0" using s'(3) by (simp add: unat_eq_zero)
    then have "timer_interrupt 0 s' = Some (s'\<lparr>pt_ticks := pt_ticks s' + 1\<rparr>)" by (simp add: timer_interrupt_def Let_def)
    then show ?thesis using s' False by (auto simp: speaker_on_def)
  qed
qed (use assms in auto)

text \<open>
  A beep of a positive frequency for \<open>ms\<close> milliseconds switches the speaker on, and the timer interrupts switch it off after \<open>ms / 20\<close> of them, rounded to the nearest integer;
  every interrupt counts as one tick. But when \<open>ms\<close> is below 10 that number is 0, and the speaker stays on for ever.
\<close>

theorem beep_duration:
  assumes "0 < hz" "hz \<le> 2147483647" "0 \<le> ms" "ms \<le> 2147483637"
  shows "\<exists>s'. beep hz ms s = Some s' \<and> speaker_on s' \<and>
    (\<forall>n. \<exists>s2. timer_ticks n s' = Some s2 \<and> pt_ticks s2 = pt_ticks s + of_nat n \<and>
       (speaker_on s2 \<longleftrightarrow> ms < 10 \<or> int n < (ms + 10) div 20))"
proof -
  obtain d where d: "calculate_divisor hz = Some d" using calculate_divisor_eq [OF assms(1,2)] by blast
  define t where "t = (ms + 10) div 20"
  have t: "0 \<le> t" "t \<le> 107374183" unfolding t_def using assms(3,4) zdiv_mono1 [of "ms + 10" 2147483647 20] by (simp_all add: pos_imp_zdiv_nonneg_iff)
  have r: "div_round ms QUANTUM_MS = Some t"
    using div_round_pos [of ms 20] assms(3,4) by (simp add: QUANTUM_MS_def t_def)
  define s' where "s' = pcspk_on ((outb PIT_PORT_CHAN2 (ucast (drop_bit 8 d AND 0xFF)) (outb PIT_PORT_CHAN2 (ucast (d AND 0xFF)) (outb PIT_PORT_CFG 0xB6 s)))
    \<lparr>pt_pcspk_ticks := of_int t\<rparr>)"
  have b: "beep hz ms s = Some s'" using d r by (simp add: beep_def s'_def Let_def)
  have on: "speaker_on s'" unfolding s'_def by (rule speaker_switch(1))
  have ticks: "pt_ticks s' = pt_ticks s" by (simp add: s'_def pcspk_on_def outb_def)
  have "uint (of_int t :: u64) = t" using t by (simp add: uint_word_of_int take_bit_int_eq_self)
  then have u: "unat (pt_pcspk_ticks s') = nat t" by (simp add: s'_def pcspk_on_def unat_eq_nat_uint)
  have eq: "nat t = 0 \<or> n < nat t \<longleftrightarrow> ms < 10 \<or> int n < t" for n
    using t(1) assms(3) unfolding t_def by (auto simp: nat_less_iff zless_nat_eq_int_zless)
  have "\<exists>s2. timer_ticks n s' = Some s2 \<and> pt_ticks s2 = pt_ticks s + of_nat n \<and> (speaker_on s2 \<longleftrightarrow> ms < 10 \<or> int n < t)" for n
    using timer_ticks_run [OF on u, of n] unfolding eq ticks by blast
  then show ?thesis using b on unfolding t_def by blast
qed

theorem beep_duration_witness:
  "\<exists>s1 s2 s3. beep 440 100 ex_pit = Some s1 \<and> timer_ticks 4 s1 = Some s2 \<and> speaker_on s2 \<and> timer_ticks 5 s1 = Some s3 \<and> \<not> speaker_on s3"
proof -
  obtain s1 where s1: "beep 440 100 ex_pit = Some s1"
    "\<forall>n. \<exists>s2. timer_ticks n s1 = Some s2 \<and> pt_ticks s2 = pt_ticks ex_pit + of_nat n \<and> (speaker_on s2 \<longleftrightarrow> (100 :: int) < 10 \<or> int n < (100 + 10) div 20)"
    using beep_duration [of 440 100 ex_pit] by auto
  then show ?thesis using s1(2) [rule_format, of 4] s1(2) [rule_format, of 5] by auto
qed

end
