(* ===== verification/Rtc.thy ===== *)
theory Rtc
  imports Timer Irq Ioctl
begin

text \<open>
  The real-time clock: \<^verbatim>\<open>src/kernel/char/rtc.c\<close>, the CMOS accesses of \<^verbatim>\<open>src/include/i386/io.h\<close>
  and the copies from and to user memory of \<^verbatim>\<open>src/include/kernel/ioctl.h\<close>.

  The chip is modelled as far as the driver uses it. Port 0x70 takes the index of a byte in its lower seven bits, and bit 7 masks the
  non-maskable interrupt; port 0x71 accesses the byte. Register A reports an update in progress for a
  number of further reads (\<open>cm_busy\<close>), its bit 7 cannot be written, registers C and D are read-only, and a read of C clears
  it. The clock does not advance between two calls.

  User memory at the argument of an ioctl is a list of bytes; the null pointer is \<open>None\<close>. Messages are left out, and so is the interrupt flag.
\<close>

subsection \<open>CMOS\<close>

record cmos =
  cm_index :: u8
  cm_ram :: "u8 \<Rightarrow> u8"
  cm_busy :: nat

definition cmos_index_out :: "u8 \<Rightarrow> cmos \<Rightarrow> cmos" where
  "cmos_index_out v c = c\<lparr>cm_index := v\<rparr>"

definition cmos_data_in :: "cmos \<Rightarrow> u8 \<times> cmos" where
  "cmos_data_in c = (
     let a = cm_index c AND 0x7F in
     if a = 0xA then ((cm_ram c a AND 0x7F) OR (if cm_busy c > 0 then 0x80 else 0), c\<lparr>cm_busy := cm_busy c - 1\<rparr>)
     else if a = 0xC then (cm_ram c a, c\<lparr>cm_ram := (cm_ram c)(a := 0)\<rparr>)
     else (cm_ram c a, c))"

definition cmos_data_out :: "u8 \<Rightarrow> cmos \<Rightarrow> cmos" where
  "cmos_data_out v c = (
     let a = cm_index c AND 0x7F in
     if a = 0xC \<or> a = 0xD then c
     else if a = 0xA then c\<lparr>cm_ram := (cm_ram c)(a := v AND 0x7F)\<rparr>
     else c\<lparr>cm_ram := (cm_ram c)(a := v)\<rparr>)"

definition CMOS_INDEX_PORT :: u8 where "CMOS_INDEX_PORT = 0x70"

definition cmos_read :: "u8 \<Rightarrow> cmos \<Rightarrow> u8 \<times> cmos" where
  "cmos_read addr c = cmos_data_in (cmos_index_out addr c)"

definition cmos_write :: "u8 \<Rightarrow> u8 \<Rightarrow> cmos \<Rightarrow> cmos" where
  "cmos_write addr v c = cmos_data_out v (cmos_index_out addr c)"

definition nmi_disable :: "cmos \<Rightarrow> cmos" where
  "nmi_disable c = (let (v, c) = cmos_read CMOS_INDEX_PORT c in cmos_write CMOS_INDEX_PORT (v OR 0x80) c)"

definition nmi_enable :: "cmos \<Rightarrow> cmos" where
  "nmi_enable c = (let (v, c) = cmos_read CMOS_INDEX_PORT c in cmos_write CMOS_INDEX_PORT (v AND 0x7F) c)"

subsection \<open>The driver\<close>

definition PORT_REG_A :: u8 where "PORT_REG_A = 0xA"
definition PORT_REG_B :: u8 where "PORT_REG_B = 0xB"
definition PORT_REG_C :: u8 where "PORT_REG_C = 0xC"
definition PORT_REG_D :: u8 where "PORT_REG_D = 0xD"
definition REG_A_RATE :: u8 where "REG_A_RATE = 0x0F"
definition REG_A_UIP :: u8 where "REG_A_UIP = 0x80"
definition REG_B_DSE :: u8 where "REG_B_DSE = 0x01"
definition REG_B_24H :: u8 where "REG_B_24H = 0x02"
definition REG_B_DM :: u8 where "REG_B_DM = 0x04"
definition REG_B_UIE :: u8 where "REG_B_UIE = 0x10"
definition REG_B_AIE :: u8 where "REG_B_AIE = 0x20"
definition REG_B_PIE :: u8 where "REG_B_PIE = 0x40"
definition REG_B_SET :: u8 where "REG_B_SET = 0x80"
definition REG_C_UF :: u8 where "REG_C_UF = 0x10"
definition REG_C_AF :: u8 where "REG_C_AF = 0x20"
definition REG_C_PF :: u8 where "REG_C_PF = 0x40"
definition REG_SECONDS :: u8 where "REG_SECONDS = 0"
definition REG_SECONDS_ALARM :: u8 where "REG_SECONDS_ALARM = 1"
definition REG_MINUTES :: u8 where "REG_MINUTES = 2"
definition REG_MINUTES_ALARM :: u8 where "REG_MINUTES_ALARM = 3"
definition REG_HOURS :: u8 where "REG_HOURS = 4"
definition REG_HOURS_ALARM :: u8 where "REG_HOURS_ALARM = 5"
definition REG_DATEOFMONTH :: u8 where "REG_DATEOFMONTH = 7"
definition REG_MONTH :: u8 where "REG_MONTH = 8"
definition REG_YEAR :: u8 where "REG_YEAR = 9"
definition PM_FLAG :: int where "PM_FLAG = 0x80"
definition IRQ_RTC :: int where "IRQ_RTC = 8"
definition RTC_RATE_8192Hz :: u8 where "RTC_RATE_8192Hz = 0x3"
definition RTC_RATE_2Hz :: u8 where "RTC_RATE_2Hz = 0xF"

lemmas rtc_consts = CMOS_INDEX_PORT_def PORT_REG_A_def PORT_REG_B_def PORT_REG_C_def PORT_REG_D_def REG_A_RATE_def REG_A_UIP_def
  REG_B_DSE_def REG_B_24H_def REG_B_DM_def REG_B_UIE_def REG_B_AIE_def REG_B_PIE_def REG_B_SET_def REG_C_UF_def REG_C_AF_def REG_C_PF_def
  REG_SECONDS_def REG_SECONDS_ALARM_def REG_MINUTES_def REG_MINUTES_ALARM_def REG_HOURS_def REG_HOURS_ALARM_def REG_DATEOFMONTH_def
  REG_MONTH_def REG_YEAR_def PM_FLAG_def IRQ_RTC_def RTC_RATE_8192Hz_def RTC_RATE_2Hz_def

definition bcd2bin :: "int \<Rightarrow> int" where
  "bcd2bin n = drop_bit 4 n * 10 + (n AND 0x0F)"

text \<open>A left shift of a negative number or out of range has no result.\<close>

definition bin2bcd :: "int \<Rightarrow> int option" where
  "bin2bcd n = do {
     q \<leftarrow> cdiv n 10;
     assert_opt (0 \<le> q);
     h \<leftarrow> cint (q * 16);
     cint (h + (n - q * 10))
   }"

record rtc_time =
  tm_sec :: int
  tm_min :: int
  tm_hour :: int
  tm_mday :: int
  tm_mon :: int
  tm_year :: int
  tm_wday :: int
  tm_yday :: int
  tm_isdst :: int

record rtc =
  int_count :: u64
  alarm_ticks :: u64
  periodic_ticks :: u64
  update_ticks :: u64
  rtc_cmos :: cmos

definition init_rtc :: "'h \<Rightarrow> rtc \<times> 'h irq_state \<Rightarrow> (rtc \<times> 'h irq_state) option" where
  "init_rtc h = (\<lambda>(s, q). do {
     let c = nmi_disable (rtc_cmos s);
     let (_, c) = cmos_read PORT_REG_C c;
     let (_, c) = cmos_read PORT_REG_D c;
     let (d, c) = cmos_read PORT_REG_A c;
     let c = cmos_write PORT_REG_A (d OR 0x20) c;
     let (d, c) = cmos_read PORT_REG_B c;
     let d = d AND NOT REG_B_UIE AND NOT REG_B_AIE AND NOT REG_B_PIE AND NOT REG_B_DSE;
     let c = cmos_write PORT_REG_B d c;
     q \<leftarrow> irq_register IRQ_RTC h q;
     q \<leftarrow> irq_unmask IRQ_RTC q;
     Some (s\<lparr>rtc_cmos := nmi_enable c\<rparr>, q)
   })"

definition rtc_interrupt :: "int \<Rightarrow> rtc \<Rightarrow> rtc option" where
  "rtc_interrupt irq s = do {
     assert_opt (irq = IRQ_RTC);
     let (reg_c, c) = cmos_read PORT_REG_C (rtc_cmos s);
     let s = s\<lparr>rtc_cmos := c\<rparr>;
     let s = (if reg_c AND REG_C_AF \<noteq> 0 then s\<lparr>alarm_ticks := alarm_ticks s + 1\<rparr> else s);
     let s = (if reg_c AND REG_C_PF \<noteq> 0 then s\<lparr>periodic_ticks := periodic_ticks s + 1\<rparr> else s);
     let s = (if reg_c AND REG_C_UF \<noteq> 0 then s\<lparr>update_ticks := update_ticks s + 1\<rparr> else s);
     Some (s\<lparr>int_count := int_count s + 1\<rparr>)
   }"

definition set_mode :: "u8 \<Rightarrow> cmos \<Rightarrow> cmos" where
  "set_mode m c = (let (d, c) = cmos_read PORT_REG_B c in cmos_write PORT_REG_B (d OR m) c)"

definition clear_mode :: "u8 \<Rightarrow> cmos \<Rightarrow> cmos" where
  "clear_mode m c = (let (d, c) = cmos_read PORT_REG_B c in cmos_write PORT_REG_B (d AND NOT m) c)"

definition get_rate :: "cmos \<Rightarrow> u8 \<times> cmos" where
  "get_rate c = (let (d, c) = cmos_read PORT_REG_A c in (d AND REG_A_RATE, c))"

definition set_rate :: "u8 \<Rightarrow> cmos \<Rightarrow> int \<times> cmos" where
  "set_rate rate c =
    (if rate > RTC_RATE_2Hz \<or> rate < RTC_RATE_8192Hz then (- EINVAL, c)
     else let (d, c) = cmos_read PORT_REG_A c; d = d AND NOT REG_A_RATE; d = d OR (rate AND REG_A_RATE) in
       (0, cmos_write PORT_REG_A d c))"

subsection \<open>Reading and setting the time\<close>

text \<open>\<open>spin(rd_a() & REG_A_UIP)\<close>.\<close>

function spin_uip :: "cmos \<Rightarrow> cmos" where
  "spin_uip c = (let (a, c') = cmos_read PORT_REG_A c in if a AND REG_A_UIP \<noteq> 0 then spin_uip c' else c')"
  by auto
termination
proof (relation "measure cm_busy")
  fix c a c' x
  have low: "(w AND 0x7F) AND 0x80 = (0 :: u8)" for w by (rule u8_eqI) (auto simp: bit_simps)
  assume "x = cmos_read PORT_REG_A c" "(a, c') = x" "a AND REG_A_UIP \<noteq> 0"
  then show "(c', c) \<in> measure cm_busy"
    by (auto simp: cmos_read_def cmos_data_in_def cmos_index_out_def rtc_consts low split: if_splits)
qed simp

definition zeroed_time :: rtc_time where
  "zeroed_time = \<lparr>tm_sec = 0, tm_min = 0, tm_hour = 0, tm_mday = 0, tm_mon = 0, tm_year = 0, tm_wday = 0, tm_yday = 0, tm_isdst = 0\<rparr>"

text \<open>The conversions from the format of the chip, the end of \<open>get_time\<close>.\<close>

definition time_from_cmos :: "u8 \<Rightarrow> rtc_time \<Rightarrow> rtc_time" where
  "time_from_cmos regb t = (
     let h12 = (regb AND REG_B_24H = 0);
         pm = (h12 \<and> tm_hour t AND PM_FLAG \<noteq> 0);
         t = (if pm then t\<lparr>tm_hour := tm_hour t AND NOT PM_FLAG\<rparr> else t);
         t = (if regb AND REG_B_DM = 0 then
                t\<lparr>tm_sec := bcd2bin (tm_sec t), tm_min := bcd2bin (tm_min t), tm_hour := bcd2bin (tm_hour t), tm_mday := bcd2bin (tm_mday t),
                  tm_mon := bcd2bin (tm_mon t), tm_year := bcd2bin (tm_year t)\<rparr> else t);
         t = (if h12 then
                if pm \<and> tm_hour t < 12 then t\<lparr>tm_hour := tm_hour t + 12\<rparr>
                else if \<not> pm \<and> tm_hour t = 12 then t\<lparr>tm_hour := 0\<rparr> else t
              else t);
         t = (if tm_year t < 90 then t\<lparr>tm_year := tm_year t + 100\<rparr> else t)
     in t\<lparr>tm_mon := tm_mon t - 1\<rparr>)"

definition get_time :: "bool \<Rightarrow> cmos \<Rightarrow> rtc_time \<times> cmos" where
  "get_time alarm c = (
     let c = spin_uip c;
         (regb, c) = cmos_read PORT_REG_B c;
         regb = regb OR REG_B_SET;
         c = cmos_write PORT_REG_B regb c;
         (t, c) =
           (if alarm then
              let (s, c) = cmos_read REG_SECONDS_ALARM c; (m, c) = cmos_read REG_MINUTES_ALARM c; (h, c) = cmos_read REG_HOURS_ALARM c in
              (zeroed_time\<lparr>tm_sec := uint s, tm_min := uint m, tm_hour := uint h\<rparr>, c)
            else
              let (s, c) = cmos_read REG_SECONDS c; (m, c) = cmos_read REG_MINUTES c; (h, c) = cmos_read REG_HOURS c;
                  (d, c) = cmos_read REG_DATEOFMONTH c; (mo, c) = cmos_read REG_MONTH c; (y, c) = cmos_read REG_YEAR c in
              (zeroed_time\<lparr>tm_sec := uint s, tm_min := uint m, tm_hour := uint h, tm_mday := uint d, tm_mon := uint mo, tm_year := uint y\<rparr>, c));
         regb = regb AND NOT REG_B_SET;
         c = cmos_write PORT_REG_B regb c
     in (time_from_cmos regb t, c))"

text \<open>The conversions to the format of the chip, in \<open>set_time\<close>.\<close>

definition time_to_cmos :: "u8 \<Rightarrow> rtc_time \<Rightarrow> rtc_time option" where
  "time_to_cmos regb t = do {
     mo \<leftarrow> cint (tm_mon t + 1);
     let t = t\<lparr>tm_mon := mo\<rparr>;
     let t = (if tm_year t \<ge> 100 then t\<lparr>tm_year := tm_year t - 100\<rparr> else t);
     let h12 = (regb AND REG_B_24H = 0);
     let pm = (h12 \<and> tm_hour t \<ge> 12);
     let t = (if h12 then
                if tm_hour t > 12 then t\<lparr>tm_hour := tm_hour t - 12\<rparr>
                else if tm_hour t = 0 then t\<lparr>tm_hour := 12\<rparr> else t
              else t);
     t \<leftarrow> (if regb AND REG_B_DM = 0 then do {
             y \<leftarrow> bin2bcd (tm_year t); mo \<leftarrow> bin2bcd (tm_mon t); d \<leftarrow> bin2bcd (tm_mday t);
             h \<leftarrow> bin2bcd (tm_hour t); m \<leftarrow> bin2bcd (tm_min t); s \<leftarrow> bin2bcd (tm_sec t);
             Some (t\<lparr>tm_year := y, tm_mon := mo, tm_mday := d, tm_hour := h, tm_min := m, tm_sec := s\<rparr>)
           } else Some t);
     Some (if pm then t\<lparr>tm_hour := tm_hour t OR PM_FLAG\<rparr> else t)
   }"

definition time_invalid :: "rtc_time \<Rightarrow> bool \<Rightarrow> bool" where
  "time_invalid t alarm \<longleftrightarrow>
     tm_sec t < 0 \<or> tm_sec t > 59 \<or> tm_min t < 0 \<or> tm_min t > 59 \<or> tm_hour t < 0 \<or> tm_hour t > 23 \<or>
     \<not> alarm \<and> (tm_mday t < 1 \<or> tm_mday t > 31) \<or> \<not> alarm \<and> (tm_mon t < 0 \<or> tm_mon t > 11) \<or>
     \<not> alarm \<and> (tm_year t < 90 \<or> tm_year t > 189)"

definition set_time :: "rtc_time \<Rightarrow> bool \<Rightarrow> cmos \<Rightarrow> (int \<times> cmos) option" where
  "set_time t alarm c =
    (if time_invalid t alarm then Some (- EINVAL, c)
     else do {
       let (regb, c) = cmos_read PORT_REG_B c;
       t \<leftarrow> time_to_cmos regb t;
       let c = spin_uip c;
       let (regb, c) = cmos_read PORT_REG_B c;
       let regb = regb OR REG_B_SET;
       let c = cmos_write PORT_REG_B regb c;
       let c = (if alarm then
           cmos_write REG_SECONDS_ALARM (of_int (tm_sec t)) (cmos_write REG_MINUTES_ALARM (of_int (tm_min t))
             (cmos_write REG_HOURS_ALARM (of_int (tm_hour t)) c))
         else
           cmos_write REG_SECONDS (of_int (tm_sec t)) (cmos_write REG_MINUTES (of_int (tm_min t)) (cmos_write REG_HOURS (of_int (tm_hour t))
             (cmos_write REG_DATEOFMONTH (of_int (tm_mday t)) (cmos_write REG_MONTH (of_int (tm_mon t)) (cmos_write REG_YEAR (of_int (tm_year t)) c))))));
       let regb = regb AND NOT REG_B_SET;
       Some (0, cmos_write PORT_REG_B regb c)
     })"

subsection \<open>The file operations\<close>

text \<open>
  The interrupts that arrive while \<open>rtc_read\<close> spins are given by the contents of register C that raise them; when there is none and
  the condition still holds, the call does not return.
\<close>

fun spin_tick :: "u32 \<Rightarrow> u8 list \<Rightarrow> rtc \<Rightarrow> (u8 list \<times> rtc) option" where
  "spin_tick tick ints s =
    (if ucast tick = int_count s then
       case ints of [] \<Rightarrow> None
       | v # ints \<Rightarrow> do {
           s \<leftarrow> rtc_interrupt IRQ_RTC (s\<lparr>rtc_cmos := (rtc_cmos s)\<lparr>cm_ram := (cm_ram (rtc_cmos s))(0xC := v)\<rparr>\<rparr>);
           spin_tick tick ints s
         }
     else Some (ints, s))"

definition rtc_read :: "nat \<Rightarrow> u8 list \<Rightarrow> rtc \<Rightarrow> (int \<times> u8 list \<times> u8 list \<times> rtc) option" where
  "rtc_read nbytes ints s =
    (if nbytes < 4 then Some (- EINVAL, [], ints, s)
     else do {
       let tick = ucast (int_count s);
       (ints, s) \<leftarrow> spin_tick tick ints s;
       Some (4, int_bytes (uint (ucast (int_count s) :: u32)), ints, s)
     })"

definition time_bytes :: "rtc_time \<Rightarrow> u8 list" where
  "time_bytes t = int_bytes (tm_sec t) @ int_bytes (tm_min t) @ int_bytes (tm_hour t) @ int_bytes (tm_mday t) @ int_bytes (tm_mon t) @
     int_bytes (tm_year t) @ int_bytes (tm_wday t) @ int_bytes (tm_yday t) @ int_bytes (tm_isdst t)"

definition bytes_time :: "u8 list \<Rightarrow> rtc_time" where
  "bytes_time b = (let f = (\<lambda>i. bytes_int (take 4 (drop (4 * i) b))) in
     \<lparr>tm_sec = f 0, tm_min = f 1, tm_hour = f 2, tm_mday = f 3, tm_mon = f 4, tm_year = f 5, tm_wday = f 6, tm_yday = f 7, tm_isdst = f 8\<rparr>)"

definition rtc_ioctl :: "u32 \<Rightarrow> u8 list option \<Rightarrow> cmos \<Rightarrow> (int \<times> u8 list option \<times> cmos) option" where
  "rtc_ioctl op arg c =
    (if op = RTC_ALARM_DISABLE then Some (0, arg, clear_mode REG_B_AIE c)
     else if op = RTC_ALARM_ENABLE then Some (0, arg, set_mode REG_B_AIE c)
     else if op = RTC_IRQP_DISABLE then Some (0, arg, clear_mode REG_B_PIE c)
     else if op = RTC_IRQP_ENABLE then Some (0, arg, set_mode REG_B_PIE c)
     else if op = RTC_UPDATE_DISABLE then Some (0, arg, clear_mode REG_B_UIE c)
     else if op = RTC_UPDATE_ENABLE then Some (0, arg, set_mode REG_B_UIE c)
     else if op = RTC_IRQP_GET then do {
       let (rate, c) = get_rate c;
       (ok, arg) \<leftarrow> copy_to_user arg [rate];
       Some (if ok then 0 else - EFAULT, arg, c)
     }
     else if op = RTC_IRQP_SET then do {
       r \<leftarrow> copy_from_user arg 1;
       case r of None \<Rightarrow> Some (- EFAULT, arg, c)
       | Some b \<Rightarrow> (let (ret, c) = set_rate (hd b) c in Some (ret, arg, c))
     }
     else if op = RTC_TIME_GET \<or> op = RTC_ALARM_GET then do {
       let (t, c) = get_time (op = RTC_ALARM_GET) c;
       (ok, arg) \<leftarrow> copy_to_user arg (time_bytes t);
       Some (if ok then 0 else - EFAULT, arg, c)
     }
     else if op = RTC_TIME_SET \<or> op = RTC_ALARM_SET then do {
       r \<leftarrow> copy_from_user arg 36;
       case r of None \<Rightarrow> Some (- EFAULT, arg, c)
       | Some b \<Rightarrow> do { (ret, c) \<leftarrow> set_time (bytes_time b) (op = RTC_ALARM_SET) c; Some (ret, arg, c) }
     }
     else Some (- ENOTTY, arg, c))"

subsection \<open>Register accesses\<close>

text \<open>An ordinary byte of the CMOS memory.\<close>

definition plain_reg :: "u8 \<Rightarrow> bool" where
  "plain_reg a \<longleftrightarrow> a AND 0x7F = a \<and> a \<noteq> 0xA \<and> a \<noteq> 0xC \<and> a \<noteq> 0xD"

lemma cmos_read_plain: "plain_reg a \<Longrightarrow> cmos_read a c = (cm_ram c a, c\<lparr>cm_index := a\<rparr>)"
  by (simp add: plain_reg_def cmos_read_def cmos_data_in_def cmos_index_out_def)

lemma cmos_write_plain: "plain_reg a \<Longrightarrow> cmos_write a v c = c\<lparr>cm_index := a, cm_ram := (cm_ram c)(a := v)\<rparr>"
  by (simp add: plain_reg_def cmos_write_def cmos_data_out_def cmos_index_out_def)

lemma plain_regs [simp]:
  "plain_reg 0" "plain_reg 1" "plain_reg 2" "plain_reg 3" "plain_reg 4" "plain_reg 5" "plain_reg 7" "plain_reg 8" "plain_reg 9"
  "plain_reg 0xB" "plain_reg 0x70"
  by (simp_all add: plain_reg_def)

lemma cmos_read_A:
  "cmos_read PORT_REG_A c = ((cm_ram c 0xA AND 0x7F) OR (if cm_busy c > 0 then 0x80 else 0), c\<lparr>cm_index := 0xA, cm_busy := cm_busy c - 1\<rparr>)"
  by (simp add: cmos_read_def cmos_data_in_def cmos_index_out_def rtc_consts)

lemma cmos_write_A: "cmos_write PORT_REG_A v c = c\<lparr>cm_index := 0xA, cm_ram := (cm_ram c)(0xA := v AND 0x7F)\<rparr>"
  by (simp add: cmos_write_def cmos_data_out_def cmos_index_out_def rtc_consts)

lemma cmos_read_C: "cmos_read PORT_REG_C c = (cm_ram c 0xC, c\<lparr>cm_index := 0xC, cm_ram := (cm_ram c)(0xC := 0)\<rparr>)"
  by (simp add: cmos_read_def cmos_data_in_def cmos_index_out_def rtc_consts)

lemma cmos_read_D: "cmos_read PORT_REG_D c = (cm_ram c 0xD, c\<lparr>cm_index := 0xD\<rparr>)"
  by (simp add: cmos_read_def cmos_data_in_def cmos_index_out_def rtc_consts)

text \<open>The wait ends when the update is over, and leaves the memory alone.\<close>

lemma spin_uip_eq: "spin_uip c = c\<lparr>cm_index := 0xA, cm_busy := 0\<rparr>"
proof (induction c rule: spin_uip.induct)
  case (1 c)
  have "bit (((w AND 0x7F) OR 0x80) AND 0x80 :: u8) 7" for w by (simp add: bit_simps)
  then have u1: "((w AND 0x7F) OR 0x80) AND 0x80 \<noteq> (0 :: u8)" for w by (metis bit_0_eq bot_apply bot_bool_def)
  have "(w AND 0x7F) AND 0x80 = (0 :: u8)" for w by (rule u8_eqI) (auto simp: bit_simps)
  note uip = u1 this
  show ?case
  proof (cases "cm_busy c > 0")
    case True
    define c' where "c' = c\<lparr>cm_index := 0xA, cm_busy := cm_busy c - 1\<rparr>"
    have r: "cmos_read PORT_REG_A c = ((cm_ram c 0xA AND 0x7F) OR 0x80, c')" using True by (simp add: cmos_read_A c'_def)
    have "spin_uip c = spin_uip c'" by (subst spin_uip.simps) (simp add: r REG_A_UIP_def uip)
    also have "\<dots> = c'\<lparr>cm_index := 0xA, cm_busy := 0\<rparr>" using "1.IH" [OF r [symmetric] refl] uip by (simp add: REG_A_UIP_def)
    finally show ?thesis by (simp add: c'_def)
  next
    case False
    then show ?thesis by (subst spin_uip.simps) (simp add: cmos_read_A REG_A_UIP_def uip)
  qed
qed

declare spin_uip.simps [simp del]

subsection \<open>Formats of the time\<close>

text \<open>What the conversions do to the hour and to another field.\<close>

definition hour_out :: "bool \<Rightarrow> bool \<Rightarrow> int \<Rightarrow> int option" where
  "hour_out h12 bcd h = do {
     let x = (if h12 then if h > 12 then h - 12 else if h = 0 then 12 else h else h);
     x \<leftarrow> (if bcd then bin2bcd x else Some x);
     Some (if h12 \<and> h \<ge> 12 then x OR 128 else x)
   }"

definition hour_in :: "bool \<Rightarrow> bool \<Rightarrow> int \<Rightarrow> int" where
  "hour_in h12 bcd x = (
     let pm = (h12 \<and> x AND 128 \<noteq> 0); x = (if pm then x AND NOT 128 else x); x = (if bcd then bcd2bin x else x) in
     if h12 then if pm \<and> x < 12 then x + 12 else if \<not> pm \<and> x = 12 then 0 else x else x)"

definition field_out :: "bool \<Rightarrow> int \<Rightarrow> int option" where
  "field_out bcd n = (if bcd then bin2bcd n else Some n)"

definition field_in :: "bool \<Rightarrow> int \<Rightarrow> int" where
  "field_in bcd n = (if bcd then bcd2bin n else n)"

definition as_byte :: "int \<Rightarrow> int" where "as_byte n = uint (of_int n :: u8)"

lemma hour_round_trip:
  assumes "0 \<le> h" "h \<le> 23"
  shows "\<exists>x. hour_out h12 bcd h = Some x \<and> hour_in h12 bcd (as_byte x) = h"
proof -
  have "\<forall>b1 \<in> set [True, False]. \<forall>b2 \<in> set [True, False]. \<forall>h \<in> set [0..23].
      (case hour_out b1 b2 h of None \<Rightarrow> False | Some x \<Rightarrow> hour_in b1 b2 (as_byte x) = h)" by code_simp
  moreover have "h12 \<in> set [True, False]" "bcd \<in> set [True, False]" "h \<in> set [0..23]" using assms by auto
  ultimately have "case hour_out h12 bcd h of None \<Rightarrow> False | Some x \<Rightarrow> hour_in h12 bcd (as_byte x) = h" by blast
  then show ?thesis by (simp split: option.splits)
qed

lemma field_round_trip:
  assumes "0 \<le> n" "n \<le> 99"
  shows "\<exists>x. field_out bcd n = Some x \<and> field_in bcd (as_byte x) = n"
proof -
  have "\<forall>b \<in> set [True, False]. \<forall>n \<in> set [0..99]. (case field_out b n of None \<Rightarrow> False | Some x \<Rightarrow> field_in b (as_byte x) = n)" by code_simp
  moreover have "bcd \<in> set [True, False]" "n \<in> set [0..99]" using assms by auto
  ultimately have "case field_out bcd n of None \<Rightarrow> False | Some x \<Rightarrow> field_in bcd (as_byte x) = n" by blast
  then show ?thesis by (simp split: option.splits)
qed

lemma time_from_cmos_fields:
  fixes regb :: u8 and t :: rtc_time
  defines "bcd \<equiv> regb AND 4 = 0" and "y \<equiv> field_in (regb AND 4 = 0) (tm_year t)"
  shows "time_from_cmos regb t = \<lparr>tm_sec = field_in bcd (tm_sec t), tm_min = field_in bcd (tm_min t), tm_hour = hour_in (regb AND 2 = 0) bcd (tm_hour t),
    tm_mday = field_in bcd (tm_mday t), tm_mon = field_in bcd (tm_mon t) - 1, tm_year = if y < 90 then y + 100 else y,
    tm_wday = tm_wday t, tm_yday = tm_yday t, tm_isdst = tm_isdst t\<rparr>"
  unfolding bcd_def y_def
  by (cases "regb AND 2 = 0"; cases "regb AND 4 = 0"; cases t) (simp_all add: time_from_cmos_def hour_in_def field_in_def rtc_consts Let_def)

text \<open>The stored fields of a time whose date, if it matters, is in range.\<close>

lemma time_to_cmos_fields:
  fixes regb :: u8
  assumes h: "0 \<le> tm_hour t" "tm_hour t \<le> 23" and m: "0 \<le> tm_min t" "tm_min t \<le> 59" and s: "0 \<le> tm_sec t" "tm_sec t \<le> 59"
    and d: "0 \<le> tm_mday t" "tm_mday t \<le> 31" and mo: "- 1 \<le> tm_mon t" "tm_mon t \<le> 11" and y: "0 \<le> tm_year t" "tm_year t \<le> 189"
  shows "\<exists>t'. time_to_cmos regb t = Some t' \<and> hour_in (regb AND 2 = 0) (regb AND 4 = 0) (as_byte (tm_hour t')) = tm_hour t \<and>
    field_in (regb AND 4 = 0) (as_byte (tm_min t')) = tm_min t \<and> field_in (regb AND 4 = 0) (as_byte (tm_sec t')) = tm_sec t \<and>
    field_in (regb AND 4 = 0) (as_byte (tm_mday t')) = tm_mday t \<and> field_in (regb AND 4 = 0) (as_byte (tm_mon t')) = tm_mon t + 1 \<and>
    field_in (regb AND 4 = 0) (as_byte (tm_year t')) = (if 100 \<le> tm_year t then tm_year t - 100 else tm_year t)"
proof -
  define bcd h12 yy where "bcd = (regb AND 4 = 0)" and "h12 = (regb AND 2 = 0)" and "yy = (if 100 \<le> tm_year t then tm_year t - 100 else tm_year t)"
  have yy: "0 \<le> yy" "yy \<le> 99" using y by (auto simp: yy_def)
  obtain h' where h': "hour_out h12 bcd (tm_hour t) = Some h'" "hour_in h12 bcd (as_byte h') = tm_hour t" using hour_round_trip [OF h] by blast
  obtain m' where m': "field_out bcd (tm_min t) = Some m'" "field_in bcd (as_byte m') = tm_min t" using field_round_trip [of "tm_min t"] m by auto
  obtain s' where s': "field_out bcd (tm_sec t) = Some s'" "field_in bcd (as_byte s') = tm_sec t" using field_round_trip [of "tm_sec t"] s by auto
  obtain d' where d': "field_out bcd (tm_mday t) = Some d'" "field_in bcd (as_byte d') = tm_mday t" using field_round_trip [of "tm_mday t"] d by auto
  obtain mo' where mo': "field_out bcd (tm_mon t + 1) = Some mo'" "field_in bcd (as_byte mo') = tm_mon t + 1" using field_round_trip [of "tm_mon t + 1"] mo by auto
  obtain y' where y': "field_out bcd yy = Some y'" "field_in bcd (as_byte y') = yy" using field_round_trip [OF yy] by blast
  have "time_to_cmos regb t = Some (t\<lparr>tm_year := y', tm_mon := mo', tm_mday := d', tm_hour := h', tm_min := m', tm_sec := s'\<rparr>)"
    using h'(1) m'(1) s'(1) d'(1) mo'(1) y'(1) mo unfolding time_to_cmos_def hour_out_def field_out_def bcd_def h12_def yy_def
    by (auto simp: rtc_consts cint_def Let_def split: if_splits bind_splits)
  then show ?thesis using h' m' s' d' mo' y' by (simp add: bcd_def h12_def yy_def)
qed


subsection \<open>The effects of reading and setting the time\<close>

lemma update_bit_lemmas:
  fixes w :: u8
  shows "(w OR 0x80) AND NOT 0x80 = w AND NOT 0x80" "(w AND NOT 0x80) AND 2 = w AND 2" "(w AND NOT 0x80) AND 4 = w AND 4"
    "(w AND NOT 0x80) AND NOT 0x80 = w AND NOT 0x80" "(w OR 0x80) AND 2 = w AND 2" "(w OR 0x80) AND 4 = w AND 4"
  by (rule u8_eqI; auto simp: bit_simps)+

lemmas update_bit_simps = update_bit_lemmas update_bit_lemmas [simplified]

lemma time_from_cmos_set_bit:
  "time_from_cmos (regb AND NOT 0x80) t = time_from_cmos regb t" "time_from_cmos (regb OR 0x80) t = time_from_cmos regb t"
  unfolding time_from_cmos_fields update_bit_lemmas by (rule refl)+

lemmas time_from_cmos_mode = time_from_cmos_set_bit time_from_cmos_set_bit [simplified]

lemma get_time_eq:
  "get_time alarm c =
    (time_from_cmos (cm_ram c 0xB)
       (if alarm then zeroed_time\<lparr>tm_sec := uint (cm_ram c 1), tm_min := uint (cm_ram c 3), tm_hour := uint (cm_ram c 5)\<rparr>
        else zeroed_time\<lparr>tm_sec := uint (cm_ram c 0), tm_min := uint (cm_ram c 2), tm_hour := uint (cm_ram c 4), tm_mday := uint (cm_ram c 7),
          tm_mon := uint (cm_ram c 8), tm_year := uint (cm_ram c 9)\<rparr>),
     c\<lparr>cm_busy := 0, cm_index := 0xB, cm_ram := (cm_ram c)(0xB := cm_ram c 0xB AND NOT 0x80)\<rparr>)"
  by (cases alarm) (simp_all add: get_time_def spin_uip_eq rtc_consts cmos_read_plain cmos_write_plain Let_def update_bit_simps time_from_cmos_mode)

definition time_ram :: "bool \<Rightarrow> rtc_time \<Rightarrow> (u8 \<Rightarrow> u8) \<Rightarrow> u8 \<Rightarrow> u8" where
  "time_ram alarm t m =
    (if alarm then m(5 := of_int (tm_hour t), 3 := of_int (tm_min t), 1 := of_int (tm_sec t))
     else m(9 := of_int (tm_year t), 8 := of_int (tm_mon t), 7 := of_int (tm_mday t), 4 := of_int (tm_hour t), 2 := of_int (tm_min t), 0 := of_int (tm_sec t)))"

lemma set_time_eq:
  assumes "\<not> time_invalid t alarm" "time_to_cmos (cm_ram c 0xB) t = Some t'"
  shows "set_time t alarm c =
    Some (0, c\<lparr>cm_busy := 0, cm_index := 0xB, cm_ram := (time_ram alarm t' (cm_ram c))(0xB := cm_ram c 0xB AND NOT 0x80)\<rparr>)"
  using assms by (cases alarm)
    (auto simp: set_time_def spin_uip_eq rtc_consts cmos_read_plain cmos_write_plain Let_def update_bit_simps time_ram_def fun_eq_iff)

lemma length_time_bytes [simp]: "length (time_bytes t) = 36"
  by (simp add: time_bytes_def)

definition rtc_int :: "int \<Rightarrow> bool" where
  "rtc_int n \<longleftrightarrow> - 2147483648 \<le> n \<and> n \<le> 2147483647"

definition time_ints :: "rtc_time \<Rightarrow> bool" where
  "time_ints t \<longleftrightarrow> rtc_int (tm_sec t) \<and> rtc_int (tm_min t) \<and> rtc_int (tm_hour t) \<and> rtc_int (tm_mday t) \<and> rtc_int (tm_mon t) \<and> rtc_int (tm_year t) \<and>
     rtc_int (tm_wday t) \<and> rtc_int (tm_yday t) \<and> rtc_int (tm_isdst t)"

lemma bytes_time_bytes:
  assumes "time_ints t"
  shows "bytes_time (time_bytes t) = t"
proof -
  have "take 4 (drop (4 * i) (int_bytes a0 @ int_bytes a1 @ int_bytes a2 @ int_bytes a3 @ int_bytes a4 @ int_bytes a5 @ int_bytes a6 @ int_bytes a7 @ int_bytes a8))
      = int_bytes ([a0, a1, a2, a3, a4, a5, a6, a7, a8] ! i)" if "i \<in> set [0, 1, 2, 3, 4, 5, 6, 7, 8]" for i a0 a1 a2 a3 a4 a5 a6 a7 a8
    using that by auto
  note at = this [of 0] this [of 1] this [of 2] this [of 3] this [of 4] this [of 5] this [of 6] this [of 7] this [of 8]
  show ?thesis using assms at unfolding bytes_time_def time_bytes_def Let_def time_ints_def rtc_int_def
    by (cases t) (simp add: bytes_int_bytes)
qed

text \<open>The date that comes with an alarm is not checked, but it is converted, so it has to be in range (the date \<open>get_time\<close> returns for an alarm is).\<close>

definition alarm_date :: "rtc_time \<Rightarrow> bool" where
  "alarm_date t \<longleftrightarrow> 0 \<le> tm_mday t \<and> tm_mday t \<le> 31 \<and> - 1 \<le> tm_mon t \<and> tm_mon t \<le> 11 \<and> 0 \<le> tm_year t \<and> tm_year t \<le> 189"

text \<open>What the time reads back as.\<close>

definition stored_time :: "bool \<Rightarrow> rtc_time \<Rightarrow> rtc_time" where
  "stored_time alarm t =
    (if alarm then t\<lparr>tm_mday := 0, tm_mon := - 1, tm_year := 100, tm_wday := 0, tm_yday := 0, tm_isdst := 0\<rparr>
     else t\<lparr>tm_wday := 0, tm_yday := 0, tm_isdst := 0\<rparr>)"

definition time_regs :: "bool \<Rightarrow> u8 set" where
  "time_regs alarm = (if alarm then {1, 3, 5} else {0, 2, 4, 7, 8, 9})"

lemma field_in_0 [simp]: "field_in b 0 = 0"
  by (simp add: field_in_def bcd2bin_def)

lemma set_get_time:
  assumes ok: "\<not> time_invalid t alarm" "alarm \<longrightarrow> alarm_date t"
  shows "\<exists>c1. set_time t alarm c = Some (0, c1) \<and> fst (get_time alarm c1) = stored_time alarm t \<and>
    (\<forall>r. r \<notin> time_regs alarm \<longrightarrow> cm_ram c1 r = (if r = 0xB then cm_ram c r AND NOT 0x80 else cm_ram c r))"
proof -
  define b where "b = cm_ram c 0xB"
  have "0 \<le> tm_hour t" "tm_hour t \<le> 23" "0 \<le> tm_min t" "tm_min t \<le> 59" "0 \<le> tm_sec t" "tm_sec t \<le> 59"
    "0 \<le> tm_mday t" "tm_mday t \<le> 31" "- 1 \<le> tm_mon t" "tm_mon t \<le> 11" "0 \<le> tm_year t" "tm_year t \<le> 189"
    using ok by (cases alarm; simp add: time_invalid_def alarm_date_def)+
  note rng = this
  obtain t' where t': "time_to_cmos b t = Some t'" and f: "hour_in (b AND 2 = 0) (b AND 4 = 0) (as_byte (tm_hour t')) = tm_hour t"
    "field_in (b AND 4 = 0) (as_byte (tm_min t')) = tm_min t" "field_in (b AND 4 = 0) (as_byte (tm_sec t')) = tm_sec t"
    "field_in (b AND 4 = 0) (as_byte (tm_mday t')) = tm_mday t" "field_in (b AND 4 = 0) (as_byte (tm_mon t')) = tm_mon t + 1"
    "field_in (b AND 4 = 0) (as_byte (tm_year t')) = (if 100 \<le> tm_year t then tm_year t - 100 else tm_year t)"
    using time_to_cmos_fields [OF rng, of b] by blast
  define c1 where "c1 = c\<lparr>cm_busy := 0, cm_index := 0xB, cm_ram := (time_ram alarm t' (cm_ram c))(0xB := b AND NOT 0x80)\<rparr>"
  have s: "set_time t alarm c = Some (0, c1)" using set_time_eq [OF ok(1)] t' by (simp add: c1_def b_def)
  have y: "\<not> alarm \<longrightarrow> 90 \<le> tm_year t" using ok(1) by (auto simp: time_invalid_def)
  have g: "fst (get_time alarm c1) = stored_time alarm t"
    using f y rng(12) by (cases alarm; cases t)
      (simp_all add: get_time_eq c1_def update_bit_simps time_ram_def time_from_cmos_mode time_from_cmos_fields zeroed_time_def stored_time_def as_byte_def [symmetric])
  have "cm_ram c1 r = (if r = 0xB then cm_ram c r AND NOT 0x80 else cm_ram c r)" if "r \<notin> time_regs alarm" for r
    using that by (cases alarm) (auto simp: c1_def time_ram_def time_regs_def b_def)
  then show ?thesis using s g by blast
qed


subsection \<open>Properties\<close>

lemma rtc_request_numbers:
  "RTC_IRQP_ENABLE = 0x5201" "RTC_IRQP_DISABLE = 0x5202" "RTC_IRQP_GET = 0x40015203" "RTC_IRQP_SET = 0x80015204" "RTC_UPDATE_ENABLE = 0x5205"
  "RTC_UPDATE_DISABLE = 0x5206" "RTC_TIME_GET = 0x40245207" "RTC_TIME_SET = 0x80245208" "RTC_ALARM_ENABLE = 0x5209" "RTC_ALARM_DISABLE = 0x520A"
  "RTC_ALARM_GET = 0x4024520B" "RTC_ALARM_SET = 0x8024520C"
  by (simp_all add: rtc_requests ioctl_numbers IOC_RTC_def)

lemma rtc_ioctl_time:
  fixes alarm :: bool
  defines "get \<equiv> if alarm then RTC_ALARM_GET else RTC_TIME_GET" and "set_op \<equiv> if alarm then RTC_ALARM_SET else RTC_TIME_SET"
  shows "36 \<le> length buf \<Longrightarrow> rtc_ioctl get (Some buf) c = (let (t, c') = get_time alarm c in Some (0, Some (time_bytes t @ drop 36 buf), c'))"
    "time_ints t \<Longrightarrow> rtc_ioctl set_op (Some (time_bytes t @ rest)) c =
      map_option (\<lambda>(ret, c'). (ret, Some (time_bytes t @ rest), c')) (set_time t alarm c)"
    "rtc_ioctl get None c = Some (- EFAULT, None, snd (get_time alarm c))" "rtc_ioctl set_op None c = Some (- EFAULT, None, c)"
  unfolding get_def set_op_def
  by (cases alarm; cases "get_time alarm c"; cases "set_time t alarm c";
      simp add: rtc_ioctl_def rtc_request_numbers copy_to_user_def copy_from_user_def bytes_time_bytes Let_def split_beta)+


definition ex_cmos :: cmos where
  "ex_cmos = \<lparr>cm_index = 0, cm_ram = (\<lambda>r. if r = 0xA then 0x26 else if r = 0xD then 0x80 else 0), cm_busy = 3\<rparr>"

definition ex_time :: rtc_time where
  "ex_time = \<lparr>tm_sec = 59, tm_min = 30, tm_hour = 23, tm_mday = 31, tm_mon = 11, tm_year = 125, tm_wday = 0, tm_yday = 0, tm_isdst = 0\<rparr>"



lemma rate_bits:
  fixes w r :: u8
  shows "((w AND NOT 0x0F) OR (r AND 0x0F)) AND 0x0F = r AND 0x0F" "((w AND NOT 0x0F) OR (r AND 0x0F)) AND NOT 0x0F = w AND NOT 0x0F"
    "(w OR 0x80) AND 0x7F = w AND 0x7F" "(w AND 0x7F) AND 0x7F = w AND 0x7F"
    "(((w AND NOT 0x0F) OR (r AND 0x0F)) AND 0x7F) AND 0x0F = r AND 0x0F"
    "(((w AND NOT 0x0F) OR (r AND 0x0F)) AND 0x7F) AND 0x70 = w AND 0x70"
    "((w AND 0x7F) OR 0x80) AND 0x70 = w AND 0x70" "(w AND 0x7F) AND 0x70 = w AND 0x70"
    "((w AND 0x7F) OR 0x80) AND 0x0F = w AND 0x0F" "(w AND 0x7F) AND 0x0F = w AND 0x0F"
  by (rule u8_eqI; auto simp: bit_simps)+

lemma rate_in_range:
  fixes r :: u8
  assumes "3 \<le> r" "r \<le> 15"
  shows "r AND 0x0F = r"
proof -
  have "\<forall>n \<in> set [0..<16]. (of_nat n :: u8) AND 0x0F = of_nat n" by code_simp
  moreover have "unat r \<in> set [0..<16]" using assms(2) by (simp add: word_le_nat_alt)
  ultimately have "(of_nat (unat r) :: u8) AND 0x0F = of_nat (unat r)" by blast
  then show ?thesis by simp
qed

lemma get_rate_eq: "get_rate c = (cm_ram c 0xA AND 0x0F, c\<lparr>cm_index := 0xA, cm_busy := cm_busy c - 1\<rparr>)"
  by (simp add: get_rate_def cmos_read_A REG_A_RATE_def rate_bits)

lemma set_rate_eq:
  assumes "3 \<le> r" "r \<le> 15"
  obtains c' where "set_rate r c = (0, c')" "cm_ram c' 0xA AND 0x0F = r" "cm_ram c' 0xA AND 0x70 = cm_ram c 0xA AND 0x70"
    "\<And>a. a \<noteq> 0xA \<Longrightarrow> cm_ram c' a = cm_ram c a"
proof -
  define d where "d = (cm_ram c 0xA AND 0x7F) OR (if cm_busy c > 0 then 0x80 else 0)"
  define c' where "c' = c\<lparr>cm_index := 0xA, cm_busy := cm_busy c - 1, cm_ram := (cm_ram c)(0xA := ((d AND NOT 0x0F) OR (r AND 0x0F)) AND 0x7F)\<rparr>"
  have "set_rate r c = (0, c')"
    using assms by (auto simp: set_rate_def cmos_read_A cmos_write_A REG_A_RATE_def RTC_RATE_2Hz_def RTC_RATE_8192Hz_def d_def c'_def Let_def)
  moreover have "cm_ram c' 0xA AND 0x0F = r" using rate_bits(5) [of d r] rate_in_range [OF assms] by (simp add: c'_def)
  moreover have "d AND 0x70 = cm_ram c 0xA AND 0x70" using rate_bits(7,8) by (simp add: d_def)
  then have "cm_ram c' 0xA AND 0x70 = cm_ram c 0xA AND 0x70" using rate_bits(6) [of d r] by (simp add: c'_def)
  moreover have "cm_ram c' a = cm_ram c a" if "a \<noteq> 0xA" for a using that by (simp add: c'_def)
  ultimately show ?thesis using that by blast
qed

text \<open>The requests that switch an interrupt, with its bit of register B.\<close>

definition rtc_switches :: "(u32 \<times> nat \<times> bool) set" where
  "rtc_switches = {(RTC_UPDATE_DISABLE, 4, False), (RTC_UPDATE_ENABLE, 4, True), (RTC_ALARM_DISABLE, 5, False), (RTC_ALARM_ENABLE, 5, True),
    (RTC_IRQP_DISABLE, 6, False), (RTC_IRQP_ENABLE, 6, True)}"

lemma rtc_switch:
  assumes "(op, b, v) \<in> rtc_switches"
  shows "rtc_ioctl op arg c = Some (0, arg, c\<lparr>cm_index := 0xB, cm_ram := (cm_ram c)(0xB :=
    if v then cm_ram c 0xB OR push_bit b 1 else cm_ram c 0xB AND NOT (push_bit b 1))\<rparr>)"
proof -
  have modes: "set_mode m c = c\<lparr>cm_index := 0xB, cm_ram := (cm_ram c)(0xB := cm_ram c 0xB OR m)\<rparr>"
    "clear_mode m c = c\<lparr>cm_index := 0xB, cm_ram := (cm_ram c)(0xB := cm_ram c 0xB AND NOT m)\<rparr>" for m
    by (simp_all add: set_mode_def clear_mode_def PORT_REG_B_def cmos_read_plain cmos_write_plain)
  show ?thesis using assms by (auto simp: rtc_switches_def rtc_ioctl_def rtc_request_numbers modes rtc_consts)
qed

text \<open>
  The periodic rate set with \<open>RTC_IRQP_SET\<close> is the one \<open>RTC_IRQP_GET\<close> returns, if it is between 3 (8192 Hz) and 15 (2 Hz), and the oscillator bits and all other registers are kept; every other
  rate is refused with \<open>EINVAL\<close>. The requests that enable and disable interrupts set and clear exactly their bit of register B. A null
  argument is refused with \<open>EFAULT\<close> and an unknown request with \<open>ENOTTY\<close>.
\<close>

theorem rtc_ioctl_requests:
  "(3 \<le> r \<and> r \<le> 15 \<longrightarrow> (\<exists>c1 c2. rtc_ioctl RTC_IRQP_SET (Some [r]) c = Some (0, Some [r], c1) \<and>
      rtc_ioctl RTC_IRQP_GET (Some [x]) c1 = Some (0, Some [r], c2) \<and> cm_ram c2 = cm_ram c1 \<and>
      cm_ram c1 0xA AND 0x70 = cm_ram c 0xA AND 0x70 \<and> (\<forall>a. a \<noteq> 0xA \<longrightarrow> cm_ram c1 a = cm_ram c a))) \<and>
   (r < 3 \<or> 15 < r \<longrightarrow> rtc_ioctl RTC_IRQP_SET (Some [r]) c = Some (- EINVAL, Some [r], c)) \<and>
   (\<forall>(op, b, v) \<in> rtc_switches. \<exists>c1. rtc_ioctl op arg c = Some (0, arg, c1) \<and>
      (\<forall>n < 8. bit (cm_ram c1 0xB) n = (if n = b then v else bit (cm_ram c 0xB) n)) \<and> (\<forall>a. a \<noteq> 0xB \<longrightarrow> cm_ram c1 a = cm_ram c a)) \<and>
   (\<forall>op \<in> {RTC_IRQP_SET, RTC_TIME_SET, RTC_ALARM_SET}. rtc_ioctl op None c = Some (- EFAULT, None, c)) \<and>
   (\<forall>op \<in> {RTC_IRQP_GET, RTC_TIME_GET, RTC_ALARM_GET}. \<exists>c1. rtc_ioctl op None c = Some (- EFAULT, None, c1)) \<and>
   (op AND 0xFF00 \<noteq> 0x5200 \<or> op AND 0xFF > 12 \<longrightarrow> rtc_ioctl op arg c = Some (- ENOTTY, arg, c))"
proof (intro conjI impI ballI)
  assume "3 \<le> r \<and> r \<le> 15"
  then obtain c1 where c1: "set_rate r c = (0, c1)" "cm_ram c1 0xA AND 0x0F = r" "cm_ram c1 0xA AND 0x70 = cm_ram c 0xA AND 0x70"
    "\<And>a. a \<noteq> 0xA \<Longrightarrow> cm_ram c1 a = cm_ram c a" using set_rate_eq [of r c] by metis
  show "\<exists>c1 c2. rtc_ioctl RTC_IRQP_SET (Some [r]) c = Some (0, Some [r], c1) \<and>
      rtc_ioctl RTC_IRQP_GET (Some [x]) c1 = Some (0, Some [r], c2) \<and> cm_ram c2 = cm_ram c1 \<and>
      cm_ram c1 0xA AND 0x70 = cm_ram c 0xA AND 0x70 \<and> (\<forall>a. a \<noteq> 0xA \<longrightarrow> cm_ram c1 a = cm_ram c a)"
    by (rule exI [of _ c1], rule exI [of _ "snd (get_rate c1)"]) (simp add: c1 rtc_ioctl_def rtc_request_numbers copy_from_user_def copy_to_user_def get_rate_eq)
next
  assume "r < 3 \<or> 15 < r"
  then show "rtc_ioctl RTC_IRQP_SET (Some [r]) c = Some (- EINVAL, Some [r], c)"
    by (auto simp: rtc_ioctl_def rtc_request_numbers copy_from_user_def set_rate_def rtc_consts)
next
  fix sw assume sw: "sw \<in> rtc_switches"
  obtain op b v where e: "sw = (op, b, v)" by (cases sw)
  have "\<exists>c1. rtc_ioctl op arg c = Some (0, arg, c1) \<and> (\<forall>n < 8. bit (cm_ram c1 0xB) n = (if n = b then v else bit (cm_ram c 0xB) n)) \<and>
    (\<forall>a. a \<noteq> 0xB \<longrightarrow> cm_ram c1 a = cm_ram c a)"
    using rtc_switch [OF sw [unfolded e], of arg c] by (intro exI conjI, assumption) (auto simp: bit_simps)
  then show "case sw of (op, b, v) \<Rightarrow> \<exists>c1. rtc_ioctl op arg c = Some (0, arg, c1) \<and>
      (\<forall>n < 8. bit (cm_ram c1 0xB) n = (if n = b then v else bit (cm_ram c 0xB) n)) \<and> (\<forall>a. a \<noteq> 0xB \<longrightarrow> cm_ram c1 a = cm_ram c a)"
    unfolding e by simp
next
  fix q assume "q \<in> {RTC_IRQP_SET, RTC_TIME_SET, RTC_ALARM_SET}"
  then show "rtc_ioctl q None c = Some (- EFAULT, None, c)" by (auto simp: rtc_ioctl_def rtc_request_numbers copy_from_user_def)
next
  fix q assume "q \<in> {RTC_IRQP_GET, RTC_TIME_GET, RTC_ALARM_GET}"
  then show "\<exists>c1. rtc_ioctl q None c = Some (- EFAULT, None, c1)"
    by (auto simp: rtc_ioctl_def rtc_request_numbers copy_to_user_def split_beta)
next
  assume "op AND 0xFF00 \<noteq> 0x5200 \<or> op AND 0xFF > 12"
  then show "rtc_ioctl op arg c = Some (- ENOTTY, arg, c)" by (auto simp: rtc_ioctl_def rtc_request_numbers)
qed

theorem rtc_ioctl_requests_witness:
  "\<exists>c1 c2. rtc_ioctl RTC_IRQP_SET (Some [6]) ex_cmos = Some (0, Some [6], c1) \<and> rtc_ioctl RTC_IRQP_GET (Some [0]) c1 = Some (0, Some [6], c2)"
  using rtc_ioctl_requests [of 6 ex_cmos 0 None 0] by auto

lemma rtc_interrupt_eq:
  assumes "cm_ram (rtc_cmos s) 0xC = v"
  obtains s' where "rtc_interrupt IRQ_RTC s = Some s'" "int_count s' = int_count s + 1"
    "alarm_ticks s' = alarm_ticks s + of_bool (bit v 5)" "periodic_ticks s' = periodic_ticks s + of_bool (bit v 6)"
    "update_ticks s' = update_ticks s + of_bool (bit v 4)" "cm_ram (rtc_cmos s') = (cm_ram (rtc_cmos s))(0xC := 0)"
proof -
  have b: "v AND 0x20 \<noteq> 0 \<longleftrightarrow> bit v 5" "v AND 0x40 \<noteq> 0 \<longleftrightarrow> bit v 6" "v AND 0x10 \<noteq> 0 \<longleftrightarrow> bit v 4"
    using and_exp_eq_0_iff_not_bit [of v 5] and_exp_eq_0_iff_not_bit [of v 6] and_exp_eq_0_iff_not_bit [of v 4] by simp_all
  show ?thesis
    by (rule that [of "the (rtc_interrupt IRQ_RTC s)"])
      (use assms b in \<open>simp_all add: rtc_interrupt_def cmos_read_C REG_C_AF_def REG_C_PF_def REG_C_UF_def Let_def\<close>)
qed

text \<open>
  \<open>rtc_read\<close> refuses a buffer of less than four bytes. Otherwise it returns after exactly one interrupt, with the number of
  interrupts seen so far, as long as that number fits in 32 bits before the call; every interrupt counts once, and once for each of its causes in register C, which it clears. But once the 64-bit counter has
  passed \<open>2 ^ 32\<close>, \<open>rtc_read\<close> returns at once, without waiting for an interrupt, because the counter is compared with its lower half.
\<close>

theorem rtc_read_waits:
  "(n < 4 \<longrightarrow> rtc_read n ints s = Some (- EINVAL, [], ints, s)) \<and>
   (4 \<le> n \<longrightarrow> unat (int_count s) < 2 ^ 32 \<longrightarrow> rtc_read n [] s = None \<and>
     (\<exists>s'. rtc_read n (v # ints) s = Some (4, int_bytes (uint (ucast (int_count s + 1) :: u32)), ints, s') \<and> int_count s' = int_count s + 1 \<and>
       alarm_ticks s' = alarm_ticks s + of_bool (bit v 5) \<and> periodic_ticks s' = periodic_ticks s + of_bool (bit v 6) \<and>
       update_ticks s' = update_ticks s + of_bool (bit v 4) \<and> cm_ram (rtc_cmos s') 0xC = 0)) \<and>
   (4 \<le> n \<longrightarrow> 2 ^ 32 \<le> unat (int_count s) \<longrightarrow>
     rtc_read n ints s = Some (4, int_bytes (uint (ucast (int_count s) :: u32)), ints, s))"
proof (intro conjI impI)
  show "rtc_read n ints s = Some (- EINVAL, [], ints, s)" if "n < 4" using that by (simp add: rtc_read_def)
next
  have wrap: "ucast (ucast w :: u32) = w \<longleftrightarrow> unat w < 2 ^ 32" for w :: u64
    by (simp add: word_unat_eq_iff unsigned_ucast_eq unsigned_take_bit_eq take_bit_nat_eq_self_iff)
  {
    assume n: "4 \<le> n" and lim: "unat (int_count s) < 2 ^ 32"
    have same: "ucast (ucast (int_count s) :: u32) = int_count s" using lim wrap by blast
    then show "rtc_read n [] s = None" using n by (simp add: rtc_read_def)
    define s0 where "s0 = s\<lparr>rtc_cmos := (rtc_cmos s)\<lparr>cm_ram := (cm_ram (rtc_cmos s))(0xC := v)\<rparr>\<rparr>"
    have "cm_ram (rtc_cmos s0) 0xC = v" by (simp add: s0_def)
    then obtain s' where s': "rtc_interrupt IRQ_RTC s0 = Some s'" "int_count s' = int_count s + 1"
      "alarm_ticks s' = alarm_ticks s + of_bool (bit v 5)" "periodic_ticks s' = periodic_ticks s + of_bool (bit v 6)"
      "update_ticks s' = update_ticks s + of_bool (bit v 4)" "cm_ram (rtc_cmos s') = (cm_ram (rtc_cmos s0))(0xC := 0)"
      by (rule rtc_interrupt_eq) (simp_all add: s0_def)
    have "spin_tick (ucast (int_count s)) (v # ints) s = spin_tick (ucast (int_count s)) ints s'"
      using same s'(1) by (subst spin_tick.simps) (simp add: s0_def)
    also have "\<dots> = Some (ints, s')" using same s'(2) by (subst spin_tick.simps) simp
    finally have "rtc_read n (v # ints) s = Some (4, int_bytes (uint (ucast (int_count s + 1) :: u32)), ints, s')"
      using n s'(2) by (simp add: rtc_read_def del: spin_tick.simps)
    then show "\<exists>s'. rtc_read n (v # ints) s = Some (4, int_bytes (uint (ucast (int_count s + 1) :: u32)), ints, s') \<and> int_count s' = int_count s + 1 \<and>
       alarm_ticks s' = alarm_ticks s + of_bool (bit v 5) \<and> periodic_ticks s' = periodic_ticks s + of_bool (bit v 6) \<and>
       update_ticks s' = update_ticks s + of_bool (bit v 4) \<and> cm_ram (rtc_cmos s') 0xC = 0" using s' by auto
  }
  show "rtc_read n ints s = Some (4, int_bytes (uint (ucast (int_count s) :: u32)), ints, s)" if "4 \<le> n" "2 ^ 32 \<le> unat (int_count s)"
    using that wrap [of "int_count s"] by (simp add: rtc_read_def)
qed

definition ex_rtc :: rtc where
  "ex_rtc = \<lparr>int_count = 41, alarm_ticks = 0, periodic_ticks = 41, update_ticks = 0, rtc_cmos = ex_cmos\<rparr>"

theorem rtc_read_waits_witness:
  "\<exists>s'. rtc_read 4 [0xC0] ex_rtc = Some (4, [42, 0, 0, 0], [], s') \<and> periodic_ticks s' = 42 \<and> alarm_ticks s' = 0"
proof -
  have "int_bytes 42 = [42, 0, 0, 0]" by code_simp
  moreover have "bit (0xC0 :: u8) 6" "\<not> bit (0xC0 :: u8) 5" by simp_all
  ultimately show ?thesis using rtc_read_waits [of 4 "[]" ex_rtc "0xC0"] by (auto simp: ex_rtc_def)
qed

lemma init_bits:
  fixes w :: u8
  shows "(((w AND 0x7F) OR (if b then 0x80 else 0)) OR 0x20) AND 0x7F = (w AND 0x7F) OR 0x20"
    "(w AND NOT 0x10 AND NOT 0x20 AND NOT 0x40 AND NOT 0x01) = w AND NOT 0x71" "(w OR 0x80) AND 0x7F = w AND 0x7F"
  by (rule u8_eqI; auto simp: bit_simps)+

lemma nmi_switch:
  "nmi_disable c = c\<lparr>cm_index := 0x70, cm_ram := (cm_ram c)(0x70 := cm_ram c 0x70 OR 0x80)\<rparr>"
  "nmi_enable c = c\<lparr>cm_index := 0x70, cm_ram := (cm_ram c)(0x70 := cm_ram c 0x70 AND 0x7F)\<rparr>"
  by (simp_all add: nmi_disable_def nmi_enable_def CMOS_INDEX_PORT_def cmos_read_plain cmos_write_plain)

text \<open>
  \<open>init_rtc\<close> sets the oscillator bit in register A, clears the three interrupt enables and the daylight saving bit in register B and nothing else there, flushes register C, registers the handler of
  line 8 and unmasks the line. But \<open>nmi_disable\<close> does not mask the non-maskable interrupt: the bit 7 it sets is the one of
  byte 0x70 of the CMOS memory, not of the index port, and after \<open>nmi_enable\<close> that byte has lost its bit 7.
\<close>

theorem init_rtc_effects:
  assumes ok: "irqs_ok q" "length (handlers q 8) < 8"
  shows "\<exists>s' q'. init_rtc h (s, q) = Some (s', q') \<and>
    cm_ram (rtc_cmos s') = (cm_ram (rtc_cmos s))(0xA := (cm_ram (rtc_cmos s) 0xA AND 0x7F) OR 0x20, 0xB := cm_ram (rtc_cmos s) 0xB AND NOT 0x71, 0xC := 0,
      0x70 := cm_ram (rtc_cmos s) 0x70 AND 0x7F) \<and>
    irqs_ok q' \<and> mset (handlers q' 8) = add_mset h (mset (handlers q 8)) \<and> masked_irqs (iq_pics q') = masked_irqs (iq_pics q) - {8} \<and>
    \<not> bit (cm_index (nmi_disable (rtc_cmos s))) 7"
proof -
  obtain q1 where q1: "irq_register 8 h q = Some q1" "irqs_ok q1" "mset (handlers q1 8) = add_mset h (mset (handlers q 8))" "iq_pics q1 = iq_pics q"
    using irq_register_ok [OF ok(1) _ ok(2), of h] by auto
  obtain p where p: "pic_unmask 8 (iq_pics q1) = Some p" "pics_ready p" "masked_irqs p = masked_irqs (iq_pics q) - {8}"
    using pic_unmask_ok [of "iq_pics q1" 8] q1(2,4) by (auto simp: irqs_ok_def)
  define q' where "q' = q1\<lparr>iq_pics := p\<rparr>"
  have u: "irq_unmask 8 q1 = Some q'" using p(1) by (simp add: irq_unmask_def q'_def)
  define c where "c = rtc_cmos s"
  define m where "m = (cm_ram c)(0xA := (cm_ram c 0xA AND 0x7F) OR 0x20, 0xB := cm_ram c 0xB AND NOT 0x71, 0xC := 0, 0x70 := cm_ram c 0x70 AND 0x7F)"
  obtain s' where s': "init_rtc h (s, q) = Some (s', q')" "cm_ram (rtc_cmos s') = m"
    using q1(1) u by (simp add: init_rtc_def nmi_switch cmos_read_C cmos_read_D cmos_read_A cmos_write_A cmos_read_plain cmos_write_plain
        PORT_REG_B_def REG_B_UIE_def REG_B_AIE_def REG_B_PIE_def REG_B_DSE_def IRQ_RTC_def Let_def init_bits c_def [symmetric] m_def fun_upd_twist)
  moreover have "irqs_ok q'" "handlers q' 8 = handlers q1 8" using q1(2) p(2) by (simp_all add: q'_def irqs_ok_def handlers_def)
  ultimately show ?thesis using q1(3) p(3) by (auto simp: q'_def m_def c_def nmi_switch)
qed


theorem init_rtc_effects_witness:
  "\<exists>p s' q'. init_pic power_on = Some p \<and> init_rtc (7 :: nat) (ex_rtc, fresh_irqs p) = Some (s', q') \<and> cm_ram (rtc_cmos s') 0xA = 0x26 \<and> 8 \<notin> masked_irqs (iq_pics q')"
proof -
  obtain p where p: "init_pic power_on = Some p" "pics_ready p" using init_pic_ok by blast
  have ok: "irqs_ok (fresh_irqs p :: nat irq_state)" "length (handlers (fresh_irqs p :: nat irq_state) 8) < 8" using p(2) fresh_irqs_ok(1) [of 0 p] by (simp_all add: fresh_irqs_ok(2))
  obtain s' q' where s': "init_rtc (7 :: nat) (ex_rtc, fresh_irqs p) = Some (s', q')"
    "cm_ram (rtc_cmos s') = (cm_ram (rtc_cmos ex_rtc))(0xA := (cm_ram (rtc_cmos ex_rtc) 0xA AND 0x7F) OR 0x20, 0xB := cm_ram (rtc_cmos ex_rtc) 0xB AND NOT 0x71, 0xC := 0,
      0x70 := cm_ram (rtc_cmos ex_rtc) 0x70 AND 0x7F)" "masked_irqs (iq_pics q') = masked_irqs (iq_pics (fresh_irqs p :: nat irq_state)) - {8}"
    using init_rtc_effects [OF ok, of 7 ex_rtc] by blast
  have "cm_ram (rtc_cmos s') 0xA = 0x26" by (simp add: s'(2) ex_rtc_def ex_cmos_def)
  moreover have "8 \<notin> masked_irqs (iq_pics q')" using s'(3) by simp
  ultimately show ?thesis using p(1) s'(1) by blast
qed


end
