(* ===== verification/Ps2.thy ===== *)
theory Ps2
  imports Ohwes_Prelude
begin

text \<open>
  The PS/2 controller, \<^verbatim>\<open>src/kernel/char/ps2.c\<close>, and the port accesses of the keyboard driver
  \<^verbatim>\<open>src/kernel/char/ps2kb.c\<close> (\<open>kb_sendcmd\<close> and below).

  The controller and the keyboard are seen through the status and data ports. \<open>p_out\<close> holds what comes out of the data port: a byte, or \<open>None\<close> for
  a poll of the status during which there is nothing to read. \<open>p_busy\<close> is the number of further polls that find the input buffer full. What a byte written to the
  controller (\<open>True\<close>) or to the keyboard (\<open>False\<close>) is answered with, and for how many polls it keeps the input buffer full, is the parameter \<open>hw\<close>, a function of
  all bytes written so far. A read of the data port with nothing to read returns the last byte again. \<open>p_if\<close> is the interrupt
  flag of the processor. Error bits of the status register only produce messages and are left out, as are the messages.
\<close>

record ps2 =
  p_out :: "u8 option list"
  p_last :: u8
  p_busy :: nat
  p_sent :: "(bool \<times> u8) list"
  p_if :: bool

type_synonym ps2_hw = "(bool \<times> u8) list \<Rightarrow> u8 option list \<times> nat"

definition tick :: "u8 option list \<Rightarrow> u8 option list" where
  "tick xs = (case xs of None # r \<Rightarrow> r | _ \<Rightarrow> xs)"

definition data_in :: "ps2 \<Rightarrow> u8 \<times> ps2" where
  "data_in s = (case p_out s of Some b # r \<Rightarrow> (b, s\<lparr>p_out := r, p_last := b\<rparr>) | _ \<Rightarrow> (p_last s, s))"

definition ps2_outb :: "ps2_hw \<Rightarrow> bool \<Rightarrow> u8 \<Rightarrow> ps2 \<Rightarrow> ps2" where
  "ps2_outb hw port b s = (let h = p_sent s @ [(port, b)]; (r, d) = hw h in s\<lparr>p_out := p_out s @ r, p_busy := d, p_sent := h\<rparr>)"

definition PS2_IO_TIMEOUT :: nat where "PS2_IO_TIMEOUT = 25000"

definition PS2_STATUS_OPF :: u8 where "PS2_STATUS_OPF = 1"
definition PS2_STATUS_IPF :: u8 where "PS2_STATUS_IPF = 2"

definition ps2_status :: "ps2 \<Rightarrow> u8 \<times> ps2" where
  "ps2_status s =
    ((case p_out s of Some b # r \<Rightarrow> PS2_STATUS_OPF | _ \<Rightarrow> 0) OR (if p_busy s > 0 then PS2_STATUS_IPF else 0),
     s\<lparr>p_out := tick (p_out s), p_busy := p_busy s - 1\<rparr>)"

subsection \<open>The controller\<close>

definition PS2_CMD_RDCFG :: u8 where "PS2_CMD_RDCFG = 0x20"
definition PS2_CMD_WRCFG :: u8 where "PS2_CMD_WRCFG = 0x60"
definition PS2_CMD_TEST :: u8 where "PS2_CMD_TEST = 0xAA"
definition PS2_CMD_P1OFF :: u8 where "PS2_CMD_P1OFF = 0xAD"
definition PS2_CMD_P1ON :: u8 where "PS2_CMD_P1ON = 0xAE"
definition PS2_CMD_P1TEST :: u8 where "PS2_CMD_P1TEST = 0xAB"
definition PS2_CMD_P2OFF :: u8 where "PS2_CMD_P2OFF = 0xA7"
definition PS2_CMD_P2ON :: u8 where "PS2_CMD_P2ON = 0xA8"
definition PS2_CMD_P2TEST :: u8 where "PS2_CMD_P2TEST = 0xA9"
definition PS2_CMD_SYSRESET :: u8 where "PS2_CMD_SYSRESET = 0xFE"
definition PS2_RESP_PASS :: u8 where "PS2_RESP_PASS = 0x55"
definition PS2_RESP_P1PASS :: u8 where "PS2_RESP_P1PASS = 0"
definition PS2_RESP_P2PASS :: u8 where "PS2_RESP_P2PASS = 0"
definition PS2_CFG_P1INTON :: u8 where "PS2_CFG_P1INTON = 1"
definition PS2_CFG_P2INTON :: u8 where "PS2_CFG_P2INTON = 2"
definition PS2_CFG_P2CLKOFF :: u8 where "PS2_CFG_P2CLKOFF = 0x20"
definition PS2_CFG_TRANSLATE :: u8 where "PS2_CFG_TRANSLATE = 0x40"

lemmas ps2_consts = PS2_CMD_RDCFG_def PS2_CMD_WRCFG_def PS2_CMD_TEST_def PS2_CMD_P1OFF_def PS2_CMD_P1ON_def PS2_CMD_P1TEST_def PS2_CMD_P2OFF_def
  PS2_CMD_P2ON_def PS2_CMD_P2TEST_def PS2_CMD_SYSRESET_def PS2_RESP_PASS_def PS2_RESP_P1PASS_def PS2_RESP_P2PASS_def PS2_CFG_P1INTON_def
  PS2_CFG_P2INTON_def PS2_CFG_P2CLKOFF_def PS2_CFG_TRANSLATE_def

definition has_flag :: "u8 \<Rightarrow> u8 \<Rightarrow> bool" where
  "has_flag x f \<longleftrightarrow> x AND f = f"

definition ps2_canread :: "ps2 \<Rightarrow> bool \<times> ps2" where
  "ps2_canread s = (let (st, s) = ps2_status s in (has_flag st PS2_STATUS_OPF, s))"

definition ps2_canwrite :: "ps2 \<Rightarrow> bool \<times> ps2" where
  "ps2_canwrite s = (let (st, s) = ps2_status s in (\<not> has_flag st PS2_STATUS_IPF, s))"

text \<open>The loops of \<open>wait_for_read\<close> and \<open>wait_for_write\<close>, with the number of tries left.\<close>

fun wait_read_loop :: "nat \<Rightarrow> ps2 \<Rightarrow> ps2 option" where
  "wait_read_loop 0 s = None"
| "wait_read_loop (Suc n) s = (let (b, s) = ps2_canread s in if b then Some s else wait_read_loop n s)"

fun wait_write_loop :: "nat \<Rightarrow> ps2 \<Rightarrow> ps2 option" where
  "wait_write_loop 0 s = None"
| "wait_write_loop (Suc n) s = (let (b, s) = ps2_canwrite s in if b then Some s else wait_write_loop n s)"

definition wait_for_read :: "ps2 \<Rightarrow> ps2 option" where "wait_for_read = wait_read_loop PS2_IO_TIMEOUT"
definition wait_for_write :: "ps2 \<Rightarrow> ps2 option" where "wait_for_write = wait_write_loop PS2_IO_TIMEOUT"

definition ps2_read :: "ps2 \<Rightarrow> (u8 \<times> ps2) option" where
  "ps2_read s = do { s \<leftarrow> wait_for_read s; Some (data_in s) }"

definition ps2_write :: "ps2_hw \<Rightarrow> u8 \<Rightarrow> ps2 \<Rightarrow> ps2 option" where
  "ps2_write hw b s = do { s \<leftarrow> wait_for_write s; Some (ps2_outb hw False b s) }"

definition ps2_cmd :: "ps2_hw \<Rightarrow> u8 \<Rightarrow> ps2 \<Rightarrow> ps2 option" where
  "ps2_cmd hw c s = do { s \<leftarrow> wait_for_write s; Some (ps2_outb hw True c s) }"

function ps2_flush :: "ps2 \<Rightarrow> ps2" where
  "ps2_flush s = (let (_, s1) = data_in s; (b, s2) = ps2_canread s1 in if b then ps2_flush s2 else s2)"
  by auto
termination
proof (relation "measure (\<lambda>s. length (p_out s))")
  fix s x v s1 y b s2
  assume "x = data_in s" "(v, s1) = x" "y = ps2_canread s1" "(b, s2) = y" b
  then show "(s2, s) \<in> measure (\<lambda>s. length (p_out s))"
    by (auto simp: data_in_def ps2_canread_def ps2_status_def has_flag_def PS2_STATUS_OPF_def PS2_STATUS_IPF_def tick_def
        split: list.splits option.splits if_splits)
qed simp

definition init_ps2 :: "ps2_hw \<Rightarrow> ps2 \<Rightarrow> ps2 option" where
  "init_ps2 hw s = do {
     s \<leftarrow> ps2_cmd hw PS2_CMD_P1OFF s;
     s \<leftarrow> ps2_cmd hw PS2_CMD_P2OFF s;
     let s = ps2_flush s;
     s \<leftarrow> ps2_cmd hw PS2_CMD_P2ON s;
     s \<leftarrow> ps2_cmd hw PS2_CMD_RDCFG s;
     (cfg, s) \<leftarrow> ps2_read s;
     let port2 = (\<not> has_flag cfg PS2_CFG_P2CLKOFF);
     s \<leftarrow> ps2_cmd hw PS2_CMD_TEST s;
     (resp, s) \<leftarrow> ps2_read s;
     assert_opt (resp = PS2_RESP_PASS);
     s \<leftarrow> ps2_cmd hw PS2_CMD_P1TEST s;
     (resp, s) \<leftarrow> ps2_read s;
     assert_opt (resp = PS2_RESP_PASS \<or> resp = PS2_RESP_P1PASS);
     s \<leftarrow> (if port2 then do {
             s \<leftarrow> ps2_cmd hw PS2_CMD_P2TEST s;
             (resp, s) \<leftarrow> ps2_read s;
             assert_opt (resp = PS2_RESP_PASS \<or> resp = PS2_RESP_P2PASS);
             ps2_cmd hw PS2_CMD_P2OFF s
           } else Some s);
     let cfg = cfg OR PS2_CFG_P1INTON;
     let cfg = (if port2 then cfg OR PS2_CFG_P2INTON else cfg);
     s \<leftarrow> ps2_cmd hw PS2_CMD_WRCFG s;
     s \<leftarrow> ps2_write hw cfg s;
     s \<leftarrow> ps2_cmd hw PS2_CMD_P1ON s;
     s \<leftarrow> (if port2 then ps2_cmd hw PS2_CMD_P2ON s else Some s);
     Some (ps2_flush s)
   }"

subsection \<open>The port of the keyboard\<close>

text \<open>
  The polling loop shared by \<open>kb_rdport\<close> and \<open>kb_wrport\<close>, \<open>while (count++ < PS2_IO_TIMEOUT)\<close>, which ends with the value of
  \<open>count\<close> when the condition on the status holds or the loop is over.
\<close>

function poll_status :: "(u8 \<Rightarrow> bool) \<Rightarrow> nat \<Rightarrow> ps2 \<Rightarrow> nat \<times> ps2" where
  "poll_status ready cnt s =
    (if cnt < PS2_IO_TIMEOUT then
       let (st, s) = ps2_status s in if ready st then (cnt + 1, s) else poll_status ready (cnt + 1) s
     else (cnt + 1, s))"
  by auto
termination by (relation "measure (\<lambda>(_, cnt, _). PS2_IO_TIMEOUT - cnt)") auto

text \<open>\<open>kb_rdport\<close> returns without restoring the interrupt flag when it times out. The counter of errors is the first component.\<close>

definition kb_rdport :: "u32 \<times> ps2 \<Rightarrow> u8 \<times> u32 \<times> ps2" where
  "kb_rdport = (\<lambda>(errors, s).
     let flags = p_if s; s = s\<lparr>p_if := False\<rparr>; (cnt, s) = poll_status (\<lambda>st. st AND PS2_STATUS_OPF \<noteq> 0) 0 s in
     if cnt \<ge> PS2_IO_TIMEOUT then (0, errors, s)
     else let (b, s) = data_in s in (b, if b = 0xFF then errors + 1 else errors, s\<lparr>p_if := flags\<rparr>))"

definition kb_wrport :: "ps2_hw \<Rightarrow> u8 \<Rightarrow> ps2 \<Rightarrow> ps2 option" where
  "kb_wrport hw b s = do {
     let flags = p_if s;
     let s = s\<lparr>p_if := False\<rparr>;
     let (cnt, s) = poll_status (\<lambda>st. st AND PS2_STATUS_IPF = 0) 0 s;
     assert_opt (cnt < PS2_IO_TIMEOUT);
     Some ((ps2_outb hw False b s)\<lparr>p_if := flags\<rparr>)
   }"

definition RETRY_COUNT :: nat where "RETRY_COUNT = 3"

fun sendcmd_loop :: "ps2_hw \<Rightarrow> u8 \<Rightarrow> nat \<Rightarrow> u32 \<times> ps2 \<Rightarrow> (bool \<times> u32 \<times> ps2) option" where
  "sendcmd_loop hw c 0 st = Some (False, st)"
| "sendcmd_loop hw c (Suc n) (e, s) = do {
     s \<leftarrow> kb_wrport hw c s;
     let (resp, e, s) = kb_rdport (e, s);
     if resp = 0xFA then Some (True, e, s)
     else if resp \<noteq> 0 then sendcmd_loop hw c n (e, s) else Some (False, e, s)
   }"

definition kb_sendcmd :: "ps2_hw \<Rightarrow> u8 \<Rightarrow> u32 \<times> ps2 \<Rightarrow> (bool \<times> u32 \<times> ps2) option" where
  "kb_sendcmd hw c = (\<lambda>(e, s). do {
     let flags = p_if s;
     (ack, e, s) \<leftarrow> sendcmd_loop hw c RETRY_COUNT (e, s\<lparr>p_if := False\<rparr>);
     Some (ack, e, s\<lparr>p_if := flags\<rparr>)
   })"

definition kb_disable :: "ps2_hw \<Rightarrow> ps2 \<Rightarrow> ps2 option" where "kb_disable hw = ps2_cmd hw PS2_CMD_P1OFF"
definition kb_enable :: "ps2_hw \<Rightarrow> ps2 \<Rightarrow> ps2 option" where "kb_enable hw = ps2_cmd hw PS2_CMD_P1ON"

subsection \<open>Polling\<close>

lemma status_flags:
  "fst (ps2_status s) AND PS2_STATUS_OPF \<noteq> 0 \<longleftrightarrow> (\<exists>b r. p_out s = Some b # r)" "fst (ps2_status s) AND PS2_STATUS_IPF \<noteq> 0 \<longleftrightarrow> p_busy s > 0"
  "has_flag (fst (ps2_status s)) PS2_STATUS_OPF \<longleftrightarrow> (\<exists>b r. p_out s = Some b # r)" "has_flag (fst (ps2_status s)) PS2_STATUS_IPF \<longleftrightarrow> p_busy s > 0"
  by (auto simp: ps2_status_def PS2_STATUS_OPF_def PS2_STATUS_IPF_def has_flag_def split: list.splits option.splits)

text \<open>The state after \<open>k\<close> polls of the status.\<close>

definition polled :: "nat \<Rightarrow> ps2 \<Rightarrow> ps2" where
  "polled k s = s\<lparr>p_out := (tick ^^ k) (p_out s), p_busy := p_busy s - k\<rparr>"

lemma polled_0 [simp]: "polled 0 s = s"
  by (simp add: polled_def)

lemma polled_status: "snd (ps2_status s) = polled (Suc 0) s"
  by (simp add: polled_def ps2_status_def)

lemma polled_polled: "polled k (polled l s) = polled (k + l) s"
  by (simp add: polled_def funpow_add add.commute)

lemma polled_sel [simp]: "p_busy (polled k s) = p_busy s - k" "p_out (polled k s) = (tick ^^ k) (p_out s)" "p_sent (polled k s) = p_sent s"
  "p_if (polled k s) = p_if s" "p_last (polled k s) = p_last s"
  by (simp_all add: polled_def)

lemma polled_if: "polled k (s\<lparr>p_if := b\<rparr>) = (polled k s)\<lparr>p_if := b\<rparr>"
  by (simp add: polled_def)

lemma tick_simps [simp]: "tick [] = []" "tick (Some b # r) = Some b # r" "tick (None # r) = r"
  by (simp_all add: tick_def)

lemma tick_pow_ready [simp]: "(tick ^^ k) [] = []" "(tick ^^ k) (Some b # r) = Some b # r"
  by (induction k) simp_all

lemma tick_pow_wait: "(tick ^^ k) (replicate n None @ Some b # r) = replicate (n - k) None @ Some b # r"
proof (induction k arbitrary: n)
  case (Suc k)
  show ?case
  proof (cases n)
    case (Suc m)
    then show ?thesis using Suc.IH [of m] by (simp add: funpow_Suc_right del: funpow.simps)
  qed simp
qed simp

lemma wait_write: "p_busy s < n \<Longrightarrow> wait_write_loop n s = Some (polled (p_busy s + 1) s)"
proof (induction n arbitrary: s)
  case (Suc n)
  have c: "ps2_canwrite s = (p_busy s = 0, polled 1 s)"
    using status_flags(4) [of s] by (simp add: ps2_canwrite_def split_beta polled_status)
  show ?case
  proof (cases "p_busy s")
    case (Suc m)
    then show ?thesis using c Suc.prems Suc.IH [of "polled 1 s"] by (simp add: polled_polled)
  qed (simp add: c)
qed simp

lemma wait_read:
  assumes "p_out s = replicate k None @ Some b # r" "k < n"
  shows "wait_read_loop n s = Some (polled (k + 1) s)"
  using assms
proof (induction n arbitrary: s k)
  case (Suc n)
  have c: "ps2_canread s = ((\<exists>b r. p_out s = Some b # r), polled 1 s)"
    using status_flags(3) [of s] by (simp add: ps2_canread_def split_beta polled_status)
  show ?case
  proof (cases k)
    case (Suc m)
    then have "p_out (polled 1 s) = replicate m None @ Some b # r" using Suc.prems by simp
    then show ?thesis using c Suc Suc.prems Suc.IH [of "polled 1 s" m] by (simp add: polled_polled)
  qed (use c Suc.prems in simp)
qed simp

declare poll_status.simps [simp del] ps2_flush.simps [simp del]

text \<open>The polling loop of the keyboard driver, for a condition that holds after \<open>k\<close> unsuccessful polls or not at all.\<close>

lemma poll_status_finds:
  assumes "\<And>j. j < k \<Longrightarrow> \<not> ready (fst (ps2_status (polled j s)))" "ready (fst (ps2_status (polled k s)))" "cnt + k < PS2_IO_TIMEOUT"
  shows "poll_status ready cnt s = (cnt + k + 1, polled (k + 1) s)"
  using assms
proof (induction k arbitrary: cnt s)
  case 0
  then show ?case by (subst poll_status.simps) (simp add: polled_status split_beta)
next
  case (Suc k)
  have "\<not> ready (fst (ps2_status s))" using Suc.prems(1) [of 0] by simp
  then have "poll_status ready cnt s = poll_status ready (cnt + 1) (polled 1 s)"
    using Suc.prems(3) by (subst poll_status.simps) (simp add: polled_status split_beta)
  also have "\<dots> = (cnt + 1 + k + 1, polled (k + 1) (polled 1 s))"
  proof (rule Suc.IH)
    show "\<not> ready (fst (ps2_status (polled j (polled 1 s))))" if "j < k" for j using Suc.prems(1) [of "j + 1"] that by (simp add: polled_polled)
  qed (use Suc.prems in \<open>simp_all add: polled_polled\<close>)
  finally show ?case by (simp add: polled_polled)
qed

lemma poll_status_fails:
  assumes "\<And>j. cnt + j < PS2_IO_TIMEOUT \<Longrightarrow> \<not> ready (fst (ps2_status (polled j s)))" "cnt \<le> PS2_IO_TIMEOUT"
  shows "poll_status ready cnt s = (PS2_IO_TIMEOUT + 1, polled (PS2_IO_TIMEOUT - cnt) s)"
  using assms
proof (induction "PS2_IO_TIMEOUT - cnt" arbitrary: cnt s)
  case 0
  then show ?case by (subst poll_status.simps) simp
next
  case (Suc n)
  then have lt: "cnt < PS2_IO_TIMEOUT" by simp
  have "\<not> ready (fst (ps2_status s))" using Suc.prems(1) [of 0] lt by simp
  then have "poll_status ready cnt s = poll_status ready (cnt + 1) (polled 1 s)"
    using lt by (subst poll_status.simps) (simp add: polled_status split_beta)
  also have "\<dots> = (PS2_IO_TIMEOUT + 1, polled (PS2_IO_TIMEOUT - (cnt + 1)) (polled 1 s))"
  proof (rule Suc.hyps(1))
    show "\<not> ready (fst (ps2_status (polled j (polled 1 s))))" if "cnt + 1 + j < PS2_IO_TIMEOUT" for j
      using Suc.prems(1) [of "j + 1"] that by (simp add: polled_polled)
  qed (use Suc.hyps(2) lt in auto)
  finally show ?case using lt by (simp add: polled_polled Suc_diff_Suc)
qed



subsection \<open>Reading and writing\<close>

lemma data_in_ready [simp]: "p_out s = Some b # r \<Longrightarrow> data_in s = (b, s\<lparr>p_out := r, p_last := b\<rparr>)"
  by (simp add: data_in_def)

lemma opf_polled:
  assumes "p_out s = replicate k None @ Some b # r"
  shows "fst (ps2_status (polled j s)) AND PS2_STATUS_OPF \<noteq> 0 \<longleftrightarrow> k \<le> j"
  unfolding status_flags(1) using assms by (cases "k - j") (auto simp: tick_pow_wait)

lemma poll_opf:
  assumes "p_out s = replicate k None @ Some b # r"
  shows "poll_status (\<lambda>st. st AND PS2_STATUS_OPF \<noteq> 0) 0 s =
    (if k < PS2_IO_TIMEOUT then (k + 1, polled (k + 1) s) else (PS2_IO_TIMEOUT + 1, polled PS2_IO_TIMEOUT s))"
  using poll_status_finds [of k "\<lambda>st. st AND PS2_STATUS_OPF \<noteq> 0" s 0] poll_status_fails [of 0 "\<lambda>st. st AND PS2_STATUS_OPF \<noteq> 0" s]
  by (auto simp: opf_polled [OF assms])

lemma poll_ipf:
  "poll_status (\<lambda>st. st AND PS2_STATUS_IPF = 0) 0 s =
    (if p_busy s < PS2_IO_TIMEOUT then (p_busy s + 1, polled (p_busy s + 1) s) else (PS2_IO_TIMEOUT + 1, polled PS2_IO_TIMEOUT s))"
proof -
  have "fst (ps2_status (polled j s)) AND PS2_STATUS_IPF = 0 \<longleftrightarrow> p_busy s \<le> j" for j
    using status_flags(2) [of "polled j s"] by auto
  then show ?thesis
    using poll_status_finds [of "p_busy s" "\<lambda>st. st AND PS2_STATUS_IPF = 0" s 0] poll_status_fails [of 0 "\<lambda>st. st AND PS2_STATUS_IPF = 0" s] by auto
qed

lemma poll_opf_never: "(\<And>j. \<nexists>b r. (tick ^^ j) (p_out s) = Some b # r) \<Longrightarrow>
  poll_status (\<lambda>st. st AND PS2_STATUS_OPF \<noteq> 0) 0 s = (PS2_IO_TIMEOUT + 1, polled PS2_IO_TIMEOUT s)"
  using poll_status_fails [of 0 "\<lambda>st. st AND PS2_STATUS_OPF \<noteq> 0" s] status_flags(1) by (metis add_0 diff_zero le0 polled_sel(2))

lemma kb_rdport_ready:
  assumes "p_out s = replicate k None @ Some b # r" "k < PS2_IO_TIMEOUT - 1"
  shows "kb_rdport (e, s) = (b, e + of_bool (b = 0xFF), s\<lparr>p_out := r, p_last := b, p_busy := p_busy s - (k + 1)\<rparr>)"
proof -
  have "poll_status (\<lambda>st. st AND PS2_STATUS_OPF \<noteq> 0) 0 (s\<lparr>p_if := False\<rparr>) = (k + 1, polled (k + 1) (s\<lparr>p_if := False\<rparr>))"
    using poll_opf [of "s\<lparr>p_if := False\<rparr>" k b r] assms by auto
  moreover have "p_out (polled (k + 1) (s\<lparr>p_if := False\<rparr>)) = Some b # r" using assms(1) by (simp add: tick_pow_wait del: funpow.simps)
  ultimately show ?thesis using assms(2) by (auto simp: kb_rdport_def polled_def)
qed

lemma kb_rdport_late:
  assumes "p_out s = replicate k None @ Some b # r" "PS2_IO_TIMEOUT - 1 \<le> k"
  shows "fst (kb_rdport (e, s)) = 0 \<and> \<not> p_if (snd (snd (kb_rdport (e, s)))) \<and> fst (snd (kb_rdport (e, s))) = e"
  using poll_opf [of "s\<lparr>p_if := False\<rparr>" k b r] assms by (auto simp: kb_rdport_def polled_def)

lemma kb_wrport_eq:
  "kb_wrport hw b s = (if p_busy s < PS2_IO_TIMEOUT - 1 then Some (ps2_outb hw False b (polled (p_busy s + 1) s)) else None)"
  using poll_ipf [of "s\<lparr>p_if := False\<rparr>"] by (auto simp: kb_wrport_def polled_if ps2_outb_def split_beta Let_def polled_def assert_opt_def)

text \<open>
  C38: Reading the port of the keyboard. A byte that comes after fewer than 24999 unsuccessful polls is returned and taken from the controller, and the interrupt flag is as before. A byte that comes
  later is reported as a timeout (the value 0), and the interrupt flag is left cleared, even when the last one of the 25000 polls found the byte. Writing waits for at most 24998 polls with a full buffer, and
  panics when the buffer is full for longer, even when the last poll found it empty.
\<close>

theorem kb_port_timeouts:
  assumes "p_out s = replicate k None @ Some b # r"
  shows "(k < 24999 \<longrightarrow> kb_rdport (e, s) = (b, e + of_bool (b = 0xFF), s\<lparr>p_out := r, p_last := b, p_busy := p_busy s - (k + 1)\<rparr>)) \<and>
    (24999 \<le> k \<longrightarrow> fst (kb_rdport (e, s)) = 0 \<and> \<not> p_if (snd (snd (kb_rdport (e, s))))) \<and>
    (p_busy s < 24999 \<longrightarrow> (\<exists>s'. kb_wrport hw c s = Some s' \<and> p_sent s' = p_sent s @ [(False, c)] \<and> p_if s' = p_if s \<and>
       p_out s' = replicate (k - (p_busy s + 1)) None @ Some b # r @ fst (hw (p_sent s @ [(False, c)])))) \<and>
    (24999 \<le> p_busy s \<longrightarrow> kb_wrport hw c s = None)"
  using kb_rdport_ready [OF assms, of e] kb_rdport_late [OF assms, of e] kb_wrport_eq [of hw c s] assms
  by (simp add: PS2_IO_TIMEOUT_def ps2_outb_def split_beta Let_def tick_pow_wait del: funpow.simps)

definition ex_ps2 :: ps2 where
  "ex_ps2 = \<lparr>p_out = [None, Some 0x1E], p_last = 0, p_busy = 5, p_sent = [], p_if = True\<rparr>"

theorem kb_port_timeouts_witness:
  "kb_rdport (0, ex_ps2) = (0x1E, 0, ex_ps2\<lparr>p_out := [], p_last := 0x1E, p_busy := 3\<rparr>) \<and>
   kb_wrport (\<lambda>_. ([], 0)) 0xED (ex_ps2\<lparr>p_busy := 24999\<rparr>) = None"
  using kb_port_timeouts [of ex_ps2 1 "0x1E" "[]" 0 "\<lambda>_. ([], 0)" "0xED"]
    kb_port_timeouts [of "ex_ps2\<lparr>p_busy := 24999\<rparr>" 1 "0x1E" "[]" 0 "\<lambda>_. ([], 0)" "0xED"]
  by (simp add: ex_ps2_def)

text \<open>A keyboard that answers every byte with \<open>x\<close> within \<open>k\<close> polls, and keeps the input buffer full for \<open>d\<close> polls.\<close>

definition answers :: "ps2_hw \<Rightarrow> u8 \<Rightarrow> nat \<Rightarrow> nat \<Rightarrow> bool" where
  "answers hw x k d \<longleftrightarrow> (\<forall>h b. hw (h @ [(False, b)]) = (replicate k None @ [Some x], d))"

lemma send_once:
  assumes "answers hw x k d" "k < 24999" "d < 24999" "p_out s = []" "p_busy s < 24999"
  obtains s1 where "kb_wrport hw c s = Some s1" "kb_rdport (e, s1) = (x, e + of_bool (x = 0xFF), s\<lparr>p_last := x, p_busy := d - (k + 1), p_sent := p_sent s @ [(False, c)]\<rparr>)"
proof -
  define s1 where "s1 = s\<lparr>p_out := replicate k None @ [Some x], p_busy := d, p_sent := p_sent s @ [(False, c)]\<rparr>"
  have w: "kb_wrport hw c s = Some s1"
    using assms by (simp add: kb_wrport_eq PS2_IO_TIMEOUT_def answers_def ps2_outb_def s1_def polled_def Let_def del: funpow.simps)
  have "kb_rdport (e, s1) = (x, e + of_bool (x = 0xFF), s1\<lparr>p_out := [], p_last := x, p_busy := p_busy s1 - (k + 1)\<rparr>)"
    by (rule kb_rdport_ready) (use assms(2) in \<open>simp_all add: s1_def PS2_IO_TIMEOUT_def\<close>)
  then have "kb_rdport (e, s1) = (x, e + of_bool (x = 0xFF), s\<lparr>p_last := x, p_busy := d - (k + 1), p_sent := p_sent s @ [(False, c)]\<rparr>)"
    using assms(4) by (simp add: s1_def)
  then show ?thesis using that w by blast
qed

text \<open>
  Sending a command to the keyboard. The command is acknowledged if and only if the keyboard answers 0xFA; it is written once when the
  answer is 0xFA or 0, and three times when the keyboard keeps answering with another byte, e.g. the request to resend. In each case the interrupt flag is as before the call.
\<close>

theorem kb_sendcmd_retries:
  assumes hw: "answers hw x k d" and b: "k < 24999" "d < 24999" "p_busy s < 24999" and out: "p_out s = []"
  shows "\<exists>e' s'. kb_sendcmd hw c (e, s) = Some (x = 0xFA, e', s') \<and> p_if s' = p_if s \<and> p_out s' = [] \<and> p_busy s' < 24999 \<and>
    p_sent s' = p_sent s @ replicate (if x = 0xFA \<or> x = 0 then 1 else 3) (False, c)"
proof -
  define s0 where "s0 = s\<lparr>p_if := False\<rparr>"
  have s0: "p_out s0 = []" "p_busy s0 < 24999" using out b by (simp_all add: s0_def)
  define g where "g t = t\<lparr>p_last := x, p_busy := d - (k + 1), p_sent := p_sent t @ [(False, c)]\<rparr>" for t :: ps2
  have g: "p_out (g t) = p_out t" "p_busy (g t) < 24999" "p_sent (g t) = p_sent t @ [(False, c)]" for t using b(2) by (simp_all add: g_def)
  have step: "sendcmd_loop hw c (Suc n) (e, t) = (if x = 0xFA then Some (True, e, g t)
      else if x \<noteq> 0 then sendcmd_loop hw c n (e + of_bool (x = 0xFF), g t) else Some (False, e, g t))"
    if t: "p_out t = []" "p_busy t < 24999" for n t e
  proof -
    obtain s1 where "kb_wrport hw c t = Some s1" "kb_rdport (e, s1) = (x, e + of_bool (x = 0xFF), g t)"
      using send_once [OF hw b(1,2) t] unfolding g_def by metis
    then show ?thesis by simp
  qed
  have "\<exists>e' t. sendcmd_loop hw c 3 (e, s0) = Some (x = 0xFA, e', t) \<and> p_out t = [] \<and> p_busy t < 24999 \<and>
      p_sent t = p_sent s @ replicate (if x = 0xFA \<or> x = 0 then 1 else 3) (False, c)"
    using s0 g by (simp add: numeral_3_eq_3 step s0_def [symmetric] del: sendcmd_loop.simps(2)) (simp add: s0_def)
  then show ?thesis by (auto simp: kb_sendcmd_def RETRY_COUNT_def s0_def)
qed

theorem kb_sendcmd_retries_witness:
  "\<exists>e s. kb_sendcmd (\<lambda>_. ([None, Some 0xFE], 10)) 0xED (0, ex_ps2\<lparr>p_out := []\<rparr>) = Some (False, e, s) \<and> length (p_sent s) = 3"
proof -
  have "answers (\<lambda>_. ([None, Some 0xFE], 10)) 0xFE 1 10" by (simp add: answers_def)
  then show ?thesis using kb_sendcmd_retries [of "\<lambda>_. ([None, Some 0xFE], 10)" "0xFE" 1 10 "ex_ps2\<lparr>p_out := []\<rparr>" "0xED" 0] by (auto simp: ex_ps2_def)
qed

subsection \<open>Initialisation of the controller\<close>

text \<open>
  A controller with configuration byte \<open>cfg\<close> whose self-test returns \<open>t\<close> and whose ports pass their tests; it is busy for
  less than 25000 polls after every byte.
\<close>

definition ctl_reply :: "u8 \<Rightarrow> u8 \<Rightarrow> bool \<Rightarrow> u8 \<Rightarrow> u8 option list" where
  "ctl_reply cfg t port b =
    (if \<not> port then [] else if b = PS2_CMD_RDCFG then [Some cfg] else if b = PS2_CMD_TEST then [Some t]
     else if b = PS2_CMD_P1TEST then [Some PS2_RESP_P1PASS] else if b = PS2_CMD_P2TEST then [Some PS2_RESP_P2PASS] else [])"

definition controller :: "ps2_hw \<Rightarrow> u8 \<Rightarrow> u8 \<Rightarrow> bool" where
  "controller hw cfg t \<longleftrightarrow> (\<forall>h p b. fst (hw (h @ [(p, b)])) = ctl_reply cfg t p b \<and> snd (hw (h @ [(p, b)])) < 25000)"

text \<open>A state with nothing but \<open>xs\<close> to read, in which the bytes \<open>h\<close> were written.\<close>

definition at :: "ps2 \<Rightarrow> u8 list \<Rightarrow> (bool \<times> u8) list \<Rightarrow> bool" where
  "at s xs h \<longleftrightarrow> p_out s = map Some xs \<and> p_sent s = h \<and> p_busy s < 25000"

lemma tick_pow_bytes [simp]: "(tick ^^ k) (map Some xs) = map Some xs"
  by (cases xs) simp_all

lemma tick_bytes [simp]: "tick (map Some xs) = map Some xs"
  by (cases xs) simp_all

lemma wait_write_at: "at s xs h \<Longrightarrow> wait_for_write s = Some (polled (p_busy s + 1) s)"
  by (simp add: at_def wait_for_write_def PS2_IO_TIMEOUT_def wait_write)

lemma cmd_at:
  assumes "controller hw cfg t" "at s xs h"
  shows "\<exists>s'. ps2_cmd hw c s = Some s' \<and> at s' (xs @ map the (ctl_reply cfg t True c)) (h @ [(True, c)])"
  using assms wait_write_at [OF assms(2)]
  by (auto simp: ps2_cmd_def ps2_outb_def controller_def at_def ctl_reply_def split_beta Let_def simp del: funpow.simps)

lemma write_at:
  assumes "controller hw cfg t" "at s xs h"
  shows "\<exists>s'. ps2_write hw c s = Some s' \<and> at s' xs (h @ [(False, c)])"
  using assms wait_write_at [OF assms(2)]
  by (auto simp: ps2_write_def ps2_outb_def controller_def at_def ctl_reply_def split_beta Let_def simp del: funpow.simps)

lemma read_at:
  assumes "at s (x # xs) h"
  shows "\<exists>s'. ps2_read s = Some (x, s') \<and> at s' xs h"
proof -
  have o: "p_out s = replicate 0 None @ Some x # map Some xs" using assms by (simp add: at_def)
  have "wait_for_read s = Some (polled (0 + 1) s)" unfolding wait_for_read_def by (rule wait_read [OF o]) (simp add: PS2_IO_TIMEOUT_def)
  then show ?thesis using assms by (auto simp: ps2_read_def at_def)
qed

lemma flush_at: "at s xs h \<Longrightarrow> at (ps2_flush s) [] h"
proof (induction xs arbitrary: s)
  case Nil
  then have "data_in s = (p_last s, s)" "ps2_canread s = (False, polled 1 s)"
    by (simp_all add: at_def data_in_def ps2_canread_def split_beta status_flags polled_status)
  then have "ps2_flush s = polled 1 s" by (subst ps2_flush.simps) simp
  then show ?case using Nil by (auto simp: at_def)
next
  case (Cons x xs)
  define s1 where "s1 = s\<lparr>p_out := map Some xs, p_last := x\<rparr>"
  have d: "data_in s = (x, s1)" using Cons.prems by (simp add: at_def s1_def)
  have c: "ps2_canread s1 = (xs \<noteq> [], polled 1 s1)" by (cases xs) (simp_all add: ps2_canread_def split_beta status_flags polled_status s1_def)
  have "at (polled 1 s1) xs h" using Cons.prems by (auto simp: at_def s1_def)
  then show ?case using d c Cons.IH by (subst ps2_flush.simps) (cases xs; simp)
qed

definition init_ps2_bytes :: "u8 \<Rightarrow> (bool \<times> u8) list" where
  "init_ps2_bytes cfg = (let p2 = (cfg AND 0x20 = 0) in
     [(True, 0xAD), (True, 0xA7), (True, 0xA8), (True, 0x20), (True, 0xAA), (True, 0xAB)] @ (if p2 then [(True, 0xA9), (True, 0xA7)] else []) @
     [(True, 0x60), (False, if p2 then cfg OR 3 else cfg OR 1), (True, 0xAE)] @ (if p2 then [(True, 0xA8)] else []))"

text \<open>
  \<open>init_ps2\<close> discards what the controller had to say, disables both ports, tests the controller and the ports, turns on the interrupts of the ports that exist in the configuration byte,
  keeping its other bits, and enables them again; the second port exists if its clock is running. The bytes written are exactly those listed. When the self-test of the controller
  fails, it panics.
\<close>

theorem init_ps2_sequence:
  assumes hw: "controller hw cfg t" and s: "p_out s = map Some junk" "p_busy s < 25000"
  shows "if t = 0x55 then \<exists>s'. init_ps2 hw s = Some s' \<and> p_out s' = [] \<and> p_busy s' < 25000 \<and> p_sent s' = p_sent s @ init_ps2_bytes cfg
    else init_ps2 hw s = None"
proof -
  define h0 where "h0 = p_sent s"
  have reply: "ctl_reply cfg t True c = (if c = 0x20 then [Some cfg] else if c = 0xAA then [Some t] else if c = 0xAB \<or> c = 0xA9 then [Some 0] else [])" for c
    by (simp add: ctl_reply_def ps2_consts)
  note cmd = cmd_at [OF hw, unfolded reply]
  have "at s junk h0" using s by (simp add: at_def h0_def)
  from cmd [OF this, of "0xAD"] obtain s1 where s1: "ps2_cmd hw 0xAD s = Some s1" "at s1 junk (h0 @ [(True, 0xAD)])" by auto
  from cmd [OF s1(2), of "0xA7"] obtain s2 where s2: "ps2_cmd hw 0xA7 s1 = Some s2" "at s2 junk (h0 @ [(True, 0xAD), (True, 0xA7)])" by auto
  define s3 where "s3 = ps2_flush s2"
  have s3: "at s3 [] (h0 @ [(True, 0xAD), (True, 0xA7)])" using flush_at [OF s2(2)] by (simp add: s3_def)
  from cmd [OF s3, of "0xA8"] obtain s4 where s4: "ps2_cmd hw 0xA8 s3 = Some s4" "at s4 [] (h0 @ [(True, 0xAD), (True, 0xA7), (True, 0xA8)])" by auto
  from cmd [OF s4(2), of "0x20"] obtain s5 where s5: "ps2_cmd hw 0x20 s4 = Some s5" "at s5 [cfg] (h0 @ [(True, 0xAD), (True, 0xA7), (True, 0xA8), (True, 0x20)])" by auto
  from read_at [OF s5(2)] obtain s6 where s6: "ps2_read s5 = Some (cfg, s6)" "at s6 [] (h0 @ [(True, 0xAD), (True, 0xA7), (True, 0xA8), (True, 0x20)])" by auto
  define h7 where "h7 = h0 @ [(True, 0xAD), (True, 0xA7), (True, 0xA8), (True, 0x20), (True, 0xAA)]"
  from cmd [OF s6(2), of "0xAA"] obtain s7 where s7: "ps2_cmd hw 0xAA s6 = Some s7" "at s7 [t] h7" by (auto simp: h7_def)
  from read_at [OF s7(2)] obtain s8 where s8: "ps2_read s7 = Some (t, s8)" "at s8 [] h7" by auto
  note start = s1(1) s2(1) s3_def [symmetric] s4(1) s5(1) s6(1) s7(1) s8(1)
  from cmd [OF s8(2), of "0xAB"] obtain s9 where s9: "ps2_cmd hw 0xAB s8 = Some s9" "at s9 [0] (h7 @ [(True, 0xAB)])" by auto
  from read_at [OF s9(2)] obtain sa where sa: "ps2_read s9 = Some (0, sa)" "at sa [] (h7 @ [(True, 0xAB)])" by auto
  define p2 where "p2 = (cfg AND 0x20 = 0)"
  have "cfg AND 0x20 = (if bit cfg 5 then 0x20 else 0)" by (rule u8_eqI) (auto simp: bit_simps)
  then have flag: "has_flag cfg 0x20 \<longleftrightarrow> \<not> p2" by (simp add: has_flag_def p2_def)
  define h8 where "h8 = h7 @ [(True, 0xAB)] @ (if p2 then [(True, 0xA9), (True, 0xA7)] else [])"
  define test where "test = (if p2 then do { s \<leftarrow> ps2_cmd hw 0xA9 sa; (resp, s) \<leftarrow> ps2_read s; assert_opt (resp = 0x55 \<or> resp = 0); ps2_cmd hw 0xA7 s } else Some sa)"
  have "\<exists>sb. test = Some sb \<and> at sb [] h8"
  proof (cases p2)
    case True
    from cmd [OF sa(2), of "0xA9"] obtain u where u: "ps2_cmd hw 0xA9 sa = Some u" "at u [0] (h7 @ [(True, 0xAB), (True, 0xA9)])" by auto
    from read_at [OF u(2)] obtain v where v: "ps2_read u = Some (0, v)" "at v [] (h7 @ [(True, 0xAB), (True, 0xA9)])" by auto
    from cmd [OF v(2), of "0xA7"] show ?thesis using True u(1) v(1) by (auto simp: test_def h8_def)
  qed (use sa(2) in \<open>auto simp: test_def h8_def\<close>)
  then obtain sb where sb: "test = Some sb" "at sb [] h8" by blast
  define cfg' where "cfg' = (if p2 then (cfg OR 1) OR 2 else cfg OR 1)"
  from cmd [OF sb(2), of "0x60"] obtain sc where sc: "ps2_cmd hw 0x60 sb = Some sc" "at sc [] (h8 @ [(True, 0x60)])" by auto
  from write_at [OF hw sc(2), of cfg'] obtain sd where sd: "ps2_write hw cfg' sc = Some sd" "at sd [] (h8 @ [(True, 0x60), (False, cfg')])" by auto
  from cmd [OF sd(2), of "0xAE"] obtain se where se: "ps2_cmd hw 0xAE sd = Some se" "at se [] (h8 @ [(True, 0x60), (False, cfg'), (True, 0xAE)])" by auto
  define h9 where "h9 = h8 @ [(True, 0x60), (False, cfg'), (True, 0xAE)] @ (if p2 then [(True, 0xA8)] else [])"
  obtain sf where sf: "(if p2 then ps2_cmd hw 0xA8 se else Some se) = Some sf" "at sf [] h9"
    using cmd [OF se(2), of "0xA8"] se(2) by (cases p2) (auto simp: h9_def)
  have c3: "(cfg OR 1) OR 2 = cfg OR 3" by (simp add: or.assoc)
  have h9: "h9 = p_sent s @ init_ps2_bytes cfg"
    by (simp add: h9_def h8_def h7_def h0_def init_ps2_bytes_def cfg'_def p2_def c3 Let_def)
  have i: "init_ps2 hw s = do { assert_opt (t = 0x55); Some (ps2_flush sf) }"
    using start s9(1) sa(1) sb(1) sc(1) sd(1) se(1) sf(1)
    unfolding init_ps2_def ps2_consts test_def cfg'_def Let_def by (cases p2; cases "t = 0x55") (simp_all add: flag assert_opt_def del: Option.bind_assoc)
  show ?thesis using i flush_at [OF sf(2)] h9 by (auto simp: at_def assert_opt_def)
qed

definition ex_ctl :: ps2_hw where
  "ex_ctl h = (ctl_reply 0x65 0x55 (fst (last h)) (snd (last h)), 3)"

theorem init_ps2_sequence_witness:
  "\<exists>s'. init_ps2 ex_ctl (ex_ps2\<lparr>p_out := [Some 0x1E]\<rparr>) = Some s' \<and> p_sent s' = init_ps2_bytes 0x65 \<and> p_out s' = []"
proof -
  have "controller ex_ctl 0x65 0x55" by (simp add: controller_def ex_ctl_def)
  then show ?thesis using init_ps2_sequence [of ex_ctl "0x65" "0x55" "ex_ps2\<lparr>p_out := [Some 0x1E]\<rparr>" "[0x1E]"] by (auto simp: ex_ps2_def)
qed


end
