(* ===== verification/Keyboard.thy ===== *)
theory Keyboard
  imports Ps2 Ctype Irq
begin

text \<open>
  The keyboard, \<^verbatim>\<open>src/kernel/char/ps2kb.c\<close>, with the key codes of \<^verbatim>\<open>src/include/kernel/input.h\<close>: from the scan codes of an
  interrupt to the characters given to the line discipline of the current terminal.

  \<open>kd_fed\<close> collects the characters passed to the receiver of the line discipline, \<open>kd_calls\<close> the calls that leave the driver: switching terminals, the
  breakpoint, and loading an empty interrupt table. \<open>kd_tty\<close> tells whether the current terminal has a tty with a receiver.
  Key events are built and then dropped by the code, and messages are left out. The functions that no build uses by default (the self-test, probing for scan code sets) are not modelled.
\<close>

named_theorems key_defs "virtual key codes"

definition KEY_NONE :: nat where [key_defs]: "KEY_NONE = 0"
definition KEY_LCTRL :: nat where [key_defs]: "KEY_LCTRL = 1"
definition KEY_RCTRL :: nat where [key_defs]: "KEY_RCTRL = 2"
definition KEY_LSHIFT :: nat where [key_defs]: "KEY_LSHIFT = 3"
definition KEY_RSHIFT :: nat where [key_defs]: "KEY_RSHIFT = 4"
definition KEY_LALT :: nat where [key_defs]: "KEY_LALT = 5"
definition KEY_RALT :: nat where [key_defs]: "KEY_RALT = 6"
definition KEY_BREAK :: nat where [key_defs]: "KEY_BREAK = 7"
definition KEY_BACKSPACE :: nat where [key_defs]: "KEY_BACKSPACE = 8"
definition KEY_TAB :: nat where [key_defs]: "KEY_TAB = 9"
definition KEY_ENTER :: nat where [key_defs]: "KEY_ENTER = 10"
definition KEY_F1 :: nat where [key_defs]: "KEY_F1 = 11"
definition KEY_F2 :: nat where [key_defs]: "KEY_F2 = 12"
definition KEY_F3 :: nat where [key_defs]: "KEY_F3 = 13"
definition KEY_F4 :: nat where [key_defs]: "KEY_F4 = 14"
definition KEY_F5 :: nat where [key_defs]: "KEY_F5 = 15"
definition KEY_F6 :: nat where [key_defs]: "KEY_F6 = 16"
definition KEY_F7 :: nat where [key_defs]: "KEY_F7 = 17"
definition KEY_F8 :: nat where [key_defs]: "KEY_F8 = 18"
definition KEY_F9 :: nat where [key_defs]: "KEY_F9 = 19"
definition KEY_F10 :: nat where [key_defs]: "KEY_F10 = 20"
definition KEY_F11 :: nat where [key_defs]: "KEY_F11 = 21"
definition KEY_F12 :: nat where [key_defs]: "KEY_F12 = 22"
definition KEY_LWIN :: nat where [key_defs]: "KEY_LWIN = 23"
definition KEY_RWIN :: nat where [key_defs]: "KEY_RWIN = 24"
definition KEY_MENU :: nat where [key_defs]: "KEY_MENU = 25"
definition KEY_PAUSE :: nat where [key_defs]: "KEY_PAUSE = 26"
definition KEY_ESCAPE :: nat where [key_defs]: "KEY_ESCAPE = 27"
definition KEY_SYSRQ :: nat where [key_defs]: "KEY_SYSRQ = 28"
definition KEY_CAPSLK :: nat where [key_defs]: "KEY_CAPSLK = 29"
definition KEY_NUMLK :: nat where [key_defs]: "KEY_NUMLK = 30"
definition KEY_SCRLK :: nat where [key_defs]: "KEY_SCRLK = 31"
definition KEY_SPACE :: nat where [key_defs]: "KEY_SPACE = 32"
definition KEY_APOSTROPHE :: nat where [key_defs]: "KEY_APOSTROPHE = 39"
definition KEY_KPASTERISK :: nat where [key_defs]: "KEY_KPASTERISK = 42"
definition KEY_KPPLUS :: nat where [key_defs]: "KEY_KPPLUS = 43"
definition KEY_COMMA :: nat where [key_defs]: "KEY_COMMA = 44"
definition KEY_MINUS :: nat where [key_defs]: "KEY_MINUS = 45"
definition KEY_DOT :: nat where [key_defs]: "KEY_DOT = 46"
definition KEY_SLASH :: nat where [key_defs]: "KEY_SLASH = 47"
definition KEY_0 :: nat where [key_defs]: "KEY_0 = 48"
definition KEY_1 :: nat where [key_defs]: "KEY_1 = 49"
definition KEY_2 :: nat where [key_defs]: "KEY_2 = 50"
definition KEY_3 :: nat where [key_defs]: "KEY_3 = 51"
definition KEY_4 :: nat where [key_defs]: "KEY_4 = 52"
definition KEY_5 :: nat where [key_defs]: "KEY_5 = 53"
definition KEY_6 :: nat where [key_defs]: "KEY_6 = 54"
definition KEY_7 :: nat where [key_defs]: "KEY_7 = 55"
definition KEY_8 :: nat where [key_defs]: "KEY_8 = 56"
definition KEY_9 :: nat where [key_defs]: "KEY_9 = 57"
definition KEY_SEMICOLON :: nat where [key_defs]: "KEY_SEMICOLON = 59"
definition KEY_EQUAL :: nat where [key_defs]: "KEY_EQUAL = 61"
definition KEY_A :: nat where [key_defs]: "KEY_A = 65"
definition KEY_B :: nat where [key_defs]: "KEY_B = 66"
definition KEY_C :: nat where [key_defs]: "KEY_C = 67"
definition KEY_D :: nat where [key_defs]: "KEY_D = 68"
definition KEY_E :: nat where [key_defs]: "KEY_E = 69"
definition KEY_F :: nat where [key_defs]: "KEY_F = 70"
definition KEY_G :: nat where [key_defs]: "KEY_G = 71"
definition KEY_H :: nat where [key_defs]: "KEY_H = 72"
definition KEY_I :: nat where [key_defs]: "KEY_I = 73"
definition KEY_J :: nat where [key_defs]: "KEY_J = 74"
definition KEY_K :: nat where [key_defs]: "KEY_K = 75"
definition KEY_L :: nat where [key_defs]: "KEY_L = 76"
definition KEY_M :: nat where [key_defs]: "KEY_M = 77"
definition KEY_N :: nat where [key_defs]: "KEY_N = 78"
definition KEY_O :: nat where [key_defs]: "KEY_O = 79"
definition KEY_P :: nat where [key_defs]: "KEY_P = 80"
definition KEY_Q :: nat where [key_defs]: "KEY_Q = 81"
definition KEY_R :: nat where [key_defs]: "KEY_R = 82"
definition KEY_S :: nat where [key_defs]: "KEY_S = 83"
definition KEY_T :: nat where [key_defs]: "KEY_T = 84"
definition KEY_U :: nat where [key_defs]: "KEY_U = 85"
definition KEY_V :: nat where [key_defs]: "KEY_V = 86"
definition KEY_W :: nat where [key_defs]: "KEY_W = 87"
definition KEY_X :: nat where [key_defs]: "KEY_X = 88"
definition KEY_Y :: nat where [key_defs]: "KEY_Y = 89"
definition KEY_Z :: nat where [key_defs]: "KEY_Z = 90"
definition KEY_LEFTBRACKET :: nat where [key_defs]: "KEY_LEFTBRACKET = 91"
definition KEY_BACKSLASH :: nat where [key_defs]: "KEY_BACKSLASH = 92"
definition KEY_RIGHTBRACKET :: nat where [key_defs]: "KEY_RIGHTBRACKET = 93"
definition KEY_GRAVE :: nat where [key_defs]: "KEY_GRAVE = 96"
definition KEY_KPMINUS :: nat where [key_defs]: "KEY_KPMINUS = 97"
definition KEY_KPDOT :: nat where [key_defs]: "KEY_KPDOT = 98"
definition KEY_KPSLASH :: nat where [key_defs]: "KEY_KPSLASH = 99"
definition KEY_KP0 :: nat where [key_defs]: "KEY_KP0 = 100"
definition KEY_KP1 :: nat where [key_defs]: "KEY_KP1 = 101"
definition KEY_KP2 :: nat where [key_defs]: "KEY_KP2 = 102"
definition KEY_KP3 :: nat where [key_defs]: "KEY_KP3 = 103"
definition KEY_KP4 :: nat where [key_defs]: "KEY_KP4 = 104"
definition KEY_KP5 :: nat where [key_defs]: "KEY_KP5 = 105"
definition KEY_KP6 :: nat where [key_defs]: "KEY_KP6 = 106"
definition KEY_KP7 :: nat where [key_defs]: "KEY_KP7 = 107"
definition KEY_KP8 :: nat where [key_defs]: "KEY_KP8 = 108"
definition KEY_KP9 :: nat where [key_defs]: "KEY_KP9 = 109"
definition KEY_KPENTER :: nat where [key_defs]: "KEY_KPENTER = 110"
definition KEY_PRTSC :: nat where [key_defs]: "KEY_PRTSC = 111"
definition KEY_INSERT :: nat where [key_defs]: "KEY_INSERT = 112"
definition KEY_DELETE :: nat where [key_defs]: "KEY_DELETE = 113"
definition KEY_HOME :: nat where [key_defs]: "KEY_HOME = 114"
definition KEY_END :: nat where [key_defs]: "KEY_END = 115"
definition KEY_PGUP :: nat where [key_defs]: "KEY_PGUP = 116"
definition KEY_PGDOWN :: nat where [key_defs]: "KEY_PGDOWN = 117"
definition KEY_LEFT :: nat where [key_defs]: "KEY_LEFT = 118"
definition KEY_DOWN :: nat where [key_defs]: "KEY_DOWN = 119"
definition KEY_RIGHT :: nat where [key_defs]: "KEY_RIGHT = 120"
definition KEY_UP :: nat where [key_defs]: "KEY_UP = 121"

definition is_alt :: "nat \<Rightarrow> bool" where "is_alt k \<longleftrightarrow> k = KEY_LALT \<or> k = KEY_RALT"
definition is_numpad :: "nat \<Rightarrow> bool" where "is_numpad k \<longleftrightarrow> k \<ge> KEY_KP0 \<and> k \<le> KEY_KP9"
definition is_fnkey :: "nat \<Rightarrow> bool" where "is_fnkey k \<longleftrightarrow> k \<ge> KEY_F1 \<and> k \<le> KEY_F12"
definition numpad_index :: "nat \<Rightarrow> nat" where "numpad_index k = k - KEY_KP0"
definition fnkey_index :: "nat \<Rightarrow> nat" where "fnkey_index k = k - KEY_F1 + 1"

subsection \<open>Tables\<close>

definition keymap :: "u8 list" where
  "keymap =
   [0, 0, 0, 0, 0, 0, 0, 0, 0x7F, 9, 13, 0xE0, 0xE0, 0xE0, 0xE0, 0xE0] @
   [0xE0, 0xE0, 0xE0, 0xE0, 0xE0, 0xE0, 0xE0, 0, 0, 0, 0, 27, 0, 0, 0, 0] @
   [32, 0, 0, 0, 0, 0, 0, 39, 0, 0, 42, 43, 44, 45, 46, 47] @
   [48, 49, 50, 51, 52, 53, 54, 55, 56, 57, 0, 59, 0, 61, 0, 0] @
   [0, 97, 98, 99, 100, 101, 102, 103, 104, 105, 106, 107, 108, 109, 110, 111] @
   [112, 113, 114, 115, 116, 117, 118, 119, 120, 121, 122, 91, 92, 93, 0, 0] @
   [96, 45, 46, 47, 48, 49, 50, 51, 52, 53, 54, 55, 56, 57, 13, 0xE0] @
   [0xE0, 0xE0, 0xE0, 0xE0, 0xE0, 0xE0, 0xE0, 0xE0, 0xE0, 0xE0, 0, 0, 0, 0, 0] @
   [0, 0, 0, 0, 0, 0, 0, 0, 0, 0, 0, 0, 0, 0, 0, 0] @
   [0, 0, 0, 0, 0, 0, 0, 0, 0, 0, 0, 0, 0, 0, 0, 0] @
   [0, 0, 0, 0, 0, 0, 0, 0, 0, 0, 0, 0, 0, 0, 0, 0] @
   [0, 0, 0, 0, 0, 0, 0, 0, 0, 0, 0, 0, 0, 0, 0, 0] @
   [0, 0, 0, 0, 0, 0, 0, 0, 0, 0, 0, 0, 0, 0, 0, 0] @
   [0, 0, 0, 0, 0, 0, 0, 0, 0, 0, 0, 0, 0, 0, 0, 0] @
   [0, 0, 0, 0, 0, 0, 0, 0, 0, 0, 0, 0, 0, 0, 0, 0] @
   [0, 0, 0, 0, 0, 0, 0, 0, 0, 0, 0, 0, 0, 0, 0, 0] @ replicate 1 0"

definition keymap_shift :: "u8 list" where
  "keymap_shift =
   [0, 0, 0, 0, 0, 0, 0, 0, 0x7F, 9, 13, 0, 0, 0, 0, 0] @
   [0, 0, 0, 0, 0, 0, 0, 0, 0, 0, 0, 27, 0, 0, 0, 0] @
   [32, 0, 0, 0, 0, 0, 0, 34, 0, 0, 42, 43, 60, 95, 62, 63] @
   [41, 33, 64, 35, 36, 37, 94, 38, 42, 40, 0, 58, 0, 43, 0, 0] @
   [0, 65, 66, 67, 68, 69, 70, 71, 72, 73, 74, 75, 76, 77, 78, 79] @
   [80, 81, 82, 83, 84, 85, 86, 87, 88, 89, 90, 123, 124, 125, 0, 0] @
   [126, 45, 46, 47, 48, 49, 50, 51, 52, 53, 54, 55, 56, 57, 13, 0] @
   [0, 0, 0, 0, 0, 0, 0, 0, 0, 0, 0, 0, 0, 0, 0, 0]"

definition scanmap :: "nat list" where
  "scanmap =
   [0, KEY_ESCAPE, KEY_1, KEY_2, KEY_3, KEY_4, KEY_5, KEY_6] @
   [KEY_7, KEY_8, KEY_9, KEY_0, KEY_MINUS, KEY_EQUAL, KEY_BACKSPACE, KEY_TAB] @
   [KEY_Q, KEY_W, KEY_E, KEY_R, KEY_T, KEY_Y, KEY_U, KEY_I] @
   [KEY_O, KEY_P, KEY_LEFTBRACKET, KEY_RIGHTBRACKET, KEY_ENTER, KEY_LCTRL, KEY_A, KEY_S] @
   [KEY_D, KEY_F, KEY_G, KEY_H, KEY_J, KEY_K, KEY_L, KEY_SEMICOLON] @
   [KEY_APOSTROPHE, KEY_GRAVE, KEY_LSHIFT, KEY_BACKSLASH, KEY_Z, KEY_X, KEY_C, KEY_V] @
   [KEY_B, KEY_N, KEY_M, KEY_COMMA, KEY_DOT, KEY_SLASH, KEY_RSHIFT, KEY_KPASTERISK] @
   [KEY_LALT, KEY_SPACE, KEY_CAPSLK, KEY_F1, KEY_F2, KEY_F3, KEY_F4, KEY_F5] @
   [KEY_F6, KEY_F7, KEY_F8, KEY_F9, KEY_F10, KEY_NUMLK, KEY_SCRLK, KEY_KP7] @
   [KEY_KP8, KEY_KP9, KEY_KPMINUS, KEY_KP4, KEY_KP5, KEY_KP6, KEY_KPPLUS, KEY_KP1] @
   [KEY_KP2, KEY_KP3, KEY_KP0, KEY_KPDOT, KEY_SYSRQ, 0, 0, KEY_F11] @
   [KEY_F12, 0, 0, 0, 0, 0, 0, 0] @
   [0, 0, 0, 0, 0, 0, 0, 0] @
   [0, 0, 0, 0, 0, 0, 0, 0] @
   [0, 0, 0, 0, 0, 0, 0, 0] @
   [0, 0, 0, 0, 0, 0, 0, 0]"

definition scanmap_e0 :: "nat list" where
  "scanmap_e0 =
   [0, 0, 0, 0, 0, 0, 0, 0] @
   [0, 0, 0, 0, 0, 0, 0, 0] @
   [0, 0, 0, 0, 0, 0, 0, 0] @
   [0, 0, 0, 0, KEY_KPENTER, KEY_RCTRL, 0, 0] @
   [0, 0, 0, 0, 0, 0, 0, 0] @
   [0, 0, KEY_LSHIFT, 0, 0, 0, 0, 0] @
   [0, 0, 0, 0, 0, KEY_KPSLASH, KEY_RSHIFT, KEY_PRTSC] @
   [KEY_RALT, 0, 0, 0, 0, 0, 0, 0] @
   [0, 0, 0, 0, 0, 0, KEY_BREAK, KEY_HOME] @
   [KEY_UP, KEY_PGUP, 0, KEY_LEFT, 0, KEY_RIGHT, 0, KEY_END] @
   [KEY_DOWN, KEY_PGDOWN, KEY_INSERT, KEY_DELETE, 0, 0, 0, 0] @
   [0, 0, 0, KEY_LWIN, KEY_RWIN, KEY_MENU, 0, 0] @
   [0, 0, 0, 0, 0, 0, 0, 0] @
   [0, 0, 0, 0, 0, 0, 0, 0] @
   [0, 0, 0, 0, 0, 0, 0, 0] @
   [0, 0, 0, 0, 0, 0, 0, 0]"

subsection \<open>State\<close>

record kb =
  k_ident :: "u8 list"
  k_leds :: u32
  k_typematic :: bool
  k_typematic_byte :: u32
  k_scancode_set :: u32
  k_e0 :: bool
  k_e1 :: bool
  k_ctrl :: u32
  k_alt :: u32
  k_shift :: u32
  k_meta :: u32
  k_numlk :: u32
  k_capslk :: u32
  k_scrlk :: u32
  k_sysrq :: u32
  k_altchar :: u8
  k_pollchar :: u8
  k_ack_count :: u32
  k_resend_count :: u32
  k_error_count :: u32

datatype kb_call = Switch_terminal nat | Breakpoint | Empty_idt

record keyboard =
  kd_kb :: kb
  kd_ps2 :: ps2
  kd_tty :: bool
  kd_fed :: "u8 list"
  kd_calls :: "kb_call list"
  kd_crashkey :: nat
  kd_initialized :: bool

definition upd_kb :: "(kb \<Rightarrow> kb) \<Rightarrow> keyboard \<Rightarrow> keyboard" where
  "upd_kb f s = s\<lparr>kd_kb := f (kd_kb s)\<rparr>"

definition on_ps2 :: "(ps2 \<Rightarrow> ps2 option) \<Rightarrow> keyboard \<Rightarrow> keyboard option" where
  "on_ps2 f s = do { p \<leftarrow> f (kd_ps2 s); Some (s\<lparr>kd_ps2 := p\<rparr>) }"

definition rdport :: "keyboard \<Rightarrow> u8 \<times> keyboard" where
  "rdport s = (let (b, e, p) = kb_rdport (k_error_count (kd_kb s), kd_ps2 s) in (b, s\<lparr>kd_kb := (kd_kb s)\<lparr>k_error_count := e\<rparr>, kd_ps2 := p\<rparr>))"

definition sendcmd :: "ps2_hw \<Rightarrow> u8 \<Rightarrow> keyboard \<Rightarrow> (bool \<times> keyboard) option" where
  "sendcmd hw c s = do {
     (ok, e, p) \<leftarrow> kb_sendcmd hw c (k_error_count (kd_kb s), kd_ps2 s);
     Some (ok, s\<lparr>kd_kb := (kd_kb s)\<lparr>k_error_count := e\<rparr>, kd_ps2 := p\<rparr>)
   }"

definition PS2KB_CMD_SETLED :: u8 where "PS2KB_CMD_SETLED = 0xED"
definition PS2KB_CMD_SCANCODE :: u8 where "PS2KB_CMD_SCANCODE = 0xF0"
definition PS2KB_CMD_IDENT :: u8 where "PS2KB_CMD_IDENT = 0xF2"
definition PS2KB_CMD_TYPEMATIC :: u8 where "PS2KB_CMD_TYPEMATIC = 0xF3"
definition PS2KB_CMD_SCANON :: u8 where "PS2KB_CMD_SCANON = 0xF4"
definition PS2KB_CMD_SCANOFF :: u8 where "PS2KB_CMD_SCANOFF = 0xF5"
definition PS2KB_LED_SCRLK :: u32 where "PS2KB_LED_SCRLK = 1"
definition PS2KB_LED_NUMLK :: u32 where "PS2KB_LED_NUMLK = 2"
definition PS2KB_LED_CAPLK :: u32 where "PS2KB_LED_CAPLK = 4"
definition TYPEMATIC_BYTE :: u8 where "TYPEMATIC_BYTE = 0x22"
definition IRQ_KEYBOARD :: int where "IRQ_KEYBOARD = 1"

subsection \<open>Commands to the keyboard\<close>

definition kb_ident :: "ps2_hw \<Rightarrow> keyboard \<Rightarrow> (bool \<times> keyboard) option" where
  "kb_ident hw s = do {
     (ok, s) \<leftarrow> sendcmd hw PS2KB_CMD_IDENT s;
     if \<not> ok then Some (False, s)
     else do {
       let (a, s) = rdport s;
       let (b, s) = rdport s;
       Some (True, upd_kb (k_ident_update (\<lambda>_. [a, b])) s)
     }
   }"

definition kb_setleds :: "ps2_hw \<Rightarrow> u8 \<Rightarrow> keyboard \<Rightarrow> (bool \<times> keyboard) option" where
  "kb_setleds hw leds s = do {
     (ok, s) \<leftarrow> sendcmd hw PS2KB_CMD_SETLED s;
     if \<not> ok then Some (False, s)
     else do {
       let s = upd_kb (k_leds_update (\<lambda>_. ucast leds)) s;
       s \<leftarrow> on_ps2 (kb_wrport hw leds) s;
       let (_, s) = rdport s;
       Some (True, s)
     }
   }"

definition kb_scset :: "ps2_hw \<Rightarrow> u8 \<Rightarrow> keyboard \<Rightarrow> (bool \<times> keyboard) option" where
  "kb_scset hw st s = do {
     assert_opt (0 < st \<and> st \<le> 3);
     (ok, s) \<leftarrow> sendcmd hw PS2KB_CMD_SCANCODE s;
     if \<not> ok then Some (False, s)
     else do {
       s \<leftarrow> on_ps2 (kb_wrport hw 0) s;
       let (_, s) = rdport s;
       let (oldset, s) = rdport s;
       if oldset = 0 then do {
         (_, s) \<leftarrow> sendcmd hw PS2KB_CMD_SCANCODE s;
         s \<leftarrow> on_ps2 (kb_wrport hw 1) s;
         let (_, s) = rdport s;
         Some (st = 1, upd_kb (k_scancode_set_update (\<lambda>_. 1)) s)
       }
       else do {
         (_, s) \<leftarrow> sendcmd hw PS2KB_CMD_SCANCODE s;
         s \<leftarrow> on_ps2 (kb_wrport hw st) s;
         let (_, s) = rdport s;
         (_, s) \<leftarrow> sendcmd hw PS2KB_CMD_SCANCODE s;
         s \<leftarrow> on_ps2 (kb_wrport hw 0) s;
         let (_, s) = rdport s;
         let (d, s) = rdport s;
         if d = st then Some (True, upd_kb (k_scancode_set_update (\<lambda>_. ucast st)) s)
         else do {
           (_, s) \<leftarrow> sendcmd hw PS2KB_CMD_SCANCODE s;
           s \<leftarrow> on_ps2 (kb_wrport hw oldset) s;
           let (_, s) = rdport s;
           Some (False, upd_kb (k_scancode_set_update (\<lambda>_. ucast oldset)) s)
         }
       }
     }
   }"

definition kb_typematic :: "ps2_hw \<Rightarrow> u8 \<Rightarrow> keyboard \<Rightarrow> (bool \<times> keyboard) option" where
  "kb_typematic hw typ s = do {
     assert_opt (typ AND 0x80 = 0);
     (ok, s) \<leftarrow> sendcmd hw PS2KB_CMD_TYPEMATIC s;
     if \<not> ok then Some (False, s)
     else do {
       s \<leftarrow> on_ps2 (kb_wrport hw typ) s;
       let (_, s) = rdport s;
       Some (True, upd_kb (\<lambda>k. k\<lparr>k_typematic := True, k_typematic_byte := ucast typ\<rparr>) s)
     }
   }"

definition update_leds :: "ps2_hw \<Rightarrow> keyboard \<Rightarrow> keyboard option" where
  "update_leds hw s = do {
     let k = kd_kb s;
     let leds = (if k_capslk k \<noteq> 0 then PS2KB_LED_CAPLK else 0);
     let leds = (if k_numlk k \<noteq> 0 then leds OR PS2KB_LED_NUMLK else leds);
     let leds = (if k_scrlk k \<noteq> 0 then leds OR PS2KB_LED_SCRLK else leds);
     if k_leds k \<noteq> leds then do { (_, s) \<leftarrow> kb_setleds hw (ucast leds) s; Some s } else Some s
   }"

definition init_kb :: "ps2_hw \<Rightarrow> 'h \<Rightarrow> keyboard \<times> 'h irq_state \<Rightarrow> (keyboard \<times> 'h irq_state) option" where
  "init_kb hw h = (\<lambda>(s, q). do {
     s \<leftarrow> on_ps2 (init_ps2 hw) s;
     let s = upd_kb (k_numlk_update (\<lambda>_. 1)) s;
     let s = s\<lparr>kd_ps2 := ps2_flush (kd_ps2 s)\<rparr>;
     s \<leftarrow> on_ps2 (kb_disable hw) s;
     (_, s) \<leftarrow> sendcmd hw PS2KB_CMD_SCANOFF s;
     let s = s\<lparr>kd_ps2 := ps2_flush (kd_ps2 s)\<rparr>;
     s \<leftarrow> on_ps2 (ps2_cmd hw PS2_CMD_RDCFG) s;
     (cfg, p) \<leftarrow> ps2_read (kd_ps2 s);
     let s = s\<lparr>kd_ps2 := p\<rparr>;
     let cfg = cfg AND NOT PS2_CFG_TRANSLATE;
     s \<leftarrow> on_ps2 (ps2_cmd hw PS2_CMD_WRCFG) s;
     s \<leftarrow> on_ps2 (ps2_write hw cfg) s;
     (_, s) \<leftarrow> kb_ident hw s;
     (_, s) \<leftarrow> kb_typematic hw TYPEMATIC_BYTE s;
     (ok, s) \<leftarrow> kb_scset hw 1 s;
     s \<leftarrow> (if \<not> ok then do {
             s \<leftarrow> on_ps2 (ps2_cmd hw PS2_CMD_WRCFG) s;
             s \<leftarrow> on_ps2 (ps2_write hw (cfg OR PS2_CFG_TRANSLATE)) s;
             Some (upd_kb (k_scancode_set_update (\<lambda>_. 1)) s)
           } else Some s);
     s \<leftarrow> on_ps2 (kb_enable hw) s;
     (_, s) \<leftarrow> sendcmd hw PS2KB_CMD_SCANON s;
     let s = s\<lparr>kd_ps2 := ps2_flush (kd_ps2 s)\<rparr>;
     s \<leftarrow> update_leds hw s;
     q \<leftarrow> irq_register IRQ_KEYBOARD h q;
     q \<leftarrow> irq_unmask IRQ_KEYBOARD q;
     Some (s\<lparr>kd_initialized := True\<rparr>, q)
   })"

subsection \<open>Key strokes\<close>

definition kb_putq :: "u8 \<Rightarrow> keyboard \<Rightarrow> keyboard option" where
  "kb_putq c s = do {
     assert_opt (kd_tty s);
     Some (upd_kb (k_pollchar_update (\<lambda>_. c)) (s\<lparr>kd_fed := kd_fed s @ [c]\<rparr>))
   }"

fun putq_all :: "u8 list \<Rightarrow> keyboard \<Rightarrow> keyboard option" where
  "putq_all [] s = Some s"
| "putq_all (c # cs) s = do { s \<leftarrow> kb_putq c s; putq_all cs s }"

definition hard_reset :: "ps2_hw \<Rightarrow> keyboard \<Rightarrow> keyboard option" where
  "hard_reset hw s = do { s \<leftarrow> on_ps2 (ps2_cmd hw PS2_CMD_SYSRESET) s; Some (s\<lparr>kd_calls := kd_calls s @ [Empty_idt]\<rparr>) }"

text \<open>How the handler ends: it returns, or the machine is reset (the kernel panics when it is not), or the null stack segment is loaded.\<close>

datatype kb_exit = Returned | Rebooted | Crashed

definition sysrq :: "ps2_hw \<Rightarrow> u8 \<Rightarrow> keyboard \<Rightarrow> (kb_exit \<times> keyboard) option" where
  "sysrq hw c s =
    (if c = 0x63 then do {
       s \<leftarrow> on_ps2 (kb_enable hw) s;
       Some (Crashed, s\<lparr>kd_ps2 := (kd_ps2 s)\<lparr>p_if := True\<rparr>\<rparr>)
     }
     else if c = 0x67 then Some (Returned, s\<lparr>kd_calls := kd_calls s @ [Breakpoint]\<rparr>)
     else if c = 0x72 then do { s \<leftarrow> hard_reset hw s; Some (Returned, s) }
     else Some (Returned, s))"

definition numlock_key :: "kb \<Rightarrow> nat \<Rightarrow> nat" where
  "numlock_key k key =
    (if k_numlk k \<noteq> 0 then key
     else if key = KEY_KP0 then KEY_INSERT else if key = KEY_KP1 then KEY_END else if key = KEY_KP2 then KEY_DOWN
     else if key = KEY_KP3 then KEY_PGDOWN else if key = KEY_KP4 then KEY_LEFT else if key = KEY_KP6 then KEY_RIGHT
     else if key = KEY_KP7 then KEY_HOME else if key = KEY_KP8 then KEY_UP else if key = KEY_KP9 then KEY_PGUP
     else if key = KEY_KPDOT then KEY_DELETE else key)"

definition toggle_keys :: "bool \<Rightarrow> nat \<Rightarrow> kb \<Rightarrow> kb" where
  "toggle_keys release key k = (
     let k = (if \<not> release \<and> key = KEY_CAPSLK then k\<lparr>k_capslk := k_capslk k XOR 1\<rparr> else k);
         k = (if \<not> release \<and> key = KEY_NUMLK then k\<lparr>k_numlk := k_numlk k XOR 1\<rparr> else k)
     in if \<not> release \<and> key = KEY_SCRLK then k\<lparr>k_scrlk := k_scrlk k XOR 1\<rparr> else k)"

definition handle_modifier :: "bool \<Rightarrow> nat \<Rightarrow> nat \<Rightarrow> nat \<Rightarrow> u32 \<Rightarrow> u32" where
  "handle_modifier release key l r m = (
     let mk = (if key = l then 1 else 0); mk = (if key = r then mk OR 2 else mk) in
     if mk \<noteq> 0 \<and> \<not> release then m OR mk else if mk \<noteq> 0 \<and> release then m AND NOT mk else m)"

definition modifier_keys :: "bool \<Rightarrow> nat \<Rightarrow> kb \<Rightarrow> kb" where
  "modifier_keys release key k = k\<lparr>
     k_ctrl := handle_modifier release key KEY_LCTRL KEY_RCTRL (k_ctrl k),
     k_shift := handle_modifier release key KEY_LSHIFT KEY_RSHIFT (k_shift k),
     k_alt := handle_modifier release key KEY_LALT KEY_RALT (k_alt k),
     k_meta := handle_modifier release key KEY_LWIN KEY_RWIN (k_meta k),
     k_sysrq := handle_modifier release key KEY_SYSRQ 0 (k_sysrq k)\<rparr>"

definition key_sequence :: "nat \<Rightarrow> u8 list" where
  "key_sequence key =
    (if key = KEY_UP then [27, 91, 65] else if key = KEY_DOWN then [27, 91, 66] else if key = KEY_RIGHT then [27, 91, 67]
     else if key = KEY_LEFT then [27, 91, 68] else if key = KEY_KP5 then [27, 91, 71] else if key = KEY_PRTSC then [27, 91, 80]
     else if key = KEY_HOME then [27, 91, 49, 126] else if key = KEY_INSERT then [27, 91, 50, 126] else if key = KEY_DELETE then [27, 91, 51, 126]
     else if key = KEY_END then [27, 91, 52, 126] else if key = KEY_PGUP then [27, 91, 53, 126] else if key = KEY_PGDOWN then [27, 91, 54, 126]
     else if key = KEY_F1 then [27, 91, 49, 49, 126] else if key = KEY_F2 then [27, 91, 49, 50, 126] else if key = KEY_F3 then [27, 91, 49, 51, 126]
     else if key = KEY_F4 then [27, 91, 49, 52, 126] else if key = KEY_F5 then [27, 91, 49, 53, 126] else if key = KEY_F6 then [27, 91, 49, 55, 126]
     else if key = KEY_F7 then [27, 91, 49, 56, 126] else if key = KEY_F8 then [27, 91, 49, 57, 126] else if key = KEY_F9 then [27, 91, 50, 48, 126]
     else if key = KEY_F10 then [27, 91, 50, 49, 126] else if key = KEY_F11 then [27, 91, 50, 51, 126] else if key = KEY_F12 then [27, 91, 50, 52, 126]
     else [])"

definition control_char :: "nat \<Rightarrow> u8 \<Rightarrow> u8" where
  "control_char key c = (
     let c = (if key = KEY_2 then 64 else if key = KEY_6 then 94 else if key = KEY_LEFTBRACKET then 91 else if key = KEY_BACKSLASH then 92
              else if key = KEY_RIGHTBRACKET then 93 else if key = KEY_MINUS then 95 else if key = KEY_SLASH then 63
              else if key = KEY_BACKSPACE then 8 else c);
         c = (if key \<ge> KEY_A \<and> key \<le> KEY_Z then of_int (toupper (uint c)) else c)
     in if c \<ge> 64 \<and> c \<le> 95 \<or> c = 63 then c XOR 0x40 else c)"

definition caps_char :: "u8 \<Rightarrow> u8" where
  "caps_char c = (if isupper (uint c) then of_int (tolower (uint c)) else if islower (uint c) then of_int (toupper (uint c)) else c)"

text \<open>The mapping of a pressed key to characters.\<close>

definition key_char :: "ps2_hw \<Rightarrow> nat \<Rightarrow> keyboard \<Rightarrow> (kb_exit \<times> keyboard) option" where
  "key_char hw key s = (
     let k = kd_kb s;
         c = (if k_shift k \<noteq> 0 \<and> key \<ge> 0x20 \<and> key \<le> 0x60 then keymap_shift ! (key mod 128) else keymap ! (key mod 256))
     in if c = 0 then Some (Returned, s)
        else if c = 0xE0 \<or> key = KEY_KP5 \<and> k_numlk k = 0 then do { s \<leftarrow> putq_all (key_sequence key) s; Some (Returned, s) }
        else do {
          let c = (if k_ctrl k \<noteq> 0 then control_char key c else c);
          if k_sysrq k \<noteq> 0 then sysrq hw c s
          else do {
            let c = (if k_capslk k \<noteq> 0 \<and> k_alt k = 0 then caps_char c else c);
            s \<leftarrow> (if k_alt k \<noteq> 0 then kb_putq 27 s else Some s);
            s \<leftarrow> kb_putq c s;
            Some (Returned, s)
          }
        })"

definition MAX_VT :: nat where "MAX_VT = 7"

text \<open>Everything after the modifiers are known.\<close>

definition key_action :: "ps2_hw \<Rightarrow> bool \<Rightarrow> nat \<Rightarrow> keyboard \<Rightarrow> (kb_exit \<times> keyboard) option" where
  "key_action hw release key s = (
     let k = kd_kb s in
     if is_alt key \<and> release \<and> k_altchar k \<noteq> 0 then do {
       s \<leftarrow> kb_putq (k_altchar k) s;
       Some (Returned, upd_kb (k_altchar_update (\<lambda>_. 0)) s)
     }
     else if release then Some (Returned, s)
     else if k_ctrl k \<noteq> 0 \<and> k_alt k \<noteq> 0 \<and> (key = KEY_DELETE \<or> key = KEY_KPDOT) then do {
       s \<leftarrow> hard_reset hw s;
       Some (Rebooted, s)
     }
     else let s = (if k_ctrl k \<noteq> 0 \<and> k_alt k \<noteq> 0 \<and> is_fnkey key \<and> kd_crashkey s = 0 then s\<lparr>kd_crashkey := fnkey_index key\<rparr> else s) in
       if k_ctrl k = 0 \<and> k_alt k \<noteq> 0 \<and> is_fnkey key \<and> fnkey_index key \<ge> 1 \<and> fnkey_index key \<le> MAX_VT then
         Some (Returned, s\<lparr>kd_calls := kd_calls s @ [Switch_terminal (fnkey_index key)]\<rparr>)
       else if k_alt k \<noteq> 0 \<and> is_numpad key then
         Some (Returned, upd_kb (k_altchar_update (\<lambda>a. a * 10 + of_nat (numpad_index key))) s)
       else key_char hw key s)"

text \<open>From the scan code to its key.\<close>

definition scan_key :: "u8 \<Rightarrow> kb \<Rightarrow> (nat \<times> kb) option" where
  "scan_key sc k = do {
     let i = unat (sc AND 0x7F);
     let key = (if k_e0 k then scanmap_e0 ! i else scanmap ! i);
     k \<leftarrow> (if k_e0 k then do { assert_opt (\<not> k_e1 k); Some (k\<lparr>k_e0 := False\<rparr>) } else Some k);
     if k_e1 k then do {
       assert_opt (\<not> k_e0 k);
       if key = KEY_NUMLK then Some (KEY_PAUSE, k\<lparr>k_e1 := False\<rparr>) else Some (key, k)
     }
     else Some (key, k)
   }"

definition scan_code :: "ps2_hw \<Rightarrow> u8 \<Rightarrow> keyboard \<Rightarrow> (kb_exit \<times> keyboard) option" where
  "scan_code hw sc s =
    (if sc = 0xFA then Some (Returned, upd_kb (k_ack_count_update (\<lambda>n. n + 1)) s)
     else if sc = 0xFE then Some (Returned, upd_kb (k_resend_count_update (\<lambda>n. n + 1)) s)
     else if sc = 0xFC \<or> sc = 0xFD \<or> sc = 0xFF \<or> sc = 0x00 then Some (Returned, upd_kb (k_error_count_update (\<lambda>n. n + 1)) s)
     else do {
       assert_opt (k_scancode_set (kd_kb s) = 1);
       if sc = 0xE0 then Some (Returned, upd_kb (k_e0_update (\<lambda>_. True)) s)
       else if sc = 0xE1 then Some (Returned, upd_kb (k_e1_update (\<lambda>_. True)) s)
       else do {
         let release = (sc AND 0x80 \<noteq> 0);
         (key, k) \<leftarrow> scan_key sc (kd_kb s);
         let key = numlock_key k key;
         s \<leftarrow> update_leds hw (s\<lparr>kd_kb := toggle_keys release key k\<rparr>);
         key_action hw release key (upd_kb (modifier_keys release key) s)
       }
     })"

definition kb_interrupt :: "ps2_hw \<Rightarrow> int \<Rightarrow> keyboard \<Rightarrow> (kb_exit \<times> keyboard) option" where
  "kb_interrupt hw irq s = do {
     assert_opt (irq = IRQ_KEYBOARD);
     let flags = p_if (kd_ps2 s);
     s \<leftarrow> on_ps2 (kb_disable hw) (s\<lparr>kd_ps2 := (kd_ps2 s)\<lparr>p_if := False\<rparr>\<rparr>);
     let (_, p) = ps2_status (kd_ps2 s);
     let (sc, p) = data_in p;
     (ex, s) \<leftarrow> scan_code hw sc (s\<lparr>kd_ps2 := p\<rparr>);
     if ex = Returned then do {
       s \<leftarrow> on_ps2 (kb_enable hw) s;
       Some (Returned, s\<lparr>kd_ps2 := (kd_ps2 s)\<lparr>p_if := flags\<rparr>\<rparr>)
     }
     else Some (ex, s)
   }"

text \<open>An interrupt for the scan code \<open>sc\<close>, and a sequence of them.\<close>

definition deliver :: "u8 \<Rightarrow> keyboard \<Rightarrow> keyboard" where
  "deliver sc s = s\<lparr>kd_ps2 := (kd_ps2 s)\<lparr>p_out := p_out (kd_ps2 s) @ [Some sc]\<rparr>\<rparr>"

fun interrupts :: "ps2_hw \<Rightarrow> u8 list \<Rightarrow> keyboard \<Rightarrow> keyboard option" where
  "interrupts hw [] s = Some s"
| "interrupts hw (sc # scs) s = do {
     (ex, s) \<leftarrow> kb_interrupt hw IRQ_KEYBOARD (deliver sc s);
     assert_opt (ex = Returned);
     interrupts hw scs s
   }"

text \<open>\<open>kb_getc\<close> spins until an interrupt leaves a character; the scan codes that arrive meanwhile are given.\<close>

fun getc_loop :: "ps2_hw \<Rightarrow> u8 list \<Rightarrow> keyboard \<Rightarrow> (u8 list \<times> keyboard) option" where
  "getc_loop hw scs s =
    (if k_pollchar (kd_kb s) \<noteq> 0 then Some (scs, s)
     else case scs of [] \<Rightarrow> None
       | sc # scs \<Rightarrow> do { s \<leftarrow> interrupts hw [sc] s; getc_loop hw scs s })"

definition kb_getc :: "ps2_hw \<Rightarrow> u8 list \<Rightarrow> keyboard \<Rightarrow> (int \<times> u8 list \<times> keyboard) option" where
  "kb_getc hw scs s =
    (if \<not> kd_initialized s then Some (- EAGAIN, scs, s)
     else do {
       let flags = p_if (kd_ps2 s);
       let s = upd_kb (k_pollchar_update (\<lambda>_. 0)) (s\<lparr>kd_ps2 := (kd_ps2 s)\<lparr>p_if := True\<rparr>\<rparr>);
       (scs, s) \<leftarrow> getc_loop hw scs s;
       Some (sint (k_pollchar (kd_kb s)), scs, s\<lparr>kd_ps2 := (kd_ps2 s)\<lparr>p_if := flags\<rparr>\<rparr>)
     })"

end
