(* ===== verification/Keyboard_Props.thy ===== *)
theory Keyboard_Props
  imports Keyboard
begin

text \<open>
  Properties of the keyboard driver: which characters a sequence of scan codes delivers, and that no scan code stops the kernel.
\<close>

subsection \<open>A keyboard that answers\<close>

text \<open>The keyboard acknowledges every byte, and the controller accepts every command silently, both within 1000 polls.\<close>

definition prompt_kb :: "ps2_hw \<Rightarrow> bool" where
  "prompt_kb hw \<longleftrightarrow> (\<forall>h b. (\<exists>k d. k < 1000 \<and> d < 1000 \<and> hw (h @ [(False, b)]) = (replicate k None @ [Some 0xFA], d)) \<and>
     (\<exists>d < 1000. hw (h @ [(True, b)]) = ([], d)))"

definition idle :: "ps2 \<Rightarrow> bool" where
  "idle p \<longleftrightarrow> p_out p = [] \<and> p_busy p < 1000"

lemma prompt_cmd:
  assumes "prompt_kb hw" "p_busy p < 1000" "p_out p = map Some xs"
  obtains p' where "ps2_cmd hw c p = Some p'" "p_busy p' < 1000" "p_out p' = map Some xs" "p_if p' = p_if p" "p_sent p' = p_sent p @ [(True, c)]"
proof -
  obtain d where d: "d < 1000" "hw (p_sent p @ [(True, c)]) = ([], d)" using assms(1) by (auto simp: prompt_kb_def)
  have w: "wait_for_write p = Some (polled (p_busy p + 1) p)"
    unfolding wait_for_write_def by (rule wait_write) (use assms(2) in \<open>simp add: PS2_IO_TIMEOUT_def\<close>)
  show ?thesis
    by (rule that [of "ps2_outb hw True c (polled (p_busy p + 1) p)"])
      (use w d assms(3) in \<open>simp_all add: ps2_cmd_def ps2_outb_def Let_def del: funpow.simps\<close>)
qed

lemma prompt_byte:
  assumes "prompt_kb hw" "idle p"
  obtains p1 p2 where "kb_wrport hw b p = Some p1" "kb_rdport (e, p1) = (0xFA, e, p2)" "idle p2" "p_if p2 = p_if p" "p_sent p2 = p_sent p @ [(False, b)]"
proof -
  obtain k d where d: "k < 1000" "d < 1000" "hw (p_sent p @ [(False, b)]) = (replicate k None @ [Some 0xFA], d)" using assms(1) by (force simp: prompt_kb_def)
  define p1 where "p1 = p\<lparr>p_out := replicate k None @ [Some 0xFA], p_busy := d, p_sent := p_sent p @ [(False, b)]\<rparr>"
  have "kb_wrport hw b p = Some p1"
    using assms(2) d by (simp add: kb_wrport_eq PS2_IO_TIMEOUT_def ps2_outb_def p1_def polled_def Let_def idle_def del: funpow.simps)
  moreover have "kb_rdport (e, p1) = (0xFA, e + of_bool ((0xFA :: u8) = 0xFF), p1\<lparr>p_out := [], p_last := 0xFA, p_busy := p_busy p1 - (k + 1)\<rparr>)"
    by (rule kb_rdport_ready) (use d(1) in \<open>simp_all add: p1_def PS2_IO_TIMEOUT_def\<close>)
  then have "kb_rdport (e, p1) = (0xFA, e, p1\<lparr>p_out := [], p_last := 0xFA, p_busy := p_busy p1 - (k + 1)\<rparr>)" by simp
  ultimately show ?thesis
    by (rule that) (use d(2) in \<open>auto simp: idle_def p1_def\<close>)
qed

lemma prompt_sendcmd:
  assumes "prompt_kb hw" "idle p"
  obtains p' where "kb_sendcmd hw c (e, p) = Some (True, e, p')" "idle p'" "p_if p' = p_if p" "p_sent p' = p_sent p @ [(False, c)]"
proof -
  have i: "idle (p\<lparr>p_if := False\<rparr>)" using assms(2) by (simp add: idle_def)
  obtain p1 p2 where p: "kb_wrport hw c (p\<lparr>p_if := False\<rparr>) = Some p1" "kb_rdport (e, p1) = (0xFA, e, p2)" "idle p2"
    "p_sent p2 = p_sent p @ [(False, c)]" by (rule prompt_byte [OF assms(1) i]) simp
  have "kb_sendcmd hw c (e, p) = Some (True, e, p2\<lparr>p_if := p_if p\<rparr>)"
    using p(1,2) by (simp add: kb_sendcmd_def RETRY_COUNT_def numeral_3_eq_3)
  then show ?thesis by (rule that) (use p in \<open>simp_all add: idle_def\<close>)
qed

definition led_bits :: "kb \<Rightarrow> u32" where
  "led_bits k = (if k_scrlk k \<noteq> 0 then 1 else 0) OR (if k_numlk k \<noteq> 0 then 2 else 0) OR (if k_capslk k \<noteq> 0 then 4 else 0)"

lemma prompt_leds:
  assumes "prompt_kb hw" "idle (kd_ps2 s)"
  obtains p where "update_leds hw s = Some (s\<lparr>kd_kb := (kd_kb s)\<lparr>k_leds := led_bits (kd_kb s)\<rparr>, kd_ps2 := p\<rparr>)" "idle p" "p_if p = p_if (kd_ps2 s)"
    "\<exists>bs. p_sent p = p_sent (kd_ps2 s) @ map (Pair False) bs"
proof (cases "k_leds (kd_kb s) = led_bits (kd_kb s)")
  case True
  then have "update_leds hw s = Some (s\<lparr>kd_kb := (kd_kb s)\<lparr>k_leds := led_bits (kd_kb s)\<rparr>, kd_ps2 := kd_ps2 s\<rparr>)"
    by (auto simp: update_leds_def led_bits_def PS2KB_LED_SCRLK_def PS2KB_LED_NUMLK_def PS2KB_LED_CAPLK_def Let_def)
  then show ?thesis by (rule that) (use assms in \<open>auto intro: exI [of _ "[]"]\<close>)
next
  case False
  define l where "l = led_bits (kd_kb s)"
  have l8: "ucast (ucast l :: u8) = l" by (auto simp: l_def led_bits_def)
  obtain p1 where p1: "kb_sendcmd hw 0xED (k_error_count (kd_kb s), kd_ps2 s) = Some (True, k_error_count (kd_kb s), p1)" "idle p1"
    "p_if p1 = p_if (kd_ps2 s)" "p_sent p1 = p_sent (kd_ps2 s) @ [(False, 0xED)]" by (rule prompt_sendcmd [OF assms])
  obtain p2 p3 where p3: "kb_wrport hw (ucast l) p1 = Some p2" "kb_rdport (k_error_count (kd_kb s), p2) = (0xFA, k_error_count (kd_kb s), p3)" "idle p3"
    "p_if p3 = p_if p1" "p_sent p3 = p_sent p1 @ [(False, ucast l)]" by (rule prompt_byte [OF assms(1) p1(2)])
  have "update_leds hw s = do { (_, s) \<leftarrow> kb_setleds hw (ucast l) s; Some s }"
    using False unfolding update_leds_def l_def led_bits_def PS2KB_LED_SCRLK_def PS2KB_LED_NUMLK_def PS2KB_LED_CAPLK_def Let_def by (auto split: if_splits)
  then have "update_leds hw s = Some (s\<lparr>kd_kb := (kd_kb s)\<lparr>k_leds := l\<rparr>, kd_ps2 := p3\<rparr>)"
    using p1(1) p3(1,2) by (simp add: kb_setleds_def PS2KB_CMD_SETLED_def sendcmd_def on_ps2_def rdport_def upd_kb_def l8)
  then show ?thesis unfolding l_def by (rule that) (use p1 p3 in \<open>auto intro: exI [of _ "[0xED, ucast l]"]\<close>)
qed

subsection \<open>One interrupt\<close>

text \<open>What an interrupt does apart from the ports, when the scan code stands for a key.\<close>

definition special_code :: "u8 \<Rightarrow> bool" where
  "special_code sc \<longleftrightarrow> sc \<in> {0xFA, 0xFE, 0xFC, 0xFD, 0xFF, 0x00, 0xE0, 0xE1}"

definition key_state :: "bool \<Rightarrow> nat \<Rightarrow> kb \<Rightarrow> kb" where
  "key_state release key k = (let k = toggle_keys release key k in modifier_keys release key (k\<lparr>k_leds := led_bits k\<rparr>))"

text \<open>The interrupt of a scan code: reading it, its effect, and enabling the keyboard again.\<close>

lemma interrupt_start:
  assumes "prompt_kb hw" "idle (kd_ps2 s)"
  obtains p where "idle p" "\<not> p_if p" "p_sent p = p_sent (kd_ps2 s) @ [(True, 0xAD)]"
    "kb_interrupt hw IRQ_KEYBOARD (deliver sc s) = do {
       (ex, s') \<leftarrow> scan_code hw sc (s\<lparr>kd_ps2 := p\<rparr>);
       if ex = Returned then do {
         s' \<leftarrow> on_ps2 (kb_enable hw) s';
         Some (Returned, s'\<lparr>kd_ps2 := (kd_ps2 s')\<lparr>p_if := p_if (kd_ps2 s)\<rparr>\<rparr>)
       } else Some (ex, s')
     }"
proof -
  let ?p0 = "(kd_ps2 s)\<lparr>p_out := [Some sc], p_if := False\<rparr>"
  have p0: "p_busy ?p0 < 1000" "p_out ?p0 = map Some [sc]" using assms(2) by (simp_all add: idle_def)
  obtain p1 where p1: "ps2_cmd hw 0xAD ?p0 = Some p1" "p_busy p1 < 1000" "p_out p1 = map Some [sc]" "p_if p1 = p_if ?p0" "p_sent p1 = p_sent ?p0 @ [(True, 0xAD)]"
    by (rule prompt_cmd [OF assms(1) p0])
  define p where "p = (polled 1 p1)\<lparr>p_out := [], p_last := sc\<rparr>"
  have d: "data_in (polled (Suc 0) p1) = (sc, p)" using p1(3) by (simp add: p_def data_in_def)
  have "p_out (kd_ps2 s) = []" using assms(2) by (simp add: idle_def)
  then have "kb_disable hw ((kd_ps2 (deliver sc s))\<lparr>p_if := False\<rparr>) = Some p1"
    using p1(1) by (simp add: kb_disable_def PS2_CMD_P1OFF_def deliver_def)
  then have "kb_interrupt hw IRQ_KEYBOARD (deliver sc s) = do {
       (ex, s') \<leftarrow> scan_code hw sc (s\<lparr>kd_ps2 := p\<rparr>);
       if ex = Returned then do {
         s' \<leftarrow> on_ps2 (kb_enable hw) s';
         Some (Returned, s'\<lparr>kd_ps2 := (kd_ps2 s')\<lparr>p_if := p_if (kd_ps2 s)\<rparr>\<rparr>)
       } else Some (ex, s')
     }"
    using d by (simp add: kb_interrupt_def on_ps2_def split_beta polled_status deliver_def)
  moreover have "idle p" "\<not> p_if p" "p_sent p = p_sent (kd_ps2 s) @ [(True, 0xAD)]" using p1 by (auto simp: p_def idle_def)
  ultimately show ?thesis using that by blast
qed

text \<open>\<open>r\<close> is the state after the interrupt, up to what passed through the ports.\<close>

definition after :: "keyboard \<Rightarrow> keyboard \<Rightarrow> keyboard \<Rightarrow> bool" where
  "after s s' r \<longleftrightarrow> s' = r\<lparr>kd_ps2 := kd_ps2 s'\<rparr> \<and> idle (kd_ps2 s') \<and> p_if (kd_ps2 s') = p_if (kd_ps2 s)"

lemma after_sel:
  assumes "after s s' r"
  shows "kd_kb s' = kd_kb r" "kd_fed s' = kd_fed r" "kd_calls s' = kd_calls r" "kd_tty s' = kd_tty r" "kd_crashkey s' = kd_crashkey r"
    "idle (kd_ps2 s')" "p_if (kd_ps2 s') = p_if (kd_ps2 s)"
proof -
  have e: "s' = r\<lparr>kd_ps2 := kd_ps2 s'\<rparr>" using assms by (simp add: after_def)
  show "kd_kb s' = kd_kb r" "kd_fed s' = kd_fed r" "kd_calls s' = kd_calls r" "kd_tty s' = kd_tty r" "kd_crashkey s' = kd_crashkey r"
    by (subst e, simp)+
qed (use assms in \<open>simp_all add: after_def\<close>)

lemma interrupt_end:
  assumes "prompt_kb hw" "idle (kd_ps2 r)" "scan_code hw sc s0 = Some (Returned, r)"
  obtains p where "do { (ex, s') \<leftarrow> scan_code hw sc s0;
       if ex = Returned then do {
         s' \<leftarrow> on_ps2 (kb_enable hw) s';
         Some (Returned, s'\<lparr>kd_ps2 := (kd_ps2 s')\<lparr>p_if := b\<rparr>\<rparr>)
       } else Some (ex, s') } = Some (Returned, r\<lparr>kd_ps2 := p\<rparr>)" "idle p" "p_if p = b" "p_sent p = p_sent (kd_ps2 r) @ [(True, 0xAE)]"
proof -
  have r: "p_busy (kd_ps2 r) < 1000" "p_out (kd_ps2 r) = map Some []" using assms(2) by (simp_all add: idle_def)
  obtain p where p: "ps2_cmd hw 0xAE (kd_ps2 r) = Some p" "p_busy p < 1000" "p_out p = map Some []" "p_sent p = p_sent (kd_ps2 r) @ [(True, 0xAE)]"
    by (rule prompt_cmd [OF assms(1) r])
  show ?thesis
    by (rule that [of "p\<lparr>p_if := b\<rparr>"]) (use assms(3) p in \<open>simp_all add: on_ps2_def kb_enable_def PS2_CMD_P1ON_def idle_def\<close>)
qed

lemma key_interrupt:
  assumes hw: "prompt_kb hw" and s: "idle (kd_ps2 s)" "k_scancode_set (kd_kb s) = 1" and sc: "\<not> special_code sc"
    and key: "scan_key sc (kd_kb s) = Some (key0, k1)" "numlock_key k1 key0 = key" "(sc AND 0x80 \<noteq> 0) = rel"
    and act: "\<And>p. key_action hw rel key (s\<lparr>kd_kb := key_state rel key k1, kd_ps2 := p\<rparr>) = Some (Returned, r\<lparr>kd_ps2 := p\<rparr>)"
  shows "\<exists>s'. kb_interrupt hw IRQ_KEYBOARD (deliver sc s) = Some (Returned, s') \<and> after s s' r"
proof -
  obtain p where p: "idle p" "kb_interrupt hw IRQ_KEYBOARD (deliver sc s) = do {
       (ex, s') \<leftarrow> scan_code hw sc (s\<lparr>kd_ps2 := p\<rparr>);
       if ex = Returned then do {
         s' \<leftarrow> on_ps2 (kb_enable hw) s';
         Some (Returned, s'\<lparr>kd_ps2 := (kd_ps2 s')\<lparr>p_if := p_if (kd_ps2 s)\<rparr>\<rparr>)
       } else Some (ex, s')
     }" by (rule interrupt_start [OF hw s(1)])
  define s1 where "s1 = s\<lparr>kd_kb := toggle_keys rel key k1, kd_ps2 := p\<rparr>"
  have "idle (kd_ps2 s1)" using p(1) by (simp add: s1_def)
  then obtain q where q: "update_leds hw s1 = Some (s1\<lparr>kd_kb := (kd_kb s1)\<lparr>k_leds := led_bits (kd_kb s1)\<rparr>, kd_ps2 := q\<rparr>)" "idle q"
    by (rule prompt_leds [OF hw])
  have e: "upd_kb (modifier_keys rel key) (s1\<lparr>kd_kb := (kd_kb s1)\<lparr>k_leds := led_bits (kd_kb s1)\<rparr>, kd_ps2 := q\<rparr>) = s\<lparr>kd_kb := key_state rel key k1, kd_ps2 := q\<rparr>"
    by (simp add: s1_def upd_kb_def key_state_def Let_def)
  have "scan_code hw sc (s\<lparr>kd_ps2 := p\<rparr>) = Some (Returned, r\<lparr>kd_ps2 := q\<rparr>)"
  proof -
    have "(s\<lparr>kd_ps2 := p\<rparr>)\<lparr>kd_kb := toggle_keys rel key k1\<rparr> = s1" by (simp add: s1_def)
    then show ?thesis
      using sc s(2) key q(1) e act [of q] unfolding scan_code_def special_code_def by simp
  qed
  from interrupt_end [OF hw _ this, of "p_if (kd_ps2 s)"] q(2) obtain p' where
    "do { (ex, s') \<leftarrow> scan_code hw sc (s\<lparr>kd_ps2 := p\<rparr>);
       if ex = Returned then do {
         s' \<leftarrow> on_ps2 (kb_enable hw) s';
         Some (Returned, s'\<lparr>kd_ps2 := (kd_ps2 s')\<lparr>p_if := p_if (kd_ps2 s)\<rparr>\<rparr>)
       } else Some (ex, s') } = Some (Returned, r\<lparr>kd_ps2 := p'\<rparr>)" "idle p'" "p_if p' = p_if (kd_ps2 s)" by auto
  then show ?thesis using p(2) by (auto simp: after_def)
qed

subsection \<open>Typing text\<close>

text \<open>
  The US layout in scan code set 1, as an independent table: the first scan code of a run of keys, their characters, and those with shift.
\<close>

definition us_layout :: "(nat \<times> string \<times> string) list" where
  "us_layout = [(0x02, ''1234567890-='', ''!@#$%^&*()_+''), (0x10, ''qwertyuiop[]'', ''QWERTYUIOP{}''),
    (0x1E, ''asdfghjkl;'' @ [CHR 0x27, CHR 0x60], ''ASDFGHJKL:'' @ [CHR 0x22, CHR 0x7E]), (0x2B, CHR 0x5C # ''zxcvbnm,./'', ''|ZXCVBNM<>?''), (0x39, '' '', '' '')]"

definition us_keys :: "(char \<times> nat \<times> bool) list" where
  "us_keys = concat (map (\<lambda>(b, p, q). zip p (map (\<lambda>i. (i, False)) [b..<b + length p]) @ zip q (map (\<lambda>i. (i, True)) [b..<b + length q])) us_layout)"

text \<open>The scan codes for typing a character: its key, pressed and released, between a press and a release of the left shift key where it is needed.\<close>

definition strokes :: "char \<Rightarrow> u8 list" where
  "strokes c = (case map_of us_keys c of None \<Rightarrow> []
     | Some (sc, sh) \<Rightarrow> (if sh then [0x2A] else []) @ [of_nat sc, of_nat sc OR 0x80] @ (if sh then [0xAA] else []))"

definition us_key_ok :: "char \<times> nat \<times> bool \<Rightarrow> bool" where
  "us_key_ok = (\<lambda>(c, sc, sh). let key = scanmap ! sc; ch = (of_char c :: u8) in
     32 \<le> key \<and> key \<le> 0x60 \<and> (if sh then keymap_shift ! (key mod 128) else keymap ! (key mod 256)) = ch \<and> ch \<noteq> 0 \<and> ch \<noteq> 0xE0 \<and>
     \<not> special_code (of_nat sc) \<and> \<not> special_code (of_nat sc OR 0x80) \<and> unat ((of_nat sc :: u8) AND 0x7F) = sc \<and> unat ((of_nat sc OR 0x80 :: u8) AND 0x7F) = sc \<and>
     (of_nat sc :: u8) AND 0x80 = 0 \<and> (of_nat sc OR 0x80 :: u8) AND 0x80 \<noteq> 0)"

lemma us_keys_ok: "list_all us_key_ok us_keys"
  by (simp add: us_keys_def us_layout_def upt_rec us_key_ok_def Let_def scanmap_def key_defs keymap_def keymap_shift_def special_code_def)

lemma us_keys_printable:
  assumes "32 \<le> (of_char c :: nat)" "(of_char c :: nat) \<le> 126"
  shows "\<exists>sc sh. map_of us_keys c = Some (sc, sh) \<and> (c, sc, sh) \<in> set us_keys"
proof -
  have "list_all (\<lambda>n. n \<in> set (map (of_char \<circ> fst) us_keys)) [32..<127]"
    by (simp add: us_keys_def us_layout_def upt_rec)
  moreover have "(of_char c :: nat) \<in> set [32..<127]" unfolding set_upt using assms by simp
  ultimately have "(of_char c :: nat) \<in> set (map (of_char \<circ> fst) us_keys)" unfolding list_all_iff by blast
  then obtain x where "x \<in> set us_keys" "fst x = c" by auto
  then have "map_of us_keys c \<noteq> None" by (auto simp: map_of_eq_None_iff)
  then show ?thesis using map_of_SomeD by fastforce
qed

text \<open>The keyboard is ready for text: no modifier but shift is held, and no scan code sequence has begun.\<close>

definition typing :: "bool \<Rightarrow> keyboard \<Rightarrow> bool" where
  "typing sh s \<longleftrightarrow> (let k = kd_kb s in idle (kd_ps2 s) \<and> kd_tty s \<and> k_scancode_set k = 1 \<and> \<not> k_e0 k \<and> \<not> k_e1 k \<and> k_ctrl k = 0 \<and> k_alt k = 0 \<and>
     k_sysrq k = 0 \<and> k_shift k = (if sh then 1 else 0))"

text \<open>A key of the typewriter block toggles nothing and modifies nothing.\<close>

lemma plain_key:
  assumes "32 \<le> key" "key \<le> 0x60"
  shows "numlock_key k key = key" "key_state rel key k = k\<lparr>k_leds := led_bits k\<rparr>" "\<not> is_alt key" "\<not> is_fnkey key" "\<not> is_numpad key"
    "key \<noteq> KEY_DELETE" "key \<noteq> KEY_KPDOT" "key \<noteq> KEY_KP5"
  using assms by (simp_all add: numlock_key_def key_state_def toggle_keys_def modifier_keys_def handle_modifier_def key_defs Let_def
      is_alt_def is_fnkey_def is_numpad_def)

lemma press_plain:
  assumes k: "k = kd_kb s" "k_ctrl k = 0" "k_alt k = 0" "k_sysrq k = 0" "kd_tty s" and key: "32 \<le> key" "key \<le> 0x60"
    and c: "c = (if k_shift k \<noteq> 0 then keymap_shift ! (key mod 128) else keymap ! (key mod 256))" "c \<noteq> 0" "c \<noteq> 0xE0"
  shows "key_action hw False key s = Some (Returned, upd_kb (k_pollchar_update (\<lambda>_. if k_capslk k \<noteq> 0 then caps_char c else c))
    (s\<lparr>kd_fed := kd_fed s @ [if k_capslk k \<noteq> 0 then caps_char c else c]\<rparr>))"
  using assms plain_key [OF key] by (auto simp: key_action_def key_char_def Let_def kb_putq_def)

text \<open>The state \<open>s'\<close> is \<open>s\<close> with the characters \<open>cs\<close> delivered; locks, other calls and the interrupt flag are as before.\<close>

definition typed :: "bool \<Rightarrow> keyboard \<Rightarrow> u8 list \<Rightarrow> keyboard \<Rightarrow> bool" where
  "typed sh s cs s' \<longleftrightarrow> typing sh s' \<and> kd_fed s' = kd_fed s @ cs \<and> kd_calls s' = kd_calls s \<and> k_capslk (kd_kb s') = k_capslk (kd_kb s) \<and>
     k_numlk (kd_kb s') = k_numlk (kd_kb s) \<and> p_if (kd_ps2 s') = p_if (kd_ps2 s)"

definition type_char :: "kb \<Rightarrow> char \<Rightarrow> u8" where
  "type_char k c = (if k_capslk k \<noteq> 0 then caps_char (of_char c) else of_char c)"

lemma scan_key_plain: "\<not> k_e0 k \<Longrightarrow> \<not> k_e1 k \<Longrightarrow> scan_key sc k = Some (scanmap ! unat (sc AND 0x7F), k)"
  by (simp add: scan_key_def)

lemma press_char:
  assumes hw: "prompt_kb hw" and t: "typing sh s" and c: "(c, sc, sh) \<in> set us_keys"
  shows "\<exists>s'. interrupts hw [of_nat sc] s = Some s' \<and> typed sh s [type_char (kd_kb s) c] s'"
proof -
  define key where "key = scanmap ! sc"
  define k1 where "k1 = (kd_kb s)\<lparr>k_leds := led_bits (kd_kb s)\<rparr>"
  have u: "us_key_ok (c, sc, sh)" using us_keys_ok c by (auto simp: list_all_iff)
  then have key: "32 \<le> key" "key \<le> 0x60" "(if sh then keymap_shift ! (key mod 128) else keymap ! (key mod 256)) = of_char c" "of_char c \<noteq> (0 :: u8)" "of_char c \<noteq> (0xE0 :: u8)"
    "\<not> special_code (of_nat sc)" "unat ((of_nat sc :: u8) AND 0x7F) = sc" "((of_nat sc :: u8) AND 0x80 \<noteq> 0) = False"
    unfolding us_key_ok_def split_conv Let_def key_def by blast+
  have t': "idle (kd_ps2 s)" "kd_tty s" "k_scancode_set (kd_kb s) = 1" "\<not> k_e0 (kd_kb s)" "\<not> k_e1 (kd_kb s)" "k_ctrl (kd_kb s) = 0" "k_alt (kd_kb s) = 0"
    "k_sysrq (kd_kb s) = 0" "k_shift (kd_kb s) = (if sh then 1 else 0)" using t by (simp_all add: typing_def Let_def)
  define ch where "ch = type_char (kd_kb s) c"
  define r where "r = upd_kb (k_pollchar_update (\<lambda>_. ch)) (s\<lparr>kd_kb := k1, kd_fed := kd_fed s @ [ch]\<rparr>)"
  have sk: "scan_key (of_nat sc) (kd_kb s) = Some (key, kd_kb s)" using scan_key_plain [OF t'(4,5), of "of_nat sc"] key(7) by (simp add: key_def)
  have act: "key_action hw False key (s\<lparr>kd_kb := key_state False key (kd_kb s), kd_ps2 := p\<rparr>) = Some (Returned, r\<lparr>kd_ps2 := p\<rparr>)" for p
  proof -
    let ?s = "s\<lparr>kd_kb := k1, kd_ps2 := p\<rparr>"
    have "key_action hw False key ?s = Some (Returned, upd_kb (k_pollchar_update (\<lambda>_. if k_capslk k1 \<noteq> 0 then caps_char (of_char c) else of_char c))
      (?s\<lparr>kd_fed := kd_fed ?s @ [if k_capslk k1 \<noteq> 0 then caps_char (of_char c) else of_char c]\<rparr>))"
      by (rule press_plain) (use key t' in \<open>auto simp: k1_def\<close>)
    then show ?thesis using plain_key(2) [OF key(1,2)] by (simp add: r_def ch_def type_char_def k1_def upd_kb_def)
  qed
  obtain s' where s': "kb_interrupt hw IRQ_KEYBOARD (deliver (of_nat sc) s) = Some (Returned, s')" "after s s' r"
    using key_interrupt [OF hw t'(1,3) key(6) sk plain_key(1) [OF key(1,2)] key(8) act] by blast
  then have "typed sh s [ch] s'"
    using t' after_sel [OF s'(2)] by (simp add: typed_def typing_def r_def k1_def upd_kb_def)
  then show ?thesis using s'(1) by (simp add: ch_def)
qed

text \<open>A key, when no sequence of scan codes has begun.\<close>

definition ready :: "keyboard \<Rightarrow> bool" where
  "ready s \<longleftrightarrow> idle (kd_ps2 s) \<and> kd_tty s \<and> k_scancode_set (kd_kb s) = 1 \<and> \<not> k_e0 (kd_kb s) \<and> \<not> k_e1 (kd_kb s)"

lemma typing_ready: "typing sh s \<Longrightarrow> ready s"
  by (simp add: typing_def ready_def Let_def)

lemma ready_key:
  assumes hw: "prompt_kb hw" and t: "ready s" and sc: "\<not> special_code sc" and key: "scanmap ! unat (sc AND 0x7F) = key0" "numlock_key (kd_kb s) key0 = key" "(sc AND 0x80 \<noteq> 0) = rel"
    and act: "\<And>p. key_action hw rel key (s\<lparr>kd_kb := key_state rel key (kd_kb s), kd_ps2 := p\<rparr>) = Some (Returned, r\<lparr>kd_ps2 := p\<rparr>)"
  shows "\<exists>s'. interrupts hw [sc] s = Some s' \<and> after s s' r"
proof -
  have t': "idle (kd_ps2 s)" "k_scancode_set (kd_kb s) = 1" "\<not> k_e0 (kd_kb s)" "\<not> k_e1 (kd_kb s)" using t by (simp_all add: ready_def)
  have sk: "scan_key sc (kd_kb s) = Some (key0, kd_kb s)" using scan_key_plain [OF t'(3,4), of sc] key(1) by simp
  show ?thesis using key_interrupt [OF hw t'(1,2) sc sk key(2,3) act] by fastforce
qed

text \<open>A key that delivers nothing.\<close>

lemma silent_key:
  assumes hw: "prompt_kb hw" and t: "ready s" and sc: "\<not> special_code sc" and key: "scanmap ! unat (sc AND 0x7F) = key0" "numlock_key (kd_kb s) key0 = key" "(sc AND 0x80 \<noteq> 0) = rel"
    and act: "\<And>p. key_action hw rel key (s\<lparr>kd_kb := key_state rel key (kd_kb s), kd_ps2 := p\<rparr>) = Some (Returned, s\<lparr>kd_kb := key_state rel key (kd_kb s), kd_ps2 := p\<rparr>)"
  shows "\<exists>s'. interrupts hw [sc] s = Some s' \<and> after s s' (s\<lparr>kd_kb := key_state rel key (kd_kb s)\<rparr>)"
proof -
  have "key_action hw rel key (s\<lparr>kd_kb := key_state rel key (kd_kb s), kd_ps2 := p\<rparr>) = Some (Returned, (s\<lparr>kd_kb := key_state rel key (kd_kb s)\<rparr>)\<lparr>kd_ps2 := p\<rparr>)" for p
    using act by simp
  then show ?thesis by (rule ready_key [OF hw t sc key])
qed

lemma release_char:
  assumes hw: "prompt_kb hw" and t: "typing sh s" and c: "(c, sc, sh) \<in> set us_keys"
  shows "\<exists>s'. interrupts hw [of_nat sc OR 0x80] s = Some s' \<and> typed sh s [] s'"
proof -
  have u: "us_key_ok (c, sc, sh)" using us_keys_ok c by (auto simp: list_all_iff)
  then have key: "32 \<le> scanmap ! sc" "scanmap ! sc \<le> 0x60" "\<not> special_code (of_nat sc OR 0x80)" "unat ((of_nat sc OR 0x80 :: u8) AND 0x7F) = sc"
    "((of_nat sc OR 0x80 :: u8) AND 0x80 \<noteq> 0) = True" unfolding us_key_ok_def split_conv Let_def by blast+
  have "scanmap ! unat ((of_nat sc OR 0x80 :: u8) AND 0x7F) = scanmap ! sc" using key(4) by simp
  then obtain s' where s': "interrupts hw [of_nat sc OR 0x80] s = Some s'" "after s s' (s\<lparr>kd_kb := key_state True (scanmap ! sc) (kd_kb s)\<rparr>)"
    using silent_key [OF hw typing_ready [OF t] key(3) _ plain_key(1) [OF key(1,2)] key(5)] plain_key(3) [OF key(1,2)] by (auto simp: key_action_def)
  then have "typed sh s [] s'"
    using t after_sel [OF s'(2)] by (simp add: typed_def typing_def Let_def plain_key(2) [OF key(1,2)])
  then show ?thesis using s'(1) by blast
qed

lemma shift_state: "key_state rel KEY_LSHIFT k = k\<lparr>k_leds := led_bits k, k_shift := if rel then k_shift k AND NOT 1 else k_shift k OR 1\<rparr>"
  by (simp add: key_state_def toggle_keys_def modifier_keys_def handle_modifier_def key_defs Let_def)

lemma shift_key:
  assumes hw: "prompt_kb hw" and t: "typing rel s"
  shows "\<exists>s'. interrupts hw [if rel then 0xAA else 0x2A] s = Some s' \<and> typed (\<not> rel) s [] s'"
proof -
  define sc :: u8 where "sc = (if rel then 0xAA else 0x2A)"
  have sc: "\<not> special_code sc" "scanmap ! unat (sc AND 0x7F) = KEY_LSHIFT" "(sc AND 0x80 \<noteq> 0) = rel"
    by (simp_all add: sc_def special_code_def scanmap_def)
  have n: "numlock_key (kd_kb s) KEY_LSHIFT = KEY_LSHIFT" by (simp add: numlock_key_def key_defs)
  have act: "key_action hw rel KEY_LSHIFT (s\<lparr>kd_kb := key_state rel KEY_LSHIFT (kd_kb s), kd_ps2 := p\<rparr>)
      = Some (Returned, s\<lparr>kd_kb := key_state rel KEY_LSHIFT (kd_kb s), kd_ps2 := p\<rparr>)" for p
    using t by (simp add: key_action_def typing_def Let_def shift_state is_alt_def key_defs is_fnkey_def is_numpad_def key_char_def keymap_def)
  obtain s' where s': "interrupts hw [sc] s = Some s'" "after s s' (s\<lparr>kd_kb := key_state rel KEY_LSHIFT (kd_kb s)\<rparr>)"
    using silent_key [OF hw typing_ready [OF t] sc(1,2) n sc(3) act] by blast
  then have "typed (\<not> rel) s [] s'"
    using t after_sel [OF s'(2)] by (auto simp: typed_def typing_def Let_def shift_state)
  then show ?thesis using s'(1) by (simp add: sc_def)
qed

lemma interrupts_append: "interrupts hw (xs @ ys) s = do { s \<leftarrow> interrupts hw xs s; interrupts hw ys s }"
  by (induction xs arbitrary: s) (auto simp: Option.bind_assoc split_beta intro!: Option.bind_cong)

lemma interrupts_seq: "interrupts hw xs s = Some s1 \<Longrightarrow> interrupts hw ys s1 = r \<Longrightarrow> interrupts hw (xs @ ys) s = r"
  by (simp add: interrupts_append)

lemma typed_trans: "typed sh s cs s' \<Longrightarrow> typed sh' s' ds s'' \<Longrightarrow> typed sh' s (cs @ ds) s''"
  by (simp add: typed_def)

lemma type_one:
  assumes hw: "prompt_kb hw" and t: "typing False s" and c: "32 \<le> (of_char c :: nat)" "(of_char c :: nat) \<le> 126"
  shows "\<exists>s'. interrupts hw (strokes c) s = Some s' \<and> typed False s [type_char (kd_kb s) c] s'"
proof -
  obtain sc sh where k: "map_of us_keys c = Some (sc, sh)" "(c, sc, sh) \<in> set us_keys" using us_keys_printable [OF c] by blast
  have plain: "\<exists>s'. interrupts hw [of_nat sc, of_nat sc OR 0x80] s = Some s' \<and> typed sh s [type_char (kd_kb s) c] s'" if ty: "typing sh s" for s
  proof -
    obtain s1 where s1: "interrupts hw [of_nat sc] s = Some s1" "typed sh s [type_char (kd_kb s) c] s1" using press_char [OF hw ty k(2)] by blast
    then have "typing sh s1" by (simp add: typed_def)
    then obtain s2 where s2: "interrupts hw [of_nat sc OR 0x80] s1 = Some s2" "typed sh s1 [] s2" using release_char [OF hw _ k(2)] by blast
    then show ?thesis using s1(1) s2(1) typed_trans [OF s1(2) s2(2)] interrupts_append [of hw "[of_nat sc]" "[of_nat sc OR 0x80]" s] by auto
  qed
  show ?thesis
  proof (cases sh)
    case False
    then show ?thesis using plain [of s] t k(1) by (simp add: strokes_def)
  next
    case True
    obtain s1 where s1: "interrupts hw [0x2A] s = Some s1" "typed True s [] s1" using shift_key [OF hw t] by auto
    then obtain s2 where s2: "interrupts hw [of_nat sc, of_nat sc OR 0x80] s1 = Some s2" "typed True s1 [type_char (kd_kb s1) c] s2"
      using plain [of s1] True by (auto simp: typed_def)
    then obtain s3 where s3: "interrupts hw [0xAA] s2 = Some s3" "typed False s2 [] s3" using shift_key [OF hw, of True s2] by (auto simp: typed_def)
    have "type_char (kd_kb s1) c = type_char (kd_kb s) c" using s1(2) by (simp add: typed_def type_char_def)
    then have "typed False s [type_char (kd_kb s) c] s3" using typed_trans [OF typed_trans [OF s1(2) s2(2)] s3(2)] by simp
    moreover have "interrupts hw (strokes c) s = Some s3"
      using s1(1) s2(1) s3(1) k(1) True interrupts_append [of hw "[0x2A]" "[of_nat sc, of_nat sc OR 0x80] @ [0xAA]" s]
        interrupts_append [of hw "[of_nat sc, of_nat sc OR 0x80]" "[0xAA]" s1] by (simp add: strokes_def)
    ultimately show ?thesis by blast
  qed
qed

text \<open>
  C6: Typing text. For every text of printable ASCII characters, the scan codes of the keys of a US keyboard, with the left shift key pressed around the characters that need it, deliver exactly that
  text to the line discipline of the current terminal; with caps lock on, upper and lower case are exchanged. Neither the locks nor the interrupt flag change.
\<close>

theorem typing_delivers_text:
  assumes hw: "prompt_kb hw" and s: "typing False s" and printable: "\<forall>c \<in> set w. 32 \<le> (of_char c :: nat) \<and> (of_char c :: nat) \<le> 126"
  shows "\<exists>s'. interrupts hw (concat (map strokes w)) s = Some s' \<and> typed False s (map (type_char (kd_kb s)) w) s'"
  using s printable
proof (induction w arbitrary: s)
  case Nil
  then show ?case by (simp add: typed_def)
next
  case (Cons c w)
  then obtain s1 where s1: "interrupts hw (strokes c) s = Some s1" "typed False s [type_char (kd_kb s) c] s1"
    using type_one [OF hw Cons.prems(1), of c] by auto
  then have "typing False s1" "type_char (kd_kb s1) = type_char (kd_kb s)" by (auto simp: typed_def type_char_def fun_eq_iff)
  then obtain s2 where "interrupts hw (concat (map strokes w)) s1 = Some s2" "typed False s1 (map (type_char (kd_kb s)) w) s2"
    using Cons.IH [of s1] Cons.prems by auto
  then show ?case using s1 typed_trans [OF s1(2)] interrupts_append [of hw "strokes c" "concat (map strokes w)" s] by fastforce
qed

definition ex_hw :: ps2_hw where
  "ex_hw h = (if fst (last h) then ([], 2) else ([None, Some 0xFA], 2))"

lemma ex_hw_prompt: "prompt_kb ex_hw"
  unfolding prompt_kb_def ex_hw_def by (auto intro!: exI [of _ 1])

definition ex_kb :: kb where
  "ex_kb = \<lparr>k_ident = [0xAB, 0x83], k_leds = 0, k_typematic = True, k_typematic_byte = 0x22, k_scancode_set = 1, k_e0 = False, k_e1 = False, k_ctrl = 0, k_alt = 0, k_shift = 0,
    k_meta = 0, k_numlk = 1, k_capslk = 0, k_scrlk = 0, k_sysrq = 0, k_altchar = 0, k_pollchar = 0, k_ack_count = 0, k_resend_count = 0, k_error_count = 0\<rparr>"

definition ex_keyboard :: keyboard where
  "ex_keyboard = \<lparr>kd_kb = ex_kb, kd_ps2 = \<lparr>p_out = [], p_last = 0, p_busy = 0, p_sent = [], p_if = True\<rparr>, kd_tty = True, kd_fed = [], kd_calls = [], kd_crashkey = 0, kd_initialized = True\<rparr>"

lemma ex_typing: "typing False ex_keyboard"
  by (simp add: typing_def ex_keyboard_def ex_kb_def idle_def)

theorem typing_delivers_text_witness:
  "\<exists>s'. interrupts ex_hw (concat (map strokes ''Hi!'')) ex_keyboard = Some s' \<and> kd_fed s' = [72, 105, 33]"
proof -
  have "\<forall>c \<in> set ''Hi!''. 32 \<le> (of_char c :: nat) \<and> (of_char c :: nat) \<le> 126" by simp
  then obtain s' where "interrupts ex_hw (concat (map strokes ''Hi!'')) ex_keyboard = Some s'" "typed False ex_keyboard (map (type_char (kd_kb ex_keyboard)) ''Hi!'') s'"
    using typing_delivers_text [OF ex_hw_prompt ex_typing, of "''Hi!''"] by blast
  then show ?thesis by (auto simp: typed_def ex_keyboard_def ex_kb_def type_char_def)
qed

subsection \<open>Character codes\<close>

text \<open>The keys of the number pad.\<close>

definition kp_code :: "nat \<Rightarrow> u8" where
  "kp_code d = [0x52, 0x4F, 0x50, 0x51, 0x4B, 0x4C, 0x4D, 0x47, 0x48, 0x49] ! d"

definition alt_down :: "keyboard \<Rightarrow> u8 \<Rightarrow> keyboard \<Rightarrow> bool" where
  "alt_down s a s' \<longleftrightarrow> ready s' \<and> k_alt (kd_kb s') = 1 \<and> k_ctrl (kd_kb s') = 0 \<and> k_numlk (kd_kb s') = k_numlk (kd_kb s) \<and> k_numlk (kd_kb s) \<noteq> 0 \<and>
     k_shift (kd_kb s') = k_shift (kd_kb s) \<and> k_capslk (kd_kb s') = k_capslk (kd_kb s) \<and> k_sysrq (kd_kb s') = 0 \<and> k_altchar (kd_kb s') = a \<and>
     kd_fed s' = kd_fed s \<and> kd_calls s' = kd_calls s \<and> p_if (kd_ps2 s') = p_if (kd_ps2 s)"

lemma alt_state: "key_state rel KEY_LALT k = k\<lparr>k_leds := led_bits k, k_alt := if rel then k_alt k AND NOT 1 else k_alt k OR 1\<rparr>"
  by (simp add: key_state_def toggle_keys_def modifier_keys_def handle_modifier_def key_defs Let_def)

lemma alt_press:
  assumes hw: "prompt_kb hw" and t: "typing False s" "k_numlk (kd_kb s) \<noteq> 0"
  shows "\<exists>s'. interrupts hw [0x38] s = Some s' \<and> alt_down s (k_altchar (kd_kb s)) s'"
proof -
  have sc: "\<not> special_code 0x38" "scanmap ! unat ((0x38 :: u8) AND 0x7F) = KEY_LALT" "((0x38 :: u8) AND 0x80 \<noteq> 0) = False"
    by (simp_all add: special_code_def scanmap_def)
  have n: "numlock_key (kd_kb s) KEY_LALT = KEY_LALT" by (simp add: numlock_key_def key_defs)
  have act: "key_action hw False KEY_LALT (s\<lparr>kd_kb := key_state False KEY_LALT (kd_kb s), kd_ps2 := p\<rparr>)
      = Some (Returned, s\<lparr>kd_kb := key_state False KEY_LALT (kd_kb s), kd_ps2 := p\<rparr>)" for p
    using t by (simp add: key_action_def typing_def Let_def alt_state key_defs is_fnkey_def is_numpad_def key_char_def keymap_def)
  obtain s' where s': "interrupts hw [0x38] s = Some s'" "after s s' (s\<lparr>kd_kb := key_state False KEY_LALT (kd_kb s)\<rparr>)"
    using silent_key [OF hw typing_ready [OF t(1)] sc(1,2) n sc(3) act] by blast
  then have "alt_down s (k_altchar (kd_kb s)) s'"
    using t after_sel [OF s'(2)] by (simp add: alt_down_def ready_def typing_def Let_def alt_state)
  then show ?thesis using s'(1) by blast
qed

lemma kp_codes:
  assumes "d < 10"
  shows "\<not> special_code (kp_code d)" "scanmap ! unat (kp_code d AND 0x7F) = KEY_KP0 + d" "(kp_code d AND 0x80 \<noteq> 0) = False"
    "\<not> special_code (kp_code d OR 0x80)" "scanmap ! unat ((kp_code d OR 0x80) AND 0x7F) = KEY_KP0 + d" "((kp_code d OR 0x80) AND 0x80 \<noteq> 0) = True"
proof -
  have "d \<in> {0, 1, 2, 3, 4, 5, 6, 7, 8, 9}" using assms by auto
  then show "\<not> special_code (kp_code d)" "scanmap ! unat (kp_code d AND 0x7F) = KEY_KP0 + d" "(kp_code d AND 0x80 \<noteq> 0) = False"
    "\<not> special_code (kp_code d OR 0x80)" "scanmap ! unat ((kp_code d OR 0x80) AND 0x7F) = KEY_KP0 + d" "((kp_code d OR 0x80) AND 0x80 \<noteq> 0) = True"
    by (auto simp: kp_code_def special_code_def scanmap_def key_defs)
qed

lemma kp_state:
  assumes "d < 10"
  shows "key_state rel (KEY_KP0 + d) k = k\<lparr>k_leds := led_bits k\<rparr>" "k_numlk k \<noteq> 0 \<Longrightarrow> numlock_key k (KEY_KP0 + d) = KEY_KP0 + d" "\<not> is_alt (KEY_KP0 + d)"
    "is_numpad (KEY_KP0 + d)" "\<not> is_fnkey (KEY_KP0 + d)" "numpad_index (KEY_KP0 + d) = d" "KEY_KP0 + d \<noteq> KEY_DELETE" "KEY_KP0 + d \<noteq> KEY_KPDOT"
  using assms by (simp_all add: key_state_def toggle_keys_def modifier_keys_def handle_modifier_def key_defs Let_def numlock_key_def
      is_alt_def is_numpad_def is_fnkey_def numpad_index_def)

lemma alt_digit:
  assumes hw: "prompt_kb hw" and a: "alt_down s0 a s" and d: "d < 10"
  shows "\<exists>s'. interrupts hw [kp_code d, kp_code d OR 0x80] s = Some s' \<and> alt_down s0 (a * 10 + of_nat d) s'"
proof -
  let ?key = "KEY_KP0 + d"
  have r: "ready s" and n: "k_numlk (kd_kb s) \<noteq> 0" using a by (auto simp: alt_down_def)
  define s1 where "s1 = s\<lparr>kd_kb := (key_state False ?key (kd_kb s))\<lparr>k_altchar := a * 10 + of_nat d\<rparr>\<rparr>"
  have act: "key_action hw False ?key (s\<lparr>kd_kb := key_state False ?key (kd_kb s), kd_ps2 := p\<rparr>) = Some (Returned, s1\<lparr>kd_ps2 := p\<rparr>)" for p
    using a kp_state [OF d] by (simp add: key_action_def alt_down_def s1_def upd_kb_def Let_def)
  obtain s2 where s2: "interrupts hw [kp_code d] s = Some s2" "after s s2 s1"
    using ready_key [OF hw r kp_codes(1,2) [OF d] kp_state(2) [OF d n] kp_codes(3) [OF d] act] by blast
  have a2: "alt_down s0 (a * 10 + of_nat d) s2"
    using a after_sel [OF s2(2)] by (simp add: alt_down_def ready_def s1_def kp_state(1) [OF d])
  have r2: "ready s2" and n2: "k_numlk (kd_kb s2) \<noteq> 0" using a2 by (auto simp: alt_down_def)
  have act2: "key_action hw True ?key (s2\<lparr>kd_kb := key_state True ?key (kd_kb s2), kd_ps2 := p\<rparr>) = Some (Returned, s2\<lparr>kd_kb := key_state True ?key (kd_kb s2), kd_ps2 := p\<rparr>)" for p
    using kp_state(3) [OF d] by (simp add: key_action_def Let_def)
  obtain s3 where s3: "interrupts hw [kp_code d OR 0x80] s2 = Some s3" "after s2 s3 (s2\<lparr>kd_kb := key_state True ?key (kd_kb s2)\<rparr>)"
    using silent_key [OF hw r2 kp_codes(4,5) [OF d] kp_state(2) [OF d n2] kp_codes(6) [OF d] act2] by blast
  have "alt_down s0 (a * 10 + of_nat d) s3"
    using a2 after_sel [OF s3(2)] by (simp add: alt_down_def ready_def kp_state(1) [OF d])
  then show ?thesis using s2(1) s3(1) interrupts_append [of hw "[kp_code d]" "[kp_code d OR 0x80]" s] by auto
qed

lemma alt_digits:
  assumes "prompt_kb hw" "alt_down s0 (of_nat n) s" "\<forall>d \<in> set ds. d < 10"
  shows "\<exists>s'. interrupts hw (concat (map (\<lambda>d. [kp_code d, kp_code d OR 0x80]) ds)) s = Some s' \<and> alt_down s0 (of_nat (foldl (\<lambda>n d. n * 10 + d) n ds)) s'"
  using assms(2,3)
proof (induction ds arbitrary: n s)
  case (Cons d ds)
  then obtain s1 where s1: "interrupts hw [kp_code d, kp_code d OR 0x80] s = Some s1" "alt_down s0 (of_nat (n * 10 + d)) s1"
    using alt_digit [OF assms(1), of s0 "of_nat n" s d] by auto
  then obtain s2 where "interrupts hw (concat (map (\<lambda>d. [kp_code d, kp_code d OR 0x80]) ds)) s1 = Some s2" "alt_down s0 (of_nat (foldl (\<lambda>n d. n * 10 + d) (n * 10 + d) ds)) s2"
    using Cons.IH [OF s1(2)] Cons.prems(2) by auto
  then show ?case using s1(1) interrupts_append [of hw "[kp_code d, kp_code d OR 0x80]" "concat (map (\<lambda>d. [kp_code d, kp_code d OR 0x80]) ds)" s] by simp
qed simp

lemma alt_release:
  assumes hw: "prompt_kb hw" and a: "alt_down s a s1" and sh: "k_shift (kd_kb s) = 0"
  shows "\<exists>s'. interrupts hw [0xB8] s1 = Some s' \<and> typed False s (if a = 0 then [] else [a]) s' \<and> k_altchar (kd_kb s') = 0"
proof -
  have sc: "\<not> special_code 0xB8" "scanmap ! unat ((0xB8 :: u8) AND 0x7F) = KEY_LALT" "((0xB8 :: u8) AND 0x80 \<noteq> 0) = True"
    by (simp_all add: special_code_def scanmap_def)
  have n: "numlock_key (kd_kb s1) KEY_LALT = KEY_LALT" by (simp add: numlock_key_def key_defs)
  define k where "k = key_state True KEY_LALT (kd_kb s1)"
  define r where "r = (if a = 0 then s1\<lparr>kd_kb := k\<rparr> else s1\<lparr>kd_kb := k\<lparr>k_altchar := 0, k_pollchar := a\<rparr>, kd_fed := kd_fed s1 @ [a]\<rparr>)"
  have act: "key_action hw True KEY_LALT (s1\<lparr>kd_kb := key_state True KEY_LALT (kd_kb s1), kd_ps2 := p\<rparr>) = Some (Returned, r\<lparr>kd_ps2 := p\<rparr>)" for p
    using a by (simp add: key_action_def Let_def alt_state is_alt_def r_def k_def kb_putq_def upd_kb_def alt_down_def ready_def)
  have "ready s1" using a by (simp add: alt_down_def)
  then obtain s' where s': "interrupts hw [0xB8] s1 = Some s'" "after s1 s' r"
    using ready_key [OF hw _ sc(1,2) n sc(3) act] by blast
  then have "typed False s (if a = 0 then [] else [a]) s' \<and> k_altchar (kd_kb s') = 0"
    using a sh after_sel [OF s'(2)] by (simp add: typed_def typing_def Let_def alt_down_def ready_def r_def k_def alt_state)
  then show ?thesis using s'(1) by blast
qed

text \<open>
  Character codes. With num lock on, the digits typed on the number pad while the left ALT key is held are read as a decimal number, and releasing the key delivers the character with
  that number modulo 256, and nothing when it is 0; the entry starts at 0 again.
\<close>

theorem alt_code_delivers:
  assumes hw: "prompt_kb hw" and s: "typing False s" "k_numlk (kd_kb s) \<noteq> 0" "k_altchar (kd_kb s) = 0" and ds: "\<forall>d \<in> set ds. d < 10"
  shows "\<exists>s'. interrupts hw ([0x38] @ concat (map (\<lambda>d. [kp_code d, kp_code d OR 0x80]) ds) @ [0xB8]) s = Some s' \<and> k_altchar (kd_kb s') = 0 \<and>
    (let c = of_nat (foldl (\<lambda>n d. n * 10 + d) 0 ds) in typed False s (if c = 0 then [] else [c]) s')"
proof -
  obtain s1 where s1: "interrupts hw [0x38] s = Some s1" "alt_down s (of_nat 0) s1" using alt_press [OF hw s(1,2)] s(3) by auto
  obtain s2 where s2: "interrupts hw (concat (map (\<lambda>d. [kp_code d, kp_code d OR 0x80]) ds)) s1 = Some s2" "alt_down s (of_nat (foldl (\<lambda>n d. n * 10 + d) 0 ds)) s2"
    using alt_digits [OF hw s1(2) ds] by blast
  have "k_shift (kd_kb s) = 0" using s(1) by (simp add: typing_def Let_def)
  from alt_release [OF hw s2(2) this] show ?thesis
    unfolding Let_def using interrupts_seq [OF s1(1) interrupts_seq [OF s2(1)]] by blast
qed

theorem alt_code_delivers_witness:
  "\<exists>s'. interrupts ex_hw ([0x38] @ concat (map (\<lambda>d. [kp_code d, kp_code d OR 0x80]) [3, 2, 1]) @ [0xB8]) ex_keyboard = Some s' \<and> kd_fed s' = [65]"
proof -
  have s: "k_numlk (kd_kb ex_keyboard) \<noteq> 0" "k_altchar (kd_kb ex_keyboard) = 0" "\<forall>d \<in> set [3, 2, 1]. d < (10 :: nat)" by (simp_all add: ex_keyboard_def ex_kb_def)
  have c: "of_nat (foldl (\<lambda>n d. n * 10 + d) 0 [3, 2, 1]) = (65 :: u8)" by simp
  show ?thesis using alt_code_delivers [OF ex_hw_prompt ex_typing s, unfolded Let_def c] unfolding typed_def by (auto simp: ex_keyboard_def simp del: interrupts.simps)
qed

subsection \<open>No scan code stops the kernel\<close>

text \<open>The invariant: locks are 0 or 1, modifiers are sets of a left and a right key, and the lights show the locks.\<close>

definition kb_state_ok :: "kb \<Rightarrow> bool" where
  "kb_state_ok k \<longleftrightarrow> k_scancode_set k = 1 \<and> {k_capslk k, k_numlk k, k_scrlk k} \<subseteq> {0, 1} \<and>
     {k_ctrl k, k_alt k, k_shift k, k_meta k, k_sysrq k} \<subseteq> {0, 1, 2, 3} \<and> k_leds k = led_bits k"

definition kb_ok :: "keyboard \<Rightarrow> bool" where
  "kb_ok s \<longleftrightarrow> idle (kd_ps2 s) \<and> kd_tty s \<and> kb_state_ok (kd_kb s)"

lemma modifier_ok: "m \<in> {0, 1, 2, 3} \<Longrightarrow> handle_modifier release key l r m \<in> {0, 1, 2, 3}"
  by (auto simp: handle_modifier_def Let_def)

lemma lock_ok: "m \<in> {0, 1} \<Longrightarrow> m XOR 1 \<in> {0, 1 :: u32}" "(m XOR 1 = 0 \<or> m XOR 1 = 1) = (m = 0 \<or> m = (1 :: u32))"
proof -
  have "(m XOR 1) XOR 1 = m" for m :: u32 by (simp add: xor.assoc)
  then have "m XOR 1 = 0 \<longleftrightarrow> m = 1" "m XOR 1 = 1 \<longleftrightarrow> m = 0" for m :: u32 by (metis xor.left_neutral xor_self_eq)+
  then show "m \<in> {0, 1} \<Longrightarrow> m XOR 1 \<in> {0, 1 :: u32}" "(m XOR 1 = 0 \<or> m XOR 1 = 1) = (m = 0 \<or> m = (1 :: u32))" by auto
qed

lemma modifier_same:
  "k_leds (modifier_keys rel key k) = k_leds k" "led_bits (modifier_keys rel key k) = led_bits k" "k_scancode_set (modifier_keys rel key k) = k_scancode_set k"
  "k_capslk (modifier_keys rel key k) = k_capslk k" "k_numlk (modifier_keys rel key k) = k_numlk k" "k_scrlk (modifier_keys rel key k) = k_scrlk k"
  by (simp_all add: modifier_keys_def led_bits_def)

lemma key_state_ok:
  assumes "kb_state_ok k"
  shows "kb_state_ok (key_state rel key k)"
proof -
  define t where "t = toggle_keys rel key k"
  define u where "u = t\<lparr>k_leds := led_bits t\<rparr>"
  have t: "k_scancode_set t = 1" "{k_capslk t, k_numlk t, k_scrlk t} \<subseteq> {0, 1}" "k_ctrl t = k_ctrl k" "k_alt t = k_alt k" "k_shift t = k_shift k"
    "k_meta t = k_meta k" "k_sysrq t = k_sysrq k"
    using assms lock_ok by (simp_all add: t_def toggle_keys_def kb_state_ok_def Let_def)
  have u: "led_bits u = led_bits t" by (simp add: u_def led_bits_def)
  have m: "k_ctrl k \<in> {0, 1, 2, 3}" "k_alt k \<in> {0, 1, 2, 3}" "k_shift k \<in> {0, 1, 2, 3}" "k_meta k \<in> {0, 1, 2, 3}" "k_sysrq k \<in> {0, 1, 2, 3}"
    using assms by (simp_all add: kb_state_ok_def)
  have "key_state rel key k = modifier_keys rel key u" by (simp add: key_state_def t_def u_def Let_def)
  moreover have "{k_ctrl (modifier_keys rel key u), k_alt (modifier_keys rel key u), k_shift (modifier_keys rel key u), k_meta (modifier_keys rel key u),
      k_sysrq (modifier_keys rel key u)} \<subseteq> {0, 1, 2, 3}"
    using m [THEN modifier_ok] by (simp add: modifier_keys_def u_def t(3-))
  moreover have "k_scancode_set u = 1" "{k_capslk u, k_numlk u, k_scrlk u} \<subseteq> {0, 1}" "k_leds u = led_bits u" using t(1,2) u by (simp_all add: u_def)
  ultimately show ?thesis unfolding kb_state_ok_def by (simp only: modifier_same)
qed

text \<open>The actions of a key leave all but the entered character code and the last character alone.\<close>

definition core :: "kb \<Rightarrow> kb" where
  "core k = k\<lparr>k_altchar := 0, k_pollchar := 0\<rparr>"

definition acts :: "keyboard \<Rightarrow> keyboard \<Rightarrow> bool" where
  "acts s s' \<longleftrightarrow> idle (kd_ps2 s') \<and> p_if (kd_ps2 s') = p_if (kd_ps2 s) \<and> kd_tty s' = kd_tty s \<and> core (kd_kb s') = core (kd_kb s)"

lemma core_ok: "kb_state_ok (core k) = kb_state_ok k"
  by (simp add: core_def kb_state_ok_def led_bits_def)

lemma acts_ok: "acts s s' \<Longrightarrow> kd_tty s \<Longrightarrow> kb_state_ok (kd_kb s) \<Longrightarrow> kb_ok s'"
  using core_ok [of "kd_kb s"] core_ok [of "kd_kb s'"] by (simp add: acts_def kb_ok_def)

lemma acts_refl: "idle (kd_ps2 s) \<Longrightarrow> acts s s"
  by (simp add: acts_def)

lemma acts_trans: "acts s s' \<Longrightarrow> acts s' s'' \<Longrightarrow> acts s s''"
  by (simp add: acts_def)

lemma putq_acts:
  assumes "kd_tty s" "idle (kd_ps2 s)"
  obtains s' where "kb_putq c s = Some s'" "acts s s'" "kd_fed s' = kd_fed s @ [c]"
  by (rule that [of "upd_kb (k_pollchar_update (\<lambda>_. c)) (s\<lparr>kd_fed := kd_fed s @ [c]\<rparr>)"])
    (use assms in \<open>simp_all add: kb_putq_def upd_kb_def acts_def core_def\<close>)

lemma putq_all_acts:
  assumes "kd_tty s" "idle (kd_ps2 s)"
  shows "\<exists>s'. putq_all cs s = Some s' \<and> acts s s' \<and> kd_fed s' = kd_fed s @ cs"
  using assms
proof (induction cs arbitrary: s)
  case (Cons c cs)
  obtain s1 where s1: "kb_putq c s = Some s1" "acts s s1" "kd_fed s1 = kd_fed s @ [c]" by (rule putq_acts [OF Cons.prems])
  then have "kd_tty s1" "idle (kd_ps2 s1)" using Cons.prems by (auto simp: acts_def)
  then obtain s2 where s2: "putq_all cs s1 = Some s2" "acts s1 s2" "kd_fed s2 = kd_fed s1 @ cs" using Cons.IH by blast
  then show ?case using s1 acts_trans [OF s1(2) s2(2)] by simp
qed (simp add: acts_refl)

lemma hard_reset_acts:
  assumes "prompt_kb hw" "idle (kd_ps2 s)"
  obtains s' where "hard_reset hw s = Some s'" "acts s s'" "p_sent (kd_ps2 s') = p_sent (kd_ps2 s) @ [(True, 0xFE)]" "kd_calls s' = kd_calls s @ [Empty_idt]"
proof -
  have p: "p_busy (kd_ps2 s) < 1000" "p_out (kd_ps2 s) = map Some []" using assms(2) by (simp_all add: idle_def)
  obtain p' where p': "ps2_cmd hw 0xFE (kd_ps2 s) = Some p'" "p_busy p' < 1000" "p_out p' = map Some []" "p_if p' = p_if (kd_ps2 s)" "p_sent p' = p_sent (kd_ps2 s) @ [(True, 0xFE)]"
    by (rule prompt_cmd [OF assms(1) p])
  show ?thesis
    by (rule that [of "s\<lparr>kd_ps2 := p', kd_calls := kd_calls s @ [Empty_idt]\<rparr>"])
      (use p' in \<open>simp_all add: hard_reset_def on_ps2_def PS2_CMD_SYSRESET_def acts_def idle_def\<close>)
qed

lemma sysrq_acts:
  assumes "prompt_kb hw" "idle (kd_ps2 s)"
  shows "\<exists>ex s'. sysrq hw c s = Some (ex, s') \<and> ex \<noteq> Rebooted \<and> (ex = Returned \<longrightarrow> acts s s')"
proof -
  have p: "p_busy (kd_ps2 s) < 1000" "p_out (kd_ps2 s) = map Some []" using assms(2) by (simp_all add: idle_def)
  obtain p' where p': "ps2_cmd hw 0xAE (kd_ps2 s) = Some p'" by (rule prompt_cmd [OF assms(1) p])
  obtain r where r: "hard_reset hw s = Some r" "acts s r" by (rule hard_reset_acts [OF assms])
  show ?thesis
    using p' r assms(2) by (auto simp: sysrq_def on_ps2_def kb_enable_def PS2_CMD_P1ON_def acts_def)
qed

lemma key_char_acts:
  assumes "prompt_kb hw" "idle (kd_ps2 s)" "kd_tty s"
  shows "\<exists>ex s'. key_char hw key s = Some (ex, s') \<and> ex \<noteq> Rebooted \<and> (ex = Returned \<longrightarrow> acts s s')"
proof -
  define k where "k = kd_kb s"
  define c where "c = (if k_shift k \<noteq> 0 \<and> key \<ge> 0x20 \<and> key \<le> 0x60 then keymap_shift ! (key mod 128) else keymap ! (key mod 256))"
  define c2 where "c2 = (if k_ctrl k \<noteq> 0 then control_char key c else c)"
  define c3 where "c3 = (if k_capslk k \<noteq> 0 \<and> k_alt k = 0 then caps_char c2 else c2)"
  obtain s1 where s1: "putq_all (key_sequence key) s = Some s1" "acts s s1" using putq_all_acts [OF assms(3,2)] by blast
  obtain s2 where s2: "putq_all (if k_alt k \<noteq> 0 then [27, c3] else [c3]) s = Some s2" "acts s s2" using putq_all_acts [OF assms(3,2)] by blast
  have "key_char hw key s = (if c = 0 then Some (Returned, s) else if c = 0xE0 \<or> key = KEY_KP5 \<and> k_numlk k = 0 then Some (Returned, s1)
      else if k_sysrq k \<noteq> 0 then sysrq hw c2 s else Some (Returned, s2))"
    using s1(1) s2(1) unfolding key_char_def Let_def k_def [symmetric] c_def [symmetric] c2_def [symmetric] c3_def [symmetric]
    by (auto simp: bind_eq_Some_conv split: if_splits)
  then show ?thesis using acts_refl [OF assms(2)] s1(2) s2(2) sysrq_acts [OF assms(1,2)] by auto
qed

lemma key_action_acts:
  assumes "prompt_kb hw" "idle (kd_ps2 s)" "kd_tty s"
  shows "\<exists>ex s'. key_action hw rel key s = Some (ex, s') \<and> (ex = Returned \<longrightarrow> acts s s') \<and>
    (ex = Rebooted \<longrightarrow> last (p_sent (kd_ps2 s')) = (True, 0xFE) \<and> k_ctrl (kd_kb s) \<noteq> 0 \<and> k_alt (kd_kb s) \<noteq> 0)"
proof -
  define k where "k = kd_kb s"
  define s0 where "s0 = (if k_ctrl k \<noteq> 0 \<and> k_alt k \<noteq> 0 \<and> is_fnkey key \<and> kd_crashkey s = 0 then s\<lparr>kd_crashkey := fnkey_index key\<rparr> else s)"
  have a0: "acts s s0" "idle (kd_ps2 s0)" "kd_tty s0" using assms by (simp_all add: s0_def acts_def)
  obtain s1 where s1: "kb_putq (k_altchar k) s = Some s1" "acts s s1" by (rule putq_acts [OF assms(3,2)])
  obtain s2 where s2: "hard_reset hw s = Some s2" "acts s s2" "p_sent (kd_ps2 s2) = p_sent (kd_ps2 s) @ [(True, 0xFE)]" by (rule hard_reset_acts [OF assms(1,2)])
  obtain ex s3 where s3: "key_char hw key s0 = Some (ex, s3)" "ex \<noteq> Rebooted" "ex = Returned \<longrightarrow> acts s0 s3" using key_char_acts [OF assms(1) a0(2,3)] by blast
  have alt: "acts s (upd_kb (k_altchar_update f) s')" if "acts s s'" for f s' using that by (simp add: acts_def upd_kb_def core_def)
  have sw: "acts s (s0\<lparr>kd_calls := x\<rparr>)" for x using a0 by (simp add: acts_def)
  have e: "key_action hw rel key s =
     (if is_alt key \<and> rel \<and> k_altchar k \<noteq> 0 then Some (Returned, upd_kb (k_altchar_update (\<lambda>_. 0)) s1)
      else if rel then Some (Returned, s)
      else if k_ctrl k \<noteq> 0 \<and> k_alt k \<noteq> 0 \<and> (key = KEY_DELETE \<or> key = KEY_KPDOT) then Some (Rebooted, s2)
      else if k_ctrl k = 0 \<and> k_alt k \<noteq> 0 \<and> is_fnkey key \<and> fnkey_index key \<ge> 1 \<and> fnkey_index key \<le> MAX_VT then
         Some (Returned, s0\<lparr>kd_calls := kd_calls s0 @ [Switch_terminal (fnkey_index key)]\<rparr>)
      else if k_alt k \<noteq> 0 \<and> is_numpad key then Some (Returned, upd_kb (k_altchar_update (\<lambda>a. a * 10 + of_nat (numpad_index key))) s0)
      else key_char hw key s0)"
    unfolding key_action_def Let_def k_def [symmetric] s0_def [symmetric] s1(1) s2(1) by simp
  show ?thesis
    unfolding e k_def [symmetric] using s2(3) s3 alt [OF s1(2)] alt [OF a0(1)] sw acts_refl [OF assms(2)] acts_trans [OF a0(1)] by auto
qed

lemma kb_state_counts:
  "kb_state_ok (k_ack_count_update g k) = kb_state_ok k" "kb_state_ok (k_resend_count_update g k) = kb_state_ok k" "kb_state_ok (k_error_count_update g k) = kb_state_ok k"
  "kb_state_ok (k_e0_update h k) = kb_state_ok k" "kb_state_ok (k_e1_update h k) = kb_state_ok k"
  by (simp_all add: kb_state_ok_def led_bits_def)

lemma scan_key_ok: "\<not> (k_e0 k \<and> k_e1 k) \<Longrightarrow> \<exists>key k1. scan_key sc k = Some (key, k1) \<and> kb_state_ok k1 = kb_state_ok k"
  by (cases "k_e0 k"; cases "k_e1 k") (auto simp: scan_key_def kb_state_counts Let_def)

text \<open>The scan code part of an interrupt.\<close>

lemma scan_code_acts:
  assumes hw: "prompt_kb hw" and s: "kb_ok s" and sc: "special_code sc \<or> \<not> (k_e0 (kd_kb s) \<and> k_e1 (kd_kb s))"
  shows "\<exists>ex s'. scan_code hw sc s = Some (ex, s') \<and> (ex = Returned \<longrightarrow> kb_ok s' \<and> p_if (kd_ps2 s') = p_if (kd_ps2 s)) \<and>
    (ex = Rebooted \<longrightarrow> last (p_sent (kd_ps2 s')) = (True, 0xFE))"
proof (cases "special_code sc")
  case True
  have c1: "k_scancode_set (kd_kb s) = 1" using s by (simp add: kb_ok_def kb_state_ok_def)
  have "sc = 0xFA \<or> sc = 0xFE \<or> sc = 0xFC \<or> sc = 0xFD \<or> sc = 0xFF \<or> sc = 0 \<or> sc = 0xE0 \<or> sc = 0xE1" using True by (simp add: special_code_def)
  then have "\<exists>f. scan_code hw sc s = Some (Returned, upd_kb f s) \<and> kb_state_ok (f (kd_kb s)) = kb_state_ok (kd_kb s)"
    by (elim disjE) (simp_all add: scan_code_def c1, (rule exI, rule conjI, rule refl, simp add: kb_state_counts)+)
  then show ?thesis using s by (auto simp: kb_ok_def upd_kb_def)
next
  case False
  define k where "k = kd_kb s"
  have k: "kb_state_ok k" "k_scancode_set k = 1" using s by (simp_all add: kb_ok_def k_def kb_state_ok_def)
  obtain key0 k1 where k1: "scan_key sc k = Some (key0, k1)" "kb_state_ok k1"
    using scan_key_ok [of k sc] sc False k(1) unfolding k_def by blast
  define key rel where "key = numlock_key k1 key0" and "rel = (sc AND 0x80 \<noteq> 0)"
  define s1 where "s1 = s\<lparr>kd_kb := toggle_keys rel key k1\<rparr>"
  have "idle (kd_ps2 s1)" using s by (simp add: s1_def kb_ok_def)
  then obtain q where q: "update_leds hw s1 = Some (s1\<lparr>kd_kb := (kd_kb s1)\<lparr>k_leds := led_bits (kd_kb s1)\<rparr>, kd_ps2 := q\<rparr>)" "idle q" "p_if q = p_if (kd_ps2 s1)"
    by (rule prompt_leds [OF hw])
  define s2 where "s2 = s\<lparr>kd_kb := key_state rel key k1, kd_ps2 := q\<rparr>"
  have e: "upd_kb (modifier_keys rel key) (s1\<lparr>kd_kb := (kd_kb s1)\<lparr>k_leds := led_bits (kd_kb s1)\<rparr>, kd_ps2 := q\<rparr>) = s2"
    by (simp add: s1_def s2_def upd_kb_def key_state_def Let_def)
  have s2: "idle (kd_ps2 s2)" "kd_tty s2" "kb_state_ok (kd_kb s2)" "p_if (kd_ps2 s2) = p_if (kd_ps2 s)"
    using q(2,3) s key_state_ok [OF k1(2)] by (simp_all add: s2_def s1_def kb_ok_def)
  have "scan_code hw sc s = key_action hw rel key s2"
    using False k k1(1) q(1) e unfolding scan_code_def special_code_def k_def s1_def key_def rel_def by simp
  moreover obtain ex s' where "key_action hw rel key s2 = Some (ex, s')" "ex = Returned \<longrightarrow> acts s2 s'" "ex = Rebooted \<longrightarrow> last (p_sent (kd_ps2 s')) = (True, 0xFE)"
    using key_action_acts [OF hw s2(1,2)] by blast
  ultimately show ?thesis using acts_ok [of s2 s'] s2 by (auto simp: acts_def)
qed


lemma ex_kb_ok: "kb_ok (upd_kb (k_leds_update (\<lambda>_. 2)) ex_keyboard)"
  by (simp add: kb_ok_def kb_state_ok_def upd_kb_def ex_keyboard_def ex_kb_def idle_def led_bits_def)


subsection \<open>An unknown key is taken for SysRq\<close>

lemma unknown_key_state:
  "key_state False 0 k = k\<lparr>k_leds := led_bits k, k_sysrq := k_sysrq k OR 2\<rparr>"
  by (simp add: key_state_def toggle_keys_def modifier_keys_def handle_modifier_def key_defs Let_def)

text \<open>
  A key the driver does not know, e.g. the extra key of international keyboards (scan code 0x56), acts as the SysRq key: while it is held, the key R sends the
  reset command to the controller and loads an empty interrupt table instead of delivering a character.
\<close>

theorem unknown_key_is_sysrq:
  assumes hw: "prompt_kb hw" and s: "typing False s"
  shows "\<exists>s'. interrupts hw [0x56, 0x13] s = Some s' \<and> kd_calls s' = kd_calls s @ [Empty_idt] \<and> (True, 0xFE) \<in> set (p_sent (kd_ps2 s')) \<and> kd_fed s' = kd_fed s"
proof -
  have r: "ready s" by (rule typing_ready [OF s])
  have sc: "\<not> special_code 0x56" "scanmap ! unat ((0x56 :: u8) AND 0x7F) = 0" "((0x56 :: u8) AND 0x80 \<noteq> 0) = False"
    by (simp_all add: special_code_def scanmap_def)
  have n: "numlock_key (kd_kb s) 0 = 0" by (simp add: numlock_key_def key_defs)
  have act: "key_action hw False 0 (s\<lparr>kd_kb := key_state False 0 (kd_kb s), kd_ps2 := p\<rparr>) = Some (Returned, s\<lparr>kd_kb := key_state False 0 (kd_kb s), kd_ps2 := p\<rparr>)" for p
    using s by (simp add: key_action_def typing_def Let_def unknown_key_state is_alt_def is_fnkey_def is_numpad_def key_defs key_char_def keymap_def)
  obtain s1 where s1: "interrupts hw [0x56] s = Some s1" "after s s1 (s\<lparr>kd_kb := key_state False 0 (kd_kb s)\<rparr>)"
    using silent_key [OF hw r sc(1,2) n sc(3) act] by blast
  define k where "k = kd_kb s1"
  have k: "idle (kd_ps2 s1)" "k_scancode_set k = 1" "\<not> k_e0 k" "\<not> k_e1 k" "k_ctrl k = 0" "k_alt k = 0" "k_shift k = 0" "k_sysrq k = 2" "kd_fed s1 = kd_fed s" "kd_calls s1 = kd_calls s"
    using s after_sel [OF s1(2)] by (simp_all add: typing_def Let_def unknown_key_state k_def)
  have R: "\<not> special_code 0x13" "scan_key 0x13 k = Some (KEY_R, k)" "32 \<le> KEY_R" "KEY_R \<le> 0x60" "keymap ! (KEY_R mod 256) = 0x72"
    using scan_key_plain [OF k(3,4), of "0x13"] by (simp_all add: special_code_def scanmap_def key_defs keymap_def)
  obtain p where p: "idle p" "kb_interrupt hw IRQ_KEYBOARD (deliver 0x13 s1) = do {
       (ex, s') \<leftarrow> scan_code hw 0x13 (s1\<lparr>kd_ps2 := p\<rparr>);
       if ex = Returned then do {
         s' \<leftarrow> on_ps2 (kb_enable hw) s';
         Some (Returned, s'\<lparr>kd_ps2 := (kd_ps2 s')\<lparr>p_if := p_if (kd_ps2 s1)\<rparr>\<rparr>)
       } else Some (ex, s')
     }" by (rule interrupt_start [OF hw k(1)])
  define s2 where "s2 = s1\<lparr>kd_ps2 := p, kd_kb := k\<rparr>"
  have "idle (kd_ps2 s2)" using p(1) by (simp add: s2_def)
  then obtain q where q: "update_leds hw s2 = Some (s2\<lparr>kd_kb := (kd_kb s2)\<lparr>k_leds := led_bits (kd_kb s2)\<rparr>, kd_ps2 := q\<rparr>)" "idle q" by (rule prompt_leds [OF hw])
  define s3 where "s3 = s1\<lparr>kd_kb := key_state False KEY_R k, kd_ps2 := q\<rparr>"
  have tk: "toggle_keys False KEY_R k = k" by (simp add: toggle_keys_def key_defs)
  have e: "upd_kb (modifier_keys False KEY_R) (s2\<lparr>kd_kb := (kd_kb s2)\<lparr>k_leds := led_bits (kd_kb s2)\<rparr>, kd_ps2 := q\<rparr>) = s3"
    by (simp add: s2_def s3_def upd_kb_def key_state_def Let_def tk)
  have "idle (kd_ps2 s3)" using q(2) by (simp add: s3_def)
  then obtain s4 where s4: "hard_reset hw s3 = Some s4" "acts s3 s4" "p_sent (kd_ps2 s4) = p_sent (kd_ps2 s3) @ [(True, 0xFE)]" "kd_calls s4 = kd_calls s3 @ [Empty_idt]"
    by (rule hard_reset_acts [OF hw])
  have "scan_code hw 0x13 (s1\<lparr>kd_ps2 := p\<rparr>) = key_action hw False KEY_R s3"
    using R(1,2) k(2) q(1) e plain_key(1) [OF R(3,4), of k] tk
    unfolding scan_code_def special_code_def by (simp add: k_def [symmetric] s2_def)
  also have "\<dots> = Some (Returned, s4)"
    using s4(1) R k plain_key [OF R(3,4)] by (simp add: key_action_def key_char_def Let_def s3_def sysrq_def)
  finally have c: "scan_code hw 0x13 (s1\<lparr>kd_ps2 := p\<rparr>) = Some (Returned, s4)" .
  have i4: "idle (kd_ps2 s4)" using s4(2) by (simp add: acts_def)
  obtain p' where p': "kb_interrupt hw IRQ_KEYBOARD (deliver 0x13 s1) = Some (Returned, s4\<lparr>kd_ps2 := p'\<rparr>)" "p_sent p' = p_sent (kd_ps2 s4) @ [(True, 0xAE)]"
    by (rule interrupt_end [OF hw i4 c, of "p_if (kd_ps2 s1)", folded p(2)])
  have "kd_fed s4 = kd_fed s3" using s4(1) by (auto simp: hard_reset_def on_ps2_def bind_eq_Some_conv)
  then have "interrupts hw [0x13] s1 = Some (s4\<lparr>kd_ps2 := p'\<rparr>)" "kd_fed s4 = kd_fed s" using p'(1) k(9) by (simp_all add: s3_def)
  then show ?thesis using interrupts_seq [OF s1(1), of "[0x13]"] p'(2) s4(3,4) k(10) by (simp add: s3_def)
qed

theorem unknown_key_is_sysrq_witness:
  "\<exists>s'. interrupts ex_hw [0x56, 0x13] ex_keyboard = Some s' \<and> kd_calls s' = [Empty_idt] \<and> kd_fed s' = []"
  using unknown_key_is_sysrq [OF ex_hw_prompt ex_typing] by (auto simp: ex_keyboard_def simp del: interrupts.simps)

end
