(* ===== verification/Fat_Disk.thy ===== *)
theory Fat_Disk
  imports Fat_Dir
begin

text \<open>
  Disk images with a FAT file system: the geometry, the clusters, and reading and writing of files of \<^verbatim>\<open>src/tools/fatfs/FatDisk.cpp\<close>.

  The image is the list of its bytes; a read beyond its end gets fewer bytes and leaves the rest of the buffer alone, a write beyond its end extends it.
  The table is in memory and written back when the disk is closed. Buffers are lists; a write beyond the end of a buffer has no result, nor has a
  division by zero. Memory that was just allocated is taken to be zero. All sizes are 32-bit words, as in the source, except
  \<open>m_base\<close>, which is a 64-bit \<open>size_t\<close> that is cut to 32 bits when an address is computed.
\<close>

record FatDisk =
  m_file :: "u8 list"
  m_base :: u64
  m_boot :: BootSector
  m_fat :: "u8 list"
  m_bDirty :: bool
  m_bHardError :: bool

definition MIN_SECTOR_SIZE :: u32 where "MIN_SECTOR_SIZE = 512"
definition MAX_SECTOR_SIZE :: u32 where "MAX_SECTOR_SIZE = 32768"
definition MAX_CLUSTERS_12 :: u32 where "MAX_CLUSTERS_12 = 4084"
definition MIN_CLUSTERS_16 :: u32 where "MIN_CLUSTERS_16 = MAX_CLUSTERS_12 + 1"
definition MAX_CLUSTERS_16 :: u32 where "MAX_CLUSTERS_16 = 65524"
definition CLUSTER_FREE :: u32 where "CLUSTER_FREE = 0"
definition CLUSTER_RESERVED :: u32 where "CLUSTER_RESERVED = 1"
definition CLUSTER_FIRST :: u32 where "CLUSTER_FIRST = 2"
definition CLUSTER_BAD_12 :: u32 where "CLUSTER_BAD_12 = 0xFF7"
definition CLUSTER_BAD_16 :: u32 where "CLUSTER_BAD_16 = 0xFFF7"

lemmas cluster_numbers = CLUSTER_FREE_def CLUSTER_RESERVED_def CLUSTER_FIRST_def CLUSTER_BAD_12_def CLUSTER_BAD_16_def
  CLUSTER_EOC_12_LO_def CLUSTER_EOC_12_HI_def CLUSTER_EOC_16_LO_def CLUSTER_EOC_16_HI_def

subsection \<open>Buffers and the image file\<close>

definition patch :: "u8 list \<Rightarrow> nat \<Rightarrow> u8 list \<Rightarrow> u8 list option" where
  "patch buf off bs = (if off + length bs \<le> length buf then Some (take off buf @ bs @ drop (off + length bs) buf) else None)"

definition file_read :: "u8 list \<Rightarrow> nat \<Rightarrow> nat \<Rightarrow> u8 list" where
  "file_read f pos n = take n (drop pos f)"

definition file_write :: "u8 list \<Rightarrow> nat \<Rightarrow> u8 list \<Rightarrow> u8 list" where
  "file_write f pos bs = take pos f @ replicate (pos - length f) 0 @ bs @ drop (pos + length bs) f"

subsection \<open>Geometry\<close>

definition CeilDiv :: "u32 \<Rightarrow> u32 \<Rightarrow> u32 option" where
  "CeilDiv x y = (if y = 0 then None else Some ((x + y - 1) div y))"

definition IsPow2 :: "u32 \<Rightarrow> bool" where "IsPow2 x \<longleftrightarrow> x AND (x - 1) = 0"

definition GetBPB :: "FatDisk \<Rightarrow> BiosParamBlock" where "GetBPB d = BiosParams (m_boot d)"

definition GetSectorSize :: "FatDisk \<Rightarrow> u32" where "GetSectorSize d = ucast (SectorSize (GetBPB d))"

definition GetSectorCount :: "FatDisk \<Rightarrow> u32 option" where
  "GetSectorCount d = do {
     let cnt = (if SectorCount (GetBPB d) = 0 then SectorCountLarge (GetBPB d) else ucast (SectorCount (GetBPB d)));
     assert_opt (cnt \<noteq> 0);
     Some cnt
   }"

definition GetDiskSize :: "FatDisk \<Rightarrow> u32 option" where
  "GetDiskSize d = do { n \<leftarrow> GetSectorCount d; Some (n * GetSectorSize d) }"

definition GetClusterSize :: "FatDisk \<Rightarrow> u32" where
  "GetClusterSize d = ucast (SectorSize (GetBPB d)) * ucast (SectorsPerCluster (GetBPB d))"

definition GetRootCapacity :: "FatDisk \<Rightarrow> u32" where "GetRootCapacity d = ucast (RootDirCapacity (GetBPB d))"

text \<open>The sectors of the root directory, and the first sector of the clusters; a directory entry has 32 bytes.\<close>

definition root_sectors :: "FatDisk \<Rightarrow> u32 option" where
  "root_sectors d = CeilDiv (ucast (RootDirCapacity (GetBPB d)) * 32) (ucast (SectorSize (GetBPB d)))"

definition fsDataSectors :: "FatDisk \<Rightarrow> u32 option" where
  "fsDataSectors d = do {
     root \<leftarrow> root_sectors d;
     Some (ucast (ReservedSectorCount (GetBPB d)) + ucast (SectorsPerTable (GetBPB d)) * ucast (TableCount (GetBPB d)) + root)
   }"

definition GetClusterCount :: "FatDisk \<Rightarrow> u32 option" where
  "GetClusterCount d = do {
     fs \<leftarrow> fsDataSectors d;
     n \<leftarrow> GetSectorCount d;
     assert_opt (SectorsPerCluster (GetBPB d) \<noteq> 0);
     Some ((n - fs) div ucast (SectorsPerCluster (GetBPB d)))
   }"

definition IsFat12 :: "FatDisk \<Rightarrow> bool option" where
  "IsFat12 d = map_option (\<lambda>n. n \<le> MAX_CLUSTERS_12) (GetClusterCount d)"

definition IsFat16 :: "FatDisk \<Rightarrow> bool option" where
  "IsFat16 d = map_option (\<lambda>n. n \<ge> MIN_CLUSTERS_16 \<and> n \<le> MAX_CLUSTERS_16) (GetClusterCount d)"

definition GetFatCapacity :: "FatDisk \<Rightarrow> u32 option" where
  "GetFatCapacity d = do {
     let fatSize = ucast (SectorsPerTable (GetBPB d)) * ucast (SectorSize (GetBPB d));
     fat12 \<leftarrow> IsFat12 d;
     Some (if fat12 then fatSize div 3 * 2 - CLUSTER_FIRST else fatSize div 2 - CLUSTER_FIRST)
   }"

definition GetRootDirEntry :: DirEntry where
  "GetRootDirEntry = zero_entry\<lparr>Attributes := ATTR_DIRECTORY, FirstCluster := 0\<rparr>"

subsection \<open>Clusters\<close>

definition GetClusterNumberEOC :: "FatDisk \<Rightarrow> u32 option" where
  "GetClusterNumberEOC d = do {
     fat12 \<leftarrow> IsFat12 d;
     if fat12 then GetCluster12 (m_fat d) 1 else map_option (\<lambda>v. v OR 0xC000) (GetCluster16 (m_fat d) 1)
   }"

definition GetClusterNumberBad :: "FatDisk \<Rightarrow> u32 option" where
  "GetClusterNumberBad d = map_option (\<lambda>fat12. if fat12 then CLUSTER_BAD_12 else CLUSTER_BAD_16) (IsFat12 d)"

definition GetCluster :: "FatDisk \<Rightarrow> u32 \<Rightarrow> u32 option" where
  "GetCluster d index = do {
     n \<leftarrow> GetClusterCount d;
     if index \<ge> CLUSTER_FIRST \<and> index - CLUSTER_FIRST > n then GetClusterNumberEOC d
     else do { fat12 \<leftarrow> IsFat12 d; if fat12 then GetCluster12 (m_fat d) index else GetCluster16 (m_fat d) index }
   }"

definition SetCluster :: "FatDisk \<Rightarrow> u32 \<Rightarrow> u32 \<Rightarrow> (FatDisk \<times> u32) option" where
  "SetCluster d index v = do {
     n \<leftarrow> GetClusterCount d;
     if index < CLUSTER_FIRST \<or> index - CLUSTER_FIRST > n then do { eoc \<leftarrow> GetClusterNumberEOC d; Some (d, eoc) }
     else do {
       fat12 \<leftarrow> IsFat12 d;
       (fat, old) \<leftarrow> (if fat12 then SetCluster12 (m_fat d) index v else SetCluster16 (m_fat d) index v);
       Some (d\<lparr>m_fat := fat\<rparr>, old)
     }
   }"

definition IsClusterNumberBad :: "FatDisk \<Rightarrow> u32 \<Rightarrow> bool option" where
  "IsClusterNumberBad d n = map_option (\<lambda>fat12. if fat12 then n = CLUSTER_BAD_12 else n = CLUSTER_BAD_16) (IsFat12 d)"

definition IsClusterNumberEOC :: "FatDisk \<Rightarrow> u32 \<Rightarrow> bool option" where
  "IsClusterNumberEOC d n = do {
     bad \<leftarrow> GetClusterNumberBad d;
     if n < CLUSTER_FIRST \<or> n = bad then Some True
     else do {
       fat12 \<leftarrow> IsFat12 d;
       Some (if fat12 then n \<ge> CLUSTER_EOC_12_LO \<and> n \<le> CLUSTER_EOC_12_HI else n \<ge> CLUSTER_EOC_16_LO \<and> n \<le> CLUSTER_EOC_16_HI)
     }
   }"

definition IsClusterBad :: "FatDisk \<Rightarrow> u32 \<Rightarrow> bool option" where
  "IsClusterBad d i = do { v \<leftarrow> GetCluster d i; bad \<leftarrow> GetClusterNumberBad d; Some (v = bad) }"

definition IsClusterFree :: "FatDisk \<Rightarrow> u32 \<Rightarrow> bool option" where
  "IsClusterFree d i = do { v \<leftarrow> GetCluster d i; Some (v = CLUSTER_FREE) }"

definition MarkClusterBad :: "FatDisk \<Rightarrow> u32 \<Rightarrow> (FatDisk \<times> u32) option" where
  "MarkClusterBad d i = do { bad \<leftarrow> GetClusterNumberBad d; SetCluster d i bad }"

definition MarkClusterFree :: "FatDisk \<Rightarrow> u32 \<Rightarrow> (FatDisk \<times> u32) option" where
  "MarkClusterFree d i = SetCluster d i CLUSTER_FREE"

text \<open>The loops over all clusters, for the clusters from \<open>i\<close> on; \<open>k\<close> is the number of clusters left.\<close>

primrec count_clusters :: "(u32 \<Rightarrow> bool option) \<Rightarrow> nat \<Rightarrow> u32 \<Rightarrow> u32 \<Rightarrow> u32 option" where
  "count_clusters P 0 i acc = Some acc"
| "count_clusters P (Suc k) i acc = do { b \<leftarrow> P (CLUSTER_FIRST + i); count_clusters P k (i + 1) (if b then acc + 1 else acc) }"

definition CountFreeClusters :: "FatDisk \<Rightarrow> u32 option" where
  "CountFreeClusters d = do { n \<leftarrow> GetClusterCount d; count_clusters (IsClusterFree d) (unat n) 0 0 }"

definition CountBadClusters :: "FatDisk \<Rightarrow> u32 option" where
  "CountBadClusters d = do { n \<leftarrow> GetClusterCount d; count_clusters (IsClusterBad d) (unat n) 0 0 }"

primrec find_free :: "FatDisk \<Rightarrow> nat \<Rightarrow> u32 \<Rightarrow> u32 option" where
  "find_free d 0 i = GetClusterNumberEOC d"
| "find_free d (Suc k) i = do { b \<leftarrow> IsClusterFree d (CLUSTER_FIRST + i); if b then Some (CLUSTER_FIRST + i) else find_free d k (i + 1) }"

definition FindNextFreeCluster :: "FatDisk \<Rightarrow> u32 option" where
  "FindNextFreeCluster d = do { n \<leftarrow> GetClusterCount d; find_free d (unat n) 0 }"

text \<open>The loop of \<open>CountClusters\<close> does not end on a circular chain.\<close>

partial_function (option) chain_loop :: "FatDisk \<Rightarrow> u32 \<Rightarrow> u32 \<Rightarrow> u32 option" where
  "chain_loop d cluster cnt = do {
     let cnt = cnt + 1;
     cluster \<leftarrow> GetCluster d cluster;
     eoc \<leftarrow> IsClusterNumberEOC d cluster;
     if eoc then Some cnt else chain_loop d cluster cnt
   }"

definition CountClusters :: "FatDisk \<Rightarrow> DirEntry \<Rightarrow> u32 option" where
  "CountClusters d pFile =
    (if IsRoot pFile then Some 0
     else if ucast (FirstCluster pFile) = CLUSTER_FREE then Some 0
     else chain_loop d (ucast (FirstCluster pFile)) 0)"

definition GetFileAllocSize :: "FatDisk \<Rightarrow> DirEntry \<Rightarrow> u32 option" where
  "GetFileAllocSize d pFile =
    (if IsRoot pFile then Some (GetRootCapacity d * 32)
     else if \<not> IsValidFile pFile \<or> FirstCluster pFile = 0 then Some 0
     else do { n \<leftarrow> CountClusters d pFile; Some (n * GetClusterSize d) })"

definition GetFileSize :: "FatDisk \<Rightarrow> DirEntry \<Rightarrow> u32 option" where
  "GetFileSize d pFile = (if IsDirectory pFile then GetFileAllocSize d pFile else Some (FileSize pFile))"

subsection \<open>Reading\<close>

text \<open>The buffer is written from \<open>off\<close> on.\<close>

definition ReadSector :: "FatDisk \<Rightarrow> u8 list \<Rightarrow> nat \<Rightarrow> u32 \<Rightarrow> (bool \<times> u8 list) option" where
  "ReadSector d pBuf off index = do {
     diskSize \<leftarrow> GetDiskSize d;
     let seekAddr = (ucast (m_base d + ucast (index * GetSectorSize d)) :: u32);
     if seekAddr + GetSectorSize d > diskSize then Some (False, pBuf)
     else do {
       pBuf \<leftarrow> patch pBuf off (file_read (m_file d) (unat seekAddr) (unat (GetSectorSize d)));
       Some (True, pBuf)
     }
   }"

definition cluster_addr :: "FatDisk \<Rightarrow> u32 \<Rightarrow> u32 option" where
  "cluster_addr d index = do {
     fs \<leftarrow> fsDataSectors d;
     Some (ucast (m_base d + ucast (fs * ucast (SectorSize (GetBPB d))) + ucast ((index - CLUSTER_FIRST) * GetClusterSize d)))
   }"

definition ReadCluster :: "FatDisk \<Rightarrow> u8 list \<Rightarrow> nat \<Rightarrow> u32 \<Rightarrow> (bool \<times> u8 list) option" where
  "ReadCluster d pBuf off index = do {
     diskSize \<leftarrow> GetDiskSize d;
     n \<leftarrow> GetClusterCount d;
     if index - CLUSTER_FIRST > n then Some (False, pBuf)
     else do {
       seekAddr \<leftarrow> cluster_addr d index;
       assert_opt (seekAddr + GetClusterSize d \<le> diskSize);
       pBuf \<leftarrow> patch pBuf off (file_read (m_file d) (unat seekAddr) (unat (GetClusterSize d)));
       Some (True, pBuf)
     }
   }"

text \<open>The loop over the sectors of the root directory from \<open>i\<close> on.\<close>

primrec read_root :: "FatDisk \<Rightarrow> u8 list \<Rightarrow> u32 \<Rightarrow> nat \<Rightarrow> nat \<Rightarrow> (bool \<times> u8 list) option" where
  "read_root d pBuf base i 0 = Some (True, pBuf)"
| "read_root d pBuf base i (Suc k) = do {
     (ok, pBuf) \<leftarrow> ReadSector d pBuf (i * unat (GetSectorSize d)) (base + of_nat i);
     if ok then read_root d pBuf base (i + 1) k else Some (False, pBuf)
   }"

definition root_base :: "FatDisk \<Rightarrow> u32" where
  "root_base d = ucast (ReservedSectorCount (GetBPB d)) + ucast (SectorsPerTable (GetBPB d)) * ucast (TableCount (GetBPB d))"

definition ReadRoot :: "FatDisk \<Rightarrow> u8 list \<Rightarrow> (bool \<times> u8 list) option" where
  "ReadRoot d pBuf = do { cnt \<leftarrow> root_sectors d; read_root d pBuf (root_base d) 0 (unat cnt) }"

partial_function (option) read_chain :: "FatDisk \<Rightarrow> u8 list \<Rightarrow> nat \<Rightarrow> u32 \<Rightarrow> (bool \<times> u8 list) option" where
  "read_chain d pBuf i cluster = do {
     eoc \<leftarrow> IsClusterNumberEOC d cluster;
     if eoc then Some (True, pBuf)
     else do {
       (ok, pBuf) \<leftarrow> ReadCluster d pBuf (i * unat (GetClusterSize d)) cluster;
       cluster \<leftarrow> GetCluster d cluster;
       if ok then read_chain d pBuf (i + 1) cluster else Some (False, pBuf)
     }
   }"

definition ReadFile :: "FatDisk \<Rightarrow> u8 list \<Rightarrow> DirEntry \<Rightarrow> (bool \<times> u8 list) option" where
  "ReadFile d pBuf pFile =
    (if IsRoot pFile then ReadRoot d pBuf
     else do {
       _ \<leftarrow> GetShortName pFile;
       if \<not> IsValidFile pFile \<or> FirstCluster pFile = 0 \<and> FileSize pFile \<noteq> 0 then Some (False, pBuf)
       else read_chain d pBuf 0 (ucast (FirstCluster pFile))
     })"

subsection \<open>Writing\<close>

definition WriteSector :: "FatDisk \<Rightarrow> u32 \<Rightarrow> u8 list \<Rightarrow> (bool \<times> FatDisk) option" where
  "WriteSector d index pBuf = do {
     diskSize \<leftarrow> GetDiskSize d;
     let seekAddr = (ucast (m_base d + ucast (index * GetSectorSize d)) :: u32);
     if seekAddr + GetSectorSize d > diskSize then Some (False, d)
     else do {
       let n = unat (GetSectorSize d);
       assert_opt (n \<le> length pBuf);
       Some (True, d\<lparr>m_file := file_write (m_file d) (unat seekAddr) (take n pBuf)\<rparr>)
     }
   }"

definition WriteCluster :: "FatDisk \<Rightarrow> u32 \<Rightarrow> u8 list \<Rightarrow> (bool \<times> FatDisk) option" where
  "WriteCluster d index pBuf = do {
     diskSize \<leftarrow> GetDiskSize d;
     n \<leftarrow> GetClusterCount d;
     if index - CLUSTER_FIRST > n then Some (False, d)
     else do {
       seekAddr \<leftarrow> cluster_addr d index;
       assert_opt (seekAddr + GetClusterSize d \<le> diskSize);
       let sz = unat (GetClusterSize d);
       assert_opt (sz \<le> length pBuf);
       Some (True, d\<lparr>m_file := file_write (m_file d) (unat seekAddr) (take sz pBuf)\<rparr>)
     }
   }"

primrec write_sectors :: "FatDisk \<Rightarrow> u32 \<Rightarrow> u8 list \<Rightarrow> nat \<Rightarrow> nat \<Rightarrow> (bool \<times> FatDisk) option" where
  "write_sectors d base pBuf i 0 = Some (True, d)"
| "write_sectors d base pBuf i (Suc k) = do {
     (ok, d) \<leftarrow> WriteSector d (base + of_nat i) (drop (i * unat (GetSectorSize d)) pBuf);
     if ok then write_sectors d base pBuf (i + 1) k else Some (False, d)
   }"

definition WriteRoot :: "FatDisk \<Rightarrow> u8 list \<Rightarrow> (bool \<times> FatDisk) option" where
  "WriteRoot d pBuf = do { cnt \<leftarrow> root_sectors d; write_sectors d (root_base d) pBuf 0 (unat cnt) }"

primrec write_tables :: "FatDisk \<Rightarrow> u32 \<Rightarrow> nat \<Rightarrow> (bool \<times> FatDisk) option" where
  "write_tables d base 0 = Some (True, d)"
| "write_tables d base (Suc k) = do {
     let n = SectorsPerTable (GetBPB d);
     (ok, d) \<leftarrow> write_sectors d base (m_fat d) 0 (unat n);
     if ok then write_tables d (base + ucast n) k else Some (False, d)
   }"

definition WriteFAT :: "FatDisk \<Rightarrow> (bool \<times> FatDisk) option" where
  "WriteFAT d = write_tables d (ucast (ReservedSectorCount (GetBPB d))) (unat (TableCount (GetBPB d)))"

text \<open>
  The loop of \<open>WriteFile\<close>, \<open>k\<close> rounds from round \<open>i\<close> on: the cluster, the cluster buffer, the rest of the data and the number of bytes written.
\<close>

primrec write_clusters :: "nat \<Rightarrow> u32 \<Rightarrow> u32 \<Rightarrow> u32 \<Rightarrow> u32 \<Rightarrow> u8 list \<Rightarrow> u8 list \<Rightarrow> u32 \<Rightarrow> FatDisk \<Rightarrow> (bool \<times> FatDisk) option" where
  "write_clusters 0 i newCount fileSize cluster clusterBuf pBuf bytesWritten d = Some (True, d)"
| "write_clusters (Suc k) i newCount fileSize cluster clusterBuf pBuf bytesWritten d = do {
     oldValue \<leftarrow> GetCluster d cluster;
     if i \<ge> newCount then do {
       (d, _) \<leftarrow> SetCluster d cluster CLUSTER_FREE;
       write_clusters k (i + 1) newCount fileSize oldValue clusterBuf pBuf bytesWritten d
     }
     else do {
       eoc \<leftarrow> IsClusterNumberEOC d cluster;
       assert_opt (\<not> eoc);
       (d, next) \<leftarrow> SetCluster d cluster CLUSTER_RESERVED;
       (ok, clusterBuf) \<leftarrow> ReadCluster d clusterBuf 0 cluster;
       if \<not> ok then Some (False, d)
       else do {
         let sz = min (fileSize - bytesWritten) (GetClusterSize d);
         assert_opt (unat sz \<le> length pBuf);
         clusterBuf \<leftarrow> patch clusterBuf 0 (take (unat sz) pBuf);
         (ok, d) \<leftarrow> WriteCluster d cluster clusterBuf;
         if \<not> ok then Some (False, d)
         else do {
           let pBuf = drop (unat sz) pBuf;
           let bytesWritten = bytesWritten + sz;
           if i = newCount - 1 then do {
             eoc \<leftarrow> GetClusterNumberEOC d;
             (d, _) \<leftarrow> SetCluster d cluster eoc;
             write_clusters k (i + 1) newCount fileSize oldValue clusterBuf pBuf bytesWritten d
           }
           else do {
             eoc \<leftarrow> IsClusterNumberEOC d next;
             next \<leftarrow> (if eoc \<or> next = CLUSTER_FREE then FindNextFreeCluster d else Some next);
             (d, _) \<leftarrow> SetCluster d cluster next;
             write_clusters k (i + 1) newCount fileSize next clusterBuf pBuf bytesWritten d
           }
         }
       }
     }
   }"

definition WriteFile :: "FatDisk \<Rightarrow> DirEntry \<Rightarrow> u8 list \<Rightarrow> (bool \<times> FatDisk) option" where
  "WriteFile d pFile pBuf =
    (if IsRoot pFile then WriteRoot d pBuf
     else do {
       _ \<leftarrow> GetShortName pFile;
       if \<not> IsValidFile pFile \<or> FirstCluster pFile = 0 \<and> FileSize pFile \<noteq> 0 then Some (False, d)
       else do {
         fileSize \<leftarrow> (if IsDirectory pFile then GetFileAllocSize d pFile else Some (FileSize pFile));
         newCount \<leftarrow> CeilDiv fileSize (GetClusterSize d);
         existingCount \<leftarrow> CountClusters d pFile;
         let totalCount = max newCount existingCount;
         free \<leftarrow> CountFreeClusters d;
         if newCount > free then Some (False, d)
         else do {
           (ok, d) \<leftarrow> write_clusters (unat totalCount) 0 newCount fileSize (ucast (FirstCluster pFile))
             (replicate (unat (GetClusterSize d)) 0) pBuf 0 d;
           Some (ok, if ok then d\<lparr>m_bDirty := True\<rparr> else d)
         }
       }
     })"

text \<open>The destructor.\<close>

definition CloseDisk :: "FatDisk \<Rightarrow> FatDisk option" where
  "CloseDisk d = (if m_bDirty d then do { (_, d) \<leftarrow> WriteFAT d; Some d } else Some d)"

end
