(* ===== verification/Fat_Disk_Props.thy ===== *)
theory Fat_Disk_Props
  imports Fat_Disk
begin

text \<open>
  What reading and writing of files on a FAT disk do: a file that was written is read back, the clusters of other files and the rest of the table
  stay as they were, and the clusters a file no longer needs become free.
\<close>

subsection \<open>Well-formed disks\<close>

definition clusters :: "FatDisk \<Rightarrow> nat" where "clusters d = unat (the (GetClusterCount d))"
definition csize :: "FatDisk \<Rightarrow> nat" where "csize d = unat (GetClusterSize d)"
definition data_start :: "FatDisk \<Rightarrow> nat" where
  "data_start d = unat (m_base d) + unat (the (fsDataSectors d)) * unat (SectorSize (GetBPB d))"
definition fat12 :: "FatDisk \<Rightarrow> bool" where "fat12 d \<longleftrightarrow> clusters d \<le> 4084"
definition in_range :: "FatDisk \<Rightarrow> u32 \<Rightarrow> bool" where "in_range d c \<longleftrightarrow> 2 \<le> unat c \<and> unat c < 2 + clusters d"
definition entry :: "FatDisk \<Rightarrow> u32 \<Rightarrow> u32" where "entry d c = the (GetCluster d c)"
definition eoc_mark :: "FatDisk \<Rightarrow> u32" where "eoc_mark d = the (GetClusterNumberEOC d)"
definition is_eoc :: "FatDisk \<Rightarrow> u32 \<Rightarrow> bool" where "is_eoc d v = the (IsClusterNumberEOC d v)"
definition caddr :: "FatDisk \<Rightarrow> u32 \<Rightarrow> nat" where "caddr d c = data_start d + (unat c - 2) * csize d"
definition cdata :: "FatDisk \<Rightarrow> u32 \<Rightarrow> u8 list" where "cdata d c = take (csize d) (drop (caddr d c) (m_file d))"

text \<open>
  The parameter block makes sense, the clusters lie inside of the disk and the disk inside of the image file, the table has an entry for each
  of them, and its entry 1 is an end mark.
\<close>

definition disk_ok :: "FatDisk \<Rightarrow> bool" where
  "disk_ok d \<longleftrightarrow> (\<exists>fs n ds. fsDataSectors d = Some fs \<and> GetClusterCount d = Some n \<and> GetDiskSize d = Some ds \<and>
     unat n \<le> 65524 \<and> 0 < csize d \<and> data_start d + unat n * csize d \<le> unat ds \<and> unat ds \<le> length (m_file d) \<and>
     2 + unat n \<le> (if fat12 d then slots12 (m_fat d) else slots16 (m_fat d)) \<and>
     (\<exists>e. GetClusterNumberEOC d = Some e \<and> (if fat12 d then 0xFF8 \<le> e \<and> e \<le> 0xFFF else 0xFFF8 \<le> e \<and> e \<le> 0xFFFF)))"

lemma geometry [simp]:
  "GetBPB (d\<lparr>m_fat := f\<rparr>) = GetBPB d" "GetBPB (d\<lparr>m_file := i\<rparr>) = GetBPB d" "GetBPB (d\<lparr>m_bDirty := b\<rparr>) = GetBPB d"
  by (simp_all add: GetBPB_def)

lemma geometry2 [simp]:
  "fsDataSectors (d\<lparr>m_fat := f\<rparr>) = fsDataSectors d" "fsDataSectors (d\<lparr>m_file := i\<rparr>) = fsDataSectors d"
  "fsDataSectors (d\<lparr>m_bDirty := b\<rparr>) = fsDataSectors d"
  "GetClusterSize (d\<lparr>m_fat := f\<rparr>) = GetClusterSize d" "GetClusterSize (d\<lparr>m_file := i\<rparr>) = GetClusterSize d"
  "GetClusterSize (d\<lparr>m_bDirty := b\<rparr>) = GetClusterSize d"
  "GetSectorCount (d\<lparr>m_fat := f\<rparr>) = GetSectorCount d" "GetSectorCount (d\<lparr>m_file := i\<rparr>) = GetSectorCount d"
  "GetSectorCount (d\<lparr>m_bDirty := b\<rparr>) = GetSectorCount d"
  "GetSectorSize (d\<lparr>m_fat := f\<rparr>) = GetSectorSize d" "GetSectorSize (d\<lparr>m_file := i\<rparr>) = GetSectorSize d"
  "GetSectorSize (d\<lparr>m_bDirty := b\<rparr>) = GetSectorSize d"
  by (simp_all add: fsDataSectors_def root_sectors_def GetClusterSize_def GetSectorCount_def GetSectorSize_def)

lemma geometry3 [simp]:
  "GetClusterCount (d\<lparr>m_fat := f\<rparr>) = GetClusterCount d" "GetClusterCount (d\<lparr>m_file := i\<rparr>) = GetClusterCount d"
  "GetClusterCount (d\<lparr>m_bDirty := b\<rparr>) = GetClusterCount d"
  "GetDiskSize (d\<lparr>m_fat := f\<rparr>) = GetDiskSize d" "GetDiskSize (d\<lparr>m_file := i\<rparr>) = GetDiskSize d"
  "GetDiskSize (d\<lparr>m_bDirty := b\<rparr>) = GetDiskSize d"
  by (simp_all add: GetClusterCount_def GetDiskSize_def)

lemma geometry4 [simp]:
  "clusters (d\<lparr>m_fat := f\<rparr>) = clusters d" "clusters (d\<lparr>m_file := i\<rparr>) = clusters d" "clusters (d\<lparr>m_bDirty := b\<rparr>) = clusters d"
  "csize (d\<lparr>m_fat := f\<rparr>) = csize d" "csize (d\<lparr>m_file := i\<rparr>) = csize d" "csize (d\<lparr>m_bDirty := b\<rparr>) = csize d"
  "data_start (d\<lparr>m_fat := f\<rparr>) = data_start d" "data_start (d\<lparr>m_file := i\<rparr>) = data_start d" "data_start (d\<lparr>m_bDirty := b\<rparr>) = data_start d"
  "IsFat12 (d\<lparr>m_fat := f\<rparr>) = IsFat12 d" "IsFat12 (d\<lparr>m_file := i\<rparr>) = IsFat12 d" "IsFat12 (d\<lparr>m_bDirty := b\<rparr>) = IsFat12 d"
  by (simp_all add: clusters_def csize_def data_start_def IsFat12_def)

lemma geometry5 [simp]:
  "fat12 (d\<lparr>m_fat := f\<rparr>) = fat12 d" "fat12 (d\<lparr>m_file := i\<rparr>) = fat12 d" "fat12 (d\<lparr>m_bDirty := b\<rparr>) = fat12 d"
  "in_range (d\<lparr>m_fat := f\<rparr>) = in_range d" "in_range (d\<lparr>m_file := i\<rparr>) = in_range d" "in_range (d\<lparr>m_bDirty := b\<rparr>) = in_range d"
  "caddr (d\<lparr>m_fat := f\<rparr>) = caddr d" "caddr (d\<lparr>m_file := i\<rparr>) = caddr d" "caddr (d\<lparr>m_bDirty := b\<rparr>) = caddr d"
  "cdata (d\<lparr>m_fat := f\<rparr>) = cdata d" "cdata (d\<lparr>m_bDirty := b\<rparr>) = cdata d"
  "is_eoc (d\<lparr>m_fat := f\<rparr>) = is_eoc d" "is_eoc (d\<lparr>m_file := i\<rparr>) = is_eoc d" "is_eoc (d\<lparr>m_bDirty := b\<rparr>) = is_eoc d"
  by (simp_all add: fat12_def in_range_def caddr_def cdata_def is_eoc_def IsClusterNumberEOC_def GetClusterNumberBad_def fun_eq_iff cong: if_cong)

lemma fat_reads [simp]:
  "GetClusterNumberEOC (d\<lparr>m_file := i\<rparr>) = GetClusterNumberEOC d" "GetClusterNumberEOC (d\<lparr>m_bDirty := b\<rparr>) = GetClusterNumberEOC d"
  "GetCluster (d\<lparr>m_file := i\<rparr>) = GetCluster d" "GetCluster (d\<lparr>m_bDirty := b\<rparr>) = GetCluster d"
  "entry (d\<lparr>m_file := i\<rparr>) = entry d" "entry (d\<lparr>m_bDirty := b\<rparr>) = entry d"
  "eoc_mark (d\<lparr>m_file := i\<rparr>) = eoc_mark d" "eoc_mark (d\<lparr>m_bDirty := b\<rparr>) = eoc_mark d"
  by (simp_all add: GetClusterNumberEOC_def GetCluster_def entry_def eoc_mark_def fun_eq_iff cong: if_cong)

lemma disk_okD:
  assumes "disk_ok d"
  shows "GetClusterCount d = Some (of_nat (clusters d))" "clusters d \<le> 65524" "IsFat12 d = Some (fat12 d)" "0 < csize d"
    "GetClusterNumberEOC d = Some (eoc_mark d)"
    "if fat12 d then 0xFF8 \<le> eoc_mark d \<and> eoc_mark d \<le> 0xFFF else 0xFFF8 \<le> eoc_mark d \<and> eoc_mark d \<le> 0xFFFF"
    "2 + clusters d \<le> (if fat12 d then slots12 (m_fat d) else slots16 (m_fat d))"
proof -
  obtain n where n: "GetClusterCount d = Some n" "unat n \<le> 65524" using assms by (auto simp: disk_ok_def)
  then have c: "clusters d = unat n" by (simp add: clusters_def)
  show "GetClusterCount d = Some (of_nat (clusters d))" "clusters d \<le> 65524" using n c by simp_all
  have "n \<le> MAX_CLUSTERS_12 \<longleftrightarrow> unat n \<le> 4084" by (simp add: MAX_CLUSTERS_12_def word_le_nat_alt)
  then show "IsFat12 d = Some (fat12 d)" using n(1) c by (simp add: IsFat12_def fat12_def)
qed (use assms in \<open>auto simp: disk_ok_def eoc_mark_def clusters_def\<close>)

lemma eoc_of:
  assumes "disk_ok d"
  shows "IsClusterNumberEOC d v = Some (is_eoc d v)"
    "is_eoc d v \<longleftrightarrow> v < 2 \<or> (if fat12 d then 0xFF7 \<le> v \<and> v \<le> 0xFFF else 0xFFF7 \<le> v \<and> v \<le> 0xFFFF)"
proof -
  have e: "(0xFF7 :: u32) \<le> v \<and> v \<le> 0xFFF \<longleftrightarrow> v = 0xFF7 \<or> 0xFF8 \<le> v \<and> v \<le> 0xFFF" "(0xFFF7 :: u32) \<le> v \<and> v \<le> 0xFFFF \<longleftrightarrow> v = 0xFFF7 \<or> 0xFFF8 \<le> v \<and> v \<le> 0xFFFF"
    by (auto simp: word_le_nat_alt word_unat_eq_iff)
  have "IsClusterNumberEOC d v = Some (v < 2 \<or> (if fat12 d then 0xFF7 \<le> v \<and> v \<le> 0xFFF else 0xFFF7 \<le> v \<and> v \<le> 0xFFFF))"
    using disk_okD(3) [OF assms] unfolding e by (simp add: IsClusterNumberEOC_def GetClusterNumberBad_def cluster_numbers)
  then show "IsClusterNumberEOC d v = Some (is_eoc d v)"
    "is_eoc d v \<longleftrightarrow> v < 2 \<or> (if fat12 d then 0xFF7 \<le> v \<and> v \<le> 0xFFF else 0xFFF7 \<le> v \<and> v \<le> 0xFFFF)"
    by (simp_all add: is_eoc_def)
qed

lemma in_range_not_eoc:
  assumes "disk_ok d" "in_range d c"
  shows "\<not> is_eoc d c" "c \<noteq> 0" "c \<noteq> 1"
  using assms(2) disk_okD(2) [OF assms(1)] unfolding eoc_of(2) [OF assms(1)]
  by (auto simp: in_range_def fat12_def word_le_nat_alt word_less_nat_alt)

lemma eoc_marks:
  assumes "disk_ok d"
  shows "is_eoc d 0" "is_eoc d 1" "is_eoc d (eoc_mark d)" "eoc_mark d \<noteq> 0"
  using disk_okD(6) [OF assms] unfolding eoc_of(2) [OF assms] by (auto simp: word_le_nat_alt split: if_splits)

subsection \<open>Single clusters\<close>

text \<open>A value an entry can hold.\<close>

definition fits :: "FatDisk \<Rightarrow> u32 \<Rightarrow> bool" where "fits d v \<longleftrightarrow> (if fat12 d then v \<le> 0xFFF else v \<le> 0xFFFF)"

lemma trunc_le:
  "v \<le> 0xFFF \<Longrightarrow> take_bit 12 v = (v :: u32)" "v \<le> 0xFFFF \<Longrightarrow> take_bit 16 v = (v :: u32)"
  by (simp_all add: word_unat_eq_iff unsigned_take_bit_eq take_bit_eq_mod word_le_nat_alt unat_mod)

lemma in_range_index:
  assumes "disk_ok d" "in_range d c"
  shows "GetCluster d c = (if fat12 d then GetCluster12 (m_fat d) c else GetCluster16 (m_fat d) c)"
    "SetCluster d c v = do {
       (fat, old) \<leftarrow> (if fat12 d then SetCluster12 (m_fat d) c v else SetCluster16 (m_fat d) c v);
       Some (d\<lparr>m_fat := fat\<rparr>, old)
     }"
    "\<not> c - CLUSTER_FIRST > of_nat (clusters d)" "unat (c - CLUSTER_FIRST) = unat c - 2"
proof -
  have c: "2 \<le> unat c" "unat c < 2 + clusters d" "clusters d \<le> 65524"
    using assms disk_okD(2) [OF assms(1)] by (auto simp: in_range_def)
  then have le: "2 \<le> c" "\<not> c < 2" by (simp_all add: word_le_nat_alt word_less_nat_alt)
  then show u: "unat (c - CLUSTER_FIRST) = unat c - 2" by (simp add: CLUSTER_FIRST_def unat_sub)
  have "unat (of_nat (clusters d) :: u32) = clusters d" using c(3) by (simp add: unat_of_nat)
  then show nr: "\<not> c - CLUSTER_FIRST > of_nat (clusters d)" using u c by (simp add: word_less_nat_alt)
  show "GetCluster d c = (if fat12 d then GetCluster12 (m_fat d) c else GetCluster16 (m_fat d) c)"
    using nr disk_okD(1,3) [OF assms(1)] by (simp add: GetCluster_def)
  show "SetCluster d c v = do {
       (fat, old) \<leftarrow> (if fat12 d then SetCluster12 (m_fat d) c v else SetCluster16 (m_fat d) c v);
       Some (d\<lparr>m_fat := fat\<rparr>, old)
     }"
    using nr le disk_okD(1,3) [OF assms(1)] by (simp add: SetCluster_def CLUSTER_FIRST_def)
qed

lemma in_range_slot:
  assumes "disk_ok d" "in_range d c"
  shows "unat c < (if fat12 d then slots12 (m_fat d) else slots16 (m_fat d))"
  using assms disk_okD(7) [OF assms(1)] by (auto simp: in_range_def split: if_splits)

lemma get_ok:
  assumes "disk_ok d" "in_range d c"
  shows "GetCluster d c = Some (entry d c)"
proof -
  have "\<exists>v. GetCluster d c = Some v"
    unfolding in_range_index(1) [OF assms] using in_range_slot [OF assms] f12.get_ok [of c "m_fat d"] f16.get_ok [of c "m_fat d"] by (cases "fat12 d") simp_all
  then show ?thesis by (auto simp: entry_def)
qed

text \<open>The table behind \<open>GetCluster\<close> and \<open>SetCluster\<close>, of either kind.\<close>

lemma table_put:
  assumes "disk_ok d" "unat c < (if fat12 d then slots12 (m_fat d) else slots16 (m_fat d))" "fits d v"
  shows "\<exists>fat. (if fat12 d then SetCluster12 (m_fat d) c v else SetCluster16 (m_fat d) c v) =
      Some (fat, the (if fat12 d then GetCluster12 (m_fat d) c else GetCluster16 (m_fat d) c)) \<and>
    (if fat12 d then slots12 fat = slots12 (m_fat d) else slots16 fat = slots16 (m_fat d)) \<and>
    (if fat12 d then GetCluster12 fat c else GetCluster16 fat c) = Some v \<and>
    (\<forall>x. unat x < (if fat12 d then slots12 (m_fat d) else slots16 (m_fat d)) \<longrightarrow> x \<noteq> c \<longrightarrow>
      (if fat12 d then GetCluster12 fat x else GetCluster16 fat x) = (if fat12 d then GetCluster12 (m_fat d) x else GetCluster16 (m_fat d) x))"
proof (cases "fat12 d")
  case True
  then show ?thesis using f12.put_ok [of c "m_fat d" v] assms(2,3) trunc_le(1) [of v] by (auto simp: fits_def)
next
  case False
  then show ?thesis using f16.put_ok [of c "m_fat d" v] assms(2,3) trunc_le(2) [of v] by (auto simp: fits_def)
qed

lemma set_ok:
  assumes ok: "disk_ok d" and c: "in_range d c" and v: "fits d v"
  obtains fat where "SetCluster d c v = Some (d\<lparr>m_fat := fat\<rparr>, entry d c)" "disk_ok (d\<lparr>m_fat := fat\<rparr>)"
    "eoc_mark (d\<lparr>m_fat := fat\<rparr>) = eoc_mark d" "\<forall>x. in_range d x \<longrightarrow> entry (d\<lparr>m_fat := fat\<rparr>) x = (if x = c then v else entry d x)"
proof -
  obtain fat where f: "(if fat12 d then SetCluster12 (m_fat d) c v else SetCluster16 (m_fat d) c v) =
      Some (fat, the (if fat12 d then GetCluster12 (m_fat d) c else GetCluster16 (m_fat d) c))"
    "if fat12 d then slots12 fat = slots12 (m_fat d) else slots16 fat = slots16 (m_fat d)"
    "(if fat12 d then GetCluster12 fat c else GetCluster16 fat c) = Some v"
    "\<And>x. unat x < (if fat12 d then slots12 (m_fat d) else slots16 (m_fat d)) \<Longrightarrow> x \<noteq> c \<Longrightarrow>
      (if fat12 d then GetCluster12 fat x else GetCluster16 fat x) = (if fat12 d then GetCluster12 (m_fat d) x else GetCluster16 (m_fat d) x)"
    using table_put [OF ok in_range_slot [OF ok c] v] by blast
  let ?d = "d\<lparr>m_fat := fat\<rparr>"
  have "unat (1 :: u32) < (if fat12 d then slots12 (m_fat d) else slots16 (m_fat d))" "1 \<noteq> c"
    using disk_okD(7) [OF ok] in_range_not_eoc(3) [OF ok c] by (auto split: if_splits)
  from f(4) [OF this] have eoc: "GetClusterNumberEOC ?d = GetClusterNumberEOC d"
    using disk_okD(3) [OF ok] by (auto simp: GetClusterNumberEOC_def)
  have ok': "disk_ok ?d" using ok f(2) eoc unfolding disk_ok_def by auto
  have "entry ?d x = (if x = c then v else entry d x)" if "in_range d x" for x
    using in_range_index(1) [OF ok that] in_range_index(1) [OF ok', of x] that f(3) f(4) [OF in_range_slot [OF ok that]]
    by (auto simp: entry_def)
  moreover have "SetCluster d c v = Some (?d, entry d c)"
    unfolding in_range_index(2) [OF ok c] f(1) by (simp add: entry_def in_range_index(1) [OF ok c])
  ultimately show ?thesis using that ok' eoc by (simp add: eoc_mark_def)
qed

lemma fits_values:
  assumes "disk_ok d"
  shows "fits d CLUSTER_FREE" "fits d CLUSTER_RESERVED" "fits d (eoc_mark d)" "in_range d c \<Longrightarrow> fits d c"
  using disk_okD(2,6) [OF assms] by (auto simp: fits_def cluster_numbers in_range_def fat12_def word_le_nat_alt split: if_splits)

text \<open>The place of a cluster in the image, without wrap-around.\<close>

lemma unat_sum3:
  fixes m :: u64 and x y :: u32
  assumes "unat m + unat x + unat y < 2 ^ 32"
  shows "unat (ucast (m + ucast x + ucast y) :: u32) = unat m + unat x + unat y"
proof -
  have u: "unat (ucast x :: u64) = unat x" "unat (ucast y :: u64) = unat y" using unat32_bound [of x] unat32_bound [of y] by (simp_all add: unsigned_ucast_eq take_bit_eq_mod)
  have "unat (m + ucast x) = unat m + unat x"
    using assms by (subst unat_add_lem [THEN iffD1]) (simp_all add: u)
  then have "unat (m + ucast x + ucast y) = unat m + unat x + unat y"
    using assms by (subst unat_add_lem [THEN iffD1]) (simp_all add: u)
  then show ?thesis using assms by (simp add: unsigned_ucast_eq take_bit_eq_mod)
qed

lemma cluster_place:
  assumes ok: "disk_ok d" and c: "in_range d c"
  shows "\<exists>ds a. GetDiskSize d = Some ds \<and> cluster_addr d c = Some a \<and> unat a = caddr d c \<and> a + GetClusterSize d \<le> ds \<and>
    caddr d c + csize d \<le> length (m_file d)"
proof -
  obtain fs n ds where g0: "fsDataSectors d = Some fs" "GetClusterCount d = Some n" "GetDiskSize d = Some ds"
    "data_start d + unat n * csize d \<le> unat ds" "unat ds \<le> length (m_file d)" using ok unfolding disk_ok_def by blast
  then have g: "fsDataSectors d = Some fs" "GetDiskSize d = Some ds" "data_start d + clusters d * csize d \<le> unat ds"
    "unat ds \<le> length (m_file d)" by (simp_all add: clusters_def)
  let ?ss = "SectorSize (GetBPB d)" and ?k = "unat c - 2"
  have k: "?k < clusters d" "?k + 1 \<le> clusters d" using c by (auto simp: in_range_def)
  have "(?k + 1) * csize d \<le> clusters d * csize d" by (rule mult_le_mono1 [OF k(2)])
  then have e: "caddr d c + csize d \<le> unat ds" using g(3) by (simp add: caddr_def)
  have ds: "unat ds < 2 ^ 32" using unat32_bound [of ds] by simp
  have sw: "unat (ucast ?ss :: u32) = unat ?ss" using unat16_bound [of ?ss] by (simp add: unsigned_ucast_eq take_bit_eq_mod)
  have "unat fs * unat ?ss \<le> data_start d" by (simp add: data_start_def g(1))
  then have "unat fs * unat ?ss < 2 ^ 32" using g(3) ds by linarith
  then have fs: "unat (fs * ucast ?ss) = unat fs * unat ?ss"
    using unat_mult_lem [of fs "ucast ?ss"] sw by simp
  have "?k * csize d \<le> caddr d c" by (simp add: caddr_def)
  then have "unat (c - CLUSTER_FIRST) * unat (GetClusterSize d) < 2 ^ 32"
    using e ds unfolding in_range_index(4) [OF ok c] csize_def by linarith
  then have kc: "unat ((c - CLUSTER_FIRST) * GetClusterSize d) = ?k * csize d"
    using unat_mult_lem [of "c - CLUSTER_FIRST" "GetClusterSize d"] in_range_index(4) [OF ok c] by (simp add: csize_def)
  have sum: "unat (m_base d) + unat fs * unat ?ss + ?k * csize d = caddr d c" by (simp add: caddr_def data_start_def g(1))
  let ?w = "m_base d + ucast (fs * ucast ?ss) + ucast ((c - CLUSTER_FIRST) * GetClusterSize d) :: u64"
  have w: "unat (ucast ?w :: u32) = caddr d c"
    using sum e ds unat_sum3 [of "m_base d" "fs * ucast ?ss" "(c - CLUSTER_FIRST) * GetClusterSize d"] by (simp add: fs kc)
  define a where "a = (ucast ?w :: u32)"
  have a: "cluster_addr d c = Some a" by (simp add: cluster_addr_def g(1) a_def)
  have "unat (a + GetClusterSize d) = caddr d c + csize d"
    using e ds w unat_add_lem [of a "GetClusterSize d"] by (simp add: csize_def a_def)
  then show ?thesis using g(2,4) a w e by (intro exI [of _ ds] exI [of _ a]) (auto simp: word_le_nat_alt a_def)
qed

lemma length_cdata: "disk_ok d \<Longrightarrow> in_range d c \<Longrightarrow> length (cdata d c) = csize d"
  using cluster_place [of d c] by (auto simp: cdata_def)

lemma read_ok:
  assumes ok: "disk_ok d" and c: "in_range d c" and b: "off + csize d \<le> length buf"
  shows "ReadCluster d buf off c = Some (True, take off buf @ cdata d c @ drop (off + csize d) buf)"
proof -
  obtain ds a where g: "GetDiskSize d = Some ds" "cluster_addr d c = Some a" "unat a = caddr d c" "a + GetClusterSize d \<le> ds"
    using cluster_place [OF ok c] by blast
  have "file_read (m_file d) (unat a) (unat (GetClusterSize d)) = cdata d c" by (simp add: file_read_def cdata_def g(3) csize_def)
  then show ?thesis
    using g b in_range_index(3) [OF ok c] disk_okD(1) [OF ok] length_cdata [OF ok c] by (simp add: ReadCluster_def patch_def)
qed

lemma cdata_other:
  assumes "a + n \<le> b \<or> b + n \<le> a" "length bs = n" "a + n \<le> length f"
  shows "take n (drop b (take a f @ bs @ drop (a + n) f)) = take n (drop b f)"
  using assms(1)
proof
  assume "a + n \<le> b"
  then show ?thesis using assms(2,3) by (simp add: min_def)
next
  assume b: "b + n \<le> a"
  then have "n \<le> length (take (a - b) (drop b f))" using assms(3) by simp
  then show ?thesis using b assms(3) by (simp add: drop_take min_absorb1)
qed

lemma write_ok:
  assumes ok: "disk_ok d" and c: "in_range d c" and b: "csize d \<le> length buf"
  obtains img where "WriteCluster d c buf = Some (True, d\<lparr>m_file := img\<rparr>)" "disk_ok (d\<lparr>m_file := img\<rparr>)"
    "\<forall>x. in_range d x \<longrightarrow> cdata (d\<lparr>m_file := img\<rparr>) x = (if x = c then take (csize d) buf else cdata d x)"
proof -
  obtain ds a where g: "GetDiskSize d = Some ds" "cluster_addr d c = Some a" "unat a = caddr d c" "a + GetClusterSize d \<le> ds"
    "caddr d c + csize d \<le> length (m_file d)" using cluster_place [OF ok c] by blast
  define img where "img = file_write (m_file d) (caddr d c) (take (csize d) buf)"
  have f: "img = take (caddr d c) (m_file d) @ take (csize d) buf @ drop (caddr d c + csize d) (m_file d)"
    using g(5) b by (simp add: img_def file_write_def min_def)
  have w: "WriteCluster d c buf = Some (True, d\<lparr>m_file := img\<rparr>)"
    using g(1,2,3,4) b in_range_index(3) [OF ok c] disk_okD(1) [OF ok] by (simp add: WriteCluster_def img_def csize_def)
  have "length img = length (m_file d)" using g(5) b by (simp add: f)
  then have ok': "disk_ok (d\<lparr>m_file := img\<rparr>)" using ok by (auto simp: disk_ok_def)
  have "cdata (d\<lparr>m_file := img\<rparr>) x = (if x = c then take (csize d) buf else cdata d x)" if x: "in_range d x" for x
  proof (cases "x = c")
    case True
    then show ?thesis using g(5) b by (simp add: cdata_def f)
  next
    case False
    then have "unat x - 2 \<noteq> unat c - 2" using x c by (auto simp: in_range_def word_unat_eq_iff)
    then have "unat x - 2 + 1 \<le> unat c - 2 \<or> unat c - 2 + 1 \<le> unat x - 2" by auto
    then have "(unat x - 2 + 1) * csize d \<le> (unat c - 2) * csize d \<or> (unat c - 2 + 1) * csize d \<le> (unat x - 2) * csize d"
      by (meson mult_le_mono1)
    then have "caddr d c + csize d \<le> caddr d x \<or> caddr d x + csize d \<le> caddr d c" by (auto simp: caddr_def)
    then have "take (csize d) (drop (caddr d x) img) = cdata d x"
      unfolding f cdata_def using b g(5) by (intro cdata_other) auto
    then show ?thesis using False by (simp add: cdata_def)
  qed
  with w ok' show ?thesis using that by blast
qed

subsection \<open>Free clusters\<close>

definition all_clusters :: "FatDisk \<Rightarrow> u32 list" where "all_clusters d = map (\<lambda>i. CLUSTER_FIRST + of_nat i) [0..<clusters d]"
definition Free :: "FatDisk \<Rightarrow> u32 set" where "Free d = {c. in_range d c \<and> entry d c = 0}"

lemma cluster_at:
  assumes "disk_ok d" "i < clusters d"
  shows "unat (CLUSTER_FIRST + of_nat i) = 2 + i" "in_range d (CLUSTER_FIRST + of_nat i)"
proof -
  have "unat (of_nat i :: u32) = i" using assms disk_okD(2) [OF assms(1)] by (simp add: unat_of_nat)
  then show u: "unat (CLUSTER_FIRST + of_nat i) = 2 + i"
    using assms disk_okD(2) [OF assms(1)] unat_add_lem [of CLUSTER_FIRST "of_nat i"] by (simp add: CLUSTER_FIRST_def)
  then show "in_range d (CLUSTER_FIRST + of_nat i)" using assms(2) by (simp add: in_range_def)
qed

lemma all_clusters_set:
  assumes "disk_ok d"
  shows "set (all_clusters d) = {c. in_range d c}" "distinct (all_clusters d)"
proof -
  have "c \<in> set (all_clusters d)" if "in_range d c" for c
  proof -
    have k: "unat c - 2 < clusters d" using that by (auto simp: in_range_def)
    have "unat (CLUSTER_FIRST + of_nat (unat c - 2)) = unat c"
      using cluster_at(1) [OF assms k] that unfolding in_range_def by linarith
    then have "CLUSTER_FIRST + of_nat (unat c - 2) = c" by (simp only: word_unat_eq_iff)
    with k show ?thesis unfolding all_clusters_def set_map by (intro image_eqI [of _ _ "unat c - 2"]) simp_all
  qed
  then show "set (all_clusters d) = {c. in_range d c}" using cluster_at(2) [OF assms] by (auto simp: all_clusters_def)
  have "inj_on (\<lambda>i. CLUSTER_FIRST + of_nat i :: u32) {0..<clusters d}"
    using cluster_at(1) [OF assms] by (intro inj_onI) (metis add_left_cancel atLeastLessThan_iff)
  then show "distinct (all_clusters d)" by (simp add: all_clusters_def distinct_map)
qed

lemma is_free:
  assumes "disk_ok d" "in_range d c"
  shows "IsClusterFree d c = Some (entry d c = 0)"
  using get_ok [OF assms] by (simp add: IsClusterFree_def CLUSTER_FREE_def)

lemma count_loop:
  assumes "disk_ok d" "i + k = clusters d"
  shows "count_clusters (IsClusterFree d) k (of_nat i) acc =
    Some (acc + of_nat (length (filter (\<lambda>c. entry d c = 0) (drop i (all_clusters d)))))"
  using assms(2)
proof (induction k arbitrary: i acc)
  case 0
  then show ?case by (simp add: all_clusters_def)
next
  case (Suc k)
  then have i: "i < clusters d" by simp
  then have "drop i (all_clusters d) = (CLUSTER_FIRST + of_nat i) # drop (Suc i) (all_clusters d)"
    by (subst Cons_nth_drop_Suc [symmetric]) (simp_all add: all_clusters_def)
  moreover have "count_clusters (IsClusterFree d) k (of_nat i + 1) a =
      Some (a + of_nat (length (filter (\<lambda>c. entry d c = 0) (drop (Suc i) (all_clusters d)))))" for a
    using Suc.IH [of "Suc i" a] Suc.prems by (simp add: add.commute)
  ultimately show ?case using is_free [OF assms(1) cluster_at(2) [OF assms(1) i]] by (simp add: add.assoc)
qed

lemma count_free:
  assumes "disk_ok d"
  shows "CountFreeClusters d = Some (of_nat (card (Free d)))" "card (Free d) \<le> clusters d"
proof -
  have "Free d = set (filter (\<lambda>c. entry d c = 0) (all_clusters d))" using all_clusters_set(1) [OF assms] by (auto simp: Free_def)
  then have c: "card (Free d) = length (filter (\<lambda>c. entry d c = 0) (all_clusters d))"
    using all_clusters_set(2) [OF assms] distinct_card [of "filter (\<lambda>c. entry d c = 0) (all_clusters d)"] by simp
  then show "card (Free d) \<le> clusters d" using length_filter_le [of _ "all_clusters d"] by (auto simp: all_clusters_def)
  show "CountFreeClusters d = Some (of_nat (card (Free d)))"
    using count_loop [OF assms, of 0 "clusters d" 0] disk_okD(1,2) [OF assms] c by (simp add: CountFreeClusters_def unat_of_nat)
qed

lemma find_loop:
  assumes "disk_ok d" "i + k = clusters d" "\<exists>c \<in> set (drop i (all_clusters d)). entry d c = 0"
  shows "\<exists>c. find_free d k (of_nat i) = Some c \<and> c \<in> Free d"
  using assms(2,3)
proof (induction k arbitrary: i)
  case 0
  then show ?case by (simp add: all_clusters_def)
next
  case (Suc k)
  then have i: "i < clusters d" by simp
  then have e: "drop i (all_clusters d) = (CLUSTER_FIRST + of_nat i) # drop (Suc i) (all_clusters d)"
    by (subst Cons_nth_drop_Suc [symmetric]) (simp_all add: all_clusters_def)
  show ?case
  proof (cases "entry d (CLUSTER_FIRST + of_nat i) = 0")
    case True
    then show ?thesis using is_free [OF assms(1) cluster_at(2) [OF assms(1) i]] cluster_at(2) [OF assms(1) i] by (simp add: Free_def)
  next
    case False
    then show ?thesis
      using is_free [OF assms(1) cluster_at(2) [OF assms(1) i]] Suc.IH [of "Suc i"] Suc.prems e by (simp add: add.commute)
  qed
qed

lemma find_free_ok:
  assumes "disk_ok d" "Free d \<noteq> {}"
  obtains c where "FindNextFreeCluster d = Some c" "in_range d c" "entry d c = 0"
proof -
  have "\<exists>c \<in> set (drop 0 (all_clusters d)). entry d c = 0"
    using assms(2) all_clusters_set(1) [OF assms(1)] by (auto simp: Free_def)
  from find_loop [OF assms(1) _ this, of "clusters d"] obtain c where "find_free d (clusters d) 0 = Some c" "c \<in> Free d" by auto
  then show ?thesis using that disk_okD(1,2) [OF assms(1)] by (simp add: FindNextFreeCluster_def Free_def unat_of_nat)
qed

subsection \<open>Chains\<close>

text \<open>The clusters of a list are linked in the table, each to the next.\<close>

fun linked :: "FatDisk \<Rightarrow> u32 list \<Rightarrow> bool" where
  "linked d [] \<longleftrightarrow> True"
| "linked d [c] \<longleftrightarrow> True"
| "linked d (c # e # cs) \<longleftrightarrow> entry d c = e \<and> linked d (e # cs)"

lemma linked_cong: "\<forall>c \<in> set cs. entry d' c = entry d c \<Longrightarrow> linked d' cs = linked d cs"
  by (induction cs rule: induct_list012) auto

lemma linked_tl: "linked d (c # cs) \<Longrightarrow> linked d cs"
  by (cases cs) auto

text \<open>A chain of a file: it starts at the cluster, stays in range, visits no cluster twice, and ends with an end mark (or a free or bad entry).\<close>

definition chain :: "FatDisk \<Rightarrow> u32 \<Rightarrow> u32 list \<Rightarrow> bool" where
  "chain d c cs \<longleftrightarrow> cs \<noteq> [] \<and> hd cs = c \<and> distinct cs \<and> (\<forall>x \<in> set cs. in_range d x) \<and> linked d cs \<and> is_eoc d (entry d (last cs))"

lemma chain_loop_ok:
  assumes "disk_ok d" "linked d (c # cs)" "\<forall>x \<in> set (c # cs). in_range d x" "is_eoc d (entry d (last (c # cs)))"
  shows "chain_loop d c k = Some (k + of_nat (length (c # cs)))"
  using assms(2-)
proof (induction cs arbitrary: c k)
  case Nil
  then show ?case using get_ok [OF assms(1), of c] eoc_of(1) [OF assms(1)] by (subst chain_loop.simps) simp
next
  case (Cons e cs)
  then have "chain_loop d e (k + 1) = Some (k + 1 + of_nat (length (e # cs)))" by (intro Cons.IH) auto
  then show ?case
    using Cons.prems get_ok [OF assms(1), of c] eoc_of(1) [OF assms(1)] in_range_not_eoc [OF assms(1), of e]
    by (subst chain_loop.simps) (simp add: algebra_simps)
qed

lemma count_chain:
  assumes "disk_ok d" "chain d (ucast (FirstCluster f)) cs" "\<not> IsRoot f"
  shows "CountClusters d f = Some (of_nat (length cs))"
proof -
  obtain rest where cs: "cs = ucast (FirstCluster f) # rest" using assms(2) by (cases cs) (auto simp: chain_def)
  have "(ucast (FirstCluster f) :: u32) \<noteq> 0" using assms(2) in_range_not_eoc(2) [OF assms(1)] by (auto simp: cs chain_def)
  then show ?thesis
    using assms(2,3) chain_loop_ok [OF assms(1), of "ucast (FirstCluster f)" rest 0]
    by (auto simp: CountClusters_def CLUSTER_FREE_def cs chain_def)
qed

lemma read_chain_ok:
  assumes "disk_ok d" "linked d cs" "\<forall>x \<in> set cs. in_range d x" "cs \<noteq> []" "is_eoc d (entry d (last cs))"
    "(i + length cs) * csize d \<le> length buf"
  shows "read_chain d buf i (hd cs) =
    Some (True, take (i * csize d) buf @ concat (map (cdata d) cs) @ drop ((i + length cs) * csize d) buf)"
  using assms(2-)
proof (induction cs arbitrary: i buf)
  case (Cons c cs)
  have c: "in_range d c" using Cons.prems by simp
  let ?b = "take (i * csize d) buf @ cdata d c @ drop (i * csize d + csize d) buf"
  have len: "i * csize d + csize d \<le> length buf" using Cons.prems(5) by (simp add: algebra_simps)
  have l: "length ?b = length buf" "length (cdata d c) = csize d" using len length_cdata [OF assms(1) c] by simp_all
  have r: "ReadCluster d buf (i * unat (GetClusterSize d)) c = Some (True, ?b)"
    using read_ok [OF assms(1) c len] by (simp add: csize_def)
  show ?case
  proof (cases cs)
    case Nil
    have "read_chain d ?b (i + 1) (entry d c) = Some (True, ?b)"
      using Cons.prems Nil eoc_of(1) [OF assms(1)] by (subst read_chain.simps) simp
    then show ?thesis
      using Nil r get_ok [OF assms(1) c] in_range_not_eoc(1) [OF assms(1) c] eoc_of(1) [OF assms(1)]
      by (subst read_chain.simps) (simp add: algebra_simps)
  next
    case (Cons e es)
    have "read_chain d ?b (i + 1) (hd cs) = Some (True, take ((i + 1) * csize d) ?b @ concat (map (cdata d) cs) @ drop ((i + 1 + length cs) * csize d) ?b)"
      using Cons.prems Cons l by (intro Cons.IH) (auto simp: algebra_simps dest: linked_tl)
    moreover have "take ((i + 1) * csize d) ?b = take (i * csize d) buf @ cdata d c" using l len by (simp add: min_def algebra_simps)
    moreover have "drop ((i + 1 + length cs) * csize d) ?b = drop ((i + length (c # cs)) * csize d) buf"
      using l len by (simp add: algebra_simps)
    ultimately show ?thesis
      using Cons Cons.prems r get_ok [OF assms(1) c] in_range_not_eoc(1) [OF assms(1) c] eoc_of(1) [OF assms(1)]
      by (subst read_chain.simps) simp
  qed
qed simp

subsection \<open>The rounds of the writing loop\<close>

definition same_disk :: "FatDisk \<Rightarrow> FatDisk \<Rightarrow> bool" where
  "same_disk d d' \<longleftrightarrow> (\<exists>fat img. d' = d\<lparr>m_fat := fat, m_file := img\<rparr>)"

lemma same_disk_refl [simp]: "same_disk d d"
  unfolding same_disk_def by (intro exI [of _ "m_fat d"] exI [of _ "m_file d"]) simp

lemma same_disk_trans: "same_disk d d1 \<Longrightarrow> same_disk d1 d2 \<Longrightarrow> same_disk d d2"
proof -
  assume "same_disk d d1" "same_disk d1 d2"
  then obtain fat img fat2 img2 where "d1 = d\<lparr>m_fat := fat, m_file := img\<rparr>" "d2 = d1\<lparr>m_fat := fat2, m_file := img2\<rparr>"
    by (auto simp: same_disk_def)
  then have "d2 = d\<lparr>m_fat := fat2, m_file := img2\<rparr>" by simp
  then show ?thesis unfolding same_disk_def by blast
qed

lemma same_diskD:
  assumes "same_disk d d'"
  shows "in_range d' = in_range d" "csize d' = csize d" "clusters d' = clusters d" "is_eoc d' = is_eoc d" "GetClusterSize d' = GetClusterSize d"
  using assms by (auto simp: same_disk_def)

text \<open>One entry and the data of one cluster changed.\<close>

definition stored :: "FatDisk \<Rightarrow> u32 \<Rightarrow> u32 \<Rightarrow> u8 list \<Rightarrow> FatDisk \<Rightarrow> bool" where
  "stored d c v bs d' \<longleftrightarrow> disk_ok d' \<and> same_disk d d' \<and> eoc_mark d' = eoc_mark d \<and>
     (\<forall>x. in_range d x \<longrightarrow> entry d' x = (if x = c then v else entry d x) \<and> cdata d' x = (if x = c then bs else cdata d x))"

lemma storedD:
  assumes "stored d c v bs d'"
  shows "disk_ok d'" "same_disk d d'" "eoc_mark d' = eoc_mark d" "in_range d x \<Longrightarrow> entry d' x = (if x = c then v else entry d x)"
    "in_range d x \<Longrightarrow> cdata d' x = (if x = c then bs else cdata d x)"
  using assms by (auto simp: stored_def)

lemma set_stored:
  assumes ok: "disk_ok d" and s: "stored d c v bs d1" and c: "in_range d c" and w: "fits d1 w"
  obtains d2 where "SetCluster d1 c w = Some (d2, v)" "stored d c w bs d2"
proof -
  have c1: "in_range d1 c" using c same_diskD(1) [OF storedD(2) [OF s]] by simp
  obtain fat where f: "SetCluster d1 c w = Some (d1\<lparr>m_fat := fat\<rparr>, entry d1 c)" "disk_ok (d1\<lparr>m_fat := fat\<rparr>)"
    "eoc_mark (d1\<lparr>m_fat := fat\<rparr>) = eoc_mark d1" "\<forall>x. in_range d1 x \<longrightarrow> entry (d1\<lparr>m_fat := fat\<rparr>) x = (if x = c then w else entry d1 x)"
    by (rule set_ok [OF storedD(1) [OF s] c1 w])
  have "same_disk d1 (d1\<lparr>m_fat := fat\<rparr>)" unfolding same_disk_def by (intro exI [of _ fat] exI [of _ "m_file d1"]) simp
  then have "stored d c w bs (d1\<lparr>m_fat := fat\<rparr>)"
    using s f(2-4) same_diskD(1) [OF storedD(2) [OF s]] unfolding stored_def by (auto intro: same_disk_trans)
  then show ?thesis using that f(1) storedD(4) [OF s c] by simp
qed

definition chunk :: "FatDisk \<Rightarrow> u32 \<Rightarrow> nat \<Rightarrow> u8 list \<Rightarrow> u8 list" where
  "chunk d c sz pBuf = take sz pBuf @ drop sz (cdata d c)"

lemma round_prefix:
  assumes ok: "disk_ok d" and c: "in_range d c" and b: "length buf = csize d" and i: "i < nc"
    and sz: "sz = min (fs - bw) (GetClusterSize d)" "unat sz \<le> length pBuf"
  obtains d1 where "stored d c 1 (chunk d c (unat sz) pBuf) d1"
    "write_clusters (Suc k) i nc fs c buf pBuf bw d =
      (if i = nc - 1 then do {
         eoc \<leftarrow> GetClusterNumberEOC d1;
         (d2, _) \<leftarrow> SetCluster d1 c eoc;
         write_clusters k (i + 1) nc fs (entry d c) (chunk d c (unat sz) pBuf) (drop (unat sz) pBuf) (bw + sz) d2
       }
       else do {
         eoc \<leftarrow> IsClusterNumberEOC d1 (entry d c);
         next \<leftarrow> (if eoc \<or> entry d c = CLUSTER_FREE then FindNextFreeCluster d1 else Some (entry d c));
         (d2, _) \<leftarrow> SetCluster d1 c next;
         write_clusters k (i + 1) nc fs next (chunk d c (unat sz) pBuf) (drop (unat sz) pBuf) (bw + sz) d2
       })"
proof -
  obtain fat where f: "SetCluster d c CLUSTER_RESERVED = Some (d\<lparr>m_fat := fat\<rparr>, entry d c)" "disk_ok (d\<lparr>m_fat := fat\<rparr>)"
    "eoc_mark (d\<lparr>m_fat := fat\<rparr>) = eoc_mark d"
    "\<forall>x. in_range d x \<longrightarrow> entry (d\<lparr>m_fat := fat\<rparr>) x = (if x = c then CLUSTER_RESERVED else entry d x)"
    by (rule set_ok [OF ok c fits_values(2) [OF ok]])
  let ?d = "d\<lparr>m_fat := fat\<rparr>" and ?ch = "chunk d c (unat sz) pBuf"
  have le: "unat sz \<le> csize d" using sz(1) by (simp add: csize_def min_def word_le_nat_alt)
  have lc: "length (cdata d c) = csize d" by (rule length_cdata [OF ok c])
  have r: "ReadCluster ?d buf 0 c = Some (True, cdata d c)"
    using read_ok [OF f(2), of c 0 buf] c b by simp
  have p: "patch (cdata d c) 0 (take (unat sz) pBuf) = Some ?ch" using le lc sz(2) by (simp add: patch_def chunk_def)
  have lch: "length ?ch = csize d" using le lc sz(2) by (simp add: chunk_def)
  obtain img where w: "WriteCluster ?d c ?ch = Some (True, ?d\<lparr>m_file := img\<rparr>)" "disk_ok (?d\<lparr>m_file := img\<rparr>)"
    "\<forall>x. in_range ?d x \<longrightarrow> cdata (?d\<lparr>m_file := img\<rparr>) x = (if x = c then take (csize ?d) ?ch else cdata ?d x)"
    by (rule write_ok [OF f(2), of c ?ch]) (use c lch in simp_all)
  have "same_disk d (?d\<lparr>m_file := img\<rparr>)" unfolding same_disk_def by blast
  then have "stored d c 1 ?ch (?d\<lparr>m_file := img\<rparr>)"
    using f(3,4) w(2,3) lch by (simp add: stored_def CLUSTER_RESERVED_def)
  then show ?thesis
  proof (rule that)
    show "write_clusters (Suc k) i nc fs c buf pBuf bw d =
      (if i = nc - 1 then do {
         eoc \<leftarrow> GetClusterNumberEOC (?d\<lparr>m_file := img\<rparr>);
         (d2, _) \<leftarrow> SetCluster (?d\<lparr>m_file := img\<rparr>) c eoc;
         write_clusters k (i + 1) nc fs (entry d c) ?ch (drop (unat sz) pBuf) (bw + sz) d2
       }
       else do {
         eoc \<leftarrow> IsClusterNumberEOC (?d\<lparr>m_file := img\<rparr>) (entry d c);
         next \<leftarrow> (if eoc \<or> entry d c = CLUSTER_FREE then FindNextFreeCluster (?d\<lparr>m_file := img\<rparr>) else Some (entry d c));
         (d2, _) \<leftarrow> SetCluster (?d\<lparr>m_file := img\<rparr>) c next;
         write_clusters k (i + 1) nc fs next ?ch (drop (unat sz) pBuf) (bw + sz) d2
       })"
      using i [folded not_le] get_ok [OF ok c] eoc_of(1) [OF ok, of c] in_range_not_eoc(1) [OF ok c] f(1) r p w(1) sz(2)
      by (simp add: Let_def sz(1) [symmetric])
  qed
qed

declare write_clusters.simps(2) [simp del]

text \<open>The last round of writing, and one that goes on with the next cluster of the chain or with a free one.\<close>

lemma round_last:
  assumes "disk_ok d" "in_range d c" "length buf = csize d" "i < nc" "i = nc - 1"
    "sz = min (fs - bw) (GetClusterSize d)" "unat sz \<le> length pBuf"
  obtains d' where "stored d c (eoc_mark d) (chunk d c (unat sz) pBuf) d'"
    "write_clusters (Suc k) i nc fs c buf pBuf bw d =
      write_clusters k (i + 1) nc fs (entry d c) (chunk d c (unat sz) pBuf) (drop (unat sz) pBuf) (bw + sz) d'"
proof -
  obtain d1 where d1: "stored d c 1 (chunk d c (unat sz) pBuf) d1"
    "write_clusters (Suc k) i nc fs c buf pBuf bw d = do {
       eoc \<leftarrow> GetClusterNumberEOC d1;
       (d2, _) \<leftarrow> SetCluster d1 c eoc;
       write_clusters k (i + 1) nc fs (entry d c) (chunk d c (unat sz) pBuf) (drop (unat sz) pBuf) (bw + sz) d2
     }"
    by (rule round_prefix [OF assms(1-4,6,7), of k]) (use assms(5) in \<open>simp\<close>)
  obtain d2 where d2: "SetCluster d1 c (eoc_mark d1) = Some (d2, 1)" "stored d c (eoc_mark d1) (chunk d c (unat sz) pBuf) d2"
    by (rule set_stored [OF assms(1) d1(1) assms(2) fits_values(3) [OF storedD(1) [OF d1(1)]]])
  show ?thesis
    by (rule that [of d2]) (use d2 d1(2) storedD(3) [OF d1(1)] disk_okD(5) [OF storedD(1) [OF d1(1)]] in \<open>simp_all\<close>)
qed

lemma round_next:
  assumes ok: "disk_ok d" and c: "in_range d c" and "length buf = csize d" "i < nc" "i \<noteq> nc - 1"
    "sz = min (fs - bw) (GetClusterSize d)" "unat sz \<le> length pBuf"
    and nxt: "if is_eoc d (entry d c) then Free d - {c} \<noteq> {} else in_range d (entry d c)"
  obtains d' e where "stored d c e (chunk d c (unat sz) pBuf) d'" "if is_eoc d (entry d c) then e \<in> Free d - {c} else e = entry d c"
    "write_clusters (Suc k) i nc fs c buf pBuf bw d =
      write_clusters k (i + 1) nc fs e (chunk d c (unat sz) pBuf) (drop (unat sz) pBuf) (bw + sz) d'"
proof -
  let ?ch = "chunk d c (unat sz) pBuf"
  obtain d1 where d1: "stored d c 1 ?ch d1"
    "write_clusters (Suc k) i nc fs c buf pBuf bw d = do {
       eoc \<leftarrow> IsClusterNumberEOC d1 (entry d c);
       next \<leftarrow> (if eoc \<or> entry d c = CLUSTER_FREE then FindNextFreeCluster d1 else Some (entry d c));
       (d2, _) \<leftarrow> SetCluster d1 c next;
       write_clusters k (i + 1) nc fs next ?ch (drop (unat sz) pBuf) (bw + sz) d2
     }"
    by (rule round_prefix [OF assms(1-4,6,7), of k]) (use assms(5) in \<open>simp\<close>)
  note same = same_diskD [OF storedD(2) [OF d1(1)]] and ok1 = storedD(1) [OF d1(1)]
  have free: "Free d1 = Free d - {c}"
    using storedD(4) [OF d1(1)] c by (auto simp: Free_def same split: if_splits)
  have eoc: "IsClusterNumberEOC d1 (entry d c) = Some (is_eoc d (entry d c))" using eoc_of(1) [OF ok1] same by simp
  have "\<exists>e. (if is_eoc d (entry d c) then e \<in> Free d - {c} else e = entry d c) \<and> in_range d1 e \<and>
      (if is_eoc d (entry d c) \<or> entry d c = CLUSTER_FREE then FindNextFreeCluster d1 else Some (entry d c)) = Some e"
  proof (cases "is_eoc d (entry d c)")
    case True
    then obtain e where "FindNextFreeCluster d1 = Some e" "in_range d1 e" "entry d1 e = 0"
      using find_free_ok [OF ok1] nxt free by auto
    moreover from this have "e \<in> Free d - {c}" unfolding free [symmetric] by (simp add: Free_def)
    ultimately show ?thesis using True by simp
  next
    case False
    then have "entry d c \<noteq> CLUSTER_FREE" using eoc_marks(1) [OF ok] by (auto simp: CLUSTER_FREE_def)
    then show ?thesis using False nxt same by simp
  qed
  then obtain e where e: "if is_eoc d (entry d c) then e \<in> Free d - {c} else e = entry d c" "in_range d1 e"
    "(if is_eoc d (entry d c) \<or> entry d c = CLUSTER_FREE then FindNextFreeCluster d1 else Some (entry d c)) = Some e" by blast
  obtain d2 where d2: "SetCluster d1 c e = Some (d2, 1)" "stored d c e ?ch d2"
    by (rule set_stored [OF ok d1(1) c fits_values(4) [OF ok1 e(2)]])
  show ?thesis
    by (rule that [OF d2(2) e(1)]) (simp add: d1(2) eoc e(3) d2(1))
qed

text \<open>The rounds that free what is left of a chain.\<close>

lemma free_phase:
  assumes "disk_ok d" "linked d cs" "distinct cs" "\<forall>x \<in> set cs. in_range d x" "cs \<noteq> [] \<longrightarrow> c = hd cs" "unat nc \<le> unat i" "unat i + length cs < 2 ^ 32"
  shows "\<exists>d'. write_clusters (length cs) i nc fs c buf pBuf bw d = Some (True, d') \<and> disk_ok d' \<and> same_disk d d' \<and> eoc_mark d' = eoc_mark d \<and>
    (\<forall>x. in_range d x \<longrightarrow> entry d' x = (if x \<in> set cs then 0 else entry d x) \<and> cdata d' x = cdata d x)"
  using assms
proof (induction cs arbitrary: d c i)
  case (Cons x cs)
  have c: "c = x" "in_range d c" using Cons.prems by auto
  obtain fat where f: "SetCluster d c CLUSTER_FREE = Some (d\<lparr>m_fat := fat\<rparr>, entry d c)" "disk_ok (d\<lparr>m_fat := fat\<rparr>)"
    "eoc_mark (d\<lparr>m_fat := fat\<rparr>) = eoc_mark d" "\<forall>x. in_range d x \<longrightarrow> entry (d\<lparr>m_fat := fat\<rparr>) x = (if x = c then CLUSTER_FREE else entry d x)"
    by (rule set_ok [OF Cons.prems(1) c(2) fits_values(1) [OF Cons.prems(1)]])
  let ?d = "d\<lparr>m_fat := fat\<rparr>"
  have i: "unat (i + 1) = unat i + 1" using Cons.prems(7) unat_add_lem [of i 1] by simp
  have l: "linked ?d cs" using linked_tl [OF Cons.prems(2)] f(4) c(1) Cons.prems(3,4) by (subst linked_cong [of cs _ d]) auto
  have "cs \<noteq> [] \<longrightarrow> entry d c = hd cs" using Cons.prems(2) c(1) by (cases cs) auto
  then obtain d' where d': "write_clusters (length cs) (i + 1) nc fs (entry d c) buf pBuf bw ?d = Some (True, d')" "disk_ok d'" "same_disk ?d d'"
    "eoc_mark d' = eoc_mark ?d" "\<forall>y. in_range d y \<longrightarrow> entry d' y = (if y \<in> set cs then 0 else entry ?d y) \<and> cdata d' y = cdata d y"
    using Cons.IH [OF f(2) l, of "entry d c" "i + 1"] Cons.prems(3,4,6,7) i by auto
  have "same_disk d ?d" unfolding same_disk_def by (intro exI [of _ fat] exI [of _ "m_file d"]) simp
  then have "same_disk d d'" by (rule same_disk_trans [OF _ d'(3)])
  moreover have "i \<ge> nc" using Cons.prems(6) by (simp add: word_le_nat_alt)
  ultimately show ?case
    using d' f(1,3,4) get_ok [OF Cons.prems(1) c(2)] c(1) Cons.prems(3)
    by (intro exI [of _ d']) (auto simp: CLUSTER_FREE_def write_clusters.simps(2))
qed simp

text \<open>
  What \<open>m + 1\<close> rounds of writing to the chain \<open>old\<close> leave: the new chain is the beginning of the old one, extended by free clusters, ends with the end mark and holds the
  bytes \<open>bs\<close>; nothing else changes.
\<close>

definition written_to :: "FatDisk \<Rightarrow> u32 list \<Rightarrow> nat \<Rightarrow> u8 list \<Rightarrow> u32 list \<Rightarrow> FatDisk \<Rightarrow> bool" where
  "written_to d old m bs cs d' \<longleftrightarrow> disk_ok d' \<and> same_disk d d' \<and> eoc_mark d' = eoc_mark d \<and> length cs = m + 1 \<and> distinct cs \<and>
     (\<forall>x \<in> set cs. in_range d x) \<and> linked d' cs \<and> entry d' (last cs) = eoc_mark d \<and>
     (\<exists>extra. cs = take (m + 1) old @ extra \<and> set extra \<subseteq> Free d - {hd old}) \<and> take (length bs) (concat (map (cdata d') cs)) = bs \<and>
     (\<forall>x. in_range d x \<longrightarrow> x \<notin> set cs \<longrightarrow> entry d' x = entry d x \<and> cdata d' x = cdata d x)"

lemma bytes_left:
  fixes fs bw :: u32
  assumes "unat fs = unat bw + L"
  shows "unat (fs - bw) = L" "unat (min (fs - bw) s) = min L (unat s)"
proof -
  have "bw \<le> fs" using assms by (simp add: word_le_nat_alt)
  then show u: "unat (fs - bw) = L" using assms by (simp add: unat_sub)
  then show "unat (min (fs - bw) s) = min L (unat s)" by (simp add: min_def word_le_nat_alt)
qed

lemma write_phase_last:
  assumes ok: "disk_ok d" and r: "in_range d c" and b: "length buf = csize d" and L: "L \<le> length pBuf" "unat fs = unat bw + L" "L \<le> csize d"
    and nc: "unat nc = unat i + 1"
  obtains d' buf' where "write_clusters (Suc k) i nc fs c buf pBuf bw d = write_clusters k nc nc fs (entry d c) buf' (drop L pBuf) fs d'"
    "written_to d (c # rest) 0 (take L pBuf) [c] d'"
proof -
  let ?sz = "min (fs - bw) (GetClusterSize d)"
  have sz: "unat ?sz = L" using bytes_left [OF L(2)] L(3) by (simp add: csize_def)
  then have le: "unat ?sz \<le> length pBuf" using L(1) by simp
  have bw: "bw + ?sz = fs" using L(2) sz unat_add_lem [of bw ?sz] unat32_bound [of fs] by (auto simp: word_unat_eq_iff)
  have i: "nc = i + 1" using nc unat_add_lem [of i 1] unat32_bound [of nc] by (auto simp: word_unat_eq_iff)
  then have i': "i < nc" "i = nc - 1" using nc by (simp_all add: word_less_nat_alt)
  obtain d' where d': "stored d c (eoc_mark d) (chunk d c (unat ?sz) pBuf) d'"
    "write_clusters (Suc k) i nc fs c buf pBuf bw d =
      write_clusters k (i + 1) nc fs (entry d c) (chunk d c (unat ?sz) pBuf) (drop (unat ?sz) pBuf) (bw + ?sz) d'"
    using round_last [OF ok r b i' refl le, of k] by blast
  have "written_to d (c # rest) 0 (take L pBuf) [c] d'"
    using d'(1) r L(1) unfolding written_to_def by (auto simp: stored_def sz chunk_def min_absorb2)
  then show ?thesis using that d'(2) unfolding sz bw i [symmetric] by blast
qed

lemma write_phase_step:
  assumes w: "written_to d1 (e # rest') m (drop (csize d) bs) cs d'" and s: "stored d c e ch d1" and r: "in_range d c" "in_range d e" "c \<noteq> e"
    and ch: "take (csize d) bs = ch" "length ch = csize d" and rest: "c \<notin> set (e # rest')"
    and old: "(rest = e # rest' \<and> entry d e \<noteq> 0) \<or> (rest = [] \<and> rest' = [] \<and> e \<in> Free d)"
  shows "written_to d (c # rest) (Suc m) bs (c # cs) d'"
proof -
  note same = same_diskD [OF storedD(2) [OF s]]
  obtain extra where e: "cs = take (m + 1) (e # rest') @ extra" "set extra \<subseteq> Free d1 - {e}" using w by (auto simp: written_to_def)
  have ne: "e \<noteq> 0" using in_range_not_eoc(2) [of d1 e] w r(2) s same by (auto simp: stored_def)
  have free: "Free d1 \<subseteq> Free d - {c}" using storedD(4) [OF s] r ne by (auto simp: Free_def same split: if_splits)
  have hd: "hd cs = e" "cs \<noteq> []" using e(1) by auto
  have cn: "c \<notin> set cs" using e free rest set_take_subset [of "m + 1" "e # rest'"] by fastforce
  have c': "entry d' c = e" "cdata d' c = ch"
    using w cn r(1) storedD(4,5) [OF s r(1)] by (auto simp: written_to_def same)
  have "\<exists>x. c # cs = take (Suc m + 1) (c # rest) @ x \<and> set x \<subseteq> Free d - {c}"
    using old
  proof
    assume "rest = e # rest' \<and> entry d e \<noteq> 0"
    then show ?thesis using e free by (intro exI [of _ extra]) auto
  next
    assume "rest = [] \<and> rest' = [] \<and> e \<in> Free d"
    then show ?thesis using e free r(3) by (intro exI [of _ cs]) auto
  qed
  moreover have "take (length bs) (concat (map (cdata d') (c # cs))) = bs"
  proof -
    have l: "csize d \<le> length bs" using ch by (metis length_take min.absorb_iff2 min.commute)
    then have "take (length bs) (ch @ concat (map (cdata d') cs)) = ch @ take (length bs - csize d) (concat (map (cdata d') cs))" using ch(2) by simp
    also have "take (length bs - csize d) (concat (map (cdata d') cs)) = drop (csize d) bs" using w by (simp add: written_to_def)
    finally show ?thesis using ch(1) c'(2) by (metis append_take_drop_id concat.simps(2) list.simps(9))
  qed
  moreover have "linked d' (c # cs)" using w hd c'(1) by (cases cs) (auto simp: written_to_def)
  moreover have "same_disk d d'" using same_disk_trans [OF storedD(2) [OF s]] w by (simp add: written_to_def)
  moreover have "entry d' x = entry d x \<and> cdata d' x = cdata d x" if "in_range d x" "x \<notin> set (c # cs)" for x
    using that w storedD(4,5) [OF s that(1)] by (auto simp: written_to_def same)
  ultimately show ?thesis
    using w hd cn r storedD(3) [OF s] unfolding written_to_def by (auto simp: same)
qed

lemma write_phase:
  assumes "disk_ok d" "linked d (c # rest)" "distinct (c # rest)" "\<forall>x \<in> set (c # rest). in_range d x" "\<forall>x \<in> set rest. entry d x \<noteq> 0"
    "is_eoc d (entry d (last (c # rest)))" "m \<le> length rest + card (Free d - {c})" "length buf = csize d" "L \<le> length pBuf"
    "unat fs = unat bw + L" "m * csize d < L" "L \<le> (m + 1) * csize d" "unat nc = unat i + m + 1"
  shows "\<exists>cs d' o1 buf'. write_clusters (Suc m + k) i nc fs c buf pBuf bw d = write_clusters k nc nc fs o1 buf' (drop L pBuf) fs d' \<and>
    written_to d (c # rest) m (take L pBuf) cs d' \<and> (m < length (c # rest) \<longrightarrow> o1 = entry d ((c # rest) ! m))"
  using assms
proof (induction m arbitrary: d c rest buf L pBuf bw i)
  case 0
  then have r: "in_range d c" by simp
  obtain d' buf' where "write_clusters (Suc k) i nc fs c buf pBuf bw d = write_clusters k nc nc fs (entry d c) buf' (drop L pBuf) fs d'"
    "written_to d (c # rest) 0 (take L pBuf) [c] d'"
    by (rule write_phase_last [OF 0(1) r 0(8-10), where nc = nc and i = i]) (use 0 in simp_all)
  then show ?case by auto
next
  case (Suc m)
  let ?cs = "csize d" and ?sz = "min (fs - bw) (GetClusterSize d)"
  have ok: "disk_ok d" and r: "in_range d c" and lb: "length buf = csize d" using Suc.prems by auto
  have L: "?cs \<le> L" "L - ?cs \<le> length (drop ?cs pBuf)" "m * ?cs < L - ?cs" "L - ?cs \<le> (m + 1) * ?cs" using Suc.prems(9,11,12) by auto
  have sz: "unat ?sz = ?cs" using bytes_left(2) [OF Suc.prems(10)] L(1) by (simp add: csize_def)
  have bw: "unat (bw + ?sz) = unat bw + ?cs" using Suc.prems(10) L(1) sz unat_add_lem [of bw ?sz] unat32_bound [of fs] by simp
  have i1: "unat (i + 1) = unat i + 1" using Suc.prems(13) unat_add_lem [of i 1] unat32_bound [of nc] by simp
  have i: "i < nc" "i \<noteq> nc - 1"
  proof -
    show lt: "i < nc" using Suc.prems(13) by (simp add: word_less_nat_alt)
    have "i + 1 \<noteq> nc" using Suc.prems(13) i1 by auto
    then show "i \<noteq> nc - 1" by auto
  qed
  have eo: "is_eoc d (entry d c) \<longleftrightarrow> rest = []"
    using Suc.prems(2,4,6) in_range_not_eoc(1) [OF ok] by (cases rest) auto
  have nxt: "if is_eoc d (entry d c) then Free d - {c} \<noteq> {} else in_range d (entry d c)"
  proof (cases rest)
    case Nil
    then have "Suc m \<le> card (Free d - {c})" using Suc.prems(7) by (simp only: list.size(3) add_0)
    then have "Free d - {c} \<noteq> {}" by (metis card.empty not_less_eq_eq zero_le)
    then show ?thesis using Nil eo by simp
  next
    case (Cons e es)
    then show ?thesis using Suc.prems(2,4) eo by simp
  qed
  have le: "unat ?sz \<le> length pBuf" using sz L(1) Suc.prems(9) by simp
  obtain d1 e where d1: "stored d c e (chunk d c (unat ?sz) pBuf) d1" "if is_eoc d (entry d c) then e \<in> Free d - {c} else e = entry d c"
    "write_clusters (Suc (Suc m + k)) i nc fs c buf pBuf bw d =
      write_clusters (Suc m + k) (i + 1) nc fs e (chunk d c (unat ?sz) pBuf) (drop (unat ?sz) pBuf) (bw + ?sz) d1"
    by (rule round_next [OF ok r lb i refl le nxt, of "Suc m + k"])
  have ch: "chunk d c (unat ?sz) pBuf = take ?cs pBuf" using length_cdata [OF ok r] by (simp add: chunk_def sz)
  have lch: "length (take ?cs pBuf) = ?cs" using L(1) Suc.prems(9) by simp
  note same = same_diskD [OF storedD(2) [OF d1(1)]] and ok1 = storedD(1) [OF d1(1)]
  define rest' where "rest' = tl rest"
  have cs: "(rest = e # rest' \<and> entry d e \<noteq> 0) \<or> (rest = [] \<and> rest' = [] \<and> e \<in> Free d)"
    using d1(2) eo Suc.prems(2,5) by (cases rest) (auto simp: rest'_def)
  have re: "in_range d e" "c \<noteq> e" "c \<notin> set (e # rest')" "distinct (e # rest')" "\<forall>x \<in> set (e # rest'). in_range d x"
    using cs Suc.prems(3,4) d1(2) eo by (auto simp: Free_def)
  have e0: "e \<noteq> 0" by (rule in_range_not_eoc(2) [OF ok re(1)])
  have ent: "entry d1 x = entry d x" if "x \<in> set (e # rest')" for x
    using storedD(4) [OF d1(1), of x] re(3,5) that by auto
  have free: "Free d1 = Free d - {c}"
    using storedD(4) [OF d1(1)] r e0 by (auto simp: Free_def same split: if_splits)
  have p1: "linked d1 (e # rest')"
    using linked_cong [of "e # rest'" d1 d] ent cs Suc.prems(2) by (auto dest: linked_tl)
  have p2: "\<forall>x \<in> set rest'. entry d1 x \<noteq> 0" using ent cs Suc.prems(5) by auto
  have p3: "is_eoc d1 (entry d1 (last (e # rest')))"
  proof -
    have "entry d1 (last (e # rest')) = entry d (last (e # rest'))" by (rule ent) (metis last_in_set list.discI)
    then show ?thesis using cs Suc.prems(6) eoc_marks(1) [OF ok] by (auto simp: same Free_def)
  qed
  have p4: "m \<le> length rest' + card (Free d1 - {e})"
    using cs
  proof
    assume c1: "rest = e # rest' \<and> entry d e \<noteq> 0"
    then have "Free d1 - {e} = Free d - {c}" unfolding free by (auto simp: Free_def)
    then show ?thesis using c1 Suc.prems(7) by simp
  next
    assume c1: "rest = [] \<and> rest' = [] \<and> e \<in> Free d"
    then have "card (Free d1 - {e}) = card (Free d - {c}) - 1" using re(2) unfolding free by (simp add: card_Diff_singleton)
    then show ?thesis using c1 Suc.prems(7) by simp
  qed
  obtain cs d' o1 buf' where ih: "write_clusters (Suc m + k) (i + 1) nc fs e (take ?cs pBuf) (drop ?cs pBuf) (bw + ?sz) d1 =
      write_clusters k nc nc fs o1 buf' (drop (L - ?cs) (drop ?cs pBuf)) fs d'"
    "written_to d1 (e # rest') m (take (L - ?cs) (drop ?cs pBuf)) cs d'" "m < length (e # rest') \<longrightarrow> o1 = entry d1 ((e # rest') ! m)"
    using Suc.IH [OF ok1 p1 re(4) _ p2 p3 p4, of "take ?cs pBuf" "L - ?cs" "drop ?cs pBuf" "bw + ?sz" "i + 1"]
      re(5) lch L Suc.prems(10,13) bw i1 unfolding same by (auto simp: same)
  have bs: "take (L - ?cs) (drop ?cs pBuf) = drop ?cs (take L pBuf)" by (simp add: drop_take)
  have "written_to d (c # rest) (Suc m) (take L pBuf) (c # cs) d'"
    by (rule write_phase_step [OF ih(2) [unfolded bs] d1(1) r re(1,2) _ _ re(3) cs]) (use ch lch L(1) in \<open>simp_all add: min_absorb1\<close>)
  moreover have "drop (L - ?cs) (drop ?cs pBuf) = drop L pBuf" using L(1) by simp
  moreover have "Suc m < length (c # rest) \<longrightarrow> o1 = entry d ((c # rest) ! Suc m)"
    using cs ih(3) ent [OF nth_mem, of m] by auto
  ultimately show ?case using d1(3) ih(1) ch sz by auto
qed

subsection \<open>Writing a file and reading it back\<close>

definition data_clusters :: "FatDisk \<Rightarrow> nat \<Rightarrow> nat" where "data_clusters d n = (n + csize d - 1) div csize d"

lemma ceil_clusters:
  assumes "disk_ok d" "unat fs + csize d \<le> 2 ^ 32" "0 < unat fs"
  shows "\<exists>nc. CeilDiv fs (GetClusterSize d) = Some nc \<and> unat nc = data_clusters d (unat fs)"
    "0 < data_clusters d (unat fs)" "(data_clusters d (unat fs) - 1) * csize d < unat fs" "unat fs \<le> data_clusters d (unat fs) * csize d"
proof -
  let ?s = "GetClusterSize d" and ?cs = "csize d"
  have cs: "0 < ?cs" by (rule disk_okD(4) [OF assms(1)])
  have z: "?s \<noteq> 0" using cs by (auto simp: csize_def)
  have e: "fs + ?s - 1 = fs + (?s - 1)" by simp
  have s1: "unat (?s - 1) = ?cs - 1" using z by (simp add: csize_def unat_minus_one)
  then have "unat fs + unat (?s - 1) < 2 ^ LENGTH(32)" using assms(2) cs by simp
  then have "unat (fs + (?s - 1)) = unat fs + unat (?s - 1)" by (simp only: unat_add_lem)
  also have "\<dots> = unat fs + ?cs - 1" using s1 cs by simp
  finally have "unat (fs + ?s - 1) = unat fs + ?cs - 1" by (simp only: e)
  then show "\<exists>nc. CeilDiv fs ?s = Some nc \<and> unat nc = data_clusters d (unat fs)"
    using z by (simp add: CeilDiv_def data_clusters_def unat_div csize_def)
  define n where "n = data_clusters d (unat fs)"
  have n: "n = (unat fs - 1) div ?cs + 1"
    using cs assms(3) by (simp add: n_def data_clusters_def) (metis Nat.add_diff_assoc2 One_nat_def Suc_eq_plus1 Suc_leI div_add_self2 less_numeral_extra(3))
  then show "0 < data_clusters d (unat fs)" by (simp add: n_def)
  have "(unat fs - 1) div ?cs * ?cs \<le> unat fs - 1" by simp
  then have "(n - 1) * ?cs < unat fs" using assms(3) unfolding n by (simp only: add_diff_cancel_right')
  then show "(data_clusters d (unat fs) - 1) * ?cs < unat fs" by (simp add: n_def)
  have "unat fs - 1 < ((unat fs - 1) div ?cs + 1) * ?cs" using cs by (metis div_less_iff_less_mult less_add_one)
  then show "unat fs \<le> data_clusters d (unat fs) * ?cs" using n assms(3) by (simp add: n_def)
qed

lemma short_name_found:
  assumes "length (Label f) = 11"
  shows "\<exists>s. GetShortName f = Some s"
proof -
  have t: "trim_trail src n \<le> n" for src n by (induction n) auto
  have "\<exists>b i. ReadFatString (replicate (n + 1) 0) src n = Some (b, i)" if "n \<le> length src" for src n
  proof -
    have "trim_trail src n - trim_lead (take n src) 0 \<le> n" using t [of src n] by linarith
    then show ?thesis using that by (simp add: ReadFatString_def Let_def)
  qed
  from this [of 8 "Label f"] this [of 3 "drop 8 (Label f)"] assms
  show ?thesis by (auto simp: GetShortName_def NAME_LENGTH_def EXTENSION_LENGTH_def Let_def)
qed

lemma chain_length:
  assumes "disk_ok d" "chain d c cs"
  shows "length cs \<le> clusters d"
proof -
  have "set cs \<subseteq> set (all_clusters d)" using assms(2) all_clusters_set(1) [OF assms(1)] by (auto simp: chain_def)
  then have "card (set cs) \<le> card (set (all_clusters d))" by (rule card_mono [OF finite_set])
  also have "\<dots> \<le> clusters d" using card_length [of "all_clusters d"] by (simp add: all_clusters_def)
  finally show ?thesis using assms(2) by (simp add: chain_def distinct_card)
qed

text \<open>The whole loop, from the chain \<open>cs\<close> of the file on.\<close>

lemma write_all_rounds:
  assumes ok: "disk_ok d" and ch: "chain d c cs" and nz: "length cs = 1 \<or> (\<forall>x \<in> set cs. entry d x \<noteq> 0)"
    and n: "0 < n" "n = unat nc" "(n - 1) * csize d < unat fs" "unat fs \<le> n * csize d" "n \<le> card (Free d)" and p: "unat fs \<le> length pBuf"
  obtains cs' d' where "write_clusters (max n (length cs)) 0 nc fs c (replicate (csize d) 0) pBuf 0 d = Some (True, d')"
    "disk_ok d'" "same_disk d d'" "chain d' c cs'" "length cs' = n" "\<exists>extra. cs' = take n cs @ extra \<and> set extra \<subseteq> Free d"
    "take (unat fs) (concat (map (cdata d') cs')) = take (unat fs) pBuf"
    "\<forall>x. in_range d x \<longrightarrow> x \<notin> set cs' \<longrightarrow> cdata d' x = cdata d x \<and> entry d' x = (if x \<in> set cs then 0 else entry d x)"
proof -
  obtain rest where cs: "cs = c # rest" using ch by (cases cs) (auto simp: chain_def)
  obtain m where m: "n = Suc m" using n(1) by (cases n) auto
  have h: "linked d (c # rest)" "distinct (c # rest)" "\<forall>x \<in> set (c # rest). in_range d x" "is_eoc d (entry d (last (c # rest)))"
    using ch by (auto simp: cs chain_def)
  have nz': "\<forall>x \<in> set rest. entry d x \<noteq> 0" using nz by (auto simp: cs)
  have "card (Free d) \<le> card (Free d - {c}) + 1" by (cases "c \<in> Free d") (auto simp: card_Diff_singleton)
  then have card: "m \<le> length rest + card (Free d - {c})" using n(5) m by linarith
  have mm: "m * csize d < unat fs" "unat fs \<le> (m + 1) * csize d" "unat nc = unat (0 :: u32) + m + 1" "unat fs = unat (0 :: u32) + unat fs"
    using n(3,4) n(2) [symmetric] unfolding m by simp_all
  let ?k = "length cs - n"
  obtain cs' d1 o1 buf' where w: "write_clusters (Suc m + ?k) 0 nc fs c (replicate (csize d) 0) pBuf 0 d =
      write_clusters ?k nc nc fs o1 buf' (drop (unat fs) pBuf) fs d1" "written_to d (c # rest) m (take (unat fs) pBuf) cs' d1"
    "m < length (c # rest) \<longrightarrow> o1 = entry d ((c # rest) ! m)"
    using write_phase [OF ok h(1-3) nz' h(4) card length_replicate p mm(4,1,2,3), of ?k "0 :: u8"] by blast
  have rounds: "max n (length cs) = Suc m + ?k" using m by auto
  have ok1: "disk_ok d1" and s1: "same_disk d d1" and e1: "eoc_mark d1 = eoc_mark d" and l1: "length cs' = n" "distinct cs'" "\<forall>x \<in> set cs'. in_range d x"
    "linked d1 cs'" "entry d1 (last cs') = eoc_mark d"
    and d1: "take (unat fs) (concat (map (cdata d1) cs')) = take (unat fs) pBuf"
    "\<forall>x. in_range d x \<longrightarrow> x \<notin> set cs' \<longrightarrow> entry d1 x = entry d x \<and> cdata d1 x = cdata d x"
    using w(2) m p unfolding written_to_def by (auto simp: min_absorb2)
  obtain extra where ex: "cs' = take n cs @ extra" "set extra \<subseteq> Free d - {c}" using w(2) m unfolding written_to_def cs by auto
  define old where "old = drop n cs"
  have od: "set old \<subseteq> set cs" "distinct old" "\<forall>x \<in> set old. in_range d x" "set old \<inter> set cs' = {}"
  proof -
    show sub: "set old \<subseteq> set cs" by (simp add: old_def set_drop_subset)
    show "distinct old" using h(2) by (simp add: old_def cs)
    show "\<forall>x \<in> set old. in_range d x" using sub h(3) by (auto simp: cs)
    have "set old \<inter> set (take n cs) = {}" using h(2) set_take_disj_set_drop_if_distinct [of cs n n] by (auto simp: old_def cs)
    moreover have "min (length cs) n + length extra = n" using l1(1) ex(1) by (metis length_append length_take)
    then have "old = [] \<or> extra = []" by (auto simp: old_def min_def split: if_splits)
    ultimately show "set old \<inter> set cs' = {}" using ex(1) by auto
  qed
  have lk: "linked d (drop j xs)" if "linked d xs" for j xs
    using that by (induction j) (auto simp: drop_Suc tl_drop [symmetric] intro: linked_tl split: list.splits, metis linked.simps(1) linked_tl list.collapse list.sel(2))
  have "linked d1 old" using lk [of cs n] h(1) od(3,4) d1(2) linked_cong [of old d1 d] by (auto simp: old_def cs)
  moreover have "old \<noteq> [] \<longrightarrow> o1 = hd old"
  proof
    assume "old \<noteq> []"
    then have lt: "m + 1 < length cs" by (simp add: old_def m)
    have "entry d (xs ! m) = xs ! (m + 1)" if "linked d xs" "m + 1 < length xs" for m xs
      using that by (induction xs arbitrary: m rule: induct_list012) (auto simp: nth_Cons split: nat.splits)
    from this [of cs m] show "o1 = hd old" using w(3) h(1) lt by (simp add: old_def cs m hd_drop_conv_nth)
  qed
  moreover have "unat nc + length old < 2 ^ 32"
    using unat32_bound [of nc] chain_length [OF ok ch] disk_okD(2) [OF ok] n(2) by (cases "n \<le> length cs") (simp_all add: old_def)
  moreover have "\<forall>x \<in> set old. in_range d1 x" using od(3) same_diskD(1) [OF s1] by simp
  ultimately obtain d2 where d2: "write_clusters (length old) nc nc fs o1 buf' (drop (unat fs) pBuf) fs d1 = Some (True, d2)" "disk_ok d2"
    "same_disk d1 d2" "eoc_mark d2 = eoc_mark d1"
    "\<forall>x. in_range d1 x \<longrightarrow> entry d2 x = (if x \<in> set old then 0 else entry d1 x) \<and> cdata d2 x = cdata d1 x"
    using free_phase [OF ok1 _ od(2) _ _ order_refl, of o1 nc fs buf' "drop (unat fs) pBuf" fs] by blast
  have new: "entry d2 x = entry d1 x" "cdata d2 x = cdata d1 x" if "x \<in> set cs'" for x
    using d2(5) od(4) l1(3) that same_diskD(1) [OF s1] by auto
  have "chain d2 c cs'"
  proof -
    have ne: "cs' \<noteq> []" "hd cs' = c" using l1(1) ex(1) m cs by auto
    have "linked d2 cs'" using linked_cong [of cs' d2 d1] new(1) l1(4) by simp
    moreover have "entry d2 (last cs') = eoc_mark d2" using new(1) ne l1(5) d2(4) e1 by simp
    ultimately show ?thesis
      using ne l1 eoc_marks(3) [OF d2(2)] same_diskD(1) [OF same_disk_trans [OF s1 d2(3)]] by (auto simp: chain_def)
  qed
  moreover have "take (unat fs) (concat (map (cdata d2) cs')) = take (unat fs) pBuf"
    using d1(1) new(2) by (simp cong: map_cong)
  moreover have "cdata d2 x = cdata d x \<and> entry d2 x = (if x \<in> set cs then 0 else entry d x)" if x: "in_range d x" "x \<notin> set cs'" for x
  proof -
    have "x \<in> set cs \<longleftrightarrow> x \<in> set old" using x(2) ex(1) od(1) by (metis UnE Un_iff append_take_drop_id old_def set_append)
    then show ?thesis using d2(5) d1(2) x same_diskD(1) [OF s1] by auto
  qed
  ultimately show ?thesis
    using that [of d2 cs'] w(1) d2(1-3) rounds l1(1) ex same_disk_trans [OF s1 d2(3)] by (auto simp: old_def)
qed

lemma read_back:
  assumes "disk_ok d" "chain d (ucast (FirstCluster f)) cs" "IsValidFile f" "\<not> IsRoot f" "length (Label f) = 11" "length cs * csize d \<le> length buf"
  shows "ReadFile d buf f = Some (True, concat (map (cdata d) cs) @ drop (length cs * csize d) buf)"
proof -
  have "(ucast (FirstCluster f) :: u32) \<noteq> 0"
    using assms(2) in_range_not_eoc(2) [OF assms(1), of "ucast (FirstCluster f)"] by (cases cs) (auto simp: chain_def)
  then have "FirstCluster f \<noteq> 0" by auto
  then show ?thesis
    using assms(2-) read_chain_ok [OF assms(1), of cs 0 buf] short_name_found [OF assms(5)] by (auto simp: ReadFile_def chain_def)
qed

text \<open>
  C12: A file written to a disk is read back. For a file of at least one byte whose first cluster starts a chain of the table (for a new file just a free
  cluster): when there are as many free clusters as the new contents take, the file is written, and reading it gives these contents again. The new chain is the beginning
  of the old one, extended by clusters that were free, of exactly the needed length; clusters of the old chain that are no longer needed become free;
  the entries and contents of all other clusters, so all other files, stay as they were. When there are fewer free clusters the disk stays as it was, even if the
  file already has all the clusters it needs.
\<close>

theorem write_read_file:
  assumes ok: "disk_ok d" and f: "IsValidFile f" "\<not> IsDirectory f" "length (Label f) = 11"
    and ch: "chain d (ucast (FirstCluster f)) cs" "length cs = 1 \<or> (\<forall>x \<in> set cs. entry d x \<noteq> 0)"
    and size: "0 < unat (FileSize f)" "unat (FileSize f) + csize d \<le> 2 ^ 32" "unat (FileSize f) \<le> length pBuf"
  shows "(data_clusters d (unat (FileSize f)) \<le> card (Free d) \<longrightarrow>
      (\<exists>d' cs'. WriteFile d f pBuf = Some (True, d') \<and> disk_ok d' \<and> m_bDirty d' \<and> chain d' (ucast (FirstCluster f)) cs' \<and>
        length cs' = data_clusters d (unat (FileSize f)) \<and> (\<exists>extra. cs' = take (length cs') cs @ extra \<and> set extra \<subseteq> Free d) \<and>
        (\<forall>x. in_range d x \<longrightarrow> x \<notin> set cs' \<longrightarrow> cdata d' x = cdata d x \<and> entry d' x = (if x \<in> set cs then 0 else entry d x)) \<and>
        (\<forall>buf. length cs' * csize d \<le> length buf \<longrightarrow>
          (\<exists>buf'. ReadFile d' buf f = Some (True, buf') \<and> take (unat (FileSize f)) buf' = take (unat (FileSize f)) pBuf)))) \<and>
    (card (Free d) < data_clusters d (unat (FileSize f)) \<longrightarrow> WriteFile d f pBuf = Some (False, d))"
proof -
  let ?n = "data_clusters d (unat (FileSize f))"
  have c0: "(ucast (FirstCluster f) :: u32) \<noteq> 0"
    using ch(1) in_range_not_eoc(2) [OF ok, of "ucast (FirstCluster f)"] by (cases cs) (auto simp: chain_def)
  then have fc: "FirstCluster f \<noteq> 0" "\<not> IsRoot f" using f(2) by (auto simp: IsRoot_def)
  note ceil = ceil_clusters [OF ok size(2,1)]
  obtain nc where nc: "CeilDiv (FileSize f) (GetClusterSize d) = Some nc" "unat nc = ?n" using ceil(1) by blast
  have cl: "length cs \<le> 65524" "card (Free d) \<le> 65524" using chain_length [OF ok ch(1)] disk_okD(2) [OF ok] count_free(2) [OF ok] by linarith+
  have mx: "unat (max nc (of_nat (length cs))) = max ?n (length cs)"
    using cl(1) nc(2) by (simp add: max_def word_le_nat_alt unat_of_nat)
  have gt: "nc > of_nat (card (Free d)) \<longleftrightarrow> card (Free d) < ?n" using cl(2) nc(2) by (simp add: word_less_nat_alt unat_of_nat)
  have wf: "WriteFile d f pBuf = (if card (Free d) < ?n then Some (False, d)
      else do {
        (ok, d) \<leftarrow> write_clusters (max ?n (length cs)) 0 nc (FileSize f) (ucast (FirstCluster f)) (replicate (csize d) 0) pBuf 0 d;
        Some (ok, if ok then d\<lparr>m_bDirty := True\<rparr> else d)
      })"
    using fc f short_name_found [OF f(3)] nc(1) count_chain [OF ok ch(1) fc(2)] count_free(1) [OF ok]
    by (auto simp: WriteFile_def mx gt csize_def Let_def)
  show ?thesis
  proof (intro conjI impI)
    assume le: "?n \<le> card (Free d)"
    obtain cs' d1 where w: "write_clusters (max ?n (length cs)) 0 nc (FileSize f) (ucast (FirstCluster f)) (replicate (csize d) 0) pBuf 0 d = Some (True, d1)"
      "disk_ok d1" "same_disk d d1" "chain d1 (ucast (FirstCluster f)) cs'" "length cs' = ?n" "\<exists>extra. cs' = take ?n cs @ extra \<and> set extra \<subseteq> Free d"
      "take (unat (FileSize f)) (concat (map (cdata d1) cs')) = take (unat (FileSize f)) pBuf"
      "\<forall>x. in_range d x \<longrightarrow> x \<notin> set cs' \<longrightarrow> cdata d1 x = cdata d x \<and> entry d1 x = (if x \<in> set cs then 0 else entry d x)"
      by (rule write_all_rounds [OF ok ch ceil(2) nc(2) [symmetric] ceil(3,4) le size(3)])
    define d' where "d' = d1\<lparr>m_bDirty := True\<rparr>"
    have d': "disk_ok d'" "m_bDirty d'" "chain d' (ucast (FirstCluster f)) cs'" "cdata d' = cdata d1" "entry d' = entry d1" "csize d' = csize d"
    proof -
      show "disk_ok d'" using w(2) unfolding disk_ok_def d'_def by (simp cong: if_cong)
      have "linked d' xs = linked d1 xs" for xs by (rule linked_cong) (simp add: d'_def)
      then show "chain d' (ucast (FirstCluster f)) cs'" using w(4) by (simp add: chain_def d'_def)
    qed (use same_diskD(2) [OF w(3)] in \<open>simp_all add: d'_def\<close>)
    have "take (unat (FileSize f)) (concat (map (cdata d') cs') @ r) = take (unat (FileSize f)) pBuf" for r
    proof -
      have "length (take (unat (FileSize f)) (concat (map (cdata d1) cs'))) = unat (FileSize f)" using w(7) size(3) by simp
      then have "unat (FileSize f) \<le> length (concat (map (cdata d1) cs'))" by (simp add: min_def split: if_splits)
      then show ?thesis using w(7) d'(4) by simp
    qed
    then have "\<exists>buf'. ReadFile d' buf f = Some (True, buf') \<and> take (unat (FileSize f)) buf' = take (unat (FileSize f)) pBuf"
      if "length cs' * csize d \<le> length buf" for buf
      using read_back [OF d'(1,3) f(1) fc(2) f(3), of buf] that d'(6) by auto
    then show "\<exists>d' cs'. WriteFile d f pBuf = Some (True, d') \<and> disk_ok d' \<and> m_bDirty d' \<and> chain d' (ucast (FirstCluster f)) cs' \<and>
        length cs' = ?n \<and> (\<exists>extra. cs' = take (length cs') cs @ extra \<and> set extra \<subseteq> Free d) \<and>
        (\<forall>x. in_range d x \<longrightarrow> x \<notin> set cs' \<longrightarrow> cdata d' x = cdata d x \<and> entry d' x = (if x \<in> set cs then 0 else entry d x)) \<and>
        (\<forall>buf. length cs' * csize d \<le> length buf \<longrightarrow>
          (\<exists>buf'. ReadFile d' buf f = Some (True, buf') \<and> take (unat (FileSize f)) buf' = take (unat (FileSize f)) pBuf))"
      using wf le w(1,5,6,8) d' by (intro exI [of _ d'] exI [of _ cs']) (simp add: d'_def)
  qed (simp add: wf)
qed

text \<open>A disk with four clusters of four bytes, all of them free.\<close>

definition ex_bpb :: BiosParamBlock where
  "ex_bpb = \<lparr>SectorSize = 4, SectorsPerCluster = 1, ReservedSectorCount = 1, TableCount = 1, RootDirCapacity = 1, SectorCount = 16,
     MediaType = 0xF0, SectorsPerTable = 3, SectorsPerTrack = 0, HeadCount = 0, HiddenSectorCount = 0, SectorCountLarge = 0,
     DriveNumber = 0, bpb_Reserved = 0, Signature = BPBSIG_DOS41, VolumeId = 0, bpb_Label = [], FsType = []\<rparr>"

definition ex_disk :: FatDisk where
  "ex_disk = \<lparr>m_file = replicate 64 0, m_base = 0, m_boot = \<lparr>JumpCode = [], OemName = [], BiosParams = ex_bpb, BootCode = [], BootSignature = 0\<rparr>,
     m_fat = [0xF0, 0xFF, 0xFF] @ replicate 9 0, m_bDirty = False, m_bHardError = False\<rparr>"

definition ex_file :: DirEntry where
  "ex_file = zero_entry\<lparr>Label := replicate 11 65, FirstCluster := 2, FileSize := 6\<rparr>"

lemmas ex_disk_defs = ex_disk_def ex_bpb_def GetBPB_def GetSectorSize_def GetClusterSize_def GetSectorCount_def GetDiskSize_def
  root_sectors_def CeilDiv_def fsDataSectors_def GetClusterCount_def

lemma ex_disk_geometry:
  "fsDataSectors ex_disk = Some 12" "GetClusterCount ex_disk = Some 4" "GetDiskSize ex_disk = Some 64" "GetClusterSize ex_disk = 4"
  "length (m_file ex_disk) = 64" "unat (m_base ex_disk) = 0" "unat (SectorSize (GetBPB ex_disk)) = 4"
  "length (m_fat ex_disk) = 12"
  by (simp_all add: ex_disk_defs)

lemma ex_disk_eoc: "GetClusterNumberEOC ex_disk = Some 0xFFF"
  by code_simp

lemma ex_disk_entries: "GetCluster ex_disk 2 = Some 0" "GetCluster ex_disk 3 = Some 0" "GetCluster ex_disk 4 = Some 0" "GetCluster ex_disk 5 = Some 0"
  by code_simp+

lemma ex_disk_slots: "slots12 (m_fat ex_disk) = 8"
  by (simp add: slots12_def ex_disk_geometry)

lemmas ex_disk_values = ex_disk_geometry ex_disk_eoc ex_disk_slots

lemma ex_disk_ok: "disk_ok ex_disk" "clusters ex_disk = 4" "csize ex_disk = 4"
  by (simp_all add: disk_ok_def fat12_def clusters_def csize_def data_start_def ex_disk_values)

lemma ex_disk_free: "entry ex_disk c = 0" if "in_range ex_disk c"
proof -
  have "unat c = 2 \<or> unat c = 3 \<or> unat c = 4 \<or> unat c = 5" using that by (auto simp: in_range_def ex_disk_ok(2))
  then have "c = 2 \<or> c = 3 \<or> c = 4 \<or> c = 5" by (auto simp: word_unat_eq_iff)
  then show ?thesis using ex_disk_entries by (auto simp: entry_def)
qed

theorem write_read_file_witness:
  "\<exists>d' buf'. WriteFile ex_disk ex_file [1, 2, 3, 4, 5, 6] = Some (True, d') \<and>
     ReadFile d' (replicate 8 0) ex_file = Some (True, buf') \<and> take 6 buf' = [1, 2, 3, 4, 5, 6]"
proof -
  have f: "IsValidFile ex_file" "\<not> IsDirectory ex_file" "length (Label ex_file) = 11" "(ucast (FirstCluster ex_file) :: u32) = 2"
    "unat (FileSize ex_file) = 6" by code_simp+
  have r: "in_range ex_disk 2" by (simp add: in_range_def ex_disk_ok(2))
  have c: "chain ex_disk (ucast (FirstCluster ex_file)) [2]"
    using r eoc_marks(1) [OF ex_disk_ok(1)] by (simp add: chain_def f(4) ex_disk_free)
  have "Free ex_disk = {c. in_range ex_disk c}" using ex_disk_free by (auto simp: Free_def)
  also have "\<dots> = set (all_clusters ex_disk)" using all_clusters_set(1) [OF ex_disk_ok(1)] by simp
  finally have "card (Free ex_disk) = 4"
    using distinct_card [OF all_clusters_set(2) [OF ex_disk_ok(1)]] by (simp add: all_clusters_def ex_disk_ok(2))
  then have le: "data_clusters ex_disk (unat (FileSize ex_file)) \<le> card (Free ex_disk)" and two: "data_clusters ex_disk (unat (FileSize ex_file)) = 2"
    by (simp_all add: data_clusters_def ex_disk_ok(3) f(5))
  have single: "length [2 :: u32] = 1 \<or> (\<forall>x \<in> set [2]. entry ex_disk x \<noteq> 0)" by simp
  have size: "0 < unat (FileSize ex_file)" "unat (FileSize ex_file) + csize ex_disk \<le> 2 ^ 32" "unat (FileSize ex_file) \<le> length [1, 2, 3, 4, 5, 6 :: u8]"
    by (simp_all add: f(5) ex_disk_ok(3))
  obtain d' and cs' :: "u32 list" where d': "WriteFile ex_disk ex_file [1, 2, 3, 4, 5, 6] = Some (True, d')" "length cs' = data_clusters ex_disk (unat (FileSize ex_file))"
    "\<forall>buf. length cs' * csize ex_disk \<le> length buf \<longrightarrow> (\<exists>buf'. ReadFile d' buf ex_file = Some (True, buf') \<and>
       take (unat (FileSize ex_file)) buf' = take (unat (FileSize ex_file)) [1, 2, 3, 4, 5, 6])"
    using write_read_file [OF ex_disk_ok(1) f(1-3) c single size, THEN conjunct1, THEN mp, OF le] by (elim exE conjE) (rule that; assumption)
  have "length cs' * csize ex_disk \<le> length (replicate 8 (0 :: u8))" using d'(2) two ex_disk_ok(3) by simp
  then obtain buf' where "ReadFile d' (replicate 8 0) ex_file = Some (True, buf')" "take 6 buf' = take 6 [1, 2, 3, 4, 5, 6]"
    using d'(3) unfolding f(5) by blast
  with d'(1) show ?thesis by auto
qed

end
