(* ===== verification/Paging.thy ===== *)
theory Paging
  imports Ohwes_Prelude
begin

text \<open>
  Page tables: \<^verbatim>\<open>src/include/i386/paging.h\<close>, \<^verbatim>\<open>src/i386/kernel/pgtbl.c\<close>, and the tables that \<^verbatim>\<open>src/i386/kernel/setup.S\<close> builds
  before the first C code runs.

  The memory is what the kernel sees of it, byte by byte at virtual addresses; the physical address \<open>p\<close> is at \<open>KERNEL_ADDR p\<close>.
  The register \<open>cr3\<close> and the address of the linker symbol \<open>__page_dir\<close>, which the code compares, are the record \<open>pgregs\<close>.
\<close>

type_synonym kmem = "u32 \<Rightarrow> u8"

record pgregs =
  pg_cr3 :: u32
  pg_page_dir :: u32

definition load32 :: "kmem \<Rightarrow> u32 \<Rightarrow> u32" where
  "load32 mem a = ucast (mem a) OR push_bit 8 (ucast (mem (a + 1))) OR push_bit 16 (ucast (mem (a + 2))) OR push_bit 24 (ucast (mem (a + 3)))"

definition store32 :: "u32 \<Rightarrow> u32 \<Rightarrow> kmem \<Rightarrow> kmem" where
  "store32 a v mem = mem(a := ucast v, a + 1 := ucast (drop_bit 8 v), a + 2 := ucast (drop_bit 16 v), a + 3 := ucast (drop_bit 24 v))"

subsection \<open>Addresses\<close>

definition KERNEL_VA :: u32 where "KERNEL_VA = 0xC0000000"

definition KERNEL_ADDR :: "u32 \<Rightarrow> u32" where
  "KERNEL_ADDR p = (if p \<ge> - KERNEL_VA then p else p + KERNEL_VA)"

definition PHYSICAL_ADDR :: "u32 \<Rightarrow> u32" where
  "PHYSICAL_ADDR v = (if v \<ge> KERNEL_VA then v - KERNEL_VA else v)"

definition PAGE_SHIFT :: nat where "PAGE_SHIFT = 12"
definition PAGE_SIZE :: u32 where "PAGE_SIZE = push_bit PAGE_SHIFT 1"
definition PAGE_MASK :: u32 where "PAGE_MASK = NOT (PAGE_SIZE - 1)"
definition PGDIR_SHIFT :: nat where "PGDIR_SHIFT = 22"
definition LARGE_PAGE_SHIFT :: nat where "LARGE_PAGE_SHIFT = PGDIR_SHIFT"
definition LARGE_PAGE_SIZE :: u32 where "LARGE_PAGE_SIZE = push_bit LARGE_PAGE_SHIFT 1"
definition LARGE_PAGE_MASK :: u32 where "LARGE_PAGE_MASK = NOT (LARGE_PAGE_SIZE - 1)"
definition PDE_COUNT :: u32 where "PDE_COUNT = 1024"
definition PTE_COUNT :: u32 where "PTE_COUNT = 1024"

definition ptn :: "u32 \<Rightarrow> u32" where "ptn addr = drop_bit PAGE_SHIFT addr AND (PTE_COUNT - 1)"
definition pdn :: "u32 \<Rightarrow> u32" where "pdn addr = drop_bit PGDIR_SHIFT addr AND (PDE_COUNT - 1)"
definition pfn :: "u32 \<Rightarrow> u32" where "pfn addr = drop_bit PAGE_SHIFT addr"

definition PAGE_ALIGN :: "u32 \<Rightarrow> u32" where "PAGE_ALIGN addr = (addr + (PAGE_SIZE - 1)) AND PAGE_MASK"
definition LARGE_PAGE_ALIGN :: "u32 \<Rightarrow> u32" where "LARGE_PAGE_ALIGN addr = (addr + (LARGE_PAGE_SIZE - 1)) AND LARGE_PAGE_MASK"

subsection \<open>Entries\<close>

definition X_PAGE_PRESENT :: u32 where "X_PAGE_PRESENT = 0x001"
definition X_PAGE_RW :: u32 where "X_PAGE_RW = 0x002"
definition X_PAGE_USER :: u32 where "X_PAGE_USER = 0x004"
definition X_PAGE_PWT :: u32 where "X_PAGE_PWT = 0x008"
definition X_PAGE_PCD :: u32 where "X_PAGE_PCD = 0x010"
definition X_PAGE_ACCESSED :: u32 where "X_PAGE_ACCESSED = 0x020"
definition X_PAGE_DIRTY :: u32 where "X_PAGE_DIRTY = 0x040"
definition X_PAGE_PS :: u32 where "X_PAGE_PS = 0x080"
definition X_PAGE_GLOBAL :: u32 where "X_PAGE_GLOBAL = 0x100"
definition X_PAGE_PDE :: u32 where "X_PAGE_PDE = 0x200"
definition X_PAGE_LARGE :: u32 where "X_PAGE_LARGE = X_PAGE_PS"

lemmas page_flags = X_PAGE_PRESENT_def X_PAGE_RW_def X_PAGE_USER_def X_PAGE_PWT_def X_PAGE_PCD_def X_PAGE_ACCESSED_def X_PAGE_DIRTY_def
  X_PAGE_PS_def X_PAGE_GLOBAL_def X_PAGE_PDE_def X_PAGE_LARGE_def

definition mkpde :: "u32 \<Rightarrow> u32 \<Rightarrow> u32" where
  "mkpde addr flags = PAGE_ALIGN addr OR (flags OR X_PAGE_PRESENT OR X_PAGE_PDE)"

definition mkpde_large :: "u32 \<Rightarrow> u32 \<Rightarrow> u32" where
  "mkpde_large addr flags = LARGE_PAGE_ALIGN addr OR (flags OR X_PAGE_PRESENT OR X_PAGE_PDE OR X_PAGE_LARGE)"

definition mkpte :: "u32 \<Rightarrow> u32 \<Rightarrow> u32" where
  "mkpte addr flags = PAGE_ALIGN addr OR (flags OR X_PAGE_PRESENT)"

definition pde_index :: "u32 \<Rightarrow> u32" where "pde_index pde = pdn pde"
definition pde_page :: "u32 \<Rightarrow> u32" where "pde_page pde = pde AND PAGE_MASK"
definition pde_none :: "u32 \<Rightarrow> bool" where "pde_none pde \<longleftrightarrow> pde = 0"

text \<open>An offset in a table of entries of four bytes.\<close>

definition pde_offset :: "u32 \<Rightarrow> u32 \<Rightarrow> u32" where "pde_offset pde va = pde + 4 * pdn va"

definition pde_read :: "u32 \<Rightarrow> bool" where "pde_read pde \<longleftrightarrow> pde AND X_PAGE_USER = X_PAGE_USER"
definition pde_exec :: "u32 \<Rightarrow> bool" where "pde_exec pde \<longleftrightarrow> pde AND X_PAGE_USER = X_PAGE_USER"
definition pde_write :: "u32 \<Rightarrow> bool" where "pde_write pde \<longleftrightarrow> pde AND X_PAGE_RW = X_PAGE_RW"
definition pde_user :: "u32 \<Rightarrow> bool" where "pde_user pde \<longleftrightarrow> pde AND X_PAGE_USER = X_PAGE_USER"
definition pde_dirty :: "u32 \<Rightarrow> bool" where "pde_dirty pde \<longleftrightarrow> pde AND X_PAGE_DIRTY = X_PAGE_DIRTY"
definition pde_large :: "u32 \<Rightarrow> bool" where "pde_large pde \<longleftrightarrow> pde AND X_PAGE_LARGE = X_PAGE_LARGE"
definition pde_present :: "u32 \<Rightarrow> bool" where "pde_present pde \<longleftrightarrow> pde AND X_PAGE_PRESENT = X_PAGE_PRESENT"

definition pde_bad :: "u32 \<Rightarrow> bool" where
  "pde_bad pde \<longleftrightarrow> pde AND (X_PAGE_PDE OR X_PAGE_PRESENT) \<noteq> X_PAGE_PDE OR X_PAGE_PRESENT \<or> pde_large pde \<and> ptn pde \<noteq> 0"

definition pde_mkread :: "u32 \<Rightarrow> u32" where "pde_mkread pde = pde OR X_PAGE_USER"
definition pde_mkexec :: "u32 \<Rightarrow> u32" where "pde_mkexec pde = pde OR X_PAGE_USER"
definition pde_mkwrite :: "u32 \<Rightarrow> u32" where "pde_mkwrite pde = pde OR X_PAGE_RW"
definition pde_mkuser :: "u32 \<Rightarrow> u32" where "pde_mkuser pde = pde OR X_PAGE_USER"
definition pde_mkdirty :: "u32 \<Rightarrow> u32" where "pde_mkdirty pde = pde OR X_PAGE_DIRTY"
definition pde_mkclean :: "u32 \<Rightarrow> u32" where "pde_mkclean pde = pde AND NOT X_PAGE_DIRTY"
definition pde_mkpresent :: "u32 \<Rightarrow> u32" where "pde_mkpresent pde = pde AND X_PAGE_PRESENT"
definition pde_rdprotect :: "u32 \<Rightarrow> u32" where "pde_rdprotect pde = pde AND NOT X_PAGE_USER"
definition pde_exprotect :: "u32 \<Rightarrow> u32" where "pde_exprotect pde = pde AND NOT X_PAGE_USER"
definition pde_wrprotect :: "u32 \<Rightarrow> u32" where "pde_wrprotect pde = pde AND NOT X_PAGE_RW"

definition pte_index :: "u32 \<Rightarrow> u32" where "pte_index pte = ptn pte"
definition pte_page :: "u32 \<Rightarrow> u32" where "pte_page pte = pte AND PAGE_MASK"
definition pte_none :: "u32 \<Rightarrow> bool" where "pte_none pte \<longleftrightarrow> pte = 0"

text \<open>The argument is the directory entry that \<open>pde\<close> points to.\<close>

definition pte_offset :: "u32 \<Rightarrow> u32 \<Rightarrow> u32" where "pte_offset pde va = pde_page pde + 4 * ptn va"

definition pte_read :: "u32 \<Rightarrow> bool" where "pte_read pte \<longleftrightarrow> pte AND X_PAGE_USER = X_PAGE_USER"
definition pte_exec :: "u32 \<Rightarrow> bool" where "pte_exec pte \<longleftrightarrow> pte AND X_PAGE_USER = X_PAGE_USER"
definition pte_write :: "u32 \<Rightarrow> bool" where "pte_write pte \<longleftrightarrow> pte AND X_PAGE_RW = X_PAGE_RW"
definition pte_user :: "u32 \<Rightarrow> bool" where "pte_user pte \<longleftrightarrow> pte AND X_PAGE_USER = X_PAGE_USER"
definition pte_dirty :: "u32 \<Rightarrow> bool" where "pte_dirty pte \<longleftrightarrow> pte AND X_PAGE_DIRTY = X_PAGE_DIRTY"
definition pte_present :: "u32 \<Rightarrow> bool" where "pte_present pte \<longleftrightarrow> pte AND X_PAGE_PRESENT = X_PAGE_PRESENT"
definition pte_mkread :: "u32 \<Rightarrow> u32" where "pte_mkread pte = pte OR X_PAGE_USER"
definition pte_mkexec :: "u32 \<Rightarrow> u32" where "pte_mkexec pte = pte OR X_PAGE_USER"
definition pte_mkwrite :: "u32 \<Rightarrow> u32" where "pte_mkwrite pte = pte OR X_PAGE_RW"
definition pte_mkuser :: "u32 \<Rightarrow> u32" where "pte_mkuser pte = pte OR X_PAGE_USER"
definition pte_mkdirty :: "u32 \<Rightarrow> u32" where "pte_mkdirty pte = pte OR X_PAGE_DIRTY"
definition pte_mkclean :: "u32 \<Rightarrow> u32" where "pte_mkclean pte = pte AND NOT X_PAGE_DIRTY"
definition pte_mkpresent :: "u32 \<Rightarrow> u32" where "pte_mkpresent pte = pte AND X_PAGE_PRESENT"
definition pte_rdprotect :: "u32 \<Rightarrow> u32" where "pte_rdprotect pte = pte AND NOT X_PAGE_USER"
definition pte_exprotect :: "u32 \<Rightarrow> u32" where "pte_exprotect pte = pte AND NOT X_PAGE_USER"
definition pte_wrprotect :: "u32 \<Rightarrow> u32" where "pte_wrprotect pte = pte AND NOT X_PAGE_RW"

subsection \<open>Walking the tables\<close>

definition get_pgdir :: "pgregs \<Rightarrow> u32 option" where
  "get_pgdir r = do { assert_opt (pg_cr3 r = pg_page_dir r); Some (KERNEL_ADDR (pg_cr3 r)) }"

text \<open>The address of the entry, when there is a table.\<close>

definition walk_page_table :: "pgregs \<Rightarrow> kmem \<Rightarrow> u32 \<Rightarrow> u32 option option" where
  "walk_page_table r mem va = do {
     pgdir \<leftarrow> get_pgdir r;
     let pde = load32 mem (KERNEL_ADDR (pde_offset pgdir va));
     Some (if \<not> pde_present pde then None else Some (KERNEL_ADDR (pte_offset pde va)))
   }"

definition virt_addr_valid :: "pgregs \<Rightarrow> kmem \<Rightarrow> u32 \<Rightarrow> bool option" where
  "virt_addr_valid r mem va = do {
     pte \<leftarrow> walk_page_table r mem va;
     Some (case pte of None \<Rightarrow> False | Some a \<Rightarrow> pte_present (load32 mem a))
   }"

subsection \<open>The tables built at boot\<close>

definition PAGE_FLAGS :: u32 where "PAGE_FLAGS = X_PAGE_PRESENT OR X_PAGE_RW OR X_PAGE_USER"
definition NR_PAGES :: nat where "NR_PAGES = 0x200"

primrec fill_table :: "u32 \<Rightarrow> (nat \<Rightarrow> u32) \<Rightarrow> nat \<Rightarrow> kmem \<Rightarrow> kmem" where
  "fill_table tbl f 0 mem = mem"
| "fill_table tbl f (Suc n) mem = store32 (tbl + 4 * of_nat n) (f n) (fill_table tbl f n mem)"

text \<open>\<open>setup_paging\<close>, and the removal of the identity mapping before the first C code; the tables are at physical addresses.\<close>

definition setup_paging :: "u32 \<Rightarrow> u32 \<Rightarrow> kmem \<Rightarrow> kmem" where
  "setup_paging page_dir page_tbl mem =
    (let dir = KERNEL_ADDR page_dir; tbl = KERNEL_ADDR page_tbl;
         mem = fill_table dir (\<lambda>_. 0) (unat PDE_COUNT) mem;
         mem = fill_table tbl (\<lambda>_. 0) (unat PTE_COUNT) mem;
         mem = fill_table tbl (\<lambda>n. push_bit PAGE_SHIFT (of_nat n) OR PAGE_FLAGS) NR_PAGES mem;
         mem = store32 tbl (load32 mem tbl AND NOT X_PAGE_PRESENT) mem;
         pde = page_tbl OR PAGE_FLAGS OR X_PAGE_PDE;
         mem = store32 dir pde mem;
         mem = store32 (dir + 4 * pdn KERNEL_VA) pde mem
     in store32 dir 0 mem)"

subsection \<open>Entries and their flags\<close>

lemmas page_consts = PAGE_SHIFT_def PAGE_SIZE_def PAGE_MASK_def PGDIR_SHIFT_def LARGE_PAGE_SHIFT_def LARGE_PAGE_SIZE_def LARGE_PAGE_MASK_def
  PDE_COUNT_def PTE_COUNT_def

lemma flag_bit: "k < 32 \<Longrightarrow> (x :: u32) AND push_bit k 1 = push_bit k 1 \<longleftrightarrow> bit x k"
proof
  assume k: "k < 32" and "x AND push_bit k 1 = push_bit k 1"
  then have "bit (x AND push_bit k 1) k" by (simp add: bit_simps)
  then show "bit x k" by (simp add: bit_simps)
qed (auto intro!: bit_word_eqI simp: bit_simps)

lemma flag_values:
  "X_PAGE_PRESENT = push_bit 0 1" "X_PAGE_RW = push_bit 1 1" "X_PAGE_USER = push_bit 2 1" "X_PAGE_DIRTY = push_bit 6 1" "X_PAGE_PS = push_bit 7 1"
  "X_PAGE_PDE = push_bit 9 1"
  by (simp_all add: page_flags)

lemma page_tests:
  "pte_present e \<longleftrightarrow> bit e 0" "pte_write e \<longleftrightarrow> bit e 1" "pte_user e \<longleftrightarrow> bit e 2" "pte_read e \<longleftrightarrow> bit e 2" "pte_exec e \<longleftrightarrow> bit e 2" "pte_dirty e \<longleftrightarrow> bit e 6"
  "pde_present e \<longleftrightarrow> bit e 0" "pde_write e \<longleftrightarrow> bit e 1" "pde_user e \<longleftrightarrow> bit e 2" "pde_read e \<longleftrightarrow> bit e 2" "pde_exec e \<longleftrightarrow> bit e 2" "pde_dirty e \<longleftrightarrow> bit e 6"
  "pde_large e \<longleftrightarrow> bit e 7"
  by (simp_all only: pte_present_def pte_write_def pte_user_def pte_read_def pte_exec_def pte_dirty_def pde_present_def pde_write_def pde_user_def
      pde_read_def pde_exec_def pde_dirty_def pde_large_def X_PAGE_LARGE_def flag_values flag_bit)

lemma pde_formed: "bit e 0 \<Longrightarrow> bit e 9 \<Longrightarrow> e AND (X_PAGE_PDE OR X_PAGE_PRESENT) = X_PAGE_PDE OR X_PAGE_PRESENT"
  unfolding flag_values by (rule bit_word_eqI, unfold bit_and_iff bit_or_iff bit_push_bit_iff) (auto simp: bit_1_iff)

lemma unat_div_pow: "unat (drop_bit k x :: u32) = unat x div 2 ^ k"
  using unat32_bound [of x] by (subst unsigned_drop_bit_eq) (simp add: drop_bit_eq_div take_bit_eq_mod)

lemma bit_4095 [simp]: "bit (4095 :: int) n \<longleftrightarrow> n < 12"
proof -
  have "(4095 :: int) = Bit_Operations.mask 12" by (simp add: mask_eq_exp_minus_1)
  then show ?thesis by (simp only: bit_mask_iff possible_bit_def) simp
qed

lemma bit_1023 [simp]: "bit (1023 :: int) n \<longleftrightarrow> n < 10"
proof -
  have "(1023 :: int) = Bit_Operations.mask 10" by (simp add: mask_eq_exp_minus_1)
  then show ?thesis by (simp only: bit_mask_iff possible_bit_def) simp
qed

lemma bit_4194303 [simp]: "bit (4194303 :: int) n \<longleftrightarrow> n < 22"
proof -
  have "(4194303 :: int) = Bit_Operations.mask 22" by (simp add: mask_eq_exp_minus_1)
  then show ?thesis by (simp only: bit_mask_iff possible_bit_def) simp
qed

lemma PAGE_MASK_bits: "bit PAGE_MASK n \<longleftrightarrow> 12 \<le> n \<and> n < 32"
  by (auto simp: page_consts bit_simps)

lemma aligned_bits: "(a :: u32) AND 0xFFF = 0 \<Longrightarrow> n < 12 \<Longrightarrow> \<not> bit a n"
proof
  assume a: "a AND 0xFFF = 0" and n: "n < 12" "bit a n"
  have "bit (a AND 0xFFF) n" using n unfolding bit_and_iff by simp
  with a show False by simp
qed

lemma low_bits: "(x :: u32) AND 1023 = take_bit 10 x" "(x :: u32) AND 4095 = take_bit 12 x"
  by (simp_all add: take_bit_eq_mask mask_eq_exp_minus_1)

lemma page_aligned: "(a :: u32) AND 0xFFF = 0 \<longleftrightarrow> 4096 dvd unat a"
proof -
  have "unat (a AND 0xFFF) = unat a mod 4096"
    by (simp only: low_bits unsigned_take_bit_eq) (simp add: take_bit_eq_mod)
  then show ?thesis by (metis dvd_eq_mod_eq_0 unat_eq_zero)
qed

lemma PAGE_ALIGN_aligned:
  assumes "(a :: u32) AND 0xFFF = 0"
  shows "PAGE_ALIGN a = a"
proof -
  have "a AND 0xFFF = 0" by (rule assms)
  then have "a + 0xFFF = a OR 0xFFF" by (simp add: disjunctive_add_eq_or)
  then show ?thesis
    using aligned_bits [OF assms] by (auto intro!: bit_word_eqI simp: PAGE_ALIGN_def page_consts bit_simps)
qed

lemma small_bits: "(f :: u32) < 0x1000 \<Longrightarrow> bit f n \<Longrightarrow> n < 12"
proof (rule ccontr)
  assume f: "f < 0x1000" "bit f n" "\<not> n < 12"
  have "unat f < 2 ^ 12" using f(1) by (simp add: word_less_nat_alt)
  then have "take_bit 12 (unat f) = unat f" by (simp add: take_bit_nat_eq_self)
  then have "bit (take_bit 12 (unat f)) n" using f(2) by (simp add: bit_unsigned_iff)
  with f(3) show False by (simp add: bit_simps)
qed

text \<open>The page number decides.\<close>

lemma unat_pdn: "unat (pdn va) = unat va div 2 ^ 22"
proof -
  have "pdn va = take_bit 10 (drop_bit 22 va)" by (simp add: pdn_def page_consts low_bits)
  then have "unat (pdn va) = (unat va div 2 ^ 22) mod 1024"
    by (simp only: unsigned_take_bit_eq unat_div_pow) (simp add: take_bit_eq_mod)
  moreover have "unat va div 2 ^ 22 < 1024" using unat32_bound [of va] by simp
  ultimately show ?thesis by simp
qed

lemma unat_ptn: "unat (ptn va) = (unat va div 2 ^ 12) mod 1024"
proof -
  have "ptn va = take_bit 10 (drop_bit 12 va)" by (simp add: ptn_def page_consts low_bits)
  then show ?thesis by (simp only: unsigned_take_bit_eq unat_div_pow) (simp add: take_bit_eq_mod)
qed

lemma page_offset_zero: "(x AND PAGE_MASK) AND 0xFFF = 0"
  by (rule bit_word_eqI) (auto simp: PAGE_MASK_bits bit_and_iff)

lemma page_frame: "(a :: u32) AND 0xFFF = 0 \<Longrightarrow> f < 0x1000 \<Longrightarrow> (a OR f) AND PAGE_MASK = a"
  using aligned_bits [of a] small_bits [of f]
  by (auto intro!: bit_word_eqI simp: PAGE_MASK_bits bit_and_iff bit_or_iff simp flip: not_less)

lemma KERNEL_ADDR_low: "p < 0x40000000 \<Longrightarrow> KERNEL_ADDR p = p + 0xC0000000"
proof -
  have "- KERNEL_VA = 0x40000000" by code_simp
  then show "p < 0x40000000 \<Longrightarrow> KERNEL_ADDR p = p + 0xC0000000" by (simp add: KERNEL_ADDR_def) (simp add: KERNEL_VA_def)
qed

subsection \<open>Tables in memory\<close>

definition aligned4 :: "u32 \<Rightarrow> bool" where "aligned4 a \<longleftrightarrow> 4 dvd unat a"

lemma aligned_bytes:
  assumes "aligned4 a" "k < 4"
  shows "unat (a + of_nat k) = unat a + k"
proof -
  have "unat a \<le> 2 ^ 32 - 4" using assms(1) unat32_bound [of a] unfolding aligned4_def by (auto elim!: dvdE)
  then show ?thesis using assms(2) by (simp add: unat_word_ariths unat_of_nat)
qed

lemma aligned_distinct:
  assumes "aligned4 a" "aligned4 b" "a \<noteq> b" "k < 4" "l < 4"
  shows "a + of_nat k \<noteq> b + of_nat l"
proof
  assume "a + of_nat k = b + of_nat l"
  then have "unat a + k = unat b + l" using aligned_bytes assms by metis
  then have "unat a div 4 = unat b div 4"
    using assms unfolding aligned4_def by (auto elim!: dvdE)
  then have "unat a = unat b" using assms unfolding aligned4_def by auto
  then show False using assms(3) by (simp add: word_unat_eq_iff)
qed

lemma load_other:
  assumes "aligned4 a" "aligned4 b" "a \<noteq> b"
  shows "load32 (store32 a v mem) b = load32 mem b"
proof -
  have "\<forall>k \<in> set [0, 1, 2, 3]. \<forall>l \<in> set [0, 1, 2, 3]. b + of_nat l \<noteq> a + of_nat k"
  proof (intro ballI)
    fix k l :: nat
    assume "k \<in> set [0, 1, 2, 3]" "l \<in> set [0, 1, 2, 3]"
    then have "k < 4" "l < 4" by auto
    then show "b + of_nat l \<noteq> a + of_nat k" using aligned_distinct [OF assms] by metis
  qed
  then show ?thesis by (simp add: load32_def store32_def)
qed

lemma load_same: "load32 (store32 a v mem) a = v"
proof (rule bit_word_eqI)
  fix n assume "n < LENGTH(32)"
  then consider "n < 8" | "8 \<le> n" "n < 16" | "16 \<le> n" "n < 24" | "24 \<le> n" "n < 32" by fastforce
  then show "bit (load32 (store32 a v mem) a) n = bit v n" by cases (auto simp: load32_def store32_def bit_simps)
qed

text \<open>The entries of a table, a page that starts at \<open>tbl\<close>.\<close>

definition slot :: "u32 \<Rightarrow> nat \<Rightarrow> u32" where "slot tbl i = tbl + 4 * of_nat i"

lemma unat_slot:
  assumes "4096 dvd unat tbl" "i < 1024"
  shows "unat (slot tbl i) = unat tbl + 4 * i"
proof -
  have "unat tbl \<le> 2 ^ 32 - 4096" using assms(1) unat32_bound [of tbl] by (auto elim!: dvdE)
  then show ?thesis using assms(2) by (simp add: slot_def unat_word_ariths unat_of_nat)
qed

lemma slots_distinct:
  assumes "4096 dvd unat t" "4096 dvd unat u" "i < 1024" "j < 1024" "t \<noteq> u \<or> i \<noteq> j"
  shows "slot t i \<noteq> slot u j" "aligned4 (slot t i)"
proof -
  obtain k l where kl: "unat t = 4096 * k" "unat u = 4096 * l" using assms(1,2) by (auto elim!: dvdE)
  show "slot t i \<noteq> slot u j"
  proof
    assume "slot t i = slot u j"
    then have eq: "1024 * k + i = 1024 * l + j" using unat_slot [OF assms(1,3)] unat_slot [OF assms(2,4)] kl by simp
    have "(1024 * k + i) div 1024 = k" "(1024 * l + j) div 1024 = l" using assms(3,4) by simp_all
    with eq have "k = l" "i = j" by simp_all
    with assms(5) kl show False by (simp add: word_unat_eq_iff)
  qed
  show "aligned4 (slot t i)" using assms(1) unat_slot [OF assms(1,3)] by (auto simp: aligned4_def elim!: dvdE)
qed

lemma fill_table_other:
  assumes "4096 dvd unat t" "4096 dvd unat u" "n \<le> 1024" "j < 1024" "t \<noteq> u \<or> n \<le> j"
  shows "load32 (fill_table t f n mem) (slot u j) = load32 mem (slot u j)"
  using assms(3,5)
proof (induction n)
  case (Suc n)
  have "slot t n \<noteq> slot u j" "aligned4 (slot t n)" "aligned4 (slot u j)"
    using slots_distinct [OF assms(1,2), of n j] slots_distinct(2) [OF assms(2,1,4), of n] Suc.prems assms(4) by auto
  then show ?case using Suc load_other by (auto simp: slot_def)
qed simp

lemma fill_table_slot:
  assumes "4096 dvd unat t" "n \<le> 1024" "j < n"
  shows "load32 (fill_table t f n mem) (slot t j) = f j"
  using assms(2,3)
proof (induction n)
  case (Suc n)
  show ?case
  proof (cases "j = n")
    case True
    then show ?thesis using load_same by (simp add: slot_def)
  next
    case False
    then have "slot t n \<noteq> slot t j" "aligned4 (slot t n)" "aligned4 (slot t j)"
      using slots_distinct [OF assms(1,1), of n j] slots_distinct(2) [OF assms(1,1), of j n] Suc.prems by auto
    then show ?thesis using Suc False load_other by (auto simp: slot_def)
  qed
qed simp

text \<open>The two tables after \<open>setup_paging\<close>.\<close>

lemma boot_tables:
  assumes d: "page_dir AND 0xFFF = 0" "page_dir < 0x40000000" and t: "page_tbl AND 0xFFF = 0" "page_tbl < 0x40000000" and ne: "page_dir \<noteq> page_tbl"
    and i: "i < 1024"
  shows "load32 (setup_paging page_dir page_tbl mem) (slot (KERNEL_ADDR page_dir) i) = (if i = 768 then page_tbl OR PAGE_FLAGS OR X_PAGE_PDE else 0)"
    and "pte_present (load32 (setup_paging page_dir page_tbl mem) (slot (KERNEL_ADDR page_tbl) i)) \<longleftrightarrow> 0 < i \<and> i < 512"
proof -
  let ?d = "KERNEL_ADDR page_dir" and ?t = "KERNEL_ADDR page_tbl"
  have ka: "KERNEL_ADDR page_dir = page_dir + 0xC0000000" "KERNEL_ADDR page_tbl = page_tbl + 0xC0000000"
    using d(2) t(2) by (simp_all add: KERNEL_ADDR_low)
  have un: "unat ?d = unat page_dir + 0xC0000000" "unat ?t = unat page_tbl + 0xC0000000"
    using d(2) t(2) unfolding ka by (simp_all add: unat_word_ariths word_less_nat_alt)
  have al: "4096 dvd unat ?d" "4096 dvd unat ?t" using d(1) t(1) unfolding un by (auto simp: page_aligned elim!: dvdE)
  have nd: "?d \<noteq> ?t" using ne by (simp add: ka)
  define m1 where "m1 = fill_table ?t (\<lambda>_. 0) 1024 (fill_table ?d (\<lambda>_. 0) 1024 mem)"
  define m2 where "m2 = fill_table ?t (\<lambda>n. push_bit 12 (of_nat n) OR PAGE_FLAGS) 512 m1"
  define m3 where "m3 = store32 (slot ?t 0) (load32 m2 (slot ?t 0) AND NOT X_PAGE_PRESENT) m2"
  define pde where "pde = page_tbl OR PAGE_FLAGS OR X_PAGE_PDE"
  have set: "setup_paging page_dir page_tbl mem = store32 (slot ?d 0) 0 (store32 (slot ?d 768) pde (store32 (slot ?d 0) pde m3))"
    by (simp add: setup_paging_def Let_def m1_def m2_def m3_def pde_def page_consts NR_PAGES_def slot_def pdn_def KERNEL_VA_def)
  have lo: "load32 (store32 (slot a k) v m) (slot b j) = (if a = b \<and> k = j then v else load32 m (slot b j))"
    if "a = ?d \<or> a = ?t" "b = ?d \<or> b = ?t" "k < 1024" "j < 1024" for a b k j v m
    proof (cases "a = b \<and> k = j")
      case True
      then show ?thesis using load_same by simp
    next
      case False
      have "4096 dvd unat a" "4096 dvd unat b" using that al by auto
      then show ?thesis
        using False that load_other [of "slot a k" "slot b j"] slots_distinct [of a b k j] slots_distinct(2) [of b a j k] by auto
    qed
  have m1: "load32 m1 (slot ?d j) = 0" "load32 m1 (slot ?t j) = 0" if "j < 1024" for j
    using that fill_table_other [OF al(2,1), of 1024 j] fill_table_slot [OF al(1), of 1024 j] fill_table_slot [OF al(2), of 1024 j] nd
    by (simp_all add: m1_def)
  have m2: "load32 m2 (slot ?d j) = 0" "load32 m2 (slot ?t j) = (if j < 512 then push_bit 12 (of_nat j) OR PAGE_FLAGS else 0)" if "j < 1024" for j
    using that m1 fill_table_other [OF al(2,1), of 512 j] fill_table_other [OF al(2,2), of 512 j] fill_table_slot [OF al(2), of 512 j] nd
    by (simp_all add: m2_def)
  show "load32 (setup_paging page_dir page_tbl mem) (slot ?d i) = (if i = 768 then page_tbl OR PAGE_FLAGS OR X_PAGE_PDE else 0)"
    using i nd m2 by (auto simp: set m3_def lo pde_def)
  have "load32 (setup_paging page_dir page_tbl mem) (slot ?t i) = (if i = 0 then PAGE_FLAGS AND NOT X_PAGE_PRESENT
      else if i < 512 then push_bit 12 (of_nat i) OR PAGE_FLAGS else 0)"
    using i nd m2 by (auto simp: set m3_def lo)
  then show "pte_present (load32 (setup_paging page_dir page_tbl mem) (slot ?t i)) \<longleftrightarrow> 0 < i \<and> i < 512"
    by (simp add: page_tests bit_simps PAGE_FLAGS_def page_flags)
qed

lemma slot_offset: "tbl + 4 * w = slot tbl (unat w)"
  by (simp add: slot_def)

lemma pn_bounds: "unat (pdn va) < 1024" "unat (ptn va) < 1024"
  using unat32_bound [of va] by (simp_all add: unat_pdn unat_ptn)

lemma same_page_valid:
  assumes "unat a div 4096 = unat b div 4096"
  shows "virt_addr_valid r mem a = virt_addr_valid r mem b"
proof -
  have "unat a div 4096 div 1024 = unat b div 4096 div 1024" using assms by simp
  then have "pdn a = pdn b" by (simp add: word_unat_eq_iff unat_pdn flip: div_mult2_eq)
  moreover have "ptn a = ptn b" using assms by (simp add: word_unat_eq_iff unat_ptn)
  ultimately have "pde_offset x a = pde_offset x b" "pte_offset x a = pte_offset x b" for x by (simp_all add: pde_offset_def pte_offset_def)
  then show ?thesis unfolding virt_addr_valid_def walk_page_table_def by (simp cong: if_cong)
qed

lemma walk_tables:
  assumes d: "page_dir AND 0xFFF = 0" "page_dir < 0x40000000" "pg_cr3 r = page_dir" "pg_page_dir r = page_dir"
    and pde: "load32 mem (slot (KERNEL_ADDR page_dir) (unat (pdn va))) = pde" "pde AND PAGE_MASK = t" "t < 0x40000000"
  shows "virt_addr_valid r mem va = Some (pde_present pde \<and> pte_present (load32 mem (slot (KERNEL_ADDR t) (unat (ptn va)))))"
proof -
  let ?d = "KERNEL_ADDR page_dir"
  have un: "unat ?d = unat page_dir + 0xC0000000" "4096 dvd unat ?d"
    using d(1,2) unfolding KERNEL_ADDR_low [OF d(2)] by (simp_all add: unat_word_ariths word_less_nat_alt page_aligned)
  have s: "unat (slot ?d (unat (pdn va))) \<ge> 0xC0000000" using unat_slot [OF un(2) pn_bounds(1), of va] un(1) by simp
  have m: "- KERNEL_VA = 0x40000000" by code_simp
  have "KERNEL_ADDR (pde_offset ?d va) = slot ?d (unat (pdn va))"
    using s unfolding pde_offset_def slot_offset KERNEL_ADDR_def m by (simp add: word_le_nat_alt)
  moreover have "KERNEL_ADDR (pte_offset pde va) = slot (KERNEL_ADDR t) (unat (ptn va))"
  proof -
    have "t AND 0xFFF = 0" using page_offset_zero [of pde] unfolding pde(2) .
    then have "4096 dvd unat t" by (simp add: page_aligned)
    then have "unat (slot t (unat (ptn va))) < 0x40000000"
      using unat_slot [OF _ pn_bounds(2), of t va] pde(3) pn_bounds(2) [of va] by (auto simp: word_less_nat_alt elim!: dvdE)
    then have "KERNEL_ADDR (slot t (unat (ptn va))) = slot t (unat (ptn va)) + 0xC0000000"
      by (intro KERNEL_ADDR_low) (simp add: word_less_nat_alt)
    then show ?thesis using KERNEL_ADDR_low [OF pde(3)] by (simp add: pte_offset_def pde_page_def pde(2) slot_def)
  qed
  ultimately show ?thesis
    using pde(1) d(3,4) by (simp add: virt_addr_valid_def walk_page_table_def get_pgdir_def Let_def)
qed

lemma page_range: "q = 1024 * d + m \<Longrightarrow> m < 1024 \<Longrightarrow> d = 768 \<and> 0 < m \<and> m < 512 \<longleftrightarrow> 786433 \<le> q \<and> q < 786944" for q d m :: nat
  by (cases d "768 :: nat" rule: linorder_cases) auto





end
