(* ===== verification/Memmap.thy ===== *)
theory Memmap
  imports Paging Pool
begin

text \<open>
  The physical memory map: \<open>init_mm\<close> of \<^verbatim>\<open>src/kernel/mm.c\<close> on the boot information of \<^verbatim>\<open>src/include/i386/boot.h\<close>.

  The firmware's table at \<open>boot->mem_map\<close> is a list of entries; reading past its end has no result. \<open>phys_mmap\<close> has 64 entries that are zero before.
  The messages are not modelled; \<open>kernel_end\<close> is the address of the linker symbol \<open>__kernel_end\<close>.
\<close>

datatype zone_type = ZONE_INVALID | ZONE_STATIC | ZONE_DYNAMIC | ZONE_DMA | ZONE_ACPI

record acpi_mmap_entry =
  ae_base :: u64
  ae_length :: u64
  ae_type :: u32
  ae_attributes :: u32

definition ACPI_MMAP_TYPE_INVALID :: u32 where "ACPI_MMAP_TYPE_INVALID = 0"
definition ACPI_MMAP_TYPE_USABLE :: u32 where "ACPI_MMAP_TYPE_USABLE = 1"
definition ACPI_MMAP_TYPE_RESERVED :: u32 where "ACPI_MMAP_TYPE_RESERVED = 2"
definition ACPI_MMAP_TYPE_ACPI :: u32 where "ACPI_MMAP_TYPE_ACPI = 3"
definition ACPI_MMAP_TYPE_NVS :: u32 where "ACPI_MMAP_TYPE_NVS = 4"
definition ACPI_MMAP_TYPE_BAD :: u32 where "ACPI_MMAP_TYPE_BAD = 5"

lemmas mmap_types = ACPI_MMAP_TYPE_INVALID_def ACPI_MMAP_TYPE_USABLE_def ACPI_MMAP_TYPE_RESERVED_def ACPI_MMAP_TYPE_ACPI_def
  ACPI_MMAP_TYPE_NVS_def ACPI_MMAP_TYPE_BAD_def

record boot_info =
  bi_ebda_base :: u32
  bi_mem_map :: u32
  bi_kb_low :: u32
  bi_kb_high :: u32
  bi_kb_high_e801h :: u32
  bi_kb_extended :: u32

record phys_mmap_entry =
  pm_acpi_entry :: acpi_mmap_entry
  pm_base :: u64
  pm_limit :: u64
  pm_zone :: zone_type
  pm_reserved :: bool
  pm_bad :: bool

definition zero_mmap_entry :: phys_mmap_entry where
  "zero_mmap_entry = \<lparr>pm_acpi_entry = \<lparr>ae_base = 0, ae_length = 0, ae_type = 0, ae_attributes = 0\<rparr>, pm_base = 0, pm_limit = 0,
     pm_zone = ZONE_INVALID, pm_reserved = False, pm_bad = False\<rparr>"

definition NR_PHYS_MMAP :: nat where "NR_PHYS_MMAP = 64"

text \<open>1536 kilobytes.\<close>

definition MEMORY_REQUIRED :: int where "MEMORY_REQUIRED = 1536 * 1024"

definition KernelEndPhys :: "u32 \<Rightarrow> int" where
  "KernelEndPhys kernel_end = sint (PAGE_ALIGN (PHYSICAL_ADDR kernel_end))"

text \<open>\<open>mkentry\<close> with a size that is an \<open>int\<close>, shifted by ten bits.\<close>

definition mkentry :: "int \<Rightarrow> int \<Rightarrow> zone_type \<Rightarrow> phys_mmap_entry option" where
  "mkentry base kb zone = do {
     siz \<leftarrow> int32 (kb * 2 ^ 10);
     s \<leftarrow> int32 (base + siz);
     lim \<leftarrow> int32 (s - 1);
     Some (zero_mmap_entry\<lparr>pm_base := of_int base, pm_limit := of_int lim, pm_zone := zone\<rparr>)
   }"

text \<open>The map without the table of the firmware: up to three ranges.\<close>

definition e801_map :: "boot_info \<Rightarrow> u32 \<Rightarrow> phys_mmap_entry list option" where
  "e801_map boot kernel_end = do {
     let kb_free_low = sint (bi_kb_low boot);
     let (kb_free_1M, kb_free_16M) =
       (if bi_kb_high_e801h boot \<noteq> 0 then (sint (bi_kb_high_e801h boot), sint (push_bit 6 (bi_kb_extended boot)))
        else (sint (bi_kb_high boot), 0));
     low \<leftarrow> (if kb_free_low \<noteq> 0 then map_option (\<lambda>e. [e]) (mkentry 0 kb_free_low ZONE_DMA) else Some []);
     m1 \<leftarrow> (if kb_free_1M \<noteq> 0
       then map_option (\<lambda>e. [e]) (mkentry (2 ^ 20) kb_free_1M (if KernelEndPhys kernel_end < 2 ^ 20 then ZONE_DYNAMIC else ZONE_STATIC)) else Some []);
     m16 \<leftarrow> (if kb_free_16M \<noteq> 0
       then map_option (\<lambda>e. [e]) (mkentry (2 ^ 24) kb_free_16M (if KernelEndPhys kernel_end < 2 ^ 24 then ZONE_DYNAMIC else ZONE_STATIC)) else Some []);
     Some (low @ m1 @ m16)
   }"

text \<open>One entry of the table of the firmware.\<close>

definition e820_entry :: "boot_info \<Rightarrow> u32 \<Rightarrow> acpi_mmap_entry \<Rightarrow> phys_mmap_entry" where
  "e820_entry boot kernel_end e =
    (let p = zero_mmap_entry\<lparr>pm_base := ae_base e, pm_limit := ae_base e + ae_length e - 1, pm_zone := ZONE_STATIC, pm_acpi_entry := e,
           pm_bad := (ae_type e = ACPI_MMAP_TYPE_BAD), pm_reserved := (ae_type e \<noteq> ACPI_MMAP_TYPE_USABLE)\<rparr>
     in if ae_type e = ACPI_MMAP_TYPE_ACPI \<or> ae_type e = ACPI_MMAP_TYPE_NVS then
          p\<lparr>pm_zone := ZONE_ACPI, pm_reserved := (ae_type e = ACPI_MMAP_TYPE_NVS)\<rparr>
        else if pm_base p < of_int (sint (bi_ebda_base boot)) then p\<lparr>pm_zone := ZONE_DMA\<rparr>
        else if pm_base p \<ge> of_int (KernelEndPhys kernel_end) \<and> \<not> pm_reserved p then p\<lparr>pm_zone := ZONE_DYNAMIC\<rparr>
        else p)"

text \<open>The loop over the table, with \<open>k\<close> entries of \<open>phys_mmap\<close> left.\<close>

fun e820_map :: "boot_info \<Rightarrow> u32 \<Rightarrow> nat \<Rightarrow> acpi_mmap_entry list \<Rightarrow> phys_mmap_entry list option" where
  "e820_map boot kernel_end 0 es = Some []"
| "e820_map boot kernel_end (Suc k) [] = None"
| "e820_map boot kernel_end (Suc k) (e # es) =
    (if ae_type e = ACPI_MMAP_TYPE_INVALID then Some []
     else do { ps \<leftarrow> e820_map boot kernel_end k es; Some (e820_entry boot kernel_end e # ps) })"

definition size_kb :: "phys_mmap_entry \<Rightarrow> u32" where
  "size_kb p = ucast (drop_bit 10 (pm_limit p - pm_base p + 1))"

text \<open>The loop that adds up the sizes; there is no entry behind the last one.\<close>

fun sum_map :: "phys_mmap_entry list \<Rightarrow> u32 \<Rightarrow> u32 \<Rightarrow> (u32 \<times> u32) option" where
  "sum_map [] total_kb total_kb_free = None"
| "sum_map (p # ps) total_kb total_kb_free =
    (if pm_zone p = ZONE_INVALID then Some (total_kb, total_kb_free)
     else sum_map ps (total_kb + size_kb p) (if \<not> pm_reserved p \<and> \<not> pm_bad p then total_kb_free + size_kb p else total_kb_free))"

text \<open>The result: \<open>phys_mmap\<close>, the two totals, and the initialised pools.\<close>

definition init_mm :: "boot_info \<Rightarrow> acpi_mmap_entry list \<Rightarrow> u32 \<Rightarrow> pool_state \<Rightarrow> (phys_mmap_entry list \<times> int \<times> int \<times> pool_state) option" where
  "init_mm boot e820 kernel_end s = do {
     ps \<leftarrow> (if bi_mem_map boot = 0 then e801_map boot kernel_end else e820_map boot kernel_end NR_PHYS_MMAP e820);
     let phys_mmap = ps @ replicate (NR_PHYS_MMAP - length ps) zero_mmap_entry;
     (total_kb, total_kb_free) \<leftarrow> sum_map phys_mmap 0 0;
     assert_opt (sint total_kb_free \<ge> MEMORY_REQUIRED div 2 ^ 10);
     Some (phys_mmap, sint total_kb, sint total_kb_free, init_pool s)
   }"

subsection \<open>The memory that is found\<close>

definition usable :: "acpi_mmap_entry \<Rightarrow> bool" where
  "usable e \<longleftrightarrow> ae_type e = ACPI_MMAP_TYPE_USABLE \<or> ae_type e = ACPI_MMAP_TYPE_ACPI"

definition kbytes :: "acpi_mmap_entry \<Rightarrow> nat" where
  "kbytes e = unat (ae_length e) div 1024"

lemma e820_map_eq:
  assumes "\<forall>e \<in> set es. ae_type e \<noteq> 0"
  shows "length es < k \<Longrightarrow> ae_type z = 0 \<Longrightarrow> e820_map boot kend k (es @ z # rest) = Some (map (e820_entry boot kend) es)"
    and "length es = k \<Longrightarrow> e820_map boot kend k (es @ rest) = Some (map (e820_entry boot kend) es)"
  using assms
proof (induction es arbitrary: k)
  case Nil
  { case 1 then show ?case by (cases k) (auto simp: mmap_types) }
  { case 2 then show ?case by simp }
next
  case (Cons e es)
  { case 1 then show ?case using Cons.IH(1) by (cases k) (auto simp: mmap_types) }
  { case 2 then show ?case using Cons.IH(2) by (cases k) (auto simp: mmap_types) }
qed

lemma entry_fields:
  "pm_zone (e820_entry boot kend e) \<noteq> ZONE_INVALID" "pm_base (e820_entry boot kend e) = ae_base e"
  "pm_limit (e820_entry boot kend e) = ae_base e + ae_length e - 1" "pm_bad (e820_entry boot kend e) \<longleftrightarrow> ae_type e = 5"
  "pm_reserved (e820_entry boot kend e) \<longleftrightarrow> ae_type e \<noteq> 1 \<and> ae_type e \<noteq> 3"
  by (auto simp: e820_entry_def Let_def mmap_types zero_mmap_entry_def)

lemma entry_size: "kbytes e < 2 ^ 32 \<Longrightarrow> size_kb (e820_entry boot kend e) = of_nat (kbytes e)"
proof -
  assume k: "kbytes e < 2 ^ 32"
  have "size_kb (e820_entry boot kend e) = ucast (drop_bit 10 (ae_length e))"
    by (simp add: size_kb_def entry_fields)
  moreover have "unat (drop_bit 10 (ae_length e)) = kbytes e"
  proof -
    have "unat (ae_length e) < 2 ^ 64" by (rule order_less_le_trans [OF unsigned_less]) simp
    then show ?thesis unfolding kbytes_def by (subst unsigned_drop_bit_eq) (simp add: drop_bit_eq_div take_bit_eq_mod)
  qed
  ultimately show ?thesis by (metis of_nat_unat)
qed

lemma sum_entries:
  assumes "\<forall>e \<in> set es. kbytes e < 2 ^ 32"
  shows "sum_map (map (e820_entry boot kend) es @ rest) t f =
    sum_map rest (t + of_nat (\<Sum>e\<leftarrow>es. kbytes e)) (f + of_nat (\<Sum>e\<leftarrow>filter usable es. kbytes e))"
  using assms
proof (induction es arbitrary: t f)
  case (Cons e es)
  have "sum_map (map (e820_entry boot kend) (e # es) @ rest) t f =
      sum_map (map (e820_entry boot kend) es @ rest) (t + of_nat (kbytes e)) (if usable e then f + of_nat (kbytes e) else f)"
    using Cons.prems by (auto simp: entry_fields entry_size usable_def mmap_types)
  also have "\<dots> = sum_map rest (t + of_nat (kbytes e) + of_nat (\<Sum>e\<leftarrow>es. kbytes e))
      ((if usable e then f + of_nat (kbytes e) else f) + of_nat (\<Sum>e\<leftarrow>filter usable es. kbytes e))"
    using Cons.prems by (intro Cons.IH) auto
  finally show ?case by (simp add: add.assoc)
qed simp

lemma sum_usable_le: "(\<Sum>e\<leftarrow>filter P es. k e) \<le> (\<Sum>e\<leftarrow>es. k e)" for k :: "'a \<Rightarrow> nat"
  by (induction es) auto

lemma member_sum_le: "e \<in> set es \<Longrightarrow> k e \<le> (\<Sum>e\<leftarrow>es. k e)" for k :: "'a \<Rightarrow> nat"
  by (induction es) auto

text \<open>
  C23: The memory map from the table of the firmware, when that has fewer than 64 entries and less than two terabytes: \<open>phys_mmap\<close> holds an entry per entry of the
  table, with the totals of all and of the usable memory (type 1, and the reclaimable type 3) in kilobytes, each entry rounded down; with less than 1536
  usable kilobytes the kernel panics. Memory is given to the dynamic zone only when it is usable and starts behind the kernel; entries below the
  extended BIOS data area are for DMA unless they are ACPI memory. With 64 entries the array is full, and the loop that adds up the sizes reads
  behind its end.
\<close>

theorem init_mm_e820:
  assumes "bi_mem_map boot \<noteq> 0" "\<forall>e \<in> set es. ae_type e \<noteq> 0" "ae_type z = 0" "(\<Sum>e\<leftarrow>es. kbytes e) < 2 ^ 31"
  shows "(length es < 64 \<longrightarrow>
      init_mm boot (es @ z # rest) kend s =
        (if (\<Sum>e\<leftarrow>filter usable es. kbytes e) < 1536 then None
         else Some (map (e820_entry boot kend) es @ replicate (64 - length es) zero_mmap_entry,
           int (\<Sum>e\<leftarrow>es. kbytes e), int (\<Sum>e\<leftarrow>filter usable es. kbytes e), init_pool s))) \<and>
    (length es = 64 \<longrightarrow> init_mm boot (es @ rest) kend s = None) \<and>
    (\<forall>e. let p = e820_entry boot kend e in
      (pm_zone p = ZONE_DYNAMIC \<longrightarrow> ae_type e = 1 \<and> pm_base p \<ge> of_int (KernelEndPhys kend)) \<and>
      (pm_zone p = ZONE_DMA \<longleftrightarrow> ae_type e \<noteq> 3 \<and> ae_type e \<noteq> 4 \<and> ae_base e < of_int (sint (bi_ebda_base boot))) \<and>
      (pm_zone p = ZONE_ACPI \<longleftrightarrow> ae_type e = 3 \<or> ae_type e = 4))"
proof (intro conjI impI allI)
  have small: "\<forall>e \<in> set es. kbytes e < 2 ^ 32" using member_sum_le [of _ es kbytes] assms(4) by fastforce
  have us: "(\<Sum>e\<leftarrow>filter usable es. kbytes e) < 2 ^ 31" using sum_usable_le [of kbytes usable es] assms(4) by linarith
  have si: "sint (of_nat n :: u32) = int n" if "n < 2 ^ 31" for n
    using that by (simp add: sint_uint uint_nat unat_of_nat signed_take_bit_int_eq_self)
  {
    assume l: "length es < 64"
    have "sum_map (map (e820_entry boot kend) es @ replicate (64 - length es) zero_mmap_entry) 0 0 =
        Some (of_nat (\<Sum>e\<leftarrow>es. kbytes e), of_nat (\<Sum>e\<leftarrow>filter usable es. kbytes e))"
      using l sum_entries [OF small, of boot kend "replicate (64 - length es) zero_mmap_entry" 0 0]
      by (cases "64 - length es") (simp_all add: zero_mmap_entry_def)
    then show "init_mm boot (es @ z # rest) kend s =
        (if (\<Sum>e\<leftarrow>filter usable es. kbytes e) < 1536 then None
         else Some (map (e820_entry boot kend) es @ replicate (64 - length es) zero_mmap_entry,
           int (\<Sum>e\<leftarrow>es. kbytes e), int (\<Sum>e\<leftarrow>filter usable es. kbytes e), init_pool s))"
      using assms(1) e820_map_eq(1) [OF assms(2) l assms(3), of boot kend rest] si [OF us] si [OF assms(4)]
      by (simp add: init_mm_def NR_PHYS_MMAP_def MEMORY_REQUIRED_def assert_opt_def)
  }
  {
    assume l: "length es = 64"
    then show "init_mm boot (es @ rest) kend s = None"
      using assms(1) e820_map_eq(2) [OF assms(2) l, of boot kend rest] sum_entries [OF small, of boot kend "[]" 0 0]
      by (simp add: init_mm_def NR_PHYS_MMAP_def)
  }
  fix e
  show "let p = e820_entry boot kend e in
      (pm_zone p = ZONE_DYNAMIC \<longrightarrow> ae_type e = 1 \<and> pm_base p \<ge> of_int (KernelEndPhys kend)) \<and>
      (pm_zone p = ZONE_DMA \<longleftrightarrow> ae_type e \<noteq> 3 \<and> ae_type e \<noteq> 4 \<and> ae_base e < of_int (sint (bi_ebda_base boot))) \<and>
      (pm_zone p = ZONE_ACPI \<longleftrightarrow> ae_type e = 3 \<or> ae_type e = 4)"
    by (auto simp: e820_entry_def Let_def mmap_types zero_mmap_entry_def split: if_splits)
qed

definition ex_boot :: boot_info where
  "ex_boot = \<lparr>bi_ebda_base = 0x9FC00, bi_mem_map = 0x1000, bi_kb_low = 639, bi_kb_high = 0, bi_kb_high_e801h = 0, bi_kb_extended = 0\<rparr>"

definition ex_e820 :: "acpi_mmap_entry list" where
  "ex_e820 = [\<lparr>ae_base = 0, ae_length = 0x9FC00, ae_type = 1, ae_attributes = 0\<rparr>, \<lparr>ae_base = 0x100000, ae_length = 0x1000000, ae_type = 1, ae_attributes = 0\<rparr>]"

theorem init_mm_e820_witness:
  "\<forall>s. \<exists>m s'. init_mm ex_boot (ex_e820 @ [\<lparr>ae_base = 0, ae_length = 0, ae_type = 0, ae_attributes = 0\<rparr>]) 0xC0180000 s = Some (m, 17023, 17023, s')"
proof
  fix s
  show "\<exists>m s'. init_mm ex_boot (ex_e820 @ [\<lparr>ae_base = 0, ae_length = 0, ae_type = 0, ae_attributes = 0\<rparr>]) 0xC0180000 s = Some (m, 17023, 17023, s')"
    using init_mm_e820 [of ex_boot ex_e820 "\<lparr>ae_base = 0, ae_length = 0, ae_type = 0, ae_attributes = 0\<rparr>" "[]" "0xC0180000" s]
    by (simp add: ex_boot_def ex_e820_def kbytes_def usable_def mmap_types)
qed

end
