(* ===== verification/X86.thy ===== *)
theory X86
  imports Ioctl
begin

text \<open>
  The processor's tables: descriptors, gates and task state segments of \<^verbatim>\<open>src/include/i386/x86.h\<close> and \<^verbatim>\<open>src/i386/kernel/x86.c\<close>, their setup and the
  identification of the processor in \<^verbatim>\<open>src/i386/kernel/cpu.c\<close>.

  A descriptor is its 64-bit value; the fields of the unions are positions and widths in it. The addresses of linker symbols and of the interrupt entries are
  the record \<open>cpu_syms\<close>. The registers of the descriptor tables hold the addresses that the assembly code has loaded into them, so that the assertions of
  \<open>get_gdt\<close> and \<open>get_idt\<close> hold; \<open>ltr\<close> and \<open>lldt\<close> store the selector. The instruction \<open>cpuid\<close> is a function from the leaf to the four registers.
\<close>

subsection \<open>Descriptors (x86.h)\<close>

definition put_field :: "nat \<times> nat \<Rightarrow> u32 \<Rightarrow> u64 \<Rightarrow> u64" where
  "put_field f v d = (case f of (lo, n) \<Rightarrow> (d AND NOT (push_bit lo (mask n))) OR push_bit lo (take_bit n (ucast v)))"

definition get_field :: "nat \<times> nat \<Rightarrow> u64 \<Rightarrow> u32" where
  "get_field f d = (case f of (lo, n) \<Rightarrow> ucast (take_bit n (drop_bit lo d)))"

definition seg_limitlo :: "nat \<times> nat" where "seg_limitlo = (0, 16)"
definition seg_baselo :: "nat \<times> nat" where "seg_baselo = (16, 24)"
definition seg_type :: "nat \<times> nat" where "seg_type = (40, 4)"
definition seg_s :: "nat \<times> nat" where "seg_s = (44, 1)"
definition seg_dpl :: "nat \<times> nat" where "seg_dpl = (45, 2)"
definition seg_p :: "nat \<times> nat" where "seg_p = (47, 1)"
definition seg_limithi :: "nat \<times> nat" where "seg_limithi = (48, 4)"
definition seg_avl :: "nat \<times> nat" where "seg_avl = (52, 1)"
definition seg_db :: "nat \<times> nat" where "seg_db = (54, 1)"
definition seg_g :: "nat \<times> nat" where "seg_g = (55, 1)"
definition seg_basehi :: "nat \<times> nat" where "seg_basehi = (56, 8)"

definition tss_limitlo :: "nat \<times> nat" where "tss_limitlo = (0, 16)"
definition tss_baselo :: "nat \<times> nat" where "tss_baselo = (16, 24)"
definition tss_type :: "nat \<times> nat" where "tss_type = (40, 4)"
definition tss_dpl :: "nat \<times> nat" where "tss_dpl = (45, 2)"
definition tss_p :: "nat \<times> nat" where "tss_p = (47, 1)"
definition tss_limithi :: "nat \<times> nat" where "tss_limithi = (48, 4)"
definition tss_avl :: "nat \<times> nat" where "tss_avl = (52, 1)"
definition tss_g :: "nat \<times> nat" where "tss_g = (55, 1)"
definition tss_basehi :: "nat \<times> nat" where "tss_basehi = (56, 8)"

definition task_segsel :: "nat \<times> nat" where "task_segsel = (16, 16)"
definition task_type :: "nat \<times> nat" where "task_type = (40, 4)"
definition task_dpl :: "nat \<times> nat" where "task_dpl = (45, 2)"
definition task_p :: "nat \<times> nat" where "task_p = (47, 1)"

definition call_offsetlo :: "nat \<times> nat" where "call_offsetlo = (0, 16)"
definition call_segsel :: "nat \<times> nat" where "call_segsel = (16, 16)"
definition call_num_params :: "nat \<times> nat" where "call_num_params = (32, 5)"
definition call_type :: "nat \<times> nat" where "call_type = (40, 4)"
definition call_dpl :: "nat \<times> nat" where "call_dpl = (45, 2)"
definition call_p :: "nat \<times> nat" where "call_p = (47, 1)"
definition call_offsethi :: "nat \<times> nat" where "call_offsethi = (48, 16)"

definition intr_offsetlo :: "nat \<times> nat" where "intr_offsetlo = (0, 16)"
definition intr_segsel :: "nat \<times> nat" where "intr_segsel = (16, 16)"
definition intr_type :: "nat \<times> nat" where "intr_type = (40, 4)"
definition intr_dpl :: "nat \<times> nat" where "intr_dpl = (45, 2)"
definition intr_p :: "nat \<times> nat" where "intr_p = (47, 1)"
definition intr_offsethi :: "nat \<times> nat" where "intr_offsethi = (48, 16)"

definition trap_offsetlo :: "nat \<times> nat" where "trap_offsetlo = (0, 16)"
definition trap_segsel :: "nat \<times> nat" where "trap_segsel = (16, 16)"
definition trap_type :: "nat \<times> nat" where "trap_type = (40, 4)"
definition trap_dpl :: "nat \<times> nat" where "trap_dpl = (45, 2)"
definition trap_p :: "nat \<times> nat" where "trap_p = (47, 1)"
definition trap_offsethi :: "nat \<times> nat" where "trap_offsethi = (48, 16)"

lemmas desc_fields =
  seg_limitlo_def seg_baselo_def seg_type_def seg_s_def seg_dpl_def seg_p_def seg_limithi_def seg_avl_def seg_db_def seg_g_def
  seg_basehi_def tss_limitlo_def tss_baselo_def tss_type_def tss_dpl_def tss_p_def tss_limithi_def tss_avl_def tss_g_def
  tss_basehi_def task_segsel_def task_type_def task_dpl_def task_p_def call_offsetlo_def call_segsel_def call_num_params_def
  call_type_def call_dpl_def call_p_def call_offsethi_def intr_offsetlo_def intr_segsel_def intr_type_def intr_dpl_def
  intr_p_def intr_offsethi_def trap_offsetlo_def trap_segsel_def trap_type_def trap_dpl_def trap_p_def trap_offsethi_def


definition DESCTYPE_LDT :: u32 where "DESCTYPE_LDT = 0x02"
definition DESCTYPE_TASK :: u32 where "DESCTYPE_TASK = 0x05"
definition DESCTYPE_TSS32 :: u32 where "DESCTYPE_TSS32 = 0x09"
definition DESCTYPE_CALL32 :: u32 where "DESCTYPE_CALL32 = 0x0C"
definition DESCTYPE_INTR32 :: u32 where "DESCTYPE_INTR32 = 0x0E"
definition DESCTYPE_TRAP32 :: u32 where "DESCTYPE_TRAP32 = 0x0F"
definition DESCTYPE_DATA_RW :: u32 where "DESCTYPE_DATA_RW = 0x02"
definition DESCTYPE_DATA_RWA :: u32 where "DESCTYPE_DATA_RWA = 0x03"
definition DESCTYPE_CODE_XR :: u32 where "DESCTYPE_CODE_XR = 0x0A"
definition DESCTYPE_CODE_XRA :: u32 where "DESCTYPE_CODE_XRA = 0x0B"

lemmas desctypes = DESCTYPE_LDT_def DESCTYPE_TASK_def DESCTYPE_TSS32_def DESCTYPE_CALL32_def DESCTYPE_INTR32_def DESCTYPE_TRAP32_def
  DESCTYPE_DATA_RW_def DESCTYPE_DATA_RWA_def DESCTYPE_CODE_XR_def DESCTYPE_CODE_XRA_def

definition TSS_SIZE :: u32 where "TSS_SIZE = 108"

definition x86_get_desc :: "u32 \<Rightarrow> nat" where "x86_get_desc segsel = unat (drop_bit 3 (segsel AND 0xFFFF))"
definition x86_seg_base :: "u64 \<Rightarrow> u32" where "x86_seg_base d = push_bit 24 (get_field seg_basehi d) OR get_field seg_baselo d"
definition x86_seg_limit :: "u64 \<Rightarrow> u32" where "x86_seg_limit d = push_bit 16 (get_field seg_limithi d) OR get_field seg_limitlo d"

record tss =
  tss_prev :: u16
  tss_esp0 :: u32
  tss_ss0 :: u16
  tss_cr3 :: u32
  tss_eip :: u32
  tss_esp :: u32
  tss_ebp :: u32
  tss_es :: u16
  tss_cs :: u16
  tss_ss :: u16
  tss_ds :: u16

subsection \<open>Making descriptors (x86.c)\<close>

definition make_seg_desc :: "u32 \<Rightarrow> u32 \<Rightarrow> u32 \<Rightarrow> u32 \<Rightarrow> u64" where
  "make_seg_desc dpl base limit type =
    (let d = 0;
         d = put_field seg_type type d;
         d = put_field seg_dpl dpl d;
         d = put_field seg_s 1 d;
         d = put_field seg_db 1 d;
         d = put_field seg_baselo (base AND 0x00FFFFFF) d;
         d = put_field seg_basehi (drop_bit 24 (base AND 0xFF000000)) d;
         d = put_field seg_limitlo (limit AND 0x0FFFF) d;
         d = put_field seg_limithi (drop_bit 16 (limit AND 0xF0000)) d;
         d = put_field seg_g 1 d
     in put_field seg_p 1 d)"

definition make_ldt_desc :: "u32 \<Rightarrow> u32 \<Rightarrow> u32 \<Rightarrow> u64" where
  "make_ldt_desc dpl base limit =
    (let d = 0;
         d = put_field seg_type DESCTYPE_LDT d;
         d = put_field seg_dpl dpl d;
         d = put_field seg_s 0 d;
         d = put_field seg_db 1 d;
         d = put_field seg_baselo (base AND 0x00FFFFFF) d;
         d = put_field seg_basehi (drop_bit 24 (base AND 0xFF000000)) d;
         d = put_field seg_limitlo (limit AND 0x0FFFF) d;
         d = put_field seg_limithi (drop_bit 16 (limit AND 0xF0000)) d;
         d = put_field seg_g 0 d
     in put_field seg_p 1 d)"

definition make_tss_desc :: "u32 \<Rightarrow> u32 \<Rightarrow> u64" where
  "make_tss_desc dpl base =
    (let d = 0;
         d = put_field tss_type DESCTYPE_TSS32 d;
         d = put_field tss_dpl dpl d;
         d = put_field tss_baselo (base AND 0x00FFFFFF) d;
         d = put_field tss_basehi (drop_bit 24 (base AND 0xFF000000)) d;
         d = put_field tss_limitlo ((TSS_SIZE - 1) AND 0x0FFFF) d;
         d = put_field tss_limithi (drop_bit 16 ((TSS_SIZE - 1) AND 0xF0000)) d;
         d = put_field tss_g 0 d
     in put_field tss_p 1 d)"

definition make_task_gate :: "u32 \<Rightarrow> u32 \<Rightarrow> u64" where
  "make_task_gate tss_segsel dpl =
    (let d = 0;
         d = put_field task_type DESCTYPE_TASK d;
         d = put_field task_segsel tss_segsel d;
         d = put_field task_dpl dpl d
     in put_field task_p 1 d)"

definition make_call_gate :: "u32 \<Rightarrow> u32 \<Rightarrow> u32 \<Rightarrow> u32 \<Rightarrow> u64" where
  "make_call_gate segsel dpl num_params handler =
    (let d = 0;
         d = put_field call_type DESCTYPE_CALL32 d;
         d = put_field call_segsel segsel d;
         d = put_field call_dpl dpl d;
         d = put_field call_num_params num_params d;
         d = put_field call_offsetlo (handler AND 0xFFFF) d;
         d = put_field call_offsethi (drop_bit 16 handler) d
     in put_field call_p (if handler \<noteq> 0 then 1 else 0) d)"

definition make_intr_gate :: "u32 \<Rightarrow> u32 \<Rightarrow> u32 \<Rightarrow> u64" where
  "make_intr_gate segsel dpl handler =
    (let d = 0;
         d = put_field intr_type DESCTYPE_INTR32 d;
         d = put_field intr_segsel segsel d;
         d = put_field intr_dpl dpl d;
         d = put_field intr_offsetlo (handler AND 0xFFFF) d;
         d = put_field intr_offsethi (drop_bit 16 handler) d
     in put_field intr_p (if handler \<noteq> 0 then 1 else 0) d)"

definition make_trap_gate :: "u32 \<Rightarrow> u32 \<Rightarrow> u32 \<Rightarrow> u64" where
  "make_trap_gate segsel dpl handler =
    (let d = 0;
         d = put_field trap_type DESCTYPE_TRAP32 d;
         d = put_field trap_segsel segsel d;
         d = put_field trap_dpl dpl d;
         d = put_field trap_offsetlo (handler AND 0xFFFF) d;
         d = put_field trap_offsethi (drop_bit 16 handler) d
     in put_field trap_p (if handler \<noteq> 0 then 1 else 0) d)"

subsection \<open>The setup of the processor (cpu.c)\<close>

definition KERNEL_LDT :: u32 where "KERNEL_LDT = 0x08"
definition KERNEL_CS :: u32 where "KERNEL_CS = 0x10"
definition KERNEL_DS :: u32 where "KERNEL_DS = 0x18"
definition USER_CS :: u32 where "USER_CS = 0x23"
definition USER_DS :: u32 where "USER_DS = 0x2B"
definition KERNEL_TSS :: u32 where "KERNEL_TSS = 0x30"
definition EMERG_TSS :: u32 where "EMERG_TSS = 0x38"
definition KERNEL_PL :: u32 where "KERNEL_PL = 0"
definition USER_PL :: u32 where "USER_PL = 3"
definition EXCEPTION_BASE :: nat where "EXCEPTION_BASE = 0"
definition NR_EXCEPTIONS :: nat where "NR_EXCEPTIONS = 32"
definition IRQ_BASE :: nat where "IRQ_BASE = 0x20"
definition NR_IRQ_LINES :: nat where "NR_IRQ_LINES = 16"
definition SYSCALL_VECTOR :: nat where "SYSCALL_VECTOR = 0x80"
definition BREAKPOINT :: nat where "BREAKPOINT = 3"
definition DOUBLE_FAULT :: nat where "DOUBLE_FAULT = 8"
definition NR_IDT_VECTORS :: nat where "NR_IDT_VECTORS = 256"

lemmas cpu_consts = KERNEL_LDT_def KERNEL_CS_def KERNEL_DS_def USER_CS_def USER_DS_def KERNEL_TSS_def EMERG_TSS_def KERNEL_PL_def USER_PL_def
  EXCEPTION_BASE_def NR_EXCEPTIONS_def IRQ_BASE_def NR_IRQ_LINES_def SYSCALL_VECTOR_def BREAKPOINT_def DOUBLE_FAULT_def NR_IDT_VECTORS_def

record cpu_syms =
  cs_exception_thunks :: "u32 list"
  cs_irq_thunks :: "u32 list"
  cs_syscall_thunk :: u32
  cs_page_dir :: u32
  cs_estack :: u32
  cs_kstack :: u32
  cs_ldt :: u32
  cs_tss_kernl :: u32

record cpu =
  cp_idt :: "u64 list"
  cp_gdt :: "u64 list"
  cp_tss_emerg :: tss
  cp_tss_kernl :: tss
  cp_tr :: u32
  cp_ldtr :: u32

definition seg_check :: "cpu \<Rightarrow> u32 \<Rightarrow> u32 list \<Rightarrow> u32 \<Rightarrow> unit option" where
  "seg_check c segsel types pl = do {
     d \<leftarrow> arr_get (cp_gdt c) (x86_get_desc segsel);
     assert_opt (get_field seg_type d \<in> set types);
     assert_opt (get_field seg_dpl d = pl);
     assert_opt (get_field seg_db d = 1);
     assert_opt (get_field seg_s d = 1);
     assert_opt (get_field seg_g d = 1);
     assert_opt (get_field seg_p d = 1)
   }"

definition validate_gdt :: "cpu \<Rightarrow> unit option" where
  "validate_gdt c = do {
     seg_check c KERNEL_CS [DESCTYPE_CODE_XR, DESCTYPE_CODE_XRA] KERNEL_PL;
     seg_check c KERNEL_DS [DESCTYPE_DATA_RW, DESCTYPE_DATA_RWA] KERNEL_PL;
     seg_check c USER_CS [DESCTYPE_CODE_XR] USER_PL;
     seg_check c USER_DS [DESCTYPE_DATA_RW] USER_PL
   }"

definition set_idt :: "nat \<Rightarrow> u64 \<Rightarrow> cpu \<Rightarrow> cpu option" where
  "set_idt i d c = do { idt \<leftarrow> arr_set (cp_idt c) i d; Some (c\<lparr>cp_idt := idt\<rparr>) }"

definition set_gdt :: "u32 \<Rightarrow> u64 \<Rightarrow> cpu \<Rightarrow> cpu option" where
  "set_gdt segsel d c = do { gdt \<leftarrow> arr_set (cp_gdt c) (x86_get_desc segsel) d; Some (c\<lparr>cp_gdt := gdt\<rparr>) }"

text \<open>The body of the loop over the exceptions.\<close>

definition setup_exception :: "cpu_syms \<Rightarrow> nat \<Rightarrow> cpu \<Rightarrow> cpu option" where
  "setup_exception y i c = do {
     entry \<leftarrow> arr_get (cs_exception_thunks y) i;
     if i = DOUBLE_FAULT then do {
       c \<leftarrow> set_idt (EXCEPTION_BASE + i) (make_task_gate EMERG_TSS KERNEL_PL) c;
       Some (c\<lparr>cp_tss_emerg := (cp_tss_emerg c)\<lparr>tss_cr3 := cs_page_dir y, tss_esp := cs_estack y, tss_ebp := cs_estack y, tss_eip := entry,
         tss_cs := ucast KERNEL_CS, tss_ss := ucast KERNEL_DS, tss_ds := ucast KERNEL_DS, tss_es := ucast KERNEL_DS\<rparr>\<rparr>)
     }
     else set_idt (EXCEPTION_BASE + i) (make_trap_gate KERNEL_CS (if i = BREAKPOINT then USER_PL else KERNEL_PL) entry) c
   }"

definition setup_irq :: "cpu_syms \<Rightarrow> nat \<Rightarrow> cpu \<Rightarrow> cpu option" where
  "setup_irq y i c = do {
     entry \<leftarrow> arr_get (cs_irq_thunks y) i;
     set_idt (IRQ_BASE + i) (make_intr_gate KERNEL_CS KERNEL_PL entry) c
   }"

text \<open>A loop from 0 up to \<open>n\<close>.\<close>

primrec for_upto :: "(nat \<Rightarrow> cpu \<Rightarrow> cpu option) \<Rightarrow> nat \<Rightarrow> cpu \<Rightarrow> cpu option" where
  "for_upto f 0 c = Some c"
| "for_upto f (Suc n) c = do { c \<leftarrow> for_upto f n c; f n c }"

definition setup_cpu :: "cpu_syms \<Rightarrow> cpu \<Rightarrow> cpu option" where
  "setup_cpu y c = do {
     validate_gdt c;
     c \<leftarrow> for_upto (setup_exception y) NR_EXCEPTIONS c;
     c \<leftarrow> for_upto (setup_irq y) NR_IRQ_LINES c;
     c \<leftarrow> set_idt SYSCALL_VECTOR (make_trap_gate KERNEL_CS USER_PL (cs_syscall_thunk y)) c;
     c \<leftarrow> set_gdt KERNEL_TSS (make_tss_desc KERNEL_PL (cs_tss_kernl y)) c;
     let c = c\<lparr>cp_tss_kernl := (cp_tss_kernl c)\<lparr>tss_esp0 := cs_kstack y, tss_ss0 := ucast KERNEL_DS\<rparr>\<rparr>;
     let c = c\<lparr>cp_tr := KERNEL_TSS\<rparr>;
     c \<leftarrow> set_gdt KERNEL_LDT (make_ldt_desc KERNEL_PL (cs_ldt y) (8 - 1)) c;
     Some (c\<lparr>cp_ldtr := KERNEL_LDT\<rparr>)
   }"

definition get_tss :: "u32 \<Rightarrow> cpu \<Rightarrow> u32 option" where
  "get_tss segsel c = do {
     d \<leftarrow> arr_get (cp_gdt c) (x86_get_desc segsel);
     Some (push_bit 24 (get_field tss_basehi d) OR get_field tss_baselo d)
   }"

definition get_curr_tss :: "cpu \<Rightarrow> u32 option" where "get_curr_tss c = get_tss (cp_tr c) c"

definition get_rpl :: "u16 \<Rightarrow> u16" where "get_rpl segsel = segsel AND 3"

subsection \<open>Identification of the processor\<close>

record cpuid_info =
  ci_vendor_id :: "u8 list"
  ci_family :: u8
  ci_model :: u8
  ci_stepping :: u8
  ci_type :: u8
  ci_level :: u8
  ci_level_extended :: u32
  ci_brand_index :: u8
  ci_brand_name :: "u8 list"
  ci_fpu_support :: bool
  ci_pse_support :: bool
  ci_pge_support :: bool
  ci_pat_support :: bool
  ci_tsc_support :: bool
  ci_msr_support :: bool

definition zero_cpuid :: cpuid_info where
  "zero_cpuid = \<lparr>ci_vendor_id = replicate 13 0, ci_family = 0, ci_model = 0, ci_stepping = 0, ci_type = 0, ci_level = 0, ci_level_extended = 0,
     ci_brand_index = 0, ci_brand_name = replicate 49 0, ci_fpu_support = False, ci_pse_support = False, ci_pge_support = False,
     ci_pat_support = False, ci_tsc_support = False, ci_msr_support = False\<rparr>"

type_synonym cpuid_regs = "u32 \<times> u32 \<times> u32 \<times> u32"

text \<open>The four registers in the order \<open>eax\<close>, \<open>ebx\<close>, \<open>ecx\<close>, \<open>edx\<close>.\<close>

definition brand_chunk :: "cpuid_regs \<Rightarrow> u8 list" where
  "brand_chunk r = (case r of (a, b, c, d) \<Rightarrow> word_bytes a @ word_bytes b @ word_bytes c @ word_bytes d)"

definition cpuid_leaf1 :: "cpuid_regs \<Rightarrow> cpuid_info \<Rightarrow> cpuid_info" where
  "cpuid_leaf1 r info = (case r of (eax, ebx, ecx, edx) \<Rightarrow>
    (let info = info\<lparr>ci_type := ucast (drop_bit 12 eax AND 0x03), ci_family := ucast (drop_bit 8 eax AND 0x0F),
           ci_model := ucast (drop_bit 4 eax AND 0x0F), ci_stepping := ucast (eax AND 0x0F)\<rparr>;
         ext_model = (ucast (drop_bit 16 eax AND 0x0F) :: u8);
         ext_family = (ucast (drop_bit 20 eax AND 0xFF) :: u8);
         info = (if ci_family info = 0x0F then info\<lparr>ci_family := ci_family info + ext_family\<rparr> else info);
         info = (if ci_model info = 0x06 \<or> ci_model info \<noteq> 0 then info\<lparr>ci_model := ci_model info + push_bit 4 ext_model\<rparr> else info)
     in info\<lparr>ci_fpu_support := bit edx 0, ci_pse_support := bit edx 3, ci_pge_support := bit edx 13, ci_pat_support := bit edx 16,
          ci_tsc_support := bit edx 4, ci_msr_support := bit edx 5, ci_brand_index := ucast (ebx AND 0xFF)\<rparr>))"

definition get_cpu_info :: "bool \<Rightarrow> (u32 \<Rightarrow> cpuid_regs) \<Rightarrow> bool \<times> cpuid_info" where
  "get_cpu_info has_cpuid cpuid =
    (if \<not> has_cpuid then (False, zero_cpuid)
     else let (eax, b, c, d) = cpuid 0;
              info = zero_cpuid\<lparr>ci_vendor_id := word_bytes b @ word_bytes d @ word_bytes c @ [0], ci_level := ucast eax\<rparr>;
              info = (if sint (ci_level info) \<ge> 1 then cpuid_leaf1 (cpuid 1) info else info);
              (eax, _, _, _) = cpuid 0x80000000;
              info = (if eax AND 0x80000000 \<noteq> 0 then info\<lparr>ci_level_extended := eax\<rparr> else info);
              info = (if ci_level_extended info \<ge> 0x80000004
                then info\<lparr>ci_brand_name := brand_chunk (cpuid 0x80000002) @ brand_chunk (cpuid 0x80000003) @ brand_chunk (cpuid 0x80000004) @ [0]\<rparr>
                else info)
          in (True, info))"

definition cpu_has_cr4 :: "bool \<Rightarrow> (u32 \<Rightarrow> cpuid_regs) \<Rightarrow> bool" where
  "cpu_has_cr4 has_cpuid cpuid = ci_pse_support (snd (get_cpu_info has_cpuid cpuid))"

subsection \<open>Fields\<close>

lemma bit_put_field:
  "bit (put_field (lo, n) v d) i \<longleftrightarrow> i < 64 \<and> (if lo \<le> i \<and> i < lo + n then bit v (i - lo) else bit d i)"
proof (cases "i < 64")
  case True
  then show ?thesis by (auto simp: put_field_def bit_simps)
next
  case False
  then show ?thesis by (auto dest: bit_imp_le_length)
qed

lemma bit_get_field: "bit (get_field (lo, n) d) i \<longleftrightarrow> i < 32 \<and> i < n \<and> bit d (lo + i)"
  by (auto simp: get_field_def bit_simps)

lemma get_put_same:
  assumes "lo + n \<le> 64" "n \<le> 32"
  shows "get_field (lo, n) (put_field (lo, n) v d) = take_bit n v"
  using assms by (intro bit_word_eqI) (auto simp: bit_get_field bit_put_field bit_take_bit_iff)

lemma get_put_other:
  assumes "lo + n \<le> lo' \<or> lo' + n' \<le> lo"
  shows "get_field (lo, n) (put_field (lo', n') v d) = get_field (lo, n) d"
  using assms by (intro bit_word_eqI) (auto simp: bit_get_field bit_put_field dest: bit_imp_le_length)

lemma get_zero: "get_field f 0 = 0"
  by (cases f) (simp add: get_field_def)

lemmas field_simps = desc_fields get_put_same get_put_other get_zero

text \<open>A base and a limit in two parts.\<close>

lemma split_base: "push_bit 24 (take_bit 8 (drop_bit 24 (base AND 0xFF000000))) OR take_bit 24 (base AND 0xFFFFFF) = (base :: u32)"
proof (rule bit_word_eqI)
  fix i assume "i < LENGTH(32)"
  have m: "(0xFFFFFF :: u32) = Bit_Operations.mask 24" "(0xFF000000 :: u32) = push_bit 24 (Bit_Operations.mask 8)"
    by (simp_all add: mask_eq_exp_minus_1)
  show "bit (push_bit 24 (take_bit 8 (drop_bit 24 (base AND 0xFF000000))) OR take_bit 24 (base AND 0xFFFFFF)) i = bit base i"
    using \<open>i < LENGTH(32)\<close> unfolding m by (cases "i < 24") (auto simp: bit_simps)
qed

lemma split_limit: "push_bit 16 (take_bit 4 (drop_bit 16 (limit AND 0xF0000))) OR take_bit 16 (limit AND 0xFFFF) = (take_bit 20 limit :: u32)"
proof (rule bit_word_eqI)
  fix i assume "i < LENGTH(32)"
  have m: "(0xFFFF :: u32) = Bit_Operations.mask 16" "(0xF0000 :: u32) = push_bit 16 (Bit_Operations.mask 4)"
    by (simp_all add: mask_eq_exp_minus_1)
  show "bit (push_bit 16 (take_bit 4 (drop_bit 16 (limit AND 0xF0000))) OR take_bit 16 (limit AND 0xFFFF)) i = bit (take_bit 20 limit) i"
    using \<open>i < LENGTH(32)\<close> unfolding m by (cases "i < 16") (auto simp: bit_simps)
qed

lemma split_offset: "push_bit 16 (take_bit 16 (drop_bit 16 h)) OR take_bit 16 (h AND 0xFFFF) = (h :: u32)"
proof (rule bit_word_eqI)
  fix i assume "i < LENGTH(32)"
  have m: "(0xFFFF :: u32) = Bit_Operations.mask 16" by (simp add: mask_eq_exp_minus_1)
  show "bit (push_bit 16 (take_bit 16 (drop_bit 16 h)) OR take_bit 16 (h AND 0xFFFF)) i = bit h i"
    using \<open>i < LENGTH(32)\<close> unfolding m by (cases "i < 16") (auto simp: bit_simps)
qed

text \<open>What the processor reads from a gate: the entry point.\<close>

definition gate_offset :: "u64 \<Rightarrow> u32" where
  "gate_offset d = push_bit 16 (get_field intr_offsethi d) OR get_field intr_offsetlo d"

text \<open>
  C20: Descriptors hold what they are made of: the base and the 20-bit limit of a segment, which the accessors of the header put together again, the type, the
  privilege level, granularity and size; the entry point, selector and privilege level of a gate, which is present exactly for a handler that is not null.
\<close>

theorem descriptor_fields:
  "(let d = make_seg_desc dpl base limit type in
      x86_seg_base d = base \<and> x86_seg_limit d = take_bit 20 limit \<and> get_field seg_type d = take_bit 4 type \<and> get_field seg_dpl d = take_bit 2 dpl \<and>
      get_field seg_s d = 1 \<and> get_field seg_db d = 1 \<and> get_field seg_g d = 1 \<and> get_field seg_p d = 1) \<and>
   (let d = make_ldt_desc dpl base limit in
      x86_seg_base d = base \<and> x86_seg_limit d = take_bit 20 limit \<and> get_field seg_type d = DESCTYPE_LDT \<and> get_field seg_dpl d = take_bit 2 dpl \<and>
      get_field seg_s d = 0 \<and> get_field seg_g d = 0 \<and> get_field seg_p d = 1) \<and>
   (let d = make_tss_desc dpl base in
      x86_seg_base d = base \<and> x86_seg_limit d = 107 \<and> get_field seg_type d = DESCTYPE_TSS32 \<and> get_field seg_dpl d = take_bit 2 dpl \<and>
      get_field seg_s d = 0 \<and> get_field seg_g d = 0 \<and> get_field seg_p d = 1) \<and>
   (let d = make_task_gate sel dpl in
      get_field task_segsel d = take_bit 16 sel \<and> get_field task_type d = DESCTYPE_TASK \<and> get_field task_dpl d = take_bit 2 dpl \<and> get_field task_p d = 1) \<and>
   (let d = make_call_gate sel dpl n h in
      gate_offset d = h \<and> get_field call_segsel d = take_bit 16 sel \<and> get_field call_type d = DESCTYPE_CALL32 \<and> get_field call_dpl d = take_bit 2 dpl \<and>
      get_field call_num_params d = take_bit 5 n \<and> get_field call_p d = of_bool (h \<noteq> 0)) \<and>
   (let d = make_intr_gate sel dpl h in
      gate_offset d = h \<and> get_field intr_segsel d = take_bit 16 sel \<and> get_field intr_type d = DESCTYPE_INTR32 \<and> get_field intr_dpl d = take_bit 2 dpl \<and>
      get_field intr_p d = of_bool (h \<noteq> 0)) \<and>
   (let d = make_trap_gate sel dpl h in
      gate_offset d = h \<and> get_field trap_segsel d = take_bit 16 sel \<and> get_field trap_type d = DESCTYPE_TRAP32 \<and> get_field trap_dpl d = take_bit 2 dpl \<and>
      get_field trap_p d = of_bool (h \<noteq> 0))"
  unfolding Let_def make_seg_desc_def make_ldt_desc_def make_tss_desc_def make_task_gate_def make_call_gate_def make_intr_gate_def make_trap_gate_def
    x86_seg_base_def x86_seg_limit_def gate_offset_def
  by (simp add: field_simps split_base [simplified] split_limit [simplified] split_offset [simplified] desctypes TSS_SIZE_def)

subsection \<open>The tables after the setup\<close>

text \<open>The descriptor table that the kernel image contains (kernel.ld).\<close>

definition boot_gdt :: "u64 list" where
  "boot_gdt = [0, 0, 0x00CF9A000000FFFF, 0x00CF92000000FFFF, 0x00CFFA000000FFFF, 0x00CFF2000000FFFF, 0, 0]"

definition exception_gate :: "cpu_syms \<Rightarrow> nat \<Rightarrow> u64" where
  "exception_gate y i = (if i = 8 then make_task_gate EMERG_TSS 0 else make_trap_gate KERNEL_CS (if i = 3 then 3 else 0) (cs_exception_thunks y ! i))"

lemma list_update_from: "length xs = m \<Longrightarrow> n < m \<Longrightarrow>
    (map (\<lambda>i. if lo \<le> i \<and> i < n then g i else xs ! i) [0..<m])[n := g n] = map (\<lambda>i. if lo \<le> i \<and> i < Suc n then g i else xs ! i) [0..<m]"
  if "lo \<le> n"
  using that by (intro nth_equalityI) (auto simp: nth_list_update less_Suc_eq)

lemma setup_exceptions:
  assumes "length (cp_idt c) = 256" "length (cs_exception_thunks y) = 32" "n \<le> 32"
  shows "\<exists>e. for_upto (setup_exception y) n c =
    Some (c\<lparr>cp_idt := map (\<lambda>i. if 0 \<le> i \<and> i < n then exception_gate y i else cp_idt c ! i) [0..<256], cp_tss_emerg := e\<rparr>)"
  using assms(3)
proof (induction n)
  case 0
  have "map ((!) (cp_idt c)) [0..<256] = cp_idt c" using assms(1) map_nth [of "cp_idt c"] by simp
  then show ?case by (intro exI [of _ "cp_tss_emerg c"]) simp
next
  case (Suc n)
  then obtain e where e: "for_upto (setup_exception y) n c =
    Some (c\<lparr>cp_idt := map (\<lambda>i. if 0 \<le> i \<and> i < n then exception_gate y i else cp_idt c ! i) [0..<256], cp_tss_emerg := e\<rparr>)" by auto
  define c1 where "c1 = c\<lparr>cp_idt := map (\<lambda>i. if 0 \<le> i \<and> i < n then exception_gate y i else cp_idt c ! i) [0..<256], cp_tss_emerg := e\<rparr>"
  have "for_upto (setup_exception y) (Suc n) c = setup_exception y n c1" using e by (simp add: c1_def)
  also have "\<exists>e. setup_exception y n c1 = Some (c1\<lparr>cp_idt := (cp_idt c1)[n := exception_gate y n], cp_tss_emerg := e\<rparr>)"
  proof (cases "n = 8")
    case True
    then show ?thesis using assms(2) by (auto simp: c1_def setup_exception_def set_idt_def exception_gate_def DOUBLE_FAULT_def EXCEPTION_BASE_def KERNEL_PL_def)
  next
    case False
    then have "setup_exception y n c1 = Some (c1\<lparr>cp_idt := (cp_idt c1)[n := exception_gate y n], cp_tss_emerg := cp_tss_emerg c1\<rparr>)"
      using Suc.prems assms(2)
      by (simp add: c1_def setup_exception_def set_idt_def exception_gate_def BREAKPOINT_def DOUBLE_FAULT_def USER_PL_def KERNEL_PL_def EXCEPTION_BASE_def)
    then show ?thesis by blast
  qed
  finally show ?case
    using list_update_from [of 0 n "cp_idt c" 256 "exception_gate y"] Suc.prems assms(1) by (simp add: c1_def)
qed

lemma setup_irqs:
  assumes "length (cp_idt c) = 256" "length (cs_irq_thunks y) = 16" "n \<le> 16"
  shows "for_upto (setup_irq y) n c =
    Some (c\<lparr>cp_idt := map (\<lambda>i. if 32 \<le> i \<and> i < 32 + n then make_intr_gate KERNEL_CS 0 (cs_irq_thunks y ! (i - 32)) else cp_idt c ! i) [0..<256]\<rparr>)"
  using assms(3)
proof (induction n)
  case 0
  have "map (\<lambda>i. if 32 \<le> i \<and> i < 32 then make_intr_gate KERNEL_CS 0 (cs_irq_thunks y ! (i - 32)) else cp_idt c ! i) [0..<256] = cp_idt c"
    using assms(1) by (intro nth_equalityI) auto
  then show ?case by simp
next
  case (Suc n)
  then show ?case
    using assms list_update_from [of 32 "32 + n" "cp_idt c" 256 "\<lambda>i. make_intr_gate KERNEL_CS 0 (cs_irq_thunks y ! (i - 32))"]
    by (simp add: setup_irq_def set_idt_def IRQ_BASE_def KERNEL_PL_def)
qed

lemma boot_gdt_valid: "cp_gdt c = boot_gdt \<Longrightarrow> validate_gdt c = Some ()"
proof -
  assume g: "cp_gdt c = boot_gdt"
  have ix: "x86_get_desc KERNEL_CS = 2" "x86_get_desc KERNEL_DS = 3" "x86_get_desc USER_CS = 4" "x86_get_desc USER_DS = 5"
    by code_simp+
  have f: "get_field seg_type (boot_gdt ! 2) = DESCTYPE_CODE_XR" "get_field seg_type (boot_gdt ! 3) = DESCTYPE_DATA_RW"
    "get_field seg_type (boot_gdt ! 4) = DESCTYPE_CODE_XR" "get_field seg_type (boot_gdt ! 5) = DESCTYPE_DATA_RW"
    "get_field seg_dpl (boot_gdt ! 2) = 0" "get_field seg_dpl (boot_gdt ! 3) = 0" "get_field seg_dpl (boot_gdt ! 4) = 3" "get_field seg_dpl (boot_gdt ! 5) = 3"
    "\<forall>i \<in> set [2, 3, 4, 5]. get_field seg_db (boot_gdt ! i) = 1 \<and> get_field seg_s (boot_gdt ! i) = 1 \<and> get_field seg_g (boot_gdt ! i) = 1 \<and> get_field seg_p (boot_gdt ! i) = 1"
    by code_simp+
  have "length boot_gdt = 8" by (simp add: boot_gdt_def)
  then show ?thesis using f by (simp add: validate_gdt_def seg_check_def g ix KERNEL_PL_def USER_PL_def)
qed

text \<open>The fields of the gates.\<close>

lemma gate_fields:
  "gate_offset (make_trap_gate sel dpl h) = h" "get_field trap_segsel (make_trap_gate sel dpl h) = take_bit 16 sel"
  "get_field trap_type (make_trap_gate sel dpl h) = DESCTYPE_TRAP32" "get_field trap_dpl (make_trap_gate sel dpl h) = take_bit 2 dpl"
  "gate_offset (make_intr_gate sel dpl h) = h" "get_field intr_segsel (make_intr_gate sel dpl h) = take_bit 16 sel"
  "get_field intr_type (make_intr_gate sel dpl h) = DESCTYPE_INTR32" "get_field intr_dpl (make_intr_gate sel dpl h) = take_bit 2 dpl"
  "get_field task_segsel (make_task_gate sel dpl) = take_bit 16 sel" "get_field task_type (make_task_gate sel dpl) = DESCTYPE_TASK"
  unfolding gate_offset_def make_trap_gate_def make_intr_gate_def make_task_gate_def Let_def
  by (simp_all add: field_simps split_offset [simplified] desctypes)

lemma tss_base: "push_bit 24 (get_field tss_basehi (make_tss_desc dpl b)) OR get_field tss_baselo (make_tss_desc dpl b) = b"
  unfolding make_tss_desc_def Let_def by (simp add: field_simps split_base [simplified])

lemma selectors:
  "take_bit 16 KERNEL_CS = KERNEL_CS" "take_bit 16 EMERG_TSS = EMERG_TSS"
  "x86_get_desc KERNEL_TSS = 6" "x86_get_desc KERNEL_LDT = 1" "x86_get_desc EMERG_TSS = 7"
  by code_simp+

lemma level_field: "take_bit 2 (if b then 3 else 0 :: u32) = (if b then 3 else 0)"
  by (cases b) (simp_all add: take_bit_eq_mod)

text \<open>The vectors and the tables after the setup.\<close>

definition vector_gate :: "cpu_syms \<Rightarrow> u64 list \<Rightarrow> nat \<Rightarrow> u64" where
  "vector_gate y idt i =
    (if i = 128 then make_trap_gate KERNEL_CS USER_PL (cs_syscall_thunk y) else if i < 32 then exception_gate y i
     else if i < 48 then make_intr_gate KERNEL_CS 0 (cs_irq_thunks y ! (i - 32)) else idt ! i)"

lemma setup_cpu_result:
  assumes "length (cp_idt c) = 256" "cp_gdt c = boot_gdt" "length (cs_exception_thunks y) = 32" "length (cs_irq_thunks y) = 16"
  shows "\<exists>e. setup_cpu y c = Some (c\<lparr>cp_idt := map (vector_gate y (cp_idt c)) [0..<256], cp_tss_emerg := e,
    cp_gdt := boot_gdt[6 := make_tss_desc KERNEL_PL (cs_tss_kernl y), 1 := make_ldt_desc KERNEL_PL (cs_ldt y) (8 - 1)],
    cp_tss_kernl := (cp_tss_kernl c)\<lparr>tss_esp0 := cs_kstack y, tss_ss0 := ucast KERNEL_DS\<rparr>, cp_tr := KERNEL_TSS, cp_ldtr := KERNEL_LDT\<rparr>)"
proof -
  obtain e where e: "for_upto (setup_exception y) 32 c =
    Some (c\<lparr>cp_idt := map (\<lambda>i. if 0 \<le> i \<and> i < 32 then exception_gate y i else cp_idt c ! i) [0..<256], cp_tss_emerg := e\<rparr>)" (is "_ = Some ?c1")
    using setup_exceptions [OF assms(1,3), of 32] by auto
  define idt where "idt = map (\<lambda>i. if i < 32 then exception_gate y i else if i < 48 then make_intr_gate KERNEL_CS 0 (cs_irq_thunks y ! (i - 32)) else cp_idt c ! i) [0..<256]"
  have i2: "for_upto (setup_irq y) 16 ?c1 = Some (c\<lparr>cp_idt := idt, cp_tss_emerg := e\<rparr>)"
    using setup_irqs [of ?c1 y 16] assms(4) by (auto simp: idt_def)
  have bg: "length boot_gdt = 8" by (simp add: boot_gdt_def)
  have len: "length idt = 256" by (simp add: idt_def)
  have "idt[128 := make_trap_gate KERNEL_CS USER_PL (cs_syscall_thunk y)] = map (vector_gate y (cp_idt c)) [0..<256]"
    by (intro nth_equalityI) (auto simp: idt_def nth_list_update vector_gate_def)
  then show ?thesis
    using e i2 len assms(2) bg
    by (intro exI [of _ e]) (simp add: setup_cpu_def boot_gdt_valid NR_EXCEPTIONS_def NR_IRQ_LINES_def set_idt_def set_gdt_def SYSCALL_VECTOR_def selectors Let_def)
qed

text \<open>
  C19: The tables after \<open>setup_cpu\<close>, from the descriptor table of the kernel image: every exception vector but that of the double fault is a trap gate to
  its entry, callable from user mode for the breakpoint only; the 16 device vectors are interrupt gates for the kernel, the system call vector a trap gate for user mode;
  all other vectors stay as they were. The task register leads to the kernel's task state segment, with the kernel stack. The double fault is a task gate to the
  emergency task state segment, but no descriptor is made for that: the processor finds an absent descriptor.
\<close>

theorem setup_cpu_tables:
  assumes "length (cp_idt c) = 256" "cp_gdt c = boot_gdt" "length (cs_exception_thunks y) = 32" "length (cs_irq_thunks y) = 16"
  shows "\<exists>c'. setup_cpu y c = Some c' \<and> length (cp_idt c') = 256 \<and>
    (\<forall>i < 32. i \<noteq> 8 \<longrightarrow> gate_offset (cp_idt c' ! i) = cs_exception_thunks y ! i \<and> get_field trap_type (cp_idt c' ! i) = DESCTYPE_TRAP32 \<and>
      get_field trap_segsel (cp_idt c' ! i) = KERNEL_CS \<and> get_field trap_dpl (cp_idt c' ! i) = (if i = 3 then 3 else 0)) \<and>
    (\<forall>i < 16. gate_offset (cp_idt c' ! (32 + i)) = cs_irq_thunks y ! i \<and> get_field intr_type (cp_idt c' ! (32 + i)) = DESCTYPE_INTR32 \<and>
      get_field intr_segsel (cp_idt c' ! (32 + i)) = KERNEL_CS \<and> get_field intr_dpl (cp_idt c' ! (32 + i)) = 0) \<and>
    gate_offset (cp_idt c' ! 128) = cs_syscall_thunk y \<and> get_field trap_type (cp_idt c' ! 128) = DESCTYPE_TRAP32 \<and> get_field trap_dpl (cp_idt c' ! 128) = 3 \<and>
    (\<forall>i < 256. 48 \<le> i \<and> i \<noteq> 128 \<longrightarrow> cp_idt c' ! i = cp_idt c ! i) \<and>
    get_curr_tss c' = Some (cs_tss_kernl y) \<and> tss_esp0 (cp_tss_kernl c') = cs_kstack y \<and> tss_ss0 (cp_tss_kernl c') = 0x18 \<and>
    get_field task_type (cp_idt c' ! 8) = DESCTYPE_TASK \<and> get_field task_segsel (cp_idt c' ! 8) = EMERG_TSS \<and>
    get_field tss_p (cp_gdt c' ! x86_get_desc EMERG_TSS) = 0"
proof -
  obtain e where s: "setup_cpu y c = Some (c\<lparr>cp_idt := map (vector_gate y (cp_idt c)) [0..<256], cp_tss_emerg := e,
    cp_gdt := boot_gdt[6 := make_tss_desc KERNEL_PL (cs_tss_kernl y), 1 := make_ldt_desc KERNEL_PL (cs_ldt y) (8 - 1)],
    cp_tss_kernl := (cp_tss_kernl c)\<lparr>tss_esp0 := cs_kstack y, tss_ss0 := ucast KERNEL_DS\<rparr>, cp_tr := KERNEL_TSS, cp_ldtr := KERNEL_LDT\<rparr>)"
    (is "_ = Some ?c") using setup_cpu_result [OF assms] by blast
  have idt: "length (cp_idt ?c) = 256" "i < 256 \<Longrightarrow> cp_idt ?c ! i = vector_gate y (cp_idt c) i" for i by simp_all
  have bg: "length boot_gdt = 8" "boot_gdt ! 7 = 0" by (simp_all add: boot_gdt_def)
  have "\<forall>i < 32. i \<noteq> 8 \<longrightarrow> gate_offset (cp_idt ?c ! i) = cs_exception_thunks y ! i \<and> get_field trap_type (cp_idt ?c ! i) = DESCTYPE_TRAP32 \<and>
      get_field trap_segsel (cp_idt ?c ! i) = KERNEL_CS \<and> get_field trap_dpl (cp_idt ?c ! i) = (if i = 3 then 3 else 0)"
    using idt by (simp add: vector_gate_def exception_gate_def gate_fields selectors level_field)
  moreover have "\<forall>i < 16. gate_offset (cp_idt ?c ! (32 + i)) = cs_irq_thunks y ! i \<and> get_field intr_type (cp_idt ?c ! (32 + i)) = DESCTYPE_INTR32 \<and>
      get_field intr_segsel (cp_idt ?c ! (32 + i)) = KERNEL_CS \<and> get_field intr_dpl (cp_idt ?c ! (32 + i)) = 0"
    using idt by (simp add: vector_gate_def gate_fields selectors)
  moreover have "gate_offset (cp_idt ?c ! 128) = cs_syscall_thunk y \<and> get_field trap_type (cp_idt ?c ! 128) = DESCTYPE_TRAP32 \<and> get_field trap_dpl (cp_idt ?c ! 128) = 3"
    using idt by (simp add: vector_gate_def gate_fields USER_PL_def take_bit_eq_mod)
  moreover have "\<forall>i < 256. 48 \<le> i \<and> i \<noteq> 128 \<longrightarrow> cp_idt ?c ! i = cp_idt c ! i" using idt by (simp add: vector_gate_def)
  moreover have "get_field task_type (cp_idt ?c ! 8) = DESCTYPE_TASK \<and> get_field task_segsel (cp_idt ?c ! 8) = EMERG_TSS"
    using idt by (simp add: vector_gate_def exception_gate_def gate_fields selectors)
  moreover have "get_curr_tss ?c = Some (cs_tss_kernl y)" using bg(1) by (simp add: get_curr_tss_def get_tss_def selectors tss_base)
  moreover have "tss_ss0 (cp_tss_kernl ?c) = 0x18" "tss_esp0 (cp_tss_kernl ?c) = cs_kstack y" by (simp_all add: KERNEL_DS_def)
  moreover have "get_field tss_p (cp_gdt ?c ! x86_get_desc EMERG_TSS) = 0" using bg by (simp add: selectors get_zero)
  ultimately show ?thesis using s idt(1) by blast
qed

definition ex_cpu :: cpu where
  "ex_cpu = (let t = \<lparr>tss_prev = 0, tss_esp0 = 0, tss_ss0 = 0, tss_cr3 = 0, tss_eip = 0, tss_esp = 0, tss_ebp = 0, tss_es = 0, tss_cs = 0, tss_ss = 0, tss_ds = 0\<rparr>
    in \<lparr>cp_idt = replicate 256 0, cp_gdt = boot_gdt, cp_tss_emerg = t, cp_tss_kernl = t, cp_tr = 0, cp_ldtr = 0\<rparr>)"

definition ex_syms :: cpu_syms where
  "ex_syms = \<lparr>cs_exception_thunks = replicate 32 0xC0101000, cs_irq_thunks = replicate 16 0xC0102000, cs_syscall_thunk = 0xC0103000, cs_page_dir = 0x2000,
     cs_estack = 0x8000, cs_kstack = 0x9000, cs_ldt = 0xC0104000, cs_tss_kernl = 0xC0105000\<rparr>"

theorem setup_cpu_tables_witness:
  "\<exists>c'. setup_cpu ex_syms ex_cpu = Some c' \<and> gate_offset (cp_idt c' ! 14) = 0xC0101000 \<and> get_field tss_p (cp_gdt c' ! x86_get_desc EMERG_TSS) = 0"
proof -
  have "length (cp_idt ex_cpu) = 256" "cp_gdt ex_cpu = boot_gdt" "length (cs_exception_thunks ex_syms) = 32" "length (cs_irq_thunks ex_syms) = 16"
    "cs_exception_thunks ex_syms ! 14 = 0xC0101000"
    by (simp_all add: ex_cpu_def ex_syms_def Let_def)
  then show ?thesis using setup_cpu_tables [of ex_cpu ex_syms] by fastforce
qed

end
