(* ===== verification/Gdb.thy ===== *)
theory Gdb
  imports Serial Strtoull Paging
begin

text \<open>
  The debugger stub \<^verbatim>\<open>src/i386/kernel/gdbstub.c\<close>: packets of the GDB remote protocol over the serial port, by polling.

  The UART is the function of \<open>Serial\<close> from the history of accesses to the next value. The loops that wait for the port and the reception of a packet may not
  end: they are partial functions with the result \<open>None\<close>. A \<open>char\<close> is a byte; \<open>EOF\<close> is the byte \<open>0xFF\<close> read as a signed
  \<open>char\<close>. The contents of buffers on the stack before they are written are the arguments \<open>junk\<close> (for the checksum) and \<open>pkt\<close>, \<open>len\<close> (in \<open>gdb_main\<close>).
  The memory is accessed directly, after the checks of the code. Messages and interrupt flags are not modelled.
\<close>

definition EOF :: int where "EOF = -1"
definition GDB_MAXLEN :: nat where "GDB_MAXLEN = 512"
definition GDB_NUM_I386_REGS :: nat where "GDB_NUM_I386_REGS = 16"
definition GDB_EUNKNOWN :: int where "GDB_EUNKNOWN = 0"
definition GDB_EFAULT :: int where "GDB_EFAULT = 14"
definition SIGINT :: int where "SIGINT = 2"
definition SERIAL_DEBUG_PORT :: u16 where "SERIAL_DEBUG_PORT = 0x3F8"
definition EFLAGS_TF :: u32 where "EFLAGS_TF = 0x100"

lemmas gdb_consts = EOF_def GDB_MAXLEN_def GDB_NUM_I386_REGS_def GDB_EUNKNOWN_def GDB_EFAULT_def SIGINT_def SERIAL_DEBUG_PORT_def EFLAGS_TF_def

record iregs =
  ir_ebx :: u32
  ir_ecx :: u32
  ir_edx :: u32
  ir_esi :: u32
  ir_edi :: u32
  ir_ebp :: u32
  ir_eax :: u32
  ir_ds :: u32
  ir_es :: u32
  ir_fs :: u32
  ir_gs :: u32
  ir_eip :: u32
  ir_cs :: u32
  ir_eflags :: u32
  ir_esp :: u32
  ir_ss :: u32

record gdb_state =
  g_signum :: int
  g_pending_char :: u8
  g_regs :: "u32 list"
  g_tx_buf :: "u8 list"
  g_tx_len :: nat
  g_ack_count :: u32
  g_nack_count :: u32
  g_txpkt_count :: u32
  g_rxpkt_count :: u32
  g_com :: com

definition gdb_init :: "com \<Rightarrow> gdb_state" where
  "gdb_init com = \<lparr>g_signum = 0, g_pending_char = 0, g_regs = replicate GDB_NUM_I386_REGS 0, g_tx_buf = replicate GDB_MAXLEN 0, g_tx_len = 0,
     g_ack_count = 0, g_nack_count = 0, g_txpkt_count = 0, g_rxpkt_count = 0, g_com = com\<rparr>"

text \<open>The registers in the order of \<open>enum gdb_i386_regs\<close>: EAX, ECX, EDX, EBX, ESP, EBP, ESI, EDI, EIP, EFLAGS, CS, SS, DS, ES, FS, GS.\<close>

definition gdb_capture :: "iregs \<Rightarrow> int \<Rightarrow> gdb_state \<Rightarrow> gdb_state" where
  "gdb_capture regs signum s = s\<lparr>g_regs := [ir_eax regs, ir_ecx regs, ir_edx regs, ir_ebx regs, ir_esp regs, ir_ebp regs, ir_esi regs, ir_edi regs,
     ir_eip regs, ir_eflags regs, ir_cs regs, ir_ss regs, ir_ds regs, ir_es regs, ir_fs regs, ir_gs regs], g_signum := signum\<rparr>"

definition gdb_apply :: "gdb_state \<Rightarrow> iregs \<Rightarrow> iregs" where
  "gdb_apply s regs = (let r = g_regs s in \<lparr>ir_ebx = r ! 3, ir_ecx = r ! 1, ir_edx = r ! 2, ir_esi = r ! 6, ir_edi = r ! 7, ir_ebp = r ! 5, ir_eax = r ! 0,
     ir_ds = r ! 12, ir_es = r ! 13, ir_fs = r ! 14, ir_gs = r ! 15, ir_eip = r ! 8, ir_cs = r ! 10, ir_eflags = r ! 9, ir_esp = r ! 4, ir_ss = r ! 11\<rparr>)"

subsection \<open>Hexadecimal data\<close>

definition hex_byte :: "u8 \<Rightarrow> u8 list" where
  "hex_byte c = [of_int (toxdigit (uint (drop_bit 4 c))), of_int (toxdigit (uint (c AND 0xF)))]"

text \<open>\<open>Inl EOF\<close>, or the characters that are written.\<close>

definition encode_hex :: "nat \<Rightarrow> u8 list \<Rightarrow> int + u8 list" where
  "encode_hex bufsiz data = (if length data * 2 > bufsiz then Inl EOF else Inr (concat (map hex_byte data)))"

definition hex_digit :: "u8 \<Rightarrow> u8" where
  "hex_digit c = (if isdigit (cchar c) then c - 48 else if isxdigit (cchar c) then of_int (tolower (cchar c) - 97) + 0xA else 0)"

fun decode_bytes :: "u8 list \<Rightarrow> nat \<Rightarrow> u8 list option" where
  "decode_bytes buf 0 = Some []"
| "decode_bytes (a # b # buf) (Suc n) = do { ds \<leftarrow> decode_bytes buf n; Some ((push_bit 4 (hex_digit a) + hex_digit b) # ds) }"
| "decode_bytes _ (Suc n) = None"

definition decode_hex :: "u8 list \<Rightarrow> u32 \<Rightarrow> nat \<Rightarrow> (int + u8 list) option" where
  "decode_hex buf bufsiz len = (if of_nat (len * 2) > bufsiz then Some (Inl EOF) else map_option Inr (decode_bytes buf len))"

subsection \<open>Characters\<close>

primrec poll_dr :: "uart \<Rightarrow> nat \<Rightarrow> com \<Rightarrow> bool \<times> com" where
  "poll_dr uart 0 com = (False, com)"
| "poll_dr uart (Suc n) com = (let (v, com) = com_in uart UART_LSR com in if bit v 0 then (True, com) else poll_dr uart n com)"

definition gdb_getc :: "uart \<Rightarrow> gdb_state \<Rightarrow> u8 \<times> gdb_state" where
  "gdb_getc uart s =
    (if g_pending_char s \<noteq> 0 then (g_pending_char s, s\<lparr>g_pending_char := 0\<rparr>)
     else let (ready, com) = poll_dr uart 1000000 (g_com s);
              (c, com) = (if ready then com_in uart UART_RX com else (0, com))
          in (c, s\<lparr>g_com := com\<rparr>))"

partial_function (option) thre_wait :: "uart \<Rightarrow> com \<Rightarrow> com option" where
  "thre_wait uart com = (let (v, com) = com_in uart UART_LSR com in if bit v 5 then Some com else thre_wait uart com)"

definition gdb_putc :: "uart \<Rightarrow> u8 \<Rightarrow> gdb_state \<Rightarrow> gdb_state option" where
  "gdb_putc uart c s = do { com \<leftarrow> thre_wait uart (g_com s); Some (s\<lparr>g_com := com_out UART_TX c com\<rparr>) }"

subsection \<open>Sending packets\<close>

text \<open>The loop over the data, with the position and the checksum.\<close>

primrec send_data :: "uart \<Rightarrow> u8 list \<Rightarrow> nat \<Rightarrow> u8 \<Rightarrow> gdb_state \<Rightarrow> (u8 \<times> gdb_state) option" where
  "send_data uart [] i cksum s = Some (cksum, s)"
| "send_data uart (c # cs) i cksum s = do {
     tx \<leftarrow> arr_set (g_tx_buf s) i c;
     s \<leftarrow> gdb_putc uart c (s\<lparr>g_tx_buf := tx\<rparr>);
     send_data uart cs (i + 1) (cksum + c) s
   }"

text \<open>\<open>gdb_send_packet\<close> up to the reception of the acknowledgement.\<close>

definition put_packet :: "uart \<Rightarrow> u8 list \<Rightarrow> gdb_state \<Rightarrow> gdb_state option" where
  "put_packet uart buf s = do {
     s \<leftarrow> gdb_putc uart 36 s;
     (cksum, s) \<leftarrow> send_data uart buf 0 0 s;
     tx \<leftarrow> arr_set (g_tx_buf s) (length buf) 0;
     let s = s\<lparr>g_tx_buf := tx, g_tx_len := length buf\<rparr>;
     s \<leftarrow> gdb_putc uart 35 s;
     s \<leftarrow> gdb_putc uart (hex_byte cksum ! 0) s;
     s \<leftarrow> gdb_putc uart (hex_byte cksum ! 1) s;
     Some (s\<lparr>g_txpkt_count := g_txpkt_count s + 1\<rparr>)
   }"

definition gdb_handle_ack :: "gdb_state \<Rightarrow> int \<times> gdb_state" where
  "gdb_handle_ack s = (0, s\<lparr>g_ack_count := g_ack_count s + 1\<rparr>)"

text \<open>
  \<open>gdb_send_packet\<close>, \<open>gdb_recv_ack\<close> and \<open>gdb_handle_nack\<close> call each other; the latter two are written out in the first. The packet of
  \<open>gdb_handle_nack\<close> is the one in \<open>tx_buf\<close>, which it is written to again.
\<close>

partial_function (option) gdb_send_packet :: "uart \<Rightarrow> u8 list \<Rightarrow> gdb_state \<Rightarrow> (int \<times> gdb_state) option" where
  "gdb_send_packet uart buf s =
    (if length buf > GDB_MAXLEN - 1 then Some (EOF, s)
     else do {
       s \<leftarrow> put_packet uart buf s;
       let (c, s) = gdb_getc uart s;
       if c = 43 then Some (gdb_handle_ack s)
       else if c = 45 then gdb_send_packet uart (take (g_tx_len s) (g_tx_buf s)) (s\<lparr>g_nack_count := g_nack_count s + 1\<rparr>)
       else Some (cchar c, s\<lparr>g_pending_char := c\<rparr>)
     })"

definition gdb_handle_nack :: "uart \<Rightarrow> gdb_state \<Rightarrow> (int \<times> gdb_state) option" where
  "gdb_handle_nack uart s = gdb_send_packet uart (take (g_tx_len s) (g_tx_buf s)) (s\<lparr>g_nack_count := g_nack_count s + 1\<rparr>)"

definition gdb_recv_ack :: "uart \<Rightarrow> gdb_state \<Rightarrow> (int \<times> gdb_state) option" where
  "gdb_recv_ack uart s =
    (let (c, s) = gdb_getc uart s in
     if c = 43 then Some (gdb_handle_ack s)
     else if c = 45 then gdb_handle_nack uart s
     else Some (cchar c, s\<lparr>g_pending_char := c\<rparr>))"

definition gdb_send_ok_packet :: "uart \<Rightarrow> gdb_state \<Rightarrow> (int \<times> gdb_state) option" where
  "gdb_send_ok_packet uart s = gdb_send_packet uart [79, 75] s"

definition gdb_send_empty_packet :: "uart \<Rightarrow> gdb_state \<Rightarrow> (int \<times> gdb_state) option" where
  "gdb_send_empty_packet uart s = gdb_send_packet uart [] s"

text \<open>The first byte of an \<open>int\<close>; the buffer of eight bytes is large enough for it.\<close>

definition gdb_send_signal_packet :: "uart \<Rightarrow> int \<Rightarrow> gdb_state \<Rightarrow> (int \<times> gdb_state) option" where
  "gdb_send_signal_packet uart signal s = gdb_send_packet uart (83 # hex_byte (of_int signal)) s"

definition gdb_send_error_packet :: "uart \<Rightarrow> int \<Rightarrow> gdb_state \<Rightarrow> (int \<times> gdb_state) option" where
  "gdb_send_error_packet uart error s = gdb_send_packet uart (69 # hex_byte (of_int error)) s"

definition gdb_send_ack :: "uart \<Rightarrow> gdb_state \<Rightarrow> (int \<times> gdb_state) option" where
  "gdb_send_ack uart s = do { s \<leftarrow> gdb_putc uart 43 s; Some (0, s) }"

definition gdb_send_nack :: "uart \<Rightarrow> gdb_state \<Rightarrow> (int \<times> gdb_state) option" where
  "gdb_send_nack uart s = do { s \<leftarrow> gdb_putc uart 45 s; Some (0, s) }"

text \<open>The result of \<open>encode_hex\<close> as the length of a packet: \<open>EOF\<close> is larger than every buffer.\<close>

definition send_encoded :: "uart \<Rightarrow> int + u8 list \<Rightarrow> gdb_state \<Rightarrow> (int \<times> gdb_state) option" where
  "send_encoded uart r s = (case r of Inl e \<Rightarrow> Some (EOF, s) | Inr buf \<Rightarrow> gdb_send_packet uart buf s)"

subsection \<open>Receiving packets\<close>

text \<open>The three loops: up to the start of a packet, the data, the two digits of the checksum.\<close>

partial_function (option) wait_start :: "uart \<Rightarrow> gdb_state \<Rightarrow> (int \<times> gdb_state) option" where
  "wait_start uart s = do {
     let (c, s) = gdb_getc uart s;
     if cchar c = EOF then Some (EOF, s)
     else if c = 3 then Some (3, s)
     else if c = 43 then wait_start uart (snd (gdb_handle_ack s))
     else if c = 45 then do { (_, s) \<leftarrow> gdb_handle_nack uart s; wait_start uart s }
     else if c = 36 then Some (0, s)
     else wait_start uart s
   }"

partial_function (option) recv_data :: "uart \<Rightarrow> u8 list \<Rightarrow> nat \<Rightarrow> u8 \<Rightarrow> gdb_state \<Rightarrow> (int \<times> u8 list \<times> nat \<times> u8 \<times> gdb_state) option" where
  "recv_data uart buf len cksum s = do {
     let (c, s) = gdb_getc uart s;
     if cchar c = EOF then Some (EOF, buf, len, cksum, s)
     else if c = 35 then Some (0, buf, len, cksum, s)
     else if c = 0 then recv_data uart buf len cksum s
     else if len \<ge> GDB_MAXLEN - 1 then Some (EOF, buf, len, cksum, s)
     else do { buf \<leftarrow> arr_set buf len c; recv_data uart buf (len + 1) (cksum + c) s }
   }"

definition recv_cksum :: "uart \<Rightarrow> u8 \<Rightarrow> gdb_state \<Rightarrow> int \<times> u8 \<times> gdb_state" where
  "recv_cksum uart old s = (let (c, s) = gdb_getc uart s in if cchar c = EOF then (EOF, old, s) else (0, if c = 0 then old else c, s))"

text \<open>The result: the status, the buffer, and the length, which is set for a packet with a good checksum only.\<close>

definition gdb_recv_packet :: "uart \<Rightarrow> u8 \<times> u8 \<Rightarrow> u8 list \<Rightarrow> u32 \<Rightarrow> gdb_state \<Rightarrow> (int \<times> u8 list \<times> u32 \<times> gdb_state) option" where
  "gdb_recv_packet uart junk pkt len s = do {
     (status, s) \<leftarrow> wait_start uart s;
     if status \<noteq> 0 then Some (status, pkt, len, s)
     else do {
       (status, pkt, length, cksum, s) \<leftarrow> recv_data uart pkt 0 0 s;
       if status = EOF then Some (EOF, pkt, len, s)
       else do {
         pkt \<leftarrow> arr_set pkt length 0;
         let (status, d1, s) = recv_cksum uart (fst junk) s;
         if status = EOF then Some (EOF, pkt, len, s)
         else do {
           let (status, d2, s) = recv_cksum uart (snd junk) s;
           if status = EOF then Some (EOF, pkt, len, s)
           else do {
             r \<leftarrow> decode_hex [d1, d2] 2 1;
             case r of Inl e \<Rightarrow> Some (EOF, pkt, len, s)
             | Inr tx_cksum \<Rightarrow> do {
                 let s = s\<lparr>g_rxpkt_count := g_rxpkt_count s + 1\<rparr>;
                 if cksum \<noteq> tx_cksum ! 0 then do { (status, s) \<leftarrow> gdb_send_nack uart s; Some (status, pkt, len, s) }
                 else do { (status, s) \<leftarrow> gdb_send_ack uart s; Some (status, pkt, of_nat length, s) }
               }
           }
         }
       }
     }
   }"

subsection \<open>Commands\<close>

definition gdb_step :: "gdb_state \<Rightarrow> gdb_state" where
  "gdb_step s = s\<lparr>g_regs := (g_regs s)[9 := g_regs s ! 9 OR EFLAGS_TF]\<rparr>"

definition gdb_continue :: "gdb_state \<Rightarrow> gdb_state" where
  "gdb_continue s = s\<lparr>g_regs := (g_regs s)[9 := g_regs s ! 9 AND NOT EFLAGS_TF], g_com := com_out UART_IER 1 (g_com s)\<rparr>"

definition gdb_detach :: "uart \<Rightarrow> gdb_state \<Rightarrow> gdb_state option" where
  "gdb_detach uart s = do { (_, s) \<leftarrow> gdb_send_ok_packet uart s; Some (gdb_continue s) }"

definition gdb_read_regs :: "uart \<Rightarrow> gdb_state \<Rightarrow> (int \<times> gdb_state) option" where
  "gdb_read_regs uart s = send_encoded uart (encode_hex (4 * GDB_NUM_I386_REGS * 2) (concat (map word_bytes (g_regs s)))) s"

primrec regs_of_bytes :: "nat \<Rightarrow> u8 list \<Rightarrow> u32 list" where
  "regs_of_bytes 0 bs = []"
| "regs_of_bytes (Suc n) bs = bytes_word (take 4 bs) # regs_of_bytes n (drop 4 bs)"

text \<open>The commands with arguments get the buffer from its second character on.\<close>

definition gdb_write_regs :: "uart \<Rightarrow> u8 list \<Rightarrow> u32 \<Rightarrow> gdb_state \<Rightarrow> (int \<times> gdb_state) option" where
  "gdb_write_regs uart pkt pktlen s = do {
     r \<leftarrow> decode_hex pkt pktlen (4 * GDB_NUM_I386_REGS);
     case r of Inl e \<Rightarrow> Some (EOF, s)
     | Inr bs \<Rightarrow> gdb_send_ok_packet uart (s\<lparr>g_regs := regs_of_bytes GDB_NUM_I386_REGS bs\<rparr>)
   }"

definition strtol16 :: "u8 list \<Rightarrow> (u32 \<times> nat) option" where
  "strtol16 str = (case strtol str 16 of Some (Inr (v, e)) \<Rightarrow> Some (of_int v, e) | _ \<Rightarrow> None)"

definition gdb_read_mem :: "uart \<Rightarrow> pgregs \<Rightarrow> kmem \<Rightarrow> u8 list \<Rightarrow> u32 \<Rightarrow> gdb_state \<Rightarrow> (int \<times> u8 list \<times> gdb_state) option" where
  "gdb_read_mem uart r mem pkt pktlen s = do {
     pkt \<leftarrow> arr_set pkt (unat pktlen) 0;
     (addr, p) \<leftarrow> strtol16 pkt;
     c \<leftarrow> arr_get pkt p;
     if c = 0 then Some (EOF, pkt, s)
     else do {
       (cnt, _) \<leftarrow> strtol16 (drop (p + 1) pkt);
       if unat cnt > GDB_MAXLEN div 2 then Some (EOF, pkt, s)
       else do {
         v1 \<leftarrow> virt_addr_valid r mem addr;
         v2 \<leftarrow> virt_addr_valid r mem (addr + cnt);
         (status, s) \<leftarrow> (if \<not> v1 \<or> \<not> v2 then gdb_send_error_packet uart GDB_EFAULT s
           else send_encoded uart (encode_hex GDB_MAXLEN (map (\<lambda>i. mem (addr + of_nat i)) [0..<unat cnt])) s);
         Some (status, pkt, s)
       }
     }
   }"

primrec poke :: "u32 \<Rightarrow> u8 list \<Rightarrow> kmem \<Rightarrow> kmem" where
  "poke a [] mem = mem"
| "poke a (b # bs) mem = poke (a + 1) bs (mem(a := b))"

definition gdb_write_mem :: "uart \<Rightarrow> pgregs \<Rightarrow> kmem \<Rightarrow> u8 list \<Rightarrow> u32 \<Rightarrow> gdb_state \<Rightarrow> (int \<times> u8 list \<times> kmem \<times> gdb_state) option" where
  "gdb_write_mem uart r mem pkt pktlen s = do {
     pkt \<leftarrow> arr_set pkt (unat pktlen) 0;
     (addr, p) \<leftarrow> strtol16 pkt;
     c \<leftarrow> arr_get pkt p;
     if c \<noteq> 44 then Some (EOF, pkt, mem, s)
     else do {
       (cnt, q) \<leftarrow> strtol16 (drop (p + 1) pkt);
       let p = p + 1 + q;
       c \<leftarrow> arr_get pkt p;
       if c \<noteq> 58 then Some (EOF, pkt, mem, s)
       else if unat cnt > GDB_MAXLEN div 2 then Some (EOF, pkt, mem, s)
       else do {
         d \<leftarrow> decode_hex (drop (p + 1) pkt) (pktlen - of_nat (p + 1)) (unat cnt);
         case d of Inl e \<Rightarrow> Some (EOF, pkt, mem, s)
         | Inr bs \<Rightarrow> do {
             v1 \<leftarrow> virt_addr_valid r mem addr;
             v2 \<leftarrow> virt_addr_valid r mem (addr + cnt);
             if \<not> v1 \<or> \<not> v2 then do { (status, s) \<leftarrow> gdb_send_error_packet uart GDB_EFAULT s; Some (status, pkt, mem, s) }
             else do {
               let mem = poke addr bs mem;
               (status, s) \<leftarrow> gdb_send_ok_packet uart s;
               Some (status, pkt, mem, s)
             }
           }
       }
     }
   }"

text \<open>The \<open>switch\<close>: whether the session ends, the status, the buffer, the memory and the state.\<close>

definition gdb_command :: "uart \<Rightarrow> pgregs \<Rightarrow> kmem \<Rightarrow> u8 list \<Rightarrow> u32 \<Rightarrow> gdb_state \<Rightarrow> (bool \<times> int \<times> u8 list \<times> kmem \<times> gdb_state) option" where
  "gdb_command uart r mem pkt len s = do {
     c \<leftarrow> arr_get pkt 0;
     let rest = drop 1 pkt;
     if c = 63 then do { (status, s) \<leftarrow> gdb_send_signal_packet uart (g_signum s) s; Some (False, status, pkt, mem, s) }
     else if c = 103 then do { (status, s) \<leftarrow> gdb_read_regs uart s; Some (False, status, pkt, mem, s) }
     else if c = 71 then do { (status, s) \<leftarrow> gdb_write_regs uart rest (len - 1) s; Some (False, status, pkt, mem, s) }
     else if c = 109 then do { (status, rest, s) \<leftarrow> gdb_read_mem uart r mem rest (len - 1) s; Some (False, status, c # rest, mem, s) }
     else if c = 77 then do { (status, rest, mem, s) \<leftarrow> gdb_write_mem uart r mem rest (len - 1) s; Some (False, status, c # rest, mem, s) }
     else if c = 115 then Some (True, 0, pkt, mem, gdb_step s)
     else if c = 99 then Some (True, 0, pkt, mem, gdb_continue s)
     else if c = 68 then do { s \<leftarrow> gdb_detach uart s; Some (True, 0, pkt, mem, s) }
     else if c = 43 then (let (status, s) = gdb_handle_ack s in Some (False, status, pkt, mem, s))
     else if c = 45 then do { (status, s) \<leftarrow> gdb_handle_nack uart s; Some (False, status, pkt, mem, s) }
     else do { (status, s) \<leftarrow> gdb_send_empty_packet uart s; Some (False, status, pkt, mem, s) }
   }"

text \<open>The loop; the first component tells whether it was left by a command.\<close>

partial_function (option) gdb_loop :: "uart \<Rightarrow> pgregs \<Rightarrow> u8 \<times> u8 \<Rightarrow> kmem \<Rightarrow> u8 list \<Rightarrow> u32 \<Rightarrow> int \<Rightarrow> gdb_state \<Rightarrow> (bool \<times> int \<times> kmem \<times> gdb_state) option" where
  "gdb_loop uart r junk mem pkt len status s =
    (if status = EOF then Some (False, status, mem, s)
     else do {
       (status, pkt, len, s) \<leftarrow> gdb_recv_packet uart junk pkt len s;
       if status = EOF then Some (False, status, mem, s)
       else if status = 3 then do { (status, s) \<leftarrow> gdb_send_signal_packet uart SIGINT s; Some (False, status, mem, s) }
       else if len = 0 then gdb_loop uart r junk mem pkt len status s
       else do {
         (fin, status, pkt, mem, s) \<leftarrow> gdb_command uart r mem pkt len s;
         if fin then Some (True, status, mem, s) else gdb_loop uart r junk mem pkt len status s
       }
     })"

text \<open>\<open>gdb_main\<close>; the flag is the static variable \<open>debugging\<close>.\<close>

definition gdb_main :: "uart \<Rightarrow> pgregs \<Rightarrow> u8 \<times> u8 \<Rightarrow> u8 list \<Rightarrow> u32 \<Rightarrow> int \<Rightarrow> bool \<Rightarrow> kmem \<Rightarrow> iregs \<Rightarrow> gdb_state \<Rightarrow>
    (bool \<times> kmem \<times> iregs \<times> gdb_state) option" where
  "gdb_main uart r junk pkt len signum debugging mem regs s =
    (if debugging then Some (True, mem, regs, s)
     else do {
       let s = gdb_capture regs signum s;
       let com_int = (\<not> bit (c_iir (g_com s)) 0 \<and> g_pending_char s \<noteq> 0);
       let ctrl_c = (com_int \<and> g_pending_char s = 3);
       let packet_start = (com_int \<and> g_pending_char s = 36);
       let s = (if c_io_port (g_com s) = 0 then s\<lparr>g_com := (g_com s)\<lparr>c_io_port := SERIAL_DEBUG_PORT\<rparr>\<rparr> else s);
       assert_opt (c_io_port (g_com s) = SERIAL_DEBUG_PORT);
       let s = (if ctrl_c then snd (gdb_getc uart s) else s);
       if com_int \<and> \<not> ctrl_c \<and> \<not> packet_start then do {
         let s = s\<lparr>g_com := com_out UART_IER 1 (g_com s)\<rparr>;
         Some (False, mem, gdb_apply s regs, s)
       }
       else do {
         (status, s) \<leftarrow> (if \<not> com_int \<or> ctrl_c then gdb_send_signal_packet uart (g_signum s) s else Some (0, s));
         let s = s\<lparr>g_com := com_out UART_IER 0 (g_com s)\<rparr>;
         (fin, status, mem, s) \<leftarrow> gdb_loop uart r junk mem pkt len status s;
         s \<leftarrow> (if \<not> fin \<and> status = EOF then map_option snd (gdb_send_error_packet uart GDB_EUNKNOWN s) else Some s);
         Some (False, mem, gdb_apply s regs, s)
       }
     })"

end
