(* ===== verification/Gdb_Props.thy ===== *)
theory Gdb_Props
  imports Gdb Printf
begin

text \<open>
  What the debugger stub promises: the encoding of data, the framing of packets with acknowledgement and retransmission, and whole sessions.

  The other side is a host that has a sequence of bytes ready: \<open>host_uart inp\<close> is a port that is always ready to send and hands out the bytes of \<open>inp\<close> one by one.
\<close>

subsection \<open>Hexadecimal data\<close>

definition nib :: "nat \<Rightarrow> u8" where "nib n = of_int (toxdigit (int n))"

lemma nibbles: "\<forall>n \<in> set [0..<16]. hex_digit (nib n) = of_nat n \<and> nib n \<noteq> 0 \<and> nib n \<noteq> 3 \<and> nib n \<noteq> 35 \<and> nib n \<noteq> 255"
  by code_simp

lemma nibble:
  assumes "n < 16"
  shows "hex_digit (nib n) = of_nat n" "nib n \<notin> {0, 3, 35, 255}"
proof -
  have "n \<in> set [0..<16]" using assms by simp
  note bspec [OF nibbles this]
  then show "hex_digit (nib n) = of_nat n" "nib n \<notin> {0, 3, 35, 255}" by simp_all
qed

lemma char_EOF: "cchar c = EOF \<longleftrightarrow> c = 255"
proof -
  have "EOF = cchar 255" by code_simp
  then show ?thesis unfolding cchar_def by (metis signed_word_eqI)
qed

lemma hex_byte_eq: "hex_byte c = [nib (unat c div 16), nib (unat c mod 16)]" "unat c div 16 < 16" "unat c mod 16 < 16"
proof -
  have "unat (drop_bit 4 c) = unat c div 16"
    using unat8_bound [of c] by (subst unsigned_drop_bit_eq) (simp add: drop_bit_eq_div take_bit_eq_mod)
  moreover have "unat (c AND 0xF) = unat c mod 16"
  proof -
    have "c AND 0xF = take_bit 4 c" by (simp add: take_bit_eq_mask mask_eq_exp_minus_1)
    then show ?thesis by (simp only: unsigned_take_bit_eq) (simp add: take_bit_eq_mod)
  qed
  ultimately show "hex_byte c = [nib (unat c div 16), nib (unat c mod 16)]" unfolding hex_byte_def nib_def uint_nat by simp
qed (use unat8_bound [of c] in simp_all)

lemma length_hex_byte [simp]: "length (hex_byte c) = 2"
  by (simp add: hex_byte_def)

lemma hex_byte_decode: "push_bit 4 (hex_digit (hex_byte c ! 0)) + hex_digit (hex_byte c ! 1) = c"
proof -
  have "(push_bit 4 (of_nat (unat c div 16)) :: u8) + of_nat (unat c mod 16) = of_nat (unat c div 16 * 16 + unat c mod 16)"
    by (simp only: of_nat_add of_nat_mult push_bit_eq_mult) simp
  also have "\<dots> = c" by (simp only: div_mult_mod_eq of_nat_unat_id)
  finally show ?thesis using nibble(1) [OF hex_byte_eq(2), of c] nibble(1) [OF hex_byte_eq(3), of c] by (simp add: hex_byte_eq(1))
qed

lemma hex_byte_chars:
  assumes "x \<in> set (hex_byte c)"
  shows "x \<notin> {0, 3, 35, 255}"
  using assms nibble(2) [OF hex_byte_eq(2), of c] nibble(2) [OF hex_byte_eq(3), of c] by (auto simp: hex_byte_eq(1))

lemma length_hex [simp]: "length (concat (map hex_byte data)) = 2 * length data"
  by (induction data) auto

lemma decode_bytes_hex: "decode_bytes (concat (map hex_byte data) @ rest) (length data) = Some data"
proof (induction data)
  case (Cons c data)
  have "hex_byte c = [hex_byte c ! 0, hex_byte c ! 1]" by (simp add: hex_byte_def)
  then obtain a b where "hex_byte c = [a, b]" by blast
  then show ?case using Cons hex_byte_decode [of c] by simp
qed simp

subsection \<open>The port and the host\<close>

definition is_rx :: "uart_event \<Rightarrow> bool" where
  "is_rx e \<longleftrightarrow> (case e of Uin r v \<Rightarrow> r = UART_RX | _ \<Rightarrow> False)"

definition host_uart :: "u8 list \<Rightarrow> uart" where
  "host_uart inp h r =
    (let k = length (filter is_rx h) in
     if r = UART_LSR then (if k < length inp then 0x61 else 0x60) else if r = UART_RX \<and> k < length inp then inp ! k else 0)"

text \<open>The bytes that are still to be received; \<open>moved\<close>: \<open>n\<close> of them were taken and \<open>out\<close> was sent.\<close>

definition coming :: "u8 list \<Rightarrow> com \<Rightarrow> u8 list" where
  "coming inp com = drop (length (filter is_rx (c_log com))) inp"

definition moved :: "u8 list \<Rightarrow> com \<Rightarrow> com \<Rightarrow> nat \<Rightarrow> u8 list \<Rightarrow> bool" where
  "moved inp com com' n out \<longleftrightarrow> coming inp com' = drop n (coming inp com) \<and> tx_chars (c_log com') = tx_chars (c_log com) @ out \<and>
    c_io_port com' = c_io_port com \<and> c_iir com' = c_iir com"

lemma moved_refl [simp]: "moved inp com com 0 []"
  by (simp add: moved_def)

lemma moved_trans: "moved inp a b n out \<Longrightarrow> moved inp b c m out' \<Longrightarrow> moved inp a c (m + n) (out @ out')"
  by (auto simp: moved_def)

lemma com_in_lsr: "moved inp com (snd (com_in u UART_LSR com)) 0 []" "fst (com_in (host_uart inp) UART_LSR com) = (if coming inp com = [] then 0x60 else 0x61)"
  by (simp_all add: moved_def com_in_def coming_def is_rx_def uart_regs host_uart_def Let_def)

lemma thre_wait_ok: "\<exists>com'. thre_wait (host_uart inp) com = Some com' \<and> moved inp com com' 0 []"
proof -
  have "bit (fst (com_in (host_uart inp) UART_LSR com)) 5" 
  proof -
    have "bit (0x60 :: u8) 5" "bit (0x61 :: u8) 5" by code_simp+
    then show ?thesis unfolding com_in_lsr(2) by simp
  qed
  then show ?thesis
    using com_in_lsr(1) [of inp com "host_uart inp"] by (subst thre_wait.simps) (simp add: split_beta Let_def)
qed

lemma putc_ok: "\<exists>com'. gdb_putc (host_uart inp) c s = Some (s\<lparr>g_com := com'\<rparr>) \<and> moved inp (g_com s) com' 0 [c]"
proof -
  obtain com where w: "thre_wait (host_uart inp) (g_com s) = Some com" "moved inp (g_com s) com 0 []" using thre_wait_ok by blast
  have "moved inp com (com_out UART_TX c com) 0 [c]"
    by (simp add: moved_def com_out_def coming_def is_rx_def uart_regs Let_def)
  then have "moved inp (g_com s) (com_out UART_TX c com) 0 [c]" using moved_trans [OF w(2)] by fastforce
  then show ?thesis using w(1) by (auto simp: gdb_putc_def)
qed

lemma getc_ok:
  assumes "g_pending_char s = 0" "coming inp (g_com s) = c # rest"
  shows "\<exists>com'. gdb_getc (host_uart inp) s = (c, s\<lparr>g_com := com'\<rparr>) \<and> moved inp (g_com s) com' 1 []"
proof -
  define com where "com = snd (com_in (host_uart inp) UART_LSR (g_com s))"
  have "bit (0x61 :: u8) 0" by code_simp
  then have "poll_dr (host_uart inp) n (g_com s) = (True, com)" if "0 < n" for n
    using com_in_lsr(2) [of inp "g_com s"] assms(2) that by (cases n) (simp_all add: split_beta Let_def com_def)
  then have p: "poll_dr (host_uart inp) 1000000 (g_com s) = (True, com)" by simp
  have m: "moved inp (g_com s) com 0 []" unfolding com_def by (rule com_in_lsr(1))
  then have l: "coming inp com = c # rest" using assms(2) by (simp add: moved_def)
  then have k: "length (filter is_rx (c_log com)) < length inp" "inp ! length (filter is_rx (c_log com)) = c"
    unfolding coming_def by (auto simp: nth_via_drop intro: ccontr)
  have "com_in (host_uart inp) UART_RX com = (c, snd (com_in (host_uart inp) UART_RX com))" "moved inp com (snd (com_in (host_uart inp) UART_RX com)) 1 []"
    using k by (simp_all add: com_in_def host_uart_def uart_regs Let_def moved_def coming_def is_rx_def)
  note rx = this
  have "gdb_getc (host_uart inp) s = (c, s\<lparr>g_com := snd (com_in (host_uart inp) UART_RX com)\<rparr>)"
    using assms(1) p rx(1) by (simp add: gdb_getc_def) (metis fst_conv snd_conv split_conv)
  then show ?thesis using moved_trans [OF m rx(2)] by auto
qed

subsection \<open>Sending a packet\<close>

definition frame :: "u8 list \<Rightarrow> u8 list" where
  "frame buf = 36 # buf @ 35 # hex_byte (sum_list buf)"

definition ready :: "gdb_state \<Rightarrow> bool" where
  "ready s \<longleftrightarrow> g_pending_char s = 0 \<and> length (g_tx_buf s) = 512 \<and> length (g_regs s) = 16"

text \<open>What sending and receiving leaves alone.\<close>

definition keeps :: "gdb_state \<Rightarrow> gdb_state \<Rightarrow> bool" where
  "keeps s s' \<longleftrightarrow> g_signum s' = g_signum s \<and> g_regs s' = g_regs s \<and> g_pending_char s' = 0 \<and> length (g_tx_buf s') = length (g_tx_buf s)"

lemma send_data_ok:
  assumes "i + length buf \<le> length (g_tx_buf s)"
  shows "\<exists>com. send_data (host_uart inp) buf i ck s = Some (ck + sum_list buf,
      s\<lparr>g_com := com, g_tx_buf := take i (g_tx_buf s) @ buf @ drop (i + length buf) (g_tx_buf s)\<rparr>) \<and> moved inp (g_com s) com 0 buf"
  using assms
proof (induction buf arbitrary: i ck s)
  case Nil
  then show ?case by (intro exI [of _ "g_com s"]) simp
next
  case (Cons c buf)
  let ?tx = "(g_tx_buf s)[i := c]"
  obtain com where c: "gdb_putc (host_uart inp) c (s\<lparr>g_tx_buf := ?tx\<rparr>) = Some (s\<lparr>g_tx_buf := ?tx, g_com := com\<rparr>)" "moved inp (g_com s) com 0 [c]"
    using putc_ok [of inp c "s\<lparr>g_tx_buf := ?tx\<rparr>"] by auto
  obtain com' where c': "send_data (host_uart inp) buf (i + 1) (ck + c) (s\<lparr>g_tx_buf := ?tx, g_com := com\<rparr>) = Some (ck + c + sum_list buf,
      s\<lparr>g_com := com', g_tx_buf := take (i + 1) ?tx @ buf @ drop (i + 1 + length buf) ?tx\<rparr>)" "moved inp com com' 0 buf"
    using Cons.IH [of "i + 1" "s\<lparr>g_tx_buf := ?tx, g_com := com\<rparr>" "ck + c"] Cons.prems by auto
  have "take (i + 1) ?tx @ buf @ drop (i + 1 + length buf) ?tx = take i (g_tx_buf s) @ (c # buf) @ drop (i + length (c # buf)) (g_tx_buf s)"
    using Cons.prems by (simp add: take_Suc_conv_app_nth)
  then show ?case
    using c c' Cons.prems moved_trans [OF c(2) c'(2)] by (intro exI [of _ com']) (simp add: add.assoc)
qed

lemma put_packet_ok:
  assumes "length buf < length (g_tx_buf s)"
  shows "\<exists>com. put_packet (host_uart inp) buf s = Some (s\<lparr>g_com := com, g_tx_buf := buf @ 0 # drop (length buf + 1) (g_tx_buf s),
      g_tx_len := length buf, g_txpkt_count := g_txpkt_count s + 1\<rparr>) \<and> moved inp (g_com s) com 0 (frame buf)"
proof -
  let ?u = "host_uart inp" and ?ck = "sum_list buf"
  obtain c1 where 1: "gdb_putc ?u 36 s = Some (s\<lparr>g_com := c1\<rparr>)" "moved inp (g_com s) c1 0 [36]" using putc_ok by blast
  obtain c2 where 2: "send_data ?u buf 0 0 (s\<lparr>g_com := c1\<rparr>) = Some (?ck, s\<lparr>g_com := c2, g_tx_buf := buf @ drop (length buf) (g_tx_buf s)\<rparr>)"
    "moved inp c1 c2 0 buf"
    using send_data_ok [of 0 buf "s\<lparr>g_com := c1\<rparr>" inp 0] assms by auto
  define tx where "tx = buf @ 0 # drop (length buf + 1) (g_tx_buf s)"
  have tx: "(buf @ drop (length buf) (g_tx_buf s))[length buf := 0] = tx"
    using assms by (simp add: tx_def list_update_append Cons_nth_drop_Suc [symmetric])
  let ?s = "\<lambda>c. s\<lparr>g_tx_buf := tx, g_tx_len := length buf, g_com := c\<rparr>"
  obtain c3 where 3: "gdb_putc ?u 35 (?s c2) = Some (?s c3)" "moved inp c2 c3 0 [35]" using putc_ok [of inp 35 "?s c2"] by auto
  obtain c4 where 4: "gdb_putc ?u (hex_byte ?ck ! 0) (?s c3) = Some (?s c4)" "moved inp c3 c4 0 [hex_byte ?ck ! 0]"
    using putc_ok [of inp "hex_byte ?ck ! 0" "?s c3"] by auto
  obtain c5 where 5: "gdb_putc ?u (hex_byte ?ck ! 1) (?s c4) = Some (?s c5)" "moved inp c4 c5 0 [hex_byte ?ck ! 1]"
    using putc_ok [of inp "hex_byte ?ck ! 1" "?s c4"] by auto
  have "frame buf = [36] @ buf @ [35] @ [hex_byte ?ck ! 0] @ [hex_byte ?ck ! 1]" by (simp add: frame_def hex_byte_def)
  then have m: "moved inp (g_com s) c5 0 (frame buf)"
    using moved_trans [OF 1(2) moved_trans [OF 2(2) moved_trans [OF 3(2) moved_trans [OF 4(2) 5(2)]]]] by simp
  have "put_packet ?u buf s = Some ((?s c5)\<lparr>g_txpkt_count := g_txpkt_count s + 1\<rparr>)"
  proof -
    have e: "s\<lparr>g_com := c2, g_tx_buf := tx, g_tx_len := length buf\<rparr> = ?s c2" by simp
    have "gdb_putc ?u 35 (s\<lparr>g_com := c2, g_tx_buf := tx, g_tx_len := length buf\<rparr>) = Some (?s c3)" unfolding e by (rule 3(1))
    then show ?thesis using 1(1) 2(1) 4(1) 5(1) assms by (simp add: put_packet_def tx Let_def)
  qed
  also have "\<dots> = Some (s\<lparr>g_com := c5, g_tx_buf := tx, g_tx_len := length buf, g_txpkt_count := g_txpkt_count s + 1\<rparr>)" by simp
  finally show ?thesis using m unfolding tx_def by blast
qed

lemma send_packet_ok:
  assumes "length buf \<le> 511" "g_pending_char s = 0" "length (g_tx_buf s) = 512" "coming inp (g_com s) = replicate n 45 @ 43 # rest"
  shows "\<exists>s'. gdb_send_packet (host_uart inp) buf s = Some (0, s') \<and> moved inp (g_com s) (g_com s') (n + 1) (concat (replicate (n + 1) (frame buf))) \<and>
    keeps s s' \<and> g_nack_count s' = g_nack_count s + of_nat n \<and> g_ack_count s' = g_ack_count s + 1 \<and> g_txpkt_count s' = g_txpkt_count s + of_nat n + 1 \<and>
    g_rxpkt_count s' = g_rxpkt_count s \<and> take (g_tx_len s') (g_tx_buf s') = buf"
  using assms(2-)
proof (induction n arbitrary: s)
  case 0
  let ?u = "host_uart inp"
  obtain c1 where 1: "put_packet ?u buf s = Some (s\<lparr>g_com := c1, g_tx_buf := buf @ 0 # drop (length buf + 1) (g_tx_buf s),
      g_tx_len := length buf, g_txpkt_count := g_txpkt_count s + 1\<rparr>)" (is "_ = Some ?s1") "moved inp (g_com s) c1 0 (frame buf)"
    using put_packet_ok [of buf s inp] assms(1) 0(2) by auto
  have "coming inp (g_com ?s1) = 43 # rest" using 1(2) 0(3) by (simp add: moved_def)
  then obtain c2 where 2: "gdb_getc ?u ?s1 = (43, ?s1\<lparr>g_com := c2\<rparr>)" "moved inp c1 c2 1 []"
    using getc_ok [of ?s1 inp 43 rest] 0(1) by auto
  have "gdb_send_packet ?u buf s = Some (gdb_handle_ack (?s1\<lparr>g_com := c2\<rparr>))"
    using assms(1) 1(1) 2(1) by (subst gdb_send_packet.simps) (simp add: GDB_MAXLEN_def)
  then show ?case
    using moved_trans [OF 1(2) 2(2)] assms(1) 0(1,2) by (auto simp: gdb_handle_ack_def keeps_def)
next
  case (Suc n)
  let ?u = "host_uart inp"
  obtain c1 where 1: "put_packet ?u buf s = Some (s\<lparr>g_com := c1, g_tx_buf := buf @ 0 # drop (length buf + 1) (g_tx_buf s),
      g_tx_len := length buf, g_txpkt_count := g_txpkt_count s + 1\<rparr>)" (is "_ = Some ?s1") "moved inp (g_com s) c1 0 (frame buf)"
    using put_packet_ok [of buf s inp] assms(1) Suc.prems(2) by auto
  have l: "coming inp (g_com ?s1) = 45 # replicate n 45 @ 43 # rest" using 1(2) Suc.prems(3) by (simp add: moved_def)
  then obtain c2 where 2: "gdb_getc ?u ?s1 = (45, ?s1\<lparr>g_com := c2\<rparr>)" "moved inp c1 c2 1 []"
    using getc_ok [of ?s1 inp 45 "replicate n 45 @ 43 # rest"] Suc.prems(1) by auto
  let ?s2 = "?s1\<lparr>g_com := c2, g_nack_count := g_nack_count s + 1\<rparr>"
  have "gdb_send_packet ?u buf s = gdb_send_packet ?u buf ?s2"
    using assms(1) 1(1) 2(1) by (subst gdb_send_packet.simps) (simp add: GDB_MAXLEN_def)
  moreover obtain s' where "gdb_send_packet ?u buf ?s2 = Some (0, s')" "moved inp c2 (g_com s') (n + 1) (concat (replicate (n + 1) (frame buf)))"
    "keeps ?s2 s'" "g_nack_count s' = g_nack_count s + 1 + of_nat n" "g_ack_count s' = g_ack_count s + 1"
    "g_txpkt_count s' = g_txpkt_count s + 1 + of_nat n + 1" "g_rxpkt_count s' = g_rxpkt_count s" "take (g_tx_len s') (g_tx_buf s') = buf"
    using Suc.IH [of ?s2] l 2(2) assms(1) Suc.prems(1,2) by (auto simp: moved_def)
  ultimately show ?case
    using moved_trans [OF 1(2) moved_trans [OF 2(2)], of "g_com s'" "n + 1" "concat (replicate (n + 1) (frame buf))"] Suc.prems(2) assms(1)
    by (auto simp: keeps_def algebra_simps)
qed

subsection \<open>Receiving a packet\<close>

lemma wait_start_ok:
  assumes "g_pending_char s = 0" "coming inp (g_com s) = junk @ 36 # rest" "set junk \<inter> {255, 3, 43, 45, 36} = {}"
  shows "\<exists>com. wait_start (host_uart inp) s = Some (0, s\<lparr>g_com := com\<rparr>) \<and> moved inp (g_com s) com (length junk + 1) []"
  using assms
proof (induction junk arbitrary: s)
  case Nil
  then obtain com where "gdb_getc (host_uart inp) s = (36, s\<lparr>g_com := com\<rparr>)" "moved inp (g_com s) com 1 []" using getc_ok [of s inp 36 rest] by auto
  then show ?case by (subst wait_start.simps) (auto simp: char_EOF)
next
  case (Cons c junk)
  then obtain com where c: "gdb_getc (host_uart inp) s = (c, s\<lparr>g_com := com\<rparr>)" "moved inp (g_com s) com 1 []" using getc_ok [of s inp c] by auto
  then have "coming inp com = junk @ 36 # rest" using Cons.prems(2) by (simp add: moved_def)
  then obtain com' where c': "wait_start (host_uart inp) (s\<lparr>g_com := com\<rparr>) = Some (0, s\<lparr>g_com := com'\<rparr>)" "moved inp com com' (length junk + 1) []"
    using Cons.IH [of "s\<lparr>g_com := com\<rparr>"] Cons.prems by auto
  have "wait_start (host_uart inp) s = wait_start (host_uart inp) (s\<lparr>g_com := com\<rparr>)"
    using c(1) Cons.prems(3) by (subst wait_start.simps) (auto simp: char_EOF)
  then show ?case using c'(1) moved_trans [OF c(2) c'(2)] by auto
qed

lemma recv_data_ok:
  assumes "g_pending_char s = 0" "coming inp (g_com s) = d @ 35 # rest" "set d \<inter> {0, 35, 255} = {}" "len + length d \<le> 511" "length buf = 512"
  shows "\<exists>com. recv_data (host_uart inp) buf len ck s = Some (0, take len buf @ d @ drop (len + length d) buf, len + length d, ck + sum_list d, s\<lparr>g_com := com\<rparr>) \<and>
    moved inp (g_com s) com (length d + 1) []"
  using assms
proof (induction d arbitrary: s len buf ck)
  case Nil
  then obtain com where "gdb_getc (host_uart inp) s = (35, s\<lparr>g_com := com\<rparr>)" "moved inp (g_com s) com 1 []" using getc_ok [of s inp 35 rest] by auto
  then show ?case by (subst recv_data.simps) (auto simp: char_EOF)
next
  case (Cons c d)
  then obtain com where c: "gdb_getc (host_uart inp) s = (c, s\<lparr>g_com := com\<rparr>)" "moved inp (g_com s) com 1 []" using getc_ok [of s inp c] by auto
  then have "coming inp com = d @ 35 # rest" using Cons.prems(2) by (simp add: moved_def)
  then obtain com' where c': "recv_data (host_uart inp) (buf[len := c]) (len + 1) (ck + c) (s\<lparr>g_com := com\<rparr>) =
      Some (0, take (len + 1) (buf[len := c]) @ d @ drop (len + 1 + length d) (buf[len := c]), len + 1 + length d, ck + c + sum_list d, s\<lparr>g_com := com'\<rparr>)"
    "moved inp com com' (length d + 1) []"
    using Cons.IH [of "s\<lparr>g_com := com\<rparr>" "len + 1" "buf[len := c]" "ck + c"] Cons.prems by auto
  have e: "take (len + 1) (buf[len := c]) @ d @ drop (len + 1 + length d) (buf[len := c]) = take len buf @ (c # d) @ drop (len + length (c # d)) buf"
    using Cons.prems(4,5) by (simp add: take_Suc_conv_app_nth)
  have "recv_data (host_uart inp) buf len ck s = recv_data (host_uart inp) (buf[len := c]) (len + 1) (ck + c) (s\<lparr>g_com := com\<rparr>)"
    using c(1) Cons.prems(3-5) by (subst recv_data.simps) (auto simp: char_EOF GDB_MAXLEN_def)
  then show ?case using c'(1) moved_trans [OF c(2) c'(2)] unfolding e by (auto simp: add.assoc)
qed

lemma recv_cksum_ok:
  assumes "g_pending_char s = 0" "coming inp (g_com s) = x # rest" "x \<notin> {0, 255}"
  shows "\<exists>com. recv_cksum (host_uart inp) old s = (0, x, s\<lparr>g_com := com\<rparr>) \<and> moved inp (g_com s) com 1 []"
  using getc_ok [OF assms(1,2)] assms(3) by (auto simp: recv_cksum_def char_EOF)

lemma recv_packet_any:
  assumes "g_pending_char s = 0" "coming inp (g_com s) = junk @ 36 # d @ 35 # x # y # rest" "set junk \<inter> {255, 3, 43, 45, 36} = {}"
    "set d \<inter> {0, 35, 255} = {}" "length d \<le> 511" "length pkt = 512" "x \<notin> {0, 255}" "y \<notin> {0, 255}"
  shows "\<exists>com. gdb_recv_packet (host_uart inp) old pkt len s = Some (0, d @ 0 # drop (length d + 1) pkt,
      if sum_list d = push_bit 4 (hex_digit x) + hex_digit y then of_nat (length d) else len, s\<lparr>g_com := com, g_rxpkt_count := g_rxpkt_count s + 1\<rparr>) \<and>
    moved inp (g_com s) com (length junk + length d + 4) [if sum_list d = push_bit 4 (hex_digit x) + hex_digit y then 43 else 45]"
proof -
  let ?u = "host_uart inp"
  obtain c1 where 1: "wait_start ?u s = Some (0, s\<lparr>g_com := c1\<rparr>)" "moved inp (g_com s) c1 (length junk + 1) []"
    using wait_start_ok [OF assms(1,2,3)] by blast
  have l1: "coming inp c1 = d @ 35 # x # y # rest" using 1(2) assms(2) by (simp add: moved_def)
  obtain c2 where 2: "recv_data ?u pkt 0 0 (s\<lparr>g_com := c1\<rparr>) = Some (0, d @ drop (length d) pkt, length d, sum_list d, s\<lparr>g_com := c2\<rparr>)"
    "moved inp c1 c2 (length d + 1) []"
    using recv_data_ok [of "s\<lparr>g_com := c1\<rparr>" inp d "x # y # rest" 0 pkt 0] assms l1 by auto
  have l2: "coming inp c2 = x # y # rest" using 2(2) l1 by (simp add: moved_def)
  obtain c3 where 3: "recv_cksum ?u (fst old) (s\<lparr>g_com := c2\<rparr>) = (0, x, s\<lparr>g_com := c3\<rparr>)" "moved inp c2 c3 1 []"
    using recv_cksum_ok [of "s\<lparr>g_com := c2\<rparr>" inp x "y # rest" "fst old"] assms l2 by auto
  have l3: "coming inp c3 = y # rest" using 3(2) l2 by (simp add: moved_def)
  obtain c4 where 4: "recv_cksum ?u (snd old) (s\<lparr>g_com := c3\<rparr>) = (0, y, s\<lparr>g_com := c4\<rparr>)" "moved inp c3 c4 1 []"
    using recv_cksum_ok [of "s\<lparr>g_com := c3\<rparr>" inp y rest "snd old"] assms l3 by auto
  have pk: "(d @ drop (length d) pkt)[length d := 0] = d @ 0 # drop (length d + 1) pkt"
    using assms(5,6) by (simp add: list_update_append Cons_nth_drop_Suc [symmetric])
  let ?b = "if sum_list d = push_bit 4 (hex_digit x) + hex_digit y then 43 else 45" and ?s4 = "s\<lparr>g_com := c4, g_rxpkt_count := g_rxpkt_count s + 1\<rparr>"
  obtain c5 where 5: "gdb_putc ?u ?b ?s4 = Some (?s4\<lparr>g_com := c5\<rparr>)" "moved inp c4 c5 0 [?b]" using putc_ok [of inp ?b ?s4] by auto
  have dec: "decode_hex [x, y] 2 1 = Some (Inr [push_bit 4 (hex_digit x) + hex_digit y])" by (simp add: decode_hex_def)
  have "gdb_recv_packet ?u old pkt len s = Some (0, d @ 0 # drop (length d + 1) pkt,
      if sum_list d = push_bit 4 (hex_digit x) + hex_digit y then of_nat (length d) else len, ?s4\<lparr>g_com := c5\<rparr>)"
    using 1(1) 2(1) 3(1) 4(1) 5(1) assms(5,6) pk dec
    by (simp add: gdb_recv_packet_def EOF_def gdb_send_ack_def gdb_send_nack_def split: if_splits)
  moreover have "moved inp (g_com s) c5 (length junk + length d + 4) [?b]"
  proof -
    have n: "0 + 1 + 1 + (length d + 1) + (length junk + 1) = length junk + length d + 4" by simp
    show ?thesis
      using moved_trans [OF 1(2) moved_trans [OF 2(2) moved_trans [OF 3(2) moved_trans [OF 4(2) 5(2)]]]] unfolding n append_Nil .
  qed
  ultimately show ?thesis by (intro exI [of _ c5]) simp
qed

lemma recv_packet_ok:
  assumes "g_pending_char s = 0" "coming inp (g_com s) = frame d @ rest" "set d \<inter> {0, 35, 255} = {}" "length d \<le> 511" "length pkt = 512"
  shows "\<exists>com. gdb_recv_packet (host_uart inp) old pkt len s = Some (0, d @ 0 # drop (length d + 1) pkt, of_nat (length d),
      s\<lparr>g_com := com, g_rxpkt_count := g_rxpkt_count s + 1\<rparr>) \<and> moved inp (g_com s) com (length (frame d)) [43]"
proof -
  let ?x = "hex_byte (sum_list d) ! 0" and ?y = "hex_byte (sum_list d) ! 1"
  have h: "hex_byte (sum_list d) = [?x, ?y]" by (simp add: hex_byte_def)
  then have "?x \<notin> {0, 255}" "?y \<notin> {0, 255}" using hex_byte_chars [of _ "sum_list d"] by (metis insert_iff list.set_intros)+
  moreover have "coming inp (g_com s) = [] @ 36 # d @ 35 # ?x # ?y # rest" using assms(2) h by (simp add: frame_def)
  ultimately obtain com where "gdb_recv_packet (host_uart inp) old pkt len s = Some (0, d @ 0 # drop (length d + 1) pkt, of_nat (length d),
      s\<lparr>g_com := com, g_rxpkt_count := g_rxpkt_count s + 1\<rparr>)" "moved inp (g_com s) com (length d + 4) [43]"
    using recv_packet_any [of s inp "[]" d ?x ?y rest pkt old len] assms(1,3-5) hex_byte_decode [of "sum_list d"] by auto
  moreover have "length (frame d) = length d + 4" by (simp add: frame_def)
  ultimately show ?thesis by auto
qed

subsection \<open>Numbers in requests\<close>

definition hexnum :: "u32 \<Rightarrow> u8 list" where
  "hexnum w = (if w = 0 then [48] else map (digit_char False) (digit_list 16 (unat w)))"

lemma no_digits: "\<not> is_digit_in 16 44" "\<not> is_digit_in 16 58" "\<not> is_digit_in 16 0"
  by (simp_all add: is_digit_in_def isalnum_def isalpha_def isupper_def islower_def isdigit_def cchar_def)

lemma strtol16_hexnum:
  assumes "e \<in> {44, 58, 0}"
  shows "strtol16 (hexnum w @ e # rest) = Some (w, length (hexnum w))"
proof (cases "w = 0")
  case True
  have "strtoull (48 # e # rest) 16 = Some (Inr (0, 1))"
  proof -
    have "strtoull [48, 44] 16 = Some (Inr (0, 1))" "strtoull [48, 58] 16 = Some (Inr (0, 1))" "strtoull [48, 0] 16 = Some (Inr (0, 1))" by code_simp+
    moreover have "parse_loop (48 # e # rest) s = parse_loop [48, e] s" if "parse_loop [48, e] s \<noteq> None" for s
      using that by (auto split: prod.splits if_splits simp: Let_def)
    ultimately show ?thesis using assms unfolding strtoull_def by (auto split: option.splits bind_splits) 
  qed
  then show ?thesis using True by (simp add: strtol16_def strtol_def hexnum_def)
next
  case False
  let ?ds = "map (digit_char False) (digit_list 16 (unat w))"
  have z: "unat w \<noteq> 0" using False by (simp add: unat_eq_zero)
  have d: "\<forall>c \<in> set ?ds. is_digit_in 16 c" using digit_list_less [of _ 16] digit_char_ok(2) [of _ 16 False] by auto
  have ne: "?ds \<noteq> []" using z by (simp add: digit_list_empty)
  moreover have "hd ?ds \<noteq> 48"
  proof -
    have "hd (digit_list 16 (unat w)) < 16" using ne by (intro digit_list_less [of _ 16 "unat w"]) simp
    then show ?thesis using ne digit_list_hd [of 16 "unat w"] z digit_char_ok(3) [of "hd (digit_list 16 (unat w))" 16 False] by (simp add: hd_map)
  qed
  moreover have "digits_value 16 0 ?ds = of_nat (unat w)"
    using digits_value_map [of "digit_list 16 (unat w)" 16 0 False] digit_list_less [of _ 16] digit_list_value [of 16 "unat w"] by simp
  ultimately have "strtoull (?ds @ e # rest) 16 = Some (Inr (of_nat (unat w), length ?ds))"
    using strtoull_digits [of "[]" "[]" ?ds 16 16 e rest] d assms no_digits by (auto simp: sign_of_def)
  moreover have "(of_int (sint (ucast (of_nat (unat w) :: u64) :: u32)) :: u32) = w"
  proof -
    have "(ucast (ucast w :: u64) :: u32) = w" by (rule bit_word_eqI) (simp add: bit_simps)
    then show ?thesis by (simp add: unsigned_of_nat)
  qed
  ultimately show ?thesis using False by (simp add: strtol16_def strtol_def hexnum_def)
qed

lemma hexnum_chars: "set (hexnum w) \<inter> {0, 35, 255} = {}"
proof -
  have "\<not> is_digit_in 16 0" "\<not> is_digit_in 16 35" "\<not> is_digit_in 16 255"
    by (simp_all add: is_digit_in_def isalnum_def isalpha_def isupper_def islower_def isdigit_def cchar_def)
  moreover have "is_digit_in 16 c" if "c \<in> set (hexnum w)" for c
  proof (cases "w = 0")
    case True
    have "is_digit_in 16 48" by code_simp
    then show ?thesis using that True by (simp add: hexnum_def)
  next
    case False
    then show ?thesis using that digit_list_less [of _ 16] digit_char_ok(2) [of _ 16 False] by (auto simp: hexnum_def)
  qed
  ultimately show ?thesis by blast
qed

subsection \<open>Sessions\<close>

text \<open>Requests of the host, their text, and what they do: the reply, the registers and the memory.\<close>

datatype request = Ask_reason | Get_regs | Set_regs "u32 list" | Get_mem u32 u32 | Set_mem u32 "u8 list"

primrec request_text :: "request \<Rightarrow> u8 list" where
  "request_text Ask_reason = [63]"
| "request_text Get_regs = [103]"
| "request_text (Set_regs rs) = 71 # concat (map hex_byte (concat (map word_bytes rs)))"
| "request_text (Get_mem a n) = 109 # hexnum a @ 44 # hexnum n"
| "request_text (Set_mem a bs) = 77 # hexnum a @ 44 # hexnum (of_nat (length bs)) @ 58 # concat (map hex_byte bs)"

definition mapped :: "pgregs \<Rightarrow> kmem \<Rightarrow> u32 \<Rightarrow> bool" where
  "mapped r mem a \<longleftrightarrow> virt_addr_valid r mem a = Some True"

primrec exec :: "pgregs \<Rightarrow> int \<Rightarrow> request \<Rightarrow> u32 list \<times> kmem \<Rightarrow> u8 list \<times> u32 list \<times> kmem" where
  "exec r sig Ask_reason m = (83 # hex_byte (of_int sig), m)"
| "exec r sig Get_regs m = (concat (map hex_byte (concat (map word_bytes (fst m)))), m)"
| "exec r sig (Set_regs rs) m = ([79, 75], rs, snd m)"
| "exec r sig (Get_mem a n) m =
    (if mapped r (snd m) a \<and> mapped r (snd m) (a + n) then (concat (map (\<lambda>i. hex_byte (snd m (a + of_nat i))) [0..<unat n]), m)
     else (69 # hex_byte 14, m))"
| "exec r sig (Set_mem a bs) m =
    (if mapped r (snd m) a \<and> mapped r (snd m) (a + of_nat (length bs)) then ([79, 75], fst m, poke a bs (snd m)) else (69 # hex_byte 14, m))"

text \<open>Requests that fit the buffers.\<close>

definition request_ok :: "request \<Rightarrow> bool" where
  "request_ok q \<longleftrightarrow> length (request_text q) \<le> 511 \<and> (case q of Set_regs rs \<Rightarrow> length rs = 16 | Get_mem a n \<Rightarrow> unat n < 256 | _ \<Rightarrow> True)"

lemma request_text_chars: "set (request_text q) \<inter> {0, 35, 255} = {}" "request_text q \<noteq> []"
  using hexnum_chars hex_byte_chars by (cases q; fastforce)+

fun exec_all :: "pgregs \<Rightarrow> int \<Rightarrow> request list \<Rightarrow> u32 list \<times> kmem \<Rightarrow> u8 list list \<times> u32 list \<times> kmem" where
  "exec_all r sig [] m = ([], m)"
| "exec_all r sig (q # qs) m = (let (reply, m) = exec r sig q m; (replies, m) = exec_all r sig qs m in (reply # replies, m))"

lemma gdb_send_once:
  assumes "length buf \<le> 511" "ready s" "coming inp (g_com s) = 43 # rest"
  shows "\<exists>s'. gdb_send_packet (host_uart inp) buf s = Some (0, s') \<and> moved inp (g_com s) (g_com s') 1 (frame buf) \<and> keeps s s'"
  using send_packet_ok [of buf s inp 0 rest] assms by (auto simp: ready_def)

lemma keeps_ready: "keeps s s' \<Longrightarrow> ready s \<Longrightarrow> ready s'"
  by (simp add: keeps_def ready_def)

lemma regs_bytes: "length rs = n \<Longrightarrow> regs_of_bytes n (concat (map word_bytes rs)) = rs"
  by (induction n arbitrary: rs) (auto simp: length_Suc_conv bytes_word_bytes)

lemma length_regs_bytes: "length (concat (map word_bytes rs)) = 4 * length rs"
  by (induction rs) auto

lemma valid_mapped: "pg_cr3 r = pg_page_dir r \<Longrightarrow> virt_addr_valid r mem a = Some (mapped r mem a)"
  by (simp add: mapped_def virt_addr_valid_def walk_page_table_def get_pgdir_def Let_def)

lemma set_nul: "(xs @ 0 # ys)[length xs := 0] = xs @ 0 # ys"
  by simp

lemma unat_length: "n \<le> 512 \<Longrightarrow> unat (of_nat n :: u32) = n"
  by (simp add: unat_of_nat)

lemma read_mem_ok:
  assumes "ready s" "coming inp (g_com s) = 43 # rest" "pg_cr3 r = pg_page_dir r" "request_ok (Get_mem a n)"
    "exec r sig (Get_mem a n) (regs, mem) = (reply, m')"
  shows "\<exists>s'. gdb_read_mem (host_uart inp) r mem (hexnum a @ 44 # hexnum n @ 0 # junk) (of_nat (length (hexnum a @ 44 # hexnum n))) s
      = Some (0, hexnum a @ 44 # hexnum n @ 0 # junk, s') \<and> moved inp (g_com s) (g_com s') 1 (frame reply) \<and> keeps s s'"
proof -
  let ?t = "hexnum a @ 44 # hexnum n" and ?v = "mapped r mem a \<and> mapped r mem (a + n)"
  define data where "data = map (\<lambda>i. mem (a + of_nat i)) [0..<unat n]"
  have len: "length ?t \<le> 510" "unat n < 256" using assms(4) by (simp_all add: request_ok_def)
  have r: "reply = (if ?v then concat (map hex_byte data) else 69 # hex_byte 14)"
    using assms(5) by (auto simp: data_def comp_def split: if_splits)
  have ld: "length data = unat n" "length data < 256" using len(2) by (simp_all add: data_def)
  then have "length reply \<le> 511" by (simp add: r)
  then obtain s' where s': "gdb_send_packet (host_uart inp) reply s = Some (0, s')" "moved inp (g_com s) (g_com s') 1 (frame reply)" "keeps s s'"
    using gdb_send_once [OF _ assms(1,2), of reply] by blast
  have "strtol16 (?t @ 0 # junk) = Some (a, length (hexnum a))" using strtol16_hexnum [of 44 a "hexnum n @ 0 # junk"] by simp
  moreover have "strtol16 (hexnum n @ 0 # junk) = Some (n, length (hexnum n))" using strtol16_hexnum [of 0 n junk] by simp
  moreover have "arr_set (?t @ 0 # junk) (unat (of_nat (length ?t) :: u32)) 0 = Some (?t @ 0 # junk)"
    using set_nul [of ?t junk] len(1) by (subst unat_length) auto
  ultimately show ?thesis
    using s' len(2) valid_mapped [OF assms(3)] r ld
    by (auto simp: gdb_read_mem_def nth_append GDB_MAXLEN_def gdb_send_error_packet_def GDB_EFAULT_def send_encoded_def encode_hex_def data_def [symmetric])
qed

lemma write_mem_ok:
  assumes "ready s" "coming inp (g_com s) = 43 # rest" "pg_cr3 r = pg_page_dir r" "request_ok (Set_mem a bs)"
    "exec r sig (Set_mem a bs) (regs, mem) = (reply, regs', mem')"
  shows "\<exists>s'. gdb_write_mem (host_uart inp) r mem (drop 1 (request_text (Set_mem a bs)) @ 0 # junk) (of_nat (length (drop 1 (request_text (Set_mem a bs))))) s
      = Some (0, drop 1 (request_text (Set_mem a bs)) @ 0 # junk, mem', s') \<and> moved inp (g_com s) (g_com s') 1 (frame reply) \<and> keeps s s' \<and> regs' = regs"
proof -
  let ?k = "of_nat (length bs) :: u32" and ?h = "concat (map hex_byte bs)"
  let ?t = "hexnum a @ 44 # hexnum ?k @ 58 # ?h" and ?v = "mapped r mem a \<and> mapped r mem (a + ?k)"
  have len: "length ?t \<le> 510" using assms(4) by (simp add: request_ok_def)
  then have k: "length bs \<le> 255" "unat ?k = length bs" by (simp_all add: unat_of_nat)
  have r: "reply = (if ?v then [79, 75] else 69 # hex_byte 14)" "mem' = (if ?v then poke a bs mem else mem)" "regs' = regs"
    using assms(5) by (auto split: if_splits)
  have "length reply \<le> 511" by (simp add: r)
  then obtain s' where s': "gdb_send_packet (host_uart inp) reply s = Some (0, s')" "moved inp (g_com s) (g_com s') 1 (frame reply)" "keeps s s'"
    using gdb_send_once [OF _ assms(1,2), of reply] by blast
  have 1: "strtol16 (?t @ 0 # junk) = Some (a, length (hexnum a))" using strtol16_hexnum [of 44 a "hexnum ?k @ 58 # ?h @ 0 # junk"] by simp
  have 2: "strtol16 (hexnum ?k @ 58 # ?h @ 0 # junk) = Some (?k, length (hexnum ?k))" using strtol16_hexnum [of 58 ?k "?h @ 0 # junk"] by simp
  have 3: "arr_set (?t @ 0 # junk) (unat (of_nat (length ?t) :: u32)) 0 = Some (?t @ 0 # junk)"
    using set_nul [of ?t junk] len by (subst unat_length) auto
  have 4: "(of_nat (length ?t) :: u32) - of_nat (length (hexnum a) + 1 + length (hexnum ?k) + 1) = of_nat (2 * length bs)" by simp
  have 5: "decode_hex (?h @ 0 # junk) (of_nat (2 * length bs)) (length bs) = Some (Inr bs)"
    using decode_bytes_hex [of bs "0 # junk"] by (simp add: decode_hex_def mult.commute)
  have "gdb_write_mem (host_uart inp) r mem (?t @ 0 # junk) (of_nat (length ?t)) s = Some (0, ?t @ 0 # junk, mem', s')"
    unfolding gdb_write_mem_def 3
    using s'(1) k 1 2 4 5 valid_mapped [OF assms(3)] r
    by (auto simp: nth_append GDB_MAXLEN_def gdb_send_error_packet_def GDB_EFAULT_def gdb_send_ok_packet_def Let_def)
  then show ?thesis using s' r(3) by simp
qed

text \<open>One command, for the text of a request in the buffer.\<close>

lemma command_ok:
  assumes s: "ready s" "coming inp (g_com s) = 43 # rest" "pg_cr3 r = pg_page_dir r" and q: "request_ok q"
    and e: "exec r (g_signum s) q (g_regs s, mem) = (reply, regs', mem')" and l: "length junk + length (request_text q) = 511"
  shows "\<exists>s' pkt'. gdb_command (host_uart inp) r mem (request_text q @ 0 # junk) (of_nat (length (request_text q))) s =
      Some (False, 0, pkt', mem', s') \<and> length pkt' = 512 \<and> ready s' \<and> g_signum s' = g_signum s \<and> g_regs s' = regs' \<and>
      moved inp (g_com s) (g_com s') 1 (frame reply)"
proof (cases q)
  case Ask_reason
  then have r: "reply = 83 # hex_byte (of_int (g_signum s))" "regs' = g_regs s" "mem' = mem" using e by auto
  then obtain s' where "gdb_send_packet (host_uart inp) reply s = Some (0, s')" "moved inp (g_com s) (g_com s') 1 (frame reply)" "keeps s s'"
    using gdb_send_once [OF _ s(1,2), of reply] by auto
  then show ?thesis using r s(1) l Ask_reason keeps_ready [of s s']
    by (intro exI [of _ s'] exI [of _ "request_text q @ 0 # junk"]) (simp add: gdb_command_def gdb_send_signal_packet_def keeps_def)
next
  case Get_regs
  then have r: "reply = concat (map hex_byte (concat (map word_bytes (g_regs s))))" "regs' = g_regs s" "mem' = mem" using e by auto
  have n: "length (concat (map word_bytes (g_regs s))) = 64" using s(1) by (simp only: length_regs_bytes) (simp add: ready_def)
  then have "length reply \<le> 511" by (simp only: r length_hex) 
  then obtain s' where "gdb_send_packet (host_uart inp) reply s = Some (0, s')" "moved inp (g_com s) (g_com s') 1 (frame reply)" "keeps s s'"
    using gdb_send_once [OF _ s(1,2), of reply] by auto
  then show ?thesis using r s(1) l n Get_regs keeps_ready [of s s']
    by (intro exI [of _ s'] exI [of _ "request_text q @ 0 # junk"])
      (simp add: gdb_command_def gdb_read_regs_def send_encoded_def encode_hex_def keeps_def GDB_NUM_I386_REGS_def)
next
  case (Set_regs rs)
  then have r: "reply = [79, 75]" "regs' = rs" "mem' = mem" using e by auto
  have n: "length rs = 16" "length (concat (map word_bytes rs)) = 64" using q Set_regs length_regs_bytes [of rs] by (auto simp: request_ok_def)
  let ?h = "concat (map hex_byte (concat (map word_bytes rs)))"
  have d: "decode_hex (?h @ 0 # junk) 128 64 = Some (Inr (concat (map word_bytes rs)))"
    using decode_bytes_hex [of "concat (map word_bytes rs)" "0 # junk"] n(2) by (simp add: decode_hex_def)
  have "length ?h = 128" by (simp add: n(2))
  note lh = this
  let ?s = "s\<lparr>g_regs := rs\<rparr>"
  have "ready ?s" using s(1) n(1) by (simp add: ready_def)
  then obtain s' where s': "gdb_send_packet (host_uart inp) reply ?s = Some (0, s')" "moved inp (g_com s) (g_com s') 1 (frame reply)" "keeps ?s s'"
    using gdb_send_once [of reply ?s inp rest] s(2) r(1) by auto
  have "regs_of_bytes 16 (concat (map word_bytes rs)) = rs" using regs_bytes [OF n(1)] .
  then have "gdb_write_regs (host_uart inp) (?h @ 0 # junk) 128 s = Some (0, s')"
    using s'(1) r(1) d by (simp add: gdb_write_regs_def GDB_NUM_I386_REGS_def gdb_send_ok_packet_def)
  then show ?thesis using r l lh Set_regs s' \<open>ready ?s\<close> keeps_ready [of ?s s']
    by (intro exI [of _ s'] exI [of _ "request_text q @ 0 # junk"]) (simp add: gdb_command_def keeps_def)
next
  case (Get_mem a n)
  have r: "regs' = g_regs s" "mem' = mem" using e Get_mem by (auto split: if_splits)
  obtain s' where "gdb_read_mem (host_uart inp) r mem (hexnum a @ 44 # hexnum n @ 0 # junk) (of_nat (length (hexnum a @ 44 # hexnum n))) s
      = Some (0, hexnum a @ 44 # hexnum n @ 0 # junk, s')" "moved inp (g_com s) (g_com s') 1 (frame reply)" "keeps s s'"
    using read_mem_ok [OF s, of a n] q e Get_mem by blast
  then show ?thesis using r s(1) l Get_mem keeps_ready [of s s']
    by (intro exI [of _ s'] exI [of _ "request_text q @ 0 # junk"]) (simp add: gdb_command_def keeps_def)
next
  case (Set_mem a bs)
  let ?t = "drop 1 (request_text (Set_mem a bs))"
  obtain s' where s': "gdb_write_mem (host_uart inp) r mem (?t @ 0 # junk) (of_nat (length ?t)) s = Some (0, ?t @ 0 # junk, mem', s')"
    "moved inp (g_com s) (g_com s') 1 (frame reply)" "keeps s s'" "regs' = g_regs s"
    using write_mem_ok [OF s, of a bs] q e Set_mem by blast
  have t: "request_text q = 77 # ?t" using Set_mem by simp
  show ?thesis unfolding t using s' s(1) l [unfolded t] keeps_ready [of s s']
    by (intro exI [of _ s'] exI [of _ "77 # ?t @ 0 # junk"]) (simp add: gdb_command_def keeps_def)
qed

text \<open>What the host sends for a list of requests, with an acknowledgement after each, and then the request to continue; what it gets back.\<close>

definition session_input :: "request list \<Rightarrow> u8 list" where
  "session_input qs = concat (map (\<lambda>q. frame (request_text q) @ [43]) qs) @ frame [99]"

definition session_output :: "u8 list list \<Rightarrow> u8 list" where
  "session_output replies = concat (map (\<lambda>reply. 43 # frame reply) replies) @ [43]"

definition without_trap :: "u32 list \<Rightarrow> u32 list" where
  "without_trap regs = regs[9 := regs ! 9 AND NOT EFLAGS_TF]"

lemma com_out_ier: "moved inp com (com_out UART_IER v com) 0 []"
  by (simp add: moved_def com_out_def coming_def is_rx_def uart_regs Let_def)

lemma loop_continue:
  assumes "ready s" "coming inp (g_com s) = frame [99]" "length pkt = 512"
  shows "\<exists>s'. gdb_loop (host_uart inp) r junk mem pkt len 0 s = Some (True, 0, mem, s') \<and> g_signum s' = g_signum s \<and>
    g_regs s' = without_trap (g_regs s) \<and> tx_chars (c_log (g_com s')) = tx_chars (c_log (g_com s)) @ [43] \<and> coming inp (g_com s') = []"
proof -
  let ?s = "\<lambda>c. s\<lparr>g_com := c, g_rxpkt_count := g_rxpkt_count s + 1\<rparr>"
  obtain c where c: "gdb_recv_packet (host_uart inp) junk pkt len s = Some (0, 99 # 0 # drop 2 pkt, 1, ?s c)"
      "moved inp (g_com s) c (length (frame [99])) [43]"
    using recv_packet_ok [of s inp "[99]" "[]" pkt junk len, simplified] assms by (auto simp: ready_def numeral_2_eq_2)
  have "gdb_loop (host_uart inp) r junk mem pkt len 0 s = Some (True, 0, mem, gdb_continue (?s c))"
    using c(1) by (subst gdb_loop.simps) (simp add: EOF_def gdb_command_def)
  then show ?thesis using moved_trans [OF c(2) com_out_ier [of inp c 1]] assms(2)
    by (simp add: gdb_continue_def without_trap_def moved_def)
qed

lemma loop_step:
  assumes s: "ready s" "pg_cr3 r = pg_page_dir r" "request_ok q" "coming inp (g_com s) = frame (request_text q) @ 43 # rest" "length pkt = 512"
    and e: "exec r (g_signum s) q (g_regs s, mem) = (reply, regs', mem')"
  shows "\<exists>s' pkt' len'. gdb_loop (host_uart inp) r junk mem pkt len 0 s = gdb_loop (host_uart inp) r junk mem' pkt' len' 0 s' \<and> length pkt' = 512 \<and>
    ready s' \<and> g_signum s' = g_signum s \<and> g_regs s' = regs' \<and> moved inp (g_com s) (g_com s') (length (frame (request_text q)) + 1) (43 # frame reply)"
proof -
  let ?t = "request_text q" and ?u = "host_uart inp"
  let ?s = "\<lambda>c. s\<lparr>g_com := c, g_rxpkt_count := g_rxpkt_count s + 1\<rparr>"
  have n: "length ?t \<le> 511" "?t \<noteq> []" using s(3) request_text_chars(2) [of q] by (auto simp: request_ok_def)
  obtain c where c: "gdb_recv_packet ?u junk pkt len s = Some (0, ?t @ 0 # drop (length ?t + 1) pkt, of_nat (length ?t), ?s c)"
      "moved inp (g_com s) c (length (frame ?t)) [43]"
    using recv_packet_ok [of s inp ?t "43 # rest" pkt junk len] s n request_text_chars(1) [of q] by (auto simp: ready_def)
  have "ready (?s c)" using s(1) by (simp add: ready_def)
  moreover have "coming inp (g_com (?s c)) = 43 # rest" using c(2) s(4) by (simp add: moved_def)
  moreover have "exec r (g_signum (?s c)) q (g_regs (?s c), mem) = (reply, regs', mem')" using e by simp
  moreover have "length (drop (length ?t + 1) pkt) + length ?t = 511" using s(5) n(1) by simp
  ultimately obtain s' pkt' where k: "gdb_command ?u r mem (?t @ 0 # drop (length ?t + 1) pkt) (of_nat (length ?t)) (?s c) = Some (False, 0, pkt', mem', s')"
    "length pkt' = 512" "ready s'" "g_signum s' = g_signum s" "g_regs s' = regs'" "moved inp c (g_com s') 1 (frame reply)"
    using command_ok [of "?s c" inp rest r q mem reply regs' mem'] s(2,3) by fastforce
  have "(of_nat (length ?t) :: u32) \<noteq> 0" using n unat_length [of "length ?t"] by (auto simp: unat_eq_0 dest: sym)
  then have "gdb_loop ?u r junk mem pkt len 0 s = gdb_loop ?u r junk mem' pkt' (of_nat (length ?t)) 0 s'"
    using c(1) k(1) by (subst gdb_loop.simps) (simp add: EOF_def)
  then show ?thesis using k moved_trans [OF c(2) k(6)] by (intro exI [of _ s'] exI [of _ pkt'] exI [of _ "of_nat (length ?t)"]) simp
qed

lemma exec_length:
  assumes "request_ok q" "exec r sig q (regs, mem) = (reply, regs', mem')" "length regs = 16"
  shows "length regs' = 16"
  using assms by (cases q) (auto simp: request_ok_def split: if_splits)

lemma exec_all_length:
  "\<forall>q \<in> set qs. request_ok q \<Longrightarrow> exec_all r sig qs (regs, mem) = (replies, regs', mem') \<Longrightarrow> length regs = 16 \<Longrightarrow> length regs' = 16"
proof (induction qs arbitrary: regs mem replies)
  case (Cons q qs)
  obtain reply regs1 mem1 where e: "exec r sig q (regs, mem) = (reply, regs1, mem1)" by (metis prod.exhaust)
  obtain replies' where "exec_all r sig qs (regs1, mem1) = (replies', regs', mem')" using Cons.prems(2) e by (auto split: prod.splits)
  then show ?case using Cons.IH exec_length [OF _ e] Cons.prems by simp
qed simp

lemma loop_session:
  assumes "ready s" "pg_cr3 r = pg_page_dir r" "\<forall>q \<in> set qs. request_ok q" "coming inp (g_com s) = session_input qs" "length pkt = 512"
    "exec_all r (g_signum s) qs (g_regs s, mem) = (replies, regs', mem')"
  shows "\<exists>s'. gdb_loop (host_uart inp) r junk mem pkt len 0 s = Some (True, 0, mem', s') \<and> g_regs s' = without_trap regs' \<and>
    tx_chars (c_log (g_com s')) = tx_chars (c_log (g_com s)) @ session_output replies \<and> coming inp (g_com s') = []"
  using assms(1,3-)
proof (induction qs arbitrary: s mem pkt len replies)
  case Nil
  then show ?case using loop_continue [of s inp pkt r junk mem len] by (auto simp: session_input_def session_output_def)
next
  case (Cons q qs)
  obtain reply regs1 mem1 where e: "exec r (g_signum s) q (g_regs s, mem) = (reply, regs1, mem1)" by (metis prod.exhaust)
  obtain replies' where e': "exec_all r (g_signum s) qs (regs1, mem1) = (replies', regs', mem')" "replies = reply # replies'"
    using Cons.prems(5) e by (auto split: prod.splits)
  have l: "coming inp (g_com s) = frame (request_text q) @ 43 # session_input qs" using Cons.prems(3) by (simp add: session_input_def)
  obtain s1 pkt' len' where s1: "gdb_loop (host_uart inp) r junk mem pkt len 0 s = gdb_loop (host_uart inp) r junk mem1 pkt' len' 0 s1" "length pkt' = 512"
    "ready s1" "g_signum s1 = g_signum s" "g_regs s1 = regs1" "moved inp (g_com s) (g_com s1) (length (frame (request_text q)) + 1) (43 # frame reply)"
    using loop_step [OF Cons.prems(1) assms(2) _ l Cons.prems(4) e, of junk len] Cons.prems(2) by fastforce
  have "coming inp (g_com s1) = session_input qs" using s1(6) l by (simp add: moved_def)
  then obtain s' where "gdb_loop (host_uart inp) r junk mem1 pkt' len' 0 s1 = Some (True, 0, mem', s')" "g_regs s' = without_trap regs'"
    "tx_chars (c_log (g_com s')) = tx_chars (c_log (g_com s1)) @ session_output replies'" "coming inp (g_com s') = []"
    using Cons.IH [of s1 pkt' mem1 replies' len'] s1 e' Cons.prems(2) by auto
  then show ?case using s1(1,6) e'(2) by (intro exI [of _ s']) (simp add: moved_def session_output_def)
qed

definition regs_list :: "iregs \<Rightarrow> u32 list" where
  "regs_list i = [ir_eax i, ir_ecx i, ir_edx i, ir_ebx i, ir_esp i, ir_ebp i, ir_esi i, ir_edi i,
     ir_eip i, ir_eflags i, ir_cs i, ir_ss i, ir_ds i, ir_es i, ir_fs i, ir_gs i]"

lemma apply_list: "length (g_regs s) = 16 \<Longrightarrow> regs_list (gdb_apply s regs) = g_regs s"
  by (auto simp: regs_list_def gdb_apply_def Let_def numeral_eq_Suc length_Suc_conv)

text \<open>
  C8: A debugging session is a correct remote execution of the host's requests. The kernel stops with a signal; the host acknowledges the stop report and sends any
  number of requests (the stop reason, reading and writing the registers and the memory) that fit the buffers, acknowledging each reply, and then lets the kernel
  continue. Then \<open>gdb_main\<close> returns; every packet was acknowledged and answered with a packet with the right checksum, in order; the replies, the memory and
  the registers are those of carrying out the requests one after the other on the interrupted registers, an access to an unmapped page being answered with an error
  and without an effect, and the trap flag is clear.
\<close>

theorem gdb_session:
  assumes "pg_cr3 r = pg_page_dir r" "\<forall>q \<in> set qs. request_ok q" "exec_all r signum qs (regs_list regs, mem) = (replies, m)"
    and "c_io_port com \<in> {0, SERIAL_DEBUG_PORT}" "coming inp com = 43 # session_input qs" "length pkt = GDB_MAXLEN"
  shows "\<exists>regs' s'. gdb_main (host_uart inp) r junk pkt len signum False mem regs (gdb_init com) = Some (False, snd m, regs', s') \<and>
    regs_list regs' = without_trap (fst m) \<and> coming inp (g_com s') = [] \<and>
    tx_chars (c_log (g_com s')) = tx_chars (c_log com) @ frame (83 # hex_byte (of_int signum)) @ session_output replies"
proof -
  obtain regs1 mem1 where m: "m = (regs1, mem1)" by (metis prod.exhaust)
  define s where "s = (gdb_capture regs signum (gdb_init com))\<lparr>g_com := if c_io_port com = 0 then com\<lparr>c_io_port := SERIAL_DEBUG_PORT\<rparr> else com\<rparr>"
  have s: "ready s" "g_signum s = signum" "g_regs s = regs_list regs" "coming inp (g_com s) = 43 # session_input qs"
      "tx_chars (c_log (g_com s)) = tx_chars (c_log com)"
    using assms(5) by (simp_all add: s_def ready_def gdb_init_def gdb_capture_def regs_list_def coming_def GDB_MAXLEN_def)
  have "length (83 # hex_byte (of_int signum)) \<le> 511" by simp
  then obtain s1 where s1: "gdb_send_packet (host_uart inp) (83 # hex_byte (of_int signum)) s = Some (0, s1)"
      "moved inp (g_com s) (g_com s1) 1 (frame (83 # hex_byte (of_int signum)))" "keeps s s1"
    using gdb_send_once [OF _ s(1,4)] by blast
  let ?s = "s1\<lparr>g_com := com_out UART_IER 0 (g_com s1)\<rparr>"
  note mv = moved_trans [OF s1(2) com_out_ier [of inp "g_com s1" 0]]
  have "ready ?s" "g_signum ?s = signum" "g_regs ?s = regs_list regs" using keeps_ready [OF s1(3) s(1)] s1(3) s by (simp_all add: ready_def keeps_def)
  moreover have "coming inp (g_com ?s) = session_input qs" using mv s(4) by (simp add: moved_def)
  ultimately obtain s' where s': "gdb_loop (host_uart inp) r junk mem pkt len 0 ?s = Some (True, 0, mem1, s')" "g_regs s' = without_trap regs1"
    "tx_chars (c_log (g_com s')) = tx_chars (c_log (g_com ?s)) @ session_output replies" "coming inp (g_com s') = []"
    using loop_session [of ?s r qs inp pkt mem replies regs1 mem1 junk len] assms(1-3,6) m by (auto simp: GDB_MAXLEN_def)
  have "length regs1 = 16" using exec_all_length [of qs r signum "regs_list regs" mem replies regs1 mem1] assms(2,3) m by (simp add: regs_list_def)
  then have a: "regs_list (gdb_apply s' regs) = without_trap regs1" using s'(2) by (simp add: apply_list without_trap_def)
  have e: "(if c_io_port (g_com (gdb_capture regs signum (gdb_init com))) = 0
      then (gdb_capture regs signum (gdb_init com))\<lparr>g_com := (g_com (gdb_capture regs signum (gdb_init com)))\<lparr>c_io_port := SERIAL_DEBUG_PORT\<rparr>\<rparr>
      else gdb_capture regs signum (gdb_init com)) = s"
    by (simp add: s_def gdb_capture_def gdb_init_def)
  have "c_io_port (g_com s) = SERIAL_DEBUG_PORT" using assms(4) by (auto simp: s_def)
  moreover have "g_pending_char (gdb_capture regs signum (gdb_init com)) = 0" by (simp add: gdb_capture_def gdb_init_def)
  ultimately have "gdb_main (host_uart inp) r junk pkt len signum False mem regs (gdb_init com) = Some (False, mem1, gdb_apply s' regs, s')"
    using s1(1) s'(1) s(2) by (simp add: gdb_main_def Let_def e gdb_send_signal_packet_def)
  then show ?thesis using a s'(3,4) mv s(5) m by (intro exI [of _ "gdb_apply s' regs"] exI [of _ s']) (simp add: moved_def)
qed

theorem gdb_session_witness:
  "\<exists>regs' s'. gdb_main (host_uart (43 # session_input [Ask_reason, Set_mem 0x10 [0xAA], Get_mem 0x10 2])) \<lparr>pg_cr3 = 0x2000, pg_page_dir = 0x2000\<rparr>
      (0, 0) (replicate 512 0) 0 5 False (\<lambda>_. 1) (gdb_apply (gdb_init ex_com) undefined) (gdb_init ex_com)
      = Some (False, (\<lambda>_. 1)(0x10 := 0xAA), regs', s') \<and>
    tx_chars (c_log (g_com s')) = frame [83, 48, 53] @ session_output [[83, 48, 53], [79, 75], [97, 97, 48, 49]]"
proof -
  let ?r = "\<lparr>pg_cr3 = 0x2000, pg_page_dir = 0x2000\<rparr>" and ?qs = "[Ask_reason, Set_mem 0x10 [0xAA], Get_mem 0x10 2]"
    and ?regs = "gdb_apply (gdb_init ex_com) undefined"
  have q: "\<forall>q \<in> set ?qs. request_ok q" by code_simp
  have "mapped ?r (\<lambda>_. 1) 0x10" "mapped ?r (\<lambda>_. 1) 0x11"
    "mapped ?r ((\<lambda>_. 1)(0x10 := 0xAA)) 0x10" "mapped ?r ((\<lambda>_. 1)(0x10 := 0xAA)) 0x12" by code_simp+
  moreover have "hex_byte 5 = [48, 53]" "hex_byte 0xAA = [97, 97]" "hex_byte 1 = [48, 49]" by code_simp+
  moreover have "[0..<2] = [0, 1]" by code_simp
  ultimately have e: "exec_all ?r 5 ?qs (regs_list ?regs, \<lambda>_. 1) =
      ([[83, 48, 53], [79, 75], [97, 97, 48, 49]], regs_list ?regs, (\<lambda>_. 1)(0x10 := 0xAA))"
    by simp
  have c: "c_io_port ex_com \<in> {0, SERIAL_DEBUG_PORT}" "coming (43 # session_input ?qs) ex_com = 43 # session_input ?qs" "tx_chars (c_log ex_com) = []"
    by (simp_all add: ex_com_def coming_def SERIAL_DEBUG_PORT_def tx_chars_def)
  have r: "pg_cr3 ?r = pg_page_dir ?r" and l: "length (replicate 512 0) = GDB_MAXLEN" by (simp_all add: GDB_MAXLEN_def)
  have h: "hex_byte (of_int 5) = [48, 53]" by code_simp
  show ?thesis
    using gdb_session [OF r q e c(1,2) l, of "(0, 0)" 0] unfolding h c(3) snd_conv append_Nil by blast
qed

text \<open>
  C36: Transmission to the debugger survives any number of negative acknowledgements: a packet of at most 511 characters is sent again after each of them, unchanged,
  until it is acknowledged; the call then returns 0, one packet and one answer were counted for each attempt, and the registers are as they were.
\<close>

theorem gdb_retransmission:
  assumes "length buf \<le> 511" "ready s" "coming inp (g_com s) = replicate n 45 @ 43 # rest"
  shows "\<exists>s'. gdb_send_packet (host_uart inp) buf s = Some (0, s') \<and> coming inp (g_com s') = rest \<and> ready s' \<and> g_regs s' = g_regs s \<and>
    tx_chars (c_log (g_com s')) = tx_chars (c_log (g_com s)) @ concat (replicate (n + 1) (frame buf)) \<and>
    g_txpkt_count s' = g_txpkt_count s + of_nat n + 1 \<and> g_nack_count s' = g_nack_count s + of_nat n \<and> g_ack_count s' = g_ack_count s + 1"
  using send_packet_ok [OF assms(1), of s inp n rest] assms(2,3) by (auto simp: ready_def moved_def keeps_def)

theorem gdb_retransmission_witness:
  "\<exists>s'. gdb_send_packet (host_uart [45, 45, 43]) [79, 75] (gdb_init ex_com) = Some (0, s') \<and>
    tx_chars (c_log (g_com s')) = frame [79, 75] @ frame [79, 75] @ frame [79, 75]"
proof -
  have "coming [45, 45, 43] (g_com (gdb_init ex_com)) = replicate 2 45 @ 43 # []" "tx_chars (c_log (g_com (gdb_init ex_com))) = []"
    "ready (gdb_init ex_com)" by code_simp+
  then show ?thesis using gdb_retransmission [of "[79, 75]" "gdb_init ex_com" "[45, 45, 43]" 2 "[]"] by (auto simp: numeral_eq_Suc)
qed



end
