(* ===== verification/Spec2Isabelle.thy ===== *)
theory Spec2Isabelle
  imports Ohwes_Prelude Ring Klist Bitops Pool Ctype Vga Terminal Terminal_Props Strings Strtoull Fat_Table Fat_Dir Fat_Short Fat_Long
    Ldisc Serial Printf Printf_Props Console Io Files Files_Props Files_Init Files_Thms Tty_Ioctl Irq Timer Ioctl Rtc Ps2 Keyboard Keyboard_Props Fat_Disk Fat_Disk_Props Paging Memmap X86 Gdb Gdb_Props
begin

text \<open>
  \<^bold>\<open>OH-WES\<close> is a small operating system for the i386: a kernel with interrupt handling, character devices and system calls on
  them, a C library shared by the kernel and its programs, and a host tool (fatfs) that writes FAT disk images. This development
  models the code under \<^verbatim>\<open>src/\<close> (kernel, headers and C library) and \<^verbatim>\<open>tools/fatfs/\<close> (the file system library) in HOL and proves
  what makes the parts correct, alone and together.

  \<^bold>\<open>How the parts interact.\<close> A program calls \<open>open\<close>, \<open>read\<close>, \<open>write\<close>, \<open>dup\<close>, \<open>fcntl\<close>, \<open>close\<close>. A descriptor leads to a file
  structure (allocated from an object pool), that to the device node (inode, found by the name of its directory entry), that to the
  character device and to a tty. The line discipline translates what is written and hands it to the driver of the tty: the 16550
  driver, which queues it in a ring and sends it on transmit interrupts, or the virtual terminals, which interpret escape sequences
  and draw on the VGA text screen. In the other direction an interrupt goes through the controllers (8259A) and the dispatcher to
  the handlers of the serial port, the keyboard, the clock or the timer; characters are queued by the line discipline, echoed, and
  read by the program. The kernel reports through \<open>kprint\<close>, which formats with the C library's \<open>printf\<close> engine, keeps a log and
  writes to every registered console.

  \<^bold>\<open>Theories and code.\<close> Every definition carries the name of the C function, type or constant it translates where HOL allows it.
  \<^item> \<open>Ohwes_Prelude\<close>: machine words, checked array accesses and assertions; the cells of a circular buffer.
  \<^item> \<open>Ring\<close> (\<^verbatim>\<open>kernel/ring.c\<close>), \<open>Klist\<close> (\<^verbatim>\<open>kernel/list.c\<close>, \<^verbatim>\<open>list.h\<close>), \<open>Bitops\<close> (\<^verbatim>\<open>i386/bitops.h\<close>), \<open>Pool\<close> (\<^verbatim>\<open>kernel/pool.c\<close>):
    the data structures. The state is the C structure as a record; \<open>ring_list\<close>, \<open>dlist\<close>, \<open>bits\<close> and \<open>pool_rep\<close> are their abstractions to
    sequences, sets of bits and the sequence of free slots.
  \<^item> \<open>Ctype\<close>, \<open>Strings\<close>, \<open>Strtoull\<close>, \<open>Printf\<close>, \<open>Printf_Props\<close> (\<^verbatim>\<open>libc/ctype.c\<close>, \<^verbatim>\<open>string.c\<close>, \<^verbatim>\<open>printf.c\<close>): the C library.
  \<^item> \<open>Vga\<close>, \<open>Terminal\<close>, \<open>Terminal_Props\<close> (\<^verbatim>\<open>kernel/char/vga.c\<close>, \<^verbatim>\<open>terminal.c\<close>): registers of the adapter, and the state machine of the
    virtual terminals over a frame buffer.
  \<^item> \<open>Ldisc\<close>, \<open>Serial\<close> (\<^verbatim>\<open>tty_ldisc.c\<close>, \<^verbatim>\<open>serial.c\<close>): the line discipline over any driver, and the serial driver as one.
  \<^item> \<open>Console\<close>, \<open>Io\<close> (\<^verbatim>\<open>kernel/console.c\<close>, \<^verbatim>\<open>io.c\<close>): the kernel log and the reservations of I/O ports.
  \<^item> \<open>Files\<close>, \<open>Files_Props\<close>, \<open>Files_Init\<close>, \<open>Files_Thms\<close> (\<^verbatim>\<open>fs.c\<close>, \<^verbatim>\<open>open.c\<close>, \<^verbatim>\<open>sys.c\<close>, \<^verbatim>\<open>task.c\<close>, \<^verbatim>\<open>char.c\<close>, \<^verbatim>\<open>tty.c\<close>): descriptors, files, device
    nodes and ttys; one record \<open>kernel\<close> holds the tables, pools and devices.
  \<^item> \<open>Ioctl\<close>, \<open>Tty_Ioctl\<close> (\<^verbatim>\<open>ioctl.h\<close>, \<^verbatim>\<open>ioctls.h\<close>, and the requests in \<^verbatim>\<open>tty.c\<close> and \<^verbatim>\<open>serial.c\<close>): request numbers, user memory, terminal settings, modem lines.
  \<^item> \<open>Irq\<close>, \<open>Timer\<close> (\<^verbatim>\<open>i386/kernel/pic.c\<close>, \<^verbatim>\<open>timer.c\<close>, \<^verbatim>\<open>kernel/irq.c\<close>): interrupts, interval timer and speaker.
  \<^item> \<open>Rtc\<close> (\<^verbatim>\<open>kernel/char/rtc.c\<close>): the real-time clock.
  \<^item> \<open>Ps2\<close>, \<open>Keyboard\<close>, \<open>Keyboard_Props\<close> (\<^verbatim>\<open>ps2.c\<close>, \<^verbatim>\<open>ps2kb.c\<close>, \<^verbatim>\<open>input.h\<close>): the controller, and the way from scan codes to characters.
  \<^item> \<open>Paging\<close>, \<open>Memmap\<close>, \<open>X86\<close> (\<^verbatim>\<open>paging.h\<close>, \<^verbatim>\<open>i386/kernel/pgtbl.c\<close>, \<^verbatim>\<open>kernel/mm.c\<close>, \<^verbatim>\<open>x86.h\<close>, \<^verbatim>\<open>i386/kernel/x86.c\<close>, \<^verbatim>\<open>cpu.c\<close>): page tables in a byte
    memory, the map of the physical memory, descriptors as 64-bit values and the tables of the processor.
  \<^item> \<open>Gdb\<close>, \<open>Gdb_Props\<close> (\<^verbatim>\<open>i386/kernel/gdbstub.c\<close>): the debugger stub over the model of the UART of \<open>Serial\<close>, with the loops that may not end as
    partial functions.
  \<^item> \<open>Fat_Disk\<close>, \<open>Fat_Disk_Props\<close> (\<^verbatim>\<open>tools/fatfs/FatDisk.cpp\<close>): disk images; the geometry, the clusters, and the files stored in chains of them.
  \<^item> \<open>Fat_Table\<close>, \<open>Fat_Dir\<close>, \<open>Fat_Short\<close>, \<open>Fat_Long\<close> (\<^verbatim>\<open>tools/fatfs/fat.c\<close>, \<^verbatim>\<open>fat.h\<close>): tables, directory entries, short and long names.

  \<^bold>\<open>Conventions.\<close> Unsigned integers and pointers are words of their width, so that they wrap as in C; signed integers are \<open>int\<close>, and an
  operation that overflows has no result. \<open>None\<close> means that the code does not return normally: a failed assertion, \<open>panic\<close>, an
  access outside of an array, undefined behaviour. Error codes are the negative numbers the code returns. Loops are structural
  recursions or functions with a termination proof. There is fuel in one place: the tab loop of the terminal takes at most 81 steps, more
  than the 80 columns it can cross. The counts \<open>PS2_IO_TIMEOUT\<close> and \<open>RETRY_COUNT\<close> are the bounds of the code itself.

  \<^bold>\<open>Hardware and other parameters.\<close> What lies behind an I/O port is not code of this repository. The UART is a function from the history of
  accesses to the next value read; the PS/2 devices are a function from the bytes sent to them to the answers and their delay; the VGA
  adapter, the interrupt controllers, the timer and the clock chip are the registers behind their ports. \<open>iswspace\<close>, \<open>mktime\<close> and the local time
  of the host are arguments of the definitions that use them. Theorems that need more of a parameter say so (\<open>prompt_kb\<close>, \<open>port_ready\<close>), with
  witnesses that instantiate it.

  \<^bold>\<open>Interfaces.\<close> \<open>bounded_deque\<close> (interpreted by the ring), \<open>node_lists\<close> (by the linked lists), \<open>slot_allocator\<close> (by the pools),
  \<open>cluster_table\<close> (by FAT12 and FAT16), \<open>tty_output\<close> (what the line discipline relies on, interpreted by the serial driver), \<open>char_sink\<close> and
  \<open>counting_sink\<close> (what \<open>_doprintf\<close> relies on, interpreted by the output functions of \<open>sprintf\<close>, \<open>snprintf\<close> and \<open>printf\<close>).
  Sequences of operations are step relations: \<open>syscall\<close> for the calls on files, \<open>irq_step\<close> for masking and unmasking of interrupt lines.

  \<^bold>\<open>What is shown.\<close>
  \<^item> Data structures: the ring refines a bounded double-ended list; pools hand out fresh disjoint blocks and detect bad and double
    frees; the list operations act on sequences; the bit operations change one bit; port reservations stay ordered and disjoint.
  \<^item> Files: every open descriptor of every task has a file structure of its own after any sequence of calls; open, close,
    dup and their errors; text written to a freshly opened serial device is queued for the wire with its line ends translated.
  \<^item> Devices: writing, echoing, receiving and flow control of the line discipline over the serial driver; transmission in order; safety of
    the terminal for every character in every state, with the exact exceptions; cursor addressing; text typed on a US
    keyboard arrives as typed, and every scan code is handled; the time of the clock reads back as set, in all formats of the chip.
  \<^item> Interrupts: an interrupt calls every handler of its line once; the initial masks cut off the second controller.
  \<^item> Printing: the formatted text of every well-formed format, buffer limits, the number layout, and printing followed by parsing.
  \<^item> FAT: entries are independent although they share bytes; chains, directory entries, short and long names read back as stored.
  \<^item> Disk images: a written file is read back, its chain has the needed length, and no other file changes.
  \<^item> Processor and memory: descriptors and page table entries hold what they are made of; after the setup every vector has the right gate, and
    the boot tables map exactly the kernel's memory; the memory map adds up.
  \<^item> Debugger: a session of any requests is answered as an ideal machine would answer it and returns; packets survive negative acknowledgements.

  \<^bold>\<open>Not modelled.\<close>
  \<^item> Boot loader, entry code and the other assembly (\<^verbatim>\<open>boot/\<close>, \<^verbatim>\<open>setup.S\<close>, \<^verbatim>\<open>entry.S\<close>): instructions, not C; \<open>main.c\<close> only calls the
    initialisations in order.
  \<^item> The crash screen (\<^verbatim>\<open>crash.c\<close>) only prints the state of the processor; instructions that load tables into the processor are assignments to
    its state.
  \<^item> The commands of the fatfs tool (\<^verbatim>\<open>Command*.cpp\<close>, \<^verbatim>\<open>main.cpp\<close>): argument parsing and messages of a host program around the functions that
    are modelled; of \<^verbatim>\<open>FatDisk.cpp\<close> the creation and opening of an image, path lookup and directory creation.
  \<^item> Of the serial driver the probing of the ports and the serial console; of the terminals the mapping of their frame buffers; of
    the console \<open>panic\<close> and the printers of boot information; \<open>strerror\<close>, a table of messages.
\<close>

end
